(* ===== verification/Twill_Prelude.thy ===== *)
theory Twill_Prelude
  imports Main "HOL-Library.Word" "HOL-Library.AList" "HOL-Library.Char_ord"
    "HOL-Library.List_Lexorder" "HOL-Library.Product_Lexorder"
begin

text \<open>
  Shared vocabulary of the development: bytes and little-endian integers, results,
  byte readers (the cursors of the hand-written codecs), association lists for the
  hash maps and tree maps of the source, ASCII case folding, UTF-8 validity and
  decimal rendering.

  Conventions.  A Rust \<^verbatim>\<open>u64\<close> counter (LSN, sequence number, id) is a \<open>nat\<close>; a cast
  \<^verbatim>\<open>as u32\<close> and \<^verbatim>\<open>to_le_bytes\<close> keep the low bytes, which \<open>le_encode\<close> does.  A Rust
  \<^verbatim>\<open>Result\<close> is a sum with the error on the left.  A Rust \<^verbatim>\<open>String\<close> is a HOL \<open>string\<close>
  of its UTF-8 bytes (a HOL \<open>char\<close> is one byte).
\<close>

section \<open>Types\<close>

type_synonym byte = "8 word"
type_synonym bytes = "8 word list"
type_synonym u32 = "32 word"
type_synonym u64 = "64 word"
type_synonym ('e, 'a) result = "'e + 'a"

named_theorems codec_simps \<open>facts that evaluate encoders and readers\<close>
named_theorems reads_intros \<open>round-trip facts of readers, composed by \<open>reads_bind\<close>\<close>
named_theorems op_defs \<open>definitions of the operations of the current component\<close>

section \<open>Little-endian integers\<close>

fun le_encode :: "nat \<Rightarrow> nat \<Rightarrow> bytes" where
  "le_encode 0 k = []"
| "le_encode (Suc n) k = word_of_nat (k mod 256) # le_encode n (k div 256)"

fun le_decode :: "bytes \<Rightarrow> nat" where
  "le_decode [] = 0"
| "le_decode (b # bs) = unat b + 256 * le_decode bs"

lemma length_le_encode [simp]: "length (le_encode n k) = n"
  by (induction n arbitrary: k) auto

lemma le_encode_eq_Nil [simp]: "le_encode n k = [] \<longleftrightarrow> n = 0"
  by (cases n) auto

lemma unat_byte_of_nat [simp]: "k < 256 \<Longrightarrow> unat (word_of_nat k :: byte) = k"
  by (simp add: unat_of_nat take_bit_eq_mod)

lemma unat_byte_less: "unat (b :: byte) < 256"
proof -
  have "unat b < 2 ^ LENGTH(8)"
    by (rule unsigned_less)
  then show ?thesis by simp
qed

lemma le_decode_encode_mod: "le_decode (le_encode n k) = k mod 256 ^ n"
proof (induction n arbitrary: k)
  case 0
  then show ?case by simp
next
  case (Suc n)
  have "k mod 256 ^ Suc n = k mod 256 + 256 * (k div 256 mod 256 ^ n)"
    using mod_mult2_eq [of k 256 "256 ^ n"] by simp
  with Suc show ?case by simp
qed

lemma le_decode_encode [simp]: "k < 256 ^ n \<Longrightarrow> le_decode (le_encode n k) = k"
  by (simp add: le_decode_encode_mod)

lemma le_decode_less: "le_decode bs < 256 ^ length bs"
proof (induction bs)
  case Nil
  then show ?case by simp
next
  case (Cons b bs)
  have "unat b < 256"
    by (rule unat_byte_less)
  with Cons show ?case by simp
qed

lemma le_encode_decode: "le_encode (length bs) (le_decode bs) = bs"
proof (induction bs)
  case Nil
  then show ?case by simp
next
  case (Cons b bs)
  have "unat b < 256"
    by (rule unat_byte_less)
  with Cons show ?case by simp
qed

lemma le_encode_inject:
  assumes "a < 256 ^ n" and "b < 256 ^ n"
  shows "le_encode n a = le_encode n b \<longleftrightarrow> a = b"
  using assms by (metis le_decode_encode)

text \<open>The two widths the code uses, as numerals.\<close>

lemma le_decode_encode4 [simp]: "k < 4294967296 \<Longrightarrow> le_decode (le_encode 4 k) = k"
  by (rule le_decode_encode) simp

lemma le_decode_encode8 [simp]: "k < 18446744073709551616 \<Longrightarrow> le_decode (le_encode 8 k) = k"
  by (rule le_decode_encode) simp

section \<open>Results\<close>

definition res_bind :: "('e, 'a) result \<Rightarrow> ('a \<Rightarrow> ('e, 'b) result) \<Rightarrow> ('e, 'b) result" where
  "res_bind r f = (case r of Inl e \<Rightarrow> Inl e | Inr x \<Rightarrow> f x)"

lemma res_bind_simps [simp]:
  "res_bind (Inl e) f = Inl e"
  "res_bind (Inr x) f = f x"
  by (simp_all add: res_bind_def)

lemma res_bind_eq_Inr [simp]:
  "res_bind r f = Inr y \<longleftrightarrow> (\<exists>x. r = Inr x \<and> f x = Inr y)"
  by (cases r) auto

section \<open>Byte readers\<close>

text \<open>
  A cursor over a byte buffer is the suffix that is still to be read; a reader consumes
  a prefix of it or fails.
\<close>

type_synonym ('e, 'a) reader = "bytes \<Rightarrow> ('e, 'a \<times> bytes) result"

definition rd_ret :: "'a \<Rightarrow> ('e, 'a) reader" where
  "rd_ret x bs = Inr (x, bs)"

definition rd_fail :: "'e \<Rightarrow> ('e, 'a) reader" where
  "rd_fail e bs = Inl e"

definition rd_bind :: "('e, 'a) reader \<Rightarrow> ('a \<Rightarrow> ('e, 'b) reader) \<Rightarrow> ('e, 'b) reader" where
  "rd_bind p f bs = (case p bs of Inl e \<Rightarrow> Inl e | Inr (x, rest) \<Rightarrow> f x rest)"

definition rd_take :: "'e \<Rightarrow> nat \<Rightarrow> ('e, bytes) reader" where
  "rd_take e n bs = (if length bs < n then Inl e else Inr (take n bs, drop n bs))"

definition rd_u8 :: "'e \<Rightarrow> ('e, byte) reader" where
  "rd_u8 e = rd_bind (rd_take e 1) (\<lambda>b. rd_ret (hd b))"

definition rd_u32 :: "'e \<Rightarrow> ('e, nat) reader" where
  "rd_u32 e = rd_bind (rd_take e 4) (\<lambda>b. rd_ret (le_decode b))"

definition rd_u64 :: "'e \<Rightarrow> ('e, nat) reader" where
  "rd_u64 e = rd_bind (rd_take e 8) (\<lambda>b. rd_ret (le_decode b))"

fun rd_repeat :: "nat \<Rightarrow> ('e, 'a) reader \<Rightarrow> ('e, 'a list) reader" where
  "rd_repeat 0 p = rd_ret []"
| "rd_repeat (Suc n) p = rd_bind p (\<lambda>x. rd_bind (rd_repeat n p) (\<lambda>xs. rd_ret (x # xs)))"

text \<open>\<open>reads p bs x\<close>: on any input that starts with \<open>bs\<close> the reader returns \<open>x\<close> and
  leaves exactly what follows \<open>bs\<close>.\<close>

definition reads :: "('e, 'a) reader \<Rightarrow> bytes \<Rightarrow> 'a \<Rightarrow> bool" where
  "reads p bs x \<longleftrightarrow> (\<forall>rest. p (bs @ rest) = Inr (x, rest))"

lemma readsD: "reads p bs x \<Longrightarrow> p (bs @ rest) = Inr (x, rest)"
  by (simp add: reads_def)

lemma readsD_Nil: "reads p bs x \<Longrightarrow> p bs = Inr (x, [])"
  using readsD [of p bs x "[]"] by simp

lemma reads_ret [reads_intros]: "reads (rd_ret x) [] x"
  by (simp add: reads_def rd_ret_def)

lemma reads_bind:
  assumes "reads p bs x" and "reads (f x) cs y"
  shows "reads (rd_bind p f) (bs @ cs) y"
  using assms by (simp add: reads_def rd_bind_def)

lemma reads_bind_ret:
  assumes "reads p bs x"
  shows "reads (rd_bind p (\<lambda>x. rd_ret (g x))) bs (g x)"
  using assms by (simp add: reads_def rd_bind_def rd_ret_def)

lemma reads_take [reads_intros]: "length bs = n \<Longrightarrow> reads (rd_take e n) bs bs"
  by (auto simp: reads_def rd_take_def)

lemma reads_u8 [reads_intros]: "reads (rd_u8 e) [b] b"
  by (simp add: reads_def rd_u8_def rd_bind_def rd_take_def rd_ret_def)

lemma reads_u32 [reads_intros]: "k < 2 ^ 32 \<Longrightarrow> reads (rd_u32 e) (le_encode 4 k) k"
  by (auto simp: reads_def rd_u32_def rd_bind_def rd_take_def rd_ret_def)

lemma reads_u64 [reads_intros]: "k < 2 ^ 64 \<Longrightarrow> reads (rd_u64 e) (le_encode 8 k) k"
  by (auto simp: reads_def rd_u64_def rd_bind_def rd_take_def rd_ret_def)

lemma reads_repeat:
  assumes "\<And>x. x \<in> set xs \<Longrightarrow> reads p (enc x) x" and "n = length xs"
  shows "reads (rd_repeat n p) (concat (map enc xs)) xs"
  using assms
proof (induction xs arbitrary: n)
  case Nil
  then show ?case by (simp add: reads_ret)
next
  case (Cons x xs)
  have hd: "reads p (enc x) x"
    using Cons.prems(1) by simp
  have tl: "reads (rd_repeat (length xs) p) (concat (map enc xs)) xs"
    using Cons.prems(1) by (intro Cons.IH) auto
  have "reads (rd_bind (rd_repeat (length xs) p) (\<lambda>ys. rd_ret (x # ys))) (concat (map enc xs)) (x # xs)"
    using tl by (rule reads_bind_ret)
  with hd have "reads (rd_repeat (Suc (length xs)) p) (enc x @ concat (map enc xs)) (x # xs)"
    by (simp add: reads_bind)
  then show ?case using Cons.prems(2) by simp
qed

text \<open>A reader never grows its input.\<close>

lemma rd_take_length: "rd_take e n bs = Inr (x, rest) \<Longrightarrow> length rest + n = length bs \<and> length x = n"
  by (auto simp: rd_take_def split: if_splits)

section \<open>Codecs\<close>

text \<open>
  The interface between an encoder and the reader that inverts it; the length-prefixed
  lists that the record formats are made of are proved once for every element codec.
\<close>

locale codec =
  fixes enc :: "'a \<Rightarrow> bytes" and dec :: "('e, 'a) reader" and valid :: "'a \<Rightarrow> bool"
  assumes reads_enc: "valid x \<Longrightarrow> reads dec (enc x) x"
begin

lemma dec_enc: "valid x \<Longrightarrow> dec (enc x @ rest) = Inr (x, rest)"
  using reads_enc by (rule readsD)

lemma enc_inject:
  assumes "valid x" and "valid y" and "enc x = enc y"
  shows "x = y"
  using dec_enc [OF assms(1), of "[]"] dec_enc [OF assms(2), of "[]"] assms(3) by simp

lemma reads_many:
  assumes "\<forall>x\<in>set xs. valid x" and "n = length xs"
  shows "reads (rd_repeat n dec) (concat (map enc xs)) xs"
  using assms by (intro reads_repeat reads_enc) auto

lemma reads_counted:
  assumes "\<forall>x\<in>set xs. valid x" and "length xs < 2 ^ 32"
  shows "reads (rd_bind (rd_u32 e) (\<lambda>n. rd_repeat n dec))
           (le_encode 4 (length xs) @ concat (map enc xs)) xs"
  using assms by (intro reads_bind [OF reads_u32 reads_many]) auto

end

section \<open>Association lists for hash and tree maps\<close>

text \<open>A \<^verbatim>\<open>HashMap\<close> is an association list with one entry per key.  Where the source iterates
  it, either the result is sorted or the order does not matter.\<close>

abbreviation hm_get :: "('k \<times> 'v) list \<Rightarrow> 'k \<Rightarrow> 'v option" where
  "hm_get \<equiv> map_of"

abbreviation hm_insert :: "'k \<Rightarrow> 'v \<Rightarrow> ('k \<times> 'v) list \<Rightarrow> ('k \<times> 'v) list" where
  "hm_insert \<equiv> AList.update"

abbreviation hm_remove :: "'k \<Rightarrow> ('k \<times> 'v) list \<Rightarrow> ('k \<times> 'v) list" where
  "hm_remove \<equiv> AList.delete"

definition hm_values :: "('k \<times> 'v) list \<Rightarrow> 'v list" where
  "hm_values m = map snd m"

definition hm_wf :: "('k \<times> 'v) list \<Rightarrow> bool" where
  "hm_wf m \<longleftrightarrow> distinct (map fst m)"

lemma hm_get_insert [simp]: "hm_get (hm_insert k v m) = (hm_get m)(k \<mapsto> v)"
  by (rule update_conv')

lemma hm_get_remove [simp]: "hm_get (hm_remove k m) = (hm_get m)(k := None)"
  by (rule delete_conv')

lemma hm_wf_Nil [simp]: "hm_wf []"
  by (simp add: hm_wf_def)

lemma hm_wf_insert [simp]: "hm_wf m \<Longrightarrow> hm_wf (hm_insert k v m)"
  by (simp add: hm_wf_def distinct_update)

lemma hm_wf_remove [simp]: "hm_wf m \<Longrightarrow> hm_wf (hm_remove k m)"
  by (simp add: hm_wf_def distinct_delete)

lemma set_hm_values: "hm_wf m \<Longrightarrow> set (hm_values m) = ran (hm_get m)"
  by (force simp: hm_wf_def hm_values_def ran_def)

text \<open>A \<^verbatim>\<open>BTreeMap\<close> is a list sorted by key.\<close>

fun bt_insert :: "'k::linorder \<Rightarrow> 'v \<Rightarrow> ('k \<times> 'v) list \<Rightarrow> ('k \<times> 'v) list" where
  "bt_insert k v [] = [(k, v)]"
| "bt_insert k v ((k', v') # m) =
     (if k < k' then (k, v) # (k', v') # m
      else if k = k' then (k, v) # m
      else (k', v') # bt_insert k v m)"

definition bt_wf :: "('k::linorder \<times> 'v) list \<Rightarrow> bool" where
  "bt_wf m \<longleftrightarrow> sorted_wrt (<) (map fst m)"

lemma bt_wf_Nil [simp]: "bt_wf []"
  by (simp add: bt_wf_def)

lemma fst_set_bt_insert: "fst ` set (bt_insert k v m) = insert k (fst ` set m)"
  by (induction k v m rule: bt_insert.induct) auto

lemma bt_wf_insert [simp]: "bt_wf m \<Longrightarrow> bt_wf (bt_insert k v m)"
proof (induction k v m rule: bt_insert.induct)
  case (1 k v)
  then show ?case by (simp add: bt_wf_def)
next
  case (2 k v k' v' m)
  have "\<And>x. x \<in> fst ` set (bt_insert k v m) \<Longrightarrow> x = k \<or> x \<in> fst ` set m"
    by (simp add: fst_set_bt_insert)
  with 2 show ?case
    by (fastforce simp: bt_wf_def)
qed

lemma map_of_bt_insert [simp]: "bt_wf m \<Longrightarrow> map_of (bt_insert k v m) = (map_of m)(k \<mapsto> v)"
proof (induction k v m rule: bt_insert.induct)
  case (1 k v)
  then show ?case by auto
next
  case (2 k v k' v' m)
  then show ?case by (auto simp: bt_wf_def fun_eq_iff)
qed

lemma bt_wf_distinct: "bt_wf m \<Longrightarrow> distinct (map fst m)"
  by (simp add: bt_wf_def strict_sorted_iff)

section \<open>Lists\<close>

lemma filter_upt_greater: "filter (\<lambda>l. a < l) [b..<c] = [max b (Suc a)..<c]"
  by (induction c) (auto simp: max_def not_less_eq_eq upt_conv_Nil)

lemma last_upt_Suc: "0 < n \<Longrightarrow> last [a..<a + n] = a + n - 1"
  by (cases n) auto

text \<open>Rust's \<^verbatim>\<open>iter().rev().find(p)\<close>: the last element that satisfies \<open>p\<close>.\<close>

definition find_last :: "('a \<Rightarrow> bool) \<Rightarrow> 'a list \<Rightarrow> 'a option" where
  "find_last p xs = find p (rev xs)"

lemma find_last_snoc: "find_last p (xs @ [x]) = (if p x then Some x else find_last p xs)"
  by (simp add: find_last_def)

lemma find_last_Nil [simp]: "find_last p [] = None"
  by (simp add: find_last_def)

lemma find_last_None: "find_last p xs = None \<longleftrightarrow> (\<forall>x\<in>set xs. \<not> p x)"
  by (auto simp: find_last_def find_None_iff)

lemma find_last_greatest:
  assumes "sorted_wrt (\<lambda>a b. f a < (f b :: nat)) xs" and "find_last p xs = Some x"
  shows "x \<in> set xs \<and> p x \<and> (\<forall>y\<in>set xs. p y \<longrightarrow> f y \<le> f x)"
  using assms
proof (induction xs rule: rev_induct)
  case Nil
  then show ?case by simp
next
  case (snoc z zs)
  then show ?case
    by (auto simp: find_last_snoc sorted_wrt_append split: if_splits intro: less_imp_le)
qed

section \<open>ASCII strings\<close>

definition lower_char :: "char \<Rightarrow> char" where
  "lower_char c = (let n = of_char c :: nat in
     if 65 \<le> n \<and> n \<le> 90 then char_of (n + 32) else c)"

definition to_ascii_lowercase :: "string \<Rightarrow> string" where
  "to_ascii_lowercase s = map lower_char s"

definition eq_ignore_ascii_case :: "string \<Rightarrow> string \<Rightarrow> bool" where
  "eq_ignore_ascii_case a b \<longleftrightarrow> to_ascii_lowercase a = to_ascii_lowercase b"

lemma lower_char_idem [simp]: "lower_char (lower_char c) = lower_char c"
proof -
  have n: "\<And>n::nat. n < 256 \<Longrightarrow> of_char (char_of n :: char) = n"
    by (simp add: of_char_of)
  show ?thesis
    by (auto simp: lower_char_def Let_def n)
qed

lemma to_ascii_lowercase_idem [simp]: "to_ascii_lowercase (to_ascii_lowercase s) = to_ascii_lowercase s"
  by (simp add: to_ascii_lowercase_def comp_def)

lemma eq_ignore_ascii_case_refl [simp]: "eq_ignore_ascii_case a a"
  by (simp add: eq_ignore_ascii_case_def)

lemma eq_ignore_ascii_case_sym: "eq_ignore_ascii_case a b \<longleftrightarrow> eq_ignore_ascii_case b a"
  by (auto simp: eq_ignore_ascii_case_def)

definition bytes_of_string :: "string \<Rightarrow> bytes" where
  "bytes_of_string s = map (\<lambda>c. word_of_nat (of_char c)) s"

definition string_of_bytes :: "bytes \<Rightarrow> string" where
  "string_of_bytes bs = map (\<lambda>b. char_of (unat b)) bs"

lemma of_char_less_256: "(of_char c :: nat) < 256"
  by simp

lemma string_of_bytes_of_string [simp]: "string_of_bytes (bytes_of_string s) = s"
  by (induction s) (simp_all add: string_of_bytes_def bytes_of_string_def of_char_less_256)

lemma length_bytes_of_string [simp]: "length (bytes_of_string s) = length s"
  by (simp add: bytes_of_string_def)

text \<open>\<^verbatim>\<open>String::from_utf8\<close> accepts exactly the well-formed byte sequences of the Unicode
  standard's Table 3-7.\<close>

fun valid_utf8 :: "bytes \<Rightarrow> bool" where
  "valid_utf8 [] = True"
| "valid_utf8 (a # bs) =
     (let cont = (\<lambda>b::byte. 0x80 \<le> b \<and> b \<le> 0xBF) in
      if a \<le> 0x7F then valid_utf8 bs
      else if 0xC2 \<le> a \<and> a \<le> 0xDF then
        (case bs of b # r \<Rightarrow> cont b \<and> valid_utf8 r | _ \<Rightarrow> False)
      else if 0xE0 \<le> a \<and> a \<le> 0xEF then
        (case bs of b # c # r \<Rightarrow>
           (if a = 0xE0 then 0xA0 \<le> b \<and> b \<le> 0xBF
            else if a = 0xED then 0x80 \<le> b \<and> b \<le> 0x9F else cont b) \<and> cont c \<and> valid_utf8 r
         | _ \<Rightarrow> False)
      else if 0xF0 \<le> a \<and> a \<le> 0xF4 then
        (case bs of b # c # d # r \<Rightarrow>
           (if a = 0xF0 then 0x90 \<le> b \<and> b \<le> 0xBF
            else if a = 0xF4 then 0x80 \<le> b \<and> b \<le> 0x8F else cont b) \<and> cont c \<and> cont d \<and> valid_utf8 r
         | _ \<Rightarrow> False)
      else False)"

section \<open>Decimal numerals\<close>

definition dec_digit :: "nat \<Rightarrow> char" where
  "dec_digit d = char_of (48 + d)"

fun dec_string :: "nat \<Rightarrow> string" where
  "dec_string n = (if n < 10 then [dec_digit n] else dec_string (n div 10) @ [dec_digit (n mod 10)])"

declare dec_string.simps [simp del]

section \<open>Splitting strings\<close>

text \<open>\<^verbatim>\<open>strip_prefix\<close>, \<^verbatim>\<open>split_once\<close> and the first part of \<^verbatim>\<open>split(c)\<close>.\<close>

definition strip_prefix :: "string \<Rightarrow> string \<Rightarrow> string option" where
  "strip_prefix p s = (if take (length p) s = p then Some (drop (length p) s) else None)"

fun split_once :: "string \<Rightarrow> string \<Rightarrow> (string \<times> string) option" where
  "split_once p [] = (if p = [] then Some ([], []) else None)"
| "split_once p (c # s) =
     (case strip_prefix p (c # s) of
        Some rest \<Rightarrow> Some ([], rest)
      | None \<Rightarrow> map_option (\<lambda>(a, b). (c # a, b)) (split_once p s))"

definition before_char :: "char \<Rightarrow> string \<Rightarrow> string" where
  "before_char c s = takeWhile (\<lambda>x. x \<noteq> c) s"

lemma strip_prefix_append [simp]: "strip_prefix p (p @ s) = Some s"
  by (simp add: strip_prefix_def)

end
