(* ===== verification/Crc32.thy ===== *)
theory Crc32
  imports Twill_Prelude
begin

text \<open>
  The CRC-32 (IEEE 802.3) of \<^verbatim>\<open>crates/storage/src/local.rs\<close> and
  \<^verbatim>\<open>crates/storage/src/object/codec.rs\<close> (the two files carry the same routine): the
  table built on first use, the table-driven loop, and the variant over a tag byte
  followed by a payload.  The lemmas show that the table-driven loop computes the
  bit-by-bit polynomial division and that no change of a single byte goes undetected.
\<close>

unbundle bit_operations_syntax

section \<open>The routine\<close>

text \<open>One bit of the table's inner loop.\<close>

definition crc_step :: "u32 \<Rightarrow> u32" where
  "crc_step c = (if c AND 1 \<noteq> 0 then 0xEDB88320 XOR drop_bit 1 c else drop_bit 1 c)"

definition crc32_entry :: "nat \<Rightarrow> u32" where
  "crc32_entry i = (crc_step ^^ 8) (word_of_nat i)"

definition crc32_table :: "u32 list" where
  "crc32_table = map crc32_entry [0..<256]"

definition crc32_update :: "u32 \<Rightarrow> byte \<Rightarrow> u32" where
  "crc32_update crc b = (crc32_table ! unat ((crc XOR ucast b) AND 0xFF)) XOR drop_bit 8 crc"

definition crc32 :: "bytes \<Rightarrow> u32" where
  "crc32 data = foldl crc32_update 0xFFFFFFFF data XOR 0xFFFFFFFF"

definition crc32_pair :: "byte \<Rightarrow> bytes \<Rightarrow> u32" where
  "crc32_pair tag payload =
     foldl crc32_update (crc32_update 0xFFFFFFFF tag) payload XOR 0xFFFFFFFF"

text \<open>The reference: eight division steps per byte, no table.\<close>

definition crc32_bitwise :: "bytes \<Rightarrow> u32" where
  "crc32_bitwise data =
     foldl (\<lambda>crc b. (crc_step ^^ 8) (crc XOR ucast b)) 0xFFFFFFFF data XOR 0xFFFFFFFF"

section \<open>The table computes eight division steps\<close>

lemma crc_step_bit0: "crc_step c = (if bit c 0 then 0xEDB88320 XOR drop_bit 1 c else drop_bit 1 c)"
proof -
  have "c AND 1 \<noteq> 0 \<longleftrightarrow> bit c 0"
    by (simp add: and_one_eq bit_0 odd_iff_mod_2_eq_one)
  then show ?thesis
    by (simp add: crc_step_def)
qed

lemma crc_step_xor: "crc_step (a XOR b) = crc_step a XOR crc_step b"
  by (auto simp: crc_step_bit0 bit_xor_iff drop_bit_xor ac_simps)

lemma crc_steps_xor: "(crc_step ^^ n) (a XOR b) = (crc_step ^^ n) a XOR (crc_step ^^ n) b"
  by (induction n) (simp_all add: crc_step_xor)

lemma crc_steps_low_zero:
  assumes "take_bit n c = 0"
  shows "(crc_step ^^ n) c = drop_bit n c"
  using assms
proof (induction n arbitrary: c)
  case 0
  then show ?case by simp
next
  case (Suc n)
  have b0: "\<not> bit c 0"
  proof
    assume "bit c 0"
    then have "bit (take_bit (Suc n) c) 0"
      by (simp add: bit_take_bit_iff)
    with Suc.prems show False by simp
  qed
  have "take_bit n (drop_bit 1 c) = drop_bit 1 (take_bit (Suc n) c)"
    by (simp add: drop_bit_take_bit)
  then have tl: "take_bit n (drop_bit 1 c) = 0"
    using Suc.prems by simp
  have "(crc_step ^^ Suc n) c = (crc_step ^^ n) (crc_step c)"
    by (simp only: funpow_Suc_right o_apply)
  also have "\<dots> = (crc_step ^^ n) (drop_bit 1 c)"
    using b0 by (simp add: crc_step_bit0)
  also have "\<dots> = drop_bit n (drop_bit 1 c)"
    using tl by (rule Suc.IH)
  finally show ?case
    by simp
qed

lemma crc32_table_nth: "i < 256 \<Longrightarrow> crc32_table ! i = (crc_step ^^ 8) (word_of_nat i)"
  by (simp add: crc32_table_def crc32_entry_def)

lemma and_255_less: "unat (x AND 255 :: u32) < 256"
proof -
  have "x AND 255 = take_bit 8 x"
    using take_bit_eq_mask [of 8 x] by (simp add: mask_eq_exp_minus_1)
  moreover have "unat (take_bit 8 x) < 2 ^ 8"
    by (simp only: unsigned_take_bit_eq take_bit_nat_less_exp)
  ultimately show ?thesis by simp
qed

lemma crc32_update_bitwise: "crc32_update crc b = (crc_step ^^ 8) (crc XOR ucast b)"
proof -
  define x where "x = crc XOR ucast b"
  define lo where "lo = x AND 255"
  define hi where "hi = x XOR lo"
  have lo: "lo = take_bit 8 x"
    using take_bit_eq_mask [of 8 x] by (simp add: lo_def mask_eq_exp_minus_1)
  have hi0: "take_bit 8 hi = 0"
    by (simp add: hi_def lo take_bit_xor)
  have hi8: "drop_bit 8 hi = drop_bit 8 crc"
  proof -
    have "drop_bit 8 (ucast b :: u32) = 0"
    proof (rule bit_eqI)
      fix n
      have "\<not> bit b (8 + n)"
        using bit_imp_le_length [of b "8 + n"] by auto
      then show "bit (drop_bit 8 (ucast b :: u32)) n \<longleftrightarrow> bit (0 :: u32) n"
        by (simp add: bit_simps)
    qed
    moreover have "drop_bit 8 lo = 0"
      by (simp add: lo drop_bit_take_bit)
    ultimately show ?thesis
      by (simp add: hi_def x_def drop_bit_xor)
  qed
  have "x = lo XOR hi"
    by (simp add: hi_def xor.left_commute [of lo x lo])
  then have "(crc_step ^^ 8) x = (crc_step ^^ 8) lo XOR (crc_step ^^ 8) hi"
    using crc_steps_xor [of 8 lo hi] by simp
  also have "(crc_step ^^ 8) hi = drop_bit 8 crc"
    using crc_steps_low_zero [OF hi0] hi8 by simp
  also have "(crc_step ^^ 8) lo = crc32_table ! unat lo"
    using crc32_table_nth [of "unat lo"] and_255_less [of x] by (simp add: lo_def)
  finally show ?thesis
    by (simp add: crc32_update_def x_def lo_def)
qed

text \<open>C7: the table-driven CRC-32 loop of both storage backends computes, on every input,
  the bit-by-bit division by the polynomial \<^verbatim>\<open>0xEDB88320\<close>; in particular every table access
  is in range.\<close>

theorem crc32_table_driven_is_bitwise: "crc32 data = crc32_bitwise data"
proof -
  have "crc32_update = (\<lambda>crc b. (crc_step ^^ 8) (crc XOR ucast b))"
    by (intro ext) (rule crc32_update_bitwise)
  then show ?thesis
    by (simp add: crc32_def crc32_bitwise_def)
qed

lemma crc32_pair_eq: "crc32_pair tag payload = crc32 (tag # payload)"
  by (simp add: crc32_pair_def crc32_def)

section \<open>Error detection\<close>

lemma bit_poly_31: "bit (0xEDB88320 :: u32) 31"
  by simp

lemma bit_crc_step_31: "bit (crc_step c) 31 \<longleftrightarrow> bit c 0"
proof -
  have "\<not> bit c 32"
    using bit_imp_le_length [of c 32] by auto
  then show ?thesis
    by (auto simp: crc_step_bit0 bit_xor_iff bit_drop_bit_eq)
qed

lemma xor_left_cancel_u32: "(c XOR a = c XOR (b :: u32)) \<longleftrightarrow> a = b"
proof
  assume "c XOR a = c XOR b"
  then have "c XOR (c XOR a) = c XOR (c XOR b)" by simp
  then show "a = b" by (simp flip: xor.assoc)
qed simp

lemma xor_right_cancel_u32: "(a XOR c = b XOR (c :: u32)) \<longleftrightarrow> a = b"
  by (simp only: xor.commute [of _ c] xor_left_cancel_u32)

lemma inj_crc_step: "inj crc_step"
proof (rule injI)
  fix a b :: u32
  assume eq: "crc_step a = crc_step b"
  have b0: "bit a 0 \<longleftrightarrow> bit b 0"
    using eq bit_crc_step_31 by metis
  have drops: "drop_bit 1 a = drop_bit 1 b"
    using eq b0 by (simp add: crc_step_bit0 xor_left_cancel_u32 split: if_splits)
  show "a = b"
  proof (rule bit_eqI)
    fix n
    show "bit a n \<longleftrightarrow> bit b n"
    proof (cases n)
      case 0
      with b0 show ?thesis by simp
    next
      case (Suc m)
      then have "bit a n = bit (drop_bit 1 a) m" and "bit b n = bit (drop_bit 1 b) m"
        by (simp_all add: bit_drop_bit_eq)
      with drops show ?thesis by simp
    qed
  qed
qed

lemma inj_crc_steps: "inj (crc_step ^^ n)"
proof (induction n)
  case 0
  then show ?case by simp
next
  case (Suc n)
  then show ?case
    using inj_compose [OF inj_crc_step Suc] by (simp add: comp_def)
qed

lemma crc32_update_inj_crc: "crc32_update a b = crc32_update a' b \<longleftrightarrow> a = a'"
  by (simp only: crc32_update_bitwise inj_eq [OF inj_crc_steps] xor_right_cancel_u32)

lemma ucast_byte_inject: "((ucast b :: u32) = ucast b') \<longleftrightarrow> b = (b' :: byte)"
proof
  assume "(ucast b :: u32) = ucast b'"
  then have "unat (ucast b :: u32) = unat (ucast b' :: u32)" by simp
  then have "unat b = unat b'"
    using unat_byte_less [of b] unat_byte_less [of b']
    by (simp add: unsigned_ucast_eq take_bit_eq_mod)
  then show "b = b'" by (simp only: word_unat_eq_iff)
qed simp

lemma crc32_update_inj_byte: "crc32_update a b = crc32_update a b' \<longleftrightarrow> b = b'"
  by (simp only: crc32_update_bitwise inj_eq [OF inj_crc_steps] xor_left_cancel_u32 ucast_byte_inject)

lemma crc32_fold_inj: "foldl crc32_update a data = foldl crc32_update a' data \<longleftrightarrow> a = a'"
  by (induction data arbitrary: a a') (simp_all add: crc32_update_inj_crc)

lemma crc32_single_byte:
  assumes "b \<noteq> b'"
  shows "crc32 (pre @ b # post) \<noteq> crc32 (pre @ b' # post)"
  using assms
  by (simp add: crc32_def xor_right_cancel_u32 crc32_fold_inj crc32_update_inj_byte)

lemma crc32_update_nth:
  assumes "i < length data" and "data ! i \<noteq> v"
  shows "crc32 (data[i := v]) \<noteq> crc32 data"
proof -
  have "data = take i data @ data ! i # drop (Suc i) data"
    using assms(1) by (simp add: id_take_nth_drop)
  moreover have "data[i := v] = take i data @ v # drop (Suc i) data"
    using assms(1) by (simp add: upd_conv_take_nth_drop)
  ultimately show ?thesis
    using crc32_single_byte [of v "data ! i"] assms(2) by metis
qed

text \<open>The stored form: the four little-endian bytes of the checksum.\<close>

definition crc_bytes :: "u32 \<Rightarrow> bytes" where
  "crc_bytes c = le_encode 4 (unat c)"

lemma unat_u32_less: "unat (c :: u32) < 2 ^ 32"
proof -
  have "unat c < 2 ^ LENGTH(32)"
    by (rule unsigned_less)
  then show ?thesis by simp
qed

lemma le_decode_crc_bytes [simp]: "le_decode (crc_bytes c) = unat c"
  using unat_u32_less [of c] by (simp add: crc_bytes_def)

lemma length_crc_bytes [simp]: "length (crc_bytes c) = 4"
  by (simp add: crc_bytes_def)

end
