(* ===== verification/Storage_Types.thy ===== *)
theory Storage_Types
  imports Twill_Prelude
begin

text \<open>
  The associated types of the storage seam (\<^verbatim>\<open>crates/storage/src/types.rs\<close>) and the seam
  itself (\<^verbatim>\<open>crates/storage/src/lib.rs\<close>, trait \<^verbatim>\<open>Storage\<close>).  A trait object is a record of
  its methods over the backend's state; a method returns its result and the new state.
  Error messages are left out of the error values; every constructor is kept.  The
  clock (\<^verbatim>\<open>Instant::now\<close>) is an argument of the methods that stamp a lease.
\<close>

section \<open>Types\<close>

definition PAGE_SIZE :: nat where
  "PAGE_SIZE = 4096"

record page =
  pg_id :: nat
  pg_lsn :: nat
  pg_bytes :: bytes

definition pad_page :: "bytes \<Rightarrow> bytes" where
  "pad_page data = (let n = min (length data) PAGE_SIZE in
     take n data @ replicate (PAGE_SIZE - n) 0)"

definition page_from_slice :: "nat \<Rightarrow> nat \<Rightarrow> bytes \<Rightarrow> page" where
  "page_from_slice pid lsn data = \<lparr>pg_id = pid, pg_lsn = lsn, pg_bytes = pad_page data\<rparr>"

type_synonym wal_record = bytes

record log_entry =
  le_lsn :: nat
  le_record :: wal_record

record storage_stats =
  wal_appends :: nat
  wal_bytes :: nat
  page_reads :: nat
  page_read_bytes :: nat
  cache_hits :: nat
  cache_misses :: nat
  fetch_latency_us_total :: nat
  fsyncs :: nat

definition stats_default :: storage_stats where
  "stats_default = \<lparr>wal_appends = 0, wal_bytes = 0, page_reads = 0, page_read_bytes = 0,
     cache_hits = 0, cache_misses = 0, fetch_latency_us_total = 0, fsyncs = 0\<rparr>"

record fence_token =
  ft_epoch :: nat
  ft_owner :: nat
  ft_lease_until :: nat

definition BRANCH_ROOT :: nat where
  "BRANCH_ROOT = 0"

record branch_ref =
  br_id :: nat
  br_parent :: nat
  br_base_lsn :: nat
  br_head_lsn :: nat

datatype storage_error =
    NotFound
  | Fenced (fenced_held: nat) (fenced_current: nat)
  | Contended
  | Transient
  | DurabilityUnconfirmed
  | Corruption
  | Invalid

definition is_retryable :: "storage_error \<Rightarrow> bool" where
  "is_retryable e \<longleftrightarrow> e = Transient \<or> e = Contended"

type_synonym 'a sres = "(storage_error, 'a) result"

section \<open>The seam\<close>

record 's storage =
  st_get_page :: "'s \<Rightarrow> nat \<Rightarrow> nat \<Rightarrow> page sres \<times> 's"
  st_append_wal :: "'s \<Rightarrow> fence_token \<Rightarrow> wal_record list \<Rightarrow> nat sres \<times> 's"
  st_put_page :: "'s \<Rightarrow> fence_token \<Rightarrow> nat \<Rightarrow> bytes \<Rightarrow> nat sres \<times> 's"
  st_scan_wal :: "'s \<Rightarrow> nat \<Rightarrow> log_entry list sres \<times> 's"
  st_flush :: "'s \<Rightarrow> unit sres \<times> 's"
  st_durable_lsn :: "'s \<Rightarrow> nat sres \<times> 's"
  st_get_commit_lsn :: "'s \<Rightarrow> nat sres \<times> 's"
  st_acquire_fence :: "'s \<Rightarrow> nat \<Rightarrow> nat \<Rightarrow> fence_token sres \<times> 's"
  st_renew_fence :: "'s \<Rightarrow> nat \<Rightarrow> fence_token \<Rightarrow> fence_token sres \<times> 's"
  st_release_fence :: "'s \<Rightarrow> fence_token \<Rightarrow> unit sres \<times> 's"
  st_create_branch :: "'s \<Rightarrow> string \<Rightarrow> nat \<Rightarrow> nat sres \<times> 's"
  st_resolve_branch :: "'s \<Rightarrow> nat \<Rightarrow> branch_ref sres \<times> 's"
  st_list_branches :: "'s \<Rightarrow> branch_ref list sres \<times> 's"
  st_delete_branch :: "'s \<Rightarrow> nat \<Rightarrow> unit sres \<times> 's"
  st_set_retention_floor :: "'s \<Rightarrow> nat \<Rightarrow> unit sres \<times> 's"
  st_pitr_floor :: "'s \<Rightarrow> nat sres \<times> 's"
  st_stats :: "'s \<Rightarrow> storage_stats"

text \<open>The default batch read: one \<^verbatim>\<open>get_page\<close> after the other, results in the order of the
  ids.\<close>

fun get_pages :: "'s storage \<Rightarrow> 's \<Rightarrow> nat list \<Rightarrow> nat \<Rightarrow> page sres list \<times> 's" where
  "get_pages ops s [] lsn = ([], s)"
| "get_pages ops s (i # ids) lsn =
     (let (r, s1) = st_get_page ops s i lsn;
          (rs, s2) = get_pages ops s1 ids lsn
      in (r # rs, s2))"

section \<open>Lemmas\<close>

lemma length_pad_page [simp]: "length (pad_page data) = PAGE_SIZE"
  by (simp add: pad_page_def Let_def)

lemma pad_page_take:
  "length data \<le> PAGE_SIZE \<Longrightarrow> take (length data) (pad_page data) = data"
  by (simp add: pad_page_def Let_def)

lemma pad_page_idem [simp]: "pad_page (pad_page data) = pad_page data"
  by (simp add: pad_page_def [of "pad_page data"] Let_def)

lemma length_get_pages: "length (fst (get_pages ops s ids lsn)) = length ids"
proof (induction ids arbitrary: s)
  case Nil
  then show ?case by simp
next
  case (Cons i ids)
  have "length (fst (get_pages ops (snd (st_get_page ops s i lsn)) ids lsn)) = length ids"
    by (rule Cons.IH)
  then show ?case by (simp add: split_beta Let_def)
qed

section \<open>The append contract\<close>

text \<open>
  What a client of the seam may rely on.  \<open>hist\<close> is the sequence of WAL entries the
  backend has acknowledged, \<open>nxt\<close> the next LSN it will assign and \<open>holds\<close> says which
  epoch currently owns the fence; \<open>ok\<close> is the backend's invariant.
\<close>

definition number_records :: "nat \<Rightarrow> wal_record list \<Rightarrow> log_entry list" where
  "number_records n rs = map (\<lambda>(l, r). \<lparr>le_lsn = l, le_record = r\<rparr>) (zip [n..<n + length rs] rs)"

lemma length_number_records [simp]: "length (number_records n rs) = length rs"
  by (simp add: number_records_def)

lemma map_le_record_number [simp]: "map le_record (number_records n rs) = rs"
  by (simp add: number_records_def split_beta comp_def map_snd_zip)

lemma map_le_lsn_number [simp]: "map le_lsn (number_records n rs) = [n..<n + length rs]"
  by (simp add: number_records_def split_beta comp_def map_fst_zip)

lemma number_records_append:
  "number_records n (xs @ ys) = number_records n xs @ number_records (n + length xs) ys"
proof -
  have "[n..<n + (length xs + length ys)] = [n..<n + length xs] @ [n + length xs..<n + length xs + length ys]"
    using upt_add_eq_append [of n "n + length xs" "length ys"] by (simp add: add.assoc)
  then show ?thesis
    by (simp add: number_records_def)
qed

lemma number_records_Cons:
  "number_records n (x # xs) = \<lparr>le_lsn = n, le_record = x\<rparr> # number_records (Suc n) xs"
  by (simp add: number_records_def upt_rec)

lemma number_records_Nil [simp]: "number_records n [] = []"
  by (simp add: number_records_def)

lemma number_records_lsn_bounds:
  "e \<in> set (number_records n rs) \<Longrightarrow> n \<le> le_lsn e \<and> le_lsn e < n + length rs"
proof -
  assume "e \<in> set (number_records n rs)"
  then have "le_lsn e \<in> set (map le_lsn (number_records n rs))"
    by (auto simp only: set_map)
  then show ?thesis by simp
qed

definition entries_after :: "nat \<Rightarrow> log_entry list \<Rightarrow> log_entry list" where
  "entries_after a es = filter (\<lambda>e. a < le_lsn e) es"

locale wal_storage =
  fixes ops :: "'s storage"
    and ok :: "'s \<Rightarrow> bool"
    and hist :: "'s \<Rightarrow> log_entry list"
    and nxt :: "'s \<Rightarrow> nat"
    and holds :: "'s \<Rightarrow> nat"
    and fits :: "'s \<Rightarrow> wal_record list \<Rightarrow> bool"
  assumes nxt_pos: "ok s \<Longrightarrow> 0 < nxt s"
    and hist_below: "ok s \<Longrightarrow> e \<in> set (hist s) \<Longrightarrow> 0 < le_lsn e \<and> le_lsn e < nxt s"
    and hist_sorted: "ok s \<Longrightarrow> sorted_wrt (<) (map le_lsn (hist s))"
    and scan_exact: "ok s \<Longrightarrow> st_scan_wal ops s a = (Inr es, s') \<Longrightarrow> es = entries_after a (hist s)"
    and append_exact: "ok s \<Longrightarrow> fits s rs \<Longrightarrow> st_append_wal ops s tok rs = (Inr l, s') \<Longrightarrow>
      rs \<noteq> [] \<and> ft_epoch tok = holds s \<and> ok s' \<and> l = nxt s + length rs - 1 \<and>
      hist s' = hist s @ number_records (nxt s) rs \<and> nxt s' = nxt s + length rs \<and> holds s' = holds s"
    and append_fenced: "ok s \<Longrightarrow> ft_epoch tok \<noteq> holds s \<Longrightarrow> isl (fst (st_append_wal ops s tok rs))"
    and acquire_exact: "ok s \<Longrightarrow> Suc (holds s) < 2 ^ 64 \<Longrightarrow>
      st_acquire_fence ops s now owner = (Inr tok, s') \<Longrightarrow>
      ok s' \<and> ft_epoch tok = Suc (holds s) \<and> holds s' = ft_epoch tok \<and> hist s' = hist s \<and> nxt s' = nxt s"
begin

text \<open>Runs of successful appends.\<close>

inductive appends :: "'s \<Rightarrow> wal_record list \<Rightarrow> 's \<Rightarrow> bool" where
  appends_Nil: "appends s [] s"
| appends_step: "fits s rs \<Longrightarrow> st_append_wal ops s tok rs = (Inr l, s1) \<Longrightarrow> appends s1 qs t
    \<Longrightarrow> appends s (rs @ qs) t"

lemma appends_hist:
  assumes "appends s rs t" and "ok s"
  shows "ok t \<and> hist t = hist s @ number_records (nxt s) rs \<and> nxt t = nxt s + length rs"
  using assms
proof (induction rule: appends.induct)
  case (appends_Nil s)
  then show ?case by simp
next
  case (appends_step s rs tok l s1 qs t)
  from append_exact [OF appends_step.prems appends_step.hyps(1,2)]
  have s1: "ok s1" "hist s1 = hist s @ number_records (nxt s) rs" "nxt s1 = nxt s + length rs"
    by auto
  from appends_step.IH [OF s1(1)] s1(2,3) show ?case
    by (simp add: number_records_append)
qed

text \<open>Everything acknowledged is replayed, in order, exactly once.\<close>

lemma acked_is_replayed:
  assumes "ok s" and "fits s rs" and "st_append_wal ops s tok rs = (Inr l, s1)"
    and "st_scan_wal ops s1 (nxt s - 1) = (Inr es, s2)"
  shows "map le_record es = rs \<and> l = le_lsn (last es)"
proof -
  from append_exact [OF assms(1-3)]
  have a: "rs \<noteq> []" "ok s1" "l = nxt s + length rs - 1" "hist s1 = hist s @ number_records (nxt s) rs"
    by auto
  have es: "es = entries_after (nxt s - 1) (hist s1)"
    using scan_exact [OF a(2) assms(4)] .
  have old: "filter (\<lambda>e. nxt s - 1 < le_lsn e) (hist s) = []"
    using hist_below [OF assms(1)] by (fastforce simp: filter_empty_conv)
  have new: "filter (\<lambda>e. nxt s - 1 < le_lsn e) (number_records (nxt s) rs) = number_records (nxt s) rs"
  proof -
    have "\<And>e. e \<in> set (number_records (nxt s) rs) \<Longrightarrow> nxt s - 1 < le_lsn e"
      using number_records_lsn_bounds [of _ "nxt s" rs] nxt_pos [OF assms(1)] by fastforce
    then show ?thesis by (simp add: filter_id_conv)
  qed
  have "es = number_records (nxt s) rs"
    using es old new a(4) by (simp add: entries_after_def)
  moreover have "le_lsn (last (number_records (nxt s) rs)) = nxt s + length rs - 1"
  proof -
    have "le_lsn (last (number_records (nxt s) rs)) = last (map le_lsn (number_records (nxt s) rs))"
      using a(1) by (intro last_map [symmetric]) (cases rs, simp_all add: number_records_Cons)
    then show ?thesis
      using a(1) by (simp add: last_upt_Suc)
  qed
  ultimately show ?thesis
    using a(3) by simp
qed

text \<open>After a new holder acquires the fence, no older token can append.\<close>

lemma stale_token_rejected:
  assumes "ok s" and "Suc (holds s) < 2 ^ 64"
    and "st_acquire_fence ops s now owner = (Inr tok, s1)"
    and "ft_epoch old \<le> holds s"
  shows "isl (fst (st_append_wal ops s1 old rs))"
  using acquire_exact [OF assms(1-3)] append_fenced [of s1 old rs] assms(4) by simp

end

end
