(* ===== verification/Local_Log.thy ===== *)
theory Local_Log
  imports Crc32 Storage_Types
begin

text \<open>
  The on-disk format of \<^verbatim>\<open>crates/storage/src/local.rs\<close>: the 64-byte header, CRC-checked
  frames, and the parser \<^verbatim>\<open>read_log\<close> that stops at the first torn frame.  The cursor
  \<^verbatim>\<open>pos\<close> of the source is the pair of the unread suffix and its offset.
  The lemmas show that a log of well-formed frames parses back to exactly those frames,
  and that a strict prefix of a frame after them is dropped.
\<close>

section \<open>Format\<close>

definition MAGIC :: bytes where
  "MAGIC = bytes_of_string ''BYDESIGN''"

definition FORMAT_VERSION :: nat where "FORMAT_VERSION = 1"

definition HEADER_SIZE :: nat where "HEADER_SIZE = 64"

definition T_WAL :: byte where "T_WAL = 1"
definition T_PAGE :: byte where "T_PAGE = 2"
definition T_FENCE :: byte where "T_FENCE = 3"
definition T_RETENTION :: byte where "T_RETENTION = 4"
definition T_BRANCH :: byte where "T_BRANCH = 5"
definition T_BRANCH_DEL :: byte where "T_BRANCH_DEL = 6"

lemmas tag_defs = T_WAL_def T_PAGE_def T_FENCE_def T_RETENTION_def T_BRANCH_def T_BRANCH_DEL_def

definition header_bytes :: bytes where
  "header_bytes = MAGIC @ le_encode 4 FORMAT_VERSION @ le_encode 4 PAGE_SIZE @ replicate 48 0"

text \<open>A parsed frame with its replay-assigned LSNs.\<close>

datatype frame =
    FWal (wal_records: "(nat \<times> wal_record) list") (wal_commit_lsn: nat)
  | FPage (fpage_lsn: nat) (fpage_id: nat) (fpage_image: bytes)
  | FFence (ffence_epoch: nat)
  | FRetention (fretention_floor: nat)
  | FBranch (fbranch_id: nat) (fbranch_base: nat) (fbranch_parent: nat)
  | FBranchDel (fbranch_del: nat)

text \<open>The bytes \<^verbatim>\<open>append_frame\<close> writes: \<^verbatim>\<open>len:u32 | type:u8 | payload | crc32:u32\<close>.\<close>

definition frame_bytes :: "byte \<Rightarrow> bytes \<Rightarrow> bytes" where
  "frame_bytes tag payload =
     le_encode 4 (length payload + 1) @ tag # payload @ crc_bytes (crc32_pair tag payload)"

text \<open>The payload of a WAL batch: \<^verbatim>\<open>count:u32 | (len:u32 | bytes)*\<close>.\<close>

definition record_bytes :: "wal_record \<Rightarrow> bytes" where
  "record_bytes r = le_encode 4 (length r) @ r"

definition wal_payload :: "wal_record list \<Rightarrow> bytes" where
  "wal_payload rs = le_encode 4 (length rs) @ concat (map record_bytes rs)"

section \<open>The parser\<close>

text \<open>The record loop of a WAL frame: the records read, whether the payload ended early,
  and the next LSN (which has advanced past the records read even if the frame is torn).\<close>

fun parse_records :: "nat \<Rightarrow> bytes \<Rightarrow> nat \<Rightarrow> (nat \<times> wal_record) list \<times> bool \<times> nat" where
  "parse_records 0 p nxt = ([], False, nxt)"
| "parse_records (Suc n) p nxt =
     (if length p < 4 then ([], True, nxt)
      else let rlen = le_decode (take 4 p); q = drop 4 p in
        if length q < rlen then ([], True, nxt)
        else let (rs, torn, nxt') = parse_records n (drop rlen q) (nxt + 1)
             in ((nxt, take rlen q) # rs, torn, nxt'))"

definition parse_body :: "byte \<Rightarrow> bytes \<Rightarrow> nat \<Rightarrow> frame option \<times> nat" where
  "parse_body tag payload nxt =
     (if tag = T_WAL then
        (if length payload < 4 then (None, nxt)
         else let count = le_decode (take 4 payload);
                  (records, torn, nxt') = parse_records count (drop 4 payload) nxt
              in if torn \<or> length records \<noteq> count then (None, nxt')
                 else (Some (FWal records (if records = [] then 0 else fst (last records))), nxt'))
      else if tag = T_PAGE then
        (if length payload < 8 then (None, nxt)
         else (Some (FPage nxt (le_decode (take 8 payload)) (drop 8 payload)), nxt + 1))
      else if tag = T_FENCE then
        (if length payload < 8 then (None, nxt)
         else (Some (FFence (le_decode (take 8 payload))), nxt))
      else if tag = T_RETENTION then
        (if length payload < 8 then (None, nxt)
         else (Some (FRetention (le_decode (take 8 payload))), nxt))
      else if tag = T_BRANCH then
        (if length payload < 24 then (None, nxt)
         else (Some (FBranch (le_decode (take 8 payload)) (le_decode (take 8 (drop 8 payload)))
                             (le_decode (take 8 (drop 16 payload)))), nxt))
      else if tag = T_BRANCH_DEL then
        (if length payload < 8 then (None, nxt)
         else (Some (FBranchDel (le_decode (take 8 payload))), nxt))
      else (None, nxt))"

text \<open>The frame loop, over the unread suffix \<open>rest\<close> at offset \<open>pos\<close>.  Result: the frames, the
  end of the last good frame, the next LSN.\<close>

function read_frames :: "bytes \<Rightarrow> nat \<Rightarrow> nat \<Rightarrow> frame list \<times> nat \<times> nat" where
  "read_frames rest pos nxt =
     (if length rest < 4 then ([], pos, nxt)
      else let len = le_decode (take 4 rest) in
        if len = 0 \<or> length rest < 4 + len + 4 then ([], pos, nxt)
        else let body = take len (drop 4 rest);
                 crc_stored = le_decode (take 4 (drop (4 + len) rest)) in
          if unat (crc32 body) \<noteq> crc_stored then ([], pos, nxt)
          else case parse_body (hd body) (tl body) nxt of
              (None, nxt') \<Rightarrow> ([], pos, nxt')
            | (Some f, nxt') \<Rightarrow>
                let (fs, e, n) = read_frames (drop (4 + len + 4) rest) (pos + (4 + len + 4)) nxt'
                in (f # fs, e, n))"
  by pat_completeness auto
termination
  by (relation "measure (\<lambda>(rest, pos, nxt). length rest)") auto

declare read_frames.simps [simp del]

definition read_log :: "bytes \<Rightarrow> (frame list \<times> nat \<times> nat) sres" where
  "read_log all =
     (if length all < HEADER_SIZE then Inl Corruption
      else if take 8 all \<noteq> MAGIC then Inl Corruption
      else if le_decode (take 4 (drop 8 all)) \<noteq> FORMAT_VERSION then Inl Invalid
      else if le_decode (take 4 (drop 12 all)) \<noteq> PAGE_SIZE then Inl Invalid
      else Inr (read_frames (drop HEADER_SIZE all) HEADER_SIZE 1))"

section \<open>Frames as values\<close>

text \<open>The tag and payload a frame is written with, the LSNs it uses, and when it fits the
  widths of the format.\<close>

fun frame_tag :: "frame \<Rightarrow> byte" where
  "frame_tag (FWal rs c) = T_WAL"
| "frame_tag (FPage l i im) = T_PAGE"
| "frame_tag (FFence e) = T_FENCE"
| "frame_tag (FRetention f) = T_RETENTION"
| "frame_tag (FBranch i b p) = T_BRANCH"
| "frame_tag (FBranchDel i) = T_BRANCH_DEL"

fun frame_payload :: "frame \<Rightarrow> bytes" where
  "frame_payload (FWal rs c) = wal_payload (map snd rs)"
| "frame_payload (FPage l i im) = le_encode 8 i @ im"
| "frame_payload (FFence e) = le_encode 8 e"
| "frame_payload (FRetention f) = le_encode 8 f"
| "frame_payload (FBranch i b p) = le_encode 8 i @ le_encode 8 b @ le_encode 8 p"
| "frame_payload (FBranchDel i) = le_encode 8 i"

definition frame_enc :: "frame \<Rightarrow> bytes" where
  "frame_enc f = frame_bytes (frame_tag f) (frame_payload f)"

fun frame_lsns :: "frame \<Rightarrow> nat" where
  "frame_lsns (FWal rs c) = length rs"
| "frame_lsns (FPage l i im) = 1"
| "frame_lsns _ = 0"

text \<open>\<open>frame_at n f\<close>: \<open>f\<close> is the frame the parser yields for its bytes when the next LSN is
  \<open>n\<close>.\<close>

fun frame_at :: "nat \<Rightarrow> frame \<Rightarrow> bool" where
  "frame_at n (FWal rs c) \<longleftrightarrow> rs \<noteq> [] \<and> map fst rs = [n..<n + length rs] \<and> c = n + length rs - 1
     \<and> (\<forall>r\<in>set rs. length (snd r) < 2 ^ 32) \<and> length rs < 2 ^ 32"
| "frame_at n (FPage l i im) \<longleftrightarrow> l = n \<and> i < 2 ^ 64"
| "frame_at n (FFence e) \<longleftrightarrow> e < 2 ^ 64"
| "frame_at n (FRetention f) \<longleftrightarrow> f < 2 ^ 64"
| "frame_at n (FBranch i b p) \<longleftrightarrow> i < 2 ^ 64 \<and> b < 2 ^ 64 \<and> p < 2 ^ 64"
| "frame_at n (FBranchDel i) \<longleftrightarrow> i < 2 ^ 64"

definition frame_fits :: "frame \<Rightarrow> bool" where
  "frame_fits f \<longleftrightarrow> length (frame_payload f) + 1 < 2 ^ 32"

fun log_at :: "nat \<Rightarrow> frame list \<Rightarrow> bool" where
  "log_at n [] = True"
| "log_at n (f # fs) = (frame_at n f \<and> frame_fits f \<and> log_at (n + frame_lsns f) fs)"

definition log_next :: "nat \<Rightarrow> frame list \<Rightarrow> nat" where
  "log_next n fs = n + sum_list (map frame_lsns fs)"

definition log_bytes :: "frame list \<Rightarrow> bytes" where
  "log_bytes fs = concat (map frame_enc fs)"

section \<open>Parsing what was written\<close>

lemma length_frame_bytes [simp]: "length (frame_bytes tag payload) = length payload + 9"
  by (simp add: frame_bytes_def)

lemma length_header_bytes [simp]: "length header_bytes = 64"
  by (simp add: header_bytes_def MAGIC_def)

lemma parse_records_enc:
  assumes "\<forall>r\<in>set rs. length r < 2 ^ 32"
  shows "parse_records (length rs) (concat (map record_bytes rs)) n =
           (zip [n..<n + length rs] rs, False, n + length rs)"
  using assms
proof (induction rs arbitrary: n)
  case Nil
  then show ?case by simp
next
  case (Cons r rs)
  have "[n..<n + Suc (length rs)] = n # [Suc n..<Suc n + length rs]"
    by (simp add: upt_rec)
  with Cons show ?case
    by (simp add: record_bytes_def Let_def)
qed

lemma zip_map_fst_snd': "map fst rs = ns \<Longrightarrow> zip ns (map snd rs) = rs"
  by (auto simp: zip_map_fst_snd)

lemma parse_body_frame:
  assumes "frame_at n f"
  shows "parse_body (frame_tag f) (frame_payload f) n = (Some f, n + frame_lsns f)"
proof (cases f)
  case (FWal rs c)
  with assms have rs: "rs \<noteq> []" "map fst rs = [n..<n + length rs]" "c = n + length rs - 1"
    "\<forall>r\<in>set (map snd rs). length r < 2 ^ 32" "length rs < 2 ^ 32"
    by auto
  have z: "zip [n..<n + length rs] (map snd rs) = rs"
    using rs(2) by (rule zip_map_fst_snd')
  have "fst (last rs) = last (map fst rs)"
    using rs(1) by (simp add: last_map)
  then have l: "fst (last rs) = c"
    using rs by (simp add: last_upt_Suc)
  show ?thesis
    using parse_records_enc [OF rs(4), of n] rs(1,5) z l FWal
    by (simp add: parse_body_def wal_payload_def tag_defs)
qed (use assms in \<open>auto simp: parse_body_def tag_defs\<close>)

lemma crc32_frame_body:
  "crc32 (tag # payload) = crc32_pair tag payload"
  by (simp add: crc32_pair_eq)

text \<open>One step of the frame loop on a frame that was written by \<^verbatim>\<open>append_frame\<close>.\<close>

lemma read_frames_step:
  assumes "length payload + 1 < 2 ^ 32"
  shows "read_frames (frame_bytes tag payload @ rest) pos n =
    (case parse_body tag payload n of
       (None, n') \<Rightarrow> ([], pos, n')
     | (Some f, n') \<Rightarrow>
         (let (fs, e, m) = read_frames rest (pos + length (frame_bytes tag payload)) n'
          in (f # fs, e, m)))"
proof -
  let ?all = "frame_bytes tag payload @ rest"
  have len: "le_decode (take 4 ?all) = length payload + 1"
    using assms by (simp add: frame_bytes_def)
  have body: "take (length payload + 1) (drop 4 ?all) = tag # payload"
    by (simp add: frame_bytes_def)
  have crc: "take 4 (drop (4 + (length payload + 1)) ?all) = crc_bytes (crc32_pair tag payload)"
    by (simp add: frame_bytes_def)
  have "4 + (length payload + 1) + 4 = length (frame_bytes tag payload)"
    by simp
  then have rest: "drop (4 + (length payload + 1) + 4) ?all = rest"
    by (metis append_eq_conv_conj)
  have pos: "pos + length (frame_bytes tag payload) = pos + (4 + (length payload + 1) + 4)"
    by simp
  show ?thesis
    unfolding pos
    by (subst read_frames.simps)
       (simp only: len body crc rest Let_def crc32_frame_body le_decode_crc_bytes list.sel, simp)
qed

lemma read_frames_log:
  assumes "log_at n fs"
  shows "read_frames (log_bytes fs @ rest) pos n =
    (let (gs, e, m) = read_frames rest (pos + length (log_bytes fs)) (log_next n fs)
     in (fs @ gs, e, m))"
  using assms
proof (induction fs arbitrary: n pos)
  case Nil
  then show ?case
    by (simp add: log_bytes_def log_next_def split: prod.split)
next
  case (Cons f fs)
  then have f: "frame_at n f" "frame_fits f" and fs: "log_at (n + frame_lsns f) fs"
    by auto
  have "read_frames (log_bytes (f # fs) @ rest) pos n =
    read_frames (frame_bytes (frame_tag f) (frame_payload f) @ (log_bytes fs @ rest)) pos n"
    by (simp add: log_bytes_def frame_enc_def)
  also have "\<dots> = (let (hs, e, m) =
      read_frames (log_bytes fs @ rest) (pos + length (frame_enc f)) (n + frame_lsns f)
      in (f # hs, e, m))"
    using f(2) by (subst read_frames_step)
      (simp_all add: frame_fits_def parse_body_frame [OF f(1)] frame_enc_def)
  also have "\<dots> = (let (gs, e, m) = read_frames rest (pos + length (log_bytes (f # fs))) (log_next n (f # fs))
     in ((f # fs) @ gs, e, m))"
    unfolding Cons.IH [OF fs]
    by (simp add: log_bytes_def log_next_def Let_def split_beta algebra_simps)
  finally show ?case .
qed

lemma read_frames_Nil [simp]: "read_frames [] pos n = ([], pos, n)"
  by (simp add: read_frames.simps)

text \<open>A strict prefix of a frame is torn: its length field is missing or promises more bytes
  than there are.\<close>

lemma read_frames_torn:
  assumes "length payload + 1 < 2 ^ 32" and "k < length (frame_bytes tag payload)"
  shows "read_frames (take k (frame_bytes tag payload)) pos n = ([], pos, n)"
proof (cases "k < 4")
  case True
  then show ?thesis
    by (subst read_frames.simps) simp
next
  case False
  then have "take 4 (take k (frame_bytes tag payload)) = le_encode 4 (length payload + 1)"
    by (simp add: frame_bytes_def min_def)
  with assms False show ?thesis
    by (subst read_frames.simps) (simp add: Let_def)
qed

lemma read_log_parts:
  assumes "log_at 1 fs" and "read_frames rest (64 + length (log_bytes fs)) (log_next 1 fs) = ([], e, m)"
  shows "read_log (header_bytes @ log_bytes fs @ rest) = Inr (fs, e, m)"
proof -
  have h1: "take 8 (header_bytes @ t) = MAGIC" for t
    by (simp add: header_bytes_def MAGIC_def)
  have h2: "take 4 (drop 8 (header_bytes @ t)) = le_encode 4 FORMAT_VERSION" for t
    by (simp add: header_bytes_def MAGIC_def)
  have h3: "take 4 (drop 12 (header_bytes @ t)) = le_encode 4 PAGE_SIZE" for t
    by (simp add: header_bytes_def MAGIC_def)
  have "read_log (header_bytes @ t) = Inr (read_frames t 64 1)" for t
    unfolding read_log_def h1 h2 h3
    by (simp add: HEADER_SIZE_def FORMAT_VERSION_def PAGE_SIZE_def)
  then show ?thesis
    using read_frames_log [OF assms(1), of rest 64] assms(2) by simp
qed

lemma read_log_exact:
  assumes "log_at 1 fs"
  shows "read_log (header_bytes @ log_bytes fs) = Inr (fs, 64 + length (log_bytes fs), log_next 1 fs)"
  using read_log_parts [OF assms, of "[]"] by simp

lemma read_log_torn:
  assumes "log_at 1 fs" and "length payload + 1 < 2 ^ 32" and "k < length (frame_bytes tag payload)"
  shows "read_log (header_bytes @ log_bytes fs @ take k (frame_bytes tag payload)) =
    Inr (fs, 64 + length (log_bytes fs), log_next 1 fs)"
  using assms by (intro read_log_parts read_frames_torn)

lemma log_at_append: "log_at n (fs @ gs) \<longleftrightarrow> log_at n fs \<and> log_at (log_next n fs) gs"
  by (induction fs arbitrary: n) (auto simp: log_next_def add.assoc)

lemma log_next_append: "log_next n (fs @ gs) = log_next (log_next n fs) gs"
  by (simp add: log_next_def)

lemma log_bytes_append [simp]: "log_bytes (fs @ gs) = log_bytes fs @ log_bytes gs"
  by (simp add: log_bytes_def)

lemma log_bytes_single: "log_bytes [f] = frame_enc f"
  by (simp add: log_bytes_def)

lemma log_next_ge: "n \<le> log_next n fs"
  by (simp add: log_next_def)

end
