(* ===== verification/Local_Storage.thy ===== *)
theory Local_Storage
  imports Local_Log
begin

text \<open>
  \<^verbatim>\<open>LocalFileStorage\<close> (\<^verbatim>\<open>crates/storage/src/local.rs\<close>): the single-file backend.  The file
  is its contents together with the outcomes of the system calls still to come: each
  seek, write, sync, read, metadata call consumes one outcome (success when none is
  left), and a failing write may leave any prefix of its buffer behind.  Other files of
  the directory (a branch's overlay is a sibling file) are an association list.
\<close>

section \<open>The file\<close>

datatype io_outcome = IoOk | IoErr nat

record vfile =
  vf_data :: bytes
  vf_faults :: "io_outcome list"

definition vf_call :: "vfile \<Rightarrow> bool \<times> vfile" where
  "vf_call f = (case vf_faults f of
     [] \<Rightarrow> (True, f)
   | IoOk # r \<Rightarrow> (True, f\<lparr>vf_faults := r\<rparr>)
   | IoErr n # r \<Rightarrow> (False, f\<lparr>vf_faults := r\<rparr>))"

definition write_at :: "bytes \<Rightarrow> nat \<Rightarrow> bytes \<Rightarrow> bytes" where
  "write_at d pos buf =
     take pos (d @ replicate (pos - length d) 0) @ buf @ drop (pos + length buf) d"

definition vf_write :: "vfile \<Rightarrow> nat \<Rightarrow> bytes \<Rightarrow> bool \<times> vfile" where
  "vf_write f pos buf = (case vf_faults f of
     [] \<Rightarrow> (True, f\<lparr>vf_data := write_at (vf_data f) pos buf\<rparr>)
   | IoOk # r \<Rightarrow> (True, f\<lparr>vf_data := write_at (vf_data f) pos buf, vf_faults := r\<rparr>)
   | IoErr n # r \<Rightarrow> (False, f\<lparr>vf_data := write_at (vf_data f) pos (take n buf), vf_faults := r\<rparr>))"

section \<open>State\<close>

type_synonym page_chain = "(nat \<times> bytes) list"

record local_inner =
  l_path :: string
  l_dir :: "(string \<times> bytes) list"
  l_file :: vfile
  l_end :: nat
  l_next_lsn :: nat
  l_durable_lsn :: nat
  l_commit_lsn :: nat
  l_epoch :: nat
  l_retention_floor :: nat
  l_pages :: "(nat \<times> page_chain) list"
  l_branches :: "(nat \<times> branch_ref) list"
  l_next_branch_id :: nat
  l_stats :: storage_stats

text \<open>The counters of a database with no frame yet (also the start values of \<^verbatim>\<open>recover\<close>).\<close>

definition inner_base :: "string \<Rightarrow> (string \<times> bytes) list \<Rightarrow> vfile \<Rightarrow> nat \<Rightarrow> nat \<Rightarrow> local_inner" where
  "inner_base path dir f e nxt = \<lparr>l_path = path, l_dir = dir, l_file = f, l_end = e,
     l_next_lsn = nxt, l_durable_lsn = 0, l_commit_lsn = 0, l_epoch = 0, l_retention_floor = 0,
     l_pages = [], l_branches = [], l_next_branch_id = 1, l_stats = stats_default\<rparr>"

definition push_version :: "nat \<Rightarrow> nat \<Rightarrow> bytes \<Rightarrow> (nat \<times> page_chain) list \<Rightarrow> (nat \<times> page_chain) list" where
  "push_version pid lsn img pages =
     hm_insert pid ((case hm_get pages pid of None \<Rightarrow> [] | Some c \<Rightarrow> c) @ [(lsn, img)]) pages"

section \<open>Opening and recovery\<close>

text \<open>One iteration of the loop of \<^verbatim>\<open>recover\<close>.\<close>

fun apply_frame :: "local_inner \<Rightarrow> frame \<Rightarrow> local_inner" where
  "apply_frame g (FWal rs c) =
     g\<lparr>l_durable_lsn := max (l_durable_lsn g) c, l_commit_lsn := max (l_commit_lsn g) c\<rparr>"
| "apply_frame g (FPage lsn pid img) =
     g\<lparr>l_durable_lsn := max (l_durable_lsn g) lsn,
       l_pages := push_version pid lsn (pad_page img) (l_pages g)\<rparr>"
| "apply_frame g (FFence e) = g\<lparr>l_epoch := max (l_epoch g) e\<rparr>"
| "apply_frame g (FRetention f) = g\<lparr>l_retention_floor := max (l_retention_floor g) f\<rparr>"
| "apply_frame g (FBranch i base parent) =
     g\<lparr>l_branches := hm_insert i \<lparr>br_id = i, br_parent = parent, br_base_lsn = base, br_head_lsn = base\<rparr>
         (l_branches g),
       l_next_branch_id := max (l_next_branch_id g) (i + 1)\<rparr>"
| "apply_frame g (FBranchDel i) = g\<lparr>l_branches := hm_remove i (l_branches g)\<rparr>"

text \<open>\<^verbatim>\<open>read_log\<close> on a file: a seek and a read precede the parser.\<close>

definition read_log_file :: "vfile \<Rightarrow> (frame list \<times> nat \<times> nat) sres \<times> vfile" where
  "read_log_file f =
     (let (ok1, f1) = vf_call f in
      if \<not> ok1 then (Inl Transient, f1)
      else let (ok2, f2) = vf_call f1 in
        if \<not> ok2 then (Inl Transient, f2) else (read_log (vf_data f2), f2))"

definition local_recover :: "string \<Rightarrow> (string \<times> bytes) list \<Rightarrow> vfile \<Rightarrow> local_inner sres \<times> vfile" where
  "local_recover path dir f =
     (case read_log_file f of
        (Inl e, f1) \<Rightarrow> (Inl e, f1)
      | (Inr (frames, e, nxt), f1) \<Rightarrow>
          (Inr (foldl apply_frame (inner_base path dir f1 e nxt) frames), f1))"

definition write_header :: "vfile \<Rightarrow> unit sres \<times> vfile" where
  "write_header f =
     (let (ok1, f1) = vf_call f in
      if \<not> ok1 then (Inl Transient, f1)
      else let (ok2, f2) = vf_write f1 0 header_bytes in
        if \<not> ok2 then (Inl DurabilityUnconfirmed, f2)
        else let (ok3, f3) = vf_call f2 in
          if \<not> ok3 then (Inl DurabilityUnconfirmed, f3) else (Inr (), f3))"

definition parse_file_url :: "string \<Rightarrow> string sres" where
  "parse_file_url url =
     (case strip_prefix ''file://'' url of
        None \<Rightarrow> Inl Invalid
      | Some rest \<Rightarrow> (let path = before_char (CHR ''?'') rest in
          if path = [] then Inl Invalid else Inr path))"

text \<open>Truncate a torn tail found by recovery (\<^verbatim>\<open>metadata\<close>, \<^verbatim>\<open>set_len\<close>, \<^verbatim>\<open>sync_all\<close>).\<close>

definition heal_tail :: "local_inner \<Rightarrow> local_inner sres" where
  "heal_tail g =
     (let (ok1, f1) = vf_call (l_file g) in
      if \<not> ok1 then Inl Transient
      else if l_end g < length (vf_data f1) then
        (let (ok2, f2) = vf_call f1 in
         if \<not> ok2 then Inl Transient
         else let f3 = f2\<lparr>vf_data := take (l_end g) (vf_data f2)\<rparr>; (ok4, f4) = vf_call f3 in
           if \<not> ok4 then Inl DurabilityUnconfirmed else Inr (g\<lparr>l_file := f4\<rparr>))
      else Inr (g\<lparr>l_file := f1\<rparr>))"

text \<open>\<^verbatim>\<open>LocalFileStorage::open\<close> on a directory: the named file is created empty when absent.\<close>

definition local_open :: "string \<Rightarrow> (string \<times> bytes) list \<Rightarrow> io_outcome list \<Rightarrow> local_inner sres" where
  "local_open url dir faults =
     (case parse_file_url url of
        Inl e \<Rightarrow> Inl e
      | Inr path \<Rightarrow>
          (let data = (case hm_get dir path of None \<Rightarrow> [] | Some d \<Rightarrow> d);
               rest = hm_remove path dir;
               (ok1, f1) = vf_call \<lparr>vf_data = data, vf_faults = faults\<rparr> in
           if \<not> ok1 then Inl Invalid
           else let (ok2, f2) = vf_call f1 in
             if \<not> ok2 then Inl Transient
             else if length (vf_data f2) = 0 then
               (case write_header f2 of
                  (Inl e, f3) \<Rightarrow> Inl e
                | (Inr u, f3) \<Rightarrow> heal_tail (inner_base path rest f3 HEADER_SIZE 1))
             else
               (case local_recover path rest f2 of
                  (Inl e, f3) \<Rightarrow> Inl e
                | (Inr g, f3) \<Rightarrow> heal_tail g)))"

section \<open>Operations\<close>

definition append_frame :: "local_inner \<Rightarrow> byte \<Rightarrow> bytes \<Rightarrow> unit sres \<times> local_inner" where
  "append_frame g tag payload =
     (let (ok1, f1) = vf_call (l_file g) in
      if \<not> ok1 then (Inl Transient, g\<lparr>l_file := f1\<rparr>)
      else let buf = frame_bytes tag payload; (ok2, f2) = vf_write f1 (l_end g) buf in
        if \<not> ok2 then (Inl DurabilityUnconfirmed, g\<lparr>l_file := f2\<rparr>)
        else let (ok3, f3) = vf_call f2 in
          if \<not> ok3 then (Inl DurabilityUnconfirmed, g\<lparr>l_file := f3\<rparr>)
          else (Inr (), g\<lparr>l_file := f3, l_end := l_end g + length buf,
                          l_stats := (l_stats g)\<lparr>fsyncs := fsyncs (l_stats g) + 1\<rparr>\<rparr>))"

definition local_check_fence :: "local_inner \<Rightarrow> fence_token \<Rightarrow> unit sres" where
  "local_check_fence g tok =
     (if ft_epoch tok \<noteq> l_epoch g then Inl (Fenced (ft_epoch tok) (l_epoch g)) else Inr ())"

definition local_get_page :: "local_inner \<Rightarrow> nat \<Rightarrow> nat \<Rightarrow> page sres \<times> local_inner" where
  "local_get_page g pid lsn =
     (if lsn < l_retention_floor g then (Inl NotFound, g)
      else case hm_get (l_pages g) pid of
          None \<Rightarrow> (Inl NotFound, g)
        | Some chain \<Rightarrow>
            (case find_last (\<lambda>(vlsn, _). vlsn \<le> lsn) chain of
               Some (vlsn, img) \<Rightarrow>
                 (Inr \<lparr>pg_id = pid, pg_lsn = vlsn, pg_bytes = img\<rparr>,
                  g\<lparr>l_stats := (l_stats g)\<lparr>page_reads := page_reads (l_stats g) + 1,
                      page_read_bytes := page_read_bytes (l_stats g) + PAGE_SIZE\<rparr>\<rparr>)
             | None \<Rightarrow> (Inl NotFound, g)))"

definition local_append_wal :: "local_inner \<Rightarrow> fence_token \<Rightarrow> wal_record list \<Rightarrow> nat sres \<times> local_inner" where
  "local_append_wal g tok records =
     (if records = [] then (Inl Invalid, g)
      else case local_check_fence g tok of
          Inl e \<Rightarrow> (Inl e, g)
        | Inr u \<Rightarrow>
            (let payload = wal_payload records in
             case append_frame g T_WAL payload of
               (Inl e, g1) \<Rightarrow> (Inl e, g1)
             | (Inr u, g1) \<Rightarrow>
                 (let first = l_next_lsn g1; lst = first + length records - 1 in
                  (Inr lst, g1\<lparr>l_next_lsn := lst + 1, l_durable_lsn := lst, l_commit_lsn := lst,
                     l_stats := (l_stats g1)\<lparr>wal_appends := wal_appends (l_stats g1) + 1,
                       wal_bytes := wal_bytes (l_stats g1) + length payload\<rparr>\<rparr>))))"

definition local_put_page :: "local_inner \<Rightarrow> fence_token \<Rightarrow> nat \<Rightarrow> bytes \<Rightarrow> nat sres \<times> local_inner" where
  "local_put_page g tok pid img =
     (if length img > PAGE_SIZE then (Inl Invalid, g)
      else case local_check_fence g tok of
          Inl e \<Rightarrow> (Inl e, g)
        | Inr u \<Rightarrow>
            (case append_frame g T_PAGE (le_encode 8 pid @ img) of
               (Inl e, g1) \<Rightarrow> (Inl e, g1)
             | (Inr u, g1) \<Rightarrow>
                 (let lsn = l_next_lsn g1 in
                  (Inr lsn, g1\<lparr>l_next_lsn := lsn + 1, l_durable_lsn := lsn,
                     l_pages := push_version pid lsn (pad_page img) (l_pages g1)\<rparr>))))"

text \<open>\<^verbatim>\<open>scan_wal\<close> re-reads the file: one more open, then the parser.\<close>

definition frame_entries :: "nat \<Rightarrow> frame \<Rightarrow> log_entry list" where
  "frame_entries after f = (case f of
     FWal records c \<Rightarrow> map (\<lambda>(l, r). \<lparr>le_lsn = l, le_record = r\<rparr>) (filter (\<lambda>(l, r). after < l) records)
   | _ \<Rightarrow> [])"

definition local_scan_wal :: "local_inner \<Rightarrow> nat \<Rightarrow> log_entry list sres \<times> local_inner" where
  "local_scan_wal g after =
     (let (ok0, f0) = vf_call (l_file g) in
      if \<not> ok0 then (Inl Transient, g\<lparr>l_file := f0\<rparr>)
      else case read_log_file f0 of
          (Inl e, f1) \<Rightarrow> (Inl e, g\<lparr>l_file := f1\<rparr>)
        | (Inr (frames, _, _), f1) \<Rightarrow> (Inr (concat (map (frame_entries after) frames)), g\<lparr>l_file := f1\<rparr>))"

definition local_flush :: "local_inner \<Rightarrow> unit sres \<times> local_inner" where
  "local_flush g =
     (let (ok1, f1) = vf_call (l_file g) in
      if \<not> ok1 then (Inl DurabilityUnconfirmed, g\<lparr>l_file := f1\<rparr>)
      else (Inr (), g\<lparr>l_file := f1, l_stats := (l_stats g)\<lparr>fsyncs := fsyncs (l_stats g) + 1\<rparr>\<rparr>))"

definition FENCE_LEASE :: nat where "FENCE_LEASE = 10000"

definition local_acquire_fence :: "local_inner \<Rightarrow> nat \<Rightarrow> nat \<Rightarrow> fence_token sres \<times> local_inner" where
  "local_acquire_fence g now owner =
     (let new_epoch = l_epoch g + 1 in
      case append_frame g T_FENCE (le_encode 8 new_epoch) of
        (Inl e, g1) \<Rightarrow> (Inl e, g1)
      | (Inr u, g1) \<Rightarrow>
          (Inr \<lparr>ft_epoch = new_epoch, ft_owner = owner, ft_lease_until = now + FENCE_LEASE\<rparr>,
           g1\<lparr>l_epoch := new_epoch\<rparr>))"

definition local_renew_fence :: "local_inner \<Rightarrow> nat \<Rightarrow> fence_token \<Rightarrow> fence_token sres \<times> local_inner" where
  "local_renew_fence g now tok =
     (if ft_epoch tok \<noteq> l_epoch g then (Inl (Fenced (ft_epoch tok) (l_epoch g)), g)
      else (Inr \<lparr>ft_epoch = ft_epoch tok, ft_owner = ft_owner tok, ft_lease_until = now + FENCE_LEASE\<rparr>, g))"

definition local_release_fence :: "local_inner \<Rightarrow> fence_token \<Rightarrow> unit sres \<times> local_inner" where
  "local_release_fence g tok = (Inr (), g)"

definition local_create_branch :: "local_inner \<Rightarrow> string \<Rightarrow> nat \<Rightarrow> nat sres \<times> local_inner" where
  "local_create_branch g name base =
     (if base < l_retention_floor g then (Inl NotFound, g)
      else let i = l_next_branch_id g in
        case append_frame g T_BRANCH (le_encode 8 i @ le_encode 8 base @ le_encode 8 BRANCH_ROOT) of
          (Inl e, g1) \<Rightarrow> (Inl e, g1)
        | (Inr u, g1) \<Rightarrow>
            (Inr i, g1\<lparr>l_next_branch_id := l_next_branch_id g1 + 1,
               l_branches := hm_insert i \<lparr>br_id = i, br_parent = BRANCH_ROOT, br_base_lsn = base,
                 br_head_lsn = base\<rparr> (l_branches g1)\<rparr>))"

definition local_resolve_branch :: "local_inner \<Rightarrow> nat \<Rightarrow> branch_ref sres \<times> local_inner" where
  "local_resolve_branch g b =
     ((case hm_get (l_branches g) b of None \<Rightarrow> Inl NotFound | Some r \<Rightarrow> Inr r), g)"

definition local_list_branches :: "local_inner \<Rightarrow> branch_ref list sres \<times> local_inner" where
  "local_list_branches g = (Inr (sort_key br_id (hm_values (l_branches g))), g)"

definition overlay_path :: "string \<Rightarrow> nat \<Rightarrow> string" where
  "overlay_path path b = path @ ''.branch-'' @ dec_string b"

definition local_delete_branch :: "local_inner \<Rightarrow> nat \<Rightarrow> unit sres \<times> local_inner" where
  "local_delete_branch g b =
     (if hm_get (l_branches g) b = None then (Inl NotFound, g)
      else if \<exists>r\<in>set (hm_values (l_branches g)). br_parent r = b then (Inl Invalid, g)
      else case append_frame g T_BRANCH_DEL (le_encode 8 b) of
          (Inl e, g1) \<Rightarrow> (Inl e, g1)
        | (Inr u, g1) \<Rightarrow>
            (Inr (), g1\<lparr>l_branches := hm_remove b (l_branches g1),
                       l_dir := hm_remove (overlay_path (l_path g1) b) (l_dir g1)\<rparr>))"

definition local_set_retention_floor :: "local_inner \<Rightarrow> nat \<Rightarrow> unit sres \<times> local_inner" where
  "local_set_retention_floor g lsn =
     (if lsn < l_retention_floor g then (Inl Invalid, g)
      else case append_frame g T_RETENTION (le_encode 8 lsn) of
          (Inl e, g1) \<Rightarrow> (Inl e, g1)
        | (Inr u, g1) \<Rightarrow> (Inr (), g1\<lparr>l_retention_floor := lsn\<rparr>))"

definition local_storage :: "local_inner storage" where
  "local_storage = \<lparr>
     st_get_page = local_get_page,
     st_append_wal = local_append_wal,
     st_put_page = local_put_page,
     st_scan_wal = local_scan_wal,
     st_flush = local_flush,
     st_durable_lsn = (\<lambda>g. (Inr (l_durable_lsn g), g)),
     st_get_commit_lsn = (\<lambda>g. (Inr (l_commit_lsn g), g)),
     st_acquire_fence = local_acquire_fence,
     st_renew_fence = local_renew_fence,
     st_release_fence = local_release_fence,
     st_create_branch = local_create_branch,
     st_resolve_branch = local_resolve_branch,
     st_list_branches = local_list_branches,
     st_delete_branch = local_delete_branch,
     st_set_retention_floor = local_set_retention_floor,
     st_pitr_floor = (\<lambda>g. (Inr (l_retention_floor g), g)),
     st_stats = l_stats\<rparr>"

end
