(* ===== verification/Local_Correct.thy ===== *)
theory Local_Correct
  imports Local_Storage
begin

text \<open>
  Correctness of \<^verbatim>\<open>LocalFileStorage\<close>: the invariant that the in-memory state is the replay
  of the file, that every operation keeps it, crash recovery, the page read floor, the
  fence, and the append contract of the seam.
\<close>

section \<open>Helpers\<close>

lemma vf_call_True:
  "vf_call f = (True, f') \<Longrightarrow> vf_data f' = vf_data f"
  by (auto simp: vf_call_def split: list.splits io_outcome.splits)

lemma vf_call_data [simp]: "vf_data (snd (vf_call f)) = vf_data f"
  by (auto simp: vf_call_def split: list.splits io_outcome.splits)

lemma vf_write_True:
  "vf_write f pos buf = (True, f') \<Longrightarrow> vf_data f' = write_at (vf_data f) pos buf"
  by (auto simp: vf_write_def split: list.splits io_outcome.splits)

lemma write_at_end: "write_at d (length d) buf = d @ buf"
  by (simp add: write_at_def)

lemma vf_call_no_faults [simp]: "vf_faults f = [] \<Longrightarrow> vf_call f = (True, f)"
  by (simp add: vf_call_def)

lemma append_frame_ok:
  assumes "append_frame g tag payload = (Inr u, g')"
    and "l_end g = length (vf_data (l_file g))"
  shows "\<exists>f. vf_data f = vf_data (l_file g) @ frame_bytes tag payload \<and>
    g' = g\<lparr>l_file := f, l_end := l_end g + length (frame_bytes tag payload),
           l_stats := (l_stats g)\<lparr>fsyncs := fsyncs (l_stats g) + 1\<rparr>\<rparr>"
proof -
  obtain f1 f2 f3 where
    c: "vf_call (l_file g) = (True, f1)" "vf_write f1 (l_end g) (frame_bytes tag payload) = (True, f2)"
      "vf_call f2 = (True, f3)"
    and g': "g' = g\<lparr>l_file := f3, l_end := l_end g + length (frame_bytes tag payload),
           l_stats := (l_stats g)\<lparr>fsyncs := fsyncs (l_stats g) + 1\<rparr>\<rparr>"
    using assms(1) by (auto simp: append_frame_def Let_def split: prod.splits if_splits)
  have "vf_data f3 = vf_data (l_file g) @ frame_bytes tag payload"
    using vf_call_True [OF c(3)] vf_write_True [OF c(2)] vf_call_True [OF c(1)] assms(2)
    by (simp add: write_at_end)
  with g' show ?thesis by blast
qed

section \<open>The invariant\<close>

text \<open>The state is what \<^verbatim>\<open>recover\<close> rebuilds from the frames of the file, up to the
  observability counters.\<close>

definition replayed :: "local_inner \<Rightarrow> frame list \<Rightarrow> local_inner" where
  "replayed g fs = foldl apply_frame
     (inner_base (l_path g) (l_dir g) (l_file g) (64 + length (log_bytes fs)) (log_next 1 fs)) fs"

definition local_rep :: "frame list \<Rightarrow> local_inner \<Rightarrow> bool" where
  "local_rep fs g \<longleftrightarrow> log_at 1 fs \<and> vf_data (l_file g) = header_bytes @ log_bytes fs \<and>
     g\<lparr>l_stats := stats_default\<rparr> = replayed g fs"

definition local_inv :: "local_inner \<Rightarrow> bool" where
  "local_inv g \<longleftrightarrow> (\<exists>fs. local_rep fs g)"

lemma apply_frame_frame_fields [simp]:
  "l_path (apply_frame g f) = l_path g" "l_dir (apply_frame g f) = l_dir g"
  "l_file (apply_frame g f) = l_file g" "l_end (apply_frame g f) = l_end g"
  "l_next_lsn (apply_frame g f) = l_next_lsn g" "l_stats (apply_frame g f) = l_stats g"
  by (cases f; simp)+

lemma apply_frame_commute:
  "apply_frame (g\<lparr>l_file := a, l_end := b, l_next_lsn := c, l_dir := d, l_stats := e\<rparr>) f =
   (apply_frame g f)\<lparr>l_file := a, l_end := b, l_next_lsn := c, l_dir := d, l_stats := e\<rparr>"
  by (cases f) simp_all

lemma foldl_apply_frame_commute:
  "foldl apply_frame (g\<lparr>l_file := a, l_end := b, l_next_lsn := c, l_dir := d, l_stats := e\<rparr>) fs =
   (foldl apply_frame g fs)\<lparr>l_file := a, l_end := b, l_next_lsn := c, l_dir := d, l_stats := e\<rparr>"
  by (induction fs arbitrary: g) (simp_all add: apply_frame_commute)

lemma foldl_apply_frame_fields [simp]:
  "l_path (foldl apply_frame g fs) = l_path g" "l_dir (foldl apply_frame g fs) = l_dir g"
  "l_file (foldl apply_frame g fs) = l_file g" "l_end (foldl apply_frame g fs) = l_end g"
  "l_next_lsn (foldl apply_frame g fs) = l_next_lsn g" "l_stats (foldl apply_frame g fs) = l_stats g"
  by (induction fs arbitrary: g; simp)+

lemma local_rep_fields:
  assumes "local_rep fs g"
  shows "l_end g = 64 + length (log_bytes fs)" "l_next_lsn g = log_next 1 fs"
    "l_end g = length (vf_data (l_file g))"
proof -
  have eq: "g\<lparr>l_stats := stats_default\<rparr> = replayed g fs"
    using assms by (simp add: local_rep_def)
  show "l_end g = 64 + length (log_bytes fs)"
    using arg_cong [OF eq, of l_end] by (simp add: replayed_def inner_base_def)
  then show "l_end g = length (vf_data (l_file g))"
    using assms by (simp add: local_rep_def)
  show "l_next_lsn g = log_next 1 fs"
    using arg_cong [OF eq, of l_next_lsn] by (simp add: replayed_def inner_base_def)
qed

lemma inner_base_update:
  "inner_base p d' a b c = (inner_base p d x y z)\<lparr>l_file := a, l_end := b, l_next_lsn := c, l_dir := d',
     l_stats := stats_default\<rparr>"
  by (simp add: inner_base_def)

text \<open>Appending one frame: the file grows by its bytes and the state by \<open>apply_frame\<close>.\<close>

lemma local_rep_snoc:
  assumes rep: "local_rep fs g" and f: "frame_at (l_next_lsn g) f" "frame_fits f"
    and data: "vf_data fl = vf_data (l_file g) @ frame_enc f"
    and g': "g' = (apply_frame g f)\<lparr>l_file := fl, l_end := l_end g + length (frame_enc f),
       l_next_lsn := l_next_lsn g + frame_lsns f, l_dir := d, l_stats := st\<rparr>"
  shows "local_rep (fs @ [f]) g'"
proof -
  have n: "l_next_lsn g = log_next 1 fs" and e: "l_end g = 64 + length (log_bytes fs)"
    using local_rep_fields [OF rep] by auto
  have eq: "g\<lparr>l_stats := stats_default\<rparr> = replayed g fs" and log: "log_at 1 fs"
    and d0: "vf_data (l_file g) = header_bytes @ log_bytes fs"
    using rep by (auto simp: local_rep_def)
  have log': "log_at 1 (fs @ [f])"
    using log f n by (simp add: log_at_append)
  let ?b = "l_end g + length (frame_enc f)" and ?c = "l_next_lsn g + frame_lsns f"
  have "replayed g' (fs @ [f]) =
      apply_frame (foldl apply_frame (inner_base (l_path g) d fl ?b ?c) fs) f"
    using n e by (simp add: replayed_def g' log_bytes_single log_next_append)
      (simp add: log_next_def add.assoc)
  also have "foldl apply_frame (inner_base (l_path g) d fl ?b ?c) fs =
      (replayed g fs)\<lparr>l_file := fl, l_end := ?b, l_next_lsn := ?c, l_dir := d, l_stats := stats_default\<rparr>"
    unfolding replayed_def
    by (subst inner_base_update [of _ d fl ?b ?c "l_dir g" "l_file g" "64 + length (log_bytes fs)" "log_next 1 fs"])
       (rule foldl_apply_frame_commute)
  also have "\<dots> = g\<lparr>l_file := fl, l_end := ?b, l_next_lsn := ?c, l_dir := d, l_stats := stats_default\<rparr>"
    by (simp flip: eq)
  finally have "replayed g' (fs @ [f]) = g'\<lparr>l_stats := stats_default\<rparr>"
    by (simp add: g' apply_frame_commute)
  with log' d0 data show ?thesis
    by (simp add: local_rep_def g' log_bytes_single)
qed

lemma local_rep_unchanged:
  assumes "local_rep fs g" and "vf_data fl = vf_data (l_file g)"
  shows "local_rep fs (g\<lparr>l_file := fl, l_stats := st\<rparr>)"
proof -
  have eq: "g\<lparr>l_stats := stats_default\<rparr> = replayed g fs"
    using assms by (simp add: local_rep_def)
  have "replayed (g\<lparr>l_file := fl, l_stats := st\<rparr>) fs =
      (replayed g fs)\<lparr>l_file := fl, l_end := 64 + length (log_bytes fs), l_next_lsn := log_next 1 fs,
         l_dir := l_dir g, l_stats := stats_default\<rparr>"
    unfolding replayed_def foldl_apply_frame_commute [symmetric]
    by (simp add: inner_base_def)
  also have "\<dots> = g\<lparr>l_file := fl, l_stats := stats_default\<rparr>"
    using local_rep_fields [OF assms(1)] by (simp flip: eq)
  finally show ?thesis
    using assms by (simp add: local_rep_def)
qed

section \<open>Facts about a replayed log\<close>

text \<open>Bounds that hold after any replay: the durable LSN is the last one assigned, the commit
  LSN is at most that, every page chain is strictly ascending and below the next LSN, and
  every branch is registered under its own id, below the next id.\<close>

definition chain_ok :: "nat \<Rightarrow> page_chain \<Rightarrow> bool" where
  "chain_ok n c \<longleftrightarrow> sorted_wrt (\<lambda>a b. fst a < fst b) c \<and>
     (\<forall>v\<in>set c. 0 < fst v \<and> fst v < n \<and> length (snd v) = PAGE_SIZE)"

lemma chain_ok_push: "chain_ok n c \<Longrightarrow> 0 < n \<Longrightarrow> chain_ok (Suc n) (c @ [(n, pad_page im)])"
  by (auto simp: chain_ok_def sorted_wrt_append less_Suc_eq)

lemma chain_ok_mono: "chain_ok n c \<Longrightarrow> n \<le> m \<Longrightarrow> chain_ok m c"
  by (auto simp: chain_ok_def)

definition replay_facts :: "nat \<Rightarrow> local_inner \<Rightarrow> bool" where
  "replay_facts n g \<longleftrightarrow> Suc (l_durable_lsn g) = n \<and> l_commit_lsn g \<le> l_durable_lsn g \<and>
     hm_wf (l_branches g) \<and>
     (\<forall>b r. hm_get (l_branches g) b = Some r \<longrightarrow> br_id r = b \<and> b < l_next_branch_id g) \<and>
     (\<forall>p c. hm_get (l_pages g) p = Some c \<longrightarrow> chain_ok n c)"

lemma replay_facts_apply:
  assumes "replay_facts n g" and "frame_at n f"
  shows "replay_facts (n + frame_lsns f) (apply_frame g f)"
proof -
  have old: "chain_ok (n + k) ch" if "hm_get (l_pages g) p = Some ch" for k p ch
    using assms(1) that chain_ok_mono [of n ch "n + k"] by (simp add: replay_facts_def)
  show ?thesis
  proof (cases f)
    case (FWal rs c)
    with old [of _ _ "length rs"] assms show ?thesis
      by (cases rs) (auto simp: replay_facts_def max_def)
  next
    case (FPage l p im)
    have "chain_ok (Suc n) (case hm_get (l_pages g) p of None \<Rightarrow> [(n, pad_page im)] | Some c \<Rightarrow> c @ [(n, pad_page im)])"
      using assms(1) chain_ok_push [of n "[]" im]
      by (auto simp: replay_facts_def chain_ok_push chain_ok_def [of _ "[]"] split: option.split)
    with FPage assms old [of _ _ 1] show ?thesis
      by (auto simp: replay_facts_def push_version_def max_def split: option.splits)
  next
    case (FBranch i b p)
    with assms show ?thesis
      by (fastforce simp: replay_facts_def less_Suc_eq_le le_max_iff_disj split: if_splits)
  qed (use assms in \<open>auto simp: replay_facts_def split: if_splits\<close>)
qed

lemma replay_facts_foldl:
  "replay_facts n g \<Longrightarrow> log_at n fs \<Longrightarrow> replay_facts (log_next n fs) (foldl apply_frame g fs)"
proof (induction fs arbitrary: n g)
  case Nil
  then show ?case by (simp add: log_next_def)
next
  case (Cons f fs)
  then have "replay_facts (n + frame_lsns f) (apply_frame g f)"
    by (auto intro: replay_facts_apply)
  with Cons.IH [OF this] Cons.prems(2) show ?case
    by (simp add: log_next_def add.assoc)
qed

lemma replay_facts_rep:
  assumes "local_rep fs g"
  shows "replay_facts (l_next_lsn g) g"
proof -
  have eq: "g\<lparr>l_stats := stats_default\<rparr> = replayed g fs" and log: "log_at 1 fs"
    using assms by (auto simp: local_rep_def)
  have "replay_facts 1 (inner_base (l_path g) (l_dir g) (l_file g) e n)" for e n
    by (simp add: replay_facts_def inner_base_def)
  from replay_facts_foldl [OF this log] have "replay_facts (l_next_lsn g) (replayed g fs)"
    using local_rep_fields [OF assms] by (simp add: replayed_def)
  then have "replay_facts (l_next_lsn g) (g\<lparr>l_stats := stats_default\<rparr>)"
    by (simp add: eq)
  then show ?thesis
    by (simp add: replay_facts_def)
qed

section \<open>Operations\<close>

text \<open>The operations of the backend as values, the frame each one writes and when the
  values it is given fit the widths of the format.\<close>

datatype local_op =
    OpAppend fence_token "wal_record list"
  | OpPut fence_token nat bytes
  | OpAcquire nat nat
  | OpRetention nat
  | OpCreateBranch string nat
  | OpDeleteBranch nat
  | OpFlush
  | OpScan nat
  | OpGet nat nat

definition drop_val :: "'a sres \<times> local_inner \<Rightarrow> bool \<times> local_inner" where
  "drop_val p = (\<not> isl (fst p), snd p)"

fun local_run :: "local_inner \<Rightarrow> local_op \<Rightarrow> bool \<times> local_inner" where
  "local_run g (OpAppend tok rs) = drop_val (local_append_wal g tok rs)"
| "local_run g (OpPut tok pid im) = drop_val (local_put_page g tok pid im)"
| "local_run g (OpAcquire now owner) = drop_val (local_acquire_fence g now owner)"
| "local_run g (OpRetention l) = drop_val (local_set_retention_floor g l)"
| "local_run g (OpCreateBranch nm b) = drop_val (local_create_branch g nm b)"
| "local_run g (OpDeleteBranch b) = drop_val (local_delete_branch g b)"
| "local_run g OpFlush = drop_val (local_flush g)"
| "local_run g (OpScan a) = drop_val (local_scan_wal g a)"
| "local_run g (OpGet pid l) = drop_val (local_get_page g pid l)"

fun op_frame :: "local_inner \<Rightarrow> local_op \<Rightarrow> frame option" where
  "op_frame g (OpAppend tok rs) =
     Some (FWal (zip [l_next_lsn g..<l_next_lsn g + length rs] rs) (l_next_lsn g + length rs - 1))"
| "op_frame g (OpPut tok pid im) = Some (FPage (l_next_lsn g) pid im)"
| "op_frame g (OpAcquire now owner) = Some (FFence (l_epoch g + 1))"
| "op_frame g (OpRetention l) = Some (FRetention l)"
| "op_frame g (OpCreateBranch nm b) = Some (FBranch (l_next_branch_id g) b BRANCH_ROOT)"
| "op_frame g (OpDeleteBranch b) = Some (FBranchDel b)"
| "op_frame g _ = None"

definition wal_fits :: "wal_record list \<Rightarrow> bool" where
  "wal_fits rs \<longleftrightarrow> length (wal_payload rs) + 1 < 2 ^ 32"

fun op_fits :: "local_inner \<Rightarrow> local_op \<Rightarrow> bool" where
  "op_fits g (OpAppend tok rs) \<longleftrightarrow> wal_fits rs"
| "op_fits g (OpPut tok pid im) \<longleftrightarrow> pid < 2 ^ 64"
| "op_fits g (OpAcquire now owner) \<longleftrightarrow> l_epoch g + 1 < 2 ^ 64"
| "op_fits g (OpRetention l) \<longleftrightarrow> l < 2 ^ 64"
| "op_fits g (OpCreateBranch nm b) \<longleftrightarrow> l_next_branch_id g < 2 ^ 64 \<and> b < 2 ^ 64"
| "op_fits g (OpDeleteBranch b) \<longleftrightarrow> b < 2 ^ 64"
| "op_fits g _ \<longleftrightarrow> True"

lemma length_concat_record_bytes: "r \<in> set rs \<Longrightarrow> length r \<le> length (concat (map record_bytes rs))"
  by (induction rs) (auto simp: record_bytes_def)

lemma length_concat_record_bytes_ge: "length rs \<le> length (concat (map record_bytes rs))"
  by (induction rs) (auto simp: record_bytes_def)

lemma op_frame_wf:
  assumes "op_fits g op" and "op_frame g op = Some f"
    and "\<And>tok rs. op = OpAppend tok rs \<Longrightarrow> rs \<noteq> []"
    and "\<And>tok pid im. op = OpPut tok pid im \<Longrightarrow> length im \<le> PAGE_SIZE"
  shows "frame_at (l_next_lsn g) f \<and> frame_fits f"
proof (cases op)
  case (OpAppend tok rs)
  have "length r < 2 ^ 32" if "r \<in> set rs" for r
    using assms(1) OpAppend length_concat_record_bytes [OF that] by (simp add: wal_fits_def wal_payload_def)
  moreover have "length rs < 2 ^ 32"
    using assms(1) OpAppend length_concat_record_bytes_ge [of rs] by (simp add: wal_fits_def wal_payload_def)
  ultimately show ?thesis
    using assms OpAppend by (auto simp: frame_fits_def wal_fits_def dest!: set_zip_rightD)
qed (use assms in \<open>auto simp: frame_fits_def PAGE_SIZE_def BRANCH_ROOT_def\<close>)

text \<open>When the operation reaches \<^verbatim>\<open>append_frame\<close>, and what it does then: the frame's bytes
  are appended, and on success the state is that of replaying the frame.\<close>

fun op_guard :: "local_inner \<Rightarrow> local_op \<Rightarrow> bool" where
  "op_guard g (OpAppend tok rs) \<longleftrightarrow> rs \<noteq> [] \<and> ft_epoch tok = l_epoch g"
| "op_guard g (OpPut tok pid im) \<longleftrightarrow> length im \<le> PAGE_SIZE \<and> ft_epoch tok = l_epoch g"
| "op_guard g (OpRetention l) \<longleftrightarrow> l_retention_floor g \<le> l"
| "op_guard g (OpCreateBranch nm b) \<longleftrightarrow> l_retention_floor g \<le> b"
| "op_guard g (OpDeleteBranch b) \<longleftrightarrow> hm_get (l_branches g) b \<noteq> None \<and>
     \<not> (\<exists>r\<in>set (hm_values (l_branches g)). br_parent r = b)"
| "op_guard g _ \<longleftrightarrow> True"

lemma frame_enc_simps:
  "frame_bytes T_WAL (wal_payload rs) = frame_enc (FWal (zip [n..<n + length rs] rs) c)"
  "frame_bytes T_PAGE (le_encode 8 pid @ im) = frame_enc (FPage l pid im)"
  "frame_bytes T_FENCE (le_encode 8 e) = frame_enc (FFence e)"
  "frame_bytes T_RETENTION (le_encode 8 e) = frame_enc (FRetention e)"
  "frame_bytes T_BRANCH (le_encode 8 i @ le_encode 8 b @ le_encode 8 q) = frame_enc (FBranch i b q)"
  "frame_bytes T_BRANCH_DEL (le_encode 8 i) = frame_enc (FBranchDel i)"
  by (simp_all add: frame_enc_def)

lemma drop_val_simps [simp]:
  "drop_val (Inl e, g) = (False, g)" "drop_val (Inr x, g) = (True, g)"
  by (simp_all add: drop_val_def)

lemma local_run_no_guard:
  assumes "op_frame g op = Some f" and "\<not> op_guard g op"
  shows "local_run g op = (False, g)"
  using assms
  by (cases op) (auto simp: local_append_wal_def local_put_page_def local_check_fence_def
    local_set_retention_floor_def local_create_branch_def local_delete_branch_def)

lemmas op_impl_defs = local_append_wal_def local_put_page_def local_check_fence_def
  local_acquire_fence_def local_set_retention_floor_def local_create_branch_def
  local_delete_branch_def

lemma append_frame_err:
  assumes "append_frame g tag payload = (Inl e, g')" and "l_end g = length (vf_data (l_file g))"
  shows "\<exists>fl k. g' = g\<lparr>l_file := fl\<rparr> \<and>
    vf_data fl = vf_data (l_file g) @ take k (frame_bytes tag payload)"
proof -
  let ?b = "frame_bytes tag payload"
  obtain b1 f1 b2 f2 b3 f3 where
    c: "vf_call (l_file g) = (b1, f1)" "vf_write f1 (l_end g) ?b = (b2, f2)" "vf_call f2 = (b3, f3)"
    by fastforce
  have d1: "vf_data f1 = vf_data (l_file g)"
    using vf_call_data [of "l_file g"] c(1) by simp
  have d2: "\<exists>k. vf_data f2 = vf_data f1 @ take k ?b"
    using c(2) assms(2) d1 write_at_end [of "vf_data f1"]
    by (auto simp: vf_write_def split: list.splits io_outcome.splits) (metis take_all order_refl)+
  have d3: "vf_data f3 = vf_data f2"
    using vf_call_data [of f2] c(3) by simp
  have n: "vf_data f1 = vf_data (l_file g) @ take 0 ?b"
    by (simp add: d1)
  show ?thesis
    using assms(1) c d1 d2 d3 n by (auto simp: append_frame_def Let_def split: if_splits)
qed

lemma append_cases:
  assumes "append_frame g tag payload = (r, g1)" and "l_end g = length (vf_data (l_file g))"
  obtains (ok) fl where "r = Inr ()" "vf_data fl = vf_data (l_file g) @ frame_bytes tag payload"
      "g1 = g\<lparr>l_file := fl, l_end := l_end g + length (frame_bytes tag payload),
           l_stats := (l_stats g)\<lparr>fsyncs := fsyncs (l_stats g) + 1\<rparr>\<rparr>"
    | (err) e fl k where "r = Inl e" "g1 = g\<lparr>l_file := fl\<rparr>"
      "vf_data fl = vf_data (l_file g) @ take k (frame_bytes tag payload)"
proof (cases r)
  case (Inl e)
  with append_frame_err assms err show ?thesis by blast
next
  case (Inr u)
  with append_frame_ok [of g tag payload u g1] assms ok show ?thesis by auto
qed

text \<open>What a writing operation does, on every branch.\<close>

lemma local_run_write:
  assumes rep: "local_rep fs g" and f: "op_frame g op = Some f" and G: "op_guard g op"
    and run: "local_run g op = (b, g')"
  obtains (wrote) fl d st where "b" "vf_data fl = vf_data (l_file g) @ frame_enc f"
      "g' = (apply_frame g f)\<lparr>l_file := fl, l_end := l_end g + length (frame_enc f),
         l_next_lsn := l_next_lsn g + frame_lsns f, l_dir := d, l_stats := st\<rparr>"
    | (failed) fl k where "\<not> b" "g' = g\<lparr>l_file := fl\<rparr>"
      "vf_data fl = vf_data (l_file g) @ take k (frame_enc f)"
proof -
  have e: "l_end g = length (vf_data (l_file g))"
    using local_rep_fields [OF rep] by simp
  have facts: "Suc (l_durable_lsn g) = l_next_lsn g" "l_commit_lsn g \<le> l_durable_lsn g"
    using replay_facts_rep [OF rep] by (simp_all add: replay_facts_def)
  obtain r g1 where a: "append_frame g (frame_tag f) (frame_payload f) = (r, g1)"
    by fastforce
  show thesis
    using a e
  proof (cases rule: append_cases)
    case (ok fl)
    have "b \<and> g' = (apply_frame g f)\<lparr>l_file := fl, l_end := l_end g + length (frame_enc f),
         l_next_lsn := l_next_lsn g + frame_lsns f, l_dir := l_dir g', l_stats := l_stats g'\<rparr>"
      using f G run a facts ok
      by (cases op) (auto simp: op_impl_defs Let_def frame_enc_def max_def)
    with ok(2) wrote show thesis by (auto simp only: frame_enc_def)
  next
    case (err er fl k)
    have "\<not> b" "g' = g1"
      using f G run a err(1)
      by (cases op; auto simp: op_impl_defs Let_def split: sum.splits prod.splits)+
    with err failed show thesis by (simp add: frame_enc_def)
  qed
qed

lemma local_run_read:
  assumes "op_frame g op = None" and "local_run g op = (b, g')"
  shows "\<exists>fl st. g' = g\<lparr>l_file := fl, l_stats := st\<rparr> \<and> vf_data fl = vf_data (l_file g)"
proof -
  have c: "\<And>f b f'. vf_call f = (b, f') \<Longrightarrow> vf_data f' = vf_data f"
    by (metis snd_conv vf_call_data)
  have r: "\<And>f r f'. read_log_file f = (r, f') \<Longrightarrow> vf_data f' = vf_data f"
    by (auto simp: read_log_file_def Let_def split: prod.splits if_splits dest!: c)
  have "g' = g\<lparr>l_file := l_file g', l_stats := l_stats g'\<rparr> \<and> vf_data (l_file g') = vf_data (l_file g)"
    using assms
    by (cases op) (auto simp: local_flush_def local_scan_wal_def local_get_page_def Let_def
      split: prod.splits if_splits sum.splits option.splits dest!: c r)
  then show ?thesis by metis
qed

section \<open>Every operation keeps the invariant\<close>

lemma op_guard_frame_wf:
  "op_guard g op \<Longrightarrow> op_fits g op \<Longrightarrow> op_frame g op = Some f \<Longrightarrow>
   frame_at (l_next_lsn g) f \<and> frame_fits f"
  by (rule op_frame_wf) auto

definition op_log :: "local_inner \<Rightarrow> local_op \<Rightarrow> frame list" where
  "op_log g op = (case op_frame g op of None \<Rightarrow> [] | Some f \<Rightarrow> [f])"

lemma local_run_rep:
  assumes "local_rep fs g" and "op_fits g op" and "local_run g op = (True, g')"
  shows "local_rep (fs @ op_log g op) g'"
proof (cases "op_frame g op")
  case None
  with local_run_read [OF None assms(3)] local_rep_unchanged [OF assms(1)] show ?thesis
    by (auto simp: op_log_def)
next
  case (Some f)
  have G: "op_guard g op"
    using local_run_no_guard [OF Some] assms(3) by auto
  have wf: "frame_at (l_next_lsn g) f" "frame_fits f"
    using op_guard_frame_wf [OF G assms(2) Some] by auto
  show ?thesis
    using assms(1) Some G assms(3)
    by (rule local_run_write) (auto simp: op_log_def Some intro: local_rep_snoc [OF assms(1) wf])
qed

text \<open>The bytes a crash can leave behind: everything synced before the operation, and any part
  of what the operation wrote.\<close>

lemma local_run_bytes:
  assumes "local_rep fs g" and "local_run g op = (b, g')" and "length (vf_data (l_file g)) \<le> k"
  shows "\<exists>j. take k (vf_data (l_file g')) = vf_data (l_file g) @ take j (log_bytes (op_log g op))"
proof (cases "op_frame g op")
  case None
  with local_run_read [OF None assms(2)] assms(3) show ?thesis
    by (auto simp: op_log_def log_bytes_def)
next
  case (Some f)
  show ?thesis
  proof (cases "op_guard g op")
    case False
    with local_run_no_guard [OF Some] assms(2,3) show ?thesis
      by (auto intro!: exI [of _ 0])
  next
    case True
    from assms(1) Some True assms(2) show ?thesis
    proof (cases rule: local_run_write)
      case (wrote fl d st)
      then show ?thesis
        using assms(3) by (auto simp: op_log_def Some log_bytes_single)
    next
      case (failed fl j)
      then show ?thesis
        using assms(3) by (auto simp: op_log_def Some log_bytes_single)
    qed
  qed
qed

section \<open>Reopening a file\<close>

text \<open>What a client can observe of the state, whatever handle it was opened through.\<close>

definition local_view :: "local_inner \<Rightarrow> nat \<times> nat \<times> nat \<times> nat \<times> nat \<times> (nat \<times> page_chain) list \<times>
    (nat \<times> branch_ref) list \<times> nat" where
  "local_view g = (l_next_lsn g, l_durable_lsn g, l_commit_lsn g, l_epoch g, l_retention_floor g,
     l_pages g, l_branches g, l_next_branch_id g)"

lemma local_view_apply:
  "local_view a = local_view b \<Longrightarrow> local_view (apply_frame a f) = local_view (apply_frame b f)"
  by (cases f) (auto simp: local_view_def)

lemma local_view_foldl:
  "local_view a = local_view b \<Longrightarrow> local_view (foldl apply_frame a fs) = local_view (foldl apply_frame b fs)"
proof (induction fs arbitrary: a b)
  case (Cons f fs)
  from Cons.IH [OF local_view_apply [OF Cons.prems]] show ?case by simp
qed simp

lemma local_rep_view:
  assumes "local_rep fs g" and "local_rep fs h"
  shows "local_view g = local_view h"
proof -
  have v: "local_view (replayed g fs) = local_view (replayed h fs)"
    unfolding replayed_def by (rule local_view_foldl) (simp add: local_view_def inner_base_def)
  have st: "\<And>g. local_view (g\<lparr>l_stats := stats_default\<rparr>) = local_view g"
    by (simp add: local_view_def)
  have "local_view (g\<lparr>l_stats := stats_default\<rparr>) = local_view (h\<lparr>l_stats := stats_default\<rparr>)"
  proof -
    have "g\<lparr>l_stats := stats_default\<rparr> = replayed g fs" "h\<lparr>l_stats := stats_default\<rparr> = replayed h fs"
      using assms by (auto simp only: local_rep_def)
    with v show ?thesis by metis
  qed
  then show ?thesis
    by (simp only: st)
qed

lemma local_rep_truncate:
  assumes "log_at 1 fs" and "take (64 + length (log_bytes fs)) (vf_data fl) = header_bytes @ log_bytes fs"
    and "vf_data fl' = header_bytes @ log_bytes fs"
  shows "local_rep fs ((foldl apply_frame (inner_base p d fl (64 + length (log_bytes fs)) (log_next 1 fs)) fs)\<lparr>l_file := fl'\<rparr>)"
proof -
  let ?e = "64 + length (log_bytes fs)" and ?n = "log_next 1 fs"
  have "foldl apply_frame (inner_base p d fl' ?e ?n) fs =
      (foldl apply_frame (inner_base p d fl ?e ?n) fs)\<lparr>l_file := fl', l_end := ?e, l_next_lsn := ?n,
         l_dir := d, l_stats := stats_default\<rparr>"
    unfolding foldl_apply_frame_commute [symmetric] by (simp add: inner_base_def)
  also have "\<dots> = (foldl apply_frame (inner_base p d fl ?e ?n) fs)\<lparr>l_file := fl'\<rparr>"
    by (simp add: inner_base_def)
  finally show ?thesis
    using assms by (simp add: local_rep_def replayed_def inner_base_def)
qed

text \<open>A file whose tail after the last good frame does not parse is opened to the replay of
  its frames, the tail cut off.  With no I/O fault the open succeeds.\<close>

definition tail_dead :: "frame list \<Rightarrow> bytes \<Rightarrow> bool" where
  "tail_dead fs rest \<longleftrightarrow>
     read_frames rest (64 + length (log_bytes fs)) (log_next 1 fs) = ([], 64 + length (log_bytes fs), log_next 1 fs)"

lemma heal_tail_rep:
  assumes "log_at 1 fs" and "vf_data fl = header_bytes @ log_bytes fs @ rest"
    and "heal_tail (foldl apply_frame (inner_base p d fl (64 + length (log_bytes fs)) (log_next 1 fs)) fs) = Inr g"
  shows "local_rep fs g \<and> l_path g = p \<and> l_dir g = d"
proof -
  let ?g = "foldl apply_frame (inner_base p d fl (64 + length (log_bytes fs)) (log_next 1 fs)) fs"
  have fields: "l_file ?g = fl" "l_end ?g = 64 + length (log_bytes fs)" "l_path ?g = p" "l_dir ?g = d"
    by (simp_all add: inner_base_def)
  have c: "\<And>f b f'. vf_call f = (b, f') \<Longrightarrow> vf_data f' = vf_data f"
    by (metis snd_conv vf_call_data)
  have "\<exists>fl'. g = ?g\<lparr>l_file := fl'\<rparr> \<and> vf_data fl' = header_bytes @ log_bytes fs"
    using assms(2,3) fields
    by (auto simp: heal_tail_def Let_def split: prod.splits if_splits dest!: c)
  then obtain fl' where g: "g = ?g\<lparr>l_file := fl'\<rparr>" and fl': "vf_data fl' = header_bytes @ log_bytes fs"
    by blast
  have "local_rep fs g"
    unfolding g using assms(1,2) fl' by (intro local_rep_truncate) simp_all
  with g fields show ?thesis by simp
qed

lemma local_open_log:
  assumes "log_at 1 fs" and "tail_dead fs rest" and "parse_file_url url = Inr p"
    and "hm_get dir p = Some (header_bytes @ log_bytes fs @ rest)"
    and "local_open url dir faults = Inr g"
  shows "local_rep fs g \<and> l_path g = p \<and> l_dir g = hm_remove p dir"
proof -
  have c: "\<And>f b f'. vf_call f = (b, f') \<Longrightarrow> vf_data f' = vf_data f"
    by (metis snd_conv vf_call_data)
  have ne: "header_bytes \<noteq> []"
    using length_header_bytes by (metis list.size(3) zero_neq_numeral)
  have rl: "read_log (header_bytes @ log_bytes fs @ rest) = Inr (fs, 64 + length (log_bytes fs), log_next 1 fs)"
    using assms(1,2) by (intro read_log_parts) (auto simp: tail_dead_def)
  have "\<exists>fl. vf_data fl = header_bytes @ log_bytes fs @ rest \<and>
      heal_tail (foldl apply_frame (inner_base p (hm_remove p dir) fl (64 + length (log_bytes fs)) (log_next 1 fs)) fs) = Inr g"
    using assms(3-5) rl ne
    by (auto simp: local_open_def local_recover_def read_log_file_def Let_def
      split: prod.splits if_splits sum.splits dest!: c)
  with heal_tail_rep [OF assms(1)] show ?thesis by blast
qed

lemma local_open_no_faults:
  assumes "log_at 1 fs" and "tail_dead fs rest" and "parse_file_url url = Inr p"
    and "hm_get dir p = Some (header_bytes @ log_bytes fs @ rest)"
  shows "\<exists>g. local_open url dir [] = Inr g"
proof -
  have ne: "header_bytes \<noteq> []"
    using length_header_bytes by (metis list.size(3) zero_neq_numeral)
  have "read_log (header_bytes @ log_bytes fs @ rest) = Inr (fs, 64 + length (log_bytes fs), log_next 1 fs)"
    using assms(1,2) by (intro read_log_parts) (auto simp: tail_dead_def)
  with assms(3,4) ne show ?thesis
    by (simp add: local_open_def local_recover_def read_log_file_def heal_tail_def Let_def inner_base_def)
qed

section \<open>Crashes\<close>

lemma tail_dead_torn:
  assumes "log_at 1 fs" and "frame_fits f" and "j < length (frame_enc f)"
  shows "tail_dead fs (take j (frame_enc f))"
  using assms read_frames_torn [of "frame_payload f" j "frame_tag f"]
  by (simp add: tail_dead_def frame_enc_def frame_fits_def)

lemma tail_dead_Nil [simp]: "tail_dead fs []"
  by (simp add: tail_dead_def)

text \<open>The file image a crash leaves: what was on disk before the operation, then any part of
  the operation's frame.\<close>

definition crash_image :: "local_inner \<Rightarrow> nat \<Rightarrow> local_inner \<Rightarrow> bytes" where
  "crash_image g k g' = take (length (vf_data (l_file g)) + k) (vf_data (l_file g'))"

lemma crash_image_log:
  assumes "local_rep fs g" and "op_fits g op" and "local_run g op = (b, g')"
  shows "\<exists>gs rest. (gs = fs \<or> gs = fs @ op_log g op \<and> op_guard g op) \<and> log_at 1 gs \<and> tail_dead gs rest \<and>
    crash_image g k g' = header_bytes @ log_bytes gs @ rest"
proof -
  have log: "log_at 1 fs" and d: "vf_data (l_file g) = header_bytes @ log_bytes fs"
    using assms(1) by (auto simp: local_rep_def)
  obtain j where j: "crash_image g k g' = vf_data (l_file g) @ take j (log_bytes (op_log g op))"
    using local_run_bytes [OF assms(1,3), of "length (vf_data (l_file g)) + k"]
    unfolding crash_image_def by auto
  show ?thesis
  proof (cases "op_frame g op")
    case None
    then have "op_log g op = []" by (simp add: op_log_def)
    with j d log show ?thesis
      by (intro exI [of _ fs] exI [of _ "[]"]) (simp add: log_bytes_def)
  next
    case (Some f)
    then have ol: "op_log g op = [f]" by (simp add: op_log_def)
    show ?thesis
    proof (cases "op_guard g op")
      case False
      with local_run_no_guard [OF Some] assms(3) have "g' = g" by simp
      with d log show ?thesis
        by (intro exI [of _ fs] exI [of _ "[]"]) (simp add: crash_image_def)
    next
      case True
      have wf: "frame_at (l_next_lsn g) f" "frame_fits f"
        using op_guard_frame_wf [OF True assms(2) Some] by auto
      show ?thesis
      proof (cases "j < length (frame_enc f)")
        case lt: True
        with tail_dead_torn [OF log wf(2) lt] j d log ol show ?thesis
          by (intro exI [of _ fs] exI [of _ "take j (frame_enc f)"]) (simp add: log_bytes_single)
      next
        case False
        then have "crash_image g k g' = header_bytes @ log_bytes (fs @ [f]) @ []"
          using j d ol by (simp add: log_bytes_single)
        moreover have "log_at 1 (fs @ [f])"
          using log wf local_rep_fields(2) [OF assms(1)] by (simp add: log_at_append)
        ultimately show ?thesis
          using True ol by (intro exI [of _ "fs @ [f]"] exI [of _ "[]"]) simp
      qed
    qed
  qed
qed

text \<open>Without I/O faults an operation that passes its guards succeeds.\<close>

definition fault_free :: "local_inner \<Rightarrow> local_inner" where
  "fault_free g = g\<lparr>l_file := (l_file g)\<lparr>vf_faults := []\<rparr>\<rparr>"

lemma append_frame_no_faults:
  "vf_faults (l_file g) = [] \<Longrightarrow> \<exists>g'. append_frame g tag payload = (Inr (), g')"
  by (simp add: append_frame_def vf_write_def)

lemma local_run_no_faults:
  assumes "op_guard g op" and "op_frame g op = Some f" and "vf_faults (l_file g) = []"
  shows "fst (local_run g op)"
proof -
  obtain g1 where "append_frame g (frame_tag f) (frame_payload f) = (Inr (), g1)"
    using append_frame_no_faults [OF assms(3)] by blast
  with assms show ?thesis
    by (cases op) (auto simp: op_impl_defs Let_def)
qed

lemma local_rep_fault_free: "local_rep fs g \<Longrightarrow> local_rep fs (fault_free g)"
  using local_rep_unchanged [of fs g "(l_file g)\<lparr>vf_faults := []\<rparr>" "l_stats g"]
  by (simp add: fault_free_def)

lemma fault_free_op [simp]:
  "op_guard (fault_free g) op = op_guard g op" "op_log (fault_free g) op = op_log g op"
  "op_fits (fault_free g) op = op_fits g op" "op_frame (fault_free g) op = op_frame g op"
  "vf_faults (l_file (fault_free g)) = []"
  by (cases op; simp add: fault_free_def op_log_def)+

text \<open>Reopening a crash image without faults gives the state before the operation or the state
  after it.\<close>

lemma reopen_rep:
  assumes "local_rep fs g" and "op_fits g op" and "local_run g op = (b, g')"
    and "parse_file_url url = Inr p" and "hm_get dir p = Some (crash_image g k g')"
    and "local_open url dir faults = Inr h"
  shows "local_rep fs h \<or> local_rep (fs @ op_log g op) h \<and> op_guard g op"
proof -
  obtain gs rest where gs: "gs = fs \<or> gs = fs @ op_log g op \<and> op_guard g op" "log_at 1 gs" "tail_dead gs rest"
    and im: "crash_image g k g' = header_bytes @ log_bytes gs @ rest"
    using crash_image_log [OF assms(1-3)] by blast
  have "local_rep gs h"
    using local_open_log [OF gs(2,3) assms(4) _ assms(6)] assms(5) im by simp
  with gs(1) show ?thesis by auto
qed

lemma reopen_succeeds:
  assumes "local_rep fs g" and "op_fits g op" and "local_run g op = (b, g')"
    and "parse_file_url url = Inr p" and "hm_get dir p = Some (crash_image g k g')"
  shows "\<exists>h. local_open url dir [] = Inr h"
proof -
  obtain gs rest where "log_at 1 gs" "tail_dead gs rest"
    and "crash_image g k g' = header_bytes @ log_bytes gs @ rest"
    using crash_image_log [OF assms(1-3)] by blast
  with local_open_no_faults assms(4,5) show ?thesis by simp
qed

lemma op_result_rep:
  assumes "local_rep fs g" and "op_fits g op" and "op_guard g op"
  shows "local_rep (fs @ op_log g op) (snd (local_run (fault_free g) op)) \<or> op_log g op = []"
proof (cases "op_frame g op")
  case None
  then show ?thesis by (simp add: op_log_def)
next
  case (Some f)
  then have "fst (local_run (fault_free g) op)"
    using assms(3) by (intro local_run_no_faults) simp_all
  then have "local_run (fault_free g) op = (True, snd (local_run (fault_free g) op))"
    by (metis prod.collapse)
  from local_run_rep [OF local_rep_fault_free [OF assms(1)] _ this] assms(2) show ?thesis by simp
qed

text \<open>A database file that was just created, for the concrete instances below.\<close>

definition fresh_local :: local_inner where
  "fresh_local = inner_base ''/db'' [] \<lparr>vf_data = header_bytes, vf_faults = []\<rparr> HEADER_SIZE 1"

lemma fresh_parse: "parse_file_url ''file:///db'' = Inr ''/db''"
  by (simp add: parse_file_url_def strip_prefix_def before_char_def)

lemma fresh_open: "local_open ''file:///db'' [] [] = Inr fresh_local"
  by (simp add: local_open_def fresh_parse write_header_def vf_write_def write_at_def heal_tail_def
    fresh_local_def inner_base_def HEADER_SIZE_def)

lemma fresh_fields [simp]: "vf_faults (l_file fresh_local) = []" "l_epoch fresh_local = 0"
    "l_next_lsn fresh_local = 1" "l_retention_floor fresh_local = 0" "l_durable_lsn fresh_local = 0"
  by (simp_all add: fresh_local_def inner_base_def)

lemma fresh_rep: "local_rep [] fresh_local"
  by (simp add: local_rep_def replayed_def fresh_local_def inner_base_def log_bytes_def log_next_def HEADER_SIZE_def)

lemma fresh_inv: "local_inv fresh_local"
  using fresh_rep by (auto simp: local_inv_def)

text \<open>C2. Crash atomicity of the single-file backend: whatever operation is running and however
  its system calls fail, and however much of its unsynced bytes reach the disk, the file
  can be opened again, and the reopened database is the one before the operation or the one
  the operation produces when it succeeds.\<close>

theorem local_crash_atomic:
  assumes "local_inv g" and "op_fits g op" and "local_run g op = (b, g')"
    and "parse_file_url url = Inr p"
  shows "\<exists>h. local_open url [(p, crash_image g k g')] [] = Inr h \<and> local_inv h \<and>
    (local_view h = local_view g \<or> local_view h = local_view (snd (local_run (fault_free g) op)))"
proof -
  obtain fs where rep: "local_rep fs g"
    using assms(1) by (auto simp: local_inv_def)
  obtain h where h: "local_open url [(p, crash_image g k g')] [] = Inr h"
    using reopen_succeeds [OF rep assms(2-4)] by fastforce
  have "local_rep fs h \<or> local_rep (fs @ op_log g op) h \<and> op_guard g op"
    using reopen_rep [OF rep assms(2-4) _ h] by simp
  then have "local_rep fs h \<or> local_rep (fs @ op_log g op) h \<and>
      local_rep (fs @ op_log g op) (snd (local_run (fault_free g) op))"
    using op_result_rep [OF rep assms(2)] by (metis append_Nil2)
  then have "local_inv h \<and>
      (local_view h = local_view g \<or> local_view h = local_view (snd (local_run (fault_free g) op)))"
    using local_rep_view rep unfolding local_inv_def by blast
  with h show ?thesis by blast
qed

theorem local_crash_atomic_witness:
  "\<exists>h. local_open ''file:///db''
       [(''/db'', crash_image fresh_local 3 (snd (local_run fresh_local (OpAcquire 0 1))))] [] = Inr h \<and>
     (local_view h = local_view fresh_local \<or>
      local_view h = local_view (snd (local_run (fault_free fresh_local) (OpAcquire 0 1))))"
  using local_crash_atomic [OF fresh_inv _ prod.collapse [symmetric] fresh_parse, of "OpAcquire 0 1" 3]
  by auto



section \<open>Reachable states\<close>

inductive local_step :: "local_inner \<Rightarrow> local_inner \<Rightarrow> bool" where
  step_op: "op_fits g op \<Longrightarrow> local_run g op = (True, g') \<Longrightarrow> local_step g g'"
| step_crash: "op_fits g op \<Longrightarrow> local_run g op = (b, g') \<Longrightarrow> parse_file_url url = Inr p \<Longrightarrow>
    hm_get dir p = Some (crash_image g k g') \<Longrightarrow> local_open url dir faults = Inr h \<Longrightarrow> local_step g h"

inductive local_reach :: "local_inner \<Rightarrow> bool" where
  reach_create: "parse_file_url url = Inr p \<Longrightarrow> hm_get dir p = None \<Longrightarrow>
    local_open url dir faults = Inr g \<Longrightarrow> local_reach g"
| reach_step: "local_reach g \<Longrightarrow> local_step g g' \<Longrightarrow> local_reach g'"

lemma local_step_log:
  assumes "local_rep fs g" and "local_step g h"
  shows "\<exists>gs. local_rep (fs @ gs) h"
  using assms(2)
proof cases
  case (step_op op)
  with local_run_rep [OF assms(1)] show ?thesis by blast
next
  case (step_crash op b g' url p dir k faults)
  with reopen_rep [OF assms(1)] show ?thesis by (metis append_Nil2)
qed

lemma local_open_fresh:
  assumes "parse_file_url url = Inr p" and "hm_get dir p = None" and "local_open url dir faults = Inr g"
  shows "local_rep [] g"
proof -
  have c: "\<And>f b f'. vf_call f = (b, f') \<Longrightarrow> vf_data f' = vf_data f"
    by (metis snd_conv vf_call_data)
  have w: "vf_data f' = header_bytes" if "write_header f = (Inr u, f')" "vf_data f = []" for f f' u
    using that by (auto simp: write_header_def Let_def write_at_def split: prod.splits if_splits
      dest!: c vf_write_True)
  have "\<exists>fl. vf_data fl = header_bytes \<and> heal_tail (inner_base p (hm_remove p dir) fl HEADER_SIZE 1) = Inr g"
    using assms by (auto simp: local_open_def Let_def split: prod.splits if_splits sum.splits dest!: c w)
  then show ?thesis
    using heal_tail_rep [of "[]" _ "[]" p "hm_remove p dir" g]
    by (auto simp: log_bytes_def log_next_def HEADER_SIZE_def)
qed

lemma local_reach_rep: "local_reach g \<Longrightarrow> \<exists>fs. local_rep fs g"
proof (induction rule: local_reach.induct)
  case (reach_create url p dir faults g)
  with local_open_fresh show ?case by blast
next
  case (reach_step g g')
  with local_step_log show ?case by blast
qed

end
