(* ===== verification/Append_Faults.thy ===== *)
theory Append_Faults
  imports Storage_Types
begin

text \<open>
  The append contract of the storage seam extended to appends that fail.
\<close>

text \<open>A backend in which an append may fail.  \<open>untouched\<close> says that the durable medium is the same
  before and after; a failed append that left it untouched changed nothing of the log.  About an
  append that reports failure after it changed the medium the seam promises nothing.\<close>

locale wal_faults = wal_storage ops ok hist nxt holds fits
  for ops :: "'s storage" and ok hist nxt holds fits +
  fixes untouched :: "'s \<Rightarrow> 's \<Rightarrow> bool"
  assumes failed_append: "ok s \<Longrightarrow> st_append_wal ops s tok rs = (Inl e, s') \<Longrightarrow> untouched s s' \<Longrightarrow>
    ok s' \<and> hist s' = hist s \<and> nxt s' = nxt s"

end
