(* ===== verification/Local_Contract.thy ===== *)
theory Local_Contract
  imports Local_Correct Append_Faults
begin

text \<open>
  What \<^verbatim>\<open>LocalFileStorage\<close> promises its clients: page reads return the newest version at or
  below the requested LSN, a scan returns the appended records, the counters and the
  fence only move forward over any run with crashes, and the backend is an instance of
  the append contract of the seam.
\<close>

section \<open>The log as a history\<close>

definition local_counters :: "local_inner \<Rightarrow> nat list" where
  "local_counters g = [l_durable_lsn g, l_commit_lsn g, l_epoch g, l_retention_floor g, l_next_branch_id g]"

lemma local_counters_foldl:
  "local_counters a = local_counters b \<Longrightarrow>
   local_counters (foldl apply_frame a fs) = local_counters (foldl apply_frame b fs)"
proof (induction fs arbitrary: a b)
  case (Cons f fs)
  have "local_counters (apply_frame a f) = local_counters (apply_frame b f)"
    using Cons.prems by (cases f) (auto simp: local_counters_def)
  from Cons.IH [OF this] show ?case by simp
qed simp

lemma local_rep_counters:
  assumes "local_rep fs g"
  shows "local_counters g = local_counters (foldl apply_frame (inner_base [] [] \<lparr>vf_data = [], vf_faults = []\<rparr> 0 0) fs)"
proof -
  have eq: "g\<lparr>l_stats := stats_default\<rparr> = replayed g fs"
    using assms by (simp add: local_rep_def)
  have "local_counters g = local_counters (replayed g fs)"
    using arg_cong [OF eq, of local_counters] by (simp add: local_counters_def)
  also have "\<dots> = local_counters (foldl apply_frame (inner_base [] [] \<lparr>vf_data = [], vf_faults = []\<rparr> 0 0) fs)"
    unfolding replayed_def by (rule local_counters_foldl) (simp add: local_counters_def inner_base_def)
  finally show ?thesis .
qed

fun frame_versions :: "nat \<Rightarrow> frame \<Rightarrow> page_chain" where
  "frame_versions pid (FPage l i im) = (if i = pid then [(l, pad_page im)] else [])"
| "frame_versions pid _ = []"

definition page_history :: "nat \<Rightarrow> frame list \<Rightarrow> page_chain" where
  "page_history pid fs = concat (map (frame_versions pid) fs)"

lemma page_history_foldl:
  "hm_get (l_pages (foldl apply_frame g fs)) pid =
     (if page_history pid fs = [] then hm_get (l_pages g) pid
      else Some ((case hm_get (l_pages g) pid of None \<Rightarrow> [] | Some c \<Rightarrow> c) @ page_history pid fs))"
proof (induction fs arbitrary: g)
  case Nil
  then show ?case by (simp add: page_history_def)
next
  case (Cons f fs)
  have "hm_get (l_pages (apply_frame g f)) pid =
     (if frame_versions pid f = [] then hm_get (l_pages g) pid
      else Some ((case hm_get (l_pages g) pid of None \<Rightarrow> [] | Some c \<Rightarrow> c) @ frame_versions pid f))"
    by (cases f) (auto simp: push_version_def)
  with Cons.IH [of "apply_frame g f"] show ?case
    by (auto simp: page_history_def split: option.splits)
qed

lemma local_rep_pages:
  assumes "local_rep fs g"
  shows "hm_get (l_pages g) pid = (if page_history pid fs = [] then None else Some (page_history pid fs))"
proof -
  have "l_pages g = l_pages (replayed g fs)"
  proof -
    have "g\<lparr>l_stats := stats_default\<rparr> = replayed g fs"
      using assms by (simp add: local_rep_def)
    from arg_cong [OF this, of l_pages] show ?thesis by simp
  qed
  then show ?thesis
    by (simp add: replayed_def page_history_foldl inner_base_def)
qed

lemma find_last_filter: "find_last p xs = (if filter p xs = [] then None else Some (last (filter p xs)))"
  by (induction xs rule: rev_induct) (auto simp: find_last_snoc)

lemma local_get_page_eq:
  assumes "local_rep fs g"
  shows "fst (local_get_page g pid lsn) =
    (let vs = filter (\<lambda>v. fst v \<le> lsn) (page_history pid fs) in
     if lsn < l_retention_floor g \<or> vs = [] then Inl NotFound
     else Inr \<lparr>pg_id = pid, pg_lsn = fst (last vs), pg_bytes = snd (last vs)\<rparr>)"
proof -
  have p: "(\<lambda>(vlsn, _). vlsn \<le> lsn) = (\<lambda>v :: nat \<times> bytes. fst v \<le> lsn)"
    by auto
  show ?thesis
    using local_rep_pages [OF assms, of pid]
    by (auto simp: local_get_page_def p find_last_filter Let_def split_beta split: option.splits)
qed

text \<open>A page read at an LSN returns the last version of the page whose LSN is at most the
  requested one, among all page frames of the log; it is \<^verbatim>\<open>NotFound\<close> when there is none or when
  the LSN is below the retention floor.\<close>

theorem local_get_page_newest:
  assumes "local_rep fs g"
  shows "fst (local_get_page g pid lsn) =
    (let vs = filter (\<lambda>v. fst v \<le> lsn) (page_history pid fs) in
     if lsn < l_retention_floor g \<or> vs = [] then Inl NotFound
     else Inr \<lparr>pg_id = pid, pg_lsn = fst (last vs), pg_bytes = snd (last vs)\<rparr>)"
  using assms by (rule local_get_page_eq)

lemma replay_rep:
  "log_at 1 fs \<Longrightarrow> local_rep fs (foldl apply_frame (inner_base p d \<lparr>vf_data = header_bytes @ log_bytes fs, vf_faults = []\<rparr>
     (64 + length (log_bytes fs)) (log_next 1 fs)) fs)"
  by (simp add: local_rep_def replayed_def inner_base_def)

theorem local_get_page_newest_witness:
  "\<exists>g. local_rep [FPage 1 7 [5], FPage 2 7 [6], FPage 3 7 [8]] g \<and>
     fst (local_get_page g 7 2) = Inr \<lparr>pg_id = 7, pg_lsn = 2, pg_bytes = pad_page [6]\<rparr>"
proof -
  let ?fs = "[FPage 1 7 [5], FPage 2 7 [6], FPage 3 7 [8]]"
  have "log_at 1 ?fs"
    by (simp add: frame_fits_def)
  from replay_rep [OF this] obtain g where g: "local_rep ?fs g" by blast
  have "local_counters g = [3, 0, 0, 0, 1]"
    using local_rep_counters [OF g] by (simp add: local_counters_def inner_base_def)
  then have "l_retention_floor g = 0"
    by (simp add: local_counters_def)
  with local_get_page_newest [OF g, of 7 2] g show ?thesis
    by (auto simp: page_history_def)
qed

section \<open>The WAL as a history\<close>

definition wal_history :: "frame list \<Rightarrow> log_entry list" where
  "wal_history fs = concat (map (frame_entries 0) fs)"

lemma frame_entries_after: "frame_entries a f = entries_after a (frame_entries 0 f) \<or> a = 0"
  by (cases f) (auto simp: frame_entries_def entries_after_def filter_map comp_def split_beta
    intro!: arg_cong [where f = "map _"] filter_cong)

lemma frame_at_entries:
  assumes "frame_at n f" and "0 < n"
  shows "\<exists>rs. frame_entries 0 f = number_records n rs \<and> length rs \<le> frame_lsns f"
proof (cases f)
  case (FWal rs c)
  with assms have z: "rs = zip [n..<n + length rs] (map snd rs)"
    using zip_map_fst_snd' [of rs "[n..<n + length rs]"] by simp
  have "0 < fst r" if "r \<in> set rs" for r
  proof -
    have "fst r \<in> set [n..<n + length rs]"
      using assms(1) FWal that by (metis frame_at.simps(1) image_eqI set_map)
    with assms(2) show ?thesis by simp
  qed
  then have "filter (\<lambda>(l, r). 0 < l) rs = rs"
    by (simp add: filter_id_conv split_beta)
  then have "frame_entries 0 f = number_records n (map snd rs)"
    using z FWal by (simp add: frame_entries_def number_records_def)
  with FWal show ?thesis by auto
qed (auto simp: frame_entries_def intro: exI [of _ "[]"])

lemma wal_history_lsns:
  assumes "log_at n fs" and "0 < n"
  shows "sorted_wrt (<) (map le_lsn (wal_history fs)) \<and>
    (\<forall>e\<in>set (wal_history fs). n \<le> le_lsn e \<and> le_lsn e < log_next n fs)"
  using assms
proof (induction fs arbitrary: n)
  case Nil
  then show ?case by (simp add: wal_history_def)
next
  case (Cons f fs)
  then obtain rs where rs: "frame_entries 0 f = number_records n rs" "length rs \<le> frame_lsns f"
    using frame_at_entries [of n f] by auto
  have IH: "sorted_wrt (<) (map le_lsn (wal_history fs))"
    "\<forall>e\<in>set (wal_history fs). n + frame_lsns f \<le> le_lsn e \<and> le_lsn e < log_next (n + frame_lsns f) fs"
    using Cons.IH [of "n + frame_lsns f"] Cons.prems by auto
  have h: "wal_history (f # fs) = number_records n rs @ wal_history fs"
    by (simp add: wal_history_def rs)
  have nx: "log_next n (f # fs) = log_next (n + frame_lsns f) fs" "n + frame_lsns f \<le> log_next (n + frame_lsns f) fs"
    by (simp_all add: log_next_def)
  have b: "n \<le> le_lsn e \<and> le_lsn e < n + frame_lsns f" if "e \<in> set (number_records n rs)" for e
    using number_records_lsn_bounds [OF that] rs(2) by linarith
  have "sorted_wrt (<) (map le_lsn (number_records n rs @ wal_history fs))"
    using IH rs(2) by (fastforce simp: sorted_wrt_append)
  moreover have "n \<le> le_lsn e \<and> le_lsn e < log_next n (f # fs)"
    if "e \<in> set (number_records n rs @ wal_history fs)" for e
    using that IH(2) b [of e] nx by fastforce
  ultimately show ?case
    unfolding h by blast
qed

lemma scan_frames: "concat (map (frame_entries a) fs) = entries_after a (wal_history fs)"
proof (cases "a = 0")
  case True
  have "\<forall>e\<in>set (wal_history fs). 0 < le_lsn e"
    by (auto simp: wal_history_def frame_entries_def split: frame.splits)
  with True show ?thesis
    by (simp add: entries_after_def filter_id_conv wal_history_def)
next
  case False
  have "frame_entries a f = entries_after a (frame_entries 0 f)" for f
    using frame_entries_after [of a f] False by simp
  then show ?thesis
    by (induction fs) (simp_all add: wal_history_def entries_after_def)
qed

section \<open>The append contract\<close>

text \<open>The acknowledged history is read off the file itself.\<close>

definition local_hist :: "local_inner \<Rightarrow> log_entry list" where
  "local_hist g = (case read_log (vf_data (l_file g)) of
     Inl e \<Rightarrow> [] | Inr (fs, e, n) \<Rightarrow> wal_history fs)"

lemma local_rep_hist: "local_rep fs g \<Longrightarrow> local_hist g = wal_history fs"
  by (simp add: local_rep_def local_hist_def read_log_exact)

lemma local_scan_exact:
  assumes "local_inv g" and "local_scan_wal g a = (Inr es, g')"
  shows "es = entries_after a (local_hist g)"
proof -
  obtain fs where rep: "local_rep fs g"
    using assms(1) by (auto simp: local_inv_def)
  have c: "\<And>f b f'. vf_call f = (b, f') \<Longrightarrow> vf_data f' = vf_data f"
    by (metis snd_conv vf_call_data)
  have "read_log (vf_data (l_file g)) = Inr (fs, 64 + length (log_bytes fs), log_next 1 fs)"
    using rep by (simp add: local_rep_def read_log_exact)
  then have "es = concat (map (frame_entries a) fs)"
    using assms(2) by (auto simp: local_scan_wal_def read_log_file_def Let_def split: prod.splits if_splits dest!: c)
  then show ?thesis
    by (simp add: scan_frames local_rep_hist [OF rep])
qed

lemma frame_entries_op:
  assumes "0 < n"
  shows "frame_entries 0 (FWal (zip [n..<n + length rs] rs) c) = number_records n rs"
proof -
  have "filter (\<lambda>(l, r). 0 < l) (zip [n..<n + length rs] rs) = zip [n..<n + length rs] rs"
    using assms by (auto simp: filter_id_conv dest!: set_zip_leftD)
  then show ?thesis
    by (simp add: frame_entries_def number_records_def)
qed

lemma append_frame_fields:
  "append_frame g tag payload = (r, g1) \<Longrightarrow> l_next_lsn g1 = l_next_lsn g \<and> l_epoch g1 = l_epoch g"
  by (auto simp: append_frame_def Let_def split: prod.splits if_splits)

lemma local_append_exact:
  assumes "local_inv g" and "wal_fits rs" and "local_append_wal g tok rs = (Inr l, g')"
  shows "rs \<noteq> [] \<and> ft_epoch tok = l_epoch g \<and> local_inv g' \<and> l = l_next_lsn g + length rs - 1 \<and>
    local_hist g' = local_hist g @ number_records (l_next_lsn g) rs \<and>
    l_next_lsn g' = l_next_lsn g + length rs \<and> l_epoch g' = l_epoch g"
proof -
  obtain fs where rep: "local_rep fs g"
    using assms(1) by (auto simp: local_inv_def)
  let ?op = "OpAppend tok rs"
  have run: "local_run g ?op = (True, g')"
    using assms(3) by simp
  have G: "op_guard g ?op"
    using local_run_no_guard [of g ?op] run by fastforce
  have rep': "local_rep (fs @ op_log g ?op) g'"
    using local_run_rep [OF rep _ run] assms(2) by simp
  have pos: "0 < l_next_lsn g"
    using local_rep_fields(2) [OF rep] log_next_ge [of 1 fs] by simp
  have "local_hist g' = local_hist g @ number_records (l_next_lsn g) rs"
    using local_rep_hist [OF rep'] local_rep_hist [OF rep] frame_entries_op [OF pos]
    by (simp add: op_log_def wal_history_def)
  moreover have "l = l_next_lsn g + length rs - 1 \<and> l_next_lsn g' = l_next_lsn g + length rs \<and> l_epoch g' = l_epoch g"
    using assms(3) G
    by (auto simp: local_append_wal_def local_check_fence_def Let_def split: sum.splits prod.splits
      dest: append_frame_fields)
  ultimately show ?thesis
    using G rep' by (auto simp: local_inv_def)
qed

lemma local_append_fenced:
  assumes "rs \<noteq> []" and "ft_epoch tok \<noteq> l_epoch g"
  shows "local_append_wal g tok rs = (Inl (Fenced (ft_epoch tok) (l_epoch g)), g)"
  using assms by (simp add: local_append_wal_def local_check_fence_def)

lemma local_acquire_exact:
  assumes "local_inv g" and "Suc (l_epoch g) < 2 ^ 64"
    and "local_acquire_fence g now owner = (Inr tok, g')"
  shows "local_inv g' \<and> ft_epoch tok = Suc (l_epoch g) \<and> l_epoch g' = ft_epoch tok \<and>
    local_hist g' = local_hist g \<and> l_next_lsn g' = l_next_lsn g"
proof -
  obtain fs where rep: "local_rep fs g"
    using assms(1) by (auto simp: local_inv_def)
  have rep': "local_rep (fs @ op_log g (OpAcquire now owner)) g'"
    using local_run_rep [OF rep, of "OpAcquire now owner" g'] assms(2,3) by simp
  have "ft_epoch tok = Suc (l_epoch g) \<and> l_epoch g' = ft_epoch tok \<and> l_next_lsn g' = l_next_lsn g"
    using assms(3)
    by (auto simp: local_acquire_fence_def Let_def split: sum.splits prod.splits dest: append_frame_fields)
  moreover have "local_hist g' = local_hist g"
    using local_rep_hist [OF rep'] local_rep_hist [OF rep]
    by (simp add: op_log_def wal_history_def frame_entries_def)
  ultimately show ?thesis
    using rep' by (auto simp: local_inv_def)
qed

lemma local_hist_bounds:
  assumes "local_inv g"
  shows "0 < l_next_lsn g" "sorted_wrt (<) (map le_lsn (local_hist g))"
    "e \<in> set (local_hist g) \<Longrightarrow> 0 < le_lsn e \<and> le_lsn e < l_next_lsn g"
proof -
  obtain fs where rep: "local_rep fs g"
    using assms(1) by (auto simp: local_inv_def)
  have n: "l_next_lsn g = log_next 1 fs"
    using local_rep_fields(2) [OF rep] .
  show "0 < l_next_lsn g"
    using n log_next_ge [of 1 fs] by simp
  show "sorted_wrt (<) (map le_lsn (local_hist g))"
    "e \<in> set (local_hist g) \<Longrightarrow> 0 < le_lsn e \<and> le_lsn e < l_next_lsn g"
    using wal_history_lsns [of 1 fs] rep n local_rep_hist [OF rep] by (auto simp: local_rep_def)
qed

interpretation local_wal: wal_storage local_storage local_inv local_hist l_next_lsn l_epoch "\<lambda>_. wal_fits"
proof
  fix s e assume "local_inv s"
  then show "0 < l_next_lsn s" "sorted_wrt (<) (map le_lsn (local_hist s))"
    "e \<in> set (local_hist s) \<Longrightarrow> 0 < le_lsn e \<and> le_lsn e < l_next_lsn s"
    using local_hist_bounds by auto
next
  fix s a es s' assume "local_inv s" "st_scan_wal local_storage s a = (Inr es, s')"
  then show "es = entries_after a (local_hist s)"
    using local_scan_exact by (simp add: local_storage_def)
next
  fix s rs and tok :: fence_token and l s'
  assume "local_inv s" "wal_fits rs" "st_append_wal local_storage s tok rs = (Inr l, s')"
  then show "rs \<noteq> [] \<and> ft_epoch tok = l_epoch s \<and> local_inv s' \<and> l = l_next_lsn s + length rs - 1 \<and>
      local_hist s' = local_hist s @ number_records (l_next_lsn s) rs \<and>
      l_next_lsn s' = l_next_lsn s + length rs \<and> l_epoch s' = l_epoch s"
    using local_append_exact [of s rs tok l s'] by (simp add: local_storage_def)
next
  fix s and rs :: "wal_record list" and tok :: fence_token
  assume "local_inv s" "ft_epoch tok \<noteq> l_epoch s"
  then show "isl (fst (st_append_wal local_storage s tok rs))"
    using local_append_fenced [of rs tok s] by (cases "rs = []") (simp_all add: local_storage_def local_append_wal_def)
next
  fix s now owner and tok :: fence_token and s'
  assume "local_inv s" "Suc (l_epoch s) < 2 ^ 64" "st_acquire_fence local_storage s now owner = (Inr tok, s')"
  then show "local_inv s' \<and> ft_epoch tok = Suc (l_epoch s) \<and> l_epoch s' = ft_epoch tok \<and>
      local_hist s' = local_hist s \<and> l_next_lsn s' = l_next_lsn s"
    using local_acquire_exact [of s now owner tok s'] by (simp add: local_storage_def)
qed

text \<open>The file is the one it was.\<close>

definition file_untouched :: "local_inner \<Rightarrow> local_inner \<Rightarrow> bool" where
  "file_untouched g h \<longleftrightarrow> vf_data (l_file h) = vf_data (l_file g)"

lemma append_frame_failed: "append_frame g tag payload = (Inl e, h) \<Longrightarrow> \<exists>fl. h = g\<lparr>l_file := fl\<rparr>"
  by (auto simp: append_frame_def Let_def split: prod.splits if_splits)

lemma local_append_failed:
  assumes "local_inv g" and "local_append_wal g tok rs = (Inl e, h)" and "file_untouched g h"
  shows "local_inv h \<and> local_hist h = local_hist g \<and> l_next_lsn h = l_next_lsn g"
proof -
  have "\<exists>fl. h = g\<lparr>l_file := fl\<rparr>"
    using assms(2) by (auto simp: local_append_wal_def Let_def intro: exI [of _ "l_file g"]
        split: if_splits sum.splits prod.splits dest!: append_frame_failed)
  then obtain fl where h: "h = g\<lparr>l_file := fl\<rparr>" by blast
  obtain fs where rep: "local_rep fs g" using assms(1) by (auto simp: local_inv_def)
  from assms(3) have "vf_data fl = vf_data (l_file g)" by (simp add: file_untouched_def h)
  from local_rep_unchanged [OF rep this, of "l_stats g"] have "local_rep fs h" by (simp add: h)
  with local_rep_hist [OF rep] show ?thesis by (auto simp: local_inv_def local_rep_hist h)
qed

interpretation local_faults: wal_faults local_storage local_inv local_hist l_next_lsn l_epoch "\<lambda>_. wal_fits" file_untouched
  by unfold_locales (use local_append_failed in \<open>simp add: local_storage_def\<close>)

text \<open>C4. Every acknowledged append of a batch below 4 GiB is read back by \<^verbatim>\<open>scan_wal\<close>: a scan after the previous
  high-water mark returns exactly the records of the append, in order, and the LSN returned
  to the client is that of the last one.\<close>

theorem local_append_scan:
  assumes "local_inv g" and "wal_fits rs" and "local_append_wal g tok rs = (Inr l, g1)"
    and "local_scan_wal g1 (l_next_lsn g - 1) = (Inr es, g2)"
  shows "map le_record es = rs \<and> l = le_lsn (last es)"
  using local_wal.acked_is_replayed [of g rs tok l g1 es g2] assms by (simp add: local_storage_def)

lemma append_frame_keeps_no_faults:
  "vf_faults (l_file g) = [] \<Longrightarrow> append_frame g tag payload = (r, g1) \<Longrightarrow> vf_faults (l_file g1) = []"
  by (auto simp: append_frame_def vf_write_def Let_def)

lemma local_scan_no_faults:
  assumes "local_inv g" and "vf_faults (l_file g) = []"
  shows "local_scan_wal g a = (Inr (entries_after a (local_hist g)), g)"
proof -
  obtain fs where rep: "local_rep fs g"
    using assms(1) by (auto simp: local_inv_def)
  then have "read_log (vf_data (l_file g)) = Inr (fs, 64 + length (log_bytes fs), log_next 1 fs)"
    by (simp add: local_rep_def read_log_exact)
  with assms(2) show ?thesis
    by (simp add: local_scan_wal_def read_log_file_def scan_frames local_rep_hist [OF rep])
qed

text \<open>An append of the file backend that meets no failing system call, and what it leaves.\<close>

lemma local_append_no_faults:
  assumes "local_inv g" and "wal_fits rs" and "rs \<noteq> []" and "ft_epoch tok = l_epoch g" and "vf_faults (l_file g) = []"
  obtains h where "local_append_wal g tok rs = (Inr (l_next_lsn g + length rs - 1), h)" and "local_inv h"
    and "vf_faults (l_file h) = []" and "local_hist h = local_hist g @ number_records (l_next_lsn g) rs"
proof -
  obtain g0 where "append_frame g T_WAL (wal_payload rs) = (Inr (), g0)" "vf_faults (l_file g0) = []"
    using append_frame_no_faults [OF assms(5)] append_frame_keeps_no_faults [OF assms(5)] by fastforce
  then obtain l h where a: "local_append_wal g tok rs = (Inr l, h)" "vf_faults (l_file h) = []"
    using assms(3,4) by (auto simp: local_append_wal_def local_check_fence_def Let_def)
  with local_append_exact [OF assms(1,2) a(1)] show ?thesis by (intro that [of h]) auto
qed

theorem local_append_scan_witness:
  "\<exists>l g1 es g2. local_append_wal fresh_local \<lparr>ft_epoch = 0, ft_owner = 1, ft_lease_until = 0\<rparr> [[1, 2], []] = (Inr l, g1) \<and>
     local_scan_wal g1 0 = (Inr es, g2) \<and> map le_record es = [[1, 2], []] \<and> l = le_lsn (last es)"
proof -
  let ?tok = "\<lparr>ft_epoch = 0, ft_owner = 1, ft_lease_until = 0\<rparr>" and ?rs = "[[1, 2], []] :: wal_record list"
  obtain g0 where "append_frame fresh_local T_WAL (wal_payload ?rs) = (Inr (), g0)" "vf_faults (l_file g0) = []"
    using append_frame_no_faults [of fresh_local] append_frame_keeps_no_faults [of fresh_local] by fastforce
  then obtain l g1 where a: "local_append_wal fresh_local ?tok ?rs = (Inr l, g1)" "vf_faults (l_file g1) = []"
    by (auto simp: local_append_wal_def local_check_fence_def Let_def)
  have f: "wal_fits ?rs"
    by (simp add: wal_fits_def wal_payload_def record_bytes_def)
  have "local_inv g1"
    using local_append_exact [OF fresh_inv f a(1)] by blast
  from local_scan_no_faults [OF this a(2)] local_append_scan [OF fresh_inv f a(1), of _ g1] a(1)
  show ?thesis by (auto simp: fresh_local_def inner_base_def)
qed

section \<open>Monotonicity over runs\<close>

definition local_le :: "local_inner \<Rightarrow> local_inner \<Rightarrow> bool" where
  "local_le g h \<longleftrightarrow> l_next_lsn g \<le> l_next_lsn h \<and> list_all2 (\<le>) (local_counters g) (local_counters h)"

lemma local_counters_mono: "list_all2 (\<le>) (local_counters g) (local_counters (foldl apply_frame g fs))"
proof (induction fs rule: rev_induct)
  case (snoc f fs)
  then show ?case
    by (cases f) (auto simp: local_counters_def)
qed (simp add: local_counters_def)

lemma local_rep_le:
  assumes "local_rep fs g" and "local_rep (fs @ gs) h"
  shows "local_le g h"
  using local_rep_counters [OF assms(1)] local_rep_counters [OF assms(2)]
    local_rep_fields(2) [OF assms(1)] local_rep_fields(2) [OF assms(2)] log_next_ge [of "log_next 1 fs" gs]
    local_counters_mono [of "foldl apply_frame (inner_base [] [] \<lparr>vf_data = [], vf_faults = []\<rparr> 0 0) fs" gs]
  by (simp add: local_le_def log_next_append)

lemma local_steps_rep:
  "local_step\<^sup>*\<^sup>* g h \<Longrightarrow> local_rep fs g \<Longrightarrow> \<exists>gs. local_rep (fs @ gs) h"
proof (induction rule: rtranclp_induct)
  case base
  then show ?case by (metis append_Nil2)
next
  case (step y z)
  with local_step_log show ?case by (metis append_assoc)
qed

section \<open>Every handle is well formed\<close>

text \<open>What the parser yields for any bytes: LSNs are assigned in order, whatever else the frames hold.\<close>

fun numbered :: "nat \<Rightarrow> frame \<Rightarrow> bool" where
  "numbered n (FWal rs c) \<longleftrightarrow> c < n + length rs"
| "numbered n (FPage l i im) \<longleftrightarrow> l = n"
| "numbered n _ \<longleftrightarrow> True"

fun numbered_log :: "nat \<Rightarrow> frame list \<Rightarrow> bool" where
  "numbered_log n [] \<longleftrightarrow> True"
| "numbered_log n (f # fs) \<longleftrightarrow> numbered n f \<and> numbered_log (n + frame_lsns f) fs"

lemma parse_records_lsns:
  "parse_records k p n = (rs, torn, m) \<Longrightarrow> m = n + length rs \<and> (\<forall>r\<in>set rs. fst r < m)"
proof (induction k arbitrary: p n rs torn m)
  case (Suc k)
  show ?case
  proof (cases "length p < 4 \<or> length (drop 4 p) < le_decode (take 4 p)")
    case False
    with Suc.prems obtain rs' where r: "parse_records k (drop (le_decode (take 4 p)) (drop 4 p)) (n + 1) = (rs', torn, m)"
        "rs = (n, take (le_decode (take 4 p)) (drop 4 p)) # rs'"
      by (auto simp: Let_def split: prod.splits if_splits)
    from Suc.IH [OF r(1)] show ?thesis by (auto simp: r(2))
  qed (use Suc.prems in \<open>auto simp: Let_def split: if_splits\<close>)
qed simp

lemma parse_body_numbered:
  assumes "parse_body t p n = (r, m)" and "0 < n"
  shows "case r of None \<Rightarrow> n \<le> m | Some f \<Rightarrow> numbered n f \<and> m = n + frame_lsns f"
proof (cases "t = T_WAL \<and> \<not> length p < 4")
  case True
  obtain rs torn k where q: "parse_records (le_decode (take 4 p)) (drop 4 p) n = (rs, torn, k)" by (metis prod_cases3)
  note l = parse_records_lsns [OF q]
  have "rs \<noteq> [] \<Longrightarrow> fst (last rs) < n + length rs" using l by (metis last_in_set)
  with assms True q l show ?thesis
    by (auto simp: parse_body_def Let_def split: if_splits)
qed (use assms in \<open>auto simp: parse_body_def split: if_splits\<close>)

lemma read_frames_numbered:
  "read_frames rest pos n = (fs, e, m) \<Longrightarrow> 0 < n \<Longrightarrow> numbered_log n fs \<and> log_next n fs \<le> m"
proof (induction rest pos n arbitrary: fs e m rule: read_frames.induct)
  case (1 rest pos n)
  let ?len = "le_decode (take 4 rest)" and ?body = "take (le_decode (take 4 rest)) (drop 4 rest)"
  obtain r n' where pb: "parse_body (hd ?body) (tl ?body) n = (r, n')" by fastforce
  note num = parse_body_numbered [OF pb 1(3)]
  consider (stop) "fs = []" "n \<le> m"
    | (go) f fs' where "r = Some f" "fs = f # fs'" "\<not> length rest < 4" "\<not> (?len = 0 \<or> length rest < 4 + ?len + 4)"
        "\<not> unat (crc32 ?body) \<noteq> le_decode (take 4 (drop (4 + ?len) rest))"
        "read_frames (drop (4 + ?len + 4) rest) (pos + (4 + ?len + 4)) n' = (fs', e, m)"
    using 1(2) pb num by (subst (asm) read_frames.simps) (auto simp: Let_def split: if_splits option.splits prod.splits)
  then show ?case
  proof cases
    case stop
    then show ?thesis by (simp add: log_next_def)
  next
    case go
    have "n' = n + frame_lsns f" "numbered n f" using num go(1) by simp_all
    with 1(1) [OF go(3) refl go(4) refl refl go(5) pb [symmetric] go(1) go(6)] 1(3) go(2) show ?thesis
      by (simp add: log_next_def add.assoc)
  qed
qed

definition handle_ok :: "nat \<Rightarrow> local_inner \<Rightarrow> bool" where
  "handle_ok n g \<longleftrightarrow> l_durable_lsn g < n \<and> l_commit_lsn g \<le> l_durable_lsn g \<and>
     (\<forall>b r. hm_get (l_branches g) b = Some r \<longrightarrow> br_id r = b \<and> b < l_next_branch_id g) \<and>
     (\<forall>p c. hm_get (l_pages g) p = Some c \<longrightarrow> chain_ok (Suc (l_durable_lsn g)) c)"

lemma handle_ok_mono: "handle_ok n g \<Longrightarrow> n \<le> m \<Longrightarrow> handle_ok m g"
  by (auto simp: handle_ok_def)

lemma handle_ok_push:
  assumes "handle_ok n g" and "hm_get (push_version p n (pad_page im) (l_pages g)) q = Some c"
  shows "chain_ok (Suc n) c"
proof (cases "q = p")
  case True
  have "chain_ok n (case hm_get (l_pages g) p of None \<Rightarrow> [] | Some c \<Rightarrow> c)"
    using assms(1) chain_ok_mono [of "Suc (l_durable_lsn g)" _ n]
    by (auto simp: handle_ok_def chain_ok_def [of _ "[]"] split: option.split)
  from chain_ok_push [OF this] assms True show ?thesis by (auto simp: push_version_def handle_ok_def)
next
  case False
  with assms chain_ok_mono [of "Suc (l_durable_lsn g)" c "Suc n"] show ?thesis by (auto simp: push_version_def handle_ok_def)
qed

lemma handle_ok_frame: "handle_ok n g \<Longrightarrow> numbered n f \<Longrightarrow> handle_ok (n + frame_lsns f) (apply_frame g f)"
proof (cases f)
  case (FPage l i im)
  assume a: "handle_ok n g" "numbered n f"
  then have "l = n" "max (l_durable_lsn g) n = n" using FPage by (auto simp: handle_ok_def)
  with handle_ok_push [OF a(1)] a(1) FPage show ?thesis by (auto simp: handle_ok_def)
next
  case (FWal rs c)
  assume a: "handle_ok n g" "numbered n f"
  have "chain_ok (Suc (max (l_durable_lsn g) c)) ch" if "hm_get (l_pages g) p = Some ch" for p ch
    using a(1) that chain_ok_mono [of "Suc (l_durable_lsn g)" ch] by (simp add: handle_ok_def)
  with a FWal show ?thesis by (auto simp: handle_ok_def)
qed (auto simp: handle_ok_def split: if_splits intro: less_SucI simp: less_max_iff_disj)

lemma handle_ok_foldl:
  "handle_ok n g \<Longrightarrow> numbered_log n fs \<Longrightarrow> handle_ok (log_next n fs) (foldl apply_frame g fs)"
proof (induction fs arbitrary: n g)
  case (Cons f fs)
  from Cons.IH [OF handle_ok_frame, of n g f] Cons.prems show ?case by (simp add: log_next_def add.assoc)
qed (simp add: log_next_def)

lemma handle_ok_fields:
  "l_durable_lsn h = l_durable_lsn g \<Longrightarrow> l_commit_lsn h = l_commit_lsn g \<Longrightarrow> l_branches h = l_branches g \<Longrightarrow>
   l_next_branch_id h = l_next_branch_id g \<Longrightarrow> l_pages h = l_pages g \<Longrightarrow> handle_ok n h = handle_ok n g"
  by (simp add: handle_ok_def)

lemma local_open_handle:
  assumes "local_open url dir faults = Inr g"
  shows "handle_ok (l_next_lsn g) g"
proof -
  have heal: "handle_ok (l_next_lsn h) h" if "heal_tail h0 = Inr h" "handle_ok (l_next_lsn h0) h0" for h0 h
    using that by (auto simp: heal_tail_def Let_def handle_ok_def split: prod.splits if_splits)
  have rec: "handle_ok (l_next_lsn h) h" if r: "local_recover p d fl = (Inr h, fl')" for p d fl h fl'
  proof -
    obtain fs e n where l: "read_log_file fl = (Inr (fs, e, n), fl')" and h: "h = foldl apply_frame (inner_base p d fl' e n) fs"
      using r by (auto simp: local_recover_def split: prod.splits sum.splits)
    have "\<exists>bs. read_frames bs HEADER_SIZE 1 = (fs, e, n)"
      using l by (auto simp: read_log_file_def read_log_def Let_def split: prod.splits if_splits)
    then have num: "numbered_log 1 fs" "log_next 1 fs \<le> n" using read_frames_numbered by fastforce+
    have "handle_ok 1 (inner_base p d fl' e n)" by (simp add: handle_ok_def inner_base_def)
    from handle_ok_mono [OF handle_ok_foldl [OF this num(1)] num(2)] show ?thesis by (simp add: h inner_base_def)
  qed
  have base: "handle_ok (l_next_lsn (inner_base p d fl e 1)) (inner_base p d fl e 1)" for p d fl e
    by (simp add: handle_ok_def inner_base_def)
  from assms show ?thesis
    by (auto simp: local_open_def Let_def split: prod.splits sum.splits if_splits intro: heal rec base [simplified])
qed

lemma append_frame_handle:
  assumes "append_frame g t p = (r, h)"
  shows "handle_ok n h = handle_ok n g" "l_next_lsn h = l_next_lsn g" "l_pages h = l_pages g" "l_branches h = l_branches g"
    "l_next_branch_id h = l_next_branch_id g" "l_durable_lsn h = l_durable_lsn g" "l_commit_lsn h = l_commit_lsn g"
  using assms by (auto simp: append_frame_def Let_def handle_ok_def split: prod.splits if_splits)

lemma local_append_handle:
  assumes "local_append_wal g tok rs = (r, h)" and ok: "handle_ok (l_next_lsn g) g"
  shows "handle_ok (l_next_lsn h) h"
proof (cases "rs = [] \<or> local_check_fence g tok \<noteq> Inr ()")
  case True
  with assms show ?thesis by (auto simp: local_append_wal_def split: sum.splits if_splits)
next
  case False
  obtain q h1 where a: "append_frame g T_WAL (wal_payload rs) = (q, h1)" by fastforce
  note af = append_frame_handle [OF a]
  show ?thesis
  proof (cases q)
    case (Inl e)
    with assms False a have "h = h1" by (simp add: local_append_wal_def)
    with ok af show ?thesis by simp
  next
    case (Inr u)
    let ?l = "l_next_lsn g + length rs - 1"
    have h: "l_durable_lsn h = ?l" "l_commit_lsn h = ?l" "l_next_lsn h = Suc ?l" "l_pages h = l_pages g" "l_branches h = l_branches g"
        "l_next_branch_id h = l_next_branch_id g"
      using assms(1) False a Inr af by (auto simp: local_append_wal_def Let_def)
    have "l_durable_lsn g < l_next_lsn g" using ok by (simp add: handle_ok_def)
    then have "l_durable_lsn g \<le> ?l" by linarith
    then have "chain_ok (Suc ?l) c" if "hm_get (l_pages g) p = Some c" for p c
      using ok that chain_ok_mono [of "Suc (l_durable_lsn g)" c "Suc ?l"] by (simp add: handle_ok_def)
    with ok show ?thesis unfolding handle_ok_def h by simp
  qed
qed

lemma local_put_handle:
  assumes "local_put_page g tok p im = (r, h)" and ok: "handle_ok (l_next_lsn g) g"
  shows "handle_ok (l_next_lsn h) h"
proof (cases "PAGE_SIZE < length im \<or> local_check_fence g tok \<noteq> Inr ()")
  case True
  with assms show ?thesis by (auto simp: local_put_page_def split: sum.splits if_splits)
next
  case False
  obtain q h1 where a: "append_frame g T_PAGE (le_encode 8 p @ im) = (q, h1)" by fastforce
  note af = append_frame_handle [OF a]
  show ?thesis
  proof (cases q)
    case (Inl e)
    with assms False a have "h = h1" by (simp add: local_put_page_def)
    with ok af show ?thesis by simp
  next
    case (Inr u)
    let ?l = "l_next_lsn g"
    have h: "l_durable_lsn h = ?l" "l_commit_lsn h = l_commit_lsn h1" "l_next_lsn h = Suc ?l"
        "l_pages h = push_version p ?l (pad_page im) (l_pages g)" "l_branches h = l_branches g" "l_next_branch_id h = l_next_branch_id g"
      using assms(1) False a Inr af by (auto simp: local_put_page_def Let_def)
    have "l_commit_lsn h1 \<le> ?l" using ok af(1) [of ?l] by (simp add: handle_ok_def)
    with ok handle_ok_push [OF ok] show ?thesis unfolding handle_ok_def h by simp
  qed
qed

lemma branch_handle:
  assumes "local_create_branch g nm base = (r, h)" and ok: "handle_ok (l_next_lsn g) g"
  shows "handle_ok (l_next_lsn h) h"
proof (cases "base < l_retention_floor g")
  case False
  obtain q h1 where a: "append_frame g T_BRANCH (le_encode 8 (l_next_branch_id g) @ le_encode 8 base @ le_encode 8 BRANCH_ROOT) = (q, h1)"
    by fastforce
  note af = append_frame_handle [OF a]
  show ?thesis
  proof (cases q)
    case (Inl e)
    with assms(1) False a have "h = h1" by (simp add: local_create_branch_def Let_def)
    with ok af(1,2) show ?thesis by simp
  next
    case (Inr u)
    with assms(1) False a af(2-7) ok show ?thesis
      by (auto simp: local_create_branch_def Let_def handle_ok_def less_SucI split: if_splits)
  qed
qed (use assms in \<open>simp add: local_create_branch_def\<close>)

lemma local_run_handle:
  assumes "local_run g op = (b, h)" and ok: "handle_ok (l_next_lsn g) g"
  shows "handle_ok (l_next_lsn h) h"
proof -
  have af: "handle_ok (l_next_lsn g) g1 \<and> l_next_lsn g1 = l_next_lsn g" if "append_frame g t p = (r, g1)" for t p r g1
    using append_frame_handle [OF that] ok by simp
  show ?thesis
  proof (cases op)
    case (OpAppend tok rs)
    with assms local_append_handle [OF prod.collapse [symmetric] ok, of tok rs] show ?thesis by (simp add: drop_val_def)
  next
    case (OpPut tok p im)
    with assms local_put_handle [OF prod.collapse [symmetric] ok, of tok p im] show ?thesis by (simp add: drop_val_def)
  next
    case (OpCreateBranch nm base)
    with assms branch_handle [OF prod.collapse [symmetric] ok, of nm base] show ?thesis by (simp add: drop_val_def)
  next
    case (OpDeleteBranch i)
    obtain q h1 where a: "append_frame g T_BRANCH_DEL (le_encode 8 i) = (q, h1)" by fastforce
    from af [OF a] a assms OpDeleteBranch show ?thesis
      by (cases q) (auto simp: drop_val_def local_delete_branch_def Let_def handle_ok_def split: if_splits)
  next
    case (OpAcquire now owner)
    obtain q h1 where a: "append_frame g T_FENCE (le_encode 8 (l_epoch g + 1)) = (q, h1)" by fastforce
    from af [OF a] a assms(1) OpAcquire show ?thesis
      by (cases q) (auto simp: drop_val_def local_acquire_fence_def Let_def handle_ok_def)
  next
    case (OpRetention l)
    obtain q h1 where a: "append_frame g T_RETENTION (le_encode 8 l) = (q, h1)" by fastforce
    from af [OF a] a assms OpRetention show ?thesis
      by (cases q) (auto simp: drop_val_def local_set_retention_floor_def handle_ok_def split: if_splits)
  qed (use assms in \<open>auto simp: drop_val_def local_flush_def local_scan_wal_def local_get_page_def Let_def handle_ok_def
      split: if_splits sum.splits prod.splits option.splits\<close>)
qed

text \<open>A handle and what was done with it: opened on any directory, then any operations, each with
  any outcome of its system calls.\<close>

inductive local_handle :: "local_inner \<Rightarrow> bool" where
  handle_open: "local_open url dir faults = Inr g \<Longrightarrow> local_handle g"
| handle_run: "local_handle g \<Longrightarrow> local_run g op = (b, h) \<Longrightarrow> local_handle h"

text \<open>C5. Every handle is well formed, whatever bytes the opened file held, whatever operations ran on
  it and however their system calls failed: the durable LSN is below the next one, the commit
  point is at most the durable LSN, branches are registered under their own id, and every page
  chain is strictly ascending in LSN, up to the durable one, with full pages.\<close>

theorem local_handle_wf:
  assumes "local_handle g"
  shows "l_durable_lsn g < l_next_lsn g \<and> l_commit_lsn g \<le> l_durable_lsn g \<and>
    (\<forall>b r. hm_get (l_branches g) b = Some r \<longrightarrow> br_id r = b \<and> b < l_next_branch_id g) \<and>
    (\<forall>p c. hm_get (l_pages g) p = Some c \<longrightarrow> sorted_wrt (<) (map fst c) \<and>
       (\<forall>v\<in>set c. 0 < fst v \<and> fst v \<le> l_durable_lsn g \<and> length (snd v) = PAGE_SIZE))"
proof -
  have "handle_ok (l_next_lsn g) g"
    using assms by (induction rule: local_handle.induct) (auto intro: local_open_handle local_run_handle)
  then show ?thesis by (fastforce simp: handle_ok_def chain_ok_def sorted_wrt_map less_Suc_eq_le)
qed

text \<open>The second page write of the witness follows one that failed after three bytes.\<close>

theorem local_handle_wf_witness:
  "\<exists>g g1 g2 c. local_open ''file:///db'' [] (replicate 6 IoOk @ [IoOk, IoErr 3]) = Inr g \<and>
     local_run g (OpPut \<lparr>ft_epoch = 0, ft_owner = 1, ft_lease_until = 0\<rparr> 7 [5]) = (False, g1) \<and>
     local_run g1 (OpPut \<lparr>ft_epoch = 0, ft_owner = 1, ft_lease_until = 0\<rparr> 7 [6]) = (True, g2) \<and>
     hm_get (l_pages g2) 7 = Some c \<and> c \<noteq> [] \<and> sorted_wrt (<) (map fst c)"
proof -
  let ?put = "OpPut \<lparr>ft_epoch = 0, ft_owner = 1, ft_lease_until = 0\<rparr> 7"
  define g where "g = fresh_local\<lparr>l_file := \<lparr>vf_data = header_bytes, vf_faults = [IoOk, IoErr 3]\<rparr>\<rparr>"
  have o: "local_open ''file:///db'' [] (replicate 6 IoOk @ [IoOk, IoErr 3]) = Inr g"
    by (simp add: local_open_def fresh_parse write_header_def vf_write_def vf_call_def write_at_def heal_tail_def g_def
      fresh_local_def inner_base_def HEADER_SIZE_def eval_nat_numeral)
  obtain g1 where 1: "local_run g (?put [5]) = (False, g1)" "vf_faults (l_file g1) = []" "l_epoch g1 = 0"
    by (simp add: drop_val_def local_put_page_def append_frame_def vf_call_def vf_write_def g_def local_check_fence_def PAGE_SIZE_def)
  obtain h where h: "append_frame g1 T_PAGE (le_encode 8 7 @ [6]) = (Inr (), h)"
    using append_frame_no_faults [OF 1(2)] by blast
  obtain g2 where 2: "local_run g1 (?put [6]) = (True, g2)" "\<exists>c. hm_get (l_pages g2) 7 = Some c \<and> c \<noteq> []"
    by (simp add: drop_val_def local_put_page_def local_check_fence_def PAGE_SIZE_def push_version_def Let_def 1(3) h [simplified])
  with local_handle_wf [OF handle_run [OF handle_run [OF handle_open [OF o] 1(1)] 2(1)]] o 1(1) 2(1) show ?thesis by blast
qed

section \<open>Fencing over runs\<close>

text \<open>A superseded writer stays fenced off: once a token with a newer epoch was issued, a
  write with an older token is refused in every later state, over any sequence of
  operations, crashes and reopenings.\<close>

theorem local_fence_forever:
  assumes "local_reach g" and "l_epoch g + 1 < 2 ^ 64"
    and "local_acquire_fence g now owner = (Inr tok, g1)" and "local_step\<^sup>*\<^sup>* g1 h"
    and "ft_epoch old < ft_epoch tok" and "rs \<noteq> []" and "length im \<le> PAGE_SIZE"
  shows "local_append_wal h old rs = (Inl (Fenced (ft_epoch old) (l_epoch h)), h) \<and>
    local_put_page h old pid im = (Inl (Fenced (ft_epoch old) (l_epoch h)), h)"
proof -
  have inv: "local_inv g"
    using local_reach_rep [OF assms(1)] by (simp add: local_inv_def)
  have t: "local_inv g1" "l_epoch g1 = ft_epoch tok"
    using local_acquire_exact [OF inv _ assms(3)] assms(2) by auto
  then obtain fs gs where "local_rep fs g1" "local_rep (fs @ gs) h"
    using local_steps_rep [OF assms(4)] unfolding local_inv_def by blast
  then have "ft_epoch tok \<le> l_epoch h"
    using local_rep_le t(2) by (fastforce simp: local_le_def local_counters_def)
  with assms(5-7) show ?thesis
    by (simp add: local_append_fenced local_put_page_def local_check_fence_def)
qed

theorem local_fence_forever_witness:
  "\<exists>tok h. local_acquire_fence fresh_local 0 1 = (Inr tok, h) \<and>
     local_append_wal h \<lparr>ft_epoch = 0, ft_owner = 9, ft_lease_until = 0\<rparr> [[7]] = (Inl (Fenced 0 (l_epoch h)), h)"
proof -
  obtain g0 where "append_frame fresh_local T_FENCE (le_encode 8 (l_epoch fresh_local + 1)) = (Inr (), g0)"
    using append_frame_no_faults [of fresh_local] by fastforce
  then obtain tok h where a: "local_acquire_fence fresh_local 0 1 = (Inr tok, h)" "0 < ft_epoch tok"
    by (auto simp: local_acquire_fence_def Let_def)
  have "local_reach fresh_local"
    by (rule reach_create [OF fresh_parse _ fresh_open]) simp
  from local_fence_forever [OF this _ a(1) rtranclp.rtrancl_refl, of "\<lparr>ft_epoch = 0, ft_owner = 9, ft_lease_until = 0\<rparr>" "[[7]]" "[]"] a
  show ?thesis by auto
qed

section \<open>Where recovery loses data\<close>

text \<open>A frame whose length field wraps to zero ends the log.\<close>

lemma read_frames_wrapped:
  assumes "length payload + 1 = 2 ^ 32"
  shows "read_frames (frame_bytes tag payload) pos n = ([], pos, n)"
proof -
  have "le_decode (take 4 (frame_bytes tag payload)) = (length payload + 1) mod 256 ^ 4"
    by (simp add: frame_bytes_def le_decode_encode_mod)
  also have "\<dots> = 0"
    using assms by simp
  finally show ?thesis
    by (subst read_frames.simps) simp
qed

text \<open>C6. The length field of a frame is the payload length plus one truncated to 32 bits, and no
  operation bounds it: an append whose encoded batch has exactly \<^verbatim>\<open>2^32 - 1\<close> bytes is
  acknowledged, and the next open of the file no longer has it.\<close>

theorem local_4gib_append_lost:
  assumes "local_inv g" and "length (wal_payload rs) + 1 = 2 ^ 32"
    and "local_append_wal g tok rs = (Inr l, g')" and "parse_file_url url = Inr p"
  shows "l_durable_lsn g' = l \<and> l_durable_lsn g < l \<and>
    (\<exists>h. local_open url [(p, vf_data (l_file g'))] [] = Inr h \<and> local_view h = local_view g)"
proof -
  obtain fs where rep: "local_rep fs g"
    using assms(1) by (auto simp: local_inv_def)
  have log: "log_at 1 fs" and d: "vf_data (l_file g) = header_bytes @ log_bytes fs"
    using rep by (auto simp: local_rep_def)
  let ?b = "frame_bytes T_WAL (wal_payload rs)"
  obtain r g1 where ra: "append_frame g T_WAL (wal_payload rs) = (r, g1)"
    by fastforce
  have ok: "rs \<noteq> []" "ft_epoch tok = l_epoch g"
    using assms(3) by (auto simp: local_append_wal_def local_check_fence_def split: if_splits)
  have r: "r = Inr ()"
    using assms(3) ra ok by (cases r) (simp_all add: local_append_wal_def local_check_fence_def)
  have a: "append_frame g T_WAL (wal_payload rs) = (Inr (), g1)"
    using ra r by simp
  have g': "l_file g' = l_file g1" "l_durable_lsn g' = l" "l = l_next_lsn g1 + length rs - 1" "rs \<noteq> []"
    using assms(3) a ok by (auto simp: local_append_wal_def local_check_fence_def Let_def)
  have d': "vf_data (l_file g') = header_bytes @ log_bytes fs @ ?b"
    using append_frame_ok [OF a local_rep_fields(3) [OF rep]] g'(1) d by auto
  have dead: "tail_dead fs ?b"
    unfolding tail_dead_def by (rule read_frames_wrapped [OF assms(2)])
  obtain h where h: "local_open url [(p, vf_data (l_file g'))] [] = Inr h"
    using local_open_no_faults [OF log dead assms(4), of "[(p, vf_data (l_file g'))]"] d' by auto
  have "local_rep fs h"
    using local_open_log [OF log dead assms(4) _ h] d' by simp
  moreover have "l_durable_lsn g < l"
  proof -
    have "Suc (l_durable_lsn g) = l_next_lsn g1"
      using replay_facts_rep [OF rep] append_frame_fields [OF a] by (simp add: replay_facts_def)
    with g'(3,4) show ?thesis by (cases rs) auto
  qed
  ultimately show ?thesis
    using h g'(2) local_rep_view [OF _ rep] by blast
qed

theorem local_4gib_append_lost_witness:
  "\<exists>l g' h. local_append_wal fresh_local \<lparr>ft_epoch = 0, ft_owner = 1, ft_lease_until = 0\<rparr>
       [replicate 4294967287 0] = (Inr l, g') \<and>
     local_open ''file:///db'' [(''/db'', vf_data (l_file g'))] [] = Inr h \<and> local_view h = local_view fresh_local"
proof -
  let ?tok = "\<lparr>ft_epoch = 0, ft_owner = 1, ft_lease_until = 0\<rparr>"
  obtain rs :: "wal_record list" where rs: "rs = [replicate 4294967287 0]" by blast
  have len: "length (wal_payload rs) + 1 = 2 ^ 32"
    by (simp add: rs wal_payload_def record_bytes_def)
  obtain g0 where "append_frame fresh_local T_WAL (wal_payload rs) = (Inr (), g0)"
    using append_frame_no_faults [of fresh_local] by fastforce
  then obtain l g' where a: "local_append_wal fresh_local ?tok rs = (Inr l, g')"
    by (auto simp: local_append_wal_def local_check_fence_def Let_def rs)
  from local_4gib_append_lost [OF fresh_inv len a fresh_parse] a show ?thesis
    unfolding rs by blast
qed

text \<open>A header that was only partly written (a crash while the file is created) is never
  healed: every open of such a file fails, whatever the later I/O does.\<close>

theorem local_torn_header_unopenable:
  assumes "parse_file_url url = Inr p" and "hm_get dir p = Some d" and "0 < length d" and "length d < 64"
  shows "\<exists>e. local_open url dir faults = Inl e \<and> (faults = [] \<longrightarrow> e = Corruption)"
proof -
  have c: "\<And>f b f'. vf_call f = (b, f') \<Longrightarrow> vf_data f' = vf_data f"
    by (metis snd_conv vf_call_data)
  have r: "read_log d = Inl Corruption"
    using assms(4) by (simp add: read_log_def HEADER_SIZE_def)
  have "isl (local_open url dir faults)"
    using assms r by (auto simp: local_open_def local_recover_def read_log_file_def Let_def
      split: prod.splits if_splits sum.splits dest!: c)
  moreover have "local_open url dir [] = Inl Corruption"
    using assms r by (simp add: local_open_def local_recover_def read_log_file_def)
  ultimately show ?thesis
    by (cases "local_open url dir faults") auto
qed

theorem local_torn_header_unopenable_witness:
  "local_open ''file:///db'' [(''/db'', take 8 header_bytes)] [] = Inl Corruption"
  using local_torn_header_unopenable [OF fresh_parse, of "[(''/db'', take 8 header_bytes)]" "take 8 header_bytes" "[]"]
  by simp

end
