(* ===== verification/Object_Codec.thy ===== *)
theory Object_Codec
  imports Storage_Types Crc32
begin

text \<open>
  The binary encodings of the object-storage backend
  (\<^verbatim>\<open>crates/storage/src/object/codec.rs\<close>): log segments, delta layers and image layers, each
  a magic prefix, a counted body and a trailing CRC-32.  The lemmas show that the decoders
  invert the encoders, that an object of one kind is never read as another, and that an
  object with one damaged byte is rejected.
\<close>

section \<open>Objects\<close>

definition SEG_MAGIC :: bytes where
  "SEG_MAGIC = bytes_of_string ''BDLOG1''"

definition DELTA_MAGIC :: bytes where
  "DELTA_MAGIC = bytes_of_string ''BDDEL1''"

definition IMAGE_MAGIC :: bytes where
  "IMAGE_MAGIC = bytes_of_string ''BDIMG1''"

definition ITEM_WAL :: byte where "ITEM_WAL = 1"
definition ITEM_PAGE :: byte where "ITEM_PAGE = 2"

datatype log_item =
    Wal (item_bytes: bytes)
  | PageItem (item_page_id: nat) (item_image: bytes)

record page_record =
  pr_page_id :: nat
  pr_lsn :: nat
  pr_image :: bytes

section \<open>Framing\<close>

definition obj_crc32_table :: "u32 list" where
  "obj_crc32_table = map (\<lambda>i. (crc_step ^^ 8) (word_of_nat i)) [0..<256]"

unbundle bit_operations_syntax

definition obj_crc32 :: "bytes \<Rightarrow> u32" where
  "obj_crc32 data =
     foldl (\<lambda>crc b. (obj_crc32_table ! unat ((crc XOR ucast b) AND 0xFF)) XOR drop_bit 8 crc)
       0xFFFFFFFF data XOR 0xFFFFFFFF"

definition finish :: "bytes \<Rightarrow> bytes" where
  "finish body = body @ crc_bytes (obj_crc32 body)"

text \<open>\<^verbatim>\<open>Reader::open\<close>: the checks, then the cursor behind the magic.\<close>

definition reader_open :: "bytes \<Rightarrow> bytes \<Rightarrow> bytes sres" where
  "reader_open bs magic =
     (if length bs < length magic + 4 then Inl Corruption
      else let body = take (length bs - 4) bs; stored = le_decode (drop (length bs - 4) bs) in
        if unat (obj_crc32 body) \<noteq> stored then Inl Corruption
        else if take (length magic) body \<noteq> magic then Inl Corruption
        else Inr (drop (length magic) body))"

text \<open>\<^verbatim>\<open>Reader::take\<close>, \<^verbatim>\<open>u8\<close>, \<^verbatim>\<open>u32\<close> and \<^verbatim>\<open>u64\<close>.\<close>

definition r_take :: "nat \<Rightarrow> (storage_error, bytes) reader" where
  "r_take n = rd_take Corruption n"

definition r_u8 :: "(storage_error, byte) reader" where
  "r_u8 = rd_u8 Corruption"

definition r_u32 :: "(storage_error, nat) reader" where
  "r_u32 = rd_u32 Corruption"

definition r_u64 :: "(storage_error, nat) reader" where
  "r_u64 = rd_u64 Corruption"

section \<open>Log segments\<close>

fun encode_item :: "log_item \<Rightarrow> bytes" where
  "encode_item (Wal b) = ITEM_WAL # le_encode 4 (length b) @ b"
| "encode_item (PageItem pid im) = ITEM_PAGE # le_encode 8 pid @ le_encode 4 (length im) @ im"

definition encode_segment :: "log_item list \<Rightarrow> bytes" where
  "encode_segment items =
     finish (SEG_MAGIC @ le_encode 4 (length items) @ concat (map encode_item items))"

definition decode_item :: "(storage_error, log_item) reader" where
  "decode_item = rd_bind r_u8 (\<lambda>tag.
     if tag = ITEM_WAL then rd_bind r_u32 (\<lambda>n. rd_bind (r_take n) (\<lambda>b. rd_ret (Wal b)))
     else if tag = ITEM_PAGE then
       rd_bind r_u64 (\<lambda>pid. rd_bind r_u32 (\<lambda>n.
         if n > PAGE_SIZE then rd_fail Corruption
         else rd_bind (r_take n) (\<lambda>im. rd_ret (PageItem pid im))))
     else rd_fail Corruption)"

definition decode_segment :: "bytes \<Rightarrow> log_item list sres" where
  "decode_segment bs = res_bind (reader_open bs SEG_MAGIC) (\<lambda>body.
     res_bind (rd_bind r_u32 (\<lambda>n. rd_repeat n decode_item) body) (\<lambda>(items, rest). Inr items))"

section \<open>Layers\<close>

definition encode_record :: "page_record \<Rightarrow> bytes" where
  "encode_record r = le_encode 8 (pr_page_id r) @ le_encode 8 (pr_lsn r) @
     le_encode 4 (length (pr_image r)) @ pr_image r"

definition encode_layer :: "bytes \<Rightarrow> page_record list \<Rightarrow> bytes" where
  "encode_layer magic rs =
     finish (magic @ le_encode 4 (length rs) @ concat (map encode_record rs))"

definition decode_record :: "(storage_error, page_record) reader" where
  "decode_record = rd_bind r_u64 (\<lambda>pid. rd_bind r_u64 (\<lambda>lsn. rd_bind r_u32 (\<lambda>n.
     if n > PAGE_SIZE then rd_fail Corruption
     else rd_bind (r_take n) (\<lambda>im. rd_ret \<lparr>pr_page_id = pid, pr_lsn = lsn, pr_image = im\<rparr>))))"

definition decode_layer :: "bytes \<Rightarrow> bytes \<Rightarrow> page_record list sres" where
  "decode_layer bs magic = res_bind (reader_open bs magic) (\<lambda>body.
     res_bind (rd_bind r_u32 (\<lambda>n. rd_repeat n decode_record) body) (\<lambda>(rs, rest). Inr rs))"

definition encode_delta :: "page_record list \<Rightarrow> bytes" where
  "encode_delta rs = encode_layer DELTA_MAGIC rs"

definition decode_delta :: "bytes \<Rightarrow> page_record list sres" where
  "decode_delta bs = decode_layer bs DELTA_MAGIC"

definition encode_image :: "page_record list \<Rightarrow> bytes" where
  "encode_image rs = encode_layer IMAGE_MAGIC rs"

definition decode_image :: "bytes \<Rightarrow> page_record list sres" where
  "decode_image bs = decode_layer bs IMAGE_MAGIC"

section \<open>Framing lemmas\<close>

lemma obj_crc32_eq [simp]: "obj_crc32 = crc32"
  by (simp add: fun_eq_iff obj_crc32_def crc32_def crc32_update_def [abs_def] obj_crc32_table_def
    crc32_table_def crc32_entry_def [abs_def])

lemma length_finish [simp]: "length (finish body) = length body + 4"
  by (simp add: finish_def)

lemma reader_open_finish:
  "reader_open (finish (magic @ body)) magic = Inr body"
  by (simp add: reader_open_def finish_def le_decode_crc_bytes)

lemma reader_open_other_magic:
  assumes "length m = length magic" and "m \<noteq> magic"
  shows "reader_open (finish (m @ body)) magic = Inl Corruption"
  using assms by (simp add: reader_open_def finish_def le_decode_crc_bytes)

lemma r_reads [reads_intros]:
  "length bs = n \<Longrightarrow> reads (r_take n) bs bs"
  "reads r_u8 [b] b"
  "k < 2 ^ 32 \<Longrightarrow> reads r_u32 (le_encode 4 k) k"
  "k < 2 ^ 64 \<Longrightarrow> reads r_u64 (le_encode 8 k) k"
  by (simp_all add: r_take_def r_u8_def r_u32_def r_u64_def reads_intros del: One_nat_def)

section \<open>Round trips\<close>

fun item_ok :: "log_item \<Rightarrow> bool" where
  "item_ok (Wal b) \<longleftrightarrow> length b < 2 ^ 32"
| "item_ok (PageItem pid im) \<longleftrightarrow> pid < 2 ^ 64 \<and> length im \<le> PAGE_SIZE"

definition record_ok :: "page_record \<Rightarrow> bool" where
  "record_ok r \<longleftrightarrow> pr_page_id r < 2 ^ 64 \<and> pr_lsn r < 2 ^ 64 \<and> length (pr_image r) \<le> PAGE_SIZE"

lemma reads_item:
  assumes "item_ok it"
  shows "reads decode_item (encode_item it) it"
proof (cases it)
  case (Wal b)
  have "reads decode_item ([ITEM_WAL] @ le_encode 4 (length b) @ b) (Wal b)"
    unfolding decode_item_def
    using assms Wal by (intro reads_bind [OF r_reads(2)])
      (simp, intro reads_bind [OF r_reads(3)] reads_bind_ret r_reads, auto)
  with Wal show ?thesis by simp
next
  case (PageItem pid im)
  have l: "length im < 2 ^ 32" "\<not> length im > PAGE_SIZE"
    using assms PageItem by (auto simp: PAGE_SIZE_def)
  have "reads decode_item ([ITEM_PAGE] @ le_encode 8 pid @ le_encode 4 (length im) @ im) (PageItem pid im)"
    unfolding decode_item_def
    using assms PageItem l by (intro reads_bind [OF r_reads(2)])
      (simp add: ITEM_WAL_def ITEM_PAGE_def,
       intro reads_bind [OF r_reads(4)] reads_bind [OF r_reads(3)], auto intro!: reads_bind_ret r_reads)
  with PageItem show ?thesis by simp
qed

lemma reads_record:
  assumes "record_ok r"
  shows "reads decode_record (encode_record r) r"
proof -
  have l: "length (pr_image r) < 2 ^ 32" "\<not> length (pr_image r) > PAGE_SIZE"
    using assms by (auto simp: record_ok_def PAGE_SIZE_def)
  have "reads decode_record (encode_record r)
     \<lparr>pr_page_id = pr_page_id r, pr_lsn = pr_lsn r, pr_image = pr_image r\<rparr>"
    unfolding decode_record_def encode_record_def
    using assms l
    by (intro reads_bind [OF r_reads(4)] reads_bind [OF r_reads(3)])
      (auto simp: record_ok_def intro!: reads_bind_ret r_reads)
  then show ?thesis by (cases r) simp
qed

interpretation item_codec: codec encode_item decode_item item_ok
  by unfold_locales (rule reads_item)

interpretation record_codec: codec encode_record decode_record record_ok
  by unfold_locales (rule reads_record)

lemma decode_segment_encode:
  assumes "\<forall>it\<in>set items. item_ok it" and "length items < 2 ^ 32"
  shows "decode_segment (encode_segment items) = Inr items"
  using readsD_Nil [OF item_codec.reads_counted [OF assms, of Corruption]]
  by (simp add: decode_segment_def encode_segment_def reader_open_finish r_u32_def)

lemma decode_layer_encode:
  assumes "\<forall>r\<in>set rs. record_ok r" and "length rs < 2 ^ 32"
  shows "decode_layer (encode_layer magic rs) magic = Inr rs"
  using readsD_Nil [OF record_codec.reads_counted [OF assms, of Corruption]]
  by (simp add: decode_layer_def encode_layer_def reader_open_finish r_u32_def)

lemmas magic_defs = SEG_MAGIC_def DELTA_MAGIC_def IMAGE_MAGIC_def bytes_of_string_def

lemma decode_layer_other:
  assumes "length m = length magic" and "m \<noteq> magic"
  shows "decode_layer (encode_layer m rs) magic = Inl Corruption"
  using reader_open_other_magic [OF assms] by (simp add: decode_layer_def encode_layer_def)

text \<open>Log segments round-trip: what \<^verbatim>\<open>decode_segment\<close> reads back from an encoded segment is
  the list of items that was written, for items the backend can produce.\<close>

theorem segment_roundtrip:
  assumes "\<forall>it\<in>set items. item_ok it" and "length items < 2 ^ 32"
  shows "decode_segment (encode_segment items) = Inr items"
  using assms by (rule decode_segment_encode)

theorem segment_roundtrip_witness:
  "decode_segment (encode_segment [Wal [104, 105], PageItem 42 [171, 171]]) = Inr [Wal [104, 105], PageItem 42 [171, 171]]"
  by (rule segment_roundtrip) (simp_all add: PAGE_SIZE_def)

text \<open>Layers round-trip and are kept apart: a delta layer decodes to its records as a delta
  layer and is rejected as an image layer, and the other way round.\<close>

theorem layer_roundtrip:
  assumes "\<forall>r\<in>set rs. record_ok r" and "length rs < 2 ^ 32"
  shows "decode_delta (encode_delta rs) = Inr rs \<and> decode_image (encode_image rs) = Inr rs \<and>
    decode_image (encode_delta rs) = Inl Corruption \<and> decode_delta (encode_image rs) = Inl Corruption"
proof -
  have "DELTA_MAGIC \<noteq> IMAGE_MAGIC" "length DELTA_MAGIC = length IMAGE_MAGIC"
    by (simp_all add: magic_defs)
  with decode_layer_encode [OF assms] decode_layer_other show ?thesis
    by (simp add: decode_delta_def encode_delta_def decode_image_def encode_image_def)
qed

theorem layer_roundtrip_witness:
  "decode_delta (encode_delta [\<lparr>pr_page_id = 1, pr_lsn = 10, pr_image = [1, 1]\<rparr>]) =
     Inr [\<lparr>pr_page_id = 1, pr_lsn = 10, pr_image = [1, 1]\<rparr>]"
  using layer_roundtrip [of "[\<lparr>pr_page_id = 1, pr_lsn = 10, pr_image = [1, 1]\<rparr>]"]
  by (simp add: record_ok_def PAGE_SIZE_def)

section \<open>Damaged objects\<close>

lemma reader_open_damaged:
  assumes "i < length (finish body)" and "finish body ! i \<noteq> v"
  shows "reader_open ((finish body)[i := v]) magic = Inl Corruption"
proof -
  let ?n = "length body"
  have "unat (crc32 (take ?n ((finish body)[i := v]))) \<noteq> le_decode (drop ?n ((finish body)[i := v]))"
  proof (cases "i < ?n")
    case True
    then have "take ?n ((finish body)[i := v]) = body[i := v]" "drop ?n ((finish body)[i := v]) = crc_bytes (crc32 body)"
      by (simp_all add: finish_def list_update_append)
    moreover have "crc32 (body[i := v]) \<noteq> crc32 body"
      using True assms(2) by (intro crc32_update_nth) (simp_all add: finish_def nth_append)
    ultimately show ?thesis by (simp add: word_unat_eq_iff)
  next
    case False
    let ?c = "(crc_bytes (crc32 body))[i - ?n := v]"
    have t: "take ?n ((finish body)[i := v]) = body" "drop ?n ((finish body)[i := v]) = ?c"
      using False by (simp_all add: finish_def list_update_append)
    have "crc_bytes (crc32 body) ! (i - ?n) \<noteq> v" "i - ?n < 4"
      using False assms by (simp_all add: finish_def nth_append)
    then have "?c \<noteq> crc_bytes (crc32 body)"
      by (metis length_crc_bytes nth_list_update_eq)
    moreover have "length ?c = length (crc_bytes (crc32 body))"
      by simp
    ultimately have "le_decode ?c \<noteq> le_decode (crc_bytes (crc32 body))"
      by (metis le_encode_decode)
    then show ?thesis
      unfolding t le_decode_crc_bytes by (rule not_sym)
  qed
  then show ?thesis
    by (simp add: reader_open_def Let_def)
qed

text \<open>A damaged object is rejected, never misread: replacing any one byte of an encoded
  segment or layer (body or checksum) by a different byte makes the decoder report
  corruption.\<close>

theorem damaged_object_rejected:
  assumes "i < length obj" and "obj ! i \<noteq> v"
    and "obj = encode_segment items \<or> obj = encode_delta rs \<or> obj = encode_image rs"
  shows "decode_segment (obj[i := v]) = Inl Corruption \<and> decode_delta (obj[i := v]) = Inl Corruption \<and>
    decode_image (obj[i := v]) = Inl Corruption"
proof -
  obtain body where "obj = finish body"
    using assms(3) by (auto simp: encode_segment_def encode_delta_def encode_image_def encode_layer_def)
  with reader_open_damaged [of i body v] assms(1,2) show ?thesis
    by (simp add: decode_segment_def decode_delta_def decode_image_def decode_layer_def)
qed

theorem damaged_object_rejected_witness:
  "decode_segment ((encode_segment [Wal [120]])[0 := 0]) = Inl Corruption"
proof -
  have "encode_segment [Wal [120]] ! 0 \<noteq> 0"
    by (simp add: encode_segment_def finish_def magic_defs)
  moreover have "0 < length (encode_segment [Wal [120]])"
    by (simp add: encode_segment_def)
  ultimately show ?thesis
    using damaged_object_rejected [of 0 "encode_segment [Wal [120]]" 0 "[Wal [120]]" "[]"] by blast
qed

end
