(* ===== verification/Object_Store.thy ===== *)
theory Object_Store
  imports Storage_Types
begin

text \<open>
  The object-client seam (\<^verbatim>\<open>crates/storage/src/object/store.rs\<close>) and its in-process
  implementations: \<^verbatim>\<open>MemObjectStore\<close> (mem.rs), \<^verbatim>\<open>BindingObjectStore\<close> over a \<^verbatim>\<open>BindingHost\<close> with
  \<^verbatim>\<open>MemBindingHost\<close> (binding.rs), and the fault-injection wrapper \<^verbatim>\<open>FaultObjectStore\<close> (fault.rs).
  A trait object is a record of its methods.  The locale \<open>cas_store\<close> is the contract the
  storage backend builds on; each store is an interpretation of it, the wrapper for every
  store it wraps.
\<close>

section \<open>The seam\<close>

type_synonym etag = string

datatype object_error = ONotFound | OPrecondition | OTransient

type_synonym 'a ores = "(object_error, 'a) result"

record 'o object_store =
  os_get :: "'o \<Rightarrow> string \<Rightarrow> (bytes \<times> etag) option ores \<times> 'o"
  os_put_if_absent :: "'o \<Rightarrow> string \<Rightarrow> bytes \<Rightarrow> etag ores \<times> 'o"
  os_put_if_match :: "'o \<Rightarrow> string \<Rightarrow> bytes \<Rightarrow> etag \<Rightarrow> etag ores \<times> 'o"
  os_put :: "'o \<Rightarrow> string \<Rightarrow> bytes \<Rightarrow> etag ores \<times> 'o"
  os_delete :: "'o \<Rightarrow> string \<Rightarrow> unit ores \<times> 'o"
  os_list :: "'o \<Rightarrow> string \<Rightarrow> string list ores \<times> 'o"

definition starts_with :: "string \<Rightarrow> string \<Rightarrow> bool" where
  "starts_with p k \<longleftrightarrow> take (length p) k = p"

section \<open>MemObjectStore\<close>

record mem_store =
  ms_map :: "(string \<times> bytes \<times> etag) list"
  ms_etag_seq :: nat

definition mem_new :: mem_store where
  "mem_new = \<lparr>ms_map = [], ms_etag_seq = 0\<rparr>"

definition mem_next_etag :: "mem_store \<Rightarrow> etag \<times> mem_store" where
  "mem_next_etag s = (CHR ''e'' # dec_string (ms_etag_seq s), s\<lparr>ms_etag_seq := ms_etag_seq s + 1\<rparr>)"

definition mem_get :: "mem_store \<Rightarrow> string \<Rightarrow> (bytes \<times> etag) option ores \<times> mem_store" where
  "mem_get s k = (Inr (map_of (ms_map s) k), s)"

definition mem_put :: "mem_store \<Rightarrow> string \<Rightarrow> bytes \<Rightarrow> etag ores \<times> mem_store" where
  "mem_put s k bs = (let (e, s1) = mem_next_etag s in
     (Inr e, s1\<lparr>ms_map := bt_insert k (bs, e) (ms_map s1)\<rparr>))"

definition mem_put_if_absent :: "mem_store \<Rightarrow> string \<Rightarrow> bytes \<Rightarrow> etag ores \<times> mem_store" where
  "mem_put_if_absent s k bs =
     (if map_of (ms_map s) k \<noteq> None then (Inl OPrecondition, s)
      else let (e, s1) = mem_next_etag s in
        (Inr e, s1\<lparr>ms_map := bt_insert k (bs, e) (ms_map s1)\<rparr>))"

definition mem_put_if_match :: "mem_store \<Rightarrow> string \<Rightarrow> bytes \<Rightarrow> etag \<Rightarrow> etag ores \<times> mem_store" where
  "mem_put_if_match s k bs etag =
     (case map_of (ms_map s) k of
        Some (_, cur) \<Rightarrow>
          (if cur = etag then
             let (e, s1) = mem_next_etag s in
               (Inr e, s1\<lparr>ms_map := bt_insert k (bs, e) (ms_map s1)\<rparr>)
           else (Inl OPrecondition, s))
      | None \<Rightarrow> (Inl OPrecondition, s))"

definition mem_delete :: "mem_store \<Rightarrow> string \<Rightarrow> unit ores \<times> mem_store" where
  "mem_delete s k = (Inr (), s\<lparr>ms_map := AList.delete k (ms_map s)\<rparr>)"

definition mem_list :: "mem_store \<Rightarrow> string \<Rightarrow> string list ores \<times> mem_store" where
  "mem_list s p = (Inr (filter (starts_with p) (map fst (ms_map s))), s)"

definition mem_object_store :: "mem_store object_store" where
  "mem_object_store = \<lparr>os_get = mem_get, os_put_if_absent = mem_put_if_absent,
     os_put_if_match = mem_put_if_match, os_put = mem_put, os_delete = mem_delete, os_list = mem_list\<rparr>"

section \<open>BindingObjectStore\<close>

datatype binding_error = BNotFound | BPrecondition | BTransient

fun object_error_of_binding :: "binding_error \<Rightarrow> object_error" where
  "object_error_of_binding BNotFound = ONotFound"
| "object_error_of_binding BPrecondition = OPrecondition"
| "object_error_of_binding BTransient = OTransient"

type_synonym 'a bres = "(binding_error, 'a) result"

record 'h binding_host =
  bh_get :: "'h \<Rightarrow> string \<Rightarrow> (bytes \<times> etag) option bres \<times> 'h"
  bh_put_if_absent :: "'h \<Rightarrow> string \<Rightarrow> bytes \<Rightarrow> etag bres \<times> 'h"
  bh_put_if_match :: "'h \<Rightarrow> string \<Rightarrow> bytes \<Rightarrow> etag \<Rightarrow> etag bres \<times> 'h"
  bh_put :: "'h \<Rightarrow> string \<Rightarrow> bytes \<Rightarrow> etag bres \<times> 'h"
  bh_delete :: "'h \<Rightarrow> string \<Rightarrow> unit bres \<times> 'h"
  bh_list :: "'h \<Rightarrow> string \<Rightarrow> string list bres \<times> 'h"

text \<open>The \<^verbatim>\<open>?\<close> of each method: the host's error is converted, its value passed on.\<close>

definition lift_binding :: "'a bres \<times> 'h \<Rightarrow> 'a ores \<times> 'h" where
  "lift_binding p = (case fst p of Inl e \<Rightarrow> Inl (object_error_of_binding e) | Inr x \<Rightarrow> Inr x, snd p)"

definition binding_object_store :: "'h binding_host \<Rightarrow> 'h object_store" where
  "binding_object_store host = \<lparr>
     os_get = (\<lambda>h k. lift_binding (bh_get host h k)),
     os_put_if_absent = (\<lambda>h k bs. lift_binding (bh_put_if_absent host h k bs)),
     os_put_if_match = (\<lambda>h k bs e. lift_binding (bh_put_if_match host h k bs e)),
     os_put = (\<lambda>h k bs. lift_binding (bh_put host h k bs)),
     os_delete = (\<lambda>h k. lift_binding (bh_delete host h k)),
     os_list = (\<lambda>h p. lift_binding (bh_list host h p))\<rparr>"

record mem_binding =
  mb_map :: "(string \<times> bytes \<times> etag) list"
  mb_etag_seq :: nat

definition mb_next_etag :: "mem_binding \<Rightarrow> etag \<times> mem_binding" where
  "mb_next_etag s = (CHR ''b'' # dec_string (mb_etag_seq s), s\<lparr>mb_etag_seq := mb_etag_seq s + 1\<rparr>)"

definition mb_get :: "mem_binding \<Rightarrow> string \<Rightarrow> (bytes \<times> etag) option bres \<times> mem_binding" where
  "mb_get s k = (Inr (map_of (mb_map s) k), s)"

definition mb_put :: "mem_binding \<Rightarrow> string \<Rightarrow> bytes \<Rightarrow> etag bres \<times> mem_binding" where
  "mb_put s k bs = (let (e, s1) = mb_next_etag s in
     (Inr e, s1\<lparr>mb_map := bt_insert k (bs, e) (mb_map s1)\<rparr>))"

definition mb_put_if_absent :: "mem_binding \<Rightarrow> string \<Rightarrow> bytes \<Rightarrow> etag bres \<times> mem_binding" where
  "mb_put_if_absent s k bs =
     (if map_of (mb_map s) k \<noteq> None then (Inl BPrecondition, s)
      else let (e, s1) = mb_next_etag s in
        (Inr e, s1\<lparr>mb_map := bt_insert k (bs, e) (mb_map s1)\<rparr>))"

definition mb_put_if_match :: "mem_binding \<Rightarrow> string \<Rightarrow> bytes \<Rightarrow> etag \<Rightarrow> etag bres \<times> mem_binding" where
  "mb_put_if_match s k bs etag =
     (case map_of (mb_map s) k of
        Some (_, cur) \<Rightarrow>
          (if cur = etag then
             let (e, s1) = mb_next_etag s in
               (Inr e, s1\<lparr>mb_map := bt_insert k (bs, e) (mb_map s1)\<rparr>)
           else (Inl BPrecondition, s))
      | None \<Rightarrow> (Inl BPrecondition, s))"

definition mb_delete :: "mem_binding \<Rightarrow> string \<Rightarrow> unit bres \<times> mem_binding" where
  "mb_delete s k = (Inr (), s\<lparr>mb_map := AList.delete k (mb_map s)\<rparr>)"

definition mb_list :: "mem_binding \<Rightarrow> string \<Rightarrow> string list bres \<times> mem_binding" where
  "mb_list s p = (Inr (filter (starts_with p) (map fst (mb_map s))), s)"

definition mem_binding_host :: "mem_binding binding_host" where
  "mem_binding_host = \<lparr>bh_get = mb_get, bh_put_if_absent = mb_put_if_absent,
     bh_put_if_match = mb_put_if_match, bh_put = mb_put, bh_delete = mb_delete, bh_list = mb_list\<rparr>"

section \<open>FaultObjectStore\<close>

datatype fault_kind = FkGet | FkPutIfAbsent | FkPutIfMatch | FkPut | FkDelete | FkList

datatype fault_mode = BeforeOp | AfterOp

record fault_plan =
  fp_kind :: fault_kind
  fp_fire_at :: nat
  fp_mode :: fault_mode

record 'o fault_store =
  fs_inner :: 'o
  fs_plan :: "fault_plan option"
  fs_fired :: bool
  fs_get_n :: nat
  fs_put_if_absent_n :: nat
  fs_put_if_match_n :: nat
  fs_put_n :: nat
  fs_delete_n :: nat
  fs_list_n :: nat

definition fault_new :: "'o \<Rightarrow> 'o fault_store" where
  "fault_new inner = \<lparr>fs_inner = inner, fs_plan = None, fs_fired = False, fs_get_n = 0,
     fs_put_if_absent_n = 0, fs_put_if_match_n = 0, fs_put_n = 0, fs_delete_n = 0, fs_list_n = 0\<rparr>"

definition fault_arm :: "'o fault_store \<Rightarrow> fault_plan \<Rightarrow> 'o fault_store" where
  "fault_arm s p = s\<lparr>fs_plan := Some p, fs_fired := False\<rparr>"

definition fault_disarm :: "'o fault_store \<Rightarrow> 'o fault_store" where
  "fault_disarm s = s\<lparr>fs_plan := None\<rparr>"

definition fault_decide :: "'o fault_store \<Rightarrow> fault_kind \<Rightarrow> nat \<Rightarrow> fault_mode option \<times> 'o fault_store" where
  "fault_decide s kind n =
     (if fs_fired s then (None, s)
      else case fs_plan s of
          Some p \<Rightarrow> (if fp_kind p = kind \<and> fp_fire_at p = n
                     then (Some (fp_mode p), s\<lparr>fs_fired := True\<rparr>) else (None, s))
        | None \<Rightarrow> (None, s))"

text \<open>The three arms every method has.\<close>

definition fault_call :: "'o fault_store \<Rightarrow> fault_kind \<Rightarrow> nat \<Rightarrow> ('o \<Rightarrow> 'a ores \<times> 'o) \<Rightarrow> 'a ores \<times> 'o fault_store" where
  "fault_call s kind n op =
     (case fault_decide s kind n of
        (Some BeforeOp, s1) \<Rightarrow> (Inl OTransient, s1)
      | (Some AfterOp, s1) \<Rightarrow>
          (case op (fs_inner s1) of
             (Inl e, o') \<Rightarrow> (Inl e, s1\<lparr>fs_inner := o'\<rparr>)
           | (Inr x, o') \<Rightarrow> (Inl OTransient, s1\<lparr>fs_inner := o'\<rparr>))
      | (None, s1) \<Rightarrow> (let (r, o') = op (fs_inner s1) in (r, s1\<lparr>fs_inner := o'\<rparr>)))"

definition fault_object_store :: "'o object_store \<Rightarrow> 'o fault_store object_store" where
  "fault_object_store ops = \<lparr>
     os_get = (\<lambda>s k. let n = fs_get_n s + 1 in
       fault_call (s\<lparr>fs_get_n := n\<rparr>) FkGet n (\<lambda>q. os_get ops q k)),
     os_put_if_absent = (\<lambda>s k bs. let n = fs_put_if_absent_n s + 1 in
       fault_call (s\<lparr>fs_put_if_absent_n := n\<rparr>) FkPutIfAbsent n (\<lambda>q. os_put_if_absent ops q k bs)),
     os_put_if_match = (\<lambda>s k bs e. let n = fs_put_if_match_n s + 1 in
       fault_call (s\<lparr>fs_put_if_match_n := n\<rparr>) FkPutIfMatch n (\<lambda>q. os_put_if_match ops q k bs e)),
     os_put = (\<lambda>s k bs. let n = fs_put_n s + 1 in
       fault_call (s\<lparr>fs_put_n := n\<rparr>) FkPut n (\<lambda>q. os_put ops q k bs)),
     os_delete = (\<lambda>s k. let n = fs_delete_n s + 1 in
       fault_call (s\<lparr>fs_delete_n := n\<rparr>) FkDelete n (\<lambda>q. os_delete ops q k)),
     os_list = (\<lambda>s p. let n = fs_list_n s + 1 in
       fault_call (s\<lparr>fs_list_n := n\<rparr>) FkList n (\<lambda>q. os_list ops q p))\<rparr>"

section \<open>The contract\<close>

text \<open>\<open>obj\<close> is the durable content.  A call that reports a fault may or may not have taken
  effect; it never does anything else.\<close>

type_synonym contents = "string \<Rightarrow> (bytes \<times> etag) option"

definition put_done :: "contents \<Rightarrow> string \<Rightarrow> bytes \<Rightarrow> contents \<Rightarrow> bool" where
  "put_done m k bs m' \<longleftrightarrow> (\<exists>e. m' = m(k \<mapsto> (bs, e)))"

definition listed :: "contents \<Rightarrow> string \<Rightarrow> string set" where
  "listed m p = {k. m k \<noteq> None \<and> starts_with p k}"

locale cas_store =
  fixes ops :: "'o object_store" and ok :: "'o \<Rightarrow> bool" and obj :: "'o \<Rightarrow> contents"
  assumes get_spec: "ok s \<Longrightarrow> os_get ops s k = (rg, s') \<Longrightarrow>
      ok s' \<and> obj s' = obj s \<and> (\<forall>v. rg = Inr v \<longrightarrow> v = obj s k)"
    and put_if_absent_spec: "ok s \<Longrightarrow> os_put_if_absent ops s k bs = (r, s') \<Longrightarrow>
      ok s' \<and> (\<forall>e. r = Inr e \<longrightarrow> obj s k = None \<and> obj s' = (obj s)(k \<mapsto> (bs, e))) \<and>
      (r = Inl OPrecondition \<longrightarrow> obj s k \<noteq> None \<and> obj s' = obj s) \<and>
      (obj s' = obj s \<or> obj s k = None \<and> put_done (obj s) k bs (obj s'))"
    and put_if_match_spec: "ok s \<Longrightarrow> os_put_if_match ops s k bs t = (r, s') \<Longrightarrow>
      ok s' \<and> (\<forall>e. r = Inr e \<longrightarrow> (\<exists>b. obj s k = Some (b, t)) \<and> obj s' = (obj s)(k \<mapsto> (bs, e))) \<and>
      (r = Inl OPrecondition \<longrightarrow> (\<nexists>b. obj s k = Some (b, t)) \<and> obj s' = obj s) \<and>
      (obj s' = obj s \<or> (\<exists>b. obj s k = Some (b, t)) \<and> put_done (obj s) k bs (obj s'))"
    and put_spec: "ok s \<Longrightarrow> os_put ops s k bs = (r, s') \<Longrightarrow>
      ok s' \<and> (\<forall>e. r = Inr e \<longrightarrow> obj s' = (obj s)(k \<mapsto> (bs, e))) \<and>
      (obj s' = obj s \<or> put_done (obj s) k bs (obj s'))"
    and delete_spec: "ok s \<Longrightarrow> os_delete ops s k = (rd, s') \<Longrightarrow>
      ok s' \<and> (\<forall>u. rd = Inr u \<longrightarrow> obj s' = (obj s)(k := None)) \<and>
      (obj s' = obj s \<or> obj s' = (obj s)(k := None))"
    and list_spec: "ok s \<Longrightarrow> os_list ops s p = (rl, s') \<Longrightarrow>
      ok s' \<and> obj s' = obj s \<and> (\<forall>ks. rl = Inr ks \<longrightarrow> distinct ks \<and> set ks = listed (obj s) p)"
begin

text \<open>At most one writer wins a slot, and the winner's bytes stand.\<close>

lemma one_winner:
  assumes "ok s" and "os_put_if_absent ops s k a = (Inr e, s1)" and "os_put_if_absent ops s1 k b = (r, s2)"
  shows "isl r \<and> obj s2 k = Some (a, e)"
proof -
  have s1: "ok s1" "obj s1 = (obj s)(k \<mapsto> (a, e))"
    using put_if_absent_spec [OF assms(1,2)] by auto
  with put_if_absent_spec [OF s1(1) assms(3)] show ?thesis
    by (cases r) (auto simp: put_done_def)
qed

text \<open>A fault wrapper around a store that keeps the contract keeps it.\<close>

lemma fault_call_inner:
  assumes "fault_call s kind n op = (r, s')"
  obtains (skipped) "r = Inl OTransient" "fs_inner s' = fs_inner s"
    | (called) "op (fs_inner s) = (r, fs_inner s')"
    | (hidden) x where "op (fs_inner s) = (Inr x, fs_inner s')" "r = Inl OTransient"
  using assms
  by (auto simp: fault_call_def fault_decide_def split: if_splits option.splits fault_mode.splits prod.splits sum.splits)

lemma fault_cas: "cas_store (fault_object_store ops) (\<lambda>s. ok (fs_inner s)) (\<lambda>s. obj (fs_inner s))"
proof
  fix s :: "'o fault_store" and k r s'
  assume ok: "ok (fs_inner s)" and call: "os_get (fault_object_store ops) s k = (r, s')"
  from call have "fault_call (s\<lparr>fs_get_n := fs_get_n s + 1\<rparr>) FkGet (fs_get_n s + 1) (\<lambda>q. os_get ops q k) = (r, s')"
    by (simp add: fault_object_store_def)
  then show "ok (fs_inner s') \<and> obj (fs_inner s') = obj (fs_inner s) \<and> (\<forall>v. r = Inr v \<longrightarrow> v = obj (fs_inner s) k)"
    by (cases rule: fault_call_inner) (auto dest: get_spec [OF ok] simp: ok)
next
  fix s :: "'o fault_store" and k bs r s'
  assume ok: "ok (fs_inner s)" and call: "os_put_if_absent (fault_object_store ops) s k bs = (r, s')"
  from call have "fault_call (s\<lparr>fs_put_if_absent_n := fs_put_if_absent_n s + 1\<rparr>) FkPutIfAbsent
      (fs_put_if_absent_n s + 1) (\<lambda>q. os_put_if_absent ops q k bs) = (r, s')"
    by (simp add: fault_object_store_def)
  then show "ok (fs_inner s') \<and> (\<forall>e. r = Inr e \<longrightarrow> obj (fs_inner s) k = None \<and>
        obj (fs_inner s') = (obj (fs_inner s))(k \<mapsto> (bs, e))) \<and>
      (r = Inl OPrecondition \<longrightarrow> obj (fs_inner s) k \<noteq> None \<and> obj (fs_inner s') = obj (fs_inner s)) \<and>
      (obj (fs_inner s') = obj (fs_inner s) \<or> obj (fs_inner s) k = None \<and> put_done (obj (fs_inner s)) k bs (obj (fs_inner s')))"
    by (cases rule: fault_call_inner) (auto dest: put_if_absent_spec [OF ok] simp: ok)
next
  fix s :: "'o fault_store" and k bs t r s'
  assume ok: "ok (fs_inner s)" and call: "os_put_if_match (fault_object_store ops) s k bs t = (r, s')"
  from call have "fault_call (s\<lparr>fs_put_if_match_n := fs_put_if_match_n s + 1\<rparr>) FkPutIfMatch
      (fs_put_if_match_n s + 1) (\<lambda>q. os_put_if_match ops q k bs t) = (r, s')"
    by (simp add: fault_object_store_def)
  then show "ok (fs_inner s') \<and> (\<forall>e. r = Inr e \<longrightarrow> (\<exists>b. obj (fs_inner s) k = Some (b, t)) \<and>
        obj (fs_inner s') = (obj (fs_inner s))(k \<mapsto> (bs, e))) \<and>
      (r = Inl OPrecondition \<longrightarrow> (\<nexists>b. obj (fs_inner s) k = Some (b, t)) \<and> obj (fs_inner s') = obj (fs_inner s)) \<and>
      (obj (fs_inner s') = obj (fs_inner s) \<or> (\<exists>b. obj (fs_inner s) k = Some (b, t)) \<and>
        put_done (obj (fs_inner s)) k bs (obj (fs_inner s')))"
    by (cases rule: fault_call_inner) (auto dest: put_if_match_spec [OF ok] simp: ok)
next
  fix s :: "'o fault_store" and k bs r s'
  assume ok: "ok (fs_inner s)" and call: "os_put (fault_object_store ops) s k bs = (r, s')"
  from call have "fault_call (s\<lparr>fs_put_n := fs_put_n s + 1\<rparr>) FkPut (fs_put_n s + 1) (\<lambda>q. os_put ops q k bs) = (r, s')"
    by (simp add: fault_object_store_def)
  then show "ok (fs_inner s') \<and> (\<forall>e. r = Inr e \<longrightarrow> obj (fs_inner s') = (obj (fs_inner s))(k \<mapsto> (bs, e))) \<and>
      (obj (fs_inner s') = obj (fs_inner s) \<or> put_done (obj (fs_inner s)) k bs (obj (fs_inner s')))"
    by (cases rule: fault_call_inner) (auto dest: put_spec [OF ok] simp: ok)
next
  fix s :: "'o fault_store" and k r s'
  assume ok: "ok (fs_inner s)" and call: "os_delete (fault_object_store ops) s k = (r, s')"
  from call have "fault_call (s\<lparr>fs_delete_n := fs_delete_n s + 1\<rparr>) FkDelete (fs_delete_n s + 1) (\<lambda>q. os_delete ops q k) = (r, s')"
    by (simp add: fault_object_store_def)
  then show "ok (fs_inner s') \<and> (\<forall>u. r = Inr u \<longrightarrow> obj (fs_inner s') = (obj (fs_inner s))(k := None)) \<and>
      (obj (fs_inner s') = obj (fs_inner s) \<or> obj (fs_inner s') = (obj (fs_inner s))(k := None))"
    by (cases rule: fault_call_inner) (auto dest: delete_spec [OF ok] simp: ok)
next
  fix s :: "'o fault_store" and p r s'
  assume ok: "ok (fs_inner s)" and call: "os_list (fault_object_store ops) s p = (r, s')"
  from call have "fault_call (s\<lparr>fs_list_n := fs_list_n s + 1\<rparr>) FkList (fs_list_n s + 1) (\<lambda>q. os_list ops q p) = (r, s')"
    by (simp add: fault_object_store_def)
  then show "ok (fs_inner s') \<and> obj (fs_inner s') = obj (fs_inner s) \<and>
      (\<forall>ks. r = Inr ks \<longrightarrow> distinct ks \<and> set ks = listed (obj (fs_inner s)) p)"
    by (cases rule: fault_call_inner) (auto dest: list_spec [OF ok] simp: ok)
qed

end

section \<open>The stores keep the contract\<close>

definition mem_ok :: "mem_store \<Rightarrow> bool" where
  "mem_ok s \<longleftrightarrow> bt_wf (ms_map s)"

definition mem_obj :: "mem_store \<Rightarrow> contents" where
  "mem_obj s = map_of (ms_map s)"

lemma bt_wf_delete [simp]: "bt_wf m \<Longrightarrow> bt_wf (AList.delete k m)"
  by (simp add: bt_wf_def AList.delete_eq sorted_wrt_map sorted_wrt_filter)

lemma listed_keys: "{x \<in> fst ` set m. starts_with p x} = listed (map_of m) p"
  by (auto simp: listed_def map_of_eq_None_iff simp del: not_None_eq)

lemma distinct_keys: "bt_wf m \<Longrightarrow> distinct (filter f (map fst m))"
  using bt_wf_distinct by (rule distinct_filter)

lemmas mem_op_defs = mem_object_store_def mem_get_def mem_put_def mem_put_if_absent_def
  mem_put_if_match_def mem_delete_def mem_list_def mem_next_etag_def mem_ok_def mem_obj_def

interpretation mem_cas: cas_store mem_object_store mem_ok mem_obj
  by unfold_locales
    (auto simp: mem_op_defs put_done_def delete_conv' distinct_keys listed_keys
      split: if_splits option.splits, metis option.exhaust surj_pair)

definition mb_ok :: "mem_binding \<Rightarrow> bool" where
  "mb_ok s \<longleftrightarrow> bt_wf (mb_map s)"

definition mb_obj :: "mem_binding \<Rightarrow> contents" where
  "mb_obj s = map_of (mb_map s)"

lemmas mb_op_defs = binding_object_store_def mem_binding_host_def lift_binding_def mb_get_def mb_put_def
  mb_put_if_absent_def mb_put_if_match_def mb_delete_def mb_list_def mb_next_etag_def mb_ok_def mb_obj_def

interpretation binding_cas: cas_store "binding_object_store mem_binding_host" mb_ok mb_obj
  by unfold_locales
    (auto simp: mb_op_defs put_done_def delete_conv' distinct_keys listed_keys
      split: if_splits option.splits, metis option.exhaust surj_pair)

interpretation fault_mem_cas: cas_store "fault_object_store mem_object_store"
    "\<lambda>s. mem_ok (fs_inner s)" "\<lambda>s. mem_obj (fs_inner s)"
  by (rule mem_cas.fault_cas)

text \<open>Conditional create is a compare-and-swap, under every injected fault: once one writer's
  \<^verbatim>\<open>put_if_absent\<close> on a key has succeeded, any further one on that key fails and the
  winner's bytes stay in place.\<close>

theorem put_if_absent_one_winner:
  assumes "mem_ok (fs_inner s)" and "os_put_if_absent (fault_object_store mem_object_store) s k a = (Inr e, s1)"
    and "os_put_if_absent (fault_object_store mem_object_store) s1 k b = (r, s2)"
  shows "isl r \<and> mem_obj (fs_inner s2) k = Some (a, e)"
  using fault_mem_cas.one_winner [OF assms] .

theorem put_if_absent_one_winner_witness:
  "\<exists>e s1 r s2. os_put_if_absent (fault_object_store mem_object_store) (fault_new mem_new) ''log/1'' [97] = (Inr e, s1) \<and>
     os_put_if_absent (fault_object_store mem_object_store) s1 ''log/1'' [98] = (r, s2) \<and> isl r \<and>
     mem_obj (fs_inner s2) ''log/1'' = Some ([97], e)"
proof -
  have ok: "mem_ok (fs_inner (fault_new mem_new))"
    by (simp add: fault_new_def mem_new_def mem_ok_def)
  obtain e s1 where a: "os_put_if_absent (fault_object_store mem_object_store) (fault_new mem_new) ''log/1'' [97] = (Inr e, s1)"
    by (simp add: fault_object_store_def fault_call_def fault_decide_def fault_new_def mem_op_defs mem_new_def)
  obtain r s2 where b: "os_put_if_absent (fault_object_store mem_object_store) s1 ''log/1'' [98] = (r, s2)"
    by fastforce
  from put_if_absent_one_winner [OF ok a b] a b show ?thesis by blast
qed

end
