(* ===== verification/Object_Storage.thy ===== *)
theory Object_Storage
  imports Object_Codec Object_Store
begin

text \<open>
  \<^verbatim>\<open>ObjectStorage\<close> (\<^verbatim>\<open>crates/storage/src/object/mod.rs\<close>): the commit log of conditional writes and
  the LSM page store over any object client.  The state is a handle (the fields behind the
  mutex, the prefix, the configuration and the layer cache) together with the object store;
  a second writer is another handle on the same store.  Every operation is a function of the
  client's method record.  \<open>sbind\<close> is the \<^verbatim>\<open>?\<close> operator: it stops at the first error and
  keeps the state reached.
\<close>

section \<open>Fallible state transformers\<close>

type_synonym ('s, 'a) action = "'s \<Rightarrow> 'a sres \<times> 's"

definition sret :: "'a \<Rightarrow> ('s, 'a) action" where
  "sret x s = (Inr x, s)"

definition sfail :: "storage_error \<Rightarrow> ('s, 'a) action" where
  "sfail e s = (Inl e, s)"

definition sbind :: "('s, 'a) action \<Rightarrow> ('a \<Rightarrow> ('s, 'b) action) \<Rightarrow> ('s, 'b) action" where
  "sbind m f s = (case m s of (Inl e, s') \<Rightarrow> (Inl e, s') | (Inr x, s') \<Rightarrow> f x s')"

definition sget :: "('s \<Rightarrow> 'a) \<Rightarrow> ('s, 'a) action" where
  "sget f s = (Inr (f s), s)"

definition smodify :: "('s \<Rightarrow> 's) \<Rightarrow> ('s, unit) action" where
  "smodify f s = (Inr (), f s)"

fun sfold :: "('a \<Rightarrow> 'b \<Rightarrow> ('s, 'b) action) \<Rightarrow> 'a list \<Rightarrow> 'b \<Rightarrow> ('s, 'b) action" where
  "sfold f [] b = sret b"
| "sfold f (x # xs) b = sbind (f x b) (sfold f xs)"

section \<open>Names\<close>

text \<open>\<^verbatim>\<open>{:020}\<close>, \<^verbatim>\<open>parse::<u64>\<close>, \<^verbatim>\<open>rsplit('/').next()\<close>, \<^verbatim>\<open>strip_suffix\<close> and \<^verbatim>\<open>ends_with\<close>.\<close>

definition pad20 :: "nat \<Rightarrow> string" where
  "pad20 n = (let d = dec_string n in replicate (20 - length d) (CHR ''0'') @ d)"

definition is_digit :: "char \<Rightarrow> bool" where
  "is_digit c \<longleftrightarrow> 48 \<le> (of_char c :: nat) \<and> (of_char c :: nat) \<le> 57"

definition digits_value :: "string \<Rightarrow> nat" where
  "digits_value s = foldl (\<lambda>n c. n * 10 + (of_char c - 48)) 0 s"

definition parse_u64 :: "string \<Rightarrow> nat option" where
  "parse_u64 s =
     (let ds = (case s of c # r \<Rightarrow> if c = CHR ''+'' then r else s | [] \<Rightarrow> []) in
      if ds \<noteq> [] \<and> list_all is_digit ds \<and> digits_value ds < 2 ^ 64 then Some (digits_value ds) else None)"

definition last_segment :: "string \<Rightarrow> string" where
  "last_segment k = rev (takeWhile (\<lambda>c. c \<noteq> CHR ''/'') (rev k))"

definition ends_with :: "string \<Rightarrow> string \<Rightarrow> bool" where
  "ends_with p s \<longleftrightarrow> starts_with (rev p) (rev s)"

definition strip_suffix :: "string \<Rightarrow> string \<Rightarrow> string option" where
  "strip_suffix p s = map_option rev (strip_prefix (rev p) (rev s))"

definition lease_key :: "string \<Rightarrow> string" where
  "lease_key prefix = prefix @ ''lease''"

definition retention_key :: "string \<Rightarrow> string" where
  "retention_key prefix = prefix @ ''retention''"

definition log_prefix :: "string \<Rightarrow> string" where
  "log_prefix prefix = prefix @ ''log/''"

definition log_key :: "string \<Rightarrow> nat \<Rightarrow> string" where
  "log_key prefix seq = prefix @ ''log/'' @ pad20 seq"

definition delta_key :: "string \<Rightarrow> nat \<Rightarrow> nat \<Rightarrow> string" where
  "delta_key prefix lo hi = prefix @ ''delta/L'' @ pad20 lo @ ''-L'' @ pad20 hi @ ''.delta''"

definition image_key :: "string \<Rightarrow> nat \<Rightarrow> string" where
  "image_key prefix lsn = prefix @ ''image/img-L'' @ pad20 lsn @ ''.image''"

definition branch_key :: "string \<Rightarrow> nat \<Rightarrow> string" where
  "branch_key prefix b = prefix @ ''branches/'' @ pad20 b @ ''.ptr''"

definition parse_delta_name :: "string \<Rightarrow> (nat \<times> nat) option" where
  "parse_delta_name key =
     (case strip_prefix ''L'' (last_segment key) of
        None \<Rightarrow> None
      | Some r \<Rightarrow> (case strip_suffix ''.delta'' r of
          None \<Rightarrow> None
        | Some body \<Rightarrow> (case split_once ''-L'' body of
            None \<Rightarrow> None
          | Some (lo, hi) \<Rightarrow> (case parse_u64 lo of
              None \<Rightarrow> None
            | Some l \<Rightarrow> map_option (\<lambda>h. (l, h)) (parse_u64 hi)))))"

definition parse_image_name :: "string \<Rightarrow> nat option" where
  "parse_image_name key =
     (case strip_prefix ''img-L'' (last_segment key) of
        None \<Rightarrow> None
      | Some r \<Rightarrow> (case strip_suffix ''.image'' r of None \<Rightarrow> None | Some body \<Rightarrow> parse_u64 body))"

text \<open>The scheme, the bucket and the database id of an object-storage URL.\<close>

definition safe_name :: "string \<Rightarrow> string" where
  "safe_name s = map (\<lambda>c. if c = CHR ''/'' \<or> c = CHR 0x5C then CHR ''_'' else c) s"

definition trim_end_slashes :: "string \<Rightarrow> string" where
  "trim_end_slashes s = rev (dropWhile (\<lambda>c. c = CHR ''/'') (rev s))"

definition parse_object_url :: "string \<Rightarrow> (string \<times> string) sres" where
  "parse_object_url url =
     (case split_once ''://'' url of
        None \<Rightarrow> Inl Invalid
      | Some (scheme, rest0) \<Rightarrow>
          (if scheme \<notin> {''s3'', ''r2'', ''gs''} then Inl Invalid
           else let rest = before_char (CHR ''?'') rest0; bucket = before_char (CHR ''/'') rest in
             if bucket = [] then Inl Invalid
             else let tl = drop (length bucket) rest;
                      db_id = (case tl of c # p \<Rightarrow> if p \<noteq> [] then trim_end_slashes p else ''default''
                               | [] \<Rightarrow> ''default'')
                  in Inr (safe_name bucket, safe_name db_id)))"

section \<open>State\<close>

record object_config =
  flush_threshold_bytes :: nat
  cas_max_retries :: nat

definition config_default :: object_config where
  "config_default = \<lparr>flush_threshold_bytes = 64 * 1024 * 1024, cas_max_retries = 8\<rparr>"

record delta_meta =
  dm_lo :: nat
  dm_hi :: nat
  dm_key :: string

record image_meta =
  im_lsn :: nat
  im_key :: string

type_synonym memtable = "((nat \<times> nat) \<times> bytes) list"

record 'o object_state =
  o_store :: 'o
  o_prefix :: string
  o_config :: object_config
  o_next_seq :: nat
  o_next_lsn :: nat
  o_durable_lsn :: nat
  o_commit_lsn :: nat
  o_epoch :: nat
  o_retention_floor :: nat
  o_memtable :: memtable
  o_memtable_bytes :: nat
  o_flushed_hw :: nat
  o_deltas :: "delta_meta list"
  o_image :: "image_meta option"
  o_branches :: "(nat \<times> branch_ref) list"
  o_next_branch_id :: nat
  o_cache :: "(string \<times> page_record list) list"

definition map_obj_err :: "object_error \<Rightarrow> storage_error" where
  "map_obj_err e = (case e of ONotFound \<Rightarrow> NotFound | OPrecondition \<Rightarrow> Contended | OTransient \<Rightarrow> Transient)"

section \<open>Bridges to the object client\<close>

definition obj_call :: "('o \<Rightarrow> 'a ores \<times> 'o) \<Rightarrow> 'o object_state \<Rightarrow> 'a ores \<times> 'o object_state" where
  "obj_call f st = (let (r, o') = f (o_store st) in (r, st\<lparr>o_store := o'\<rparr>))"

definition obj_mapped :: "('o \<Rightarrow> 'a ores \<times> 'o) \<Rightarrow> ('o object_state, 'a) action" where
  "obj_mapped f st = (case obj_call f st of
     (Inl e, st1) \<Rightarrow> (Inl (map_obj_err e), st1) | (Inr x, st1) \<Rightarrow> (Inr x, st1))"

definition obj_get :: "'o object_store \<Rightarrow> string \<Rightarrow> ('o object_state, (bytes \<times> etag) option) action" where
  "obj_get ops k = obj_mapped (\<lambda>q. os_get ops q k)"

definition obj_put_if_absent :: "'o object_store \<Rightarrow> string \<Rightarrow> bytes \<Rightarrow> 'o object_state \<Rightarrow> etag ores \<times> 'o object_state" where
  "obj_put_if_absent ops k bs = obj_call (\<lambda>q. os_put_if_absent ops q k bs)"

definition obj_put :: "'o object_store \<Rightarrow> string \<Rightarrow> bytes \<Rightarrow> ('o object_state, etag) action" where
  "obj_put ops k bs = obj_mapped (\<lambda>q. os_put ops q k bs)"

definition obj_delete :: "'o object_store \<Rightarrow> string \<Rightarrow> ('o object_state, unit) action" where
  "obj_delete ops k = obj_mapped (\<lambda>q. os_delete ops q k)"

definition obj_list :: "'o object_store \<Rightarrow> string \<Rightarrow> ('o object_state, string list) action" where
  "obj_list ops p = obj_mapped (\<lambda>q. os_list ops q p)"

section \<open>The writer lease\<close>

definition encode_lease :: "nat \<Rightarrow> nat \<Rightarrow> nat \<Rightarrow> bytes" where
  "encode_lease epoch owner expires_ms = le_encode 8 epoch @ le_encode 16 owner @ le_encode 8 expires_ms"

definition durable_epoch :: "'o object_store \<Rightarrow> ('o object_state, nat \<times> etag option) action" where
  "durable_epoch ops = sbind (sget o_prefix) (\<lambda>prefix. sbind (obj_get ops (lease_key prefix)) (\<lambda>got.
     sret (case got of
         Some (bs, tag) \<Rightarrow> (if 8 \<le> length bs then (le_decode (take 8 bs), Some tag) else (0, Some tag))
       | None \<Rightarrow> (0, None))))"

definition object_check_fence :: "'o object_store \<Rightarrow> fence_token \<Rightarrow> ('o object_state, unit) action" where
  "object_check_fence ops tok = sbind (durable_epoch ops) (\<lambda>(current, _).
     if ft_epoch tok \<noteq> current then sfail (Fenced (ft_epoch tok) current) else sret ())"

text \<open>The conditional lease write of \<^verbatim>\<open>acquire_fence\<close> and \<^verbatim>\<open>renew_fence\<close>.\<close>

definition write_lease :: "'o object_store \<Rightarrow> etag option \<Rightarrow> bytes \<Rightarrow> 'o object_state \<Rightarrow> etag ores \<times> 'o object_state" where
  "write_lease ops tag bs st = (let k = lease_key (o_prefix st) in
     case tag of
       Some e \<Rightarrow> obj_call (\<lambda>q. os_put_if_match ops q k bs e) st
     | None \<Rightarrow> obj_call (\<lambda>q. os_put_if_absent ops q k bs) st)"

definition LEASE_MS :: nat where "LEASE_MS = 10000"

fun acquire_loop :: "'o object_store \<Rightarrow> nat \<Rightarrow> nat \<Rightarrow> nat \<Rightarrow> ('o object_state, fence_token) action" where
  "acquire_loop ops now owner n st =
     (case durable_epoch ops st of
        (Inl e, st1) \<Rightarrow> (Inl e, st1)
      | (Inr (cur_epoch, tag), st1) \<Rightarrow> (let new_epoch = cur_epoch + 1 in
          case write_lease ops tag (encode_lease new_epoch owner (now + LEASE_MS)) st1 of
            (Inr _, st2) \<Rightarrow> (Inr \<lparr>ft_epoch = new_epoch, ft_owner = owner, ft_lease_until = now + LEASE_MS\<rparr>,
                             st2\<lparr>o_epoch := new_epoch\<rparr>)
          | (Inl OPrecondition, st2) \<Rightarrow>
              (case n of 0 \<Rightarrow> (Inl Contended, st2) | Suc m \<Rightarrow> acquire_loop ops now owner m st2)
          | (Inl e, st2) \<Rightarrow> (Inl (map_obj_err e), st2)))"

declare acquire_loop.simps [simp del]

definition object_acquire_fence :: "'o object_store \<Rightarrow> 'o object_state \<Rightarrow> nat \<Rightarrow> nat \<Rightarrow> fence_token sres \<times> 'o object_state" where
  "object_acquire_fence ops st now owner = acquire_loop ops now owner (cas_max_retries (o_config st)) st"

fun renew_loop :: "'o object_store \<Rightarrow> nat \<Rightarrow> fence_token \<Rightarrow> nat \<Rightarrow> ('o object_state, fence_token) action" where
  "renew_loop ops now tok n st =
     (case durable_epoch ops st of
        (Inl e, st1) \<Rightarrow> (Inl e, st1)
      | (Inr (current, tag), st1) \<Rightarrow>
          (if ft_epoch tok \<noteq> current then (Inl (Fenced (ft_epoch tok) current), st1)
           else case write_lease ops tag (encode_lease (ft_epoch tok) (ft_owner tok) (now + LEASE_MS)) st1 of
             (Inr _, st2) \<Rightarrow> (Inr \<lparr>ft_epoch = ft_epoch tok, ft_owner = ft_owner tok, ft_lease_until = now + LEASE_MS\<rparr>, st2)
           | (Inl OPrecondition, st2) \<Rightarrow>
               (case n of 0 \<Rightarrow> (Inl Contended, st2) | Suc m \<Rightarrow> renew_loop ops now tok m st2)
           | (Inl e, st2) \<Rightarrow> (Inl (map_obj_err e), st2)))"

declare renew_loop.simps [simp del]

definition object_renew_fence :: "'o object_store \<Rightarrow> 'o object_state \<Rightarrow> nat \<Rightarrow> fence_token \<Rightarrow> fence_token sres \<times> 'o object_state" where
  "object_renew_fence ops st now tok = renew_loop ops now tok (cas_max_retries (o_config st)) st"

definition object_release_fence :: "'o object_store \<Rightarrow> 'o object_state \<Rightarrow> fence_token \<Rightarrow> unit sres \<times> 'o object_state" where
  "object_release_fence ops st tok = sbind (durable_epoch ops) (\<lambda>(current, tag).
     if ft_epoch tok \<noteq> current then sret ()
     else case tag of
         Some e \<Rightarrow> smodify (\<lambda>st. snd (obj_call (\<lambda>q. os_put_if_match ops q (lease_key (o_prefix st))
                     (encode_lease (ft_epoch tok) (ft_owner tok) 0) e) st))
       | None \<Rightarrow> sret ()) st"

section \<open>The page store\<close>

definition flush_locked :: "'o object_store \<Rightarrow> ('o object_state, unit) action" where
  "flush_locked ops st =
     (if o_memtable st = [] then (Inr (), st)
      else let lo = o_flushed_hw st + 1; hi = o_durable_lsn st;
               records = map (\<lambda>((pid, lsn), im). \<lparr>pr_page_id = pid, pr_lsn = lsn, pr_image = im\<rparr>) (o_memtable st);
               key = delta_key (o_prefix st) lo hi in
        case obj_put_if_absent ops key (encode_delta records) st of
          (Inl e, st1) \<Rightarrow> (Inl (map_obj_err e), st1)
        | (Inr _, st1) \<Rightarrow>
            (Inr (), st1\<lparr>o_deltas := o_deltas st1 @ [\<lparr>dm_lo = lo, dm_hi = hi, dm_key = key\<rparr>],
               o_flushed_hw := hi, o_memtable := [], o_memtable_bytes := 0\<rparr>))"

definition contains_str :: "string \<Rightarrow> string \<Rightarrow> bool" where
  "contains_str p s \<longleftrightarrow> split_once p s \<noteq> None"

definition load_layer :: "'o object_store \<Rightarrow> string \<Rightarrow> ('o object_state, page_record list) action" where
  "load_layer ops key st =
     (case hm_get (o_cache st) key of
        Some hit \<Rightarrow> (Inr hit, st)
      | None \<Rightarrow>
          (case obj_get ops key st of
             (Inl e, st1) \<Rightarrow> (Inl e, st1)
           | (Inr None, st1) \<Rightarrow> (Inl Corruption, st1)
           | (Inr (Some (bs, tag)), st1) \<Rightarrow>
               (case (if contains_str ''/image/'' key then decode_image bs else decode_delta bs) of
                  Inl e \<Rightarrow> (Inl e, st1)
                | Inr records \<Rightarrow> (Inr records, st1\<lparr>o_cache := hm_insert key records (o_cache st1)\<rparr>))))"

definition merge_keep_greatest :: "(nat \<times> nat \<times> bytes) list \<Rightarrow> page_record \<Rightarrow> (nat \<times> nat \<times> bytes) list" where
  "merge_keep_greatest m r =
     (case map_of m (pr_page_id r) of
        None \<Rightarrow> bt_insert (pr_page_id r) (pr_lsn r, pr_image r) m
      | Some (l, im) \<Rightarrow> if l \<le> pr_lsn r then bt_insert (pr_page_id r) (pr_lsn r, pr_image r) m else m)"

text \<open>The fold of one layer into the merged map.\<close>

definition merge_layer :: "'o object_store \<Rightarrow> nat \<Rightarrow> string \<Rightarrow> (nat \<times> nat \<times> bytes) list \<Rightarrow>
    ('o object_state, (nat \<times> nat \<times> bytes) list) action" where
  "merge_layer ops image_lsn key m = sbind (load_layer ops key) (\<lambda>recs.
     sret (foldl merge_keep_greatest m (filter (\<lambda>r. pr_lsn r \<le> image_lsn) recs)))"

definition compact :: "'o object_store \<Rightarrow> ('o object_state, unit) action" where
  "compact ops = sbind (flush_locked ops) (\<lambda>_. sbind (sget o_retention_floor) (\<lambda>image_lsn.
     if image_lsn = 0 then sret ()
     else sbind (sget o_image) (\<lambda>img. sbind (sget o_deltas) (\<lambda>deltas. sbind (sget o_prefix) (\<lambda>prefix.
       sbind (case img of Some i \<Rightarrow> merge_layer ops image_lsn (im_key i) [] | None \<Rightarrow> sret []) (\<lambda>m0.
       sbind (sfold (\<lambda>d m. merge_layer ops image_lsn (dm_key d) m) deltas m0) (\<lambda>merged.
       let records = map (\<lambda>(pid, lsn, im). \<lparr>pr_page_id = pid, pr_lsn = lsn, pr_image = im\<rparr>) merged;
           new_key = image_key prefix image_lsn in
       sbind (obj_put ops new_key (encode_image records)) (\<lambda>_.
       smodify (\<lambda>st. st\<lparr>o_deltas := filter (\<lambda>d. image_lsn < dm_hi d) (o_deltas st),
         o_image := Some \<lparr>im_lsn = image_lsn, im_key = new_key\<rparr>\<rparr>)))))))))"

definition gc_victims :: "'o object_store \<Rightarrow> string list \<Rightarrow> string \<Rightarrow> string list \<Rightarrow> ('o object_state, string list) action" where
  "gc_victims ops live p acc = sbind (obj_list ops p) (\<lambda>ks. sret (acc @ filter (\<lambda>k. k \<notin> set live) ks))"

definition drop_object :: "'o object_store \<Rightarrow> string \<Rightarrow> unit \<Rightarrow> ('o object_state, unit) action" where
  "drop_object ops key u = sbind (obj_delete ops key) (\<lambda>_.
     smodify (\<lambda>st. st\<lparr>o_cache := hm_remove key (o_cache st)\<rparr>))"

definition gc :: "'o object_store \<Rightarrow> ('o object_state, unit) action" where
  "gc ops = sbind (sget (\<lambda>st. map dm_key (o_deltas st) @ (case o_image st of Some i \<Rightarrow> [im_key i] | None \<Rightarrow> []))) (\<lambda>live.
     sbind (sget o_prefix) (\<lambda>prefix.
     sbind (sfold (gc_victims ops live) [prefix @ ''delta/'', prefix @ ''image/''] []) (\<lambda>victims.
     sfold (drop_object ops) victims ())))"

definition best_in :: "page_record list \<Rightarrow> nat \<Rightarrow> nat \<Rightarrow> page_record option" where
  "best_in recs pid q =
     foldl (\<lambda>b r. case b of None \<Rightarrow> Some r | Some c \<Rightarrow> if pr_lsn c \<le> pr_lsn r then Some r else b) None
       (filter (\<lambda>r. pr_page_id r = pid \<and> pr_lsn r \<le> q) recs)"

fun search_deltas :: "'o object_store \<Rightarrow> nat \<Rightarrow> nat \<Rightarrow> delta_meta list \<Rightarrow> ('o object_state, page_record option) action" where
  "search_deltas ops pid q [] = sret None"
| "search_deltas ops pid q (d # ds) =
     (if dm_lo d > q then search_deltas ops pid q ds
      else sbind (load_layer ops (dm_key d)) (\<lambda>recs.
        case best_in recs pid q of Some b \<Rightarrow> sret (Some b) | None \<Rightarrow> search_deltas ops pid q ds))"

definition search_image :: "'o object_store \<Rightarrow> nat \<Rightarrow> nat \<Rightarrow> image_meta option \<Rightarrow> ('o object_state, page_record option) action" where
  "search_image ops pid q img = (case img of
     Some i \<Rightarrow> (if im_lsn i \<le> q then sbind (load_layer ops (im_key i)) (\<lambda>recs. sret (best_in recs pid q)) else sret None)
   | None \<Rightarrow> sret None)"

definition object_get_page :: "'o object_store \<Rightarrow> 'o object_state \<Rightarrow> nat \<Rightarrow> nat \<Rightarrow> page sres \<times> 'o object_state" where
  "object_get_page ops st pid q =
     (if q < o_retention_floor st then (Inl NotFound, st)
      else case find_last (\<lambda>((p, v), im). p = pid \<and> v \<le> q) (o_memtable st) of
          Some ((p, v), im) \<Rightarrow> (Inr (page_from_slice pid v im), st)
        | None \<Rightarrow>
            sbind (search_deltas ops pid q (sort_key (\<lambda>d. - int (dm_hi d)) (o_deltas st))) (\<lambda>hit.
              case hit of
                Some r \<Rightarrow> sret (page_from_slice pid (pr_lsn r) (pr_image r))
              | None \<Rightarrow> sbind (search_image ops pid q (o_image st)) (\<lambda>hit2.
                  case hit2 of
                    Some r \<Rightarrow> sret (page_from_slice pid (pr_lsn r) (pr_image r))
                  | None \<Rightarrow> sfail NotFound)) st)"

section \<open>The commit log\<close>

definition scan_next_seq :: "'o object_store \<Rightarrow> ('o object_state, nat) action" where
  "scan_next_seq ops = sbind (sget o_prefix) (\<lambda>prefix. sbind (obj_list ops (log_prefix prefix)) (\<lambda>keys.
     sret (fold max (List.map_filter (\<lambda>k. parse_u64 (last_segment k)) keys) 0 + 1)))"

fun append_loop :: "'o object_store \<Rightarrow> fence_token \<Rightarrow> bytes \<Rightarrow> nat \<Rightarrow> ('o object_state, unit) action" where
  "append_loop ops tok bs n st =
     (case obj_put_if_absent ops (log_key (o_prefix st) (o_next_seq st)) bs st of
        (Inr _, st1) \<Rightarrow> (Inr (), st1)
      | (Inl OPrecondition, st1) \<Rightarrow>
          (case scan_next_seq ops st1 of
             (Inl e, st2) \<Rightarrow> (Inl e, st2)
           | (Inr seq, st2) \<Rightarrow>
               (case durable_epoch ops (st2\<lparr>o_next_seq := seq\<rparr>) of
                  (Inl e, st3) \<Rightarrow> (Inl e, st3)
                | (Inr (current, _), st3) \<Rightarrow>
                    (if ft_epoch tok \<noteq> current then (Inl (Fenced (ft_epoch tok) current), st3)
                     else case n of 0 \<Rightarrow> (Inl Contended, st3) | Suc m \<Rightarrow> append_loop ops tok bs m st3)))
      | (Inl OTransient, st1) \<Rightarrow> (Inl Transient, st1)
      | (Inl ONotFound, st1) \<Rightarrow> (Inl Transient, st1))"

declare append_loop.simps [simp del]

text \<open>The loop that assigns LSNs and fills the memtable.\<close>

fun apply_item :: "'o object_state \<times> bool \<Rightarrow> log_item \<Rightarrow> 'o object_state \<times> bool" where
  "apply_item (st, has_wal) (Wal b) = (st\<lparr>o_next_lsn := o_next_lsn st + 1\<rparr>, True)"
| "apply_item (st, has_wal) (PageItem pid im) =
     (st\<lparr>o_next_lsn := o_next_lsn st + 1, o_memtable := bt_insert (pid, o_next_lsn st) im (o_memtable st),
         o_memtable_bytes := o_memtable_bytes st + length im\<rparr>, has_wal)"

definition commit_items :: "log_item list \<Rightarrow> 'o object_state \<Rightarrow> 'o object_state" where
  "commit_items items st =
     (let seq = o_next_seq st; (st1, has_wal) = foldl apply_item (st, False) items;
          lst = o_next_lsn st1 - 1
      in st1\<lparr>o_next_seq := seq + 1, o_durable_lsn := lst,
             o_commit_lsn := if has_wal then lst else o_commit_lsn st1\<rparr>)"

definition append_segment :: "'o object_store \<Rightarrow> fence_token \<Rightarrow> log_item list \<Rightarrow> ('o object_state, nat) action" where
  "append_segment ops tok items = sbind (object_check_fence ops tok) (\<lambda>_.
     sbind (sget (\<lambda>st. cas_max_retries (o_config st))) (\<lambda>retries.
     sbind (append_loop ops tok (encode_segment items) retries) (\<lambda>_.
     sbind (smodify (commit_items items)) (\<lambda>_.
     sbind (sget o_durable_lsn) (\<lambda>lst.
     sbind (sget (\<lambda>st. flush_threshold_bytes (o_config st) \<le> o_memtable_bytes st)) (\<lambda>full.
     sbind (if full then flush_locked ops else sret ()) (\<lambda>_. sret lst)))))))"

definition object_append_wal :: "'o object_store \<Rightarrow> 'o object_state \<Rightarrow> fence_token \<Rightarrow> wal_record list \<Rightarrow> nat sres \<times> 'o object_state" where
  "object_append_wal ops st tok records =
     (if records = [] then (Inl Invalid, st) else append_segment ops tok (map Wal records) st)"

definition object_put_page :: "'o object_store \<Rightarrow> 'o object_state \<Rightarrow> fence_token \<Rightarrow> nat \<Rightarrow> bytes \<Rightarrow> nat sres \<times> 'o object_state" where
  "object_put_page ops st tok pid im =
     (if length im > PAGE_SIZE then (Inl Invalid, st) else append_segment ops tok [PageItem pid im] st)"

text \<open>One segment read back: the object must exist and decode.\<close>

definition read_segment :: "'o object_store \<Rightarrow> string \<Rightarrow> ('o object_state, log_item list) action" where
  "read_segment ops key = sbind (obj_get ops key) (\<lambda>got. case got of
     None \<Rightarrow> sfail Corruption
   | Some (bs, tag) \<Rightarrow> (case decode_segment bs of Inl e \<Rightarrow> sfail e | Inr items \<Rightarrow> sret items))"

fun scan_item :: "nat \<Rightarrow> log_entry list \<times> nat \<Rightarrow> log_item \<Rightarrow> log_entry list \<times> nat" where
  "scan_item after (out, lsn) (Wal b) =
     (if after < lsn + 1 then out @ [\<lparr>le_lsn = lsn + 1, le_record = b\<rparr>] else out, lsn + 1)"
| "scan_item after (out, lsn) (PageItem pid im) = (out, lsn + 1)"

definition object_scan_wal :: "'o object_store \<Rightarrow> 'o object_state \<Rightarrow> nat \<Rightarrow> log_entry list sres \<times> 'o object_state" where
  "object_scan_wal ops st after = sbind (obj_list ops (log_prefix (o_prefix st))) (\<lambda>keys.
     sbind (sfold (\<lambda>k acc. sbind (read_segment ops k) (\<lambda>items. sret (foldl (scan_item after) acc items)))
              (sort keys) ([], 0)) (\<lambda>(out, lsn). sret out)) st"

section \<open>Recovery\<close>

record log_replay =
  lr_max_seq :: nat
  lr_next_lsn :: nat
  lr_durable_lsn :: nat
  lr_commit_lsn :: nat
  lr_memtable :: memtable
  lr_memtable_bytes :: nat

definition replay_start :: log_replay where
  "replay_start = \<lparr>lr_max_seq = 0, lr_next_lsn = 1, lr_durable_lsn = 0, lr_commit_lsn = 0,
     lr_memtable = [], lr_memtable_bytes = 0\<rparr>"

fun replay_item :: "nat \<Rightarrow> log_replay \<times> bool \<Rightarrow> log_item \<Rightarrow> log_replay \<times> bool" where
  "replay_item hw (r, has_wal) (Wal b) =
     (r\<lparr>lr_next_lsn := lr_next_lsn r + 1, lr_durable_lsn := lr_next_lsn r\<rparr>, True)"
| "replay_item hw (r, has_wal) (PageItem pid im) =
     (let r1 = r\<lparr>lr_next_lsn := lr_next_lsn r + 1, lr_durable_lsn := lr_next_lsn r\<rparr> in
      (if hw < lr_next_lsn r
       then r1\<lparr>lr_memtable := bt_insert (pid, lr_next_lsn r) im (lr_memtable r1),
               lr_memtable_bytes := lr_memtable_bytes r1 + length im\<rparr>
       else r1, has_wal))"

definition replay_segment :: "'o object_store \<Rightarrow> nat \<Rightarrow> string \<Rightarrow> log_replay \<Rightarrow> ('o object_state, log_replay) action" where
  "replay_segment ops hw key r =
     (let r0 = (case parse_u64 (last_segment key) of
                  Some seq \<Rightarrow> r\<lparr>lr_max_seq := max (lr_max_seq r) seq\<rparr> | None \<Rightarrow> r) in
      sbind (read_segment ops key) (\<lambda>items.
        let (r1, has_wal) = foldl (replay_item hw) (r0, False) items in
        sret (if has_wal then r1\<lparr>lr_commit_lsn := lr_durable_lsn r1\<rparr> else r1)))"

definition replay_log :: "'o object_store \<Rightarrow> nat \<Rightarrow> ('o object_state, log_replay) action" where
  "replay_log ops hw = sbind (sget o_prefix) (\<lambda>prefix. sbind (obj_list ops (log_prefix prefix)) (\<lambda>keys.
     sfold (replay_segment ops hw) (sort keys) replay_start))"

definition delta_of_key :: "string \<Rightarrow> delta_meta option" where
  "delta_of_key k = map_option (\<lambda>(lo, hi). \<lparr>dm_lo = lo, dm_hi = hi, dm_key = k\<rparr>) (parse_delta_name k)"

definition newest_image :: "string list \<Rightarrow> image_meta option" where
  "newest_image ks = foldl (\<lambda>img k. case parse_image_name k of
       None \<Rightarrow> img
     | Some l \<Rightarrow> (case img of
         None \<Rightarrow> Some \<lparr>im_lsn = l, im_key = k\<rparr>
       | Some i \<Rightarrow> if im_lsn i < l then Some \<lparr>im_lsn = l, im_key = k\<rparr> else img)) None ks"

definition discover_layers :: "'o object_store \<Rightarrow> ('o object_state, delta_meta list \<times> image_meta option \<times> nat) action" where
  "discover_layers ops = sbind (sget o_prefix) (\<lambda>prefix.
     sbind (obj_list ops (prefix @ ''delta/'')) (\<lambda>dkeys.
     sbind (obj_list ops (prefix @ ''image/'')) (\<lambda>ikeys.
     let deltas = sort_key dm_hi (List.map_filter delta_of_key dkeys); img = newest_image ikeys;
         hw = fold max (map dm_hi deltas @ (case img of Some i \<Rightarrow> [im_lsn i] | None \<Rightarrow> [])) 0
     in sret (deltas, img, hw))))"

definition load_branch :: "'o object_store \<Rightarrow> string \<Rightarrow> (nat \<times> branch_ref) list \<times> nat \<Rightarrow>
    ('o object_state, (nat \<times> branch_ref) list \<times> nat) action" where
  "load_branch ops key acc =
     (if \<not> ends_with ''.ptr'' key then sret acc
      else sbind (obj_get ops key) (\<lambda>got. case got of
          None \<Rightarrow> sret acc
        | Some (bs, tag) \<Rightarrow>
            (if 24 \<le> length bs then
               (let i = le_decode (take 8 bs); base = le_decode (take 8 (drop 8 bs));
                    parent = le_decode (take 8 (drop 16 bs)) in
                sret (hm_insert i \<lparr>br_id = i, br_parent = parent, br_base_lsn = base, br_head_lsn = base\<rparr> (fst acc),
                      max (snd acc) (i + 1)))
             else sret acc)))"

definition load_branches :: "'o object_store \<Rightarrow> ('o object_state, (nat \<times> branch_ref) list \<times> nat) action" where
  "load_branches ops = sbind (sget o_prefix) (\<lambda>prefix. sbind (obj_list ops (prefix @ ''branches/'')) (\<lambda>keys.
     sfold (load_branch ops) keys ([], 1)))"

definition object_recover :: "'o object_store \<Rightarrow> ('o object_state, unit) action" where
  "object_recover ops = sbind (discover_layers ops) (\<lambda>(deltas, img, hw).
     sbind (replay_log ops hw) (\<lambda>replay.
     sbind (load_branches ops) (\<lambda>(branches, next_branch_id).
     sbind (durable_epoch ops) (\<lambda>(epoch, _).
     sbind (sget o_prefix) (\<lambda>prefix. sbind (obj_get ops (retention_key prefix)) (\<lambda>got.
     let floor = (case got of Some (bs, _) \<Rightarrow> if 8 \<le> length bs then le_decode (take 8 bs) else 0 | None \<Rightarrow> 0) in
     smodify (\<lambda>st. st\<lparr>o_next_seq := lr_max_seq replay + 1, o_next_lsn := lr_next_lsn replay,
       o_durable_lsn := lr_durable_lsn replay, o_commit_lsn := lr_commit_lsn replay, o_epoch := epoch,
       o_retention_floor := floor, o_memtable := lr_memtable replay,
       o_memtable_bytes := lr_memtable_bytes replay, o_flushed_hw := hw, o_deltas := deltas,
       o_image := img, o_branches := branches, o_next_branch_id := next_branch_id\<rparr>)))))))"

definition object_with_store :: "'o object_store \<Rightarrow> 'o \<Rightarrow> string \<Rightarrow> object_config \<Rightarrow> unit sres \<times> 'o object_state" where
  "object_with_store ops q prefix0 config =
     (let prefix = (if prefix0 = [] \<or> ends_with ''/'' prefix0 then prefix0 else prefix0 @ ''/'') in
      object_recover ops \<lparr>o_store = q, o_prefix = prefix, o_config = config, o_next_seq = 1, o_next_lsn = 1,
        o_durable_lsn = 0, o_commit_lsn = 0, o_epoch = 0, o_retention_floor = 0, o_memtable = [],
        o_memtable_bytes = 0, o_flushed_hw = 0, o_deltas = [], o_image = None, o_branches = [],
        o_next_branch_id = 1, o_cache = []\<rparr>)"

section \<open>Branches, retention and the method record\<close>

definition object_create_branch :: "'o object_store \<Rightarrow> 'o object_state \<Rightarrow> string \<Rightarrow> nat \<Rightarrow> nat sres \<times> 'o object_state" where
  "object_create_branch ops st name base =
     (if base < o_retention_floor st then (Inl NotFound, st)
      else let i = o_next_branch_id st in
        case obj_put_if_absent ops (branch_key (o_prefix st) i)
               (le_encode 8 i @ le_encode 8 base @ le_encode 8 BRANCH_ROOT) st of
          (Inl e, st1) \<Rightarrow> (Inl (map_obj_err e), st1)
        | (Inr _, st1) \<Rightarrow>
            (Inr i, st1\<lparr>o_next_branch_id := o_next_branch_id st1 + 1,
               o_branches := hm_insert i \<lparr>br_id = i, br_parent = BRANCH_ROOT, br_base_lsn = base,
                 br_head_lsn = base\<rparr> (o_branches st1)\<rparr>))"

definition object_resolve_branch :: "'o object_state \<Rightarrow> nat \<Rightarrow> branch_ref sres \<times> 'o object_state" where
  "object_resolve_branch st b =
     ((case hm_get (o_branches st) b of None \<Rightarrow> Inl NotFound | Some r \<Rightarrow> Inr r), st)"

definition object_list_branches :: "'o object_state \<Rightarrow> branch_ref list sres \<times> 'o object_state" where
  "object_list_branches st = (Inr (sort_key br_id (hm_values (o_branches st))), st)"

definition object_delete_branch :: "'o object_store \<Rightarrow> 'o object_state \<Rightarrow> nat \<Rightarrow> unit sres \<times> 'o object_state" where
  "object_delete_branch ops st b =
     (if hm_get (o_branches st) b = None then (Inl NotFound, st)
      else if \<exists>r\<in>set (hm_values (o_branches st)). br_parent r = b then (Inl Invalid, st)
      else sbind (obj_delete ops (branch_key (o_prefix st) b)) (\<lambda>_.
        sbind (obj_list ops (o_prefix st @ ''branches/'' @ pad20 b @ ''/'')) (\<lambda>keys.
        sbind (sfold (drop_object ops) keys ()) (\<lambda>_.
        smodify (\<lambda>st. st\<lparr>o_branches := hm_remove b (o_branches st)\<rparr>)))) st)"

definition object_set_retention_floor :: "'o object_store \<Rightarrow> 'o object_state \<Rightarrow> nat \<Rightarrow> unit sres \<times> 'o object_state" where
  "object_set_retention_floor ops st lsn =
     (if lsn < o_retention_floor st then (Inl Invalid, st)
      else sbind (obj_put ops (retention_key (o_prefix st)) (le_encode 8 lsn)) (\<lambda>_.
        smodify (\<lambda>st. st\<lparr>o_retention_floor := lsn\<rparr>)) st)"

definition object_storage :: "'o object_store \<Rightarrow> 'o object_state storage" where
  "object_storage ops = \<lparr>
     st_get_page = object_get_page ops,
     st_append_wal = object_append_wal ops,
     st_put_page = object_put_page ops,
     st_scan_wal = object_scan_wal ops,
     st_flush = flush_locked ops,
     st_durable_lsn = sget o_durable_lsn,
     st_get_commit_lsn = sget o_commit_lsn,
     st_acquire_fence = object_acquire_fence ops,
     st_renew_fence = object_renew_fence ops,
     st_release_fence = object_release_fence ops,
     st_create_branch = object_create_branch ops,
     st_resolve_branch = object_resolve_branch,
     st_list_branches = object_list_branches,
     st_delete_branch = object_delete_branch ops,
     st_set_retention_floor = object_set_retention_floor ops,
     st_pitr_floor = sget o_retention_floor,
     st_stats = (\<lambda>_. stats_default)\<rparr>"

end
