(* ===== verification/Object_Names.thy ===== *)
theory Object_Names
  imports Object_Storage
begin

text \<open>
  Facts about the object names of the backend: zero-padded numerals sort like numbers and
  parse back, so sorting the listed log keys is sorting by sequence number; keys of
  different kinds never share a prefix.
\<close>

section \<open>Numerals of fixed width\<close>

fun dec_fixed :: "nat \<Rightarrow> nat \<Rightarrow> string" where
  "dec_fixed 0 n = []"
| "dec_fixed (Suc k) n = dec_fixed k (n div 10) @ [dec_digit (n mod 10)]"

lemma length_dec_fixed [simp]: "length (dec_fixed k n) = k"
  by (induction k arbitrary: n) auto

lemma dec_digit_0: "dec_digit 0 = CHR ''0''"
proof -
  have "char_of (of_char (CHR ''0'') :: nat) = CHR ''0''"
    by (rule char_of_char)
  then show ?thesis by (simp add: dec_digit_def)
qed

lemma dec_fixed_0: "dec_fixed k 0 = replicate k (CHR ''0'')"
  by (induction k) (simp_all add: dec_digit_0 replicate_append_same)

lemma dec_string_padded:
  assumes "n < 10 ^ k" and "0 < k"
  shows "length (dec_string n) \<le> k \<and> replicate (k - length (dec_string n)) (CHR ''0'') @ dec_string n = dec_fixed k n"
  using assms
proof (induction k arbitrary: n)
  case 0
  then show ?case by simp
next
  case (Suc k)
  show ?case
  proof (cases "n < 10")
    case True
    then show ?thesis
      by (subst (1 2 3) dec_string.simps) (simp add: dec_fixed_0)
  next
    case False
    then have "0 < k" "n div 10 < 10 ^ k"
      using Suc.prems by (cases k; simp add: less_mult_imp_div_less mult.commute)+
    from Suc.IH [OF this(2,1)] False show ?thesis
      by (subst (1 2 3) dec_string.simps) (simp add: Suc_diff_le flip: append_assoc)
  qed
qed

lemma pad20_fixed: "n < 10 ^ 20 \<Longrightarrow> pad20 n = dec_fixed 20 n"
  using dec_string_padded [of n 20] by (simp add: pad20_def Let_def)

lemma less_append_same_length:
  fixes xs ys :: "'a::order list"
  shows "xs < ys \<Longrightarrow> length xs = length ys \<Longrightarrow> xs @ us < ys @ vs"
proof (induction xs arbitrary: ys)
  case (Cons x xs)
  then show ?case by (cases ys) auto
qed simp

lemma append_less_append [simp]: "(xs @ us < xs @ vs) \<longleftrightarrow> us < (vs :: 'a::order list)"
  by (induction xs) auto

lemma dec_digit_less: "d < 10 \<Longrightarrow> e < 10 \<Longrightarrow> d < e \<Longrightarrow> dec_digit d < dec_digit e"
  by (simp add: dec_digit_def less_char_def of_char_of)

lemma dec_fixed_mono: "m < n \<Longrightarrow> n < 10 ^ k \<Longrightarrow> dec_fixed k m < dec_fixed k n"
proof (induction k arbitrary: m n)
  case 0
  then show ?case by simp
next
  case (Suc k)
  show ?case
  proof (cases "m div 10 < n div 10")
    case True
    have "n div 10 < 10 ^ k"
      using Suc.prems(2) by (simp add: less_mult_imp_div_less mult.commute)
    from Suc.IH [OF True this] show ?thesis
      by (simp add: less_append_same_length)
  next
    case False
    then have eq: "m div 10 = n div 10"
      using Suc.prems(1) by (meson div_le_mono le_antisym less_imp_le not_less)
    then have "m mod 10 < n mod 10"
      using Suc.prems(1) by (metis div_mult_mod_eq nat_add_left_cancel_less)
    with eq show ?thesis by (simp add: dec_digit_less)
  qed
qed

lemma u64_20_digits: "n < 2 ^ 64 \<Longrightarrow> n < 10 ^ 20" for n :: nat
  by simp

lemma log_key_mono: "m < n \<Longrightarrow> n < 2 ^ 64 \<Longrightarrow> log_key p m < log_key p n"
  using dec_fixed_mono [of m n 20] u64_20_digits [of n] u64_20_digits [of m]
  by (simp add: log_key_def pad20_fixed)

lemma log_key_inject: "m < 2 ^ 64 \<Longrightarrow> n < 2 ^ 64 \<Longrightarrow> log_key p m = log_key p n \<longleftrightarrow> m = n"
  using log_key_mono [of m n p] log_key_mono [of n m p] by (metis less_irrefl linorder_neqE_nat)

section \<open>Parsing\<close>

lemma of_char_dec_digit [simp]: "d < 10 \<Longrightarrow> of_char (dec_digit d) = (48 + d :: nat)"
  by (simp add: dec_digit_def of_char_of)

lemma digits_value_snoc: "digits_value (s @ [c]) = digits_value s * 10 + (of_char c - 48)"
  by (simp add: digits_value_def)

lemma digits_value_fixed: "n < 10 ^ k \<Longrightarrow> digits_value (dec_fixed k n) = n"
proof (induction k arbitrary: n)
  case 0
  then show ?case by (simp add: digits_value_def)
next
  case (Suc k)
  have "n div 10 < 10 ^ k"
    using Suc.prems by (simp add: less_mult_imp_div_less mult.commute)
  with Suc.IH show ?case by (simp add: digits_value_snoc)
qed

lemma is_digit_dec_digit [simp]: "d < 10 \<Longrightarrow> is_digit (dec_digit d)"
  by (simp add: is_digit_def)

lemma dec_fixed_digits: "list_all is_digit (dec_fixed k n)"
  by (induction k arbitrary: n) auto

lemma digit_not_char: "is_digit c \<Longrightarrow> \<not> is_digit d \<Longrightarrow> c \<noteq> d"
  by auto

lemma parse_u64_digits:
  assumes "s \<noteq> []" and "list_all is_digit s" and "digits_value s < 2 ^ 64"
  shows "parse_u64 s = Some (digits_value s)"
proof (cases s)
  case (Cons c r)
  have "c \<noteq> CHR ''+''"
    using assms(2) Cons by (auto simp: is_digit_def)
  with assms Cons show ?thesis by (simp add: parse_u64_def)
qed (use assms in simp)

lemma parse_pad20: "n < 2 ^ 64 \<Longrightarrow> parse_u64 (pad20 n) = Some n"
proof -
  assume n: "n < 2 ^ 64"
  have "dec_fixed 20 n \<noteq> []"
    by (metis length_dec_fixed list.size(3) zero_neq_numeral)
  with n show ?thesis
    using parse_u64_digits [of "dec_fixed 20 n"] digits_value_fixed [of n 20] dec_fixed_digits [of 20 n]
    by (simp add: pad20_fixed)
qed

lemma last_segment_append:
  assumes "CHR ''/'' \<notin> set s"
  shows "last_segment (a @ ''/'' @ s) = s"
proof -
  have "takeWhile (\<lambda>c. c \<noteq> CHR ''/'') (rev s @ CHR ''/'' # rev a) = rev s"
    using assms by (subst takeWhile_append2) auto
  then show ?thesis by (simp add: last_segment_def)
qed

lemma digits_no_slash: "list_all is_digit s \<Longrightarrow> CHR ''/'' \<notin> set s"
  by (auto simp: list_all_iff is_digit_def)

lemma parse_log_key: "n < 2 ^ 64 \<Longrightarrow> parse_u64 (last_segment (log_key p n)) = Some n"
proof -
  assume n: "n < 2 ^ 64"
  have "last_segment ((p @ ''log'') @ ''/'' @ pad20 n) = pad20 n"
    using n dec_fixed_digits [of 20 n] by (intro last_segment_append digits_no_slash) (simp add: pad20_fixed)
  with parse_pad20 [OF n] show ?thesis by (simp add: log_key_def)
qed

section \<open>Keys of different kinds\<close>

lemma starts_with_append [simp]: "starts_with (p @ a) (p @ b) \<longleftrightarrow> starts_with a b"
  by (simp add: starts_with_def)

lemma key_prefixes [simp]:
  "starts_with (log_prefix p) (log_key p n)"
  "\<not> starts_with (log_prefix p) (lease_key p)"
  "\<not> starts_with (log_prefix p) (retention_key p)"
  "\<not> starts_with (log_prefix p) (delta_key p lo hi)"
  "\<not> starts_with (log_prefix p) (image_key p n)"
  "\<not> starts_with (log_prefix p) (branch_key p n)"
  "log_key p n \<noteq> lease_key p" "delta_key p lo hi \<noteq> lease_key p" "image_key p n \<noteq> lease_key p"
  "retention_key p \<noteq> lease_key p" "branch_key p n \<noteq> lease_key p"
  by (simp_all add: log_prefix_def log_key_def lease_key_def retention_key_def delta_key_def
    image_key_def branch_key_def starts_with_def)

lemmas key_prefixes_sym [simp] = key_prefixes(7-11) [symmetric]

text \<open>Sorting the listed keys of a log without gaps.\<close>

definition log_keys :: "string \<Rightarrow> nat \<Rightarrow> string list" where
  "log_keys p n = map (log_key p) [1..<n + 1]"

lemma sorted_log_keys: "n < 2 ^ 64 \<Longrightarrow> sorted_wrt (<) (log_keys p n)"
proof (induction n)
  case 0
  then show ?case by (simp add: log_keys_def)
next
  case (Suc n)
  then have "\<forall>x\<in>set (log_keys p n). x < log_key p (Suc n)"
    using log_key_mono [of _ "Suc n" p] by (auto simp: log_keys_def)
  with Suc show ?case by (simp add: log_keys_def sorted_wrt_append)
qed

lemma sort_log_keys:
  assumes "distinct ks" and "set ks = set (log_keys p n)" and "n < 2 ^ 64"
  shows "sort ks = log_keys p n"
proof (rule sorted_distinct_set_unique)
  show "sorted (log_keys p n)" "distinct (log_keys p n)"
    using sorted_log_keys [OF assms(3)] by (auto simp: strict_sorted_iff)
qed (use assms in auto)

end
