(* ===== verification/Object_Log.thy ===== *)
theory Object_Log
  imports Object_Names
begin

text \<open>
  The commit log of \<^verbatim>\<open>ObjectStorage\<close>: over any object client that keeps the contract
  \<open>cas_store\<close>, the segments in the bucket are the sequence of acknowledged appends, a scan
  returns them, a fenced writer is refused and a new lease has a higher epoch.  The backend
  is an instance of the append contract of the seam.
\<close>

section \<open>Log contents\<close>

fun wal_entries_from :: "nat \<Rightarrow> log_item list \<Rightarrow> log_entry list" where
  "wal_entries_from n [] = []"
| "wal_entries_from n (Wal b # items) = \<lparr>le_lsn = n, le_record = b\<rparr> # wal_entries_from (n + 1) items"
| "wal_entries_from n (PageItem pid im # items) = wal_entries_from (n + 1) items"

definition seg_ok :: "log_item list \<Rightarrow> bool" where
  "seg_ok s \<longleftrightarrow> (\<forall>it\<in>set s. item_ok it) \<and> length s < 2 ^ 32"

definition log_repr :: "contents \<Rightarrow> string \<Rightarrow> log_item list list \<Rightarrow> bool" where
  "log_repr m p segs \<longleftrightarrow> length segs < 2 ^ 64 \<and> listed m (log_prefix p) = set (log_keys p (length segs)) \<and>
     (\<forall>i<length segs. \<exists>e. m (log_key p (i + 1)) = Some (encode_segment (segs ! i), e)) \<and> (\<forall>s\<in>set segs. seg_ok s)"

definition segment_at :: "contents \<Rightarrow> string \<Rightarrow> nat \<Rightarrow> log_item list" where
  "segment_at m p i = (case m (log_key p i) of
     None \<Rightarrow> [] | Some (bs, tag) \<Rightarrow> (case decode_segment bs of Inl e \<Rightarrow> [] | Inr items \<Rightarrow> items))"

definition epoch_of :: "contents \<Rightarrow> string \<Rightarrow> nat" where
  "epoch_of m p = (case m (lease_key p) of
     None \<Rightarrow> 0 | Some (bs, tag) \<Rightarrow> if 8 \<le> length bs then le_decode (take 8 bs) else 0)"

lemma decode_seg_ok: "seg_ok s \<Longrightarrow> decode_segment (encode_segment s) = Inr s"
  by (simp add: seg_ok_def decode_segment_encode)

lemma log_repr_segment:
  assumes "log_repr m p segs" and "i < length segs"
  shows "segment_at m p (i + 1) = segs ! i"
proof -
  have "seg_ok (segs ! i)"
    using assms by (auto simp: log_repr_def)
  moreover obtain e where "m (log_key p (i + 1)) = Some (encode_segment (segs ! i), e)"
    using assms by (auto simp: log_repr_def)
  ultimately show ?thesis
    by (simp add: segment_at_def decode_seg_ok)
qed

lemma log_repr_segments:
  assumes "log_repr m p segs"
  shows "map (segment_at m p) [1..<length segs + 1] = segs"
proof (rule nth_equalityI)
  fix i assume "i < length (map (segment_at m p) [1..<length segs + 1])"
  then have i: "i < length segs" by (simp del: upt_Suc)
  then have "[1..<length segs + 1] ! i = i + 1" by (subst nth_upt) simp_all
  with log_repr_segment [OF assms i] i show "map (segment_at m p) [1..<length segs + 1] ! i = segs ! i"
    by (simp del: upt_Suc)
qed (simp del: upt_Suc)

lemma length_wal_entries: "length (wal_entries_from n items) \<le> length items"
  by (induction n items rule: wal_entries_from.induct) auto

lemma wal_entries_append:
  "wal_entries_from n (xs @ ys) = wal_entries_from n xs @ wal_entries_from (n + length xs) ys"
  by (induction n xs rule: wal_entries_from.induct) auto

lemma wal_entries_number: "wal_entries_from n (map Wal rs) = number_records n rs"
  by (induction rs arbitrary: n) (simp_all add: number_records_Cons)

lemma wal_entries_bounds:
  "e \<in> set (wal_entries_from n items) \<Longrightarrow> n \<le> le_lsn e \<and> le_lsn e < n + length items"
  by (induction n items rule: wal_entries_from.induct) auto

lemma wal_entries_sorted: "sorted_wrt (<) (map le_lsn (wal_entries_from n items))"
  by (induction n items rule: wal_entries_from.induct) (auto dest: wal_entries_bounds)

lemma foldl_scan_item:
  "foldl (scan_item a) (out, l) items = (out @ entries_after a (wal_entries_from (l + 1) items), l + length items)"
proof (induction items arbitrary: out l)
  case (Cons it items)
  then show ?case by (cases it) (auto simp: entries_after_def)
qed (simp add: entries_after_def)

lemma log_repr_cong:
  assumes "log_repr m p segs" and "\<And>k. starts_with (log_prefix p) k \<Longrightarrow> m' k = m k"
  shows "log_repr m' p segs"
proof -
  have "listed m' (log_prefix p) = listed m (log_prefix p)" "\<And>n. m' (log_key p n) = m (log_key p n)"
    using assms(2) by (auto simp: listed_def)
  with assms(1) show ?thesis by (simp add: log_repr_def)
qed

lemma log_repr_snoc:
  assumes "log_repr m p segs" and "seg_ok s" and "length segs + 1 < 2 ^ 64"
  shows "log_repr (m(log_key p (length segs + 1) \<mapsto> (encode_segment s, e))) p (segs @ [s])"
proof -
  let ?k = "log_key p (length segs + 1)"
  have "listed (m(?k \<mapsto> (encode_segment s, e))) (log_prefix p) = insert ?k (listed m (log_prefix p))"
    by (auto simp: listed_def)
  then have l: "listed (m(?k \<mapsto> (encode_segment s, e))) (log_prefix p) = set (log_keys p (length (segs @ [s])))"
    using assms(1) by (simp add: log_repr_def log_keys_def)
  have ne: "log_key p (i + 1) \<noteq> ?k" if "i < length segs" for i
    using that assms(3) log_key_inject [of "i + 1" "length segs + 1" p] by simp
  have "\<exists>t. (m(?k \<mapsto> (encode_segment s, e))) (log_key p (i + 1)) = Some (encode_segment ((segs @ [s]) ! i), t)"
    if "i < length (segs @ [s])" for i
    using that ne [of i] assms(1) by (cases "i < length segs") (auto simp: log_repr_def nth_append less_Suc_eq)
  with l assms show ?thesis
    by (auto simp: log_repr_def)
qed

lemma log_repr_free_slot:
  assumes "log_repr m p segs" and "length segs + 1 < 2 ^ 64"
  shows "m (log_key p (length segs + 1)) = None"
proof (rule ccontr)
  assume "m (log_key p (length segs + 1)) \<noteq> None"
  then have "log_key p (length segs + 1) \<in> set (log_keys p (length segs))"
    using assms(1) by (auto simp: log_repr_def listed_def)
  then obtain j where "1 \<le> j" "j < length segs + 1" "log_key p j = log_key p (length segs + 1)"
    by (auto simp: log_keys_def)
  with log_key_inject [of j "length segs + 1" p] assms(2) show False by simp
qed

section \<open>Actions that leave the contents alone\<close>

definition quiet :: "('o \<Rightarrow> bool) \<Rightarrow> ('o \<Rightarrow> contents) \<Rightarrow> 'o object_state \<Rightarrow> 'o object_state \<Rightarrow> bool" where
  "quiet ok obj st st' \<longleftrightarrow> st' = st\<lparr>o_store := o_store st'\<rparr> \<and> ok (o_store st') \<and>
     obj (o_store st') = obj (o_store st)"

lemma quiet_refl: "ok (o_store st) \<Longrightarrow> quiet ok obj st st"
  by (simp add: quiet_def)

lemma quiet_trans: "quiet ok obj a b \<Longrightarrow> quiet ok obj b c \<Longrightarrow> quiet ok obj a c"
  by (auto simp: quiet_def) (metis object_state.surjective object_state.update_convs(1))

lemma quiet_fields:
  assumes "quiet ok obj st st'"
  shows "ok (o_store st')" "obj (o_store st') = obj (o_store st)" "o_prefix st' = o_prefix st"
    "o_next_seq st' = o_next_seq st" "o_next_lsn st' = o_next_lsn st" "o_durable_lsn st' = o_durable_lsn st"
    "o_config st' = o_config st" "o_memtable st' = o_memtable st" "o_flushed_hw st' = o_flushed_hw st"
    "o_epoch st' = o_epoch st" "o_commit_lsn st' = o_commit_lsn st"
  using assms unfolding quiet_def by (metis object_state.select_convs object_state.surjective object_state.update_convs(1))+

lemma sbind_Inr: "m s = (Inr x, s1) \<Longrightarrow> sbind m f s = f x s1"
  by (simp add: sbind_def)

lemma sbind_Inl: "m s = (Inl e, s1) \<Longrightarrow> sbind m f s = (Inl e, s1)"
  by (simp add: sbind_def)

lemma sbind_cases:
  assumes "sbind m f s = (r, s')"
  obtains (err) e where "m s = (Inl e, s')" "r = Inl e"
    | (ok) x s1 where "m s = (Inr x, s1)" "f x s1 = (r, s')"
  using assms by (auto simp: sbind_def split: prod.splits sum.splits)

definition keys_hold :: "contents \<Rightarrow> string list \<Rightarrow> log_item list list \<Rightarrow> bool" where
  "keys_hold m ks segs \<longleftrightarrow> list_all2 (\<lambda>k s. (\<exists>e. m k = Some (encode_segment s, e)) \<and> seg_ok s) ks segs"

lemma log_repr_keys:
  assumes "log_repr m p segs"
  shows "keys_hold m (log_keys p (length segs)) segs"
proof -
  have "\<exists>e. m (log_keys p (length segs) ! i) = Some (encode_segment (segs ! i), e)" if "i < length segs" for i
  proof -
    have "log_keys p (length segs) ! i = log_key p (i + 1)"
      using that by (simp add: log_keys_def del: upt_Suc)
    with assms that show ?thesis by (simp add: log_repr_def)
  qed
  moreover have "length (log_keys p (length segs)) = length segs"
    by (simp add: log_keys_def del: upt_Suc)
  ultimately show ?thesis
    using assms by (auto simp: keys_hold_def list_all2_conv_all_nth log_repr_def)
qed

text \<open>The writer's view: its counters are those of the log in the bucket.\<close>

definition writer_rep :: "('o \<Rightarrow> bool) \<Rightarrow> ('o \<Rightarrow> contents) \<Rightarrow> log_item list list \<Rightarrow> 'o object_state \<Rightarrow> bool" where
  "writer_rep ok obj segs st \<longleftrightarrow> ok (o_store st) \<and> log_repr (obj (o_store st)) (o_prefix st) segs \<and>
     o_next_seq st = length segs + 1 \<and> o_next_lsn st = length (concat segs) + 1 \<and>
     o_durable_lsn st = length (concat segs)"

text \<open>Nothing of the log, the lease or the counters changed.\<close>

definition log_same :: "('o \<Rightarrow> bool) \<Rightarrow> ('o \<Rightarrow> contents) \<Rightarrow> 'o object_state \<Rightarrow> 'o object_state \<Rightarrow> bool" where
  "log_same ok obj st st' \<longleftrightarrow> ok (o_store st') \<and> o_prefix st' = o_prefix st \<and> o_config st' = o_config st \<and>
     o_next_seq st' = o_next_seq st \<and> o_next_lsn st' = o_next_lsn st \<and> o_durable_lsn st' = o_durable_lsn st \<and>
     (\<forall>k. starts_with (log_prefix (o_prefix st)) k \<or> k = lease_key (o_prefix st) \<longrightarrow>
        obj (o_store st') k = obj (o_store st) k)"

lemma log_same_writer: "writer_rep ok obj segs st \<Longrightarrow> log_same ok obj st st' \<Longrightarrow> writer_rep ok obj segs st'"
  by (auto simp: writer_rep_def log_same_def elim: log_repr_cong)

lemma log_same_epoch:
  "log_same ok obj st st' \<Longrightarrow> epoch_of (obj (o_store st')) (o_prefix st') = epoch_of (obj (o_store st)) (o_prefix st)"
  by (simp add: log_same_def epoch_of_def)

lemma quiet_log_same: "quiet ok obj st st' \<Longrightarrow> log_same ok obj st st'"
  using quiet_fields [of ok obj st st'] by (simp add: log_same_def)

lemma log_same_trans: "log_same ok obj a b \<Longrightarrow> log_same ok obj b c \<Longrightarrow> log_same ok obj a c"
  by (simp add: log_same_def)

lemma foldl_apply_item_fields:
  assumes "foldl apply_item (st, w) items = (st', w')"
  shows "o_store st' = o_store st \<and> o_prefix st' = o_prefix st \<and> o_config st' = o_config st \<and>
    o_next_lsn st' = o_next_lsn st + length items \<and> o_commit_lsn st' = o_commit_lsn st \<and>
    o_flushed_hw st' = o_flushed_hw st \<and> (w' \<longleftrightarrow> w \<or> (\<exists>b. Wal b \<in> set items))"
  using assms
proof (induction items arbitrary: st w)
  case (Cons it items)
  then show ?case by (cases it) (fastforce dest!: Cons.IH)+
qed simp

lemma commit_items_fields:
  assumes "items \<noteq> []"
  shows "o_store (commit_items items st) = o_store st" "o_prefix (commit_items items st) = o_prefix st"
    "o_config (commit_items items st) = o_config st" "o_next_seq (commit_items items st) = o_next_seq st + 1"
    "o_next_lsn (commit_items items st) = o_next_lsn st + length items"
    "o_durable_lsn (commit_items items st) = o_next_lsn st + length items - 1"
proof -
  obtain st1 w where f: "foldl apply_item (st, False) items = (st1, w)"
    by fastforce
  with foldl_apply_item_fields [OF f]
  show "o_store (commit_items items st) = o_store st" "o_prefix (commit_items items st) = o_prefix st"
    "o_config (commit_items items st) = o_config st" "o_next_seq (commit_items items st) = o_next_seq st + 1"
    "o_next_lsn (commit_items items st) = o_next_lsn st + length items"
    "o_durable_lsn (commit_items items st) = o_next_lsn st + length items - 1"
    by (simp_all add: commit_items_def Let_def)
qed

context cas_store
begin

lemma obj_get_quiet:
  assumes "ok (o_store st)" and "obj_get ops k st = (r, st')"
  shows "quiet ok obj st st' \<and> (\<forall>v. r = Inr v \<longrightarrow> v = obj (o_store st) k)"
proof -
  obtain r0 q where "os_get ops (o_store st) k = (r0, q)"
    by fastforce
  with get_spec [OF assms(1) this] assms(2) show ?thesis
    by (auto simp: obj_get_def obj_mapped_def obj_call_def quiet_def split: sum.splits)
qed

lemma obj_list_quiet:
  assumes "ok (o_store st)" and "obj_list ops p st = (r, st')"
  shows "quiet ok obj st st' \<and> (\<forall>ks. r = Inr ks \<longrightarrow> distinct ks \<and> set ks = listed (obj (o_store st)) p)"
proof -
  obtain r0 q where "os_list ops (o_store st) p = (r0, q)"
    by fastforce
  with list_spec [OF assms(1) this] assms(2) show ?thesis
    by (auto simp: obj_list_def obj_mapped_def obj_call_def quiet_def split: sum.splits)
qed

lemma durable_epoch_quiet:
  assumes "ok (o_store st)" and "durable_epoch ops st = (r, st')"
  shows "quiet ok obj st st' \<and> (\<forall>e t. r = Inr (e, t) \<longrightarrow>
    e = epoch_of (obj (o_store st)) (o_prefix st) \<and> t = map_option snd (obj (o_store st) (lease_key (o_prefix st))))"
proof -
  obtain g st1 where g: "obj_get ops (lease_key (o_prefix st)) st = (g, st1)"
    by fastforce
  with obj_get_quiet [OF assms(1) g] assms(2) show ?thesis
    by (cases g) (auto simp: durable_epoch_def sbind_def sget_def sret_def epoch_of_def split: option.splits)
qed

lemma check_fence_quiet:
  assumes "ok (o_store st)" and "object_check_fence ops tok st = (r, st')"
  shows "quiet ok obj st st' \<and> (r = Inr () \<longrightarrow> ft_epoch tok = epoch_of (obj (o_store st)) (o_prefix st))"
proof -
  obtain g st1 where g: "durable_epoch ops st = (g, st1)"
    by fastforce
  with durable_epoch_quiet [OF assms(1) g] assms(2) show ?thesis
    by (cases g) (auto simp: object_check_fence_def sbind_def sret_def sfail_def split: if_splits)
qed

lemma read_segment_quiet:
  assumes "ok (o_store st)" and "read_segment ops k st = (r, st')"
    and "obj (o_store st) k = Some (encode_segment s, e)" and "seg_ok s"
  shows "quiet ok obj st st' \<and> (\<forall>items. r = Inr items \<longrightarrow> items = s)"
proof -
  obtain g st1 where g: "obj_get ops k st = (g, st1)"
    by fastforce
  with obj_get_quiet [OF assms(1) g] assms(2-4) show ?thesis
    by (cases g) (auto simp: read_segment_def sbind_def sret_def decode_seg_ok)
qed

lemma read_log_segments:
  assumes "ok (o_store st)" and "keys_hold (obj (o_store st)) ks segs"
    and "sfold (\<lambda>k acc. sbind (read_segment ops k) (\<lambda>items. sret (F k acc items))) ks acc st = (r, st')"
  shows "quiet ok obj st st' \<and> (\<forall>b. r = Inr b \<longrightarrow> b = foldl (\<lambda>a (k, s). F k a s) acc (zip ks segs))"
  using assms
proof (induction ks arbitrary: segs acc st)
  case Nil
  then show ?case by (auto simp: sret_def quiet_refl)
next
  case (Cons k ks)
  then obtain s ss e where segs: "segs = s # ss" "obj (o_store st) k = Some (encode_segment s, e)" "seg_ok s"
      "keys_hold (obj (o_store st)) ks ss"
    by (auto simp: keys_hold_def list_all2_Cons1)
  obtain g st1 where g: "read_segment ops k st = (g, st1)"
    by fastforce
  have q: "quiet ok obj st st1" "\<forall>items. g = Inr items \<longrightarrow> items = s"
    using read_segment_quiet [OF Cons.prems(1) g segs(2,3)] by auto
  show ?case
  proof (cases g)
    case (Inl er)
    with Cons.prems(3) g q show ?thesis by (auto simp: sbind_def)
  next
    case (Inr items)
    define G where "G = (\<lambda>k acc. sbind (read_segment ops k) (\<lambda>items. sret (F k acc items)))"
    have "G k acc st = (Inr (F k acc s), st1)"
      using Inr g q(2) by (simp add: G_def sbind_Inr sret_def)
    then have "sfold G ks (F k acc s) st1 = (r, st')"
      using Cons.prems(3) unfolding G_def [symmetric] by (simp add: sbind_Inr)
    then have rest: "sfold (\<lambda>k acc. sbind (read_segment ops k) (\<lambda>items. sret (F k acc items))) ks (F k acc s) st1 = (r, st')"
      unfolding G_def .
    from Cons.IH [OF _ _ rest, of ss] quiet_fields [OF q(1)] segs(4)
    have "quiet ok obj st1 st' \<and> (\<forall>b. r = Inr b \<longrightarrow> b = foldl (\<lambda>a (k, s). F k a s) (F k acc s) (zip ks ss))"
      by simp
    with q(1) segs(1) show ?thesis by (auto intro: quiet_trans)
  qed
qed

lemma foldl_zip_snd: "length ks = length ss \<Longrightarrow> foldl (\<lambda>a (k, s). foldl f a s) acc (zip ks ss) = foldl f acc (concat ss)"
  by (induction ks ss arbitrary: acc rule: list_induct2) auto

lemma object_scan_log:
  assumes "ok (o_store st)" and "log_repr (obj (o_store st)) (o_prefix st) segs"
    and "object_scan_wal ops st a = (r, st')"
  shows "quiet ok obj st st' \<and> (\<forall>es. r = Inr es \<longrightarrow> es = entries_after a (wal_entries_from 1 (concat segs)))"
proof -
  let ?p = "o_prefix st" and ?m = "obj (o_store st)"
  obtain g st1 where g: "obj_list ops (log_prefix ?p) st = (g, st1)"
    by fastforce
  have q: "quiet ok obj st st1"
    using obj_list_quiet [OF assms(1) g] by blast
  show ?thesis
  proof (cases g)
    case (Inl e)
    with g assms(3) q show ?thesis by (auto simp: object_scan_wal_def sbind_def)
  next
    case (Inr ks)
    then have "sort ks = log_keys ?p (length segs)"
      using obj_list_quiet [OF assms(1) g] assms(2) by (intro sort_log_keys) (auto simp: log_repr_def)
    moreover obtain b st2 where f: "sfold (\<lambda>k acc. sbind (read_segment ops k) (\<lambda>items. sret (foldl (scan_item a) acc items)))
        (log_keys ?p (length segs)) ([], 0) st1 = (b, st2)"
      by fastforce
    ultimately have res: "(r, st') = (case b of Inl e \<Rightarrow> (Inl e, st2) | Inr (out, l) \<Rightarrow> (Inr out, st2))"
      using assms(3) g Inr by (simp add: object_scan_wal_def sbind_def sret_def split: sum.splits prod.splits)
    have kh: "keys_hold (obj (o_store st1)) (log_keys ?p (length segs)) segs"
      using quiet_fields [OF q] log_repr_keys [OF assms(2)] by simp
    have len: "length (log_keys ?p (length segs)) = length segs"
      by (simp add: log_keys_def del: upt_Suc)
    have "quiet ok obj st1 st2" "\<forall>c. b = Inr c \<longrightarrow> c = foldl (scan_item a) ([], 0) (concat segs)"
      using read_log_segments [OF quiet_fields(1) [OF q] kh f] foldl_zip_snd [OF len] by auto
    with res q show ?thesis
      by (cases b) (auto simp: foldl_scan_item intro: quiet_trans)
  qed
qed

lemma append_loop_free:
  assumes "ok (o_store st)" and "obj (o_store st) (log_key (o_prefix st) (o_next_seq st)) = None"
    and "append_loop ops tok bs n st = (Inr u, st')"
  shows "\<exists>q e. st' = st\<lparr>o_store := q\<rparr> \<and> ok q \<and>
    obj q = (obj (o_store st))(log_key (o_prefix st) (o_next_seq st) \<mapsto> (bs, e))"
proof -
  let ?k = "log_key (o_prefix st) (o_next_seq st)"
  obtain r q where c: "os_put_if_absent ops (o_store st) ?k bs = (r, q)"
    by fastforce
  have sp: "ok q" "\<forall>e. r = Inr e \<longrightarrow> obj q = (obj (o_store st))(?k \<mapsto> (bs, e))" "r \<noteq> Inl OPrecondition"
    using put_if_absent_spec [OF assms(1) c] assms(2) by auto
  show ?thesis
  proof (cases r)
    case (Inl e)
    then show ?thesis
      using assms(3) c sp(3)
      by (subst (asm) append_loop.simps) (cases e; simp add: obj_put_if_absent_def obj_call_def)
  next
    case (Inr e)
    then have "st' = st\<lparr>o_store := q\<rparr>"
      using assms(3) c by (subst (asm) append_loop.simps) (simp add: obj_put_if_absent_def obj_call_def)
    with sp Inr show ?thesis by blast
  qed
qed

lemma flush_log_same:
  assumes "ok (o_store st)" and "flush_locked ops st = (r, st')"
  shows "log_same ok obj st st'"
proof (cases "o_memtable st = []")
  case True
  with assms show ?thesis by (auto simp: flush_locked_def log_same_def)
next
  case False
  let ?k = "delta_key (o_prefix st) (o_flushed_hw st + 1) (o_durable_lsn st)"
  define bs where "bs = encode_delta (map (\<lambda>((pid, lsn), im). \<lparr>pr_page_id = pid, pr_lsn = lsn, pr_image = im\<rparr>) (o_memtable st))"
  obtain r0 q where c: "os_put_if_absent ops (o_store st) ?k bs = (r0, q)"
    by fastforce
  have sp: "ok q" "obj q = obj (o_store st) \<or> put_done (obj (o_store st)) ?k bs (obj q)"
    using put_if_absent_spec [OF assms(1) c] by auto
  have "starts_with (log_prefix (o_prefix st)) k \<or> k = lease_key (o_prefix st) \<Longrightarrow> obj q k = obj (o_store st) k" for k
    using sp(2) by (auto simp: put_done_def)
  moreover have "o_store st' = q \<and> o_prefix st' = o_prefix st \<and> o_config st' = o_config st \<and>
      o_next_seq st' = o_next_seq st \<and> o_next_lsn st' = o_next_lsn st \<and> o_durable_lsn st' = o_durable_lsn st"
    using assms(2) False c
    by (cases r0) (auto simp: flush_locked_def obj_put_if_absent_def obj_call_def Let_def bs_def)
  ultimately show ?thesis
    using sp(1) by (simp add: log_same_def)
qed

lemma append_segment_ok:
  assumes rep: "writer_rep ok obj segs st" and items: "seg_ok items" "items \<noteq> []" "length segs + 1 < 2 ^ 64"
    and app: "append_segment ops tok items st = (Inr l, st')"
  shows "ft_epoch tok = epoch_of (obj (o_store st)) (o_prefix st) \<and> writer_rep ok obj (segs @ [items]) st' \<and>
    l = length (concat segs) + length items \<and> o_prefix st' = o_prefix st \<and>
    epoch_of (obj (o_store st')) (o_prefix st') = epoch_of (obj (o_store st)) (o_prefix st)"
proof -
  obtain r0 st0 where f: "object_check_fence ops tok st = (r0, st0)"
    by fastforce
  have q: "quiet ok obj st st0"
    using check_fence_quiet [OF _ f] rep by (simp add: writer_rep_def)
  obtain r1 st1 where a: "append_loop ops tok (encode_segment items) (cas_max_retries (o_config st0)) st0 = (r1, st1)"
    by fastforce
  obtain r2 st2 where fl: "(if flush_threshold_bytes (o_config (commit_items items st1)) \<le> o_memtable_bytes (commit_items items st1)
      then flush_locked ops else sret ()) (commit_items items st1) = (r2, st2)"
    by fastforce
  have r: "r0 = Inr ()" "r1 = Inr ()" "st' = st2" "l = o_durable_lsn (commit_items items st1)"
    using app f a fl
    by (cases r0; cases r1; cases r2; simp add: append_segment_def sbind_def sget_def smodify_def sret_def [of l] split: if_splits;
        simp add: sret_def)+
  have tok: "ft_epoch tok = epoch_of (obj (o_store st)) (o_prefix st)"
    using check_fence_quiet [OF _ f] rep r(1) by (simp add: writer_rep_def)
  have rep0: "writer_rep ok obj segs st0"
    using log_same_writer [OF rep quiet_log_same [OF q]] .
  then obtain q1 e where st1: "st1 = st0\<lparr>o_store := q1\<rparr>" "ok q1"
      "obj q1 = (obj (o_store st0))(log_key (o_prefix st0) (o_next_seq st0) \<mapsto> (encode_segment items, e))"
    using append_loop_free [of st0 tok "encode_segment items"] a r(2) log_repr_free_slot [of "obj (o_store st0)" "o_prefix st0" segs] items(3)
    by (fastforce simp: writer_rep_def)
  have repr: "log_repr (obj q1) (o_prefix st0) (segs @ [items])"
    unfolding st1(3) using rep0 log_repr_snoc [of "obj (o_store st0)" "o_prefix st0" segs items] items(1,3)
    by (simp add: writer_rep_def)
  note cf = commit_items_fields [OF items(2)]
  have rep1: "writer_rep ok obj (segs @ [items]) (commit_items items st1)"
    using rep0 repr st1 by (simp add: writer_rep_def cf)
  have same: "log_same ok obj (commit_items items st1) st2"
    using fl flush_log_same [of "commit_items items st1" r2 st2] rep1
    by (auto simp: sret_def writer_rep_def log_same_def split: if_splits)
  have "epoch_of (obj (o_store (commit_items items st1))) (o_prefix (commit_items items st1)) = epoch_of (obj (o_store st)) (o_prefix st)"
    using quiet_fields [OF q] by (simp add: cf st1 epoch_of_def)
  then show ?thesis
    using tok log_same_writer [OF rep1 same] log_same_epoch [OF same] r rep0 same quiet_fields [OF q]
    by (auto simp: cf st1 writer_rep_def log_same_def)
qed

text \<open>The lease write that follows a read of the lease is never refused: only a fault stops it.\<close>

lemma write_lease_ok:
  assumes "ok (o_store st)" and "t = map_option snd (obj (o_store st) (lease_key (o_prefix st)))"
    and "write_lease ops t bs st = (r, st')"
  shows "r \<noteq> Inl OPrecondition \<and> ok (o_store st') \<and> st' = st\<lparr>o_store := o_store st'\<rparr> \<and>
    (\<forall>e. r = Inr e \<longrightarrow> obj (o_store st') = (obj (o_store st))(lease_key (o_prefix st) \<mapsto> (bs, e)))"
proof (cases "obj (o_store st) (lease_key (o_prefix st))")
  case None
  obtain r0 q where "os_put_if_absent ops (o_store st) (lease_key (o_prefix st)) bs = (r0, q)"
    by fastforce
  with put_if_absent_spec [OF assms(1) this] assms(2,3) None show ?thesis
    by (auto simp: write_lease_def obj_call_def)
next
  case (Some v)
  obtain r0 q where "os_put_if_match ops (o_store st) (lease_key (o_prefix st)) bs (snd v) = (r0, q)"
    by fastforce
  with put_if_match_spec [OF assms(1) this] assms(2,3) Some show ?thesis
    by (cases v) (auto simp: write_lease_def obj_call_def)
qed

lemma acquire_loop_ok:
  assumes "ok (o_store st)" and "Suc (epoch_of (obj (o_store st)) (o_prefix st)) < 2 ^ 64"
    and "acquire_loop ops now owner n st = (Inr tok, st')"
  shows "ft_epoch tok = Suc (epoch_of (obj (o_store st)) (o_prefix st)) \<and>
    (\<exists>q v. st' = st\<lparr>o_store := q, o_epoch := ft_epoch tok\<rparr> \<and> ok q \<and>
      obj q = (obj (o_store st))(lease_key (o_prefix st) \<mapsto> v) \<and> epoch_of (obj q) (o_prefix st) = ft_epoch tok)"
proof -
  obtain g st1 where g: "durable_epoch ops st = (g, st1)"
    by fastforce
  obtain e t where et: "g = Inr (e, t)"
    using assms(3) g by (cases g) (auto simp: acquire_loop.simps)
  have q: "quiet ok obj st st1" and e: "e = epoch_of (obj (o_store st)) (o_prefix st)"
    and t: "t = map_option snd (obj (o_store st1) (lease_key (o_prefix st1)))"
    using durable_epoch_quiet [OF assms(1) g] et quiet_fields [of ok obj st st1] by auto
  let ?bs = "encode_lease (e + 1) owner (now + LEASE_MS)"
  obtain r st2 where w: "write_lease ops t ?bs st1 = (r, st2)"
    by fastforce
  note wl = write_lease_ok [OF quiet_fields(1) [OF q] t w]
  obtain v where v: "r = Inr v"
    using assms(3) g et w wl by (subst (asm) acquire_loop.simps) (cases r; auto split: object_error.splits)
  have res: "tok = \<lparr>ft_epoch = e + 1, ft_owner = owner, ft_lease_until = now + LEASE_MS\<rparr>"
      "st' = st2\<lparr>o_epoch := e + 1\<rparr>"
    using assms(3) g et w v by (subst (asm) acquire_loop.simps, simp)+
  have "take 8 ?bs = le_encode 8 (e + 1)"
    by (simp add: encode_lease_def)
  moreover have "8 \<le> length ?bs"
    by (simp add: encode_lease_def)
  moreover have obj: "obj (o_store st2) = (obj (o_store st))(lease_key (o_prefix st) \<mapsto> (?bs, v))"
    using wl v quiet_fields [OF q] by simp
  ultimately have ep: "epoch_of (obj (o_store st2)) (o_prefix st) = e + 1"
    using assms(2) e by (simp add: epoch_of_def)
  have st1: "st1 = st\<lparr>o_store := o_store st1\<rparr>" and st2: "st2 = st1\<lparr>o_store := o_store st2\<rparr>"
    using q wl by (auto simp: quiet_def)
  have "st2 = st\<lparr>o_store := o_store st2\<rparr>"
    using arg_cong [OF st1, of "\<lambda>x. x\<lparr>o_store := o_store st2\<rparr>"] st2 by simp
  then obtain q2 where q2: "st2 = st\<lparr>o_store := q2\<rparr>" by blast
  have "ok q2" "obj q2 = (obj (o_store st))(lease_key (o_prefix st) \<mapsto> (?bs, v))"
      "epoch_of (obj q2) (o_prefix st) = ft_epoch tok" "st' = st\<lparr>o_store := q2, o_epoch := ft_epoch tok\<rparr>"
    using wl obj ep by (simp_all add: q2 res)
  moreover have "ft_epoch tok = Suc (epoch_of (obj (o_store st)) (o_prefix st))"
    by (simp add: res e)
  ultimately show ?thesis by blast
qed

lemma acquire_writer:
  assumes "writer_rep ok obj segs st" and "Suc (epoch_of (obj (o_store st)) (o_prefix st)) < 2 ^ 64"
    and "object_acquire_fence ops st now owner = (Inr tok, st')"
  shows "writer_rep ok obj segs st' \<and> ft_epoch tok = Suc (epoch_of (obj (o_store st)) (o_prefix st)) \<and>
    epoch_of (obj (o_store st')) (o_prefix st') = ft_epoch tok \<and> o_prefix st' = o_prefix st \<and>
    o_next_seq st' = o_next_seq st \<and> o_next_lsn st' = o_next_lsn st"
proof -
  have ok: "ok (o_store st)"
    using assms(1) by (simp add: writer_rep_def)
  from acquire_loop_ok [OF ok assms(2) assms(3) [unfolded object_acquire_fence_def]]
  obtain q v where a: "ft_epoch tok = Suc (epoch_of (obj (o_store st)) (o_prefix st))"
      "st' = st\<lparr>o_store := q, o_epoch := ft_epoch tok\<rparr>" "ok q"
      "obj q = (obj (o_store st))(lease_key (o_prefix st) \<mapsto> v)" "epoch_of (obj q) (o_prefix st) = ft_epoch tok"
    by blast
  have "log_repr (obj q) (o_prefix st) segs"
  proof (rule log_repr_cong)
    show "log_repr (obj (o_store st)) (o_prefix st) segs"
      using assms(1) by (simp add: writer_rep_def)
  qed (use a(4) in auto)
  then have "writer_rep ok obj segs st'"
    unfolding a(2) using assms(1) a(3) by (simp add: writer_rep_def)
  then show ?thesis
    using a(1,5) by (simp add: a(2))
qed

end

end
