(* ===== verification/Object_Contract.thy ===== *)
theory Object_Contract
  imports Append_Faults Object_Log
begin

text \<open>
  What \<^verbatim>\<open>ObjectStorage\<close> promises: the append contract of the seam over every object client
  that keeps \<open>cas_store\<close>, with the in-memory client, the Worker binding and the
  fault-injecting client as instances; the fence between two handles on one bucket; and the
  case where a retried append is acknowledged under a wrong LSN.
\<close>

section \<open>The append contract\<close>

definition object_hist :: "('o \<Rightarrow> contents) \<Rightarrow> 'o object_state \<Rightarrow> log_entry list" where
  "object_hist obj st = wal_entries_from 1
     (concat (map (segment_at (obj (o_store st)) (o_prefix st)) [1..<o_next_seq st]))"

definition object_ok :: "('o \<Rightarrow> bool) \<Rightarrow> ('o \<Rightarrow> contents) \<Rightarrow> 'o object_state \<Rightarrow> bool" where
  "object_ok ok obj st \<longleftrightarrow> (\<exists>segs. writer_rep ok obj segs st)"

definition object_epoch :: "('o \<Rightarrow> contents) \<Rightarrow> 'o object_state \<Rightarrow> nat" where
  "object_epoch obj st = epoch_of (obj (o_store st)) (o_prefix st)"

definition object_fits :: "'o object_state \<Rightarrow> wal_record list \<Rightarrow> bool" where
  "object_fits st rs \<longleftrightarrow> seg_ok (map Wal rs) \<and> o_next_seq st < 2 ^ 64"

lemma writer_rep_hist:
  assumes "writer_rep ok obj segs st"
  shows "object_hist obj st = wal_entries_from 1 (concat segs)"
  using assms log_repr_segments [of "obj (o_store st)" "o_prefix st" segs]
  by (simp add: object_hist_def writer_rep_def)

context cas_store
begin

lemma object_scan_exact:
  assumes "object_ok ok obj st" and "object_scan_wal ops st a = (Inr es, st')"
  shows "es = entries_after a (object_hist obj st)"
proof -
  obtain segs where w: "writer_rep ok obj segs st"
    using assms(1) by (auto simp: object_ok_def)
  then have "ok (o_store st)" "log_repr (obj (o_store st)) (o_prefix st) segs"
    by (auto simp: writer_rep_def)
  from object_scan_log [OF this assms(2)] writer_rep_hist [OF w] show ?thesis by simp
qed

lemma object_append_exact:
  assumes "object_ok ok obj st" and "object_fits st rs" and "object_append_wal ops st tok rs = (Inr l, st')"
  shows "rs \<noteq> [] \<and> ft_epoch tok = object_epoch obj st \<and> object_ok ok obj st' \<and>
    l = o_next_lsn st + length rs - 1 \<and>
    object_hist obj st' = object_hist obj st @ number_records (o_next_lsn st) rs \<and>
    o_next_lsn st' = o_next_lsn st + length rs \<and> object_epoch obj st' = object_epoch obj st"
proof -
  obtain segs where w: "writer_rep ok obj segs st"
    using assms(1) by (auto simp: object_ok_def)
  have rs: "rs \<noteq> []" and app: "append_segment ops tok (map Wal rs) st = (Inr l, st')"
    using assms(3) by (auto simp: object_append_wal_def split: if_splits)
  have n: "length segs + 1 < 2 ^ 64" "o_next_lsn st = length (concat segs) + 1"
    using w assms(2) by (auto simp: writer_rep_def object_fits_def)
  have a: "ft_epoch tok = object_epoch obj st" "writer_rep ok obj (segs @ [map Wal rs]) st'"
      "l = length (concat segs) + length rs" "object_epoch obj st' = object_epoch obj st"
    using append_segment_ok [OF w _ _ n(1) app] assms(2) rs by (auto simp: object_fits_def object_epoch_def)
  have "object_hist obj st' = object_hist obj st @ number_records (o_next_lsn st) rs"
    using writer_rep_hist [OF a(2)] writer_rep_hist [OF w] n(2) by (simp add: wal_entries_append wal_entries_number)
  moreover have "o_next_lsn st' = o_next_lsn st + length rs"
    using a(2) n(2) by (simp add: writer_rep_def)
  ultimately show ?thesis
    using a rs n(2) by (auto simp: object_ok_def)
qed

lemma object_append_fenced:
  assumes "ok (o_store st)" and "ft_epoch tok \<noteq> object_epoch obj st" and "append_segment ops tok items st = (r, st')"
  shows "isl r \<and> quiet ok obj st st'"
proof -
  obtain r0 st0 where f: "object_check_fence ops tok st = (r0, st0)"
    by fastforce
  have "quiet ok obj st st0" "r0 \<noteq> Inr ()"
    using check_fence_quiet [OF assms(1) f] assms(2) by (auto simp: object_epoch_def)
  with assms(3) f show ?thesis
    by (cases r0) (auto simp: append_segment_def sbind_def)
qed

lemma object_wal_storage:
  "wal_storage (object_storage ops) (object_ok ok obj) (object_hist obj) o_next_lsn (object_epoch obj) object_fits"
proof
  fix s :: "'o object_state" and e
  assume "object_ok ok obj s"
  then obtain segs where w: "writer_rep ok obj segs s"
    by (auto simp: object_ok_def)
  show "0 < o_next_lsn s"
    using w by (simp add: writer_rep_def)
  show "sorted_wrt (<) (map le_lsn (object_hist obj s))"
    by (simp add: writer_rep_hist [OF w] wal_entries_sorted)
  show "0 < le_lsn e \<and> le_lsn e < o_next_lsn s" if "e \<in> set (object_hist obj s)"
    using that wal_entries_bounds [of e 1 "concat segs"] w by (simp add: writer_rep_hist [OF w] writer_rep_def)
next
  fix s :: "'o object_state" and a es s'
  assume "object_ok ok obj s" "st_scan_wal (object_storage ops) s a = (Inr es, s')"
  then show "es = entries_after a (object_hist obj s)"
    using object_scan_exact by (simp add: object_storage_def)
next
  fix s :: "'o object_state" and rs and tok :: fence_token and l s'
  assume "object_ok ok obj s" "object_fits s rs" "st_append_wal (object_storage ops) s tok rs = (Inr l, s')"
  then show "rs \<noteq> [] \<and> ft_epoch tok = object_epoch obj s \<and> object_ok ok obj s' \<and> l = o_next_lsn s + length rs - 1 \<and>
      object_hist obj s' = object_hist obj s @ number_records (o_next_lsn s) rs \<and>
      o_next_lsn s' = o_next_lsn s + length rs \<and> object_epoch obj s' = object_epoch obj s"
    using object_append_exact [of s rs tok l s'] by (simp add: object_storage_def)
next
  fix s :: "'o object_state" and tok :: fence_token and rs :: "wal_record list"
  assume ok: "object_ok ok obj s" and ne: "ft_epoch tok \<noteq> object_epoch obj s"
  obtain r s' where a: "append_segment ops tok (map Wal rs) s = (r, s')"
    by fastforce
  have "isl r"
    using object_append_fenced [OF _ ne a] ok by (auto simp: object_ok_def writer_rep_def)
  with a show "isl (fst (st_append_wal (object_storage ops) s tok rs))"
    by (simp add: object_storage_def object_append_wal_def)
next
  fix s :: "'o object_state" and now owner and tok :: fence_token and s'
  assume ok: "object_ok ok obj s" and e: "Suc (object_epoch obj s) < 2 ^ 64"
    and a: "st_acquire_fence (object_storage ops) s now owner = (Inr tok, s')"
  obtain segs where w: "writer_rep ok obj segs s"
    using ok by (auto simp: object_ok_def)
  have q: "writer_rep ok obj segs s'" "ft_epoch tok = Suc (object_epoch obj s)" "object_epoch obj s' = ft_epoch tok"
      "o_next_lsn s' = o_next_lsn s"
    using acquire_writer [OF w _ a [unfolded object_storage_def, simplified]] e by (auto simp: object_epoch_def)
  then show "object_ok ok obj s' \<and> ft_epoch tok = Suc (object_epoch obj s) \<and> object_epoch obj s' = ft_epoch tok \<and>
      object_hist obj s' = object_hist obj s \<and> o_next_lsn s' = o_next_lsn s"
    using writer_rep_hist [OF w] writer_rep_hist [OF q(1)] by (auto simp: object_ok_def)
qed

text \<open>A failed append that left the bucket as it was left the handle in sync with it: after a put
  that took effect the segment stays in its slot, whatever the flush behind it does.\<close>

lemma append_loop_failed:
  assumes "ok (o_store st)" and "obj (o_store st) (log_key (o_prefix st) (o_next_seq st)) = None"
    and "append_loop ops tok bs n st = (Inl e, st')"
  shows "st' = st\<lparr>o_store := o_store st'\<rparr> \<and> ok (o_store st')"
proof -
  obtain r q where c: "os_put_if_absent ops (o_store st) (log_key (o_prefix st) (o_next_seq st)) bs = (r, q)"
    by fastforce
  have "ok q" "r \<noteq> Inl OPrecondition"
    using put_if_absent_spec [OF assms(1) c] assms(2) by auto
  with assms(3) c show ?thesis
    by (subst (asm) append_loop.simps)
      (auto simp: obj_put_if_absent_def obj_call_def split: sum.splits object_error.splits)
qed

lemma append_segment_failed:
  assumes w: "writer_rep ok obj segs st" and "items \<noteq> []" and "length segs + 1 < 2 ^ 64"
    and app: "append_segment ops tok items st = (Inl e, st')" and same: "obj (o_store st') = obj (o_store st)"
  shows "writer_rep ok obj segs st'"
proof -
  let ?k = "log_key (o_prefix st) (o_next_seq st)"
  obtain r0 st0 where f: "object_check_fence ops tok st = (r0, st0)" by fastforce
  have q: "quiet ok obj st st0" using check_fence_quiet [OF _ f] w by (simp add: writer_rep_def)
  note qf = quiet_fields [OF q]
  have rep0: "writer_rep ok obj segs st0" using log_same_writer [OF w quiet_log_same [OF q]] .
  obtain r1 st1 where a: "append_loop ops tok (encode_segment items) (cas_max_retries (o_config st0)) st0 = (r1, st1)" by fastforce
  have free: "obj (o_store st0) (log_key (o_prefix st0) (o_next_seq st0)) = None"
    using log_repr_free_slot [of "obj (o_store st0)" "o_prefix st0" segs] rep0 assms(3) by (simp add: writer_rep_def)
  have ok0: "ok (o_store st0)" using rep0 by (simp add: writer_rep_def)
  show ?thesis
  proof (cases r0)
    case (Inl e0)
    with app f have "st' = st0" by (simp add: append_segment_def sbind_def)
    with rep0 show ?thesis by simp
  next
    case r0: (Inr u)
    show ?thesis
    proof (cases r1)
      case (Inl e1)
      with app f a r0 have st': "st' = st1" by (simp add: append_segment_def sbind_def sget_def)
      obtain "st1 = st0\<lparr>o_store := o_store st1\<rparr>" "ok (o_store st1)"
        using append_loop_failed [OF ok0 free, of tok _ _ e1 st1] a Inl by blast
      then show ?thesis
        using rep0 same qf st' unfolding writer_rep_def
        by (metis object_state.select_convs object_state.surjective object_state.update_convs(1))
    next
      case (Inr u1)
      obtain r2 st2 where fl: "(if flush_threshold_bytes (o_config (commit_items items st1)) \<le> o_memtable_bytes (commit_items items st1)
          then flush_locked ops else sret ()) (commit_items items st1) = (r2, st2)" by fastforce
      have st': "st' = st2"
        using app f a fl r0 Inr
        by (cases r2; simp add: append_segment_def sbind_def sget_def smodify_def split: if_splits; simp add: sret_def)
      obtain q1 t where st1: "st1 = st0\<lparr>o_store := q1\<rparr>" "ok q1"
          "obj q1 = (obj (o_store st0))(log_key (o_prefix st0) (o_next_seq st0) \<mapsto> (encode_segment items, t))"
        using append_loop_free [OF ok0 free] a Inr by blast
      have "ok (o_store (commit_items items st1))" using st1 by (simp add: commit_items_fields [OF assms(2)])
      with fl have "log_same ok obj (commit_items items st1) st2"
        using flush_log_same [of "commit_items items st1" r2 st2] quiet_log_same [OF quiet_refl, of ok "commit_items items st1" obj]
        by (auto simp: sret_def split: if_splits)
      then have "obj (o_store st2) (log_key (o_prefix st0) (o_next_seq st0)) = Some (encode_segment items, t)"
        using st1 by (simp add: log_same_def commit_items_fields [OF assms(2)])
      with same free qf st' show ?thesis by simp
    qed
  qed
qed

lemma object_append_failed:
  assumes "object_ok ok obj st" and "object_append_wal ops st tok rs = (Inl e, st')"
    and "obj (o_store st') = obj (o_store st)" and "o_next_seq st < 2 ^ 64"
  shows "object_ok ok obj st' \<and> object_hist obj st' = object_hist obj st \<and> o_next_lsn st' = o_next_lsn st"
proof -
  obtain segs where w: "writer_rep ok obj segs st" using assms(1) by (auto simp: object_ok_def)
  have "writer_rep ok obj segs st'"
  proof (cases "rs = []")
    case True
    with assms(2) w show ?thesis by (simp add: object_append_wal_def)
  next
    case False
    with assms w show ?thesis
      by (intro append_segment_failed [OF w _ _ _ assms(3), of "map Wal rs" tok e]) (simp_all add: object_append_wal_def writer_rep_def)
  qed
  with writer_rep_hist [OF this] writer_rep_hist [OF w] w show ?thesis by (auto simp: object_ok_def writer_rep_def)
qed

end

interpretation mem_wal: wal_storage "object_storage mem_object_store" "object_ok mem_ok mem_obj"
    "object_hist mem_obj" o_next_lsn "object_epoch mem_obj" object_fits
  by (rule mem_cas.object_wal_storage)

interpretation binding_wal: wal_storage "object_storage (binding_object_store mem_binding_host)" "object_ok mb_ok mb_obj"
    "object_hist mb_obj" o_next_lsn "object_epoch mb_obj" object_fits
  by (rule binding_cas.object_wal_storage)

interpretation fault_wal: wal_storage "object_storage (fault_object_store mem_object_store)"
    "object_ok (\<lambda>s. mem_ok (fs_inner s)) (\<lambda>s. mem_obj (fs_inner s))"
    "object_hist (\<lambda>s. mem_obj (fs_inner s))" o_next_lsn "object_epoch (\<lambda>s. mem_obj (fs_inner s))" object_fits
  by (rule fault_mem_cas.object_wal_storage)

section \<open>Acknowledged appends\<close>

text \<open>A database just created in an empty bucket, and a token of the epoch before any lease.\<close>

text \<open>The bucket is the one it was.  Segment numbers are 64-bit.\<close>

definition bucket_untouched :: "('o \<Rightarrow> contents) \<Rightarrow> 'o object_state \<Rightarrow> 'o object_state \<Rightarrow> bool" where
  "bucket_untouched obj st st' \<longleftrightarrow> obj (o_store st') = obj (o_store st) \<and> o_next_seq st < 2 ^ 64"

interpretation fault_faults: wal_faults "object_storage (fault_object_store mem_object_store)"
    "object_ok (\<lambda>s. mem_ok (fs_inner s)) (\<lambda>s. mem_obj (fs_inner s))" "object_hist (\<lambda>s. mem_obj (fs_inner s))"
    o_next_lsn "object_epoch (\<lambda>s. mem_obj (fs_inner s))" object_fits "bucket_untouched (\<lambda>s. mem_obj (fs_inner s))"
  by unfold_locales
    (use fault_mem_cas.object_append_failed in \<open>fastforce simp: object_storage_def bucket_untouched_def\<close>)

definition fresh_bucket :: "'o \<Rightarrow> 'o object_state" where
  "fresh_bucket q = \<lparr>o_store = q, o_prefix = ''db/x/'', o_config = config_default, o_next_seq = 1, o_next_lsn = 1,
     o_durable_lsn = 0, o_commit_lsn = 0, o_epoch = 0, o_retention_floor = 0, o_memtable = [],
     o_memtable_bytes = 0, o_flushed_hw = 0, o_deltas = [], o_image = None, o_branches = [],
     o_next_branch_id = 1, o_cache = []\<rparr>"

definition first_token :: fence_token where
  "first_token = \<lparr>ft_epoch = 0, ft_owner = 1, ft_lease_until = 0\<rparr>"

lemmas action_defs = sbind_def sget_def sret_def smodify_def sfail_def obj_get_def obj_list_def obj_put_def
  obj_mapped_def obj_call_def obj_put_if_absent_def

lemma fresh_bucket_open:
  "object_with_store mem_object_store mem_new ''db/x'' config_default = (Inr (), fresh_bucket mem_new)"
  by (simp add: object_with_store_def object_recover_def discover_layers_def replay_log_def load_branches_def
    durable_epoch_def action_defs mem_op_defs mem_new_def fresh_bucket_def replay_start_def map_filter_def
    newest_image_def ends_with_def starts_with_def)

lemma fresh_bucket_writer:
  "writer_rep (\<lambda>s. mem_ok (fs_inner s)) (\<lambda>s. mem_obj (fs_inner s)) [] (fresh_bucket (fault_new mem_new))"
  by (simp add: writer_rep_def log_repr_def listed_def log_keys_def fresh_bucket_def fault_new_def mem_new_def
    mem_ok_def mem_obj_def)

text \<open>C8. Acknowledged appends are in the durable log, whichever requests of the object client fail, for a
  handle that is in sync with the bucket (\<open>object_ok\<close>) and a batch that fits a segment: after an
  append that returned an LSN, a scan from the previous high-water mark returns
  exactly its records, and the LSN is that of the last record.\<close>

theorem object_append_scan:
  assumes "object_ok (\<lambda>s. mem_ok (fs_inner s)) (\<lambda>s. mem_obj (fs_inner s)) st" and "object_fits st rs"
    and "object_append_wal (fault_object_store mem_object_store) st tok rs = (Inr l, st1)"
    and "object_scan_wal (fault_object_store mem_object_store) st1 (o_next_lsn st - 1) = (Inr es, st2)"
  shows "map le_record es = rs \<and> l = le_lsn (last es)"
  using fault_wal.acked_is_replayed [of st rs tok l st1 es st2] assms by (simp add: object_storage_def)

lemmas append_eval = object_append_wal_def append_segment_def object_check_fence_def durable_epoch_def
  append_loop.simps action_defs mem_op_defs mem_new_def fresh_bucket_def first_token_def
  fault_object_store_def fault_call_def fault_decide_def fault_new_def commit_items_def config_default_def

lemma fresh_append_scan:
  "\<exists>st1 es st2. object_append_wal (fault_object_store mem_object_store) (fresh_bucket (fault_new mem_new)) first_token [[7]] = (Inr 1, st1) \<and>
     object_scan_wal (fault_object_store mem_object_store) st1 0 = (Inr es, st2)"
  by (simp add: append_eval object_scan_wal_def read_segment_def decode_segment_encode)

theorem object_append_scan_witness:
  "\<exists>st1 es st2. object_append_wal (fault_object_store mem_object_store) (fresh_bucket (fault_new mem_new)) first_token [[7]] = (Inr 1, st1) \<and>
     object_scan_wal (fault_object_store mem_object_store) st1 0 = (Inr es, st2) \<and> map le_record es = [[7]]"
proof -
  have ok: "object_ok (\<lambda>s. mem_ok (fs_inner s)) (\<lambda>s. mem_obj (fs_inner s)) (fresh_bucket (fault_new mem_new))"
    using fresh_bucket_writer by (auto simp: object_ok_def)
  have fits: "object_fits (fresh_bucket (fault_new mem_new)) [[7]]" "o_next_lsn (fresh_bucket (fault_new mem_new)) - 1 = 0"
    by (simp_all add: object_fits_def seg_ok_def fresh_bucket_def)
  from fresh_append_scan object_append_scan [OF ok fits(1)] fits(2) show ?thesis by metis
qed

section \<open>Two handles on one bucket\<close>

text \<open>C9. Single writer: once another handle on the same bucket has acquired the fence, an append
  or page write through the older handle fails and leaves every object of the bucket
  unchanged, whatever faults the object client injects.\<close>

theorem object_zombie_fenced:
  assumes "mem_ok (fs_inner (o_store stB))" and "o_prefix stA = o_prefix stB"
    and "Suc (object_epoch (\<lambda>s. mem_obj (fs_inner s)) stB) < 2 ^ 64"
    and "object_acquire_fence (fault_object_store mem_object_store) stB now owner = (Inr tok, stB')"
    and "ft_epoch old < ft_epoch tok" and "rs \<noteq> []" and "length im \<le> PAGE_SIZE"
  shows "(\<exists>e st'. object_append_wal (fault_object_store mem_object_store) (stA\<lparr>o_store := o_store stB'\<rparr>) old rs = (Inl e, st') \<and>
      mem_obj (fs_inner (o_store st')) = mem_obj (fs_inner (o_store stB'))) \<and>
    (\<exists>e st'. object_put_page (fault_object_store mem_object_store) (stA\<lparr>o_store := o_store stB'\<rparr>) old pid im = (Inl e, st') \<and>
      mem_obj (fs_inner (o_store st')) = mem_obj (fs_inner (o_store stB')))"
proof -
  let ?obj = "\<lambda>s :: mem_store fault_store. mem_obj (fs_inner s)" and ?A = "stA\<lparr>o_store := o_store stB'\<rparr>"
  obtain q where q: "stB' = stB\<lparr>o_store := q, o_epoch := ft_epoch tok\<rparr>" "mem_ok (fs_inner q)"
      "epoch_of (?obj q) (o_prefix stB) = ft_epoch tok"
    using fault_mem_cas.acquire_loop_ok [OF assms(1) assms(3) [unfolded object_epoch_def]
      assms(4) [unfolded object_acquire_fence_def]] by blast
  have ne: "ft_epoch old \<noteq> object_epoch ?obj ?A"
    using q(3) assms(2,5) by (simp add: object_epoch_def q(1))
  have "\<exists>e st'. append_segment (fault_object_store mem_object_store) old items ?A = (Inl e, st') \<and>
      ?obj (o_store st') = ?obj (o_store stB')" for items
  proof -
    obtain r st' where a: "append_segment (fault_object_store mem_object_store) old items ?A = (r, st')"
      by fastforce
    have "isl r" "quiet (\<lambda>s. mem_ok (fs_inner s)) ?obj ?A st'"
      using fault_mem_cas.object_append_fenced [OF _ ne a] q(2) by (auto simp: q(1))
    with a show ?thesis by (cases r) (auto simp: quiet_def)
  qed
  with assms(6,7) show ?thesis
    by (simp add: object_append_wal_def object_put_page_def)
qed

lemma fresh_acquire:
  "\<exists>stB'. object_acquire_fence (fault_object_store mem_object_store) (fresh_bucket (fault_new mem_new)) 0 2 =
     (Inr \<lparr>ft_epoch = 1, ft_owner = 2, ft_lease_until = LEASE_MS\<rparr>, stB')"
  by (simp add: object_acquire_fence_def acquire_loop.simps write_lease_def append_eval)

theorem object_zombie_fenced_witness:
  "\<exists>tok stB' e st'. object_acquire_fence (fault_object_store mem_object_store) (fresh_bucket (fault_new mem_new)) 0 2 = (Inr tok, stB') \<and>
     object_append_wal (fault_object_store mem_object_store) ((fresh_bucket (fault_new mem_new))\<lparr>o_store := o_store stB'\<rparr>) first_token [[7]] = (Inl e, st')"
proof -
  let ?st = "fresh_bucket (fault_new mem_new)" and ?tok = "\<lparr>ft_epoch = 1, ft_owner = 2, ft_lease_until = LEASE_MS\<rparr>"
  obtain stB' where a: "object_acquire_fence (fault_object_store mem_object_store) ?st 0 2 = (Inr ?tok, stB')"
    using fresh_acquire by blast
  have "mem_ok (fs_inner (o_store ?st))" "Suc (object_epoch (\<lambda>s. mem_obj (fs_inner s)) ?st) < 2 ^ 64"
    by (simp_all add: fresh_bucket_def fault_new_def mem_new_def mem_ok_def mem_obj_def object_epoch_def epoch_of_def)
  moreover have "ft_epoch first_token < ft_epoch ?tok"
    by (simp add: first_token_def)
  ultimately have "\<exists>e st'. object_append_wal (fault_object_store mem_object_store) (?st\<lparr>o_store := o_store stB'\<rparr>) first_token [[7]] = (Inl e, st')"
    using object_zombie_fenced [OF _ refl _ a, of first_token "[[7]]" "[]" 0] by (auto simp: PAGE_SIZE_def)
  with a show ?thesis by blast
qed

section \<open>A retried append\<close>

lemma fold_max_upt: "fold max [1..<n + 1] 0 = (n :: nat)"
proof (induction n)
  case (Suc n)
  then have "fold max ([1..<n + 1] @ [n + 1]) 0 = max (n + 1) n" by simp
  then show ?case by simp
qed simp

lemma fold_max_set:
  assumes "set xs = set [1..<n + 1]"
  shows "fold max xs 0 = (n :: nat)"
proof -
  have "fold max xs 0 = Max (set (0 # xs))"
    by (simp only: Max.set_eq_fold)
  also have "\<dots> = Max (set (0 # [1..<n + 1]))"
    using assms by simp
  also have "\<dots> = fold max [1..<n + 1] 0"
    by (simp only: Max.set_eq_fold)
  finally show ?thesis
    by (simp only: fold_max_upt)
qed

lemma set_map_filter_iff: "y \<in> set (List.map_filter f ks) \<longleftrightarrow> (\<exists>k\<in>set ks. f k = Some y)"
  by (induction ks) (auto simp: map_filter_simps split: option.splits)

lemma map_filter_log_keys:
  assumes "set ks = set (log_keys p n)" and "n < 2 ^ 64"
  shows "set (List.map_filter (\<lambda>k. parse_u64 (last_segment k)) ks) = set [1..<n + 1]"
proof -
  have parse: "parse_u64 (last_segment (log_key p i)) = Some i" if "i \<in> set [1..<n + 1]" for i
    using that assms(2) by (intro parse_log_key) (simp del: upt_Suc)
  have "y \<in> set (List.map_filter (\<lambda>k. parse_u64 (last_segment k)) ks) \<longleftrightarrow>
      (\<exists>i\<in>set [1..<n + 1]. parse_u64 (last_segment (log_key p i)) = Some y)" for y
    by (simp add: set_map_filter_iff assms(1) log_keys_def del: upt_Suc)
  moreover have "(\<exists>i\<in>set [1..<n + 1]. parse_u64 (last_segment (log_key p i)) = Some y) \<longleftrightarrow> y \<in> set [1..<n + 1]" for y
    using parse by (metis option.inject)
  ultimately show ?thesis by blast
qed

context cas_store
begin

lemma scan_next_seq_log:
  assumes "ok (o_store st)" and "log_repr (obj (o_store st)) (o_prefix st) segs" and "scan_next_seq ops st = (r, st')"
  shows "quiet ok obj st st' \<and> (\<forall>n. r = Inr n \<longrightarrow> n = length segs + 1)"
proof -
  obtain g st1 where g: "obj_list ops (log_prefix (o_prefix st)) st = (g, st1)"
    by fastforce
  note q = obj_list_quiet [OF assms(1) g]
  have "fold max (List.map_filter (\<lambda>k. parse_u64 (last_segment k)) ks) 0 = length segs" if "g = Inr ks" for ks
    using q that assms(2) by (intro fold_max_set map_filter_log_keys) (auto simp: log_repr_def)
  with q g assms(3) show ?thesis
    by (cases g) (auto simp: scan_next_seq_def sbind_def sget_def sret_def)
qed

text \<open>The slot the writer expects is taken by a segment it does not know about: the loop moves
  on to the next free slot and the append succeeds there.\<close>

lemma append_loop_taken:
  assumes "ok (o_store st)" and "log_repr (obj (o_store st)) (o_prefix st) (segs @ [x])"
    and "length segs + 2 < 2 ^ 64" and "o_next_seq st = length segs + 1"
    and "append_loop ops tok bs n st = (Inr u, st')"
  shows "\<exists>q e. st' = st\<lparr>o_next_seq := length segs + 2, o_store := q\<rparr> \<and> ok q \<and>
    obj q = (obj (o_store st))(log_key (o_prefix st) (length segs + 2) \<mapsto> (bs, e))"
proof -
  let ?k = "log_key (o_prefix st) (length segs + 1)"
  obtain r q where c: "os_put_if_absent ops (o_store st) ?k bs = (r, q)"
    by fastforce
  obtain e where taken: "obj (o_store st) ?k = Some (encode_segment x, e)"
    using assms(2) unfolding log_repr_def by (metis length_append_singleton less_Suc_eq nth_append_length)
  have sp: "ok q" "obj q = obj (o_store st)" "\<not> (\<exists>v. r = Inr v)"
    using put_if_absent_spec [OF assms(1) c] taken by auto
  have r: "r = Inl OPrecondition"
    using assms(4,5) c sp(3) by (subst (asm) append_loop.simps)
      (cases r; auto simp: obj_put_if_absent_def obj_call_def split: object_error.splits)
  let ?st1 = "st\<lparr>o_store := q\<rparr>"
  obtain r2 st2 where s2: "scan_next_seq ops ?st1 = (r2, st2)"
    by fastforce
  have q2: "quiet ok obj ?st1 st2" "\<forall>m. r2 = Inr m \<longrightarrow> m = length segs + 2"
    using scan_next_seq_log [OF _ _ s2, of "segs @ [x]"] sp assms(2) by auto
  let ?st2 = "st2\<lparr>o_next_seq := length segs + 2\<rparr>"
  obtain r3 st3 where s3: "durable_epoch ops ?st2 = (r3, st3)"
    by fastforce
  have q3: "quiet ok obj ?st2 st3"
    using durable_epoch_quiet [OF _ s3] quiet_fields [OF q2(1)] by simp
  obtain cur t where r23: "r2 = Inr (length segs + 2)" "r3 = Inr (cur, t)"
    using assms(4,5) c r s2 s3 q2(2) by (subst (asm) append_loop.simps)
      (cases r2; cases r3; auto simp: obj_put_if_absent_def obj_call_def)
  obtain m where loop: "append_loop ops tok bs m st3 = (Inr u, st')"
    using assms(4,5) c r s2 s3 r23 by (subst (asm) append_loop.simps)
      (auto simp: obj_put_if_absent_def obj_call_def split: if_splits nat.splits)
  obtain s2' where st2: "st2 = st\<lparr>o_store := s2'\<rparr>"
    using q2(1) unfolding quiet_def by (metis object_state.update_convs(1) object_state.surjective)
  obtain s3' where st3: "st3 = ?st2\<lparr>o_store := s3'\<rparr>"
    using q3 unfolding quiet_def by blast
  have o3: "ok s3'" "obj s3' = obj (o_store st)"
    using quiet_fields [OF q3] quiet_fields [OF q2(1)] sp(2) by (simp_all add: st3 st2)
  have "obj (o_store st3) (log_key (o_prefix st3) (o_next_seq st3)) = None"
    using log_repr_free_slot [OF assms(2)] assms(3) o3 by (simp add: st3 st2)
  from append_loop_free [OF _ this loop] o3 show ?thesis
    by (auto simp: st3 st2)
qed

lemma append_segment_stale:
  assumes "ok (o_store st)" and "log_repr (obj (o_store st)) (o_prefix st) (segs @ [x])"
    and "length segs + 2 < 2 ^ 64" and "o_next_seq st = length segs + 1" and "o_next_lsn st = length (concat segs) + 1"
    and "seg_ok items" and "items \<noteq> []" and "append_segment ops tok items st = (Inr l, st')"
  shows "l = length (concat segs) + length items \<and> ok (o_store st') \<and> o_prefix st' = o_prefix st \<and>
    log_repr (obj (o_store st')) (o_prefix st) (segs @ [x, items])"
proof -
  obtain r0 st0 where f: "object_check_fence ops tok st = (r0, st0)"
    by fastforce
  have q: "quiet ok obj st st0"
    using check_fence_quiet [OF assms(1) f] by simp
  note qf = quiet_fields [OF q]
  obtain r1 st1 where a: "append_loop ops tok (encode_segment items) (cas_max_retries (o_config st0)) st0 = (r1, st1)"
    by fastforce
  obtain r2 st2 where fl: "(if flush_threshold_bytes (o_config (commit_items items st1)) \<le> o_memtable_bytes (commit_items items st1)
      then flush_locked ops else sret ()) (commit_items items st1) = (r2, st2)"
    by fastforce
  have r: "r0 = Inr ()" "r1 = Inr ()" "st' = st2" "l = o_durable_lsn (commit_items items st1)"
    using assms(8) f a fl
    by (cases r0; cases r1; cases r2; simp add: append_segment_def sbind_def sget_def smodify_def sret_def [of l] split: if_splits;
        simp add: sret_def)+
  have lp: "append_loop ops tok (encode_segment items) (cas_max_retries (o_config st0)) st0 = (Inr (), st1)"
    using a r(2) by simp
  have "log_repr (obj (o_store st0)) (o_prefix st0) (segs @ [x])" "o_next_seq st0 = length segs + 1"
    using qf assms(2,4) by simp_all
  from append_loop_taken [OF qf(1) this(1) assms(3) this(2) lp]
  obtain q1 e where st1: "st1 = st0\<lparr>o_next_seq := length segs + 2, o_store := q1\<rparr>" "ok q1"
      "obj q1 = (obj (o_store st0))(log_key (o_prefix st0) (length segs + 2) \<mapsto> (encode_segment items, e))"
    by blast
  note cf = commit_items_fields [OF assms(7)]
  have "log_repr (obj q1) (o_prefix st) ((segs @ [x]) @ [items])"
    using log_repr_snoc [OF assms(2,6), of e] assms(3) st1(3) qf by simp
  then have repr: "log_repr (obj (o_store (commit_items items st1))) (o_prefix st) (segs @ [x, items])"
    by (simp add: cf st1)
  have same: "log_same ok obj (commit_items items st1) st2"
    using fl flush_log_same [of "commit_items items st1" r2 st2] st1(2)
    by (auto simp: sret_def log_same_def cf st1(1) split: if_splits)
  have pre: "o_prefix (commit_items items st1) = o_prefix st"
    by (simp add: cf st1 qf)
  have "log_repr (obj (o_store st2)) (o_prefix st) (segs @ [x, items])"
    using same repr pre by (auto simp: log_same_def elim!: log_repr_cong)
  moreover have "l = length (concat segs) + length items"
    using r(4) assms(5) qf by (simp add: cf st1)
  ultimately show ?thesis
    using same pre r(3) by (simp add: log_same_def)
qed

end

lemma entries_after_0: "entries_after 0 (wal_entries_from (Suc n) xs) = wal_entries_from (Suc n) xs"
proof -
  have "\<forall>e\<in>set (wal_entries_from (Suc n) xs). 0 < le_lsn e"
    using wal_entries_bounds by fastforce
  then show ?thesis by (simp add: entries_after_def filter_id_conv)
qed

text \<open>An append that is retried after a fault can be acknowledged under a wrong LSN: when the
  slot the writer expects already holds a segment it does not know about (its own, whose
  write reached the bucket before the error, or another writer's), the loop finds the next
  free slot but keeps the old LSN counter, so the LSN it returns lies before the LSN under
  which every later scan and recovery reads those records, by the length of that segment.\<close>

theorem object_retry_wrong_lsn:
  assumes "mem_ok (fs_inner (o_store st))" and "log_repr (mem_obj (fs_inner (o_store st))) (o_prefix st) (segs @ [x])"
    and "x \<noteq> []" and "length segs + 2 < 2 ^ 64" and "o_next_seq st = length segs + 1"
    and "o_next_lsn st = length (concat segs) + 1" and "seg_ok (map Wal rs)"
    and "object_append_wal (fault_object_store mem_object_store) st tok rs = (Inr l, st1)"
    and "object_scan_wal (fault_object_store mem_object_store) st1 0 = (Inr es, st2)"
  shows "le_lsn (last es) = l + length x \<and> l < le_lsn (last es) \<and> le_record (last es) = last rs"
proof -
  let ?obj = "\<lambda>s :: mem_store fault_store. mem_obj (fs_inner s)"
  have rs: "rs \<noteq> []" and app: "append_segment (fault_object_store mem_object_store) tok (map Wal rs) st = (Inr l, st1)"
    using assms(8) by (auto simp: object_append_wal_def split: if_splits)
  have st1: "l = length (concat segs) + length rs" "mem_ok (fs_inner (o_store st1))"
      "log_repr (?obj (o_store st1)) (o_prefix st1) (segs @ [x, map Wal rs])"
    using fault_mem_cas.append_segment_stale [OF assms(1,2,4,5,6,7) _ app] rs by auto
  let ?n = "1 + length (concat (segs @ [x]))"
  have "es = entries_after 0 (wal_entries_from 1 (concat (segs @ [x]) @ map Wal rs))"
    using fault_mem_cas.object_scan_log [OF st1(2,3) assms(9)] by simp
  also have "\<dots> = wal_entries_from 1 (concat (segs @ [x])) @ number_records ?n rs"
    by (simp only: One_nat_def entries_after_0) (simp add: wal_entries_append wal_entries_number)
  finally have es: "last es = last (number_records ?n rs)"
    using rs by (cases rs) (simp_all add: number_records_Cons)
  have "number_records ?n rs \<noteq> []"
    using rs by (cases rs) (simp_all add: number_records_Cons)
  then have "le_lsn (last (number_records ?n rs)) = last [?n..<?n + length rs]"
      "le_record (last (number_records ?n rs)) = last rs"
    by (metis last_map map_le_lsn_number, metis last_map map_le_record_number)
  moreover have "last [?n..<?n + length rs] = ?n + length rs - 1"
    using rs by (intro last_upt_Suc) simp
  ultimately show ?thesis
    using es st1(1) assms(3) by auto
qed

text \<open>The run of the fault-injection harness that shows it: the first append writes its segment and
  then fails, the writer retries.\<close>

definition armed_bucket :: "mem_store fault_store object_state" where
  "armed_bucket = fresh_bucket (fault_arm (fault_new mem_new) \<lparr>fp_kind = FkPutIfAbsent, fp_fire_at = 1, fp_mode = AfterOp\<rparr>)"

definition torn_bucket :: "mem_store fault_store object_state" where
  "torn_bucket = (case object_append_wal (fault_object_store mem_object_store) armed_bucket first_token [[7]] of (r, st) \<Rightarrow> st)"

lemmas retry_eval = append_eval fault_arm_def armed_bucket_def scan_next_seq_def map_filter_def

lemma log_keys_12: "log_key p (Suc 0) < log_key p (Suc (Suc 0))" "log_key p (Suc (Suc 0)) \<noteq> log_key p (Suc 0)"
    "\<not> log_key p (Suc (Suc 0)) < log_key p (Suc 0)" "\<not> log_key p (Suc (Suc 0)) \<le> log_key p (Suc 0)"
    "log_key p (Suc 0) \<noteq> log_key p (Suc (Suc 0))"
    "parse_u64 (last_segment (log_key p (Suc 0))) = Some (Suc 0)"
  using log_key_mono [of "Suc 0" "Suc (Suc 0)" p] parse_log_key [of "Suc 0" p] by auto

lemma torn_bucket_eq:
  "torn_bucket = armed_bucket\<lparr>o_store := (o_store armed_bucket)\<lparr>
     fs_inner := \<lparr>ms_map = [(log_key ''db/x/'' 1, encode_segment [Wal [7]], CHR ''e'' # dec_string 0)], ms_etag_seq = 1\<rparr>,
     fs_fired := True, fs_get_n := 1, fs_put_if_absent_n := 1\<rparr>\<rparr>"
  by (simp add: torn_bucket_def retry_eval)

lemma armed_append:
  "fst (object_append_wal (fault_object_store mem_object_store) armed_bucket first_token [[7]]) = Inl Transient"
  by (simp add: retry_eval)

lemma torn_append:
  "\<exists>st1 es st2. object_append_wal (fault_object_store mem_object_store) torn_bucket first_token [[7]] = (Inr 1, st1) \<and>
     object_scan_wal (fault_object_store mem_object_store) st1 0 = (Inr es, st2)"
  by (simp add: log_keys_12 torn_bucket_eq retry_eval object_scan_wal_def read_segment_def decode_segment_encode)

lemma torn_log:
  "log_repr (mem_obj (fs_inner (o_store torn_bucket))) (o_prefix torn_bucket) ([] @ [[Wal [7]]])"
proof -
  have "listed (mem_obj (fs_inner (o_store torn_bucket))) (log_prefix ''db/x/'') = {log_key ''db/x/'' 1}"
    by (auto simp: torn_bucket_eq mem_obj_def listed_def split: if_splits)
  then show ?thesis
    by (simp add: torn_bucket_eq log_repr_def mem_obj_def log_keys_def seg_ok_def armed_bucket_def fresh_bucket_def)
qed

theorem object_retry_wrong_lsn_witness:
  "\<exists>st1 es st2. fst (object_append_wal (fault_object_store mem_object_store) armed_bucket first_token [[7]]) = Inl Transient \<and>
     object_append_wal (fault_object_store mem_object_store) torn_bucket first_token [[7]] = (Inr 1, st1) \<and>
     object_scan_wal (fault_object_store mem_object_store) st1 0 = (Inr es, st2) \<and> le_lsn (last es) = 2"
proof -
  obtain st1 es st2 where r: "object_append_wal (fault_object_store mem_object_store) torn_bucket first_token [[7]] = (Inr 1, st1)"
      "object_scan_wal (fault_object_store mem_object_store) st1 0 = (Inr es, st2)"
    using torn_append by blast
  have "mem_ok (fs_inner (o_store torn_bucket))" "o_next_seq torn_bucket = length [] + 1"
      "o_next_lsn torn_bucket = length (concat []) + 1" "seg_ok (map Wal [[7]])"
    by (simp_all add: torn_bucket_eq mem_ok_def bt_wf_def armed_bucket_def fresh_bucket_def seg_ok_def)
  from object_retry_wrong_lsn [OF this(1) torn_log _ _ this(2,3,4) r] armed_append r show ?thesis by auto
qed

end
