(* ===== verification/Branch_Storage.thy ===== *)
theory Branch_Storage
  imports Local_Contract Object_Contract
begin

text \<open>
  \<^verbatim>\<open>BranchStorage\<close> (\<^verbatim>\<open>crates/storage/src/branch.rs\<close>) and the openers of
  \<^verbatim>\<open>crates/storage/src/lib.rs\<close>: a copy-on-write view over a parent backend up to the fork
  point and a private overlay above it.  The adaptor is a functor on backends: if parent
  and overlay keep the append contract, so does the branch, with one continuous LSN stream.
\<close>

section \<open>The adaptor\<close>

record ('p, 'v) branch_state =
  bs_parent :: 'p
  bs_overlay :: 'v
  bs_base_lsn :: nat
  bs_id :: nat
  bs_parent_id :: nat

definition branch_new :: "'p \<Rightarrow> 'v \<Rightarrow> branch_ref \<Rightarrow> ('p, 'v) branch_state" where
  "branch_new parent overlay bref = \<lparr>bs_parent = parent, bs_overlay = overlay,
     bs_base_lsn = br_base_lsn bref, bs_id = br_id bref, bs_parent_id = br_parent bref\<rparr>"

definition to_global :: "('p, 'v) branch_state \<Rightarrow> nat \<Rightarrow> nat" where
  "to_global b l = bs_base_lsn b + l"

definition to_local :: "('p, 'v) branch_state \<Rightarrow> nat \<Rightarrow> nat" where
  "to_local b l = l - bs_base_lsn b"

definition on_parent :: "('p \<Rightarrow> 'a sres \<times> 'p) \<Rightarrow> ('p, 'v) branch_state \<Rightarrow> 'a sres \<times> ('p, 'v) branch_state" where
  "on_parent f b = (let (r, p) = f (bs_parent b) in (r, b\<lparr>bs_parent := p\<rparr>))"

definition on_overlay :: "('v \<Rightarrow> 'a sres \<times> 'v) \<Rightarrow> ('p, 'v) branch_state \<Rightarrow> 'a sres \<times> ('p, 'v) branch_state" where
  "on_overlay f b = (let (r, v) = f (bs_overlay b) in (r, b\<lparr>bs_overlay := v\<rparr>))"

definition shift_entry :: "nat \<Rightarrow> log_entry \<Rightarrow> log_entry" where
  "shift_entry base e = e\<lparr>le_lsn := base + le_lsn e\<rparr>"

definition branch_get_page :: "'p storage \<Rightarrow> 'v storage \<Rightarrow> ('p, 'v) branch_state \<Rightarrow> nat \<Rightarrow> nat \<Rightarrow>
    page sres \<times> ('p, 'v) branch_state" where
  "branch_get_page pops vops b pid lsn =
     (if lsn \<le> bs_base_lsn b then on_parent (\<lambda>p. st_get_page pops p pid lsn) b
      else case on_overlay (\<lambda>v. st_get_page vops v pid (to_local b lsn)) b of
          (Inr pg, b1) \<Rightarrow> (Inr \<lparr>pg_id = pid, pg_lsn = to_global b1 (pg_lsn pg), pg_bytes = pg_bytes pg\<rparr>, b1)
        | (Inl NotFound, b1) \<Rightarrow> on_parent (\<lambda>p. st_get_page pops p pid (bs_base_lsn b1)) b1
        | (Inl e, b1) \<Rightarrow> (Inl e, b1))"

definition branch_append_wal :: "'v storage \<Rightarrow> ('p, 'v) branch_state \<Rightarrow> fence_token \<Rightarrow> wal_record list \<Rightarrow>
    nat sres \<times> ('p, 'v) branch_state" where
  "branch_append_wal vops b tok rs =
     sbind (on_overlay (\<lambda>v. st_append_wal vops v tok rs)) (\<lambda>lst. sget (\<lambda>b. to_global b lst)) b"

definition branch_put_page :: "'v storage \<Rightarrow> ('p, 'v) branch_state \<Rightarrow> fence_token \<Rightarrow> nat \<Rightarrow> bytes \<Rightarrow>
    nat sres \<times> ('p, 'v) branch_state" where
  "branch_put_page vops b tok pid im =
     sbind (on_overlay (\<lambda>v. st_put_page vops v tok pid im)) (\<lambda>lsn. sget (\<lambda>b. to_global b lsn)) b"

definition branch_scan_wal :: "'p storage \<Rightarrow> 'v storage \<Rightarrow> ('p, 'v) branch_state \<Rightarrow> nat \<Rightarrow>
    log_entry list sres \<times> ('p, 'v) branch_state" where
  "branch_scan_wal pops vops b after =
     (let base = bs_base_lsn b in
      if after < base then
        sbind (on_parent (\<lambda>p. st_scan_wal pops p after)) (\<lambda>pes.
        sbind (on_overlay (\<lambda>v. st_scan_wal vops v 0)) (\<lambda>ves.
        sret (filter (\<lambda>e. le_lsn e \<le> base) pes @ map (shift_entry base) ves))) b
      else
        sbind (on_overlay (\<lambda>v. st_scan_wal vops v (to_local b after))) (\<lambda>ves.
        sret (map (shift_entry base) ves)) b)"

definition branch_storage :: "'p storage \<Rightarrow> 'v storage \<Rightarrow> ('p, 'v) branch_state storage" where
  "branch_storage pops vops = \<lparr>
     st_get_page = branch_get_page pops vops,
     st_append_wal = branch_append_wal vops,
     st_put_page = branch_put_page vops,
     st_scan_wal = branch_scan_wal pops vops,
     st_flush = on_overlay (st_flush vops),
     st_durable_lsn = sbind (on_overlay (st_durable_lsn vops)) (\<lambda>l. sget (\<lambda>b. to_global b l)),
     st_get_commit_lsn = sbind (on_overlay (st_get_commit_lsn vops)) (\<lambda>l. sget (\<lambda>b. to_global b l)),
     st_acquire_fence = (\<lambda>b now owner. on_overlay (\<lambda>v. st_acquire_fence vops v now owner) b),
     st_renew_fence = (\<lambda>b now tok. on_overlay (\<lambda>v. st_renew_fence vops v now tok) b),
     st_release_fence = (\<lambda>b tok. on_overlay (\<lambda>v. st_release_fence vops v tok) b),
     st_create_branch = (\<lambda>b name base. on_overlay (\<lambda>v. st_create_branch vops v name (to_local b base)) b),
     st_resolve_branch = (\<lambda>b i. on_overlay (\<lambda>v. st_resolve_branch vops v i) b),
     st_list_branches = on_overlay (st_list_branches vops),
     st_delete_branch = (\<lambda>b i. on_overlay (\<lambda>v. st_delete_branch vops v i) b),
     st_set_retention_floor = (\<lambda>b lsn. on_overlay (\<lambda>v. st_set_retention_floor vops v (to_local b lsn)) b),
     st_pitr_floor = sbind (on_overlay (st_pitr_floor vops)) (\<lambda>l. sget (\<lambda>b. to_global b l)),
     st_stats = (\<lambda>b. st_stats vops (bs_overlay b))\<rparr>"

section \<open>Openers\<close>

datatype backend = LocalBackend | ObjectBackend

definition url_backend :: "string \<Rightarrow> backend sres" where
  "url_backend url = (case split_once ''://'' url of
     None \<Rightarrow> Inl Invalid
   | Some (scheme, rest) \<Rightarrow>
       (if scheme = ''file'' then Inr LocalBackend
        else if scheme \<in> {''s3'', ''r2'', ''gs''} then Inr ObjectBackend
        else Inl Invalid))"

definition branch_overlay_url :: "string \<Rightarrow> nat \<Rightarrow> string" where
  "branch_overlay_url url b = before_char (CHR ''?'') url @ ''.branch-'' @ dec_string b"

text \<open>\<^verbatim>\<open>open_branch\<close> for \<^verbatim>\<open>file://\<close>: parent and overlay are two files of one directory.\<close>

definition open_branch_local :: "string \<Rightarrow> (string \<times> bytes) list \<Rightarrow> nat \<Rightarrow> (local_inner, local_inner) branch_state sres" where
  "open_branch_local url dir b =
     res_bind (local_open url dir []) (\<lambda>parent.
     res_bind (fst (local_resolve_branch parent b)) (\<lambda>bref.
     res_bind (local_open (branch_overlay_url url b) dir []) (\<lambda>overlay.
     Inr (branch_new parent overlay bref))))"

section \<open>The branch keeps the append contract\<close>

definition branch_hist :: "('p \<Rightarrow> log_entry list) \<Rightarrow> ('v \<Rightarrow> log_entry list) \<Rightarrow> ('p, 'v) branch_state \<Rightarrow> log_entry list" where
  "branch_hist phist vhist b = filter (\<lambda>e. le_lsn e \<le> bs_base_lsn b) (phist (bs_parent b)) @
     map (shift_entry (bs_base_lsn b)) (vhist (bs_overlay b))"

definition branch_ok :: "('p \<Rightarrow> bool) \<Rightarrow> ('v \<Rightarrow> bool) \<Rightarrow> ('p, 'v) branch_state \<Rightarrow> bool" where
  "branch_ok pok vok b \<longleftrightarrow> pok (bs_parent b) \<and> vok (bs_overlay b)"

lemma le_lsn_shift [simp]: "le_lsn (shift_entry k e) = k + le_lsn e" "le_record (shift_entry k e) = le_record e"
  by (simp_all add: shift_entry_def)

lemma map_le_lsn_shift: "map le_lsn (map (shift_entry k) es) = map ((+) k) (map le_lsn es)"
  by simp

lemma shift_number_records: "map (shift_entry k) (number_records n rs) = number_records (k + n) rs"
proof (induction rs arbitrary: n)
  case (Cons r rs)
  have "shift_entry k \<lparr>le_lsn = n, le_record = r\<rparr> = \<lparr>le_lsn = k + n, le_record = r\<rparr>"
    by (simp add: shift_entry_def)
  with Cons.IH [of "Suc n"] show ?case by (simp add: number_records_Cons)
qed simp

lemma on_overlay_eq: "on_overlay f b = (r, b') \<longleftrightarrow> (\<exists>v. f (bs_overlay b) = (r, v) \<and> b' = b\<lparr>bs_overlay := v\<rparr>)"
  by (auto simp: on_overlay_def split: prod.splits)

lemma on_parent_eq: "on_parent f b = (r, b') \<longleftrightarrow> (\<exists>p. f (bs_parent b) = (r, p) \<and> b' = b\<lparr>bs_parent := p\<rparr>)"
  by (auto simp: on_parent_def split: prod.splits)

lemma sbind_eq_Inr: "sbind m f s = (Inr y, s') \<longleftrightarrow> (\<exists>x s1. m s = (Inr x, s1) \<and> f x s1 = (Inr y, s'))"
  by (auto simp: sbind_def split: prod.splits sum.splits)

locale branch_pair =
  par: wal_storage pops pok phist pnxt pholds pfits +
  ovl: wal_storage vops vok vhist vnxt vholds vfits
  for pops :: "'p storage" and pok phist pnxt pholds pfits
    and vops :: "'v storage" and vok vhist vnxt vholds vfits
begin

lemma branch_scan_exact:
  assumes "pok (bs_parent b)" and "vok (bs_overlay b)" and "branch_scan_wal pops vops b a = (Inr es, b')"
  shows "es = entries_after a (branch_hist phist vhist b)"
proof (cases "a < bs_base_lsn b")
  case True
  then obtain pes p ves v where s: "st_scan_wal pops (bs_parent b) a = (Inr pes, p)"
      "st_scan_wal vops (bs_overlay b) 0 = (Inr ves, v)"
      "es = filter (\<lambda>e. le_lsn e \<le> bs_base_lsn b) pes @ map (shift_entry (bs_base_lsn b)) ves"
    using assms(3) by (auto simp: branch_scan_wal_def Let_def sbind_eq_Inr on_parent_eq on_overlay_eq sret_def)
  have "pes = entries_after a (phist (bs_parent b))" "ves = entries_after 0 (vhist (bs_overlay b))"
    using par.scan_exact [OF assms(1) s(1)] ovl.scan_exact [OF assms(2) s(2)] .
  moreover have "entries_after 0 (vhist (bs_overlay b)) = vhist (bs_overlay b)"
    using ovl.hist_below [OF assms(2)] by (simp add: entries_after_def filter_id_conv)
  moreover have "filter (\<lambda>e. a < le_lsn e) (map (shift_entry (bs_base_lsn b)) (vhist (bs_overlay b))) =
      map (shift_entry (bs_base_lsn b)) (vhist (bs_overlay b))"
    using True by (auto simp: filter_id_conv)
  ultimately show ?thesis
    using s(3) by (simp add: entries_after_def branch_hist_def conj_commute)
next
  case False
  then obtain ves v where s: "st_scan_wal vops (bs_overlay b) (a - bs_base_lsn b) = (Inr ves, v)"
      "es = map (shift_entry (bs_base_lsn b)) ves"
    using assms(3) by (auto simp: branch_scan_wal_def to_local_def Let_def sbind_eq_Inr on_overlay_eq sret_def)
  have "ves = entries_after (a - bs_base_lsn b) (vhist (bs_overlay b))"
    using ovl.scan_exact [OF assms(2) s(1)] .
  moreover have "filter (\<lambda>e. a < le_lsn e) (filter (\<lambda>e. le_lsn e \<le> bs_base_lsn b) (phist (bs_parent b))) = []"
    using False by (auto simp: filter_empty_conv)
  moreover have "(a - bs_base_lsn b < le_lsn e) = (a < bs_base_lsn b + le_lsn e)" for e :: log_entry
    using False by linarith
  ultimately show ?thesis
    using s(2) by (simp add: entries_after_def branch_hist_def filter_map comp_def)
qed

lemma branch_wal_storage:
  "wal_storage (branch_storage pops vops) (branch_ok pok vok) (branch_hist phist vhist)
     (\<lambda>b. bs_base_lsn b + vnxt (bs_overlay b)) (\<lambda>b. vholds (bs_overlay b)) (\<lambda>b. vfits (bs_overlay b))"
proof
  fix b :: "('p, 'v) branch_state" and e
  assume ok: "branch_ok pok vok b"
  then have ok2: "pok (bs_parent b)" "vok (bs_overlay b)"
    by (auto simp: branch_ok_def)
  show "0 < bs_base_lsn b + vnxt (bs_overlay b)"
    using ovl.nxt_pos [OF ok2(2)] by simp
  show "0 < le_lsn e \<and> le_lsn e < bs_base_lsn b + vnxt (bs_overlay b)" if "e \<in> set (branch_hist phist vhist b)"
    using that par.hist_below [OF ok2(1)] ovl.hist_below [OF ok2(2)] ovl.nxt_pos [OF ok2(2)]
    by (fastforce simp: branch_hist_def)
  have "sorted_wrt (<) (map le_lsn (filter (\<lambda>e. le_lsn e \<le> bs_base_lsn b) (phist (bs_parent b))))"
    using par.hist_sorted [OF ok2(1)] by (simp add: sorted_wrt_map sorted_wrt_filter)
  moreover have "sorted_wrt (<) (map le_lsn (map (shift_entry (bs_base_lsn b)) (vhist (bs_overlay b))))"
    using ovl.hist_sorted [OF ok2(2)] by (simp add: sorted_wrt_map)
  moreover have "bs_base_lsn b < le_lsn y" if "y \<in> set (map (shift_entry (bs_base_lsn b)) (vhist (bs_overlay b)))" for y
    using that ovl.hist_below [OF ok2(2)] by auto
  ultimately show "sorted_wrt (<) (map le_lsn (branch_hist phist vhist b))"
    by (fastforce simp: branch_hist_def sorted_wrt_append)
next
  fix b :: "('p, 'v) branch_state" and a es b'
  assume "branch_ok pok vok b" "st_scan_wal (branch_storage pops vops) b a = (Inr es, b')"
  then show "es = entries_after a (branch_hist phist vhist b)"
    using branch_scan_exact by (simp add: branch_storage_def branch_ok_def)
next
  fix b :: "('p, 'v) branch_state" and rs and tok :: fence_token and l b'
  assume ok: "branch_ok pok vok b" and fits: "vfits (bs_overlay b) rs"
    and app: "st_append_wal (branch_storage pops vops) b tok rs = (Inr l, b')"
  obtain l0 v where v: "st_append_wal vops (bs_overlay b) tok rs = (Inr l0, v)"
      "l = bs_base_lsn b + l0" "b' = b\<lparr>bs_overlay := v\<rparr>"
    using app by (auto simp: branch_storage_def branch_append_wal_def sbind_eq_Inr on_overlay_eq sget_def to_global_def)
  note a = ovl.append_exact [OF _ fits v(1)]
  show "rs \<noteq> [] \<and> ft_epoch tok = vholds (bs_overlay b) \<and> branch_ok pok vok b' \<and>
      l = bs_base_lsn b + vnxt (bs_overlay b) + length rs - 1 \<and>
      branch_hist phist vhist b' = branch_hist phist vhist b @ number_records (bs_base_lsn b + vnxt (bs_overlay b)) rs \<and>
      bs_base_lsn b' + vnxt (bs_overlay b') = bs_base_lsn b + vnxt (bs_overlay b) + length rs \<and>
      vholds (bs_overlay b') = vholds (bs_overlay b)"
    using a ok v ovl.nxt_pos [of "bs_overlay b"] by (auto simp: branch_ok_def branch_hist_def shift_number_records)
next
  fix b :: "('p, 'v) branch_state" and tok :: fence_token and rs :: "wal_record list"
  assume "branch_ok pok vok b" "ft_epoch tok \<noteq> vholds (bs_overlay b)"
  then have "isl (fst (st_append_wal vops (bs_overlay b) tok rs))"
    using ovl.append_fenced by (simp add: branch_ok_def)
  then show "isl (fst (st_append_wal (branch_storage pops vops) b tok rs))"
    by (auto simp: branch_storage_def branch_append_wal_def sbind_def on_overlay_def split: prod.splits sum.splits)
next
  fix b :: "('p, 'v) branch_state" and now owner and tok :: fence_token and b'
  assume ok: "branch_ok pok vok b" and e: "Suc (vholds (bs_overlay b)) < 2 ^ 64"
    and a: "st_acquire_fence (branch_storage pops vops) b now owner = (Inr tok, b')"
  obtain v where v: "st_acquire_fence vops (bs_overlay b) now owner = (Inr tok, v)" "b' = b\<lparr>bs_overlay := v\<rparr>"
    using a by (auto simp: branch_storage_def on_overlay_eq)
  from ovl.acquire_exact [OF _ e v(1)] ok v(2)
  show "branch_ok pok vok b' \<and> ft_epoch tok = Suc (vholds (bs_overlay b)) \<and> vholds (bs_overlay b') = ft_epoch tok \<and>
      branch_hist phist vhist b' = branch_hist phist vhist b \<and>
      bs_base_lsn b' + vnxt (bs_overlay b') = bs_base_lsn b + vnxt (bs_overlay b)"
    by (simp add: branch_ok_def branch_hist_def)
qed

end

interpretation local_branch: branch_pair local_storage local_inv local_hist l_next_lsn l_epoch "\<lambda>_. wal_fits"
    local_storage local_inv local_hist l_next_lsn l_epoch "\<lambda>_. wal_fits"
  by unfold_locales

interpretation local_branch_wal: wal_storage "branch_storage local_storage local_storage" "branch_ok local_inv local_inv"
    "branch_hist local_hist local_hist" "\<lambda>b. bs_base_lsn b + l_next_lsn (bs_overlay b)"
    "\<lambda>b. l_epoch (bs_overlay b)" "\<lambda>b. wal_fits"
  by (rule local_branch.branch_wal_storage)

interpretation mem_branch: branch_pair "object_storage mem_object_store" "object_ok mem_ok mem_obj" "object_hist mem_obj"
    o_next_lsn "object_epoch mem_obj" object_fits
    "object_storage mem_object_store" "object_ok mem_ok mem_obj" "object_hist mem_obj" o_next_lsn "object_epoch mem_obj" object_fits
  by unfold_locales

text \<open>C10. A branch is one continuous log, over any two backends that keep the append contract of
  the storage seam and for batches the overlay's backend can hold: a scan of the branch
  returns the parent's records up to the fork point followed by the overlay's records, with the
  overlay's LSNs shifted behind the fork point, so records appended by the branch come back
  after the shared history, and the parent is not touched.\<close>

theorem branch_append_scan:
  assumes "wal_storage pops pok phist pnxt pholds pfits" and "wal_storage vops vok vhist vnxt vholds vfits"
    and "pok (bs_parent b)" and "vok (bs_overlay b)" and "vfits (bs_overlay b) rs"
    and "branch_append_wal vops b tok rs = (Inr l, b1)"
    and "branch_scan_wal pops vops b1 0 = (Inr es, b2)"
  shows "es = filter (\<lambda>e. le_lsn e \<le> bs_base_lsn b) (phist (bs_parent b)) @
      map (shift_entry (bs_base_lsn b)) (vhist (bs_overlay b)) @
      number_records (bs_base_lsn b + vnxt (bs_overlay b)) rs \<and>
    l = bs_base_lsn b + vnxt (bs_overlay b) + length rs - 1 \<and> bs_parent b1 = bs_parent b"
proof -
  have br: "wal_storage (branch_storage pops vops) (branch_ok pok vok) (branch_hist phist vhist)
      (\<lambda>b. bs_base_lsn b + vnxt (bs_overlay b)) (\<lambda>b. vholds (bs_overlay b)) (\<lambda>b. vfits (bs_overlay b))"
    by (rule branch_pair.branch_wal_storage [OF branch_pair.intro [OF assms(1,2)]])
  have ok: "branch_ok pok vok b" using assms(3,4) by (simp add: branch_ok_def)
  have app: "st_append_wal (branch_storage pops vops) b tok rs = (Inr l, b1)"
    and scan: "st_scan_wal (branch_storage pops vops) b1 0 = (Inr es, b2)"
    using assms(6,7) by (simp_all add: branch_storage_def)
  note a = wal_storage.append_exact [OF br ok assms(5) app]
  then have ok1: "branch_ok pok vok b1" by blast
  have "es = entries_after 0 (branch_hist phist vhist b1)"
    by (rule wal_storage.scan_exact [OF br ok1 scan])
  also have "\<dots> = branch_hist phist vhist b1"
    using wal_storage.hist_below [OF br ok1] by (simp add: entries_after_def filter_id_conv)
  finally show ?thesis
    using a assms(6) by (auto simp: branch_hist_def branch_append_wal_def sbind_eq_Inr on_overlay_eq sget_def)
qed

text \<open>A parent with two records, forked after the first.\<close>

theorem branch_append_scan_witness:
  "\<exists>p l b1 es b2. local_hist p = number_records 1 [[1], [2]] \<and>
     branch_append_wal local_storage (branch_new p fresh_local \<lparr>br_id = 1, br_parent = 0, br_base_lsn = 1, br_head_lsn = 1\<rparr>)
       \<lparr>ft_epoch = 0, ft_owner = 1, ft_lease_until = 0\<rparr> [[9]] = (Inr l, b1) \<and>
     branch_scan_wal local_storage local_storage b1 0 = (Inr es, b2) \<and> l = 2 \<and> es = number_records 1 [[1], [9]]"
proof -
  let ?tok = "\<lparr>ft_epoch = 0, ft_owner = 1, ft_lease_until = 0\<rparr>"
  have h: "local_hist fresh_local = []" "vf_faults (l_file fresh_local) = []" "l_epoch fresh_local = 0" "l_next_lsn fresh_local = 1"
    using local_rep_hist [OF fresh_rep] by (simp_all add: wal_history_def fresh_local_def inner_base_def)
  have fits: "wal_fits [[1], [2]]" "wal_fits [[9]]"
    by (simp_all add: wal_fits_def wal_payload_def record_bytes_def)
  obtain p where p: "local_inv p" "vf_faults (l_file p) = []" "local_hist p = number_records 1 [[1], [2]]"
    using local_append_no_faults [OF fresh_inv fits(1), of ?tok] h by auto
  obtain g where g: "local_append_wal fresh_local ?tok [[9]] = (Inr 1, g)" "local_inv g" "vf_faults (l_file g) = []"
    using local_append_no_faults [OF fresh_inv fits(2), of ?tok] h by auto
  define b where "b = branch_new p fresh_local \<lparr>br_id = 1, br_parent = 0, br_base_lsn = 1, br_head_lsn = 1\<rparr>"
  define b1 where "b1 = b\<lparr>bs_overlay := g\<rparr>"
  have app: "branch_append_wal local_storage b ?tok [[9]] = (Inr 2, b1)"
    using g(1) by (simp add: branch_append_wal_def sbind_def on_overlay_def sget_def to_global_def b1_def
      b_def branch_new_def local_storage_def)
  obtain es b2 where scan: "branch_scan_wal local_storage local_storage b1 0 = (Inr es, b2)"
    using local_scan_no_faults [OF g(2,3)] local_scan_no_faults [OF p(1,2)]
    by (simp add: branch_scan_wal_def sbind_def on_parent_def on_overlay_def sret_def b1_def
      b_def branch_new_def local_storage_def)
  from branch_append_scan [OF local_wal.wal_storage_axioms local_wal.wal_storage_axioms _ _ fits(2) app scan] p(1,3) fresh_inv h
  have "es = number_records 1 [[1], [9]]"
    by (simp add: b_def branch_new_def number_records_Cons)
  with app scan p(3) show ?thesis unfolding b_def by blast
qed

section \<open>Reading through the branch\<close>

definition shift_version :: "nat \<Rightarrow> nat \<times> bytes \<Rightarrow> nat \<times> bytes" where
  "shift_version k v = (k + fst v, snd v)"

lemma shift_version_simps [simp]: "fst (shift_version k v) = k + fst v" "snd (shift_version k v) = snd v"
  by (simp_all add: shift_version_def)

definition branch_history :: "nat \<Rightarrow> nat \<Rightarrow> frame list \<Rightarrow> frame list \<Rightarrow> page_chain" where
  "branch_history base pid pfs vfs =
     filter (\<lambda>v. fst v \<le> base) (page_history pid pfs) @ map (shift_version base) (page_history pid vfs)"

definition newest_at :: "nat \<Rightarrow> nat \<Rightarrow> page_chain \<Rightarrow> page sres" where
  "newest_at pid lsn vs = (let us = filter (\<lambda>v. fst v \<le> lsn) vs in
     if us = [] then Inl NotFound else Inr \<lparr>pg_id = pid, pg_lsn = fst (last us), pg_bytes = snd (last us)\<rparr>)"

lemma local_get_page_newest_at:
  assumes "local_rep fs g" and "l_retention_floor g \<le> lsn"
  shows "fst (local_get_page g pid lsn) = newest_at pid lsn (page_history pid fs)"
  using local_get_page_eq [OF assms(1), of pid lsn] assms(2) by (auto simp: newest_at_def Let_def)

lemma page_history_pos:
  assumes "local_rep fs g" and "v \<in> set (page_history pid fs)"
  shows "0 < fst v"
proof -
  have "hm_get (l_pages g) pid = Some (page_history pid fs)"
    using local_rep_pages [OF assms(1), of pid] assms(2) by auto
  with replay_facts_rep [OF assms(1)] assms(2) show ?thesis
    by (auto simp: replay_facts_def chain_ok_def)
qed

text \<open>Copy-on-write reads: inside the retention windows, a page read through a branch returns the
  newest version at or below the LSN in the branch's own history, which is the parent's
  versions up to the fork point followed by the overlay's, shifted behind it.\<close>

theorem branch_get_page_newest:
  assumes "local_rep pfs (bs_parent b)" and "local_rep vfs (bs_overlay b)"
    and "l_retention_floor (bs_parent b) \<le> min lsn (bs_base_lsn b)"
    and "l_retention_floor (bs_overlay b) \<le> lsn - bs_base_lsn b"
  shows "fst (branch_get_page local_storage local_storage b pid lsn) =
    newest_at pid lsn (branch_history (bs_base_lsn b) pid pfs vfs)"
proof -
  let ?base = "bs_base_lsn b" and ?ph = "page_history pid pfs" and ?vh = "page_history pid vfs"
  have pos: "v \<in> set ?vh \<Longrightarrow> 0 < fst v" for v
    using page_history_pos [OF assms(2)] .
  have par: "fst (local_get_page (bs_parent b) pid l) = newest_at pid l ?ph" if "l = lsn \<or> l = ?base" for l
    using local_get_page_newest_at [OF assms(1), of l pid] assms(3) that by auto
  have ovl: "fst (local_get_page (bs_overlay b) pid (lsn - ?base)) = newest_at pid (lsn - ?base) ?vh"
    using local_get_page_newest_at [OF assms(2), of "lsn - ?base" pid] assms(4) by auto
  show ?thesis
  proof (cases "lsn \<le> ?base")
    case True
    have "filter (\<lambda>v. fst v \<le> lsn) (map (shift_version ?base) ?vh) = []"
      using True pos by (fastforce simp: filter_empty_conv)
    moreover have "filter (\<lambda>v. fst v \<le> lsn) (filter (\<lambda>v. fst v \<le> ?base) ?ph) = filter (\<lambda>v. fst v \<le> lsn) ?ph"
      unfolding filter_filter using True by (intro filter_cong) auto
    ultimately have "filter (\<lambda>v. fst v \<le> lsn) (branch_history ?base pid pfs vfs) = filter (\<lambda>v. fst v \<le> lsn) ?ph"
      by (simp add: branch_history_def)
    with True par [of lsn] show ?thesis
      by (simp add: branch_get_page_def on_parent_def local_storage_def newest_at_def split_beta)
  next
    case False
    have sh: "filter (\<lambda>v. fst v \<le> lsn) (branch_history ?base pid pfs vfs) =
        filter (\<lambda>v. fst v \<le> ?base) ?ph @ map (shift_version ?base) (filter (\<lambda>v. fst v \<le> lsn - ?base) ?vh)"
    proof -
      have "filter (\<lambda>v. fst v \<le> lsn) (map (shift_version ?base) ?vh) = map (shift_version ?base) (filter (\<lambda>v. fst v \<le> lsn - ?base) ?vh)"
        using False by (simp add: filter_map comp_def le_diff_conv2 add.commute)
      moreover have "filter (\<lambda>v. fst v \<le> lsn) (filter (\<lambda>v. fst v \<le> ?base) ?ph) = filter (\<lambda>v. fst v \<le> ?base) ?ph"
        unfolding filter_filter using False by (intro filter_cong) auto
      ultimately show ?thesis by (simp add: branch_history_def)
    qed
    obtain r v where o: "local_get_page (bs_overlay b) pid (lsn - ?base) = (r, v)"
      by fastforce
    then have r: "r = newest_at pid (lsn - ?base) ?vh"
      using ovl by simp
    obtain rp p where p: "local_get_page (bs_parent b) pid ?base = (rp, p)"
      by fastforce
    then have rp: "rp = newest_at pid ?base ?ph"
      using par [of ?base] by simp
    show ?thesis
      using False o p r rp sh
      by (auto simp: branch_get_page_def on_overlay_def on_parent_def to_local_def to_global_def local_storage_def
        newest_at_def Let_def last_map)
  qed
qed

theorem branch_get_page_newest_witness:
  "\<exists>b pfs vfs. local_rep pfs (bs_parent b) \<and> local_rep vfs (bs_overlay b) \<and>
     fst (branch_get_page local_storage local_storage b 7 9) = Inr \<lparr>pg_id = 7, pg_lsn = 1, pg_bytes = pad_page [5]\<rparr>"
proof -
  let ?fs = "[FPage 1 7 [5], FPage 2 7 [6]]"
  have "log_at 1 ?fs"
    by (simp add: frame_fits_def)
  from replay_rep [OF this] obtain g where g: "local_rep ?fs g" by blast
  define b where "b = branch_new g fresh_local \<lparr>br_id = 1, br_parent = 0, br_base_lsn = 1, br_head_lsn = 1\<rparr>"
  have b: "bs_parent b = g" "bs_overlay b = fresh_local" "bs_base_lsn b = 1"
    by (simp_all add: b_def branch_new_def)
  have "local_counters g = [2, 0, 0, 0, 1]"
    using local_rep_counters [OF g] by (simp add: local_counters_def inner_base_def)
  then have "l_retention_floor g = 0"
    by (simp add: local_counters_def)
  then have "fst (branch_get_page local_storage local_storage b 7 9) = newest_at 7 9 (branch_history 1 7 ?fs [])"
    using branch_get_page_newest [of ?fs b "[]" 9 7] g fresh_rep by (simp add: b)
  with g fresh_rep b show ?thesis
    by (auto simp: newest_at_def branch_history_def page_history_def intro!: exI [of _ b])
qed

text \<open>Below the branch's own retention floor a read is not refused: the overlay reports
  \<^verbatim>\<open>NotFound\<close>, which the adaptor takes for "no private version", so it answers with the
  parent's version at the fork point although the branch's \<^verbatim>\<open>pitr_floor\<close> lies above the
  requested LSN.\<close>

theorem branch_floor_masked:
  assumes "bs_base_lsn b < lsn" and "lsn < bs_base_lsn b + l_retention_floor (bs_overlay b)"
  shows "fst (st_pitr_floor (branch_storage local_storage local_storage) b) = Inr (bs_base_lsn b + l_retention_floor (bs_overlay b)) \<and>
    fst (branch_get_page local_storage local_storage b pid lsn) = fst (local_get_page (bs_parent b) pid (bs_base_lsn b))"
proof -
  have "local_get_page (bs_overlay b) pid (lsn - bs_base_lsn b) = (Inl NotFound, bs_overlay b)"
  proof -
    have "lsn - bs_base_lsn b < l_retention_floor (bs_overlay b)"
      using assms by linarith
    then show ?thesis by (simp add: local_get_page_def)
  qed
  with assms(1) show ?thesis
    by (simp add: branch_get_page_def on_overlay_def on_parent_def to_local_def to_global_def sbind_def sget_def
      branch_storage_def local_storage_def split_beta)
qed

theorem branch_floor_masked_witness:
  "\<exists>b. fst (st_pitr_floor (branch_storage local_storage local_storage) b) = Inr 15 \<and>
     fst (branch_get_page local_storage local_storage b 7 8) = Inr \<lparr>pg_id = 7, pg_lsn = 1, pg_bytes = pad_page [5]\<rparr>"
proof -
  let ?fs = "[FPage 1 7 [5]]"
  have "log_at 1 ?fs"
    by (simp add: frame_fits_def)
  from replay_rep [OF this] obtain g where g: "local_rep ?fs g" by blast
  define b where "b = branch_new g (fresh_local\<lparr>l_retention_floor := 10\<rparr>) \<lparr>br_id = 1, br_parent = 0, br_base_lsn = 5, br_head_lsn = 5\<rparr>"
  have b: "bs_parent b = g" "bs_overlay b = fresh_local\<lparr>l_retention_floor := 10\<rparr>" "bs_base_lsn b = 5"
    by (simp_all add: b_def branch_new_def)
  have "local_counters g = [1, 0, 0, 0, 1]"
    using local_rep_counters [OF g] by (simp add: local_counters_def inner_base_def)
  then have "l_retention_floor g = 0"
    by (simp add: local_counters_def)
  then have "fst (local_get_page g 7 5) = Inr \<lparr>pg_id = 7, pg_lsn = 1, pg_bytes = pad_page [5]\<rparr>"
    using local_get_page_eq [OF g, of 7 5] by (simp add: page_history_def)
  with branch_floor_masked [of b 8 7] show ?thesis
    by (auto simp: b intro!: exI [of _ b])
qed

end
