(* ===== verification/Engine_Types.thy ===== *)
theory Engine_Types
  imports Storage_Types
begin

text \<open>
  The engine's data: errors (\<^verbatim>\<open>crates/engine/src/error.rs\<close>), values and column types
  (value.rs), the table catalog (catalog.rs) and index definitions (vector.rs).  An \<^verbatim>\<open>i64\<close>
  is an \<open>int\<close>; an \<^verbatim>\<open>f64\<close> or \<^verbatim>\<open>f32\<close> is its bit pattern, a \<open>64 word\<close> or \<open>32 word\<close>.
  Error messages are left out; the status codes of the C ABI are kept.
\<close>

section \<open>Errors\<close>

datatype engine_status =
    StOk | ErrSql | ErrConstraint | ErrConflict | ErrStorage | ErrTxn | ErrMisuse | ErrInternal

fun status_code :: "engine_status \<Rightarrow> int" where
  "status_code StOk = 0"
| "status_code ErrSql = 1"
| "status_code ErrConstraint = 2"
| "status_code ErrConflict = 3"
| "status_code ErrStorage = 4"
| "status_code ErrTxn = 5"
| "status_code ErrMisuse = 6"
| "status_code ErrInternal = 7"

fun status_of_storage :: "storage_error \<Rightarrow> engine_status" where
  "status_of_storage (Fenced h c) = ErrConflict"
| "status_of_storage Contended = ErrConflict"
| "status_of_storage Invalid = ErrMisuse"
| "status_of_storage _ = ErrStorage"

type_synonym 'a eres = "(engine_status, 'a) result"

section \<open>Values\<close>

datatype sql_value =
    VNull
  | VInt int
  | VReal u64
  | VText string
  | VBlob bytes
  | VVector "u32 list"

definition is_null :: "sql_value \<Rightarrow> bool" where
  "is_null v \<longleftrightarrow> v = VNull"

fun type_name :: "sql_value \<Rightarrow> string" where
  "type_name VNull = ''NULL''"
| "type_name (VInt i) = ''INTEGER''"
| "type_name (VReal r) = ''REAL''"
| "type_name (VText s) = ''TEXT''"
| "type_name (VBlob b) = ''BLOB''"
| "type_name (VVector v) = ''VECTOR''"

datatype column_type = CtInteger | CtReal | CtText | CtBlob | CtVector nat

fun to_upper_char :: "char \<Rightarrow> char" where
  "to_upper_char c = (let n = of_char c :: nat in if 97 \<le> n \<and> n \<le> 122 then char_of (n - 32) else c)"

definition str_contains :: "string \<Rightarrow> string \<Rightarrow> bool" where
  "str_contains s p \<longleftrightarrow> split_once p s \<noteq> None"

definition column_type_from_sql :: "string \<Rightarrow> column_type" where
  "column_type_from_sql name = (let n = map to_upper_char name in
     if str_contains n ''INT'' then CtInteger
     else if str_contains n ''CHAR'' \<or> str_contains n ''TEXT'' \<or> str_contains n ''CLOB'' \<or> str_contains n ''STRING'' then CtText
     else if str_contains n ''VEC'' then CtVector 0
     else if str_contains n ''REAL'' \<or> str_contains n ''FLOA'' \<or> str_contains n ''DOUB'' \<or>
             str_contains n ''NUMERIC'' \<or> str_contains n ''DEC'' then CtReal
     else if str_contains n ''BLOB'' \<or> str_contains n ''BYTEA'' then CtBlob
     else CtText)"

fun is_vector :: "column_type \<Rightarrow> bool" where
  "is_vector (CtVector d) = True"
| "is_vector _ = False"

fun coltype_tag :: "column_type \<Rightarrow> byte" where
  "coltype_tag CtInteger = 0"
| "coltype_tag CtReal = 1"
| "coltype_tag CtText = 2"
| "coltype_tag CtBlob = 3"
| "coltype_tag (CtVector d) = 4"

definition coltype_from_tag :: "byte \<Rightarrow> column_type" where
  "coltype_from_tag t = (if t = 0 then CtInteger else if t = 1 then CtReal else if t = 3 then CtBlob
     else if t = 4 then CtVector 0 else CtText)"

section \<open>Catalog\<close>

record column =
  col_name :: string
  col_ty :: column_type
  col_primary_key :: bool
  col_not_null :: bool
  col_unique :: bool
  col_autoincrement :: bool
  col_default_sql :: "string option"

record foreign_key =
  fk_name :: string
  fk_columns :: "string list"
  fk_foreign_table :: string
  fk_foreign_columns :: "string list"

datatype policy_command = PcAll | PcSelect | PcInsert | PcUpdate | PcDelete

fun policy_command_str :: "policy_command \<Rightarrow> string" where
  "policy_command_str PcAll = ''ALL''"
| "policy_command_str PcSelect = ''SELECT''"
| "policy_command_str PcInsert = ''INSERT''"
| "policy_command_str PcUpdate = ''UPDATE''"
| "policy_command_str PcDelete = ''DELETE''"

fun policy_command_tag :: "policy_command \<Rightarrow> byte" where
  "policy_command_tag PcAll = 0"
| "policy_command_tag PcSelect = 1"
| "policy_command_tag PcInsert = 2"
| "policy_command_tag PcUpdate = 3"
| "policy_command_tag PcDelete = 4"

definition policy_command_from_tag :: "byte \<Rightarrow> policy_command" where
  "policy_command_from_tag t = (if t = 1 then PcSelect else if t = 2 then PcInsert
     else if t = 3 then PcUpdate else if t = 4 then PcDelete else PcAll)"

record policy =
  pol_name :: string
  pol_command :: policy_command
  pol_roles :: "string list"
  pol_using :: "string option"
  pol_check :: "string option"

record table_schema =
  sch_name :: string
  sch_columns :: "column list"
  sch_foreign_keys :: "foreign_key list"
  sch_checks :: "string list"
  sch_uniques :: "string list list"
  sch_rls_enabled :: bool
  sch_policies :: "policy list"

fun position :: "('a \<Rightarrow> bool) \<Rightarrow> 'a list \<Rightarrow> nat option" where
  "position p [] = None"
| "position p (x # xs) = (if p x then Some 0 else map_option Suc (position p xs))"

definition column_index :: "table_schema \<Rightarrow> string \<Rightarrow> nat option" where
  "column_index s name = position (\<lambda>c. eq_ignore_ascii_case (col_name c) name) (sch_columns s)"

definition primary_key_index :: "table_schema \<Rightarrow> nat option" where
  "primary_key_index s = position col_primary_key (sch_columns s)"

definition primary_key_indices :: "table_schema \<Rightarrow> nat list" where
  "primary_key_indices s = map fst (filter (\<lambda>(i, c). col_primary_key c) (enumerate 0 (sch_columns s)))"

definition unique_sets :: "table_schema \<Rightarrow> nat list list" where
  "unique_sets s =
     (let pk = primary_key_indices s in if pk = [] then [] else [pk]) @
     map (\<lambda>(i, c). [i]) (filter (\<lambda>(i, c). col_unique c) (enumerate 0 (sch_columns s))) @
     concat (map (\<lambda>u. let idxs = List.map_filter (column_index s) u in
       if length idxs = length u then [idxs] else []) (sch_uniques s))"

section \<open>Index definitions\<close>

datatype metric = Cosine | L2 | InnerProduct

definition metric_from_name :: "string \<Rightarrow> metric option" where
  "metric_from_name s = (let n = to_ascii_lowercase s in
     if n \<in> {''cosine'', ''cos''} then Some Cosine
     else if n \<in> {''l2'', ''euclidean'', ''l2sq''} then Some L2
     else if n \<in> {''ip'', ''inner_product'', ''dot'', ''negative_inner_product''} then Some InnerProduct
     else None)"

fun metric_as_name :: "metric \<Rightarrow> string" where
  "metric_as_name Cosine = ''cosine''"
| "metric_as_name L2 = ''l2''"
| "metric_as_name InnerProduct = ''inner_product''"

fun metric_tag :: "metric \<Rightarrow> byte" where
  "metric_tag Cosine = 0"
| "metric_tag L2 = 1"
| "metric_tag InnerProduct = 2"

definition metric_from_tag :: "byte \<Rightarrow> metric" where
  "metric_from_tag t = (if t = 1 then L2 else if t = 2 then InnerProduct else Cosine)"

record index_params =
  ip_m :: nat
  ip_ef_construction :: nat
  ip_ef_search :: nat
  ip_metric :: metric

definition index_params_default :: index_params where
  "index_params_default = \<lparr>ip_m = 16, ip_ef_construction = 200, ip_ef_search = 64, ip_metric = Cosine\<rparr>"

record index_def =
  ix_name :: string
  ix_table :: string
  ix_column :: string
  ix_params :: index_params

section \<open>Lemmas\<close>

lemma coltype_tag_inverse: "\<not> is_vector t \<Longrightarrow> coltype_from_tag (coltype_tag t) = t"
  by (cases t) (simp_all add: coltype_from_tag_def)

lemma coltype_tag_vector: "coltype_tag t = 4 \<longleftrightarrow> is_vector t"
  by (cases t) simp_all

lemma policy_command_tag_inverse [simp]: "policy_command_from_tag (policy_command_tag c) = c"
  by (cases c) (simp_all add: policy_command_from_tag_def)

lemma metric_tag_inverse [simp]: "metric_from_tag (metric_tag m) = m"
  by (cases m) (simp_all add: metric_from_tag_def)

lemma metric_name_inverse [simp]: "metric_from_name (metric_as_name m) = Some m"
  by (cases m) (simp_all add: metric_from_name_def to_ascii_lowercase_def lower_char_def Let_def)

lemma position_Some:
  "position p xs = Some i \<Longrightarrow> i < length xs \<and> p (xs ! i) \<and> (\<forall>j<i. \<not> p (xs ! j))"
proof (induction xs arbitrary: i)
  case (Cons x xs)
  then show ?case
    by (auto simp: less_Suc_eq_0_disj nth_Cons' split: if_splits)
qed simp

lemma position_None: "position p xs = None \<longleftrightarrow> (\<forall>x\<in>set xs. \<not> p x)"
  by (induction xs) auto

end
