(* ===== verification/Value_Ops.thy ===== *)
theory Value_Ops
  imports Engine_Types
begin

text \<open>
  Operations on SQL values (\<^verbatim>\<open>crates/engine/src/value.rs\<close>): truth, comparison, column affinity
  and the base64 form of blobs.  A \<^verbatim>\<open>f64\<close> is its bit pattern; the conversions from and to
  \<^verbatim>\<open>i64\<close> and the comparison that the source takes from the language are written out on the
  sign, exponent and fraction fields, rounding to nearest with ties to even.  The text form
  of a vector (decimal \<^verbatim>\<open>f32\<close> literals) is a parameter.
\<close>

section \<open>Binary64 numbers\<close>

fun bit_len :: "nat \<Rightarrow> nat" where
  "bit_len n = (if n = 0 then 0 else Suc (bit_len (n div 2)))"

declare bit_len.simps [simp del]

text \<open>\<^verbatim>\<open>n as f64\<close> for a magnitude: the fields of the nearest number, as one integer.  A
  significand that rounds up to the next power of two carries into the exponent.\<close>

definition round_even :: "nat \<Rightarrow> nat \<Rightarrow> nat" where
  "round_even n sh = (let q = n div 2 ^ sh; r = n mod 2 ^ sh
     in if 2 * r > 2 ^ sh \<or> (2 * r = 2 ^ sh \<and> odd q) then q + 1 else q)"

definition f64_magnitude :: "nat \<Rightarrow> nat" where
  "f64_magnitude n = (if n = 0 then 0 else let k = bit_len n - 1 in
     (1022 + k) * 2 ^ 52 + (if k \<le> 52 then n * 2 ^ (52 - k) else round_even n (k - 52)))"

definition f64_of_i64 :: "int \<Rightarrow> u64" where
  "f64_of_i64 i = word_of_nat ((if i < 0 then 2 ^ 63 else 0) + f64_magnitude (nat \<bar>i\<bar>))"

definition f64_negative :: "u64 \<Rightarrow> bool" where
  "f64_negative x \<longleftrightarrow> 2 ^ 63 \<le> unat x"

definition f64_abs :: "u64 \<Rightarrow> nat" where
  "f64_abs x = unat x mod 2 ^ 63"

definition f64_exponent :: "u64 \<Rightarrow> nat" where
  "f64_exponent x = f64_abs x div 2 ^ 52"

definition f64_fraction :: "u64 \<Rightarrow> nat" where
  "f64_fraction x = f64_abs x mod 2 ^ 52"

definition f64_is_nan :: "u64 \<Rightarrow> bool" where
  "f64_is_nan x \<longleftrightarrow> f64_exponent x = 2047 \<and> f64_fraction x \<noteq> 0"

text \<open>A finite magnitude is \<open>significand * 2 ^ (scale - 1075)\<close>.\<close>

definition f64_significand :: "u64 \<Rightarrow> nat" where
  "f64_significand x = (if f64_exponent x = 0 then f64_fraction x else 2 ^ 52 + f64_fraction x)"

definition f64_scale :: "u64 \<Rightarrow> nat" where
  "f64_scale x = max 1 (f64_exponent x)"

text \<open>\<^verbatim>\<open>x.fract() == 0.0\<close>, false for infinities and NaN.\<close>

definition f64_integral :: "u64 \<Rightarrow> bool" where
  "f64_integral x \<longleftrightarrow> f64_exponent x < 2047 \<and>
     (1075 \<le> f64_scale x \<or> 2 ^ (1075 - f64_scale x) dvd f64_significand x)"

definition f64_trunc :: "u64 \<Rightarrow> nat" where
  "f64_trunc x = (if 1075 \<le> f64_scale x then f64_significand x * 2 ^ (f64_scale x - 1075)
     else f64_significand x div 2 ^ (1075 - f64_scale x))"

text \<open>\<^verbatim>\<open>x as i64\<close> saturates and maps NaN to zero.\<close>

definition clamp_i64 :: "int \<Rightarrow> int" where
  "clamp_i64 i = max (- (2 ^ 63)) (min (2 ^ 63 - 1) i)"

definition i64_of_f64 :: "u64 \<Rightarrow> int" where
  "i64_of_f64 x = (if f64_is_nan x then 0
     else clamp_i64 (if f64_negative x then - int (f64_trunc x) else int (f64_trunc x)))"

text \<open>\<^verbatim>\<open>partial_cmp\<close>: unordered when an operand is NaN, and the two zeros are equal.\<close>

datatype ordering = OLess | OEqual | OGreater

definition cmp_of :: "'a::linorder \<Rightarrow> 'a \<Rightarrow> ordering" where
  "cmp_of a b = (if a < b then OLess else if a = b then OEqual else OGreater)"

definition f64_key :: "u64 \<Rightarrow> int" where
  "f64_key x = (if f64_negative x then - int (f64_abs x) else int (f64_abs x))"

definition f64_partial_cmp :: "u64 \<Rightarrow> u64 \<Rightarrow> ordering option" where
  "f64_partial_cmp x y = (if f64_is_nan x \<or> f64_is_nan y then None else Some (cmp_of (f64_key x) (f64_key y)))"

section \<open>Truth and comparison\<close>

fun as_bool :: "sql_value \<Rightarrow> bool option" where
  "as_bool VNull = None"
| "as_bool (VInt i) = Some (i \<noteq> 0)"
| "as_bool (VReal r) = Some (f64_abs r \<noteq> 0)"
| "as_bool (VText s) = Some (s \<noteq> [] \<and> s \<noteq> ''0'')"
| "as_bool (VBlob b) = Some (b \<noteq> [])"
| "as_bool (VVector v) = Some (v \<noteq> [])"

fun numeric :: "sql_value \<Rightarrow> u64 option" where
  "numeric (VInt i) = Some (f64_of_i64 i)"
| "numeric (VReal r) = Some r"
| "numeric _ = None"

fun cmp_lex :: "nat list \<Rightarrow> nat list \<Rightarrow> ordering" where
  "cmp_lex [] [] = OEqual"
| "cmp_lex [] (y # ys) = OLess"
| "cmp_lex (x # xs) [] = OGreater"
| "cmp_lex (x # xs) (y # ys) = (case cmp_of x y of OEqual \<Rightarrow> cmp_lex xs ys | c \<Rightarrow> c)"

definition sql_cmp :: "sql_value \<Rightarrow> sql_value \<Rightarrow> ordering option" where
  "sql_cmp a b =
     (if is_null a \<or> is_null b then None
      else case (numeric a, numeric b) of
        (Some x, Some y) \<Rightarrow> f64_partial_cmp x y
      | _ \<Rightarrow> (case (a, b) of
          (VText s, VText t) \<Rightarrow> Some (cmp_lex (map of_char s) (map of_char t))
        | (VBlob s, VBlob t) \<Rightarrow> Some (cmp_lex (map unat s) (map unat t))
        | _ \<Rightarrow> None))"

definition sql_eq :: "sql_value \<Rightarrow> sql_value \<Rightarrow> bool option" where
  "sql_eq a b = (if is_null a \<or> is_null b then None
     else case sql_cmp a b of Some c \<Rightarrow> Some (c = OEqual) | None \<Rightarrow> Some False)"

text \<open>Column affinity; \<open>pv\<close> parses a vector literal.\<close>

fun coerce :: "(string \<Rightarrow> u32 list option) \<Rightarrow> column_type \<Rightarrow> sql_value \<Rightarrow> sql_value" where
  "coerce pv CtReal (VInt i) = VReal (f64_of_i64 i)"
| "coerce pv CtInteger (VReal r) = (if f64_integral r then VInt (i64_of_f64 r) else VReal r)"
| "coerce pv (CtVector d) (VText s) = (case pv s of Some v \<Rightarrow> VVector v | None \<Rightarrow> VText s)"
| "coerce pv _ v = v"

section \<open>Base64\<close>

definition B64 :: string where
  "B64 = ''ABCDEFGHIJKLMNOPQRSTUVWXYZabcdefghijklmnopqrstuvwxyz0123456789+/''"

definition b64_digit :: "nat \<Rightarrow> char" where
  "b64_digit n = B64 ! (n mod 64)"

fun base64_encode :: "bytes \<Rightarrow> string" where
  "base64_encode [] = []"
| "base64_encode [a] = (let n = unat a * 65536 in
     [b64_digit (n div 262144), b64_digit (n div 4096), CHR ''='', CHR ''=''])"
| "base64_encode [a, b] = (let n = unat a * 65536 + unat b * 256 in
     [b64_digit (n div 262144), b64_digit (n div 4096), b64_digit (n div 64), CHR ''=''])"
| "base64_encode (a # b # c # rest) = (let n = unat a * 65536 + unat b * 256 + unat c in
     [b64_digit (n div 262144), b64_digit (n div 4096), b64_digit (n div 64), b64_digit n] @ base64_encode rest)"

definition b64_val :: "char \<Rightarrow> nat option" where
  "b64_val ch = (let c = of_char ch :: nat in
     if 65 \<le> c \<and> c \<le> 90 then Some (c - 65)
     else if 97 \<le> c \<and> c \<le> 122 then Some (c - 97 + 26)
     else if 48 \<le> c \<and> c \<le> 57 then Some (c - 48 + 52)
     else if c = 43 then Some 62 else if c = 47 then Some 63 else None)"

definition ascii_whitespace :: "char \<Rightarrow> bool" where
  "ascii_whitespace c \<longleftrightarrow> (of_char c :: nat) \<in> {32, 9, 10, 12, 13}"

text \<open>The inner loop over one chunk: the accumulated bits and the number of padding signs.\<close>

fun b64_chunk :: "string \<Rightarrow> nat \<times> nat \<Rightarrow> (nat \<times> nat) option" where
  "b64_chunk [] acc = Some acc"
| "b64_chunk (c # cs) (n, pad) =
     (if c = CHR ''='' then b64_chunk cs (n * 64, pad + 1)
      else case b64_val c of None \<Rightarrow> None | Some v \<Rightarrow> b64_chunk cs (n * 64 + v, pad))"

fun b64_chunks :: "string \<Rightarrow> bytes option" where
  "b64_chunks [] = Some []"
| "b64_chunks (a # b # c # d # rest) = (case b64_chunk [a, b, c, d] (0, 0) of
     None \<Rightarrow> None
   | Some (n, pad) \<Rightarrow> map_option (\<lambda>out. [word_of_nat (n div 65536)] @ (if pad < 2 then [word_of_nat (n div 256)] else []) @
       (if pad < 1 then [word_of_nat n] else []) @ out) (b64_chunks rest))"
| "b64_chunks _ = None"

definition base64_decode :: "string \<Rightarrow> bytes option" where
  "base64_decode s = b64_chunks (filter (\<lambda>c. \<not> ascii_whitespace c) s)"

section \<open>Rounding\<close>

lemma bit_len_bounds: "0 < n \<Longrightarrow> 0 < bit_len n \<and> 2 ^ (bit_len n - 1) \<le> n \<and> n < 2 ^ bit_len n"
proof (induction n rule: bit_len.induct)
  case (1 n)
  show ?case
  proof (cases "n div 2 = 0")
    case True
    with 1 have "n = 1" by simp
    then show ?thesis by (simp add: bit_len.simps)
  next
    case False
    with 1 have "2 ^ (bit_len (n div 2) - 1) \<le> n div 2" "n div 2 < 2 ^ bit_len (n div 2)" "0 < bit_len (n div 2)" by simp_all
    moreover have "bit_len n = Suc (bit_len (n div 2))"
      using 1 by (subst bit_len.simps) simp
    moreover have "2 ^ bit_len (n div 2) = 2 * (2::nat) ^ (bit_len (n div 2) - 1)"
      using calculation(3) by (cases "bit_len (n div 2)") simp_all
    moreover have "2 * (n div 2) \<le> n" "n < 2 * (n div 2) + 2" using div_mult_mod_eq [of n 2] by simp_all
    ultimately have "2 * 2 ^ (bit_len (n div 2) - 1) \<le> n" "n < 2 * 2 ^ bit_len (n div 2)" by linarith+
    with \<open>bit_len n = _\<close> \<open>2 ^ bit_len (n div 2) = _\<close> show ?thesis by simp
  qed
qed

lemma bit_len_mono: "n \<le> m \<Longrightarrow> bit_len n \<le> bit_len m"
proof (cases "n = 0")
  case False
  assume "n \<le> m"
  with bit_len_bounds [of n] bit_len_bounds [of m] False have "(2::nat) ^ (bit_len n - 1) < 2 ^ bit_len m" by linarith
  then have "bit_len n - 1 < bit_len m" by (rule power_less_imp_less_exp [rotated]) simp
  then show ?thesis by simp
qed (subst bit_len.simps, simp)

lemma round_even_mono: "n \<le> m \<Longrightarrow> round_even n sh \<le> round_even m sh"
proof -
  assume le: "n \<le> m"
  then have "n div 2 ^ sh \<le> m div 2 ^ sh" by (rule div_le_mono)
  moreover have "n mod 2 ^ sh \<le> m mod 2 ^ sh" if "n div 2 ^ sh = m div 2 ^ sh"
    using le that by (metis add_le_cancel_left div_mult_mod_eq)
  ultimately show ?thesis
    by (cases "n div 2 ^ sh = m div 2 ^ sh") (auto simp: round_even_def Let_def)
qed

lemma round_even_exact: "round_even (q * 2 ^ sh) sh = q"
  by (simp add: round_even_def)

text \<open>The significand part of a magnitude, at least \<open>2 ^ 52\<close> and at most \<open>2 ^ 53\<close>.\<close>

definition significand_of :: "nat \<Rightarrow> nat" where
  "significand_of n = (let k = bit_len n - 1 in if k \<le> 52 then n * 2 ^ (52 - k) else round_even n (k - 52))"

lemma magnitude_split: "0 < n \<Longrightarrow> f64_magnitude n = (1022 + (bit_len n - 1)) * 2 ^ 52 + significand_of n"
  by (simp add: f64_magnitude_def significand_of_def Let_def)

lemma significand_of_bounds:
  assumes "0 < n"
  shows "2 ^ 52 \<le> significand_of n" and "significand_of n \<le> 2 ^ 53" and "bit_len n \<le> 53 \<Longrightarrow> significand_of n < 2 ^ 53"
proof -
  define k where "k = bit_len n - 1"
  have b: "2 ^ k \<le> n" "n < 2 ^ Suc k" and l: "bit_len n = Suc k"
    using bit_len_bounds [OF assms] by (simp_all add: k_def)
  have "2 ^ 52 \<le> significand_of n \<and> significand_of n \<le> 2 ^ 53 \<and> (k \<le> 52 \<longrightarrow> significand_of n < 2 ^ 53)"
  proof (cases "k \<le> 52")
    case True
    then have e: "(2::nat) ^ k * 2 ^ (52 - k) = 2 ^ 52" "(2::nat) ^ Suc k * 2 ^ (52 - k) = 2 ^ 53"
      by (simp_all flip: power_add)
    have "2 ^ k * 2 ^ (52 - k) \<le> n * 2 ^ (52 - k)" "n * 2 ^ (52 - k) < 2 ^ Suc k * 2 ^ (52 - k)"
      using b by (simp_all del: power_Suc)
    then have "2 ^ 52 \<le> n * 2 ^ (52 - k)" "n * 2 ^ (52 - k) < 2 ^ 53" unfolding e .
    with True l show ?thesis by (simp add: significand_of_def)
  next
    case False
    then have e: "(2::nat) ^ k = 2 ^ 52 * 2 ^ (k - 52)" "(2::nat) ^ Suc k = 2 ^ 53 * 2 ^ (k - 52)"
      by (subst power_add [symmetric], simp)+
    have "round_even (2 ^ k) (k - 52) \<le> round_even n (k - 52)" "round_even n (k - 52) \<le> round_even (2 ^ Suc k) (k - 52)"
      using b by (intro round_even_mono; simp)+
    then show ?thesis
      unfolding e using False l by (simp add: round_even_exact significand_of_def)
  qed
  with l show "2 ^ 52 \<le> significand_of n" "significand_of n \<le> 2 ^ 53" "bit_len n \<le> 53 \<Longrightarrow> significand_of n < 2 ^ 53"
    by simp_all
qed

lemma significand_of_mono: "n \<le> m \<Longrightarrow> bit_len n = bit_len m \<Longrightarrow> significand_of n \<le> significand_of m"
  by (simp add: significand_of_def Let_def round_even_mono)

lemma magnitude_mono:
  assumes "n \<le> m"
  shows "f64_magnitude n \<le> f64_magnitude m"
proof (cases "n = 0")
  case False
  then have pos: "0 < n" "0 < m" using assms by simp_all
  show ?thesis
  proof (cases "bit_len n = bit_len m")
    case True
    with significand_of_mono [OF assms True] show ?thesis
      by (simp add: magnitude_split pos)
  next
    case False
    with bit_len_mono [OF assms] have "bit_len n < bit_len m" by simp
    then have "bit_len n - 1 + 1 \<le> bit_len m - 1" using bit_len_bounds [OF pos(1)] by linarith
    then have "(bit_len n - 1) * 2 ^ 52 + 2 ^ 52 \<le> (bit_len m - 1) * 2 ^ 52"
      by (metis add_mult_distrib mult.left_neutral mult_le_mono1)
    with significand_of_bounds [OF pos(1)] significand_of_bounds [OF pos(2)] show ?thesis
      by (simp add: magnitude_split pos add_mult_distrib)
  qed
qed (simp add: f64_magnitude_def)

lemma bit_len_exact: "n < 2 ^ k \<Longrightarrow> bit_len n \<le> k"
proof (cases "n = 0")
  case False
  assume "n < 2 ^ k"
  with bit_len_bounds [of n] False have "(2::nat) ^ (bit_len n - 1) < 2 ^ k" by linarith
  then have "bit_len n - 1 < k" by (rule power_less_imp_less_exp [rotated]) simp
  then show ?thesis by simp
qed (subst bit_len.simps, simp)

lemma magnitude_strict:
  assumes "n < m" and "m \<le> 2 ^ 53"
  shows "f64_magnitude n < f64_magnitude m"
proof (cases "n = 0")
  case True
  then show ?thesis using assms by (simp add: magnitude_split) (simp add: f64_magnitude_def)
next
  case False
  then have pos: "0 < n" "0 < m" using assms by simp_all
  have l: "bit_len n \<le> 53" using assms by (intro bit_len_exact) simp
  show ?thesis
  proof (cases "bit_len n = bit_len m")
    case True
    with l have "bit_len m - 1 \<le> 52" by simp
    with True have "significand_of n < significand_of m"
      using assms by (simp add: significand_of_def Let_def)
    with True show ?thesis by (simp add: magnitude_split pos)
  next
    case False
    with bit_len_mono [of n m] assms have "bit_len n < bit_len m" by simp
    then have "bit_len n - 1 + 1 \<le> bit_len m - 1" using bit_len_bounds [OF pos(1)] by linarith
    then have "(bit_len n - 1) * 2 ^ 52 + 2 ^ 52 \<le> (bit_len m - 1) * 2 ^ 52"
      by (metis add_mult_distrib mult.left_neutral mult_le_mono1)
    with significand_of_bounds(3) [OF pos(1) l] significand_of_bounds [OF pos(2)] show ?thesis
      by (simp add: magnitude_split pos add_mult_distrib)
  qed
qed

lemma magnitude_bound: "n \<le> 2 ^ 63 \<Longrightarrow> f64_magnitude n < 2047 * 2 ^ 52"
proof -
  assume "n \<le> 2 ^ 63"
  then have "n < 2 ^ 64" by simp
  then have "bit_len n \<le> 64" by (rule bit_len_exact)
  then have "(bit_len n - 1) * 2 ^ 52 \<le> 63 * 2 ^ 52" by simp
  with significand_of_bounds(2) [of n] show ?thesis
    by (cases "n = 0") (simp_all add: magnitude_split add_mult_distrib, simp add: f64_magnitude_def)
qed

lemma f64_of_i64_fields:
  assumes "\<bar>i\<bar> \<le> 2 ^ 63"
  shows "f64_abs (f64_of_i64 i) = f64_magnitude (nat \<bar>i\<bar>)" and "f64_negative (f64_of_i64 i) \<longleftrightarrow> i < 0"
    and "\<not> f64_is_nan (f64_of_i64 i)"
proof -
  have m: "f64_magnitude (nat \<bar>i\<bar>) < 2047 * 2 ^ 52"
    using assms by (intro magnitude_bound) simp
  then have u: "unat (f64_of_i64 i) = (if i < 0 then 2 ^ 63 else 0) + f64_magnitude (nat \<bar>i\<bar>)"
    unfolding f64_of_i64_def by (subst unat_of_nat) (cases "i < 0"; simp del: of_nat_add)
  from u m show a: "f64_abs (f64_of_i64 i) = f64_magnitude (nat \<bar>i\<bar>)"
    by (cases "i < 0") (simp_all add: f64_abs_def)
  from u m show "f64_negative (f64_of_i64 i) \<longleftrightarrow> i < 0"
    by (cases "i < 0") (simp_all add: f64_negative_def)
  from m have "f64_magnitude (nat \<bar>i\<bar>) div 2 ^ 52 < 2047" by (simp add: less_mult_imp_div_less)
  with a show "\<not> f64_is_nan (f64_of_i64 i)"
    by (simp add: f64_is_nan_def f64_exponent_def)
qed

lemma f64_key_of_i64:
  assumes "\<bar>i\<bar> \<le> 2 ^ 63"
  shows "f64_key (f64_of_i64 i) = (if i < 0 then - int (f64_magnitude (nat \<bar>i\<bar>)) else int (f64_magnitude (nat \<bar>i\<bar>)))"
  by (simp add: f64_key_def f64_of_i64_fields [OF assms])

lemma f64_key_mono:
  assumes "a \<le> b" and "\<bar>a\<bar> \<le> 2 ^ 63" and "\<bar>b\<bar> \<le> 2 ^ 63"
  shows "f64_key (f64_of_i64 a) \<le> f64_key (f64_of_i64 b)"
  using magnitude_mono [of "nat \<bar>a\<bar>" "nat \<bar>b\<bar>"] magnitude_mono [of "nat \<bar>b\<bar>" "nat \<bar>a\<bar>"] assms
  by (auto simp: f64_key_of_i64)

lemma f64_key_strict:
  assumes "a < b" and "\<bar>a\<bar> \<le> 2 ^ 53" and "\<bar>b\<bar> \<le> 2 ^ 53"
  shows "f64_key (f64_of_i64 a) < f64_key (f64_of_i64 b)"
proof -
  have k: "f64_key (f64_of_i64 i) = (if i < 0 then - int (f64_magnitude (nat \<bar>i\<bar>)) else int (f64_magnitude (nat \<bar>i\<bar>)))"
    if "\<bar>i\<bar> \<le> 2 ^ 53" for i
    using that by (intro f64_key_of_i64) simp
  consider "0 \<le> a" | "a < 0" "b < 0" | "a < 0" "0 \<le> b" by linarith
  then show ?thesis
  proof cases
    case 1
    with magnitude_strict [of "nat a" "nat b"] assms show ?thesis by (simp add: k)
  next
    case 2
    with magnitude_strict [of "nat (- b)" "nat (- a)"] assms show ?thesis by (simp add: k)
  next
    case 3
    then have "0 < f64_magnitude (nat (- a))"
      using magnitude_strict [of 0 "nat (- a)"] assms by (simp add: nat_le_iff)
    with 3 assms show ?thesis by (simp add: k)
  qed
qed

lemma sql_cmp_ints:
  assumes "\<bar>a\<bar> \<le> 2 ^ 63" and "\<bar>b\<bar> \<le> 2 ^ 63"
  shows "sql_cmp (VInt a) (VInt b) = Some (cmp_of (f64_key (f64_of_i64 a)) (f64_key (f64_of_i64 b)))"
  using f64_of_i64_fields(3) [OF assms(1)] f64_of_i64_fields(3) [OF assms(2)]
  by (simp add: sql_cmp_def is_null_def f64_partial_cmp_def)

lemma cmp_of_cong: "(a < b \<longleftrightarrow> c < d) \<Longrightarrow> (a = b \<longleftrightarrow> c = d) \<Longrightarrow> cmp_of a b = cmp_of c d"
  by (simp add: cmp_of_def)

text \<open>Integers are compared as \<^verbatim>\<open>f64\<close>: the comparison never reverses two 64-bit integers and is
  exact up to \<open>2 ^ 53\<close>, but beyond that different integers are equal in SQL.\<close>

theorem int_compare_rounds:
  assumes "\<bar>a\<bar> \<le> 2 ^ 63" and "\<bar>b\<bar> \<le> 2 ^ 63"
  shows "(a \<le> b \<longrightarrow> sql_cmp (VInt a) (VInt b) \<in> {Some OLess, Some OEqual}) \<and>
    (\<bar>a\<bar> \<le> 2 ^ 53 \<and> \<bar>b\<bar> \<le> 2 ^ 53 \<longrightarrow> sql_cmp (VInt a) (VInt b) = Some (cmp_of a b)) \<and>
    sql_eq (VInt 9007199254740992) (VInt 9007199254740993) = Some True"
proof -
  have "cmp_of (f64_key (f64_of_i64 a)) (f64_key (f64_of_i64 b)) = cmp_of a b" if "\<bar>a\<bar> \<le> 2 ^ 53" "\<bar>b\<bar> \<le> 2 ^ 53"
    using f64_key_strict [of a b] f64_key_strict [of b a] that by (intro cmp_of_cong) (cases a b rule: linorder_cases; force)+
  moreover have "f64_magnitude 9007199254740992 = f64_magnitude 9007199254740993"
    by (simp add: f64_magnitude_def bit_len.simps round_even_def)
  then have "sql_eq (VInt 9007199254740992) (VInt 9007199254740993) = Some True"
    by (simp add: sql_eq_def sql_cmp_ints f64_key_of_i64 cmp_of_def is_null_def)
  moreover have "cmp_of (f64_key (f64_of_i64 a)) (f64_key (f64_of_i64 b)) \<in> {OLess, OEqual}" if "a \<le> b"
    using f64_key_mono [OF that assms] by (simp add: cmp_of_def)
  ultimately show ?thesis unfolding sql_cmp_ints [OF assms] by auto
qed

theorem int_compare_rounds_witness:
  "sql_cmp (VInt 7) (VInt 9) = Some OLess \<and> sql_eq (VInt 9007199254740992) (VInt 9007199254740993) = Some True"
  using int_compare_rounds [of 7 9] by (simp add: cmp_of_def)

section \<open>Base64 round trip\<close>

lemma b64_val_digit: "b64_val (b64_digit n) = Some (n mod 64)"
proof -
  have "\<forall>k<64. b64_val (B64 ! k) = Some k"
    by (simp add: All_less_Suc B64_def b64_val_def numeral_eq_Suc)
  then show ?thesis by (simp add: b64_digit_def)
qed

lemma b64_digit_clean: "b64_digit n \<noteq> CHR ''=''" "\<not> ascii_whitespace (b64_digit n)"
proof -
  have "b64_val c = None" if "c = CHR ''='' \<or> ascii_whitespace c" for c
    using that by (auto simp: b64_val_def ascii_whitespace_def Let_def)
  with b64_val_digit [of n] show "b64_digit n \<noteq> CHR ''=''" "\<not> ascii_whitespace (b64_digit n)"
    by force+
qed

lemma base64_digits:
  assumes "(n::nat) < 16777216"
  shows "262144 * (n div 262144 mod 64) + 4096 * (n div 4096 mod 64) + n div 64 mod 64 * 64 + n mod 64 = n"
    and "n div 262144 mod 64 = n div 262144"
proof -
  have d: "n div 4096 = n div 64 div 64" "n div 262144 = n div 64 div 64 div 64"
    by (simp_all flip: div_mult2_eq)
  have "n div 262144 < 64"
    using assms by (simp add: less_mult_imp_div_less)
  then show "n div 262144 mod 64 = n div 262144" by simp
  then have "n div 262144 mod 64 = n div 64 div 64 div 64" by (simp add: d(2))
  moreover have "n = n div 64 * 64 + n mod 64" "n div 64 = n div 64 div 64 * 64 + n div 64 mod 64"
    "n div 64 div 64 = n div 64 div 64 div 64 * 64 + n div 64 div 64 mod 64"
    by (rule div_mult_mod_eq [symmetric])+
  ultimately show "262144 * (n div 262144 mod 64) + 4096 * (n div 4096 mod 64) + n div 64 mod 64 * 64 + n mod 64 = n"
    unfolding d(1) by linarith
qed

lemma bytes_of_triple:
  fixes a b c :: byte
  shows "word_of_nat ((unat a * 65536 + unat b * 256 + unat c) div 65536) = a"
    and "word_of_nat ((unat a * 65536 + unat b * 256 + unat c) div 256) = b"
    and "word_of_nat (unat a * 65536 + unat b * 256 + unat c) = c"
    and "unat a * 65536 + unat b * 256 + unat c < 16777216"
proof -
  have l: "unat a < 256" "unat b < 256" "unat c < 256" by (rule unat_byte_less)+
  have "(unat a * 65536 + unat b * 256 + unat c) div 65536 = unat a"
    using l by (subst div_nat_eqI) simp_all
  then show "word_of_nat ((unat a * 65536 + unat b * 256 + unat c) div 65536) = a" by simp
  have "(unat a * 65536 + unat b * 256 + unat c) div 256 = unat a * 256 + unat b"
    using l by (subst div_nat_eqI) simp_all
  moreover have m: "(256 :: byte) = 0" "(65536 :: byte) = 0" by simp_all
  ultimately show "word_of_nat ((unat a * 65536 + unat b * 256 + unat c) div 256) = b"
    by (simp only: of_nat_add of_nat_mult of_nat_numeral m) simp
  show "word_of_nat (unat a * 65536 + unat b * 256 + unat c) = c"
    by (simp only: of_nat_add of_nat_mult of_nat_numeral m) simp
  show "unat a * 65536 + unat b * 256 + unat c < 16777216" using l by simp
qed

lemma b64_chunk_digits:
  assumes "n < 16777216"
  shows "b64_chunk [b64_digit (n div 262144), b64_digit (n div 4096), b64_digit (n div 64), b64_digit n] (0, 0) = Some (n, 0)"
    and "n mod 64 = 0 \<Longrightarrow> b64_chunk [b64_digit (n div 262144), b64_digit (n div 4096), b64_digit (n div 64), CHR ''=''] (0, 0) = Some (n, 1)"
    and "n mod 64 = 0 \<Longrightarrow> n div 64 mod 64 = 0 \<Longrightarrow>
      b64_chunk [b64_digit (n div 262144), b64_digit (n div 4096), CHR ''='', CHR ''=''] (0, 0) = Some (n, 2)"
  using base64_digits [OF assms] by (simp_all add: b64_digit_clean b64_val_digit algebra_simps)

lemma b64_chunks_encode: "b64_chunks (base64_encode bs) = Some bs"
proof (induction bs rule: base64_encode.induct)
  case (2 a)
  note t = bytes_of_triple [of a 0 0]
  have "unat a * 65536 mod 64 = 0" "unat a * 65536 div 64 mod 64 = 0" by simp_all
  with b64_chunk_digits(3) [of "unat a * 65536"] t show ?case by (simp add: Let_def)
next
  case (3 a b)
  note t = bytes_of_triple [of a b 0]
  have "(unat a * 65536 + unat b * 256) mod 64 = 0" by simp
  with b64_chunk_digits(2) [of "unat a * 65536 + unat b * 256"] t show ?case by (simp add: Let_def)
next
  case (4 a b c rest)
  with b64_chunk_digits(1) [OF bytes_of_triple(4), of a b c] bytes_of_triple [of a b c] show ?case
    by (simp add: Let_def del: b64_chunk.simps)
qed simp

lemma pad_clean: "\<not> ascii_whitespace CHR ''=''"
  by (simp add: ascii_whitespace_def)

lemma base64_encode_clean: "filter (\<lambda>c. \<not> ascii_whitespace c) (base64_encode bs) = base64_encode bs"
  by (induction bs rule: base64_encode.induct) (simp_all add: b64_digit_clean pad_clean Let_def)

text \<open>Decoding the base64 form of a blob gives the blob back.\<close>

theorem base64_roundtrip: "base64_decode (base64_encode bs) = Some bs"
  by (simp add: base64_decode_def base64_encode_clean b64_chunks_encode)

end
