(* ===== verification/Wal_Codec.thy ===== *)
theory Wal_Codec
  imports Engine_Types
begin

text \<open>
  The engine's WAL encoding (\<^verbatim>\<open>crates/engine/src/wal.rs\<close>): one opaque record per \<^verbatim>\<open>WalOp\<close>, a tag
  byte and length-prefixed fields.  Every operation decodes back to itself, the sections
  added later are optional at the end of a record, and a record of an unknown kind is an
  error.
\<close>

unbundle bit_operations_syntax

section \<open>Operations\<close>

datatype wal_op =
    CreateTable table_schema
  | DropTable string
  | Insert string nat "sql_value list"
  | Delete string nat
  | CreateIndex index_def
  | DropIndex string
  | AlterAddColumn string column
  | AlterDropColumn string string
  | AlterRenameColumn string string string
  | AlterRenameTable string string
  | CreateView string string
  | DropView string
  | CreatePolicy string policy
  | DropPolicy string string
  | SetRls string bool
  | Commit

section \<open>Encoding\<close>

definition put_str :: "string \<Rightarrow> bytes" where
  "put_str s = le_encode 4 (length s) @ bytes_of_string s"

definition put_opt_str :: "string option \<Rightarrow> bytes" where
  "put_opt_str s = (case s of Some t \<Rightarrow> 1 # put_str t | None \<Rightarrow> [0])"

definition put_str_list :: "string list \<Rightarrow> bytes" where
  "put_str_list ss = le_encode 4 (length ss) @ concat (map put_str ss)"

fun put_coltype :: "column_type \<Rightarrow> bytes" where
  "put_coltype (CtVector d) = coltype_tag (CtVector d) # le_encode 4 d"
| "put_coltype t = [coltype_tag t]"

fun put_value :: "sql_value \<Rightarrow> bytes" where
  "put_value VNull = [0]"
| "put_value (VInt i) = 1 # le_encode 8 (nat (i mod 2 ^ 64))"
| "put_value (VReal r) = 2 # le_encode 8 (unat r)"
| "put_value (VText s) = 3 # put_str s"
| "put_value (VBlob b) = 4 # le_encode 4 (length b) @ b"
| "put_value (VVector v) = 5 # le_encode 4 (length v) @ concat (map (\<lambda>x. le_encode 4 (unat x)) v)"

definition column_flags :: "column \<Rightarrow> byte" where
  "column_flags c = (if col_primary_key c then 1 else 0) OR (if col_not_null c then 2 else 0) OR
     (if col_unique c then 4 else 0) OR (if col_autoincrement c then 8 else 0)"

definition put_column :: "column \<Rightarrow> bytes" where
  "put_column c = put_str (col_name c) @ put_coltype (col_ty c) @ [column_flags c]"

definition put_foreign_key :: "foreign_key \<Rightarrow> bytes" where
  "put_foreign_key fk = put_str (fk_name fk) @ put_str (fk_foreign_table fk) @
     put_str_list (fk_columns fk) @ put_str_list (fk_foreign_columns fk)"

definition put_default :: "column \<Rightarrow> bytes" where
  "put_default c = put_opt_str (col_default_sql c)"

text \<open>The section of defaults, CHECK predicates and composite UNIQUE sets.\<close>

definition put_extras :: "column list \<Rightarrow> string list \<Rightarrow> string list list \<Rightarrow> bytes" where
  "put_extras cols checks uniques =
     le_encode 4 (length cols) @ concat (map put_default cols) @ put_str_list checks @
     le_encode 4 (length uniques) @ concat (map put_str_list uniques)"

definition put_columns :: "column list \<Rightarrow> bytes" where
  "put_columns cols = le_encode 4 (length cols) @ concat (map put_column cols)"

fun encode_op :: "wal_op \<Rightarrow> wal_record" where
  "encode_op (CreateTable s) = 1 # put_str (sch_name s) @ put_columns (sch_columns s) @
     le_encode 4 (length (sch_foreign_keys s)) @ concat (map put_foreign_key (sch_foreign_keys s)) @
     put_extras (sch_columns s) (sch_checks s) (sch_uniques s)"
| "encode_op (DropTable n) = 2 # put_str n"
| "encode_op (Insert t vid vs) = 3 # put_str t @ le_encode 8 vid @ le_encode 4 (length vs) @ concat (map put_value vs)"
| "encode_op (Delete t vid) = 4 # put_str t @ le_encode 8 vid"
| "encode_op Commit = [5]"
| "encode_op (CreateIndex d) = 6 # put_str (ix_name d) @ put_str (ix_table d) @ put_str (ix_column d) @
     le_encode 4 (ip_m (ix_params d)) @ le_encode 4 (ip_ef_construction (ix_params d)) @
     le_encode 4 (ip_ef_search (ix_params d)) @ [metric_tag (ip_metric (ix_params d))]"
| "encode_op (DropIndex n) = 7 # put_str n"
| "encode_op (AlterAddColumn t c) = 8 # put_str t @ put_columns [c] @ put_extras [c] [] []"
| "encode_op (AlterDropColumn t c) = 9 # put_str t @ put_str c"
| "encode_op (AlterRenameColumn t a b) = 10 # put_str t @ put_str a @ put_str b"
| "encode_op (AlterRenameTable t b) = 11 # put_str t @ put_str b"
| "encode_op (CreateView n sql) = 12 # put_str n @ put_str sql"
| "encode_op (DropView n) = 13 # put_str n"
| "encode_op (CreatePolicy t p) = 14 # put_str t @ put_str (pol_name p) @ [policy_command_tag (pol_command p)] @
     put_str_list (pol_roles p) @ put_opt_str (pol_using p) @ put_opt_str (pol_check p)"
| "encode_op (DropPolicy t n) = 15 # put_str t @ put_str n"
| "encode_op (SetRls t e) = 16 # put_str t @ [if e then 1 else 0]"

section \<open>Decoding\<close>

type_synonym 'a cursor = "(engine_status, 'a) reader"

definition c_take :: "nat \<Rightarrow> bytes cursor" where "c_take n = rd_take ErrInternal n"
definition c_u8 :: "byte cursor" where "c_u8 = rd_u8 ErrInternal"
definition c_u32 :: "nat cursor" where "c_u32 = rd_u32 ErrInternal"
definition c_u64 :: "nat cursor" where "c_u64 = rd_u64 ErrInternal"

definition c_str :: "string cursor" where
  "c_str = rd_bind c_u32 (\<lambda>n. rd_bind (c_take n) (\<lambda>b.
     if valid_utf8 b then rd_ret (string_of_bytes b) else rd_fail ErrInternal))"

definition c_opt_str :: "string option cursor" where
  "c_opt_str = rd_bind c_u8 (\<lambda>p. if p = 1 then rd_bind c_str (\<lambda>s. rd_ret (Some s)) else rd_ret None)"

definition decode_str_list :: "string list cursor" where
  "decode_str_list = rd_bind c_u32 (\<lambda>n. rd_repeat n c_str)"

definition u64_as_i64 :: "nat \<Rightarrow> int" where
  "u64_as_i64 n = (if n < 2 ^ 63 then int n else int n - 2 ^ 64)"

definition c_value :: "sql_value cursor" where
  "c_value = rd_bind c_u8 (\<lambda>tag.
     if tag = 0 then rd_ret VNull
     else if tag = 1 then rd_bind c_u64 (\<lambda>n. rd_ret (VInt (u64_as_i64 n)))
     else if tag = 2 then rd_bind (c_take 8) (\<lambda>b. rd_ret (VReal (word_of_nat (le_decode b))))
     else if tag = 3 then rd_bind c_str (\<lambda>s. rd_ret (VText s))
     else if tag = 4 then rd_bind c_u32 (\<lambda>n. rd_bind (c_take n) (\<lambda>b. rd_ret (VBlob b)))
     else if tag = 5 then rd_bind c_u32 (\<lambda>n. rd_bind (rd_repeat n
       (rd_bind (c_take 4) (\<lambda>b. rd_ret (word_of_nat (le_decode b))))) (\<lambda>v. rd_ret (VVector v)))
     else rd_fail ErrInternal)"

definition c_coltype :: "column_type cursor" where
  "c_coltype = rd_bind c_u8 (\<lambda>tag.
     if tag = 4 then rd_bind c_u32 (\<lambda>d. rd_ret (CtVector d)) else rd_ret (coltype_from_tag tag))"

definition decode_column :: "column cursor" where
  "decode_column = rd_bind c_str (\<lambda>name. rd_bind c_coltype (\<lambda>ty. rd_bind c_u8 (\<lambda>flags.
     rd_ret \<lparr>col_name = name, col_ty = ty, col_primary_key = (flags AND 1 \<noteq> 0), col_not_null = (flags AND 2 \<noteq> 0),
       col_unique = (flags AND 4 \<noteq> 0), col_autoincrement = (flags AND 8 \<noteq> 0), col_default_sql = None\<rparr>)))"

definition decode_columns :: "column list cursor" where
  "decode_columns = rd_bind c_u32 (\<lambda>n. rd_repeat n decode_column)"

text \<open>\<^verbatim>\<open>at_end\<close>: nothing is left of the record.\<close>

definition c_at_end :: "bool cursor" where
  "c_at_end bs = Inr (bs = [], bs)"

fun decode_defaults :: "nat \<Rightarrow> nat \<Rightarrow> column list \<Rightarrow> column list cursor" where
  "decode_defaults 0 i cols = rd_ret cols"
| "decode_defaults (Suc n) i cols = rd_bind c_u8 (\<lambda>p.
     if p = 1 then rd_bind c_str (\<lambda>s. decode_defaults n (Suc i)
       (if i < length cols then cols[i := (cols ! i)\<lparr>col_default_sql := Some s\<rparr>] else cols))
     else decode_defaults n (Suc i) cols)"

definition decode_table_extras :: "column list \<Rightarrow> (column list \<times> string list \<times> string list list) cursor" where
  "decode_table_extras cols = rd_bind c_at_end (\<lambda>e.
     if e then rd_ret (cols, [], [])
     else rd_bind c_u32 (\<lambda>ncols. rd_bind (decode_defaults ncols 0 cols) (\<lambda>cols'.
       rd_bind decode_str_list (\<lambda>checks. rd_bind c_u32 (\<lambda>nuniq.
       rd_bind (rd_repeat nuniq decode_str_list) (\<lambda>uniques. rd_ret (cols', checks, uniques)))))))"

definition decode_foreign_key :: "foreign_key cursor" where
  "decode_foreign_key = rd_bind c_str (\<lambda>name. rd_bind c_str (\<lambda>ft. rd_bind decode_str_list (\<lambda>cols.
     rd_bind decode_str_list (\<lambda>fcols.
     rd_ret \<lparr>fk_name = name, fk_columns = cols, fk_foreign_table = ft, fk_foreign_columns = fcols\<rparr>))))"

definition decode_foreign_keys :: "foreign_key list cursor" where
  "decode_foreign_keys = rd_bind c_at_end (\<lambda>e.
     if e then rd_ret [] else rd_bind c_u32 (\<lambda>n. rd_repeat n decode_foreign_key))"

definition decode_create :: "wal_op cursor" where
  "decode_create = rd_bind c_str (\<lambda>name. rd_bind decode_columns (\<lambda>columns. rd_bind decode_foreign_keys (\<lambda>fks.
     rd_bind (decode_table_extras columns) (\<lambda>(cols, checks, uniques).
     rd_ret (CreateTable \<lparr>sch_name = name, sch_columns = cols, sch_foreign_keys = fks, sch_checks = checks,
       sch_uniques = uniques, sch_rls_enabled = False, sch_policies = []\<rparr>)))))"

definition decode_alter_add :: "wal_op cursor" where
  "decode_alter_add = rd_bind c_str (\<lambda>table. rd_bind decode_columns (\<lambda>columns.
     rd_bind (decode_table_extras columns) (\<lambda>(cols, _, _).
     if cols = [] then rd_fail ErrInternal else rd_ret (AlterAddColumn table (last cols)))))"

definition decode_create_policy :: "wal_op cursor" where
  "decode_create_policy = rd_bind c_str (\<lambda>table. rd_bind c_str (\<lambda>name. rd_bind c_u8 (\<lambda>cmd.
     rd_bind decode_str_list (\<lambda>roles. rd_bind c_opt_str (\<lambda>use. rd_bind c_opt_str (\<lambda>chk.
     rd_ret (CreatePolicy table \<lparr>pol_name = name, pol_command = policy_command_from_tag cmd, pol_roles = roles,
       pol_using = use, pol_check = chk\<rparr>)))))))"

definition decode_create_index :: "wal_op cursor" where
  "decode_create_index = rd_bind c_str (\<lambda>name. rd_bind c_str (\<lambda>table. rd_bind c_str (\<lambda>col.
     rd_bind c_u32 (\<lambda>m. rd_bind c_u32 (\<lambda>efc. rd_bind c_u32 (\<lambda>efs. rd_bind c_u8 (\<lambda>t.
     rd_ret (CreateIndex \<lparr>ix_name = name, ix_table = table, ix_column = col, ix_params =
       \<lparr>ip_m = m, ip_ef_construction = efc, ip_ef_search = efs, ip_metric = metric_from_tag t\<rparr>\<rparr>))))))))"

definition decode_insert :: "wal_op cursor" where
  "decode_insert = rd_bind c_str (\<lambda>table. rd_bind c_u64 (\<lambda>vid.
     rd_bind (rd_bind c_u32 (\<lambda>n. rd_repeat n c_value)) (\<lambda>vs. rd_ret (Insert table vid vs))))"

definition decode_catalog_op :: "byte \<Rightarrow> wal_op cursor" where
  "decode_catalog_op tag =
     (if tag = 9 then rd_bind c_str (\<lambda>t. rd_bind c_str (\<lambda>c. rd_ret (AlterDropColumn t c)))
      else if tag = 10 then rd_bind c_str (\<lambda>t. rd_bind c_str (\<lambda>a. rd_bind c_str (\<lambda>b. rd_ret (AlterRenameColumn t a b))))
      else if tag = 11 then rd_bind c_str (\<lambda>t. rd_bind c_str (\<lambda>b. rd_ret (AlterRenameTable t b)))
      else if tag = 12 then rd_bind c_str (\<lambda>n. rd_bind c_str (\<lambda>s. rd_ret (CreateView n s)))
      else if tag = 13 then rd_bind c_str (\<lambda>n. rd_ret (DropView n))
      else if tag = 14 then decode_create_policy
      else if tag = 15 then rd_bind c_str (\<lambda>t. rd_bind c_str (\<lambda>n. rd_ret (DropPolicy t n)))
      else if tag = 16 then rd_bind c_str (\<lambda>t. rd_bind c_u8 (\<lambda>e. rd_ret (SetRls t (e \<noteq> 0))))
      else rd_fail ErrInternal)"

definition decode_body :: "wal_op cursor" where
  "decode_body = rd_bind c_u8 (\<lambda>tag.
     if tag = 1 then decode_create
     else if tag = 8 then decode_alter_add
     else if tag = 2 then rd_bind c_str (\<lambda>n. rd_ret (DropTable n))
     else if tag = 6 then decode_create_index
     else if tag = 7 then rd_bind c_str (\<lambda>n. rd_ret (DropIndex n))
     else if tag = 3 then decode_insert
     else if tag = 4 then rd_bind c_str (\<lambda>t. rd_bind c_u64 (\<lambda>v. rd_ret (Delete t v)))
     else if tag = 5 then rd_ret Commit
     else decode_catalog_op tag)"

definition decode_op :: "bytes \<Rightarrow> wal_op eres" where
  "decode_op bs = res_bind (decode_body bs) (\<lambda>(op, rest). Inr op)"

section \<open>Field codecs\<close>

definition str_ok :: "string \<Rightarrow> bool" where
  "str_ok s \<longleftrightarrow> length s < 2 ^ 32 \<and> valid_utf8 (bytes_of_string s)"

definition strs_ok :: "string list \<Rightarrow> bool" where
  "strs_ok ss \<longleftrightarrow> length ss < 2 ^ 32 \<and> (\<forall>s\<in>set ss. str_ok s)"

definition opt_ok :: "string option \<Rightarrow> bool" where
  "opt_ok s \<longleftrightarrow> (\<forall>t. s = Some t \<longrightarrow> str_ok t)"

lemma c_reads:
  "length bs = n \<Longrightarrow> reads (c_take n) bs bs"
  "reads c_u8 [b] b"
  "k < 2 ^ 32 \<Longrightarrow> reads c_u32 (le_encode 4 k) k"
  "k < 2 ^ 64 \<Longrightarrow> reads c_u64 (le_encode 8 k) k"
  by (simp_all add: c_take_def c_u8_def c_u32_def c_u64_def reads_intros del: One_nat_def)

lemma reads_str: "str_ok s \<Longrightarrow> reads c_str (put_str s) s"
  unfolding c_str_def put_str_def str_ok_def
  by (rule reads_bind [OF c_reads(3)])
    (auto simp: reads_def rd_bind_def rd_ret_def c_take_def rd_take_def)

interpretation str_codec: codec put_str c_str str_ok
  by unfold_locales (rule reads_str)

lemma reads_str_list: "strs_ok ss \<Longrightarrow> reads decode_str_list (put_str_list ss) ss"
  unfolding decode_str_list_def put_str_list_def strs_ok_def c_u32_def
  by (rule str_codec.reads_counted) auto

interpretation str_list_codec: codec put_str_list decode_str_list strs_ok
  by unfold_locales (rule reads_str_list)

lemma reads_opt_str: "opt_ok s \<Longrightarrow> reads c_opt_str (put_opt_str s) s"
proof (cases s)
  case None
  then show ?thesis
    by (simp add: c_opt_str_def put_opt_str_def reads_def rd_bind_def c_u8_def rd_u8_def rd_take_def rd_ret_def)
next
  case (Some t)
  assume "opt_ok s"
  then have "reads (rd_bind c_str (\<lambda>s. rd_ret (Some s))) (put_str t) (Some t)"
    using Some by (intro reads_bind_ret reads_str) (simp add: opt_ok_def)
  then have "reads c_opt_str ([1] @ put_str t) (Some t)"
    unfolding c_opt_str_def by (intro reads_bind [OF c_reads(2)]) simp
  with Some show ?thesis by (simp add: put_opt_str_def)
qed

fun value_ok :: "sql_value \<Rightarrow> bool" where
  "value_ok (VInt i) \<longleftrightarrow> - (2 ^ 63) \<le> i \<and> i < 2 ^ 63"
| "value_ok (VText s) \<longleftrightarrow> str_ok s"
| "value_ok (VBlob b) \<longleftrightarrow> length b < 2 ^ 32"
| "value_ok (VVector v) \<longleftrightarrow> length v < 2 ^ 32"
| "value_ok _ \<longleftrightarrow> True"

lemma i64_roundtrip: "- (2 ^ 63) \<le> i \<Longrightarrow> i < 2 ^ 63 \<Longrightarrow> u64_as_i64 (nat (i mod 2 ^ 64)) = i"
proof -
  assume b: "- (2 ^ 63) \<le> i" "i < 2 ^ 63"
  show ?thesis
  proof (cases "0 \<le> i")
    case True
    with b show ?thesis by (simp add: u64_as_i64_def)
  next
    case False
    with b have "i mod 2 ^ 64 = i + 2 ^ 64"
      using mod_pos_pos_trivial [of "i + 2 ^ 64" "2 ^ 64"] by (simp add: mod_add_self2)
    with b False show ?thesis by (simp add: u64_as_i64_def nat_less_iff)
  qed
qed

lemma unat_less_pow: "unat (x :: u32) < 2 ^ 32" "unat (y :: u64) < 2 ^ 64"
  using unsigned_less [of x] unsigned_less [of y] by simp_all

lemma reads_f32: "reads (rd_bind (c_take 4) (\<lambda>b. rd_ret (word_of_nat (le_decode b) :: u32))) (le_encode 4 (unat x)) x"
proof -
  have "word_of_nat (le_decode (le_encode 4 (unat x))) = x"
    using unat_less_pow(1) [of x] by simp
  then show ?thesis
    using reads_bind_ret [OF c_reads(1) [of "le_encode 4 (unat x)" 4], of "\<lambda>b. word_of_nat (le_decode b) :: u32"] by simp
qed

lemma reads_tag: "reads (f t) bs x \<Longrightarrow> reads (rd_bind c_u8 f) (t # bs) x"
  using reads_bind [OF c_reads(2), of f t bs x] by simp

lemma reads_value: "value_ok v \<Longrightarrow> reads c_value (put_value v) v"
proof (cases v)
  case VNull
  then show ?thesis
    unfolding c_value_def by (simp add: reads_tag reads_ret)
next
  case (VInt i)
  assume "value_ok v"
  then have "reads (rd_bind c_u64 (\<lambda>n. rd_ret (VInt (u64_as_i64 n)))) (le_encode 8 (nat (i mod 2 ^ 64))) (VInt i)"
    using VInt i64_roundtrip [of i] reads_bind_ret [OF c_reads(4), of "nat (i mod 2 ^ 64)" "\<lambda>n. VInt (u64_as_i64 n)"]
    by (simp add: nat_less_iff)
  with VInt show ?thesis
    unfolding c_value_def by (simp add: reads_tag)
next
  case (VReal r)
  have "word_of_nat (le_decode (le_encode 8 (unat r))) = r"
    using unat_less_pow(2) [of r] by simp
  then have "reads (rd_bind (c_take 8) (\<lambda>b. rd_ret (VReal (word_of_nat (le_decode b))))) (le_encode 8 (unat r)) (VReal r)"
    using reads_bind_ret [OF c_reads(1) [of "le_encode 8 (unat r)" 8], of "\<lambda>b. VReal (word_of_nat (le_decode b))"] by simp
  with VReal show ?thesis
    unfolding c_value_def by (simp add: reads_tag)
next
  case (VText s)
  assume "value_ok v"
  with VText show ?thesis
    unfolding c_value_def by (simp add: reads_tag reads_bind_ret [OF reads_str])
next
  case (VBlob b)
  assume "value_ok v"
  then have "reads (rd_bind c_u32 (\<lambda>n. rd_bind (c_take n) (\<lambda>b. rd_ret (VBlob b)))) (le_encode 4 (length b) @ b) (VBlob b)"
    using VBlob by (intro reads_bind [OF c_reads(3)] reads_bind_ret c_reads) simp_all
  with VBlob show ?thesis
    unfolding c_value_def by (simp add: reads_tag)
next
  case (VVector xs)
  assume "value_ok v"
  then have "reads (rd_bind c_u32 (\<lambda>n. rd_bind (rd_repeat n (rd_bind (c_take 4) (\<lambda>b. rd_ret (word_of_nat (le_decode b)))))
      (\<lambda>v. rd_ret (VVector v)))) (le_encode 4 (length xs) @ concat (map (\<lambda>x. le_encode 4 (unat x)) xs)) (VVector xs)"
    using VVector by (intro reads_bind [OF c_reads(3)] reads_bind_ret reads_repeat reads_f32) simp_all
  with VVector show ?thesis
    unfolding c_value_def by (simp add: reads_tag)
qed

interpretation value_codec: codec put_value c_value value_ok
  by unfold_locales (rule reads_value)

definition coltype_ok :: "column_type \<Rightarrow> bool" where
  "coltype_ok t \<longleftrightarrow> (\<forall>d. t = CtVector d \<longrightarrow> d < 2 ^ 32)"

lemma reads_coltype: "coltype_ok t \<Longrightarrow> reads c_coltype (put_coltype t) t"
  by (cases t) (auto simp: c_coltype_def coltype_ok_def coltype_from_tag_def
    intro!: reads_tag reads_ret reads_bind_ret [OF c_reads(3)])

definition strip_default :: "column \<Rightarrow> column" where
  "strip_default c = c\<lparr>col_default_sql := None\<rparr>"

definition column_ok :: "column \<Rightarrow> bool" where
  "column_ok c \<longleftrightarrow> str_ok (col_name c) \<and> coltype_ok (col_ty c) \<and> opt_ok (col_default_sql c)"

lemma column_flags_bits:
  "(column_flags c AND 1 \<noteq> 0) = col_primary_key c" "(column_flags c AND 2 \<noteq> 0) = col_not_null c"
  "(column_flags c AND 4 \<noteq> 0) = col_unique c" "(column_flags c AND 8 \<noteq> 0) = col_autoincrement c"
  by (cases "col_primary_key c"; cases "col_not_null c"; cases "col_unique c"; cases "col_autoincrement c";
      simp add: column_flags_def)+

lemma reads_column: "column_ok c \<Longrightarrow> reads decode_column (put_column c) (strip_default c)"
proof -
  assume "column_ok c"
  then have ok: "str_ok (col_name c)" "coltype_ok (col_ty c)"
    by (auto simp: column_ok_def)
  have "reads decode_column (put_column c) \<lparr>col_name = col_name c, col_ty = col_ty c,
      col_primary_key = (column_flags c AND 1 \<noteq> 0), col_not_null = (column_flags c AND 2 \<noteq> 0),
      col_unique = (column_flags c AND 4 \<noteq> 0), col_autoincrement = (column_flags c AND 8 \<noteq> 0), col_default_sql = None\<rparr>"
    unfolding decode_column_def put_column_def
    using reads_str [OF ok(1)] reads_coltype [OF ok(2)]
    by (intro reads_bind [OF reads_str [OF ok(1)]] reads_bind [OF reads_coltype [OF ok(2)]] reads_bind_ret c_reads)
  moreover have "\<lparr>col_name = col_name c, col_ty = col_ty c, col_primary_key = col_primary_key c,
      col_not_null = col_not_null c, col_unique = col_unique c, col_autoincrement = col_autoincrement c,
      col_default_sql = None\<rparr> = strip_default c"
    by (cases c) (simp add: strip_default_def)
  ultimately show ?thesis
    by (simp only: column_flags_bits)
qed

lemma reads_map_repeat:
  assumes "\<And>x. x \<in> set xs \<Longrightarrow> reads p (enc x) (f x)" and "n = length xs"
  shows "reads (rd_repeat n p) (concat (map enc xs)) (map f xs)"
  using assms
proof (induction xs arbitrary: n)
  case Nil
  then show ?case by (simp add: reads_ret)
next
  case (Cons x xs)
  have "reads (rd_bind (rd_repeat (length xs) p) (\<lambda>ys. rd_ret (f x # ys))) (concat (map enc xs)) (f x # map f xs)"
    using Cons by (intro reads_bind_ret) auto
  with Cons.prems show ?case
    by (auto intro: reads_bind)
qed

lemma reads_columns:
  assumes "length cs < 2 ^ 32" and "\<forall>c\<in>set cs. column_ok c"
  shows "reads decode_columns (put_columns cs) (map strip_default cs)"
  unfolding decode_columns_def put_columns_def
  using assms by (intro reads_bind [OF c_reads(3)] reads_map_repeat reads_column) auto

lemma reads_defaults:
  assumes "\<forall>c\<in>set cs. column_ok c"
  shows "reads (decode_defaults (length cs) (length pre) (pre @ map strip_default cs)) (concat (map put_default cs)) (pre @ cs)"
  using assms
proof (induction cs arbitrary: pre)
  case Nil
  then show ?case by (simp add: reads_ret)
next
  case (Cons c cs)
  have IH: "reads (decode_defaults (length cs) (Suc (length pre)) (pre @ c # map strip_default cs)) (concat (map put_default cs)) (pre @ c # cs)"
    using Cons.IH [of "pre @ [c]"] Cons.prems by simp
  show ?case
  proof (cases "col_default_sql c")
    case None
    then have "strip_default c = c" by (simp add: strip_default_def)
    with IH have "reads (decode_defaults (Suc (length cs)) (length pre) (pre @ map strip_default (c # cs)))
        (0 # concat (map put_default cs)) (pre @ c # cs)"
      unfolding decode_defaults.simps by (intro reads_tag) simp
    with None show ?thesis
      by (simp add: put_default_def [of c] put_opt_str_def)
  next
    case (Some s)
    have "str_ok s"
      using Cons.prems Some by (simp add: column_ok_def opt_ok_def)
    moreover have "(pre @ strip_default c # map strip_default cs)[length pre := (strip_default c)\<lparr>col_default_sql := Some s\<rparr>] =
        pre @ c # map strip_default cs"
      using Some by (simp add: strip_default_def)
    ultimately have "reads (decode_defaults (Suc (length cs)) (length pre) (pre @ map strip_default (c # cs)))
        (1 # put_str s @ concat (map put_default cs)) (pre @ c # cs)"
      unfolding decode_defaults.simps using IH
      by (intro reads_tag) (simp add: nth_append reads_bind [OF reads_str])
    with Some show ?thesis
      by (simp add: put_default_def [of c] put_opt_str_def)
  qed
qed

lemma reads_not_at_end:
  assumes "reads (rd_bind c_u32 f) (le_encode 4 k @ bs) x"
  shows "reads (rd_bind c_at_end (\<lambda>e. if e then rd_ret y else rd_bind c_u32 f)) (le_encode 4 k @ bs) x"
  using assms by (simp add: reads_def rd_bind_def c_at_end_def)

lemma reads_extras:
  assumes "length cs < 2 ^ 32" and "\<forall>c\<in>set cs. column_ok c" and "strs_ok checks"
    and "length uniques < 2 ^ 32" and "\<forall>u\<in>set uniques. strs_ok u"
  shows "reads (decode_table_extras (map strip_default cs)) (put_extras cs checks uniques) (cs, checks, uniques)"
  unfolding decode_table_extras_def put_extras_def
proof (rule reads_not_at_end, rule reads_bind [OF c_reads(3) [OF assms(1)]])
  have "reads (rd_bind c_u32 (\<lambda>nuniq. rd_bind (rd_repeat nuniq decode_str_list) (\<lambda>uniques. rd_ret (cs, checks, uniques))))
      (le_encode 4 (length uniques) @ concat (map put_str_list uniques)) (cs, checks, uniques)"
    using assms by (intro reads_bind [OF c_reads(3)] reads_bind_ret str_list_codec.reads_many) auto
  then show "reads (rd_bind (decode_defaults (length cs) 0 (map strip_default cs)) (\<lambda>cols'. rd_bind decode_str_list (\<lambda>checks.
      rd_bind c_u32 (\<lambda>nuniq. rd_bind (rd_repeat nuniq decode_str_list) (\<lambda>uniques. rd_ret (cols', checks, uniques))))))
      (concat (map put_default cs) @ put_str_list checks @ le_encode 4 (length uniques) @ concat (map put_str_list uniques))
      (cs, checks, uniques)"
    using reads_defaults [OF assms(2), of "[]"] reads_str_list [OF assms(3)]
    by (simp add: reads_bind)
qed

definition fk_ok :: "foreign_key \<Rightarrow> bool" where
  "fk_ok fk \<longleftrightarrow> str_ok (fk_name fk) \<and> str_ok (fk_foreign_table fk) \<and> strs_ok (fk_columns fk) \<and> strs_ok (fk_foreign_columns fk)"

lemma reads_foreign_key: "fk_ok fk \<Longrightarrow> reads decode_foreign_key (put_foreign_key fk) fk"
proof -
  assume "fk_ok fk"
  then have "reads decode_foreign_key (put_foreign_key fk) \<lparr>fk_name = fk_name fk, fk_columns = fk_columns fk,
      fk_foreign_table = fk_foreign_table fk, fk_foreign_columns = fk_foreign_columns fk\<rparr>"
    unfolding decode_foreign_key_def put_foreign_key_def fk_ok_def
    by (intro reads_bind [OF reads_str] reads_bind [OF reads_str_list] reads_bind_ret reads_str_list) auto
  then show ?thesis by (cases fk) simp
qed

interpretation fk_codec: codec put_foreign_key decode_foreign_key fk_ok
  by unfold_locales (rule reads_foreign_key)

section \<open>Operations round-trip\<close>

definition schema_ok :: "table_schema \<Rightarrow> bool" where
  "schema_ok s \<longleftrightarrow> str_ok (sch_name s) \<and> length (sch_columns s) < 2 ^ 32 \<and> (\<forall>c\<in>set (sch_columns s). column_ok c) \<and>
     length (sch_foreign_keys s) < 2 ^ 32 \<and> (\<forall>fk\<in>set (sch_foreign_keys s). fk_ok fk) \<and> strs_ok (sch_checks s) \<and>
     length (sch_uniques s) < 2 ^ 32 \<and> (\<forall>u\<in>set (sch_uniques s). strs_ok u) \<and> \<not> sch_rls_enabled s \<and> sch_policies s = []"

definition index_ok :: "index_def \<Rightarrow> bool" where
  "index_ok d \<longleftrightarrow> str_ok (ix_name d) \<and> str_ok (ix_table d) \<and> str_ok (ix_column d) \<and> ip_m (ix_params d) < 2 ^ 32 \<and>
     ip_ef_construction (ix_params d) < 2 ^ 32 \<and> ip_ef_search (ix_params d) < 2 ^ 32"

definition policy_ok :: "policy \<Rightarrow> bool" where
  "policy_ok p \<longleftrightarrow> str_ok (pol_name p) \<and> strs_ok (pol_roles p) \<and> opt_ok (pol_using p) \<and> opt_ok (pol_check p)"

fun op_ok :: "wal_op \<Rightarrow> bool" where
  "op_ok (CreateTable s) \<longleftrightarrow> schema_ok s"
| "op_ok (DropTable n) \<longleftrightarrow> str_ok n"
| "op_ok (Insert t vid vs) \<longleftrightarrow> str_ok t \<and> vid < 2 ^ 64 \<and> length vs < 2 ^ 32 \<and> (\<forall>v\<in>set vs. value_ok v)"
| "op_ok (Delete t vid) \<longleftrightarrow> str_ok t \<and> vid < 2 ^ 64"
| "op_ok (CreateIndex d) \<longleftrightarrow> index_ok d"
| "op_ok (DropIndex n) \<longleftrightarrow> str_ok n"
| "op_ok (AlterAddColumn t c) \<longleftrightarrow> str_ok t \<and> column_ok c"
| "op_ok (AlterDropColumn t c) \<longleftrightarrow> str_ok t \<and> str_ok c"
| "op_ok (AlterRenameColumn t a b) \<longleftrightarrow> str_ok t \<and> str_ok a \<and> str_ok b"
| "op_ok (AlterRenameTable t b) \<longleftrightarrow> str_ok t \<and> str_ok b"
| "op_ok (CreateView n s) \<longleftrightarrow> str_ok n \<and> str_ok s"
| "op_ok (DropView n) \<longleftrightarrow> str_ok n"
| "op_ok (CreatePolicy t p) \<longleftrightarrow> str_ok t \<and> policy_ok p"
| "op_ok (DropPolicy t n) \<longleftrightarrow> str_ok t \<and> str_ok n"
| "op_ok (SetRls t e) \<longleftrightarrow> str_ok t"
| "op_ok Commit \<longleftrightarrow> True"

lemma reads_create:
  assumes "schema_ok s"
  shows "reads decode_create (put_str (sch_name s) @ put_columns (sch_columns s) @
     le_encode 4 (length (sch_foreign_keys s)) @ concat (map put_foreign_key (sch_foreign_keys s)) @
     put_extras (sch_columns s) (sch_checks s) (sch_uniques s)) (CreateTable s)"
proof -
  have fks: "reads decode_foreign_keys (le_encode 4 (length (sch_foreign_keys s)) @ concat (map put_foreign_key (sch_foreign_keys s))) (sch_foreign_keys s)"
    unfolding decode_foreign_keys_def c_u32_def
    using assms fk_codec.reads_counted [of "sch_foreign_keys s" ErrInternal]
    by (intro reads_not_at_end [unfolded c_u32_def]) (auto simp: schema_ok_def)
  have ex: "reads (rd_bind (decode_table_extras (map strip_default (sch_columns s))) (\<lambda>(cols, checks, uniques).
      rd_ret (CreateTable \<lparr>sch_name = sch_name s, sch_columns = cols, sch_foreign_keys = sch_foreign_keys s,
        sch_checks = checks, sch_uniques = uniques, sch_rls_enabled = False, sch_policies = []\<rparr>)))
      (put_extras (sch_columns s) (sch_checks s) (sch_uniques s)) (CreateTable s)"
    using reads_bind [OF reads_extras reads_ret, of "sch_columns s" "sch_checks s" "sch_uniques s"]
      reads_extras [of "sch_columns s" "sch_checks s" "sch_uniques s"] assms
    by (cases s) (auto simp: schema_ok_def reads_def rd_bind_def rd_ret_def)
  have ok: "str_ok (sch_name s)" "length (sch_columns s) < 2 ^ 32" "\<forall>c\<in>set (sch_columns s). column_ok c"
    using assms by (auto simp: schema_ok_def)
  show ?thesis
    unfolding decode_create_def
    using reads_bind [OF fks, of "\<lambda>fks. rd_bind (decode_table_extras (map strip_default (sch_columns s))) (\<lambda>(cols, checks, uniques).
      rd_ret (CreateTable \<lparr>sch_name = sch_name s, sch_columns = cols, sch_foreign_keys = fks,
        sch_checks = checks, sch_uniques = uniques, sch_rls_enabled = False, sch_policies = []\<rparr>))", OF ex]
    by (intro reads_bind [OF reads_str [OF ok(1)]] reads_bind [OF reads_columns [OF ok(2,3)]]) simp
qed

lemma reads_alter_add:
  assumes "str_ok t" and "column_ok c"
  shows "reads decode_alter_add (put_str t @ put_columns [c] @ put_extras [c] [] []) (AlterAddColumn t c)"
proof -
  have "reads (decode_table_extras (map strip_default [c])) (put_extras [c] [] []) ([c], [], [])"
    using assms(2) by (intro reads_extras) (simp_all add: strs_ok_def)
  then have "reads (rd_bind (decode_table_extras (map strip_default [c])) (\<lambda>(cols, _, _).
      if cols = [] then rd_fail ErrInternal else rd_ret (AlterAddColumn t (last cols)))) (put_extras [c] [] []) (AlterAddColumn t c)"
    by (simp add: reads_def rd_bind_def rd_ret_def)
  moreover have "reads decode_columns (put_columns [c]) (map strip_default [c])"
    using assms(2) by (intro reads_columns) simp_all
  ultimately show ?thesis
    unfolding decode_alter_add_def
    by (intro reads_bind [OF reads_str [OF assms(1)]]) (rule reads_bind)
qed

lemma reads_create_policy:
  assumes "str_ok t" and "policy_ok p"
  shows "reads decode_create_policy (put_str t @ put_str (pol_name p) @ [policy_command_tag (pol_command p)] @
     put_str_list (pol_roles p) @ put_opt_str (pol_using p) @ put_opt_str (pol_check p)) (CreatePolicy t p)"
proof -
  have "reads decode_create_policy (put_str t @ put_str (pol_name p) @ [policy_command_tag (pol_command p)] @
     put_str_list (pol_roles p) @ put_opt_str (pol_using p) @ put_opt_str (pol_check p))
     (CreatePolicy t \<lparr>pol_name = pol_name p, pol_command = policy_command_from_tag (policy_command_tag (pol_command p)),
       pol_roles = pol_roles p, pol_using = pol_using p, pol_check = pol_check p\<rparr>)"
    unfolding decode_create_policy_def using assms unfolding policy_ok_def
    by (intro reads_bind [OF reads_str] reads_bind [OF c_reads(2)] reads_bind [OF reads_str_list]
      reads_bind [OF reads_opt_str] reads_bind_ret reads_opt_str) auto
  then show ?thesis by (cases p) simp
qed

lemma reads_create_index:
  assumes "index_ok d"
  shows "reads decode_create_index (put_str (ix_name d) @ put_str (ix_table d) @ put_str (ix_column d) @
     le_encode 4 (ip_m (ix_params d)) @ le_encode 4 (ip_ef_construction (ix_params d)) @
     le_encode 4 (ip_ef_search (ix_params d)) @ [metric_tag (ip_metric (ix_params d))]) (CreateIndex d)"
proof -
  have "reads decode_create_index (put_str (ix_name d) @ put_str (ix_table d) @ put_str (ix_column d) @
     le_encode 4 (ip_m (ix_params d)) @ le_encode 4 (ip_ef_construction (ix_params d)) @
     le_encode 4 (ip_ef_search (ix_params d)) @ [metric_tag (ip_metric (ix_params d))])
     (CreateIndex \<lparr>ix_name = ix_name d, ix_table = ix_table d, ix_column = ix_column d, ix_params =
       \<lparr>ip_m = ip_m (ix_params d), ip_ef_construction = ip_ef_construction (ix_params d),
        ip_ef_search = ip_ef_search (ix_params d), ip_metric = metric_from_tag (metric_tag (ip_metric (ix_params d)))\<rparr>\<rparr>)"
    unfolding decode_create_index_def using assms unfolding index_ok_def
    by (intro reads_bind [OF reads_str] reads_bind [OF c_reads(3)] reads_bind_ret c_reads) auto
  then show ?thesis by (cases d; cases "ix_params d") simp
qed

lemma reads_insert:
  assumes "op_ok (Insert t vid vs)"
  shows "reads decode_insert (put_str t @ le_encode 8 vid @ le_encode 4 (length vs) @ concat (map put_value vs)) (Insert t vid vs)"
proof -
  have "reads (rd_bind c_u32 (\<lambda>n. rd_repeat n c_value)) (le_encode 4 (length vs) @ concat (map put_value vs)) vs"
    unfolding c_u32_def using assms by (intro value_codec.reads_counted) auto
  with assms show ?thesis
    unfolding decode_insert_def by (intro reads_bind [OF reads_str] reads_bind [OF c_reads(4)] reads_bind_ret) auto
qed

lemma reads_op: "op_ok op \<Longrightarrow> reads decode_body (encode_op op) op"
proof (cases op)
  case (CreateTable s)
  assume "op_ok op"
  with CreateTable show ?thesis by (simp add: decode_body_def reads_tag reads_create)
next
  case (Insert t vid vs)
  assume "op_ok op"
  with Insert show ?thesis
    using reads_insert [of t vid vs] by (simp add: decode_body_def reads_tag)
next
  case (AlterAddColumn t c)
  assume "op_ok op"
  with AlterAddColumn show ?thesis by (simp add: decode_body_def reads_tag reads_alter_add)
next
  case (CreateIndex d)
  assume "op_ok op"
  with CreateIndex show ?thesis
    using reads_create_index [of d] by (simp add: decode_body_def reads_tag)
next
  case (CreatePolicy t p)
  assume "op_ok op"
  with CreatePolicy show ?thesis
    using reads_create_policy [of t p] by (simp add: decode_body_def decode_catalog_op_def reads_tag)
next
  case (SetRls t e)
  assume "op_ok op"
  then have "reads (rd_bind c_str (\<lambda>t. rd_bind c_u8 (\<lambda>e. rd_ret (SetRls t (e \<noteq> 0))))) (put_str t @ [if e then 1 else 0]) (SetRls t ((if e then 1 else 0) \<noteq> (0 :: byte)))"
    using SetRls by (intro reads_bind [OF reads_str] reads_bind_ret c_reads) simp
  with SetRls show ?thesis by (cases e) (simp_all add: decode_body_def decode_catalog_op_def reads_tag)
next
  case (AlterRenameColumn t a b)
  assume "op_ok op"
  then have "reads (rd_bind c_str (\<lambda>t. rd_bind c_str (\<lambda>a. rd_bind c_str (\<lambda>b. rd_ret (AlterRenameColumn t a b)))))
      (put_str t @ put_str a @ put_str b) (AlterRenameColumn t a b)"
    using AlterRenameColumn by (intro reads_bind [OF reads_str] reads_bind_ret reads_str) auto
  with AlterRenameColumn show ?thesis by (simp add: decode_body_def decode_catalog_op_def reads_tag)
qed (auto simp: decode_body_def decode_catalog_op_def intro!: reads_tag reads_ret reads_bind [OF reads_str]
       reads_bind_ret reads_str c_reads)

interpretation op_codec: codec encode_op decode_body op_ok
  by unfold_locales (rule reads_op)

text \<open>C11. The WAL encoding round-trips on every operation that fits the widths of the format (names
  and texts valid UTF-8 and below 4 GiB, counts and index parameters below 2^32, version ids
  below 2^64): it decodes from its record to itself, and two such operations never share an
  encoding.\<close>

theorem wal_op_roundtrip:
  assumes "op_ok op"
  shows "decode_op (encode_op op) = Inr op \<and> (\<forall>op'. op_ok op' \<and> encode_op op' = encode_op op \<longrightarrow> op' = op)"
  using op_codec.dec_enc [OF assms, of "[]"] op_codec.enc_inject [OF _ assms] by (auto simp: decode_op_def)

theorem wal_op_roundtrip_witness:
  "decode_op (encode_op (Insert ''t'' 7 [VNull, VInt (-5), VText ''hi'', VVector [1, 2]])) =
     Inr (Insert ''t'' 7 [VNull, VInt (-5), VText ''hi'', VVector [1, 2]])"
  using wal_op_roundtrip [of "Insert ''t'' 7 [VNull, VInt (-5), VText ''hi'', VVector [1, 2]]"]
  by (simp add: str_ok_def bytes_of_string_def Let_def)

text \<open>The parameters of an index are written \<^verbatim>\<open>as u32\<close>.\<close>

definition wrap_params :: "index_def \<Rightarrow> index_def" where
  "wrap_params d = d\<lparr>ix_params := (ix_params d)\<lparr>ip_m := ip_m (ix_params d) mod 2 ^ 32,
     ip_ef_construction := ip_ef_construction (ix_params d) mod 2 ^ 32, ip_ef_search := ip_ef_search (ix_params d) mod 2 ^ 32\<rparr>\<rparr>"

lemma le_encode_mod [simp]: "le_encode 4 (k mod 4294967296) = le_encode 4 k"
  using le_encode_decode [of "le_encode 4 k"] by (simp add: le_decode_encode_mod)

text \<open>The other half of the round trip: \<^verbatim>\<open>CREATE INDEX\<close> accepts any positive parameter, its record
  keeps the low 32 bits only, and the replayed index has those.  So the record of
  \<^verbatim>\<open>ef_search = 4294967360\<close> reads back as \<^verbatim>\<open>ef_search = 64\<close>.\<close>

theorem create_index_params_wrap:
  assumes "str_ok (ix_name d)" and "str_ok (ix_table d)" and "str_ok (ix_column d)"
  shows "decode_op (encode_op (CreateIndex d)) = Inr (CreateIndex (wrap_params d))"
proof -
  have "encode_op (CreateIndex d) = encode_op (CreateIndex (wrap_params d))"
    by (simp add: wrap_params_def)
  moreover have "op_ok (CreateIndex (wrap_params d))"
    using assms by (simp add: index_ok_def wrap_params_def)
  ultimately show ?thesis
    using op_codec.dec_enc [of "CreateIndex (wrap_params d)" "[]"] by (simp add: decode_op_def del: encode_op.simps op_ok.simps)
qed

theorem create_index_params_wrap_witness:
  "decode_op (encode_op (CreateIndex \<lparr>ix_name = ''i'', ix_table = ''t'', ix_column = ''c'',
       ix_params = index_params_default\<lparr>ip_ef_search := 4294967360\<rparr>\<rparr>)) =
     Inr (CreateIndex \<lparr>ix_name = ''i'', ix_table = ''t'', ix_column = ''c'', ix_params = index_params_default\<rparr>)"
  using create_index_params_wrap [of "\<lparr>ix_name = ''i'', ix_table = ''t'', ix_column = ''c'',
       ix_params = index_params_default\<lparr>ip_ef_search := 4294967360\<rparr>\<rparr>"]
  by (simp add: str_ok_def bytes_of_string_def wrap_params_def index_params_default_def)

text \<open>Records written before foreign keys and the later sections existed still decode: a
  create-table record that ends after its columns is read as the table with no foreign
  keys, defaults, checks or composite unique constraints.\<close>

theorem legacy_create_decodes:
  assumes "str_ok name" and "length cs < 2 ^ 32" and "\<forall>c\<in>set cs. column_ok c"
  shows "decode_op (1 # put_str name @ put_columns cs) = Inr (CreateTable \<lparr>sch_name = name,
    sch_columns = map strip_default cs, sch_foreign_keys = [], sch_checks = [], sch_uniques = [],
    sch_rls_enabled = False, sch_policies = []\<rparr>)"
proof -
  have "c_u8 (1 # put_str name @ put_columns cs) = Inr (1, put_str name @ put_columns cs)"
    using readsD [OF c_reads(2) [of 1]] by simp
  moreover have "c_str (put_str name @ put_columns cs) = Inr (name, put_columns cs)"
    using readsD [OF reads_str [OF assms(1)]] .
  moreover have "decode_columns (put_columns cs) = Inr (map strip_default cs, [])"
    using readsD_Nil [OF reads_columns [OF assms(2,3)]] .
  ultimately show ?thesis
    by (simp add: decode_op_def decode_body_def decode_create_def rd_bind_def decode_foreign_keys_def
      decode_table_extras_def c_at_end_def rd_ret_def)
qed

theorem legacy_create_decodes_witness:
  "decode_op (1 # put_str ''t'' @ put_columns []) = Inr (CreateTable \<lparr>sch_name = ''t'', sch_columns = [],
     sch_foreign_keys = [], sch_checks = [], sch_uniques = [], sch_rls_enabled = False, sch_policies = []\<rparr>)"
  using legacy_create_decodes [of "''t''" "[]"] by (simp add: str_ok_def bytes_of_string_def Let_def)

end
