(* ===== verification/Mvcc_Store.thy ===== *)
theory Mvcc_Store
  imports Engine_Types Wal_Codec
begin

text \<open>
  The MVCC table store (\<^verbatim>\<open>crates/engine/src/store.rs\<close>) and the two write primitives of the
  executor that stamp row versions (\<^verbatim>\<open>append_version\<close> and \<^verbatim>\<open>supersede\<close> of exec.rs), with its
  conflict check.  A \<^verbatim>\<open>HashMap\<close> is an association list with distinct keys in iteration
  order, a \<^verbatim>\<open>HashSet\<close> of version ids a set.  The vector index is reached through the
  methods of \<^verbatim>\<open>VectorIndex\<close> the store calls, a record of functions on an abstract index
  state \<open>'x\<close>; a view's parsed query is an abstract \<open>'q\<close>.  Counters are natural numbers, so
  a counter that reaches \<open>2 ^ 64\<close> is outside the model.
\<close>

section \<open>Row versions\<close>

definition PENDING :: nat where
  "PENDING = 2 ^ 64 - 1"

record row_version =
  rv_vid :: nat
  rv_values :: "sql_value list"
  rv_create_lsn :: nat
  rv_delete_lsn :: nat
  rv_owner :: nat

definition visible_to_reader :: "row_version \<Rightarrow> nat \<Rightarrow> bool" where
  "visible_to_reader r s \<longleftrightarrow> rv_create_lsn r \<le> s \<and> (rv_delete_lsn r = 0 \<or> rv_delete_lsn r > s)"

definition visible_to_writer :: "row_version \<Rightarrow> nat \<Rightarrow> nat \<Rightarrow> bool" where
  "visible_to_writer r s me \<longleftrightarrow>
     (let created = (if rv_create_lsn r = PENDING then rv_owner r = me else rv_create_lsn r \<le> s);
          deleted = (if rv_delete_lsn r = PENDING then rv_owner r = me
                     else rv_delete_lsn r \<noteq> 0 \<and> rv_delete_lsn r \<le> s)
      in created \<and> \<not> deleted)"

definition is_dead_at_head :: "row_version \<Rightarrow> bool" where
  "is_dead_at_head r \<longleftrightarrow> rv_delete_lsn r \<noteq> 0 \<and> rv_delete_lsn r \<noteq> PENDING"

section \<open>Tables\<close>

record table =
  t_schema :: table_schema
  t_rows :: "row_version list"
  t_next_vid :: nat
  t_next_autoinc :: int

definition table_new :: "table_schema \<Rightarrow> table" where
  "table_new sch = \<lparr>t_schema = sch, t_rows = [], t_next_vid = 1, t_next_autoinc = 1\<rparr>"

definition alloc_vid :: "table \<Rightarrow> nat \<times> table" where
  "alloc_vid t = (t_next_vid t, t\<lparr>t_next_vid := t_next_vid t + 1\<rparr>)"

definition version :: "table \<Rightarrow> nat \<Rightarrow> row_version option" where
  "version t vid = find (\<lambda>r. rv_vid r = vid) (t_rows t)"

fun update_first :: "('a \<Rightarrow> bool) \<Rightarrow> ('a \<Rightarrow> 'a) \<Rightarrow> 'a list \<Rightarrow> 'a list" where
  "update_first p f [] = []"
| "update_first p f (x # xs) = (if p x then f x # xs else x # update_first p f xs)"

text \<open>\<^verbatim>\<open>version_mut\<close> hands out the first version with that id; the callers' writes through it
  are the function argument.\<close>

definition version_mut :: "nat \<Rightarrow> (row_version \<Rightarrow> row_version) \<Rightarrow> table \<Rightarrow> table" where
  "version_mut vid f t = t\<lparr>t_rows := update_first (\<lambda>r. rv_vid r = vid) f (t_rows t)\<rparr>"

section \<open>The store\<close>

record 'x vector_ops =
  vi_new :: "index_def \<Rightarrow> 'x"
  vi_def :: "'x \<Rightarrow> index_def"
  vi_insert :: "'x \<Rightarrow> nat \<Rightarrow> u32 list \<Rightarrow> 'x"
  vi_mark_dead :: "'x \<Rightarrow> nat \<Rightarrow> 'x"
  vi_remove :: "'x \<Rightarrow> nat \<Rightarrow> 'x"
  vi_needs_maintenance :: "'x \<Rightarrow> bool"
  vi_rebuild_floor :: "'x \<Rightarrow> nat"
  vi_set_rebuild_floor :: "'x \<Rightarrow> nat \<Rightarrow> 'x"

record ('x, 'q) store =
  s_tables :: "(string \<times> table) list"
  s_indexes :: "(string \<times> 'x) list"
  s_views :: "(string \<times> 'q) list"
  s_committed_lsn :: nat

definition store_default :: "('x, 'q) store" where
  "store_default = \<lparr>s_tables = [], s_indexes = [], s_views = [], s_committed_lsn = 0\<rparr>"

abbreviation key :: "string \<Rightarrow> string" where
  "key \<equiv> to_ascii_lowercase"

abbreviation map_vals :: "('v \<Rightarrow> 'w) \<Rightarrow> ('k \<times> 'v) list \<Rightarrow> ('k \<times> 'w) list" where
  "map_vals f m \<equiv> map (\<lambda>(k, v). (k, f v)) m"

definition get_table :: "('x, 'q) store \<Rightarrow> string \<Rightarrow> table option" where
  "get_table st name = hm_get (s_tables st) (key name)"

text \<open>\<^verbatim>\<open>table_mut\<close>: the callers' writes through the reference are the function argument.\<close>

definition table_mut :: "string \<Rightarrow> (table \<Rightarrow> table) \<Rightarrow> ('x, 'q) store \<Rightarrow> ('x, 'q) store" where
  "table_mut name f st = (case get_table st name of
     None \<Rightarrow> st
   | Some t \<Rightarrow> st\<lparr>s_tables := hm_insert (key name) (f t) (s_tables st)\<rparr>)"

definition has_table :: "('x, 'q) store \<Rightarrow> string \<Rightarrow> bool" where
  "has_table st name \<longleftrightarrow> get_table st name \<noteq> None"

definition table_schemas :: "('x, 'q) store \<Rightarrow> table_schema list" where
  "table_schemas st = sort_key sch_name (map (t_schema \<circ> snd) (s_tables st))"

definition insert_table :: "table_schema \<Rightarrow> ('x, 'q) store \<Rightarrow> ('x, 'q) store" where
  "insert_table sch st = st\<lparr>s_tables := hm_insert (key (sch_name sch)) (table_new sch) (s_tables st)\<rparr>"

definition drop_table :: "'x vector_ops \<Rightarrow> string \<Rightarrow> ('x, 'q) store \<Rightarrow> bool \<times> ('x, 'q) store" where
  "drop_table vo name st =
     (has_table st name,
      st\<lparr>s_tables := hm_remove (key name) (s_tables st),
         s_indexes := filter (\<lambda>(k, ix). \<not> eq_ignore_ascii_case (ix_table (vi_def vo ix)) name) (s_indexes st)\<rparr>)"

definition has_view :: "('x, 'q) store \<Rightarrow> string \<Rightarrow> bool" where
  "has_view st name \<longleftrightarrow> hm_get (s_views st) (key name) \<noteq> None"

definition view :: "('x, 'q) store \<Rightarrow> string \<Rightarrow> 'q option" where
  "view st name = hm_get (s_views st) (key name)"

definition insert_view :: "string \<Rightarrow> 'q \<Rightarrow> ('x, 'q) store \<Rightarrow> ('x, 'q) store" where
  "insert_view name q st = st\<lparr>s_views := hm_insert (key name) q (s_views st)\<rparr>"

definition drop_view :: "string \<Rightarrow> ('x, 'q) store \<Rightarrow> bool \<times> ('x, 'q) store" where
  "drop_view name st = (has_view st name, st\<lparr>s_views := hm_remove (key name) (s_views st)\<rparr>)"

section \<open>Vector indexes\<close>

definition has_index :: "('x, 'q) store \<Rightarrow> string \<Rightarrow> bool" where
  "has_index st name \<longleftrightarrow> hm_get (s_indexes st) (key name) \<noteq> None"

definition on_table :: "'x vector_ops \<Rightarrow> string \<Rightarrow> 'x \<Rightarrow> bool" where
  "on_table vo table ix \<longleftrightarrow> eq_ignore_ascii_case (ix_table (vi_def vo ix)) table"

definition table_has_index :: "'x vector_ops \<Rightarrow> ('x, 'q) store \<Rightarrow> string \<Rightarrow> bool" where
  "table_has_index vo st table \<longleftrightarrow> list_ex (on_table vo table) (map snd (s_indexes st))"

definition register_index :: "'x vector_ops \<Rightarrow> index_def \<Rightarrow> ('x, 'q) store \<Rightarrow> ('x, 'q) store" where
  "register_index vo d st = st\<lparr>s_indexes := hm_insert (key (ix_name d)) (vi_new vo d) (s_indexes st)\<rparr>"

fun as_vector :: "sql_value \<Rightarrow> u32 list option" where
  "as_vector (VVector v) = Some v"
| "as_vector _ = None"

definition values_get :: "sql_value list \<Rightarrow> nat \<Rightarrow> sql_value option" where
  "values_get vs i = (if i < length vs then Some (vs ! i) else None)"

definition row_vector :: "nat \<Rightarrow> row_version \<Rightarrow> u32 list option" where
  "row_vector col r = Option.bind (values_get (rv_values r) col) as_vector"

definition populate_index :: "'x vector_ops \<Rightarrow> string \<Rightarrow> ('x, 'q) store \<Rightarrow> ('x, 'q) store" where
  "populate_index vo name st = (case hm_get (s_indexes st) (key name) of
     None \<Rightarrow> st
   | Some ix \<Rightarrow> (case hm_get (s_tables st) (key (ix_table (vi_def vo ix))) of
       None \<Rightarrow> st
     | Some t \<Rightarrow> (case column_index (t_schema t) (ix_column (vi_def vo ix)) of
         None \<Rightarrow> st
       | Some col \<Rightarrow>
           (let entries = List.map_filter (\<lambda>r. map_option (\<lambda>v. (rv_vid r, v, is_dead_at_head r)) (row_vector col r)) (t_rows t);
                add = (\<lambda>ix (vid, v, dead). let ix1 = vi_insert vo ix vid v in if dead then vi_mark_dead vo ix1 vid else ix1)
            in st\<lparr>s_indexes := hm_insert (key name) (foldl add ix entries) (s_indexes st)\<rparr>))))"

definition create_index :: "'x vector_ops \<Rightarrow> index_def \<Rightarrow> ('x, 'q) store \<Rightarrow> ('x, 'q) store" where
  "create_index vo d st = populate_index vo (ix_name d) (register_index vo d st)"

definition drop_index :: "string \<Rightarrow> ('x, 'q) store \<Rightarrow> bool \<times> ('x, 'q) store" where
  "drop_index name st = (has_index st name, st\<lparr>s_indexes := hm_remove (key name) (s_indexes st)\<rparr>)"

definition index_for :: "'x vector_ops \<Rightarrow> ('x, 'q) store \<Rightarrow> string \<Rightarrow> string \<Rightarrow> 'x option" where
  "index_for vo st table column =
     find (\<lambda>ix. on_table vo table ix \<and> eq_ignore_ascii_case (ix_column (vi_def vo ix)) column) (map snd (s_indexes st))"

definition adopt_index :: "'x vector_ops \<Rightarrow> 'x \<Rightarrow> ('x, 'q) store \<Rightarrow> ('x, 'q) store" where
  "adopt_index vo ix st = st\<lparr>s_indexes := hm_insert (key (ix_name (vi_def vo ix))) ix (s_indexes st)\<rparr>"

definition compact_index :: "'x vector_ops \<Rightarrow> string \<Rightarrow> nat \<Rightarrow> ('x, 'q) store \<Rightarrow> ('x, 'q) store" where
  "compact_index vo name floor_lsn st = (case hm_get (s_indexes st) (key name) of
     None \<Rightarrow> st
   | Some ix \<Rightarrow> (let d = vi_def vo ix in case hm_get (s_tables st) (key (ix_table d)) of
       None \<Rightarrow> st
     | Some t \<Rightarrow> (case column_index (t_schema t) (ix_column d) of
         None \<Rightarrow> st
       | Some col \<Rightarrow>
           (let kept = List.map_filter (\<lambda>r. map_option (Pair (rv_vid r)) (row_vector col r))
                  (filter (\<lambda>r. \<not> is_dead_at_head r) (t_rows t));
                fresh = foldl (\<lambda>ix (vid, v). vi_insert vo ix vid v) (vi_new vo d) kept
            in st\<lparr>s_indexes := hm_insert (key name)
                    (vi_set_rebuild_floor vo fresh (max floor_lsn (vi_rebuild_floor vo ix))) (s_indexes st)\<rparr>))))"

definition maintain_index :: "'x vector_ops \<Rightarrow> string \<Rightarrow> nat \<Rightarrow> ('x, 'q) store \<Rightarrow> ('x, 'q) store" where
  "maintain_index vo name floor_lsn st = (case hm_get (s_indexes st) (key name) of
     None \<Rightarrow> st
   | Some ix \<Rightarrow> if vi_needs_maintenance vo ix then compact_index vo name floor_lsn st else st)"

definition rebuild_one_index :: "'x vector_ops \<Rightarrow> string \<Rightarrow> ('x, 'q) store \<Rightarrow> ('x, 'q) store" where
  "rebuild_one_index vo name st =
     (let st1 = (case hm_get (s_indexes st) (key name) of
                   None \<Rightarrow> st
                 | Some ix \<Rightarrow> st\<lparr>s_indexes := hm_insert (key name) (vi_new vo (vi_def vo ix)) (s_indexes st)\<rparr>);
          st2 = populate_index vo (key name) st1
      in maintain_index vo (key name) (s_committed_lsn st2) st2)"

definition apply_index_deletes :: "'x vector_ops \<Rightarrow> string \<Rightarrow> nat list \<Rightarrow> nat \<Rightarrow> ('x, 'q) store \<Rightarrow> ('x, 'q) store" where
  "apply_index_deletes vo table vids commit_lsn st =
     (let names = map fst (filter (\<lambda>(k, ix). on_table vo table ix) (s_indexes st));
          one = (\<lambda>st name.
            let st1 = (case hm_get (s_indexes st) name of
                         None \<Rightarrow> st
                       | Some ix \<Rightarrow> st\<lparr>s_indexes := hm_insert name (foldl (vi_mark_dead vo) ix vids) (s_indexes st)\<rparr>)
            in case hm_get (s_indexes st1) name of
                 None \<Rightarrow> st1
               | Some ix \<Rightarrow> if vi_needs_maintenance vo ix then compact_index vo name commit_lsn st1 else st1)
      in foldl one st names)"

definition index_row_inserted :: "'x vector_ops \<Rightarrow> string \<Rightarrow> nat \<Rightarrow> sql_value list \<Rightarrow> ('x, 'q) store \<Rightarrow> ('x, 'q) store" where
  "index_row_inserted vo table vid vals st = (case hm_get (s_tables st) (key table) of
     None \<Rightarrow> st
   | Some t \<Rightarrow> st\<lparr>s_indexes := map_vals (\<lambda>ix.
       if on_table vo table ix then
         (case column_index (t_schema t) (ix_column (vi_def vo ix)) of
            None \<Rightarrow> ix
          | Some col \<Rightarrow> (case Option.bind (values_get vals col) as_vector of
              None \<Rightarrow> ix | Some v \<Rightarrow> vi_insert vo ix vid v))
       else ix) (s_indexes st)\<rparr>)"

section \<open>Replay and schema changes\<close>

definition set_rls :: "string \<Rightarrow> bool \<Rightarrow> ('x, 'q) store \<Rightarrow> ('x, 'q) store" where
  "set_rls table enabled = table_mut table (\<lambda>t. t\<lparr>t_schema := (t_schema t)\<lparr>sch_rls_enabled := enabled\<rparr>\<rparr>)"

definition other_policies :: "string \<Rightarrow> policy list \<Rightarrow> policy list" where
  "other_policies name = filter (\<lambda>p. \<not> eq_ignore_ascii_case (pol_name p) name)"

definition add_policy :: "string \<Rightarrow> policy \<Rightarrow> ('x, 'q) store \<Rightarrow> ('x, 'q) store" where
  "add_policy table p = table_mut table (\<lambda>t. t\<lparr>t_schema := (t_schema t)\<lparr>sch_policies :=
     other_policies (pol_name p) (sch_policies (t_schema t)) @ [p]\<rparr>\<rparr>)"

definition drop_policy :: "string \<Rightarrow> string \<Rightarrow> ('x, 'q) store \<Rightarrow> bool \<times> ('x, 'q) store" where
  "drop_policy table name st =
     (case get_table st table of
        None \<Rightarrow> False
      | Some t \<Rightarrow> length (other_policies name (sch_policies (t_schema t))) \<noteq> length (sch_policies (t_schema t)),
      table_mut table (\<lambda>t. t\<lparr>t_schema := (t_schema t)\<lparr>sch_policies :=
        other_policies name (sch_policies (t_schema t))\<rparr>\<rparr>) st)"

definition replay_insert :: "string \<Rightarrow> nat \<Rightarrow> sql_value list \<Rightarrow> nat \<Rightarrow> ('x, 'q) store \<Rightarrow> ('x, 'q) store" where
  "replay_insert table vid vals lsn = table_mut table (\<lambda>t. t\<lparr>
     t_rows := t_rows t @ [\<lparr>rv_vid = vid, rv_values = vals, rv_create_lsn = lsn, rv_delete_lsn = 0, rv_owner = 0\<rparr>],
     t_next_vid := max (t_next_vid t) (vid + 1)\<rparr>)"

definition replay_delete :: "string \<Rightarrow> nat \<Rightarrow> nat \<Rightarrow> ('x, 'q) store \<Rightarrow> ('x, 'q) store" where
  "replay_delete table vid lsn = table_mut table (version_mut vid (\<lambda>r. r\<lparr>rv_delete_lsn := lsn\<rparr>))"

definition add_column :: "string \<Rightarrow> column \<Rightarrow> sql_value \<Rightarrow> ('x, 'q) store \<Rightarrow> ('x, 'q) store" where
  "add_column table c fill = table_mut table (\<lambda>t. t\<lparr>
     t_schema := (t_schema t)\<lparr>sch_columns := sch_columns (t_schema t) @ [c]\<rparr>,
     t_rows := map (\<lambda>r. r\<lparr>rv_values := rv_values r @ [fill]\<rparr>) (t_rows t)\<rparr>)"

definition remove_nth :: "nat \<Rightarrow> 'a list \<Rightarrow> 'a list" where
  "remove_nth i xs = take i xs @ drop (Suc i) xs"

definition drop_column :: "string \<Rightarrow> string \<Rightarrow> ('x, 'q) store \<Rightarrow> ('x, 'q) store" where
  "drop_column table name = table_mut table (\<lambda>t. case column_index (t_schema t) name of
     None \<Rightarrow> t
   | Some idx \<Rightarrow> t\<lparr>
       t_schema := (t_schema t)\<lparr>sch_columns := remove_nth idx (sch_columns (t_schema t))\<rparr>,
       t_rows := map (\<lambda>r. if idx < length (rv_values r) then r\<lparr>rv_values := remove_nth idx (rv_values r)\<rparr> else r) (t_rows t)\<rparr>)"

definition rename_column :: "string \<Rightarrow> string \<Rightarrow> string \<Rightarrow> ('x, 'q) store \<Rightarrow> ('x, 'q) store" where
  "rename_column table from to = table_mut table (\<lambda>t. case column_index (t_schema t) from of
     None \<Rightarrow> t
   | Some idx \<Rightarrow> t\<lparr>t_schema := (t_schema t)\<lparr>sch_columns :=
       (sch_columns (t_schema t))[idx := (sch_columns (t_schema t) ! idx)\<lparr>col_name := to\<rparr>]\<rparr>\<rparr>)"

definition rename_table :: "string \<Rightarrow> string \<Rightarrow> ('x, 'q) store \<Rightarrow> ('x, 'q) store" where
  "rename_table from to st = (case get_table st from of
     None \<Rightarrow> st
   | Some t \<Rightarrow> st\<lparr>s_tables := hm_insert (key to) (t\<lparr>t_schema := (t_schema t)\<lparr>sch_name := to\<rparr>\<rparr>)
       (hm_remove (key from) (s_tables st))\<rparr>)"

definition autoinc_max :: "nat \<Rightarrow> row_version list \<Rightarrow> int" where
  "autoinc_max col rows = foldl (\<lambda>m r. case values_get (rv_values r) col of Some (VInt i) \<Rightarrow> max m i | _ \<Rightarrow> m) 0 rows"

definition rebuild_autoinc :: "('x, 'q) store \<Rightarrow> ('x, 'q) store" where
  "rebuild_autoinc st = st\<lparr>s_tables := map_vals (\<lambda>t. case position col_autoincrement (sch_columns (t_schema t)) of
     None \<Rightarrow> t
   | Some col \<Rightarrow> t\<lparr>t_next_autoinc := autoinc_max col (t_rows t) + 1\<rparr>) (s_tables st)\<rparr>"

section \<open>Commit, rollback and savepoints\<close>

definition finalize_row :: "nat \<Rightarrow> nat \<Rightarrow> row_version \<Rightarrow> row_version" where
  "finalize_row owner lsn r =
     (if rv_owner r \<noteq> owner then r
      else r\<lparr>rv_create_lsn := if rv_create_lsn r = PENDING then lsn else rv_create_lsn r,
             rv_delete_lsn := if rv_delete_lsn r = PENDING then lsn else rv_delete_lsn r,
             rv_owner := 0\<rparr>)"

definition finalized_deletes :: "nat \<Rightarrow> row_version list \<Rightarrow> nat list" where
  "finalized_deletes owner rows = map rv_vid (filter (\<lambda>r. rv_owner r = owner \<and> rv_delete_lsn r = PENDING) rows)"

definition map_rows :: "(row_version list \<Rightarrow> row_version list) \<Rightarrow> ('x, 'q) store \<Rightarrow> ('x, 'q) store" where
  "map_rows f st = st\<lparr>s_tables := map_vals (\<lambda>t. t\<lparr>t_rows := f (t_rows t)\<rparr>) (s_tables st)\<rparr>"

definition finalize_owner :: "'x vector_ops \<Rightarrow> nat \<Rightarrow> nat \<Rightarrow> ('x, 'q) store \<Rightarrow> ('x, 'q) store" where
  "finalize_owner vo owner lsn st =
     (let deleted_by_table = filter (\<lambda>(k, ds). ds \<noteq> [])
            (map_vals (\<lambda>t. finalized_deletes owner (t_rows t)) (s_tables st))
      in foldl (\<lambda>st (table, vids). apply_index_deletes vo table vids lsn st)
           (map_rows (map (finalize_row owner lsn)) st) deleted_by_table)"

definition all_rows :: "('x, 'q) store \<Rightarrow> row_version list" where
  "all_rows st = concat (map (t_rows \<circ> snd) (s_tables st))"

definition pending_snapshot :: "('x, 'q) store \<Rightarrow> nat \<Rightarrow> nat set \<times> nat set" where
  "pending_snapshot st owner =
     (let mine = filter (\<lambda>r. rv_owner r = owner) (all_rows st)
      in (set (map rv_vid (filter (\<lambda>r. rv_create_lsn r = PENDING) mine)),
          set (map rv_vid (filter (\<lambda>r. rv_delete_lsn r = PENDING) mine))))"

definition since_savepoint :: "nat \<Rightarrow> nat set \<Rightarrow> row_version \<Rightarrow> bool" where
  "since_savepoint owner inserted r \<longleftrightarrow> rv_owner r = owner \<and> rv_create_lsn r = PENDING \<and> rv_vid r \<notin> inserted"

definition undelete_since :: "nat \<Rightarrow> nat set \<Rightarrow> row_version \<Rightarrow> row_version" where
  "undelete_since owner deleted r =
     (if rv_owner r = owner \<and> rv_delete_lsn r = PENDING \<and> rv_vid r \<notin> deleted
      then r\<lparr>rv_delete_lsn := 0, rv_owner := if rv_create_lsn r \<noteq> PENDING then 0 else rv_owner r\<rparr>
      else r)"

definition remove_from_indexes :: "'x vector_ops \<Rightarrow> nat list \<Rightarrow> ('x, 'q) store \<Rightarrow> ('x, 'q) store" where
  "remove_from_indexes vo vids st = st\<lparr>s_indexes := map_vals (\<lambda>ix. foldl (vi_remove vo) ix vids) (s_indexes st)\<rparr>"

definition rollback_to_savepoint :: "'x vector_ops \<Rightarrow> nat \<Rightarrow> nat set \<Rightarrow> nat set \<Rightarrow> ('x, 'q) store \<Rightarrow> ('x, 'q) store" where
  "rollback_to_savepoint vo owner inserted deleted st =
     (let discarded = map rv_vid (filter (since_savepoint owner inserted) (all_rows st))
      in remove_from_indexes vo discarded
           (map_rows (\<lambda>rows. map (undelete_since owner deleted) (filter (\<lambda>r. \<not> since_savepoint owner inserted r) rows)) st))"

definition pending_insert :: "nat \<Rightarrow> row_version \<Rightarrow> bool" where
  "pending_insert owner r \<longleftrightarrow> rv_owner r = owner \<and> rv_create_lsn r = PENDING"

definition undelete :: "nat \<Rightarrow> row_version \<Rightarrow> row_version" where
  "undelete owner r = (if rv_owner r = owner \<and> rv_delete_lsn r = PENDING
     then r\<lparr>rv_delete_lsn := 0, rv_owner := 0\<rparr> else r)"

definition rollback_rows :: "nat \<Rightarrow> row_version list \<Rightarrow> row_version list" where
  "rollback_rows owner rows = map (undelete owner) (filter (\<lambda>r. \<not> pending_insert owner r) rows)"

definition rollback_owner :: "'x vector_ops \<Rightarrow> nat \<Rightarrow> ('x, 'q) store \<Rightarrow> ('x, 'q) store" where
  "rollback_owner vo owner st =
     (let discarded = map rv_vid (filter (pending_insert owner) (all_rows st));
          st1 = map_rows (rollback_rows owner) st
      in if discarded = [] then st1 else remove_from_indexes vo discarded st1)"

section \<open>Write primitives of the executor\<close>

text \<open>Both primitives unwrap the table: \<open>None\<close> is the panic on a table that does not exist.\<close>

definition mark_deleted :: "nat \<Rightarrow> row_version \<Rightarrow> row_version" where
  "mark_deleted owner r = r\<lparr>rv_delete_lsn := PENDING, rv_owner := owner\<rparr>"

definition supersede :: "string \<Rightarrow> nat \<Rightarrow> nat \<Rightarrow> ('x, 'q) store \<times> wal_op list \<Rightarrow>
    (('x, 'q) store \<times> wal_op list) option" where
  "supersede table old_vid owner = (\<lambda>(st, wal). case get_table st table of
     None \<Rightarrow> None
   | Some t \<Rightarrow> Some (table_mut table (version_mut old_vid (mark_deleted owner)) st, wal @ [Delete table old_vid]))"

definition append_row :: "sql_value list \<Rightarrow> nat \<Rightarrow> table \<Rightarrow> table" where
  "append_row vals owner t = (let (vid, t1) = alloc_vid t in t1\<lparr>t_rows := t_rows t1 @
     [\<lparr>rv_vid = vid, rv_values = vals, rv_create_lsn = PENDING, rv_delete_lsn = 0, rv_owner = owner\<rparr>]\<rparr>)"

definition append_version :: "string \<Rightarrow> sql_value list \<Rightarrow> nat \<Rightarrow> ('x, 'q) store \<times> wal_op list \<Rightarrow>
    (nat \<times> ('x, 'q) store \<times> wal_op list) option" where
  "append_version table vals owner = (\<lambda>(st, wal). case get_table st table of
     None \<Rightarrow> None
   | Some t \<Rightarrow> Some (t_next_vid t, table_mut table (append_row vals owner) st, wal @ [Insert table (t_next_vid t) vals]))"

definition check_no_conflict :: "row_version \<Rightarrow> nat \<Rightarrow> nat \<Rightarrow> bool" where
  "check_no_conflict r snapshot me \<longleftrightarrow>
     \<not> (rv_delete_lsn r \<noteq> 0 \<and> rv_delete_lsn r \<noteq> PENDING \<and> rv_delete_lsn r > snapshot) \<and>
     \<not> (rv_delete_lsn r = PENDING \<and> rv_owner r \<noteq> me)"

section \<open>Well-formed stores\<close>

lemma PENDING_pos [simp]: "0 < PENDING" "PENDING \<noteq> 0"
  by (simp_all add: PENDING_def)

text \<open>A row version is well formed below the LSN \<open>c\<close> when each stamp is a committed LSN up to
  \<open>c\<close>, or pending, and it has an owner exactly while a stamp is pending.\<close>

definition row_ok :: "nat \<Rightarrow> row_version \<Rightarrow> bool" where
  "row_ok c r \<longleftrightarrow> (rv_create_lsn r = PENDING \<or> rv_create_lsn r \<le> c) \<and>
     (rv_delete_lsn r = 0 \<or> rv_delete_lsn r = PENDING \<or> rv_delete_lsn r \<le> c) \<and>
     (rv_owner r = 0 \<longleftrightarrow> rv_create_lsn r \<noteq> PENDING \<and> rv_delete_lsn r \<noteq> PENDING)"

definition table_ok :: "nat \<Rightarrow> table \<Rightarrow> bool" where
  "table_ok c t \<longleftrightarrow> list_all (row_ok c) (t_rows t) \<and> distinct (map rv_vid (t_rows t)) \<and>
     (\<forall>r\<in>set (t_rows t). 0 < rv_vid r \<and> rv_vid r < t_next_vid t) \<and> 0 < t_next_vid t"

definition store_ok :: "('x, 'q) store \<Rightarrow> bool" where
  "store_ok st \<longleftrightarrow> hm_wf (s_tables st) \<and> list_all (table_ok (s_committed_lsn st) \<circ> snd) (s_tables st) \<and>
     s_committed_lsn st < PENDING"

lemma row_ok_mono: "row_ok c r \<Longrightarrow> c \<le> c' \<Longrightarrow> row_ok c' r"
  by (auto simp: row_ok_def)

lemma store_okD:
  assumes "store_ok st" and "get_table st table = Some t"
  shows "table_ok (s_committed_lsn st) t"
  using assms by (auto simp: store_ok_def get_table_def list_all_iff dest!: map_of_SomeD)

lemma get_table_mut:
  "get_table (table_mut table f st) name =
     (if key name = key table then map_option f (get_table st table) else get_table st name)"
  by (auto simp: table_mut_def get_table_def split: option.splits)

lemma table_mut_keeps [simp]: "s_committed_lsn (table_mut table f st) = s_committed_lsn st"
  "s_indexes (table_mut table f st) = s_indexes st"
  by (simp_all add: table_mut_def split: option.splits)

lemma set_hm_insert_subset: "set (hm_insert k v m) \<subseteq> insert (k, v) (set m)"
  by (induction m) auto

lemma store_ok_table_mut:
  assumes "store_ok st" and "\<And>t. get_table st table = Some t \<Longrightarrow> table_ok (s_committed_lsn st) (f t)"
  shows "store_ok (table_mut table f st)"
proof (cases "get_table st table")
  case (Some t)
  then have "table_ok (s_committed_lsn st) (f t)" by (rule assms(2))
  with assms(1) Some show ?thesis
    using set_hm_insert_subset [of "key table" "f t" "s_tables st"]
    by (auto simp: store_ok_def table_mut_def list_all_iff)
qed (use assms in \<open>simp add: table_mut_def\<close>)

lemma update_first_map:
  assumes "distinct (map rv_vid rows)"
  shows "update_first (\<lambda>r. rv_vid r = vid) f rows = map (\<lambda>r. if rv_vid r = vid then f r else r) rows"
  using assms by (induction rows) (auto intro!: map_idI [symmetric] simp: image_iff)

section \<open>Index maintenance leaves the tables alone\<close>

lemma compact_index_keeps [simp]: "s_tables (compact_index vo name lsn st) = s_tables st"
  "s_committed_lsn (compact_index vo name lsn st) = s_committed_lsn st"
  "s_views (compact_index vo name lsn st) = s_views st"
  by (simp_all add: compact_index_def Let_def split: option.splits)

lemma foldl_keeps:
  assumes "\<And>st x. g (f st x) = g st"
  shows "g (foldl f st xs) = g st"
  by (induction xs arbitrary: st) (simp_all add: assms)

lemma apply_index_deletes_keeps [simp]: "s_tables (apply_index_deletes vo table vids lsn st) = s_tables st"
  "s_committed_lsn (apply_index_deletes vo table vids lsn st) = s_committed_lsn st"
  "s_views (apply_index_deletes vo table vids lsn st) = s_views st"
  unfolding apply_index_deletes_def Let_def
  by (rule foldl_keeps, simp split: option.splits)+

lemma finalize_owner_tables: "s_tables (finalize_owner vo owner lsn st) = s_tables (map_rows (map (finalize_row owner lsn)) st)"
  unfolding finalize_owner_def Let_def by (rule foldl_keeps) (simp split: prod.splits)

lemma finalize_owner_keeps [simp]: "s_committed_lsn (finalize_owner vo owner lsn st) = s_committed_lsn st"
proof -
  have "s_committed_lsn (finalize_owner vo owner lsn st) = s_committed_lsn (map_rows (map (finalize_row owner lsn)) st)"
    unfolding finalize_owner_def Let_def by (rule foldl_keeps) (simp split: prod.splits)
  then show ?thesis by (simp add: map_rows_def)
qed

lemma remove_from_indexes_keeps [simp]: "s_tables (remove_from_indexes vo vids st) = s_tables st"
  "s_committed_lsn (remove_from_indexes vo vids st) = s_committed_lsn st"
  by (simp_all add: remove_from_indexes_def)

lemma rollback_owner_keeps: "s_tables (rollback_owner vo owner st) = s_tables (map_rows (rollback_rows owner) st)"
  "s_committed_lsn (rollback_owner vo owner st) = s_committed_lsn st"
  by (simp_all add: rollback_owner_def Let_def map_rows_def)

definition rollback_to_rows :: "nat \<Rightarrow> nat set \<Rightarrow> nat set \<Rightarrow> row_version list \<Rightarrow> row_version list" where
  "rollback_to_rows owner inserted deleted rows =
     map (undelete_since owner deleted) (filter (\<lambda>r. \<not> since_savepoint owner inserted r) rows)"

lemma rollback_to_savepoint_keeps:
  "s_tables (rollback_to_savepoint vo owner inserted deleted st) = s_tables (map_rows (rollback_to_rows owner inserted deleted) st)"
  "s_committed_lsn (rollback_to_savepoint vo owner inserted deleted st) = s_committed_lsn st"
  by (simp_all add: rollback_to_savepoint_def Let_def map_rows_def rollback_to_rows_def [abs_def])

lemma index_row_inserted_keeps [simp]: "s_tables (index_row_inserted vo table vid vals st) = s_tables st"
  "s_committed_lsn (index_row_inserted vo table vid vals st) = s_committed_lsn st"
  by (simp_all add: index_row_inserted_def split: option.splits)

lemma map_of_map_vals: "map_of (map_vals f m) = map_option f \<circ> map_of m"
  by (induction m) auto

lemma get_table_map_rows: "get_table (map_rows f st) name = map_option (\<lambda>t. t\<lparr>t_rows := f (t_rows t)\<rparr>) (get_table st name)"
  by (simp add: get_table_def map_rows_def map_of_map_vals)

lemma get_table_cong: "s_tables st' = s_tables st \<Longrightarrow> get_table st' name = get_table st name"
  by (simp add: get_table_def)

section \<open>Steps of concurrent writers\<close>

text \<open>What in-flight writers do to the store between DDL statements, one step per critical
  section: append a version, supersede a version that is visible to the writer and passes
  the conflict check, maintain the vector indexes, publish a durable commit at an LSN above
  the high-water mark, or discard.\<close>

inductive mvcc_step :: "'x vector_ops \<Rightarrow> ('x, 'q) store \<Rightarrow> ('x, 'q) store \<Rightarrow> bool" for vo where
  step_append: "append_version table vals me (st, w) = Some (vid, st', w') \<Longrightarrow> me \<noteq> 0 \<Longrightarrow> mvcc_step vo st st'"
| step_index: "mvcc_step vo st (index_row_inserted vo table vid vals st)"
| step_supersede: "get_table st table = Some t \<Longrightarrow> version t vid = Some r \<Longrightarrow> visible_to_writer r s me \<Longrightarrow>
    check_no_conflict r s me \<Longrightarrow> s < PENDING \<Longrightarrow> me \<noteq> 0 \<Longrightarrow>
    supersede table vid me (st, w) = Some (st', w') \<Longrightarrow> mvcc_step vo st st'"
| step_commit: "me \<noteq> 0 \<Longrightarrow> s_committed_lsn st < lsn \<Longrightarrow> lsn < PENDING \<Longrightarrow>
    mvcc_step vo st ((finalize_owner vo me lsn st)\<lparr>s_committed_lsn := lsn\<rparr>)"
| step_rollback: "me \<noteq> 0 \<Longrightarrow> mvcc_step vo st (rollback_owner vo me st)"
| step_rollback_to: "me \<noteq> 0 \<Longrightarrow> mvcc_step vo st (rollback_to_savepoint vo me inserted deleted st)"

definition snap :: "nat \<Rightarrow> row_version list \<Rightarrow> (nat \<times> sql_value list) list" where
  "snap s rows = map (\<lambda>r. (rv_vid r, rv_values r)) (filter (\<lambda>r. visible_to_reader r s) rows)"

text \<open>What a reader sees of a table at snapshot \<open>s\<close>.\<close>

definition snapshot_rows :: "('x, 'q) store \<Rightarrow> string \<Rightarrow> nat \<Rightarrow> (nat \<times> sql_value list) list option" where
  "snapshot_rows st table s = map_option (\<lambda>t. snap s (t_rows t)) (get_table st table)"

lemma snap_map:
  assumes "\<And>r. r \<in> set rows \<Longrightarrow> rv_vid (g r) = rv_vid r \<and> rv_values (g r) = rv_values r \<and>
      visible_to_reader (g r) s = visible_to_reader r s"
  shows "snap s (map g rows) = snap s rows"
  using assms by (induction rows) (auto simp: snap_def)

lemma snap_filter:
  assumes "\<And>r. r \<in> set rows \<Longrightarrow> \<not> P r \<Longrightarrow> \<not> visible_to_reader r s"
  shows "snap s (filter P rows) = snap s rows"
  using assms by (induction rows) (auto simp: snap_def)

lemma pending_create_invisible: "s < PENDING \<Longrightarrow> rv_create_lsn r = PENDING \<Longrightarrow> \<not> visible_to_reader r s"
  by (simp add: visible_to_reader_def)

text \<open>A superseded row carried no delete stamp and belongs to nobody or to the writer.\<close>

lemma supersede_target:
  assumes "row_ok c r" and "visible_to_writer r s me" and "check_no_conflict r s me"
  shows "rv_delete_lsn r = 0 \<and> (rv_create_lsn r = PENDING \<longrightarrow> rv_owner r = me) \<and> (rv_create_lsn r \<noteq> PENDING \<longrightarrow> rv_owner r = 0)"
proof -
  have "rv_delete_lsn r \<noteq> PENDING"
    using assms(2,3) by (auto simp: visible_to_writer_def check_no_conflict_def Let_def split: if_splits)
  moreover have "rv_delete_lsn r = 0"
    using assms(2,3) calculation
    by (auto simp: visible_to_writer_def check_no_conflict_def Let_def split: if_splits)
  ultimately show ?thesis
    using assms(1,2) by (auto simp: row_ok_def visible_to_writer_def Let_def split: if_splits)
qed

end
