(* ===== verification/Mvcc_Isolation.thy ===== *)
theory Mvcc_Isolation
  imports Mvcc_Store
begin

text \<open>
  Snapshot isolation of the MVCC store: what concurrent writers, commits and rollbacks can
  and cannot change of what a reader sees.  Every step of \<open>mvcc_step\<close> keeps the store well
  formed and leaves every snapshot up to the high-water mark as it was; a commit publishes
  exactly what its writer saw; a rollback removes exactly what its writer did.
\<close>

section \<open>The invariant\<close>

lemma table_ok_map:
  assumes "table_ok c t" and "\<And>r. r \<in> set (t_rows t) \<Longrightarrow> row_ok c r \<Longrightarrow> row_ok c' (g r)"
    and "\<And>r. rv_vid (g r) = rv_vid r"
  shows "table_ok c' (t\<lparr>t_rows := map g (t_rows t)\<rparr>)"
proof -
  have "rv_vid \<circ> g = rv_vid" using assms(3) by auto
  with assms show ?thesis by (auto simp: table_ok_def list_all_iff)
qed

lemma table_ok_filter: "table_ok c t \<Longrightarrow> table_ok c (t\<lparr>t_rows := filter P (t_rows t)\<rparr>)"
  by (auto simp: table_ok_def list_all_iff distinct_map_filter)

lemma fst_map_vals: "fst \<circ> (\<lambda>(k, v). (k, f v)) = fst"
  by auto

lemma store_ok_map_rows:
  assumes "store_ok st" and "s_committed_lsn st \<le> c" and "c < PENDING"
    and "\<And>t. table_ok (s_committed_lsn st) t \<Longrightarrow> table_ok c (t\<lparr>t_rows := f (t_rows t)\<rparr>)"
    and "s_tables st' = s_tables (map_rows f st)" and "s_committed_lsn st' = c"
  shows "store_ok st'"
  using assms by (auto simp: store_ok_def map_rows_def hm_wf_def list_all_iff fst_map_vals)

lemma row_ok_finalize: "row_ok c r \<Longrightarrow> c \<le> lsn \<Longrightarrow> me \<noteq> 0 \<Longrightarrow> lsn < PENDING \<Longrightarrow> row_ok lsn (finalize_row me lsn r)"
  by (auto simp: row_ok_def finalize_row_def)

lemma row_ok_undelete: "row_ok c r \<Longrightarrow> \<not> pending_insert me r \<Longrightarrow> row_ok c (undelete me r)"
  by (auto simp: row_ok_def undelete_def pending_insert_def)

lemma row_ok_undelete_since: "row_ok c r \<Longrightarrow> me \<noteq> 0 \<Longrightarrow> row_ok c (undelete_since me D r)"
  by (auto simp: row_ok_def undelete_since_def)

lemma rv_vid_kept [simp]: "rv_vid (finalize_row me lsn r) = rv_vid r" "rv_vid (undelete me r) = rv_vid r"
  "rv_vid (undelete_since me D r) = rv_vid r" "rv_vid (mark_deleted me r) = rv_vid r"
  by (simp_all add: finalize_row_def undelete_def undelete_since_def mark_deleted_def)

lemma rv_values_kept [simp]: "rv_values (finalize_row me lsn r) = rv_values r" "rv_values (undelete me r) = rv_values r"
  "rv_values (undelete_since me D r) = rv_values r" "rv_values (mark_deleted me r) = rv_values r"
  by (simp_all add: finalize_row_def undelete_def undelete_since_def mark_deleted_def)

lemma table_ok_rollback:
  assumes "table_ok c t"
  shows "table_ok c (t\<lparr>t_rows := rollback_rows me (t_rows t)\<rparr>)"
  using table_ok_map [OF table_ok_filter [OF assms, of "\<lambda>r. \<not> pending_insert me r"], of c "undelete me"]
  by (simp add: rollback_rows_def row_ok_undelete)

lemma table_ok_rollback_to:
  assumes "table_ok c t" and "me \<noteq> 0"
  shows "table_ok c (t\<lparr>t_rows := rollback_to_rows me I D (t_rows t)\<rparr>)"
  using table_ok_map [OF table_ok_filter [OF assms(1), of "\<lambda>r. \<not> since_savepoint me I r"], of c "undelete_since me D"]
  by (simp add: rollback_to_rows_def row_ok_undelete_since assms(2))

lemma table_ok_append:
  "table_ok c t \<Longrightarrow> me \<noteq> 0 \<Longrightarrow> table_ok c (append_row vals me t)"
  by (auto simp: table_ok_def append_row_def alloc_vid_def row_ok_def list_all_iff less_Suc_eq)

lemma version_mut_map:
  "table_ok c t \<Longrightarrow> version_mut vid f t = t\<lparr>t_rows := map (\<lambda>r. if rv_vid r = vid then f r else r) (t_rows t)\<rparr>"
  by (simp add: version_mut_def table_ok_def update_first_map)

lemma version_unique:
  assumes "table_ok c t" and "version t vid = Some r" and "r' \<in> set (t_rows t)" and "rv_vid r' = vid"
  shows "r' = r"
proof -
  have "r \<in> set (t_rows t)" "rv_vid r = vid"
    using assms(2) by (auto simp: version_def find_Some_iff)
  with assms show ?thesis
    by (auto simp: table_ok_def distinct_map inj_on_def)
qed

lemma table_ok_mark:
  assumes "table_ok c t" and "version t vid = Some r" and "visible_to_writer r s me" and "check_no_conflict r s me"
    and "me \<noteq> 0"
  shows "table_ok c (version_mut vid (mark_deleted me) t)"
proof -
  have "row_ok c (if rv_vid r' = vid then mark_deleted me r' else r')" if "r' \<in> set (t_rows t)" "row_ok c r'" for r'
  proof (cases "rv_vid r' = vid")
    case True
    with version_unique [OF assms(1,2)] that(1) have "r' = r" by blast
    have "row_ok c r" using that(2) \<open>r' = r\<close> by simp
    note target = supersede_target [OF this assms(3,4)]
    from \<open>row_ok c r\<close> target assms(5) True \<open>r' = r\<close> show ?thesis
      by (simp add: row_ok_def mark_deleted_def)
  qed (use that in simp)
  then show ?thesis
    unfolding version_mut_map [OF assms(1)] by (intro table_ok_map [OF assms(1)]) simp_all
qed

lemma mvcc_step_ok: "mvcc_step vo st st' \<Longrightarrow> store_ok st \<Longrightarrow> store_ok st'"
proof (induction rule: mvcc_step.induct)
  case (step_append table vals me st w vid st' w')
  then have "st' = table_mut table (append_row vals me) st"
    by (simp add: append_version_def split: option.splits)
  with step_append show ?case
    by (auto intro: store_ok_table_mut table_ok_append store_okD)
next
  case (step_index st table vid vals)
  then show ?case by (simp add: store_ok_def)
next
  case (step_supersede st table t vid r s me w st' w')
  then have "st' = table_mut table (version_mut vid (mark_deleted me)) st"
    by (simp add: supersede_def)
  with step_supersede show ?case
    by (auto intro!: store_ok_table_mut table_ok_mark dest: store_okD)
next
  case (step_commit me st lsn)
  show ?case
    by (rule store_ok_map_rows [OF step_commit(4), of lsn "map (finalize_row me lsn)"])
      (use step_commit in \<open>auto simp: finalize_owner_tables intro!: table_ok_map intro: row_ok_finalize\<close>)
next
  case (step_rollback me st)
  show ?case
    by (rule store_ok_map_rows [OF step_rollback(2) order_refl _ table_ok_rollback])
      (use step_rollback in \<open>auto simp: rollback_owner_keeps store_ok_def\<close>)
next
  case (step_rollback_to me st I D)
  show ?case
    by (rule store_ok_map_rows [OF step_rollback_to(2) order_refl _ table_ok_rollback_to])
      (use step_rollback_to in \<open>auto simp: rollback_to_savepoint_keeps store_ok_def\<close>)
qed

section \<open>Snapshots are stable\<close>

lemma snapshot_table_mut:
  assumes "\<And>t. get_table st table = Some t \<Longrightarrow> snap s (t_rows (f t)) = snap s (t_rows t)"
  shows "snapshot_rows (table_mut table f st) name s = snapshot_rows st name s"
proof (cases "key name = key table")
  case True
  then have "get_table st name = get_table st table" by (simp add: get_table_def)
  with assms True show ?thesis
    by (cases "get_table st table") (simp_all add: snapshot_rows_def get_table_mut)
qed (simp add: snapshot_rows_def get_table_mut)

lemma snapshot_map_rows:
  assumes "\<And>t. get_table st name = Some t \<Longrightarrow> snap s (f (t_rows t)) = snap s (t_rows t)"
    and "s_tables st' = s_tables (map_rows f st)"
  shows "snapshot_rows st' name s = snapshot_rows st name s"
  using assms get_table_cong [OF assms(2), of name]
  by (cases "get_table st name") (simp_all add: snapshot_rows_def get_table_map_rows)

lemma snap_append_row: "s < PENDING \<Longrightarrow> snap s (t_rows (append_row vals me t)) = snap s (t_rows t)"
  by (simp add: append_row_def alloc_vid_def snap_def visible_to_reader_def)

lemma snap_mark:
  assumes "table_ok c t" and "s < PENDING" and "version t vid = Some r" and "rv_delete_lsn r = 0"
  shows "snap s (t_rows (version_mut vid (mark_deleted me) t)) = snap s (t_rows t)"
proof -
  have "visible_to_reader (if rv_vid r' = vid then mark_deleted me r' else r') s = visible_to_reader r' s"
    if "r' \<in> set (t_rows t)" for r'
    using version_unique [OF assms(1,3) that] assms(2,4)
    by (auto simp: visible_to_reader_def mark_deleted_def)
  then show ?thesis
    unfolding version_mut_map [OF assms(1)] by (simp add: snap_map)
qed

lemma snap_finalize:
  assumes "s < lsn" and "lsn < PENDING"
  shows "snap s (map (finalize_row me lsn) rows) = snap s rows"
  using assms by (intro snap_map) (auto simp: finalize_row_def visible_to_reader_def)

lemma snap_rollback: "s < PENDING \<Longrightarrow> snap s (rollback_rows me rows) = snap s rows"
  unfolding rollback_rows_def
  by (subst snap_map) (auto simp: undelete_def pending_insert_def visible_to_reader_def intro!: snap_filter)

lemma snap_rollback_to: "s < PENDING \<Longrightarrow> snap s (rollback_to_rows me I D rows) = snap s rows"
  unfolding rollback_to_rows_def
  by (subst snap_map) (auto simp: undelete_since_def since_savepoint_def visible_to_reader_def intro!: snap_filter)

lemma mvcc_step_snapshot:
  assumes "mvcc_step vo st st'" and "store_ok st" and "s \<le> s_committed_lsn st"
  shows "snapshot_rows st' name s = snapshot_rows st name s"
proof -
  have s: "s < PENDING" using assms(2,3) by (simp add: store_ok_def)
  from assms show ?thesis
  proof (induction rule: mvcc_step.induct)
    case (step_append table vals me st w vid st' w')
    then have "st' = table_mut table (append_row vals me) st"
      by (simp add: append_version_def split: option.splits)
    with s show ?case by (simp add: snapshot_table_mut snap_append_row)
  next
    case (step_index st table vid vals)
    then show ?case by (simp add: snapshot_rows_def get_table_def)
  next
    case (step_supersede st table t vid r sn me w st' w')
    have "r \<in> set (t_rows t)" using step_supersede(2) by (auto simp: version_def find_Some_iff)
    with store_okD [OF step_supersede(8,1)] have "row_ok (s_committed_lsn st) r"
      by (auto simp: table_ok_def list_all_iff)
    from supersede_target [OF this step_supersede(3,4)] step_supersede s show ?case
      by (auto simp: supersede_def intro!: snapshot_table_mut snap_mark dest: store_okD)
  next
    case (step_commit me st lsn)
    then show ?case
      by (intro snapshot_map_rows [of st name s "map (finalize_row me lsn)"])
        (simp_all add: finalize_owner_tables snap_finalize)
  next
    case (step_rollback me st)
    then show ?case
      by (intro snapshot_map_rows [of st name s "rollback_rows me"]) (simp_all add: rollback_owner_keeps snap_rollback s)
  next
    case (step_rollback_to me st I D)
    then show ?case
      by (intro snapshot_map_rows [of st name s "rollback_to_rows me I D"])
        (simp_all add: rollback_to_savepoint_keeps snap_rollback_to s)
  qed
qed

lemma mvcc_step_committed: "mvcc_step vo st st' \<Longrightarrow> s_committed_lsn st \<le> s_committed_lsn st'"
  by (induction rule: mvcc_step.induct)
    (auto simp: append_version_def supersede_def rollback_owner_keeps rollback_to_savepoint_keeps split: option.splits)

lemma mvcc_steps_snapshot:
  assumes "(mvcc_step vo)\<^sup>*\<^sup>* st st'" and "store_ok st" and "s \<le> s_committed_lsn st"
  shows "store_ok st' \<and> s_committed_lsn st \<le> s_committed_lsn st' \<and> snapshot_rows st' name s = snapshot_rows st name s"
  using assms(1)
proof (induction rule: rtranclp_induct)
  case base
  show ?case using assms by simp
next
  case (step y z)
  have "s \<le> s_committed_lsn y" using step.IH assms(3) by linarith
  with step mvcc_step_snapshot [OF step.hyps(2), of s name] mvcc_step_ok [OF step.hyps(2)]
    mvcc_step_committed [OF step.hyps(2)] show ?case by auto
qed

text \<open>C12. Snapshot isolation: whatever concurrent writers insert, delete, commit or roll back, a
  reader at a snapshot up to the high-water mark sees the same rows with the same values,
  in the same order, as when it took the snapshot.\<close>

theorem snapshot_stable:
  assumes "(mvcc_step vo)\<^sup>*\<^sup>* st st'" and "store_ok st" and "s \<le> s_committed_lsn st"
  shows "snapshot_rows st' name s = snapshot_rows st name s"
  using mvcc_steps_snapshot [OF assms] by blast

section \<open>A commit publishes what its writer saw\<close>

definition writer_rows :: "('x, 'q) store \<Rightarrow> string \<Rightarrow> nat \<Rightarrow> nat \<Rightarrow> (nat \<times> sql_value list) list option" where
  "writer_rows st table s me = map_option (\<lambda>t. map (\<lambda>r. (rv_vid r, rv_values r))
     (filter (\<lambda>r. visible_to_writer r s me) (t_rows t))) (get_table st table)"

lemma finalize_visible:
  assumes "row_ok c r" and "c < lsn" and "lsn < PENDING" and "me \<noteq> 0"
  shows "visible_to_reader (finalize_row me lsn r) lsn \<longleftrightarrow> visible_to_writer r c me"
  using assms by (auto simp: row_ok_def finalize_row_def visible_to_reader_def visible_to_writer_def Let_def)

lemma snap_published:
  assumes "list_all (row_ok c) rows" and "c < lsn" and "lsn < PENDING" and "me \<noteq> 0"
  shows "snap lsn (map (finalize_row me lsn) rows) =
    map (\<lambda>r. (rv_vid r, rv_values r)) (filter (\<lambda>r. visible_to_writer r c me) rows)"
  using assms(1) by (induction rows) (simp_all add: snap_def finalize_visible [OF _ assms(2-4)])

text \<open>C13. A commit publishes its writer's changes over the last committed state: the rows a reader
  sees at the commit LSN are the rows committed before, with the changes of the committing
  writer applied and the changes of other in-flight writers left out.  The base is the state
  committed last, not the snapshot at which the writer began: what others committed since then
  is in it, whether the writer could see it or not.\<close>

theorem commit_publishes:
  assumes "store_ok st" and "s_committed_lsn st < lsn" and "lsn < PENDING" and "me \<noteq> 0"
  shows "snapshot_rows (finalize_owner vo me lsn st) table lsn = writer_rows st table (s_committed_lsn st) me"
proof (cases "get_table st table")
  case None
  with get_table_cong [OF finalize_owner_tables, of vo me lsn st table] show ?thesis
    by (simp add: snapshot_rows_def writer_rows_def get_table_map_rows)
next
  case (Some t)
  have "list_all (row_ok (s_committed_lsn st)) (t_rows t)"
    using store_okD [OF assms(1) Some] by (simp add: table_ok_def)
  from snap_published [OF this assms(2-4)] Some get_table_cong [OF finalize_owner_tables, of vo me lsn st table] show ?thesis
    by (simp add: snapshot_rows_def writer_rows_def get_table_map_rows)
qed

section \<open>A rollback removes what its writer did\<close>

text \<open>A write of one row, with the guards of the row collection (\<^verbatim>\<open>visible_to_writer\<close> and the conflict
  check), as \<^verbatim>\<open>INSERT\<close>, \<^verbatim>\<open>UPDATE\<close> and \<^verbatim>\<open>DELETE\<close> do it.  \<^verbatim>\<open>REPLACE\<close> and \<^verbatim>\<open>ON CONFLICT DO UPDATE\<close> supersede the
  clashing row without the conflict check; they are covered while nobody else is deleting that
  row, and \<open>replace_steals_delete\<close> below shows what they do otherwise.\<close>

datatype write_op = WInsert string "sql_value list" | WDelete string nat

fun exec_write :: "nat \<Rightarrow> nat \<Rightarrow> write_op \<Rightarrow> ('x, 'q) store \<times> wal_op list \<Rightarrow> (('x, 'q) store \<times> wal_op list) option" where
  "exec_write s me (WInsert table vals) stw = map_option snd (append_version table vals me stw)"
| "exec_write s me (WDelete table vid) stw =
     (case Option.bind (get_table (fst stw) table) (\<lambda>t. version t vid) of
        None \<Rightarrow> None
      | Some r \<Rightarrow> if visible_to_writer r s me \<and> check_no_conflict r s me then supersede table vid me stw else None)"

fun exec_writes :: "nat \<Rightarrow> nat \<Rightarrow> write_op list \<Rightarrow> ('x, 'q) store \<times> wal_op list \<Rightarrow> (('x, 'q) store \<times> wal_op list) option" where
  "exec_writes s me [] stw = Some stw"
| "exec_writes s me (w # ws) stw = Option.bind (exec_write s me w stw) (exec_writes s me ws)"

text \<open>While a writer holds the lane no other writer writes, but the group commit may publish or
  discard transactions already queued.\<close>

datatype lane_event = LWrite write_op | LRollbackTo "nat set" "nat set" | LCommit nat nat | LAbort nat

fun lane_event_run :: "'x vector_ops \<Rightarrow> nat \<Rightarrow> nat \<Rightarrow> lane_event \<Rightarrow> ('x, 'q) store \<Rightarrow> ('x, 'q) store option" where
  "lane_event_run vo s me (LWrite w) st = map_option fst (exec_write s me w (st, []))"
| "lane_event_run vo s me (LRollbackTo I D) st = Some (rollback_to_savepoint vo me I D st)"
| "lane_event_run vo s me (LCommit you lsn) st =
     (if you \<noteq> me \<and> you \<noteq> 0 \<and> s_committed_lsn st < lsn \<and> lsn < PENDING
      then Some ((finalize_owner vo you lsn st)\<lparr>s_committed_lsn := lsn\<rparr>) else None)"
| "lane_event_run vo s me (LAbort you) st = (if you \<noteq> me \<and> you \<noteq> 0 then Some (rollback_owner vo you st) else None)"

fun lane_run :: "'x vector_ops \<Rightarrow> nat \<Rightarrow> nat \<Rightarrow> lane_event list \<Rightarrow> ('x, 'q) store \<Rightarrow> ('x, 'q) store option" where
  "lane_run vo s me [] st = Some st"
| "lane_run vo s me (e # es) st = Option.bind (lane_event_run vo s me e st) (lane_run vo s me es)"

fun own_event :: "lane_event \<Rightarrow> bool" where
  "own_event (LWrite w) = True"
| "own_event (LRollbackTo I D) = True"
| "own_event _ = False"

definition table_rows :: "('x, 'q) store \<Rightarrow> string \<Rightarrow> row_version list option" where
  "table_rows st name = map_option t_rows (get_table st name)"

abbreviation erased :: "nat \<Rightarrow> ('x, 'q) store \<Rightarrow> string \<Rightarrow> row_version list option" where
  "erased me st name \<equiv> map_option (rollback_rows me) (table_rows st name)"

lemma table_rows_mut:
  "table_rows (table_mut table f st) name =
     (if key name = key table then map_option (t_rows \<circ> f) (get_table st table) else table_rows st name)"
  by (simp add: table_rows_def get_table_mut option.map_comp)

lemma table_rows_map_rows: "s_tables st' = s_tables (map_rows f st) \<Longrightarrow> table_rows st' name = map_option f (table_rows st name)"
  by (cases "get_table st name") (simp_all add: table_rows_def get_table_cong [of st'] get_table_map_rows)

lemma rollback_rows_append: "rollback_rows me (xs @ ys) = rollback_rows me xs @ rollback_rows me ys"
  by (simp add: rollback_rows_def)

lemma rollback_rows_concat: "rollback_rows me rows = concat (map (\<lambda>r. rollback_rows me [r]) rows)"
  by (induction rows) (simp_all add: rollback_rows_def)

lemma rollback_rows_finalize:
  assumes "you \<noteq> me" and "you \<noteq> 0" and "me \<noteq> 0"
  shows "rollback_rows me (map (finalize_row you lsn) rows) = map (finalize_row you lsn) (rollback_rows me rows)"
  using assms by (induction rows) (auto simp: rollback_rows_def finalize_row_def undelete_def pending_insert_def)

lemma rollback_rows_commute:
  assumes "you \<noteq> me" and "you \<noteq> 0" and "me \<noteq> 0"
  shows "rollback_rows me (rollback_rows you rows) = rollback_rows you (rollback_rows me rows)"
  using assms by (induction rows) (auto simp: rollback_rows_def undelete_def pending_insert_def)

lemma rollback_rows_rollback_to:
  assumes "me \<noteq> 0"
  shows "rollback_rows me (rollback_to_rows me I D rows) = rollback_rows me rows"
  using assms
  by (induction rows) (auto simp: rollback_rows_def rollback_to_rows_def undelete_def undelete_since_def since_savepoint_def pending_insert_def)

lemma rollback_mark_row:
  assumes "rv_delete_lsn r = 0" and "rv_create_lsn r = PENDING \<longrightarrow> rv_owner r = me"
    and "rv_create_lsn r \<noteq> PENDING \<longrightarrow> rv_owner r = 0" and "me \<noteq> 0"
  shows "rollback_rows me [mark_deleted me r] = rollback_rows me [r]"
proof (cases "rv_create_lsn r = PENDING")
  case True
  with assms show ?thesis by (simp add: rollback_rows_def pending_insert_def mark_deleted_def)
next
  case False
  with assms have "r\<lparr>rv_delete_lsn := 0, rv_owner := 0\<rparr> = r" by (cases r) simp
  with assms False show ?thesis
    by (simp add: rollback_rows_def pending_insert_def mark_deleted_def undelete_def)
qed

lemma rollback_rows_mark:
  assumes "table_ok c t" and "version t vid = Some r" and "visible_to_writer r s me" and "check_no_conflict r s me"
    and "me \<noteq> 0"
  shows "rollback_rows me (t_rows (version_mut vid (mark_deleted me) t)) = rollback_rows me (t_rows t)"
proof -
  have r: "r \<in> set (t_rows t)" using assms(2) by (auto simp: version_def find_Some_iff)
  with assms(1) have "row_ok c r" by (auto simp: table_ok_def list_all_iff)
  note target = supersede_target [OF this assms(3,4)]
  have *: "rollback_rows me [if rv_vid r' = vid then mark_deleted me r' else r'] = rollback_rows me [r']"
    if "r' \<in> set (t_rows t)" for r'
  proof (cases "rv_vid r' = vid")
    case True
    with version_unique [OF assms(1,2) that] have "r' = r" by simp
    with target True assms(5) show ?thesis
      by (simp add: rollback_mark_row)
  qed simp
  have "rollback_rows me (map (\<lambda>r. if rv_vid r = vid then mark_deleted me r else r) (t_rows t)) = rollback_rows me (t_rows t)"
    by (subst (1 2) rollback_rows_concat) (use * in \<open>simp add: comp_def cong: map_cong\<close>)
  then show ?thesis
    unfolding version_mut_map [OF assms(1)] by simp
qed

lemma exec_write_step:
  assumes "exec_write s me w stw = Some stw'" and "me \<noteq> 0" and "s < PENDING"
  shows "mvcc_step vo (fst stw) (fst stw')"
proof (cases w)
  case (WInsert table vals)
  with assms obtain vid where "append_version table vals me (fst stw, snd stw) = Some (vid, fst stw', snd stw')"
    by auto
  then show ?thesis using assms(2) by (rule step_append)
next
  case (WDelete table vid)
  with assms obtain t r where "get_table (fst stw) table = Some t" "version t vid = Some r"
    "visible_to_writer r s me" "check_no_conflict r s me" "supersede table vid me (fst stw, snd stw) = Some (fst stw', snd stw')"
    by (auto simp: bind_eq_Some_conv split: option.splits if_splits)
  then show ?thesis using assms(2,3) by (intro step_supersede)
qed

lemma exec_write_erased:
  assumes "exec_write s me w stw = Some stw'" and "store_ok (fst stw)" and "me \<noteq> 0"
  shows "erased me (fst stw') name = erased me (fst stw) name"
proof (cases w)
  case (WInsert table vals)
  with assms obtain t where t: "get_table (fst stw) table = Some t"
      "fst stw' = table_mut table (append_row vals me) (fst stw)"
    by (cases stw) (auto simp: append_version_def split: option.splits)
  have "rollback_rows me (t_rows (append_row vals me t)) = rollback_rows me (t_rows t)"
    by (simp add: append_row_def alloc_vid_def rollback_rows_def pending_insert_def)
  moreover have "get_table (fst stw) name = Some t" if "key name = key table"
    using t(1) that by (simp add: get_table_def)
  ultimately show ?thesis using t by (cases "key name = key table") (simp_all add: table_rows_def get_table_mut)
next
  case (WDelete table vid)
  with assms obtain t r where t: "get_table (fst stw) table = Some t" "version t vid = Some r"
      "visible_to_writer r s me" "check_no_conflict r s me"
      "fst stw' = table_mut table (version_mut vid (mark_deleted me)) (fst stw)"
    by (cases stw) (auto simp: supersede_def bind_eq_Some_conv split: option.splits if_splits)
  have "rollback_rows me (t_rows (version_mut vid (mark_deleted me) t)) = rollback_rows me (t_rows t)"
    using rollback_rows_mark [OF store_okD [OF assms(2) t(1)] t(2-4) assms(3)] .
  moreover have "get_table (fst stw) name = Some t" if "key name = key table"
    using t(1) that by (simp add: get_table_def)
  ultimately show ?thesis using t by (cases "key name = key table") (simp_all add: table_rows_def get_table_mut)
qed

lemma lane_event_ok:
  assumes "lane_event_run vo s me e st = Some st'" and "store_ok st" and "me \<noteq> 0" and "s < PENDING"
  shows "store_ok st'"
proof (cases e)
  case (LWrite w)
  with assms obtain wal where "exec_write s me w (st, []) = Some (st', wal)" by auto
  from exec_write_step [OF this assms(3,4)] assms(2) show ?thesis
    by (auto intro: mvcc_step_ok)
qed (use assms in \<open>auto split: if_splits intro: mvcc_step_ok [OF step_rollback_to] mvcc_step_ok [OF step_commit] mvcc_step_ok [OF step_rollback]\<close>)

lemma own_event_erased:
  assumes "lane_event_run vo s me e st = Some st'" and "own_event e" and "store_ok st" and "me \<noteq> 0"
  shows "erased me st' name = erased me st name \<and> s_committed_lsn st' = s_committed_lsn st"
proof (cases e)
  case (LWrite w)
  with assms obtain wal where w: "exec_write s me w (st, []) = Some (st', wal)" by auto
  have "s_committed_lsn st' = s_committed_lsn st"
    using w by (cases w) (auto simp: append_version_def supersede_def split: option.splits if_splits)
  with exec_write_erased [OF w _ assms(4)] assms(3) show ?thesis by simp
next
  case (LRollbackTo I D)
  with assms have "st' = rollback_to_savepoint vo me I D st" by simp
  then show ?thesis
    using assms(4) by (simp add: table_rows_map_rows [OF rollback_to_savepoint_keeps(1)] rollback_to_savepoint_keeps(2)
        option.map_comp comp_def rollback_rows_rollback_to)
qed (use assms in auto)

lemma other_event_erased:
  assumes "lane_event_run vo s me e st = Some st'" and "\<not> own_event e" and "me \<noteq> 0"
    and "\<And>name. erased me st name = table_rows a name" and "s_committed_lsn a = s_committed_lsn st"
  shows "\<exists>a'. lane_event_run vo s me e a = Some a' \<and> (\<forall>name. erased me st' name = table_rows a' name) \<and>
    s_committed_lsn a' = s_committed_lsn st'"
proof (cases e)
  case (LCommit you lsn)
  with assms have you: "you \<noteq> me" "you \<noteq> 0" "s_committed_lsn st < lsn" "lsn < PENDING"
    and st': "st' = (finalize_owner vo you lsn st)\<lparr>s_committed_lsn := lsn\<rparr>" by (auto split: if_splits)
  have t: "s_tables ((finalize_owner vo you lsn x)\<lparr>s_committed_lsn := lsn\<rparr>) = s_tables (map_rows (map (finalize_row you lsn)) x)" for x
    by (simp add: finalize_owner_tables)
  have "erased me st' name = map_option (map (finalize_row you lsn)) (erased me st name)" for name
    unfolding st' table_rows_map_rows [OF t] using you assms(3)
    by (simp add: option.map_comp comp_def rollback_rows_finalize)
  then show ?thesis
    using you assms(4,5) LCommit st' by (simp add: table_rows_map_rows [OF t])
next
  case (LAbort you)
  with assms have you: "you \<noteq> me" "you \<noteq> 0" and st': "st' = rollback_owner vo you st" by (auto split: if_splits)
  have "erased me st' name = map_option (rollback_rows you) (erased me st name)" for name
    unfolding st' table_rows_map_rows [OF rollback_owner_keeps(1)] using you assms(3)
    by (simp add: option.map_comp comp_def rollback_rows_commute)
  then show ?thesis
    using you assms(4,5) LAbort st' by (simp add: table_rows_map_rows [OF rollback_owner_keeps(1)] rollback_owner_keeps(2))
qed (use assms in auto)

lemma lane_run_erased:
  assumes "lane_run vo s me es st = Some st'" and "store_ok st" and "me \<noteq> 0" and "s < PENDING"
    and "\<And>name. erased me st name = table_rows a name" and "s_committed_lsn a = s_committed_lsn st"
  shows "\<exists>a'. lane_run vo s me (filter (\<lambda>e. \<not> own_event e) es) a = Some a' \<and> (\<forall>name. erased me st' name = table_rows a' name)"
  using assms
proof (induction es arbitrary: st a)
  case (Cons e es)
  then obtain st1 where st1: "lane_event_run vo s me e st = Some st1" "lane_run vo s me es st1 = Some st'"
    by (auto simp: bind_eq_Some_conv)
  note ok1 = lane_event_ok [OF st1(1) Cons.prems(2-4)]
  show ?case
  proof (cases "own_event e")
    case True
    note own = own_event_erased [OF st1(1) True Cons.prems(2,3)]
    have "\<exists>a'. lane_run vo s me (filter (\<lambda>e. \<not> own_event e) es) a = Some a' \<and> (\<forall>name. erased me st' name = table_rows a' name)"
      using own Cons.prems(5,6) by (intro Cons.IH [OF st1(2) ok1 Cons.prems(3,4)]) auto
    with True show ?thesis by simp
  next
    case False
    from other_event_erased [OF st1(1) False Cons.prems(3,5,6)] obtain a1 where
      a1: "lane_event_run vo s me e a = Some a1" "\<forall>name. erased me st1 name = table_rows a1 name"
        "s_committed_lsn a1 = s_committed_lsn st1" by blast
    with Cons.IH [OF st1(2) ok1 Cons.prems(3,4), of a1] False show ?thesis by auto
  qed
qed auto

definition no_pending :: "nat \<Rightarrow> ('x, 'q) store \<Rightarrow> bool" where
  "no_pending me st \<longleftrightarrow> (\<forall>r\<in>set (all_rows st). rv_owner r \<noteq> me)"

lemma rollback_rows_id: "(\<forall>r\<in>set rows. rv_owner r \<noteq> me) \<Longrightarrow> rollback_rows me rows = rows"
  by (induction rows) (auto simp: rollback_rows_def undelete_def pending_insert_def)

lemma no_pending_erased: "no_pending me st \<Longrightarrow> erased me st name = table_rows st name"
  by (cases "get_table st name")
    (force simp: no_pending_def all_rows_def table_rows_def get_table_def dest!: map_of_SomeD intro!: rollback_rows_id)+

text \<open>C14. A rolled-back transaction leaves no trace in the tables: run any conflict-checked row writes
  and rollbacks to savepoints of one writer, interleaved with commits and aborts of the
  transactions queued before it; after its rollback every table has exactly the rows it
  would have had if that writer had done nothing.  The writes are those of \<open>exec_write\<close>, which do
  not take over a row that another writer is deleting.\<close>

theorem rollback_erases:
  assumes "lane_run vo s me es st = Some st'" and "store_ok st" and "no_pending me st" and "me \<noteq> 0" and "s < PENDING"
  shows "\<exists>st''. lane_run vo s me (filter (\<lambda>e. \<not> own_event e) es) st = Some st'' \<and>
    (\<forall>name. table_rows (rollback_owner vo me st') name = table_rows st'' name)"
  using lane_run_erased [OF assms(1,2,4,5), of st] no_pending_erased [OF assms(3)]
  by (simp add: table_rows_map_rows [OF rollback_owner_keeps(1)])

text \<open>Why the conflict check matters, and what \<^verbatim>\<open>REPLACE\<close> and \<^verbatim>\<open>DO UPDATE\<close> do without it: superseding a row
  that another writer has deleted and not committed yet takes over the row's owner, and the
  rollback then revives the row.  The other writer's delete is gone, so its commit publishes
  nothing for it.\<close>

theorem replace_steals_delete:
  assumes "store_ok st" and "get_table st table = Some t" and "version t vid = Some r"
    and "rv_create_lsn r \<noteq> PENDING" and "rv_delete_lsn r = PENDING" and "rv_owner r = you" and "you \<noteq> me" and "me \<noteq> 0"
    and "supersede table vid me (st, wal) = Some (st', wal')"
  shows "\<exists>rows. table_rows (rollback_owner vo me st') table = Some rows \<and> r\<lparr>rv_delete_lsn := 0, rv_owner := 0\<rparr> \<in> set rows"
proof -
  have r: "r \<in> set (t_rows t)" "rv_vid r = vid" using assms(3) by (auto simp: version_def find_Some_iff)
  have st': "st' = table_mut table (version_mut vid (mark_deleted me)) st"
    using assms(2,9) by (simp add: supersede_def)
  have "table_rows st' table = Some (map (\<lambda>r. if rv_vid r = vid then mark_deleted me r else r) (t_rows t))"
    using version_mut_map [OF store_okD [OF assms(1,2)]] assms(2) by (simp add: st' table_rows_mut)
  then have "table_rows (rollback_owner vo me st') table =
      Some (rollback_rows me (map (\<lambda>r. if rv_vid r = vid then mark_deleted me r else r) (t_rows t)))"
    by (simp add: table_rows_map_rows [OF rollback_owner_keeps(1)])
  moreover have "r\<lparr>rv_delete_lsn := 0, rv_owner := 0\<rparr> = undelete me (mark_deleted me r)" "\<not> pending_insert me (mark_deleted me r)"
    using assms(4,8) by (simp_all add: undelete_def mark_deleted_def pending_insert_def)
  ultimately show ?thesis
    using r by (force simp: rollback_rows_def)
qed

section \<open>Savepoints\<close>

fun write_table :: "write_op \<Rightarrow> string" where
  "write_table (WInsert table vals) = table"
| "write_table (WDelete table vid) = table"

text \<open>The writer's pending rows are all in one table.\<close>

definition pending_only_in :: "string \<Rightarrow> nat \<Rightarrow> ('x, 'q) store \<Rightarrow> bool" where
  "pending_only_in table me st \<longleftrightarrow> (\<forall>(k, t)\<in>set (s_tables st). k \<noteq> key table \<longrightarrow> (\<forall>r\<in>set (t_rows t). rv_owner r \<noteq> me))"

lemma rollback_to_rows_concat:
  "rollback_to_rows me I D rows = concat (map (\<lambda>r. rollback_to_rows me I D [r]) rows)"
  by (induction rows) (simp_all add: rollback_to_rows_def)

lemma rollback_to_mark_row:
  assumes "rv_delete_lsn r = 0" and "rv_create_lsn r = PENDING \<longrightarrow> rv_owner r = me"
    and "rv_create_lsn r \<noteq> PENDING \<longrightarrow> rv_owner r = 0" and "me \<noteq> 0" and "rv_vid r \<notin> D"
  shows "rollback_to_rows me I D [mark_deleted me r] = rollback_to_rows me I D [r]"
proof -
  have "r\<lparr>rv_delete_lsn := 0, rv_owner := if rv_create_lsn r \<noteq> PENDING then 0 else me\<rparr> = r"
    using assms by (cases r) auto
  with assms show ?thesis
    by (auto simp: rollback_to_rows_def since_savepoint_def undelete_since_def mark_deleted_def)
qed

lemma rollback_to_rows_mark:
  assumes "table_ok c t" and "version t vid = Some r" and "visible_to_writer r s me" and "check_no_conflict r s me"
    and "me \<noteq> 0" and "vid \<notin> D"
  shows "rollback_to_rows me I D (t_rows (version_mut vid (mark_deleted me) t)) = rollback_to_rows me I D (t_rows t)"
proof -
  have r: "r \<in> set (t_rows t)" "rv_vid r = vid" using assms(2) by (auto simp: version_def find_Some_iff)
  with assms(1) have "row_ok c r" by (auto simp: table_ok_def list_all_iff)
  note target = supersede_target [OF this assms(3,4)]
  have *: "rollback_to_rows me I D [if rv_vid r' = vid then mark_deleted me r' else r'] = rollback_to_rows me I D [r']"
    if "r' \<in> set (t_rows t)" for r'
  proof (cases "rv_vid r' = vid")
    case True
    with version_unique [OF assms(1,2) that] have "r' = r" by simp
    with target True assms(5,6) r show ?thesis by (simp add: rollback_to_mark_row)
  qed simp
  then have "rollback_to_rows me I D (map (\<lambda>r. if rv_vid r = vid then mark_deleted me r else r) (t_rows t)) =
      rollback_to_rows me I D (t_rows t)"
    by (subst (1 2) rollback_to_rows_concat) (simp add: comp_def cong: map_cong)
  then show ?thesis
    unfolding version_mut_map [OF assms(1)] by simp
qed

text \<open>One table during a transaction, seen from a savepoint: ids recorded as inserted were
  allocated, ids recorded as deleted still carry the writer's pending delete, and rolling
  back to the savepoint gives the rows it had there.\<close>

definition since_inv :: "nat \<Rightarrow> nat set \<Rightarrow> nat set \<Rightarrow> row_version list \<Rightarrow> table \<Rightarrow> bool" where
  "since_inv me I D rows0 t \<longleftrightarrow> rollback_to_rows me I D (t_rows t) = rows0 \<and> (\<forall>v\<in>I. v < t_next_vid t) \<and>
     (\<forall>v\<in>D. \<exists>r\<in>set (t_rows t). rv_vid r = v \<and> rv_delete_lsn r = PENDING \<and> rv_owner r = me)"

lemma since_inv_append:
  assumes "since_inv me I D rows0 t"
  shows "since_inv me I D rows0 (append_row vals me t)"
proof -
  have "t_next_vid t \<notin> I" using assms by (auto simp: since_inv_def)
  then have "rollback_to_rows me I D (t_rows (append_row vals me t)) = rollback_to_rows me I D (t_rows t)"
    by (simp add: append_row_def alloc_vid_def rollback_to_rows_def since_savepoint_def)
  with assms show ?thesis
    by (auto simp: since_inv_def append_row_def alloc_vid_def less_SucI)
qed

lemma since_inv_mark:
  assumes "since_inv me I D rows0 t" and "table_ok c t" and "version t vid = Some r"
    and "visible_to_writer r s me" and "check_no_conflict r s me" and "me \<noteq> 0"
  shows "since_inv me I D rows0 (version_mut vid (mark_deleted me) t)"
proof -
  have "row_ok c r"
    using assms(2,3) by (auto simp: table_ok_def list_all_iff version_def find_Some_iff)
  from supersede_target [OF this assms(4,5)] have d: "rv_delete_lsn r = 0" by simp
  have "vid \<notin> D"
  proof
    assume "vid \<in> D"
    then obtain r' where "r' \<in> set (t_rows t)" "rv_vid r' = vid" "rv_delete_lsn r' = PENDING"
      using assms(1) by (auto simp: since_inv_def)
    with version_unique [OF assms(2,3)] d show False by force
  qed
  then have eq: "rollback_to_rows me I D (t_rows (version_mut vid (mark_deleted me) t)) = rollback_to_rows me I D (t_rows t)"
    by (rule rollback_to_rows_mark [OF assms(2-6)])
  have "\<exists>r\<in>set (map (\<lambda>r. if rv_vid r = vid then mark_deleted me r else r) (t_rows t)).
      rv_vid r = v \<and> rv_delete_lsn r = PENDING \<and> rv_owner r = me" if "v \<in> D" for v
  proof -
    from that assms(1) obtain r' where "r' \<in> set (t_rows t)" "rv_vid r' = v" "rv_delete_lsn r' = PENDING" "rv_owner r' = me"
      by (auto simp: since_inv_def)
    then show ?thesis using \<open>vid \<notin> D\<close> that by (auto simp: image_iff intro!: bexI [of _ r'])
  qed
  with eq assms(1) show ?thesis
    by (simp add: since_inv_def version_mut_map [OF assms(2)])
qed

lemma since_inv_start:
  assumes "store_ok st" and "get_table st table = Some t" and "pending_only_in table me st" and "me \<noteq> 0"
    and "pending_snapshot st me = (I, D)"
  shows "since_inv me I D (t_rows t) t"
proof -
  let ?mine = "filter (\<lambda>r. rv_owner r = me) (t_rows t)"
  have t: "(key table, t) \<in> set (s_tables st)"
    using assms(2) by (simp add: get_table_def map_of_SomeD)
  have uniq: "t' = t" if "(key table, t') \<in> set (s_tables st)" for t'
    using that t assms(1) by (auto simp: store_ok_def hm_wf_def dest: eq_key_imp_eq_value)
  have mine: "r \<in> set (t_rows t)" if "r \<in> set (all_rows st)" "rv_owner r = me" for r
  proof -
    from that(1) obtain k t' where kt: "(k, t') \<in> set (s_tables st)" "r \<in> set (t_rows t')"
      by (auto simp: all_rows_def)
    with assms(3) that(2) have "k = key table" by (auto simp: pending_only_in_def)
    with kt uniq show ?thesis by blast
  qed
  have all: "r \<in> set (all_rows st)" if "r \<in> set (t_rows t)" for r
    using that t by (force simp: all_rows_def)
  have I: "I = rv_vid ` {r \<in> set ?mine. rv_create_lsn r = PENDING}" and D: "D = rv_vid ` {r \<in> set ?mine. rv_delete_lsn r = PENDING}"
    using assms(5) mine all by (auto simp: pending_snapshot_def Let_def)
  have ok: "table_ok (s_committed_lsn st) t" by (rule store_okD [OF assms(1,2)])
  have "filter (\<lambda>r. \<not> since_savepoint me I r) (t_rows t) = t_rows t"
    by (rule filter_True) (auto simp: since_savepoint_def I)
  moreover have "map (undelete_since me D) (t_rows t) = t_rows t"
    by (rule map_idI) (auto simp: undelete_since_def D)
  ultimately have "rollback_to_rows me I D (t_rows t) = t_rows t"
    by (simp add: rollback_to_rows_def)
  then show ?thesis
    using ok by (auto simp: since_inv_def I D table_ok_def)
qed

lemma exec_write_since:
  assumes "exec_write s me w stw = Some stw'" and "key (write_table w) = key table" and "get_table (fst stw) table = Some t"
    and "store_ok (fst stw)" and "since_inv me I D rows0 t" and "me \<noteq> 0"
  obtains t' where "get_table (fst stw') table = Some t'" and "since_inv me I D rows0 t'"
    and "\<And>name. key name \<noteq> key table \<Longrightarrow> get_table (fst stw') name = get_table (fst stw) name"
proof (cases w)
  case (WInsert tb vals)
  have "get_table (fst stw) tb = Some t"
    using assms(2,3) WInsert by (simp add: get_table_def)
  then have "fst stw' = table_mut tb (append_row vals me) (fst stw)"
    using assms(1) WInsert by (cases stw) (auto simp: append_version_def)
  with WInsert assms that [of "append_row vals me t"] show ?thesis
    using \<open>get_table (fst stw) tb = Some t\<close> by (simp add: get_table_mut since_inv_append)
next
  case (WDelete tb vid)
  have t: "get_table (fst stw) tb = Some t"
    using assms(2,3) WDelete by (simp add: get_table_def)
  with assms(1) WDelete obtain r where r: "version t vid = Some r" "visible_to_writer r s me" "check_no_conflict r s me"
      "fst stw' = table_mut tb (version_mut vid (mark_deleted me)) (fst stw)"
    by (cases stw) (auto simp: supersede_def split: option.splits if_splits)
  note since_inv_mark [OF assms(5) store_okD [OF assms(4,3)] r(1-3) assms(6)]
  with WDelete assms(2) r t that [of "version_mut vid (mark_deleted me) t"] show ?thesis
    by (simp add: get_table_mut)
qed

lemma exec_writes_since:
  assumes "exec_writes s me ws stw = Some stw'" and "\<forall>w\<in>set ws. key (write_table w) = key table"
    and "get_table (fst stw) table = Some t" and "store_ok (fst stw)" and "since_inv me I D rows0 t"
    and "me \<noteq> 0" and "s < PENDING"
  shows "\<exists>t'. get_table (fst stw') table = Some t' \<and> since_inv me I D rows0 t' \<and>
    (\<forall>name. key name \<noteq> key table \<longrightarrow> get_table (fst stw') name = get_table (fst stw) name)"
  using assms
proof (induction ws arbitrary: stw t)
  case (Cons w ws)
  then obtain stw1 where w: "exec_write s me w stw = Some stw1" "exec_writes s me ws stw1 = Some stw'"
    by (auto simp: bind_eq_Some_conv)
  have "key (write_table w) = key table" using Cons.prems(2) by simp
  from exec_write_since [OF w(1) this Cons.prems(3-6)] obtain t1 where
    t1: "get_table (fst stw1) table = Some t1" "since_inv me I D rows0 t1"
      "\<And>name. key name \<noteq> key table \<Longrightarrow> get_table (fst stw1) name = get_table (fst stw) name" by blast
  have "store_ok (fst stw1)"
    using mvcc_step_ok [OF exec_write_step [OF w(1) Cons.prems(6,7)] Cons.prems(4)] .
  from Cons.IH [OF w(2) _ t1(1) this t1(2) Cons.prems(6,7)] t1(3) Cons.prems(2) show ?case by simp
qed auto

lemma rollback_to_rows_id: "(\<forall>r\<in>set rows. rv_owner r \<noteq> me) \<Longrightarrow> rollback_to_rows me I D rows = rows"
  by (induction rows) (auto simp: rollback_to_rows_def undelete_since_def since_savepoint_def)

text \<open>\<^verbatim>\<open>ROLLBACK TO\<close> restores the savepoint for a transaction that writes one table: whatever
  it inserts, deletes or updates in that table after the savepoint, rolling back to the
  recorded pending sets gives back every table exactly as it was at the savepoint.\<close>

theorem savepoint_restores:
  assumes "store_ok st" and "get_table st table = Some t" and "pending_only_in table me st" and "me \<noteq> 0" and "s < PENDING"
    and "pending_snapshot st me = (I, D)" and "exec_writes s me ws (st, wal) = Some (st', wal')"
    and "\<forall>w\<in>set ws. key (write_table w) = key table"
  shows "table_rows (rollback_to_savepoint vo me I D st') name = table_rows st name"
proof -
  from exec_writes_since [OF assms(7,8) _ _ since_inv_start [OF assms(1-4,6)] assms(4,5)] assms(1,2)
  obtain t' where t': "get_table st' table = Some t'" "since_inv me I D (t_rows t) t'"
      "\<And>name. key name \<noteq> key table \<Longrightarrow> get_table st' name = get_table st name" by auto
  note roll = table_rows_map_rows [OF rollback_to_savepoint_keeps(1)]
  show ?thesis
  proof (cases "key name = key table")
    case True
    then have "get_table st' name = Some t'" "get_table st name = Some t"
      using t'(1) assms(2) by (simp_all add: get_table_def)
    with t'(2) show ?thesis unfolding roll by (simp add: table_rows_def since_inv_def)
  next
    case False
    show ?thesis
    proof (cases "get_table st name")
      case (Some u)
      then have "\<forall>r\<in>set (t_rows u). rv_owner r \<noteq> me"
        using assms(3) False by (auto simp: pending_only_in_def get_table_def dest!: map_of_SomeD)
      with Some t'(3) [OF False] show ?thesis
        unfolding roll by (simp add: table_rows_def rollback_to_rows_id)
    qed (use t'(3) [OF False] in \<open>simp add: roll; simp add: table_rows_def\<close>)
  qed
qed

text \<open>\<^verbatim>\<open>ROLLBACK TO\<close> can leave a later delete in place: the savepoint records version ids without
  their table, and ids are counted per table, so a row deleted after the savepoint stays
  deleted when a row with the same id in another table was deleted before it, although the
  statement's log record is dropped.\<close>

theorem savepoint_leaks_delete:
  assumes "store_ok st" and "get_table st a = Some ta" and "ra \<in> set (t_rows ta)" and "rv_vid ra = v"
    and "rv_delete_lsn ra = PENDING" and "rv_owner ra = me" and "me \<noteq> 0"
    and "get_table st b = Some tb" and "version tb v = Some rb" and "rv_create_lsn rb \<noteq> PENDING"
    and "pending_snapshot st me = (I, D)" and "exec_write s me (WDelete b v) (st, wal) = Some (st', wal')"
  shows "\<exists>t r. get_table (rollback_to_savepoint vo me I D st') b = Some t \<and> r \<in> set (t_rows t) \<and>
    rv_vid r = v \<and> rv_values r = rv_values rb \<and> \<not> visible_to_writer r s me"
proof -
  have "ra \<in> set (all_rows st)"
    using assms(2,3) by (force simp: all_rows_def get_table_def dest!: map_of_SomeD)
  then have "v \<in> D"
    using assms(4-6,11) by (auto simp: pending_snapshot_def Let_def)
  have rb: "rb \<in> set (t_rows tb)" "rv_vid rb = v"
    using assms(9) by (auto simp: version_def find_Some_iff)
  have st': "st' = table_mut b (version_mut v (mark_deleted me)) st"
    using assms(8,9,12) by (auto simp: supersede_def split: if_splits)
  let ?r = "mark_deleted me rb" and ?t = "version_mut v (mark_deleted me) tb"
  have "?r \<in> set (t_rows ?t)"
    using rb version_mut_map [OF store_okD [OF assms(1,8)]] by force
  moreover have "\<not> since_savepoint me I ?r" "undelete_since me D ?r = ?r"
    using assms(10) \<open>v \<in> D\<close> rb by (simp_all add: since_savepoint_def undelete_since_def mark_deleted_def)
  ultimately have "?r \<in> set (rollback_to_rows me I D (t_rows ?t))"
    by (force simp: rollback_to_rows_def)
  moreover have "get_table (rollback_to_savepoint vo me I D st') b = Some (?t\<lparr>t_rows := rollback_to_rows me I D (t_rows ?t)\<rparr>)"
    using assms(8) st' by (simp add: get_table_cong [OF rollback_to_savepoint_keeps(1)] get_table_map_rows get_table_mut)
  moreover have "\<not> visible_to_writer ?r s me" "rv_vid ?r = v"
    using rb by (simp_all add: visible_to_writer_def mark_deleted_def Let_def)
  ultimately show ?thesis by auto
qed

section \<open>Instances\<close>

text \<open>A store with two tables and no vector index, for the concrete instances below.\<close>

definition unit_index_ops :: "unit vector_ops" where
  "unit_index_ops = \<lparr>vi_new = (\<lambda>d. ()), vi_def = (\<lambda>_. \<lparr>ix_name = [], ix_table = [], ix_column = [], ix_params = index_params_default\<rparr>),
     vi_insert = (\<lambda>_ _ _. ()), vi_mark_dead = (\<lambda>_ _. ()), vi_remove = (\<lambda>_ _. ()), vi_needs_maintenance = (\<lambda>_. False),
     vi_rebuild_floor = (\<lambda>_. 0), vi_set_rebuild_floor = (\<lambda>_ _. ())\<rparr>"

definition plain_schema :: "string \<Rightarrow> table_schema" where
  "plain_schema name = \<lparr>sch_name = name, sch_columns = [], sch_foreign_keys = [], sch_checks = [],
     sch_uniques = [], sch_rls_enabled = False, sch_policies = []\<rparr>"

definition committed_row :: "nat \<Rightarrow> sql_value list \<Rightarrow> nat \<Rightarrow> row_version" where
  "committed_row vid vals lsn = \<lparr>rv_vid = vid, rv_values = vals, rv_create_lsn = lsn, rv_delete_lsn = 0, rv_owner = 0\<rparr>"

definition plain_table :: "string \<Rightarrow> row_version list \<Rightarrow> table" where
  "plain_table name rows = \<lparr>t_schema = plain_schema name, t_rows = rows, t_next_vid = 2, t_next_autoinc = 1\<rparr>"

definition two_tables :: "row_version list \<Rightarrow> (unit, unit) store" where
  "two_tables rows = \<lparr>s_tables = [(''a'', plain_table ''a'' rows), (''b'', plain_table ''b'' [committed_row 1 [VInt 2] 3])],
     s_indexes = [], s_views = [], s_committed_lsn = 4\<rparr>"

lemmas instance_defs = two_tables_def plain_table_def committed_row_def get_table_def to_ascii_lowercase_def lower_char_def
  row_ok_def table_ok_def store_ok_def hm_wf_def PENDING_def

lemma two_tables_ok: "store_ok (two_tables [committed_row 1 [VInt 1] 2])"
  by (simp add: instance_defs)

lemma two_tables_rows: "snapshot_rows (two_tables [committed_row 1 [VInt 1] 2]) ''a'' 4 = Some [(1, [VInt 1])]"
  by (simp add: instance_defs snapshot_rows_def snap_def visible_to_reader_def)

theorem snapshot_stable_witness:
  "snapshot_rows ((finalize_owner unit_index_ops 7 5 (table_mut ''a'' (append_row [VInt 9] 7)
     (two_tables [committed_row 1 [VInt 1] 2])))\<lparr>s_committed_lsn := 5\<rparr>) ''a'' 4 = Some [(1, [VInt 1])]"
proof -
  let ?st = "two_tables [committed_row 1 [VInt 1] 2]"
  let ?st1 = "table_mut ''a'' (append_row [VInt 9] 7) ?st"
  have "append_version ''a'' [VInt 9] 7 (?st, []) = Some (2, ?st1, [Insert ''a'' 2 [VInt 9]])"
    by (simp add: append_version_def instance_defs)
  then have "mvcc_step unit_index_ops ?st ?st1"
    by (rule step_append) simp
  moreover have "s_committed_lsn ?st1 = 4"
    by (simp add: two_tables_def)
  then have "mvcc_step unit_index_ops ?st1 ((finalize_owner unit_index_ops 7 5 ?st1)\<lparr>s_committed_lsn := 5\<rparr>)"
    by (intro step_commit) (simp_all add: PENDING_def)
  ultimately have "(mvcc_step unit_index_ops)\<^sup>*\<^sup>* ?st ((finalize_owner unit_index_ops 7 5 ?st1)\<lparr>s_committed_lsn := 5\<rparr>)"
    by (meson r_into_rtranclp rtranclp.rtrancl_into_rtrancl)
  from snapshot_stable [OF this two_tables_ok, of 4 "''a''"] two_tables_rows show ?thesis
    by (simp add: two_tables_def)
qed

text \<open>Writer 7 inserts a row and deletes the committed one, writer 8 has a row of its own.\<close>

definition two_writers :: "(unit, unit) store" where
  "two_writers = \<lparr>s_tables = [(''a'', (plain_table ''a'' [\<lparr>rv_vid = 1, rv_values = [VInt 1], rv_create_lsn = 2, rv_delete_lsn = PENDING, rv_owner = 7\<rparr>,
       \<lparr>rv_vid = 2, rv_values = [VInt 5], rv_create_lsn = PENDING, rv_delete_lsn = 0, rv_owner = 8\<rparr>,
       \<lparr>rv_vid = 3, rv_values = [VInt 9], rv_create_lsn = PENDING, rv_delete_lsn = 0, rv_owner = 7\<rparr>])\<lparr>t_next_vid := 4\<rparr>)],
     s_indexes = [], s_views = [], s_committed_lsn = 4\<rparr>"

theorem commit_publishes_witness:
  "snapshot_rows two_writers ''a'' 4 = Some [(1, [VInt 1])] \<and>
   snapshot_rows (finalize_owner unit_index_ops 7 5 two_writers) ''a'' 5 = Some [(3, [VInt 9])]"
proof -
  have ok: "store_ok two_writers" by (simp add: two_writers_def instance_defs)
  from commit_publishes [OF ok, of 5 7 unit_index_ops "''a''"] show ?thesis
    by (simp add: two_writers_def instance_defs writer_rows_def visible_to_writer_def snapshot_rows_def snap_def visible_to_reader_def)
qed

lemma two_tables_no_pending: "no_pending 7 (two_tables [committed_row 1 [VInt 1] 2])"
  by (simp add: no_pending_def all_rows_def two_tables_def plain_table_def committed_row_def)

theorem rollback_erases_witness:
  "\<exists>st'. lane_run unit_index_ops 4 7 [LWrite (WInsert ''a'' [VInt 9]), LWrite (WDelete ''a'' 1)]
      (two_tables [committed_row 1 [VInt 1] 2]) = Some st' \<and>
    table_rows (rollback_owner unit_index_ops 7 st') ''a'' = Some [committed_row 1 [VInt 1] 2]"
proof -
  let ?st = "two_tables [committed_row 1 [VInt 1] 2]"
  let ?es = "[LWrite (WInsert ''a'' [VInt 9]), LWrite (WDelete ''a'' 1)]"
  have "lane_run unit_index_ops 4 7 ?es ?st \<noteq> None"
    by (simp add: append_version_def append_row_def alloc_vid_def supersede_def table_mut_def version_def
      visible_to_writer_def check_no_conflict_def instance_defs)
  then obtain st' where st': "lane_run unit_index_ops 4 7 ?es ?st = Some st'" by blast
  from rollback_erases [OF this two_tables_ok two_tables_no_pending]
  have "table_rows (rollback_owner unit_index_ops 7 st') ''a'' = table_rows ?st ''a''"
    by (simp add: PENDING_def)
  with st' show ?thesis by (simp add: table_rows_def instance_defs)
qed

theorem savepoint_restores_witness:
  "\<exists>st' wal'. exec_writes 4 7 [WInsert ''a'' [VInt 9], WDelete ''a'' 1] (two_tables [committed_row 1 [VInt 1] 2], []) = Some (st', wal') \<and>
    table_rows (rollback_to_savepoint unit_index_ops 7 {} {} st') ''a'' = Some [committed_row 1 [VInt 1] 2]"
proof -
  let ?st = "two_tables [committed_row 1 [VInt 1] 2]" and ?ws = "[WInsert ''a'' [VInt 9], WDelete ''a'' 1]"
  have "exec_writes 4 7 ?ws (?st, []) \<noteq> None"
    by (simp add: append_version_def append_row_def alloc_vid_def supersede_def table_mut_def version_def
      visible_to_writer_def check_no_conflict_def instance_defs)
  then obtain st' wal' where run: "exec_writes 4 7 ?ws (?st, []) = Some (st', wal')" by fast
  have t: "get_table ?st ''a'' = Some (plain_table ''a'' [committed_row 1 [VInt 1] 2])"
    by (simp add: instance_defs)
  have p: "pending_only_in ''a'' 7 ?st"
    by (simp add: pending_only_in_def two_tables_def plain_table_def committed_row_def)
  have "table_rows (rollback_to_savepoint unit_index_ops 7 {} {} st') ''a'' = table_rows ?st ''a''"
    by (rule savepoint_restores [OF two_tables_ok t p _ _ _ run])
      (simp_all add: PENDING_def pending_snapshot_def all_rows_def two_tables_def plain_table_def committed_row_def)
  with run show ?thesis by (simp add: table_rows_def instance_defs)
qed

theorem savepoint_leaks_delete_witness:
  "\<exists>st' t r. exec_write 4 7 (WDelete ''b'' 1) (two_tables [mark_deleted 7 (committed_row 1 [VInt 1] 2)], []) = Some (st', [Delete ''b'' 1]) \<and>
    get_table (rollback_to_savepoint unit_index_ops 7 {} {1} st') ''b'' = Some t \<and> r \<in> set (t_rows t) \<and>
    rv_vid r = 1 \<and> rv_values r = [VInt 2] \<and> \<not> visible_to_writer r 4 7"
proof -
  let ?ra = "mark_deleted 7 (committed_row 1 [VInt 1] 2)"
  let ?st = "two_tables [?ra]" and ?rb = "committed_row 1 [VInt 2] 3"
  have ok: "store_ok ?st" by (simp add: instance_defs mark_deleted_def)
  have "exec_write 4 7 (WDelete ''b'' 1) (?st, []) =
      Some (table_mut ''b'' (version_mut 1 (mark_deleted 7)) ?st, [Delete ''b'' 1])"
    by (simp add: supersede_def version_def visible_to_writer_def check_no_conflict_def instance_defs)
  then obtain st' where run: "exec_write 4 7 (WDelete ''b'' 1) (?st, []) = Some (st', [Delete ''b'' 1])" by blast
  have p: "pending_snapshot ?st 7 = ({}, {1})"
    by (auto simp: pending_snapshot_def all_rows_def instance_defs mark_deleted_def)
  have "\<exists>t r. get_table (rollback_to_savepoint unit_index_ops 7 {} {1} st') ''b'' = Some t \<and> r \<in> set (t_rows t) \<and>
      rv_vid r = 1 \<and> rv_values r = rv_values ?rb \<and> \<not> visible_to_writer r 4 7"
    using savepoint_leaks_delete [of ?st "''a''" "plain_table ''a'' [?ra]" ?ra 1 7 "''b''" "plain_table ''b'' [?rb]" ?rb, OF ok _ _ _ _ _ _ _ _ _ p run]
    by (simp add: instance_defs mark_deleted_def version_def)
  with run show ?thesis by (force simp: committed_row_def)
qed

end
