(* ===== verification/Engine_Db.thy ===== *)
theory Engine_Db
  imports Mvcc_Store
begin

text \<open>
  The per-database state of \<^verbatim>\<open>crates/engine/src/db.rs\<close>: the write lane, writer ids, replay of
  the durable log into the store, and the page region of an index checkpoint.  Two parts of
  the SQL layer that replay calls are parameters: parsing a stored view text and evaluating
  a constant default expression.
\<close>

section \<open>Write lane\<close>

text \<open>The lane's mutex-protected flag and its counters; the time a writer waited is an argument.
  \<open>lane_try_acquire\<close> is the critical section of \<^verbatim>\<open>acquire\<close>: it counts the acquisition and
  either takes the lane or leaves the caller waiting, counted as a handoff.\<close>

record write_lane =
  wl_locked :: bool
  wl_acquires :: nat
  wl_handoffs :: nat
  wl_wait_us :: nat

definition lane_new :: write_lane where
  "lane_new = \<lparr>wl_locked = False, wl_acquires = 0, wl_handoffs = 0, wl_wait_us = 0\<rparr>"

definition lane_try_acquire :: "write_lane \<Rightarrow> bool \<times> write_lane" where
  "lane_try_acquire l = (let l1 = l\<lparr>wl_acquires := wl_acquires l + 1\<rparr> in
     if wl_locked l1 then (False, l1\<lparr>wl_handoffs := wl_handoffs l1 + 1\<rparr>) else (True, l1\<lparr>wl_locked := True\<rparr>))"

definition lane_wake :: "nat \<Rightarrow> write_lane \<Rightarrow> bool \<times> write_lane" where
  "lane_wake us l = (if wl_locked l then (False, l) else (True, l\<lparr>wl_wait_us := wl_wait_us l + us, wl_locked := True\<rparr>))"

definition lane_release :: "write_lane \<Rightarrow> write_lane" where
  "lane_release l = l\<lparr>wl_locked := False\<rparr>"

definition lane_stats :: "write_lane \<Rightarrow> nat \<times> nat \<times> nat" where
  "lane_stats l = (wl_acquires l, wl_handoffs l, wl_wait_us l)"

text \<open>Writer ids come from a 64-bit counter that starts at 1 and skips 0.\<close>

definition next_owner :: "u64 \<Rightarrow> u64 \<times> u64" where
  "next_owner c = (if c = 0 then (c + 1, c + 2) else (c, c + 1))"

section \<open>Replay\<close>

record 'q sql_env =
  env_parse_view :: "string \<Rightarrow> 'q option"
  env_eval_const :: "string \<Rightarrow> sql_value option"

definition column_fill :: "'q sql_env \<Rightarrow> column \<Rightarrow> sql_value" where
  "column_fill env c = (case Option.bind (col_default_sql c) (env_eval_const env) of Some v \<Rightarrow> v | None \<Rightarrow> VNull)"

fun apply_alter :: "'q sql_env \<Rightarrow> wal_op \<Rightarrow> ('x, 'q) store \<Rightarrow> ('x, 'q) store" where
  "apply_alter env (AlterAddColumn table c) st = add_column table c (column_fill env c) st"
| "apply_alter env (AlterDropColumn table c) st = drop_column table c st"
| "apply_alter env (AlterRenameColumn table from to) st = rename_column table from to st"
| "apply_alter env (AlterRenameTable table to) st = rename_table table to st"
| "apply_alter env (SetRls table enabled) st = set_rls table enabled st"
| "apply_alter env _ st = st"

fun apply_replay :: "'q sql_env \<Rightarrow> 'x vector_ops \<Rightarrow> nat \<Rightarrow> wal_op \<Rightarrow> ('x, 'q) store \<Rightarrow> ('x, 'q) store" where
  "apply_replay env vo lsn (CreateTable sch) st = insert_table sch st"
| "apply_replay env vo lsn (DropTable name) st = snd (drop_table vo name st)"
| "apply_replay env vo lsn (Insert table vid vals) st = replay_insert table vid vals lsn st"
| "apply_replay env vo lsn (Delete table vid) st = replay_delete table vid lsn st"
| "apply_replay env vo lsn (CreateIndex d) st = register_index vo d st"
| "apply_replay env vo lsn (DropIndex name) st = snd (drop_index name st)"
| "apply_replay env vo lsn (CreateView name sql) st =
     (case env_parse_view env sql of Some q \<Rightarrow> insert_view name q st | None \<Rightarrow> st)"
| "apply_replay env vo lsn (DropView name) st = snd (drop_view name st)"
| "apply_replay env vo lsn (CreatePolicy table p) st = add_policy table p st"
| "apply_replay env vo lsn (DropPolicy table name) st = snd (drop_policy table name st)"
| "apply_replay env vo lsn (SetRls table enabled) st = set_rls table enabled st"
| "apply_replay env vo lsn Commit st = st"
| "apply_replay env vo lsn op st = apply_alter env op st"

definition replay_group :: "'q sql_env \<Rightarrow> 'x vector_ops \<Rightarrow> nat \<Rightarrow> wal_op list \<Rightarrow> ('x, 'q) store \<Rightarrow> ('x, 'q) store" where
  "replay_group env vo lsn grp st =
     (let st1 = foldl (\<lambda>st op. apply_replay env vo lsn op st) st grp
      in st1\<lparr>s_committed_lsn := max (s_committed_lsn st1) lsn\<rparr>)"

fun replay_loop :: "'q sql_env \<Rightarrow> 'x vector_ops \<Rightarrow> log_entry list \<Rightarrow> wal_op list \<Rightarrow> ('x, 'q) store \<Rightarrow> ('x, 'q) store eres" where
  "replay_loop env vo [] grp st = Inr st"
| "replay_loop env vo (e # es) grp st =
     (case decode_op (le_record e) of
        Inl err \<Rightarrow> Inl err
      | Inr op \<Rightarrow>
          (if op = Commit then replay_loop env vo es [] (replay_group env vo (le_lsn e) grp st)
           else replay_loop env vo es (grp @ [op]) st))"

definition replay :: "'s storage \<Rightarrow> 'q sql_env \<Rightarrow> 'x vector_ops \<Rightarrow> 's \<Rightarrow> ('x, 'q) store \<Rightarrow> ('x, 'q) store eres \<times> 's" where
  "replay ops env vo s st = (case st_scan_wal ops s 0 of
     (Inl e, s1) \<Rightarrow> (Inl (status_of_storage e), s1)
   | (Inr entries, s1) \<Rightarrow> (map_sum id rebuild_autoinc (replay_loop env vo entries [] st), s1))"

fun commit_error :: "storage_error \<Rightarrow> engine_status" where
  "commit_error (Fenced h c) = ErrConflict"
| "commit_error Contended = ErrConflict"
| "commit_error _ = ErrStorage"

section \<open>Index checkpoint pages\<close>

definition fnv1a :: "bytes \<Rightarrow> u64" where
  "fnv1a bs = foldl (\<lambda>h b. xor h (ucast b) * 0x100000001b3) 0xcbf29ce484222325 bs"

definition index_page_region :: "string \<Rightarrow> u64" where
  "index_page_region name =
     or (push_bit 63 1) (push_bit 23 (and (fnv1a (bytes_of_string (to_ascii_lowercase name))) 0xFFFFFFFFFF))"

end
