(* ===== verification/Pending_Rows.thy ===== *)
theory Pending_Rows
  imports Mvcc_Isolation Engine_Db
begin

text \<open>
  The algebra behind recovery.  A table's rows are what the committed log makes of them, with
  the writes of the in-flight transactions stamped on top in queue order.  Publishing the
  first of them turns its pending stamps into its commit LSN, and that is what replay of its
  log records does; discarding the last one takes its stamps away.
\<close>

type_synonym rmap = "string \<Rightarrow> row_version list option"

definition rmap_of :: "('x, 'q) store \<Rightarrow> rmap" where
  "rmap_of st k = map_option t_rows (hm_get (s_tables st) k)"

fun is_dml :: "wal_op \<Rightarrow> bool" where
  "is_dml (Insert t v vals) = True"
| "is_dml (Delete t v) = True"
| "is_dml _ = False"

text \<open>A logged write, stamped with an LSN (or \<open>PENDING\<close>) and an owner.\<close>

abbreviation stamp_delete :: "nat \<Rightarrow> nat \<Rightarrow> row_version \<Rightarrow> row_version" where
  "stamp_delete c w r \<equiv> r\<lparr>rv_delete_lsn := c, rv_owner := w\<rparr>"

fun stamp_op :: "nat \<Rightarrow> nat \<Rightarrow> wal_op \<Rightarrow> rmap \<Rightarrow> rmap" where
  "stamp_op c w (Insert t v vals) M = M(key t := map_option (\<lambda>rows. rows @
     [\<lparr>rv_vid = v, rv_values = vals, rv_create_lsn = c, rv_delete_lsn = 0, rv_owner = w\<rparr>]) (M (key t)))"
| "stamp_op c w (Delete t v) M = M(key t := map_option (update_first (\<lambda>r. rv_vid r = v) (stamp_delete c w)) (M (key t)))"
| "stamp_op c w _ M = M"

text \<open>A delete of writer \<open>w\<close> finds a live row that is committed or its own.\<close>

definition legal_target :: "nat \<Rightarrow> row_version \<Rightarrow> bool" where
  "legal_target w r \<longleftrightarrow> rv_delete_lsn r = 0 \<and> (rv_create_lsn r = PENDING \<longrightarrow> rv_owner r = w) \<and>
     (rv_create_lsn r \<noteq> PENDING \<longrightarrow> rv_owner r = 0)"

fun legal_op :: "nat \<Rightarrow> wal_op \<Rightarrow> rmap \<Rightarrow> bool" where
  "legal_op w (Delete t v) M \<longleftrightarrow> (case M (key t) of None \<Rightarrow> True
     | Some rows \<Rightarrow> (case find (\<lambda>r. rv_vid r = v) rows of None \<Rightarrow> True | Some r \<Rightarrow> legal_target w r))"
| "legal_op w _ M \<longleftrightarrow> True"

fun stamp_txn :: "nat \<Rightarrow> nat \<Rightarrow> wal_op list \<Rightarrow> rmap \<Rightarrow> rmap" where
  "stamp_txn c w [] M = M"
| "stamp_txn c w (op # ops) M = stamp_txn c w ops (stamp_op c w op M)"

fun legal_txn :: "nat \<Rightarrow> wal_op list \<Rightarrow> rmap \<Rightarrow> bool" where
  "legal_txn w [] M \<longleftrightarrow> True"
| "legal_txn w (op # ops) M \<longleftrightarrow> legal_op w op M \<and> legal_txn w ops (stamp_op PENDING w op M)"

fun pend :: "(nat \<times> wal_op list) list \<Rightarrow> rmap \<Rightarrow> rmap" where
  "pend [] M = M"
| "pend ((w, ops) # F) M = pend F (stamp_txn PENDING w ops M)"

fun legal :: "(nat \<times> wal_op list) list \<Rightarrow> rmap \<Rightarrow> bool" where
  "legal [] M \<longleftrightarrow> True"
| "legal ((w, ops) # F) M \<longleftrightarrow> legal_txn w ops M \<and> legal F (stamp_txn PENDING w ops M)"

definition fin :: "nat \<Rightarrow> nat \<Rightarrow> rmap \<Rightarrow> rmap" where
  "fin w lsn M k = map_option (map (finalize_row w lsn)) (M k)"

definition rb :: "nat \<Rightarrow> rmap \<Rightarrow> rmap" where
  "rb w M k = map_option (rollback_rows w) (M k)"

definition owners_in :: "nat set \<Rightarrow> rmap \<Rightarrow> bool" where
  "owners_in W M \<longleftrightarrow> (\<forall>k rows r. M k = Some rows \<longrightarrow> r \<in> set rows \<longrightarrow> rv_owner r \<in> W)"

section \<open>Sequences\<close>

lemma stamp_txn_append: "stamp_txn c w (xs @ ys) M = stamp_txn c w ys (stamp_txn c w xs M)"
  by (induction xs arbitrary: M) auto

lemma legal_txn_append: "legal_txn w (xs @ ys) M \<longleftrightarrow> legal_txn w xs M \<and> legal_txn w ys (stamp_txn PENDING w xs M)"
  by (induction xs arbitrary: M) auto

lemma pend_append: "pend (F @ G) M = pend G (pend F M)"
  by (induction F M rule: pend.induct) auto

lemma legal_append: "legal (F @ G) M \<longleftrightarrow> legal F M \<and> legal G (pend F M)"
  by (induction F M rule: legal.induct) auto

section \<open>Update of the first match\<close>

lemma update_first_map_comm:
  assumes "\<And>r. p (g r) = p r" and "\<And>r. find p xs = Some r \<Longrightarrow> g (f r) = h (g r)"
  shows "map g (update_first p f xs) = update_first p h (map g xs)"
  using assms(2) by (induction xs) (auto simp: assms(1))

lemma find_map_same:
  assumes "\<And>r. p (g r) = p r"
  shows "find p (map g xs) = map_option g (find p xs)"
  by (induction xs) (auto simp: assms)

lemma set_update_first: "r' \<in> set (update_first p f xs) \<Longrightarrow> r' \<in> set xs \<or> (\<exists>r. find p xs = Some r \<and> r' = f r)"
  by (induction xs) (auto split: if_splits)

section \<open>Publishing\<close>

lemma fin_stamp_own:
  assumes "legal_op w op M" and "w \<noteq> 0"
  shows "fin w lsn (stamp_op PENDING w op M) = stamp_op lsn 0 op (fin w lsn M)"
proof (cases "(w, op, M)" rule: legal_op.cases)
  case (1 w' t v M')
  show ?thesis
  proof (cases "M (key t)")
    case (Some rows)
    have "finalize_row w lsn (stamp_delete PENDING w r) = stamp_delete lsn 0 (finalize_row w lsn r)"
      if "find (\<lambda>r. rv_vid r = v) rows = Some r" for r
      using that 1 Some assms by (auto simp: legal_target_def finalize_row_def)
    then have "map (finalize_row w lsn) (update_first (\<lambda>r. rv_vid r = v) (stamp_delete PENDING w) rows) =
        update_first (\<lambda>r. rv_vid r = v) (stamp_delete lsn 0) (map (finalize_row w lsn) rows)"
      by (intro update_first_map_comm) auto
    with 1 Some show ?thesis by (auto simp: fin_def fun_eq_iff)
  qed (use 1 in \<open>auto simp: fin_def fun_eq_iff\<close>)
qed (use assms in \<open>auto simp: fin_def fun_eq_iff option.map_comp comp_def finalize_row_def\<close>)

lemma fin_stamp_other:
  assumes "legal_op v op M" and "v \<noteq> w" and "w \<noteq> 0"
  shows "fin w lsn (stamp_op PENDING v op M) = stamp_op PENDING v op (fin w lsn M) \<and> legal_op v op (fin w lsn M)"
proof (cases "(v, op, M)" rule: legal_op.cases)
  case (1 v' t i M')
  show ?thesis
  proof (cases "M (key t)")
    case (Some rows)
    have r: "finalize_row w lsn r = r \<and> finalize_row w lsn (stamp_delete PENDING v r) = stamp_delete PENDING v r \<and> legal_target v r"
      if "find (\<lambda>r. rv_vid r = i) rows = Some r" for r
      using that 1 Some assms by (auto simp: legal_target_def finalize_row_def)
    then have "map (finalize_row w lsn) (update_first (\<lambda>r. rv_vid r = i) (stamp_delete PENDING v) rows) =
        update_first (\<lambda>r. rv_vid r = i) (stamp_delete PENDING v) (map (finalize_row w lsn) rows)"
      by (intro update_first_map_comm) auto
    moreover have "legal_op v op (fin w lsn M)"
      using 1 Some r by (auto simp: fin_def find_map_same split: option.splits)
    ultimately show ?thesis using 1 Some by (auto simp: fin_def fun_eq_iff)
  qed (use 1 in \<open>auto simp: fin_def fun_eq_iff\<close>)
qed (use assms in \<open>auto simp: fin_def fun_eq_iff option.map_comp comp_def finalize_row_def\<close>)

lemma fin_txn_own:
  "legal_txn w ops M \<Longrightarrow> w \<noteq> 0 \<Longrightarrow> fin w lsn (stamp_txn PENDING w ops M) = stamp_txn lsn 0 ops (fin w lsn M)"
  by (induction ops arbitrary: M) (auto simp: fin_stamp_own)

lemma fin_txn_other:
  "legal_txn v ops M \<Longrightarrow> v \<noteq> w \<Longrightarrow> w \<noteq> 0 \<Longrightarrow>
     fin w lsn (stamp_txn PENDING v ops M) = stamp_txn PENDING v ops (fin w lsn M) \<and> legal_txn v ops (fin w lsn M)"
proof (induction ops arbitrary: M)
  case (Cons op ops)
  then show ?case
    using fin_stamp_other [of v op M w lsn] Cons.IH [of "stamp_op PENDING v op M"] by simp
qed simp

lemma fin_pend:
  "legal F M \<Longrightarrow> w \<notin> fst ` set F \<Longrightarrow> w \<noteq> 0 \<Longrightarrow>
     fin w lsn (pend F M) = pend F (fin w lsn M) \<and> legal F (fin w lsn M)"
proof (induction F M rule: legal.induct)
  case (2 v ops F M)
  then show ?case
    using fin_txn_other [of v ops M w lsn] by auto
qed simp

lemma fin_fresh: "owners_in W M \<Longrightarrow> w \<notin> W \<Longrightarrow> fin w lsn M = M"
proof
  fix k assume "owners_in W M" and "w \<notin> W"
  then have "\<And>rows. M k = Some rows \<Longrightarrow> map (finalize_row w lsn) rows = rows"
    by (intro map_idI) (auto simp: owners_in_def finalize_row_def)
  then show "fin w lsn M k = M k" by (cases "M k") (auto simp: fin_def)
qed

text \<open>Publishing the first in-flight transaction is replaying it.\<close>

lemma publish_first:
  assumes "legal ((w, ops) # F) M" and "w \<notin> fst ` set F" and "w \<noteq> 0" and "owners_in {0} M"
  shows "fin w lsn (pend ((w, ops) # F) M) = pend F (stamp_txn lsn 0 ops M)" and "legal F (stamp_txn lsn 0 ops M)"
proof -
  have "fin w lsn (stamp_txn PENDING w ops M) = stamp_txn lsn 0 ops M"
    using fin_txn_own [of w ops M lsn] fin_fresh [OF assms(4), of w lsn] assms(1,3) by simp
  with fin_pend [of F "stamp_txn PENDING w ops M" w lsn] assms(1-3)
  show "fin w lsn (pend ((w, ops) # F) M) = pend F (stamp_txn lsn 0 ops M)" "legal F (stamp_txn lsn 0 ops M)"
    by auto
qed

section \<open>Owners\<close>

lemma owners_stamp: "owners_in W M \<Longrightarrow> w \<in> W \<Longrightarrow> owners_in W (stamp_op c w op M)"
proof (cases "(w, op, M)" rule: legal_op.cases)
  case (1 w' t v M')
  assume *: "owners_in W M" "w \<in> W"
  show ?thesis
    unfolding owners_in_def
  proof (intro allI impI)
    fix k rows r assume "stamp_op c w op M k = Some rows" and "r \<in> set rows"
    with 1 * show "rv_owner r \<in> W"
      by (auto simp: owners_in_def split: if_splits dest!: set_update_first)
  qed
qed (auto simp: owners_in_def split: if_splits)

lemma owners_stamp_txn: "owners_in W M \<Longrightarrow> w \<in> W \<Longrightarrow> owners_in W (stamp_txn c w ops M)"
  by (induction ops arbitrary: M) (auto simp: owners_stamp)

lemma owners_pend: "owners_in W M \<Longrightarrow> owners_in (W \<union> fst ` set F) (pend F M)"
proof (induction F M arbitrary: W rule: pend.induct)
  case (2 w ops F M)
  have "owners_in (insert w W) M" using 2(2) by (auto simp: owners_in_def)
  then have "owners_in (insert w W) (stamp_txn PENDING w ops M)" by (rule owners_stamp_txn) simp
  from 2(1) [OF this] show ?case by (auto simp: owners_in_def)
qed simp

section \<open>Discarding\<close>

lemma rb_rows_update_first:
  assumes "\<And>r. find p rows = Some r \<Longrightarrow> rollback_rows w [f r] = rollback_rows w [r]"
  shows "rollback_rows w (update_first p f rows) = rollback_rows w rows"
  using assms
proof (induction rows)
  case (Cons x xs)
  then show ?case
    using rollback_rows_append [of w "[x]" xs] rollback_rows_append [of w "[f x]" xs]
      rollback_rows_append [of w "[x]" "update_first p f xs"]
    by (auto split: if_splits)
qed simp

lemma rollback_rows_pending:
  "rollback_rows w [\<lparr>rv_vid = v, rv_values = vals, rv_create_lsn = PENDING, rv_delete_lsn = d, rv_owner = w\<rparr>] = []"
  by (simp add: rollback_rows_def pending_insert_def)

lemma rb_stamp:
  assumes "legal_op w op M" and "w \<noteq> 0"
  shows "rb w (stamp_op PENDING w op M) = rb w M"
proof (cases "(w, op, M)" rule: legal_op.cases)
  case (1 w' t v M')
  have "rollback_rows w (update_first (\<lambda>r. rv_vid r = v) (stamp_delete PENDING w) rows) = rollback_rows w rows"
    if "M (key t) = Some rows" for rows
    using that 1 assms rollback_mark_row [of _ w]
    by (intro rb_rows_update_first) (auto simp: legal_target_def mark_deleted_def split: option.splits)
  with 1 show ?thesis by (cases "M (key t)") (auto simp: rb_def fun_eq_iff)
qed (auto simp: rb_def fun_eq_iff option.map_comp comp_def rollback_rows_append rollback_rows_pending)

lemma rb_txn: "legal_txn w ops M \<Longrightarrow> w \<noteq> 0 \<Longrightarrow> rb w (stamp_txn PENDING w ops M) = rb w M"
  by (induction ops arbitrary: M) (auto simp: rb_stamp)

lemma rb_fresh: "owners_in W M \<Longrightarrow> w \<notin> W \<Longrightarrow> rb w M = M"
proof
  fix k assume "owners_in W M" and "w \<notin> W"
  then have "\<And>rows. M k = Some rows \<Longrightarrow> rollback_rows w rows = rows"
    by (intro rollback_rows_id) (auto simp: owners_in_def)
  then show "rb w M k = M k" by (cases "M k") (auto simp: rb_def)
qed

text \<open>Discarding a transaction does not disturb the ones that came after it.\<close>

lemma find_filter_same:
  assumes "\<And>r. find p xs = Some r \<Longrightarrow> q r"
  shows "find p (filter q xs) = find p xs"
  using assms by (induction xs) (auto split: if_splits)

lemma update_first_filter:
  assumes "\<And>r. find p xs = Some r \<Longrightarrow> q r \<and> q (f r)"
  shows "filter q (update_first p f xs) = update_first p f (filter q xs)"
  using assms by (induction xs) (auto split: if_splits)

lemma rb_stamp_other:
  assumes "legal_op v op M" and "v \<noteq> w" and "w \<noteq> 0"
  shows "rb w (stamp_op PENDING v op M) = stamp_op PENDING v op (rb w M) \<and> legal_op v op (rb w M)"
proof -
  have ins: "rollback_rows w [\<lparr>rv_vid = i, rv_values = vals, rv_create_lsn = PENDING, rv_delete_lsn = 0, rv_owner = v\<rparr>] =
      [\<lparr>rv_vid = i, rv_values = vals, rv_create_lsn = PENDING, rv_delete_lsn = 0, rv_owner = v\<rparr>]" for i vals
    using assms(2) by (simp add: rollback_rows_def pending_insert_def undelete_def)
  show ?thesis
  proof (cases "(v, op, M)" rule: legal_op.cases)
    case (1 v' t i M')
    show ?thesis
    proof (cases "M (key t)")
      case (Some rows)
      let ?p = "\<lambda>r. rv_vid r = i" and ?q = "\<lambda>r. \<not> pending_insert w r"
      have r: "?q r \<and> ?q (stamp_delete PENDING v r) \<and> undelete w r = r \<and> undelete w (stamp_delete PENDING v r) = stamp_delete PENDING v r \<and> legal_target v r"
        if "find ?p rows = Some r" for r
        using that 1 Some assms by (auto simp: legal_target_def pending_insert_def undelete_def)
      have f: "find ?p (filter ?q rows) = find ?p rows" by (rule find_filter_same) (use r in blast)
      have "filter ?q (update_first ?p (stamp_delete PENDING v) rows) = update_first ?p (stamp_delete PENDING v) (filter ?q rows)"
        by (rule update_first_filter) (use r in blast)
      moreover have "map (undelete w) (update_first ?p (stamp_delete PENDING v) (filter ?q rows)) =
          update_first ?p (stamp_delete PENDING v) (map (undelete w) (filter ?q rows))"
        by (rule update_first_map_comm) (use r f in auto)
      ultimately have "rollback_rows w (update_first ?p (stamp_delete PENDING v) rows) = update_first ?p (stamp_delete PENDING v) (rollback_rows w rows)"
        by (simp add: rollback_rows_def)
      moreover have "find ?p (rollback_rows w rows) = map_option (undelete w) (find ?p rows)"
        unfolding rollback_rows_def f [symmetric] by (rule find_map_same) simp
      ultimately show ?thesis
        using 1 Some r by (auto simp: rb_def fun_eq_iff split: option.splits)
    qed (use 1 in \<open>auto simp: rb_def fun_eq_iff\<close>)
  qed (use ins in \<open>auto simp: rb_def fun_eq_iff option.map_comp comp_def rollback_rows_append\<close>)
qed

lemma rb_txn_other:
  "legal_txn v ops M \<Longrightarrow> v \<noteq> w \<Longrightarrow> w \<noteq> 0 \<Longrightarrow>
     rb w (stamp_txn PENDING v ops M) = stamp_txn PENDING v ops (rb w M) \<and> legal_txn v ops (rb w M)"
proof (induction ops arbitrary: M)
  case (Cons op ops)
  then show ?case
    using rb_stamp_other [of v op M w] Cons.IH [of "stamp_op PENDING v op M"] by simp
qed simp

lemma rb_pend:
  "legal F M \<Longrightarrow> w \<notin> fst ` set F \<Longrightarrow> w \<noteq> 0 \<Longrightarrow> rb w (pend F M) = pend F (rb w M) \<and> legal F (rb w M)"
proof (induction F M rule: legal.induct)
  case (2 v ops F M)
  then show ?case
    using rb_txn_other [of v ops M w] by auto
qed simp

lemma discard_first:
  assumes "legal ((w, ops) # F) M" and "w \<notin> fst ` set F" and "w \<noteq> 0" and "owners_in {0} M"
  shows "rb w (pend ((w, ops) # F) M) = pend F M" and "legal F M"
proof -
  have "rb w (stamp_txn PENDING w ops M) = M"
    using rb_txn [of w ops M] rb_fresh [OF assms(4), of w] assms(1,3) by simp
  with rb_pend [of F "stamp_txn PENDING w ops M" w] assms(1-3)
  show "rb w (pend ((w, ops) # F) M) = pend F M" "legal F M"
    by auto
qed

section \<open>Live and replayed writes\<close>

lemma rmap_of_table_mut: "rmap_of (table_mut t f st) =
    (rmap_of st)(key t := map_option (t_rows \<circ> f) (hm_get (s_tables st) (key t)))"
  by (auto simp: rmap_of_def table_mut_def get_table_def fun_eq_iff split: option.splits)

lemma rmap_of_map_rows: "s_tables st' = s_tables (map_rows f st) \<Longrightarrow> rmap_of st' = (\<lambda>k. map_option f (rmap_of st k))"
  by (auto simp: rmap_of_def map_rows_def map_of_map_vals fun_eq_iff option.map_comp comp_def)

lemma rmap_of_finalize: "rmap_of (finalize_owner vo w lsn st) = fin w lsn (rmap_of st)"
  unfolding rmap_of_map_rows [OF finalize_owner_tables] by (simp add: fin_def fun_eq_iff)

lemma rmap_of_rollback: "rmap_of (rollback_owner vo w st) = rb w (rmap_of st)"
  unfolding rmap_of_map_rows [OF rollback_owner_keeps(1)] by (simp add: rb_def fun_eq_iff)

text \<open>A statement's write is a pending stamp, and its log record says so.\<close>

lemma exec_write_stamp:
  assumes "exec_write s me w (st, wal) = Some (st', wal')" and "store_ok st"
  obtains op where "wal' = wal @ [op]" and "is_dml op" and "legal_op me op (rmap_of st)"
    and "rmap_of st' = stamp_op PENDING me op (rmap_of st)"
proof (cases w)
  case (WInsert t vals)
  with assms(1) obtain tb where tb: "get_table st t = Some tb" "wal' = wal @ [Insert t (t_next_vid tb) vals]"
      "st' = table_mut t (append_row vals me) st"
    by (auto simp: append_version_def split: option.splits)
  have "rmap_of st' = stamp_op PENDING me (Insert t (t_next_vid tb) vals) (rmap_of st)"
    using tb unfolding tb(3) rmap_of_table_mut
    by (auto simp: get_table_def append_row_def alloc_vid_def rmap_of_def fun_eq_iff)
  with tb(2) that show ?thesis by simp
next
  case (WDelete t v)
  with assms(1) obtain tb r where tb: "get_table st t = Some tb" "version tb v = Some r" "visible_to_writer r s me"
      "check_no_conflict r s me" "wal' = wal @ [Delete t v]" "st' = table_mut t (version_mut v (mark_deleted me)) st"
    by (auto simp: supersede_def bind_eq_Some_conv split: option.splits if_splits)
  have "row_ok (s_committed_lsn st) r"
    using store_okD [OF assms(2) tb(1)] tb(2) by (auto simp: table_ok_def list_all_iff version_def find_Some_iff)
  from supersede_target [OF this tb(3,4)] have "legal_target me r" by (simp add: legal_target_def)
  then have "legal_op me (Delete t v) (rmap_of st)"
    using tb(1,2) by (auto simp: rmap_of_def get_table_def version_def)
  moreover have "rmap_of st' = stamp_op PENDING me (Delete t v) (rmap_of st)"
    using tb(1) unfolding tb(6) rmap_of_table_mut
    by (auto simp: get_table_def version_mut_def mark_deleted_def [abs_def] rmap_of_def fun_eq_iff)
  ultimately show ?thesis using tb(5) that by simp
qed

text \<open>Replay stamps the commit LSN; it never sets an owner, and every row it meets has none.\<close>

lemma update_first_cong:
  assumes "\<And>r. r \<in> set xs \<Longrightarrow> f r = g r"
  shows "update_first p f xs = update_first p g xs"
  using assms by (induction xs) auto

lemma apply_replay_stamp:
  assumes "is_dml op" and "owners_in {0} (rmap_of st)"
  shows "rmap_of (apply_replay env vo lsn op st) = stamp_op lsn 0 op (rmap_of st)"
proof (cases op)
  case (Insert t v vals)
  then show ?thesis
    by (simp add: replay_insert_def rmap_of_table_mut) (auto simp: rmap_of_def fun_eq_iff option.map_comp comp_def)
next
  case (Delete t v)
  have "update_first (\<lambda>r. rv_vid r = v) (\<lambda>r. r\<lparr>rv_delete_lsn := lsn\<rparr>) rows = update_first (\<lambda>r. rv_vid r = v) (stamp_delete lsn 0) rows"
    if "rmap_of st (key t) = Some rows" for rows
  proof (rule update_first_cong)
    fix r assume "r \<in> set rows"
    then have "rv_owner r = 0" using that assms(2) by (auto simp: owners_in_def)
    then show "r\<lparr>rv_delete_lsn := lsn\<rparr> = stamp_delete lsn 0 r" by (cases r) simp
  qed
  with Delete show ?thesis
    by (cases "hm_get (s_tables st) (key t)")
      (simp_all add: replay_delete_def rmap_of_table_mut version_mut_def, simp_all add: rmap_of_def fun_eq_iff)
qed (use assms in auto)

lemma replay_group_stamp:
  assumes "list_all is_dml ops" and "owners_in {0} (rmap_of st)"
  shows "rmap_of (replay_group env vo lsn ops st) = stamp_txn lsn 0 ops (rmap_of st) \<and>
    owners_in {0} (rmap_of (replay_group env vo lsn ops st))"
proof -
  have "rmap_of (foldl (\<lambda>st op. apply_replay env vo lsn op st) st ops) = stamp_txn lsn 0 ops (rmap_of st)"
    using assms
  proof (induction ops arbitrary: st)
    case (Cons op ops)
    then have st: "rmap_of (apply_replay env vo lsn op st) = stamp_op lsn 0 op (rmap_of st)"
      by (simp add: apply_replay_stamp)
    with Cons.prems(2) have "owners_in {0} (rmap_of (apply_replay env vo lsn op st))" by (simp add: owners_stamp)
    with Cons st show ?case by simp
  qed simp
  moreover have "rmap_of (st1\<lparr>s_committed_lsn := c\<rparr>) = rmap_of st1" for st1 :: "('a, 'b) store" and c
    by (simp add: rmap_of_def fun_eq_iff)
  ultimately show ?thesis
    using assms(2) by (simp add: replay_group_def Let_def owners_stamp_txn)
qed

section \<open>The committed part\<close>

definition clear_pending :: "row_version \<Rightarrow> row_version" where
  "clear_pending r = (if rv_delete_lsn r = PENDING then stamp_delete 0 0 r else r)"

text \<open>What is left of a table when everything in flight is forgotten.\<close>

definition committed_part :: "row_version list \<Rightarrow> row_version list" where
  "committed_part rows = map clear_pending (filter (\<lambda>r. rv_create_lsn r \<noteq> PENDING) rows)"

definition settled :: "rmap \<Rightarrow> bool" where
  "settled M \<longleftrightarrow> (\<forall>k rows r. M k = Some rows \<longrightarrow> r \<in> set rows \<longrightarrow>
     rv_owner r = 0 \<and> rv_create_lsn r \<noteq> PENDING \<and> rv_delete_lsn r \<noteq> PENDING)"

lemma settled_owners: "settled M \<Longrightarrow> owners_in {0} M"
  by (auto simp: settled_def owners_in_def)

lemma settled_stamp: "settled M \<Longrightarrow> lsn \<noteq> PENDING \<Longrightarrow> settled (stamp_op lsn 0 op M)"
proof (cases "(0 :: nat, op, M)" rule: legal_op.cases)
  case (1 w' t v M')
  assume *: "settled M" "lsn \<noteq> PENDING"
  show ?thesis
    unfolding settled_def
  proof (intro allI impI)
    fix k rows r assume "stamp_op lsn 0 op M k = Some rows" and "r \<in> set rows"
    with 1 * show "rv_owner r = 0 \<and> rv_create_lsn r \<noteq> PENDING \<and> rv_delete_lsn r \<noteq> PENDING"
      by (auto simp: settled_def split: if_splits dest!: set_update_first simp: find_Some_iff)
  qed
qed (auto simp: settled_def split: if_splits)

lemma settled_stamp_txn: "settled M \<Longrightarrow> lsn \<noteq> PENDING \<Longrightarrow> settled (stamp_txn lsn 0 ops M)"
  by (induction ops arbitrary: M) (auto simp: settled_stamp)

lemma committed_part_append: "committed_part (xs @ ys) = committed_part xs @ committed_part ys"
  by (simp add: committed_part_def)

lemma committed_part_update_first:
  assumes "\<And>r. find p rows = Some r \<Longrightarrow> committed_part [f r] = committed_part [r]"
  shows "committed_part (update_first p f rows) = committed_part rows"
  using assms
proof (induction rows)
  case (Cons x xs)
  then show ?case
    using committed_part_append [of "[x]" xs] committed_part_append [of "[f x]" xs]
      committed_part_append [of "[x]" "update_first p f xs"]
    by (auto split: if_splits)
qed simp

abbreviation cp :: "rmap \<Rightarrow> rmap" where
  "cp M \<equiv> \<lambda>k. map_option committed_part (M k)"

lemma cp_target: "legal_target w r \<Longrightarrow> committed_part [stamp_delete PENDING w r] = committed_part [r]"
  by (cases r) (auto simp: legal_target_def committed_part_def clear_pending_def)

lemma committed_part_pending:
  "committed_part [\<lparr>rv_vid = v, rv_values = vals, rv_create_lsn = PENDING, rv_delete_lsn = d, rv_owner = w\<rparr>] = []"
  by (simp add: committed_part_def)

lemma cp_stamp: "legal_op w op M \<Longrightarrow> cp (stamp_op PENDING w op M) = cp M"
proof (cases "(w, op, M)" rule: legal_op.cases)
  case (1 w' t v M')
  assume "legal_op w op M"
  then have "committed_part (update_first (\<lambda>r. rv_vid r = v) (stamp_delete PENDING w) rows) = committed_part rows"
    if "M (key t) = Some rows" for rows
    using that 1 by (intro committed_part_update_first cp_target) (auto split: option.splits)
  with 1 show ?thesis by (cases "M (key t)") (auto simp: fun_eq_iff)
qed (auto simp: fun_eq_iff option.map_comp comp_def committed_part_append committed_part_pending)

lemma cp_txn: "legal_txn w ops M \<Longrightarrow> cp (stamp_txn PENDING w ops M) = cp M"
  by (induction ops arbitrary: M) (auto simp: cp_stamp)

lemma cp_pend: "legal F M \<Longrightarrow> cp (pend F M) = cp M"
  by (induction F M rule: legal.induct) (auto simp: cp_txn)

lemma cp_settled: "settled M \<Longrightarrow> cp M = M"
proof
  fix k assume "settled M"
  then have "committed_part rows = rows" if "M k = Some rows" for rows
    using that by (auto simp: committed_part_def settled_def clear_pending_def filter_id_conv intro!: map_idI)
  then show "cp M k = M k" by (cases "M k") auto
qed

section \<open>Schema changes\<close>

text \<open>What replay and the live schema change see of a table.\<close>

definition tview :: "('x, 'q) store \<Rightarrow> string \<Rightarrow> (table_schema \<times> row_version list) option" where
  "tview st k = map_option (\<lambda>t. (t_schema t, t_rows t)) (hm_get (s_tables st) k)"

lemma rmap_of_tview: "rmap_of st k = map_option snd (tview st k)"
  by (simp add: rmap_of_def tview_def option.map_comp comp_def)

lemma tview_table_mut: "tview (table_mut t f st) =
    (tview st)(key t := map_option ((\<lambda>t. (t_schema t, t_rows t)) \<circ> f) (hm_get (s_tables st) (key t)))"
  by (auto simp: tview_def table_mut_def get_table_def fun_eq_iff split: option.splits)

lemma tview_table_mut_cong:
  assumes "tview st = tview st'"
    and "\<And>t t'. t_schema t = t_schema t' \<Longrightarrow> t_rows t = t_rows t' \<Longrightarrow>
      t_schema (f t) = t_schema (f t') \<and> t_rows (f t) = t_rows (f t')"
  shows "tview (table_mut n f st) = tview (table_mut n f st')"
proof -
  have "map_option ((\<lambda>t. (t_schema t, t_rows t)) \<circ> f) (hm_get (s_tables st) (key n)) =
      map_option ((\<lambda>t. (t_schema t, t_rows t)) \<circ> f) (hm_get (s_tables st') (key n))"
  proof (cases "hm_get (s_tables st) (key n)")
    case None
    with fun_cong [OF assms(1), of "key n"] show ?thesis by (simp add: tview_def)
  next
    case (Some t)
    with fun_cong [OF assms(1), of "key n"] obtain t' where
      t': "hm_get (s_tables st') (key n) = Some t'" "t_schema t = t_schema t'" "t_rows t = t_rows t'"
      by (cases "hm_get (s_tables st') (key n)") (auto simp: tview_def)
    from assms(2) [OF t'(2,3)] Some t'(1) show ?thesis by simp
  qed
  then show ?thesis by (simp only: tview_table_mut assms(1))
qed

lemma tview_rename_table:
  "tview (rename_table from to st) = (case tview st (key from) of
     None \<Rightarrow> tview st
   | Some (sch, rows) \<Rightarrow> (tview st)(key from := None, key to := Some (sch\<lparr>sch_name := to\<rparr>, rows)))"
  by (auto simp: rename_table_def tview_def get_table_def fun_eq_iff split: option.splits)

lemma tview_insert_table: "tview (insert_table sch st) = (tview st)(key (sch_name sch) \<mapsto> (sch, []))"
  by (simp add: insert_table_def tview_def table_new_def fun_eq_iff)

lemma tview_drop_table: "tview (snd (drop_table vo name st)) = (tview st)(key name := None)"
  by (simp add: drop_table_def tview_def fun_eq_iff)

lemma tview_kept [simp]: "tview (register_index vo d st) = tview st" "tview (insert_view n q st) = tview st"
  "tview (snd (drop_view n st)) = tview st" "tview (snd (drop_index n st)) = tview st"
  by (simp_all add: register_index_def insert_view_def drop_view_def drop_index_def tview_def fun_eq_iff)

lemma apply_replay_tview:
  assumes "tview st = tview st'" and "\<not> is_dml op"
  shows "tview (apply_replay env vo lsn op st) = tview (apply_replay env vo lsn' op st')"
proof (cases op)
  case (CreateView n q)
  with assms show ?thesis by (cases "env_parse_view env q") simp_all
next
  case (DropPolicy t n)
  with assms(1) show ?thesis
    by (simp add: drop_policy_def) (rule tview_table_mut_cong, simp_all)
next
  case (AlterRenameTable t n)
  with assms(1) show ?thesis
    by (auto simp: tview_rename_table split: option.splits)
next
  case (CreatePolicy t p)
  with assms(1) show ?thesis
    by (simp add: add_policy_def) (rule tview_table_mut_cong, simp_all)
next
  case (SetRls t e)
  with assms(1) show ?thesis
    by (simp add: set_rls_def) (rule tview_table_mut_cong, simp_all)
next
  case (AlterAddColumn t c)
  with assms(1) show ?thesis
    by (simp add: add_column_def) (rule tview_table_mut_cong, simp_all)
next
  case (AlterDropColumn t n)
  with assms show ?thesis
    by (simp add: drop_column_def) (rule tview_table_mut_cong, auto split: option.splits)
next
  case (AlterRenameColumn t a b)
  with assms show ?thesis
    by (simp add: rename_column_def) (rule tview_table_mut_cong, auto split: option.splits)
qed (use assms in \<open>simp_all add: tview_insert_table tview_drop_table tview_rename_table\<close>)

end
