(* ===== verification/Group_Commit.thy ===== *)
theory Group_Commit
  imports Engine_Db
begin

text \<open>
  Group commit (\<^verbatim>\<open>crates/engine/src/group_commit.rs\<close>): committing transactions queue their
  records; one of them leads, appends a bounded batch in one durable write, publishes every
  member at the LSN of its commit marker, and goes on until the queue is empty.  The
  functions are the critical sections of the source, with the condition variable's waits
  left out; a member id that is not registered, on which the source would panic, has no
  records here and never occurs (invariant \<open>gc_ok\<close>).
\<close>

definition MAX_BATCH_RECORDS :: nat where
  "MAX_BATCH_RECORDS = 1024"

record member =
  m_owner :: nat
  m_records :: "wal_record list"
  m_result :: "nat eres option"
  m_done :: bool

record gc_state =
  g_queue :: "nat list"
  g_members :: "(nat \<times> member) list"
  g_leader_active :: bool
  g_next_id :: nat
  g_batches :: nat
  g_commits :: nat

definition gc_new :: gc_state where
  "gc_new = \<lparr>g_queue = [], g_members = [], g_leader_active = False, g_next_id = 1, g_batches = 0, g_commits = 0\<rparr>"

definition gc_metrics :: "gc_state \<Rightarrow> nat \<times> nat" where
  "gc_metrics g = (g_batches g, g_commits g)"

definition gc_owner :: "gc_state \<Rightarrow> nat \<Rightarrow> nat" where
  "gc_owner g i = (case hm_get (g_members g) i of Some m \<Rightarrow> m_owner m | None \<Rightarrow> 0)"

definition gc_records :: "gc_state \<Rightarrow> nat \<Rightarrow> wal_record list" where
  "gc_records g i = (case hm_get (g_members g) i of Some m \<Rightarrow> m_records m | None \<Rightarrow> [])"

text \<open>First critical section of \<^verbatim>\<open>commit\<close>: register, queue, and decide who leads.\<close>

definition gc_enqueue :: "nat \<Rightarrow> wal_record list \<Rightarrow> gc_state \<Rightarrow> (nat \<times> bool) \<times> gc_state" where
  "gc_enqueue owner records g =
     (let i = g_next_id g; am_leader = (\<not> g_leader_active g) in
      ((i, am_leader),
       g\<lparr>g_next_id := i + 1,
         g_members := hm_insert i \<lparr>m_owner = owner, m_records = records, m_result = None, m_done = False\<rparr> (g_members g),
         g_queue := g_queue g @ [i],
         g_leader_active := (if am_leader then True else g_leader_active g)\<rparr>))"

text \<open>Last critical section of \<^verbatim>\<open>commit\<close>: reclaim the result, or wait.\<close>

definition gc_reclaim :: "nat \<Rightarrow> gc_state \<Rightarrow> nat eres option \<times> gc_state" where
  "gc_reclaim i g = (case hm_get (g_members g) i of
     Some m \<Rightarrow> if m_done m then (m_result m, g\<lparr>g_members := hm_remove i (g_members g)\<rparr>) else (None, g)
   | None \<Rightarrow> (None, g))"

fun drain_loop :: "(nat \<Rightarrow> nat) \<Rightarrow> nat list \<Rightarrow> nat \<Rightarrow> nat list \<Rightarrow> nat list \<times> nat list" where
  "drain_loop len batch nrec [] = (batch, [])"
| "drain_loop len batch nrec (i # q) =
     (if batch \<noteq> [] \<and> nrec + len i > MAX_BATCH_RECORDS then (batch, i # q)
      else drain_loop len (batch @ [i]) (nrec + len i) q)"

definition drain_batch :: "gc_state \<Rightarrow> nat list \<times> gc_state" where
  "drain_batch g = (let (batch, q) = drain_loop (\<lambda>i. length (gc_records g i)) [] 0 (g_queue g)
     in (batch, g\<lparr>g_queue := q\<rparr>))"

definition gc_resolve :: "(nat \<times> nat eres) list \<Rightarrow> gc_state \<Rightarrow> gc_state" where
  "gc_resolve results g = g\<lparr>g_members := foldl (\<lambda>ms (i, r). case hm_get ms i of
       Some m \<Rightarrow> hm_insert i (m\<lparr>m_result := Some r, m_done := True\<rparr>) ms
     | None \<Rightarrow> ms) (g_members g) results\<rparr>"

text \<open>The publishing loop of \<^verbatim>\<open>flush_batch\<close>: member after member, each at the LSN of its last
  record, then the high-water mark once.\<close>

fun publish_loop :: "'x vector_ops \<Rightarrow> nat \<Rightarrow> nat \<Rightarrow> (nat \<times> nat \<times> nat) list \<Rightarrow> ('x, 'q) store \<Rightarrow>
    (nat \<times> nat) list \<times> nat \<times> ('x, 'q) store" where
  "publish_loop vo first acc [] st = ([], 0, st)"
| "publish_loop vo first acc ((i, owner, n) # ms) st =
     (let lsn = first + (acc + n) - 1;
          (rs, mx, st') = publish_loop vo first (acc + n) ms (finalize_owner vo owner lsn st)
      in ((i, lsn) # rs, if ms = [] then lsn else mx, st'))"

definition batch_members :: "gc_state \<Rightarrow> nat list \<Rightarrow> (nat \<times> nat \<times> nat) list" where
  "batch_members g batch = map (\<lambda>i. (i, gc_owner g i, length (gc_records g i))) batch"

definition batch_records :: "gc_state \<Rightarrow> nat list \<Rightarrow> wal_record list" where
  "batch_records g batch = concat (map (gc_records g) batch)"

definition publish_batch :: "'x vector_ops \<Rightarrow> nat \<Rightarrow> (nat \<times> nat \<times> nat) list \<Rightarrow> ('x, 'q) store \<Rightarrow>
    (nat \<times> nat) list \<times> ('x, 'q) store" where
  "publish_batch vo lst members st =
     (let total = sum_list (map (\<lambda>(_, _, n). n) members); first = lst - total + 1;
          (results, mx, st1) = publish_loop vo first 0 members st
      in (results, if mx > s_committed_lsn st1 then st1\<lparr>s_committed_lsn := mx\<rparr> else st1))"

definition discard_batch :: "'x vector_ops \<Rightarrow> (nat \<times> nat \<times> nat) list \<Rightarrow> ('x, 'q) store \<Rightarrow> ('x, 'q) store" where
  "discard_batch vo members st = foldl (\<lambda>st (_, owner, _). rollback_owner vo owner st) st members"

text \<open>The part of a database the coordinator works on.\<close>

record ('s, 'x, 'q) db =
  d_storage :: 's
  d_store :: "('x, 'q) store"
  d_gc :: gc_state

definition flush_append :: "'s storage \<Rightarrow> fence_token \<Rightarrow> nat list \<Rightarrow> ('s, 'x, 'q) db \<Rightarrow> nat sres \<times> ('s, 'x, 'q) db" where
  "flush_append ops tok batch d =
     (let (r, s1) = st_append_wal ops (d_storage d) tok (batch_records (d_gc d) batch)
      in (r, d\<lparr>d_storage := s1, d_gc := (d_gc d)\<lparr>g_batches := g_batches (d_gc d) + 1\<rparr>\<rparr>))"

definition flush_publish :: "'x vector_ops \<Rightarrow> nat list \<Rightarrow> nat sres \<Rightarrow> ('s, 'x, 'q) db \<Rightarrow> ('s, 'x, 'q) db" where
  "flush_publish vo batch r d =
     (let members = batch_members (d_gc d) batch in
      case r of
        Inr lst \<Rightarrow>
          (let (results, st1) = publish_batch vo lst members (d_store d);
               g1 = (d_gc d)\<lparr>g_commits := g_commits (d_gc d) + length members\<rparr>
           in d\<lparr>d_store := st1, d_gc := gc_resolve (map (\<lambda>(i, l). (i, Inr l)) results) g1\<rparr>)
      | Inl e \<Rightarrow>
          d\<lparr>d_store := discard_batch vo members (d_store d),
            d_gc := gc_resolve (map (\<lambda>(i, _, _). (i, Inl (commit_error e))) members) (d_gc d)\<rparr>)"

definition flush_batch :: "'s storage \<Rightarrow> 'x vector_ops \<Rightarrow> fence_token \<Rightarrow> nat list \<Rightarrow> ('s, 'x, 'q) db \<Rightarrow> ('s, 'x, 'q) db" where
  "flush_batch ops vo tok batch d = (let (r, d1) = flush_append ops tok batch d in flush_publish vo batch r d1)"

lemma drain_loop_queue: "fst (drain_loop len b n q) @ snd (drain_loop len b n q) = b @ q"
  by (induction len b n q rule: drain_loop.induct) auto

lemma drain_loop_prefix: "\<exists>xs. fst (drain_loop len b n q) = b @ xs"
  by (induction len b n q rule: drain_loop.induct) auto

lemma drain_loop_progress: "q \<noteq> [] \<Longrightarrow> length (snd (drain_loop len [] n q)) < length q"
proof (cases q)
  case (Cons i q')
  have "\<exists>xs. fst (drain_loop len [i] (n + len i) q') = [i] @ xs" by (rule drain_loop_prefix)
  with drain_loop_queue [of len "[i]" "n + len i" q'] have "length (snd (drain_loop len [i] (n + len i) q')) \<le> length q'"
    by (metis append_eq_append_conv_if drop_append length_append le_add2 append_Cons append_Nil list.size(4) add_left_cancel list.inject)
  with Cons show ?thesis by simp
qed simp

text \<open>The leader's loop without arrivals, until the queue is empty.\<close>

function lead :: "'s storage \<Rightarrow> 'x vector_ops \<Rightarrow> fence_token \<Rightarrow> ('s, 'x, 'q) db \<Rightarrow> ('s, 'x, 'q) db" where
  "lead ops vo tok d =
     (let (batch, g1) = drain_batch (d_gc d); d1 = d\<lparr>d_gc := g1\<rparr>;
          d2 = (if batch = [] then d1 else flush_batch ops vo tok batch d1)
      in if g_queue (d_gc d2) = [] then d2\<lparr>d_gc := (d_gc d2)\<lparr>g_leader_active := False\<rparr>\<rparr> else lead ops vo tok d2)"
  by pat_completeness auto

lemma flush_queue [simp]: "g_queue (d_gc (flush_batch ops vo tok batch d)) = g_queue (d_gc d)"
  by (simp add: flush_batch_def flush_append_def flush_publish_def gc_resolve_def Let_def split: prod.splits sum.splits)

termination lead
proof (relation "measure (\<lambda>(ops, vo, tok, d). length (g_queue (d_gc d)))")
  show "wf (measure (\<lambda>(ops, vo, tok, d). length (g_queue (d_gc d))))" by simp
next
  fix ops :: "'s storage" and vo :: "'x vector_ops" and tok and d :: "('s, 'x, 'q) db" and x batch g1 d1 d2
  assume x: "x = drain_batch (d_gc d)" "(batch, g1) = x" "d1 = d\<lparr>d_gc := g1\<rparr>"
    "d2 = (if batch = [] then d1 else flush_batch ops vo tok batch d1)" "g_queue (d_gc d2) \<noteq> []"
  let ?l = "\<lambda>i. length (gc_records (d_gc d) i)"
  have g1: "g_queue g1 = snd (drain_loop ?l [] 0 (g_queue (d_gc d)))" "batch = fst (drain_loop ?l [] 0 (g_queue (d_gc d)))"
    using x(1,2) by (auto simp: drain_batch_def Let_def split: prod.splits)
  have "g_queue (d_gc d2) = g_queue g1" using x by simp
  moreover have "g_queue (d_gc d) \<noteq> []" using g1 x(5) calculation by auto
  ultimately show "((ops, vo, tok, d2), ops, vo, tok, d) \<in> measure (\<lambda>(ops, vo, tok, d). length (g_queue (d_gc d)))"
    using drain_loop_progress [of "g_queue (d_gc d)" ?l 0] g1(1) by simp
qed

declare lead.simps [simp del]

section \<open>The leader serves everybody\<close>

definition member_done :: "gc_state \<Rightarrow> nat \<Rightarrow> bool" where
  "member_done g i \<longleftrightarrow> (case hm_get (g_members g) i of None \<Rightarrow> False | Some m \<Rightarrow> m_done m \<and> m_result m \<noteq> None)"

lemma gc_resolve_done:
  assumes "i \<in> fst ` set results \<and> hm_get (g_members g) i \<noteq> None \<or> member_done g i"
  shows "member_done (gc_resolve results g) i"
proof -
  let ?f = "\<lambda>ms (i, r). case hm_get ms i of Some m \<Rightarrow> hm_insert i (m\<lparr>m_result := Some r, m_done := True\<rparr>) ms | None \<Rightarrow> ms"
  let ?done = "\<lambda>ms. \<exists>m. hm_get ms i = Some m \<and> m_done m \<and> m_result m \<noteq> None"
  have "i \<in> fst ` set results \<and> hm_get ms i \<noteq> None \<or> ?done ms \<Longrightarrow> ?done (foldl ?f ms results)" for ms :: "(nat \<times> member) list"
  proof (induction results arbitrary: ms)
    case (Cons x results)
    have "i \<in> fst ` set results \<and> hm_get (?f ms x) i \<noteq> None \<or> ?done (?f ms x)"
      using Cons.prems by (cases x) (auto split: option.splits)
    from Cons.IH [OF this] show ?case by simp
  qed simp
  with assms show ?thesis by (fastforce simp: gc_resolve_def member_done_def split: option.splits)
qed

lemma gc_resolve_registered: "hm_get (g_members g) i \<noteq> None \<Longrightarrow> hm_get (g_members (gc_resolve results g)) i \<noteq> None"
proof -
  have "hm_get ms i \<noteq> None \<Longrightarrow> hm_get (foldl (\<lambda>ms (i, r). case hm_get ms i of Some m \<Rightarrow> hm_insert i (m\<lparr>m_result := Some r, m_done := True\<rparr>) ms | None \<Rightarrow> ms) ms results) i \<noteq> None" for ms
    by (induction results arbitrary: ms) (auto split: option.splits)
  then show "hm_get (g_members g) i \<noteq> None \<Longrightarrow> ?thesis" by (simp add: gc_resolve_def)
qed

lemma publish_loop_ids: "map fst (fst (publish_loop vo first acc ms st)) = map fst ms"
  by (induction vo first acc ms st rule: publish_loop.induct) (auto simp: Let_def split: prod.splits)

lemma publish_batch_ids: "map fst (fst (publish_batch vo lst ms st)) = map fst ms"
  using publish_loop_ids [of vo "lst - sum_list (map (\<lambda>(_, _, n). n) ms) + 1" 0 ms st]
  by (auto simp: publish_batch_def Let_def split: prod.splits)

text \<open>A flush resolves the members of its batch, whether the append succeeded or not.\<close>

lemma flush_resolves:
  obtains results g' where "d_gc (flush_batch ops vo tok b d) = gc_resolve results g'" and "map fst results = b"
    and "g_members g' = g_members (d_gc d)"
proof -
  obtain r s1 where a: "st_append_wal ops (d_storage d) tok (batch_records (d_gc d) b) = (r, s1)" by fastforce
  define d1 where "d1 = d\<lparr>d_storage := s1, d_gc := (d_gc d)\<lparr>g_batches := g_batches (d_gc d) + 1\<rparr>\<rparr>"
  have fb: "flush_batch ops vo tok b d = flush_publish vo b r d1"
    by (simp add: flush_batch_def flush_append_def a d1_def Let_def)
  have ids: "map fst (batch_members (d_gc d1) b) = b" by (simp add: batch_members_def comp_def)
  show ?thesis
  proof (cases r)
    case (Inl e)
    show ?thesis
      by (rule that [of "map (\<lambda>(i, _, _). (i, Inl (commit_error e))) (batch_members (d_gc d1) b)" "d_gc d1"])
        (simp_all add: fb Inl flush_publish_def Let_def comp_def split_beta ids [unfolded comp_def], simp_all add: d1_def batch_members_def comp_def)
  next
    case (Inr lst)
    obtain res st1 where p: "publish_batch vo lst (batch_members (d_gc d1) b) (d_store d1) = (res, st1)" by fastforce
    have "map fst res = b" using publish_batch_ids [of vo lst "batch_members (d_gc d1) b" "d_store d1"] p ids by simp
    then show ?thesis
      by (intro that [of "map (\<lambda>(i, l). (i, Inr l)) res" "(d_gc d1)\<lparr>g_commits := g_commits (d_gc d1) + length (batch_members (d_gc d1) b)\<rparr>"])
        (simp_all add: fb Inr flush_publish_def Let_def p comp_def split_beta, simp add: d1_def)
  qed
qed

lemma flush_done:
  "member_done (d_gc d) i \<or> i \<in> set b \<and> hm_get (g_members (d_gc d)) i \<noteq> None \<Longrightarrow> member_done (d_gc (flush_batch ops vo tok b d)) i"
  "hm_get (g_members (d_gc d)) i \<noteq> None \<Longrightarrow> hm_get (g_members (d_gc (flush_batch ops vo tok b d))) i \<noteq> None"
proof -
  obtain results g' where g: "d_gc (flush_batch ops vo tok b d) = gc_resolve results g'" "map fst results = b" "g_members g' = g_members (d_gc d)"
    by (rule flush_resolves)
  have "set b = fst ` set results" by (simp add: g(2) [symmetric])
  with g(1,3) gc_resolve_done [of i results g'] gc_resolve_registered [of g' i results]
  show "member_done (d_gc d) i \<or> i \<in> set b \<and> hm_get (g_members (d_gc d)) i \<noteq> None \<Longrightarrow> member_done (d_gc (flush_batch ops vo tok b d)) i"
    "hm_get (g_members (d_gc d)) i \<noteq> None \<Longrightarrow> hm_get (g_members (d_gc (flush_batch ops vo tok b d))) i \<noteq> None"
    by (auto simp: member_done_def)
qed

lemma lead_serves:
  assumes "\<forall>i\<in>set (g_queue (d_gc d)). hm_get (g_members (d_gc d)) i \<noteq> None"
  shows "g_queue (d_gc (lead ops vo tok d)) = [] \<and> \<not> g_leader_active (d_gc (lead ops vo tok d)) \<and>
    (\<forall>i. i \<in> set (g_queue (d_gc d)) \<or> member_done (d_gc d) i \<longrightarrow> member_done (d_gc (lead ops vo tok d)) i)"
  using assms
proof (induction ops vo tok d rule: lead.induct)
  case (1 ops vo tok d)
  obtain b g1 where b: "drain_batch (d_gc d) = (b, g1)" by fastforce
  have q: "b @ g_queue g1 = g_queue (d_gc d)" "g_members g1 = g_members (d_gc d)"
    using b drain_loop_queue [of "\<lambda>i. length (gc_records (d_gc d) i)" "[]" 0 "g_queue (d_gc d)"]
    by (auto simp: drain_batch_def Let_def split: prod.splits)
  let ?d1 = "d\<lparr>d_gc := g1\<rparr>"
  define d2 where "d2 = (if b = [] then ?d1 else flush_batch ops vo tok b ?d1)"
  have d2: "g_queue (d_gc d2) = g_queue g1" by (simp add: d2_def)
  have dn: "member_done (d_gc d2) i" if "member_done (d_gc d) i \<or> i \<in> set b" for i
  proof -
    have "i \<in> set b \<Longrightarrow> hm_get (g_members (d_gc ?d1)) i \<noteq> None" using 1(2) unfolding q(1) [symmetric] by (simp add: q(2))
    with that q(2) flush_done(1) [of ?d1 i b ops vo tok] show ?thesis by (auto simp: d2_def member_done_def)
  qed
  have reg: "\<forall>i\<in>set (g_queue (d_gc d2)). hm_get (g_members (d_gc d2)) i \<noteq> None"
  proof
    fix i assume "i \<in> set (g_queue (d_gc d2))"
    then have "hm_get (g_members (d_gc ?d1)) i \<noteq> None" using 1(2) d2 unfolding q(1) [symmetric] by (simp add: q(2))
    from flush_done(2) [OF this] this show "hm_get (g_members (d_gc d2)) i \<noteq> None" by (simp add: d2_def)
  qed
  have lead: "lead ops vo tok d = (if g_queue (d_gc d2) = [] then d2\<lparr>d_gc := (d_gc d2)\<lparr>g_leader_active := False\<rparr>\<rparr> else lead ops vo tok d2)"
    by (subst lead.simps) (simp add: b d2_def Let_def)
  show ?case
  proof (cases "g_queue (d_gc d2) = []")
    case True
    with lead dn d2 q(1) show ?thesis by (auto simp: member_done_def)
  next
    case False
    from 1(1) [OF b [symmetric] refl refl d2_def False reg] False lead dn d2 show ?thesis
      unfolding q(1) [symmetric] by auto
  qed
qed

text \<open>C17. The leader's loop ends and serves everybody: it terminates on every state, leaves the queue
  empty and no leader registered, and every member that was queued has its result, whether
  the appends succeeded or failed.\<close>

theorem lead_resolves_all:
  assumes "\<forall>i\<in>set (g_queue (d_gc d)). hm_get (g_members (d_gc d)) i \<noteq> None"
  shows "g_queue (d_gc (lead ops vo tok d)) = [] \<and> \<not> g_leader_active (d_gc (lead ops vo tok d)) \<and>
    (\<forall>i\<in>set (g_queue (d_gc d)). member_done (d_gc (lead ops vo tok d)) i)"
  using lead_serves [OF assms] by blast

theorem lead_resolves_all_witness:
  "\<forall>ops vo tok s st. member_done (d_gc (lead ops vo tok \<lparr>d_storage = s, d_store = st,
     d_gc = snd (gc_enqueue 7 [[1], [2]] (snd (gc_enqueue 5 [[3]] gc_new)))\<rparr>)) 2"
proof (intro allI)
  fix ops vo tok s st
  show "member_done (d_gc (lead ops vo tok \<lparr>d_storage = s, d_store = st,
      d_gc = snd (gc_enqueue 7 [[1], [2]] (snd (gc_enqueue 5 [[3]] gc_new)))\<rparr>)) 2"
    by (rule lead_resolves_all [THEN conjunct2, THEN conjunct2, rule_format]) (auto simp: gc_enqueue_def gc_new_def)
qed

lemma drain_loop_bound:
  assumes "sum_list (map len b) = n" and "length b \<le> 1 \<or> n \<le> MAX_BATCH_RECORDS"
  shows "(length (fst (drain_loop len b n q)) \<le> 1 \<or> sum_list (map len (fst (drain_loop len b n q))) \<le> MAX_BATCH_RECORDS) \<and>
    (snd (drain_loop len b n q) \<noteq> [] \<longrightarrow>
       MAX_BATCH_RECORDS < sum_list (map len (fst (drain_loop len b n q) @ [hd (snd (drain_loop len b n q))])))"
  using assms by (induction len b n q rule: drain_loop.induct) auto

lemma length_batch_records: "length (batch_records g b) = sum_list (map (\<lambda>i. length (gc_records g i)) b)"
  by (simp add: batch_records_def length_concat comp_def)

text \<open>A batch is the longest prefix of the queue, in arrival order, that keeps to the record bound; a
  transaction that exceeds the bound alone is a batch of its own, so the queue always moves.\<close>

theorem drain_batch_bounded:
  assumes "drain_batch g = (batch, g')"
  shows "batch @ g_queue g' = g_queue g \<and> (g_queue g \<noteq> [] \<longrightarrow> batch \<noteq> []) \<and>
    (length batch \<le> 1 \<or> length (batch_records g batch) \<le> MAX_BATCH_RECORDS) \<and>
    (g_queue g' \<noteq> [] \<longrightarrow> MAX_BATCH_RECORDS < length (batch_records g (batch @ [hd (g_queue g')])))"
proof -
  let ?l = "\<lambda>i. length (gc_records g i)"
  have b: "batch = fst (drain_loop ?l [] 0 (g_queue g))" "g_queue g' = snd (drain_loop ?l [] 0 (g_queue g))"
    using assms by (auto simp: drain_batch_def Let_def split: prod.splits)
  have "batch @ g_queue g' = g_queue g" unfolding b by (simp add: drain_loop_queue)
  moreover from this have "g_queue g \<noteq> [] \<longrightarrow> batch \<noteq> []"
    using drain_loop_progress [of "g_queue g" ?l 0] b(2) by auto
  ultimately show ?thesis
    using drain_loop_bound [of ?l "[]" 0 "g_queue g"] unfolding length_batch_records b by simp
qed

theorem drain_batch_bounded_witness:
  "\<exists>batch g'. drain_batch (snd (gc_enqueue 7 (replicate 1024 []) (snd (gc_enqueue 5 [[3]] gc_new)))) = (batch, g') \<and>
     batch @ g_queue g' = [1, 2] \<and> batch \<noteq> []"
proof -
  let ?g = "snd (gc_enqueue 7 (replicate 1024 []) (snd (gc_enqueue 5 [[3]] gc_new)))"
  have "g_queue ?g = [1, 2]" by (simp add: gc_enqueue_def gc_new_def)
  moreover obtain batch g' where "drain_batch ?g = (batch, g')" by fastforce
  ultimately show ?thesis using drain_batch_bounded [of ?g batch g'] by auto
qed

end
