(* ===== verification/Recovery.thy ===== *)
theory Recovery
  imports Pending_Rows Group_Commit Local_Contract Object_Contract
begin

text \<open>
  The engine's commit path as a system of interleaved critical sections, and crash recovery:
  connections write under the lane, queue their records, one of them leads group commit over
  the storage seam, and a schema change runs alone.  Whatever the interleaving, a replay of
  the durable log rebuilds the committed part of the live tables.
\<close>

section \<open>The system\<close>

text \<open>Where the leading connection is between its critical sections.\<close>

datatype phase = NoLeader | Drain | Flush "nat list" | Resolve "nat list" nat | Check

text \<open>\<open>y_lane\<close> is the transaction that holds the write lane: its writer id and buffered log.\<close>

record ('s, 'x, 'q) sys =
  y_db :: "('s, 'x, 'q) db"
  y_phase :: phase
  y_lane :: "(nat \<times> wal_op list) option"
  y_next_owner :: nat

text \<open>\<^verbatim>\<open>finish_commit\<close> encodes the buffered operations and adds the marker.\<close>

definition txn_records :: "wal_op list \<Rightarrow> wal_record list" where
  "txn_records wal = map encode_op wal @ [encode_op Commit]"

text \<open>The store change of \<^verbatim>\<open>do_ddl\<close> once its record is durable: what replay of the operation does,
  except that \<^verbatim>\<open>CREATE INDEX\<close> builds the index from the rows while replay registers it only and
  leaves the graph to the rebuild after recovery.\<close>

definition ddl_live :: "'q sql_env \<Rightarrow> 'x vector_ops \<Rightarrow> nat \<Rightarrow> wal_op \<Rightarrow> ('x, 'q) store \<Rightarrow> ('x, 'q) store" where
  "ddl_live env vo lsn op st =
     (let st1 = (case op of CreateIndex d \<Rightarrow> create_index vo d st | _ \<Rightarrow> apply_replay env vo lsn op st)
      in st1\<lparr>s_committed_lsn := max (s_committed_lsn st1) lsn\<rparr>)"

text \<open>The steps are the critical sections.  A row write (\<open>sys_write\<close>) puts the row in the store and
  its operation in the transaction's log, as \<^verbatim>\<open>INSERT\<close>, \<^verbatim>\<open>UPDATE\<close> and \<^verbatim>\<open>DELETE\<close> do.  A statement that fails
  half way keeps its rows and drops its operations; a transaction with such a statement is in
  the system as long as it is rolled back, since a rollback drops both.  Not in the system are:
  a \<^verbatim>\<open>COMMIT\<close> after such a statement, which publishes rows the log does not have, a \<^verbatim>\<open>REPLACE\<close> or
  \<^verbatim>\<open>DO UPDATE\<close> of a row that another writer is deleting, which skips the conflict check of
  \<open>exec_write\<close>, and \<^verbatim>\<open>ROLLBACK TO\<close>.  A failed append discards the batch (\<open>sys_fail\<close>), a schema
  change whose append fails changes nothing (\<open>sys_ddl_fail\<close>); both when the append left the
  durable medium untouched: about one that fails after it wrote the seam promises nothing.\<close>

inductive sys_step :: "'s storage \<Rightarrow> ('s \<Rightarrow> wal_record list \<Rightarrow> bool) \<Rightarrow> ('s \<Rightarrow> 's \<Rightarrow> bool) \<Rightarrow> 'q sql_env \<Rightarrow> 'x vector_ops \<Rightarrow> fence_token \<Rightarrow>
    ('s, 'x, 'q) sys \<Rightarrow> ('s, 'x, 'q) sys \<Rightarrow> bool" for ops fits untouched env vo tok where
  sys_acquire: "y_lane y = None \<Longrightarrow>
    sys_step ops fits untouched env vo tok y (y\<lparr>y_lane := Some (y_next_owner y, []), y_next_owner := y_next_owner y + 1\<rparr>)"
| sys_write: "y_lane y = Some (me, wal) \<Longrightarrow> s < PENDING \<Longrightarrow>
    exec_write s me w (d_store (y_db y), wal) = Some (st', wal') \<Longrightarrow>
    sys_step ops fits untouched env vo tok y (y\<lparr>y_db := (y_db y)\<lparr>d_store := st'\<rparr>, y_lane := Some (me, wal')\<rparr>)"
| sys_index: "sys_step ops fits untouched env vo tok y
    (y\<lparr>y_db := (y_db y)\<lparr>d_store := index_row_inserted vo t v vals (d_store (y_db y))\<rparr>\<rparr>)"
| sys_abort: "y_lane y = Some (me, wal) \<Longrightarrow>
    sys_step ops fits untouched env vo tok y (y\<lparr>y_db := (y_db y)\<lparr>d_store := rollback_owner vo me (d_store (y_db y))\<rparr>, y_lane := None\<rparr>)"
| sys_commit: "y_lane y = Some (me, wal) \<Longrightarrow> wal \<noteq> [] \<Longrightarrow> list_all op_ok wal \<Longrightarrow>
    gc_enqueue me (txn_records wal) (d_gc (y_db y)) = ((i, am_leader), g) \<Longrightarrow>
    sys_step ops fits untouched env vo tok y (y\<lparr>y_db := (y_db y)\<lparr>d_gc := g\<rparr>, y_lane := None,
      y_phase := if am_leader then Drain else y_phase y\<rparr>)"
| sys_commit_empty: "y_lane y = Some (me, []) \<Longrightarrow> sys_step ops fits untouched env vo tok y (y\<lparr>y_lane := None\<rparr>)"
| sys_drain: "y_phase y = Drain \<Longrightarrow> drain_batch (d_gc (y_db y)) = (batch, g) \<Longrightarrow>
    sys_step ops fits untouched env vo tok y (y\<lparr>y_db := (y_db y)\<lparr>d_gc := g\<rparr>, y_phase := if batch = [] then Check else Flush batch\<rparr>)"
| sys_append: "y_phase y = Flush batch \<Longrightarrow> fits (d_storage (y_db y)) (batch_records (d_gc (y_db y)) batch) \<Longrightarrow>
    flush_append ops tok batch (y_db y) = (Inr lst, d) \<Longrightarrow> lst < PENDING \<Longrightarrow>
    sys_step ops fits untouched env vo tok y (y\<lparr>y_db := d, y_phase := Resolve batch lst\<rparr>)"
| sys_fail: "y_phase y = Flush batch \<Longrightarrow> flush_append ops tok batch (y_db y) = (Inl e, d) \<Longrightarrow>
    untouched (d_storage (y_db y)) (d_storage d) \<Longrightarrow>
    sys_step ops fits untouched env vo tok y (y\<lparr>y_db := flush_publish vo batch (Inl e) d, y_phase := Check\<rparr>)"
| sys_publish: "y_phase y = Resolve batch lst \<Longrightarrow>
    sys_step ops fits untouched env vo tok y (y\<lparr>y_db := flush_publish vo batch (Inr lst) (y_db y), y_phase := Check\<rparr>)"
| sys_check: "y_phase y = Check \<Longrightarrow>
    sys_step ops fits untouched env vo tok y (if g_queue (d_gc (y_db y)) = []
      then y\<lparr>y_db := (y_db y)\<lparr>d_gc := (d_gc (y_db y))\<lparr>g_leader_active := False\<rparr>\<rparr>, y_phase := NoLeader\<rparr>
      else y\<lparr>y_phase := Drain\<rparr>)"
| sys_reclaim: "gc_reclaim i (d_gc (y_db y)) = (Some r, g) \<Longrightarrow>
    sys_step ops fits untouched env vo tok y (y\<lparr>y_db := (y_db y)\<lparr>d_gc := g\<rparr>\<rparr>)"
| sys_ddl: "y_lane y = None \<Longrightarrow> \<not> g_leader_active (d_gc (y_db y)) \<Longrightarrow> g_queue (d_gc (y_db y)) = [] \<Longrightarrow>
    \<not> is_dml op \<Longrightarrow> op \<noteq> Commit \<Longrightarrow> op_ok op \<Longrightarrow> fits (d_storage (y_db y)) (txn_records [op]) \<Longrightarrow>
    st_append_wal ops (d_storage (y_db y)) tok (txn_records [op]) = (Inr lst, s') \<Longrightarrow> lst < PENDING \<Longrightarrow>
    sys_step ops fits untouched env vo tok y (y\<lparr>y_db := (y_db y)\<lparr>d_storage := s', d_store := ddl_live env vo lst op (d_store (y_db y))\<rparr>\<rparr>)"
| sys_ddl_fail: "y_lane y = None \<Longrightarrow> \<not> g_leader_active (d_gc (y_db y)) \<Longrightarrow> g_queue (d_gc (y_db y)) = [] \<Longrightarrow>
    st_append_wal ops (d_storage (y_db y)) tok (txn_records [op]) = (Inl e, s') \<Longrightarrow> untouched (d_storage (y_db y)) s' \<Longrightarrow>
    sys_step ops fits untouched env vo tok y (y\<lparr>y_db := (y_db y)\<lparr>d_storage := s'\<rparr>\<rparr>)"

text \<open>A freshly opened database over an empty log.\<close>

definition sys_open :: "'s \<Rightarrow> ('s, 'x, 'q) sys" where
  "sys_open s = \<lparr>y_db = \<lparr>d_storage = s, d_store = store_default, d_gc = gc_new\<rparr>, y_phase = NoLeader,
     y_lane = None, y_next_owner = 1\<rparr>"

section \<open>Replay of one transaction\<close>

lemma decode_encode_op: "op_ok op \<Longrightarrow> decode_op (encode_op op) = Inr op"
  using op_codec.dec_enc [of op "[]"] by (simp add: decode_op_def)

lemma replay_loop_txn:
  assumes "list_all op_ok wal" and "Commit \<notin> set wal"
  shows "replay_loop env vo (number_records n (txn_records wal) @ es) grp st =
    replay_loop env vo es [] (replay_group env vo (n + length wal) (grp @ wal) st)"
  using assms
proof (induction wal arbitrary: n grp)
  case Nil
  then show ?case
    using decode_encode_op [of Commit] by (simp add: txn_records_def number_records_Cons)
next
  case (Cons op wal)
  have "number_records n (txn_records (op # wal)) = \<lparr>le_lsn = n, le_record = encode_op op\<rparr> # number_records (Suc n) (txn_records wal)"
    by (simp add: txn_records_def number_records_Cons)
  with Cons decode_encode_op [of op] show ?case by auto
qed

lemma dml_no_Commit: "list_all is_dml wal \<Longrightarrow> Commit \<notin> set wal"
  by (auto simp: list_all_iff)

text \<open>The operations a member's records stand for.\<close>

definition ops_of :: "wal_record list \<Rightarrow> wal_op list" where
  "ops_of rs = List.map_filter (\<lambda>b. case decode_op b of Inr op \<Rightarrow> Some op | Inl e \<Rightarrow> None) (butlast rs)"

lemma ops_of_txn: "list_all op_ok wal \<Longrightarrow> ops_of (txn_records wal) = wal"
proof -
  assume "list_all op_ok wal"
  then have "List.map_filter (\<lambda>b. case decode_op b of Inr op \<Rightarrow> Some op | Inl e \<Rightarrow> None) (map encode_op wal) = wal"
    by (induction wal) (simp_all add: List.map_filter_simps decode_encode_op)
  then show ?thesis by (simp add: ops_of_def txn_records_def)
qed

lemma length_txn_records [simp]: "length (txn_records wal) = Suc (length wal)"
  by (simp add: txn_records_def)

section \<open>Schemas\<close>

definition smap_of :: "('x, 'q) store \<Rightarrow> string \<Rightarrow> table_schema option" where
  "smap_of st k = map_option t_schema (hm_get (s_tables st) k)"

lemma tview_eq_iff: "tview st = tview st' \<longleftrightarrow> smap_of st = smap_of st' \<and> rmap_of st = rmap_of st'"
proof
  assume "tview st = tview st'"
  moreover have "smap_of st k = map_option fst (tview st k)" "smap_of st' k = map_option fst (tview st' k)" for k
    by (simp_all add: smap_of_def tview_def option.map_comp comp_def)
  ultimately show "smap_of st = smap_of st' \<and> rmap_of st = rmap_of st'"
    by (simp add: fun_eq_iff rmap_of_tview)
next
  assume eq: "smap_of st = smap_of st' \<and> rmap_of st = rmap_of st'"
  show "tview st = tview st'"
  proof
    fix k
    from eq have "smap_of st k = smap_of st' k" "rmap_of st k = rmap_of st' k" by simp_all
    then show "tview st k = tview st' k"
      by (cases "hm_get (s_tables st) k"; cases "hm_get (s_tables st') k") (simp_all add: smap_of_def rmap_of_def tview_def)
  qed
qed

lemma smap_table_mut: "(\<And>t. t_schema (f t) = t_schema t) \<Longrightarrow> smap_of (table_mut n f st) = smap_of st"
  by (auto simp: smap_of_def table_mut_def get_table_def fun_eq_iff split: option.splits)

lemma smap_map_rows: "s_tables st' = s_tables (map_rows f st) \<Longrightarrow> smap_of st' = smap_of st"
  by (auto simp: smap_of_def map_rows_def map_of_map_vals fun_eq_iff option.map_comp comp_def)

lemma smap_finalize [simp]: "smap_of (finalize_owner vo w lsn st) = smap_of st"
  by (rule smap_map_rows [OF finalize_owner_tables])

lemma smap_rollback [simp]: "smap_of (rollback_owner vo w st) = smap_of st"
  by (rule smap_map_rows [OF rollback_owner_keeps(1)])

lemma committed_update_views [simp]: "rmap_of (st\<lparr>s_committed_lsn := c\<rparr>) = rmap_of st"
  "smap_of (st\<lparr>s_committed_lsn := c\<rparr>) = smap_of st" "tview (st\<lparr>s_committed_lsn := c\<rparr>) = tview st"
  by (simp_all add: rmap_of_def smap_of_def tview_def fun_eq_iff)

lemma smap_apply_dml: "is_dml op \<Longrightarrow> smap_of (apply_replay env vo lsn op st) = smap_of st"
  by (cases op) (auto simp: replay_insert_def replay_delete_def version_mut_def intro!: smap_table_mut)

lemma smap_replay_group: "list_all is_dml wal \<Longrightarrow> smap_of (replay_group env vo lsn wal st) = smap_of st"
proof -
  assume "list_all is_dml wal"
  then have "smap_of (foldl (\<lambda>st op. apply_replay env vo lsn op st) st wal) = smap_of st"
    by (induction wal arbitrary: st) (auto simp: smap_apply_dml)
  then show ?thesis by (simp add: replay_group_def Let_def)
qed

lemma apply_dml_committed: "is_dml op \<Longrightarrow> s_committed_lsn (apply_replay env vo lsn op st) = s_committed_lsn st"
  by (cases op) (auto simp: replay_insert_def replay_delete_def)

lemma replay_group_committed:
  "list_all is_dml wal \<Longrightarrow> s_committed_lsn (replay_group env vo lsn wal st) = max (s_committed_lsn st) lsn"
proof -
  assume "list_all is_dml wal"
  then have "s_committed_lsn (foldl (\<lambda>st op. apply_replay env vo lsn op st) st wal) = s_committed_lsn st"
    by (induction wal arbitrary: st) (auto simp: apply_dml_committed)
  then show ?thesis by (simp add: replay_group_def Let_def)
qed

lemma store_ok_cong: "s_tables st = s_tables st' \<Longrightarrow> s_committed_lsn st = s_committed_lsn st' \<Longrightarrow> store_ok st = store_ok st'"
  by (simp add: store_ok_def)

lemma store_ok_finalize:
  assumes "store_ok (st\<lparr>s_committed_lsn := c\<rparr>)" and "c < lsn" and "lsn < PENDING" and "w \<noteq> 0"
  shows "store_ok ((finalize_owner vo w lsn st)\<lparr>s_committed_lsn := lsn\<rparr>)"
proof -
  have "store_ok ((finalize_owner vo w lsn (st\<lparr>s_committed_lsn := c\<rparr>))\<lparr>s_committed_lsn := lsn\<rparr>)"
    using assms by (intro mvcc_step_ok [OF step_commit assms(1)]) simp_all
  then show ?thesis
    by (subst store_ok_cong) (simp_all add: finalize_owner_tables map_rows_def)
qed

section \<open>Publishing a batch is replaying it\<close>

text \<open>Two stores agree when the live one is the replayed one with the in-flight transactions
  stamped on top.\<close>

definition agree :: "(nat \<times> wal_op list) list \<Rightarrow> ('x, 'q) store \<Rightarrow> ('x, 'q) store \<Rightarrow> bool" where
  "agree F st rst \<longleftrightarrow> rmap_of st = pend F (rmap_of rst) \<and> legal F (rmap_of rst) \<and> settled (rmap_of rst) \<and> smap_of st = smap_of rst"

definition replays :: "'q sql_env \<Rightarrow> 'x vector_ops \<Rightarrow> log_entry list \<Rightarrow> ('x, 'q) store \<Rightarrow> ('x, 'q) store \<Rightarrow> bool" where
  "replays env vo H st st' \<longleftrightarrow> (\<forall>es. replay_loop env vo (H @ es) [] st = replay_loop env vo es [] st')"

lemma replays_trans: "replays env vo H st st1 \<Longrightarrow> replays env vo H' st1 st2 \<Longrightarrow> replays env vo (H @ H') st st2"
  by (simp add: replays_def)

lemma replays_txn:
  assumes "list_all op_ok wal" and "list_all is_dml wal"
  shows "replays env vo (number_records n (txn_records wal)) st (replay_group env vo (n + length wal) wal st)"
  by (simp add: replays_def replay_loop_txn [OF assms(1) dml_no_Commit [OF assms(2)]])

lemma publish_one:
  assumes "agree ((w, wal) # F) st rst" and "w \<notin> fst ` set F" and "w \<noteq> 0" and "list_all is_dml wal" and "lsn \<noteq> PENDING"
  shows "agree F (finalize_owner vo w lsn st) (replay_group env vo lsn wal rst)"
proof -
  note a = assms(1) [unfolded agree_def]
  have own: "owners_in {0} (rmap_of rst)" using a settled_owners by blast
  have r: "rmap_of (replay_group env vo lsn wal rst) = stamp_txn lsn 0 wal (rmap_of rst)"
    using replay_group_stamp [OF assms(4) own] by blast
  have "fin w lsn (pend ((w, wal) # F) (rmap_of rst)) = pend F (stamp_txn lsn 0 wal (rmap_of rst))"
    "legal F (stamp_txn lsn 0 wal (rmap_of rst))"
    using publish_first [OF _ assms(2,3) own] a by blast+
  with a r assms(4,5) show ?thesis
    by (simp add: agree_def rmap_of_finalize smap_replay_group settled_stamp_txn)
qed

lemma publish_loop_replay:
  assumes "publish_loop vo first acc (map (\<lambda>i. (i, own i, Suc (length (wal i)))) b) st = (res, mx, st')"
    and "agree (map (\<lambda>i. (own i, wal i)) b @ F) st rst" and "distinct (map own b)"
    and "own ` set b \<inter> fst ` set F = {}" and "0 \<notin> own ` set b"
    and "\<forall>i\<in>set b. list_all op_ok (wal i) \<and> list_all is_dml (wal i)"
    and "store_ok (st\<lparr>s_committed_lsn := c\<rparr>)" and "c < first + acc" and "s_committed_lsn rst < first + acc"
    and "first + acc + sum_list (map (\<lambda>i. Suc (length (wal i))) b) \<le> PENDING"
  defines "lst \<equiv> first + acc + sum_list (map (\<lambda>i. Suc (length (wal i))) b) - 1"
  shows "\<exists>rst'. replays env vo (number_records (first + acc) (concat (map (\<lambda>i. txn_records (wal i)) b))) rst rst' \<and>
    agree F st' rst' \<and> s_committed_lsn st' = s_committed_lsn st \<and>
    mx = (if b = [] then 0 else lst) \<and> s_committed_lsn rst' = (if b = [] then s_committed_lsn rst else lst) \<and>
    store_ok (st'\<lparr>s_committed_lsn := if b = [] then c else lst\<rparr>) \<and> map fst res = b \<and>
    (\<forall>l\<in>snd ` set res. first + acc \<le> l \<and> l \<le> lst)"
  using assms(1-10) unfolding lst_def
proof (induction b arbitrary: acc st rst c res mx)
  case Nil
  then show ?case by (auto simp: replays_def intro!: exI [of _ rst])
next
  case (Cons i b)
  define lsn where "lsn = first + acc + length (wal i)"
  let ?st = "finalize_owner vo (own i) lsn st" and ?rst = "replay_group env vo lsn (wal i) rst"
  let ?n = "Suc (length (wal i))"
  from Cons.prems(1) obtain res1 mx1 where
    rec: "publish_loop vo first (acc + ?n) (map (\<lambda>i. (i, own i, Suc (length (wal i)))) b) ?st = (res1, mx1, st')"
      and res: "res = (i, lsn) # res1" and mx: "mx = (if b = [] then lsn else mx1)"
    by (auto simp: Let_def lsn_def add.assoc split: prod.splits)
  have i: "own i \<noteq> 0" "list_all op_ok (wal i)" "list_all is_dml (wal i)" "own i \<notin> fst ` set (map (\<lambda>i. (own i, wal i)) b @ F)"
    using Cons.prems(3-6) by (auto simp: image_iff)
  have l: "c < lsn" "lsn < PENDING" using Cons.prems(8,10) by (auto simp: lsn_def)
  have ag: "agree (map (\<lambda>i. (own i, wal i)) b @ F) ?st ?rst"
    using publish_one [OF _ i(4,1,3), where lsn = lsn] Cons.prems(2) l(2) by simp
  have ok: "store_ok (?st\<lparr>s_committed_lsn := lsn\<rparr>)"
    by (rule store_ok_finalize [OF Cons.prems(7) l i(1)])
  have c: "s_committed_lsn ?rst = lsn"
    using replay_group_committed [OF i(3), of env vo lsn rst] Cons.prems(9) by (simp add: lsn_def)
  have "lsn < first + (acc + ?n)" by (simp add: lsn_def)
  with Cons.IH [OF rec ag _ _ _ _ ok] Cons.prems(3-6,10) c obtain rst' where
    r: "replays env vo (number_records (first + (acc + ?n)) (concat (map (\<lambda>i. txn_records (wal i)) b))) ?rst rst'"
      "agree F st' rst'" "s_committed_lsn st' = s_committed_lsn ?st"
      "mx1 = (if b = [] then 0 else first + (acc + ?n) + sum_list (map (\<lambda>i. Suc (length (wal i))) b) - 1)"
      "s_committed_lsn rst' = (if b = [] then s_committed_lsn ?rst else first + (acc + ?n) + sum_list (map (\<lambda>i. Suc (length (wal i))) b) - 1)"
      "store_ok (st'\<lparr>s_committed_lsn := if b = [] then lsn else first + (acc + ?n) + sum_list (map (\<lambda>i. Suc (length (wal i))) b) - 1\<rparr>)"
      "map fst res1 = b"
      "\<forall>l\<in>snd ` set res1. first + (acc + ?n) \<le> l \<and> l \<le> first + (acc + ?n) + sum_list (map (\<lambda>i. Suc (length (wal i))) b) - 1"
    by (auto simp: add.assoc)
  have "replays env vo (number_records (first + acc) (txn_records (wal i))) rst ?rst"
    using replays_txn [OF i(2,3)] by (simp add: lsn_def)
  from replays_trans [OF this r(1)]
  have "replays env vo (number_records (first + acc) (concat (map (\<lambda>i. txn_records (wal i)) (i # b)))) rst rst'"
    by (simp add: number_records_append add.assoc)
  moreover have "first + acc + sum_list (map (\<lambda>i. Suc (length (wal i))) (i # b)) - 1 =
      (if b = [] then lsn else first + (acc + ?n) + sum_list (map (\<lambda>i. Suc (length (wal i))) b) - 1)"
    by (simp add: lsn_def)
  ultimately show ?case
    using r mx res c by (intro exI [of _ rst']) (auto simp: lsn_def)
qed

section \<open>Schema changes\<close>

text \<open>A schema change rewrites the values of a table's rows at most: ids, stamps and the id
  counter stay.\<close>

definition reshapes :: "(table \<Rightarrow> table) \<Rightarrow> bool" where
  "reshapes f \<longleftrightarrow> (\<forall>t. \<exists>g. t_rows (f t) = map g (t_rows t) \<and> t_next_vid (f t) = t_next_vid t \<and>
     (\<forall>r. rv_vid (g r) = rv_vid r \<and> rv_create_lsn (g r) = rv_create_lsn r \<and> rv_delete_lsn (g r) = rv_delete_lsn r \<and>
       rv_owner (g r) = rv_owner r))"

lemma reshapesI:
  assumes "\<And>t. t_rows (f t) = map (g t) (t_rows t) \<and> t_next_vid (f t) = t_next_vid t"
    and "\<And>t r. rv_vid (g t r) = rv_vid r \<and> rv_create_lsn (g t r) = rv_create_lsn r \<and> rv_delete_lsn (g t r) = rv_delete_lsn r \<and>
       rv_owner (g t r) = rv_owner r"
  shows "reshapes f"
  unfolding reshapes_def using assms by blast

lemma table_ok_reshape: "reshapes f \<Longrightarrow> table_ok c t \<Longrightarrow> table_ok c (f t)"
proof -
  assume "reshapes f" and t: "table_ok c t"
  then obtain g where g: "t_rows (f t) = map g (t_rows t)" "t_next_vid (f t) = t_next_vid t"
      "\<And>r. rv_vid (g r) = rv_vid r \<and> rv_create_lsn (g r) = rv_create_lsn r \<and> rv_delete_lsn (g r) = rv_delete_lsn r \<and>
       rv_owner (g r) = rv_owner r"
    unfolding reshapes_def by blast
  then have "rv_vid \<circ> g = rv_vid" by auto
  with g t show ?thesis by (simp add: table_ok_def list_all_iff row_ok_def)
qed

lemma settled_reshape:
  assumes "reshapes f" and "settled (rmap_of st)"
  shows "settled (rmap_of (table_mut n f st))"
  unfolding settled_def
proof (intro allI impI)
  fix k rows r assume *: "rmap_of (table_mut n f st) k = Some rows" "r \<in> set rows"
  show "rv_owner r = 0 \<and> rv_create_lsn r \<noteq> PENDING \<and> rv_delete_lsn r \<noteq> PENDING"
  proof (cases "k = key n")
    case True
    with * obtain t where t: "hm_get (s_tables st) (key n) = Some t" "rows = t_rows (f t)"
      by (auto simp: rmap_of_table_mut)
    from assms(1) obtain g where g: "t_rows (f t) = map g (t_rows t)"
        "\<And>r. rv_create_lsn (g r) = rv_create_lsn r \<and> rv_delete_lsn (g r) = rv_delete_lsn r \<and> rv_owner (g r) = rv_owner r"
      unfolding reshapes_def by blast
    with t * obtain r' where "r' \<in> set (t_rows t)" "r = g r'" by auto
    moreover have "rmap_of st (key n) = Some (t_rows t)" using t(1) by (simp add: rmap_of_def)
    ultimately show ?thesis using assms(2) g(2) by (auto simp: settled_def)
  next
    case False
    with * assms(2) show ?thesis by (auto simp: rmap_of_table_mut settled_def)
  qed
qed

lemma store_ok_reshape: "reshapes f \<Longrightarrow> store_ok st \<Longrightarrow> store_ok (table_mut n f st)"
  by (rule store_ok_table_mut) (simp_all add: table_ok_reshape store_okD)

text \<open>The schema changes that go through \<^verbatim>\<open>table_mut\<close>.\<close>

lemma reshapes_ddl:
  "reshapes (\<lambda>t. t\<lparr>t_schema := (t_schema t)\<lparr>sch_rls_enabled := e\<rparr>\<rparr>)"
  "reshapes (\<lambda>t. t\<lparr>t_schema := (t_schema t)\<lparr>sch_policies := P t\<rparr>\<rparr>)"
  by (rule reshapesI [of _ "\<lambda>t r. r"]; simp)+

lemma reshapes_add_column:
  "reshapes (\<lambda>t. t\<lparr>t_schema := (t_schema t)\<lparr>sch_columns := sch_columns (t_schema t) @ [c]\<rparr>,
     t_rows := map (\<lambda>r. r\<lparr>rv_values := rv_values r @ [fill]\<rparr>) (t_rows t)\<rparr>)"
  by (rule reshapesI [of _ "\<lambda>t r. r\<lparr>rv_values := rv_values r @ [fill]\<rparr>"]) simp_all

lemma reshapes_drop_column:
  "reshapes (\<lambda>t. case column_index (t_schema t) name of None \<Rightarrow> t
     | Some idx \<Rightarrow> t\<lparr>t_schema := (t_schema t)\<lparr>sch_columns := remove_nth idx (sch_columns (t_schema t))\<rparr>,
         t_rows := map (\<lambda>r. if idx < length (rv_values r) then r\<lparr>rv_values := remove_nth idx (rv_values r)\<rparr> else r) (t_rows t)\<rparr>)"
  by (rule reshapesI [of _ "\<lambda>t r. case column_index (t_schema t) name of None \<Rightarrow> r
      | Some idx \<Rightarrow> if idx < length (rv_values r) then r\<lparr>rv_values := remove_nth idx (rv_values r)\<rparr> else r"])
    (auto split: option.splits)

lemma reshapes_rename_column:
  "reshapes (\<lambda>t. case column_index (t_schema t) from of None \<Rightarrow> t
     | Some idx \<Rightarrow> t\<lparr>t_schema := (t_schema t)\<lparr>sch_columns := C t idx\<rparr>\<rparr>)"
  by (rule reshapesI [of _ "\<lambda>t r. r"]) (auto split: option.splits)

lemmas reshapes_all = reshapes_ddl reshapes_add_column reshapes_drop_column reshapes_rename_column

lemma settled_apply_ddl: "\<not> is_dml op \<Longrightarrow> settled (rmap_of st) \<Longrightarrow> settled (rmap_of (apply_replay env vo lsn op st))"
proof (cases op)
  case (CreateTable sch)
  assume "settled (rmap_of st)"
  with CreateTable show ?thesis
    by (simp add: rmap_of_tview [abs_def] tview_insert_table) (auto simp: settled_def split: if_splits)
next
  case (DropTable n)
  assume "settled (rmap_of st)"
  with DropTable show ?thesis
    by (simp add: rmap_of_tview [abs_def] tview_drop_table) (auto simp: settled_def split: if_splits)
next
  case (AlterRenameTable t n)
  assume "settled (rmap_of st)"
  then have s: "settled (\<lambda>k. map_option snd (tview st k))" by (simp add: rmap_of_tview [abs_def])
  show ?thesis
  proof (cases "tview st (key t)")
    case (Some sr)
    with s [unfolded settled_def, rule_format, of "key t" "snd sr"]
    have "\<forall>r\<in>set (snd sr). rv_owner r = 0 \<and> rv_create_lsn r \<noteq> PENDING \<and> rv_delete_lsn r \<noteq> PENDING" by simp
    then have "settled (\<lambda>k. if k = key n then Some (snd sr) else if k = key t then None else map_option snd (tview st k))"
      using s by (auto simp: settled_def split: if_splits)
    then show ?thesis
      using AlterRenameTable Some
      by (cases sr) (simp add: rmap_of_tview [abs_def] tview_rename_table fun_upd_def if_distrib [of "map_option snd"] cong: if_cong)
  qed (use s AlterRenameTable in \<open>simp add: rmap_of_tview [abs_def] tview_rename_table\<close>)
next
  case (CreateView n q)
  assume "settled (rmap_of st)"
  with CreateView show ?thesis by (cases "env_parse_view env q") (simp_all add: rmap_of_tview [abs_def])
qed (auto simp: rmap_of_tview [abs_def] add_policy_def drop_policy_def set_rls_def add_column_def drop_column_def rename_column_def
      intro!: settled_reshape [unfolded rmap_of_tview [abs_def]] reshapes_all)

lemma set_hm_remove_subset: "set (hm_remove k m) \<subseteq> set m"
  by (auto simp: AList.delete_eq)

lemma store_ok_ddl: "\<not> is_dml op \<Longrightarrow> store_ok st \<Longrightarrow> store_ok (apply_replay env vo lsn op st)"
proof (cases op)
  case (CreateTable sch)
  assume "store_ok st"
  moreover have "table_ok (s_committed_lsn st) (table_new sch)" by (simp add: table_ok_def table_new_def)
  ultimately show ?thesis
    using CreateTable set_hm_insert_subset [of "key (sch_name sch)" "table_new sch" "s_tables st"]
    by (auto simp: insert_table_def store_ok_def list_all_iff)
next
  case (DropTable n)
  assume "store_ok st"
  with DropTable show ?thesis
    using set_hm_remove_subset [of "key n" "s_tables st"] by (auto simp: drop_table_def store_ok_def list_all_iff)
next
  case (AlterRenameTable t n)
  assume ok: "store_ok st"
  show ?thesis
  proof (cases "get_table st t")
    case (Some tb)
    let ?tb = "tb\<lparr>t_schema := (t_schema tb)\<lparr>sch_name := n\<rparr>\<rparr>"
    have "table_ok (s_committed_lsn st) ?tb" using store_okD [OF ok Some] by (simp add: table_ok_def)
    moreover have "set (hm_insert (key n) ?tb (hm_remove (key t) (s_tables st))) \<subseteq> insert (key n, ?tb) (set (s_tables st))"
      using set_hm_insert_subset [of "key n" ?tb] set_hm_remove_subset [of "key t" "s_tables st"] by blast
    then have "x = (key n, ?tb) \<or> x \<in> set (s_tables st)" if "x \<in> set (hm_insert (key n) ?tb (hm_remove (key t) (s_tables st)))" for x
      using that by blast
    ultimately show ?thesis
      using ok Some AlterRenameTable by (fastforce simp: rename_table_def store_ok_def list_all_iff)
  qed (use ok AlterRenameTable in \<open>simp add: rename_table_def\<close>)
next
  case (CreateView n q)
  assume "store_ok st"
  with CreateView show ?thesis by (cases "env_parse_view env q") (simp_all add: insert_view_def store_ok_def)
qed (auto simp: add_policy_def drop_policy_def set_rls_def add_column_def drop_column_def rename_column_def
      register_index_def drop_index_def drop_view_def intro!: store_ok_reshape reshapes_all, simp_all add: store_ok_def)

lemma apply_ddl_committed: "\<not> is_dml op \<Longrightarrow> s_committed_lsn (apply_replay env vo lsn op st) = s_committed_lsn st"
  by (cases op) (auto simp: insert_table_def drop_table_def register_index_def drop_index_def insert_view_def drop_view_def
    add_policy_def drop_policy_def set_rls_def add_column_def drop_column_def rename_column_def rename_table_def split: option.splits)

lemma populate_index_keeps [simp]: "s_tables (populate_index vo n st) = s_tables st"
  "s_committed_lsn (populate_index vo n st) = s_committed_lsn st"
  by (simp_all add: populate_index_def Let_def split: option.splits)

lemma table_ok_mono: "table_ok c t \<Longrightarrow> c \<le> c' \<Longrightarrow> table_ok c' t"
  by (auto simp: table_ok_def list_all_iff intro: row_ok_mono)

lemma store_ok_bump: "store_ok st \<Longrightarrow> s_committed_lsn st \<le> c \<Longrightarrow> c < PENDING \<Longrightarrow> store_ok (st\<lparr>s_committed_lsn := c\<rparr>)"
  using table_ok_mono [of "s_committed_lsn st" _ c] by (auto simp: store_ok_def list_all_iff)

lemma ddl_live_agree:
  assumes "agree [] st rst" and "\<not> is_dml op"
  shows "agree [] (ddl_live env vo lsn op st) (replay_group env vo lsn [op] rst)"
proof -
  have "tview st = tview rst" using assms(1) by (simp add: agree_def tview_eq_iff)
  from apply_replay_tview [OF this assms(2)]
  have t: "tview (apply_replay env vo lsn op st) = tview (apply_replay env vo lsn op rst)" .
  have "tview (ddl_live env vo lsn op st) = tview (apply_replay env vo lsn op st)"
    by (cases op) (simp_all add: ddl_live_def Let_def create_index_def register_index_def tview_def fun_eq_iff)
  with t have "tview (ddl_live env vo lsn op st) = tview (replay_group env vo lsn [op] rst)"
    by (simp add: replay_group_def Let_def)
  moreover have "settled (rmap_of (replay_group env vo lsn [op] rst))"
    using assms settled_apply_ddl [OF assms(2), of rst env vo lsn] by (simp add: agree_def replay_group_def Let_def)
  ultimately show ?thesis by (simp add: agree_def tview_eq_iff)
qed

lemma ddl_live_ok:
  assumes "store_ok st" and "\<not> is_dml op" and "lsn < PENDING"
  shows "store_ok (ddl_live env vo lsn op st)" and "s_committed_lsn (ddl_live env vo lsn op st) = max (s_committed_lsn st) lsn"
proof -
  let ?st1 = "case op of CreateIndex d \<Rightarrow> create_index vo d st | _ \<Rightarrow> apply_replay env vo lsn op st"
  have c: "s_committed_lsn ?st1 = s_committed_lsn st"
    using apply_ddl_committed [OF assms(2), of env vo lsn st]
    by (cases op) (simp_all add: create_index_def register_index_def)
  have "store_ok ?st1"
    using store_ok_ddl [OF assms(2,1), of env vo lsn]
    by (cases op) (simp_all add: create_index_def register_index_def store_ok_def)
  then have "store_ok (?st1\<lparr>s_committed_lsn := max (s_committed_lsn st) lsn\<rparr>)"
    using assms(1,3) c by (intro store_ok_bump) (auto simp: store_ok_def)
  then show "store_ok (ddl_live env vo lsn op st)" using c by (simp add: ddl_live_def Let_def)
  show "s_committed_lsn (ddl_live env vo lsn op st) = max (s_committed_lsn st) lsn"
    using c by (simp add: ddl_live_def Let_def)
qed

section \<open>The invariant\<close>

fun phase_ids :: "phase \<Rightarrow> nat list" where
  "phase_ids (Flush b) = b"
| "phase_ids (Resolve b lst) = b"
| "phase_ids _ = []"

definition gc_ids :: "('s, 'x, 'q) sys \<Rightarrow> nat list" where
  "gc_ids y = phase_ids (y_phase y) @ g_queue (d_gc (y_db y))"

text \<open>The transactions in flight, in the order they will be committed.\<close>

definition gc_txn :: "gc_state \<Rightarrow> nat \<Rightarrow> nat \<times> wal_op list" where
  "gc_txn g i = (gc_owner g i, ops_of (gc_records g i))"

definition inflight :: "('s, 'x, 'q) sys \<Rightarrow> (nat \<times> wal_op list) list" where
  "inflight y = map (gc_txn (d_gc (y_db y))) (gc_ids y) @ (case y_lane y of None \<Rightarrow> [] | Some l \<Rightarrow> [l])"

definition waiting :: "gc_state \<Rightarrow> nat \<Rightarrow> bool" where
  "waiting g i \<longleftrightarrow> (case hm_get (g_members g) i of None \<Rightarrow> False
     | Some m \<Rightarrow> \<not> m_done m \<and> (\<exists>wal. m_records m = txn_records wal \<and> list_all op_ok wal \<and> list_all is_dml wal))"

text \<open>The coordinator: queued and drained members are registered and unresolved, ids are
  fresh, and a leader is active exactly while one is at work, so no queue is left alone.\<close>

definition gc_ok :: "('s, 'x, 'q) sys \<Rightarrow> bool" where
  "gc_ok y \<longleftrightarrow> (let g = d_gc (y_db y) in
     distinct (gc_ids y) \<and> (\<forall>i\<in>set (gc_ids y). waiting g i) \<and> (\<forall>i\<in>fst ` set (g_members g). i < g_next_id g) \<and>
     hm_wf (g_members g) \<and> (g_leader_active g \<longleftrightarrow> y_phase y \<noteq> NoLeader) \<and> (y_phase y = NoLeader \<longrightarrow> g_queue g = []))"

definition owners_ok :: "('s, 'x, 'q) sys \<Rightarrow> bool" where
  "owners_ok y \<longleftrightarrow> distinct (map fst (inflight y)) \<and> (\<forall>w\<in>fst ` set (inflight y). 0 < w \<and> w < y_next_owner y) \<and>
     0 < y_next_owner y \<and> (\<forall>me wal. y_lane y = Some (me, wal) \<longrightarrow> list_all is_dml wal)"

text \<open>LSNs below this one are taken by what the replayed store reflects.\<close>

definition unpublished :: "('s, 'x, 'q) sys \<Rightarrow> wal_record list" where
  "unpublished y = (case y_phase y of Resolve b lst \<Rightarrow> batch_records (d_gc (y_db y)) b | _ \<Rightarrow> [])"

lemma index_row_inserted_views [simp]: "rmap_of (index_row_inserted vo t v vals st) = rmap_of st"
  "smap_of (index_row_inserted vo t v vals st) = smap_of st" "store_ok (index_row_inserted vo t v vals st) = store_ok st"
  by (simp_all add: rmap_of_def smap_of_def fun_eq_iff store_ok_def)

lemma gc_enqueue_txn:
  assumes "gc_enqueue me (txn_records wal) g = ((i, am_leader), g')" and "\<forall>j\<in>fst ` set (g_members g). j < g_next_id g"
    and "list_all op_ok wal" and "list_all is_dml wal"
  shows "gc_txn g' i = (me, wal)" and "waiting g' i" and "i = g_next_id g" and "am_leader = (\<not> g_leader_active g)"
    and "g_queue g' = g_queue g @ [i]" and "g_leader_active g'" and "g_next_id g' = Suc (g_next_id g)"
    and "\<And>j. waiting g j \<Longrightarrow> j \<noteq> i \<and> gc_txn g' j = gc_txn g j \<and> gc_records g' j = gc_records g j \<and> waiting g' j"
    and "hm_wf (g_members g) \<Longrightarrow> hm_wf (g_members g')" and "\<forall>j\<in>fst ` set (g_members g'). j < g_next_id g'"
proof -
  have g': "g' = g\<lparr>g_next_id := Suc (g_next_id g), g_members := hm_insert (g_next_id g)
      \<lparr>m_owner = me, m_records = txn_records wal, m_result = None, m_done = False\<rparr> (g_members g),
      g_queue := g_queue g @ [g_next_id g], g_leader_active := True\<rparr>" and i: "i = g_next_id g"
      and l: "am_leader = (\<not> g_leader_active g)"
    using assms(1) by (auto simp: gc_enqueue_def Let_def)
  show "i = g_next_id g" "am_leader = (\<not> g_leader_active g)" by fact+
  show "gc_txn g' i = (me, wal)" "waiting g' i"
    using assms(3,4) by (auto simp: g' i gc_txn_def gc_owner_def gc_records_def ops_of_txn waiting_def)
  show "g_queue g' = g_queue g @ [i]" "g_leader_active g'" "g_next_id g' = Suc (g_next_id g)"
    by (simp_all add: g' i)
  have fresh: "hm_get (g_members g) i = None"
    using assms(2) by (auto simp: i map_of_eq_None_iff)
  show "j \<noteq> i \<and> gc_txn g' j = gc_txn g j \<and> gc_records g' j = gc_records g j \<and> waiting g' j" if "waiting g j" for j
    using that fresh by (auto simp: g' i gc_txn_def gc_owner_def gc_records_def waiting_def split: option.splits if_splits)
  show "hm_wf (g_members g')" if "hm_wf (g_members g)" using that by (simp add: g')
  show "\<forall>j\<in>fst ` set (g_members g'). j < g_next_id g'"
    using assms(2) set_hm_insert_subset [of "g_next_id g" _ "g_members g"] by (fastforce simp: g' less_SucI)
qed

lemma gc_resolve_other:
  assumes "j \<notin> fst ` set results"
  shows "hm_get (g_members (gc_resolve results g)) j = hm_get (g_members g) j"
proof -
  have "hm_get (foldl (\<lambda>ms (i, r). case hm_get ms i of Some m \<Rightarrow> hm_insert i (m\<lparr>m_result := Some r, m_done := True\<rparr>) ms | None \<Rightarrow> ms) ms results) j = hm_get ms j" for ms
    using assms by (induction results arbitrary: ms) (auto split: option.splits)
  then show ?thesis by (simp add: gc_resolve_def)
qed

lemma gc_resolve_members:
  "hm_wf (g_members g) \<Longrightarrow> hm_wf (g_members (gc_resolve results g)) \<and> fst ` set (g_members (gc_resolve results g)) \<subseteq> fst ` set (g_members g)"
proof -
  have "hm_wf ms \<Longrightarrow> hm_wf (foldl (\<lambda>ms (i, r). case hm_get ms i of Some m \<Rightarrow> hm_insert i (m\<lparr>m_result := Some r, m_done := True\<rparr>) ms | None \<Rightarrow> ms) ms results) \<and>
      fst ` set (foldl (\<lambda>ms (i, r). case hm_get ms i of Some m \<Rightarrow> hm_insert i (m\<lparr>m_result := Some r, m_done := True\<rparr>) ms | None \<Rightarrow> ms) ms results) \<subseteq> fst ` set ms" for ms
  proof (induction results arbitrary: ms)
    case (Cons x results)
    obtain i r where x: "x = (i, r)" by fastforce
    show ?case
    proof (cases "hm_get ms i")
      case (Some m)
      let ?ms = "hm_insert i (m\<lparr>m_result := Some r, m_done := True\<rparr>) ms"
      have "fst ` set ?ms = fst ` set ms"
        using Some by (simp add: dom_update [unfolded dom_map_of_conv_image_fst] insert_absorb weak_map_of_SomeI map_of_SomeD image_iff)
          (metis fst_conv insert_absorb imageI map_of_SomeD dom_map_of_conv_image_fst domI)
      with Cons.IH [of ?ms] Cons.prems Some x show ?thesis by simp
    qed (use Cons x in simp)
  qed simp
  then show "hm_wf (g_members g) \<Longrightarrow> ?thesis" by (simp add: gc_resolve_def)
qed

lemma waitingD:
  assumes "waiting g i"
  shows "gc_records g i = txn_records (snd (gc_txn g i))" and "list_all op_ok (snd (gc_txn g i))" and "list_all is_dml (snd (gc_txn g i))"
  using assms by (auto simp: waiting_def gc_txn_def gc_records_def ops_of_txn split: option.splits)

lemma agree_snoc:
  "agree (F @ [(w, wal)]) st rst \<longleftrightarrow> rmap_of st = stamp_txn PENDING w wal (pend F (rmap_of rst)) \<and> legal F (rmap_of rst) \<and>
     legal_txn w wal (pend F (rmap_of rst)) \<and> settled (rmap_of rst) \<and> smap_of st = smap_of rst"
  by (auto simp: agree_def pend_append legal_append)

lemma agree_write:
  assumes "agree (F @ [(me, wal)]) st rst" and "exec_write s me w (st, wal) = Some (st', wal')" and "store_ok st"
  shows "agree (F @ [(me, wal')]) st' rst \<and> s_committed_lsn st' = s_committed_lsn st \<and> (list_all is_dml wal \<longrightarrow> list_all is_dml wal')"
proof -
  from exec_write_stamp [OF assms(2,3)] obtain op where op: "wal' = wal @ [op]" "is_dml op" "legal_op me op (rmap_of st)"
    "rmap_of st' = stamp_op PENDING me op (rmap_of st)" by blast
  have "smap_of st' = smap_of st \<and> s_committed_lsn st' = s_committed_lsn st"
    using assms(2) by (cases w) (auto simp: append_version_def supersede_def append_row_def alloc_vid_def version_mut_def
      split: option.splits if_splits intro!: smap_table_mut)
  with op assms(1) show ?thesis
    by (auto simp: agree_snoc stamp_txn_append legal_txn_append)
qed

lemma agree_abort:
  assumes "agree (F @ [(me, wal)]) st rst" and "me \<notin> fst ` set F" and "me \<noteq> 0"
  shows "agree F (rollback_owner vo me st) rst"
proof -
  note a = assms(1) [unfolded agree_snoc]
  have "owners_in ({0} \<union> fst ` set F) (pend F (rmap_of rst))"
    using a settled_owners owners_pend by blast
  then have "rb me (pend F (rmap_of rst)) = pend F (rmap_of rst)"
    by (rule rb_fresh) (use assms(2,3) in simp)
  with a rb_txn [of me wal "pend F (rmap_of rst)"] assms(3) show ?thesis
    by (simp add: agree_def rmap_of_rollback)
qed

lemma agree_discard:
  assumes "agree (map (\<lambda>i. (own i, wal i)) b @ F) st rst" and "distinct (map own b)"
    and "own ` set b \<inter> fst ` set F = {}" and "0 \<notin> own ` set b" and "store_ok st"
  shows "agree F (discard_batch vo (map (\<lambda>i. (i, own i, n i)) b) st) rst \<and>
    store_ok (discard_batch vo (map (\<lambda>i. (i, own i, n i)) b) st) \<and>
    s_committed_lsn (discard_batch vo (map (\<lambda>i. (i, own i, n i)) b) st) = s_committed_lsn st"
  using assms
proof (induction b arbitrary: st)
  case (Cons i b)
  let ?st = "rollback_owner vo (own i) st" and ?F = "map (\<lambda>i. (own i, wal i)) b @ F"
  have i: "own i \<noteq> 0" "own i \<notin> fst ` set ?F" using Cons.prems(2-4) by (auto simp: image_iff)
  note a = Cons.prems(1) [unfolded agree_def]
  have "owners_in {0} (rmap_of rst)" using a settled_owners by blast
  with discard_first [of "own i" "wal i" ?F "rmap_of rst", OF _ i(2,1)] a have "agree ?F ?st rst"
    by (simp add: agree_def rmap_of_rollback)
  moreover have "store_ok ?st" by (rule mvcc_step_ok [OF step_rollback [OF i(1)] Cons.prems(5)])
  ultimately show ?case
    using Cons.IH [of ?st] Cons.prems(2-4) by (simp add: discard_batch_def rollback_owner_keeps)
qed (simp add: discard_batch_def)

lemma agree_snoc_empty: "agree (F @ [(w, [])]) st rst = agree F st rst"
  by (auto simp: agree_def pend_append legal_append)

lemma agree_cong: "rmap_of st' = rmap_of st \<Longrightarrow> smap_of st' = smap_of st \<Longrightarrow> agree F st' rst = agree F st rst"
  by (simp add: agree_def)

section \<open>Acknowledgements\<close>

text \<open>No commit is acknowledged above the published high-water mark.\<close>

definition acks_ok :: "('s, 'x, 'q) sys \<Rightarrow> bool" where
  "acks_ok y \<longleftrightarrow> (\<forall>(i, m)\<in>set (g_members (d_gc (y_db y))). \<forall>l. m_result m = Some (Inr l) \<longrightarrow> l \<le> s_committed_lsn (d_store (y_db y)))"

lemma acks_mono:
  assumes "acks_ok y" and "\<And>x. x \<in> set (g_members (d_gc (y_db y'))) \<Longrightarrow> x \<in> set (g_members (d_gc (y_db y))) \<or> m_result (snd x) = None"
    and "s_committed_lsn (d_store (y_db y)) \<le> s_committed_lsn (d_store (y_db y'))"
  shows "acks_ok y'"
  using assms unfolding acks_ok_def by (fastforce intro: order_trans)

lemma gc_resolve_results:
  assumes "(i, m) \<in> set (g_members (gc_resolve results g))"
  shows "(i, m) \<in> set (g_members g) \<or> (\<exists>r. (i, r) \<in> set results \<and> m_result m = Some r)"
proof -
  have "(i, m) \<in> set (foldl (\<lambda>ms (i, r). case hm_get ms i of Some m \<Rightarrow> hm_insert i (m\<lparr>m_result := Some r, m_done := True\<rparr>) ms | None \<Rightarrow> ms) ms results) \<Longrightarrow>
      (i, m) \<in> set ms \<or> (\<exists>r. (i, r) \<in> set results \<and> m_result m = Some r)" for ms
  proof (induction results arbitrary: ms)
    case (Cons x results)
    obtain j r where x: "x = (j, r)" by fastforce
    show ?case
    proof (cases "hm_get ms j")
      case (Some m')
      with Cons x show ?thesis
        using set_hm_insert_subset [of j "m'\<lparr>m_result := Some r, m_done := True\<rparr>" ms] by fastforce
    qed (use Cons x in auto)
  qed simp
  with assms show ?thesis by (simp add: gc_resolve_def)
qed

lemma publish_loop_le_max:
  "publish_loop vo first acc ms st = (res, mx, st') \<Longrightarrow> (i, l) \<in> set res \<Longrightarrow> l \<le> mx \<and> first + acc - 1 \<le> l"
proof (induction vo first acc ms st arbitrary: i l res mx st' rule: publish_loop.induct)
  case (2 vo first acc j owner n ms st)
  let ?lsn = "first + (acc + n) - 1"
  obtain rs mx1 st1 where rec: "publish_loop vo first (acc + n) ms (finalize_owner vo owner ?lsn st) = (rs, mx1, st1)"
    by (metis prod_cases3)
  then have res: "res = (j, ?lsn) # rs" "mx = (if ms = [] then ?lsn else mx1)" using 2(2) by (auto simp: Let_def)
  note IH = 2(1) [OF refl rec]
  have ms: "ms \<noteq> [] \<Longrightarrow> ?lsn \<le> mx1"
  proof (cases ms)
    case (Cons m ms')
    with rec have "rs \<noteq> []" by (cases m) (auto simp: Let_def split: prod.splits)
    then obtain i l where "(i, l) \<in> set rs" by (cases rs) auto
    from IH [OF this] show ?thesis by simp
  qed simp
  have "ms = [] \<Longrightarrow> rs = []" using rec by simp
  with IH ms res 2(3) show ?case by fastforce
qed simp

lemma publish_batch_acks:
  assumes "publish_batch vo lst ms st = (res, st')"
  shows "s_committed_lsn st \<le> s_committed_lsn st'" and "(i, l) \<in> set res \<Longrightarrow> l \<le> s_committed_lsn st'"
proof -
  let ?first = "lst - sum_list (map (\<lambda>(_, _, n). n) ms) + 1"
  obtain res1 mx st1 where p: "publish_loop vo ?first 0 ms st = (res1, mx, st1)" by (metis prod_cases3)
  have "publish_loop vo first acc ms st = (r, m, st1) \<Longrightarrow> s_committed_lsn st1 = s_committed_lsn st" for first acc ms st r m
    by (induction vo first acc ms st arbitrary: r m rule: publish_loop.induct) (auto simp: Let_def split: prod.splits)
  from this [OF p] p assms publish_loop_le_max [OF p]
  show "s_committed_lsn st \<le> s_committed_lsn st'" "(i, l) \<in> set res \<Longrightarrow> l \<le> s_committed_lsn st'"
    by (fastforce simp: publish_batch_def Let_def split: if_splits)+
qed

lemma exec_write_committed: "exec_write s me w (st, wal) = Some (st', wal') \<Longrightarrow> s_committed_lsn st' = s_committed_lsn st"
  by (cases w) (auto simp: append_version_def supersede_def split: option.splits if_splits)

lemma discard_batch_committed [simp]: "s_committed_lsn (discard_batch vo ms st) = s_committed_lsn st"
  by (induction ms arbitrary: st) (auto simp: discard_batch_def rollback_owner_keeps)

lemma acks_publish:
  assumes "acks_ok y" and "g_members (d_gc d) = g_members (d_gc (y_db y))" and "d_store d = d_store (y_db y)"
  shows "acks_ok (y\<lparr>y_db := flush_publish vo b r d, y_phase := p\<rparr>)"
proof (cases r)
  case (Inl e)
  show ?thesis
    unfolding acks_ok_def
    using assms Inl by (fastforce simp: flush_publish_def Let_def acks_ok_def dest!: gc_resolve_results)
next
  case (Inr lst)
  obtain res st' where p: "publish_batch vo lst (batch_members (d_gc d) b) (d_store d) = (res, st')" by fastforce
  from publish_batch_acks [OF p] assms Inr p show ?thesis
    by (fastforce simp: acks_ok_def flush_publish_def Let_def dest!: gc_resolve_results intro: order_trans)
qed

lemma acks_step:
  assumes "sys_step ops fits untouched env vo tok y y'" and "acks_ok y"
  shows "acks_ok y'"
  using assms(1)
proof (cases rule: sys_step.cases)
  case (sys_write me wal s w st' wal')
  with exec_write_committed [OF sys_write(4)] show ?thesis by (intro acks_mono [OF assms(2)]) simp_all
next
  case (sys_commit me wal i am_leader g)
  then show ?thesis
    by (intro acks_mono [OF assms(2)])
      (auto simp: gc_enqueue_def Let_def dest!: subsetD [OF set_hm_insert_subset])
next
  case (sys_append batch lst d)
  then show ?thesis
    by (intro acks_mono [OF assms(2)]) (auto simp: flush_append_def Let_def split: prod.splits)
next
  case (sys_fail batch e d)
  then show ?thesis
    by (auto intro!: acks_publish [OF assms(2)] simp: flush_append_def Let_def split: prod.splits)
next
  case (sys_publish batch lst)
  then show ?thesis by (auto intro: acks_publish [OF assms(2)])
next
  case (sys_reclaim i r g)
  then have "set (g_members g) \<subseteq> set (g_members (d_gc (y_db y)))"
    using set_hm_remove_subset [of i "g_members (d_gc (y_db y))"]
    by (auto simp: gc_reclaim_def split: option.splits if_splits)
  with sys_reclaim show ?thesis by (intro acks_mono [OF assms(2)]) auto
next
  case (sys_ddl op lst s')
  moreover have "s_committed_lsn (d_store (y_db y)) \<le> s_committed_lsn (ddl_live env vo lst op (d_store (y_db y)))"
    using apply_ddl_committed [OF sys_ddl(5), of env vo lst "d_store (y_db y)"]
    by (cases op) (simp_all add: ddl_live_def Let_def create_index_def register_index_def)
  ultimately show ?thesis by (intro acks_mono [OF assms(2)]) simp_all
qed (use assms(2) in \<open>auto intro!: acks_mono [OF assms(2)] simp: drain_batch_def Let_def rollback_owner_keeps index_row_inserted_keeps split: prod.splits\<close>)

lemma acks_reachable: "(sys_step ops fits untouched env vo tok)\<^sup>*\<^sup>* (sys_open s) y \<Longrightarrow> acks_ok y"
proof (induction rule: rtranclp_induct)
  case base
  show ?case by (simp add: acks_ok_def sys_open_def gc_new_def)
qed (rule acks_step)

section \<open>Preservation\<close>

text \<open>What a leader appended and has not published yet is durable already, so recovery counts it:
  the state with that batch published.\<close>

definition settle :: "'x vector_ops \<Rightarrow> ('s, 'x, 'q) sys \<Rightarrow> ('s, 'x, 'q) sys" where
  "settle vo y = (case y_phase y of Resolve b lst \<Rightarrow> y\<lparr>y_db := flush_publish vo b (Inr lst) (y_db y), y_phase := Check\<rparr> | _ \<Rightarrow> y)"

lemma settle_committed: "s_committed_lsn (d_store (y_db y)) \<le> s_committed_lsn (d_store (y_db (settle vo y)))"
  using publish_batch_acks(1) [of vo _ _ "d_store (y_db y)"]
  by (auto simp: settle_def flush_publish_def Let_def split: phase.splits prod.splits)

lemma rebuild_autoinc_views [simp]: "rmap_of (rebuild_autoinc st) = rmap_of st" "smap_of (rebuild_autoinc st) = smap_of st"
  "s_committed_lsn (rebuild_autoinc st) = s_committed_lsn st"
  by (auto simp: rebuild_autoinc_def rmap_of_def smap_of_def map_of_map_vals fun_eq_iff option.map_comp comp_def
      intro!: option.map_cong split: option.splits)

context wal_faults
begin

definition sys_inv :: "'q sql_env \<Rightarrow> 'x vector_ops \<Rightarrow> log_entry list \<Rightarrow> ('x, 'q) store \<Rightarrow> ('s, 'x, 'q) sys \<Rightarrow> bool" where
  "sys_inv env vo H rst y \<longleftrightarrow> (let s = d_storage (y_db y); st = d_store (y_db y); new = unpublished y in
     ok s \<and> store_ok st \<and> gc_ok y \<and> owners_ok y \<and>
     hist s = H @ number_records (nxt s - length new) new \<and> length new < nxt s \<and> nxt s \<le> PENDING \<and>
     (\<forall>b lst. y_phase y = Resolve b lst \<longrightarrow> lst = nxt s - 1 \<and> b \<noteq> []) \<and> (\<forall>b. y_phase y = Flush b \<longrightarrow> b \<noteq> []) \<and>
     replays env vo H store_default rst \<and> agree (inflight y) st rst \<and>
     s_committed_lsn st = s_committed_lsn rst \<and> s_committed_lsn rst < nxt s - length new)"

lemma sys_inv_open:
  assumes "ok s" and "hist s = []" and "nxt s \<le> PENDING"
  shows "sys_inv env vo [] store_default (sys_open s)"
  using assms nxt_pos [OF assms(1)]
  by (simp add: sys_inv_def sys_open_def unpublished_def gc_ok_def gc_ids_def owners_ok_def inflight_def gc_new_def
    store_ok_def store_default_def agree_def settled_def rmap_of_def replays_def)

lemma sys_inv_acquire:
  assumes "sys_inv env vo H rst y" and "y_lane y = None"
  shows "sys_inv env vo H rst (y\<lparr>y_lane := Some (y_next_owner y, []), y_next_owner := y_next_owner y + 1\<rparr>)"
proof -
  let ?y = "y\<lparr>y_lane := Some (y_next_owner y, []), y_next_owner := y_next_owner y + 1\<rparr>"
  have f: "inflight ?y = inflight y @ [(y_next_owner y, [])]" and u: "unpublished ?y = unpublished y" and g: "gc_ids ?y = gc_ids y"
    using assms(2) by (simp_all add: inflight_def gc_ids_def unpublished_def split: phase.splits)
  have "owners_ok ?y"
    using assms(1) unfolding sys_inv_def owners_ok_def f by (auto simp: Let_def less_Suc_eq)
  then show ?thesis
    using assms(1) f u g by (simp add: sys_inv_def Let_def gc_ok_def agree_snoc_empty)
qed

lemma sys_inv_write:
  assumes "sys_inv env vo H rst y" and "y_lane y = Some (me, wal)" and "s < PENDING"
    and "exec_write s me w (d_store (y_db y), wal) = Some (st', wal')"
  shows "sys_inv env vo H rst (y\<lparr>y_db := (y_db y)\<lparr>d_store := st'\<rparr>, y_lane := Some (me, wal')\<rparr>)"
proof -
  let ?y = "y\<lparr>y_db := (y_db y)\<lparr>d_store := st'\<rparr>, y_lane := Some (me, wal')\<rparr>"
  let ?F = "map (gc_txn (d_gc (y_db y))) (gc_ids y)"
  have f: "inflight y = ?F @ [(me, wal)]" "inflight ?y = ?F @ [(me, wal')]" and u: "unpublished ?y = unpublished y" and g: "gc_ids ?y = gc_ids y"
    using assms(2) by (simp_all add: inflight_def gc_ids_def unpublished_def split: phase.splits)
  have me: "me \<noteq> 0" using assms(1) f(1) by (auto simp: sys_inv_def owners_ok_def Let_def)
  have "store_ok st'"
    using mvcc_step_ok [OF exec_write_step [OF assms(4) me assms(3)]] assms(1) by (simp add: sys_inv_def Let_def)
  moreover have "agree (?F @ [(me, wal)]) (d_store (y_db y)) rst" "store_ok (d_store (y_db y))"
    using assms(1) f by (simp_all add: sys_inv_def Let_def)
  note agree_write [OF this(1) assms(4) this(2)]
  ultimately show ?thesis
    using assms(1,2) f u g by (simp add: sys_inv_def Let_def gc_ok_def owners_ok_def)
qed

lemma sys_inv_index:
  assumes "sys_inv env vo H rst y"
  shows "sys_inv env vo H rst (y\<lparr>y_db := (y_db y)\<lparr>d_store := index_row_inserted vo t v vals (d_store (y_db y))\<rparr>\<rparr>)"
proof -
  let ?y = "y\<lparr>y_db := (y_db y)\<lparr>d_store := index_row_inserted vo t v vals (d_store (y_db y))\<rparr>\<rparr>"
  have f: "inflight ?y = inflight y" "unpublished ?y = unpublished y" "gc_ids ?y = gc_ids y"
    by (simp_all add: inflight_def gc_ids_def unpublished_def split: phase.splits)
  with assms f show ?thesis
    by (simp add: sys_inv_def Let_def gc_ok_def owners_ok_def agree_def)
qed

lemma sys_inv_abort:
  assumes "sys_inv env vo H rst y" and "y_lane y = Some (me, wal)"
  shows "sys_inv env vo H rst (y\<lparr>y_db := (y_db y)\<lparr>d_store := rollback_owner vo me (d_store (y_db y))\<rparr>, y_lane := None\<rparr>)"
proof -
  let ?y = "y\<lparr>y_db := (y_db y)\<lparr>d_store := rollback_owner vo me (d_store (y_db y))\<rparr>, y_lane := None\<rparr>"
  have f: "inflight y = inflight ?y @ [(me, wal)]" and u: "unpublished ?y = unpublished y" and g: "gc_ids ?y = gc_ids y"
    using assms(2) by (simp_all add: inflight_def gc_ids_def unpublished_def split: phase.splits)
  have me: "me \<noteq> 0" "me \<notin> fst ` set (inflight ?y)"
    using assms(1) unfolding sys_inv_def owners_ok_def f Let_def by auto
  have "store_ok (rollback_owner vo me (d_store (y_db y)))"
    by (rule mvcc_step_ok [OF step_rollback [OF me(1)]]) (use assms(1) in \<open>simp add: sys_inv_def Let_def\<close>)
  moreover have "agree (inflight ?y) (rollback_owner vo me (d_store (y_db y))) rst"
    by (rule agree_abort [OF _ me(2,1), of wal]) (use assms(1) f in \<open>simp add: sys_inv_def Let_def\<close>)
  moreover have "owners_ok ?y"
    using assms(1) unfolding sys_inv_def owners_ok_def f Let_def by auto
  ultimately show ?thesis
    using assms(1) u g by (simp add: sys_inv_def Let_def gc_ok_def rollback_owner_keeps)
qed

lemma sys_inv_commit_empty:
  assumes "sys_inv env vo H rst y" and "y_lane y = Some (me, [])"
  shows "sys_inv env vo H rst (y\<lparr>y_lane := None\<rparr>)"
proof -
  let ?y = "y\<lparr>y_lane := None\<rparr>"
  have f: "inflight y = inflight ?y @ [(me, [])]" and u: "unpublished ?y = unpublished y" and g: "gc_ids ?y = gc_ids y"
    using assms(2) by (simp_all add: inflight_def gc_ids_def unpublished_def split: phase.splits)
  have "owners_ok ?y"
    using assms(1) unfolding sys_inv_def owners_ok_def f Let_def by auto
  with assms(1) f u g show ?thesis
    by (simp add: sys_inv_def Let_def gc_ok_def agree_snoc_empty)
qed

lemma sys_inv_commit:
  assumes "sys_inv env vo H rst y" and "y_lane y = Some (me, wal)" and "list_all op_ok wal"
    and "gc_enqueue me (txn_records wal) (d_gc (y_db y)) = ((i, am_leader), g)"
  shows "sys_inv env vo H rst (y\<lparr>y_db := (y_db y)\<lparr>d_gc := g\<rparr>, y_lane := None, y_phase := if am_leader then Drain else y_phase y\<rparr>)"
proof -
  let ?g = "d_gc (y_db y)"
  let ?y = "y\<lparr>y_db := (y_db y)\<lparr>d_gc := g\<rparr>, y_lane := None, y_phase := if am_leader then Drain else y_phase y\<rparr>"
  have gc: "gc_ok y" and ow: "owners_ok y" using assms(1) by (simp_all add: sys_inv_def Let_def)
  have dml: "list_all is_dml wal" using ow assms(2) by (simp add: owners_ok_def)
  have fresh: "\<forall>j\<in>fst ` set (g_members ?g). j < g_next_id ?g" using gc by (simp add: gc_ok_def Let_def)
  note e = gc_enqueue_txn [OF assms(4) fresh assms(3) dml]
  have ph: "phase_ids (y_phase ?y) = phase_ids (y_phase y)" and nl: "y_phase ?y \<noteq> NoLeader"
    using gc e(4) by (auto simp: gc_ok_def Let_def)
  have w: "\<And>j. j \<in> set (gc_ids y) \<Longrightarrow> waiting ?g j" using gc by (simp add: gc_ok_def Let_def)
  have ids: "gc_ids ?y = gc_ids y @ [i]" using ph e(5) by (simp add: gc_ids_def)
  have "map (gc_txn g) (gc_ids y) = map (gc_txn ?g) (gc_ids y)"
    using e(8) [OF w] by simp
  then have f: "inflight ?y = inflight y"
    using ids e(1) assms(2) by (simp add: inflight_def)
  have gok: "gc_ok ?y"
    using gc nl ids e(2,3,6-10) w unfolding gc_ok_def Let_def by auto
  have rec: "gc_records g j = gc_records ?g j" if "j \<in> set (phase_ids (y_phase y))" for j
    using that e(8) [OF w] by (simp add: gc_ids_def)
  then have "unpublished ?y = unpublished y"
    using e(4) gc
    by (auto simp: unpublished_def batch_records_def gc_ok_def Let_def split: phase.splits intro!: arg_cong [of _ _ concat])
  moreover have "owners_ok ?y" using ow f by (simp add: owners_ok_def)
  moreover have "y_phase ?y = Resolve b l \<Longrightarrow> y_phase y = Resolve b l" "y_phase ?y = Flush b \<Longrightarrow> y_phase y = Flush b" for b l
    by (auto split: if_splits)
  ultimately show ?thesis
    using assms(1) f gok unfolding sys_inv_def Let_def by (auto split: if_splits)
qed

lemma sys_inv_drain:
  assumes "sys_inv env vo H rst y" and "y_phase y = Drain" and "drain_batch (d_gc (y_db y)) = (batch, g)"
  shows "sys_inv env vo H rst (y\<lparr>y_db := (y_db y)\<lparr>d_gc := g\<rparr>, y_phase := if batch = [] then Check else Flush batch\<rparr>)"
proof -
  let ?y = "y\<lparr>y_db := (y_db y)\<lparr>d_gc := g\<rparr>, y_phase := if batch = [] then Check else Flush batch\<rparr>"
  from assms(3) have g: "g = (d_gc (y_db y))\<lparr>g_queue := g_queue g\<rparr>" and q: "batch @ g_queue g = g_queue (d_gc (y_db y))"
    using drain_loop_queue [of "\<lambda>i. length (gc_records (d_gc (y_db y)) i)" "[]" 0 "g_queue (d_gc (y_db y))"]
    by (auto simp: drain_batch_def Let_def split: prod.splits)
  have eq: "gc_owner g = gc_owner (d_gc (y_db y))" "gc_records g = gc_records (d_gc (y_db y))"
      "waiting g = waiting (d_gc (y_db y))" "gc_txn g = gc_txn (d_gc (y_db y))"
    by (subst g; simp add: gc_owner_def gc_records_def waiting_def gc_txn_def fun_eq_iff)+
  have ids: "gc_ids ?y = gc_ids y" using q assms(2) by (auto simp: gc_ids_def)
  have m: "g_members g = g_members (d_gc (y_db y))" "g_next_id g = g_next_id (d_gc (y_db y))" "g_leader_active g = g_leader_active (d_gc (y_db y))"
    by (subst g; simp)+
  have f: "inflight ?y = inflight y" "unpublished ?y = unpublished y"
    using ids eq assms(2) by (auto simp: inflight_def unpublished_def split: if_splits)
  have "gc_ok ?y" using assms(1,2) ids eq m by (auto simp: sys_inv_def gc_ok_def Let_def)
  with assms(1,2) f show ?thesis by (auto simp: sys_inv_def Let_def owners_ok_def split: if_splits)
qed

lemma sys_inv_append:
  assumes "sys_inv env vo H rst y" and "y_phase y = Flush batch" and "fits (d_storage (y_db y)) (batch_records (d_gc (y_db y)) batch)"
    and "flush_append ops tok batch (y_db y) = (Inr lst, d)" and "lst < PENDING"
  shows "sys_inv env vo H rst (y\<lparr>y_db := d, y_phase := Resolve batch lst\<rparr>)"
proof -
  let ?y = "y\<lparr>y_db := d, y_phase := Resolve batch lst\<rparr>" and ?rs = "batch_records (d_gc (y_db y)) batch"
  let ?s = "d_storage (y_db y)" and ?g = "d_gc (y_db y)"
  from assms(4) obtain s' where s': "st_append_wal ops ?s tok ?rs = (Inr lst, s')"
    "d = (y_db y)\<lparr>d_storage := s', d_gc := ?g\<lparr>g_batches := g_batches ?g + 1\<rparr>\<rparr>"
    by (auto simp: flush_append_def Let_def split: prod.splits)
  have ok: "ok ?s" using assms(1) by (simp add: sys_inv_def Let_def)
  note ap = append_exact [OF ok assms(3) s'(1)]
  have eq: "gc_records (d_gc d) = gc_records ?g" "gc_txn (d_gc d) = gc_txn ?g" "waiting (d_gc d) = waiting ?g"
    by (simp_all add: s' gc_owner_def gc_records_def waiting_def gc_txn_def fun_eq_iff)
  have f: "inflight ?y = inflight y" "gc_ids ?y = gc_ids y"
    using eq assms(2) by (simp_all add: inflight_def gc_ids_def s')
  have un: "unpublished y = []" "unpublished ?y = ?rs"
    using assms(2) eq by (simp_all add: unpublished_def batch_records_def)
  have "gc_ok ?y" using assms(1,2) f eq by (auto simp: sys_inv_def gc_ok_def Let_def s')
  moreover have "lst = nxt s' - 1" "nxt s' \<le> PENDING" "nxt s' - length ?rs = nxt ?s" "length ?rs < nxt s'"
    using ap assms(5) nxt_pos [OF ok] by (cases ?rs; simp)+
  ultimately show ?thesis
    using assms(1,2) ap f un by (simp add: sys_inv_def Let_def owners_ok_def s')
qed

text \<open>Resolving the members of a drained batch leaves the queued ones as they were.\<close>

lemma gc_resolve_batch:
  assumes "gc_ok y" and "y_phase y \<noteq> NoLeader" and "phase_ids (y_phase y) = b" and "map fst results = b"
    and "d_gc d = gc_resolve results ((d_gc (y_db y))\<lparr>g_batches := nb, g_commits := nc\<rparr>)"
  defines "y' \<equiv> y\<lparr>y_db := d, y_phase := Check\<rparr>"
  shows "gc_ok y'" and "inflight y' = map (gc_txn (d_gc (y_db y))) (g_queue (d_gc (y_db y))) @ (case y_lane y of None \<Rightarrow> [] | Some l \<Rightarrow> [l])"
    and "unpublished y' = []"
proof -
  let ?g = "d_gc (y_db y)" and ?g' = "d_gc d"
  have q: "gc_ids y = b @ g_queue ?g" "gc_ids y' = g_queue ?g" using assms(3,5) by (simp_all add: gc_ids_def y'_def gc_resolve_def)
  have "hm_get (g_members ?g') j = hm_get (g_members ?g) j" if "j \<in> set (g_queue ?g)" for j
  proof -
    have "j \<notin> fst ` set results"
      using that assms(1) q(1) unfolding assms(4) [symmetric] by (auto simp: gc_ok_def Let_def)
    from gc_resolve_other [OF this] show ?thesis by (simp add: assms(5))
  qed
  then have j: "gc_txn ?g' j = gc_txn ?g j" "waiting ?g' j = waiting ?g j" if "j \<in> set (g_queue ?g)" for j
    using that by (simp_all add: gc_txn_def gc_owner_def gc_records_def waiting_def)
  then show "inflight y' = map (gc_txn ?g) (g_queue ?g) @ (case y_lane y of None \<Rightarrow> [] | Some l \<Rightarrow> [l])"
    unfolding inflight_def q(2) by (simp add: y'_def)
  have keep: "g_queue ?g' = g_queue ?g" "g_next_id ?g' = g_next_id ?g" "g_leader_active ?g' = g_leader_active ?g"
    using assms(5) by (simp_all add: gc_resolve_def)
  have ms: "hm_wf (g_members ?g)" "\<forall>i\<in>fst ` set (g_members ?g). i < g_next_id ?g" using assms(1) by (simp_all add: gc_ok_def Let_def)
  from ms(1) have "hm_wf (g_members (?g\<lparr>g_batches := nb, g_commits := nc\<rparr>))" by simp
  from gc_resolve_members [OF this, of results]
  have "hm_wf (g_members ?g')" "fst ` set (g_members ?g') \<subseteq> fst ` set (g_members ?g)" by (simp_all add: assms(5))
  moreover from this(2) ms(2) have "\<forall>i\<in>fst ` set (g_members ?g'). i < g_next_id ?g" by blast
  ultimately show "gc_ok y'"
    unfolding gc_ok_def Let_def q(2) using assms(1,2) j keep q(1) by (auto simp: y'_def gc_ok_def Let_def)
  show "unpublished y' = []" by (simp add: unpublished_def y'_def)
qed

lemma sys_inv_publish:
  assumes "sys_inv env vo H rst y" and "y_phase y = Resolve b lst"
  shows "\<exists>H' rst'. sys_inv env vo H' rst' (y\<lparr>y_db := flush_publish vo b (Inr lst) (y_db y), y_phase := Check\<rparr>)"
proof -
  let ?s = "d_storage (y_db y)" and ?st = "d_store (y_db y)" and ?g = "d_gc (y_db y)"
  let ?y = "y\<lparr>y_db := flush_publish vo b (Inr lst) (y_db y), y_phase := Check\<rparr>"
  define own wal where "own = gc_owner ?g" and "wal i = snd (gc_txn ?g i)" for i
  define F where "F = map (gc_txn ?g) (g_queue ?g) @ (case y_lane y of None \<Rightarrow> [] | Some l \<Rightarrow> [l])"
  define n where "n = sum_list (map (\<lambda>i. Suc (length (wal i))) b)"
  have gc: "gc_ok y" and ow: "owners_ok y" and un: "unpublished y = batch_records ?g b"
    using assms by (simp_all add: sys_inv_def Let_def unpublished_def)
  have w: "waiting ?g i" if "i \<in> set b" for i using that gc assms(2) by (simp add: gc_ok_def Let_def gc_ids_def)
  have mem: "batch_members ?g b = map (\<lambda>i. (i, own i, Suc (length (wal i)))) b"
    using waitingD [OF w] by (simp add: batch_members_def own_def wal_def)
  have rec: "batch_records ?g b = concat (map (\<lambda>i. txn_records (wal i)) b)"
    using waitingD [OF w] by (auto simp: batch_records_def wal_def intro!: arg_cong [of _ _ concat])
  have len: "length (batch_records ?g b) = n" by (simp add: rec n_def length_concat comp_def)
  have inf: "inflight y = map (\<lambda>i. (own i, wal i)) b @ F"
    using assms(2) by (simp add: inflight_def gc_ids_def own_def wal_def F_def gc_txn_def)
  have b: "b \<noteq> []" "lst = nxt ?s - 1" "n < nxt ?s" "nxt ?s \<le> PENDING" "agree (map (\<lambda>i. (own i, wal i)) b @ F) ?st rst"
    and c: "s_committed_lsn ?st = s_committed_lsn rst" "s_committed_lsn rst < nxt ?s - n" and ok: "store_ok ?st" "ok ?s"
    and h: "hist ?s = H @ number_records (nxt ?s - n) (batch_records ?g b)" "replays env vo H store_default rst"
    using assms un len inf by (auto simp: sys_inv_def Let_def)
  have first: "lst - n + 1 = nxt ?s - n" using b(2,3) by simp
  obtain res mx st1 where p: "publish_loop vo (nxt ?s - n) 0 (map (\<lambda>i. (i, own i, Suc (length (wal i)))) b) ?st = (res, mx, st1)"
    by (metis prod_cases3)
  have "distinct (map own b)" "own ` set b \<inter> fst ` set F = {}" "0 \<notin> own ` set b"
    using ow unfolding owners_ok_def inf by (auto simp: comp_def image_Un image_image)
  moreover have "\<forall>i\<in>set b. list_all op_ok (wal i) \<and> list_all is_dml (wal i)"
    using waitingD(2,3) [OF w] by (simp add: wal_def)
  moreover have "store_ok (?st\<lparr>s_committed_lsn := s_committed_lsn ?st\<rparr>)" using ok(1) by simp
  moreover have "s_committed_lsn ?st < nxt ?s - n + 0" "s_committed_lsn rst < nxt ?s - n + 0" "nxt ?s - n + 0 + n \<le> PENDING"
    using b c by simp_all
  ultimately obtain rst' where r: "replays env vo (number_records (nxt ?s - n) (batch_records ?g b)) rst rst'" "agree F st1 rst'"
      "s_committed_lsn st1 = s_committed_lsn ?st" "mx = lst" "s_committed_lsn rst' = lst"
      "store_ok (st1\<lparr>s_committed_lsn := lst\<rparr>)" "map fst res = b"
    using publish_loop_replay [OF p b(5), of "s_committed_lsn ?st" env] b by (auto simp: n_def [symmetric] rec)
  have tot: "sum_list (map (\<lambda>(_, _, n). n) (batch_members ?g b)) = n" by (simp add: mem n_def comp_def)
  have pb: "publish_batch vo lst (batch_members ?g b) ?st = (res, st1\<lparr>s_committed_lsn := lst\<rparr>)"
    unfolding publish_batch_def Let_def tot first unfolding mem p using r(3,4) c b(2) by simp
  let ?g' = "gc_resolve (map (\<lambda>(i, l). (i, Inr l)) res) (?g\<lparr>g_commits := g_commits ?g + length b\<rparr>)"
  have y': "flush_publish vo b (Inr lst) (y_db y) = (y_db y)\<lparr>d_store := st1\<lparr>s_committed_lsn := lst\<rparr>, d_gc := ?g'\<rparr>"
    by (simp add: flush_publish_def Let_def pb) (simp add: batch_members_def)
  have res: "map fst (map (\<lambda>(i, l). (i, Inr l)) res) = b" using r(7) by (simp add: comp_def split_beta)
  have ph: "y_phase y \<noteq> NoLeader" "phase_ids (y_phase y) = b" using assms(2) by simp_all
  note gr = gc_resolve_batch [OF gc ph res, where d = "flush_publish vo b (Inr lst) (y_db y)" and nb = "g_batches ?g" and nc = "g_commits ?g + length b"]
  have gr: "gc_ok ?y" "inflight ?y = F" using gr(1,2) by (simp_all add: y' F_def)
  note f = gr(2)
  from gr(1) have "gc_ok ?y" .
  moreover have "owners_ok ?y" using ow unfolding owners_ok_def f inf by auto
  moreover have u: "unpublished ?y = []" by (simp add: unpublished_def)
  moreover have d: "d_storage (y_db ?y) = ?s" "d_store (y_db ?y) = st1\<lparr>s_committed_lsn := lst\<rparr>" by (simp_all add: y')
  moreover have "agree F (st1\<lparr>s_committed_lsn := lst\<rparr>) rst'" using r(2) by (simp add: agree_def)
  moreover have "replays env vo (hist ?s) store_default rst'" using replays_trans [OF h(2) r(1)] h(1) by simp
  moreover have "lst < nxt ?s" using b(2,3) by simp
  ultimately have "sys_inv env vo (hist ?s) rst' ?y"
    unfolding sys_inv_def Let_def u d f using ok(2) r(5,6) b(4) by simp
  then show ?thesis by blast
qed

lemma sys_inv_check:
  assumes "sys_inv env vo H rst y" and "y_phase y = Check"
  shows "sys_inv env vo H rst (if g_queue (d_gc (y_db y)) = []
      then y\<lparr>y_db := (y_db y)\<lparr>d_gc := (d_gc (y_db y))\<lparr>g_leader_active := False\<rparr>\<rparr>, y_phase := NoLeader\<rparr>
      else y\<lparr>y_phase := Drain\<rparr>)" (is "sys_inv env vo H rst ?y")
proof -
  have i: "gc_ids ?y = gc_ids y" using assms(2) by (simp add: gc_ids_def)
  have g: "gc_txn (d_gc (y_db ?y)) = gc_txn (d_gc (y_db y))" "waiting (d_gc (y_db ?y)) = waiting (d_gc (y_db y))"
    by (simp_all add: gc_txn_def gc_owner_def gc_records_def waiting_def fun_eq_iff)
  have f: "inflight ?y = inflight y" "unpublished ?y = unpublished y"
    unfolding inflight_def i g using assms(2) by (simp_all add: unpublished_def)
  have "gc_ok ?y"
    unfolding gc_ok_def i g Let_def using assms by (auto simp: sys_inv_def gc_ok_def Let_def)
  moreover have "owners_ok ?y" using assms(1) f by (simp add: sys_inv_def owners_ok_def Let_def)
  ultimately show ?thesis
    using assms f unfolding sys_inv_def Let_def by auto
qed

lemma sys_inv_reclaim:
  assumes "sys_inv env vo H rst y" and "gc_reclaim i (d_gc (y_db y)) = (Some r, g)"
  shows "sys_inv env vo H rst (y\<lparr>y_db := (y_db y)\<lparr>d_gc := g\<rparr>\<rparr>)" (is "sys_inv env vo H rst ?y")
proof -
  let ?g = "d_gc (y_db y)"
  from assms(2) obtain m where m: "hm_get (g_members ?g) i = Some m" "m_done m" "g = ?g\<lparr>g_members := hm_remove i (g_members ?g)\<rparr>"
    by (auto simp: gc_reclaim_def split: option.splits if_splits)
  have i: "gc_ids ?y = gc_ids y" by (simp add: gc_ids_def m(3))
  have gc: "gc_ok y" using assms(1) by (simp add: sys_inv_def Let_def)
  have g: "gc_txn g j = gc_txn ?g j" "gc_records g j = gc_records ?g j" "waiting g j" if "j \<in> set (gc_ids y)" for j
  proof -
    have "waiting ?g j" using that gc by (simp add: gc_ok_def Let_def)
    moreover from this m have "j \<noteq> i" by (auto simp: waiting_def)
    ultimately show "gc_txn g j = gc_txn ?g j" "gc_records g j = gc_records ?g j" "waiting g j"
      by (simp_all add: m(3) gc_txn_def gc_owner_def gc_records_def waiting_def)
  qed
  have f: "inflight ?y = inflight y" unfolding inflight_def i using g by simp
  have u: "unpublished ?y = unpublished y"
    using g by (auto simp: unpublished_def batch_records_def gc_ids_def split: phase.splits intro!: arg_cong [of _ _ concat])
  have "gc_ok ?y"
    using gc g set_hm_remove_subset [of i "g_members ?g"] unfolding gc_ok_def i Let_def by (auto simp: m(3))
  moreover have "owners_ok ?y" using assms(1) f by (simp add: sys_inv_def owners_ok_def Let_def)
  ultimately show ?thesis
    using assms(1) f u unfolding sys_inv_def Let_def by auto
qed

lemma sys_inv_ddl:
  assumes "sys_inv env vo H rst y" and "y_lane y = None" and "\<not> g_leader_active (d_gc (y_db y))"
    and "\<not> is_dml op" and "op \<noteq> Commit" and "op_ok op" and "fits (d_storage (y_db y)) (txn_records [op])"
    and "st_append_wal ops (d_storage (y_db y)) tok (txn_records [op]) = (Inr lst, s')" and "lst < PENDING"
  shows "\<exists>H' rst'. sys_inv env vo H' rst' (y\<lparr>y_db := (y_db y)\<lparr>d_storage := s', d_store := ddl_live env vo lst op (d_store (y_db y))\<rparr>\<rparr>)"
proof -
  let ?s = "d_storage (y_db y)" and ?st = "d_store (y_db y)" and ?rst = "replay_group env vo lst [op] rst"
  let ?y = "y\<lparr>y_db := (y_db y)\<lparr>d_storage := s', d_store := ddl_live env vo lst op ?st\<rparr>\<rparr>"
  have ph: "y_phase y = NoLeader" and q: "g_queue (d_gc (y_db y)) = []"
    using assms(1,3) by (auto simp: sys_inv_def gc_ok_def Let_def)
  have ids: "gc_ids y = []" "gc_ids ?y = []" "inflight y = []" "inflight ?y = []" "unpublished y = []" "unpublished ?y = []"
    using ph q assms(2) by (simp_all add: gc_ids_def inflight_def unpublished_def)
  have i: "ok ?s" "store_ok ?st" "agree [] ?st rst" "hist ?s = H" "replays env vo H store_default rst"
      "s_committed_lsn ?st = s_committed_lsn rst" "s_committed_lsn rst < nxt ?s"
    using assms(1) ids by (simp_all add: sys_inv_def Let_def)
  note ap = append_exact [OF i(1) assms(7,8)]
  have lst: "lst = nxt ?s + 1" "nxt s' = nxt ?s + 2" using ap by simp_all
  have "replays env vo (number_records (nxt ?s) (txn_records [op])) rst ?rst"
    using replay_loop_txn [of "[op]" env vo "nxt ?s" _ "[]" rst] assms(5,6) lst by (simp add: replays_def)
  from replays_trans [OF i(5) this] have "replays env vo (hist s') store_default ?rst" using ap i(4) by simp
  moreover have "s_committed_lsn ?rst = lst"
    using apply_ddl_committed [OF assms(4), of env vo lst rst] i(7) lst by (simp add: replay_group_def Let_def)
  moreover have "s_committed_lsn (ddl_live env vo lst op ?st) = lst"
    using ddl_live_ok(2) [OF i(2) assms(4,9), of env vo] i(6,7) lst by simp
  moreover have "gc_ok ?y" "owners_ok ?y"
    using assms(1,2) ids unfolding sys_inv_def gc_ok_def owners_ok_def Let_def by auto
  ultimately have "sys_inv env vo (hist s') ?rst ?y"
    using ap ids ph assms(9) lst ddl_live_agree [OF i(3) assms(4), of env vo lst] ddl_live_ok(1) [OF i(2) assms(4,9), of env vo]
    by (simp add: sys_inv_def Let_def)
  then show ?thesis by blast
qed

lemma sys_inv_fail:
  assumes "sys_inv env vo H rst y" and "y_phase y = Flush b" and "flush_append ops tok b (y_db y) = (Inl e, d)"
    and "untouched (d_storage (y_db y)) (d_storage d)"
  shows "sys_inv env vo H rst (y\<lparr>y_db := flush_publish vo b (Inl e) d, y_phase := Check\<rparr>)" (is "sys_inv env vo H rst ?y")
proof -
  let ?s = "d_storage (y_db y)" and ?st = "d_store (y_db y)" and ?g = "d_gc (y_db y)"
  define own wal where "own = gc_owner ?g" and "wal i = snd (gc_txn ?g i)" for i
  define F where "F = map (gc_txn ?g) (g_queue ?g) @ (case y_lane y of None \<Rightarrow> [] | Some l \<Rightarrow> [l])"
  let ?ms = "map (\<lambda>i. (i, own i, length (gc_records ?g i))) b"
  obtain s' where ap: "st_append_wal ops ?s tok (batch_records ?g b) = (Inl e, s')"
      and d: "d = (y_db y)\<lparr>d_storage := s', d_gc := ?g\<lparr>g_batches := g_batches ?g + 1\<rparr>\<rparr>"
    using assms(3) by (auto simp: flush_append_def Let_def split: prod.splits)
  have kept: "ok s'" "hist s' = hist ?s" "nxt s' = nxt ?s"
    using failed_append [OF _ ap] assms(1,4) by (auto simp: sys_inv_def Let_def d)
  have ms: "batch_members (d_gc d) b = ?ms" by (simp add: d batch_members_def gc_owner_def gc_records_def own_def)
  have y': "flush_publish vo b (Inl e) d = d\<lparr>d_store := discard_batch vo ?ms ?st,
      d_gc := gc_resolve (map (\<lambda>(i, _, _). (i, Inl (commit_error e))) ?ms) (d_gc d)\<rparr>"
    unfolding flush_publish_def ms by (simp add: d)
  have gc: "gc_ok y" and ow: "owners_ok y" and ok: "store_ok ?st" and un: "unpublished y = []"
    using assms(1,2) by (simp_all add: sys_inv_def Let_def unpublished_def)
  have inf: "inflight y = map (\<lambda>i. (own i, wal i)) b @ F"
    using assms(2) by (simp add: inflight_def gc_ids_def own_def wal_def F_def gc_txn_def)
  have own: "distinct (map own b)" "own ` set b \<inter> fst ` set F = {}" "0 \<notin> own ` set b"
    using ow unfolding owners_ok_def inf by (auto simp: comp_def image_Un image_image)
  have "agree (map (\<lambda>i. (own i, wal i)) b @ F) ?st rst" using assms(1) inf by (simp add: sys_inv_def Let_def)
  note ag = agree_discard [OF this own ok, of vo "\<lambda>i. length (gc_records ?g i)"]
  have ph: "y_phase y \<noteq> NoLeader" "phase_ids (y_phase y) = b" using assms(2) by simp_all
  have res: "map fst (map (\<lambda>(i, _, _). (i, Inl (commit_error e))) ?ms) = b" by (simp add: comp_def)
  have "d_gc (flush_publish vo b (Inl e) d) = gc_resolve (map (\<lambda>(i, _, _). (i, Inl (commit_error e))) ?ms)
      (?g\<lparr>g_batches := g_batches ?g + 1, g_commits := g_commits ?g\<rparr>)"
    unfolding y' by (simp add: d)
  note gr = gc_resolve_batch [OF gc ph res this, folded F_def]
  have "d_storage (y_db ?y) = s'" "d_store (y_db ?y) = discard_batch vo ?ms ?st" unfolding y' by (simp_all add: d)
  moreover have "owners_ok ?y" using ow unfolding owners_ok_def gr(2) inf by auto
  ultimately show ?thesis
    using assms(1) gr un ag kept unfolding sys_inv_def Let_def by simp
qed

lemma sys_inv_ddl_fail:
  assumes "sys_inv env vo H rst y" and "st_append_wal ops (d_storage (y_db y)) tok rs = (Inl e, s')"
    and "untouched (d_storage (y_db y)) s'"
  shows "sys_inv env vo H rst (y\<lparr>y_db := (y_db y)\<lparr>d_storage := s'\<rparr>\<rparr>)" (is "sys_inv env vo H rst ?y")
proof -
  have kept: "ok s'" "hist s' = hist (d_storage (y_db y))" "nxt s' = nxt (d_storage (y_db y))"
    using failed_append [OF _ assms(2,3)] assms(1) by (auto simp: sys_inv_def Let_def)
  have i: "gc_ids ?y = gc_ids y" "inflight ?y = inflight y" "unpublished ?y = unpublished y"
    by (simp_all add: gc_ids_def inflight_def unpublished_def split: phase.split)
  have "gc_ok ?y = gc_ok y" "owners_ok ?y = owners_ok y"
    unfolding gc_ok_def owners_ok_def i by simp_all
  with assms(1) kept i show ?thesis by (simp add: sys_inv_def Let_def)
qed

lemma sys_inv_step:
  assumes "sys_step ops fits untouched env vo tok y y'" and "sys_inv env vo H rst y"
  shows "\<exists>H rst. sys_inv env vo H rst y'"
  using assms
proof (cases rule: sys_step.cases)
  case (sys_publish batch lst)
  then show ?thesis using sys_inv_publish [OF assms(2)] by simp
next
  case (sys_ddl op lst s')
  then show ?thesis using sys_inv_ddl [OF assms(2)] by simp
qed (use assms(2) in \<open>blast intro: sys_inv_acquire sys_inv_write sys_inv_index sys_inv_abort sys_inv_commit sys_inv_commit_empty
    sys_inv_drain sys_inv_append sys_inv_fail sys_inv_check sys_inv_reclaim sys_inv_ddl_fail\<close>)+

lemma sys_inv_reachable:
  assumes "(sys_step ops fits untouched env vo tok)\<^sup>*\<^sup>* (sys_open s) y" and "ok s" and "hist s = []" and "nxt s \<le> PENDING"
  shows "\<exists>H rst. sys_inv env vo H rst y"
  using assms(1)
proof (induction rule: rtranclp_induct)
  case base
  show ?case using sys_inv_open [OF assms(2-4)] by blast
next
  case (step y y')
  then show ?case using sys_inv_step by blast
qed

lemma sys_inv_settle: "sys_inv env vo H rst y \<Longrightarrow> \<exists>H rst. sys_inv env vo H rst (settle vo y) \<and> unpublished (settle vo y) = []"
proof (cases "y_phase y")
  case (Resolve b lst)
  assume "sys_inv env vo H rst y"
  from sys_inv_publish [OF this Resolve] Resolve show ?thesis by (auto simp: settle_def unpublished_def)
qed (auto simp: settle_def unpublished_def)

lemma recovery:
  assumes "(sys_step ops fits untouched env vo tok)\<^sup>*\<^sup>* (sys_open s) y" and "ok s" and "hist s = []" and "nxt s \<le> PENDING"
    and "st_scan_wal ops (d_storage (y_db y)) 0 = (Inr es, s')"
  shows "\<exists>rst. replay ops env vo (d_storage (y_db y)) store_default = (Inr rst, s') \<and>
    rmap_of rst = cp (rmap_of (d_store (y_db (settle vo y)))) \<and> smap_of rst = smap_of (d_store (y_db (settle vo y))) \<and>
    s_committed_lsn rst = s_committed_lsn (d_store (y_db (settle vo y))) \<and>
    (\<forall>(i, m)\<in>set (g_members (d_gc (y_db y))). \<forall>l. m_result m = Some (Inr l) \<longrightarrow> l \<le> s_committed_lsn rst)"
proof -
  obtain H rst where "sys_inv env vo H rst (settle vo y)" and u: "unpublished (settle vo y) = []"
    using sys_inv_reachable [OF assms(1-4)] sys_inv_settle by blast
  moreover have "d_storage (y_db (settle vo y)) = d_storage (y_db y)"
    by (simp add: settle_def flush_publish_def Let_def split: phase.splits prod.splits)
  ultimately have i: "ok (d_storage (y_db y))" "hist (d_storage (y_db y)) = H" "replays env vo H store_default rst"
      "agree (inflight (settle vo y)) (d_store (y_db (settle vo y))) rst"
      "s_committed_lsn (d_store (y_db (settle vo y))) = s_committed_lsn rst"
    by (simp_all add: sys_inv_def Let_def)
  have "es = H"
    using scan_exact [OF i(1) assms(5)] hist_below [OF i(1)] i(2) by (simp add: entries_after_def filter_id_conv)
  with i(3) have "replay_loop env vo es [] store_default = Inr rst"
    unfolding replays_def by (metis append_Nil2 replay_loop.simps(1))
  then have r: "replay ops env vo (d_storage (y_db y)) store_default = (Inr (rebuild_autoinc rst), s')"
    using assms(5) by (simp add: replay_def)
  have "cp (rmap_of (d_store (y_db (settle vo y)))) = rmap_of rst"
    using i(4) by (simp only: agree_def cp_pend cp_settled)
  moreover have "\<forall>(i, m)\<in>set (g_members (d_gc (y_db y))). \<forall>l. m_result m = Some (Inr l) \<longrightarrow> l \<le> s_committed_lsn rst"
    using acks_reachable [OF assms(1)] settle_committed [of y vo] i(5) by (fastforce simp: acks_ok_def)
  ultimately show ?thesis
    using r i(4,5) by (intro exI [of _ "rebuild_autoinc rst"]) (simp add: agree_def)
qed

lemma queue_has_leader:
  assumes "(sys_step ops fits untouched env vo tok)\<^sup>*\<^sup>* (sys_open s) y" and "ok s" and "hist s = []" and "nxt s \<le> PENDING"
  shows "(g_leader_active (d_gc (y_db y)) \<longleftrightarrow> y_phase y \<noteq> NoLeader) \<and>
    (g_queue (d_gc (y_db y)) \<noteq> [] \<longrightarrow> y_phase y \<noteq> NoLeader)"
  using sys_inv_reachable [OF assms] by (auto simp: sys_inv_def gc_ok_def Let_def)

end

end
