(* ===== verification/Crash_Recovery.thy ===== *)
theory Crash_Recovery
  imports Recovery
begin

text \<open>
  Crash recovery over the two backends the engine opens: the file log and the object log
  behind a faulty client.
\<close>


text \<open>One table created, one row written and not committed.\<close>

definition one_table :: table_schema where
  "one_table = \<lparr>sch_name = ''t'', sch_columns = [\<lparr>col_name = ''a'', col_ty = CtInteger, col_primary_key = True, col_not_null = True,
     col_unique = True, col_autoincrement = False, col_default_sql = None\<rparr>], sch_foreign_keys = [], sch_checks = [], sch_uniques = [],
     sch_rls_enabled = False, sch_policies = []\<rparr>"

definition plain_env :: "unit sql_env" where
  "plain_env = \<lparr>env_parse_view = \<lambda>_. None, env_eval_const = \<lambda>_. None\<rparr>"

definition zero_token :: fence_token where
  "zero_token = \<lparr>ft_epoch = 0, ft_owner = 1, ft_lease_until = 0\<rparr>"

lemma one_table_ok: "op_ok (CreateTable one_table)"
  by (simp add: one_table_def schema_ok_def str_ok_def strs_ok_def bytes_of_string_def column_ok_def opt_ok_def coltype_ok_def)

lemma one_table_fits: "wal_fits (txn_records [CreateTable one_table])"
  by (simp add: wal_fits_def wal_payload_def record_bytes_def txn_records_def one_table_def
    put_columns_def put_column_def put_str_def put_extras_def put_str_list_def put_default_def put_opt_str_def)

text \<open>The run of the witnesses: the table is created, a writer takes the lane and inserts a row.\<close>

lemma create_then_write:
  assumes "fits s (txn_records [CreateTable one_table])"
    and "st_append_wal ops s tok (txn_records [CreateTable one_table]) = (Inr 2, s1)"
  obtains y where "(sys_step ops fits untouched plain_env unit_index_ops tok)\<^sup>*\<^sup>* (sys_open s) y" and "d_storage (y_db y) = s1"
    and "y_phase y = NoLeader" and "rmap_of (d_store (y_db y)) ''t'' = Some [\<lparr>rv_vid = 1, rv_values = [VInt 9], rv_create_lsn = PENDING,
      rv_delete_lsn = 0, rv_owner = 1\<rparr>]"
    and "y_lane y = Some (1, [Insert ''t'' 1 [VInt 9]])" and "d_gc (y_db y) = gc_new"
proof -
  let ?st = "ddl_live plain_env unit_index_ops 2 (CreateTable one_table) store_default"
  define y1 :: "('a, unit, unit) sys" where "y1 = (sys_open s)\<lparr>y_db := (y_db (sys_open s))\<lparr>d_storage := s1,
      d_store := ddl_live plain_env unit_index_ops 2 (CreateTable one_table) (d_store (y_db (sys_open s)))\<rparr>\<rparr>"
  define y2 where "y2 = y1\<lparr>y_lane := Some (y_next_owner y1, []), y_next_owner := y_next_owner y1 + 1\<rparr>"
  have d: "d_store (y_db y2) = ?st" "y_lane y2 = Some (1, [])" "y_phase y2 = NoLeader" "d_storage (y_db y2) = s1" "d_gc (y_db y2) = gc_new"
    by (simp_all add: y2_def y1_def sys_open_def)
  have t: "s_tables ?st = [(''t'', table_new one_table)]"
    by (simp add: ddl_live_def Let_def store_default_def insert_table_def one_table_def to_ascii_lowercase_def lower_char_def)
  obtain st' wal' where w: "exec_write 0 1 (WInsert ''t'' [VInt 9]) (?st, []) = Some (st', wal')"
      "st' = table_mut ''t'' (append_row [VInt 9] 1) ?st" "wal' = [Insert ''t'' 1 [VInt 9]]"
    by (simp add: append_version_def get_table_def table_new_def t to_ascii_lowercase_def lower_char_def)
  define y3 where "y3 = y2\<lparr>y_db := (y_db y2)\<lparr>d_store := st'\<rparr>, y_lane := Some (1, wal')\<rparr>"
  have "sys_step ops fits untouched plain_env unit_index_ops tok (sys_open s) y1"
    unfolding y1_def
    by (rule sys_ddl [OF _ _ _ _ _ one_table_ok]) (use assms in \<open>simp_all add: sys_open_def gc_new_def PENDING_def\<close>)
  moreover have "sys_step ops fits untouched plain_env unit_index_ops tok y1 y2"
    unfolding y2_def by (rule sys_acquire) (simp add: y1_def sys_open_def)
  moreover have "sys_step ops fits untouched plain_env unit_index_ops tok y2 y3"
    unfolding y3_def by (rule sys_write [OF d(2), of 0 "WInsert ''t'' [VInt 9]"]) (use w in \<open>simp_all add: d PENDING_def\<close>)
  ultimately have "(sys_step ops fits untouched plain_env unit_index_ops tok)\<^sup>*\<^sup>* (sys_open s) y3"
    by (meson r_into_rtranclp rtranclp.rtrancl_into_rtrancl)
  moreover have "rmap_of st' ''t'' = Some [\<lparr>rv_vid = 1, rv_values = [VInt 9], rv_create_lsn = PENDING, rv_delete_lsn = 0, rv_owner = 1\<rparr>]"
    by (simp add: w(2) rmap_of_table_mut t to_ascii_lowercase_def lower_char_def append_row_def alloc_vid_def table_new_def)
  ultimately show ?thesis by (intro that [of y3]) (simp_all add: y3_def d w)
qed

abbreviation row_records :: "wal_record list" where
  "row_records \<equiv> txn_records [Insert ''t'' 1 [VInt 9]]"

text \<open>The writer commits and leads: its transaction is in the batch to be appended.\<close>

lemma queue_row:
  fixes y :: "('s, unit, unit) sys"
  assumes "y_lane y = Some (1, [Insert ''t'' 1 [VInt 9]])" and "d_gc (y_db y) = gc_new"
  obtains y2 where "(sys_step ops fits untouched plain_env unit_index_ops tok)\<^sup>*\<^sup>* y y2" and "y_phase y2 = Flush [1]"
    and "d_storage (y_db y2) = d_storage (y_db y)" and "d_store (y_db y2) = d_store (y_db y)"
    and "batch_members (d_gc (y_db y2)) [1] = [(1, 1, 2)]" and "batch_records (d_gc (y_db y2)) [1] = row_records"
proof -
  obtain g where g: "gc_enqueue 1 row_records (d_gc (y_db y)) = ((1, True), g)" "g_queue g = [1]"
      "g_members g = [(1, \<lparr>m_owner = 1, m_records = row_records, m_result = None, m_done = False\<rparr>)]"
    by (simp add: gc_enqueue_def assms(2) gc_new_def)
  define y1 where "y1 = y\<lparr>y_db := (y_db y)\<lparr>d_gc := g\<rparr>, y_lane := None, y_phase := if True then Drain else y_phase y\<rparr>"
  define y2 where "y2 = y1\<lparr>y_db := (y_db y1)\<lparr>d_gc := g\<lparr>g_queue := []\<rparr>\<rparr>, y_phase := if [1] = ([] :: nat list) then Check else Flush [1]\<rparr>"
  have "sys_step ops fits untouched plain_env unit_index_ops tok y y1"
    unfolding y1_def by (rule sys_commit [OF assms(1) _ _ g(1)]) (simp_all add: str_ok_def bytes_of_string_def)
  moreover have "sys_step ops fits untouched plain_env unit_index_ops tok y1 y2"
    unfolding y2_def by (rule sys_drain) (simp_all add: y1_def drain_batch_def g(2))
  ultimately have "(sys_step ops fits untouched plain_env unit_index_ops tok)\<^sup>*\<^sup>* y y2"
    by (meson r_into_rtranclp rtranclp.rtrancl_into_rtrancl)
  then show ?thesis
    by (rule that) (simp_all add: y2_def y1_def batch_members_def batch_records_def gc_owner_def gc_records_def g(3))
qed

lemma rmap_of_publish_one: "rmap_of (snd (publish_batch vo 4 [(i, w, 2)] st)) = fin w 4 (rmap_of st)"
proof -
  have "rmap_of (st\<lparr>s_committed_lsn := l\<rparr>) = rmap_of st" for st :: "('a, 'b) store" and l
    by (simp add: rmap_of_def fun_eq_iff)
  then show ?thesis by (simp add: publish_batch_def rmap_of_finalize)
qed

text \<open>The append succeeds: the row is published at the LSN of the commit marker.\<close>

lemma row_committed:
  fixes y :: "('s, unit, unit) sys"
  assumes "y_lane y = Some (1, [Insert ''t'' 1 [VInt 9]])" and "d_gc (y_db y) = gc_new"
    and "rmap_of (d_store (y_db y)) ''t'' = Some [\<lparr>rv_vid = 1, rv_values = [VInt 9], rv_create_lsn = PENDING, rv_delete_lsn = 0, rv_owner = 1\<rparr>]"
    and "fits (d_storage (y_db y)) row_records" and "st_append_wal ops (d_storage (y_db y)) tok row_records = (Inr 4, s2)"
  obtains y2 where "(sys_step ops fits untouched plain_env unit_index_ops tok)\<^sup>*\<^sup>* y y2" and "y_phase y2 = Check"
    and "d_storage (y_db y2) = s2"
    and "rmap_of (d_store (y_db y2)) ''t'' = Some [\<lparr>rv_vid = 1, rv_values = [VInt 9], rv_create_lsn = 4, rv_delete_lsn = 0, rv_owner = 0\<rparr>]"
proof -
  obtain y1 where y1: "(sys_step ops fits untouched plain_env unit_index_ops tok)\<^sup>*\<^sup>* y y1" "y_phase y1 = Flush [1]"
      "d_storage (y_db y1) = d_storage (y_db y)" "d_store (y_db y1) = d_store (y_db y)"
      "batch_members (d_gc (y_db y1)) [1] = [(1, 1, 2)]" "batch_records (d_gc (y_db y1)) [1] = row_records"
    by (rule queue_row [OF assms(1,2)])
  let ?d = "(y_db y1)\<lparr>d_storage := s2, d_gc := (d_gc (y_db y1))\<lparr>g_batches := g_batches (d_gc (y_db y1)) + 1\<rparr>\<rparr>"
  have fl: "flush_append ops tok [1] (y_db y1) = (Inr 4, ?d)"
    using assms(5) y1 by (simp add: flush_append_def)
  define y2 where "y2 = y1\<lparr>y_db := ?d, y_phase := Resolve [1] 4\<rparr>"
  define y3 where "y3 = y2\<lparr>y_db := flush_publish unit_index_ops [1] (Inr 4) (y_db y2), y_phase := Check\<rparr>"
  have "sys_step ops fits untouched plain_env unit_index_ops tok y1 y2"
    unfolding y2_def by (rule sys_append [OF y1(2) _ fl]) (use y1 assms(4) in \<open>simp_all add: PENDING_def\<close>)
  moreover have "sys_step ops fits untouched plain_env unit_index_ops tok y2 y3"
    unfolding y3_def by (rule sys_publish) (simp add: y2_def)
  moreover have m: "batch_members (d_gc ?d) [1] = [(1, 1, 2)]"
    using y1(5) by (simp add: batch_members_def gc_owner_def gc_records_def)
  have "d_store (y_db y3) = snd (publish_batch unit_index_ops 4 [(1, 1, 2)] (d_store (y_db y)))" "d_storage (y_db y3) = s2"
    using y1(4) unfolding y3_def y2_def flush_publish_def by (simp_all add: m [simplified] Let_def split: prod.split)
  moreover from this have "rmap_of (d_store (y_db y3)) ''t'' = fin 1 4 (rmap_of (d_store (y_db y))) ''t''"
    by (simp add: rmap_of_publish_one)
  then have "rmap_of (d_store (y_db y3)) ''t'' = Some [\<lparr>rv_vid = 1, rv_values = [VInt 9], rv_create_lsn = 4, rv_delete_lsn = 0, rv_owner = 0\<rparr>]"
    by (simp add: fin_def assms(3) finalize_row_def PENDING_def)
  ultimately show ?thesis
    using y1(1) by (intro that [of y3]) (auto simp: y3_def intro: rtranclp.rtrancl_into_rtrancl)
qed

text \<open>The append fails: the row is discarded.\<close>

lemma row_discarded:
  fixes y :: "('s, unit, unit) sys"
  assumes "y_lane y = Some (1, [Insert ''t'' 1 [VInt 9]])" and "d_gc (y_db y) = gc_new"
    and "rmap_of (d_store (y_db y)) ''t'' = Some [\<lparr>rv_vid = 1, rv_values = [VInt 9], rv_create_lsn = PENDING, rv_delete_lsn = 0, rv_owner = 1\<rparr>]"
    and "st_append_wal ops (d_storage (y_db y)) tok row_records = (Inl e, s2)" and "untouched (d_storage (y_db y)) s2"
  obtains y2 where "(sys_step ops fits untouched plain_env unit_index_ops tok)\<^sup>*\<^sup>* y y2" and "y_phase y2 = Check"
    and "d_storage (y_db y2) = s2" and "rmap_of (d_store (y_db y2)) ''t'' = Some []"
proof -
  obtain y1 where y1: "(sys_step ops fits untouched plain_env unit_index_ops tok)\<^sup>*\<^sup>* y y1" "y_phase y1 = Flush [1]"
      "d_storage (y_db y1) = d_storage (y_db y)" "d_store (y_db y1) = d_store (y_db y)"
      "batch_members (d_gc (y_db y1)) [1] = [(1, 1, 2)]" "batch_records (d_gc (y_db y1)) [1] = row_records"
    by (rule queue_row [OF assms(1,2)])
  let ?d = "(y_db y1)\<lparr>d_storage := s2, d_gc := (d_gc (y_db y1))\<lparr>g_batches := g_batches (d_gc (y_db y1)) + 1\<rparr>\<rparr>"
  have fl: "flush_append ops tok [1] (y_db y1) = (Inl e, ?d)"
    using assms(4) y1 by (simp add: flush_append_def)
  define y2 where "y2 = y1\<lparr>y_db := flush_publish unit_index_ops [1] (Inl e) ?d, y_phase := Check\<rparr>"
  have "sys_step ops fits untouched plain_env unit_index_ops tok y1 y2"
    unfolding y2_def by (rule sys_fail [OF y1(2) fl]) (use y1 assms(5) in simp)
  moreover have m: "batch_members (d_gc ?d) [1] = [(1, 1, 2)]"
    using y1(5) by (simp add: batch_members_def gc_owner_def gc_records_def)
  have "d_store (y_db y2) = rollback_owner unit_index_ops 1 (d_store (y_db y))" "d_storage (y_db y2) = s2"
    using y1(4) unfolding y2_def flush_publish_def m by (simp_all add: discard_batch_def)
  ultimately show ?thesis
    using y1(1) assms(3) by (intro that [of y2])
      (auto simp: y2_def rmap_of_rollback rb_def rollback_rows_def pending_insert_def intro: rtranclp.rtrancl_into_rtrancl)
qed

lemma fresh_empty: "local_hist fresh_local = []" "l_next_lsn fresh_local \<le> PENDING"
  using local_rep_hist [OF fresh_rep] by (simp_all add: fresh_local_def inner_base_def PENDING_def wal_history_def)

lemma local_create: "\<exists>g1. st_append_wal local_storage fresh_local zero_token (txn_records [CreateTable one_table]) = (Inr 2, g1) \<and>
    local_inv g1 \<and> vf_faults (l_file g1) = [] \<and> l_next_lsn g1 = 3 \<and> l_epoch g1 = 0"
proof -
  let ?rs = "txn_records [CreateTable one_table]"
  have f: "vf_faults (l_file fresh_local) = []" "l_next_lsn fresh_local = 1" "l_epoch fresh_local = 0"
    by (simp_all add: fresh_local_def inner_base_def)
  have t: "?rs \<noteq> []" "ft_epoch zero_token = l_epoch fresh_local"
    by (simp_all add: txn_records_def zero_token_def f)
  obtain g1 where g: "local_append_wal fresh_local zero_token ?rs = (Inr (l_next_lsn fresh_local + length ?rs - 1), g1)"
      "local_inv g1" "vf_faults (l_file g1) = []"
    by (rule local_append_no_faults [OF fresh_inv one_table_fits t f(1)])
  have "l_next_lsn fresh_local + length ?rs - 1 = 2" by (simp add: f)
  with g local_append_exact [OF fresh_inv one_table_fits g(1)] f show ?thesis
    by (auto simp: local_storage_def)
qed



text \<open>A client that fails its second conditional put before it reaches the bucket.\<close>

definition faulty_bucket :: "mem_store fault_store object_state" where
  "faulty_bucket = fresh_bucket (fault_arm (fault_new mem_new) \<lparr>fp_kind = FkPutIfAbsent, fp_fire_at = 2, fp_mode = BeforeOp\<rparr>)"

lemma faulty_bucket_ok:
  "object_ok (\<lambda>s. mem_ok (fs_inner s)) (\<lambda>s. mem_obj (fs_inner s)) faulty_bucket"
  "object_hist (\<lambda>s. mem_obj (fs_inner s)) faulty_bucket = []" "o_next_lsn faulty_bucket \<le> PENDING"
proof -
  have "writer_rep (\<lambda>s. mem_ok (fs_inner s)) (\<lambda>s. mem_obj (fs_inner s)) [] faulty_bucket"
    using fresh_bucket_writer by (simp add: writer_rep_def faulty_bucket_def fault_arm_def fresh_bucket_def fault_new_def)
  from this writer_rep_hist [OF this] show
    "object_ok (\<lambda>s. mem_ok (fs_inner s)) (\<lambda>s. mem_obj (fs_inner s)) faulty_bucket"
    "object_hist (\<lambda>s. mem_obj (fs_inner s)) faulty_bucket = []" "o_next_lsn faulty_bucket \<le> PENDING"
    by (auto simp: object_ok_def faulty_bucket_def fresh_bucket_def PENDING_def)
qed

lemma faulty_bucket_run:
  assumes "seg_ok [Wal a, Wal b]"
  shows "\<exists>st1 st2 es st3. object_append_wal (fault_object_store mem_object_store) faulty_bucket first_token [a, b] = (Inr 2, st1) \<and>
     object_append_wal (fault_object_store mem_object_store) st1 first_token [c, d] = (Inl Transient, st2) \<and>
     bucket_untouched (\<lambda>s. mem_obj (fs_inner s)) st1 st2 \<and> fs_fired (o_store st2) \<and>
     object_scan_wal (fault_object_store mem_object_store) st2 0 = (Inr es, st3)"
  using assms
  by (simp add: append_eval faulty_bucket_def fault_arm_def bucket_untouched_def object_scan_wal_def read_segment_def
      decode_segment_encode seg_ok_def)

lemma one_table_seg: "seg_ok (map Wal (txn_records [CreateTable one_table]))"
  by (simp add: seg_ok_def txn_records_def one_table_def put_columns_def put_column_def put_str_def put_extras_def put_str_list_def
    put_default_def put_opt_str_def)


text \<open>C16. No lost wake-up: in every state the engine reaches, a leader is registered exactly while a
  connection leads, and a commit that is queued has one.  So a connection that waits for its
  commit never waits for nobody.\<close>

theorem queued_commit_has_leader:
  assumes "(sys_step local_storage (\<lambda>_. wal_fits) file_untouched env vo tok)\<^sup>*\<^sup>* (sys_open s) y"
    and "local_inv s" and "local_hist s = []" and "l_next_lsn s \<le> PENDING"
  shows "(g_leader_active (d_gc (y_db y)) \<longleftrightarrow> y_phase y \<noteq> NoLeader) \<and>
    (g_queue (d_gc (y_db y)) \<noteq> [] \<longrightarrow> y_phase y \<noteq> NoLeader)"
  by (rule local_faults.queue_has_leader [OF assms])

theorem queued_commit_has_leader_witness:
  "\<exists>y. (sys_step local_storage (\<lambda>_. wal_fits) file_untouched plain_env unit_index_ops zero_token)\<^sup>*\<^sup>* (sys_open fresh_local) y \<and>
     g_queue (d_gc (y_db y)) = [1] \<and> g_leader_active (d_gc (y_db y))"
proof -
  obtain g1 where st: "st_append_wal local_storage fresh_local zero_token (txn_records [CreateTable one_table]) = (Inr 2, g1)"
    using local_create by blast
  obtain y where y: "(sys_step local_storage (\<lambda>_. wal_fits) file_untouched plain_env unit_index_ops zero_token)\<^sup>*\<^sup>* (sys_open fresh_local) y"
      "y_lane y = Some (1, [Insert ''t'' 1 [VInt 9]])" "d_gc (y_db y) = gc_new"
    by (rule create_then_write [of "\<lambda>_. wal_fits" fresh_local local_storage zero_token g1, OF one_table_fits st])
  obtain g where g: "gc_enqueue 1 (txn_records [Insert ''t'' 1 [VInt 9]]) (d_gc (y_db y)) = ((1, True), g)" "g_queue g = [1]"
    by (simp add: gc_enqueue_def y(3) gc_new_def)
  have "sys_step local_storage (\<lambda>_. wal_fits) file_untouched plain_env unit_index_ops zero_token y
      (y\<lparr>y_db := (y_db y)\<lparr>d_gc := g\<rparr>, y_lane := None, y_phase := if True then Drain else y_phase y\<rparr>)"
    by (rule sys_commit [OF y(2) _ _ g(1)]) (simp_all add: str_ok_def bytes_of_string_def)
  with y(1) have r: "(sys_step local_storage (\<lambda>_. wal_fits) file_untouched plain_env unit_index_ops zero_token)\<^sup>*\<^sup>* (sys_open fresh_local)
      (y\<lparr>y_db := (y_db y)\<lparr>d_gc := g\<rparr>, y_lane := None, y_phase := Drain\<rparr>)"
    by (simp add: rtranclp.rtrancl_into_rtrancl)
  from queued_commit_has_leader [OF r fresh_inv fresh_empty] g(2) r show ?thesis by fastforce
qed

end
