(* ===== verification/Conn_Ddl.thy ===== *)
theory Conn_Ddl
  imports Crash_Recovery
begin

text \<open>
  Schema statements of a connection (\<^verbatim>\<open>do_ddl\<close> and its helpers in
  \<^verbatim>\<open>crates/engine/src/conn.rs\<close>): each validates against the catalog, appends one logical
  operation and a commit marker straight to storage, and then changes the store.  The caller
  holds the write lane with group commit quiesced (\<^verbatim>\<open>exec_ddl\<close>).  Parsing a policy predicate
  (\<open>px\<close>), the relations a parsed query names (\<open>refs\<close>) and the page images of a vector index
  (\<open>frames\<close>) are parameters.
\<close>

section \<open>Statements\<close>

record column_spec =
  cs_name :: string
  cs_ty :: column_type
  cs_primary_key :: bool
  cs_not_null :: bool
  cs_unique :: bool
  cs_autoincrement :: bool
  cs_default_sql :: "string option"
  cs_check_sql :: "string option"
  cs_references :: "(string \<times> string option) option"

record foreign_key_spec =
  fks_name :: "string option"
  fks_columns :: "string list"
  fks_foreign_table :: string
  fks_foreign_columns :: "string list"

record policy_def =
  pd_name :: string
  pd_table :: string
  pd_command :: policy_command
  pd_roles :: "string list"
  pd_using :: "string option"
  pd_check :: "string option"

datatype alter_action =
    AddColumn column_spec
  | DropColumn string bool
  | RenameColumn string string
  | RenameTable string
  | SetRlsTo bool

datatype 'q ddl_stmt =
    StCreateTable string "column_spec list" "foreign_key_spec list" "string list" "string list list" "string list" bool
  | StAlterTable string alter_action
  | StDropTable string bool
  | StCreateIndex string string string index_params bool
  | StDropIndex string bool
  | StCreateView string 'q string bool bool
  | StDropView string bool
  | StCreatePolicy policy_def
  | StDropPolicy string string bool

type_synonym ('s, 'x, 'q) ddl = "('s, 'x, 'q) db \<Rightarrow> nat option eres \<times> ('s, 'x, 'q) db"

section \<open>Validation\<close>

text \<open>A table-level \<^verbatim>\<open>PRIMARY KEY (cols)\<close> is folded into the columns.\<close>

fun fold_primary_key :: "column list \<Rightarrow> string list \<Rightarrow> column list eres" where
  "fold_primary_key cols [] = Inr cols"
| "fold_primary_key cols (pk # pks) =
     (case position (\<lambda>c. eq_ignore_ascii_case (col_name c) pk) cols of
        None \<Rightarrow> Inl ErrSql
      | Some idx \<Rightarrow> fold_primary_key (cols[idx := (cols ! idx)\<lparr>col_primary_key := True, col_not_null := True\<rparr>]) pks)"

definition column_of_spec :: "column_spec \<Rightarrow> column" where
  "column_of_spec c = \<lparr>col_name = cs_name c, col_ty = cs_ty c, col_primary_key = cs_primary_key c, col_not_null = cs_not_null c,
     col_unique = cs_unique c, col_autoincrement = cs_autoincrement c, col_default_sql = cs_default_sql c\<rparr>"

definition pk_of :: "column list \<Rightarrow> string list" where
  "pk_of cols = map col_name (filter col_primary_key cols)"

definition referenced_pk :: "('x, 'q) store \<Rightarrow> string \<Rightarrow> column list \<Rightarrow> string \<Rightarrow> string list option" where
  "referenced_pk st table local_columns ft =
     Option.bind (if eq_ignore_ascii_case ft table then Some (pk_of local_columns)
                  else map_option (\<lambda>t. pk_of (sch_columns (t_schema t))) (get_table st ft))
       (\<lambda>pk. if pk = [] then None else Some pk)"

fun join_with :: "string \<Rightarrow> string list \<Rightarrow> string" where
  "join_with sep [] = []"
| "join_with sep [x] = x"
| "join_with sep (x # y # ys) = x @ sep @ join_with sep (y # ys)"

definition resolve_foreign_key :: "('x, 'q) store \<Rightarrow> string \<Rightarrow> column list \<Rightarrow> foreign_key_spec \<Rightarrow> foreign_key eres" where
  "resolve_foreign_key st table local_columns fk =
     (case (if fks_foreign_columns fk = [] then referenced_pk st table local_columns (fks_foreign_table fk)
            else Some (fks_foreign_columns fk)) of
        None \<Rightarrow> Inl ErrSql
      | Some foreign_columns \<Rightarrow>
          if length foreign_columns \<noteq> length (fks_columns fk) then Inl ErrSql
          else Inr \<lparr>fk_name = (case fks_name fk of Some n \<Rightarrow> n | None \<Rightarrow> table @ ''_'' @ join_with ''_'' (fks_columns fk) @ ''_fkey''),
                    fk_columns = fks_columns fk, fk_foreign_table = fks_foreign_table fk, fk_foreign_columns = foreign_columns\<rparr>)"

fun resolve_foreign_keys :: "('x, 'q) store \<Rightarrow> string \<Rightarrow> column list \<Rightarrow> foreign_key_spec list \<Rightarrow> foreign_key list eres" where
  "resolve_foreign_keys st table cols [] = Inr []"
| "resolve_foreign_keys st table cols (fk # fks) =
     (case resolve_foreign_key st table cols fk of
        Inl e \<Rightarrow> Inl e
      | Inr f \<Rightarrow> map_sum id (Cons f) (resolve_foreign_keys st table cols fks))"

text \<open>The search of \<^verbatim>\<open>view_would_cycle\<close>: a stack of relation names, its top first, and the names
  seen.  It ends because a name that is expanded is a stored view seen for the first time.\<close>

function cycle_search :: "('q \<Rightarrow> string list) \<Rightarrow> ('x, 'q) store \<Rightarrow> string \<Rightarrow> string list \<Rightarrow> string set \<Rightarrow> bool" where
  "cycle_search refs st new_name [] seen = False"
| "cycle_search refs st new_name (n # stack) seen =
     (if eq_ignore_ascii_case n new_name then True
      else if key n \<in> seen then cycle_search refs st new_name stack seen
      else cycle_search refs st new_name
             ((case view st n of Some q \<Rightarrow> rev (refs q) | None \<Rightarrow> []) @ stack) (insert (key n) seen))"
  by pat_completeness auto

termination cycle_search
proof (relation "measures [\<lambda>(refs, st, new_name, stack, seen). card (fst ` set (s_views st) - seen), \<lambda>(refs, st, new_name, stack, seen). length stack]")
  fix refs :: "'q \<Rightarrow> string list" and st :: "('x, 'q) store" and new_name n stack seen
  assume fresh: "key n \<notin> seen"
  let ?K = "fst ` set (s_views st)"
  show "((refs, st, new_name, (case view st n of Some q \<Rightarrow> rev (refs q) | None \<Rightarrow> []) @ stack, insert (key n) seen), refs, st, new_name, n # stack, seen)
      \<in> measures [\<lambda>(refs, st, new_name, stack, seen). card (fst ` set (s_views st) - seen), \<lambda>(refs, st, new_name, stack, seen). length stack]"
  proof (cases "view st n")
    case None
    then have "key n \<notin> ?K" by (simp add: view_def map_of_eq_None_iff)
    then have "?K - insert (key n) seen = ?K - seen" by auto
    with None show ?thesis by simp
  next
    case (Some q)
    then have "key n \<in> ?K" unfolding view_def by (metis domI dom_map_of_conv_image_fst)
    then have "?K - insert (key n) seen \<subset> ?K - seen" using fresh by auto
    then have "card (?K - insert (key n) seen) < card (?K - seen)" by (intro psubset_card_mono) auto
    then show ?thesis by simp
  qed
qed auto

definition view_would_cycle :: "('q \<Rightarrow> string list) \<Rightarrow> ('x, 'q) store \<Rightarrow> string \<Rightarrow> 'q \<Rightarrow> bool" where
  "view_would_cycle refs st new_name q = cycle_search refs st new_name (rev (refs q)) {}"

section \<open>Durable schema changes\<close>

text \<open>The tail all of them share: two records, one append, then the store under its lock.\<close>

definition log_ddl :: "'s storage \<Rightarrow> fence_token \<Rightarrow> wal_op \<Rightarrow> (('x, 'q) store \<Rightarrow> ('x, 'q) store) \<Rightarrow> ('s, 'x, 'q) ddl" where
  "log_ddl ops tok op f d = (case st_append_wal ops (d_storage d) tok [encode_op op, encode_op Commit] of
     (Inl e, s') \<Rightarrow> (Inl (commit_error e), d\<lparr>d_storage := s'\<rparr>)
   | (Inr lsn, s') \<Rightarrow> (Inr (Some lsn), d\<lparr>d_storage := s',
        d_store := (let st = f (d_store d) in st\<lparr>s_committed_lsn := max (s_committed_lsn st) lsn\<rparr>)\<rparr>))"

definition do_create_table :: "'s storage \<Rightarrow> fence_token \<Rightarrow> string \<Rightarrow> column_spec list \<Rightarrow> foreign_key_spec list \<Rightarrow> string list \<Rightarrow>
    string list list \<Rightarrow> string list \<Rightarrow> bool \<Rightarrow> ('s, 'x, 'q) ddl" where
  "do_create_table ops tok name columns foreign_keys primary_key uniques checks if_not_exists d =
     (if has_table (d_store d) name then (if if_not_exists then (Inr None, d) else (Inl ErrSql, d))
      else case fold_primary_key (map column_of_spec columns) primary_key of
        Inl e \<Rightarrow> (Inl e, d)
      | Inr cols \<Rightarrow> (case resolve_foreign_keys (d_store d) name cols foreign_keys of
          Inl e \<Rightarrow> (Inl e, d)
        | Inr fks \<Rightarrow>
            (let schema = \<lparr>sch_name = name, sch_columns = cols, sch_foreign_keys = fks, sch_checks = checks, sch_uniques = uniques,
               sch_rls_enabled = False, sch_policies = []\<rparr>
             in log_ddl ops tok (CreateTable schema) (insert_table schema) d)))"

definition do_drop_table :: "'s storage \<Rightarrow> fence_token \<Rightarrow> 'x vector_ops \<Rightarrow> string \<Rightarrow> bool \<Rightarrow> ('s, 'x, 'q) ddl" where
  "do_drop_table ops tok vo name if_exists d =
     (if \<not> has_table (d_store d) name then (if if_exists then (Inr None, d) else (Inl ErrSql, d))
      else log_ddl ops tok (DropTable name) (\<lambda>st. snd (drop_table vo name st)) d)"

definition has_policy :: "('x, 'q) store \<Rightarrow> string \<Rightarrow> string \<Rightarrow> bool" where
  "has_policy st table name = (case get_table st table of None \<Rightarrow> False
     | Some t \<Rightarrow> list_ex (\<lambda>p. eq_ignore_ascii_case (pol_name p) name) (sch_policies (t_schema t)))"

definition do_create_policy :: "'s storage \<Rightarrow> fence_token \<Rightarrow> (string \<Rightarrow> bool) \<Rightarrow> policy_def \<Rightarrow> ('s, 'x, 'q) ddl" where
  "do_create_policy ops tok px def d =
     (if get_table (d_store d) (pd_table def) = None \<or> has_policy (d_store d) (pd_table def) (pd_name def) then (Inl ErrSql, d)
      else if (case pd_using def of Some u \<Rightarrow> \<not> px u | None \<Rightarrow> False) \<or> (case pd_check def of Some c \<Rightarrow> \<not> px c | None \<Rightarrow> False)
      then (Inl ErrSql, d)
      else let policy = \<lparr>pol_name = pd_name def, pol_command = pd_command def, pol_roles = pd_roles def, pol_using = pd_using def,
             pol_check = pd_check def\<rparr>
        in log_ddl ops tok (CreatePolicy (pd_table def) policy) (add_policy (pd_table def) policy) d)"

definition do_drop_policy :: "'s storage \<Rightarrow> fence_token \<Rightarrow> string \<Rightarrow> string \<Rightarrow> bool \<Rightarrow> ('s, 'x, 'q) ddl" where
  "do_drop_policy ops tok name table if_exists d =
     (if \<not> has_policy (d_store d) table name then (if if_exists then (Inr None, d) else (Inl ErrSql, d))
      else log_ddl ops tok (DropPolicy table name) (\<lambda>st. snd (drop_policy table name st)) d)"

definition do_create_view :: "'s storage \<Rightarrow> fence_token \<Rightarrow> ('q \<Rightarrow> string list) \<Rightarrow> string \<Rightarrow> 'q \<Rightarrow> string \<Rightarrow> bool \<Rightarrow> bool \<Rightarrow> ('s, 'x, 'q) ddl" where
  "do_create_view ops tok refs name query sql or_replace if_not_exists d =
     (if has_table (d_store d) name then (Inl ErrSql, d)
      else if has_view (d_store d) name \<and> \<not> or_replace then (if if_not_exists then (Inr None, d) else (Inl ErrSql, d))
      else if view_would_cycle refs (d_store d) name query then (Inl ErrSql, d)
      else log_ddl ops tok (CreateView name sql) (insert_view name query) d)"

definition do_drop_view :: "'s storage \<Rightarrow> fence_token \<Rightarrow> string \<Rightarrow> bool \<Rightarrow> ('s, 'x, 'q) ddl" where
  "do_drop_view ops tok name if_exists d =
     (if \<not> has_view (d_store d) name then (if if_exists then (Inr None, d) else (Inl ErrSql, d))
      else log_ddl ops tok (DropView name) (\<lambda>st. snd (drop_view name st)) d)"

text \<open>\<^verbatim>\<open>checkpoint_vector_index\<close> (db.rs): best effort, it stops at the first page that fails.\<close>

fun checkpoint_pages :: "'s storage \<Rightarrow> fence_token \<Rightarrow> nat \<Rightarrow> bytes list \<Rightarrow> 's \<Rightarrow> 's" where
  "checkpoint_pages ops tok pid [] s = s"
| "checkpoint_pages ops tok pid (f # fs) s =
     (if length f > PAGE_SIZE then s
      else case st_put_page ops s tok pid f of
        (Inl e, s') \<Rightarrow> s'
      | (Inr l, s') \<Rightarrow> checkpoint_pages ops tok (Suc pid) fs s')"

definition checkpoint_vector_index :: "'s storage \<Rightarrow> fence_token \<Rightarrow> ('x \<Rightarrow> nat \<Rightarrow> bytes list option) \<Rightarrow> string \<Rightarrow> nat \<Rightarrow>
    ('s, 'x, 'q) db \<Rightarrow> ('s, 'x, 'q) db" where
  "checkpoint_vector_index ops tok frames name reflected_lsn d =
     (case Option.bind (hm_get (s_indexes (d_store d)) (key name)) (\<lambda>ix. frames ix reflected_lsn) of
        None \<Rightarrow> d
      | Some fs \<Rightarrow> d\<lparr>d_storage := checkpoint_pages ops tok (unat (index_page_region name)) fs (d_storage d)\<rparr>)"

definition do_create_index :: "'s storage \<Rightarrow> fence_token \<Rightarrow> 'x vector_ops \<Rightarrow> ('x \<Rightarrow> nat \<Rightarrow> bytes list option) \<Rightarrow> string \<Rightarrow> string \<Rightarrow> string \<Rightarrow>
    index_params \<Rightarrow> bool \<Rightarrow> ('s, 'x, 'q) ddl" where
  "do_create_index ops tok vo frames name table column params if_not_exists d =
     (if has_index (d_store d) name then (if if_not_exists then (Inr None, d) else (Inl ErrSql, d))
      else case get_table (d_store d) table of
        None \<Rightarrow> (Inl ErrSql, d)
      | Some t \<Rightarrow> (case column_index (t_schema t) column of
          None \<Rightarrow> (Inl ErrSql, d)
        | Some col \<Rightarrow>
            if \<not> is_vector (col_ty (sch_columns (t_schema t) ! col)) then (Inl ErrSql, d)
            else let def = \<lparr>ix_name = name, ix_table = table, ix_column = column, ix_params = params\<rparr>
              in case log_ddl ops tok (CreateIndex def) (create_index vo def) d of
                (Inr (Some lsn), d1) \<Rightarrow> (Inr (Some lsn), checkpoint_vector_index ops tok frames name lsn d1)
              | r \<Rightarrow> r))"

definition do_drop_index :: "'s storage \<Rightarrow> fence_token \<Rightarrow> string \<Rightarrow> bool \<Rightarrow> ('s, 'x, 'q) ddl" where
  "do_drop_index ops tok name if_exists d =
     (if \<not> has_index (d_store d) name then (if if_exists then (Inr None, d) else (Inl ErrSql, d))
      else log_ddl ops tok (DropIndex name) (\<lambda>st. snd (drop_index name st)) d)"

definition has_column :: "('x, 'q) store \<Rightarrow> string \<Rightarrow> string \<Rightarrow> bool" where
  "has_column st table name = (case get_table st table of None \<Rightarrow> False | Some t \<Rightarrow> column_index (t_schema t) name \<noteq> None)"

text \<open>The operation an \<^verbatim>\<open>ALTER TABLE\<close> action stands for, \<open>Inr None\<close> when there is nothing to do.\<close>

fun alter_op :: "('x, 'q) store \<Rightarrow> string \<Rightarrow> alter_action \<Rightarrow> wal_op option eres" where
  "alter_op st table (AddColumn spec) =
     (if has_column st table (cs_name spec) then Inl ErrSql
      else Inr (Some (AlterAddColumn table ((column_of_spec spec)\<lparr>col_primary_key := False\<rparr>))))"
| "alter_op st table (DropColumn name if_exists) =
     (if \<not> has_column st table name then (if if_exists then Inr None else Inl ErrSql)
      else Inr (Some (AlterDropColumn table name)))"
| "alter_op st table (RenameColumn from to) = Inr (Some (AlterRenameColumn table from to))"
| "alter_op st table (RenameTable to) = Inr (Some (AlterRenameTable table to))"
| "alter_op st table (SetRlsTo enabled) = Inr (Some (SetRls table enabled))"

definition do_alter :: "'s storage \<Rightarrow> fence_token \<Rightarrow> 'q sql_env \<Rightarrow> string \<Rightarrow> alter_action \<Rightarrow> ('s, 'x, 'q) ddl" where
  "do_alter ops tok env table action d =
     (if \<not> has_table (d_store d) table then (Inl ErrSql, d)
      else case alter_op (d_store d) table action of
        Inl e \<Rightarrow> (Inl e, d)
      | Inr None \<Rightarrow> (Inr None, d)
      | Inr (Some op) \<Rightarrow> log_ddl ops tok op (apply_alter env op) d)"

fun do_ddl :: "'s storage \<Rightarrow> fence_token \<Rightarrow> 'q sql_env \<Rightarrow> 'x vector_ops \<Rightarrow> (string \<Rightarrow> bool) \<Rightarrow> ('q \<Rightarrow> string list) \<Rightarrow>
    ('x \<Rightarrow> nat \<Rightarrow> bytes list option) \<Rightarrow> 'q ddl_stmt \<Rightarrow> ('s, 'x, 'q) ddl" where
  "do_ddl ops tok env vo px refs frames (StCreateTable n cs fks pk us chk ine) = do_create_table ops tok n cs fks pk us chk ine"
| "do_ddl ops tok env vo px refs frames (StAlterTable t a) = do_alter ops tok env t a"
| "do_ddl ops tok env vo px refs frames (StDropTable n ie) = do_drop_table ops tok vo n ie"
| "do_ddl ops tok env vo px refs frames (StCreateIndex n t c p ine) = do_create_index ops tok vo frames n t c p ine"
| "do_ddl ops tok env vo px refs frames (StDropIndex n ie) = do_drop_index ops tok n ie"
| "do_ddl ops tok env vo px refs frames (StCreateView n q sql orr ine) = do_create_view ops tok refs n q sql orr ine"
| "do_ddl ops tok env vo px refs frames (StDropView n ie) = do_drop_view ops tok n ie"
| "do_ddl ops tok env vo px refs frames (StCreatePolicy def) = do_create_policy ops tok px def"
| "do_ddl ops tok env vo px refs frames (StDropPolicy n t ie) = do_drop_policy ops tok n t ie"

section \<open>The view graph\<close>

definition view_edge :: "('q \<Rightarrow> string list) \<Rightarrow> ('x, 'q) store \<Rightarrow> string \<Rightarrow> string \<Rightarrow> bool" where
  "view_edge refs st a b \<longleftrightarrow> (\<exists>q. hm_get (s_views st) a = Some q \<and> b \<in> key ` set (refs q))"

abbreviation view_reach :: "('q \<Rightarrow> string list) \<Rightarrow> ('x, 'q) store \<Rightarrow> string \<Rightarrow> string \<Rightarrow> bool" where
  "view_reach refs st \<equiv> (view_edge refs st)\<^sup>*\<^sup>*"

text \<open>A path that leaves a set closed up to a border passes the border.\<close>

lemma reach_border:
  assumes "r\<^sup>*\<^sup>* a b" and "a \<in> S" and "b \<notin> S" and "\<And>x y. x \<in> S \<Longrightarrow> r x y \<Longrightarrow> y \<in> S \<union> B"
  shows "\<exists>c\<in>B. r\<^sup>*\<^sup>* c b"
  using assms(1-3)
proof (induction rule: converse_rtranclp_induct)
  case (step x y)
  then show ?case using assms(4) [of x y] by (cases "y \<in> S") blast+
qed simp

lemma cycle_search_reach:
  assumes "\<And>x y. x \<in> seen \<Longrightarrow> view_edge refs st x y \<Longrightarrow> y \<in> seen \<union> key ` set stack" and "key new_name \<notin> seen"
  shows "cycle_search refs st new_name stack seen \<longleftrightarrow> (\<exists>n\<in>set stack. view_reach refs st (key n) (key new_name))"
  using assms
proof (induction refs st new_name stack seen rule: cycle_search.induct)
  case (2 refs st new_name n stack seen)
  let ?reach = "\<lambda>k. view_reach refs st k (key new_name)"
  consider "key n = key new_name" | "key n \<noteq> key new_name" "key n \<in> seen" | "key n \<noteq> key new_name" "key n \<notin> seen" by blast
  then show ?case
  proof cases
    case 1
    then show ?thesis by (auto simp: eq_ignore_ascii_case_def)
  next
    case 2
    have closed: "\<And>x y. x \<in> seen \<Longrightarrow> view_edge refs st x y \<Longrightarrow> y \<in> seen \<union> key ` set stack"
      using \<open>key n \<in> seen\<close> "2.prems"(1) by fastforce
    have "?reach (key n) \<Longrightarrow> \<exists>m\<in>set stack. ?reach (key m)"
      using reach_border [OF _ \<open>key n \<in> seen\<close> "2.prems"(2) closed] by auto
    moreover have "cycle_search refs st new_name stack seen \<longleftrightarrow> (\<exists>n\<in>set stack. ?reach (key n))"
      by (rule "2.IH"(1)) (use 2 closed "2.prems"(2) in \<open>auto simp: eq_ignore_ascii_case_def\<close>)
    ultimately show ?thesis using 2 by (auto simp: eq_ignore_ascii_case_def)
  next
    case 3
    let ?next = "case view st n of Some q \<Rightarrow> rev (refs q) | None \<Rightarrow> []"
    have edge: "view_edge refs st (key n) y \<longleftrightarrow> y \<in> key ` set ?next" for y
      by (cases "view st n") (auto simp: view_edge_def view_def)
    have "?reach (key n) \<longleftrightarrow> (\<exists>y. view_edge refs st (key n) y \<and> ?reach y)"
      using 3(1) by (metis converse_rtranclpE converse_rtranclp_into_rtranclp)
    then have "?reach (key n) \<longleftrightarrow> (\<exists>m\<in>set ?next. ?reach (key m))" unfolding edge by blast
    moreover have closed: "\<And>x y. x \<in> insert (key n) seen \<Longrightarrow> view_edge refs st x y \<Longrightarrow> y \<in> insert (key n) seen \<union> key ` set (?next @ stack)"
      using edge "2.prems"(1) by fastforce
    have "cycle_search refs st new_name (?next @ stack) (insert (key n) seen) \<longleftrightarrow> (\<exists>n\<in>set (?next @ stack). ?reach (key n))"
      by (rule "2.IH"(2)) (use 3 "2.prems"(2) closed in \<open>auto simp: eq_ignore_ascii_case_def\<close>)
    ultimately show ?thesis using 3 by (auto simp: eq_ignore_ascii_case_def)
  qed
qed simp

lemma view_would_cycle_iff:
  "view_would_cycle refs st new_name q \<longleftrightarrow> (\<exists>n\<in>set (refs q). view_reach refs st (key n) (key new_name))"
  unfolding view_would_cycle_def by (subst cycle_search_reach) auto

definition view_deps :: "('q \<Rightarrow> string list) \<Rightarrow> ('x, 'q) store \<Rightarrow> (string \<times> string) set" where
  "view_deps refs st = {(b, a). view_edge refs st a b}"

lemma finite_view_deps: "finite (view_deps refs st)"
proof (rule finite_subset)
  let ?K = "fst ` set (s_views st)"
  show "view_deps refs st \<subseteq> (\<Union>q\<in>snd ` set (s_views st). key ` set (refs q)) \<times> ?K"
    by (auto simp: view_deps_def view_edge_def dest!: map_of_SomeD intro: rev_image_eqI)
qed auto

lemma wf_view_deps: "wf (view_deps refs st) \<longleftrightarrow> (\<forall>k. \<not> (view_edge refs st)\<^sup>+\<^sup>+ k k)"
proof -
  have "(view_edge refs st)\<^sup>+\<^sup>+ a b \<longleftrightarrow> (a, b) \<in> {(a, b). view_edge refs st a b}\<^sup>+" for a b
    by (simp add: trancl_def)
  moreover have "{(a, b). view_edge refs st a b}\<inverse> = view_deps refs st" by (auto simp: view_deps_def)
  ultimately show ?thesis
    using finite_view_deps [of refs st] wf_iff_acyclic_if_finite acyclic_converse [of "{(a, b). view_edge refs st a b}"]
    by (metis acyclic_def)
qed

lemma view_edge_insert:
  "view_edge refs (insert_view name q st) a b \<longleftrightarrow> (if a = key name then b \<in> key ` set (refs q) else view_edge refs st a b)"
  by (simp add: view_edge_def insert_view_def)

text \<open>A path to a node can be cut so that it uses edges of other nodes only.\<close>

lemma reach_first_visit: "r\<^sup>*\<^sup>* a b \<Longrightarrow> (\<lambda>x y. x \<noteq> b \<and> r x y)\<^sup>*\<^sup>* a b"
proof (induction rule: converse_rtranclp_induct)
  case (step x y)
  then show ?case by (cases "x = b") (auto intro: converse_rtranclp_into_rtranclp)
qed simp

lemma insert_view_acyclic:
  assumes "wf (view_deps refs st)" and "\<not> view_would_cycle refs st name q"
  shows "wf (view_deps refs (insert_view name q st))"
  unfolding wf_view_deps
proof (intro allI notI)
  let ?e = "view_edge refs st" and ?e' = "view_edge refs (insert_view name q st)" and ?k = "key name"
  fix k assume cyc: "?e'\<^sup>+\<^sup>+ k k"
  have "(\<lambda>x y. x \<noteq> ?k \<and> ?e' x y) \<le> ?e" by (auto simp: view_edge_insert le_fun_def)
  then have "?e'\<^sup>*\<^sup>* a ?k \<Longrightarrow> ?e\<^sup>*\<^sup>* a ?k" for a
    by (blast dest: reach_first_visit predicate2D [OF rtranclp_mono])
  then have no: "\<not> ?e'\<^sup>*\<^sup>* b ?k" if "b \<in> key ` set (refs q)" for b
    using that assms(2) by (auto simp: view_would_cycle_iff)
  have off: "\<not> (?e'\<^sup>*\<^sup>* k ?k \<and> ?e'\<^sup>*\<^sup>* ?k k)"
  proof
    assume "?e'\<^sup>*\<^sup>* k ?k \<and> ?e'\<^sup>*\<^sup>* ?k k"
    with cyc have "?e'\<^sup>+\<^sup>+ ?k ?k" by (meson rtranclp_tranclp_tranclp tranclp_rtranclp_tranclp)
    then obtain b where "?e' ?k b" "?e'\<^sup>*\<^sup>* b ?k" by (blast dest: tranclpD)
    with no show False by (simp add: view_edge_insert)
  qed
  have "?e'\<^sup>+\<^sup>+ a k \<Longrightarrow> ?e'\<^sup>*\<^sup>* k a \<Longrightarrow> ?e\<^sup>+\<^sup>+ a k" for a
  proof (induction rule: converse_tranclp_induct)
    case (base y)
    then have "y \<noteq> ?k" using off by blast
    with base show ?case by (simp add: view_edge_insert tranclp.r_into_trancl)
  next
    case (step y z)
    have "y \<noteq> ?k" using step.hyps step.prems off by (blast intro: converse_rtranclp_into_rtranclp tranclp_into_rtranclp)
    then have "?e y z" using step.hyps(1) by (simp add: view_edge_insert)
    moreover have "?e\<^sup>+\<^sup>+ z k" using step by (meson rtranclp.rtrancl_into_rtrancl)
    ultimately show ?case by (rule tranclp_into_tranclp2)
  qed
  from this [OF cyc] assms(1) show False by (auto simp: wf_view_deps)
qed

lemma drop_view_acyclic: "wf (view_deps refs st) \<Longrightarrow> wf (view_deps refs (snd (drop_view name st)))"
  by (rule wf_subset) (auto simp: view_deps_def view_edge_def drop_view_def split: if_splits)

lemma view_deps_cong: "s_views st' = s_views st \<Longrightarrow> view_deps refs st' = view_deps refs st"
  by (simp add: view_deps_def view_edge_def)

lemma table_mut_views [simp]: "s_views (table_mut n f st) = s_views st"
  by (simp add: table_mut_def split: option.splits)

lemma populate_index_views [simp]: "s_views (populate_index vo n st) = s_views st"
  by (simp add: populate_index_def Let_def split: option.splits)

lemma apply_alter_views [simp]: "s_views (apply_alter env op st) = s_views st"
  by (cases op) (simp_all add: add_column_def drop_column_def rename_column_def rename_table_def set_rls_def split: option.splits)

section \<open>Outcomes\<close>

text \<open>The store change a schema statement makes once its record is durable.\<close>

definition ddl_store :: "nat \<Rightarrow> (('x, 'q) store \<Rightarrow> ('x, 'q) store) \<Rightarrow> ('x, 'q) store \<Rightarrow> ('x, 'q) store" where
  "ddl_store lsn f st = (let st1 = f st in st1\<lparr>s_committed_lsn := max (s_committed_lsn st1) lsn\<rparr>)"

text \<open>Every outcome: nothing happened, the append failed, or the operation is logged and applied.\<close>

inductive ddl_outcome :: "'s storage \<Rightarrow> fence_token \<Rightarrow> (wal_op \<Rightarrow> (('x, 'q) store \<Rightarrow> ('x, 'q) store) \<Rightarrow> bool) \<Rightarrow> ('s, 'x, 'q) db \<Rightarrow>
    nat option eres \<Rightarrow> ('s, 'x, 'q) db \<Rightarrow> bool" for ops tok P d where
  skipped: "ddl_outcome ops tok P d (Inr None) d"
| refused: "ddl_outcome ops tok P d (Inl ErrSql) d"
| failed: "st_append_wal ops (d_storage d) tok (txn_records [op]) = (Inl e, s') \<Longrightarrow>
    ddl_outcome ops tok P d (Inl (commit_error e)) (d\<lparr>d_storage := s'\<rparr>)"
| logged: "P op f \<Longrightarrow> st_append_wal ops (d_storage d) tok (txn_records [op]) = (Inr lsn, s') \<Longrightarrow>
    d_storage d' = s' \<or> (\<exists>i. op = CreateIndex i) \<Longrightarrow> d_store d' = ddl_store lsn f (d_store d) \<Longrightarrow> d_gc d' = d_gc d \<Longrightarrow>
    ddl_outcome ops tok P d (Inr (Some lsn)) d'"

lemma log_ddl_outcome: "P op f \<Longrightarrow> ddl_outcome ops tok P d (fst (log_ddl ops tok op f d)) (snd (log_ddl ops tok op f d))"
  unfolding log_ddl_def
  by (auto simp: txn_records_def ddl_store_def Let_def split: prod.splits sum.splits intro!: failed logged [of P op f] intro: failed [of _ _ _ op])

text \<open>The operation a statement logs and its change of a store that passed validation.\<close>

inductive ddl_does :: "'q sql_env \<Rightarrow> 'x vector_ops \<Rightarrow> ('q \<Rightarrow> string list) \<Rightarrow> ('x, 'q) store \<Rightarrow> 'q ddl_stmt \<Rightarrow> wal_op \<Rightarrow>
    (('x, 'q) store \<Rightarrow> ('x, 'q) store) \<Rightarrow> bool" for env vo refs st where
  "\<not> has_table st n \<Longrightarrow> fold_primary_key (map column_of_spec cs) pk = Inr cols \<Longrightarrow> resolve_foreign_keys st n cols fks = Inr fs \<Longrightarrow>
   sch = \<lparr>sch_name = n, sch_columns = cols, sch_foreign_keys = fs, sch_checks = chk, sch_uniques = us, sch_rls_enabled = False, sch_policies = []\<rparr> \<Longrightarrow>
   ddl_does env vo refs st (StCreateTable n cs fks pk us chk ine) (CreateTable sch) (insert_table sch)"
| "has_table st t \<Longrightarrow> alter_op st t a = Inr (Some op) \<Longrightarrow> ddl_does env vo refs st (StAlterTable t a) op (apply_alter env op)"
| "has_table st n \<Longrightarrow> ddl_does env vo refs st (StDropTable n ie) (DropTable n) (\<lambda>st. snd (drop_table vo n st))"
| "\<not> has_index st n \<Longrightarrow> i = \<lparr>ix_name = n, ix_table = t, ix_column = c, ix_params = p\<rparr> \<Longrightarrow>
   ddl_does env vo refs st (StCreateIndex n t c p ine) (CreateIndex i) (create_index vo i)"
| "has_index st n \<Longrightarrow> ddl_does env vo refs st (StDropIndex n ie) (DropIndex n) (\<lambda>st. snd (drop_index n st))"
| "\<not> has_table st n \<Longrightarrow> \<not> view_would_cycle refs st n q \<Longrightarrow>
   ddl_does env vo refs st (StCreateView n q sql orr ine) (CreateView n sql) (insert_view n q)"
| "has_view st n \<Longrightarrow> ddl_does env vo refs st (StDropView n ie) (DropView n) (\<lambda>st. snd (drop_view n st))"
| "get_table st (pd_table def) \<noteq> None \<Longrightarrow> p = \<lparr>pol_name = pd_name def, pol_command = pd_command def, pol_roles = pd_roles def,
     pol_using = pd_using def, pol_check = pd_check def\<rparr> \<Longrightarrow>
   ddl_does env vo refs st (StCreatePolicy def) (CreatePolicy (pd_table def) p) (add_policy (pd_table def) p)"
| "has_policy st t n \<Longrightarrow> ddl_does env vo refs st (StDropPolicy n t ie) (DropPolicy t n) (\<lambda>st. snd (drop_policy t n st))"

inductive_cases ddl_doesE: "ddl_does env vo refs st stmt op f"

lemma alter_op_error: "alter_op st t a = Inl e \<Longrightarrow> e = ErrSql"
  by (cases a) (auto split: if_splits)

lemma fold_primary_key_error: "fold_primary_key cols pks = Inl e \<Longrightarrow> e = ErrSql"
  by (induction cols pks rule: fold_primary_key.induct) (auto split: option.splits)

lemma resolve_foreign_keys_error: "resolve_foreign_keys st t cols fks = Inl e \<Longrightarrow> e = ErrSql"
  by (induction st t cols fks arbitrary: e rule: resolve_foreign_keys.induct)
    (auto simp: resolve_foreign_key_def map_sum_def split: option.splits sum.splits if_splits)

lemma checkpoint_keeps [simp]: "d_store (checkpoint_vector_index ops tok frames n lsn d) = d_store d"
  "d_gc (checkpoint_vector_index ops tok frames n lsn d) = d_gc d"
  by (simp_all add: checkpoint_vector_index_def split: option.splits)

lemma outcome_checkpoint:
  assumes "ddl_outcome ops tok P d (Inr (Some lsn)) d1" and "\<And>op f. P op f \<Longrightarrow> \<exists>i. op = CreateIndex i"
    and "d_store d2 = d_store d1" and "d_gc d2 = d_gc d1"
  shows "ddl_outcome ops tok P d (Inr (Some lsn)) d2"
  using assms(1)
proof (cases rule: ddl_outcome.cases)
  case (logged op f s')
  then show ?thesis using assms(2) [OF logged(1)] assms(3,4) by (intro ddl_outcome.logged [of P op f]) auto
qed

lemma do_ddl_outcome:
  "ddl_outcome ops tok (ddl_does env vo refs (d_store d) stmt) d (fst (do_ddl ops tok env vo px refs frames stmt d))
     (snd (do_ddl ops tok env vo px refs frames stmt d))"
proof (cases stmt)
  case (StCreateTable n cs fks pk us chk ine)
  then show ?thesis
    by (auto simp: do_create_table_def Let_def split: sum.splits dest: fold_primary_key_error resolve_foreign_keys_error
        intro: skipped refused intro!: log_ddl_outcome ddl_does.intros)
next
  case (StAlterTable t a)
  then show ?thesis
    by (auto simp: do_alter_def split: sum.splits option.splits dest: alter_op_error
        intro: skipped refused intro!: log_ddl_outcome ddl_does.intros)
next
  case (StCreateIndex n t c p ine)
  let ?i = "\<lparr>ix_name = n, ix_table = t, ix_column = c, ix_params = p\<rparr>"
  obtain r d1 where l: "log_ddl ops tok (CreateIndex ?i) (create_index vo ?i) d = (r, d1)" by fastforce
  have o: "\<not> has_index (d_store d) n \<Longrightarrow> ddl_outcome ops tok (ddl_does env vo refs (d_store d) stmt) d r d1"
    using log_ddl_outcome [of "ddl_does env vo refs (d_store d) stmt" "CreateIndex ?i" "create_index vo ?i" ops tok d]
    by (simp add: l StCreateIndex ddl_does.intros)
  have ci: "\<And>op f. ddl_does env vo refs (d_store d) stmt op f \<Longrightarrow> \<exists>i. op = CreateIndex i"
    by (auto simp: StCreateIndex elim: ddl_doesE)
  have ck: "ddl_outcome ops tok (ddl_does env vo refs (d_store d) stmt) d (Inr (Some lsn)) (checkpoint_vector_index ops tok frames n lsn d1)"
    if "\<not> has_index (d_store d) n" and "r = Inr (Some lsn)" for lsn
    by (rule outcome_checkpoint [OF o [OF that(1), unfolded that(2)] ci]) simp_all
  show ?thesis
    unfolding StCreateIndex do_ddl.simps do_create_index_def Let_def l
    using o ck [unfolded StCreateIndex] by (auto simp: StCreateIndex split: option.splits sum.splits intro: skipped refused)
qed (auto simp: do_drop_table_def do_drop_index_def do_create_view_def do_drop_view_def do_create_policy_def do_drop_policy_def Let_def
      intro: skipped refused intro!: log_ddl_outcome ddl_does.intros)

section \<open>An instance\<close>

text \<open>A fresh database over the file backend, and \<^verbatim>\<open>CREATE TABLE t (a INTEGER PRIMARY KEY)\<close>.\<close>

definition fresh_db :: "(local_inner, unit, unit) db" where
  "fresh_db = \<lparr>d_storage = fresh_local, d_store = store_default, d_gc = gc_new\<rparr>"

definition create_t :: "unit ddl_stmt" where
  "create_t = StCreateTable ''t'' [\<lparr>cs_name = ''a'', cs_ty = CtInteger, cs_primary_key = False, cs_not_null = False, cs_unique = True,
     cs_autoincrement = False, cs_default_sql = None, cs_check_sql = None, cs_references = None\<rparr>] [] [''a''] [] [] False"

abbreviation run_ddl :: "unit ddl_stmt \<Rightarrow> (local_inner, unit, unit) ddl" where
  "run_ddl \<equiv> do_ddl local_storage zero_token plain_env unit_index_ops (\<lambda>_. True) (\<lambda>_. []) (\<lambda>_ _. None)"

lemma run_create_t:
  obtains d' where "run_ddl create_t fresh_db = (Inr (Some 2), d')"
    and "d_store d' = ddl_store 2 (insert_table one_table) store_default" and "d_gc d' = gc_new" and "local_inv (d_storage d')" and "vf_faults (l_file (d_storage d')) = []"
proof -
  obtain g1 where g: "st_append_wal local_storage fresh_local zero_token (txn_records [CreateTable one_table]) = (Inr 2, g1)"
      "local_inv g1" "vf_faults (l_file g1) = []"
    using local_create by blast
  let ?d = "fresh_db\<lparr>d_storage := g1, d_store := ddl_store 2 (insert_table one_table) store_default\<rparr>"
  have "fold_primary_key (map column_of_spec [\<lparr>cs_name = ''a'', cs_ty = CtInteger, cs_primary_key = False, cs_not_null = False, cs_unique = True,
     cs_autoincrement = False, cs_default_sql = None, cs_check_sql = None, cs_references = None\<rparr>]) [''a''] = Inr (sch_columns one_table)"
    by (simp add: column_of_spec_def one_table_def eq_ignore_ascii_case_def to_ascii_lowercase_def lower_char_def)
  moreover have "\<lparr>sch_name = ''t'', sch_columns = sch_columns one_table, sch_foreign_keys = [], sch_checks = [], sch_uniques = [],
      sch_rls_enabled = False, sch_policies = []\<rparr> = one_table" by (simp add: one_table_def)
  ultimately have "run_ddl create_t fresh_db = (Inr (Some 2), ?d)"
    using g(1) by (simp add: create_t_def do_create_table_def has_table_def get_table_def fresh_db_def store_default_def log_ddl_def
        txn_records_def ddl_store_def Let_def)
  moreover have "d_store ?d = ddl_store 2 (insert_table one_table) store_default" "d_gc ?d = gc_new" "d_storage ?d = g1"
    by (simp_all add: fresh_db_def)
  ultimately show ?thesis using g(2,3) by (intro that [of ?d]) simp_all
qed

section \<open>Properties\<close>

text \<open>What the parser owes: the text stored for a view parses back to its query.\<close>

fun view_parses :: "'q sql_env \<Rightarrow> 'q ddl_stmt \<Rightarrow> bool" where
  "view_parses env (StCreateView n q sql orr ine) \<longleftrightarrow> env_parse_view env sql = Some q"
| "view_parses env _ \<longleftrightarrow> True"

lemma populate_committed: "populate_index vo n (st\<lparr>s_committed_lsn := l\<rparr>) = (populate_index vo n st)\<lparr>s_committed_lsn := l\<rparr>"
  by (simp add: populate_index_def Let_def split: option.splits)

text \<open>A store after the live statement, from the store replay makes of the logged operation: the same,
  except that \<^verbatim>\<open>CREATE INDEX\<close> fills the index that replay only registers.\<close>

definition live_of_replayed :: "'x vector_ops \<Rightarrow> wal_op \<Rightarrow> ('x, 'q) store \<Rightarrow> ('x, 'q) store" where
  "live_of_replayed vo op rst = (case op of CreateIndex i \<Rightarrow> populate_index vo (ix_name i) rst | _ \<Rightarrow> rst)"

lemma ddl_does_replay:
  assumes "ddl_does env vo refs st stmt op f" and "view_parses env stmt"
  shows "\<not> is_dml op \<and> op \<noteq> Commit \<and> ddl_store lsn f st' = live_of_replayed vo op (replay_group env vo lsn [op] st')"
  using assms
proof (cases rule: ddl_does.cases)
  case (2 t a)
  then show ?thesis by (cases a) (auto simp: ddl_store_def replay_group_def live_of_replayed_def split: if_splits)
qed (auto simp: ddl_store_def replay_group_def live_of_replayed_def create_index_def populate_committed Let_def
    simp: register_index_def)


lemma local_append_two:
  assumes "vf_faults (l_file g) = []" and "l_epoch g = 0"
  shows "\<exists>l g'. st_append_wal local_storage g zero_token (txn_records [op]) = (Inr l, g')"
proof -
  obtain g0 where "append_frame g T_WAL (wal_payload (txn_records [op])) = (Inr (), g0)" using append_frame_no_faults [OF assms(1)] by blast
  then show ?thesis
    using assms(2) by (auto simp: local_storage_def local_append_wal_def local_check_fence_def Let_def zero_token_def txn_records_def)
qed

text \<open>The witness creates a view whose text the parser knows.\<close>

definition view_env :: "unit sql_env" where
  "view_env = \<lparr>env_parse_view = \<lambda>sql. if sql = ''SELECT 1'' then Some () else None, env_eval_const = \<lambda>_. None\<rparr>"

abbreviation create_v :: "unit ddl_stmt" where
  "create_v \<equiv> StCreateView ''v'' () ''SELECT 1'' False False"

lemma run_create_v: "\<exists>l d'. do_ddl local_storage zero_token view_env unit_index_ops px (\<lambda>_. []) frames create_v fresh_db = (Inr (Some l), d') \<and>
    has_view (d_store d') ''v''"
proof -
  obtain l g where "st_append_wal local_storage fresh_local zero_token (txn_records [CreateView ''v'' ''SELECT 1'']) = (Inr l, g)"
    using local_append_two [of fresh_local "CreateView ''v'' ''SELECT 1''"] by (auto simp: fresh_local_def inner_base_def)
  then show ?thesis
    by (simp add: do_create_view_def has_table_def has_view_def get_table_def fresh_db_def store_default_def log_ddl_def txn_records_def
        view_would_cycle_def cycle_search.simps insert_view_def)
qed


text \<open>C21. A schema statement that fails leaves the catalog and the rows as they were, and one that has
  nothing to do (\<^verbatim>\<open>IF EXISTS\<close>, \<^verbatim>\<open>IF NOT EXISTS\<close>) leaves the whole database: an error is
  either a refusal before anything was written or the storage's own.\<close>

theorem ddl_error_no_effect:
  "case do_ddl ops tok env vo px refs frames stmt d of
     (Inl e, d') \<Rightarrow> d_store d' = d_store d \<and> d_gc d' = d_gc d \<and>
       (e = ErrSql \<and> d' = d \<or> (\<exists>rs se. fst (st_append_wal ops (d_storage d) tok rs) = Inl se \<and> e = commit_error se))
   | (Inr None, d') \<Rightarrow> d' = d
   | (Inr (Some lsn), d') \<Rightarrow> lsn \<le> s_committed_lsn (d_store d')"
proof -
  obtain r d' where r: "do_ddl ops tok env vo px refs frames stmt d = (r, d')" by fastforce
  have "ddl_outcome ops tok (ddl_does env vo refs (d_store d) stmt) d r d'"
    using do_ddl_outcome [of ops tok env vo refs d stmt px frames] r by simp
  then show ?thesis
  proof (cases rule: ddl_outcome.cases)
    case (failed op e s')
    then show ?thesis unfolding r by (auto intro!: exI [of _ "txn_records [op]"])
  qed (auto simp: r ddl_store_def Let_def)
qed

text \<open>The graph of the names that view definitions mention stays acyclic, for the names the check
  looks at.\<close>

lemma ddl_keeps_acyclic:
  assumes "wf (view_deps refs (d_store d))"
    and "do_ddl ops tok env vo px refs frames stmt d = (r, d')"
  shows "wf (view_deps refs (d_store d'))"
proof -
  have "ddl_outcome ops tok (ddl_does env vo refs (d_store d) stmt) d r d'"
    using do_ddl_outcome [of ops tok env vo refs d stmt px frames] assms(2) by simp
  then show ?thesis
  proof (cases rule: ddl_outcome.cases)
    case (logged op f lsn s')
    have "wf (view_deps refs (f (d_store d)))"
      using logged(2)
    proof (cases rule: ddl_does.cases)
      case (6 n q sql orr ine)
      then show ?thesis using insert_view_acyclic [OF assms(1)] by simp
    next
      case (7 n ie)
      then show ?thesis using drop_view_acyclic [OF assms(1)] by simp
    qed (use assms(1) view_deps_cong [of "f (d_store d)" "d_store d" refs] in
        \<open>simp_all add: insert_table_def drop_table_def create_index_def register_index_def drop_index_def add_policy_def drop_policy_def\<close>)
    then show ?thesis using logged by (simp add: ddl_store_def Let_def view_deps_def view_edge_def)
  qed (use assms(1) in auto)
qed

text \<open>A stored view is an old one or the one the statement creates.\<close>

fun stmt_views :: "'q ddl_stmt \<Rightarrow> 'q set" where
  "stmt_views (StCreateView n q sql orr ine) = {q}"
| "stmt_views _ = {}"

lemma ddl_views:
  assumes "do_ddl ops tok env vo px refs frames stmt d = (r, d')"
  shows "ran (hm_get (s_views (d_store d'))) \<subseteq> ran (hm_get (s_views (d_store d))) \<union> stmt_views stmt"
proof -
  have "ddl_outcome ops tok (ddl_does env vo refs (d_store d) stmt) d r d'"
    using do_ddl_outcome [of ops tok env vo refs d stmt px frames] assms by simp
  then show ?thesis
  proof (cases rule: ddl_outcome.cases)
    case (logged op f lsn s')
    have "ran (hm_get (s_views (f (d_store d)))) \<subseteq> ran (hm_get (s_views (d_store d))) \<union> stmt_views stmt"
      using logged(2)
      by (cases rule: ddl_does.cases)
        (auto simp: insert_view_def drop_view_def insert_table_def drop_table_def create_index_def register_index_def drop_index_def
          add_policy_def drop_policy_def ran_def split: if_splits)
    then show ?thesis using logged by (simp add: ddl_store_def Let_def)
  qed auto
qed

section \<open>Typing of the catalog\<close>

text \<open>A table is stored under its own name, each row has one value per column, and each foreign key
  pairs its columns one to one.\<close>

definition table_typed :: "table \<Rightarrow> bool" where
  "table_typed t \<longleftrightarrow> (\<forall>r\<in>set (t_rows t). length (rv_values r) = length (sch_columns (t_schema t))) \<and>
     (\<forall>fk\<in>set (sch_foreign_keys (t_schema t)). length (fk_columns fk) = length (fk_foreign_columns fk))"

definition catalog_typed :: "('x, 'q) store \<Rightarrow> bool" where
  "catalog_typed st \<longleftrightarrow> (\<forall>k t. hm_get (s_tables st) k = Some t \<longrightarrow> k = key (sch_name (t_schema t)) \<and> table_typed t)"

lemma catalog_typed_table_mut:
  assumes "catalog_typed st" and "\<And>t. table_typed t \<Longrightarrow> table_typed (f t) \<and> sch_name (t_schema (f t)) = sch_name (t_schema t)"
  shows "catalog_typed (table_mut n f st)"
  using assms by (auto simp: catalog_typed_def table_mut_def get_table_def split: option.splits if_splits)

lemma catalog_typed_cong: "s_tables st' = s_tables st \<Longrightarrow> catalog_typed st' = catalog_typed st"
  by (simp add: catalog_typed_def)

lemma resolve_foreign_keys_typed:
  "resolve_foreign_keys st t cols fks = Inr fs \<Longrightarrow> f \<in> set fs \<Longrightarrow> length (fk_columns f) = length (fk_foreign_columns f)"
  by (induction st t cols fks arbitrary: fs rule: resolve_foreign_keys.induct)
    (auto simp: resolve_foreign_key_def map_sum_def split: option.splits sum.splits if_splits)

lemma length_remove_nth: "i < length xs \<Longrightarrow> length (remove_nth i xs) = length xs - 1"
  by (simp add: remove_nth_def)

lemma apply_alter_typed: "catalog_typed st \<Longrightarrow> catalog_typed (apply_alter env op st)"
proof (cases op)
  case (AlterDropColumn t c)
  assume "catalog_typed st"
  then have "catalog_typed (drop_column t c st)"
    unfolding drop_column_def
    by (rule catalog_typed_table_mut)
      (auto simp: table_typed_def column_index_def length_remove_nth split: option.splits dest: position_Some)
  with AlterDropColumn show ?thesis by simp
next
  case (AlterRenameTable t n)
  assume "catalog_typed st"
  with AlterRenameTable show ?thesis
    by (auto simp: rename_table_def catalog_typed_def table_typed_def get_table_def split: option.splits if_splits)
qed (auto simp: add_column_def rename_column_def set_rls_def table_typed_def split: option.splits intro!: catalog_typed_table_mut)

lemma ddl_does_typed:
  assumes "ddl_does env vo refs st stmt op f" and "catalog_typed st"
  shows "catalog_typed (f st)"
  using assms(1)
proof (cases rule: ddl_does.cases)
  case (1 n cs pk cols fks fs sch chk us ine)
  with assms(2) resolve_foreign_keys_typed [of st n cols fks fs] show ?thesis
    by (auto simp: insert_table_def catalog_typed_def table_new_def table_typed_def split: if_splits)
next
  case (2 t a)
  with assms(2) show ?thesis by (simp add: apply_alter_typed)
next
  case (3 n ie)
  with assms(2) show ?thesis by (auto simp: drop_table_def catalog_typed_def split: if_splits)
next
  case (8 def p)
  with assms(2) show ?thesis by (auto simp: add_policy_def table_typed_def intro!: catalog_typed_table_mut)
next
  case (9 t n ie)
  with assms(2) show ?thesis by (auto simp: drop_policy_def table_typed_def intro!: catalog_typed_table_mut)
qed (use assms(2) in \<open>simp_all add: catalog_typed_def create_index_def register_index_def drop_index_def
      insert_view_def drop_view_def\<close>)

text \<open>C20. Schema statements keep the catalog well typed: every table is found under its own name, every
  row has exactly one value per column (added columns are filled in, dropped ones cut out of
  every version), and every foreign key pairs as many local as foreign columns.\<close>

theorem ddl_keeps_types:
  assumes "catalog_typed (d_store d)" and "do_ddl ops tok env vo px refs frames stmt d = (r, d')"
  shows "catalog_typed (d_store d')"
proof -
  have "ddl_outcome ops tok (ddl_does env vo refs (d_store d) stmt) d r d'"
    using do_ddl_outcome [of ops tok env vo refs d stmt px frames] assms(2) by simp
  then show ?thesis
  proof (cases rule: ddl_outcome.cases)
    case (logged op f lsn s')
    then show ?thesis
      using ddl_does_typed [OF logged(2) assms(1)] by (simp add: ddl_store_def Let_def catalog_typed_cong [of "_\<lparr>s_committed_lsn := _\<rparr>"])
  qed (use assms(1) in auto)
qed

theorem ddl_keeps_types_witness: "\<exists>d'. run_ddl create_t fresh_db = (Inr (Some 2), d') \<and> catalog_typed (d_store d')"
proof -
  obtain d' where d: "run_ddl create_t fresh_db = (Inr (Some 2), d')" by (rule run_create_t)
  have "catalog_typed (d_store fresh_db)" by (simp add: catalog_typed_def fresh_db_def store_default_def)
  from ddl_keeps_types [OF this d] d show ?thesis by blast
qed

text \<open>\<^verbatim>\<open>ALTER TABLE a RENAME TO b\<close> does not look at its target: when \<open>b\<close> exists, the statement
  succeeds, is durably logged, and \<open>b\<close> with all its rows is replaced by \<open>a\<close>.\<close>

theorem rename_replaces_table:
  assumes "do_ddl ops tok env vo px refs frames (StAlterTable a (RenameTable b)) d = (Inr (Some lsn), d')"
    and "get_table (d_store d) a = Some ta" and "get_table (d_store d) b = Some tb" and "key a \<noteq> key b"
  shows "get_table (d_store d') a = None \<and> get_table (d_store d') b = Some (ta\<lparr>t_schema := (t_schema ta)\<lparr>sch_name := b\<rparr>\<rparr>)"
  using assms by (auto simp: do_alter_def log_ddl_def rename_table_def get_table_def Let_def split: if_splits prod.splits sum.splits)

theorem rename_replaces_table_witness:
  "\<exists>d' lsn. run_ddl (StAlterTable ''a'' (RenameTable ''b'')) (fresh_db\<lparr>d_store := two_tables []\<rparr>) = (Inr (Some lsn), d') \<and>
     map_option (map rv_values \<circ> t_rows) (get_table (two_tables []) ''b'') = Some [[VInt 2]] \<and>
     map_option (map rv_values \<circ> t_rows) (get_table (d_store d') ''b'') = Some []"
proof -
  let ?d = "fresh_db\<lparr>d_store := two_tables []\<rparr>" and ?op = "AlterRenameTable ''a'' ''b''"
  obtain l g where a: "st_append_wal local_storage fresh_local zero_token (txn_records [?op]) = (Inr l, g)"
    using local_append_two [of fresh_local ?op] by (auto simp: fresh_local_def inner_base_def)
  have t: "get_table (two_tables []) ''a'' = Some (plain_table ''a'' [])" "get_table (two_tables []) ''b'' = Some (plain_table ''b'' [committed_row 1 [VInt 2] 3])"
      "key ''a'' \<noteq> key ''b''"
    by (simp_all add: two_tables_def get_table_def to_ascii_lowercase_def lower_char_def)
  then obtain d' where d: "run_ddl (StAlterTable ''a'' (RenameTable ''b'')) ?d = (Inr (Some l), d')"
    using a by (simp add: do_alter_def has_table_def log_ddl_def fresh_db_def txn_records_def)
  from rename_replaces_table [OF d] t d show ?thesis
    by (auto simp: plain_table_def committed_row_def)
qed

end
