(* ===== verification/Conn_Txn.thy ===== *)
theory Conn_Txn
  imports Conn_Ddl "HOL-Library.Sublist"
begin

text \<open>
  A connection (\<^verbatim>\<open>crates/engine/src/conn.rs\<close>): the transaction state machine over the shared
  database, with the write lane, group commit and schema statements below it.  A call that
  would wait for another connection has the value \<open>None\<close>.  The executor's read and write
  entry points (\<open>sel\<close>, \<open>dml\<close>) are parameters; a write entry point returns its result and the
  store as it left it, on failure too.
\<close>

section \<open>State\<close>

record savepoint =
  sp_name :: string
  sp_inserted :: "nat set"
  sp_deleted :: "nat set"
  sp_wal_len :: nat

record txn =
  tx_snapshot :: nat
  tx_writer :: bool
  tx_wal_ops :: "wal_op list"
  tx_owner :: nat
  tx_savepoints :: "savepoint list"

record session_context =
  se_role :: "string option"
  se_claims :: "string option"
  se_bypass :: bool

datatype session_set = SetRole "string option" | SetClaims "string option" | SetBypass bool

record connection =
  c_txn :: "txn option"
  c_last_changes :: int
  c_last_lsn :: int
  c_vector_ef_search :: "nat option"
  c_session :: session_context

record ('s, 'x, 'q) world =
  w_db :: "('s, 'x, 'q) db"
  w_lane :: write_lane
  w_owner :: u64

record result_set =
  rs_columns :: "string list"
  rs_types :: "column_type list"
  rs_rows :: "sql_value list list"

definition result_default :: result_set where
  "result_default = \<lparr>rs_columns = [], rs_types = [], rs_rows = []\<rparr>"

record mutation =
  mu_wal :: "wal_op list"
  mu_changes :: int
  mu_result :: "result_set option"

record write_ctx =
  wc_snapshot :: nat
  wc_owner :: nat
  wc_params :: "sql_value list"

type_synonym ('s, 'x, 'q, 'a) call = "('s, 'x, 'q) world \<Rightarrow> connection \<Rightarrow> 'a eres \<times> ('s, 'x, 'q) world \<times> connection"
type_synonym ('s, 'x, 'q, 'a) waiting_call = "('s, 'x, 'q) world \<Rightarrow> connection \<Rightarrow> ('a eres \<times> ('s, 'x, 'q) world \<times> connection) option"

definition conn_open :: connection where
  "conn_open = \<lparr>c_txn = None, c_last_changes = 0, c_last_lsn = 0, c_vector_ef_search = None,
     c_session = \<lparr>se_role = None, se_claims = None, se_bypass = False\<rparr>\<rparr>"

definition session_role :: "session_context \<Rightarrow> string" where
  "session_role se = (case se_role se of Some r \<Rightarrow> r | None \<Rightarrow> ''anon'')"

fun apply_session_set :: "session_set \<Rightarrow> connection \<Rightarrow> connection" where
  "apply_session_set (SetRole r) c = c\<lparr>c_session := (c_session c)\<lparr>se_role := r\<rparr>\<rparr>"
| "apply_session_set (SetClaims j) c = c\<lparr>c_session := (c_session c)\<lparr>se_claims := j\<rparr>\<rparr>"
| "apply_session_set (SetBypass b) c = c\<lparr>c_session := (c_session c)\<lparr>se_bypass := b\<rparr>\<rparr>"

section \<open>Transactions\<close>

abbreviation w_store :: "('s, 'x, 'q) world \<Rightarrow> ('x, 'q) store" where
  "w_store w \<equiv> d_store (w_db w)"

definition set_store :: "('x, 'q) store \<Rightarrow> ('s, 'x, 'q) world \<Rightarrow> ('s, 'x, 'q) world" where
  "set_store st w = w\<lparr>w_db := (w_db w)\<lparr>d_store := st\<rparr>\<rparr>"

definition read_snapshot :: "('s, 'x, 'q) world \<Rightarrow> connection \<Rightarrow> nat \<times> nat option" where
  "read_snapshot w c = (case c_txn c of
     Some t \<Rightarrow> (tx_snapshot t, if tx_writer t then Some (tx_owner t) else None)
   | None \<Rightarrow> (s_committed_lsn (w_store w), None))"

definition new_txn :: "('s, 'x, 'q) world \<Rightarrow> txn \<times> ('s, 'x, 'q) world" where
  "new_txn w = (let (i, ctr) = next_owner (w_owner w) in
     (\<lparr>tx_snapshot = s_committed_lsn (w_store w), tx_writer = False, tx_wal_ops = [], tx_owner = unat i, tx_savepoints = []\<rparr>,
      w\<lparr>w_owner := ctr\<rparr>))"

definition conn_begin :: "('s, 'x, 'q, unit) call" where
  "conn_begin w c = (if c_txn c \<noteq> None then (Inl ErrTxn, w, c)
     else let (t, w1) = new_txn w in (Inr (), w1, c\<lparr>c_txn := Some t\<rparr>))"

definition release_lane :: "('s, 'x, 'q) world \<Rightarrow> ('s, 'x, 'q) world" where
  "release_lane w = w\<lparr>w_lane := lane_release (w_lane w)\<rparr>"

text \<open>\<^verbatim>\<open>GroupCommit::commit\<close> run to its end: queue, hand off the lane, lead if nobody does, reclaim.\<close>

definition group_commit :: "'s storage \<Rightarrow> 'x vector_ops \<Rightarrow> fence_token \<Rightarrow> nat \<Rightarrow> wal_record list \<Rightarrow> ('s, 'x, 'q) world \<Rightarrow>
    (nat eres \<times> ('s, 'x, 'q) world) option" where
  "group_commit ops vo tok owner records w =
     (let ((i, am_leader), g) = gc_enqueue owner records (d_gc (w_db w));
          w1 = release_lane (w\<lparr>w_db := (w_db w)\<lparr>d_gc := g\<rparr>\<rparr>);
          w2 = (if am_leader then w1\<lparr>w_db := lead ops vo tok (w_db w1)\<rparr> else w1)
      in case gc_reclaim i (d_gc (w_db w2)) of
           (None, _) \<Rightarrow> None
         | (Some r, g2) \<Rightarrow> Some (r, w2\<lparr>w_db := (w_db w2)\<lparr>d_gc := g2\<rparr>\<rparr>))"

definition finish_commit :: "'s storage \<Rightarrow> 'x vector_ops \<Rightarrow> fence_token \<Rightarrow> txn \<Rightarrow> ('s, 'x, 'q, unit) waiting_call" where
  "finish_commit ops vo tok t w c =
     (if \<not> tx_writer t then Some (Inr (), w, c)
      else if tx_wal_ops t = [] then Some (Inr (), release_lane w, c)
      else case group_commit ops vo tok (tx_owner t) (txn_records (tx_wal_ops t)) w of
        None \<Rightarrow> None
      | Some (Inl e, w1) \<Rightarrow> Some (Inl e, w1, c)
      | Some (Inr lsn, w1) \<Rightarrow> Some (Inr (), w1, c\<lparr>c_last_lsn := int lsn\<rparr>))"

definition conn_commit :: "'s storage \<Rightarrow> 'x vector_ops \<Rightarrow> fence_token \<Rightarrow> ('s, 'x, 'q, unit) waiting_call" where
  "conn_commit ops vo tok w c = (case c_txn c of
     None \<Rightarrow> Some (Inl ErrTxn, w, c)
   | Some t \<Rightarrow> finish_commit ops vo tok t w (c\<lparr>c_txn := None\<rparr>))"

text \<open>The writer part of a rollback, shared by \<^verbatim>\<open>rollback\<close>, a failed autocommit and \<^verbatim>\<open>Drop\<close>.\<close>

definition abandon :: "'x vector_ops \<Rightarrow> txn \<Rightarrow> ('s, 'x, 'q) world \<Rightarrow> ('s, 'x, 'q) world" where
  "abandon vo t w = (if tx_writer t then release_lane (set_store (rollback_owner vo (tx_owner t) (w_store w)) w) else w)"

definition conn_rollback :: "'x vector_ops \<Rightarrow> ('s, 'x, 'q, unit) call" where
  "conn_rollback vo w c = (case c_txn c of
     None \<Rightarrow> (Inl ErrTxn, w, c)
   | Some t \<Rightarrow> (Inr (), abandon vo t w, c\<lparr>c_txn := None\<rparr>))"

definition conn_savepoint :: "string \<Rightarrow> ('s, 'x, 'q, unit) call" where
  "conn_savepoint name w c = (case c_txn c of
     None \<Rightarrow> (Inl ErrTxn, w, c)
   | Some t \<Rightarrow> (let (ins, del) = pending_snapshot (w_store w) (tx_owner t);
          sp = \<lparr>sp_name = name, sp_inserted = ins, sp_deleted = del, sp_wal_len = length (tx_wal_ops t)\<rparr>
        in (Inr (), w, c\<lparr>c_txn := Some (t\<lparr>tx_savepoints := tx_savepoints t @ [sp]\<rparr>)\<rparr>)))"

definition rposition :: "('a \<Rightarrow> bool) \<Rightarrow> 'a list \<Rightarrow> nat option" where
  "rposition p xs = map_option (\<lambda>i. length xs - 1 - i) (position p (rev xs))"

definition find_savepoint :: "string \<Rightarrow> txn \<Rightarrow> nat option" where
  "find_savepoint name t = rposition (\<lambda>s. eq_ignore_ascii_case (sp_name s) name) (tx_savepoints t)"

definition release_savepoint :: "string \<Rightarrow> ('s, 'x, 'q, unit) call" where
  "release_savepoint name w c = (case c_txn c of
     None \<Rightarrow> (Inl ErrTxn, w, c)
   | Some t \<Rightarrow> (case find_savepoint name t of
       None \<Rightarrow> (Inl ErrTxn, w, c)
     | Some i \<Rightarrow> (Inr (), w, c\<lparr>c_txn := Some (t\<lparr>tx_savepoints := take i (tx_savepoints t)\<rparr>)\<rparr>)))"

definition rollback_to :: "'x vector_ops \<Rightarrow> string \<Rightarrow> ('s, 'x, 'q, unit) call" where
  "rollback_to vo name w c = (case c_txn c of
     None \<Rightarrow> (Inl ErrTxn, w, c)
   | Some t \<Rightarrow> (case find_savepoint name t of
       None \<Rightarrow> (Inl ErrTxn, w, c)
     | Some i \<Rightarrow>
         (let sp = tx_savepoints t ! i;
              w1 = (if tx_writer t then set_store (rollback_to_savepoint vo (tx_owner t) (sp_inserted sp) (sp_deleted sp) (w_store w)) w else w)
          in (Inr (), w1, c\<lparr>c_txn := Some (t\<lparr>tx_wal_ops := take (sp_wal_len sp) (tx_wal_ops t),
                tx_savepoints := take (i + 1) (tx_savepoints t)\<rparr>)\<rparr>))))"

section \<open>Statements\<close>

definition ensure_writer :: "txn \<Rightarrow> ('s, 'x, 'q) world \<Rightarrow> (txn \<times> ('s, 'x, 'q) world) option" where
  "ensure_writer t w = (if tx_writer t then Some (t, w)
     else let (ok, l) = lane_try_acquire (w_lane w) in if ok then Some (t\<lparr>tx_writer := True\<rparr>, w\<lparr>w_lane := l\<rparr>) else None)"

definition result_of :: "mutation \<Rightarrow> result_set" where
  "result_of m = (case mu_result m of Some rs \<Rightarrow> rs | None \<Rightarrow> result_default)"

text \<open>Outside a transaction a write statement gets an implicit one.\<close>

definition statement_txn :: "('s, 'x, 'q) world \<Rightarrow> connection \<Rightarrow> txn \<times> ('s, 'x, 'q) world" where
  "statement_txn w c = (case c_txn c of Some t \<Rightarrow> (t, w) | None \<Rightarrow> new_txn w)"

definition exec_dml :: "'s storage \<Rightarrow> 'x vector_ops \<Rightarrow> fence_token \<Rightarrow>
    (write_ctx \<Rightarrow> ('x, 'q) store \<Rightarrow> mutation eres \<times> ('x, 'q) store) \<Rightarrow> sql_value list \<Rightarrow> ('s, 'x, 'q, result_set) waiting_call" where
  "exec_dml ops vo tok dml params w c =
     (let implicit = (c_txn c = None);
          (t0, w0) = statement_txn w c
      in case ensure_writer t0 w0 of
           None \<Rightarrow> None
         | Some (t1, w1) \<Rightarrow>
             (case dml \<lparr>wc_snapshot = tx_snapshot t1, wc_owner = tx_owner t1, wc_params = params\<rparr> (w_store w1) of
                (Inr m, st) \<Rightarrow>
                  (let w2 = set_store st w1; t2 = t1\<lparr>tx_wal_ops := tx_wal_ops t1 @ mu_wal m\<rparr>;
                       c2 = c\<lparr>c_last_changes := mu_changes m\<rparr>
                   in if implicit then
                        (case finish_commit ops vo tok t2 w2 c2 of
                           None \<Rightarrow> None
                         | Some (Inl e, w3, c3) \<Rightarrow> Some (Inl e, w3, c3)
                         | Some (Inr u, w3, c3) \<Rightarrow> Some (Inr (result_of m), w3, c3))
                      else Some (Inr (result_of m), w2, c2\<lparr>c_txn := Some t2\<rparr>))
              | (Inl e, st) \<Rightarrow>
                  (let w2 = set_store st w1
                   in if implicit then Some (Inl e, abandon vo t1 w2, c) else Some (Inl e, w2, c\<lparr>c_txn := Some t1\<rparr>))))"

definition quiescent :: "gc_state \<Rightarrow> bool" where
  "quiescent g \<longleftrightarrow> \<not> g_leader_active g \<and> g_queue g = []"

definition exec_ddl :: "(('s, 'x, 'q) ddl) \<Rightarrow> ('s, 'x, 'q, unit) waiting_call" where
  "exec_ddl ddl w c =
     (if c_txn c \<noteq> None then Some (Inl ErrTxn, w, c)
      else let (ok, l) = lane_try_acquire (w_lane w) in
        if \<not> ok \<or> \<not> quiescent (d_gc (w_db w)) then None
        else let (r, d) = ddl (w_db w);
                 w1 = release_lane (w\<lparr>w_lane := l, w_db := d\<rparr>); c1 = c\<lparr>c_last_changes := 0\<rparr>
          in (case r of
                Inl e \<Rightarrow> Some (Inl e, w1, c1)
              | Inr None \<Rightarrow> Some (Inr (), w1, c1)
              | Inr (Some lsn) \<Rightarrow> Some (Inr (), w1, c1\<lparr>c_last_lsn := int lsn\<rparr>)))"

definition conn_drop :: "'x vector_ops \<Rightarrow> ('s, 'x, 'q) world \<Rightarrow> connection \<Rightarrow> ('s, 'x, 'q) world" where
  "conn_drop vo w c = (case c_txn c of None \<Rightarrow> w | Some t \<Rightarrow> abandon vo t w)"

text \<open>\<^verbatim>\<open>Connection::run\<close>: \<open>'m\<close> is a parsed write statement and \<open>'l\<close> a parsed query.\<close>

datatype dml_kind = KInsert | KUpdate | KDelete

datatype ('m, 'q, 'l) stmt =
    SetSession session_set
  | Begin
  | CommitTxn
  | RollbackTxn
  | SavepointNamed string
  | ReleaseSavepoint string
  | RollbackTo string
  | Select 'l
  | Ddl "'q ddl_stmt"
  | Dml dml_kind 'm
  | Noop
  | SetVectorEf "nat option"
  | Show string
  | Explain "('m, 'q, 'l) stmt"

definition VECTOR_EF_SEARCH_GUC :: string where
  "VECTOR_EF_SEARCH_GUC = ''twill.vector_ef_search''"

definition text_result :: "string \<Rightarrow> string \<Rightarrow> result_set" where
  "text_result column val = \<lparr>rs_columns = [column], rs_types = [CtText], rs_rows = [[VText val]]\<rparr>"

definition show_result :: "string \<Rightarrow> result_set" where
  "show_result name =
     (let val = (if key name \<in> {''transaction_isolation'', ''default_transaction_isolation'', ''transaction isolation level''}
                 then ''repeatable read'' else [])
      in text_result (if key name = [] then ''setting'' else name) val)"

fun explain_result :: "('m, 'q, 'l) stmt \<Rightarrow> result_set" where
  "explain_result (Select s) = text_result ''QUERY PLAN'' ''Query plan: scan / nested-loop join over the MVCC snapshot''"
| "explain_result (Dml KInsert m) = text_result ''QUERY PLAN'' ''Insert''"
| "explain_result (Dml KUpdate m) = text_result ''QUERY PLAN'' ''Update (scan + supersede)''"
| "explain_result (Dml KDelete m) = text_result ''QUERY PLAN'' ''Delete (scan + supersede)''"
| "explain_result _ = text_result ''QUERY PLAN'' ''Utility statement''"

record ('s, 'x, 'q, 'm, 'l) sql_engine =
  en_ops :: "'s storage"
  en_tok :: fence_token
  en_vo :: "'x vector_ops"
  en_ddl :: "'q ddl_stmt \<Rightarrow> ('s, 'x, 'q) ddl"
  en_dml :: "session_context \<Rightarrow> dml_kind \<Rightarrow> 'm \<Rightarrow> write_ctx \<Rightarrow> ('x, 'q) store \<Rightarrow> mutation eres \<times> ('x, 'q) store"
  en_select :: "session_context \<Rightarrow> 'l \<Rightarrow> nat \<Rightarrow> nat option \<Rightarrow> sql_value list \<Rightarrow> nat option \<Rightarrow> ('x, 'q) store \<Rightarrow> result_set eres"

definition no_result :: "unit eres \<times> ('s, 'x, 'q) world \<times> connection \<Rightarrow> result_set eres \<times> ('s, 'x, 'q) world \<times> connection" where
  "no_result r = (map_sum id (\<lambda>_. result_default) (fst r), snd r)"

fun conn_run :: "('s, 'x, 'q, 'm, 'l) sql_engine \<Rightarrow> ('m, 'q, 'l) stmt \<Rightarrow> sql_value list \<Rightarrow> ('s, 'x, 'q, result_set) waiting_call" where
  "conn_run en (SetSession s) ps w c = Some (Inr result_default, w, apply_session_set s c)"
| "conn_run en Begin ps w c = Some (no_result (conn_begin w c))"
| "conn_run en CommitTxn ps w c = map_option no_result (conn_commit (en_ops en) (en_vo en) (en_tok en) w c)"
| "conn_run en RollbackTxn ps w c = Some (no_result (conn_rollback (en_vo en) w c))"
| "conn_run en (SavepointNamed n) ps w c = Some (no_result (conn_savepoint n w c))"
| "conn_run en (ReleaseSavepoint n) ps w c = Some (no_result (release_savepoint n w c))"
| "conn_run en (RollbackTo n) ps w c = Some (no_result (rollback_to (en_vo en) n w c))"
| "conn_run en (Select s) ps w c =
     (let (snapshot, writer) = read_snapshot w c in
      case en_select en (c_session c) s snapshot writer ps (c_vector_ef_search c) (w_store w) of
        Inl e \<Rightarrow> Some (Inl e, w, c)
      | Inr rs \<Rightarrow> Some (Inr rs, w, c\<lparr>c_last_changes := 0\<rparr>))"
| "conn_run en (Ddl s) ps w c = map_option no_result (exec_ddl (en_ddl en s) w c)"
| "conn_run en (Dml k m) ps w c = exec_dml (en_ops en) (en_vo en) (en_tok en) (en_dml en (c_session c) k m) ps w c"
| "conn_run en Noop ps w c = Some (Inr result_default, w, c)"
| "conn_run en (SetVectorEf v) ps w c = Some (Inr result_default, w, c\<lparr>c_vector_ef_search := v, c_last_changes := 0\<rparr>)"
| "conn_run en (Show n) ps w c =
     Some (Inr (if eq_ignore_ascii_case n VECTOR_EF_SEARCH_GUC
                then text_result VECTOR_EF_SEARCH_GUC (case c_vector_ef_search c of Some v \<Rightarrow> dec_string v | None \<Rightarrow> [])
                else show_result n), w, c)"
| "conn_run en (Explain s) ps w c = Some (Inr (explain_result s), w, c)"

section \<open>Connections side by side\<close>

text \<open>Statements of several connections, one after the other, each to its end.  The waits inside a
  statement (a group-commit follower for its leader, a schema change for the queue to drain)
  are not in this relation; \<open>sys_step\<close> of the theory on recovery takes the commit path apart into
  its critical sections.\<close>

record ('s, 'x, 'q) host =
  h_world :: "('s, 'x, 'q) world"
  h_conns :: "nat \<Rightarrow> connection option"

definition host_start :: "'s \<Rightarrow> ('s, 'x, 'q) host" where
  "host_start s = \<lparr>h_world = \<lparr>w_db = \<lparr>d_storage = s, d_store = store_default, d_gc = gc_new\<rparr>, w_lane = lane_new, w_owner = 1\<rparr>,
     h_conns = (\<lambda>_. None)\<rparr>"

inductive host_step :: "('s, 'x, 'q, 'm, 'l) sql_engine \<Rightarrow> ('s, 'x, 'q) host \<Rightarrow> ('s, 'x, 'q) host \<Rightarrow> bool" for en where
  host_open: "h_conns h i = None \<Longrightarrow> host_step en h (h\<lparr>h_conns := (h_conns h)(i \<mapsto> conn_open)\<rparr>)"
| host_run: "h_conns h i = Some c \<Longrightarrow> conn_run en st ps (h_world h) c = Some (r, w, c') \<Longrightarrow>
    host_step en h \<lparr>h_world = w, h_conns = (h_conns h)(i \<mapsto> c')\<rparr>"
| host_drop: "h_conns h i = Some c \<Longrightarrow>
    host_step en h \<lparr>h_world = conn_drop (en_vo en) (h_world h) c, h_conns = (h_conns h)(i := None)\<rparr>"

definition writes :: "connection \<Rightarrow> bool" where
  "writes c \<longleftrightarrow> (\<exists>t. c_txn c = Some t \<and> tx_writer t)"

abbreviation locked :: "('s, 'x, 'q) world \<Rightarrow> bool" where
  "locked w \<equiv> wl_locked (w_lane w)"

text \<open>Seen from one connection: the lane is taken by it or by another one (\<open>b\<close>), not both, and
  between statements no commit is in flight.\<close>

definition lane_ok :: "bool \<Rightarrow> ('s, 'x, 'q) world \<Rightarrow> connection \<Rightarrow> bool" where
  "lane_ok b w c \<longleftrightarrow> (locked w \<longleftrightarrow> writes c \<or> b) \<and> \<not> (writes c \<and> b) \<and> quiescent (d_gc (w_db w))"

lemma set_store_simps [simp]: "w_lane (set_store st w) = w_lane w" "w_store (set_store st w) = st"
  "d_gc (w_db (set_store st w)) = d_gc (w_db w)" "w_owner (set_store st w) = w_owner w"
  by (simp_all add: set_store_def)

lemma release_lane_simps [simp]: "\<not> locked (release_lane w)" "w_db (release_lane w) = w_db w" "w_owner (release_lane w) = w_owner w"
  by (simp_all add: release_lane_def lane_release_def)

lemma new_txnD: "new_txn w = (t, w') \<Longrightarrow> \<not> tx_writer t \<and> w_lane w' = w_lane w \<and> w_db w' = w_db w \<and> tx_wal_ops t = [] \<and> tx_savepoints t = []"
  by (auto simp: new_txn_def split_beta)

lemma abandon_simps [simp]: "d_gc (w_db (abandon vo t w)) = d_gc (w_db w)" "tx_writer t \<Longrightarrow> \<not> locked (abandon vo t w)"
  "\<not> tx_writer t \<Longrightarrow> abandon vo t w = w"
  by (simp_all add: abandon_def)

text \<open>With nobody else committing, a commit leads, is served and returns.\<close>

lemma group_commit_idle:
  assumes "quiescent (d_gc (w_db w))"
  obtains r w' where "group_commit ops vo tok owner records w = Some (r, w')" and "\<not> locked w'" and "quiescent (d_gc (w_db w'))"
proof -
  let ?i = "g_next_id (d_gc (w_db w))"
  obtain g where g: "gc_enqueue owner records (d_gc (w_db w)) = ((?i, True), g)" "g_queue g = [?i]" "hm_get (g_members g) ?i \<noteq> None"
    using assms by (simp add: gc_enqueue_def quiescent_def Let_def)
  define w1 where "w1 = release_lane (w\<lparr>w_db := (w_db w)\<lparr>d_gc := g\<rparr>\<rparr>)"
  define d where "d = lead ops vo tok (w_db w1)"
  have "d_gc (w_db w1) = g" by (simp add: w1_def)
  then have l: "g_queue (d_gc d) = []" "\<not> g_leader_active (d_gc d)" "member_done (d_gc d) ?i"
    using lead_serves [of "w_db w1" ops vo tok] g(2,3) by (auto simp: d_def)
  then obtain r g2 where r: "gc_reclaim ?i (d_gc d) = (Some r, g2)" "g_queue g2 = []" "\<not> g_leader_active g2"
    by (auto simp: member_done_def gc_reclaim_def split: option.splits)
  let ?w = "(w1\<lparr>w_db := d\<rparr>)\<lparr>w_db := d\<lparr>d_gc := g2\<rparr>\<rparr>"
  have "group_commit ops vo tok owner records w = Some (r, ?w)"
    unfolding group_commit_def g(1) using r(1) by (simp add: w1_def d_def Let_def)
  moreover have "\<not> locked ?w" by (simp add: w1_def)
  ultimately show ?thesis using r(2,3) by (intro that [of r ?w]) (simp_all add: quiescent_def)
qed

lemma finish_commit_ok:
  assumes "quiescent (d_gc (w_db w))" and "tx_writer t \<Longrightarrow> locked w"
  obtains r w' c' where "finish_commit ops vo tok t w c = Some (r, w', c')" and "c_txn c' = c_txn c" and "quiescent (d_gc (w_db w'))"
    and "tx_writer t \<Longrightarrow> \<not> locked w'" and "\<not> tx_writer t \<Longrightarrow> w_lane w' = w_lane w"
proof -
  consider "\<not> tx_writer t" | "tx_writer t" "tx_wal_ops t = []" | "tx_writer t" "tx_wal_ops t \<noteq> []" by blast
  then show ?thesis
  proof cases
    case 3
    obtain r w' where g: "group_commit ops vo tok (tx_owner t) (txn_records (tx_wal_ops t)) w = Some (r, w')" "\<not> locked w'" "quiescent (d_gc (w_db w'))"
      by (rule group_commit_idle [OF assms(1)])
    with 3 show ?thesis by (cases r) (auto simp: finish_commit_def intro!: that)
  qed (use assms in \<open>auto simp: finish_commit_def intro!: that\<close>)
qed

lemma ensure_writer_ok:
  assumes "ensure_writer t w = Some (t', w')" and "locked w \<longleftrightarrow> tx_writer t \<or> b" and "\<not> (tx_writer t \<and> b)"
  shows "tx_writer t' \<and> locked w' \<and> \<not> b \<and> w_db w' = w_db w \<and> tx_owner t' = tx_owner t \<and> tx_snapshot t' = tx_snapshot t \<and>
    tx_wal_ops t' = tx_wal_ops t \<and> tx_savepoints t' = tx_savepoints t"
  using assms by (auto simp: ensure_writer_def lane_try_acquire_def Let_def split: if_splits prod.splits)

lemma statement_txn_ok:
  assumes "statement_txn w c = (t0, w0)" and "lane_ok b w c"
  shows "locked w0 \<longleftrightarrow> tx_writer t0 \<or> b" and "\<not> (tx_writer t0 \<and> b)" and "quiescent (d_gc (w_db w0))"
  using assms by (auto simp: statement_txn_def lane_ok_def writes_def split: option.splits dest: new_txnD)

definition writers :: "('s, 'x, 'q) host \<Rightarrow> nat set" where
  "writers h = {i. \<exists>c. h_conns h i = Some c \<and> writes c}"

definition host_ok :: "('s, 'x, 'q) host \<Rightarrow> bool" where
  "host_ok h \<longleftrightarrow> (\<forall>i\<in>writers h. \<forall>j\<in>writers h. i = j) \<and> (locked (h_world h) \<longleftrightarrow> writers h \<noteq> {}) \<and> quiescent (d_gc (w_db (h_world h)))"

lemma writers_upd: "writers \<lparr>h_world = w, h_conns = (h_conns h)(i := x)\<rparr> =
    (case x of Some c \<Rightarrow> if writes c then {i} else {} | None \<Rightarrow> {}) \<union> (writers h - {i})"
  by (auto simp: writers_def split: option.splits if_splits)

lemma host_lane:
  assumes "host_ok h" and "h_conns h i = Some c"
  shows "lane_ok (writers h - {i} \<noteq> {}) (h_world h) c"
proof -
  have "i \<in> writers h \<longleftrightarrow> writes c" using assms(2) by (simp add: writers_def)
  then show ?thesis using assms(1) by (auto simp: host_ok_def lane_ok_def)
qed

lemma lane_host:
  assumes "host_ok h" and "lane_ok (writers h - {i} \<noteq> {}) w c" and "x = Some c \<or> x = None \<and> \<not> writes c"
  shows "host_ok \<lparr>h_world = w, h_conns = (h_conns h)(i := x)\<rparr>"
  using assms unfolding host_ok_def lane_ok_def writers_upd by (auto split: option.splits)

text \<open>What the connection layer needs of schema statements: they leave group commit alone.\<close>

locale sql_front =
  fixes en :: "('s, 'x, 'q, 'm, 'l) sql_engine"
  assumes ddl_keeps_gc: "d_gc (snd (en_ddl en s d)) = d_gc d"
begin

lemma exec_dml_lane:
  assumes "lane_ok b w c" and "exec_dml ops vo tok dml ps w c = Some (r, w', c')"
  shows "lane_ok b w' c'"
proof -
  obtain t0 w0 where p: "statement_txn w c = (t0, w0)" by fastforce
  note l = statement_txn_ok [OF p assms(1)]
  from assms(2) obtain t1 w1 where e: "ensure_writer t0 w0 = Some (t1, w1)"
    by (cases "ensure_writer t0 w0") (auto simp: exec_dml_def p Let_def)
  note ew = ensure_writer_ok [OF e l(1,2)]
  obtain res st where d: "dml \<lparr>wc_snapshot = tx_snapshot t1, wc_owner = tx_owner t1, wc_params = ps\<rparr> (w_store w1) = (res, st)" by fastforce
  have q: "quiescent (d_gc (w_db (set_store st w1)))" "locked (set_store st w1)" using ew l(3) by simp_all
  show ?thesis
  proof (cases res)
    case (Inl err)
    then show ?thesis
      using assms(2) e d ew q(1) by (auto simp: exec_dml_def p Let_def lane_ok_def writes_def split: if_splits)
  next
    case (Inr m)
    let ?t2 = "t1\<lparr>tx_wal_ops := tx_wal_ops t1 @ mu_wal m\<rparr>" and ?c2 = "c\<lparr>c_last_changes := mu_changes m\<rparr>"
    obtain r3 w3 c3 where f: "finish_commit ops vo tok ?t2 (set_store st w1) ?c2 = Some (r3, w3, c3)" "c_txn c3 = c_txn ?c2"
        "quiescent (d_gc (w_db w3))" "\<not> locked w3"
      by (rule finish_commit_ok [OF q(1), where t = ?t2 and ops = ops and vo = vo and tok = tok and c = ?c2]) (use ew q in auto)
    show ?thesis
      using assms(2) e d Inr f ew q by (cases r3) (auto simp: exec_dml_def p lane_ok_def writes_def Let_def split: if_splits)
  qed
qed

lemma exec_ddl_lane:
  assumes "lane_ok b w c" and "exec_ddl (en_ddl en s) w c = Some (r, w', c')"
  shows "lane_ok b w' c'"
proof (cases "c_txn c")
  case None
  obtain res d where "en_ddl en s (w_db w) = (res, d)" by fastforce
  with ddl_keeps_gc [of s "w_db w"] None assms show ?thesis
    by (auto simp: exec_ddl_def lane_ok_def writes_def lane_try_acquire_def Let_def split: if_splits sum.splits option.splits)
qed (use assms in \<open>auto simp: exec_ddl_def\<close>)

lemma conn_run_lane:
  assumes "lane_ok b w c" and "conn_run en st ps w c = Some (r, w', c')"
  shows "lane_ok b w' c'"
proof (cases st)
  case (SetSession s)
  with assms show ?thesis by (cases s) (auto simp: lane_ok_def writes_def)
next
  case Begin
  then show ?thesis
    using assms by (auto simp: conn_begin_def no_result_def lane_ok_def writes_def split: if_splits prod.splits dest: new_txnD)
next
  case CommitTxn
  show ?thesis
  proof (cases "c_txn c")
    case (Some t)
    have q: "quiescent (d_gc (w_db w))" "tx_writer t \<Longrightarrow> locked w" using assms(1) Some by (auto simp: lane_ok_def writes_def)
    obtain r1 w1 c1 where f: "finish_commit (en_ops en) (en_vo en) (en_tok en) t w (c\<lparr>c_txn := None\<rparr>) = Some (r1, w1, c1)"
        "c_txn c1 = None" "quiescent (d_gc (w_db w1))" "tx_writer t \<Longrightarrow> \<not> locked w1" "\<not> tx_writer t \<Longrightarrow> w_lane w1 = w_lane w"
      by (rule finish_commit_ok [OF q, where ops = "en_ops en" and vo = "en_vo en" and tok = "en_tok en" and c = "c\<lparr>c_txn := None\<rparr>"]) auto
    with assms CommitTxn Some show ?thesis
      by (cases "tx_writer t") (auto simp: conn_commit_def no_result_def lane_ok_def writes_def)
  qed (use assms CommitTxn in \<open>auto simp: conn_commit_def no_result_def\<close>)
next
  case (Select l)
  with assms show ?thesis by (auto simp: lane_ok_def writes_def split: sum.splits prod.splits)
next
  case (Ddl s)
  with assms exec_ddl_lane show ?thesis by (fastforce simp: no_result_def)
next
  case (Dml k m)
  with assms exec_dml_lane show ?thesis by fastforce
qed (use assms in \<open>auto simp: lane_ok_def writes_def no_result_def conn_rollback_def conn_savepoint_def release_savepoint_def
      rollback_to_def Let_def split: option.splits prod.splits if_splits\<close>)

lemma host_step_ok: "host_step en h h' \<Longrightarrow> host_ok h \<Longrightarrow> host_ok h'"
proof (induction rule: host_step.induct)
  case (host_open h i)
  have "i \<notin> writers h" using host_open.hyps by (simp add: writers_def)
  then have "lane_ok (writers h - {i} \<noteq> {}) (h_world h) conn_open"
    using host_open.prems by (simp add: host_ok_def lane_ok_def writes_def conn_open_def)
  from lane_host [OF host_open.prems this] show ?case by (cases h) simp
next
  case (host_run h i c st ps r w c')
  from lane_host [OF host_run.prems conn_run_lane [OF host_lane [OF host_run.prems host_run.hyps(1)] host_run.hyps(2)]] show ?case by simp
next
  case (host_drop h i c)
  note l = host_lane [OF host_drop.prems host_drop.hyps]
  have "lane_ok (writers h - {i} \<noteq> {}) (conn_drop (en_vo en) (h_world h) c) conn_open"
  proof (cases "c_txn c")
    case (Some t)
    with l show ?thesis by (cases "tx_writer t") (auto simp: lane_ok_def conn_drop_def writes_def conn_open_def)
  qed (use l in \<open>auto simp: lane_ok_def conn_drop_def writes_def conn_open_def\<close>)
  from lane_host [OF host_drop.prems this] show ?case by (simp add: writes_def conn_open_def)
qed

lemma host_reachable_ok: "(host_step en)\<^sup>*\<^sup>* (host_start s) h \<Longrightarrow> host_ok h"
proof (induction rule: rtranclp_induct)
  case base
  show ?case by (simp add: host_ok_def host_start_def lane_new_def quiescent_def gc_new_def writers_def)
qed (rule host_step_ok)

end

section \<open>The engine\<close>

text \<open>The engine over a backend: schema statements are those of \<^verbatim>\<open>do_ddl\<close>; the executor's entry points
  stay parameters.\<close>

definition twill_engine :: "'s storage \<Rightarrow> fence_token \<Rightarrow> 'q sql_env \<Rightarrow> 'x vector_ops \<Rightarrow> (string \<Rightarrow> bool) \<Rightarrow> ('q \<Rightarrow> string list) \<Rightarrow>
    ('x \<Rightarrow> nat \<Rightarrow> bytes list option) \<Rightarrow>
    (session_context \<Rightarrow> dml_kind \<Rightarrow> 'm \<Rightarrow> write_ctx \<Rightarrow> ('x, 'q) store \<Rightarrow> mutation eres \<times> ('x, 'q) store) \<Rightarrow>
    (session_context \<Rightarrow> 'l \<Rightarrow> nat \<Rightarrow> nat option \<Rightarrow> sql_value list \<Rightarrow> nat option \<Rightarrow> ('x, 'q) store \<Rightarrow> result_set eres) \<Rightarrow>
    ('s, 'x, 'q, 'm, 'l) sql_engine" where
  "twill_engine ops tok env vo px refs frames dml sel =
     \<lparr>en_ops = ops, en_tok = tok, en_vo = vo, en_ddl = do_ddl ops tok env vo px refs frames, en_dml = dml, en_select = sel\<rparr>"

lemma do_ddl_gc: "d_gc (snd (do_ddl ops tok env vo px refs frames s d)) = d_gc d"
  using do_ddl_outcome [of ops tok env vo refs d s px frames] by (cases rule: ddl_outcome.cases) auto

interpretation twill: sql_front "twill_engine ops tok env vo px refs frames dml sel"
  for ops tok env vo px refs frames dml sel
  by unfold_locales (simp add: twill_engine_def do_ddl_gc)

section \<open>An instance\<close>

text \<open>Statement \<open>0\<close> writes nothing, statement \<open>n + 1\<close> inserts a row and then fails.\<close>

fun sample_dml :: "session_context \<Rightarrow> dml_kind \<Rightarrow> nat \<Rightarrow> write_ctx \<Rightarrow> (unit, unit) store \<Rightarrow> mutation eres \<times> (unit, unit) store" where
  "sample_dml se k 0 wc st = (Inr \<lparr>mu_wal = [Delete ''t'' 1], mu_changes = 0, mu_result = None\<rparr>, st)"
| "sample_dml se k (Suc n) wc st = (Inl ErrConstraint, case append_version ''a'' [VInt (int n)] (wc_owner wc) (st, []) of
     Some (v, st', wal) \<Rightarrow> st' | None \<Rightarrow> st)"

abbreviation sample_engine :: "(local_inner, unit, unit, nat, unit) sql_engine" where
  "sample_engine \<equiv> twill_engine local_storage zero_token plain_env unit_index_ops (\<lambda>_. True) (\<lambda>_. []) (\<lambda>_ _. None) sample_dml
     (\<lambda>_ _ _ _ _ _ _. Inr result_default)"

text \<open>Two connections, the first one in a write transaction with a savepoint.\<close>

definition writing :: connection where
  "writing = conn_open\<lparr>c_txn := Some \<lparr>tx_snapshot = 0, tx_writer = True, tx_wal_ops = [Delete ''t'' 1], tx_owner = 1,
     tx_savepoints = [\<lparr>sp_name = ''p'', sp_inserted = {}, sp_deleted = {}, sp_wal_len = 0\<rparr>]\<rparr>\<rparr>"

definition busy_host :: "(local_inner, unit, unit) host" where
  "busy_host = \<lparr>h_world = \<lparr>w_db = fresh_db, w_lane = lane_new\<lparr>wl_locked := True, wl_acquires := 1\<rparr>, w_owner = 2\<rparr>,
     h_conns = [1 \<mapsto> conn_open, 0 \<mapsto> writing]\<rparr>"

lemma first_runs:
  assumes "conn_run en st ps w c = Some (r, w', c')"
  shows "host_step en \<lparr>h_world = w, h_conns = [1 \<mapsto> conn_open, 0 \<mapsto> c]\<rparr> \<lparr>h_world = w', h_conns = [1 \<mapsto> conn_open, 0 \<mapsto> c']\<rparr>"
  using host_run [of "\<lparr>h_world = w, h_conns = [1 \<mapsto> conn_open, 0 \<mapsto> c]\<rparr>" 0 c en st ps r w' c'] assms by simp

lemma busy_reachable: "(host_step sample_engine)\<^sup>*\<^sup>* (host_start fresh_local) busy_host"
proof -
  let ?h = "host_start fresh_local :: (local_inner, unit, unit) host"
  let ?w = "h_world ?h" and ?w1 = "(h_world ?h)\<lparr>w_owner := 2\<rparr>"
  let ?t1 = "\<lparr>tx_snapshot = 0, tx_writer = False, tx_wal_ops = [], tx_owner = 1, tx_savepoints = []\<rparr>"
  let ?t2 = "?t1\<lparr>tx_savepoints := [\<lparr>sp_name = ''p'', sp_inserted = {}, sp_deleted = {}, sp_wal_len = 0\<rparr>]\<rparr>"
  let ?two = "\<lambda>w c. \<lparr>h_world = w, h_conns = [1 \<mapsto> conn_open, 0 \<mapsto> c]\<rparr>"
  have s1: "host_step sample_engine ?h (?h\<lparr>h_conns := [1 \<mapsto> conn_open]\<rparr>)"
    using host_open [of ?h 1 sample_engine] by (simp add: host_start_def)
  have s2: "host_step sample_engine (?h\<lparr>h_conns := [1 \<mapsto> conn_open]\<rparr>) (?two ?w conn_open)"
    using host_open [of "?h\<lparr>h_conns := [1 \<mapsto> conn_open]\<rparr>" 0 sample_engine] by (simp add: host_start_def)
  have "conn_run sample_engine Begin [] ?w conn_open = Some (Inr result_default, ?w1, conn_open\<lparr>c_txn := Some ?t1\<rparr>)"
    by (simp add: host_start_def store_default_def no_result_def conn_begin_def conn_open_def new_txn_def next_owner_def)
  note s3 = first_runs [OF this]
  have "conn_run sample_engine (SavepointNamed ''p'') [] ?w1 (conn_open\<lparr>c_txn := Some ?t1\<rparr>) =
      Some (Inr result_default, ?w1, conn_open\<lparr>c_txn := Some ?t2\<rparr>)"
    by (simp add: host_start_def store_default_def no_result_def conn_savepoint_def pending_snapshot_def all_rows_def)
  note s4 = first_runs [OF this]
  have "conn_run sample_engine (Dml KInsert 0) [] ?w1 (conn_open\<lparr>c_txn := Some ?t2\<rparr>) = Some (Inr result_default, h_world busy_host, writing)"
    by (simp add: host_start_def busy_host_def writing_def fresh_db_def twill_engine_def exec_dml_def statement_txn_def ensure_writer_def
        lane_try_acquire_def lane_new_def set_store_def result_of_def conn_open_def Let_def)
  note s5 = first_runs [OF this]
  have b: "?two (h_world busy_host) writing = busy_host" by (simp add: busy_host_def)
  note go = converse_rtranclp_into_rtranclp [of "host_step sample_engine"]
  show ?thesis
    by (rule go [OF s1 go [OF s2 go [OF s3 go [OF s4 go [OF s5 [unfolded b] rtranclp.rtrancl_refl]]]]])
qed

text \<open>C31. Single writer: whatever statements the connections run, commits, rollbacks, failures and
  disconnections included, at most one of them holds a write transaction, the lane is locked
  exactly while one does, and between statements no commit is in flight.\<close>

theorem one_writer:
  assumes "(host_step (twill_engine ops tok env vo px refs frames dml sel))\<^sup>*\<^sup>* (host_start s) h"
  shows "(\<forall>i\<in>writers h. \<forall>j\<in>writers h. i = j) \<and> (locked (h_world h) \<longleftrightarrow> writers h \<noteq> {}) \<and> quiescent (d_gc (w_db (h_world h)))"
  using twill.host_reachable_ok [OF assms] by (simp add: host_ok_def)

theorem one_writer_witness: "writers busy_host = {0} \<and> locked (h_world busy_host)"
proof -
  have "writers busy_host = {0}" by (auto simp: writers_def busy_host_def writes_def writing_def conn_open_def split: if_splits)
  then show ?thesis using one_writer [OF busy_reachable] by simp
qed

section \<open>Savepoints\<close>

lemma rposition_Some:
  assumes "rposition p xs = Some k"
  shows "k < length xs \<and> p (xs ! k)"
proof -
  obtain i where i: "position p (rev xs) = Some i" "k = length xs - 1 - i" using assms by (auto simp: rposition_def)
  from position_Some [OF i(1)] have "i < length xs" "p (rev xs ! i)" by simp_all
  then show ?thesis using i(2) by (simp add: rev_nth)
qed

lemma rposition_last: "k < length xs \<Longrightarrow> p (xs ! k) \<Longrightarrow> rposition p (take (Suc k) xs) = Some k"
  by (simp add: rposition_def take_Suc_conv_app_nth)

text \<open>The savepoints of a transaction lie one after the other in its log.\<close>

definition txn_nested :: "txn \<Rightarrow> bool" where
  "txn_nested t \<longleftrightarrow> sorted (map sp_wal_len (tx_savepoints t) @ [length (tx_wal_ops t)])"

definition conn_nested :: "connection \<Rightarrow> bool" where
  "conn_nested c \<longleftrightarrow> (\<forall>t. c_txn c = Some t \<longrightarrow> txn_nested t)"

lemma txn_nested_append: "txn_nested t \<Longrightarrow> txn_nested (t\<lparr>tx_wal_ops := tx_wal_ops t @ xs\<rparr>)"
  by (fastforce simp: txn_nested_def sorted_append)

lemma txn_nested_at: "txn_nested t \<Longrightarrow> k < length (tx_savepoints t) \<Longrightarrow> sp_wal_len (tx_savepoints t ! k) \<le> length (tx_wal_ops t)"
  by (simp add: txn_nested_def sorted_append)

lemma txn_nested_rollback:
  assumes "txn_nested t" and "k < length (tx_savepoints t)"
  shows "txn_nested (t\<lparr>tx_wal_ops := take (sp_wal_len (tx_savepoints t ! k)) (tx_wal_ops t), tx_savepoints := take (k + 1) (tx_savepoints t)\<rparr>)"
proof -
  have "sorted (map sp_wal_len (tx_savepoints t))" using assms(1) by (simp add: txn_nested_def sorted_append)
  then have "sorted (take (Suc k) (map sp_wal_len (tx_savepoints t)))" by (rule sorted_wrt_take)
  with assms(2) txn_nested_at [OF assms] show ?thesis
    by (auto simp: txn_nested_def take_Suc_conv_app_nth take_map sorted_append min_absorb2)
qed

lemma txn_nested_release: "txn_nested t \<Longrightarrow> txn_nested (t\<lparr>tx_savepoints := take k (tx_savepoints t)\<rparr>)"
  using sorted_wrt_take [of "(\<le>)" "map sp_wal_len (tx_savepoints t)" k]
  by (auto simp: txn_nested_def sorted_append take_map dest: in_set_takeD)

lemma txn_nested_push:
  "txn_nested t \<Longrightarrow> sp_wal_len sp = length (tx_wal_ops t) \<Longrightarrow> txn_nested (t\<lparr>tx_savepoints := tx_savepoints t @ [sp]\<rparr>)"
  by (auto simp: txn_nested_def sorted_append)

lemma ensure_writer_log: "ensure_writer t w = Some (t', w') \<Longrightarrow> tx_wal_ops t' = tx_wal_ops t \<and> tx_savepoints t' = tx_savepoints t"
  by (auto simp: ensure_writer_def Let_def split: if_splits prod.splits)

lemma finish_commit_txn: "finish_commit ops vo tok t w c = Some (r, w', c') \<Longrightarrow> c_txn c' = c_txn c"
  by (auto simp: finish_commit_def split: if_splits option.splits sum.splits)

lemma exec_dml_nested:
  assumes "exec_dml ops vo tok dml ps w c = Some (r, w', c')" and "conn_nested c"
  shows "conn_nested c'"
proof -
  obtain t0 w0 where p: "statement_txn w c = (t0, w0)" by fastforce
  from assms(1) obtain t1 w1 where e: "ensure_writer t0 w0 = Some (t1, w1)"
    by (cases "ensure_writer t0 w0") (auto simp: exec_dml_def p Let_def)
  have "txn_nested t0" if "c_txn c \<noteq> None" using that p assms(2) by (auto simp: statement_txn_def conn_nested_def split: option.splits)
  then have n: "txn_nested t1" if "c_txn c \<noteq> None" using that ensure_writer_log [OF e] by (simp add: txn_nested_def)
  show ?thesis
    using assms e n txn_nested_append [OF n]
    by (auto simp: exec_dml_def p Let_def conn_nested_def split: if_splits sum.splits prod.splits option.splits dest!: finish_commit_txn)
qed

lemma conn_run_nested:
  assumes "conn_run en st ps w c = Some (r, w', c')" and "conn_nested c"
  shows "conn_nested c'"
proof (cases st)
  case (SetSession s)
  with assms show ?thesis by (cases s) (auto simp: conn_nested_def)
next
  case Begin
  with assms show ?thesis
    by (auto simp: conn_begin_def no_result_def conn_nested_def txn_nested_def split: if_splits prod.splits dest: new_txnD)
next
  case CommitTxn
  with assms show ?thesis
    by (auto simp: conn_commit_def no_result_def conn_nested_def split: option.splits dest!: finish_commit_txn)
next
  case (SavepointNamed n)
  with assms txn_nested_push show ?thesis
    by (auto simp: conn_savepoint_def no_result_def conn_nested_def Let_def split: option.splits prod.splits)
next
  case (ReleaseSavepoint n)
  with assms txn_nested_release show ?thesis
    by (auto simp: release_savepoint_def no_result_def conn_nested_def split: option.splits)
next
  case (RollbackTo n)
  with assms txn_nested_rollback show ?thesis
    by (auto simp: rollback_to_def no_result_def conn_nested_def find_savepoint_def Let_def split: option.splits dest!: rposition_Some)
next
  case (Select l)
  with assms show ?thesis by (auto simp: conn_nested_def split: sum.splits prod.splits)
next
  case (Ddl s)
  with assms show ?thesis
    by (auto simp: exec_ddl_def no_result_def conn_nested_def Let_def split: if_splits sum.splits option.splits prod.splits)
next
  case (Dml k m)
  with assms exec_dml_nested show ?thesis by fastforce
qed (use assms in \<open>auto simp: conn_nested_def no_result_def conn_rollback_def split: option.splits\<close>)

lemma conn_nested_open: "conn_nested conn_open"
  by (simp add: conn_nested_def conn_open_def)

lemma host_nested:
  "(host_step en)\<^sup>*\<^sup>* (host_start s) h \<Longrightarrow> \<forall>i c. h_conns h i = Some c \<longrightarrow> conn_nested c"
proof (induction rule: rtranclp_induct)
  case (step h h')
  from step(2,3) show ?case
    by (cases rule: host_step.cases) (auto simp: conn_nested_open dest: conn_run_nested)
qed (simp add: host_start_def)

text \<open>\<^verbatim>\<open>ROLLBACK TO\<close> in any reachable state cuts the buffered log back to exactly the length it had at
  the savepoint, drops the later savepoints and keeps that one, so it can be used again.\<close>

theorem rollback_to_cuts_log:
  assumes "(host_step en)\<^sup>*\<^sup>* (host_start s) h" and "h_conns h i = Some c" and "c_txn c = Some t" and "find_savepoint n t = Some k"
  shows "\<exists>w' c' t'. rollback_to vo n (h_world h) c = (Inr (), w', c') \<and> c_txn c' = Some t' \<and>
    prefix (tx_wal_ops t') (tx_wal_ops t) \<and> length (tx_wal_ops t') = sp_wal_len (tx_savepoints t ! k) \<and>
    tx_savepoints t' = take (k + 1) (tx_savepoints t) \<and> find_savepoint n t' = Some k"
proof -
  have n: "txn_nested t" using host_nested [OF assms(1)] assms(2,3) by (auto simp: conn_nested_def)
  have k: "k < length (tx_savepoints t)" "eq_ignore_ascii_case (sp_name (tx_savepoints t ! k)) n"
    using rposition_Some assms(4) by (auto simp: find_savepoint_def)
  show ?thesis
    using assms(3,4) txn_nested_at [OF n k(1)] rposition_last [OF k(1), of "\<lambda>s. eq_ignore_ascii_case (sp_name s) n"] k(2)
    by (auto simp: rollback_to_def Let_def find_savepoint_def take_is_prefix)
qed

theorem rollback_to_cuts_log_witness:
  "\<exists>w' c' t'. rollback_to unit_index_ops ''p'' (h_world busy_host) writing = (Inr (), w', c') \<and> c_txn c' = Some t' \<and> tx_wal_ops t' = []"
proof -
  obtain t where t: "c_txn writing = Some t" "find_savepoint ''p'' t = Some 0" "sp_wal_len (tx_savepoints t ! 0) = 0"
    by (simp add: writing_def find_savepoint_def rposition_def)
  have "h_conns busy_host 0 = Some writing" by (simp add: busy_host_def)
  from rollback_to_cuts_log [OF busy_reachable this t(1,2)] t(3) show ?thesis by fastforce
qed

end
