(* ===== verification/Sql_Expr.thy ===== *)
theory Sql_Expr
  imports Value_Ops Conn_Txn
begin

text \<open>
  Scalar expressions (\<^verbatim>\<open>Expr\<close> of \<^verbatim>\<open>crates/engine/src/sql.rs\<close>) and their evaluation
  (\<^verbatim>\<open>eval\<close> and its helpers in exec.rs).  A subquery is an abstract \<open>'l\<close>: evaluation refuses
  it, the planner replaces it beforehand.  \<open>scalar_ops\<close> holds what evaluation calls: the
  arithmetic of \<^verbatim>\<open>f64\<close>, decimal text of floating-point numbers, the distance of two vectors,
  the scalar function library, JSON text and the lookup of a claim.  A panic is an error
  value of its own, and so is the exhaustion of the call stack.  Text is its UTF-8 bytes; a Rust \<^verbatim>\<open>char\<close> is the group of bytes of one
  code point.
\<close>

section \<open>Parameters and failures\<close>

datatype failure = Raised engine_status | Panicked | Overflow

type_synonym 'a xres = "(failure, 'a) result"

record scalar_ops =
  so_fadd :: "u64 \<Rightarrow> u64 \<Rightarrow> u64"
  so_fsub :: "u64 \<Rightarrow> u64 \<Rightarrow> u64"
  so_fmul :: "u64 \<Rightarrow> u64 \<Rightarrow> u64"
  so_fdiv :: "u64 \<Rightarrow> u64 \<Rightarrow> u64"
  so_frem :: "u64 \<Rightarrow> u64 \<Rightarrow> u64"
  so_fsum :: "u64 list \<Rightarrow> u64"
  so_format_real :: "u64 \<Rightarrow> string"
  so_format_f32 :: "u32 \<Rightarrow> string"
  so_parse_f64 :: "string \<Rightarrow> u64 option"
  so_parse_f32 :: "string \<Rightarrow> u32 option"
  so_distance :: "metric \<Rightarrow> u32 list \<Rightarrow> u32 list \<Rightarrow> u64"
  so_call_func :: "string \<Rightarrow> sql_value list \<Rightarrow> sql_value xres"
  so_value_to_json :: "sql_value \<Rightarrow> string"
  so_claim :: "string \<Rightarrow> string \<Rightarrow> string option"

section \<open>Text\<close>

definition utf8_width :: "char \<Rightarrow> nat" where
  "utf8_width c = (let n = of_char c :: nat in if n < 128 then 1 else if n < 224 then 2 else if n < 240 then 3 else 4)"

function chars :: "string \<Rightarrow> string list" where
  "chars [] = []"
| "chars (c # cs) = (c # take (utf8_width c - 1) cs) # chars (drop (utf8_width c - 1) cs)"
  by pat_completeness auto
termination by (relation "measure length") auto

definition is_whitespace :: "string \<Rightarrow> bool" where
  "is_whitespace c \<longleftrightarrow> (let ns = map of_char c :: nat list in
     ns \<in> {[9], [10], [11], [12], [13], [32], [194, 133], [194, 160], [225, 154, 128], [226, 128, 168], [226, 128, 169],
       [226, 128, 175], [226, 129, 159], [227, 128, 128]} \<or>
     (length ns = 3 \<and> ns ! 0 = 226 \<and> ns ! 1 = 128 \<and> 128 \<le> ns ! 2 \<and> ns ! 2 \<le> 138))"

definition trim :: "string \<Rightarrow> string" where
  "trim s = concat (rev (dropWhile is_whitespace (rev (dropWhile is_whitespace (chars s)))))"

definition int_string :: "int \<Rightarrow> string" where
  "int_string i = (if i < 0 then CHR ''-'' # dec_string (nat (- i)) else dec_string (nat i))"

fun parse_digits :: "string \<Rightarrow> nat \<Rightarrow> nat option" where
  "parse_digits [] acc = Some acc"
| "parse_digits (c # cs) acc = (let n = of_char c :: nat in
     if 48 \<le> n \<and> n \<le> 57 then parse_digits cs (acc * 10 + (n - 48)) else None)"

definition i64_range :: "int \<Rightarrow> bool" where
  "i64_range i \<longleftrightarrow> - (2 ^ 63) \<le> i \<and> i < 2 ^ 63"

definition parse_i64 :: "string \<Rightarrow> int option" where
  "parse_i64 s = (let (neg, ds) = (case s of c # cs \<Rightarrow> if c = CHR ''-'' then (True, cs) else if c = CHR ''+'' then (False, cs) else (False, s) | [] \<Rightarrow> (False, s))
     in if ds = [] then None else case parse_digits ds 0 of
          None \<Rightarrow> None
        | Some n \<Rightarrow> (let i = (if neg then - int n else int n) in if i64_range i then Some i else None))"

definition format_vector :: "scalar_ops \<Rightarrow> u32 list \<Rightarrow> string" where
  "format_vector so v = ''['' @ concat (map (\<lambda>(i, x). (if i > 0 then '','' else []) @ so_format_f32 so x) (enumerate 0 v)) @ '']''"

definition f32_is_finite :: "u32 \<Rightarrow> bool" where
  "f32_is_finite x \<longleftrightarrow> unat x div 2 ^ 23 mod 256 \<noteq> 255"

fun split_on :: "(char \<Rightarrow> bool) \<Rightarrow> string \<Rightarrow> string \<Rightarrow> string list" where
  "split_on p acc [] = [rev acc]"
| "split_on p acc (c # cs) = (if p c then rev acc # split_on p [] cs else split_on p (c # acc) cs)"

fun collect_options :: "'a option list \<Rightarrow> 'a list option" where
  "collect_options [] = Some []"
| "collect_options (None # xs) = None"
| "collect_options (Some x # xs) = map_option (Cons x) (collect_options xs)"

definition parse_vector :: "scalar_ops \<Rightarrow> string \<Rightarrow> u32 list option" where
  "parse_vector so s =
     (let t = trim s;
          inner = trim (case t of c # r \<Rightarrow> if c = CHR ''['' then (if r \<noteq> [] \<and> last r = CHR '']'' then butlast r else r) else t | [] \<Rightarrow> t)
      in if inner = [] then Some []
         else collect_options (map (\<lambda>w. case so_parse_f32 so (trim w) of
             Some x \<Rightarrow> if f32_is_finite x then Some x else None | None \<Rightarrow> None)
           (filter (\<lambda>w. w \<noteq> []) (split_on (\<lambda>c. c \<in> {CHR '','', CHR '' '', CHR 0x09}) [] inner))))"

fun render :: "scalar_ops \<Rightarrow> sql_value \<Rightarrow> string option" where
  "render so VNull = None"
| "render so (VInt i) = Some (int_string i)"
| "render so (VReal r) = Some (so_format_real so r)"
| "render so (VText s) = Some s"
| "render so (VBlob b) = Some (base64_encode b)"
| "render so (VVector v) = Some (format_vector so v)"

definition text_of :: "scalar_ops \<Rightarrow> sql_value \<Rightarrow> string" where
  "text_of so v = (case render so v of Some s \<Rightarrow> s | None \<Rightarrow> [])"

section \<open>Expressions\<close>

datatype bin_op = BEq | BNe | BLt | BLe | BGt | BGe | BAnd | BOr | BAdd | BSub | BMul | BDiv | BMod | BConcat
  | BVecL2 | BVecCosine | BVecIp

datatype un_op = UNot | UNeg

datatype cast_target = CastInt | CastReal | CastText | CastBool | CastPassthrough

datatype agg_func = AggCount | AggSum | AggMin | AggMax | AggAvg | AggJsonAgg | AggGroupConcat

datatype 'l expr =
    ENull
  | EInt int
  | EReal u64
  | EStr string
  | EVector "u32 list"
  | ELit sql_value
  | EParam nat
  | EColumn string
  | EBinary bin_op "'l expr" "'l expr"
  | EUnary un_op "'l expr"
  | EIsNull "'l expr" bool
  | ELike "'l expr" "'l expr" "'l expr option" bool bool
  | EInList "'l expr" "'l expr list" bool
  | EBetween "'l expr" "'l expr" "'l expr" bool
  | ECase "'l expr option" "('l expr \<times> 'l expr) list" "'l expr option"
  | EExcluded string
  | EDefault
  | ECast "'l expr" cast_target
  | EFunc string "'l expr list"
  | EAggregate agg_func "'l expr option" bool "'l expr option"
  | EQualified string string
  | EScalarSubquery 'l
  | EExists 'l bool
  | EInSubquery "'l expr" 'l bool

record rel_col =
  rc_table :: "string option"
  rc_name :: string
  rc_ty :: column_type

record eval_ctx =
  ec_row :: "sql_value list option"
  ec_schema :: "table_schema option"
  ec_params :: "sql_value list"
  ec_group :: "sql_value list list option"
  ec_excluded :: "sql_value list option"
  ec_cols :: "rel_col list option"

definition ctx_root :: "sql_value list \<Rightarrow> eval_ctx" where
  "ctx_root ps = \<lparr>ec_row = None, ec_schema = None, ec_params = ps, ec_group = None, ec_excluded = None, ec_cols = None\<rparr>"

definition ctx_row :: "sql_value list \<Rightarrow> table_schema \<Rightarrow> sql_value list \<Rightarrow> eval_ctx" where
  "ctx_row row sch ps = \<lparr>ec_row = Some row, ec_schema = Some sch, ec_params = ps, ec_group = None, ec_excluded = None, ec_cols = None\<rparr>"

definition ctx_rel :: "sql_value list \<Rightarrow> rel_col list \<Rightarrow> sql_value list \<Rightarrow> eval_ctx" where
  "ctx_rel row cols ps = \<lparr>ec_row = Some row, ec_schema = None, ec_params = ps, ec_group = None, ec_excluded = None, ec_cols = Some cols\<rparr>"

section \<open>Columns and casts\<close>

definition index_row :: "'a list \<Rightarrow> nat \<Rightarrow> 'a xres" where
  "index_row xs i = (if i < length xs then Inr (xs ! i) else Inl Panicked)"

definition rel_matches :: "string option \<Rightarrow> string \<Rightarrow> rel_col \<Rightarrow> bool" where
  "rel_matches table name c \<longleftrightarrow> eq_ignore_ascii_case (rc_name c) name \<and>
     (case table of None \<Rightarrow> True | Some t \<Rightarrow> (case rc_table c of Some ct \<Rightarrow> eq_ignore_ascii_case ct t | None \<Rightarrow> False))"

text \<open>The loop returns early when a second column matches.\<close>

fun resolve_loop :: "string option \<Rightarrow> string \<Rightarrow> nat \<Rightarrow> rel_col list \<Rightarrow> nat option \<Rightarrow> nat xres" where
  "resolve_loop table name i [] (Some k) = Inr k"
| "resolve_loop table name i [] None = Inl (Raised ErrSql)"
| "resolve_loop table name i (c # cs) found =
     (if rel_matches table name c then
        (if found \<noteq> None then Inl (Raised ErrSql) else resolve_loop table name (Suc i) cs (Some i))
      else resolve_loop table name (Suc i) cs found)"

definition resolve_col :: "rel_col list \<Rightarrow> string option \<Rightarrow> string \<Rightarrow> nat xres" where
  "resolve_col cols table name = resolve_loop table name 0 cols None"

definition resolve_value :: "eval_ctx \<Rightarrow> string option \<Rightarrow> string \<Rightarrow> sql_value xres" where
  "resolve_value ctx table name = (case ec_row ctx of
     None \<Rightarrow> Inl (Raised ErrSql)
   | Some row \<Rightarrow> (case ec_cols ctx of
       Some cols \<Rightarrow> res_bind (resolve_col cols table name) (index_row row)
     | None \<Rightarrow> (case ec_schema ctx of
         None \<Rightarrow> Inl (Raised ErrSql)
       | Some sch \<Rightarrow> (case column_index sch name of
           None \<Rightarrow> Inl (Raised ErrSql)
         | Some idx \<Rightarrow> index_row row idx))))"

text \<open>\<^verbatim>\<open>r.round() as i64\<close>: half away from zero, saturating.\<close>

definition f64_round_i64 :: "u64 \<Rightarrow> int" where
  "f64_round_i64 x = (if f64_is_nan x then 0 else
     let m = (if 1075 \<le> f64_scale x then f64_trunc x
              else (2 * f64_significand x + 2 ^ (1075 - f64_scale x)) div 2 ^ (1076 - f64_scale x))
     in clamp_i64 (if f64_negative x then - int m else int m))"

definition parse_int_text :: "scalar_ops \<Rightarrow> string \<Rightarrow> sql_value xres" where
  "parse_int_text so s = (let t = trim s in case parse_i64 t of
     Some i \<Rightarrow> Inr (VInt i)
   | None \<Rightarrow> (case so_parse_f64 so t of Some r \<Rightarrow> Inr (VInt (f64_round_i64 r)) | None \<Rightarrow> Inl (Raised ErrSql)))"

definition int_of_bool :: "bool \<Rightarrow> sql_value" where
  "int_of_bool b = VInt (if b then 1 else 0)"

definition truth_value :: "bool option \<Rightarrow> sql_value" where
  "truth_value t = (case t of None \<Rightarrow> VNull | Some b \<Rightarrow> int_of_bool b)"

definition cast_value :: "scalar_ops \<Rightarrow> sql_value \<Rightarrow> cast_target \<Rightarrow> sql_value xres" where
  "cast_value so v target = (if is_null v then Inr v else case target of
     CastPassthrough \<Rightarrow> Inr v
   | CastInt \<Rightarrow> (case v of VInt i \<Rightarrow> Inr (VInt i) | VReal r \<Rightarrow> Inr (VInt (f64_round_i64 r))
       | VText s \<Rightarrow> parse_int_text so s | _ \<Rightarrow> Inl (Raised ErrSql))
   | CastReal \<Rightarrow> (case v of VInt i \<Rightarrow> Inr (VReal (f64_of_i64 i)) | VReal r \<Rightarrow> Inr (VReal r)
       | VText s \<Rightarrow> (case so_parse_f64 so (trim s) of Some r \<Rightarrow> Inr (VReal r) | None \<Rightarrow> Inl (Raised ErrSql)) | _ \<Rightarrow> Inl (Raised ErrSql))
   | CastText \<Rightarrow> Inr (case render so v of Some s \<Rightarrow> VText s | None \<Rightarrow> VNull)
   | CastBool \<Rightarrow> Inr (truth_value (as_bool v)))"

section \<open>Operators\<close>

fun three_valued_and :: "bool option \<Rightarrow> bool option \<Rightarrow> sql_value" where
  "three_valued_and a b = (if a = Some False \<or> b = Some False then VInt 0
     else if a = Some True \<and> b = Some True then VInt 1 else VNull)"

fun three_valued_or :: "bool option \<Rightarrow> bool option \<Rightarrow> sql_value" where
  "three_valued_or a b = (if a = Some True \<or> b = Some True then VInt 1
     else if a = Some False \<and> b = Some False then VInt 0 else VNull)"

fun num :: "scalar_ops \<Rightarrow> sql_value \<Rightarrow> u64 xres" where
  "num so (VInt i) = Inr (f64_of_i64 i)"
| "num so (VReal r) = Inr r"
| "num so (VText s) = (case so_parse_f64 so (trim s) of Some r \<Rightarrow> Inr r | None \<Rightarrow> Inl (Raised ErrSql))"
| "num so _ = Inl (Raised ErrSql)"

definition int_or_real :: "int \<Rightarrow> u64 \<Rightarrow> sql_value" where
  "int_or_real i real = (if i64_range i then VInt i else VReal real)"

text \<open>Integer division truncates; \<^verbatim>\<open>i64::MIN / -1\<close> and \<^verbatim>\<open>i64::MIN % -1\<close> panic.\<close>

definition trunc_div :: "int \<Rightarrow> int \<Rightarrow> int" where
  "trunc_div a b = sgn a * sgn b * (\<bar>a\<bar> div \<bar>b\<bar>)"

definition arith :: "scalar_ops \<Rightarrow> bin_op \<Rightarrow> sql_value \<Rightarrow> sql_value \<Rightarrow> sql_value xres" where
  "arith so op l r = (if is_null l \<or> is_null r then Inr VNull else
     res_bind (num so l) (\<lambda>ln. res_bind (num so r) (\<lambda>rn.
       case (l, r) of
         (VInt a, VInt b) \<Rightarrow> (case op of
             BAdd \<Rightarrow> Inr (int_or_real (a + b) (so_fadd so ln rn))
           | BSub \<Rightarrow> Inr (int_or_real (a - b) (so_fsub so ln rn))
           | BMul \<Rightarrow> Inr (int_or_real (a * b) (so_fmul so ln rn))
           | BDiv \<Rightarrow> (if b = 0 then Inr VNull else if i64_range (trunc_div a b) then Inr (VInt (trunc_div a b)) else Inl Panicked)
           | BMod \<Rightarrow> (if b = 0 then Inr VNull else if i64_range (trunc_div a b) then Inr (VInt (a - b * trunc_div a b)) else Inl Panicked)
           | _ \<Rightarrow> Inl Panicked)
       | _ \<Rightarrow> (case op of
             BAdd \<Rightarrow> Inr (VReal (so_fadd so ln rn))
           | BSub \<Rightarrow> Inr (VReal (so_fsub so ln rn))
           | BMul \<Rightarrow> Inr (VReal (so_fmul so ln rn))
           | BDiv \<Rightarrow> Inr (if f64_abs rn = 0 then VNull else VReal (so_fdiv so ln rn))
           | BMod \<Rightarrow> Inr (if f64_abs rn = 0 then VNull else VReal (so_frem so ln rn))
           | _ \<Rightarrow> Inl Panicked))))"

definition concat_values :: "scalar_ops \<Rightarrow> sql_value \<Rightarrow> sql_value \<Rightarrow> sql_value" where
  "concat_values so l r = (if is_null l \<or> is_null r then VNull else VText (text_of so l @ text_of so r))"

fun to_vec_operand :: "scalar_ops \<Rightarrow> sql_value \<Rightarrow> u32 list option" where
  "to_vec_operand so (VVector x) = Some x"
| "to_vec_operand so (VText s) = parse_vector so s"
| "to_vec_operand so _ = None"

fun vec_metric :: "bin_op \<Rightarrow> metric option" where
  "vec_metric BVecL2 = Some L2"
| "vec_metric BVecCosine = Some Cosine"
| "vec_metric BVecIp = Some InnerProduct"
| "vec_metric _ = None"

definition vec_distance :: "scalar_ops \<Rightarrow> bin_op \<Rightarrow> sql_value \<Rightarrow> sql_value \<Rightarrow> sql_value xres" where
  "vec_distance so op l r = (if is_null l \<or> is_null r then Inr VNull else case vec_metric op of
     None \<Rightarrow> Inl Panicked
   | Some m \<Rightarrow> (case (to_vec_operand so l, to_vec_operand so r) of
       (Some a, Some b) \<Rightarrow> if length a \<noteq> length b then Inl (Raised ErrSql) else Inr (VReal (so_distance so m a b))
     | _ \<Rightarrow> Inl (Raised ErrSql)))"

fun eval_binary :: "scalar_ops \<Rightarrow> bin_op \<Rightarrow> sql_value \<Rightarrow> sql_value \<Rightarrow> sql_value xres" where
  "eval_binary so BEq l r = Inr (truth_value (sql_eq l r))"
| "eval_binary so BNe l r = Inr (truth_value (map_option Not (sql_eq l r)))"
| "eval_binary so BLt l r = Inr (truth_value (map_option (\<lambda>c. c = OLess) (sql_cmp l r)))"
| "eval_binary so BLe l r = Inr (truth_value (map_option (\<lambda>c. c \<noteq> OGreater) (sql_cmp l r)))"
| "eval_binary so BGt l r = Inr (truth_value (map_option (\<lambda>c. c = OGreater) (sql_cmp l r)))"
| "eval_binary so BGe l r = Inr (truth_value (map_option (\<lambda>c. c \<noteq> OLess) (sql_cmp l r)))"
| "eval_binary so BAnd l r = Inr (three_valued_and (as_bool l) (as_bool r))"
| "eval_binary so BOr l r = Inr (three_valued_or (as_bool l) (as_bool r))"
| "eval_binary so BConcat l r = Inr (concat_values so l r)"
| "eval_binary so BVecL2 l r = vec_distance so BVecL2 l r"
| "eval_binary so BVecCosine l r = vec_distance so BVecCosine l r"
| "eval_binary so BVecIp l r = vec_distance so BVecIp l r"
| "eval_binary so op l r = arith so op l r"

fun unary_value :: "un_op \<Rightarrow> sql_value \<Rightarrow> sql_value xres" where
  "unary_value UNot v = Inr (truth_value (map_option Not (as_bool v)))"
| "unary_value UNeg VNull = Inr VNull"
| "unary_value UNeg (VInt i) = Inr (VInt (if i = - (2 ^ 63) then i else - i))"
| "unary_value UNeg (VReal r) = Inr (VReal (r + 2 ^ 63))"
| "unary_value UNeg _ = Inl (Raised ErrSql)"

section \<open>LIKE\<close>

datatype like_tok = LAny | LOne | LLit string

definition fold_char :: "bool \<Rightarrow> string \<Rightarrow> string" where
  "fold_char insensitive c = (if insensitive then to_ascii_lowercase c else c)"

fun like_compile :: "string option \<Rightarrow> bool \<Rightarrow> string list \<Rightarrow> like_tok list" where
  "like_compile esc ci [] = []"
| "like_compile esc ci (c # cs) =
     (if Some c = esc then
        (case cs of [] \<Rightarrow> [LLit (fold_char ci c)] | d # ds \<Rightarrow> LLit (fold_char ci d) # like_compile esc ci ds)
      else (if c = ''%'' then LAny else if c = ''_'' then LOne else LLit (fold_char ci c)) # like_compile esc ci cs)"

function like_go :: "string list \<Rightarrow> like_tok list \<Rightarrow> bool" where
  "like_go s [] \<longleftrightarrow> s = []"
| "like_go s (LAny # p) \<longleftrightarrow> (let rest = dropWhile (\<lambda>t. t = LAny) p in
     rest = [] \<or> list_ex (\<lambda>i. like_go (drop i s) rest) [0..<Suc (length s)])"
| "like_go s (LOne # p) \<longleftrightarrow> s \<noteq> [] \<and> like_go (tl s) p"
| "like_go s (LLit c # p) \<longleftrightarrow> s \<noteq> [] \<and> hd s = c \<and> like_go (tl s) p"
  by pat_completeness auto
termination
  by (relation "measure (length \<circ> snd)") (auto simp: le_imp_less_Suc length_dropWhile_le)

definition like_match :: "string \<Rightarrow> string \<Rightarrow> string option \<Rightarrow> bool \<Rightarrow> bool" where
  "like_match s pattern esc ci = like_go (map (fold_char ci) (chars s)) (like_compile esc ci (chars pattern))"

definition like_value :: "sql_value \<Rightarrow> sql_value \<Rightarrow> string option \<Rightarrow> bool \<Rightarrow> bool \<Rightarrow> sql_value" where
  "like_value v p esc negated ci = (case (v, p) of
     (VText s, VText pat) \<Rightarrow> int_of_bool (like_match s pat esc ci \<noteq> negated) | _ \<Rightarrow> VNull)"

section \<open>Aggregates\<close>

fun collect_results :: "'a xres list \<Rightarrow> 'a list xres" where
  "collect_results [] = Inr []"
| "collect_results (r # rs) = res_bind r (\<lambda>x. res_bind (collect_results rs) (\<lambda>xs. Inr (x # xs)))"

definition value_key :: "scalar_ops \<Rightarrow> sql_value \<Rightarrow> string" where
  "value_key so v = (case v of
     VNull \<Rightarrow> CHR 0x00 # ''null''
   | VInt i \<Rightarrow> ''i'' @ int_string i
   | VReal r \<Rightarrow> ''r'' @ dec_string (unat r)
   | VText s \<Rightarrow> ''t'' @ s
   | VBlob b \<Rightarrow> ''b'' @ base64_encode b
   | VVector x \<Rightarrow> ''v'' @ format_vector so x)"

fun retain_new :: "('a \<Rightarrow> 'k) \<Rightarrow> 'k set \<Rightarrow> 'a list \<Rightarrow> 'a list" where
  "retain_new k seen [] = []"
| "retain_new k seen (x # xs) = (if k x \<in> seen then retain_new k seen xs else x # retain_new k (insert (k x) seen) xs)"

definition null_aware_cmp :: "sql_value \<Rightarrow> sql_value \<Rightarrow> ordering" where
  "null_aware_cmp a b = (case (is_null a, is_null b) of
     (True, True) \<Rightarrow> OEqual | (True, False) \<Rightarrow> OLess | (False, True) \<Rightarrow> OGreater
   | (False, False) \<Rightarrow> (case sql_cmp a b of Some c \<Rightarrow> c | None \<Rightarrow> OEqual))"

fun join_strings :: "string \<Rightarrow> string list \<Rightarrow> string" where
  "join_strings sep [] = []"
| "join_strings sep [x] = x"
| "join_strings sep (x # xs) = x @ sep @ join_strings sep xs"

definition reduce_values :: "(sql_value \<Rightarrow> sql_value \<Rightarrow> sql_value) \<Rightarrow> sql_value list \<Rightarrow> sql_value" where
  "reduce_values f vs = (case vs of [] \<Rightarrow> VNull | v # rest \<Rightarrow> foldl f v rest)"

text \<open>\<^verbatim>\<open>vals.iter().map(li).sum()\<close> wraps around at 64 bits.\<close>

definition wrap_i64 :: "int \<Rightarrow> int" where
  "wrap_i64 i = (i + 2 ^ 63) mod 2 ^ 64 - 2 ^ 63"

definition num_or_zero :: "scalar_ops \<Rightarrow> sql_value \<Rightarrow> u64" where
  "num_or_zero so v = (case num so v of Inr r \<Rightarrow> r | Inl _ \<Rightarrow> 0)"

fun int_of_value :: "sql_value \<Rightarrow> int option" where
  "int_of_value (VInt i) = Some i"
| "int_of_value _ = None"

fun fold_aggregate :: "scalar_ops \<Rightarrow> agg_func \<Rightarrow> string option \<Rightarrow> sql_value list \<Rightarrow> sql_value xres" where
  "fold_aggregate so AggCount sep vals = Inr (VInt (int (length vals)))"
| "fold_aggregate so AggMin sep vals = Inr (reduce_values (\<lambda>a b. if null_aware_cmp b a = OLess then b else a) vals)"
| "fold_aggregate so AggMax sep vals = Inr (reduce_values (\<lambda>a b. if null_aware_cmp b a = OGreater then b else a) vals)"
| "fold_aggregate so AggSum sep vals = Inr (if vals = [] then VNull else case collect_options (map int_of_value vals) of
     Some is \<Rightarrow> VInt (foldl (\<lambda>a i. wrap_i64 (a + i)) 0 is)
   | None \<Rightarrow> VReal (so_fsum so (map (num_or_zero so) vals)))"
| "fold_aggregate so AggAvg sep vals = Inr (if vals = [] then VNull
     else VReal (so_fdiv so (so_fsum so (map (num_or_zero so) vals)) (f64_of_i64 (int (length vals)))))"
| "fold_aggregate so AggGroupConcat sep vals = Inr (if vals = [] then VNull
     else VText (join_strings (case sep of Some s \<Rightarrow> s | None \<Rightarrow> '','') (map (text_of so) vals)))"
| "fold_aggregate so AggJsonAgg sep vals = Inl Panicked"

text \<open>The argument of an aggregate, evaluated on each row of the group; \<open>None\<close> is a star.\<close>

definition compute_aggregate :: "scalar_ops \<Rightarrow> agg_func \<Rightarrow> sql_value xres list option \<Rightarrow> bool \<Rightarrow> string option \<Rightarrow> nat \<Rightarrow> sql_value xres" where
  "compute_aggregate so func arg uniq sep nrows = (case arg of
     None \<Rightarrow> (if func = AggCount then Inr (VInt (int nrows)) else Inl (Raised ErrSql))
   | Some results \<Rightarrow>
       (if func = AggJsonAgg then
          (if nrows = 0 then Inr VNull
           else res_bind (collect_results results) (\<lambda>vs. Inr (VText (''['' @ join_strings '','' (map (so_value_to_json so) vs) @ '']''))))
        else res_bind (collect_results results) (\<lambda>vs.
          let vals = filter (\<lambda>v. \<not> is_null v) vs
          in fold_aggregate so func sep (if uniq then retain_new (value_key so) {} vals else vals))))"

section \<open>Evaluation\<close>

definition strip_auth_prefix :: "string \<Rightarrow> string option" where
  "strip_auth_prefix name = strip_prefix ''auth.'' (to_ascii_lowercase name)"

definition claim_value :: "scalar_ops \<Rightarrow> session_context \<Rightarrow> string \<Rightarrow> sql_value" where
  "claim_value so se k = (case Option.bind (se_claims se) (\<lambda>raw. so_claim so raw k) of Some s \<Rightarrow> VText s | None \<Rightarrow> VNull)"

definition auth_value :: "scalar_ops \<Rightarrow> session_context \<Rightarrow> string \<Rightarrow> sql_value xres option \<Rightarrow> sql_value xres" where
  "auth_value so se fname arg =
     (if fname = ''uid'' then Inr (claim_value so se ''sub'')
      else if fname = ''role'' then Inr (VText (session_role se))
      else if fname = ''claim'' then (case arg of
        None \<Rightarrow> Inl (Raised ErrSql)
      | Some r \<Rightarrow> res_bind r (\<lambda>k. Inr (if is_null k then VNull else claim_value so se (text_of so k))))
      else Inl (Raised ErrSql))"

definition excluded_value :: "eval_ctx \<Rightarrow> string \<Rightarrow> sql_value xres" where
  "excluded_value ctx name = (case (ec_excluded ctx, ec_schema ctx) of
     (Some row, Some sch) \<Rightarrow> (case column_index sch name of Some idx \<Rightarrow> index_row row idx | None \<Rightarrow> Inl (Raised ErrSql))
   | _ \<Rightarrow> Inl (Raised ErrSql))"

definition param_value :: "eval_ctx \<Rightarrow> nat \<Rightarrow> sql_value xres" where
  "param_value ctx idx = (if 0 < idx \<and> idx \<le> length (ec_params ctx) then Inr (ec_params ctx ! (idx - 1)) else Inl (Raised ErrMisuse))"

definition between_value :: "scalar_ops \<Rightarrow> sql_value \<Rightarrow> sql_value \<Rightarrow> sql_value \<Rightarrow> bool \<Rightarrow> sql_value xres" where
  "between_value so v lo hi negated =
     res_bind (eval_binary so BGe v lo) (\<lambda>ge. res_bind (eval_binary so BLe v hi) (\<lambda>le.
       let within = three_valued_and (as_bool ge) (as_bool le)
       in Inr (if negated then truth_value (map_option Not (as_bool within)) else within)))"

text \<open>\<open>eval_in\<close> and \<open>eval_whens\<close> are the loops of \<^verbatim>\<open>eval_in_list\<close> and \<^verbatim>\<open>eval_case\<close>; each stops at
  the first element that decides.  An element is the evaluation of a subexpression, a function
  of the context, so an element behind that point is not evaluated.\<close>

type_synonym evaluation = "eval_ctx \<Rightarrow> sql_value xres"

fun eval_in :: "sql_value \<Rightarrow> bool \<Rightarrow> bool \<Rightarrow> evaluation list \<Rightarrow> evaluation" where
  "eval_in v negated saw_null [] ctx = Inr (if saw_null then VNull else int_of_bool negated)"
| "eval_in v negated saw_null (item # items) ctx = res_bind (item ctx) (\<lambda>w.
     case sql_eq v w of
       Some b \<Rightarrow> if b then Inr (int_of_bool (\<not> negated)) else eval_in v negated saw_null items ctx
     | None \<Rightarrow> eval_in v negated True items ctx)"

fun eval_whens :: "sql_value option \<Rightarrow> (evaluation \<times> evaluation) list \<Rightarrow> evaluation \<Rightarrow> evaluation" where
  "eval_whens ov [] els ctx = els ctx"
| "eval_whens ov ((cond, result) # whens) els ctx = res_bind (cond ctx) (\<lambda>c.
     if (case ov of Some v \<Rightarrow> sql_eq c v = Some True | None \<Rightarrow> as_bool c = Some True)
     then result ctx else eval_whens ov whens els ctx)"

definition eval_option :: "evaluation option \<Rightarrow> eval_ctx \<Rightarrow> sql_value option xres" where
  "eval_option f ctx = (case f of None \<Rightarrow> Inr None | Some g \<Rightarrow> res_bind (g ctx) (\<lambda>v. Inr (Some v)))"

definition eval_like :: "scalar_ops \<Rightarrow> evaluation \<Rightarrow> evaluation \<Rightarrow> evaluation option \<Rightarrow> bool \<Rightarrow> bool \<Rightarrow> evaluation" where
  "eval_like so e pattern escape negated ci ctx =
     res_bind (e ctx) (\<lambda>v. res_bind (pattern ctx) (\<lambda>p. res_bind (eval_option escape ctx) (\<lambda>ev.
       Inr (case ev of
         None \<Rightarrow> like_value v p None negated ci
       | Some x \<Rightarrow> if is_null x then VNull
           else like_value v p (case chars (text_of so x) of [] \<Rightarrow> None | c # _ \<Rightarrow> Some c) negated ci))))"

definition eval_aggregate :: "scalar_ops \<Rightarrow> agg_func \<Rightarrow> evaluation option \<Rightarrow> bool \<Rightarrow> evaluation option \<Rightarrow> evaluation" where
  "eval_aggregate so func arg uniq sep ctx = (case ec_group ctx of
     None \<Rightarrow> Inl (Raised ErrSql)
   | Some rows \<Rightarrow> res_bind (eval_option sep ctx) (\<lambda>sv.
       compute_aggregate so func
         (map_option (\<lambda>f. map (\<lambda>r. f (ctx\<lparr>ec_row := Some r, ec_group := None, ec_excluded := None\<rparr>)) rows) arg)
         uniq (Option.bind sv (render so)) (length rows)))"

primrec eval :: "scalar_ops \<Rightarrow> session_context \<Rightarrow> 'l expr \<Rightarrow> evaluation" where
  "eval so se ENull = (\<lambda>ctx. Inr VNull)"
| "eval so se (EInt i) = (\<lambda>ctx. Inr (VInt i))"
| "eval so se (EReal r) = (\<lambda>ctx. Inr (VReal r))"
| "eval so se (EStr s) = (\<lambda>ctx. Inr (VText s))"
| "eval so se (EVector v) = (\<lambda>ctx. Inr (VVector v))"
| "eval so se (ELit v) = (\<lambda>ctx. Inr v)"
| "eval so se (EParam idx) = (\<lambda>ctx. param_value ctx idx)"
| "eval so se (EColumn name) = (\<lambda>ctx. resolve_value ctx None name)"
| "eval so se (EQualified table name) = (\<lambda>ctx. resolve_value ctx (Some table) name)"
| "eval so se (EUnary op e) = (\<lambda>ctx. res_bind (eval so se e ctx) (unary_value op))"
| "eval so se (EIsNull e negated) = (\<lambda>ctx. res_bind (eval so se e ctx) (\<lambda>v. Inr (int_of_bool (is_null v \<noteq> negated))))"
| "eval so se (ELike e pattern escape negated ci) =
     eval_like so (eval so se e) (eval so se pattern) (map_option (eval so se) escape) negated ci"
| "eval so se (EInList e items negated) = (\<lambda>ctx. res_bind (eval so se e ctx) (\<lambda>v.
     if is_null v then Inr VNull else eval_in v negated False (map (eval so se) items) ctx))"
| "eval so se (EBetween e lo hi negated) = (\<lambda>ctx.
     res_bind (eval so se e ctx) (\<lambda>v. res_bind (eval so se lo ctx) (\<lambda>l. res_bind (eval so se hi ctx) (\<lambda>h.
       between_value so v l h negated))))"
| "eval so se (ECase operand whens els) = (\<lambda>ctx. res_bind (eval_option (map_option (eval so se) operand) ctx) (\<lambda>ov.
     eval_whens ov (map (map_prod (eval so se) (eval so se)) whens)
       (case map_option (eval so se) els of None \<Rightarrow> \<lambda>_. Inr VNull | Some f \<Rightarrow> f) ctx))"
| "eval so se EDefault = (\<lambda>ctx. Inl (Raised ErrSql))"
| "eval so se (EExcluded name) = (\<lambda>ctx. excluded_value ctx name)"
| "eval so se (EBinary op l r) = (\<lambda>ctx.
     res_bind (eval so se l ctx) (\<lambda>lv. res_bind (eval so se r ctx) (\<lambda>rv. eval_binary so op lv rv)))"
| "eval so se (ECast e target) = (\<lambda>ctx. res_bind (eval so se e ctx) (\<lambda>v. cast_value so v target))"
| "eval so se (EFunc name args) = (\<lambda>ctx. let fs = map (eval so se) args in case strip_auth_prefix name of
     Some fname \<Rightarrow> auth_value so se fname (case fs of [] \<Rightarrow> None | f # _ \<Rightarrow> Some (f ctx))
   | None \<Rightarrow> res_bind (collect_results (map (\<lambda>f. f ctx) fs)) (so_call_func so name))"
| "eval so se (EAggregate func arg uniq sep) =
     eval_aggregate so func (map_option (eval so se) arg) uniq (map_option (eval so se) sep)"
| "eval so se (EScalarSubquery q) = (\<lambda>ctx. Inl (Raised ErrSql))"
| "eval so se (EExists q negated) = (\<lambda>ctx. Inl (Raised ErrSql))"
| "eval so se (EInSubquery e q negated) = (\<lambda>ctx. Inl (Raised ErrSql))"

definition predicate :: "scalar_ops \<Rightarrow> session_context \<Rightarrow> 'l expr option \<Rightarrow> eval_ctx \<Rightarrow> bool xres" where
  "predicate so se f ctx = (case f of None \<Rightarrow> Inr True
     | Some e \<Rightarrow> res_bind (eval so se e ctx) (\<lambda>v. Inr (as_bool v = Some True)))"

section \<open>LIKE as a language\<close>

text \<open>The strings a pattern stands for, token by token.\<close>

fun like_lang :: "like_tok list \<Rightarrow> string list set" where
  "like_lang [] = {[]}"
| "like_lang (LAny # p) = {u @ v |u v. v \<in> like_lang p}"
| "like_lang (LOne # p) = {c # v |c v. v \<in> like_lang p}"
| "like_lang (LLit c # p) = {c # v |v. v \<in> like_lang p}"

lemma like_lang_any_any: "like_lang (LAny # LAny # p) = like_lang (LAny # p)"
proof -
  have "\<exists>u' v'. u @ v = u' @ v' \<and> (\<exists>u v. v' = u @ v \<and> v \<in> like_lang p)" if "v \<in> like_lang p" for u v
    using that by blast
  moreover have "\<exists>u' v'. u @ (w @ v) = u' @ v' \<and> v' \<in> like_lang p" if "v \<in> like_lang p" for u w v
    using that by (metis append.assoc)
  ultimately show ?thesis by fastforce
qed

lemma like_lang_collapse: "like_lang (LAny # p) = like_lang (LAny # dropWhile (\<lambda>t. t = LAny) p)"
proof (induction p)
  case (Cons t p)
  then show ?case
    by (cases "t = LAny") (simp_all only: like_lang_any_any dropWhile.simps if_True if_False simp_thms)
qed simp

lemma like_lang_any: "s \<in> like_lang (LAny # p) \<longleftrightarrow> (\<exists>i\<le>length s. drop i s \<in> like_lang p)"
proof
  assume "s \<in> like_lang (LAny # p)"
  then obtain u v where "s = u @ v" "v \<in> like_lang p" by auto
  then have "length u \<le> length s \<and> drop (length u) s \<in> like_lang p" by simp
  then show "\<exists>i\<le>length s. drop i s \<in> like_lang p" by blast
next
  assume "\<exists>i\<le>length s. drop i s \<in> like_lang p"
  then obtain i where "drop i s \<in> like_lang p" by blast
  then have "s = take i s @ drop i s \<and> drop i s \<in> like_lang p" by simp
  then show "s \<in> like_lang (LAny # p)" unfolding like_lang.simps by blast
qed

lemma like_lang_any_rest: "rest = [] \<or> (\<exists>i\<le>length s. drop i s \<in> like_lang rest) \<longleftrightarrow> s \<in> like_lang (LAny # rest)"
  unfolding like_lang_any by (cases rest) (auto intro: exI [of _ "length s"])

text \<open>The recursive \<^verbatim>\<open>LIKE\<close> matcher, which collapses runs of wildcards, accepts exactly the strings
  of the pattern's language: \<open>%\<close> any run, \<open>_\<close> one character, a literal itself.\<close>

theorem like_go_lang: "like_go s p \<longleftrightarrow> s \<in> like_lang p"
proof (induction s p rule: like_go.induct)
  case (2 s p)
  let ?rest = "dropWhile (\<lambda>t. t = LAny) p"
  have "like_go s (LAny # p) \<longleftrightarrow> ?rest = [] \<or> (\<exists>i\<le>length s. like_go (drop i s) ?rest)"
    by (simp only: like_go.simps Let_def list_ex_iff set_upt atLeastLessThan_iff less_Suc_eq_le Bex_def) simp
  also have "\<dots> \<longleftrightarrow> ?rest = [] \<or> (\<exists>i\<le>length s. drop i s \<in> like_lang ?rest)"
  proof (cases "?rest = []")
    case False
    then have "like_go (drop i s) ?rest \<longleftrightarrow> drop i s \<in> like_lang ?rest" if "i \<le> length s" for i
      using that by (intro 2 [OF refl]) auto
    then show ?thesis by blast
  qed simp
  also have "\<dots> \<longleftrightarrow> s \<in> like_lang (LAny # ?rest)"
    by (rule like_lang_any_rest)
  finally show ?case by (simp only: like_lang_collapse [of p])
next
  case (3 s p)
  then show ?case by (cases s) auto
next
  case (4 s c p)
  then show ?case by (cases s) auto
qed simp

section \<open>Membership\<close>

text \<open>The three-valued disjunction of truth values.\<close>

definition or3 :: "bool option list \<Rightarrow> bool option" where
  "or3 ts = (if Some True \<in> set ts then Some True else if None \<in> set ts then None else Some False)"

lemma eval_in_or3:
  assumes "map (\<lambda>f. f ctx) fs = map Inr ws"
  shows "eval_in v negated saw fs ctx =
    Inr (truth_value (map_option (\<lambda>b. b \<noteq> negated) (or3 ((if saw then [None] else []) @ map (sql_eq v) ws))))"
  using assms
proof (induction fs arbitrary: ws saw)
  case Nil
  then show ?case by (simp add: or3_def truth_value_def int_of_bool_def)
next
  case (Cons f fs)
  then obtain w ws' where w: "ws = w # ws'" "f ctx = Inr w" "map (\<lambda>f. f ctx) fs = map Inr ws'" by (cases ws) auto
  show ?case
  proof (cases "sql_eq v w")
    case None
    with w Cons.IH [OF w(3), of True] show ?thesis by (auto simp: or3_def)
  next
    case (Some b)
    with w Cons.IH [OF w(3), of saw] show ?thesis by (cases b) (auto simp: or3_def truth_value_def int_of_bool_def)
  qed
qed

lemma eval_list_values: "map (\<lambda>e. eval so se e ctx) items = map Inr ws \<Longrightarrow> map (\<lambda>f. f ctx) (map (eval so se) items) = map Inr ws"
  by (simp add: comp_def)

text \<open>\<^verbatim>\<open>e [NOT] IN (a, ...)\<close> is the three-valued disjunction of the equalities, negated for \<^verbatim>\<open>NOT IN\<close>,
  except that an unknown value in an empty list is unknown.\<close>

theorem in_list_is_disjunction:
  assumes "eval so se e ctx = Inr v" and "map (\<lambda>i. eval so se i ctx) items = map Inr ws"
    and "v \<noteq> VNull \<or> items \<noteq> []"
  shows "eval so se (EInList e items negated) ctx =
    Inr (truth_value (map_option (\<lambda>b. b \<noteq> negated) (or3 (map (sql_eq v) ws))))"
proof (cases "v = VNull")
  case True
  with assms(3) assms(2) have "ws \<noteq> []" by (cases ws) auto
  with True have "or3 (map (sql_eq v) ws) = None"
    by (cases ws) (auto simp: or3_def sql_eq_def is_null_def)
  with assms(1) True show ?thesis by (simp add: is_null_def truth_value_def)
next
  case False
  with assms(1) eval_in_or3 [OF eval_list_values [OF assms(2)], of v negated False] show ?thesis
    by (simp add: is_null_def)
qed

theorem in_list_is_disjunction_witness:
  "\<forall>so se ctx. eval so se (EInList (EInt 2) [EInt 1, ENull :: unit expr, EInt 2] False) ctx =
     Inr (truth_value (map_option (\<lambda>b. b \<noteq> False) (or3 (map (sql_eq (VInt 2)) [VInt 1, VNull, VInt 2]))))"
  using in_list_is_disjunction [of _ _ "EInt 2" _ "VInt 2" "[EInt 1, ENull :: unit expr, EInt 2]" "[VInt 1, VNull, VInt 2]" False]
  by simp

section \<open>Integer arithmetic\<close>

lemma trunc_div_one: "\<bar>b\<bar> = 1 \<Longrightarrow> trunc_div a b = a * b"
  by (auto simp: trunc_div_def abs_if sgn_if split: if_splits)

lemma trunc_div_half:
  assumes "2 \<le> \<bar>b\<bar>" and "\<bar>a\<bar> \<le> 2 ^ 63"
  shows "\<bar>trunc_div a b\<bar> \<le> 2 ^ 62"
proof -
  have "\<bar>a\<bar> div \<bar>b\<bar> \<le> \<bar>a\<bar> div 2" using assms by (intro zdiv_mono2) simp_all
  also have "\<dots> \<le> 2 ^ 62" using assms by simp
  finally have "\<bar>a\<bar> div \<bar>b\<bar> \<le> 2 ^ 62" .
  moreover have "0 \<le> \<bar>a\<bar> div \<bar>b\<bar>" using assms by (simp add: pos_imp_zdiv_nonneg_iff)
  moreover have "\<bar>sgn a * sgn b\<bar> \<le> 1" by (simp add: abs_mult sgn_if)
  ultimately have "\<bar>sgn a * sgn b\<bar> * (\<bar>a\<bar> div \<bar>b\<bar>) \<le> 1 * 2 ^ 62" by (intro mult_mono) simp_all
  with \<open>0 \<le> \<bar>a\<bar> div \<bar>b\<bar>\<close> show ?thesis by (simp add: trunc_div_def abs_mult)
qed

lemma trunc_div_range:
  assumes "i64_range a" and "i64_range b" and "b \<noteq> 0"
  shows "i64_range (trunc_div a b) \<longleftrightarrow> \<not> (a = - (2 ^ 63) \<and> b = - 1)"
proof (cases "\<bar>b\<bar> = 1")
  case True
  then have "b = 1 \<or> b = - 1" by linarith
  with assms(1) trunc_div_one [OF True, of a] show ?thesis by (auto simp: i64_range_def)
next
  case False
  with assms(3) have "2 \<le> \<bar>b\<bar>" by linarith
  moreover have "\<bar>a\<bar> \<le> 2 ^ 63" using assms(1) by (auto simp: i64_range_def)
  ultimately have "\<bar>trunc_div a b\<bar> \<le> 2 ^ 62" by (rule trunc_div_half)
  with False show ?thesis by (auto simp: i64_range_def)
qed

text \<open>Integer addition, subtraction and multiplication of 64-bit operands are exact or fall back to a
  real; division truncates, gives unknown for a zero divisor, and panics for exactly one pair of operands.\<close>

theorem int_arith_exact:
  assumes "i64_range a" and "i64_range b"
  shows "(\<forall>i. arith so BAdd (VInt a) (VInt b) = Inr (VInt i) \<longrightarrow> i = a + b) \<and>
    (\<forall>i. arith so BMul (VInt a) (VInt b) = Inr (VInt i) \<longrightarrow> i = a * b) \<and>
    (b \<noteq> 0 \<longrightarrow> arith so BDiv (VInt a) (VInt b) = (if a = - (2 ^ 63) \<and> b = - 1 then Inl Panicked else Inr (VInt (trunc_div a b)))) \<and>
    (b \<noteq> 0 \<longrightarrow> arith so BMod (VInt a) (VInt b) = (if a = - (2 ^ 63) \<and> b = - 1 then Inl Panicked else Inr (VInt (a - b * trunc_div a b)))) \<and>
    arith so BDiv (VInt a) (VInt 0) = Inr VNull"
  using trunc_div_range [OF assms] by (auto simp: arith_def is_null_def int_or_real_def split: if_splits)

theorem int_arith_exact_witness:
  "\<forall>so. arith so BDiv (VInt (- (2 ^ 63))) (VInt (- 1)) = Inl Panicked"
  using int_arith_exact [of "- (2 ^ 63)" "- 1"] by (simp add: i64_range_def)

text \<open>A sum of integers wraps around at 64 bits, although a chain of additions would become a real.\<close>

lemma sum_wraps: "fold_aggregate so AggSum sep [VInt (2 ^ 63 - 1), VInt 1] = Inr (VInt (- (2 ^ 63)))"
  by (simp add: wrap_i64_def)

end
