(* ===== verification/Exec_Dml.thy ===== *)
theory Exec_Dml
  imports Sql_Expr
begin

text \<open>
  The write statements of the executor (\<^verbatim>\<open>run_insert\<close>, \<^verbatim>\<open>run_update\<close>, \<^verbatim>\<open>run_delete\<close> and their
  helpers in \<^verbatim>\<open>crates/engine/src/exec.rs\<close>) with row-level security.  A statement returns its
  result together with the store it leaves behind, on failure too.  \<open>exec_env\<close> holds what the
  statements call and this theory does not define: the expression parser, query evaluation,
  the row source of \<^verbatim>\<open>UPDATE ... FROM\<close> (\<open>'f\<close>) and the inferred type of a returned expression.
\<close>

record ('x, 'q, 'l, 'f) exec_env =
  xe_so :: scalar_ops
  xe_vo :: "'x vector_ops"
  xe_parse_expr :: "string \<Rightarrow> 'l expr xres"
  xe_run_select :: "session_context \<Rightarrow> ('x, 'q) store \<Rightarrow> 'l \<Rightarrow> nat \<Rightarrow> nat option \<Rightarrow> sql_value list \<Rightarrow> result_set xres"
  xe_materialize :: "session_context \<Rightarrow> ('x, 'q) store \<Rightarrow> 'f \<Rightarrow> nat \<Rightarrow> nat option \<Rightarrow> sql_value list \<Rightarrow> (rel_col list \<times> sql_value list list) xres"
  xe_expr_type :: "'l expr \<Rightarrow> table_schema option \<Rightarrow> column_type"

abbreviation xe_eval :: "('x, 'q, 'l, 'f) exec_env \<Rightarrow> session_context \<Rightarrow> 'l expr \<Rightarrow> evaluation" where
  "xe_eval env se \<equiv> eval (xe_so env) se"

abbreviation xe_coerce :: "('x, 'q, 'l, 'f) exec_env \<Rightarrow> column_type \<Rightarrow> sql_value \<Rightarrow> sql_value" where
  "xe_coerce env \<equiv> coerce (parse_vector (xe_so env))"

definition collect_each :: "('a \<Rightarrow> 'b list xres) \<Rightarrow> 'a list \<Rightarrow> 'b list xres" where
  "collect_each f xs = res_bind (collect_results (map f xs)) (\<lambda>ls. Inr (concat ls))"

fun check_each :: "('a \<Rightarrow> unit xres) \<Rightarrow> 'a list \<Rightarrow> unit xres" where
  "check_each f [] = Inr ()"
| "check_each f (x # xs) = res_bind (f x) (\<lambda>_. check_each f xs)"

section \<open>Row-level security\<close>

definition policy_applies :: "policy \<Rightarrow> policy_command \<Rightarrow> string \<Rightarrow> bool" where
  "policy_applies p cmd role \<longleftrightarrow> (pol_command p = PcAll \<or> pol_command p = cmd) \<and>
     (pol_roles p = [] \<or> list_ex (\<lambda>r. eq_ignore_ascii_case r role) (pol_roles p))"

datatype 'l rls = RlsUnrestricted | RlsFilter "'l expr list" | RlsDeny

text \<open>The loop over the applicable policies of \<^verbatim>\<open>rls_read\<close> and \<^verbatim>\<open>rls_write\<close>: \<open>None\<close> when one of them
  has no predicate and so admits every row.\<close>

fun rls_preds :: "(string \<Rightarrow> 'l expr xres) \<Rightarrow> (policy \<Rightarrow> string option) \<Rightarrow> policy list \<Rightarrow> 'l expr list option xres" where
  "rls_preds parse clause [] = Inr (Some [])"
| "rls_preds parse clause (p # ps) = (case clause p of
     None \<Rightarrow> Inr None
   | Some sql \<Rightarrow> res_bind (parse sql) (\<lambda>e. res_bind (rls_preds parse clause ps) (\<lambda>r. Inr (map_option (Cons e) r))))"

definition rls_decide :: "(policy \<Rightarrow> string option) \<Rightarrow> ('x, 'q, 'l, 'f) exec_env \<Rightarrow> session_context \<Rightarrow> table_schema \<Rightarrow> policy_command \<Rightarrow> 'l rls xres" where
  "rls_decide clause env se sch cmd =
     (if \<not> sch_rls_enabled sch \<or> se_bypass se then Inr RlsUnrestricted
      else let ps = filter (\<lambda>p. policy_applies p cmd (session_role se)) (sch_policies sch)
        in if ps = [] then Inr RlsDeny
           else res_bind (rls_preds (xe_parse_expr env) clause ps) (\<lambda>r. Inr (case r of None \<Rightarrow> RlsUnrestricted | Some es \<Rightarrow> RlsFilter es)))"

definition rls_read :: "('x, 'q, 'l, 'f) exec_env \<Rightarrow> session_context \<Rightarrow> table_schema \<Rightarrow> policy_command \<Rightarrow> 'l rls xres" where
  "rls_read = rls_decide pol_using"

definition rls_write :: "('x, 'q, 'l, 'f) exec_env \<Rightarrow> session_context \<Rightarrow> table_schema \<Rightarrow> policy_command \<Rightarrow> 'l rls xres" where
  "rls_write = rls_decide (\<lambda>p. case pol_check p of Some c \<Rightarrow> Some c | None \<Rightarrow> pol_using p)"

fun any_true :: "scalar_ops \<Rightarrow> session_context \<Rightarrow> 'l expr list \<Rightarrow> eval_ctx \<Rightarrow> bool xres" where
  "any_true so se [] ctx = Inr False"
| "any_true so se (p # ps) ctx = res_bind (eval so se p ctx) (\<lambda>v. if as_bool v = Some True then Inr True else any_true so se ps ctx)"

fun rls_passes :: "scalar_ops \<Rightarrow> session_context \<Rightarrow> 'l rls \<Rightarrow> eval_ctx \<Rightarrow> bool xres" where
  "rls_passes so se RlsUnrestricted ctx = Inr True"
| "rls_passes so se RlsDeny ctx = Inr False"
| "rls_passes so se (RlsFilter preds) ctx = any_true so se preds ctx"

definition enforce_rls_write :: "scalar_ops \<Rightarrow> session_context \<Rightarrow> 'l rls \<Rightarrow> table_schema \<Rightarrow> sql_value list \<Rightarrow> unit xres" where
  "enforce_rls_write so se dec sch vals = res_bind (rls_passes so se dec (ctx_row vals sch [])) (\<lambda>ok.
     if ok then Inr () else Inl (Raised ErrConstraint))"

definition rls_filter_returning :: "('x, 'q, 'l, 'f) exec_env \<Rightarrow> session_context \<Rightarrow> table_schema \<Rightarrow> sql_value list list \<Rightarrow> sql_value list list xres" where
  "rls_filter_returning env se sch rows = res_bind (rls_read env se sch PcSelect) (\<lambda>dec.
     if dec = RlsUnrestricted then Inr rows
     else collect_each (\<lambda>r. res_bind (rls_passes (xe_so env) se dec (ctx_row r sch [])) (\<lambda>ok. Inr (if ok then [r] else []))) rows)"

section \<open>RETURNING\<close>

datatype 'l sel_item = SStar "string option" | SExpr "'l expr" "string option"

fun agg_name :: "agg_func \<Rightarrow> string" where
  "agg_name AggCount = ''count''"
| "agg_name AggSum = ''sum''"
| "agg_name AggMin = ''min''"
| "agg_name AggMax = ''max''"
| "agg_name AggAvg = ''avg''"
| "agg_name AggJsonAgg = ''json_agg''"
| "agg_name AggGroupConcat = ''group_concat''"

fun column_name :: "'l expr \<Rightarrow> string option \<Rightarrow> nat \<Rightarrow> string" where
  "column_name e (Some a) idx = a"
| "column_name (EColumn c) None idx = c"
| "column_name (EQualified t c) None idx = c"
| "column_name (EAggregate f a u s) None idx = agg_name f"
| "column_name (EFunc name args) None idx = to_ascii_lowercase name"
| "column_name (ECast e t) None idx = column_name e None idx"
| "column_name e None idx = ''col'' @ dec_string (idx + 1)"

datatype 'l proj_item = PColumn nat | PExpr "'l expr"

text \<open>The plan of a \<^verbatim>\<open>RETURNING\<close> list: column names, types and projections, built item by item.  The
  index of a starred column is looked up by its own name.\<close>

definition star_plan :: "table_schema \<Rightarrow> (string \<times> column_type \<times> 'l proj_item) list" where
  "star_plan sch = map (\<lambda>c. (col_name c, col_ty c, PColumn (the (column_index sch (col_name c))))) (sch_columns sch)"

fun returning_plan :: "('x, 'q, 'l, 'f) exec_env \<Rightarrow> table_schema \<Rightarrow> 'l sel_item list \<Rightarrow> (string \<times> column_type \<times> 'l proj_item) list \<Rightarrow>
    (string \<times> column_type \<times> 'l proj_item) list" where
  "returning_plan env sch [] acc = acc"
| "returning_plan env sch (SStar q # items) acc = returning_plan env sch items (acc @ star_plan sch)"
| "returning_plan env sch (SExpr e alias # items) acc =
     returning_plan env sch items (acc @ [(column_name e alias (length acc), xe_expr_type env e (Some sch), PExpr e)])"

fun project_item :: "('x, 'q, 'l, 'f) exec_env \<Rightarrow> session_context \<Rightarrow> table_schema \<Rightarrow> sql_value list \<Rightarrow> sql_value list \<Rightarrow> 'l proj_item \<Rightarrow> sql_value xres" where
  "project_item env se sch ps row (PColumn i) = index_row row i"
| "project_item env se sch ps row (PExpr e) = xe_eval env se e (ctx_row row sch ps)"

definition project_returning :: "('x, 'q, 'l, 'f) exec_env \<Rightarrow> session_context \<Rightarrow> 'l sel_item list \<Rightarrow> table_schema \<Rightarrow> sql_value list list \<Rightarrow>
    sql_value list \<Rightarrow> result_set xres" where
  "project_returning env se items sch rows ps =
     (let plan = returning_plan env sch items []
      in res_bind (collect_results (map (\<lambda>r. collect_results (map (\<lambda>(n, ty, p). project_item env se sch ps r p) plan)) rows)) (\<lambda>out.
           Inr \<lparr>rs_columns = map fst plan, rs_types = map (fst \<circ> snd) plan, rs_rows = out\<rparr>))"

definition returning_result :: "('x, 'q, 'l, 'f) exec_env \<Rightarrow> session_context \<Rightarrow> table_schema \<Rightarrow> 'l sel_item list option \<Rightarrow> sql_value list list \<Rightarrow>
    sql_value list \<Rightarrow> result_set option xres" where
  "returning_result env se sch returning affected ps = (case returning of
     None \<Rightarrow> Inr None
   | Some items \<Rightarrow> res_bind (rls_filter_returning env se sch affected) (\<lambda>vis.
       res_bind (project_returning env se items sch vis ps) (\<lambda>rs. Inr (Some rs))))"

section \<open>Constraints\<close>

definition check_row_constraints :: "('x, 'q, 'l, 'f) exec_env \<Rightarrow> session_context \<Rightarrow> 'l expr list \<Rightarrow> table_schema \<Rightarrow> sql_value list \<Rightarrow> unit xres" where
  "check_row_constraints env se checks sch vals = check_each (\<lambda>c. res_bind (xe_eval env se c (ctx_row vals sch [])) (\<lambda>v.
     if as_bool v = Some False then Inl (Raised ErrConstraint) else Inr ())) checks"

definition check_not_null :: "table_schema \<Rightarrow> sql_value list \<Rightarrow> unit xres" where
  "check_not_null sch vals = check_each (\<lambda>(i, c). if col_not_null c then res_bind (index_row vals i) (\<lambda>v.
     if is_null v then Inl (Raised ErrConstraint) else Inr ()) else Inr ()) (enumerate 0 (sch_columns sch))"

fun vector_dim_ok :: "column_type \<Rightarrow> sql_value \<Rightarrow> bool" where
  "vector_dim_ok (CtVector dim) VNull = True"
| "vector_dim_ok (CtVector dim) (VVector v) \<longleftrightarrow> length v = dim"
| "vector_dim_ok (CtVector dim) _ = False"
| "vector_dim_ok _ _ = True"

definition check_vector_dims :: "table_schema \<Rightarrow> sql_value list \<Rightarrow> unit xres" where
  "check_vector_dims sch vals = check_each (\<lambda>(i, c). if is_vector (col_ty c) then res_bind (index_row vals i) (\<lambda>v.
     if vector_dim_ok (col_ty c) v then Inr () else Inl (Raised ErrConstraint)) else Inr ()) (enumerate 0 (sch_columns sch))"

definition composite_key :: "scalar_ops \<Rightarrow> sql_value list \<Rightarrow> nat list \<Rightarrow> string xres" where
  "composite_key so vals cols = res_bind (collect_results (map (index_row vals) cols)) (\<lambda>vs.
     Inr (concat (map (\<lambda>v. value_key so v @ [CHR 0x01]) vs)))"

text \<open>The row scan of \<^verbatim>\<open>check_secondary_uniques\<close>: the keys of the visible rows without a null column.\<close>

definition keyed :: "scalar_ops \<Rightarrow> nat list \<Rightarrow> sql_value list \<Rightarrow> string list xres" where
  "keyed so cols vals = res_bind (collect_results (map (index_row vals) cols)) (\<lambda>vs.
     if list_ex is_null vs then Inr [] else res_bind (composite_key so vals cols) (\<lambda>k. Inr [k]))"

fun insert_keys :: "string set \<Rightarrow> string list \<Rightarrow> unit xres" where
  "insert_keys seen [] = Inr ()"
| "insert_keys seen (k # ks) = (if k \<in> seen then Inl (Raised ErrConstraint) else insert_keys (insert k seen) ks)"

definition store_rows :: "('x, 'q) store \<Rightarrow> string \<Rightarrow> row_version list" where
  "store_rows st table = (case get_table st table of Some t \<Rightarrow> t_rows t | None \<Rightarrow> [])"

definition check_unique_set :: "scalar_ops \<Rightarrow> ('x, 'q) store \<Rightarrow> string \<Rightarrow> sql_value list list \<Rightarrow> nat list \<Rightarrow> nat \<Rightarrow> nat list \<Rightarrow> unit xres" where
  "check_unique_set so st table new_rows exclude owner cols =
     res_bind (collect_each (\<lambda>r. if rv_vid r \<in> set exclude \<or> \<not> visible_to_writer r (s_committed_lsn st) owner then Inr []
         else keyed so cols (rv_values r)) (store_rows st table)) (\<lambda>seen.
     res_bind (collect_each (keyed so cols) new_rows) (insert_keys (set seen)))"

definition check_secondary_uniques :: "scalar_ops \<Rightarrow> ('x, 'q) store \<Rightarrow> string \<Rightarrow> table_schema \<Rightarrow> sql_value list list \<Rightarrow> nat list \<Rightarrow> nat \<Rightarrow> unit xres" where
  "check_secondary_uniques so st table sch new_rows exclude owner =
     check_each (check_unique_set so st table new_rows exclude owner)
       (filter (\<lambda>cols. cols \<noteq> primary_key_indices sch) (unique_sets sch))"

text \<open>\<^verbatim>\<open>pk_index\<close>: the keys of the rows the writer sees, with their versions, and the keys other writers
  are inserting.\<close>

definition pending_elsewhere :: "nat \<Rightarrow> row_version \<Rightarrow> bool" where
  "pending_elsewhere me r \<longleftrightarrow> rv_create_lsn r = PENDING \<and> rv_owner r \<noteq> me \<and> rv_delete_lsn r = 0"

fun pk_index_rows :: "scalar_ops \<Rightarrow> nat list \<Rightarrow> nat \<Rightarrow> nat \<Rightarrow> row_version list \<Rightarrow> (string \<rightharpoonup> nat) \<times> string set \<Rightarrow>
    ((string \<rightharpoonup> nat) \<times> string set) xres" where
  "pk_index_rows so pk c me [] acc = Inr acc"
| "pk_index_rows so pk c me (r # rows) (m, s) =
     (if visible_to_writer r c me then
        res_bind (composite_key so (rv_values r) pk) (\<lambda>k. pk_index_rows so pk c me rows (m(k \<mapsto> rv_vid r), s))
      else if pending_elsewhere me r then
        res_bind (composite_key so (rv_values r) pk) (\<lambda>k. pk_index_rows so pk c me rows (m, insert k s))
      else pk_index_rows so pk c me rows (m, s))"

definition pk_index :: "scalar_ops \<Rightarrow> ('x, 'q) store \<Rightarrow> string \<Rightarrow> nat list \<Rightarrow> nat \<Rightarrow> ((string \<rightharpoonup> nat) \<times> string set) xres" where
  "pk_index so st table pk me = pk_index_rows so pk (s_committed_lsn st) me (store_rows st table) (Map.empty, {})"

text \<open>\<^verbatim>\<open>pk_keys\<close> does the same for the rows an update leaves alone.\<close>

definition pk_keys :: "scalar_ops \<Rightarrow> ('x, 'q) store \<Rightarrow> string \<Rightarrow> nat list \<Rightarrow> nat \<Rightarrow> nat list \<Rightarrow> (string set \<times> string set) xres" where
  "pk_keys so st table pk me exclude =
     res_bind (pk_index_rows so pk (s_committed_lsn st) me (filter (\<lambda>r. rv_vid r \<notin> set exclude) (store_rows st table)) (Map.empty, {}))
       (\<lambda>(m, s). Inr (dom m, s))"

section \<open>INSERT: staging\<close>

datatype 'l insert_source = InsValues "'l expr list list" | InsSelect 'l

datatype 'l on_conflict = OcError | OcNothing | OcUpdate "(string \<times> 'l expr) list" "'l expr option" | OcReplace

definition ok_or :: "'e \<Rightarrow> 'a option \<Rightarrow> 'e + 'a" where
  "ok_or e x = (case x of Some a \<Rightarrow> Inr a | None \<Rightarrow> Inl e)"

definition insert_targets :: "table_schema \<Rightarrow> string list option \<Rightarrow> nat list xres" where
  "insert_targets sch columns = (case columns of
     Some cols \<Rightarrow> collect_results (map (\<lambda>c. ok_or (Raised ErrSql) (column_index sch c)) cols)
   | None \<Rightarrow> Inr [0..<length (sch_columns sch)])"

type_synonym slot = "sql_value option list"

fun fill_slot :: "(nat \<times> sql_value option xres) list \<Rightarrow> slot \<Rightarrow> slot xres" where
  "fill_slot [] slot = Inr slot"
| "fill_slot ((idx, r) # rest) slot = res_bind r (\<lambda>v.
     if idx < length slot then fill_slot rest (slot[idx := v]) else Inl Panicked)"

definition slot_value :: "('x, 'q, 'l, 'f) exec_env \<Rightarrow> session_context \<Rightarrow> sql_value list \<Rightarrow> 'l expr \<Rightarrow> sql_value option xres" where
  "slot_value env se ps e = (case e of EDefault \<Rightarrow> Inr None
     | _ \<Rightarrow> res_bind (xe_eval env se e (ctx_root ps)) (\<lambda>v. Inr (Some v)))"

definition values_slot :: "('x, 'q, 'l, 'f) exec_env \<Rightarrow> session_context \<Rightarrow> table_schema \<Rightarrow> string list option \<Rightarrow> nat list \<Rightarrow> sql_value list \<Rightarrow> 'l expr list \<Rightarrow> slot xres" where
  "values_slot env se sch columns targets ps exprs =
     (let slot = replicate (length (sch_columns sch)) None
      in if exprs = [] \<and> columns = None then Inr slot
         else if length exprs \<noteq> length targets then Inl (Raised ErrSql)
         else fill_slot (zip targets (map (slot_value env se ps) exprs)) slot)"

definition select_slot :: "table_schema \<Rightarrow> nat list \<Rightarrow> sql_value list \<Rightarrow> slot xres" where
  "select_slot sch targets r = (if length r \<noteq> length targets then Inl (Raised ErrSql)
     else fill_slot (zip targets (map (\<lambda>v. Inr (Some v)) r)) (replicate (length (sch_columns sch)) None))"

definition build_insert_slots :: "('x, 'q, 'l, 'f) exec_env \<Rightarrow> session_context \<Rightarrow> ('x, 'q) store \<Rightarrow> table_schema \<Rightarrow> string list option \<Rightarrow>
    'l insert_source \<Rightarrow> write_ctx \<Rightarrow> slot list xres" where
  "build_insert_slots env se st sch columns source wc = res_bind (insert_targets sch columns) (\<lambda>targets. case source of
     InsValues rows \<Rightarrow> collect_results (map (values_slot env se sch columns targets (wc_params wc)) rows)
   | InsSelect q \<Rightarrow> res_bind (xe_run_select env se st q (wc_snapshot wc) (Some (wc_owner wc)) (wc_params wc)) (\<lambda>rs.
       collect_results (map (select_slot sch targets) (rs_rows rs))))"

definition eval_const_sql :: "('x, 'q, 'l, 'f) exec_env \<Rightarrow> session_context \<Rightarrow> string \<Rightarrow> sql_value xres" where
  "eval_const_sql env se sql = res_bind (xe_parse_expr env sql) (\<lambda>e. xe_eval env se e (ctx_root []))"

text \<open>The counter arithmetic wraps at 64 bits.\<close>

definition finalize_cell :: "('x, 'q, 'l, 'f) exec_env \<Rightarrow> session_context \<Rightarrow> column \<Rightarrow> sql_value option \<Rightarrow> int \<Rightarrow> (sql_value \<times> int) xres" where
  "finalize_cell env se c slot autoinc = (case slot of
     Some v0 \<Rightarrow> (let v = xe_coerce env (col_ty c) v0 in
       Inr (v, case v of VInt n \<Rightarrow> if col_autoincrement c then max autoinc (wrap_i64 (n + 1)) else autoinc | _ \<Rightarrow> autoinc))
   | None \<Rightarrow> (if col_autoincrement c then Inr (VInt autoinc, wrap_i64 (autoinc + 1))
       else case col_default_sql c of
         Some d \<Rightarrow> res_bind (eval_const_sql env se d) (\<lambda>v. Inr (xe_coerce env (col_ty c) v, autoinc))
       | None \<Rightarrow> Inr (VNull, autoinc)))"

fun finalize_row_cells :: "('x, 'q, 'l, 'f) exec_env \<Rightarrow> session_context \<Rightarrow> column list \<Rightarrow> slot \<Rightarrow> int \<Rightarrow> (sql_value list \<times> int) xres" where
  "finalize_row_cells env se [] slot autoinc = Inr ([], autoinc)"
| "finalize_row_cells env se (c # cs) [] autoinc = Inl Panicked"
| "finalize_row_cells env se (c # cs) (s # slot) autoinc =
     res_bind (finalize_cell env se c s autoinc) (\<lambda>(v, a1). res_bind (finalize_row_cells env se cs slot a1) (\<lambda>(vs, a2). Inr (v # vs, a2)))"

definition validate_row :: "('x, 'q, 'l, 'f) exec_env \<Rightarrow> session_context \<Rightarrow> 'l expr list \<Rightarrow> table_schema \<Rightarrow> sql_value list \<Rightarrow> unit xres" where
  "validate_row env se checks sch vals = res_bind (check_not_null sch vals) (\<lambda>_. res_bind (check_vector_dims sch vals) (\<lambda>_.
     check_row_constraints env se checks sch vals))"

fun finalize_slots :: "('x, 'q, 'l, 'f) exec_env \<Rightarrow> session_context \<Rightarrow> 'l expr list \<Rightarrow> table_schema \<Rightarrow> slot list \<Rightarrow> int \<Rightarrow> (sql_value list list \<times> int) xres" where
  "finalize_slots env se checks sch [] autoinc = Inr ([], autoinc)"
| "finalize_slots env se checks sch (slot # slots) autoinc =
     res_bind (finalize_row_cells env se (sch_columns sch) slot autoinc) (\<lambda>(vals, a1).
     res_bind (validate_row env se checks sch vals) (\<lambda>_.
     res_bind (finalize_slots env se checks sch slots a1) (\<lambda>(staged, a2). Inr (vals # staged, a2))))"

definition parse_checks :: "('x, 'q, 'l, 'f) exec_env \<Rightarrow> table_schema \<Rightarrow> 'l expr list xres" where
  "parse_checks env sch = collect_results (map (xe_parse_expr env) (sch_checks sch))"

definition set_autoinc :: "string \<Rightarrow> int \<Rightarrow> ('x, 'q) store \<Rightarrow> ('x, 'q) store" where
  "set_autoinc table a = table_mut table (\<lambda>t. t\<lparr>t_next_autoinc := a\<rparr>)"

definition finalize_insert_rows :: "('x, 'q, 'l, 'f) exec_env \<Rightarrow> session_context \<Rightarrow> table_schema \<Rightarrow> string \<Rightarrow> slot list \<Rightarrow> ('x, 'q) store \<Rightarrow>
    sql_value list list xres \<times> ('x, 'q) store" where
  "finalize_insert_rows env se sch table slots st =
     (case res_bind (parse_checks env sch) (\<lambda>checks. finalize_slots env se checks sch slots
         (case get_table st table of Some t \<Rightarrow> t_next_autoinc t | None \<Rightarrow> 1)) of
        Inl e \<Rightarrow> (Inl e, st)
      | Inr (staged, a) \<Rightarrow> (Inr staged, set_autoinc table a st))"

section \<open>INSERT: applying\<close>

text \<open>The store and the log records of the running statement.\<close>

type_synonym ('x, 'q) logged = "('x, 'q) store \<times> wal_op list"

definition do_append :: "string \<Rightarrow> sql_value list \<Rightarrow> nat \<Rightarrow> ('x, 'q) logged \<Rightarrow> nat xres \<times> ('x, 'q) logged" where
  "do_append table vals owner stw = (case append_version table vals owner stw of
     None \<Rightarrow> (Inl Panicked, stw) | Some (vid, stw') \<Rightarrow> (Inr vid, stw'))"

definition do_supersede :: "string \<Rightarrow> nat \<Rightarrow> nat \<Rightarrow> ('x, 'q) logged \<Rightarrow> unit xres \<times> ('x, 'q) logged" where
  "do_supersede table vid owner stw = (case supersede table vid owner stw of
     None \<Rightarrow> (Inl Panicked, stw) | Some stw' \<Rightarrow> (Inr (), stw'))"

definition replace_version :: "string \<Rightarrow> nat \<Rightarrow> sql_value list \<Rightarrow> nat \<Rightarrow> ('x, 'q) logged \<Rightarrow> nat xres \<times> ('x, 'q) logged" where
  "replace_version table old_vid vals owner stw = (case do_supersede table old_vid owner stw of
     (Inl e, stw1) \<Rightarrow> (Inl e, stw1)
   | (Inr _, stw1) \<Rightarrow> do_append table vals owner stw1)"

fun upsert_sets :: "('x, 'q, 'l, 'f) exec_env \<Rightarrow> session_context \<Rightarrow> table_schema \<Rightarrow> eval_ctx \<Rightarrow> (string \<times> 'l expr) list \<Rightarrow> sql_value list \<Rightarrow> sql_value list xres" where
  "upsert_sets env se sch ctx [] nv = Inr nv"
| "upsert_sets env se sch ctx ((col, e) # sets) nv = res_bind (ok_or (Raised ErrSql) (column_index sch col)) (\<lambda>idx.
     res_bind (xe_eval env se e ctx) (\<lambda>v. if idx < length nv
       then upsert_sets env se sch ctx sets (nv[idx := xe_coerce env (col_ty (sch_columns sch ! idx)) v]) else Inl Panicked))"

definition upsert_row :: "('x, 'q, 'l, 'f) exec_env \<Rightarrow> session_context \<Rightarrow> table_schema \<Rightarrow> write_ctx \<Rightarrow> sql_value list \<Rightarrow> sql_value list \<Rightarrow>
    (string \<times> 'l expr) list \<Rightarrow> 'l expr option \<Rightarrow> sql_value list option xres" where
  "upsert_row env se sch wc existing excluded sets fil =
     (let ctx = \<lparr>ec_row = Some existing, ec_schema = Some sch, ec_params = wc_params wc, ec_group = None,
                 ec_excluded = Some excluded, ec_cols = None\<rparr>
      in res_bind (predicate (xe_so env) se fil ctx) (\<lambda>ok. if \<not> ok then Inr None
         else res_bind (upsert_sets env se sch ctx sets existing) (\<lambda>nv.
           res_bind (check_not_null sch nv) (\<lambda>_. res_bind (check_vector_dims sch nv) (\<lambda>_. Inr (Some nv))))))"

definition upsert_update :: "('x, 'q, 'l, 'f) exec_env \<Rightarrow> session_context \<Rightarrow> table_schema \<Rightarrow> string \<Rightarrow> write_ctx \<Rightarrow> nat \<Rightarrow> sql_value list \<Rightarrow>
    (string \<times> 'l expr) list \<Rightarrow> 'l expr option \<Rightarrow> ('x, 'q) logged \<Rightarrow> sql_value list option xres \<times> ('x, 'q) logged" where
  "upsert_update env se sch table wc old_vid excluded sets fil stw =
     (case Option.bind (get_table (fst stw) table) (\<lambda>t. version t old_vid) of
        None \<Rightarrow> (Inl (Raised ErrSql), stw)
      | Some r \<Rightarrow> (case upsert_row env se sch wc (rv_values r) excluded sets fil of
          Inl e \<Rightarrow> (Inl e, stw)
        | Inr None \<Rightarrow> (Inr None, stw)
        | Inr (Some nv) \<Rightarrow> (case replace_version table old_vid nv (wc_owner wc) stw of
            (Inl e, stw1) \<Rightarrow> (Inl e, stw1) | (Inr _, stw1) \<Rightarrow> (Inr (Some nv), stw1))))"

definition apply_insert_row :: "('x, 'q, 'l, 'f) exec_env \<Rightarrow> session_context \<Rightarrow> table_schema \<Rightarrow> string \<Rightarrow> write_ctx \<Rightarrow> sql_value list \<Rightarrow> nat option \<Rightarrow>
    'l on_conflict \<Rightarrow> ('x, 'q) logged \<Rightarrow> sql_value list option xres \<times> ('x, 'q) logged" where
  "apply_insert_row env se sch table wc vals clash oc stw = (case clash of
     None \<Rightarrow> (case do_append table vals (wc_owner wc) stw of (Inl e, stw1) \<Rightarrow> (Inl e, stw1) | (Inr _, stw1) \<Rightarrow> (Inr (Some vals), stw1))
   | Some old_vid \<Rightarrow> (case oc of
       OcError \<Rightarrow> (Inl (Raised ErrConstraint), stw)
     | OcNothing \<Rightarrow> (Inr None, stw)
     | OcReplace \<Rightarrow> (case replace_version table old_vid vals (wc_owner wc) stw of
         (Inl e, stw1) \<Rightarrow> (Inl e, stw1) | (Inr _, stw1) \<Rightarrow> (Inr (Some vals), stw1))
     | OcUpdate sets fil \<Rightarrow> upsert_update env se sch table wc old_vid vals sets fil stw))"

definition last_vid :: "string \<Rightarrow> ('x, 'q) store \<Rightarrow> nat xres" where
  "last_vid table st = (case get_table st table of
     Some t \<Rightarrow> if t_rows t = [] then Inl Panicked else Inr (rv_vid (last (t_rows t))) | None \<Rightarrow> Inl Panicked)"

text \<open>The row loops of \<^verbatim>\<open>apply_insert\<close>.  They return the produced rows with their versions.\<close>

fun insert_plain :: "string \<Rightarrow> nat \<Rightarrow> sql_value list list \<Rightarrow> ('x, 'q) logged \<Rightarrow> (nat \<times> sql_value list) list xres \<times> ('x, 'q) logged" where
  "insert_plain table owner [] stw = (Inr [], stw)"
| "insert_plain table owner (vals # staged) stw = (case do_append table vals owner stw of
     (Inl e, stw1) \<Rightarrow> (Inl e, stw1)
   | (Inr vid, stw1) \<Rightarrow> (case insert_plain table owner staged stw1 of
       (Inl e, stw2) \<Rightarrow> (Inl e, stw2) | (Inr out, stw2) \<Rightarrow> (Inr ((vid, vals) # out), stw2)))"

fun insert_keyed :: "('x, 'q, 'l, 'f) exec_env \<Rightarrow> session_context \<Rightarrow> table_schema \<Rightarrow> string \<Rightarrow> write_ctx \<Rightarrow> 'l on_conflict \<Rightarrow> string set \<Rightarrow>
    sql_value list list \<Rightarrow> (string \<rightharpoonup> nat) \<Rightarrow> ('x, 'q) logged \<Rightarrow> (nat \<times> sql_value list) list xres \<times> ('x, 'q) logged" where
  "insert_keyed env se sch table wc oc pending [] live stw = (Inr [], stw)"
| "insert_keyed env se sch table wc oc pending (vals # staged) live stw =
     (case composite_key (xe_so env) vals (primary_key_indices sch) of
        Inl e \<Rightarrow> (Inl e, stw)
      | Inr k \<Rightarrow> (if k \<in> pending then (Inl (Raised ErrConflict), stw)
          else case apply_insert_row env se sch table wc vals (live k) oc stw of
            (Inl e, stw1) \<Rightarrow> (Inl e, stw1)
          | (Inr None, stw1) \<Rightarrow> insert_keyed env se sch table wc oc pending staged live stw1
          | (Inr (Some produced), stw1) \<Rightarrow> (case last_vid table (fst stw1) of
              Inl e \<Rightarrow> (Inl e, stw1)
            | Inr vid \<Rightarrow> (case insert_keyed env se sch table wc oc pending staged (live(k \<mapsto> vid)) stw1 of
                (Inl e, stw2) \<Rightarrow> (Inl e, stw2) | (Inr out, stw2) \<Rightarrow> (Inr ((vid, produced) # out), stw2)))))"

definition insert_rows :: "('x, 'q, 'l, 'f) exec_env \<Rightarrow> session_context \<Rightarrow> table_schema \<Rightarrow> string \<Rightarrow> write_ctx \<Rightarrow> 'l on_conflict \<Rightarrow>
    sql_value list list \<Rightarrow> ('x, 'q) store \<Rightarrow> (nat \<times> sql_value list) list xres \<times> ('x, 'q) logged" where
  "insert_rows env se sch table wc oc staged st =
     (if primary_key_indices sch = [] then insert_plain table (wc_owner wc) staged (st, [])
      else case pk_index (xe_so env) st table (primary_key_indices sch) (wc_owner wc) of
        Inl e \<Rightarrow> (Inl e, st, [])
      | Inr (live, pending) \<Rightarrow> insert_keyed env se sch table wc oc pending staged live (st, []))"

definition index_rows :: "'x vector_ops \<Rightarrow> string \<Rightarrow> (nat \<times> sql_value list) list \<Rightarrow> ('x, 'q) store \<Rightarrow> ('x, 'q) store" where
  "index_rows vo table new st = foldl (\<lambda>st (vid, vals). index_row_inserted vo table vid vals st) st new"

text \<open>The common end of the three statements: maintain the indexes and evaluate \<^verbatim>\<open>RETURNING\<close>.\<close>

definition finish_mutation :: "('x, 'q, 'l, 'f) exec_env \<Rightarrow> session_context \<Rightarrow> table_schema \<Rightarrow> 'l sel_item list option \<Rightarrow> write_ctx \<Rightarrow>
    sql_value list list \<Rightarrow> nat \<Rightarrow> ('x, 'q) logged \<Rightarrow> mutation xres \<times> ('x, 'q) store" where
  "finish_mutation env se sch returning wc affected n stw =
     (case returning_result env se sch returning affected (wc_params wc) of
        Inl e \<Rightarrow> (Inl e, fst stw)
      | Inr rs \<Rightarrow> (Inr \<lparr>mu_wal = snd stw, mu_changes = int n, mu_result = rs\<rparr>, fst stw))"

definition apply_insert :: "('x, 'q, 'l, 'f) exec_env \<Rightarrow> session_context \<Rightarrow> table_schema \<Rightarrow> string \<Rightarrow> sql_value list list \<Rightarrow> 'l on_conflict \<Rightarrow>
    'l sel_item list option \<Rightarrow> write_ctx \<Rightarrow> ('x, 'q) store \<Rightarrow> mutation xres \<times> ('x, 'q) store" where
  "apply_insert env se sch table staged oc returning wc st =
     (let maintain = table_has_index (xe_vo env) st table in
      case insert_rows env se sch table wc oc staged st of
        (Inl e, stw) \<Rightarrow> (Inl e, fst stw)
      | (Inr new, st1, wal) \<Rightarrow>
          finish_mutation env se sch returning wc (map snd new) (length new)
            (if maintain then index_rows (xe_vo env) table new st1 else st1, wal))"

definition run_insert :: "('x, 'q, 'l, 'f) exec_env \<Rightarrow> session_context \<Rightarrow> string \<Rightarrow> string list option \<Rightarrow> 'l insert_source \<Rightarrow> 'l on_conflict \<Rightarrow>
    'l sel_item list option \<Rightarrow> write_ctx \<Rightarrow> ('x, 'q) store \<Rightarrow> mutation xres \<times> ('x, 'q) store" where
  "run_insert env se table columns source oc returning wc st = (case get_table st table of
     None \<Rightarrow> (Inl (Raised ErrSql), st)
   | Some t \<Rightarrow> (let sch = t_schema t in
       case build_insert_slots env se st sch columns source wc of
         Inl e \<Rightarrow> (Inl e, st)
       | Inr slots \<Rightarrow> (case finalize_insert_rows env se sch table slots st of
           (Inl e, st1) \<Rightarrow> (Inl e, st1)
         | (Inr staged, st1) \<Rightarrow>
             (case res_bind (rls_write env se sch PcInsert) (\<lambda>dec.
                res_bind (check_each (enforce_rls_write (xe_so env) se dec sch) staged) (\<lambda>_.
                  if oc = OcError then check_secondary_uniques (xe_so env) st1 table sch staged [] (wc_owner wc) else Inr ())) of
                Inl e \<Rightarrow> (Inl e, st1)
              | Inr _ \<Rightarrow> apply_insert env se sch table staged oc returning wc st1))))"

section \<open>DELETE\<close>

text \<open>A row the statement may touch: seen by the writer and passed by the policies.\<close>

definition target_row :: "('x, 'q, 'l, 'f) exec_env \<Rightarrow> session_context \<Rightarrow> table_schema \<Rightarrow> write_ctx \<Rightarrow> 'l rls \<Rightarrow> row_version \<Rightarrow> bool xres" where
  "target_row env se sch wc dec r = (if visible_to_writer r (wc_snapshot wc) (wc_owner wc)
     then rls_passes (xe_so env) se dec (ctx_row (rv_values r) sch (wc_params wc)) else Inr False)"

definition conflict_free :: "write_ctx \<Rightarrow> row_version \<Rightarrow> unit xres" where
  "conflict_free wc r = (if check_no_conflict r (wc_snapshot wc) (wc_owner wc) then Inr () else Inl (Raised ErrConflict))"

definition delete_victim :: "('x, 'q, 'l, 'f) exec_env \<Rightarrow> session_context \<Rightarrow> table_schema \<Rightarrow> 'l expr option \<Rightarrow> write_ctx \<Rightarrow> 'l rls \<Rightarrow>
    row_version \<Rightarrow> (nat \<times> sql_value list) list xres" where
  "delete_victim env se sch fil wc dec r = res_bind (target_row env se sch wc dec r) (\<lambda>ok. if \<not> ok then Inr [] else
     res_bind (predicate (xe_so env) se fil (ctx_row (rv_values r) sch (wc_params wc))) (\<lambda>hit. if \<not> hit then Inr [] else
     res_bind (conflict_free wc r) (\<lambda>_. Inr [(rv_vid r, rv_values r)])))"

definition collect_delete_victims :: "('x, 'q, 'l, 'f) exec_env \<Rightarrow> session_context \<Rightarrow> ('x, 'q) store \<Rightarrow> table_schema \<Rightarrow> string \<Rightarrow> 'l expr option \<Rightarrow>
    write_ctx \<Rightarrow> (nat \<times> sql_value list) list xres" where
  "collect_delete_victims env se st sch table fil wc = res_bind (rls_read env se sch PcDelete) (\<lambda>dec.
     collect_each (delete_victim env se sch fil wc dec) (store_rows st table))"

definition target_rel_cols :: "table_schema \<Rightarrow> string \<Rightarrow> rel_col list" where
  "target_rel_cols sch table = map (\<lambda>c. \<lparr>rc_table = Some table, rc_name = col_name c, rc_ty = col_ty c\<rparr>) (sch_columns sch)"

text \<open>The first row of the joined source that satisfies the condition together with the target row.\<close>

fun first_match :: "('x, 'q, 'l, 'f) exec_env \<Rightarrow> session_context \<Rightarrow> 'l expr option \<Rightarrow> write_ctx \<Rightarrow> rel_col list \<Rightarrow> sql_value list \<Rightarrow>
    sql_value list list \<Rightarrow> eval_ctx option xres" where
  "first_match env se fil wc cols vals [] = Inr None"
| "first_match env se fil wc cols vals (frow # rows) = (let ctx = ctx_rel (vals @ frow) cols (wc_params wc) in
     res_bind (predicate (xe_so env) se fil ctx) (\<lambda>hit. if hit then Inr (Some ctx) else first_match env se fil wc cols vals rows))"

definition delete_victim_join :: "('x, 'q, 'l, 'f) exec_env \<Rightarrow> session_context \<Rightarrow> table_schema \<Rightarrow> 'l expr option \<Rightarrow> write_ctx \<Rightarrow> rel_col list \<Rightarrow>
    sql_value list list \<Rightarrow> 'l rls \<Rightarrow> row_version \<Rightarrow> (nat \<times> sql_value list) list xres" where
  "delete_victim_join env se sch fil wc cols from_rows dec r = res_bind (target_row env se sch wc dec r) (\<lambda>ok. if \<not> ok then Inr [] else
     res_bind (first_match env se fil wc cols (rv_values r) from_rows) (\<lambda>hit. if hit = None then Inr [] else
     res_bind (conflict_free wc r) (\<lambda>_. Inr [(rv_vid r, rv_values r)])))"

definition collect_delete_victims_join :: "('x, 'q, 'l, 'f) exec_env \<Rightarrow> session_context \<Rightarrow> ('x, 'q) store \<Rightarrow> table_schema \<Rightarrow> string \<Rightarrow> 'f \<Rightarrow>
    'l expr option \<Rightarrow> write_ctx \<Rightarrow> (nat \<times> sql_value list) list xres" where
  "collect_delete_victims_join env se st sch table frm fil wc =
     res_bind (xe_materialize env se st frm (wc_snapshot wc) (Some (wc_owner wc)) (wc_params wc)) (\<lambda>(from_cols, from_rows).
     res_bind (rls_read env se sch PcDelete) (\<lambda>dec.
       collect_each (delete_victim_join env se sch fil wc (target_rel_cols sch table @ from_cols) from_rows dec) (store_rows st table)))"

fun supersede_all :: "string \<Rightarrow> nat \<Rightarrow> nat list \<Rightarrow> ('x, 'q) logged \<Rightarrow> unit xres \<times> ('x, 'q) logged" where
  "supersede_all table owner [] stw = (Inr (), stw)"
| "supersede_all table owner (vid # vids) stw = (case do_supersede table vid owner stw of
     (Inl e, stw1) \<Rightarrow> (Inl e, stw1) | (Inr _, stw1) \<Rightarrow> supersede_all table owner vids stw1)"

definition run_delete :: "('x, 'q, 'l, 'f) exec_env \<Rightarrow> session_context \<Rightarrow> string \<Rightarrow> 'f option \<Rightarrow> 'l expr option \<Rightarrow> 'l sel_item list option \<Rightarrow>
    write_ctx \<Rightarrow> ('x, 'q) store \<Rightarrow> mutation xres \<times> ('x, 'q) store" where
  "run_delete env se table frm fil returning wc st = (case get_table st table of
     None \<Rightarrow> (Inl (Raised ErrSql), st)
   | Some t \<Rightarrow> (let sch = t_schema t in
       case (case frm of None \<Rightarrow> collect_delete_victims env se st sch table fil wc
               | Some u \<Rightarrow> collect_delete_victims_join env se st sch table u fil wc) of
         Inl e \<Rightarrow> (Inl e, st)
       | Inr victims \<Rightarrow> (case supersede_all table (wc_owner wc) (map fst victims) (st, []) of
           (Inl e, stw) \<Rightarrow> (Inl e, fst stw)
         | (Inr _, stw) \<Rightarrow> finish_mutation env se sch returning wc (map snd victims) (length victims) stw)))"

section \<open>UPDATE\<close>

definition resolve_sets :: "table_schema \<Rightarrow> (string \<times> 'l expr) list \<Rightarrow> (nat \<times> 'l expr) list xres" where
  "resolve_sets sch sets = collect_results (map (\<lambda>(col, e). res_bind (ok_or (Raised ErrSql) (column_index sch col)) (\<lambda>idx. Inr (idx, e))) sets)"

fun apply_sets :: "('x, 'q, 'l, 'f) exec_env \<Rightarrow> session_context \<Rightarrow> table_schema \<Rightarrow> eval_ctx \<Rightarrow> (nat \<times> 'l expr) list \<Rightarrow> sql_value list \<Rightarrow> sql_value list xres" where
  "apply_sets env se sch ctx [] nv = Inr nv"
| "apply_sets env se sch ctx ((idx, e) # sets) nv = res_bind (xe_eval env se e ctx) (\<lambda>v. if idx < length nv
     then apply_sets env se sch ctx sets (nv[idx := xe_coerce env (col_ty (sch_columns sch ! idx)) v]) else Inl Panicked)"

definition updated_row :: "('x, 'q, 'l, 'f) exec_env \<Rightarrow> session_context \<Rightarrow> table_schema \<Rightarrow> (nat \<times> 'l expr) list \<Rightarrow> 'l expr list \<Rightarrow> write_ctx \<Rightarrow>
    'l rls \<Rightarrow> row_version \<Rightarrow> eval_ctx \<Rightarrow> (nat \<times> sql_value list) list xres" where
  "updated_row env se sch targets checks wc wchk r ctx = res_bind (conflict_free wc r) (\<lambda>_.
     res_bind (apply_sets env se sch ctx targets (rv_values r)) (\<lambda>nv.
     res_bind (validate_row env se checks sch nv) (\<lambda>_.
     res_bind (enforce_rls_write (xe_so env) se wchk sch nv) (\<lambda>_. Inr [(rv_vid r, nv)]))))"

definition update_one :: "('x, 'q, 'l, 'f) exec_env \<Rightarrow> session_context \<Rightarrow> table_schema \<Rightarrow> (nat \<times> 'l expr) list \<Rightarrow> 'l expr list \<Rightarrow> 'l expr option \<Rightarrow>
    write_ctx \<Rightarrow> 'l rls \<Rightarrow> 'l rls \<Rightarrow> row_version \<Rightarrow> (nat \<times> sql_value list) list xres" where
  "update_one env se sch targets checks fil wc dec wchk r = res_bind (target_row env se sch wc dec r) (\<lambda>ok. if \<not> ok then Inr [] else
     let ctx = ctx_row (rv_values r) sch (wc_params wc) in
     res_bind (predicate (xe_so env) se fil ctx) (\<lambda>hit. if \<not> hit then Inr [] else updated_row env se sch targets checks wc wchk r ctx))"

definition compute_updates :: "('x, 'q, 'l, 'f) exec_env \<Rightarrow> session_context \<Rightarrow> ('x, 'q) store \<Rightarrow> table_schema \<Rightarrow> string \<Rightarrow> (string \<times> 'l expr) list \<Rightarrow>
    'l expr option \<Rightarrow> write_ctx \<Rightarrow> (nat \<times> sql_value list) list xres" where
  "compute_updates env se st sch table sets fil wc =
     res_bind (resolve_sets sch sets) (\<lambda>targets. res_bind (parse_checks env sch) (\<lambda>checks.
     res_bind (rls_read env se sch PcUpdate) (\<lambda>dec. res_bind (rls_write env se sch PcUpdate) (\<lambda>wchk.
       collect_each (update_one env se sch targets checks fil wc dec wchk) (store_rows st table)))))"

definition update_one_join :: "('x, 'q, 'l, 'f) exec_env \<Rightarrow> session_context \<Rightarrow> table_schema \<Rightarrow> (nat \<times> 'l expr) list \<Rightarrow> 'l expr list \<Rightarrow> 'l expr option \<Rightarrow>
    write_ctx \<Rightarrow> rel_col list \<Rightarrow> sql_value list list \<Rightarrow> 'l rls \<Rightarrow> 'l rls \<Rightarrow> row_version \<Rightarrow> (nat \<times> sql_value list) list xres" where
  "update_one_join env se sch targets checks fil wc cols from_rows dec wchk r =
     res_bind (target_row env se sch wc dec r) (\<lambda>ok. if \<not> ok then Inr [] else
     res_bind (first_match env se fil wc cols (rv_values r) from_rows) (\<lambda>hit. case hit of
       None \<Rightarrow> Inr [] | Some ctx \<Rightarrow> updated_row env se sch targets checks wc wchk r ctx))"

definition compute_updates_join :: "('x, 'q, 'l, 'f) exec_env \<Rightarrow> session_context \<Rightarrow> ('x, 'q) store \<Rightarrow> table_schema \<Rightarrow> string \<Rightarrow> (string \<times> 'l expr) list \<Rightarrow>
    'f \<Rightarrow> 'l expr option \<Rightarrow> write_ctx \<Rightarrow> (nat \<times> sql_value list) list xres" where
  "compute_updates_join env se st sch table sets frm fil wc =
     res_bind (resolve_sets sch sets) (\<lambda>targets. res_bind (parse_checks env sch) (\<lambda>checks.
     res_bind (xe_materialize env se st frm (wc_snapshot wc) (Some (wc_owner wc)) (wc_params wc)) (\<lambda>(from_cols, from_rows).
     res_bind (rls_read env se sch PcUpdate) (\<lambda>dec. res_bind (rls_write env se sch PcUpdate) (\<lambda>wchk.
       collect_each (update_one_join env se sch targets checks fil wc (target_rel_cols sch table @ from_cols) from_rows dec wchk)
         (store_rows st table))))))"

fun claim_keys :: "scalar_ops \<Rightarrow> nat list \<Rightarrow> string set \<Rightarrow> string set \<Rightarrow> sql_value list list \<Rightarrow> unit xres" where
  "claim_keys so pk pending taken [] = Inr ()"
| "claim_keys so pk pending taken (nv # rest) = res_bind (composite_key so nv pk) (\<lambda>k.
     if k \<in> pending then Inl (Raised ErrConflict)
     else if k \<in> taken then Inl (Raised ErrConstraint)
     else claim_keys so pk pending (insert k taken) rest)"

definition check_update_uniques :: "scalar_ops \<Rightarrow> ('x, 'q) store \<Rightarrow> table_schema \<Rightarrow> string \<Rightarrow> (nat \<times> sql_value list) list \<Rightarrow> nat \<Rightarrow> unit xres" where
  "check_update_uniques so st sch table updates owner =
     (let vids = map fst updates; pk = primary_key_indices sch
      in res_bind (if pk = [] then Inr () else res_bind (pk_keys so st table pk owner vids) (\<lambda>(taken, pending).
           claim_keys so pk pending taken (map snd updates))) (\<lambda>_.
         check_secondary_uniques so st table sch (map snd updates) vids owner))"

fun replace_all :: "string \<Rightarrow> nat \<Rightarrow> (nat \<times> sql_value list) list \<Rightarrow> ('x, 'q) logged \<Rightarrow> (nat \<times> sql_value list) list xres \<times> ('x, 'q) logged" where
  "replace_all table owner [] stw = (Inr [], stw)"
| "replace_all table owner ((old_vid, nv) # updates) stw = (case replace_version table old_vid nv owner stw of
     (Inl e, stw1) \<Rightarrow> (Inl e, stw1)
   | (Inr vid, stw1) \<Rightarrow> (case replace_all table owner updates stw1 of
       (Inl e, stw2) \<Rightarrow> (Inl e, stw2) | (Inr out, stw2) \<Rightarrow> (Inr ((vid, nv) # out), stw2)))"

definition apply_updates :: "('x, 'q, 'l, 'f) exec_env \<Rightarrow> session_context \<Rightarrow> table_schema \<Rightarrow> string \<Rightarrow> (nat \<times> sql_value list) list \<Rightarrow>
    'l sel_item list option \<Rightarrow> write_ctx \<Rightarrow> ('x, 'q) store \<Rightarrow> mutation xres \<times> ('x, 'q) store" where
  "apply_updates env se sch table updates returning wc st =
     (let maintain = table_has_index (xe_vo env) st table in
      case replace_all table (wc_owner wc) updates (st, []) of
        (Inl e, stw) \<Rightarrow> (Inl e, fst stw)
      | (Inr new, st1, wal) \<Rightarrow>
          finish_mutation env se sch returning wc (map snd updates) (length updates)
            (if maintain then index_rows (xe_vo env) table new st1 else st1, wal))"

definition run_update :: "('x, 'q, 'l, 'f) exec_env \<Rightarrow> session_context \<Rightarrow> string \<Rightarrow> (string \<times> 'l expr) list \<Rightarrow> 'f option \<Rightarrow> 'l expr option \<Rightarrow>
    'l sel_item list option \<Rightarrow> write_ctx \<Rightarrow> ('x, 'q) store \<Rightarrow> mutation xres \<times> ('x, 'q) store" where
  "run_update env se table sets frm fil returning wc st = (case get_table st table of
     None \<Rightarrow> (Inl (Raised ErrSql), st)
   | Some t \<Rightarrow> (let sch = t_schema t in
       case res_bind (case frm of None \<Rightarrow> compute_updates env se st sch table sets fil wc
                | Some u \<Rightarrow> compute_updates_join env se st sch table sets u fil wc) (\<lambda>updates.
              res_bind (check_update_uniques (xe_so env) st sch table updates (wc_owner wc)) (\<lambda>_. Inr updates)) of
         Inl e \<Rightarrow> (Inl e, st)
       | Inr updates \<Rightarrow> apply_updates env se sch table updates returning wc st))"

datatype ('l, 'f) dml_stmt =
    DInsert string "string list option" "'l insert_source" "'l on_conflict" "'l sel_item list option"
  | DUpdate string "(string \<times> 'l expr) list" "'f option" "'l expr option" "'l sel_item list option"
  | DDelete string "'f option" "'l expr option" "'l sel_item list option"

fun run_dml :: "('x, 'q, 'l, 'f) exec_env \<Rightarrow> session_context \<Rightarrow> ('l, 'f) dml_stmt \<Rightarrow> write_ctx \<Rightarrow> ('x, 'q) store \<Rightarrow> mutation xres \<times> ('x, 'q) store" where
  "run_dml env se (DInsert table columns source oc returning) wc st = run_insert env se table columns source oc returning wc st"
| "run_dml env se (DUpdate table sets frm fil returning) wc st = run_update env se table sets frm fil returning wc st"
| "run_dml env se (DDelete table frm fil returning) wc st = run_delete env se table frm fil returning wc st"

end
