(* ===== verification/Dml_Correct.thy ===== *)
theory Dml_Correct
  imports Exec_Dml
begin

text \<open>
  What the write statements do to the store: their effect on the rows of the table, that they
  touch and add only admitted rows, and that they keep the primary keys of the live versions
  apart.
\<close>

section \<open>The effect of the write loops\<close>

definition put_table :: "string \<Rightarrow> table \<Rightarrow> ('x, 'q) store \<Rightarrow> ('x, 'q) store" where
  "put_table table t st = table_mut table (\<lambda>_. t) st"

lemma get_put_table [simp]:
  "get_table st table = Some t0 \<Longrightarrow> get_table (put_table table t st) name = (if key name = key table then Some t else get_table st name)"
  by (simp add: put_table_def get_table_mut)

lemma put_table_keeps [simp]: "s_committed_lsn (put_table table t st) = s_committed_lsn st" "s_indexes (put_table table t st) = s_indexes st"
  by (simp_all add: put_table_def)

lemma put_put_table [simp]: "get_table st table = Some t0 \<Longrightarrow> put_table table t2 (put_table table t1 st) = put_table table t2 st"
  by (simp add: put_table_def table_mut_def get_table_def)

lemma put_table_triv: "get_table st table = Some t \<Longrightarrow> put_table table t st = st"
  by (simp add: put_table_def table_mut_def get_table_def AList.update_triv)

lemma store_ok_put: "store_ok st \<Longrightarrow> table_ok (s_committed_lsn st) t \<Longrightarrow> store_ok (put_table table t st)"
  by (simp add: put_table_def store_ok_table_mut)

lemma table_mut_put: "get_table st table = Some t \<Longrightarrow> table_mut table f st = put_table table (f t) st"
  by (simp add: put_table_def table_mut_def)

definition pending_rows :: "nat \<Rightarrow> nat \<Rightarrow> sql_value list list \<Rightarrow> row_version list" where
  "pending_rows me n vss = map (\<lambda>(i, v). \<lparr>rv_vid = i, rv_values = v, rv_create_lsn = PENDING, rv_delete_lsn = 0, rv_owner = me\<rparr>) (enumerate n vss)"

definition marked :: "nat \<Rightarrow> nat set \<Rightarrow> row_version list \<Rightarrow> row_version list" where
  "marked me V rows = map (\<lambda>r. if rv_vid r \<in> V then mark_deleted me r else r) rows"

text \<open>A table after its versions \<open>V\<close> were superseded and rows were appended.\<close>

definition written :: "nat \<Rightarrow> nat set \<Rightarrow> sql_value list list \<Rightarrow> table \<Rightarrow> table" where
  "written me V vss t = t\<lparr>t_rows := marked me V (t_rows t) @ pending_rows me (t_next_vid t) vss, t_next_vid := t_next_vid t + length vss\<rparr>"

lemma written_simps [simp]:
  "t_rows (written me V vss t) = marked me V (t_rows t) @ pending_rows me (t_next_vid t) vss"
  "t_next_vid (written me V vss t) = t_next_vid t + length vss"
  "t_schema (written me V vss t) = t_schema t"
  "t_next_autoinc (written me V vss t) = t_next_autoinc t"
  by (simp_all add: written_def)

lemma marked_empty [simp]: "marked me {} rows = rows"
  by (simp add: marked_def)

lemma pending_rows_Nil [simp]: "pending_rows me n [] = []"
  by (simp add: pending_rows_def)

lemma written_none [simp]: "written me {} [] t = t"
  by (simp add: written_def)

lemma pending_rows_Cons: "pending_rows me n (v # vss) =
    \<lparr>rv_vid = n, rv_values = v, rv_create_lsn = PENDING, rv_delete_lsn = 0, rv_owner = me\<rparr> # pending_rows me (Suc n) vss"
  by (simp add: pending_rows_def)

lemma set_pending_rows: "r \<in> set (pending_rows me n vss) \<longleftrightarrow>
    (\<exists>i<length vss. r = \<lparr>rv_vid = n + i, rv_values = vss ! i, rv_create_lsn = PENDING, rv_delete_lsn = 0, rv_owner = me\<rparr>)"
proof (induction vss arbitrary: n)
  case (Cons v vss)
  then show ?case by (auto simp: pending_rows_Cons less_Suc_eq_0_disj)
qed simp

lemma marked_pending_rows: "V \<subseteq> {..<n} \<Longrightarrow> marked me V (pending_rows me n vss) = pending_rows me n vss"
  unfolding marked_def by (rule map_idI) (auto simp: set_pending_rows)

lemma marked_marked: "marked me V (marked me W rows) = marked me (W \<union> V) rows"
  by (auto simp: marked_def mark_deleted_def)

lemma marked_append: "marked me V (xs @ ys) = marked me V xs @ marked me V ys"
  by (simp add: marked_def)

lemma map_vid_marked: "map rv_vid (marked me V rows) = map rv_vid rows"
  by (simp add: marked_def mark_deleted_def comp_def if_distrib cong: if_cong)

lemma map_vid_pending: "map rv_vid (pending_rows me n vss) = [n..<n + length vss]"
  by (induction vss arbitrary: n) (simp_all add: pending_rows_Cons upt_rec)

lemma append_row_written: "append_row v me t = written me {} [v] t"
  by (simp add: append_row_def alloc_vid_def written_def pending_rows_def)

lemma written_append:
  "V \<subseteq> {..<t_next_vid t} \<Longrightarrow> written me {} us (written me V vss t) = written me V (vss @ us) t"
  by (simp add: written_def pending_rows_def enumerate_append_eq)

lemma written_mark:
  "V \<subseteq> {..<t_next_vid t} \<Longrightarrow> vid < t_next_vid t \<Longrightarrow> written me {vid} [] (written me V vss t) = written me (insert vid V) vss t"
  using marked_pending_rows [of "{vid}" "t_next_vid t" me vss]
  by (simp add: written_def marked_append marked_marked)

lemma row_ok_mark: "row_ok c r \<Longrightarrow> me \<noteq> 0 \<Longrightarrow> row_ok c (mark_deleted me r)"
  by (auto simp: row_ok_def mark_deleted_def)

lemma table_ok_written:
  assumes "table_ok c t" and "me \<noteq> 0"
  shows "table_ok c (written me V vss t)"
proof -
  let ?rows = "t_rows (written me V vss t)"
  have vids: "map rv_vid ?rows = map rv_vid (t_rows t) @ [t_next_vid t..<t_next_vid t + length vss]"
    by (simp add: map_vid_marked map_vid_pending)
  have t: "list_all (row_ok c) (t_rows t)" "distinct (map rv_vid (t_rows t))" "0 < t_next_vid t"
    "\<And>v. v \<in> set (map rv_vid (t_rows t)) \<Longrightarrow> 0 < v \<and> v < t_next_vid t"
    using assms(1) by (auto simp: table_ok_def)
  have "row_ok c r" if "r \<in> set ?rows" for r
  proof (cases "r \<in> set (marked me V (t_rows t))")
    case True
    with t(1) assms(2) show ?thesis by (auto simp: marked_def list_all_iff row_ok_mark)
  next
    case False
    with that assms(2) show ?thesis by (auto simp: set_pending_rows row_ok_def)
  qed
  moreover have "distinct (map rv_vid ?rows)"
    unfolding vids using t(2,4) by fastforce
  moreover have "0 < rv_vid r \<and> rv_vid r < t_next_vid t + length vss" if "r \<in> set ?rows" for r
  proof -
    have "rv_vid r \<in> set (map rv_vid ?rows)" unfolding set_map using that by (rule imageI)
    then show ?thesis unfolding vids using t(3,4) by fastforce
  qed
  ultimately show ?thesis using t(3) by (simp add: table_ok_def list_all_iff)
qed

lemma do_append_effect:
  "get_table st table = Some t \<Longrightarrow>
     do_append table v me (st, wal) = (Inr (t_next_vid t), put_table table (written me {} [v] t) st, wal @ [Insert table (t_next_vid t) v])"
  by (simp add: do_append_def append_version_def table_mut_put append_row_written)

lemma version_mut_written: "table_ok c t \<Longrightarrow> version_mut vid (mark_deleted me) t = written me {vid} [] t"
  by (simp add: version_mut_map written_def marked_def)

lemma do_supersede_effect:
  "get_table st table = Some t \<Longrightarrow> table_ok c t \<Longrightarrow>
     do_supersede table vid me (st, wal) = (Inr (), put_table table (written me {vid} [] t) st, wal @ [Delete table vid])"
  by (simp add: do_supersede_def supersede_def table_mut_put version_mut_written)

lemma insert_plain_effect:
  assumes "get_table st table = Some t"
  shows "insert_plain table me vss (st, wal) = (Inr (enumerate (t_next_vid t) vss), put_table table (written me {} vss t) st,
    wal @ map (\<lambda>(i, v). Insert table i v) (enumerate (t_next_vid t) vss))"
  using assms
proof (induction vss arbitrary: st wal t)
  case Nil
  then show ?case by (simp add: put_table_triv)
next
  case (Cons v vss)
  let ?t = "written me {} [v] t" and ?st = "put_table table (written me {} [v] t) st"
  have "get_table ?st table = Some ?t" using Cons.prems by simp
  from Cons.IH [OF this, of "wal @ [Insert table (t_next_vid t) v]"] Cons.prems show ?case
    by (simp add: do_append_effect written_append)
qed

lemma supersede_all_effect:
  assumes "get_table st table = Some t" and "table_ok c t" and "me \<noteq> 0" and "set vids \<subseteq> {..<t_next_vid t}"
  shows "supersede_all table me vids (st, wal) = (Inr (), put_table table (written me (set vids) [] t) st, wal @ map (Delete table) vids)"
  using assms
proof (induction vids arbitrary: st wal t)
  case Nil
  then show ?case by (simp add: put_table_triv)
next
  case (Cons vid vids)
  let ?t = "written me {vid} [] t" and ?st = "put_table table (written me {vid} [] t) st"
  have w: "written me (set vids) [] ?t = written me (insert vid (set vids)) [] t"
    by (simp add: written_def marked_marked)
  have "get_table ?st table = Some ?t" using Cons.prems by simp
  from Cons.IH [OF this table_ok_written [OF Cons.prems(2,3)]] Cons.prems w show ?case
    by (simp add: do_supersede_effect)
qed

lemma replace_version_effect:
  assumes "get_table st table = Some t" and "table_ok c t" and "me \<noteq> 0" and "vid < t_next_vid t"
  shows "replace_version table vid v me (st, wal) = (Inr (t_next_vid t), put_table table (written me {vid} [v] t) st,
    wal @ [Delete table vid, Insert table (t_next_vid t) v])"
proof -
  let ?t = "written me {vid} [] t" and ?st = "put_table table (written me {vid} [] t) st"
  have "get_table ?st table = Some ?t" using assms by simp
  from do_append_effect [OF this] assms show ?thesis
    by (simp add: replace_version_def do_supersede_effect [OF assms(1,2)] written_append)
qed

text \<open>The log of an update: each replaced version with the version that replaces it.\<close>

fun replace_log :: "string \<Rightarrow> nat \<Rightarrow> (nat \<times> sql_value list) list \<Rightarrow> wal_op list" where
  "replace_log table n [] = []"
| "replace_log table n ((vid, v) # ups) = Delete table vid # Insert table n v # replace_log table (Suc n) ups"

lemma written_replace:
  "vid < t_next_vid t \<Longrightarrow> V \<subseteq> {..<t_next_vid t} \<Longrightarrow> written me V us (written me {vid} [v] t) = written me (insert vid V) (v # us) t"
  using marked_pending_rows [of V "t_next_vid t" me "[v]"]
  by (simp add: written_def marked_append marked_marked pending_rows_Cons)

lemma replace_all_effect:
  assumes "get_table st table = Some t" and "table_ok c t" and "me \<noteq> 0" and "fst ` set ups \<subseteq> {..<t_next_vid t}"
  shows "replace_all table me ups (st, wal) = (Inr (enumerate (t_next_vid t) (map snd ups)),
    put_table table (written me (fst ` set ups) (map snd ups) t) st, wal @ replace_log table (t_next_vid t) ups)"
  using assms
proof (induction ups arbitrary: st wal t)
  case Nil
  then show ?case by (simp add: put_table_triv)
next
  case (Cons u ups)
  obtain vid v where u: "u = (vid, v)" by fastforce
  let ?t = "written me {vid} [v] t" and ?st = "put_table table (written me {vid} [v] t) st"
  have "get_table ?st table = Some ?t" using Cons.prems by simp
  moreover have "fst ` set ups \<subseteq> {..<t_next_vid ?t}" using Cons.prems(4) by fastforce
  moreover have "written me (fst ` set ups) (map snd ups) ?t = written me (insert vid (fst ` set ups)) (v # map snd ups) t"
    using Cons.prems(4) u by (intro written_replace) auto
  ultimately show ?case
    using Cons.IH [OF _ table_ok_written [OF Cons.prems(2,3)], of ?st "{vid}" "[v]" "wal @ [Delete table vid, Insert table (t_next_vid t) v]"] Cons.prems u
    by (simp add: replace_version_effect)
qed

section \<open>Primary keys\<close>

text \<open>Two versions of one key never live at the same time: one was deleted before the other was
  created, by a commit or by the transaction that is about to create the other, or one of them never lived.\<close>

definition ended_before :: "row_version \<Rightarrow> row_version \<Rightarrow> bool" where
  "ended_before r1 r2 \<longleftrightarrow>
     (rv_delete_lsn r1 \<noteq> 0 \<and> rv_delete_lsn r1 \<noteq> PENDING \<and> rv_delete_lsn r1 \<le> rv_create_lsn r2) \<or>
     (rv_delete_lsn r1 = PENDING \<and> rv_create_lsn r2 = PENDING \<and> rv_owner r1 = rv_owner r2)"

definition stillborn :: "row_version \<Rightarrow> bool" where
  "stillborn r \<longleftrightarrow> rv_delete_lsn r \<noteq> 0 \<and> rv_delete_lsn r \<le> rv_create_lsn r"

definition apart :: "row_version \<Rightarrow> row_version \<Rightarrow> bool" where
  "apart r1 r2 \<longleftrightarrow> ended_before r1 r2 \<or> ended_before r2 r1 \<or> stillborn r1 \<or> stillborn r2"

lemmas apart_defs = apart_def ended_before_def stillborn_def

definition same_key :: "scalar_ops \<Rightarrow> nat list \<Rightarrow> row_version \<Rightarrow> row_version \<Rightarrow> bool" where
  "same_key so pk r1 r2 \<longleftrightarrow> (\<exists>k. composite_key so (rv_values r1) pk = Inr k \<and> composite_key so (rv_values r2) pk = Inr k)"

definition keys_apart :: "scalar_ops \<Rightarrow> nat list \<Rightarrow> row_version list \<Rightarrow> bool" where
  "keys_apart so pk rows \<longleftrightarrow> (\<forall>r1\<in>set rows. \<forall>r2\<in>set rows. rv_vid r1 \<noteq> rv_vid r2 \<longrightarrow> same_key so pk r1 r2 \<longrightarrow> apart r1 r2)"

lemma apart_sym: "apart r1 r2 \<longleftrightarrow> apart r2 r1"
  by (auto simp: apart_def)

lemma same_key_sym: "same_key so pk r1 r2 \<longleftrightarrow> same_key so pk r2 r1"
  by (auto simp: same_key_def)

lemma keys_apartD: "keys_apart so pk rows \<Longrightarrow> r1 \<in> set rows \<Longrightarrow> r2 \<in> set rows \<Longrightarrow> rv_vid r1 \<noteq> rv_vid r2 \<Longrightarrow> same_key so pk r1 r2 \<Longrightarrow> apart r1 r2"
  by (auto simp: keys_apart_def)

lemma apart_not_both_visible: "apart r1 r2 \<Longrightarrow> s < PENDING \<Longrightarrow> \<not> (visible_to_reader r1 s \<and> visible_to_reader r2 s)"
  by (auto simp: apart_defs visible_to_reader_def)

text \<open>Commit and rollback.\<close>

lemma ended_before_finalize:
  assumes "ended_before r1 r2" and "row_ok c r1" and "c < lsn" and "lsn < PENDING"
  shows "ended_before (finalize_row me lsn r1) (finalize_row me lsn r2)"
  using assms by (auto simp: ended_before_def finalize_row_def row_ok_def)

lemma stillborn_finalize:
  assumes "stillborn r" and "row_ok c r" and "c < lsn" and "lsn < PENDING"
  shows "stillborn (finalize_row me lsn r)"
  using assms by (auto simp: stillborn_def finalize_row_def row_ok_def)

lemma apart_finalize:
  assumes "apart r1 r2" and "row_ok c r1" and "row_ok c r2" and "c < lsn" and "lsn < PENDING"
  shows "apart (finalize_row me lsn r1) (finalize_row me lsn r2)"
  using assms unfolding apart_def by (metis ended_before_finalize stillborn_finalize)

lemma apart_undelete:
  assumes "apart r1 r2" and "\<not> pending_insert me r1" and "\<not> pending_insert me r2"
    and "row_ok c r1" and "row_ok c r2" and "c < PENDING"
  shows "apart (undelete me r1) (undelete me r2)"
proof -
  have "ended_before (undelete me a) (undelete me b)"
    if "ended_before a b" "\<not> pending_insert me b" for a b
    using that by (auto simp: ended_before_def undelete_def pending_insert_def)
  moreover have "stillborn (undelete me a)" if "stillborn a" "\<not> pending_insert me a" "row_ok c a" for a
    using that assms(6) by (auto simp: stillborn_def undelete_def pending_insert_def row_ok_def)
  ultimately show ?thesis using assms unfolding apart_def by metis
qed

lemma same_key_kept [simp]:
  "same_key so pk (finalize_row me lsn r1) (finalize_row me lsn r2) = same_key so pk r1 r2"
  "same_key so pk (undelete me r1) (undelete me r2) = same_key so pk r1 r2"
  by (simp_all add: same_key_def)

lemma keys_apart_finalize:
  assumes "keys_apart so pk rows" and "list_all (row_ok c) rows" and "c < lsn" and "lsn < PENDING"
  shows "keys_apart so pk (map (finalize_row me lsn) rows)"
  using assms by (auto simp: keys_apart_def list_all_iff intro!: apart_finalize)

lemma keys_apart_rollback:
  assumes "keys_apart so pk rows" and "list_all (row_ok c) rows" and "c < PENDING"
  shows "keys_apart so pk (rollback_rows me rows)"
  using assms by (auto simp: keys_apart_def rollback_rows_def list_all_iff intro!: apart_undelete)

text \<open>Superseding a version the writer sees, and appending a key that is free.\<close>

lemma apart_fresh:
  assumes "row_ok c r" and "\<not> visible_to_writer r c me" and "\<not> pending_elsewhere me r" and "c < PENDING"
    and "rv_create_lsn n = PENDING" and "rv_owner n = me"
  shows "apart r n"
  using assms by (auto simp: apart_defs visible_to_writer_def pending_elsewhere_def row_ok_def Let_def split: if_splits)

text \<open>A version that can be superseded: created by a commit or by the writer, and not yet deleted, except
  that another writer may be deleting it.\<close>

definition live_for :: "nat \<Rightarrow> row_version \<Rightarrow> bool" where
  "live_for me r \<longleftrightarrow> (rv_create_lsn r = PENDING \<longrightarrow> rv_owner r = me) \<and>
     (rv_delete_lsn r = 0 \<or> rv_delete_lsn r = PENDING \<and> rv_owner r \<noteq> me)"

lemma live_not_apart:
  assumes "live_for me r1" and "live_for me r2" and "row_ok c r1" and "row_ok c r2" and "c < PENDING"
  shows "\<not> apart r1 r2"
proof -
  have "\<not> ended_before a b" if "live_for me a" "live_for me b" for a b
    using that by (auto simp: ended_before_def live_for_def)
  moreover have "\<not> stillborn a" if "live_for me a" "row_ok c a" for a
    using that assms(5) by (auto simp: stillborn_def live_for_def row_ok_def)
  ultimately show ?thesis using assms by (simp add: apart_def)
qed

lemma apart_mark:
  assumes "apart r1 r2" and "live_for me r1" and "rv_delete_lsn r1 = 0 \<or> \<not> pending_elsewhere me r2"
    and "row_ok c r1" and "row_ok c r2" and "c < PENDING"
  shows "apart (mark_deleted me r1) r2"
proof -
  have "ended_before (mark_deleted me r1) r2 \<or> stillborn r2" if "ended_before r1 r2"
    using that assms(2,3,5,6) by (auto simp: ended_before_def stillborn_def live_for_def mark_deleted_def pending_elsewhere_def row_ok_def)
  moreover have "ended_before r2 (mark_deleted me r1) \<or> stillborn (mark_deleted me r1)" if "ended_before r2 r1"
    using that assms(2) by (auto simp: ended_before_def stillborn_def live_for_def mark_deleted_def)
  moreover have "\<not> stillborn r1"
    using assms(2,4,6) by (auto simp: stillborn_def live_for_def row_ok_def)
  ultimately show ?thesis using assms(1) by (auto simp: apart_def)
qed

lemma visible_live: "row_ok c r \<Longrightarrow> visible_to_writer r c me \<Longrightarrow> live_for me r"
  by (auto simp: visible_to_writer_def live_for_def row_ok_def Let_def split: if_splits)

lemma target_live:
  assumes "row_ok c r" and "visible_to_writer r s me" and "check_no_conflict r s me"
  shows "live_for me r \<and> rv_delete_lsn r = 0"
  using supersede_target [OF assms] by (auto simp: live_for_def)

lemma apart_marked_new: "rv_create_lsn n = PENDING \<Longrightarrow> rv_owner n = me \<Longrightarrow> apart (mark_deleted me r) n"
  by (simp add: apart_def ended_before_def mark_deleted_def)

lemma apart_marked_old:
  assumes "apart r1 r2" and "row_ok c r1" and "row_ok c r2" and "c < PENDING"
    and "rv_vid r1 \<in> V \<longrightarrow> live_for me r1 \<and> (rv_delete_lsn r1 = 0 \<or> \<not> pending_elsewhere me r2)"
    and "rv_vid r2 \<in> V \<longrightarrow> live_for me r2 \<and> (rv_delete_lsn r2 = 0 \<or> \<not> pending_elsewhere me r1)"
  shows "apart (if rv_vid r1 \<in> V then mark_deleted me r1 else r1) (if rv_vid r2 \<in> V then mark_deleted me r2 else r2)"
proof -
  have "\<not> (rv_vid r1 \<in> V \<and> rv_vid r2 \<in> V)"
    using live_not_apart [of me r1 r2 c] assms by blast
  then consider "rv_vid r1 \<notin> V" "rv_vid r2 \<notin> V" | "rv_vid r1 \<in> V" "rv_vid r2 \<notin> V" | "rv_vid r1 \<notin> V" "rv_vid r2 \<in> V" by blast
  then show ?thesis
  proof cases
    case 2
    with assms apart_mark [of r1 r2 me c] show ?thesis by simp
  next
    case 3
    with assms apart_mark [of r2 r1 me c] show ?thesis by (simp add: apart_sym)
  qed (use assms(1) in simp)
qed

definition free_key :: "scalar_ops \<Rightarrow> nat list \<Rightarrow> nat \<Rightarrow> nat \<Rightarrow> sql_value list \<Rightarrow> row_version \<Rightarrow> bool" where
  "free_key so pk c me v r \<longleftrightarrow> (\<forall>k. composite_key so v pk = Inr k \<longrightarrow> composite_key so (rv_values r) pk = Inr k \<longrightarrow>
     \<not> visible_to_writer r c me \<and> \<not> pending_elsewhere me r)"

definition distinct_keys :: "scalar_ops \<Rightarrow> nat list \<Rightarrow> sql_value list list \<Rightarrow> bool" where
  "distinct_keys so pk vss \<longleftrightarrow> (\<forall>i j k. i < length vss \<longrightarrow> j < length vss \<longrightarrow> composite_key so (vss ! i) pk = Inr k \<longrightarrow>
     composite_key so (vss ! j) pk = Inr k \<longrightarrow> i = j)"

lemma keys_apart_written:
  assumes ok: "table_ok c t" "c < PENDING" and apt: "keys_apart so pk (t_rows t)"
    and live: "\<And>r. r \<in> set (t_rows t) \<Longrightarrow> rv_vid r \<in> V \<Longrightarrow> live_for me r \<and>
      (rv_delete_lsn r = 0 \<or> (\<forall>r2\<in>set (t_rows t). same_key so pk r r2 \<longrightarrow> \<not> pending_elsewhere me r2))"
    and free: "\<And>v r. v \<in> set vss \<Longrightarrow> r \<in> set (t_rows t) \<Longrightarrow> rv_vid r \<notin> V \<Longrightarrow> free_key so pk c me v r"
    and dist: "distinct_keys so pk vss"
  shows "keys_apart so pk (t_rows (written me V vss t))"
proof -
  let ?m = "\<lambda>r. if rv_vid r \<in> V then mark_deleted me r else r"
  have row: "row_ok c r" if "r \<in> set (t_rows t)" for r
    using ok(1) that by (simp add: table_ok_def list_all_iff)
  have old: "apart (?m r1) (?m r2)"
    if "r1 \<in> set (t_rows t)" "r2 \<in> set (t_rows t)" "rv_vid r1 \<noteq> rv_vid r2" "same_key so pk r1 r2" for r1 r2
    using live [OF that(1)] live [OF that(2)] that same_key_sym [of so pk r1 r2]
    by (intro apart_marked_old [OF keys_apartD [OF apt that] row [OF that(1)] row [OF that(2)] ok(2)]) auto
  have new: "apart (?m r) n" if h: "r \<in> set (t_rows t)" "n \<in> set (pending_rows me (t_next_vid t) vss)" "same_key so pk r n" for r n
  proof (cases "rv_vid r \<in> V")
    case True
    with h(2) show ?thesis by (auto simp: set_pending_rows intro!: apart_marked_new)
  next
    case False
    obtain v where v: "v \<in> set vss" "rv_values n = v" "rv_create_lsn n = PENDING" "rv_owner n = me"
      using h(2) by (auto simp: set_pending_rows intro!: that nth_mem)
    with free [OF v(1) h(1) False] h(3) have "\<not> visible_to_writer r c me" "\<not> pending_elsewhere me r"
      by (auto simp: free_key_def same_key_def)
    with apart_fresh [OF row [OF h(1)]] ok(2) v False show ?thesis by simp
  qed
  have fresh: "\<not> same_key so pk n1 n2" if "n1 \<in> set (pending_rows me (t_next_vid t) vss)"
      "n2 \<in> set (pending_rows me (t_next_vid t) vss)" "rv_vid n1 \<noteq> rv_vid n2" for n1 n2
    using that dist by (auto simp: set_pending_rows same_key_def distinct_keys_def)
  have keep: "same_key so pk (?m r1) r2 = same_key so pk r1 r2" "same_key so pk r1 (?m r2) = same_key so pk r1 r2"
    "rv_vid (?m r1) = rv_vid r1" for r1 r2
    by (simp_all add: same_key_def mark_deleted_def)
  show ?thesis
    unfolding keys_apart_def
  proof (intro ballI impI)
    fix x y
    assume x: "x \<in> set (t_rows (written me V vss t))" and y: "y \<in> set (t_rows (written me V vss t))"
      and k: "rv_vid x \<noteq> rv_vid y" "same_key so pk x y"
    have split: "(\<exists>r\<in>set (t_rows t). z = ?m r) \<or> z \<in> set (pending_rows me (t_next_vid t) vss)"
      if "z \<in> set (t_rows (written me V vss t))" for z
      using that by (auto simp: marked_def)
    from split [OF x] split [OF y] show "apart x y"
    proof (elim disjE bexE)
      fix r1 r2 assume "r1 \<in> set (t_rows t)" "x = ?m r1" "r2 \<in> set (t_rows t)" "y = ?m r2"
      with old [of r1 r2] k show ?thesis by (simp only: keep simp_thms)
    next
      fix r assume "r \<in> set (t_rows t)" "x = ?m r" "y \<in> set (pending_rows me (t_next_vid t) vss)"
      with new [of r y] k show ?thesis by (simp only: keep simp_thms)
    next
      fix r assume "r \<in> set (t_rows t)" "y = ?m r" "x \<in> set (pending_rows me (t_next_vid t) vss)"
      with new [of r x] k show ?thesis by (simp only: keep simp_thms apart_sym [of x] same_key_sym [of so pk x])
    qed (use fresh k in blast)
  qed
qed

section \<open>What the statements collect\<close>

lemma collect_results_Inr: "collect_results rs = Inr xs \<longleftrightarrow> rs = map Inr xs"
proof (induction rs arbitrary: xs)
  case (Cons r rs)
  then show ?case by (cases r; cases xs) auto
qed auto

lemma collect_each_Inr:
  assumes "collect_each f xs = Inr ys" and "y \<in> set ys"
  obtains x l where "x \<in> set xs" and "f x = Inr l" and "y \<in> set l"
proof -
  obtain ls where "map f xs = map Inr ls" "ys = concat ls"
    using assms(1) by (auto simp: collect_each_def collect_results_Inr)
  then show thesis
    using assms(2) that by (metis (no_types, lifting) in_set_conv_nth length_map nth_map set_concat UN_E)
qed

lemma check_each_Inr: "check_each f xs = Inr u \<longleftrightarrow> (\<forall>x\<in>set xs. f x = Inr ())"
  by (induction xs) auto

text \<open>A row that a statement may touch: seen by the writer, without conflict, and admitted by the policies.\<close>

definition may_touch :: "('x, 'q, 'l, 'f) exec_env \<Rightarrow> session_context \<Rightarrow> table_schema \<Rightarrow> policy_command \<Rightarrow> write_ctx \<Rightarrow> row_version \<Rightarrow> bool" where
  "may_touch env se sch cmd wc r \<longleftrightarrow> visible_to_writer r (wc_snapshot wc) (wc_owner wc) \<and>
     check_no_conflict r (wc_snapshot wc) (wc_owner wc) \<and>
     (\<exists>dec. rls_read env se sch cmd = Inr dec \<and> rls_passes (xe_so env) se dec (ctx_row (rv_values r) sch (wc_params wc)) = Inr True)"

lemma target_row_Inr: "target_row env se sch wc dec r = Inr True \<longleftrightarrow> visible_to_writer r (wc_snapshot wc) (wc_owner wc) \<and>
    rls_passes (xe_so env) se dec (ctx_row (rv_values r) sch (wc_params wc)) = Inr True"
  by (simp add: target_row_def)

lemma conflict_free_Inr: "conflict_free wc r = Inr u \<longleftrightarrow> check_no_conflict r (wc_snapshot wc) (wc_owner wc)"
  by (simp add: conflict_free_def)

definition delete_set :: "('x, 'q, 'l, 'f) exec_env \<Rightarrow> session_context \<Rightarrow> ('x, 'q) store \<Rightarrow> table_schema \<Rightarrow> string \<Rightarrow> 'f option \<Rightarrow> 'l expr option \<Rightarrow>
    write_ctx \<Rightarrow> (nat \<times> sql_value list) list xres" where
  "delete_set env se st sch table frm fil wc = (case frm of None \<Rightarrow> collect_delete_victims env se st sch table fil wc
     | Some u \<Rightarrow> collect_delete_victims_join env se st sch table u fil wc)"

lemma delete_set_rows:
  assumes "delete_set env se st sch table frm fil wc = Inr victims" and "(vid, vals) \<in> set victims"
  shows "\<exists>r\<in>set (store_rows st table). rv_vid r = vid \<and> rv_values r = vals \<and> may_touch env se sch PcDelete wc r"
proof (cases frm)
  case None
  with assms(1) obtain dec where d: "rls_read env se sch PcDelete = Inr dec"
      "collect_each (delete_victim env se sch fil wc dec) (store_rows st table) = Inr victims"
    by (auto simp: delete_set_def collect_delete_victims_def)
  from collect_each_Inr [OF d(2) assms(2)] obtain r l where r: "r \<in> set (store_rows st table)"
      "delete_victim env se sch fil wc dec r = Inr l" "(vid, vals) \<in> set l" .
  then show ?thesis
    by (intro bexI [OF _ r(1)]) (auto simp: may_touch_def delete_victim_def target_row_Inr conflict_free_Inr d(1) split: if_splits)
next
  case (Some u)
  with assms(1) obtain cols rows dec where d: "rls_read env se sch PcDelete = Inr dec"
      "collect_each (delete_victim_join env se sch fil wc cols rows dec) (store_rows st table) = Inr victims"
    by (auto simp: delete_set_def collect_delete_victims_join_def)
  from collect_each_Inr [OF d(2) assms(2)] obtain r l where r: "r \<in> set (store_rows st table)"
      "delete_victim_join env se sch fil wc cols rows dec r = Inr l" "(vid, vals) \<in> set l" .
  then show ?thesis
    by (intro bexI [OF _ r(1)]) (auto simp: may_touch_def delete_victim_join_def target_row_Inr conflict_free_Inr d(1) split: if_splits)
qed

text \<open>A row that passed every check before it is written.\<close>

definition row_valid :: "('x, 'q, 'l, 'f) exec_env \<Rightarrow> session_context \<Rightarrow> table_schema \<Rightarrow> policy_command \<Rightarrow> sql_value list \<Rightarrow> bool" where
  "row_valid env se sch cmd vals \<longleftrightarrow> (\<exists>checks dec. parse_checks env sch = Inr checks \<and> validate_row env se checks sch vals = Inr () \<and>
     rls_write env se sch cmd = Inr dec \<and> rls_passes (xe_so env) se dec (ctx_row vals sch []) = Inr True)"

definition update_set :: "('x, 'q, 'l, 'f) exec_env \<Rightarrow> session_context \<Rightarrow> ('x, 'q) store \<Rightarrow> table_schema \<Rightarrow> string \<Rightarrow> (string \<times> 'l expr) list \<Rightarrow>
    'f option \<Rightarrow> 'l expr option \<Rightarrow> write_ctx \<Rightarrow> (nat \<times> sql_value list) list xres" where
  "update_set env se st sch table sets frm fil wc = (case frm of None \<Rightarrow> compute_updates env se st sch table sets fil wc
     | Some u \<Rightarrow> compute_updates_join env se st sch table sets u fil wc)"

lemma apply_sets_length: "apply_sets env se sch ctx sets nv = Inr nv' \<Longrightarrow> length nv' = length nv"
  by (induction env se sch ctx sets nv arbitrary: nv' rule: apply_sets.induct) (auto split: if_splits)

lemma enforce_rls_Inr: "enforce_rls_write so se dec sch vals = Inr u \<longleftrightarrow> rls_passes so se dec (ctx_row vals sch []) = Inr True"
  by (auto simp: enforce_rls_write_def split: if_splits)

lemma updated_row_Inr:
  assumes "updated_row env se sch targets checks wc wchk r ctx = Inr l" and "(vid, nv) \<in> set l"
    and "parse_checks env sch = Inr checks" and "rls_write env se sch PcUpdate = Inr wchk"
  shows "rv_vid r = vid \<and> length nv = length (rv_values r) \<and> check_no_conflict r (wc_snapshot wc) (wc_owner wc) \<and> row_valid env se sch PcUpdate nv"
  using assms by (auto simp: updated_row_def conflict_free_Inr enforce_rls_Inr row_valid_def dest: apply_sets_length)

lemma update_set_rows:
  assumes "update_set env se st sch table sets frm fil wc = Inr updates" and "(vid, nv) \<in> set updates"
  shows "\<exists>r\<in>set (store_rows st table). rv_vid r = vid \<and> may_touch env se sch PcUpdate wc r \<and> length nv = length (rv_values r) \<and> row_valid env se sch PcUpdate nv"
proof (cases frm)
  case None
  with assms(1) obtain targets checks dec wchk where d: "parse_checks env sch = Inr checks" "rls_write env se sch PcUpdate = Inr wchk"
      "rls_read env se sch PcUpdate = Inr dec"
      "collect_each (update_one env se sch targets checks fil wc dec wchk) (store_rows st table) = Inr updates"
    by (auto simp: update_set_def compute_updates_def)
  from collect_each_Inr [OF d(4) assms(2)] obtain r l where r: "r \<in> set (store_rows st table)"
      "update_one env se sch targets checks fil wc dec wchk r = Inr l" "(vid, nv) \<in> set l" .
  from r(2,3) have t: "target_row env se sch wc dec r = Inr True"
      "updated_row env se sch targets checks wc wchk r (ctx_row (rv_values r) sch (wc_params wc)) = Inr l"
    by (auto simp: update_one_def Let_def split: if_splits)
  from updated_row_Inr [OF t(2) r(3) d(1,2)] t(1) d(3) show ?thesis
    by (intro bexI [OF _ r(1)]) (simp add: may_touch_def target_row_Inr)
next
  case (Some u)
  with assms(1) obtain targets checks cols rows dec wchk where d: "parse_checks env sch = Inr checks" "rls_write env se sch PcUpdate = Inr wchk"
      "rls_read env se sch PcUpdate = Inr dec"
      "collect_each (update_one_join env se sch targets checks fil wc cols rows dec wchk) (store_rows st table) = Inr updates"
    by (auto simp: update_set_def compute_updates_join_def)
  from collect_each_Inr [OF d(4) assms(2)] obtain r l where r: "r \<in> set (store_rows st table)"
      "update_one_join env se sch targets checks fil wc cols rows dec wchk r = Inr l" "(vid, nv) \<in> set l" .
  from r(2,3) obtain ctx where t: "target_row env se sch wc dec r = Inr True"
      "updated_row env se sch targets checks wc wchk r ctx = Inr l"
    by (auto simp: update_one_join_def split: if_splits option.splits)
  from updated_row_Inr [OF t(2) r(3) d(1,2)] t(1) d(3) show ?thesis
    by (intro bexI [OF _ r(1)]) (simp add: may_touch_def target_row_Inr)
qed

section \<open>The effect of the statements\<close>

lemma index_rows_keeps [simp]:
  "s_tables (index_rows vo table new st) = s_tables st" "s_committed_lsn (index_rows vo table new st) = s_committed_lsn st"
proof -
  have "s_tables (index_rows vo table new st) = s_tables st \<and> s_committed_lsn (index_rows vo table new st) = s_committed_lsn st"
    unfolding index_rows_def
    by (induction new arbitrary: st) (auto simp: index_row_inserted_def split: option.splits)
  then show "s_tables (index_rows vo table new st) = s_tables st" "s_committed_lsn (index_rows vo table new st) = s_committed_lsn st"
    by simp_all
qed

text \<open>The store after a statement that superseded \<open>V\<close> and appended \<open>vss\<close>, indexes aside.\<close>

definition wrote :: "string \<Rightarrow> nat \<Rightarrow> nat set \<Rightarrow> sql_value list list \<Rightarrow> ('x, 'q) store \<Rightarrow> ('x, 'q) store \<Rightarrow> bool" where
  "wrote table me V vss st st' \<longleftrightarrow> s_committed_lsn st' = s_committed_lsn st \<and>
     (case get_table st table of None \<Rightarrow> s_tables st' = s_tables st
      | Some t \<Rightarrow> s_tables st' = s_tables (put_table table (written me V vss t) st))"

lemma wrote_refl: "wrote table me {} [] st st"
  by (auto simp: wrote_def put_table_triv split: option.splits)

lemma finish_mutation_store: "finish_mutation env se sch returning wc affected n stw = (res, st') \<Longrightarrow>
    st' = fst stw \<and> (\<forall>m. res = Inr m \<longrightarrow> mu_wal m = snd stw \<and> mu_changes m = int n)"
  by (auto simp: finish_mutation_def split: sum.splits)

lemma vids_in_range:
  assumes "store_ok st" and "get_table st table = Some t" and "\<And>u. u \<in> set us \<Longrightarrow> \<exists>r\<in>set (store_rows st table). rv_vid r = fst u"
  shows "fst ` set us \<subseteq> {..<t_next_vid t}"
proof
  fix v assume "v \<in> fst ` set us"
  then obtain u where "u \<in> set us" "v = fst u" by blast
  with assms(3) obtain r where "r \<in> set (store_rows st table)" "rv_vid r = v" by metis
  with store_okD [OF assms(1,2)] assms(2) show "v \<in> {..<t_next_vid t}"
    by (auto simp: table_ok_def store_rows_def)
qed

lemma run_delete_effect:
  assumes "run_delete env se table frm fil returning wc st = (res, st')" and "get_table st table = Some t"
    and "store_ok st" and "wc_owner wc \<noteq> 0"
  obtains (fails) e where "res = Inl e" and "st' = st"
  | (runs) victims where "delete_set env se st (t_schema t) table frm fil wc = Inr victims"
      and "wrote table (wc_owner wc) (fst ` set victims) [] st st'"
      and "\<And>m. res = Inr m \<Longrightarrow> mu_wal m = map (Delete table) (map fst victims) \<and> mu_changes m = int (length victims)"
proof (cases "delete_set env se st (t_schema t) table frm fil wc")
  case (Inl e)
  with assms(1,2) show thesis by (intro fails [of e]) (simp_all add: run_delete_def delete_set_def Let_def)
next
  case (Inr victims)
  have "set (map fst victims) \<subseteq> {..<t_next_vid t}"
    using vids_in_range [OF assms(3,2), of victims] delete_set_rows [OF Inr] by force
  from supersede_all_effect [OF assms(2) store_okD [OF assms(3,2)] assms(4) this, of "[]"] assms(1,2) Inr
  have "finish_mutation env se (t_schema t) returning wc (map snd victims) (length victims)
      (put_table table (written (wc_owner wc) (fst ` set victims) [] t) st, map (Delete table) (map fst victims)) = (res, st')"
    by (simp add: run_delete_def delete_set_def Let_def)
  from finish_mutation_store [OF this] show thesis
    by (intro runs [OF Inr]) (auto simp: wrote_def assms(2))
qed

lemma run_update_effect:
  assumes "run_update env se table sets frm fil returning wc st = (res, st')" and "get_table st table = Some t"
    and "store_ok st" and "wc_owner wc \<noteq> 0"
  obtains (fails) e where "res = Inl e" and "st' = st"
  | (runs) updates where "update_set env se st (t_schema t) table sets frm fil wc = Inr updates"
      and "check_update_uniques (xe_so env) st (t_schema t) table updates (wc_owner wc) = Inr ()"
      and "wrote table (wc_owner wc) (fst ` set updates) (map snd updates) st st'"
      and "\<And>m. res = Inr m \<Longrightarrow> mu_wal m = replace_log table (t_next_vid t) updates \<and> mu_changes m = int (length updates)"
proof (cases "res_bind (update_set env se st (t_schema t) table sets frm fil wc) (\<lambda>updates.
    res_bind (check_update_uniques (xe_so env) st (t_schema t) table updates (wc_owner wc)) (\<lambda>_. Inr updates))")
  case (Inl e)
  with assms(1,2) show thesis by (intro fails [of e]) (simp_all add: run_update_def update_set_def Let_def)
next
  case (Inr updates)
  then have u: "update_set env se st (t_schema t) table sets frm fil wc = Inr updates"
      "check_update_uniques (xe_so env) st (t_schema t) table updates (wc_owner wc) = Inr ()" by auto
  have "fst ` set updates \<subseteq> {..<t_next_vid t}"
    using vids_in_range [OF assms(3,2), of updates] update_set_rows [OF u(1)] by force
  note eff = replace_all_effect [OF assms(2) store_okD [OF assms(3,2)] assms(4) this, of "[]"]
  have "apply_updates env se (t_schema t) table updates returning wc st = (res, st')"
    using assms(1,2) Inr by (simp add: run_update_def update_set_def Let_def)
  then have "\<exists>new. finish_mutation env se (t_schema t) returning wc (map snd updates) (length updates)
      (if table_has_index (xe_vo env) st table then index_rows (xe_vo env) table new (put_table table (written (wc_owner wc) (fst ` set updates) (map snd updates) t) st)
       else put_table table (written (wc_owner wc) (fst ` set updates) (map snd updates) t) st, replace_log table (t_next_vid t) updates) = (res, st')"
    by (auto simp: apply_updates_def eff Let_def)
  then obtain new where "finish_mutation env se (t_schema t) returning wc (map snd updates) (length updates)
      (if table_has_index (xe_vo env) st table then index_rows (xe_vo env) table new (put_table table (written (wc_owner wc) (fst ` set updates) (map snd updates) t) st)
       else put_table table (written (wc_owner wc) (fst ` set updates) (map snd updates) t) st, replace_log table (t_next_vid t) updates) = (res, st')" ..
  from finish_mutation_store [OF this] show thesis
    by (intro runs [OF u]) (auto simp: wrote_def assms(2))
qed

text \<open>Checked keys are free.\<close>

lemma pk_index_rows_spec:
  assumes "pk_index_rows so pk c me rows (m, s) = Inr (m', s')"
  shows "(\<forall>r\<in>set rows. visible_to_writer r c me \<longrightarrow> (\<exists>k. composite_key so (rv_values r) pk = Inr k \<and> k \<in> dom m')) \<and>
    (\<forall>r\<in>set rows. \<not> visible_to_writer r c me \<longrightarrow> pending_elsewhere me r \<longrightarrow> (\<exists>k. composite_key so (rv_values r) pk = Inr k \<and> k \<in> s')) \<and>
    (\<forall>k v. m' k = Some v \<longrightarrow> m k = Some v \<or> (\<exists>r\<in>set rows. visible_to_writer r c me \<and> composite_key so (rv_values r) pk = Inr k \<and> rv_vid r = v)) \<and>
    dom m \<subseteq> dom m' \<and> s \<subseteq> s'"
  using assms
proof (induction rows arbitrary: m s)
  case (Cons r rows)
  consider "visible_to_writer r c me" | "\<not> visible_to_writer r c me" "pending_elsewhere me r"
    | "\<not> visible_to_writer r c me" "\<not> pending_elsewhere me r" by blast
  then show ?case
  proof cases
    case 1
    with Cons.prems obtain k where k: "composite_key so (rv_values r) pk = Inr k"
        "pk_index_rows so pk c me rows (m(k \<mapsto> rv_vid r), s) = Inr (m', s')" by auto
    note IH = Cons.IH [OF k(2)]
    then have "dom (m(k \<mapsto> rv_vid r)) \<subseteq> dom m'" by blast
    then have "insert k (dom m) \<subseteq> dom m'" by (simp only: dom_fun_upd option.distinct if_False)
    then have d: "k \<in> dom m'" "dom m \<subseteq> dom m'" by blast+
    have "m k' = Some v \<or> (\<exists>r'\<in>set (r # rows). visible_to_writer r' c me \<and> composite_key so (rv_values r') pk = Inr k' \<and> rv_vid r' = v)"
      if "m' k' = Some v" for k' v
    proof -
      have "(m(k \<mapsto> rv_vid r)) k' = Some v \<or> (\<exists>r\<in>set rows. visible_to_writer r c me \<and> composite_key so (rv_values r) pk = Inr k' \<and> rv_vid r = v)"
        using IH that by blast
      then show ?thesis using k(1) 1 by (cases "k' = k") auto
    qed
    with IH d k(1) 1 show ?thesis by (simp only: set_simps ball_simps simp_thms) blast
  next
    case 2
    with Cons.prems obtain k where k: "composite_key so (rv_values r) pk = Inr k"
        "pk_index_rows so pk c me rows (m, insert k s) = Inr (m', s')" by auto
    from Cons.IH [OF k(2)] k(1) 2 show ?thesis by auto
  next
    case 3
    with Cons.prems have "pk_index_rows so pk c me rows (m, s) = Inr (m', s')" by simp
    from Cons.IH [OF this] 3 show ?thesis by auto
  qed
qed simp

lemma pending_elsewhere_invisible: "pending_elsewhere me r \<Longrightarrow> \<not> visible_to_writer r c me"
  by (simp add: pending_elsewhere_def visible_to_writer_def)

lemma claim_keys_Inr:
  assumes "claim_keys so pk pending taken vss = Inr u"
  shows "distinct_keys so pk vss \<and> (\<forall>v\<in>set vss. \<forall>k. composite_key so v pk = Inr k \<longrightarrow> k \<notin> pending \<and> k \<notin> taken)"
  using assms
proof (induction vss arbitrary: taken)
  case (Cons v vss)
  then obtain k where k: "composite_key so v pk = Inr k" "k \<notin> pending" "k \<notin> taken" "claim_keys so pk pending (insert k taken) vss = Inr u"
    by (auto split: if_splits)
  note IH = Cons.IH [OF k(4)]
  have "distinct_keys so pk (v # vss)"
    unfolding distinct_keys_def
  proof (intro allI impI)
    fix i j k'
    assume ij: "i < length (v # vss)" "j < length (v # vss)" "composite_key so ((v # vss) ! i) pk = Inr k'" "composite_key so ((v # vss) ! j) pk = Inr k'"
    have "k' \<noteq> k" if "n < length vss" "composite_key so (vss ! n) pk = Inr k'" for n
      using IH that by (metis insertI1 nth_mem)
    with ij k(1) IH show "i = j" by (cases i; cases j) (auto simp: distinct_keys_def)
  qed
  with IH k show ?case by auto
qed (simp add: distinct_keys_def)

lemma update_keys_free:
  assumes "check_update_uniques so st sch table updates me = Inr u" and "primary_key_indices sch \<noteq> []"
  shows "distinct_keys so (primary_key_indices sch) (map snd updates) \<and>
    (\<forall>v\<in>snd ` set updates. \<forall>r\<in>set (store_rows st table). rv_vid r \<notin> fst ` set updates \<longrightarrow>
       free_key so (primary_key_indices sch) (s_committed_lsn st) me v r)"
proof -
  let ?pk = "primary_key_indices sch" and ?rows = "filter (\<lambda>r. rv_vid r \<notin> set (map fst updates)) (store_rows st table)"
  obtain m s where p: "pk_index_rows so ?pk (s_committed_lsn st) me ?rows (Map.empty, {}) = Inr (m, s)"
      "claim_keys so ?pk s (dom m) (map snd updates) = Inr ()"
    using assms by (auto simp: check_update_uniques_def pk_keys_def Let_def)
  note spec = pk_index_rows_spec [OF p(1)] and claims = claim_keys_Inr [OF p(2)]
  have "free_key so ?pk (s_committed_lsn st) me v r"
    if "v \<in> snd ` set updates" "r \<in> set (store_rows st table)" "rv_vid r \<notin> fst ` set updates" for v r
    unfolding free_key_def
  proof (intro allI impI)
    fix k assume k: "composite_key so v ?pk = Inr k" "composite_key so (rv_values r) ?pk = Inr k"
    have "r \<in> set ?rows" using that by simp
    with spec k(2) pending_elsewhere_invisible [of me r] claims k(1) that(1)
    show "\<not> visible_to_writer r (s_committed_lsn st) me \<and> \<not> pending_elsewhere me r"
      by (metis image_set sum.inject(2))
  qed
  with claims show ?thesis by blast
qed

section \<open>The keyed insert loop\<close>

text \<open>The loop's index: every live row of the table under its key, every key another writer inserts.\<close>

definition live_index :: "scalar_ops \<Rightarrow> nat list \<Rightarrow> nat \<Rightarrow> nat \<Rightarrow> row_version list \<Rightarrow> (string \<rightharpoonup> nat) \<Rightarrow> string set \<Rightarrow> bool" where
  "live_index so pk c me rows live pending \<longleftrightarrow>
     (\<forall>r\<in>set rows. \<forall>k. visible_to_writer r c me \<longrightarrow> composite_key so (rv_values r) pk = Inr k \<longrightarrow> live k = Some (rv_vid r)) \<and>
     (\<forall>r\<in>set rows. \<forall>k. pending_elsewhere me r \<longrightarrow> composite_key so (rv_values r) pk = Inr k \<longrightarrow> k \<in> pending) \<and>
     (\<forall>k v. live k = Some v \<longrightarrow> (\<exists>r\<in>set rows. rv_vid r = v \<and> visible_to_writer r c me \<and> composite_key so (rv_values r) pk = Inr k))"

lemma live_indexD:
  assumes "live_index so pk c me rows live pending"
  shows "r \<in> set rows \<Longrightarrow> visible_to_writer r c me \<Longrightarrow> composite_key so (rv_values r) pk = Inr k \<Longrightarrow> live k = Some (rv_vid r)"
    and "r \<in> set rows \<Longrightarrow> pending_elsewhere me r \<Longrightarrow> composite_key so (rv_values r) pk = Inr k \<Longrightarrow> k \<in> pending"
    and "live k = Some v \<Longrightarrow> \<exists>r\<in>set rows. rv_vid r = v \<and> visible_to_writer r c me \<and> composite_key so (rv_values r) pk = Inr k"
  using assms unfolding live_index_def by blast+

lemma version_eq: "table_ok c t \<Longrightarrow> r \<in> set (t_rows t) \<Longrightarrow> r' \<in> set (t_rows t) \<Longrightarrow> rv_vid r = rv_vid r' \<Longrightarrow> r = r'"
  by (auto simp: table_ok_def distinct_map inj_on_def)

lemma visible_same_key:
  assumes "table_ok c t" and "c < PENDING" and "keys_apart so pk (t_rows t)" and "r1 \<in> set (t_rows t)" and "r2 \<in> set (t_rows t)"
    and "visible_to_writer r1 c me" and "visible_to_writer r2 c me" and "same_key so pk r1 r2"
  shows "rv_vid r1 = rv_vid r2"
proof (rule ccontr)
  assume "rv_vid r1 \<noteq> rv_vid r2"
  with keys_apartD [OF assms(3-5)] assms(8) have "apart r1 r2" by blast
  moreover have "row_ok c r1" "row_ok c r2" using assms(1,4,5) by (auto simp: table_ok_def list_all_iff)
  ultimately show False using live_not_apart [of me r1 r2 c] visible_live [of c _ me] assms(2,6,7) by blast
qed

lemma live_index_start:
  assumes "pk_index so st table pk me = Inr (live, pending)" and "get_table st table = Some t" and "store_ok st"
    and "keys_apart so pk (t_rows t)"
  shows "live_index so pk (s_committed_lsn st) me (t_rows t) live pending"
proof -
  let ?c = "s_committed_lsn st"
  have c: "table_ok ?c t" "?c < PENDING" using store_okD [OF assms(3,2)] assms(3) by (simp_all add: store_ok_def)
  have "pk_index_rows so pk ?c me (t_rows t) (Map.empty, {}) = Inr (live, pending)"
    using assms(1,2) by (simp add: pk_index_def store_rows_def)
  note spec = pk_index_rows_spec [OF this]
  have "live k = Some (rv_vid r)" if h: "r \<in> set (t_rows t)" "visible_to_writer r ?c me" "composite_key so (rv_values r) pk = Inr k" for r k
  proof -
    obtain v where v: "live k = Some v" using spec h by fastforce
    with spec obtain r' where "r' \<in> set (t_rows t)" "visible_to_writer r' ?c me" "composite_key so (rv_values r') pk = Inr k" "rv_vid r' = v"
      by fastforce
    with visible_same_key [OF c assms(4) h(1), of r' me] h v show ?thesis by (auto simp: same_key_def)
  qed
  moreover have "k \<in> pending" if "r \<in> set (t_rows t)" "pending_elsewhere me r" "composite_key so (rv_values r) pk = Inr k" for r k
    using spec that pending_elsewhere_invisible [of me r ?c] by fastforce
  moreover have "\<exists>r\<in>set (t_rows t). rv_vid r = v \<and> visible_to_writer r ?c me \<and> composite_key so (rv_values r) pk = Inr k" if "live k = Some v" for k v
    using spec that by fastforce
  ultimately show ?thesis by (auto simp: live_index_def)
qed

lemma marked_invisible: "\<not> visible_to_writer (mark_deleted me r) c me" "\<not> pending_elsewhere me (mark_deleted me r)"
  by (simp_all add: visible_to_writer_def mark_deleted_def pending_elsewhere_def)

text \<open>Writing a row whose key is free, or replacing the row that has it.\<close>

lemma live_index_written:
  assumes "live_index so pk c me (t_rows t) live pending" and "composite_key so v pk = Inr k"
    and "c < PENDING" and "table_ok c t"
  shows "live_index so pk c me (t_rows (written me (set_option (live k)) [v] t)) (live(k \<mapsto> t_next_vid t)) pending"
proof -
  let ?V = "set_option (live k)" and ?new = "\<lparr>rv_vid = t_next_vid t, rv_values = v, rv_create_lsn = PENDING, rv_delete_lsn = 0, rv_owner = me\<rparr>"
  have rows: "r \<in> set (t_rows (written me ?V [v] t)) \<longleftrightarrow>
      r = ?new \<or> (\<exists>r0\<in>set (t_rows t). r = (if rv_vid r0 \<in> ?V then mark_deleted me r0 else r0))" for r
    by (auto simp: pending_rows_Cons marked_def)
  have new: "visible_to_writer ?new c me" "\<not> pending_elsewhere me ?new"
    by (simp_all add: visible_to_writer_def pending_elsewhere_def)
  have "(live(k \<mapsto> t_next_vid t)) k' = Some (rv_vid r)"
    if h: "r \<in> set (t_rows (written me ?V [v] t))" "visible_to_writer r c me" "composite_key so (rv_values r) pk = Inr k'" for r k'
  proof (cases "r = ?new")
    case False
    with h(1) rows [of r] obtain r0 where "r0 \<in> set (t_rows t)" "r = (if rv_vid r0 \<in> ?V then mark_deleted me r0 else r0)" by blast
    with h(2) marked_invisible(1) have r: "r \<in> set (t_rows t)" "rv_vid r \<notin> ?V" by (metis, metis)
    from live_indexD(1) [OF assms(1) r(1) h(2,3)] have "live k' = Some (rv_vid r)" .
    with r(2) show ?thesis by (cases "k' = k") auto
  qed (use h assms(2) in simp)
  moreover have "k' \<in> pending"
    if h: "r \<in> set (t_rows (written me ?V [v] t))" "pending_elsewhere me r" "composite_key so (rv_values r) pk = Inr k'" for r k'
  proof -
    have "r \<in> set (t_rows t)" using h(1,2) rows [of r] new(2) marked_invisible(2) by metis
    from live_indexD(2) [OF assms(1) this h(2,3)] show ?thesis .
  qed
  moreover have "\<exists>r\<in>set (t_rows (written me ?V [v] t)). rv_vid r = u \<and> visible_to_writer r c me \<and> composite_key so (rv_values r) pk = Inr k'"
    if h: "(live(k \<mapsto> t_next_vid t)) k' = Some u" for k' u
  proof (cases "k' = k")
    case True
    then have "u = t_next_vid t" "composite_key so (rv_values ?new) pk = Inr k'" using h assms(2) by simp_all
    with new(1) rows show ?thesis by (intro bexI [of _ ?new]) simp_all
  next
    case False
    with h have "live k' = Some u" by simp
    from live_indexD(3) [OF assms(1) this] obtain r where r: "r \<in> set (t_rows t)" "rv_vid r = u" "visible_to_writer r c me" "composite_key so (rv_values r) pk = Inr k'"
      by blast
    have "rv_vid r \<notin> ?V"
    proof
      assume "rv_vid r \<in> ?V"
      then have "live k = Some (rv_vid r)" by (simp add: elem_set)
      from live_indexD(3) [OF assms(1) this] obtain r0 where "r0 \<in> set (t_rows t)" "rv_vid r0 = rv_vid r" "composite_key so (rv_values r0) pk = Inr k"
        by blast
      with version_eq [OF assms(4), of r0 r] r(1,4) False show False by simp
    qed
    with r rows [of r] show ?thesis by auto
  qed
  ultimately show ?thesis unfolding live_index_def by blast
qed

lemma keys_apart_keyed:
  assumes "live_index so pk c me (t_rows t) live pending" and "composite_key so v pk = Inr k" and "k \<notin> pending"
    and "c < PENDING" and "table_ok c t" and "keys_apart so pk (t_rows t)"
  shows "keys_apart so pk (t_rows (written me (set_option (live k)) [v] t))"
proof (rule keys_apart_written [OF assms(5,4,6)])
  fix r assume r: "r \<in> set (t_rows t)" "rv_vid r \<in> set_option (live k)"
  then have "live k = Some (rv_vid r)" by (simp add: elem_set)
  from live_indexD(3) [OF assms(1) this] obtain r0 where r0: "r0 \<in> set (t_rows t)" "rv_vid r0 = rv_vid r" "visible_to_writer r0 c me" "composite_key so (rv_values r0) pk = Inr k"
    by blast
  with version_eq [OF assms(5) _ r(1), of r0] have "r0 = r" by simp
  moreover have "row_ok c r" using assms(5) r(1) by (auto simp: table_ok_def list_all_iff)
  ultimately show "live_for me r \<and> (rv_delete_lsn r = 0 \<or> (\<forall>r2\<in>set (t_rows t). same_key so pk r r2 \<longrightarrow> \<not> pending_elsewhere me r2))"
    using r0 visible_live [of c r me] live_indexD(2) [OF assms(1)] assms(3) by (auto simp: same_key_def)
next
  fix v' r assume "v' \<in> set [v]" "r \<in> set (t_rows t)" "rv_vid r \<notin> set_option (live k)"
  with live_indexD(1,2) [OF assms(1), of r k] assms(2,3) show "free_key so pk c me v' r" by (auto simp: free_key_def)
qed (simp add: distinct_keys_def)

lemma apply_insert_row_effect:
  assumes "get_table st table = Some t" and "table_ok c t" and "wc_owner wc \<noteq> 0"
    and "\<And>u. clash = Some u \<Longrightarrow> u < t_next_vid t" and "\<nexists>sets fil. oc = OcUpdate sets fil"
    and "apply_insert_row env se sch table wc vals clash oc (st, wal) = (res, st', wal')"
  shows "(st' = st \<and> (\<forall>x. res = Inr x \<longrightarrow> x = None)) \<or>
    (res = Inr (Some vals) \<and> st' = put_table table (written (wc_owner wc) (set_option clash) [vals] t) st)"
proof (cases clash)
  case None
  with assms(1,6) show ?thesis by (auto simp: apply_insert_row_def do_append_effect)
next
  case (Some u)
  with assms(4) have "u < t_next_vid t" by simp
  from replace_version_effect [OF assms(1-3) this] Some assms(5,6) show ?thesis
    by (cases oc) (auto simp: apply_insert_row_def)
qed

lemma last_vid_written:
  "get_table st table = Some t0 \<Longrightarrow> last_vid table (put_table table (written me V [v] t) st) = Inr (t_next_vid t)"
  by (simp add: last_vid_def pending_rows_Cons)

text \<open>What the loop leaves behind, whether it fails or not: keys apart, and only staged rows added.\<close>

definition added_only :: "sql_value list set \<Rightarrow> row_version list \<Rightarrow> row_version list \<Rightarrow> bool" where
  "added_only A rows rows' \<longleftrightarrow> (\<forall>r'\<in>set rows'. rv_values r' \<in> A \<or> (\<exists>r\<in>set rows. rv_vid r = rv_vid r' \<and> rv_values r = rv_values r'))"

lemma added_only_trans: "added_only A rows rows' \<Longrightarrow> added_only A rows' rows'' \<Longrightarrow> added_only A rows rows''"
  unfolding added_only_def by metis

lemma added_only_written: "set vss \<subseteq> A \<Longrightarrow> added_only A (t_rows t) (t_rows (written me V vss t))"
proof -
  assume "set vss \<subseteq> A"
  then have "vss ! i \<in> A" if "i < length vss" for i using that nth_mem by blast
  then show ?thesis by (auto simp: added_only_def marked_def mark_deleted_def set_pending_rows)
qed

lemma added_only_mono: "added_only A rows rows' \<Longrightarrow> A \<subseteq> B \<Longrightarrow> added_only B rows rows'"
  unfolding added_only_def by blast

definition kept_apart :: "scalar_ops \<Rightarrow> string \<Rightarrow> sql_value list set \<Rightarrow> table \<Rightarrow> ('x, 'q) store \<Rightarrow> ('x, 'q) store \<Rightarrow> bool" where
  "kept_apart so table A t st st' \<longleftrightarrow> (\<exists>t'. st' = put_table table t' st \<and> table_ok (s_committed_lsn st) t' \<and> t_schema t' = t_schema t \<and>
     (primary_key_indices (t_schema t) \<noteq> [] \<longrightarrow> keys_apart so (primary_key_indices (t_schema t)) (t_rows t) \<longrightarrow> keys_apart so (primary_key_indices (t_schema t)) (t_rows t')) \<and>
     added_only A (t_rows t) (t_rows t'))"

lemma kept_apart_refl:
  assumes "get_table st table = Some t" and "store_ok st"
  shows "kept_apart so table A t st st"
  using assms store_okD [OF assms(2,1)] by (auto simp: kept_apart_def put_table_triv added_only_def intro!: exI [of _ t])

lemma kept_apart_step:
  assumes "kept_apart so table A t1 (put_table table t1 st) st'" and "get_table st table = Some t"
    and "t_schema t1 = t_schema t" and "added_only A (t_rows t) (t_rows t1)"
    and "primary_key_indices (t_schema t) \<noteq> [] \<Longrightarrow> keys_apart so (primary_key_indices (t_schema t)) (t_rows t) \<Longrightarrow>
      keys_apart so (primary_key_indices (t_schema t)) (t_rows t1)"
  shows "kept_apart so table A t st st'"
  using assms by (auto simp: kept_apart_def intro: added_only_trans)

lemma kept_apart_mono: "kept_apart so table A t st st' \<Longrightarrow> A \<subseteq> B \<Longrightarrow> kept_apart so table B t st st'"
  unfolding kept_apart_def using added_only_mono by blast

lemma insert_keyed_effect:
  assumes "insert_keyed env se (t_schema t) table wc oc pending staged live (st, wal) = (res, st', wal')"
    and "get_table st table = Some t" and "store_ok st" and "wc_owner wc \<noteq> 0" and "\<nexists>sets fil. oc = OcUpdate sets fil"
    and "live_index (xe_so env) (primary_key_indices (t_schema t)) (s_committed_lsn st) (wc_owner wc) (t_rows t) live pending"
    and "keys_apart (xe_so env) (primary_key_indices (t_schema t)) (t_rows t)"
  shows "kept_apart (xe_so env) table (set staged) t st st'"
  using assms
proof (induction staged arbitrary: live st wal t res)
  case Nil
  then show ?case by (simp add: kept_apart_refl)
next
  case (Cons vals staged)
  let ?so = "xe_so env" and ?sch = "t_schema t" and ?pk = "primary_key_indices (t_schema t)" and ?c = "s_committed_lsn st"
  have ok: "table_ok ?c t" "?c < PENDING" using store_okD [OF Cons.prems(3,2)] Cons.prems(3) by (simp_all add: store_ok_def)
  show ?case
  proof (cases "st' = st")
    case True
    with Cons.prems(2,3) show ?thesis by (simp add: kept_apart_refl)
  next
    case False
    then obtain k where k: "composite_key ?so vals ?pk = Inr k" "k \<notin> pending"
      using Cons.prems(1) by (auto split: sum.splits if_splits)
    obtain r1 st1 wal1 where a: "apply_insert_row env se ?sch table wc vals (live k) oc (st, wal) = (r1, st1, wal1)"
      by (cases "apply_insert_row env se ?sch table wc vals (live k) oc (st, wal)") auto
    have "u < t_next_vid t" if "live k = Some u" for u
      using live_indexD(3) [OF Cons.prems(6) that] ok(1) by (auto simp: table_ok_def)
    from apply_insert_row_effect [OF Cons.prems(2) ok(1) Cons.prems(4) this Cons.prems(5) a]
    consider "st1 = st" "\<forall>x. r1 = Inr x \<longrightarrow> x = None"
      | "r1 = Inr (Some vals)" "st1 = put_table table (written (wc_owner wc) (set_option (live k)) [vals] t) st" by blast
    then show ?thesis
    proof cases
      case 1
      then have "insert_keyed env se ?sch table wc oc pending staged live (st, wal1) = (res, st', wal') \<and> r1 = Inr None"
        using Cons.prems(1) k a False by (cases r1) auto
      then have "kept_apart ?so table (set staged) t st st'" using Cons.IH [OF _ Cons.prems(2-7)] by blast
      then show ?thesis by (rule kept_apart_mono) auto
    next
      case 2
      let ?t1 = "written (wc_owner wc) (set_option (live k)) [vals] t"
      have l: "last_vid table st1 = Inr (t_next_vid t)" using 2 Cons.prems(2) by (simp add: last_vid_written)
      obtain r2 where i: "insert_keyed env se ?sch table wc oc pending staged (live(k \<mapsto> t_next_vid t)) (st1, wal1) = (r2, st', wal')"
        using Cons.prems(1) k a 2 l by (auto split: prod.splits sum.splits)
      have t1: "table_ok ?c ?t1" using table_ok_written [OF ok(1) Cons.prems(4)] .
      have ap: "keys_apart ?so ?pk (t_rows ?t1)"
        by (rule keys_apart_keyed [OF Cons.prems(6) k ok(2,1) Cons.prems(7)])
      have "kept_apart ?so table (set staged) ?t1 st1 st'"
      proof (rule Cons.IH)
        show "insert_keyed env se (t_schema ?t1) table wc oc pending staged (live(k \<mapsto> t_next_vid t)) (st1, wal1) = (r2, st', wal')" using i by simp
        show "get_table st1 table = Some ?t1" using 2 Cons.prems(2) by simp
        show "store_ok st1" using 2 t1 Cons.prems(3) by (simp add: store_ok_put)
        show "live_index ?so (primary_key_indices (t_schema ?t1)) (s_committed_lsn st1) (wc_owner wc) (t_rows ?t1) (live(k \<mapsto> t_next_vid t)) pending"
          using live_index_written [OF Cons.prems(6) k(1) ok(2,1)] 2 by simp
      qed (use Cons.prems(4,5) ap in simp_all)
      then have "kept_apart ?so table (set (vals # staged)) ?t1 (put_table table ?t1 st) st'"
        using 2(2) by (auto intro: kept_apart_mono)
      then show ?thesis
        by (rule kept_apart_step [OF _ Cons.prems(2)]) (use ap in \<open>simp_all add: added_only_written del: written_simps(1)\<close>)
    qed
  qed
qed

lemma insert_rows_effect:
  assumes "insert_rows env se (t_schema t) table wc oc staged st = (res, st', wal')" and "get_table st table = Some t" and "store_ok st"
    and "wc_owner wc \<noteq> 0" and "\<nexists>sets fil. oc = OcUpdate sets fil"
    and "primary_key_indices (t_schema t) \<noteq> [] \<Longrightarrow> keys_apart (xe_so env) (primary_key_indices (t_schema t)) (t_rows t)"
  shows "kept_apart (xe_so env) table (set staged) t st st'"
proof (cases "primary_key_indices (t_schema t) = []")
  case True
  let ?t1 = "written (wc_owner wc) {} staged t"
  have "st' = put_table table ?t1 st"
    using True assms(1) insert_plain_effect [OF assms(2), of "wc_owner wc" staged "[]"] by (simp add: insert_rows_def)
  moreover have "table_ok (s_committed_lsn st) ?t1" using table_ok_written [OF store_okD [OF assms(3,2)] assms(4)] .
  ultimately show ?thesis
    using True added_only_written [of staged "set staged" t "wc_owner wc" "{}"]
    by (auto simp: kept_apart_def simp del: written_simps(1) intro!: exI [of _ ?t1])
next
  case False
  note ap = assms(6) [OF False]
  show ?thesis
  proof (cases "pk_index (xe_so env) st table (primary_key_indices (t_schema t)) (wc_owner wc)")
    case (Inl e)
    with False assms show ?thesis by (simp add: insert_rows_def kept_apart_refl)
  next
    case (Inr lp)
    obtain live pending where lp: "lp = (live, pending)" by fastforce
    have "insert_keyed env se (t_schema t) table wc oc pending staged live (st, []) = (res, st', wal')"
      using False assms(1) Inr lp by (simp add: insert_rows_def)
    from insert_keyed_effect [OF this assms(2-5) live_index_start [OF Inr [unfolded lp] assms(2,3) ap] ap] show ?thesis .
  qed
qed

section \<open>Statements keep keys apart and write only checked rows\<close>

lemma finalize_row_cells_length: "finalize_row_cells env se cs slot a = Inr (vs, a') \<Longrightarrow> length vs = length cs"
  by (induction env se cs slot a arbitrary: vs a' rule: finalize_row_cells.induct) auto

lemma finalize_slots_valid:
  "finalize_slots env se checks sch slots a = Inr (staged, a') \<Longrightarrow> v \<in> set staged \<Longrightarrow>
     validate_row env se checks sch v = Inr () \<and> length v = length (sch_columns sch)"
  by (induction env se checks sch slots a arbitrary: staged a' rule: finalize_slots.induct) (auto dest: finalize_row_cells_length)

text \<open>The rows a statement may add: validated, admitted by the policies, and as wide as the table.\<close>

fun stmt_table :: "('l, 'f) dml_stmt \<Rightarrow> string" where
  "stmt_table (DInsert table columns source oc returning) = table"
| "stmt_table (DUpdate table sets frm fil returning) = table"
| "stmt_table (DDelete table frm fil returning) = table"

fun upserts :: "('l, 'f) dml_stmt \<Rightarrow> bool" where
  "upserts (DInsert table columns source (OcUpdate sets fil) returning) = True"
| "upserts _ = False"

fun addable :: "('x, 'q, 'l, 'f) exec_env \<Rightarrow> session_context \<Rightarrow> table_schema \<Rightarrow> ('l, 'f) dml_stmt \<Rightarrow> sql_value list set" where
  "addable env se sch (DInsert table columns source oc returning) = {v. row_valid env se sch PcInsert v \<and> length v = length (sch_columns sch)}"
| "addable env se sch (DUpdate table sets frm fil returning) = {v. row_valid env se sch PcUpdate v}"
| "addable env se sch (DDelete table frm fil returning) = {}"

lemma kept_apart_wrote:
  assumes "wrote table me V vss st st'" and "get_table st table = Some t" and "store_ok st" and "me \<noteq> 0" and "set vss \<subseteq> A"
    and "primary_key_indices (t_schema t) \<noteq> [] \<Longrightarrow> keys_apart so (primary_key_indices (t_schema t)) (t_rows t) \<Longrightarrow>
      keys_apart so (primary_key_indices (t_schema t)) (t_rows (written me V vss t))"
  shows "\<exists>st2. s_tables st' = s_tables st2 \<and> s_committed_lsn st' = s_committed_lsn st \<and> kept_apart so table A t st st2"
proof (intro exI conjI)
  show "s_tables st' = s_tables (put_table table (written me V vss t) st)" "s_committed_lsn st' = s_committed_lsn st"
    using assms(1,2) by (simp_all add: wrote_def)
  show "kept_apart so table A t st (put_table table (written me V vss t) st)"
    using assms(6) table_ok_written [OF store_okD [OF assms(3,2)] assms(4)] added_only_written [OF assms(5)]
    by (auto simp: kept_apart_def simp del: written_simps(1) intro!: exI [of _ "written me V vss t"])
qed

lemma may_touch_live:
  assumes "may_touch env se sch cmd wc r" and "row_ok c r"
  shows "live_for (wc_owner wc) r \<and> rv_delete_lsn r = 0"
  using assms target_live [of c r "wc_snapshot wc" "wc_owner wc"] by (auto simp: may_touch_def)

lemma touched_live:
  assumes "store_ok st" and "get_table st table = Some t" and "r \<in> set (t_rows t)" and "rv_vid r \<in> fst ` set us"
    and "\<And>vid v. (vid, v) \<in> set us \<Longrightarrow> \<exists>r\<in>set (store_rows st table). rv_vid r = vid \<and> may_touch env se sch cmd wc r"
  shows "live_for (wc_owner wc) r \<and> rv_delete_lsn r = 0"
proof -
  obtain v where "(rv_vid r, v) \<in> set us" using assms(4) by fastforce
  from assms(5) [OF this] assms(2) obtain r0 where "r0 \<in> set (t_rows t)" "rv_vid r0 = rv_vid r" "may_touch env se sch cmd wc r0"
    by (auto simp: store_rows_def)
  moreover from this version_eq [OF store_okD [OF assms(1,2)] _ assms(3)] have "r0 = r" by blast
  moreover have "row_ok (s_committed_lsn st) r" using store_okD [OF assms(1,2)] assms(3) by (simp add: table_ok_def list_all_iff)
  ultimately show ?thesis using may_touch_live by blast
qed

text \<open>Every statement except an upsert, on success and on failure.\<close>

lemma run_insert_kept:
  assumes "run_insert env se table columns source oc returning wc st = (res, st')" and "get_table st table = Some t" and "store_ok st"
    and "wc_owner wc \<noteq> 0" and "\<nexists>sets fil. oc = OcUpdate sets fil"
    and "primary_key_indices (t_schema t) \<noteq> [] \<Longrightarrow> keys_apart (xe_so env) (primary_key_indices (t_schema t)) (t_rows t)"
  shows "\<exists>st2. s_tables st' = s_tables st2 \<and> s_committed_lsn st' = s_committed_lsn st \<and>
    kept_apart (xe_so env) table {v. row_valid env se (t_schema t) PcInsert v \<and> length v = length (sch_columns (t_schema t))} t st st2"
    (is "\<exists>st2. _ \<and> _ \<and> kept_apart _ _ ?A _ _ st2")
proof (cases "\<exists>a. st' = set_autoinc table a st \<or> st' = st")
  case True
  then obtain a where "st' = set_autoinc table a st \<or> st' = st" ..
  then show ?thesis
  proof
    assume "st' = set_autoinc table a st"
    then have "st' = put_table table (t\<lparr>t_next_autoinc := a\<rparr>) st" using assms(2) by (simp add: set_autoinc_def table_mut_put)
    moreover have "table_ok (s_committed_lsn st) (t\<lparr>t_next_autoinc := a\<rparr>)" using store_okD [OF assms(3,2)] by (simp add: table_ok_def)
    ultimately show ?thesis
      by (intro exI [of _ st']) (auto simp: kept_apart_def added_only_def intro!: exI [of _ "t\<lparr>t_next_autoinc := a\<rparr>"])
  qed (use kept_apart_refl [OF assms(2,3)] in blast)
next
  case False
  let ?sch = "t_schema t" and ?so = "xe_so env"
  obtain slots where "build_insert_slots env se st ?sch columns source wc = Inr slots"
    using assms(1,2) False by (auto simp: run_insert_def Let_def split: sum.splits)
  moreover obtain checks staged a where f: "parse_checks env ?sch = Inr checks"
      "finalize_slots env se checks ?sch slots (t_next_autoinc t) = Inr (staged, a)"
    using assms(1,2) False calculation by (auto simp: run_insert_def finalize_insert_rows_def Let_def split: sum.splits prod.splits)
  ultimately obtain dec where d: "rls_write env se ?sch PcInsert = Inr dec"
      "check_each (enforce_rls_write ?so se dec ?sch) staged = Inr ()"
      "apply_insert env se ?sch table staged oc returning wc (set_autoinc table a st) = (res, st')"
    using assms(1,2) False by (auto simp: run_insert_def finalize_insert_rows_def Let_def split: sum.splits prod.splits)
  let ?t1 = "t\<lparr>t_next_autoinc := a\<rparr>" and ?st1 = "set_autoinc table a st"
  have st1: "?st1 = put_table table ?t1 st" using assms(2) by (simp add: set_autoinc_def table_mut_put)
  have g: "get_table ?st1 table = Some ?t1" using st1 assms(2) by simp
  have ok: "store_ok ?st1" using st1 store_okD [OF assms(3,2)] assms(3) by (simp add: store_ok_put table_ok_def)
  obtain r2 st2 wal where i: "insert_rows env se (t_schema ?t1) table wc oc staged ?st1 = (r2, st2, wal)"
    by (cases "insert_rows env se (t_schema ?t1) table wc oc staged ?st1") auto
  have "kept_apart ?so table (set staged) ?t1 ?st1 st2"
    by (rule insert_rows_effect [OF i g ok assms(4,5)]) (use assms(6) in simp)
  moreover have "set staged \<subseteq> ?A"
    using finalize_slots_valid [OF f(2)] d(1,2) f(1) by (auto simp: row_valid_def check_each_Inr enforce_rls_Inr)
  ultimately have "kept_apart ?so table ?A ?t1 (put_table table ?t1 st) st2"
    using st1 by (auto intro: kept_apart_mono)
  then have "kept_apart ?so table ?A t st st2"
    by (rule kept_apart_step [OF _ assms(2)]) (auto simp: added_only_def)
  moreover have "s_tables st' = s_tables st2 \<and> s_committed_lsn st' = s_committed_lsn st2"
    using d(3) i by (auto simp: apply_insert_def Let_def split: sum.splits dest!: finish_mutation_store)
  moreover have "s_committed_lsn st2 = s_committed_lsn st" using calculation(1) by (auto simp: kept_apart_def)
  ultimately show ?thesis by auto
qed

lemma run_dml_kept:
  assumes "run_dml env se stmt wc st = (res, st')" and "get_table st (stmt_table stmt) = Some t" and "store_ok st"
    and "wc_owner wc \<noteq> 0" and "\<not> upserts stmt"
    and "primary_key_indices (t_schema t) \<noteq> [] \<Longrightarrow> keys_apart (xe_so env) (primary_key_indices (t_schema t)) (t_rows t)"
  shows "\<exists>st2. s_tables st' = s_tables st2 \<and> s_committed_lsn st' = s_committed_lsn st \<and>
    kept_apart (xe_so env) (stmt_table stmt) (addable env se (t_schema t) stmt) t st st2"
proof (cases stmt)
  case (DInsert table columns source oc returning)
  have "\<nexists>sets fil. oc = OcUpdate sets fil" using assms(5) DInsert by (cases oc) auto
  with run_insert_kept [OF _ _ assms(3,4), of env se table columns source oc returning res st' t] assms(1,2,6) DInsert show ?thesis by simp
next
  case (DUpdate table sets frm fil returning)
  let ?pk = "primary_key_indices (t_schema t)"
  have g: "get_table st table = Some t" and u: "run_update env se table sets frm fil returning wc st = (res, st')"
    using assms(1,2) DUpdate by simp_all
  from u g assms(3,4) show ?thesis
  proof (cases rule: run_update_effect)
    case fails
    then show ?thesis using kept_apart_refl [OF assms(2,3)] by blast
  next
    case (runs updates)
    have "keys_apart (xe_so env) ?pk (t_rows (written (wc_owner wc) (fst ` set updates) (map snd updates) t))"
      if "?pk \<noteq> []" "keys_apart (xe_so env) ?pk (t_rows t)"
    proof (rule keys_apart_written [OF store_okD [OF assms(3) g] _ that(2)])
      show "s_committed_lsn st < PENDING" using assms(3) by (simp add: store_ok_def)
      show "distinct_keys (xe_so env) ?pk (map snd updates)" using update_keys_free [OF runs(2) that(1)] by blast
      show "free_key (xe_so env) ?pk (s_committed_lsn st) (wc_owner wc) v r"
        if "v \<in> set (map snd updates)" "r \<in> set (t_rows t)" "rv_vid r \<notin> fst ` set updates" for v r
        using update_keys_free [OF runs(2) \<open>?pk \<noteq> []\<close>] that g by (auto simp: store_rows_def)
      show "live_for (wc_owner wc) r \<and> (rv_delete_lsn r = 0 \<or> (\<forall>r2\<in>set (t_rows t). same_key (xe_so env) ?pk r r2 \<longrightarrow> \<not> pending_elsewhere (wc_owner wc) r2))"
        if "r \<in> set (t_rows t)" "rv_vid r \<in> fst ` set updates" for r
        using touched_live [OF assms(3) g that] update_set_rows [OF runs(1)] by meson
    qed
    moreover have "set (map snd updates) \<subseteq> addable env se (t_schema t) stmt"
      using update_set_rows [OF runs(1)] DUpdate by fastforce
    ultimately show ?thesis
      using kept_apart_wrote [OF runs(3) g assms(3,4)] DUpdate by auto
  qed
next
  case (DDelete table frm fil returning)
  let ?pk = "primary_key_indices (t_schema t)"
  have g: "get_table st table = Some t" and u: "run_delete env se table frm fil returning wc st = (res, st')"
    using assms(1,2) DDelete by simp_all
  from u g assms(3,4) show ?thesis
  proof (cases rule: run_delete_effect)
    case fails
    then show ?thesis using kept_apart_refl [OF assms(2,3)] by blast
  next
    case (runs victims)
    have "keys_apart (xe_so env) ?pk (t_rows (written (wc_owner wc) (fst ` set victims) [] t))"
      if "keys_apart (xe_so env) ?pk (t_rows t)"
    proof (rule keys_apart_written [OF store_okD [OF assms(3) g] _ that])
      show "s_committed_lsn st < PENDING" using assms(3) by (simp add: store_ok_def)
      show "live_for (wc_owner wc) r \<and> (rv_delete_lsn r = 0 \<or> (\<forall>r2\<in>set (t_rows t). same_key (xe_so env) ?pk r r2 \<longrightarrow> \<not> pending_elsewhere (wc_owner wc) r2))"
        if "r \<in> set (t_rows t)" "rv_vid r \<in> fst ` set victims" for r
        using touched_live [OF assms(3) g that] delete_set_rows [OF runs(1)] by meson
    qed (simp_all add: distinct_keys_def)
    then show ?thesis
      using kept_apart_wrote [OF runs(2) g assms(3,4)] DDelete by auto
  qed
qed

end
