(* ===== verification/Dml_Safety.thy ===== *)
theory Dml_Safety
  imports Dml_Correct
begin

text \<open>
  The guarantees of the write statements: primary keys stay unique over concurrent
  transactions, every written row was validated, row-level security confines updates and
  deletes, and a statement that succeeds logs what it did.  The last section shows a statement
  that fails but leaves a row behind, and an upsert that duplicates a key.
\<close>

section \<open>Primary keys over concurrent transactions\<close>

text \<open>Statements of any number of writers in any order, failing ones included, with their commits and
  rollbacks.\<close>

inductive dml_step :: "('x, 'q, 'l, 'f) exec_env \<Rightarrow> ('x, 'q) store \<Rightarrow> ('x, 'q) store \<Rightarrow> bool" for env where
  step_dml: "run_dml env se stmt wc st = (res, st') \<Longrightarrow> wc_owner wc \<noteq> 0 \<Longrightarrow> \<not> upserts stmt \<Longrightarrow> dml_step env st st'"
| step_commit: "me \<noteq> 0 \<Longrightarrow> s_committed_lsn st < lsn \<Longrightarrow> lsn < PENDING \<Longrightarrow>
    dml_step env st ((finalize_owner (xe_vo env) me lsn st)\<lparr>s_committed_lsn := lsn\<rparr>)"
| step_rollback: "me \<noteq> 0 \<Longrightarrow> dml_step env st (rollback_owner (xe_vo env) me st)"

definition pk_inv :: "scalar_ops \<Rightarrow> ('x, 'q) store \<Rightarrow> bool" where
  "pk_inv so st \<longleftrightarrow> (\<forall>name t. get_table st name = Some t \<longrightarrow> primary_key_indices (t_schema t) \<noteq> [] \<longrightarrow>
     keys_apart so (primary_key_indices (t_schema t)) (t_rows t))"

lemma no_table_no_effect: "run_dml env se stmt wc st = (res, st') \<Longrightarrow> get_table st (stmt_table stmt) = None \<Longrightarrow> st' = st"
  by (cases stmt) (auto simp: run_insert_def run_update_def run_delete_def)

lemma store_ok_tables: "store_ok st2 \<Longrightarrow> s_tables st' = s_tables st2 \<Longrightarrow> s_committed_lsn st' = s_committed_lsn st2 \<Longrightarrow> store_ok st'"
  by (simp add: store_ok_def)

lemma run_dml_inv:
  assumes "run_dml env se stmt wc st = (res, st')" and "store_ok st" and "pk_inv (xe_so env) st" and "wc_owner wc \<noteq> 0" and "\<not> upserts stmt"
  shows "store_ok st' \<and> pk_inv (xe_so env) st'"
proof (cases "get_table st (stmt_table stmt)")
  case None
  with no_table_no_effect [OF assms(1)] assms(2,3) show ?thesis by simp
next
  case (Some t)
  with assms(3) have ap: "primary_key_indices (t_schema t) \<noteq> [] \<Longrightarrow> keys_apart (xe_so env) (primary_key_indices (t_schema t)) (t_rows t)"
    by (auto simp: pk_inv_def)
  from run_dml_kept [OF assms(1) Some assms(2,4,5) ap] obtain st2 t' where s: "s_tables st' = s_tables st2" "s_committed_lsn st' = s_committed_lsn st"
      "st2 = put_table (stmt_table stmt) t' st" "table_ok (s_committed_lsn st) t'" "t_schema t' = t_schema t"
      "primary_key_indices (t_schema t) \<noteq> [] \<longrightarrow> keys_apart (xe_so env) (primary_key_indices (t_schema t)) (t_rows t')"
    using ap by (auto simp: kept_apart_def)
  have "store_ok st2" using s(3,4) assms(2) by (simp add: store_ok_put)
  then have "store_ok st'" by (rule store_ok_tables) (use s in simp_all)
  moreover have "get_table st' name = (if key name = key (stmt_table stmt) then Some t' else get_table st name)" for name
    using get_table_cong [OF s(1)] s(3) Some by simp
  ultimately show ?thesis using s(5,6) assms(3) by (auto simp: pk_inv_def split: if_splits)
qed

lemma dml_step_inv: "dml_step env st st' \<Longrightarrow> store_ok st \<Longrightarrow> pk_inv (xe_so env) st \<Longrightarrow> store_ok st' \<and> pk_inv (xe_so env) st'"
proof (induction rule: dml_step.induct)
  case (step_dml se stmt wc st res st')
  then show ?case using run_dml_inv by blast
next
  case (step_commit me st lsn)
  have "store_ok ((finalize_owner (xe_vo env) me lsn st)\<lparr>s_committed_lsn := lsn\<rparr>)"
    using mvcc_step_ok [OF mvcc_step.step_commit, of me st lsn "xe_vo env"] step_commit by blast
  moreover have "get_table ((finalize_owner (xe_vo env) me lsn st)\<lparr>s_committed_lsn := lsn\<rparr>) name =
      map_option (\<lambda>t. t\<lparr>t_rows := map (finalize_row me lsn) (t_rows t)\<rparr>) (get_table st name)" for name
  proof -
    have "get_table (x\<lparr>s_committed_lsn := lsn\<rparr>) name = get_table x name" for x :: "('a, 'b) store" by (simp add: get_table_def)
    then show ?thesis using get_table_cong [OF finalize_owner_tables, of "xe_vo env" me lsn st name] by (simp add: get_table_map_rows)
  qed
  ultimately show ?case
    using step_commit by (auto simp: pk_inv_def dest!: store_okD intro!: keys_apart_finalize [of _ _ _ "s_committed_lsn st"] simp: table_ok_def)
next
  case (step_rollback me st)
  have "store_ok (rollback_owner (xe_vo env) me st)"
    by (rule mvcc_step_ok [OF mvcc_step.step_rollback [OF step_rollback(1)] step_rollback(2)])
  moreover have "get_table (rollback_owner (xe_vo env) me st) name = map_option (\<lambda>t. t\<lparr>t_rows := rollback_rows me (t_rows t)\<rparr>) (get_table st name)" for name
    using get_table_cong [OF rollback_owner_keeps(1), of "xe_vo env" me st name] by (simp add: get_table_map_rows)
  moreover have "s_committed_lsn st < PENDING" using step_rollback(2) by (simp add: store_ok_def)
  ultimately show ?case
    using step_rollback by (auto simp: pk_inv_def dest!: store_okD intro!: keys_apart_rollback [of _ _ _ "s_committed_lsn st"] simp: table_ok_def)
qed

lemma dml_steps_inv: "(dml_step env)\<^sup>*\<^sup>* st st' \<Longrightarrow> store_ok st \<Longrightarrow> pk_inv (xe_so env) st \<Longrightarrow> store_ok st' \<and> pk_inv (xe_so env) st'"
  by (induction rule: rtranclp_induct) (auto dest: dml_step_inv)

text \<open>C25. Primary keys are unique at every snapshot: whatever statements concurrent transactions ran, committed,
  failed or rolled back (upserts that update a row aside), no reader ever sees two rows with the same key.\<close>

theorem primary_keys_unique:
  assumes "(dml_step env)\<^sup>*\<^sup>* st st'" and "store_ok st" and "pk_inv (xe_so env) st"
    and "get_table st' table = Some t" and "primary_key_indices (t_schema t) \<noteq> []" and "s < PENDING"
    and "r1 \<in> set (t_rows t)" and "r2 \<in> set (t_rows t)" and "visible_to_reader r1 s" and "visible_to_reader r2 s"
    and "composite_key (xe_so env) (rv_values r1) (primary_key_indices (t_schema t)) = Inr k"
    and "composite_key (xe_so env) (rv_values r2) (primary_key_indices (t_schema t)) = Inr k"
  shows "r1 = r2"
proof -
  from dml_steps_inv [OF assms(1-3)] have ok: "store_ok st'" and "pk_inv (xe_so env) st'" by blast+
  with assms(4,5) have ap: "keys_apart (xe_so env) (primary_key_indices (t_schema t)) (t_rows t)" by (auto simp: pk_inv_def)
  have "same_key (xe_so env) (primary_key_indices (t_schema t)) r1 r2" using assms(11,12) by (auto simp: same_key_def)
  with keys_apartD [OF ap assms(7,8)] apart_not_both_visible [of r1 r2 s] assms(6,9,10) have "rv_vid r1 = rv_vid r2" by blast
  then show ?thesis by (rule version_eq [OF store_okD [OF ok assms(4)] assms(7,8)])
qed

text \<open>C28. Every row a statement other than \<^verbatim>\<open>ON CONFLICT DO UPDATE\<close> adds was checked: not-null, vector dimensions and
  \<^verbatim>\<open>CHECK\<close> hold of it, the insert or update policies admit it, and an inserted row has one value per column;
  all other rows keep their values, even when the statement fails.\<close>

theorem dml_rows_checked:
  assumes "run_dml env se stmt wc st = (res, st')" and "store_ok st" and "pk_inv (xe_so env) st" and "wc_owner wc \<noteq> 0"
    and "\<not> upserts stmt" and "get_table st (stmt_table stmt) = Some t"
  shows "\<exists>t'. get_table st' (stmt_table stmt) = Some t' \<and>
    (\<forall>r'\<in>set (t_rows t'). rv_values r' \<in> addable env se (t_schema t) stmt \<or> (\<exists>r\<in>set (t_rows t). rv_vid r = rv_vid r' \<and> rv_values r = rv_values r')) \<and>
    (\<forall>name. key name \<noteq> key (stmt_table stmt) \<longrightarrow> get_table st' name = get_table st name)"
proof -
  have ap: "primary_key_indices (t_schema t) \<noteq> [] \<Longrightarrow> keys_apart (xe_so env) (primary_key_indices (t_schema t)) (t_rows t)"
    using assms(3,6) by (auto simp: pk_inv_def)
  from run_dml_kept [OF assms(1,6,2,4,5) ap] obtain st2 t' where s: "s_tables st' = s_tables st2" "st2 = put_table (stmt_table stmt) t' st"
      "added_only (addable env se (t_schema t) stmt) (t_rows t) (t_rows t')"
    by (auto simp: kept_apart_def)
  have "get_table st' name = (if key name = key (stmt_table stmt) then Some t' else get_table st name)" for name
    using get_table_cong [OF s(1)] s(2) assms(6) by simp
  with s(3) show ?thesis by (auto simp: added_only_def)
qed

section \<open>Row-level security\<close>

lemma wrote_row:
  assumes "wrote table me V vss st st'" and "get_table st table = Some t" and "store_ok st" and "me \<noteq> 0"
    and "r \<in> set (t_rows t)" and "rv_vid r \<notin> V"
  shows "\<exists>t'. get_table st' table = Some t' \<and> r \<in> set (t_rows t')"
  using assms get_table_cong [of st' "put_table table (written me V vss t) st" table]
  by (auto simp: wrote_def marked_def intro!: exI [of _ "written me V vss t"])

text \<open>C26. Row-level security confines updates and deletes: a row that the policies for the command do not pass, that
  the writer does not see or that another transaction is changing is still there unchanged, whatever the
  statement does.\<close>

theorem rls_confines_writes:
  assumes "run_dml env se stmt wc st = (res, st')" and "store_ok st" and "wc_owner wc \<noteq> 0" and "get_table st (stmt_table stmt) = Some t"
    and "(\<exists>table sets frm fil returning. stmt = DUpdate table sets frm fil returning) \<and> cmd = PcUpdate \<or>
      (\<exists>table frm fil returning. stmt = DDelete table frm fil returning) \<and> cmd = PcDelete"
    and "r \<in> set (t_rows t)" and "\<not> may_touch env se (t_schema t) cmd wc r"
  shows "\<exists>t'. get_table st' (stmt_table stmt) = Some t' \<and> r \<in> set (t_rows t')"
  using assms(5)
proof (elim disjE conjE exE)
  fix table sets frm fil returning assume c: "stmt = DUpdate table sets frm fil returning" "cmd = PcUpdate"
  have g: "get_table st table = Some t" and u: "run_update env se table sets frm fil returning wc st = (res, st')"
    using assms(1,4) c by simp_all
  from u g assms(2,3) show ?thesis
  proof (cases rule: run_update_effect)
    case fails
    then show ?thesis using assms(4,6) by auto
  next
    case (runs updates)
    have "rv_vid r \<notin> fst ` set updates"
    proof
      assume "rv_vid r \<in> fst ` set updates"
      then obtain v where "(rv_vid r, v) \<in> set updates" by fastforce
      from update_set_rows [OF runs(1) this] g obtain r0 where "r0 \<in> set (t_rows t)" "rv_vid r0 = rv_vid r" "may_touch env se (t_schema t) PcUpdate wc r0"
        by (auto simp: store_rows_def)
      with version_eq [OF store_okD [OF assms(2) g], of r0 r] assms(6,7) c(2) show False by simp
    qed
    from wrote_row [OF runs(3) g assms(2,3,6) this] c(1) show ?thesis by simp
  qed
next
  fix table frm fil returning assume c: "stmt = DDelete table frm fil returning" "cmd = PcDelete"
  have g: "get_table st table = Some t" and u: "run_delete env se table frm fil returning wc st = (res, st')"
    using assms(1,4) c by simp_all
  from u g assms(2,3) show ?thesis
  proof (cases rule: run_delete_effect)
    case fails
    then show ?thesis using assms(4,6) by auto
  next
    case (runs victims)
    have "rv_vid r \<notin> fst ` set victims"
    proof
      assume "rv_vid r \<in> fst ` set victims"
      then obtain v where "(rv_vid r, v) \<in> set victims" by fastforce
      from delete_set_rows [OF runs(1) this] g obtain r0 where "r0 \<in> set (t_rows t)" "rv_vid r0 = rv_vid r" "may_touch env se (t_schema t) PcDelete wc r0"
        by (auto simp: store_rows_def)
      with version_eq [OF store_okD [OF assms(2) g], of r0 r] assms(6,7) c(2) show False by simp
    qed
    from wrote_row [OF runs(2) g assms(2,3,6) this] c(1) show ?thesis by simp
  qed
qed

text \<open>Without an applicable policy nobody but a bypassing session passes.\<close>

lemma rls_default_deny:
  assumes "sch_rls_enabled sch" and "\<not> se_bypass se" and "\<forall>p\<in>set (sch_policies sch). \<not> policy_applies p cmd (session_role se)"
  shows "\<not> may_touch env se sch cmd wc r" and "\<not> row_valid env se sch cmd v"
proof -
  have "rls_decide clause env se sch cmd = Inr RlsDeny" for clause
    using assms by (simp add: rls_decide_def filter_empty_conv)
  then show "\<not> may_touch env se sch cmd wc r" "\<not> row_valid env se sch cmd v"
    by (simp_all add: may_touch_def row_valid_def rls_read_def rls_write_def)
qed

section \<open>What a statement logs\<close>

text \<open>The effect of a logged operation on the rows of its table while the transaction is in flight.\<close>

fun log_effect :: "nat \<Rightarrow> row_version list \<Rightarrow> wal_op \<Rightarrow> row_version list" where
  "log_effect me rows (Insert table vid vals) =
     rows @ [\<lparr>rv_vid = vid, rv_values = vals, rv_create_lsn = PENDING, rv_delete_lsn = 0, rv_owner = me\<rparr>]"
| "log_effect me rows (Delete table vid) = marked me {vid} rows"
| "log_effect me rows op = rows"

fun writes_to :: "string \<Rightarrow> wal_op \<Rightarrow> bool" where
  "writes_to table (Insert name vid vals) \<longleftrightarrow> name = table"
| "writes_to table (Delete name vid) \<longleftrightarrow> name = table"
| "writes_to table op \<longleftrightarrow> False"

definition logs :: "string \<Rightarrow> nat \<Rightarrow> ('x, 'q) logged \<Rightarrow> ('x, 'q) logged \<Rightarrow> bool" where
  "logs table me a b \<longleftrightarrow> (\<exists>ops. snd b = snd a @ ops \<and> list_all (writes_to table) ops \<and>
     (\<forall>t. get_table (fst a) table = Some t \<longrightarrow> table_ok (s_committed_lsn (fst a)) t \<longrightarrow>
       (\<exists>t'. fst b = put_table table t' (fst a) \<and> table_ok (s_committed_lsn (fst a)) t' \<and> t_rows t' = foldl (log_effect me) (t_rows t) ops)))"

definition has_rows :: "string \<Rightarrow> ('x, 'q) logged \<Rightarrow> bool" where
  "has_rows table a \<longleftrightarrow> (\<exists>t. get_table (fst a) table = Some t \<and> table_ok (s_committed_lsn (fst a)) t)"

lemma logs_refl: "logs table me a a"
  using put_table_triv [of "fst a" table] by (auto simp: logs_def intro!: exI [of _ "[]"]) metis

lemma logs_has_rows: "logs table me a b \<Longrightarrow> has_rows table a \<Longrightarrow> has_rows table b"
  by (auto simp: logs_def has_rows_def)

lemma logs_trans:
  assumes "logs table me a b" and "logs table me b c"
  shows "logs table me a c"
proof -
  from assms obtain ops1 ops2 where o: "snd b = snd a @ ops1" "snd c = snd b @ ops2" "list_all (writes_to table) ops1" "list_all (writes_to table) ops2"
    "\<And>t. get_table (fst a) table = Some t \<Longrightarrow> table_ok (s_committed_lsn (fst a)) t \<Longrightarrow>
       \<exists>t'. fst b = put_table table t' (fst a) \<and> table_ok (s_committed_lsn (fst a)) t' \<and> t_rows t' = foldl (log_effect me) (t_rows t) ops1"
    "\<And>t. get_table (fst b) table = Some t \<Longrightarrow> table_ok (s_committed_lsn (fst b)) t \<Longrightarrow>
       \<exists>t'. fst c = put_table table t' (fst b) \<and> table_ok (s_committed_lsn (fst b)) t' \<and> t_rows t' = foldl (log_effect me) (t_rows t) ops2"
    unfolding logs_def by blast
  have "\<exists>t'. fst c = put_table table t' (fst a) \<and> table_ok (s_committed_lsn (fst a)) t' \<and> t_rows t' = foldl (log_effect me) (t_rows t) (ops1 @ ops2)"
    if t: "get_table (fst a) table = Some t" "table_ok (s_committed_lsn (fst a)) t" for t
  proof -
    obtain t1 where t1: "fst b = put_table table t1 (fst a)" "table_ok (s_committed_lsn (fst a)) t1" "t_rows t1 = foldl (log_effect me) (t_rows t) ops1"
      using o(5) [OF t] by blast
    with t(1) o(6) [of t1] show ?thesis by auto
  qed
  with o(1-4) show ?thesis unfolding logs_def by (intro exI [of _ "ops1 @ ops2"]) simp
qed

lemma do_append_logs:
  assumes "do_append table v me a = (r, b)" and "has_rows table a" and "me \<noteq> 0"
  shows "logs table me a b"
proof -
  obtain t where t: "get_table (fst a) table = Some t" "table_ok (s_committed_lsn (fst a)) t" using assms(2) by (auto simp: has_rows_def)
  from do_append_effect [OF t(1), of v me "snd a"] assms(1) have b: "b = (put_table table (written me {} [v] t) (fst a), snd a @ [Insert table (t_next_vid t) v])"
    by simp
  with t table_ok_written [OF t(2) assms(3), of "{}" "[v]"] show ?thesis
    by (auto simp: logs_def pending_rows_Cons intro!: exI [of _ "written me {} [v] t"])
qed

lemma do_supersede_logs:
  assumes "do_supersede table vid me a = (r, b)" and "has_rows table a" and "me \<noteq> 0"
  shows "logs table me a b"
proof -
  obtain t where t: "get_table (fst a) table = Some t" "table_ok (s_committed_lsn (fst a)) t" using assms(2) by (auto simp: has_rows_def)
  from do_supersede_effect [OF t, of vid me "snd a"] assms(1) have b: "b = (put_table table (written me {vid} [] t) (fst a), snd a @ [Delete table vid])"
    by simp
  with t table_ok_written [OF t(2) assms(3), of "{vid}" "[]"] show ?thesis
    by (auto simp: logs_def intro!: exI [of _ "written me {vid} [] t"])
qed

lemma replace_version_logs:
  assumes "replace_version table vid v me a = (r, b)" and "has_rows table a" and "me \<noteq> 0"
  shows "logs table me a b"
proof -
  obtain r1 c where c: "do_supersede table vid me a = (r1, c)" by (metis prod.exhaust)
  note l = do_supersede_logs [OF c assms(2,3)]
  from assms(1) c have "c = b \<or> do_append table v me c = (r, b)" by (auto simp: replace_version_def split: sum.splits)
  with do_append_logs [OF _ logs_has_rows [OF l assms(2)] assms(3)] l logs_trans show ?thesis by blast
qed

lemma apply_insert_row_logs:
  assumes "apply_insert_row env se sch table wc vals clash oc a = (r, b)" and "has_rows table a" and "wc_owner wc \<noteq> 0"
  shows "logs table (wc_owner wc) a b"
  using assms do_append_logs [OF _ assms(2,3)] replace_version_logs [OF _ assms(2,3)] logs_refl [of table "wc_owner wc" a]
  by (auto simp: apply_insert_row_def upsert_update_def split: option.splits on_conflict.splits sum.splits prod.splits)

lemma insert_plain_logs:
  assumes "insert_plain table me vss a = (r, b)" and "has_rows table a" and "me \<noteq> 0"
  shows "logs table me a b"
  using assms
proof (induction vss arbitrary: a r)
  case (Cons v vss)
  obtain r1 c where c: "do_append table v me a = (r1, c)" by (metis prod.exhaust)
  note l = do_append_logs [OF c Cons.prems(2,3)]
  from Cons.prems(1) c have "c = b \<or> (\<exists>r2. insert_plain table me vss c = (r2, b))" by (auto split: sum.splits prod.splits)
  with Cons.IH [OF _ logs_has_rows [OF l Cons.prems(2)] Cons.prems(3)] l logs_trans show ?case by blast
qed (simp add: logs_refl)

lemma insert_keyed_logs:
  assumes "insert_keyed env se sch table wc oc pending vss live a = (r, b)" and "has_rows table a" and "wc_owner wc \<noteq> 0"
  shows "logs table (wc_owner wc) a b"
  using assms
proof (induction vss arbitrary: a r live)
  case (Cons v vss)
  show ?case
  proof (cases "b = a")
    case False
    then obtain k where k: "composite_key (xe_so env) v (primary_key_indices sch) = Inr k" "k \<notin> pending"
      using Cons.prems(1) by (auto split: sum.splits if_splits)
    obtain r1 c where c: "apply_insert_row env se sch table wc v (live k) oc a = (r1, c)" by (metis prod.exhaust)
    note l = apply_insert_row_logs [OF c Cons.prems(2,3)]
    from Cons.prems(1) c k have "c = b \<or> (\<exists>r2 live'. insert_keyed env se sch table wc oc pending vss live' c = (r2, b))"
      by (auto split: sum.splits prod.splits option.splits)
    with Cons.IH [OF _ logs_has_rows [OF l Cons.prems(2)] Cons.prems(3)] l logs_trans show ?thesis by blast
  qed (simp add: logs_refl)
qed (simp add: logs_refl)

lemma supersede_all_logs:
  assumes "supersede_all table me vids a = (r, b)" and "has_rows table a" and "me \<noteq> 0"
  shows "logs table me a b"
  using assms
proof (induction vids arbitrary: a)
  case (Cons vid vids)
  obtain r1 c where c: "do_supersede table vid me a = (r1, c)" by (metis prod.exhaust)
  note l = do_supersede_logs [OF c Cons.prems(2,3)]
  from Cons.prems(1) c have "c = b \<or> supersede_all table me vids c = (r, b)" by (auto split: sum.splits prod.splits)
  with Cons.IH [OF _ logs_has_rows [OF l Cons.prems(2)] Cons.prems(3)] l logs_trans show ?case by blast
qed (simp add: logs_refl)

lemma replace_all_logs:
  assumes "replace_all table me ups a = (r, b)" and "has_rows table a" and "me \<noteq> 0"
  shows "logs table me a b"
  using assms
proof (induction ups arbitrary: a r)
  case (Cons u ups)
  obtain vid v where u: "u = (vid, v)" by fastforce
  obtain r1 c where c: "replace_version table vid v me a = (r1, c)" by (metis prod.exhaust)
  note l = replace_version_logs [OF c Cons.prems(2,3)]
  from Cons.prems(1) c u have "c = b \<or> (\<exists>r2. replace_all table me ups c = (r2, b))" by (auto split: sum.splits prod.splits)
  with Cons.IH [OF _ logs_has_rows [OF l Cons.prems(2)] Cons.prems(3)] l logs_trans show ?case by blast
qed (simp add: logs_refl)

lemma insert_rows_logs:
  assumes "insert_rows env se sch table wc oc staged st = (r, b)" and "has_rows table (st, [])" and "wc_owner wc \<noteq> 0"
  shows "logs table (wc_owner wc) (st, []) b"
proof (cases "primary_key_indices sch = []")
  case True
  with assms(1) have "insert_plain table (wc_owner wc) staged (st, []) = (r, b)" by (simp add: insert_rows_def)
  then show ?thesis by (rule insert_plain_logs) (rule assms)+
next
  case False
  show ?thesis
  proof (cases "pk_index (xe_so env) st table (primary_key_indices sch) (wc_owner wc)")
    case (Inl e)
    with False assms(1) show ?thesis by (auto simp: insert_rows_def logs_refl)
  next
    case (Inr lp)
    with False assms(1) have "insert_keyed env se sch table wc oc (snd lp) staged (fst lp) (st, []) = (r, b)"
      by (simp add: insert_rows_def split_beta)
    then show ?thesis by (rule insert_keyed_logs) (rule assms)+
  qed
qed

text \<open>A successful statement ends with its log in hand and a store that differs from the logged one only in its indexes.\<close>

lemma run_dml_logs:
  assumes "run_dml env se stmt wc st = (Inr m, st')" and "store_ok st" and "wc_owner wc \<noteq> 0" and "get_table st (stmt_table stmt) = Some t"
  obtains t1 b where "t_rows t1 = t_rows t" and "logs (stmt_table stmt) (wc_owner wc) (put_table (stmt_table stmt) t1 st, []) b"
    and "table_ok (s_committed_lsn st) t1" and "mu_wal m = snd b" and "s_tables st' = s_tables (fst b)"
proof -
  have ok: "table_ok (s_committed_lsn st) t" using store_okD [OF assms(2,4)] .
  have h: "has_rows (stmt_table stmt) (st, [])" using ok assms(4) by (simp add: has_rows_def)
  show thesis
  proof (cases stmt)
    case (DInsert table columns source oc returning)
    let ?sch = "t_schema t"
    obtain slots a staged where "apply_insert env se ?sch table staged oc returning wc (set_autoinc table a st) = (Inr m, st')"
      using assms(1,4) DInsert
      by (auto simp: run_insert_def finalize_insert_rows_def Let_def split: sum.splits prod.splits if_splits)
    then obtain new st2 wal where i: "insert_rows env se ?sch table wc oc staged (set_autoinc table a st) = (Inr new, st2, wal)"
        "s_tables st' = s_tables st2" "mu_wal m = wal"
      by (auto simp: apply_insert_def Let_def split: sum.splits prod.splits dest!: finish_mutation_store)
    let ?t1 = "t\<lparr>t_next_autoinc := a\<rparr>"
    have st1: "set_autoinc table a st = put_table table ?t1 st" using assms(4) DInsert by (simp add: set_autoinc_def table_mut_put)
    have t1: "table_ok (s_committed_lsn st) ?t1" using ok by (simp add: table_ok_def)
    have "has_rows table (put_table table ?t1 st, [])" using t1 assms(4) DInsert by (simp add: has_rows_def)
    from insert_rows_logs [OF i(1) [unfolded st1] this assms(3)] show thesis
      by (intro that [of ?t1 "(st2, wal)"]) (use i t1 DInsert in simp_all)
  next
    case (DUpdate table sets frm fil returning)
    then obtain updates where "apply_updates env se (t_schema t) table updates returning wc st = (Inr m, st')"
      using assms(1,4) by (auto simp: run_update_def Let_def split: sum.splits)
    then obtain new st2 wal where i: "replace_all table (wc_owner wc) updates (st, []) = (Inr new, st2, wal)" "s_tables st' = s_tables st2" "mu_wal m = wal"
      by (auto simp: apply_updates_def Let_def split: sum.splits prod.splits dest!: finish_mutation_store)
    from replace_all_logs [OF i(1)] h assms(3) show thesis
      by (intro that [of t "(st2, wal)"]) (use i ok DUpdate assms(4) in \<open>simp_all add: put_table_triv\<close>)
  next
    case (DDelete table frm fil returning)
    then obtain victims where v: "(case supersede_all table (wc_owner wc) (map fst victims) (st, []) of
           (Inl e, stw) \<Rightarrow> (Inl e, fst stw)
         | (Inr _, stw) \<Rightarrow> finish_mutation env se (t_schema t) returning wc (map snd victims) (length victims) stw) = (Inr m, st')"
      using assms(1,4) by (auto simp only: run_dml.simps run_delete_def Let_def stmt_table.simps option.case split: sum.splits)
    obtain ru st2 wal where sa: "supersede_all table (wc_owner wc) (map fst victims) (st, []) = (ru, st2, wal)" by (metis prod.exhaust)
    with v obtain u where i: "supersede_all table (wc_owner wc) (map fst victims) (st, []) = (Inr u, st2, wal)"
        "s_tables st' = s_tables st2" "mu_wal m = wal"
      by (cases ru) (auto dest!: finish_mutation_store)
    from supersede_all_logs [OF i(1)] h assms(3) show thesis
      by (intro that [of t "(st2, wal)"]) (use i ok DDelete assms(4) in \<open>simp_all add: put_table_triv\<close>)
  qed
qed

text \<open>C27. A write statement that succeeds, upserts included, logs exactly what it did: its table's rows are the old rows with
  the logged inserts and deletes applied in order as pending versions of the writer, every record names the
  table, and no other table changes.\<close>

theorem dml_logged:
  assumes "run_dml env se stmt wc st = (Inr m, st')" and "store_ok st" and "wc_owner wc \<noteq> 0" and "get_table st (stmt_table stmt) = Some t"
  shows "list_all (writes_to (stmt_table stmt)) (mu_wal m) \<and>
    (\<exists>t'. get_table st' (stmt_table stmt) = Some t' \<and> t_rows t' = foldl (log_effect (wc_owner wc)) (t_rows t) (mu_wal m)) \<and>
    (\<forall>name. key name \<noteq> key (stmt_table stmt) \<longrightarrow> get_table st' name = get_table st name)"
proof -
  from run_dml_logs [OF assms] obtain t1 b where b: "t_rows t1 = t_rows t" "logs (stmt_table stmt) (wc_owner wc) (put_table (stmt_table stmt) t1 st, []) b"
      "table_ok (s_committed_lsn st) t1" "mu_wal m = snd b" "s_tables st' = s_tables (fst b)" .
  from b(2,3) assms(4) obtain t' where t': "list_all (writes_to (stmt_table stmt)) (snd b)" "fst b = put_table (stmt_table stmt) t' st"
      "t_rows t' = foldl (log_effect (wc_owner wc)) (t_rows t1) (snd b)"
    by (auto simp: logs_def)
  have "get_table st' name = (if key name = key (stmt_table stmt) then Some t' else get_table st name)" for name
    using get_table_cong [OF b(5)] t'(2) assms(4) by simp
  with t' b(1,4) show ?thesis by auto
qed

section \<open>Instances\<close>

text \<open>A table keyed by its first column, with or without policies, for the concrete statements below.\<close>

definition keyed_env :: "scalar_ops \<Rightarrow> (unit, unit, unit, unit) exec_env" where
  "keyed_env so = \<lparr>xe_so = so, xe_vo = unit_index_ops,
     xe_parse_expr = (\<lambda>sql. if sql = ''id IS NULL'' then Inr (EIsNull (EColumn ''id'') False) else Inl (Raised ErrSql)),
     xe_run_select = (\<lambda>_ _ _ _ _ _. Inl (Raised ErrSql)), xe_materialize = (\<lambda>_ _ _ _ _ _. Inl (Raised ErrSql)),
     xe_expr_type = (\<lambda>_ _. CtText)\<rparr>"

definition id_column :: column where
  "id_column = \<lparr>col_name = ''id'', col_ty = CtInteger, col_primary_key = True, col_not_null = True, col_unique = True,
     col_autoincrement = False, col_default_sql = None\<rparr>"

definition keyed_schema :: "bool \<Rightarrow> policy list \<Rightarrow> table_schema" where
  "keyed_schema rls ps = \<lparr>sch_name = ''t'', sch_columns = [id_column], sch_foreign_keys = [], sch_checks = [],
     sch_uniques = [], sch_rls_enabled = rls, sch_policies = ps\<rparr>"

definition keyed_store :: "bool \<Rightarrow> policy list \<Rightarrow> nat \<Rightarrow> row_version list \<Rightarrow> (unit, unit) store" where
  "keyed_store rls ps n rows = \<lparr>s_tables = [(''t'', \<lparr>t_schema = keyed_schema rls ps, t_rows = rows, t_next_vid = n, t_next_autoinc = 1\<rparr>)],
     s_indexes = [], s_views = [], s_committed_lsn = 4\<rparr>"

definition two_rows :: "row_version list" where
  "two_rows = [committed_row 2 [VInt 1] 2, committed_row 3 [VInt 2] 3]"

definition writer_ctx :: "nat \<Rightarrow> write_ctx" where
  "writer_ctx me = \<lparr>wc_snapshot = 4, wc_owner = me, wc_params = []\<rparr>"

definition anon :: session_context where
  "anon = \<lparr>se_role = None, se_claims = None, se_bypass = False\<rparr>"

definition insert_ids :: "int list \<Rightarrow> unit on_conflict \<Rightarrow> (unit, unit) dml_stmt" where
  "insert_ids is oc = DInsert ''t'' None (InsValues (map (\<lambda>i. [EInt i]) is)) oc None"

lemma keyed_store_ok: "store_ok (keyed_store rls ps 5 two_rows)"
  by (simp add: keyed_store_def two_rows_def instance_defs)


lemma keyed_sel [simp]:
  "sch_columns (keyed_schema rls ps) = [id_column]" "sch_checks (keyed_schema rls ps) = []"
  "sch_rls_enabled (keyed_schema rls ps) = rls" "sch_policies (keyed_schema rls ps) = ps"
  "col_ty id_column = CtInteger" "col_not_null id_column" "\<not> col_autoincrement id_column"
  "xe_so (keyed_env so) = so" "xe_vo (keyed_env so) = unit_index_ops"
  "wc_owner (writer_ctx me) = me" "wc_params (writer_ctx me) = []" "wc_snapshot (writer_ctx me) = 4"
  "s_committed_lsn (keyed_store rls ps n rows) = 4" "s_indexes (keyed_store rls ps n rows) = []"
  by (simp_all add: keyed_schema_def id_column_def keyed_env_def writer_ctx_def keyed_store_def)

lemma wc_owner_writer_ctx: "wc_owner (writer_ctx me) = me"
  by (simp add: writer_ctx_def)

lemma keyed_key [simp]: "key ''t'' = ''t''"
  by (simp add: to_ascii_lowercase_def lower_char_def)

lemma keyed_table: "get_table (keyed_store rls ps n rows) ''t'' =
    Some \<lparr>t_schema = keyed_schema rls ps, t_rows = rows, t_next_vid = n, t_next_autoinc = 1\<rparr>"
  by (simp add: keyed_store_def get_table_def)

lemma keyed_pk [simp]: "primary_key_indices (keyed_schema rls ps) = [0]"
  by (simp add: keyed_schema_def id_column_def primary_key_indices_def)

lemma keyed_uniques [simp]: "filter (\<lambda>cols. cols \<noteq> [0]) (unique_sets (keyed_schema rls ps)) = []"
  by (simp add: unique_sets_def) (simp add: keyed_schema_def)

lemma key_id [simp]: "composite_key so [VInt n] [0] = Inr (CHR ''i'' # int_string n @ [CHR 0x01])"
  by (simp add: composite_key_def index_row_def value_key_def)

lemma build_ids: "build_insert_slots (keyed_env so) se st (keyed_schema rls ps) None (InsValues (map (\<lambda>i. [EInt i]) is)) (writer_ctx me) =
    Inr (map (\<lambda>i. [Some (VInt i)]) is)"
proof -
  have "collect_results (map (values_slot (keyed_env so) se (keyed_schema rls ps) None [0] []) (map (\<lambda>i. [EInt i]) is)) =
      Inr (map (\<lambda>i. [Some (VInt i)]) is)"
    by (induction "is") (simp_all add: values_slot_def slot_value_def Let_def)
  then show ?thesis by (simp add: build_insert_slots_def insert_targets_def)
qed

lemma finalize_ids: "finalize_slots (keyed_env so) se [] (keyed_schema rls ps) (map (\<lambda>i. [Some (VInt i)]) is) a =
    Inr (map (\<lambda>i. [VInt i]) is, a)"
  by (induction "is") (simp_all add: finalize_cell_def validate_row_def check_not_null_def check_vector_dims_def
    check_row_constraints_def index_row_def is_null_def)

lemma insert_ids_runs: "run_dml (keyed_env so) se (insert_ids is oc) (writer_ctx me) (keyed_store False ps n rows) =
    apply_insert (keyed_env so) se (keyed_schema False ps) ''t'' (map (\<lambda>i. [VInt i]) is) oc None (writer_ctx me) (keyed_store False ps n rows)"
proof -
  have "check_each f (map (\<lambda>i. [VInt i]) is) = Inr ()" if "\<And>i. f [VInt i] = Inr ()" for f :: "sql_value list \<Rightarrow> unit xres"
    using that by (induction "is") simp_all
  then have "check_each (enforce_rls_write so se (RlsUnrestricted :: unit rls) (keyed_schema False ps)) (map (\<lambda>i. [VInt i]) is) = Inr ()"
    by (simp add: enforce_rls_write_def)
  moreover have "set_autoinc ''t'' 1 (keyed_store False ps n rows) = keyed_store False ps n rows"
    by (simp add: set_autoinc_def table_mut_def keyed_table) (simp add: keyed_store_def)
  ultimately show ?thesis
    by (simp add: insert_ids_def run_insert_def keyed_table build_ids finalize_ids finalize_insert_rows_def parse_checks_def
      rls_write_def rls_decide_def check_secondary_uniques_def Let_def)
qed


definition pending_row :: "nat \<Rightarrow> nat \<Rightarrow> sql_value list \<Rightarrow> row_version" where
  "pending_row me vid vals = \<lparr>rv_vid = vid, rv_values = vals, rv_create_lsn = PENDING, rv_delete_lsn = 0, rv_owner = me\<rparr>"

lemma keyed_append: "do_append ''t'' vals me (keyed_store rls ps n rows, wal) =
    (Inr n, keyed_store rls ps (n + 1) (rows @ [pending_row me n vals]), wal @ [Insert ''t'' n vals])"
  by (simp add: do_append_def append_version_def append_row_def alloc_vid_def table_mut_def keyed_table pending_row_def)
    (simp add: keyed_store_def)

lemma update_first_marked: "distinct (map rv_vid rows) \<Longrightarrow> update_first (\<lambda>r. rv_vid r = vid) (mark_deleted me) rows = marked me {vid} rows"
proof (induction rows)
  case (Cons a rows)
  then have "\<forall>r\<in>set rows. rv_vid r \<noteq> rv_vid a" by (metis distinct.simps(2) image_eqI list.map(2) set_map)
  then have "marked me {rv_vid a} rows = rows" by (simp add: marked_def map_idI)
  with Cons show ?case by (auto simp: marked_def)
qed (simp add: marked_def)

lemma keyed_supersede: "distinct (map rv_vid rows) \<Longrightarrow> do_supersede ''t'' vid me (keyed_store rls ps n rows, wal) =
    (Inr (), keyed_store rls ps n (marked me {vid} rows), wal @ [Delete ''t'' vid])"
  by (simp add: do_supersede_def supersede_def table_mut_def keyed_table version_mut_def update_first_marked)
    (simp add: keyed_store_def)

lemma keyed_last: "last_vid ''t'' (keyed_store rls ps n rows) = (if rows = [] then Inl Panicked else Inr (rv_vid (last rows)))"
  by (simp add: last_vid_def keyed_table)

lemma keyed_no_index: "\<not> table_has_index unit_index_ops (keyed_store rls ps n rows) ''t''"
  by (simp add: table_has_index_def)

lemma keyed_rows: "store_rows (keyed_store rls ps n rows) ''t'' = rows"
  by (simp add: store_rows_def keyed_table)

lemmas insert_eval = insert_ids_runs apply_insert_def insert_rows_def pk_index_def apply_insert_row_def keyed_append keyed_supersede keyed_last keyed_no_index
  keyed_rows finish_mutation_def returning_result_def Let_def

text \<open>An \<^verbatim>\<open>INSERT\<close> of two rows with the same key fails with a constraint error but leaves its first row pending in the
  store, and returns no log records: a commit of the surrounding transaction publishes a row that no replay
  of the log gives back.\<close>

theorem failed_insert_leaves_row:
  "\<forall>so se. run_dml (keyed_env so) se (insert_ids [1, 1] OcError) (writer_ctx 7) (keyed_store False [] 3 []) =
      (Inl (Raised ErrConstraint), keyed_store False [] 4 [pending_row 7 3 [VInt 1]]) \<and>
    snapshot_rows (finalize_owner unit_index_ops 7 5 (keyed_store False [] 4 [pending_row 7 3 [VInt 1]])) ''t'' 5 = Some [(3, [VInt 1])]"
  by (simp add: insert_eval)
   (simp add: snapshot_rows_def get_table_cong [OF finalize_owner_tables] get_table_map_rows keyed_table pending_row_def finalize_row_def snap_def visible_to_reader_def PENDING_def)




lemma id_strings: "int_string 1 = ''1''" "int_string 2 = ''2''" "int_string 3 = ''3''"
  by code_simp+

lemma keyed_index [simp]: "column_index (keyed_schema rls ps) ''id'' = Some 0"
  by (simp add: column_index_def eq_ignore_ascii_case_def id_column_def)

lemma upsert_id: "upsert_row (keyed_env so) se (keyed_schema rls ps) (writer_ctx me) [VInt i] vals [(''id'', EInt n)] None = Inr (Some [VInt n])"
  by (simp add: upsert_row_def predicate_def Let_def ok_or_def check_not_null_def check_vector_dims_def index_row_def is_null_def)

lemma keyed_pk_inv: "pk_inv so (keyed_store rls ps n two_rows)"
proof -
  have "get_table (keyed_store rls ps n two_rows) name = (if key name = ''t'' then get_table (keyed_store rls ps n two_rows) ''t'' else None)" for name
    by (simp add: get_table_def keyed_store_def)
  then show ?thesis
    by (auto simp: pk_inv_def keyed_table two_rows_def keys_apart_def same_key_def committed_row_def id_strings split: if_splits)
qed

text \<open>\<^verbatim>\<open>ON CONFLICT DO UPDATE\<close> does not check the key it writes: from a table with the rows 1 and 2, inserting 1 with
  \<^verbatim>\<open>DO UPDATE SET id = 2\<close> succeeds, and after the commit a reader sees two rows with the key 2.\<close>

theorem upsert_duplicates_key:
  "\<forall>so se. \<exists>m st'. run_dml (keyed_env so) se (insert_ids [1] (OcUpdate [(''id'', EInt 2)] None)) (writer_ctx 7) (keyed_store False [] 5 two_rows) = (Inr m, st') \<and>
    pk_inv so (keyed_store False [] 5 two_rows) \<and>
    snapshot_rows (finalize_owner unit_index_ops 7 5 st') ''t'' 5 = Some [(3, [VInt 2]), (5, [VInt 2])]"
proof (intro allI exI conjI)
  fix so se
  show "run_dml (keyed_env so) se (insert_ids [1] (OcUpdate [(''id'', EInt 2)] None)) (writer_ctx 7) (keyed_store False [] 5 two_rows) =
      (Inr \<lparr>mu_wal = [Delete ''t'' 2, Insert ''t'' 5 [VInt 2]], mu_changes = 1, mu_result = None\<rparr>,
       keyed_store False [] 6 (marked 7 {2} two_rows @ [pending_row 7 5 [VInt 2]]))"
    by (simp add: insert_eval two_rows_def committed_row_def visible_to_writer_def PENDING_def upsert_update_def
      id_strings keyed_table version_def upsert_id replace_version_def pending_row_def)
  show "pk_inv so (keyed_store False [] 5 two_rows)" by (rule keyed_pk_inv)
  show "snapshot_rows (finalize_owner unit_index_ops 7 5 (keyed_store False [] 6 (marked 7 {2} two_rows @ [pending_row 7 5 [VInt 2]]))) ''t'' 5 =
      Some [(3, [VInt 2]), (5, [VInt 2])]"
    by (simp add: snapshot_rows_def get_table_cong [OF finalize_owner_tables] get_table_map_rows keyed_table pending_row_def finalize_row_def
      snap_def visible_to_reader_def PENDING_def two_rows_def committed_row_def marked_def mark_deleted_def)
qed

lemma insert_3: "run_dml (keyed_env so) se (insert_ids [3] OcError) (writer_ctx 7) (keyed_store False [] 5 two_rows) =
    (Inr \<lparr>mu_wal = [Insert ''t'' 5 [VInt 3]], mu_changes = 1, mu_result = None\<rparr>, keyed_store False [] 6 (two_rows @ [pending_row 7 5 [VInt 3]]))"
  by (simp add: insert_eval two_rows_def committed_row_def visible_to_writer_def PENDING_def id_strings pending_row_def)

theorem primary_keys_unique_witness:
  "\<forall>so. \<exists>t. get_table ((finalize_owner unit_index_ops 7 5 (keyed_store False [] 6 (two_rows @ [pending_row 7 5 [VInt 3]])))\<lparr>s_committed_lsn := 5\<rparr>) ''t'' = Some t \<and>
    (\<exists>!r. r \<in> set (t_rows t) \<and> visible_to_reader r 5 \<and> composite_key so (rv_values r) (primary_key_indices (t_schema t)) = Inr [CHR ''i'', CHR ''3'', CHR 0x01])"
proof
  fix so
  let ?st0 = "keyed_store False [] 5 two_rows" and ?st1 = "keyed_store False [] 6 (two_rows @ [pending_row 7 5 [VInt 3]])"
  let ?st2 = "(finalize_owner unit_index_ops 7 5 ?st1)\<lparr>s_committed_lsn := 5\<rparr>"
  let ?t = "\<lparr>t_schema = keyed_schema False [], t_rows = two_rows @ [committed_row 5 [VInt 3] 5], t_next_vid = 6, t_next_autoinc = 1\<rparr>"
  have "dml_step (keyed_env so) ?st0 ?st1"
    by (rule step_dml [OF insert_3]) (simp_all add: insert_ids_def)
  moreover have "dml_step (keyed_env so) ?st1 ?st2"
    using step_commit [of 7 ?st1 5 "keyed_env so"] by (simp add: PENDING_def)
  ultimately have steps: "(dml_step (keyed_env so))\<^sup>*\<^sup>* ?st0 ?st2" by (meson r_into_rtranclp rtranclp.rtrancl_into_rtrancl)
  have t: "get_table ?st2 ''t'' = Some ?t"
    using get_table_cong [OF finalize_owner_tables, of unit_index_ops 7 5 ?st1 "''t''"]
    by (simp add: get_table_map_rows keyed_table pending_row_def finalize_row_def two_rows_def committed_row_def PENDING_def) (simp add: get_table_def)
  note unique = primary_keys_unique [OF steps keyed_store_ok _ t, of 5]
  show "\<exists>t. get_table ?st2 ''t'' = Some t \<and> (\<exists>!r. r \<in> set (t_rows t) \<and> visible_to_reader r 5 \<and>
      composite_key so (rv_values r) (primary_key_indices (t_schema t)) = Inr [CHR ''i'', CHR ''3'', CHR 0x01])"
    unfolding t using unique keyed_pk_inv
    by (intro exI [of _ ?t] conjI ex1I [of _ "committed_row 5 [VInt 3] 5"])
      (auto simp: id_strings committed_row_def visible_to_reader_def PENDING_def)
qed

theorem dml_rows_checked_witness:
  "\<forall>so se. [VInt 3] \<in> addable (keyed_env so) se (keyed_schema False []) (insert_ids [3] OcError)"
proof (intro allI)
  fix so se
  let ?stmt = "insert_ids [3] OcError" and ?t = "\<lparr>t_schema = keyed_schema False [], t_rows = two_rows, t_next_vid = 5, t_next_autoinc = 1\<rparr>"
  have s: "stmt_table ?stmt = ''t''" "\<not> upserts ?stmt" by (simp_all add: insert_ids_def)
  from dml_rows_checked [OF insert_3 [of so se] keyed_store_ok, of ?t] s keyed_pk_inv
  have "\<forall>r'\<in>set (two_rows @ [pending_row 7 5 [VInt 3]]). rv_values r' \<in> addable (keyed_env so) se (keyed_schema False []) ?stmt \<or>
      (\<exists>r\<in>set two_rows. rv_vid r = rv_vid r' \<and> rv_values r = rv_values r')"
    by (simp add: keyed_table)
  then show "[VInt 3] \<in> addable (keyed_env so) se (keyed_schema False []) ?stmt"
    by (simp add: two_rows_def pending_row_def committed_row_def)
qed

definition own_policy :: policy where
  "own_policy = \<lparr>pol_name = ''own'', pol_command = PcUpdate, pol_roles = [], pol_using = Some ''id IS NULL'', pol_check = None\<rparr>"

lemma policy_hides: "\<not> may_touch (keyed_env so) anon (keyed_schema True [own_policy]) PcUpdate (writer_ctx 7) (committed_row 3 [VInt 2] 3)"
  by (simp add: may_touch_def rls_read_def rls_decide_def own_policy_def policy_applies_def anon_def keyed_env_def ctx_row_def committed_row_def
    resolve_value_def index_row_def is_null_def int_of_bool_def)

theorem rls_confines_writes_witness:
  "\<forall>so. \<exists>t'. get_table (snd (run_dml (keyed_env so) anon (DUpdate ''t'' [(''id'', EInt 9)] None None None) (writer_ctx 7) (keyed_store True [own_policy] 5 two_rows))) ''t'' = Some t' \<and>
     committed_row 3 [VInt 2] 3 \<in> set (t_rows t')"
proof
  fix so
  let ?stmt = "DUpdate ''t'' [(''id'', EInt 9)] None None None :: (unit, unit) dml_stmt"
  obtain res st' where r: "run_dml (keyed_env so) anon ?stmt (writer_ctx 7) (keyed_store True [own_policy] 5 two_rows) = (res, st')"
    by (metis prod.exhaust)
  show "\<exists>t'. get_table (snd (run_dml (keyed_env so) anon ?stmt (writer_ctx 7) (keyed_store True [own_policy] 5 two_rows))) ''t'' = Some t' \<and>
     committed_row 3 [VInt 2] 3 \<in> set (t_rows t')"
    using rls_confines_writes [OF r keyed_store_ok, of _ PcUpdate "committed_row 3 [VInt 2] 3"] policy_hides r
    by (simp add: keyed_table two_rows_def)
qed

theorem dml_logged_witness:
  "\<exists>t'. get_table (keyed_store False [] 6 (two_rows @ [pending_row 7 5 [VInt 3]])) ''t'' = Some t' \<and>
     t_rows t' = foldl (log_effect 7) two_rows [Insert ''t'' 5 [VInt 3]]"
  using dml_logged [OF insert_3 keyed_store_ok, of "\<lparr>t_schema = keyed_schema False [], t_rows = two_rows, t_next_vid = 5, t_next_autoinc = 1\<rparr>"]
  unfolding insert_ids_def stmt_table.simps keyed_table wc_owner_writer_ctx by simp
end
