(* ===== verification/Sql_Query.thy ===== *)
theory Sql_Query
  imports Exec_Dml
begin

text \<open>
  The query syntax of \<^verbatim>\<open>crates/engine/src/sql.rs\<close> and the parts of query evaluation in
  \<^verbatim>\<open>crates/engine/src/exec.rs\<close> that need no recursion over queries: properties and rewriting
  of expressions, static types, ordering, limits, grouping, joins, set operations and the
  single-table path with its nearest-neighbour index scan.
\<close>

section \<open>Syntax\<close>

datatype join_kind = JInner | JLeft | JRight | JFull | JCross

datatype set_op = SoUnion | SoIntersect | SoExcept

datatype 'l order_key = OrderKey (ok_expr: "'l expr") (ok_asc: bool) (ok_nulls_first: bool)

datatype 'l from_clause =
    FTable string "string option"
  | FDerived 'l string
  | FJoin "'l from_clause" "'l from_clause" join_kind "'l expr option" "string list"

datatype select_stmt = SelectStmt
  (sel_with: "(string \<times> select_stmt) list")
  (sel_distinct: bool)
  (sel_items: "select_stmt sel_item list")
  (sel_from: "select_stmt from_clause option")
  (sel_filter: "select_stmt expr option")
  (sel_group_by: "select_stmt expr list")
  (sel_having: "select_stmt expr option")
  (sel_set_ops: "(set_op \<times> bool \<times> select_stmt) list")
  (sel_order_by: "select_stmt order_key list")
  (sel_limit: "select_stmt expr option")
  (sel_offset: "select_stmt expr option")

section \<open>Properties of expressions\<close>

definition opt_holds :: "bool option \<Rightarrow> bool" where
  "opt_holds x \<longleftrightarrow> x = Some True"

primrec expr_has_subquery :: "'l expr \<Rightarrow> bool" where
  "expr_has_subquery ENull = False"
| "expr_has_subquery (EInt i) = False"
| "expr_has_subquery (EReal r) = False"
| "expr_has_subquery (EStr s) = False"
| "expr_has_subquery (EVector v) = False"
| "expr_has_subquery (ELit v) = False"
| "expr_has_subquery (EParam i) = False"
| "expr_has_subquery (EColumn n) = False"
| "expr_has_subquery (EBinary op l r) = (expr_has_subquery l \<or> expr_has_subquery r)"
| "expr_has_subquery (EUnary op e) = expr_has_subquery e"
| "expr_has_subquery (EIsNull e neg) = expr_has_subquery e"
| "expr_has_subquery (ELike e pattern escape neg ci) =
     (expr_has_subquery e \<or> expr_has_subquery pattern \<or> opt_holds (map_option expr_has_subquery escape))"
| "expr_has_subquery (EInList e items neg) = (expr_has_subquery e \<or> list_ex id (map expr_has_subquery items))"
| "expr_has_subquery (EBetween e lo hi neg) = (expr_has_subquery e \<or> expr_has_subquery lo \<or> expr_has_subquery hi)"
| "expr_has_subquery (ECase operand whens els) = (opt_holds (map_option expr_has_subquery operand) \<or>
     list_ex (\<lambda>(c, r). c \<or> r) (map (map_prod expr_has_subquery expr_has_subquery) whens) \<or> opt_holds (map_option expr_has_subquery els))"
| "expr_has_subquery (EExcluded n) = False"
| "expr_has_subquery EDefault = False"
| "expr_has_subquery (ECast e t) = expr_has_subquery e"
| "expr_has_subquery (EFunc n args) = list_ex id (map expr_has_subquery args)"
| "expr_has_subquery (EAggregate f arg u sep) = (opt_holds (map_option expr_has_subquery arg) \<or> opt_holds (map_option expr_has_subquery sep))"
| "expr_has_subquery (EQualified t n) = False"
| "expr_has_subquery (EScalarSubquery q) = True"
| "expr_has_subquery (EExists q neg) = True"
| "expr_has_subquery (EInSubquery e q neg) = True"

primrec expr_has_aggregate :: "'l expr \<Rightarrow> bool" where
  "expr_has_aggregate ENull = False"
| "expr_has_aggregate (EInt i) = False"
| "expr_has_aggregate (EReal r) = False"
| "expr_has_aggregate (EStr s) = False"
| "expr_has_aggregate (EVector v) = False"
| "expr_has_aggregate (ELit v) = False"
| "expr_has_aggregate (EParam i) = False"
| "expr_has_aggregate (EColumn n) = False"
| "expr_has_aggregate (EBinary op l r) = (expr_has_aggregate l \<or> expr_has_aggregate r)"
| "expr_has_aggregate (EUnary op e) = expr_has_aggregate e"
| "expr_has_aggregate (EIsNull e neg) = expr_has_aggregate e"
| "expr_has_aggregate (ELike e pattern escape neg ci) = (expr_has_aggregate e \<or> expr_has_aggregate pattern)"
| "expr_has_aggregate (EInList e items neg) = (expr_has_aggregate e \<or> list_ex id (map expr_has_aggregate items))"
| "expr_has_aggregate (EBetween e lo hi neg) = (expr_has_aggregate e \<or> expr_has_aggregate lo \<or> expr_has_aggregate hi)"
| "expr_has_aggregate (ECase operand whens els) = (opt_holds (map_option expr_has_aggregate operand) \<or>
     list_ex (\<lambda>(c, r). c \<or> r) (map (map_prod expr_has_aggregate expr_has_aggregate) whens) \<or> opt_holds (map_option expr_has_aggregate els))"
| "expr_has_aggregate (EExcluded n) = False"
| "expr_has_aggregate EDefault = False"
| "expr_has_aggregate (ECast e t) = expr_has_aggregate e"
| "expr_has_aggregate (EFunc n args) = list_ex id (map expr_has_aggregate args)"
| "expr_has_aggregate (EAggregate f arg u sep) = True"
| "expr_has_aggregate (EQualified t n) = False"
| "expr_has_aggregate (EScalarSubquery q) = False"
| "expr_has_aggregate (EExists q neg) = False"
| "expr_has_aggregate (EInSubquery e q neg) = False"

text \<open>\<^verbatim>\<open>collect_expr_refs\<close> over the collector \<open>f\<close> of a query, and the column references outside
  nested queries.\<close>

definition opt_list :: "'a list option \<Rightarrow> 'a list" where
  "opt_list x = (case x of None \<Rightarrow> [] | Some l \<Rightarrow> l)"

primrec collect_expr_refs :: "('l \<Rightarrow> 'a list) \<Rightarrow> 'l expr \<Rightarrow> 'a list" where
  "collect_expr_refs f ENull = []"
| "collect_expr_refs f (EInt i) = []"
| "collect_expr_refs f (EReal r) = []"
| "collect_expr_refs f (EStr s) = []"
| "collect_expr_refs f (EVector v) = []"
| "collect_expr_refs f (ELit v) = []"
| "collect_expr_refs f (EParam i) = []"
| "collect_expr_refs f (EColumn n) = []"
| "collect_expr_refs f (EBinary op l r) = collect_expr_refs f l @ collect_expr_refs f r"
| "collect_expr_refs f (EUnary op e) = collect_expr_refs f e"
| "collect_expr_refs f (EIsNull e neg) = collect_expr_refs f e"
| "collect_expr_refs f (ELike e pattern escape neg ci) =
     collect_expr_refs f e @ collect_expr_refs f pattern @ opt_list (map_option (collect_expr_refs f) escape)"
| "collect_expr_refs f (EInList e items neg) = collect_expr_refs f e @ concat (map (collect_expr_refs f) items)"
| "collect_expr_refs f (EBetween e lo hi neg) = collect_expr_refs f e @ collect_expr_refs f lo @ collect_expr_refs f hi"
| "collect_expr_refs f (ECase operand whens els) = opt_list (map_option (collect_expr_refs f) operand) @
     concat (map (\<lambda>(c, r). c @ r) (map (map_prod (collect_expr_refs f) (collect_expr_refs f)) whens)) @
     opt_list (map_option (collect_expr_refs f) els)"
| "collect_expr_refs f (EExcluded n) = []"
| "collect_expr_refs f EDefault = []"
| "collect_expr_refs f (ECast e t) = collect_expr_refs f e"
| "collect_expr_refs f (EFunc n args) = concat (map (collect_expr_refs f) args)"
| "collect_expr_refs f (EAggregate func arg u sep) =
     opt_list (map_option (collect_expr_refs f) arg) @ opt_list (map_option (collect_expr_refs f) sep)"
| "collect_expr_refs f (EQualified t n) = []"
| "collect_expr_refs f (EScalarSubquery q) = f q"
| "collect_expr_refs f (EExists q neg) = f q"
| "collect_expr_refs f (EInSubquery e q neg) = collect_expr_refs f e @ f q"

primrec shallow_refs :: "'l expr \<Rightarrow> (string option \<times> string) list" where
  "shallow_refs ENull = []"
| "shallow_refs (EInt i) = []"
| "shallow_refs (EReal r) = []"
| "shallow_refs (EStr s) = []"
| "shallow_refs (EVector v) = []"
| "shallow_refs (ELit v) = []"
| "shallow_refs (EParam i) = []"
| "shallow_refs (EColumn n) = [(None, n)]"
| "shallow_refs (EBinary op l r) = shallow_refs l @ shallow_refs r"
| "shallow_refs (EUnary op e) = shallow_refs e"
| "shallow_refs (EIsNull e neg) = shallow_refs e"
| "shallow_refs (ELike e pattern escape neg ci) = shallow_refs e @ shallow_refs pattern @ opt_list (map_option shallow_refs escape)"
| "shallow_refs (EInList e items neg) = shallow_refs e @ concat (map shallow_refs items)"
| "shallow_refs (EBetween e lo hi neg) = shallow_refs e @ shallow_refs lo @ shallow_refs hi"
| "shallow_refs (ECase operand whens els) = opt_list (map_option shallow_refs operand) @
     concat (map (\<lambda>(c, r). c @ r) (map (map_prod shallow_refs shallow_refs) whens)) @ opt_list (map_option shallow_refs els)"
| "shallow_refs (EExcluded n) = []"
| "shallow_refs EDefault = []"
| "shallow_refs (ECast e t) = shallow_refs e"
| "shallow_refs (EFunc n args) = concat (map shallow_refs args)"
| "shallow_refs (EAggregate func arg u sep) = opt_list (map_option shallow_refs arg) @ opt_list (map_option shallow_refs sep)"
| "shallow_refs (EQualified t n) = [(Some t, n)]"
| "shallow_refs (EScalarSubquery q) = []"
| "shallow_refs (EExists q neg) = []"
| "shallow_refs (EInSubquery e q neg) = []"

section \<open>Rewriting expressions\<close>

text \<open>The traversal that \<^verbatim>\<open>resolve_children\<close>, \<^verbatim>\<open>map_children\<close> and \<^verbatim>\<open>map_children_compound\<close> share:
  children are rebuilt left to right up to the first failure.  \<open>ref\<close> handles a column
  reference, the other three arguments a nested query; that of \<^verbatim>\<open>IN\<close> gets the left operand and
  its rewritten form.\<close>

definition rewrite_opt :: "'a xres option \<Rightarrow> 'a option xres" where
  "rewrite_opt x = (case x of None \<Rightarrow> Inr None | Some r \<Rightarrow> res_bind r (\<lambda>e. Inr (Some e)))"

definition rewrite_pair :: "'a xres \<times> 'a xres \<Rightarrow> ('a \<times> 'a) xres" where
  "rewrite_pair p = res_bind (fst p) (\<lambda>c. res_bind (snd p) (\<lambda>r. Inr (c, r)))"

record 'l rewriter =
  rw_ref :: "string option \<Rightarrow> string \<Rightarrow> 'l expr xres"
  rw_scalar :: "'l \<Rightarrow> 'l expr xres"
  rw_exists :: "'l \<Rightarrow> bool \<Rightarrow> 'l expr xres"
  rw_in :: "'l expr \<Rightarrow> 'l expr xres \<Rightarrow> 'l \<Rightarrow> bool \<Rightarrow> 'l expr xres"

primrec rewrite_expr :: "'l rewriter \<Rightarrow> 'l expr \<Rightarrow> 'l expr xres" where
  "rewrite_expr w ENull = Inr ENull"
| "rewrite_expr w (EInt i) = Inr (EInt i)"
| "rewrite_expr w (EReal r) = Inr (EReal r)"
| "rewrite_expr w (EStr s) = Inr (EStr s)"
| "rewrite_expr w (EVector v) = Inr (EVector v)"
| "rewrite_expr w (ELit v) = Inr (ELit v)"
| "rewrite_expr w (EParam i) = Inr (EParam i)"
| "rewrite_expr w (EColumn n) = rw_ref w None n"
| "rewrite_expr w (EBinary op l r) = res_bind (rewrite_expr w l) (\<lambda>l'. res_bind (rewrite_expr w r) (\<lambda>r'. Inr (EBinary op l' r')))"
| "rewrite_expr w (EUnary op e) = res_bind (rewrite_expr w e) (\<lambda>e'. Inr (EUnary op e'))"
| "rewrite_expr w (EIsNull e neg) = res_bind (rewrite_expr w e) (\<lambda>e'. Inr (EIsNull e' neg))"
| "rewrite_expr w (ELike e pattern escape neg ci) = res_bind (rewrite_expr w e) (\<lambda>e'. res_bind (rewrite_expr w pattern) (\<lambda>p'.
     res_bind (rewrite_opt (map_option (rewrite_expr w) escape)) (\<lambda>x'. Inr (ELike e' p' x' neg ci))))"
| "rewrite_expr w (EInList e items neg) = res_bind (rewrite_expr w e) (\<lambda>e'.
     res_bind (collect_results (map (rewrite_expr w) items)) (\<lambda>items'. Inr (EInList e' items' neg)))"
| "rewrite_expr w (EBetween e lo hi neg) = res_bind (rewrite_expr w e) (\<lambda>e'. res_bind (rewrite_expr w lo) (\<lambda>lo'.
     res_bind (rewrite_expr w hi) (\<lambda>hi'. Inr (EBetween e' lo' hi' neg))))"
| "rewrite_expr w (ECase operand whens els) = res_bind (rewrite_opt (map_option (rewrite_expr w) operand)) (\<lambda>o'.
     res_bind (collect_results (map rewrite_pair (map (map_prod (rewrite_expr w) (rewrite_expr w)) whens))) (\<lambda>whens'.
     res_bind (rewrite_opt (map_option (rewrite_expr w) els)) (\<lambda>els'. Inr (ECase o' whens' els'))))"
| "rewrite_expr w (EExcluded n) = Inr (EExcluded n)"
| "rewrite_expr w EDefault = Inr EDefault"
| "rewrite_expr w (ECast e t) = res_bind (rewrite_expr w e) (\<lambda>e'. Inr (ECast e' t))"
| "rewrite_expr w (EFunc n args) = res_bind (collect_results (map (rewrite_expr w) args)) (\<lambda>args'. Inr (EFunc n args'))"
| "rewrite_expr w (EAggregate func arg u sep) = res_bind (rewrite_opt (map_option (rewrite_expr w) arg)) (\<lambda>arg'.
     res_bind (rewrite_opt (map_option (rewrite_expr w) sep)) (\<lambda>sep'. Inr (EAggregate func arg' u sep')))"
| "rewrite_expr w (EQualified t n) = rw_ref w (Some t) n"
| "rewrite_expr w (EScalarSubquery q) = rw_scalar w q"
| "rewrite_expr w (EExists q neg) = rw_exists w q neg"
| "rewrite_expr w (EInSubquery e q neg) = rw_in w e (rewrite_expr w e) q neg"

definition plain_ref :: "string option \<Rightarrow> string \<Rightarrow> 'l expr" where
  "plain_ref table name = (case table of None \<Rightarrow> EColumn name | Some t \<Rightarrow> EQualified t name)"

section \<open>Static types\<close>

fun lit_type :: "sql_value \<Rightarrow> column_type" where
  "lit_type (VInt i) = CtInteger"
| "lit_type (VReal r) = CtReal"
| "lit_type (VBlob b) = CtBlob"
| "lit_type (VVector x) = CtVector (length x mod 2 ^ 32)"
| "lit_type _ = CtText"

definition func_type :: "string \<Rightarrow> column_type" where
  "func_type name = (let n = to_ascii_lowercase name in
     if n \<in> {''length'', ''char_length'', ''character_length'', ''abs'', ''instr'', ''strpos'', ''sign'', ''extract'', ''unixepoch''} then CtInteger
     else if n \<in> {''sqrt'', ''exp'', ''ln'', ''log'', ''log10'', ''power'', ''pow'', ''pi'', ''random'', ''ceil'', ''ceiling'', ''floor'', ''trunc'', ''round''}
     then CtReal else CtText)"

fun cast_column_type :: "cast_target \<Rightarrow> column_type" where
  "cast_column_type CastInt = CtInteger"
| "cast_column_type CastBool = CtInteger"
| "cast_column_type CastReal = CtReal"
| "cast_column_type CastText = CtText"
| "cast_column_type CastPassthrough = CtText"

definition column_type_of :: "table_schema option \<Rightarrow> string \<Rightarrow> column_type" where
  "column_type_of sch name = (case Option.bind sch (\<lambda>s. map_option (\<lambda>i. col_ty (sch_columns s ! i)) (column_index s name)) of
     Some t \<Rightarrow> t | None \<Rightarrow> CtText)"

fun agg_type :: "agg_func \<Rightarrow> column_type option \<Rightarrow> column_type" where
  "agg_type AggCount arg = CtInteger"
| "agg_type AggAvg arg = CtReal"
| "agg_type AggJsonAgg arg = CtText"
| "agg_type AggGroupConcat arg = CtText"
| "agg_type AggSum arg = (if arg = Some CtReal then CtReal else CtInteger)"
| "agg_type AggMin arg = (case arg of Some t \<Rightarrow> t | None \<Rightarrow> CtText)"
| "agg_type AggMax arg = (case arg of Some t \<Rightarrow> t | None \<Rightarrow> CtText)"

fun expr_type :: "'l expr \<Rightarrow> table_schema option \<Rightarrow> column_type" where
  "expr_type (EInt i) sch = CtInteger"
| "expr_type (EReal r) sch = CtReal"
| "expr_type (EStr s) sch = CtText"
| "expr_type (EVector v) sch = CtVector (length v mod 2 ^ 32)"
| "expr_type (ELit v) sch = lit_type v"
| "expr_type (EBinary op l r) sch = (if vec_metric op \<noteq> None then CtReal else CtText)"
| "expr_type (EColumn name) sch = column_type_of sch name"
| "expr_type (ECast e target) sch = (if target = CastPassthrough then expr_type e sch else cast_column_type target)"
| "expr_type (EAggregate func arg u sep) sch = (case sch of
     None \<Rightarrow> CtText
   | Some s \<Rightarrow> agg_type func (case arg of None \<Rightarrow> None | Some e \<Rightarrow> Some (expr_type e (Some s))))"
| "expr_type (EFunc name args) sch = func_type name"
| "expr_type (EQualified t name) sch = column_type_of sch name"
| "expr_type _ sch = CtText"

definition rel_type :: "rel_col list \<Rightarrow> string option \<Rightarrow> string \<Rightarrow> column_type" where
  "rel_type cols table name = (case resolve_col cols table name of Inr i \<Rightarrow> rc_ty (cols ! i) | Inl _ \<Rightarrow> CtText)"

fun rel_expr_type :: "'l expr \<Rightarrow> rel_col list \<Rightarrow> column_type" where
  "rel_expr_type (EColumn n) cols = rel_type cols None n"
| "rel_expr_type (EQualified t n) cols = rel_type cols (Some t) n"
| "rel_expr_type (ECast e target) cols = (if target = CastPassthrough then rel_expr_type e cols else cast_column_type target)"
| "rel_expr_type (EAggregate func arg u sep) cols = (case func of
     AggCount \<Rightarrow> CtInteger | AggAvg \<Rightarrow> CtReal | AggJsonAgg \<Rightarrow> CtText | AggGroupConcat \<Rightarrow> CtText
   | _ \<Rightarrow> (case arg of Some e \<Rightarrow> rel_expr_type e cols | None \<Rightarrow> CtInteger))"
| "rel_expr_type e cols = expr_type e None"

section \<open>Ordering\<close>

definition reverse_ordering :: "ordering \<Rightarrow> ordering" where
  "reverse_ordering o1 = (case o1 of OLess \<Rightarrow> OGreater | OEqual \<Rightarrow> OEqual | OGreater \<Rightarrow> OLess)"

definition order_cmp :: "sql_value \<Rightarrow> sql_value \<Rightarrow> bool \<Rightarrow> bool \<Rightarrow> ordering" where
  "order_cmp a b asc nulls_first =
     (if is_null a then (if is_null b then OEqual else if nulls_first then OLess else OGreater)
      else if is_null b then (if nulls_first then OGreater else OLess)
      else let o1 = (case sql_cmp a b of Some x \<Rightarrow> x | None \<Rightarrow> OEqual) in if asc then o1 else reverse_ordering o1)"

text \<open>The stable sort of the standard library, for a comparison that is a total preorder (for others its
  result is unspecified and it may panic).\<close>

fun sort_insert :: "('a \<Rightarrow> 'a \<Rightarrow> ordering) \<Rightarrow> 'a \<Rightarrow> 'a list \<Rightarrow> 'a list" where
  "sort_insert cmp x [] = [x]"
| "sort_insert cmp x (y # ys) = (if cmp x y = OGreater then y # sort_insert cmp x ys else x # y # ys)"

definition sort_by :: "('a \<Rightarrow> 'a \<Rightarrow> ordering) \<Rightarrow> 'a list \<Rightarrow> 'a list" where
  "sort_by cmp xs = foldr (sort_insert cmp) xs []"

text \<open>A key is evaluated in both entries before the results are looked at, so a panic in either wins.\<close>

fun both_values :: "'a xres \<Rightarrow> 'a xres \<Rightarrow> ('a \<times> 'a) xres" where
  "both_values (Inl Panicked) r = Inl Panicked"
| "both_values (Inl e) (Inl Panicked) = Inl Panicked"
| "both_values (Inl e) r = Inl e"
| "both_values (Inr a) (Inl e) = Inl e"
| "both_values (Inr a) (Inr b) = Inr (a, b)"

text \<open>A sort key: how it is evaluated in an entry, its direction and its placement of nulls.\<close>

type_synonym 'a sort_key = "('a \<Rightarrow> sql_value xres) \<times> bool \<times> bool"

fun order_key_cmp :: "'a sort_key list \<Rightarrow> 'a \<Rightarrow> 'a \<Rightarrow> ordering xres" where
  "order_key_cmp [] a b = Inr OEqual"
| "order_key_cmp ((ev, asc, nulls_first) # ks) a b = res_bind (both_values (ev a) (ev b)) (\<lambda>(va, vb).
     let o1 = order_cmp va vb asc nulls_first in if o1 \<noteq> OEqual then Inr o1 else order_key_cmp ks a b)"

fun check_pairs :: "('a \<Rightarrow> 'a \<Rightarrow> unit xres) \<Rightarrow> 'a list \<Rightarrow> unit xres" where
  "check_pairs f [] = Inr ()"
| "check_pairs f (x # xs) = res_bind (check_each (f x) xs) (\<lambda>_. check_pairs f xs)"

text \<open>\<^verbatim>\<open>order_matched\<close>, \<^verbatim>\<open>order_groups\<close> and \<^verbatim>\<open>order_and_collect\<close>: an evaluation error in a comparison is kept
  and returned.  Two entries whose comparison fails tie on the keys before, and a sort compares
  neighbours of a tie, so it meets an error exactly when some pair has one; which of several
  errors it reports depends on its order of comparisons, here the first pair in input order.\<close>

definition order_entries :: "'a sort_key list \<Rightarrow> 'a list \<Rightarrow> 'a list xres" where
  "order_entries ks xs = (if ks = [] then Inr xs else
     res_bind (check_pairs (\<lambda>a b. res_bind (order_key_cmp ks a b) (\<lambda>_. Inr ())) xs) (\<lambda>_.
       Inr (sort_by (\<lambda>a b. case order_key_cmp ks a b of Inr o1 \<Rightarrow> o1 | Inl _ \<Rightarrow> OEqual) xs)))"

definition sort_keys :: "('l expr \<Rightarrow> 'a \<Rightarrow> sql_value xres) \<Rightarrow> 'l order_key list \<Rightarrow> 'a sort_key list" where
  "sort_keys ev ks = map (\<lambda>k. (ev (ok_expr k), ok_asc k, ok_nulls_first k)) ks"

fun find_alias :: "'l sel_item list \<Rightarrow> string \<Rightarrow> 'l expr option" where
  "find_alias [] name = None"
| "find_alias (SExpr e (Some a) # items) name = (if eq_ignore_ascii_case a name then Some e else find_alias items name)"
| "find_alias (_ # items) name = find_alias items name"

definition resolve_alias :: "'l sel_item list \<Rightarrow> 'l expr \<Rightarrow> 'l expr" where
  "resolve_alias items e = (case e of EColumn name \<Rightarrow> (case find_alias items name of Some x \<Rightarrow> x | None \<Rightarrow> e) | _ \<Rightarrow> e)"

definition resolve_order_key :: "'l sel_item list \<Rightarrow> 'l order_key \<Rightarrow> 'l order_key" where
  "resolve_order_key items k = OrderKey (resolve_alias items (ok_expr k)) (ok_asc k) (ok_nulls_first k)"

section \<open>Limits\<close>

definition eval_count :: "scalar_ops \<Rightarrow> session_context \<Rightarrow> 'l expr option \<Rightarrow> sql_value list \<Rightarrow> int option xres" where
  "eval_count so se opt ps = (case opt of None \<Rightarrow> Inr None
     | Some e \<Rightarrow> res_bind (eval so se e (ctx_root ps)) (\<lambda>v. case v of
         VNull \<Rightarrow> Inr None
       | VInt n \<Rightarrow> Inr (Some n)
       | VReal r \<Rightarrow> Inr (Some (i64_of_f64 r))
       | VText s \<Rightarrow> (case parse_i64 (trim s) of Some n \<Rightarrow> Inr (Some n) | None \<Rightarrow> Inl (Raised ErrSql))
       | _ \<Rightarrow> Inl (Raised ErrSql)))"

definition apply_offset_limit :: "int option \<Rightarrow> int option \<Rightarrow> 'a list \<Rightarrow> 'a list" where
  "apply_offset_limit limit offset rows =
     (let kept = (case offset of None \<Rightarrow> rows | Some off \<Rightarrow> drop (min (nat off) (length rows)) rows)
      in case limit of None \<Rightarrow> kept | Some n \<Rightarrow> take (nat n) kept)"

section \<open>Grouping\<close>

text \<open>Groups in the order of their first member, each with its key.\<close>

fun add_to_group :: "string \<Rightarrow> 'a \<Rightarrow> (string \<times> 'a list) list \<Rightarrow> (string \<times> 'a list) list" where
  "add_to_group k x [] = [(k, [x])]"
| "add_to_group k x ((k', xs) # gs) = (if k' = k then (k', xs @ [x]) # gs else (k', xs) # add_to_group k x gs)"

fun group_rows :: "('a \<Rightarrow> string xres) \<Rightarrow> 'a list \<Rightarrow> (string \<times> 'a list) list \<Rightarrow> (string \<times> 'a list) list xres" where
  "group_rows f [] gs = Inr gs"
| "group_rows f (x # xs) gs = res_bind (f x) (\<lambda>k. group_rows f xs (add_to_group k x gs))"

definition group_key :: "scalar_ops \<Rightarrow> session_context \<Rightarrow> 'l expr list \<Rightarrow> eval_ctx \<Rightarrow> string xres" where
  "group_key so se group_by ctx = res_bind (collect_results (map (\<lambda>e. eval so se e ctx) group_by)) (\<lambda>vs.
     Inr (concat (map (\<lambda>v. value_key so v @ [CHR 0x01]) vs)))"

text \<open>Without \<^verbatim>\<open>GROUP BY\<close> an empty input is one empty group.\<close>

definition make_groups :: "scalar_ops \<Rightarrow> session_context \<Rightarrow> 'l expr list \<Rightarrow> (sql_value list \<Rightarrow> eval_ctx) \<Rightarrow> sql_value list list \<Rightarrow>
    sql_value list list list xres" where
  "make_groups so se group_by mk rows = res_bind (group_rows (\<lambda>r. group_key so se group_by (mk r)) rows []) (\<lambda>gs.
     Inr (if group_by = [] \<and> gs = [] then [[]] else map snd gs))"

definition group_ctx :: "table_schema option \<Rightarrow> rel_col list option \<Rightarrow> sql_value list \<Rightarrow> sql_value list list \<Rightarrow> eval_ctx" where
  "group_ctx sch cols ps rows = \<lparr>ec_row = (case rows of [] \<Rightarrow> None | r # _ \<Rightarrow> Some r), ec_schema = sch, ec_params = ps,
     ec_group = Some rows, ec_excluded = None, ec_cols = cols\<rparr>"

definition having_holds :: "scalar_ops \<Rightarrow> session_context \<Rightarrow> 'l expr option \<Rightarrow> eval_ctx \<Rightarrow> bool xres" where
  "having_holds so se having ctx = (case having of None \<Rightarrow> Inr True
     | Some h \<Rightarrow> res_bind (eval so se h ctx) (\<lambda>v. Inr (as_bool v = Some True)))"

section \<open>Joins\<close>

type_synonym rows = "sql_value list list"

record relation =
  re_cols :: "rel_col list"
  re_rows :: rows

definition retag :: "rel_col list \<Rightarrow> string \<Rightarrow> rel_col list" where
  "retag cols src = map (\<lambda>c. c\<lparr>rc_table := Some src\<rparr>) cols"

definition relation_from_result :: "string \<Rightarrow> result_set \<Rightarrow> relation" where
  "relation_from_result alias rs =
     \<lparr>re_cols = map (\<lambda>(n, t). \<lparr>rc_table = Some alias, rc_name = n, rc_ty = t\<rparr>) (zip (rs_columns rs) (rs_types rs)), re_rows = rs_rows rs\<rparr>"

fun pairs_match :: "(nat \<times> nat) list \<Rightarrow> sql_value list \<Rightarrow> bool xres" where
  "pairs_match [] row = Inr True"
| "pairs_match ((li, ri) # ps) row = res_bind (index_row row li) (\<lambda>a. res_bind (index_row row ri) (\<lambda>b.
     if sql_eq a b = Some True then pairs_match ps row else Inr False))"

definition row_matches :: "scalar_ops \<Rightarrow> session_context \<Rightarrow> rel_col list \<Rightarrow> 'l expr option \<Rightarrow> (nat \<times> nat) list \<Rightarrow> sql_value list \<Rightarrow>
    sql_value list \<Rightarrow> bool xres" where
  "row_matches so se cols on pairs ps row = res_bind (pairs_match pairs row) (\<lambda>ok. if ok then predicate so se on (ctx_rel row cols ps) else Inr False)"

text \<open>The inner loop of the joins: the combined rows that match.  \<open>m\<close> is \<open>row_matches\<close> and \<open>combine\<close> puts
  the two rows together.\<close>

definition matches_of :: "(sql_value list \<Rightarrow> bool xres) \<Rightarrow> (sql_value list \<Rightarrow> sql_value list) \<Rightarrow> rows \<Rightarrow> rows xres" where
  "matches_of m combine inner = collect_each (\<lambda>irow. res_bind (m (combine irow)) (\<lambda>ok. Inr (if ok then [combine irow] else []))) inner"

definition join_inner :: "(sql_value list \<Rightarrow> bool xres) \<Rightarrow> rows \<Rightarrow> rows \<Rightarrow> rows xres" where
  "join_inner m l r = collect_each (\<lambda>lr. matches_of m (\<lambda>rr. lr @ rr) r) l"

definition join_combine :: "bool \<Rightarrow> sql_value list \<Rightarrow> sql_value list \<Rightarrow> sql_value list" where
  "join_combine swapped orow irow = (if swapped then irow @ orow else orow @ irow)"

definition join_outer :: "(sql_value list \<Rightarrow> bool xres) \<Rightarrow> bool \<Rightarrow> sql_value list \<Rightarrow> rows \<Rightarrow> rows \<Rightarrow> rows xres" where
  "join_outer m swapped null_inner outer inner = collect_each (\<lambda>orow. res_bind (matches_of m (join_combine swapped orow) inner) (\<lambda>hits.
     Inr (if hits = [] then [join_combine swapped orow null_inner] else hits))) outer"

text \<open>\<^verbatim>\<open>join_full\<close>: \<open>hits\<close> are the positions of the right rows matched so far.\<close>

definition full_hits :: "(sql_value list \<Rightarrow> bool xres) \<Rightarrow> rows \<Rightarrow> sql_value list \<Rightarrow> (nat \<times> sql_value list) list xres" where
  "full_hits m r lr = collect_each (\<lambda>(j, rr). res_bind (m (lr @ rr)) (\<lambda>ok. Inr (if ok then [(j, lr @ rr)] else []))) (enumerate 0 r)"

fun join_full_left :: "(sql_value list \<Rightarrow> bool xres) \<Rightarrow> sql_value list \<Rightarrow> rows \<Rightarrow> rows \<Rightarrow> nat set \<Rightarrow> (rows \<times> nat set) xres" where
  "join_full_left m null_r r [] hit = Inr ([], hit)"
| "join_full_left m null_r r (lr # l) hit = res_bind (full_hits m r lr) (\<lambda>hs.
     res_bind (join_full_left m null_r r l (hit \<union> set (map fst hs))) (\<lambda>(out, hit').
       Inr ((if hs = [] then [lr @ null_r] else map snd hs) @ out, hit')))"

definition join_full :: "(sql_value list \<Rightarrow> bool xres) \<Rightarrow> sql_value list \<Rightarrow> sql_value list \<Rightarrow> rows \<Rightarrow> rows \<Rightarrow> rows xres" where
  "join_full m null_l null_r l r = res_bind (join_full_left m null_r r l {}) (\<lambda>(out, hit).
     Inr (out @ map (\<lambda>(j, rr). null_l @ rr) (filter (\<lambda>(j, rr). j \<notin> hit) (enumerate 0 r))))"

definition using_pairs :: "rel_col list \<Rightarrow> rel_col list \<Rightarrow> string list \<Rightarrow> (nat \<times> nat) list xres" where
  "using_pairs lcols rcols us = collect_results (map (\<lambda>u. res_bind (resolve_col lcols None u) (\<lambda>i.
     res_bind (resolve_col rcols None u) (\<lambda>j. Inr (i, length lcols + j)))) us)"

definition join_rows :: "(sql_value list \<Rightarrow> bool xres) \<Rightarrow> join_kind \<Rightarrow> nat \<Rightarrow> nat \<Rightarrow> rows \<Rightarrow> rows \<Rightarrow> rows xres" where
  "join_rows m kind lw rw l r = (let null_l = replicate lw VNull; null_r = replicate rw VNull in
     case kind of
       JInner \<Rightarrow> join_inner m l r
     | JCross \<Rightarrow> join_inner m l r
     | JLeft \<Rightarrow> join_outer m False null_r l r
     | JRight \<Rightarrow> join_outer m True null_l r l
     | JFull \<Rightarrow> join_full m null_l null_r l r)"

definition join_relations :: "scalar_ops \<Rightarrow> session_context \<Rightarrow> join_kind \<Rightarrow> 'l expr option \<Rightarrow> string list \<Rightarrow> sql_value list \<Rightarrow> relation \<Rightarrow> relation \<Rightarrow> relation xres" where
  "join_relations so se kind on us ps l r = (let cols = re_cols l @ re_cols r in
     res_bind (using_pairs (re_cols l) (re_cols r) us) (\<lambda>pairs.
     res_bind (join_rows (row_matches so se cols on pairs ps) kind (length (re_cols l)) (length (re_cols r)) (re_rows l) (re_rows r)) (\<lambda>out.
       Inr \<lparr>re_cols = cols, re_rows = out\<rparr>)))"

section \<open>Set operations\<close>

definition row_key :: "scalar_ops \<Rightarrow> sql_value list \<Rightarrow> string" where
  "row_key so row = concat (map (\<lambda>v. value_key so v @ [CHR 0x01]) row)"

definition dedup_rows :: "scalar_ops \<Rightarrow> rows \<Rightarrow> rows" where
  "dedup_rows so = retain_new (row_key so) {}"

text \<open>The multiset versions count the keys of the right operand down; \<open>keep\<close> says whether a row that
  uses up a count is kept (\<^verbatim>\<open>INTERSECT ALL\<close>) or dropped (\<^verbatim>\<open>EXCEPT ALL\<close>).\<close>

fun count_down :: "('a \<Rightarrow> string) \<Rightarrow> bool \<Rightarrow> (string \<Rightarrow> nat) \<Rightarrow> 'a list \<Rightarrow> 'a list" where
  "count_down k keep counts [] = []"
| "count_down k keep counts (x # xs) = (if 0 < counts (k x)
     then (if keep then [x] else []) @ count_down k keep (counts(k x := counts (k x) - 1)) xs
     else (if keep then [] else [x]) @ count_down k keep counts xs)"

definition set_op_rows :: "scalar_ops \<Rightarrow> set_op \<Rightarrow> bool \<Rightarrow> rows \<Rightarrow> rows \<Rightarrow> rows" where
  "set_op_rows so op all l r = (let k = row_key so; counts = (\<lambda>x. length (filter (\<lambda>row. k row = x) r)); rset = k ` set r in
     case op of
       SoUnion \<Rightarrow> if all then l @ r else dedup_rows so (l @ r)
     | SoIntersect \<Rightarrow> if all then count_down k True counts l else retain_new k {} (filter (\<lambda>row. k row \<in> rset) l)
     | SoExcept \<Rightarrow> if all then count_down k False counts l else retain_new k {} (filter (\<lambda>row. k row \<notin> rset) l))"

definition combine_set_op :: "scalar_ops \<Rightarrow> result_set \<Rightarrow> result_set \<Rightarrow> set_op \<Rightarrow> bool \<Rightarrow> result_set xres" where
  "combine_set_op so lhs rhs op all = (if length (rs_columns lhs) \<noteq> length (rs_columns rhs) then Inl (Raised ErrSql)
     else Inr (lhs\<lparr>rs_rows := set_op_rows so op all (rs_rows lhs) (rs_rows rhs)\<rparr>))"

fun output_key :: "string list \<Rightarrow> 'l order_key \<Rightarrow> sql_value list sort_key xres" where
  "output_key columns (OrderKey e asc nulls_first) = res_bind (case e of
       EInt n \<Rightarrow> if 1 \<le> n \<and> n \<le> int (length columns) then Inr (nat (n - 1)) else Inl (Raised ErrSql)
     | EColumn name \<Rightarrow> ok_or (Raised ErrSql) (position (\<lambda>c. eq_ignore_ascii_case c name) columns)
     | EQualified t name \<Rightarrow> ok_or (Raised ErrSql) (position (\<lambda>c. eq_ignore_ascii_case c name) columns)
     | _ \<Rightarrow> Inl (Raised ErrSql)) (\<lambda>idx. Inr (\<lambda>row. index_row row idx, asc, nulls_first))"

definition apply_output_order_limit :: "scalar_ops \<Rightarrow> session_context \<Rightarrow> select_stmt \<Rightarrow> sql_value list \<Rightarrow> result_set \<Rightarrow> result_set xres" where
  "apply_output_order_limit so se sel ps rs =
     res_bind (collect_results (map (output_key (rs_columns rs)) (sel_order_by sel))) (\<lambda>ks.
     res_bind (order_entries ks (rs_rows rs)) (\<lambda>rows.
     res_bind (eval_count so se (sel_offset sel) ps) (\<lambda>off. res_bind (eval_count so se (sel_limit sel) ps) (\<lambda>lim.
       Inr (rs\<lparr>rs_rows := apply_offset_limit lim off rows\<rparr>)))))"

section \<open>The single-table path\<close>

definition row_visible :: "nat \<Rightarrow> nat option \<Rightarrow> row_version \<Rightarrow> bool" where
  "row_visible snapshot writer r = (case writer of Some me \<Rightarrow> visible_to_writer r snapshot me | None \<Rightarrow> visible_to_reader r snapshot)"

text \<open>What a query reads: the session, the store, the snapshot, the writer's own rows and the bound
  parameters.\<close>

record ('x, 'q) scan =
  sc_session :: session_context
  sc_store :: "('x, 'q) store"
  sc_snapshot :: nat
  sc_writer :: "nat option"
  sc_params :: "sql_value list"

abbreviation sc_eval :: "('x, 'q, 'l, 'f) exec_env \<Rightarrow> ('x, 'q) scan \<Rightarrow> 'l expr \<Rightarrow> evaluation" where
  "sc_eval env sc \<equiv> xe_eval env (sc_session sc)"

definition agg_query :: "'l sel_item list \<Rightarrow> 'l expr list \<Rightarrow> 'l expr option \<Rightarrow> bool" where
  "agg_query items group_by having \<longleftrightarrow> group_by \<noteq> [] \<or> having \<noteq> None \<or>
     list_ex (\<lambda>i. case i of SExpr e a \<Rightarrow> expr_has_aggregate e | SStar q \<Rightarrow> False) items"

abbreviation is_aggregated :: "select_stmt \<Rightarrow> bool" where
  "is_aggregated sel \<equiv> agg_query (sel_items sel) (sel_group_by sel) (sel_having sel)"

text \<open>A row of the scan: visible, passed by the policies, selected by \<^verbatim>\<open>WHERE\<close>.\<close>

definition scan_row :: "('x, 'q, 'l, 'f) exec_env \<Rightarrow> ('x, 'q) scan \<Rightarrow> table_schema \<Rightarrow> 'l rls \<Rightarrow> 'l expr option \<Rightarrow> row_version \<Rightarrow> rows xres" where
  "scan_row env sc sch dec fil r = (if \<not> row_visible (sc_snapshot sc) (sc_writer sc) r then Inr []
     else let ctx = ctx_row (rv_values r) sch (sc_params sc) in
       res_bind (rls_passes (xe_so env) (sc_session sc) dec ctx) (\<lambda>ok. if \<not> ok then Inr [] else
       res_bind (predicate (xe_so env) (sc_session sc) fil ctx) (\<lambda>hit. Inr (if hit then [rv_values r] else []))))"

record 'x knn_ops =
  kn_is_empty :: "'x \<Rightarrow> bool"
  kn_live_len :: "'x \<Rightarrow> nat"
  kn_len :: "'x \<Rightarrow> nat"
  kn_search :: "'x \<Rightarrow> u32 list \<Rightarrow> nat \<Rightarrow> nat option \<Rightarrow> nat list"

definition KNN_OVERFETCH :: nat where
  "KNN_OVERFETCH = 4"

definition saturate :: "nat \<Rightarrow> nat" where
  "saturate n = min n (2 ^ 64 - 1)"

text \<open>A recognized nearest-neighbour query: column, metric, query vector, limit.\<close>

definition knn_plan :: "select_stmt \<Rightarrow> int option \<Rightarrow> (string \<times> metric \<times> select_stmt expr \<times> nat) option" where
  "knn_plan sel limit = (case limit of None \<Rightarrow> None | Some lim \<Rightarrow>
     (if lim < 0 then None else case sel_order_by sel of
        [OrderKey e asc nf] \<Rightarrow> (if \<not> asc \<or> sel_offset sel \<noteq> None \<or> is_aggregated sel then None else
          case e of EBinary op (EColumn col) r \<Rightarrow> map_option (\<lambda>m. (col, m, r, nat lim)) (vec_metric op) | _ \<Rightarrow> None)
      | _ \<Rightarrow> None))"

fun knn_scan :: "(nat \<Rightarrow> sql_value list option xres) \<Rightarrow> nat list \<Rightarrow> nat \<Rightarrow> rows xres" where
  "knn_scan f [] n = Inr []"
| "knn_scan f (vid # vids) n = res_bind (f vid) (\<lambda>hit. case hit of
     None \<Rightarrow> knn_scan f vids n
   | Some row \<Rightarrow> if n \<le> 1 then Inr [row] else res_bind (knn_scan f vids (n - 1)) (\<lambda>rest. Inr (row # rest)))"

definition knn_fetch :: "'x vector_ops \<Rightarrow> 'x knn_ops \<Rightarrow> 'x \<Rightarrow> nat \<Rightarrow> nat option \<Rightarrow> nat" where
  "knn_fetch vo kn ix limit ef = (let live = max (kn_live_len kn ix) 1; total = kn_len kn ix;
       base = max (saturate (limit * KNN_OVERFETCH)) (case ef of Some n \<Rightarrow> n | None \<Rightarrow> ip_ef_search (ix_params (vi_def vo ix)))
     in min ((saturate (base * total) + live - 1) div live) total)"

definition knn_row :: "('x, 'q, 'l, 'f) exec_env \<Rightarrow> ('x, 'q) scan \<Rightarrow> table \<Rightarrow> 'l expr option \<Rightarrow> nat \<Rightarrow> sql_value list option xres" where
  "knn_row env sc t fil vid = (case version t vid of
     None \<Rightarrow> Inr None
   | Some r \<Rightarrow> if \<not> row_visible (sc_snapshot sc) (sc_writer sc) r then Inr None
       else res_bind (predicate (xe_so env) (sc_session sc) fil (ctx_row (rv_values r) (t_schema t) (sc_params sc))) (\<lambda>hit.
         Inr (if hit then Some (rv_values r) else None)))"

type_synonym 'x query_env = "('x, select_stmt, select_stmt, select_stmt from_clause) exec_env"
type_synonym 'x query_scan = "('x, select_stmt) scan"

definition knn_select :: "'x query_env \<Rightarrow> 'x knn_ops \<Rightarrow> 'x query_scan \<Rightarrow> select_stmt \<Rightarrow> string \<Rightarrow> nat option \<Rightarrow> result_set option xres" where
  "knn_select env kn sc sel name ef = res_bind (eval_count (xe_so env) (sc_session sc) (sel_limit sel) (sc_params sc)) (\<lambda>limit.
     case knn_plan sel limit of
       None \<Rightarrow> Inr None
     | Some (column, metric, query, lim) \<Rightarrow>
         if lim = 0 then Inr None
         else case index_for (xe_vo env) (sc_store sc) name column of
           None \<Rightarrow> Inr None
         | Some ix \<Rightarrow>
             if ip_metric (ix_params (vi_def (xe_vo env) ix)) \<noteq> metric \<or> kn_is_empty kn ix \<or> sc_snapshot sc < vi_rebuild_floor (xe_vo env) ix then Inr None
             else res_bind (sc_eval env sc query (ctx_root (sc_params sc))) (\<lambda>qv.
               case to_vec_operand (xe_so env) qv of
                 None \<Rightarrow> Inr None
               | Some v \<Rightarrow> (case get_table (sc_store sc) name of
                   None \<Rightarrow> Inr None
                 | Some t \<Rightarrow> res_bind (knn_scan (knn_row env sc t (sel_filter sel)) (kn_search kn ix v (knn_fetch (xe_vo env) kn ix lim ef) ef) lim) (\<lambda>matched.
                     res_bind (project_returning env (sc_session sc) (sel_items sel) (t_schema t) matched (sc_params sc)) (\<lambda>rs. Inr (Some rs))))))"

fun group_item :: "('x, 'q, 'l, 'f) exec_env \<Rightarrow> session_context \<Rightarrow> eval_ctx \<Rightarrow> 'l sel_item \<Rightarrow> sql_value list xres" where
  "group_item env se ctx (SStar q) = ok_or (Raised ErrSql) (ec_row ctx)"
| "group_item env se ctx (SExpr e a) = res_bind (xe_eval env se e ctx) (\<lambda>v. Inr [v])"

definition group_entry :: "('x, 'q, 'l, 'f) exec_env \<Rightarrow> session_context \<Rightarrow> 'l sel_item list \<Rightarrow> 'l expr option \<Rightarrow> (rows \<Rightarrow> eval_ctx) \<Rightarrow>
    (eval_ctx \<Rightarrow> 'l sel_item \<Rightarrow> sql_value list xres) \<Rightarrow> rows \<Rightarrow> (sql_value list \<times> rows) list xres" where
  "group_entry env se items having mk out rows = res_bind (having_holds (xe_so env) se having (mk rows)) (\<lambda>ok. if \<not> ok then Inr []
     else res_bind (collect_each (out (mk rows)) items) (\<lambda>vals. Inr [(vals, rows)]))"

definition grouped_select :: "'x query_env \<Rightarrow> 'x query_scan \<Rightarrow> select_stmt \<Rightarrow> table_schema \<Rightarrow> rows \<Rightarrow> result_set xres" where
  "grouped_select env sc sel sch matched = (let so = xe_so env; se = sc_session sc; ps = sc_params sc; mk = group_ctx (Some sch) None ps;
       plan = returning_plan env sch (sel_items sel) []
     in res_bind (make_groups so se (sel_group_by sel) (\<lambda>r. ctx_row r sch ps) matched) (\<lambda>groups.
        res_bind (collect_each (group_entry env se (sel_items sel) (sel_having sel) mk (group_item env se)) groups) (\<lambda>entries.
        res_bind (order_entries (sort_keys (\<lambda>e (out, rows). eval so se e (mk rows)) (map (resolve_order_key (sel_items sel)) (sel_order_by sel))) entries) (\<lambda>sorted.
        res_bind (eval_count so se (sel_offset sel) ps) (\<lambda>off. res_bind (eval_count so se (sel_limit sel) ps) (\<lambda>lim.
          Inr \<lparr>rs_columns = map fst plan, rs_types = map (fst \<circ> snd) plan, rs_rows = apply_offset_limit lim off (map fst sorted)\<rparr>))))))"

definition plain_select :: "'x query_env \<Rightarrow> 'x query_scan \<Rightarrow> select_stmt \<Rightarrow> table_schema \<Rightarrow> rows \<Rightarrow> result_set xres" where
  "plain_select env sc sel sch matched = (let so = xe_so env; se = sc_session sc; ps = sc_params sc in
     res_bind (order_entries (sort_keys (\<lambda>e r. eval so se e (ctx_row r sch ps)) (map (resolve_order_key (sel_items sel)) (sel_order_by sel))) matched) (\<lambda>sorted.
     res_bind (eval_count so se (sel_limit sel) ps) (\<lambda>lim. res_bind (eval_count so se (sel_offset sel) ps) (\<lambda>off.
       project_returning env se (sel_items sel) sch (apply_offset_limit lim off sorted) ps))))"

definition single_table_select :: "'x query_env \<Rightarrow> 'x knn_ops \<Rightarrow> 'x query_scan \<Rightarrow> select_stmt \<Rightarrow> string \<Rightarrow> nat option \<Rightarrow> result_set xres" where
  "single_table_select env kn sc sel name ef = (case get_table (sc_store sc) name of
     None \<Rightarrow> Inl (Raised ErrSql)
   | Some t \<Rightarrow> res_bind (rls_read env (sc_session sc) (t_schema t) PcSelect) (\<lambda>dec.
       res_bind (if dec = RlsUnrestricted then knn_select env kn sc sel name ef else Inr None) (\<lambda>k. case k of
         Some rs \<Rightarrow> Inr rs
       | None \<Rightarrow> res_bind (collect_each (scan_row env sc (t_schema t) dec (sel_filter sel)) (t_rows t)) (\<lambda>matched.
           if is_aggregated sel then grouped_select env sc sel (t_schema t) matched
           else plain_select env sc sel (t_schema t) matched))))"

fun constant_item_ok :: "'l sel_item \<Rightarrow> unit xres" where
  "constant_item_ok (SStar q) = Inl (Raised ErrSql)"
| "constant_item_ok (SExpr e a) = (if expr_has_aggregate e then Inl (Raised ErrSql) else Inr ())"

fun constant_items :: "('x, 'q, 'l, 'f) exec_env \<Rightarrow> session_context \<Rightarrow> sql_value list \<Rightarrow> nat \<Rightarrow> 'l sel_item list \<Rightarrow>
    (string \<times> column_type \<times> sql_value) list xres" where
  "constant_items env se ps n [] = Inr []"
| "constant_items env se ps n (SStar q # items) = constant_items env se ps n items"
| "constant_items env se ps n (SExpr e a # items) = res_bind (xe_eval env se e (ctx_root ps)) (\<lambda>v.
     res_bind (constant_items env se ps (n + 1) items) (\<lambda>rest. Inr ((column_name e a n, xe_expr_type env e None, v) # rest)))"

definition constant_select :: "('x, 'q, 'l, 'f) exec_env \<Rightarrow> ('x, 'q) scan \<Rightarrow> 'l sel_item list \<Rightarrow> result_set xres" where
  "constant_select env sc items = res_bind (check_each constant_item_ok items) (\<lambda>_.
     res_bind (constant_items env (sc_session sc) (sc_params sc) 0 items) (\<lambda>out.
       Inr \<lparr>rs_columns = map fst out, rs_types = map (fst \<circ> snd) out, rs_rows = [map (snd \<circ> snd) out]\<rparr>))"

end
