(* ===== verification/Relational.thy ===== *)
theory Relational
  imports Sql_Query
begin

text \<open>
  The relational executor (\<^verbatim>\<open>mod relational\<close> of \<^verbatim>\<open>crates/engine/src/exec.rs\<close>): sources, views and
  derived tables, common table expressions, subqueries folded to literals once or per row of
  the outer query, grouping, ordering, set operations; and \<^verbatim>\<open>run_select_tuned\<close>, which picks the
  path.  The functions below take the evaluation of nested queries as an argument \<open>rq\<close>;
  \<open>run_query\<close> ties the knot over the depth of the call stack, and a query that needs more depth
  than there is fails with \<open>Overflow\<close>, as the process does.
\<close>

section \<open>Sources\<close>

definition table_relation :: "'x query_env \<Rightarrow> 'x query_scan \<Rightarrow> table \<Rightarrow> string \<Rightarrow> relation xres" where
  "table_relation env sc t src = res_bind (rls_read env (sc_session sc) (t_schema t) PcSelect) (\<lambda>dec.
     res_bind (collect_each (scan_row env sc (t_schema t) dec None) (t_rows t)) (\<lambda>out.
       Inr \<lparr>re_cols = target_rel_cols (t_schema t) src, re_rows = out\<rparr>))"

definition named_relation :: "'x query_env \<Rightarrow> 'x query_scan \<Rightarrow> (select_stmt \<Rightarrow> result_set xres) \<Rightarrow> (string \<rightharpoonup> relation) \<Rightarrow> string \<Rightarrow> string \<Rightarrow> relation xres" where
  "named_relation env sc rq ctes name src = (case ctes (to_ascii_lowercase name) of
     Some cte \<Rightarrow> Inr \<lparr>re_cols = retag (re_cols cte) src, re_rows = re_rows cte\<rparr>
   | None \<Rightarrow> (case view (sc_store sc) name of
       Some q \<Rightarrow> res_bind (rq q) (\<lambda>rs. Inr (relation_from_result src rs))
     | None \<Rightarrow> (case get_table (sc_store sc) name of
         None \<Rightarrow> Inl (Raised ErrSql)
       | Some t \<Rightarrow> table_relation env sc t src)))"

primrec build_from :: "'x query_env \<Rightarrow> 'x query_scan \<Rightarrow> (select_stmt \<Rightarrow> result_set xres) \<Rightarrow> (string \<rightharpoonup> relation) \<Rightarrow> select_stmt from_clause \<Rightarrow> relation xres" where
  "build_from env sc rq ctes (FTable name alias) = named_relation env sc rq ctes name (case alias of Some a \<Rightarrow> a | None \<Rightarrow> name)"
| "build_from env sc rq ctes (FDerived q alias) = res_bind (rq q) (\<lambda>rs. Inr (relation_from_result alias rs))"
| "build_from env sc rq ctes (FJoin l r kind on us) = res_bind (build_from env sc rq ctes l) (\<lambda>lrel.
     res_bind (build_from env sc rq ctes r) (\<lambda>rrel. join_relations (xe_so env) (sc_session sc) kind on us (sc_params sc) lrel rrel))"

definition build_source :: "'x query_env \<Rightarrow> 'x query_scan \<Rightarrow> (select_stmt \<Rightarrow> result_set xres) \<Rightarrow> (string \<rightharpoonup> relation) \<Rightarrow> select_stmt from_clause option \<Rightarrow> relation xres" where
  "build_source env sc rq ctes f = (case f of None \<Rightarrow> Inr \<lparr>re_cols = [], re_rows = [[]]\<rparr> | Some c \<Rightarrow> build_from env sc rq ctes c)"

section \<open>Subqueries that do not depend on the outer row\<close>

definition one_column :: "result_set \<Rightarrow> unit xres" where
  "one_column rs = (if length (rs_columns rs) = 1 then Inr () else Inl (Raised ErrSql))"

definition pop_last :: "sql_value list \<Rightarrow> sql_value xres" where
  "pop_last r = (if r = [] then Inl Panicked else Inr (last r))"

definition subquery_scalar :: "(select_stmt \<Rightarrow> result_set xres) \<Rightarrow> select_stmt \<Rightarrow> select_stmt expr xres" where
  "subquery_scalar rq q = res_bind (rq q) (\<lambda>rs. res_bind (one_column rs) (\<lambda>_. case rs_rows rs of
     [] \<Rightarrow> Inr (ELit VNull)
   | [r] \<Rightarrow> res_bind (pop_last r) (\<lambda>v. Inr (ELit v))
   | _ \<Rightarrow> Inl (Raised ErrSql)))"

definition subquery_exists :: "(select_stmt \<Rightarrow> result_set xres) \<Rightarrow> select_stmt \<Rightarrow> bool \<Rightarrow> select_stmt expr xres" where
  "subquery_exists rq q negated = res_bind (rq q) (\<lambda>rs. Inr (ELit (int_of_bool ((rs_rows rs \<noteq> []) \<noteq> negated))))"

definition subquery_in :: "(select_stmt \<Rightarrow> result_set xres) \<Rightarrow> select_stmt expr xres \<Rightarrow> select_stmt \<Rightarrow> bool \<Rightarrow> select_stmt expr xres" where
  "subquery_in rq lhs q negated = res_bind (rq q) (\<lambda>rs. res_bind (one_column rs) (\<lambda>_.
     res_bind (collect_results (map pop_last (rs_rows rs))) (\<lambda>vs. res_bind lhs (\<lambda>e. Inr (EInList e (map ELit vs) negated)))))"

definition resolver :: "(select_stmt \<Rightarrow> result_set xres) \<Rightarrow> select_stmt rewriter" where
  "resolver rq = \<lparr>rw_ref = (\<lambda>t n. Inr (plain_ref t n)), rw_scalar = subquery_scalar rq, rw_exists = subquery_exists rq,
     rw_in = (\<lambda>e lhs. subquery_in rq lhs)\<rparr>"

definition resolve_sub :: "(select_stmt \<Rightarrow> result_set xres) \<Rightarrow> select_stmt expr \<Rightarrow> select_stmt expr xres" where
  "resolve_sub rq = rewrite_expr (resolver rq)"

definition map_item :: "(select_stmt expr \<Rightarrow> select_stmt expr xres) \<Rightarrow> select_stmt sel_item \<Rightarrow> select_stmt sel_item xres" where
  "map_item f i = (case i of SStar q \<Rightarrow> Inr (SStar q) | SExpr e a \<Rightarrow> res_bind (f e) (\<lambda>e'. Inr (SExpr e' a)))"

section \<open>Correlated subqueries\<close>

definition namespace_has :: "rel_col list \<Rightarrow> string option \<Rightarrow> string \<Rightarrow> bool" where
  "namespace_has cols table name = list_ex (rel_matches table name) cols"

definition from_namespace :: "'x query_env \<Rightarrow> 'x query_scan \<Rightarrow> (select_stmt \<Rightarrow> result_set xres) \<Rightarrow> select_stmt from_clause option \<Rightarrow> rel_col list xres" where
  "from_namespace env sc rq f = (case f of None \<Rightarrow> Inr [] | Some c \<Rightarrow> res_bind (build_from env sc rq Map.empty c) (\<lambda>rel. Inr (re_cols rel)))"

definition item_exprs :: "'l sel_item list \<Rightarrow> 'l expr list" where
  "item_exprs items = concat (map (\<lambda>i. case i of SExpr e a \<Rightarrow> [e] | SStar q \<Rightarrow> []) items)"

definition select_shallow_refs :: "select_stmt \<Rightarrow> (string option \<times> string) list" where
  "select_shallow_refs sel = concat (map shallow_refs (opt_list (map_option (\<lambda>e. [e]) (sel_filter sel)) @ item_exprs (sel_items sel) @
     sel_group_by sel @ opt_list (map_option (\<lambda>e. [e]) (sel_having sel)) @ map ok_expr (sel_order_by sel)))"

definition subquery_correlated :: "'x query_env \<Rightarrow> 'x query_scan \<Rightarrow> (select_stmt \<Rightarrow> result_set xres) \<Rightarrow> rel_col list \<Rightarrow> select_stmt \<Rightarrow> bool xres" where
  "subquery_correlated env sc rq outer q = res_bind (from_namespace env sc rq (sel_from q)) (\<lambda>inner.
     Inr (list_ex (\<lambda>(t, n). \<not> namespace_has inner t n \<and> namespace_has outer t n) (select_shallow_refs q)))"

fun first_true :: "bool xres list \<Rightarrow> bool xres" where
  "first_true [] = Inr False"
| "first_true (r # rs) = res_bind r (\<lambda>b. if b then Inr True else first_true rs)"

primrec expr_has_correlated :: "('l \<Rightarrow> bool xres) \<Rightarrow> 'l expr \<Rightarrow> bool xres" where
  "expr_has_correlated f ENull = Inr False"
| "expr_has_correlated f (EInt i) = Inr False"
| "expr_has_correlated f (EReal r) = Inr False"
| "expr_has_correlated f (EStr s) = Inr False"
| "expr_has_correlated f (EVector v) = Inr False"
| "expr_has_correlated f (ELit v) = Inr False"
| "expr_has_correlated f (EParam i) = Inr False"
| "expr_has_correlated f (EColumn n) = Inr False"
| "expr_has_correlated f (EBinary op l r) = first_true [expr_has_correlated f l, expr_has_correlated f r]"
| "expr_has_correlated f (EUnary op e) = expr_has_correlated f e"
| "expr_has_correlated f (EIsNull e neg) = expr_has_correlated f e"
| "expr_has_correlated f (ELike e pattern escape neg ci) =
     first_true ([expr_has_correlated f e, expr_has_correlated f pattern] @ opt_list (map_option (\<lambda>x. [x]) (map_option (expr_has_correlated f) escape)))"
| "expr_has_correlated f (EInList e items neg) = first_true (expr_has_correlated f e # map (expr_has_correlated f) items)"
| "expr_has_correlated f (EBetween e lo hi neg) = first_true [expr_has_correlated f e, expr_has_correlated f lo, expr_has_correlated f hi]"
| "expr_has_correlated f (ECase operand whens els) =
     first_true (opt_list (map_option (\<lambda>x. [x]) (map_option (expr_has_correlated f) operand)) @
       concat (map (\<lambda>(c, r). [c, r]) (map (map_prod (expr_has_correlated f) (expr_has_correlated f)) whens)) @
       opt_list (map_option (\<lambda>x. [x]) (map_option (expr_has_correlated f) els)))"
| "expr_has_correlated f (EExcluded n) = Inr False"
| "expr_has_correlated f EDefault = Inr False"
| "expr_has_correlated f (ECast e t) = expr_has_correlated f e"
| "expr_has_correlated f (EFunc n args) = first_true (map (expr_has_correlated f) args)"
| "expr_has_correlated f (EAggregate func arg u sep) =
     first_true (opt_list (map_option (\<lambda>x. [x]) (map_option (expr_has_correlated f) arg)) @
       opt_list (map_option (\<lambda>x. [x]) (map_option (expr_has_correlated f) sep)))"
| "expr_has_correlated f (EQualified t n) = Inr False"
| "expr_has_correlated f (EScalarSubquery q) = f q"
| "expr_has_correlated f (EExists q neg) = f q"
| "expr_has_correlated f (EInSubquery e q neg) = first_true [expr_has_correlated f e, f q]"

definition select_has_correlated :: "'x query_env \<Rightarrow> 'x query_scan \<Rightarrow> (select_stmt \<Rightarrow> result_set xres) \<Rightarrow> rel_col list \<Rightarrow> select_stmt \<Rightarrow> bool xres" where
  "select_has_correlated env sc rq outer sel = first_true (map (expr_has_correlated (subquery_correlated env sc rq outer))
     (opt_list (map_option (\<lambda>e. [e]) (sel_filter sel)) @ item_exprs (sel_items sel)))"

definition bind_ref :: "rel_col list \<Rightarrow> rel_col list \<Rightarrow> sql_value list \<Rightarrow> string option \<Rightarrow> string \<Rightarrow> 'l expr xres" where
  "bind_ref inner outer row table name = (if namespace_has inner table name then Inr (plain_ref table name)
     else case resolve_col outer table name of
       Inr idx \<Rightarrow> res_bind (index_row row idx) (\<lambda>v. Inr (ELit v))
     | Inl _ \<Rightarrow> Inr (plain_ref table name))"

definition row_binder :: "rel_col list \<Rightarrow> rel_col list \<Rightarrow> sql_value list \<Rightarrow> 'l rewriter" where
  "row_binder inner outer row = \<lparr>rw_ref = bind_ref inner outer row, rw_scalar = (\<lambda>q. Inr (EScalarSubquery q)),
     rw_exists = (\<lambda>q neg. Inr (EExists q neg)), rw_in = (\<lambda>e lhs q neg. Inr (EInSubquery e q neg))\<rparr>"

definition bind_expr :: "rel_col list \<Rightarrow> rel_col list \<Rightarrow> sql_value list \<Rightarrow> select_stmt expr \<Rightarrow> select_stmt expr xres" where
  "bind_expr inner outer row = rewrite_expr (row_binder inner outer row)"

definition bind_select :: "rel_col list \<Rightarrow> rel_col list \<Rightarrow> sql_value list \<Rightarrow> select_stmt \<Rightarrow> select_stmt xres" where
  "bind_select inner outer row sel = (let b = bind_expr inner outer row in
     res_bind (rewrite_opt (map_option b (sel_filter sel))) (\<lambda>filter'.
     res_bind (collect_results (map (map_item b) (sel_items sel))) (\<lambda>items'.
     res_bind (collect_results (map b (sel_group_by sel))) (\<lambda>group_by'.
     res_bind (rewrite_opt (map_option b (sel_having sel))) (\<lambda>having'.
     res_bind (collect_results (map (\<lambda>k. res_bind (b (ok_expr k)) (\<lambda>e. Inr (OrderKey e (ok_asc k) (ok_nulls_first k)))) (sel_order_by sel))) (\<lambda>order_by'.
       Inr (SelectStmt (sel_with sel) (sel_distinct sel) items' (sel_from sel) filter' group_by' having' (sel_set_ops sel) order_by'
         (sel_limit sel) (sel_offset sel))))))))"

definition bind_subquery :: "'x query_env \<Rightarrow> 'x query_scan \<Rightarrow> (select_stmt \<Rightarrow> result_set xres) \<Rightarrow> rel_col list \<Rightarrow> sql_value list \<Rightarrow> select_stmt \<Rightarrow> select_stmt xres" where
  "bind_subquery env sc rq outer row q = res_bind (from_namespace env sc rq (sel_from q)) (\<lambda>inner. bind_select inner outer row q)"

definition folder :: "'x query_env \<Rightarrow> 'x query_scan \<Rightarrow> (select_stmt \<Rightarrow> result_set xres) \<Rightarrow> rel_col list \<Rightarrow> sql_value list \<Rightarrow> select_stmt rewriter" where
  "folder env sc rq outer row = \<lparr>rw_ref = (\<lambda>t n. Inr (plain_ref t n)),
     rw_scalar = (\<lambda>q. res_bind (bind_subquery env sc rq outer row q) (subquery_scalar rq)),
     rw_exists = (\<lambda>q neg. res_bind (bind_subquery env sc rq outer row q) (\<lambda>q'. subquery_exists rq q' neg)),
     rw_in = (\<lambda>e lhs q neg. res_bind lhs (\<lambda>x. res_bind (bind_subquery env sc rq outer row q) (\<lambda>q'. subquery_in rq (resolve_sub rq x) q' neg)))\<rparr>"

definition fold_corr :: "'x query_env \<Rightarrow> 'x query_scan \<Rightarrow> (select_stmt \<Rightarrow> result_set xres) \<Rightarrow> rel_col list \<Rightarrow> sql_value list \<Rightarrow> select_stmt expr \<Rightarrow> select_stmt expr xres" where
  "fold_corr env sc rq outer row = rewrite_expr (folder env sc rq outer row)"

section \<open>One select core\<close>

text \<open>The clauses a core is evaluated with: raw for a correlated query, otherwise with its subqueries
  replaced by literals.\<close>

record clauses =
  cl_filter :: "select_stmt expr option"
  cl_items :: "select_stmt sel_item list"
  cl_group_by :: "select_stmt expr list"
  cl_having :: "select_stmt expr option"

definition resolve_clauses :: "(select_stmt \<Rightarrow> result_set xres) \<Rightarrow> select_stmt \<Rightarrow> bool \<Rightarrow> clauses xres" where
  "resolve_clauses rq sel correlated =
     (if correlated then Inr \<lparr>cl_filter = sel_filter sel, cl_items = sel_items sel, cl_group_by = sel_group_by sel, cl_having = sel_having sel\<rparr>
      else let f = resolve_sub rq in
        res_bind (rewrite_opt (map_option f (sel_filter sel))) (\<lambda>filter'.
        res_bind (collect_results (map (map_item f) (sel_items sel))) (\<lambda>items'.
        res_bind (collect_results (map f (sel_group_by sel))) (\<lambda>group_by'.
        res_bind (rewrite_opt (map_option f (sel_having sel))) (\<lambda>having'.
          Inr \<lparr>cl_filter = filter', cl_items = items', cl_group_by = group_by', cl_having = having'\<rparr>)))))"

definition collect_kept :: "'x query_env \<Rightarrow> 'x query_scan \<Rightarrow> (select_stmt \<Rightarrow> result_set xres) \<Rightarrow> rel_col list \<Rightarrow> select_stmt expr option \<Rightarrow> bool \<Rightarrow> rows \<Rightarrow> rows xres" where
  "collect_kept env sc rq cols fil correlated rows = collect_each (\<lambda>row.
     res_bind (if correlated then rewrite_opt (map_option (fold_corr env sc rq cols row) fil) else Inr fil) (\<lambda>f.
     res_bind (predicate (xe_so env) (sc_session sc) f (ctx_rel row cols (sc_params sc))) (\<lambda>ok. Inr (if ok then [row] else [])))) rows"

definition star_includes :: "string option \<Rightarrow> rel_col \<Rightarrow> bool" where
  "star_includes qualifier c = (case qualifier of None \<Rightarrow> True
     | Some q \<Rightarrow> (case rc_table c of Some t \<Rightarrow> eq_ignore_ascii_case t q | None \<Rightarrow> False))"

fun output_columns :: "select_stmt sel_item list \<Rightarrow> rel_col list \<Rightarrow> (string \<times> column_type) list \<Rightarrow> (string \<times> column_type) list" where
  "output_columns [] cols acc = acc"
| "output_columns (SStar q # items) cols acc = output_columns items cols (acc @ map (\<lambda>c. (rc_name c, rc_ty c)) (filter (star_includes q) cols))"
| "output_columns (SExpr e a # items) cols acc = output_columns items cols (acc @ [(column_name e a (length acc), rel_expr_type e cols)])"

definition star_values :: "string option \<Rightarrow> rel_col list \<Rightarrow> sql_value list \<Rightarrow> sql_value list xres" where
  "star_values q cols row = collect_each (\<lambda>(i, c). if star_includes q c then res_bind (index_row row i) (\<lambda>v. Inr [v]) else Inr []) (enumerate 0 cols)"

fun rel_project_item :: "'x query_env \<Rightarrow> session_context \<Rightarrow> rel_col list \<Rightarrow> eval_ctx \<Rightarrow> select_stmt sel_item \<Rightarrow> sql_value list xres" where
  "rel_project_item env se cols ctx (SStar q) = res_bind (ok_or (Raised ErrSql) (ec_row ctx)) (star_values q cols)"
| "rel_project_item env se cols ctx (SExpr e a) = res_bind (xe_eval env se e ctx) (\<lambda>v. Inr [v])"

definition plain_entry :: "'x query_env \<Rightarrow> 'x query_scan \<Rightarrow> (select_stmt \<Rightarrow> result_set xres) \<Rightarrow> rel_col list \<Rightarrow> bool \<Rightarrow> select_stmt sel_item list \<Rightarrow>
    sql_value list \<Rightarrow> (sql_value list \<times> rows) xres" where
  "plain_entry env sc rq cols correlated items row = res_bind (collect_each (\<lambda>item.
     res_bind (if correlated then map_item (fold_corr env sc rq cols row) item else Inr item) (\<lambda>i.
       rel_project_item env (sc_session sc) cols (ctx_rel row cols (sc_params sc)) i)) items) (\<lambda>out. Inr (out, [row]))"

definition build_entries :: "'x query_env \<Rightarrow> 'x query_scan \<Rightarrow> (select_stmt \<Rightarrow> result_set xres) \<Rightarrow> rel_col list \<Rightarrow> bool \<Rightarrow> bool \<Rightarrow> clauses \<Rightarrow> rows \<Rightarrow>
    (sql_value list \<times> rows) list xres" where
  "build_entries env sc rq cols aggregated correlated cl kept =
     (if aggregated then
        res_bind (make_groups (xe_so env) (sc_session sc) (cl_group_by cl) (\<lambda>r. ctx_rel r cols (sc_params sc)) kept)
          (collect_each (group_entry env (sc_session sc) (cl_items cl) (cl_having cl) (group_ctx None (Some cols) (sc_params sc))
            (rel_project_item env (sc_session sc) cols)))
      else collect_results (map (plain_entry env sc rq cols correlated (cl_items cl)) kept))"

definition core_order :: "'x query_env \<Rightarrow> 'x query_scan \<Rightarrow> select_stmt \<Rightarrow> rel_col list \<Rightarrow> select_stmt sel_item list \<Rightarrow> bool \<Rightarrow> (sql_value list \<times> rows) list \<Rightarrow> rows xres" where
  "core_order env sc sel cols items apply_tail entries = res_bind (order_entries
     (sort_keys (\<lambda>e (out, members). sc_eval env sc e (group_ctx None (Some cols) (sc_params sc) members))
       (if apply_tail then map (resolve_order_key items) (sel_order_by sel) else [])) entries) (\<lambda>sorted. Inr (map fst sorted))"

definition core_tail :: "'x query_env \<Rightarrow> 'x query_scan \<Rightarrow> select_stmt \<Rightarrow> bool \<Rightarrow> rows \<Rightarrow> rows xres" where
  "core_tail env sc sel apply_tail rows = (let uniq = (if sel_distinct sel then dedup_rows (xe_so env) rows else rows) in
     if apply_tail then
       res_bind (eval_count (xe_so env) (sc_session sc) (sel_offset sel) (sc_params sc)) (\<lambda>off.
       res_bind (eval_count (xe_so env) (sc_session sc) (sel_limit sel) (sc_params sc)) (\<lambda>lim. Inr (apply_offset_limit lim off uniq)))
     else Inr uniq)"

definition eval_core :: "'x query_env \<Rightarrow> 'x query_scan \<Rightarrow> (select_stmt \<Rightarrow> result_set xres) \<Rightarrow> (string \<rightharpoonup> relation) \<Rightarrow> bool \<Rightarrow> select_stmt \<Rightarrow> result_set xres" where
  "eval_core env sc rq ctes apply_tail sel =
     res_bind (build_source env sc rq ctes (sel_from sel)) (\<lambda>rel. let cols = re_cols rel; aggregated = is_aggregated sel in
     res_bind (if aggregated then Inr False else select_has_correlated env sc rq cols sel) (\<lambda>correlated.
     res_bind (resolve_clauses rq sel correlated) (\<lambda>cl.
     res_bind (collect_kept env sc rq cols (cl_filter cl) correlated (re_rows rel)) (\<lambda>kept.
     res_bind (build_entries env sc rq cols aggregated correlated cl kept) (\<lambda>entries.
     res_bind (core_order env sc sel cols (cl_items cl) apply_tail entries) (\<lambda>rows.
     res_bind (core_tail env sc sel apply_tail rows) (\<lambda>rows'. let out = output_columns (cl_items cl) cols [] in
       Inr \<lparr>rs_columns = map fst out, rs_types = map snd out, rs_rows = rows'\<rparr>)))))))"

section \<open>Whole queries\<close>

fun run_ctes :: "(select_stmt \<Rightarrow> result_set xres) \<Rightarrow> (string \<times> select_stmt) list \<Rightarrow> (string \<rightharpoonup> relation) \<Rightarrow> (string \<rightharpoonup> relation) xres" where
  "run_ctes rq [] ctes = Inr ctes"
| "run_ctes rq ((name, q) # defs) ctes = res_bind (rq q) (\<lambda>rs. run_ctes rq defs (ctes(to_ascii_lowercase name \<mapsto> relation_from_result name rs)))"

fun run_arms :: "'x query_env \<Rightarrow> 'x query_scan \<Rightarrow> (select_stmt \<Rightarrow> result_set xres) \<Rightarrow> (string \<rightharpoonup> relation) \<Rightarrow> (set_op \<times> bool \<times> select_stmt) list \<Rightarrow>
    result_set \<Rightarrow> result_set xres" where
  "run_arms env sc rq ctes [] acc = Inr acc"
| "run_arms env sc rq ctes ((op, all, q) # arms) acc = res_bind (eval_core env sc rq ctes True q) (\<lambda>rhs.
     res_bind (combine_set_op (xe_so env) acc rhs op all) (run_arms env sc rq ctes arms))"

definition query_body :: "'x query_env \<Rightarrow> 'x query_scan \<Rightarrow> (select_stmt \<Rightarrow> result_set xres) \<Rightarrow> select_stmt \<Rightarrow> result_set xres" where
  "query_body env sc rq sel = res_bind (run_ctes rq (sel_with sel) Map.empty) (\<lambda>ctes.
     if sel_set_ops sel = [] then eval_core env sc rq ctes True sel
     else res_bind (eval_core env sc rq ctes False sel) (\<lambda>acc. res_bind (run_arms env sc rq ctes (sel_set_ops sel) acc) (\<lambda>acc.
       apply_output_order_limit (xe_so env) (sc_session sc) sel (sc_params sc) acc)))"

primrec run_query :: "'x query_env \<Rightarrow> 'x query_scan \<Rightarrow> nat \<Rightarrow> select_stmt \<Rightarrow> result_set xres" where
  "run_query env sc 0 = (\<lambda>sel. Inl Overflow)"
| "run_query env sc (Suc n) = query_body env sc (run_query env sc n)"

definition materialize :: "'x query_env \<Rightarrow> 'x query_scan \<Rightarrow> nat \<Rightarrow> select_stmt from_clause \<Rightarrow> (rel_col list \<times> rows) xres" where
  "materialize env sc n f = res_bind (build_from env sc (run_query env sc n) Map.empty f) (\<lambda>rel. Inr (re_cols rel, re_rows rel))"

definition select_has_subquery :: "select_stmt \<Rightarrow> bool" where
  "select_has_subquery sel = list_ex expr_has_subquery (item_exprs (sel_items sel) @ opt_list (map_option (\<lambda>e. [e]) (sel_filter sel)) @
     sel_group_by sel @ opt_list (map_option (\<lambda>e. [e]) (sel_having sel)) @ map ok_expr (sel_order_by sel))"

definition needs_relational :: "select_stmt \<Rightarrow> bool" where
  "needs_relational sel \<longleftrightarrow> sel_with sel \<noteq> [] \<or> sel_distinct sel \<or> sel_set_ops sel \<noteq> [] \<or>
     (case sel_from sel of Some (FJoin l r k on us) \<Rightarrow> True | Some (FDerived q a) \<Rightarrow> True | _ \<Rightarrow> False) \<or> select_has_subquery sel"

definition run_select_tuned :: "'x query_env \<Rightarrow> 'x knn_ops \<Rightarrow> 'x query_scan \<Rightarrow> nat \<Rightarrow> nat option \<Rightarrow> select_stmt \<Rightarrow> result_set xres" where
  "run_select_tuned env kn sc n ef sel = (if needs_relational sel then run_query env sc n sel else case sel_from sel of
     Some (FTable name alias) \<Rightarrow> if get_table (sc_store sc) name \<noteq> None then single_table_select env kn sc sel name ef else run_query env sc n sel
   | None \<Rightarrow> constant_select env sc (sel_items sel)
   | _ \<Rightarrow> run_query env sc n sel)"

definition run_select :: "'x query_env \<Rightarrow> 'x knn_ops \<Rightarrow> 'x query_scan \<Rightarrow> nat \<Rightarrow> select_stmt \<Rightarrow> result_set xres" where
  "run_select env kn sc n sel = run_select_tuned env kn sc n None sel"

text \<open>The executor as one environment: the write statements evaluate their queries and row sources with the
  functions above, on a stack of depth \<open>n\<close>.  Query evaluation itself does not use the two fields.\<close>

definition base_env :: "scalar_ops \<Rightarrow> 'x vector_ops \<Rightarrow> (string \<Rightarrow> select_stmt expr xres) \<Rightarrow> 'x query_env" where
  "base_env so vo parse = \<lparr>xe_so = so, xe_vo = vo, xe_parse_expr = parse, xe_run_select = (\<lambda>_ _ _ _ _ _. Inl Panicked),
     xe_materialize = (\<lambda>_ _ _ _ _ _. Inl Panicked), xe_expr_type = expr_type\<rparr>"

definition make_scan :: "session_context \<Rightarrow> ('x, 'q) store \<Rightarrow> nat \<Rightarrow> nat option \<Rightarrow> sql_value list \<Rightarrow> ('x, 'q) scan" where
  "make_scan se st snapshot wr ps = \<lparr>sc_session = se, sc_store = st, sc_snapshot = snapshot, sc_writer = wr, sc_params = ps\<rparr>"

definition engine_env :: "scalar_ops \<Rightarrow> 'x vector_ops \<Rightarrow> (string \<Rightarrow> select_stmt expr xres) \<Rightarrow> 'x knn_ops \<Rightarrow> nat \<Rightarrow> 'x query_env" where
  "engine_env so vo parse kn n = (base_env so vo parse)\<lparr>
     xe_run_select := (\<lambda>se st q snapshot wr ps. run_select (base_env so vo parse) kn (make_scan se st snapshot wr ps) n q),
     xe_materialize := (\<lambda>se st f snapshot wr ps. materialize (base_env so vo parse) (make_scan se st snapshot wr ps) n f)\<rparr>"

end
