(* ===== verification/Query_Depth.thy ===== *)
theory Query_Depth
  imports Relational Dml_Correct
begin

text \<open>
  How deep a query recurses.  \<^verbatim>\<open>referenced_relations\<close> (\<^verbatim>\<open>crates/engine/src/sql.rs\<close>) collects the
  names a view definition mentions; \<^verbatim>\<open>CREATE VIEW\<close> uses it to refuse recursive definitions.  If
  the names a view mentions anywhere lead into no cycle, every query ends on a stack of some
  depth and more stack does not change its result; the names the code looks at leave some out.
\<close>

section \<open>Names a query mentions\<close>

primrec collect_from_refs :: "string list from_clause \<Rightarrow> string list" where
  "collect_from_refs (FTable name alias) = [name]"
| "collect_from_refs (FDerived refs alias) = refs"
| "collect_from_refs (FJoin l r kind on us) = collect_from_refs l @ collect_from_refs r @ opt_list (map_option (collect_expr_refs id) on)"

definition collect_item_refs :: "string list sel_item \<Rightarrow> string list" where
  "collect_item_refs i = (case i of SExpr e a \<Rightarrow> collect_expr_refs id e | SStar q \<Rightarrow> [])"

definition collect_key_refs :: "string list order_key \<Rightarrow> string list" where
  "collect_key_refs k = collect_expr_refs id (ok_expr k)"

primrec collect_select_refs :: "select_stmt \<Rightarrow> string list" where
  "collect_select_refs (SelectStmt w d items f fil g h ops ord lim off) =
     concat (map snd (map (map_prod id collect_select_refs) w)) @
     opt_list (map_option collect_from_refs (map_option (map_from_clause collect_select_refs) f)) @
     concat (map collect_item_refs (map (map_sel_item collect_select_refs) items)) @
     opt_list (map_option (collect_expr_refs id) (map_option (map_expr collect_select_refs) fil)) @
     concat (map (collect_expr_refs id) (map (map_expr collect_select_refs) g)) @
     opt_list (map_option (collect_expr_refs id) (map_option (map_expr collect_select_refs) h)) @
     concat (map collect_key_refs (map (map_order_key collect_select_refs) ord)) @
     concat (map (\<lambda>(op, all, refs). refs) (map (map_prod id (map_prod id collect_select_refs)) ops))"

definition referenced_relations :: "select_stmt \<Rightarrow> string list" where
  "referenced_relations sel = (let bound = map (\<lambda>(n, q). to_ascii_lowercase n) (sel_with sel)
     in filter (\<lambda>n. to_ascii_lowercase n \<notin> set bound) (collect_select_refs sel))"

section \<open>What a query evaluates below itself\<close>

primrec from_names :: "'l from_clause \<Rightarrow> string list" where
  "from_names (FTable name alias) = [name]"
| "from_names (FDerived q alias) = []"
| "from_names (FJoin l r kind on us) = from_names l @ from_names r"

definition expr_queries :: "select_stmt \<Rightarrow> select_stmt set" where
  "expr_queries sel = \<Union> (set_expr ` (set_option (sel_filter sel) \<union> set (item_exprs (sel_items sel)) \<union> set (sel_group_by sel) \<union> set_option (sel_having sel)))"

definition from_callees :: "('x, select_stmt) store \<Rightarrow> select_stmt from_clause option \<Rightarrow> select_stmt set" where
  "from_callees st f = (case f of None \<Rightarrow> {} | Some c \<Rightarrow> set_from_clause c \<union> {q. \<exists>n\<in>set (from_names c). view st n = Some q})"

definition core_callees :: "('x, select_stmt) store \<Rightarrow> select_stmt \<Rightarrow> select_stmt set" where
  "core_callees st sel = from_callees st (sel_from sel) \<union> expr_queries sel \<union> (\<Union>q\<in>expr_queries sel. from_callees st (sel_from q))"

definition callees :: "('x, select_stmt) store \<Rightarrow> select_stmt \<Rightarrow> select_stmt set" where
  "callees st sel = snd ` set (sel_with sel) \<union> core_callees st sel \<union> (\<Union>(op, all, q)\<in>set (sel_set_ops sel). core_callees st q)"

text \<open>Binding the references to the outer row changes the column references of a query and nothing else.\<close>

definition variant :: "select_stmt \<Rightarrow> select_stmt \<Rightarrow> bool" where
  "variant q q' \<longleftrightarrow> sel_with q' = sel_with q \<and> sel_from q' = sel_from q \<and> sel_set_ops q' = sel_set_ops q \<and> expr_queries q' \<subseteq> expr_queries q"

lemma variant_refl [simp]: "variant q q"
  by (simp add: variant_def)

lemma callees_variant: "variant q q' \<Longrightarrow> callees st q' \<subseteq> callees st q"
  by (auto simp: variant_def callees_def core_callees_def)

lemma opt_list_set [simp]: "set (opt_list x) = (case x of None \<Rightarrow> {} | Some l \<Rightarrow> set l)"
  by (cases x) (simp_all add: opt_list_def)

section \<open>Rewriting depends on the nested queries only\<close>

lemma res_bind_cong [fundef_cong]: "r = r' \<Longrightarrow> (\<And>x. r' = Inr x \<Longrightarrow> f x = g x) \<Longrightarrow> res_bind r f = res_bind r' g"
  by (cases r') simp_all

definition rw_agree :: "'l set \<Rightarrow> 'l rewriter \<Rightarrow> 'l rewriter \<Rightarrow> bool" where
  "rw_agree A w1 w2 \<longleftrightarrow> rw_ref w1 = rw_ref w2 \<and>
     (\<forall>q\<in>A. rw_scalar w1 q = rw_scalar w2 q \<and> rw_exists w1 q = rw_exists w2 q \<and> (\<forall>e. rw_in w1 e (rewrite_expr w2 e) q = rw_in w2 e (rewrite_expr w2 e) q))"

lemma rewrite_expr_cong:
  assumes "rw_agree A w1 w2" and "set_expr e \<subseteq> A"
  shows "rewrite_expr w1 e = rewrite_expr w2 e"
  using assms(2)
proof (induction e)
  case (ELike e p x neg ci)
  then show ?case by (cases x) (auto simp: rewrite_opt_def)
next
  case (EInList e items neg)
  then show ?case by (simp add: UN_subset_iff cong: map_cong)
next
  case (ECase o1 whens els)
  then have "map (map_prod (rewrite_expr w1) (rewrite_expr w1)) whens = map (map_prod (rewrite_expr w2) (rewrite_expr w2)) whens"
    by (force simp: UN_subset_iff)
  then have "collect_results (map rewrite_pair (map (map_prod (rewrite_expr w1) (rewrite_expr w1)) whens)) =
      collect_results (map rewrite_pair (map (map_prod (rewrite_expr w2) (rewrite_expr w2)) whens))" by (rule arg_cong)
  with ECase show ?case by (cases o1; cases els) (simp_all add: rewrite_opt_def del: map_map)
next
  case (EFunc n args)
  then show ?case by (simp add: UN_subset_iff cong: map_cong)
next
  case (EAggregate func arg u sep)
  then show ?case by (cases arg; cases sep) (auto simp: rewrite_opt_def)
qed (use assms(1) in \<open>simp_all add: rw_agree_def\<close>)

text \<open>The queries left in a rewritten expression.\<close>

definition rw_within :: "'l set \<Rightarrow> 'l set \<Rightarrow> 'l rewriter \<Rightarrow> bool" where
  "rw_within A B w \<longleftrightarrow> (\<forall>t n x. rw_ref w t n = Inr x \<longrightarrow> set_expr x \<subseteq> B) \<and>
     (\<forall>q\<in>A. (\<forall>x. rw_scalar w q = Inr x \<longrightarrow> set_expr x \<subseteq> B) \<and> (\<forall>neg x. rw_exists w q neg = Inr x \<longrightarrow> set_expr x \<subseteq> B) \<and>
       (\<forall>e lhs neg x. rw_in w e lhs q neg = Inr x \<longrightarrow> set_expr e \<subseteq> A \<longrightarrow> (\<forall>y. lhs = Inr y \<longrightarrow> set_expr y \<subseteq> B) \<longrightarrow> set_expr x \<subseteq> B))"

lemma rewrite_opt_Inr: "rewrite_opt (map_option f x) = Inr y \<Longrightarrow> z \<in> set_option y \<Longrightarrow> \<exists>e\<in>set_option x. f e = Inr z"
  by (cases x) (auto simp: rewrite_opt_def)

lemma collect_map_Inr:
  assumes "collect_results (map f xs) = Inr ys" and "y \<in> set ys"
  shows "\<exists>x\<in>set xs. f x = Inr y"
proof -
  from assms(1) have "set (map f xs) = set (map Inr ys)" by (simp only: collect_results_Inr)
  with assms(2) have "Inr y \<in> f ` set xs" by auto
  then show ?thesis by (metis imageE)
qed

lemma collect_pairs_Inr:
  assumes "collect_results (map rewrite_pair (map (map_prod f f) ps)) = Inr ys" and "(a, b) \<in> set ys"
  shows "\<exists>(c, r)\<in>set ps. f c = Inr a \<and> f r = Inr b"
proof -
  obtain p where "p \<in> set (map (map_prod f f) ps)" "rewrite_pair p = Inr (a, b)" using collect_map_Inr [OF assms] by blast
  then show ?thesis by (fastforce simp: rewrite_pair_def)
qed

lemma rewrite_expr_within:
  assumes "rw_within A B w" and "set_expr e \<subseteq> A" and "rewrite_expr w e = Inr e'"
  shows "set_expr e' \<subseteq> B"
  using assms(2,3)
proof (induction e arbitrary: e')
  case (EBinary op l r)
  then show ?case by auto
next
  case (ELike e p x neg ci)
  then obtain e1 p1 x1 where e: "rewrite_expr w e = Inr e1" "rewrite_expr w p = Inr p1" "rewrite_opt (map_option (rewrite_expr w) x) = Inr x1"
    "e' = ELike e1 p1 x1 neg ci" by auto
  have "\<forall>z\<in>set_option x1. set_expr z \<subseteq> B" using rewrite_opt_Inr [OF e(3)] ELike by (simp add: UN_subset_iff) blast
  with e ELike show ?case by (simp add: UN_subset_iff)
next
  case (EInList e items neg)
  then obtain x xs where e: "rewrite_expr w e = Inr x" "collect_results (map (rewrite_expr w) items) = Inr xs" "e' = EInList x xs neg" by auto
  have "\<forall>z\<in>set xs. set_expr z \<subseteq> B" using collect_map_Inr [OF e(2)] EInList by (simp add: UN_subset_iff) blast
  with e EInList show ?case by (simp add: UN_subset_iff)
next
  case (ECase o1 whens els)
  then obtain o2 ws es where e: "rewrite_opt (map_option (rewrite_expr w) o1) = Inr o2"
    "collect_results (map rewrite_pair (map (map_prod (rewrite_expr w) (rewrite_expr w)) whens)) = Inr ws"
    "rewrite_opt (map_option (rewrite_expr w) els) = Inr es" "e' = ECase o2 ws es" by (auto simp del: map_map)
  have "\<forall>z\<in>set_option o2. set_expr z \<subseteq> B" using rewrite_opt_Inr [OF e(1)] ECase by (simp add: UN_subset_iff) blast
  moreover have "\<forall>z\<in>set_option es. set_expr z \<subseteq> B" using rewrite_opt_Inr [OF e(3)] ECase by (simp add: UN_subset_iff) blast
  moreover have "set_expr a \<subseteq> B \<and> set_expr b \<subseteq> B" if h: "(a, b) \<in> set ws" for a b
  proof -
    obtain c r where cr: "(c, r) \<in> set whens" "rewrite_expr w c = Inr a" "rewrite_expr w r = Inr b"
      using collect_pairs_Inr [OF e(2) h] by blast
    have "set_expr c \<subseteq> A" "set_expr r \<subseteq> A" using ECase.prems(1) cr(1) by (fastforce simp: UN_subset_iff)+
    with ECase.IH(2) [OF cr(1), of c a] ECase.IH(3) [OF cr(1), of r b] cr show ?thesis by simp
  qed
  ultimately show ?case using e(4) by (auto simp: UN_subset_iff) blast+
next
  case (EFunc n args)
  then obtain xs where e: "collect_results (map (rewrite_expr w) args) = Inr xs" "e' = EFunc n xs" by auto
  have "\<forall>z\<in>set xs. set_expr z \<subseteq> B" using collect_map_Inr [OF e(1)] EFunc by (simp add: UN_subset_iff) blast
  with e show ?case by (simp add: UN_subset_iff)
next
  case (EAggregate func arg u sep)
  then obtain a s where e: "rewrite_opt (map_option (rewrite_expr w) arg) = Inr a" "rewrite_opt (map_option (rewrite_expr w) sep) = Inr s"
    "e' = EAggregate func a u s" by auto
  have "\<forall>z\<in>set_option a. set_expr z \<subseteq> B" using rewrite_opt_Inr [OF e(1)] EAggregate by (simp add: UN_subset_iff) blast
  moreover have "\<forall>z\<in>set_option s. set_expr z \<subseteq> B" using rewrite_opt_Inr [OF e(2)] EAggregate by (simp add: UN_subset_iff) blast
  ultimately show ?case using e by (simp add: UN_subset_iff)
next
  case (EBetween e lo hi neg)
  then show ?case by auto
next
  case (EInSubquery e q neg)
  then have "q \<in> A" "set_expr e \<subseteq> A" "rw_in w e (rewrite_expr w e) q neg = Inr e'" "\<forall>y. rewrite_expr w e = Inr y \<longrightarrow> set_expr y \<subseteq> B" by simp_all
  with assms(1) show ?case unfolding rw_within_def by blast
qed (use assms(1) in \<open>auto simp: rw_within_def\<close>)

section \<open>Evaluation depends on the nested queries only\<close>

definition agree :: "select_stmt set \<Rightarrow> (select_stmt \<Rightarrow> result_set xres) \<Rightarrow> (select_stmt \<Rightarrow> result_set xres) \<Rightarrow> bool" where
  "agree S rq1 rq2 \<longleftrightarrow> (\<forall>q\<in>S. \<forall>q'. variant q q' \<longrightarrow> rq1 q' = rq2 q')"

lemma agreeD: "agree S rq1 rq2 \<Longrightarrow> q \<in> S \<Longrightarrow> rq1 q = rq2 q"
  by (simp add: agree_def)

lemma agree_mono: "agree S rq1 rq2 \<Longrightarrow> T \<subseteq> S \<Longrightarrow> agree T rq1 rq2"
  by (auto simp: agree_def)

lemma build_from_cong:
  assumes "agree (from_callees (sc_store sc) (Some f)) rq1 rq2"
  shows "build_from env sc rq1 ctes f = build_from env sc rq2 ctes f"
  using assms
proof (induction f)
  case (FTable name al)
  then show ?case by (auto simp: named_relation_def from_callees_def agree_def split: option.splits)
next
  case (FDerived q al)
  then show ?case by (simp add: from_callees_def agree_def)
next
  case (FJoin l r kind on us)
  have "agree (from_callees (sc_store sc) (Some l)) rq1 rq2" "agree (from_callees (sc_store sc) (Some r)) rq1 rq2"
    by (rule agree_mono [OF FJoin.prems]; auto simp: from_callees_def)+
  with FJoin.IH show ?case by simp
qed

lemma build_source_cong:
  "agree (from_callees (sc_store sc) f) rq1 rq2 \<Longrightarrow> build_source env sc rq1 ctes f = build_source env sc rq2 ctes f"
  by (cases f) (simp_all add: build_source_def build_from_cong)

lemma from_namespace_cong:
  "agree (from_callees (sc_store sc) f) rq1 rq2 \<Longrightarrow> from_namespace env sc rq1 f = from_namespace env sc rq2 f"
  by (cases f) (simp_all add: from_namespace_def build_from_cong)

lemma resolve_sub_cong: "agree (set_expr e) rq1 rq2 \<Longrightarrow> resolve_sub rq1 e = resolve_sub rq2 e"
  unfolding resolve_sub_def
  by (rule rewrite_expr_cong [of "set_expr e"])
    (auto simp: rw_agree_def resolver_def subquery_scalar_def subquery_exists_def subquery_in_def fun_eq_iff dest: agreeD)

lemma plain_ref_queries [simp]: "set_expr (plain_ref t n) = {}"
  by (simp add: plain_ref_def split: option.splits)

lemma bind_expr_queries: "bind_expr inner outer row e = Inr e' \<Longrightarrow> set_expr e' \<subseteq> set_expr e"
  unfolding bind_expr_def
  by (rule rewrite_expr_within [of "set_expr e"])
    (auto simp: rw_within_def row_binder_def bind_ref_def split: if_splits sum.splits)

lemma map_item_Inr: "map_item f i = Inr j \<Longrightarrow> e' \<in> set (item_exprs [j]) \<Longrightarrow> \<exists>e\<in>set (item_exprs [i]). f e = Inr e'"
  by (auto simp: map_item_def item_exprs_def split: sel_item.splits)

lemma item_exprs_Inr:
  assumes "collect_results (map (map_item f) items) = Inr items'" and "e' \<in> set (item_exprs items')"
  shows "\<exists>e\<in>set (item_exprs items). f e = Inr e'"
proof -
  obtain j where j: "j \<in> set items'" "e' \<in> set (item_exprs [j])" using assms(2) by (auto simp: item_exprs_def)
  obtain i where i: "i \<in> set items" "map_item f i = Inr j" using collect_map_Inr [OF assms(1) j(1)] by blast
  with map_item_Inr [OF i(2) j(2)] show ?thesis by (auto simp: item_exprs_def)
qed

lemma bind_select_variant:
  assumes "bind_select inner outer row q = Inr q'"
  shows "variant q q'"
proof -
  let ?b = "bind_expr inner outer row"
  obtain f i g h o1 where b: "rewrite_opt (map_option ?b (sel_filter q)) = Inr f" "collect_results (map (map_item ?b) (sel_items q)) = Inr i"
    "collect_results (map ?b (sel_group_by q)) = Inr g" "rewrite_opt (map_option ?b (sel_having q)) = Inr h"
    "q' = SelectStmt (sel_with q) (sel_distinct q) i (sel_from q) f g h (sel_set_ops q) o1 (sel_limit q) (sel_offset q)"
    using assms by (auto simp: bind_select_def Let_def)
  have "\<exists>e\<in>set_option (sel_filter q) \<union> set (item_exprs (sel_items q)) \<union> set (sel_group_by q) \<union> set_option (sel_having q). ?b e = Inr e'"
    if "e' \<in> set_option f \<union> set (item_exprs i) \<union> set g \<union> set_option h" for e'
    using that rewrite_opt_Inr [OF b(1)] item_exprs_Inr [OF b(2)] collect_map_Inr [OF b(3)] rewrite_opt_Inr [OF b(4)] by blast
  moreover have "set_expr e' \<subseteq> set_expr e" if "?b e = Inr e'" for e e' using that by (rule bind_expr_queries)
  ultimately have "expr_queries q' \<subseteq> expr_queries q"
    using b(5) unfolding expr_queries_def by (intro UN_least) (metis SUP_upper2 select_stmt.sel)
  with b(5) show ?thesis by (simp add: variant_def)
qed

lemma bind_subquery_cong: "agree (from_callees (sc_store sc) (sel_from q)) rq1 rq2 \<Longrightarrow>
    bind_subquery env sc rq1 outer row q = bind_subquery env sc rq2 outer row q"
  by (simp add: bind_subquery_def from_namespace_cong)

lemma bind_subquery_variant: "bind_subquery env sc rq outer row q = Inr q' \<Longrightarrow> variant q q'"
  using bind_select_variant by (auto simp: bind_subquery_def)

lemma subquery_scalar_literal:
  assumes "subquery_scalar rq q = Inr x"
  shows "set_expr x = {}"
proof -
  from assms obtain rs where "rq q = Inr rs" by (auto simp: subquery_scalar_def)
  with assms show ?thesis by (cases "rs_rows rs"; cases "tl (rs_rows rs)") (auto simp: subquery_scalar_def)
qed

lemma subquery_literals:
  "subquery_exists rq q neg = Inr x \<Longrightarrow> set_expr x = {}"
  "subquery_in rq lhs q neg = Inr x \<Longrightarrow> (\<And>y. lhs = Inr y \<Longrightarrow> set_expr y = {}) \<Longrightarrow> set_expr x = {}"
  by (auto simp: subquery_exists_def subquery_in_def)

lemma resolve_sub_queries: "resolve_sub rq e = Inr e' \<Longrightarrow> set_expr e' = {}"
  unfolding resolve_sub_def
  by (rule subset_empty [THEN iffD1], rule rewrite_expr_within [of "set_expr e"])
    (auto simp: rw_within_def resolver_def dest: subquery_scalar_literal subquery_literals)

lemma fold_corr_queries: "fold_corr env sc rq outer row e = Inr e' \<Longrightarrow> set_expr e' = {}"
  unfolding fold_corr_def
  by (rule subset_empty [THEN iffD1], rule rewrite_expr_within [of "set_expr e"])
    (auto simp: rw_within_def folder_def dest: subquery_scalar_literal subquery_literals resolve_sub_queries)

lemma fold_corr_cong:
  assumes "agree (set_expr e \<union> (\<Union>q\<in>set_expr e. from_callees (sc_store sc) (sel_from q))) rq1 rq2"
  shows "fold_corr env sc rq1 outer row e = fold_corr env sc rq2 outer row e"
proof -
  have bind: "bind_subquery env sc rq1 outer row q = bind_subquery env sc rq2 outer row q" if "q \<in> set_expr e" for q
    by (rule bind_subquery_cong, rule agree_mono [OF assms]) (use that in blast)
  have run: "rq1 q' = rq2 q'" if "q \<in> set_expr e" "bind_subquery env sc rq2 outer row q = Inr q'" for q q'
    using assms that bind_subquery_variant [OF that(2)] by (auto simp: agree_def)
  have lhs: "resolve_sub rq1 x = resolve_sub rq2 x" if "rewrite_expr (folder env sc rq2 outer row) e0 = Inr x" for e0 x
    by (rule resolve_sub_cong) (use fold_corr_queries [unfolded fold_corr_def, OF that] in \<open>simp add: agree_def\<close>)
  have "rw_agree (set_expr e) (folder env sc rq1 outer row) (folder env sc rq2 outer row)"
    unfolding rw_agree_def
  proof (intro conjI ballI allI)
    fix q e0 assume q: "q \<in> set_expr e"
    show "rw_scalar (folder env sc rq1 outer row) q = rw_scalar (folder env sc rq2 outer row) q"
      using bind [OF q] run [OF q] by (simp add: folder_def subquery_scalar_def cong: res_bind_cong)
    show "rw_exists (folder env sc rq1 outer row) q = rw_exists (folder env sc rq2 outer row) q"
      using bind [OF q] run [OF q] by (simp add: folder_def subquery_exists_def fun_eq_iff cong: res_bind_cong)
    show "rw_in (folder env sc rq1 outer row) e0 (rewrite_expr (folder env sc rq2 outer row) e0) q =
        rw_in (folder env sc rq2 outer row) e0 (rewrite_expr (folder env sc rq2 outer row) e0) q"
      using bind [OF q] run [OF q] lhs by (simp add: folder_def subquery_in_def fun_eq_iff cong: res_bind_cong)
  qed (simp add: folder_def)
  then show ?thesis unfolding fold_corr_def by (rule rewrite_expr_cong) simp
qed

lemma expr_has_correlated_cong:
  assumes "\<And>q. q \<in> A \<Longrightarrow> f q = g q" and "set_expr e \<subseteq> A"
  shows "expr_has_correlated f e = expr_has_correlated g e"
  using assms(2)
proof (induction e)
  case (ELike e p x neg ci)
  then show ?case by (cases x) (auto simp: opt_list_def)
next
  case (EInList e items neg)
  then show ?case by (simp add: UN_subset_iff cong: map_cong)
next
  case (ECase o1 whens els)
  then have "map (map_prod (expr_has_correlated f) (expr_has_correlated f)) whens = map (map_prod (expr_has_correlated g) (expr_has_correlated g)) whens"
    by (force simp: UN_subset_iff)
  then have "concat (map (\<lambda>(c, r). [c, r]) (map (map_prod (expr_has_correlated f) (expr_has_correlated f)) whens)) =
      concat (map (\<lambda>(c, r). [c, r]) (map (map_prod (expr_has_correlated g) (expr_has_correlated g)) whens))" by (rule arg_cong)
  with ECase show ?case by (cases o1; cases els) (simp_all add: opt_list_def del: map_map)
next
  case (EFunc n args)
  then show ?case by (simp add: UN_subset_iff cong: map_cong)
next
  case (EAggregate func arg u sep)
  then show ?case by (cases arg; cases sep) (auto simp: opt_list_def)
qed (use assms(1) in simp_all)

lemma collect_each_cong: "xs = ys \<Longrightarrow> (\<And>x. x \<in> set ys \<Longrightarrow> f x = g x) \<Longrightarrow> collect_each f xs = collect_each g ys"
  unfolding collect_each_def by (simp cong: map_cong)

lemma rewrite_opt_cong: "x = y \<Longrightarrow> (\<And>e. y = Some e \<Longrightarrow> f e = g e) \<Longrightarrow> rewrite_opt (map_option f x) = rewrite_opt (map_option g y)"
  by (cases y) simp_all

lemma map_item_cong: "(\<And>e. e \<in> set (item_exprs [i]) \<Longrightarrow> f e = g e) \<Longrightarrow> map_item f i = map_item g i"
  by (cases i) (simp_all add: map_item_def item_exprs_def)

lemma item_exprs_mem: "i \<in> set items \<Longrightarrow> e \<in> set (item_exprs [i]) \<Longrightarrow> e \<in> set (item_exprs items)"
  by (auto simp: item_exprs_def)

text \<open>The expressions of a core that its evaluation may search for subqueries.\<close>

definition core_exprs :: "select_stmt \<Rightarrow> select_stmt expr set" where
  "core_exprs sel = set_option (sel_filter sel) \<union> set (item_exprs (sel_items sel)) \<union> set (sel_group_by sel) \<union> set_option (sel_having sel)"

lemma core_exprs_queries: "e \<in> core_exprs sel \<Longrightarrow> set_expr e \<subseteq> expr_queries sel"
  by (auto simp: core_exprs_def expr_queries_def)

lemma resolve_clauses_cong:
  assumes "\<And>e. e \<in> core_exprs sel \<Longrightarrow> resolve_sub rq1 e = resolve_sub rq2 e"
  shows "resolve_clauses rq1 sel correlated = resolve_clauses rq2 sel correlated"
proof -
  have "rewrite_opt (map_option (resolve_sub rq1) (sel_filter sel)) = rewrite_opt (map_option (resolve_sub rq2) (sel_filter sel))"
    "rewrite_opt (map_option (resolve_sub rq1) (sel_having sel)) = rewrite_opt (map_option (resolve_sub rq2) (sel_having sel))"
    by (rule rewrite_opt_cong [OF refl]; simp add: assms core_exprs_def)+
  moreover have "map (map_item (resolve_sub rq1)) (sel_items sel) = map (map_item (resolve_sub rq2)) (sel_items sel)"
    by (rule map_cong [OF refl], rule map_item_cong, rule assms) (use item_exprs_mem in \<open>auto simp: core_exprs_def\<close>)
  moreover have "map (resolve_sub rq1) (sel_group_by sel) = map (resolve_sub rq2) (sel_group_by sel)"
    by (rule map_cong [OF refl], rule assms) (simp add: core_exprs_def)
  ultimately show ?thesis by (simp only: resolve_clauses_def Let_def)
qed

lemma resolve_clauses_raw: "resolve_clauses rq sel True = Inr cl \<Longrightarrow> cl_filter cl = sel_filter sel \<and> cl_items cl = sel_items sel"
  by (auto simp: resolve_clauses_def)

lemma collect_kept_cong:
  assumes "\<And>row e. correlated \<Longrightarrow> fil = Some e \<Longrightarrow> fold_corr env sc rq1 cols row e = fold_corr env sc rq2 cols row e"
  shows "collect_kept env sc rq1 cols fil correlated rows = collect_kept env sc rq2 cols fil correlated rows"
  unfolding collect_kept_def
  by (rule collect_each_cong [OF refl]) (use assms in \<open>cases correlated; simp cong: rewrite_opt_cong\<close>)

lemma build_entries_cong:
  assumes "\<And>row e. correlated \<Longrightarrow> e \<in> set (item_exprs (cl_items cl)) \<Longrightarrow> fold_corr env sc rq1 cols row e = fold_corr env sc rq2 cols row e"
  shows "build_entries env sc rq1 cols aggregated correlated cl kept = build_entries env sc rq2 cols aggregated correlated cl kept"
proof -
  have "plain_entry env sc rq1 cols correlated (cl_items cl) row = plain_entry env sc rq2 cols correlated (cl_items cl) row" for row
  proof (cases correlated)
    case True
    have "map_item (fold_corr env sc rq1 cols row) i = map_item (fold_corr env sc rq2 cols row) i" if "i \<in> set (cl_items cl)" for i
      by (rule map_item_cong, rule assms) (use True item_exprs_mem [OF that] in auto)
    then show ?thesis unfolding plain_entry_def by (intro res_bind_cong collect_each_cong refl) (simp_all add: True)
  qed (simp add: plain_entry_def)
  then show ?thesis by (simp add: build_entries_def cong: map_cong)
qed

lemma eval_core_cong:
  assumes "agree (core_callees (sc_store sc) sel) rq1 rq2"
  shows "eval_core env sc rq1 ctes tail sel = eval_core env sc rq2 ctes tail sel"
proof -
  have ex: "agree (set_expr e \<union> (\<Union>q\<in>set_expr e. from_callees (sc_store sc) (sel_from q))) rq1 rq2" if "e \<in> core_exprs sel" for e
    by (rule agree_mono [OF assms]) (use core_exprs_queries [OF that] in \<open>auto simp: core_callees_def\<close>)
  have fold: "fold_corr env sc rq1 cols row e = fold_corr env sc rq2 cols row e" if "e \<in> core_exprs sel" for e cols row
    by (rule fold_corr_cong [OF ex [OF that]])
  have res: "resolve_sub rq1 e = resolve_sub rq2 e" if "e \<in> core_exprs sel" for e
    by (rule resolve_sub_cong, rule agree_mono [OF ex [OF that]]) simp
  have src: "build_source env sc rq1 ctes (sel_from sel) = build_source env sc rq2 ctes (sel_from sel)"
    by (rule build_source_cong, rule agree_mono [OF assms]) (auto simp: core_callees_def)
  have corr: "select_has_correlated env sc rq1 cols sel = select_has_correlated env sc rq2 cols sel" for cols
  proof -
    have "subquery_correlated env sc rq1 cols q = subquery_correlated env sc rq2 cols q" if "q \<in> expr_queries sel" for q
    proof -
      have "agree (from_callees (sc_store sc) (sel_from q)) rq1 rq2"
        by (rule agree_mono [OF assms]) (use that in \<open>auto simp: core_callees_def\<close>)
      from from_namespace_cong [OF this] show ?thesis by (simp add: subquery_correlated_def)
    qed
    then have "expr_has_correlated (subquery_correlated env sc rq1 cols) e = expr_has_correlated (subquery_correlated env sc rq2 cols) e"
      if "e \<in> core_exprs sel" for e
      using expr_has_correlated_cong [OF _ core_exprs_queries [OF that]] by blast
    then show ?thesis unfolding select_has_correlated_def
      by (intro arg_cong [of _ _ first_true] map_cong refl) (auto simp: core_exprs_def split: option.splits)
  qed
  have kept: "collect_kept env sc rq1 cols (cl_filter cl) b rows = collect_kept env sc rq2 cols (cl_filter cl) b rows"
    and entries: "build_entries env sc rq1 cols a b cl kept = build_entries env sc rq2 cols a b cl kept"
    if "resolve_clauses rq2 sel b = Inr cl" for cl b cols a rows kept
  proof -
    show "collect_kept env sc rq1 cols (cl_filter cl) b rows = collect_kept env sc rq2 cols (cl_filter cl) b rows"
      by (rule collect_kept_cong, rule fold) (use that resolve_clauses_raw in \<open>fastforce simp: core_exprs_def\<close>)
    show "build_entries env sc rq1 cols a b cl kept = build_entries env sc rq2 cols a b cl kept"
      by (rule build_entries_cong, rule fold) (use that resolve_clauses_raw in \<open>fastforce simp: core_exprs_def\<close>)
  qed
  have clauses: "resolve_clauses rq1 sel b = resolve_clauses rq2 sel b" for b
    by (rule resolve_clauses_cong) (rule res)
  show ?thesis
    unfolding eval_core_def src Let_def corr clauses
    by (intro res_bind_cong refl) (simp_all add: kept entries)
qed

lemma run_ctes_cong: "(\<And>n q. (n, q) \<in> set defs \<Longrightarrow> rq1 q = rq2 q) \<Longrightarrow> run_ctes rq1 defs ctes = run_ctes rq2 defs ctes"
proof (induction defs arbitrary: ctes)
  case (Cons d defs)
  obtain n q where "d = (n, q)" by (metis prod.exhaust)
  with Cons show ?case by (auto intro!: res_bind_cong)
qed simp

lemma run_arms_cong:
  "(\<And>op all q. (op, all, q) \<in> set arms \<Longrightarrow> eval_core env sc rq1 ctes True q = eval_core env sc rq2 ctes True q) \<Longrightarrow>
    run_arms env sc rq1 ctes arms acc = run_arms env sc rq2 ctes arms acc"
proof (induction arms arbitrary: acc)
  case (Cons arm arms)
  obtain op all q where "arm = (op, all, q)" by (metis prod.exhaust)
  with Cons show ?case by (auto intro!: res_bind_cong)
qed simp

lemma query_body_cong:
  assumes "agree (callees (sc_store sc) sel) rq1 rq2"
  shows "query_body env sc rq1 sel = query_body env sc rq2 sel"
proof -
  have ctes: "run_ctes rq1 (sel_with sel) Map.empty = run_ctes rq2 (sel_with sel) Map.empty"
    by (rule run_ctes_cong) (use assms in \<open>force simp: callees_def dest: agreeD\<close>)
  have core: "eval_core env sc rq1 ctes tail sel = eval_core env sc rq2 ctes tail sel" for ctes tail
    by (rule eval_core_cong, rule agree_mono [OF assms]) (auto simp: callees_def)
  have arms: "run_arms env sc rq1 ctes (sel_set_ops sel) acc = run_arms env sc rq2 ctes (sel_set_ops sel) acc" for ctes acc
    by (rule run_arms_cong, rule eval_core_cong, rule agree_mono [OF assms]) (force simp: callees_def)
  show ?thesis unfolding query_body_def ctes core arms ..
qed

end
