(* ===== verification/Query_Overflow.thy ===== *)
theory Query_Overflow
  imports Query_Depth
begin

text \<open>
  Where the exhaustion of the call stack can come from: no operation of the executor raises
  \<open>Overflow\<close> on its own.  With scalar functions and an expression parser that return, evaluating
  a query ends with \<open>Overflow\<close> only if one of the queries below it does.
\<close>



definition returns :: "'a xres \<Rightarrow> bool" where
  "returns r \<longleftrightarrow> r \<noteq> Inl Overflow"

lemma returns_simps [simp]: "returns (Inr x)" "returns (Inl e) \<longleftrightarrow> e \<noteq> Overflow"
  by (simp_all add: returns_def)

lemma returns_bind [intro!]: "returns r \<Longrightarrow> (\<And>x. r = Inr x \<Longrightarrow> returns (f x)) \<Longrightarrow> returns (res_bind r f)"
  by (cases r) simp_all

lemma returns_if: "(b \<Longrightarrow> returns x) \<Longrightarrow> (\<not> b \<Longrightarrow> returns y) \<Longrightarrow> returns (if b then x else y)"
  by simp

lemma returns_collect [intro!]: "(\<And>r. r \<in> set rs \<Longrightarrow> returns r) \<Longrightarrow> returns (collect_results rs)"
  by (induction rs) auto

lemma returns_each [intro!]: "(\<And>x. x \<in> set xs \<Longrightarrow> returns (f x)) \<Longrightarrow> returns (collect_each f xs)"
  unfolding collect_each_def by auto

lemma returns_check_each: "(\<And>x. x \<in> set xs \<Longrightarrow> returns (f x)) \<Longrightarrow> returns (check_each f xs)"
  by (induction xs) auto

lemma returns_ok_or [simp]: "e \<noteq> Overflow \<Longrightarrow> returns (ok_or e x)"
  by (simp add: ok_or_def split: option.splits)

section \<open>Expressions\<close>

lemma returns_index [simp]: "returns (index_row xs i)"
  by (simp add: index_row_def)

lemma returns_resolve_loop [simp]: "returns (resolve_loop table name i cs found)"
  by (induction table name i cs found rule: resolve_loop.induct) simp_all

lemma returns_resolve_value [simp]: "returns (resolve_value ctx table name)"
  by (auto simp: resolve_value_def resolve_col_def split: option.splits)

lemma returns_values [simp]: "returns (param_value ctx i)" "returns (excluded_value ctx name)" "returns (unary_value op v)"
  by (simp_all add: param_value_def excluded_value_def split: option.splits) (cases "(op, v)" rule: unary_value.cases; simp)

lemma returns_cast [simp]: "returns (cast_value so v t)"
  by (auto simp: cast_value_def parse_int_text_def Let_def split: cast_target.splits sql_value.splits option.splits)

lemma returns_num [simp]: "returns (num so v)"
  by (cases v) (simp_all split: option.splits)

lemma returns_arith [simp]: "returns (arith so op l r)"
  by (auto simp: arith_def split: sql_value.splits bin_op.splits)

lemma returns_vec [simp]: "returns (vec_distance so op l r)"
  by (auto simp: vec_distance_def split: option.splits)

lemma returns_binary [simp]: "returns (eval_binary so op l r)"
  by (cases op) simp_all

lemma returns_aggregate: "\<forall>rs\<in>set_option arg. \<forall>r\<in>set rs. returns r \<Longrightarrow> returns (compute_aggregate so func arg uniq sep n)"
  by (cases func) (auto simp: compute_aggregate_def Let_def split: option.splits)

lemma returns_between [simp]: "returns (between_value so v lo hi neg)"
  by (auto simp: between_value_def Let_def)

lemma returns_in: "\<forall>f\<in>set items. returns (f ctx) \<Longrightarrow> returns (eval_in v neg saw items ctx)"
  by (induction items arbitrary: saw) (auto split: option.splits)

lemma returns_whens: "\<forall>(f, g)\<in>set whens. returns (f ctx) \<and> returns (g ctx) \<Longrightarrow> returns (els ctx) \<Longrightarrow> returns (eval_whens ov whens els ctx)"
  by (induction whens) auto

lemma returns_option: "\<forall>f\<in>set_option x. returns (f ctx) \<Longrightarrow> returns (eval_option x ctx)"
  by (auto simp: eval_option_def split: option.splits)

definition funcs_return :: "scalar_ops \<Rightarrow> bool" where
  "funcs_return so \<longleftrightarrow> (\<forall>name vs. returns (so_call_func so name vs))"

lemma returns_auth: "\<forall>r\<in>set_option arg. returns r \<Longrightarrow> returns (auth_value so se fname arg)"
  by (auto simp: auth_value_def split: option.splits)

lemma returns_eval:
  assumes "funcs_return so"
  shows "returns (eval so se e ctx)"
proof (induction e arbitrary: ctx)
  case (ELike e p x neg ci)
  then show ?case by (auto simp: eval_like_def split: option.splits intro!: returns_option)
next
  case (EInList e items neg)
  then show ?case by (auto intro!: returns_in)
next
  case (ECase o1 whens els)
  have "returns (eval so se c ctx) \<and> returns (eval so se r ctx)" if "(c, r) \<in> set whens" for c r
    using ECase.IH(2,3) [OF that] by simp
  then have "\<forall>(f, g)\<in>set (map (map_prod (eval so se) (eval so se)) whens). returns (f ctx) \<and> returns (g ctx)" by auto
  moreover have "returns ((case map_option (eval so se) els of None \<Rightarrow> \<lambda>_. Inr VNull | Some f \<Rightarrow> f) ctx)"
    using ECase.IH(4) by (cases els) simp_all
  moreover have "returns (eval_option (map_option (eval so se) o1) ctx)"
    by (rule returns_option) (use ECase.IH(1) in \<open>cases o1; simp\<close>)
  ultimately show ?case unfolding eval.simps by (intro returns_bind returns_whens)
next
  case (EFunc name args)
  have "returns (res_bind (collect_results (map (\<lambda>f. f ctx) (map (eval so se) args))) (so_call_func so name))"
    using EFunc assms by (auto simp: funcs_return_def)
  then show ?case using EFunc by (cases args) (auto simp: Let_def split: option.splits intro!: returns_auth)
next
  case (EAggregate func arg u sep)
  have "returns (eval_option (map_option (eval so se) sep) ctx)"
    by (rule returns_option) (use EAggregate.IH(2) in \<open>cases sep; simp\<close>)
  moreover have "\<forall>rs\<in>set_option (map_option (\<lambda>f. map (\<lambda>r. f (ctx\<lparr>ec_row := Some r, ec_group := None, ec_excluded := None\<rparr>)) rows) (map_option (eval so se) arg)).
      \<forall>r\<in>set rs. returns r" for rows
    using EAggregate.IH(1) by (cases arg) auto
  ultimately show ?case by (simp add: eval_aggregate_def returns_bind returns_aggregate split: option.splits)
qed auto

lemma returns_predicate: "funcs_return so \<Longrightarrow> returns (predicate so se f ctx)"
  by (auto simp: predicate_def returns_eval split: option.splits)

lemma returns_count: "funcs_return so \<Longrightarrow> returns (eval_count so se opt ps)"
  by (auto simp: eval_count_def returns_eval split: option.splits sql_value.splits)

section \<open>Row-level security\<close>

lemma returns_rls_preds: "(\<And>sql. returns (parse sql)) \<Longrightarrow> returns (rls_preds parse clause ps)"
  by (induction ps) (auto split: option.splits)

lemma returns_rls_read: "(\<And>sql. returns (xe_parse_expr env sql)) \<Longrightarrow> returns (rls_read env se sch cmd)"
  by (auto simp: rls_read_def rls_decide_def Let_def returns_rls_preds)

lemma returns_any_true: "funcs_return so \<Longrightarrow> returns (any_true so se ps ctx)"
  by (induction ps) (auto simp: returns_eval)

lemma returns_passes: "funcs_return so \<Longrightarrow> returns (rls_passes so se dec ctx)"
  by (cases dec) (simp_all add: returns_any_true)

lemma returns_scan_row: "funcs_return (xe_so env) \<Longrightarrow> returns (scan_row env sc sch dec fil r)"
  by (auto simp: scan_row_def Let_def returns_passes returns_predicate)

section \<open>Ordering, grouping, joins and set operations\<close>

lemma returns_both: "returns a \<Longrightarrow> returns b \<Longrightarrow> returns (both_values a b)"
  by (cases "(a, b)" rule: both_values.cases) simp_all

lemma returns_order_key: "\<forall>(ev, asc, nf)\<in>set ks. \<forall>x. returns (ev x) \<Longrightarrow> returns (order_key_cmp ks a b)"
  by (induction ks) (auto simp: returns_both Let_def)

lemma returns_check_pairs: "(\<And>x y. returns (f x y)) \<Longrightarrow> returns (check_pairs f xs)"
  by (induction xs) (auto intro: returns_check_each)

lemma returns_order_entries: "\<forall>(ev, asc, nf)\<in>set ks. \<forall>x. returns (ev x) \<Longrightarrow> returns (order_entries ks xs)"
  unfolding order_entries_def by (auto intro!: returns_check_pairs returns_order_key)

lemma returns_group_rows: "(\<And>x. returns (f x)) \<Longrightarrow> returns (group_rows f xs gs)"
  by (induction xs arbitrary: gs) auto

lemma returns_make_groups: "funcs_return so \<Longrightarrow> returns (make_groups so se group_by mk rows)"
  unfolding make_groups_def group_key_def by (auto intro!: returns_group_rows simp: returns_eval)

lemma returns_having: "funcs_return so \<Longrightarrow> returns (having_holds so se having ctx)"
  by (auto simp: having_holds_def returns_eval split: option.splits)

lemma returns_pairs_match: "returns (pairs_match ps row)"
  by (induction ps row rule: pairs_match.induct) auto

lemma returns_row_matches: "funcs_return so \<Longrightarrow> returns (row_matches so se cols on pairs ps row)"
  by (auto simp: row_matches_def returns_pairs_match returns_predicate)

lemma returns_matches_of: "(\<And>row. returns (m row)) \<Longrightarrow> returns (matches_of m combine inner)"
  by (auto simp: matches_of_def)

lemma returns_full_left: "(\<And>row. returns (m row)) \<Longrightarrow> returns (join_full_left m null_r r l hit)"
  by (induction l arbitrary: hit) (auto simp: full_hits_def)

lemma returns_join_rows: "(\<And>row. returns (m row)) \<Longrightarrow> returns (join_rows m kind ln rn l r)"
  by (cases kind) (auto simp: join_rows_def join_inner_def join_outer_def join_full_def returns_full_left returns_matches_of)

lemma returns_using_pairs: "returns (using_pairs l r us)"
  by (auto simp: using_pairs_def resolve_col_def)

lemma returns_join: "funcs_return so \<Longrightarrow> returns (join_relations so se kind on us ps l r)"
  by (auto simp: join_relations_def Let_def returns_using_pairs returns_join_rows returns_row_matches)

lemma returns_combine: "returns (combine_set_op so l r op all)"
  by (simp add: combine_set_op_def)

lemma returns_output_key: "returns (output_key columns k)"
  by (cases k) (auto split: expr.splits)

lemma output_key_returns: "output_key columns k = Inr (ev, asc, nf) \<Longrightarrow> returns (ev row)"
  by (cases k) auto

lemma returns_output_order:
  assumes "funcs_return so"
  shows "returns (apply_output_order_limit so se sel ps rs)"
proof -
  have "\<forall>(ev, asc, nf)\<in>set ks. \<forall>x. returns (ev x)" if "collect_results (map (output_key (rs_columns rs)) (sel_order_by sel)) = Inr ks" for ks
    using collect_map_Inr [OF that] output_key_returns by blast
  then show ?thesis unfolding apply_output_order_limit_def
    by (intro returns_bind returns_order_entries returns_collect returns_count [OF assms]) (auto simp: returns_output_key)
qed

section \<open>Rewriting\<close>

lemma returns_rewrite_opt: "\<forall>x\<in>set_option e. returns x \<Longrightarrow> returns (rewrite_opt e)"
  by (auto simp: rewrite_opt_def split: option.splits)

definition rw_returns :: "'l set \<Rightarrow> 'l rewriter \<Rightarrow> bool" where
  "rw_returns A w \<longleftrightarrow> (\<forall>t n. returns (rw_ref w t n)) \<and>
     (\<forall>q\<in>A. returns (rw_scalar w q) \<and> (\<forall>neg. returns (rw_exists w q neg)) \<and>
       (\<forall>e neg. returns (rewrite_expr w e) \<longrightarrow> returns (rw_in w e (rewrite_expr w e) q neg)))"

lemma returns_rewrite:
  assumes "rw_returns A w" and "set_expr e \<subseteq> A"
  shows "returns (rewrite_expr w e)"
  using assms(2)
proof (induction e)
  case (ELike e p x neg ci)
  have "returns (rewrite_opt (map_option (rewrite_expr w) x))"
    by (rule returns_rewrite_opt) (use ELike in \<open>cases x; simp\<close>)
  with ELike show ?case by auto
next
  case (EInList e items neg)
  then show ?case by (auto simp: UN_subset_iff)
next
  case (ECase o1 whens els)
  have "returns (rewrite_opt (map_option (rewrite_expr w) o1))" "returns (rewrite_opt (map_option (rewrite_expr w) els))"
    by (rule returns_rewrite_opt, use ECase in \<open>cases o1; cases els; simp\<close>)+
  moreover have "returns (rewrite_pair (map_prod (rewrite_expr w) (rewrite_expr w) (c, r)))" if h: "(c, r) \<in> set whens" for c r
  proof -
    have "set_expr c \<subseteq> A" "set_expr r \<subseteq> A" using ECase.prems h by (fastforce simp: UN_subset_iff)+
    then show ?thesis using ECase.IH(2) [OF h, of c] ECase.IH(3) [OF h, of r] by (auto simp: rewrite_pair_def)
  qed
  then have "returns (collect_results (map rewrite_pair (map (map_prod (rewrite_expr w) (rewrite_expr w)) whens)))" by auto
  ultimately show ?case by (auto simp del: map_map)
next
  case (EFunc n args)
  then show ?case by (auto simp: UN_subset_iff)
next
  case (EAggregate func arg u sep)
  have "returns (rewrite_opt (map_option (rewrite_expr w) arg))" "returns (rewrite_opt (map_option (rewrite_expr w) sep))"
    by (rule returns_rewrite_opt, use EAggregate in \<open>cases arg; cases sep; simp\<close>)+
  then show ?case by auto
qed (use assms(1) in \<open>auto simp: rw_returns_def\<close>)

section \<open>Queries\<close>

definition ends :: "select_stmt set \<Rightarrow> (select_stmt \<Rightarrow> result_set xres) \<Rightarrow> bool" where
  "ends S rq \<longleftrightarrow> (\<forall>q\<in>S. \<forall>q'. variant q q' \<longrightarrow> returns (rq q'))"

lemma endsD: "ends S rq \<Longrightarrow> q \<in> S \<Longrightarrow> returns (rq q)"
  by (simp add: ends_def)

lemma ends_mono: "ends S rq \<Longrightarrow> T \<subseteq> S \<Longrightarrow> ends T rq"
  by (auto simp: ends_def)

lemma returns_subqueries:
  assumes "returns (rq q)"
  shows "returns (subquery_scalar rq q)" "returns (subquery_exists rq q neg)" "returns lhs \<Longrightarrow> returns (subquery_in rq lhs q neg)"
  using assms by (auto simp: subquery_scalar_def subquery_exists_def subquery_in_def one_column_def pop_last_def split: list.splits)

lemma returns_resolve_sub: "ends (set_expr e) rq \<Longrightarrow> returns (resolve_sub rq e)"
  unfolding resolve_sub_def
  by (rule returns_rewrite [of "set_expr e"]) (auto simp: rw_returns_def resolver_def returns_subqueries dest: endsD)

text \<open>The scalar functions and the expression parser return.\<close>

definition calls_return :: "'x query_env \<Rightarrow> bool" where
  "calls_return env \<longleftrightarrow> funcs_return (xe_so env) \<and> (\<forall>sql. returns (xe_parse_expr env sql))"

lemma returns_table: "calls_return env \<Longrightarrow> returns (table_relation env sc t src)"
  by (auto simp: table_relation_def calls_return_def returns_scan_row returns_rls_read)

lemma returns_build_from:
  assumes "calls_return env" and "ends (from_callees (sc_store sc) (Some f)) rq"
  shows "returns (build_from env sc rq ctes f)"
  using assms(2)
proof (induction f)
  case (FTable name al)
  then show ?case using returns_table [OF assms(1)] by (auto simp: named_relation_def from_callees_def ends_def split: option.splits)
next
  case (FDerived q al)
  then show ?case by (auto simp: from_callees_def ends_def)
next
  case (FJoin l r kind on us)
  have "ends (from_callees (sc_store sc) (Some l)) rq" "ends (from_callees (sc_store sc) (Some r)) rq"
    by (rule ends_mono [OF FJoin.prems]; auto simp: from_callees_def)+
  with FJoin.IH show ?case using assms(1) by (auto simp: returns_join calls_return_def)
qed

lemma returns_source: "calls_return env \<Longrightarrow> ends (from_callees (sc_store sc) f) rq \<Longrightarrow> returns (build_source env sc rq ctes f)"
  by (cases f) (simp_all add: build_source_def returns_build_from)

lemma returns_namespace: "calls_return env \<Longrightarrow> ends (from_callees (sc_store sc) f) rq \<Longrightarrow> returns (from_namespace env sc rq f)"
  by (cases f) (auto simp: from_namespace_def returns_build_from)

lemma returns_bind_expr: "returns (bind_expr inner outer row e)"
  unfolding bind_expr_def
  by (rule returns_rewrite [of UNIV]) (auto simp: rw_returns_def row_binder_def bind_ref_def split: sum.splits)

lemma returns_map_item: "(\<And>e. e \<in> set (item_exprs [i]) \<Longrightarrow> returns (f e)) \<Longrightarrow> returns (map_item f i)"
  by (cases i) (auto simp: map_item_def item_exprs_def)

lemma returns_bind_select: "returns (bind_select inner outer row q)"
  unfolding bind_select_def Let_def
  by (auto intro!: returns_rewrite_opt returns_map_item simp: returns_bind_expr)

lemma returns_bind_subquery: "calls_return env \<Longrightarrow> ends (from_callees (sc_store sc) (sel_from q)) rq \<Longrightarrow> returns (bind_subquery env sc rq outer row q)"
  by (auto simp: bind_subquery_def returns_namespace returns_bind_select)

lemma returns_fold_corr:
  assumes "calls_return env" and "ends (set_expr e \<union> (\<Union>q\<in>set_expr e. from_callees (sc_store sc) (sel_from q))) rq"
  shows "returns (fold_corr env sc rq outer row e)"
proof -
  have bind: "returns (bind_subquery env sc rq outer row q)" if "q \<in> set_expr e" for q
    by (rule returns_bind_subquery [OF assms(1)], rule ends_mono [OF assms(2)]) (use that in blast)
  have run: "returns (rq q')" if "q \<in> set_expr e" "bind_subquery env sc rq outer row q = Inr q'" for q q'
    using assms(2) that(1) bind_subquery_variant [OF that(2)] by (auto simp: ends_def)
  have lhs: "returns (resolve_sub rq x)" if "rewrite_expr (folder env sc rq outer row) e0 = Inr x" for e0 x
    by (rule returns_resolve_sub) (use fold_corr_queries [unfolded fold_corr_def, OF that] in \<open>simp add: ends_def\<close>)
  have "rw_returns (set_expr e) (folder env sc rq outer row)"
    unfolding rw_returns_def
  proof (intro conjI ballI allI impI)
    fix q e0 neg assume q: "q \<in> set_expr e"
    show "returns (rw_scalar (folder env sc rq outer row) q)" "returns (rw_exists (folder env sc rq outer row) q neg)"
      using bind [OF q] run [OF q] by (auto simp: folder_def returns_subqueries)
    assume "returns (rewrite_expr (folder env sc rq outer row) e0)"
    then show "returns (rw_in (folder env sc rq outer row) e0 (rewrite_expr (folder env sc rq outer row) e0) q neg)"
      using bind [OF q] run [OF q] lhs by (auto simp: folder_def returns_subqueries)
  qed (simp add: folder_def)
  then show ?thesis unfolding fold_corr_def by (rule returns_rewrite) simp
qed

section \<open>Select cores and whole queries\<close>

lemma returns_first_true: "(\<And>r. r \<in> set rs \<Longrightarrow> returns r) \<Longrightarrow> returns (first_true rs)"
  by (induction rs) auto

lemma returns_expr_correlated:
  assumes "\<forall>q\<in>set_expr e. returns (f q)"
  shows "returns (expr_has_correlated f e)"
  using assms
proof (induction e)
  case (ECase o1 whens els)
  have "returns (expr_has_correlated f c) \<and> returns (expr_has_correlated f r)" if h: "(c, r) \<in> set whens" for c r
    using ECase.IH(2) [OF h, of c] ECase.IH(3) [OF h, of r] ECase.prems h by fastforce
  moreover have "\<forall>e\<in>set_option o1 \<union> set_option els. returns (expr_has_correlated f e)"
    using ECase.IH(1,4) ECase.prems by fastforce
  ultimately show ?case by (auto intro!: returns_first_true split: option.splits)
next
  case (ELike e p x neg ci)
  then have "\<forall>e\<in>set_option x. returns (expr_has_correlated f e)" by fastforce
  with ELike show ?case by (auto intro!: returns_first_true split: option.splits)
next
  case (EAggregate func arg u sep)
  then have "\<forall>e\<in>set_option arg \<union> set_option sep. returns (expr_has_correlated f e)" by fastforce
  then show ?case by (auto intro!: returns_first_true split: option.splits)
next
  case (EInList e items neg)
  then have "\<forall>e\<in>set items. returns (expr_has_correlated f e)" by fastforce
  with EInList show ?case by (auto intro!: returns_first_true)
qed (auto intro!: returns_first_true)

lemma returns_correlated:
  assumes "calls_return env" and "ends (core_callees (sc_store sc) sel) rq"
  shows "returns (select_has_correlated env sc rq cols sel)"
proof -
  have "returns (subquery_correlated env sc rq cols q)" if "q \<in> expr_queries sel" for q
  proof -
    have "returns (from_namespace env sc rq (sel_from q))"
      by (rule returns_namespace [OF assms(1)], rule ends_mono [OF assms(2)]) (use that in \<open>auto simp: core_callees_def\<close>)
    then show ?thesis by (auto simp: subquery_correlated_def)
  qed
  then have "returns (expr_has_correlated (subquery_correlated env sc rq cols) e)" if "e \<in> core_exprs sel" for e
    using core_exprs_queries [OF that] by (intro returns_expr_correlated) blast
  then show ?thesis unfolding select_has_correlated_def
    by (intro returns_first_true) (auto simp: core_exprs_def split: option.splits)
qed

lemma returns_clauses:
  assumes "\<And>e. e \<in> core_exprs sel \<Longrightarrow> returns (resolve_sub rq e)"
  shows "returns (resolve_clauses rq sel correlated)"
proof -
  have "returns (rewrite_opt (map_option (resolve_sub rq) (sel_filter sel)))" "returns (rewrite_opt (map_option (resolve_sub rq) (sel_having sel)))"
    by (rule returns_rewrite_opt; use assms in \<open>auto simp: core_exprs_def\<close>)+
  moreover have "returns (collect_results (map (map_item (resolve_sub rq)) (sel_items sel)))"
    "returns (collect_results (map (resolve_sub rq) (sel_group_by sel)))"
    using assms item_exprs_mem by (auto simp: core_exprs_def intro!: returns_map_item) blast
  ultimately show ?thesis by (auto simp: resolve_clauses_def Let_def)
qed

lemma returns_kept:
  assumes "calls_return env" and "\<And>row e. correlated \<Longrightarrow> fil = Some e \<Longrightarrow> returns (fold_corr env sc rq cols row e)"
  shows "returns (collect_kept env sc rq cols fil correlated rows)"
proof -
  have "returns (rewrite_opt (map_option (fold_corr env sc rq cols row) fil))" if correlated for row
    by (rule returns_rewrite_opt) (use assms(2) that in auto)
  then show ?thesis using assms(1) by (auto simp: collect_kept_def calls_return_def returns_predicate)
qed

lemma returns_rel_item: "calls_return env \<Longrightarrow> returns (rel_project_item env se cols ctx i)"
  by (cases i) (auto simp: star_values_def calls_return_def returns_eval)

lemma returns_group_entry:
  "calls_return env \<Longrightarrow> returns (group_entry env se items having mk (rel_project_item env se cols) rows)"
  by (auto simp: group_entry_def returns_rel_item) (simp add: calls_return_def returns_having)

lemma returns_entries:
  assumes "calls_return env" and "\<And>row e. correlated \<Longrightarrow> e \<in> set (item_exprs (cl_items cl)) \<Longrightarrow> returns (fold_corr env sc rq cols row e)"
  shows "returns (build_entries env sc rq cols aggregated correlated cl kept)"
proof -
  have "returns (plain_entry env sc rq cols correlated (cl_items cl) row)" for row
  proof -
    have "returns (map_item (fold_corr env sc rq cols row) i)" if "correlated" "i \<in> set (cl_items cl)" for i
      by (rule returns_map_item, rule assms(2)) (use that item_exprs_mem in auto)
    then show ?thesis unfolding plain_entry_def by (auto simp: returns_rel_item [OF assms(1)])
  qed
  then show ?thesis using assms(1) by (auto simp: build_entries_def returns_group_entry) (simp add: calls_return_def returns_make_groups)
qed

lemma returns_core_order: "calls_return env \<Longrightarrow> returns (core_order env sc sel cols items tail entries)"
  unfolding core_order_def
  by (intro returns_bind returns_order_entries) (auto simp: sort_keys_def calls_return_def returns_eval)

lemma returns_core_tail: "calls_return env \<Longrightarrow> returns (core_tail env sc sel tail rows)"
  by (auto simp: core_tail_def Let_def calls_return_def returns_count)

lemma returns_core:
  assumes "calls_return env" and "ends (core_callees (sc_store sc) sel) rq"
  shows "returns (eval_core env sc rq ctes tail sel)"
proof -
  have ex: "ends (set_expr e \<union> (\<Union>q\<in>set_expr e. from_callees (sc_store sc) (sel_from q))) rq" if "e \<in> core_exprs sel" for e
    by (rule ends_mono [OF assms(2)]) (use core_exprs_queries [OF that] in \<open>auto simp: core_callees_def\<close>)
  have fold: "returns (fold_corr env sc rq cols row e)" if "e \<in> core_exprs sel" for e cols row
    by (rule returns_fold_corr [OF assms(1) ex [OF that]])
  have res: "returns (resolve_sub rq e)" if "e \<in> core_exprs sel" for e
    by (rule returns_resolve_sub, rule ends_mono [OF ex [OF that]]) simp
  have src: "returns (build_source env sc rq ctes (sel_from sel))"
    by (rule returns_source [OF assms(1)], rule ends_mono [OF assms(2)]) (auto simp: core_callees_def)
  have kept: "returns (collect_kept env sc rq cols (cl_filter cl) b rows)"
    and entries: "returns (build_entries env sc rq cols a b cl kept)"
    if "resolve_clauses rq sel b = Inr cl" for cl b cols a rows kept
  proof -
    show "returns (collect_kept env sc rq cols (cl_filter cl) b rows)"
      by (rule returns_kept [OF assms(1)], rule fold) (use that resolve_clauses_raw in \<open>fastforce simp: core_exprs_def\<close>)
    show "returns (build_entries env sc rq cols a b cl kept)"
      by (rule returns_entries [OF assms(1)], rule fold) (use that resolve_clauses_raw in \<open>fastforce simp: core_exprs_def\<close>)
  qed
  show ?thesis unfolding eval_core_def Let_def
    by (intro returns_bind returns_if src returns_correlated [OF assms] returns_clauses res kept entries returns_core_order [OF assms(1)]
        returns_core_tail [OF assms(1)] returns_simps) simp_all
qed

lemma returns_ctes: "(\<And>n q. (n, q) \<in> set defs \<Longrightarrow> returns (rq q)) \<Longrightarrow> returns (run_ctes rq defs ctes)"
proof (induction defs arbitrary: ctes)
  case (Cons d defs)
  obtain n q where "d = (n, q)" by (metis prod.exhaust)
  with Cons show ?case by auto
qed simp

lemma returns_arms:
  "(\<And>op all q. (op, all, q) \<in> set arms \<Longrightarrow> returns (eval_core env sc rq ctes True q)) \<Longrightarrow> returns (run_arms env sc rq ctes arms acc)"
proof (induction arms arbitrary: acc)
  case (Cons arm arms)
  obtain op all q where "arm = (op, all, q)" by (metis prod.exhaust)
  with Cons show ?case by (auto simp: returns_combine)
qed simp

lemma returns_query_body:
  assumes "calls_return env" and "ends (callees (sc_store sc) sel) rq"
  shows "returns (query_body env sc rq sel)"
proof -
  have "returns (run_ctes rq (sel_with sel) Map.empty)"
    by (rule returns_ctes) (use assms(2) in \<open>force simp: callees_def dest: endsD\<close>)
  moreover have "returns (eval_core env sc rq ctes tail sel)" for ctes tail
    by (rule returns_core [OF assms(1)], rule ends_mono [OF assms(2)]) (auto simp: callees_def)
  moreover have "returns (run_arms env sc rq ctes (sel_set_ops sel) acc)" for ctes acc
    by (rule returns_arms, rule returns_core [OF assms(1)], rule ends_mono [OF assms(2)]) (force simp: callees_def)
  ultimately show ?thesis using assms(1) unfolding query_body_def by (auto simp: calls_return_def returns_output_order)
qed

end
