(* ===== verification/Query_Termination.thy ===== *)
theory Query_Termination
  imports Query_Overflow
begin

text \<open>
  Queries end.  Every query needs some depth of the call stack when the names the views mention
  lead into no cycle, and more stack changes nothing; the check of \<^verbatim>\<open>CREATE VIEW\<close> looks at fewer
  names and accepts a view on which every query runs out of stack.
\<close>

section \<open>Depth\<close>

primrec depth_ok :: "('x, select_stmt) store \<Rightarrow> nat \<Rightarrow> select_stmt \<Rightarrow> bool" where
  "depth_ok st 0 sel = False"
| "depth_ok st (Suc n) sel = (\<forall>q\<in>callees st sel. depth_ok st n q)"

lemma depth_ok_mono: "depth_ok st n sel \<Longrightarrow> n \<le> m \<Longrightarrow> depth_ok st m sel"
proof (induction n arbitrary: m sel)
  case (Suc n)
  then show ?case by (cases m) auto
qed simp

lemma depth_ok_variant: "depth_ok st n q \<Longrightarrow> variant q q' \<Longrightarrow> depth_ok st n q'"
  using callees_variant [of q q' st] by (cases n) auto

lemma run_query_ends:
  assumes "calls_return env" and "depth_ok (sc_store sc) n sel"
  shows "returns (run_query env sc n sel)"
  using assms(2)
proof (induction n arbitrary: sel)
  case (Suc n)
  have "ends (callees (sc_store sc) sel) (run_query env sc n)"
    using Suc depth_ok_variant unfolding ends_def by fastforce
  then show ?case using returns_query_body [OF assms(1)] by simp
qed simp

lemma run_query_stable:
  assumes "depth_ok (sc_store sc) n sel" and "n \<le> m"
  shows "run_query env sc m sel = run_query env sc n sel"
  using assms
proof (induction n arbitrary: sel m)
  case (Suc n)
  then obtain m' where m: "m = Suc m'" "n \<le> m'" by (cases m) auto
  have "agree (callees (sc_store sc) sel) (run_query env sc m') (run_query env sc n)"
    using Suc.IH [OF _ m(2)] Suc.prems(1) depth_ok_variant unfolding agree_def by fastforce
  then show ?case using m(1) query_body_cong by simp
qed simp

section \<open>Queries inside queries\<close>

definition nested :: "select_stmt \<Rightarrow> select_stmt set" where
  "nested sel = snd ` set (sel_with sel) \<union> \<Union> (set_from_clause ` set_option (sel_from sel)) \<union> expr_queries sel \<union>
     (snd \<circ> snd) ` set (sel_set_ops sel)"

lemma finite_expr: "finite (set_expr e)"
  by (induction e) auto

lemma finite_from: "finite (set_from_clause f)"
  by (induction f) (auto simp: finite_expr)

lemma item_exprs_set: "q \<in> \<Union> (set_expr ` set (item_exprs items)) \<longleftrightarrow> (\<exists>i\<in>set items. q \<in> set_sel_item i)"
proof (induction items)
  case (Cons i items)
  then show ?case by (cases i) (auto simp: item_exprs_def)
qed (simp add: item_exprs_def)

lemma nested_cases [consumes 1, case_names cte src filt item grp having arm]:
  assumes "q \<in> nested sel"
  obtains n where "(n, q) \<in> set (sel_with sel)"
    | c where "sel_from sel = Some c" "q \<in> set_from_clause c"
    | e where "sel_filter sel = Some e" "q \<in> set_expr e"
    | i where "i \<in> set (sel_items sel)" "q \<in> set_sel_item i"
    | e where "e \<in> set (sel_group_by sel)" "q \<in> set_expr e"
    | e where "sel_having sel = Some e" "q \<in> set_expr e"
    | op all where "(op, all, q) \<in> set (sel_set_ops sel)"
  using assms unfolding nested_def expr_queries_def image_Un Union_Un_distrib Un_iff item_exprs_set by (auto simp: image_iff)

lemma wf_nested: "wf {(q, sel). q \<in> nested sel}"
proof (rule wfUNIVI)
  fix P :: "select_stmt \<Rightarrow> bool" and sel
  assume step: "\<forall>x. (\<forall>y. (y, x) \<in> {(q, sel). q \<in> nested sel} \<longrightarrow> P y) \<longrightarrow> P x"
  show "P sel"
  proof (induction sel)
    case (SelectStmt w d items f fil g h ops ord lim off)
    have "P q" if "q \<in> nested (SelectStmt w d items f fil g h ops ord lim off)" for q
      using that by (cases rule: nested_cases) (use SelectStmt in \<open>fastforce+\<close>)
    with step show ?case by blast
  qed
qed

lemma finite_view_bodies: "finite {q. \<exists>n\<in>set ns. view st n = Some q}"
proof (rule finite_surj)
  show "{q. \<exists>n\<in>set ns. view st n = Some q} \<subseteq> (\<lambda>n. the (view st n)) ` set ns" by force
qed simp

lemma finite_nested_parts: "finite (from_callees st f)" "finite (expr_queries sel)"
  by (simp add: from_callees_def finite_from finite_view_bodies split: option.splits) (simp add: expr_queries_def finite_expr)

lemma finite_callees: "finite (callees st sel)"
  by (auto simp: callees_def core_callees_def finite_nested_parts)

section \<open>Names\<close>

lemma collect_expr_refs_map: "collect_expr_refs id (map_expr f e) = collect_expr_refs f e"
proof (induction e)
  case (ECase o1 whens els)
  have "map (map_prod (collect_expr_refs (\<lambda>a. a)) (collect_expr_refs (\<lambda>a. a))) (map (map_prod (map_expr f) (map_expr f)) whens) =
      map (map_prod (collect_expr_refs f) (collect_expr_refs f)) whens"
    using ECase.IH(2,3) by (force simp: id_def intro!: map_cong)
  with ECase show ?case by (cases o1; cases els) (simp_all add: id_def del: map_map)
next
  case (ELike e p x neg ci)
  then show ?case by (cases x) simp_all
next
  case (EInList e items neg)
  then show ?case by (simp cong: map_cong)
next
  case (EFunc n args)
  then show ?case by (simp cong: map_cong)
next
  case (EAggregate func arg u sep)
  then show ?case by (cases arg; cases sep) simp_all
qed simp_all

lemma collect_expr_refs_set: "set (collect_expr_refs f e) = (\<Union>q\<in>set_expr e. set (f q))"
proof (induction e)
  case (ECase o1 whens els)
  have "set (concat (map (\<lambda>(c, r). c @ r) (map (map_prod (collect_expr_refs f) (collect_expr_refs f)) whens))) =
      (\<Union>p\<in>set whens. (\<Union>q\<in>set_expr (fst p) \<union> set_expr (snd p). set (f q)))"
  proof -
    have "set (collect_expr_refs f (fst p)) = (\<Union>q\<in>set_expr (fst p). set (f q))" "set (collect_expr_refs f (snd p)) = (\<Union>q\<in>set_expr (snd p). set (f q))"
      if "p \<in> set whens" for p
      using ECase.IH(2,3) [OF that] by (cases p; simp)+
    then show ?thesis by (simp add: case_prod_beta UN_Un)
  qed
  moreover have "set_expr (ECase o1 whens els) = \<Union> (set_expr ` set_option o1) \<union> (\<Union>p\<in>set whens. set_expr (fst p) \<union> set_expr (snd p)) \<union> \<Union> (set_expr ` set_option els)"
    by (force simp: prod_set_defs)
  moreover have "set (opt_list (map_option (collect_expr_refs f) x)) = (\<Union>q\<in>\<Union> (set_expr ` set_option x). set (f q))" if "x = o1 \<or> x = els" for x
    using that ECase.IH(1,4) by (cases x) auto
  ultimately show ?case by (simp del: expr.set(15)) blast
qed (auto split: option.splits)

lemma collect_from_refs_set: "set (collect_from_refs (map_from_clause f c)) = set (from_names c) \<union> (\<Union>q\<in>set_from_clause c. set (f q))"
proof (induction c)
  case (FJoin l r kind on us)
  then show ?case by (cases on) (auto simp: collect_expr_refs_map collect_expr_refs_set)
qed simp_all

lemma collect_item_refs_set: "set (collect_item_refs (map_sel_item f i)) = (\<Union>q\<in>set_sel_item i. set (f q))"
  by (cases i) (simp_all add: collect_item_refs_def collect_expr_refs_map collect_expr_refs_set)

lemma nested_refs:
  assumes "q \<in> nested sel"
  shows "set (collect_select_refs q) \<subseteq> set (collect_select_refs sel)"
proof (cases sel)
  case (SelectStmt w d items f fil g h ops ord lim off)
  from assms show ?thesis
  proof (cases rule: nested_cases)
    case (src c)
    then show ?thesis by (auto simp: SelectStmt collect_from_refs_set)
  next
    case (item i)
    then show ?thesis by (auto simp: SelectStmt collect_item_refs_set)
  qed (force simp: SelectStmt collect_expr_refs_map collect_expr_refs_set)+
qed

lemma from_names_refs: "sel_from sel = Some c \<Longrightarrow> set (from_names c) \<subseteq> set (collect_select_refs sel)"
  by (cases sel) (auto simp: collect_from_refs_set)

text \<open>A query evaluates queries written in it and bodies of views it mentions.\<close>

abbreviation inside :: "(select_stmt \<times> select_stmt) set" where
  "inside \<equiv> {(q, sel). q \<in> nested sel}\<^sup>+"

lemma inside_refs: "(q, sel) \<in> inside \<Longrightarrow> set (collect_select_refs q) \<subseteq> set (collect_select_refs sel)"
  by (induction rule: trancl_induct) (use nested_refs in auto)

lemma from_callees_cases:
  assumes "q \<in> from_callees st (sel_from sel)"
  shows "q \<in> nested sel \<or> (\<exists>n\<in>set (collect_select_refs sel). view st n = Some q)"
proof (cases "sel_from sel")
  case (Some c)
  with from_names_refs [OF Some] assms Some show ?thesis by (auto simp: from_callees_def nested_def)
qed (use assms in \<open>simp add: from_callees_def\<close>)

lemma core_callees_cases:
  assumes "q \<in> core_callees st sel"
  shows "(q, sel) \<in> inside \<or> (\<exists>n\<in>set (collect_select_refs sel). view st n = Some q)"
proof -
  from assms consider "q \<in> from_callees st (sel_from sel)" | "q \<in> expr_queries sel" | p where "p \<in> expr_queries sel" "q \<in> from_callees st (sel_from p)"
    by (auto simp: core_callees_def)
  then show ?thesis
  proof cases
    case 1
    from from_callees_cases [OF this] show ?thesis by auto
  next
    case 2
    then show ?thesis by (auto simp: nested_def)
  next
    case 3
    then have "p \<in> nested sel" by (simp add: nested_def)
    with from_callees_cases [OF 3(2)] nested_refs [of p sel] show ?thesis by (auto intro: trancl_into_trancl2)
  qed
qed

lemma callees_cases:
  assumes "q \<in> callees st sel"
  shows "(q, sel) \<in> inside \<or> (\<exists>n\<in>set (collect_select_refs sel). view st n = Some q)"
proof -
  from assms consider "q \<in> snd ` set (sel_with sel)" | "q \<in> core_callees st sel" | p where "p \<in> (snd \<circ> snd) ` set (sel_set_ops sel)" "q \<in> core_callees st p"
    by (force simp: callees_def)
  then show ?thesis
  proof cases
    case 1
    then have "q \<in> nested sel" by (simp add: nested_def)
    then show ?thesis by auto
  next
    case 2
    then show ?thesis by (rule core_callees_cases)
  next
    case 3
    then have "p \<in> nested sel" unfolding nested_def by blast
    with core_callees_cases [OF 3(2)] nested_refs [of p sel] show ?thesis by (auto intro: trancl_into_trancl)
  qed
qed

section \<open>Every query has a depth\<close>

lemma depth_from_views:
  assumes "\<And>n v. n \<in> set (collect_select_refs sel) \<Longrightarrow> view st n = Some v \<Longrightarrow> \<exists>d. depth_ok st d v"
  shows "\<exists>d. depth_ok st d sel"
  using wf_trancl [OF wf_nested] assms
proof (induction sel rule: wf_induct_rule)
  case (less sel)
  have "\<exists>d. depth_ok st d q" if "q \<in> callees st sel" for q
    using callees_cases [OF that] less.IH [of q] less.prems inside_refs [of q sel] by blast
  then obtain d where d: "depth_ok st (d q) q" if "q \<in> callees st sel" for q by metis
  let ?m = "Max (d ` callees st sel)"
  have "depth_ok st ?m q" if "q \<in> callees st sel" for q
    using d [OF that] by (rule depth_ok_mono) (simp add: finite_callees that)
  then show ?case by (intro exI [of _ "Suc ?m"]) simp
qed

lemma depth_exists:
  assumes "wf (view_deps collect_select_refs st)"
  shows "\<exists>d. depth_ok st d sel"
proof -
  have views: "hm_get (s_views st) k = Some v \<longrightarrow> (\<exists>d. depth_ok st d v)" for k v
    using assms
  proof (induction k arbitrary: v rule: wf_induct_rule)
    case (less k)
    show ?case
    proof
      assume v: "hm_get (s_views st) k = Some v"
      show "\<exists>d. depth_ok st d v"
      proof (rule depth_from_views)
        fix n u assume n: "n \<in> set (collect_select_refs v)" "view st n = Some u"
        have "(key n, k) \<in> view_deps collect_select_refs st" using v n(1) by (auto simp: view_deps_def view_edge_def)
        from less [OF this] n(2) show "\<exists>d. depth_ok st d u" by (simp add: view_def)
      qed
    qed
  qed
  show ?thesis
  proof (rule depth_from_views)
    fix n u assume "view st n = Some u"
    then show "\<exists>d. depth_ok st d u" using views [of "key n" u] by (simp only: view_def)
  qed
qed

section \<open>The single-table path\<close>

lemma returns_project: "calls_return env \<Longrightarrow> returns (project_returning env se items sch rows ps)"
proof -
  assume "calls_return env"
  then have "returns (project_item env se sch ps r p)" for r p
    by (cases p) (simp_all add: calls_return_def returns_eval)
  then show ?thesis by (auto simp: project_returning_def Let_def)
qed

lemma returns_knn_scan: "(\<And>vid. returns (f vid)) \<Longrightarrow> returns (knn_scan f vids n)"
  by (induction vids arbitrary: n) (auto split: option.splits)

lemma returns_knn_row: "calls_return env \<Longrightarrow> returns (knn_row env sc t fil vid)"
  by (auto simp: knn_row_def calls_return_def returns_predicate split: option.splits)

lemma returns_knn: "calls_return env \<Longrightarrow> returns (knn_select env kn sc sel name ef)"
  by (auto simp: knn_select_def returns_project returns_knn_scan returns_knn_row split: option.splits)
    (simp_all add: calls_return_def returns_count returns_eval)

lemma returns_group_item: "calls_return env \<Longrightarrow> returns (group_item env se ctx i)"
  by (cases i) (auto simp: calls_return_def returns_eval)

lemma returns_grouped:
  assumes "calls_return env"
  shows "returns (grouped_select env sc sel sch matched)"
proof -
  have so: "funcs_return (xe_so env)" using assms by (simp add: calls_return_def)
  have "returns (group_entry env se items having mk (group_item env se) rows)" for se items having mk rows
    by (auto simp: group_entry_def returns_having [OF so] returns_group_item [OF assms])
  then show ?thesis unfolding grouped_select_def Let_def
    by (intro returns_bind returns_order_entries returns_each returns_make_groups [OF so] returns_count [OF so])
      (auto simp: sort_keys_def returns_eval [OF so])
qed

lemma returns_plain:
  assumes "calls_return env"
  shows "returns (plain_select env sc sel sch matched)"
proof -
  have so: "funcs_return (xe_so env)" using assms by (simp add: calls_return_def)
  show ?thesis unfolding plain_select_def Let_def
    by (intro returns_bind returns_order_entries returns_count [OF so] returns_project [OF assms]) (auto simp: sort_keys_def returns_eval [OF so])
qed

lemma returns_single_table:
  assumes "calls_return env"
  shows "returns (single_table_select env kn sc sel name ef)"
proof -
  have "returns (scan_row env sc sch dec fil r)" for sch dec fil r using assms by (simp add: calls_return_def returns_scan_row)
  moreover have "returns (rls_read env se sch cmd)" for se sch cmd using assms by (simp add: calls_return_def returns_rls_read)
  ultimately show ?thesis
    by (auto simp: single_table_select_def returns_knn [OF assms] returns_grouped [OF assms] returns_plain [OF assms] split: option.splits)
qed

lemma returns_constant:
  assumes "calls_return env"
  shows "returns (constant_select env sc items)"
proof -
  have "returns (xe_eval env se e ctx)" for se ctx and e :: "select_stmt expr" using assms by (simp add: calls_return_def returns_eval)
  then have "returns (constant_items env se ps n items)" for se ps n
    by (induction env se ps n items rule: constant_items.induct) auto
  moreover have "returns (constant_item_ok i)" for i :: "select_stmt sel_item" by (cases i) simp_all
  ultimately show ?thesis unfolding constant_select_def by (auto intro: returns_check_each)
qed

section \<open>Termination of SELECT\<close>

text \<open>The outcome of a query does not depend on the stack any more, and it is not an overflow.\<close>

definition ends_at :: "'x query_env \<Rightarrow> 'x knn_ops \<Rightarrow> 'x query_scan \<Rightarrow> select_stmt \<Rightarrow> nat \<Rightarrow> bool" where
  "ends_at env kn sc sel n \<longleftrightarrow> (\<forall>k. run_select env kn sc (n + k) sel = run_select env kn sc n sel) \<and>
     run_select env kn sc n sel \<noteq> Inl Overflow"

lemma run_select_ends:
  assumes "wf (view_deps collect_select_refs (sc_store sc))" and "calls_return env"
  shows "\<exists>n. ends_at env kn sc sel n"
proof -
  obtain n where n: "depth_ok (sc_store sc) n sel" using depth_exists [OF assms(1)] by blast
  have "run_query env sc (n + k) sel = run_query env sc n sel" for k by (rule run_query_stable [OF n]) simp
  moreover have "returns (run_select env kn sc n sel)"
    using run_query_ends [OF assms(2) n] returns_single_table [OF assms(2)] returns_constant [OF assms(2)]
    by (simp add: run_select_def run_select_tuned_def split: option.splits from_clause.splits)
  ultimately show ?thesis
    by (intro exI [of _ n]) (simp add: ends_at_def returns_def run_select_def run_select_tuned_def split: option.splits from_clause.splits)
qed

text \<open>C24. If the names the view definitions mention lead into no cycle, every \<^verbatim>\<open>SELECT\<close> ends: there is a
  depth of the call stack on which it returns rows or an ordinary error, and on any larger stack
  it returns the same.\<close>
theorem select_terminates:
  assumes "wf (view_deps collect_select_refs (sc_store sc))" and "calls_return env"
  shows "\<exists>n. \<forall>k. run_select env kn sc (n + k) sel = run_select env kn sc n sel \<and> run_select env kn sc n sel \<noteq> Inl Overflow"
  using run_select_ends [OF assms, of kn sel] by (auto simp: ends_at_def)

text \<open>\<^verbatim>\<open>SELECT * FROM name\<close>, a view over a table, and functions that refuse every call.\<close>

definition star_from :: "string \<Rightarrow> select_stmt" where
  "star_from name = SelectStmt [] False [SStar None] (Some (FTable name None)) None [] None [] [] None None"

definition view_store :: "(unit, select_stmt) store" where
  "view_store = \<lparr>s_tables = [(''t'', \<lparr>t_schema = \<lparr>sch_name = ''t'', sch_columns = [], sch_foreign_keys = [], sch_checks = [],
       sch_uniques = [], sch_rls_enabled = False, sch_policies = []\<rparr>,
       t_rows = [\<lparr>rv_vid = 1, rv_values = [], rv_create_lsn = 1, rv_delete_lsn = 0, rv_owner = 0\<rparr>], t_next_vid = 2, t_next_autoinc = 1\<rparr>)],
     s_indexes = [], s_views = [(''w'', star_from ''t'')], s_committed_lsn = 4\<rparr>"

definition refusing_env :: "scalar_ops \<Rightarrow> 'x vector_ops \<Rightarrow> 'x query_env" where
  "refusing_env so vo = base_env (so\<lparr>so_call_func := (\<lambda>_ _. Inl (Raised ErrSql))\<rparr>) vo (\<lambda>_. Inl (Raised ErrSql))"

lemma refusing_calls: "calls_return (refusing_env so vo)"
  by (simp add: calls_return_def refusing_env_def base_env_def funcs_return_def)

lemma view_store_keys [simp]: "key ''t'' = ''t''" "key ''v'' = ''v''" "key ''w'' = ''w''"
  by code_simp+

lemma view_store_acyclic: "wf (view_deps collect_select_refs view_store)"
proof -
  have "view_deps collect_select_refs view_store = {(''t'', ''w'')}"
    by (auto simp: view_deps_def view_edge_def view_store_def star_from_def opt_list_def collect_item_refs_def split: if_splits)
  then show ?thesis by (simp add: wf_insert)
qed

theorem select_terminates_witness:
  "\<forall>so vo kn se ps. \<exists>n. \<forall>k. run_select (refusing_env so vo) kn (make_scan se view_store 4 None ps) (n + k) (star_from ''w'') =
      run_select (refusing_env so vo) kn (make_scan se view_store 4 None ps) n (star_from ''w'') \<and>
    run_select (refusing_env so vo) kn (make_scan se view_store 4 None ps) n (star_from ''w'') \<noteq> Inl Overflow"
  by (intro allI select_terminates refusing_calls) (simp add: make_scan_def view_store_acyclic)

section \<open>Accepted views end\<close>

text \<open>Schema statements whose view definition, if any, does not start with \<^verbatim>\<open>WITH\<close>, and whatever else
  happens to the database without changing its views.\<close>

inductive view_step :: "'s storage \<Rightarrow> fence_token \<Rightarrow> select_stmt sql_env \<Rightarrow> 'x vector_ops \<Rightarrow> (string \<Rightarrow> bool) \<Rightarrow> ('x \<Rightarrow> nat \<Rightarrow> bytes list option) \<Rightarrow>
    ('s, 'x, select_stmt) db \<Rightarrow> ('s, 'x, select_stmt) db \<Rightarrow> bool" for ops tok senv vo px frames where
  view_ddl: "\<forall>q\<in>stmt_views stmt. sel_with q = [] \<Longrightarrow> do_ddl ops tok senv vo px referenced_relations frames stmt d = (r, d') \<Longrightarrow>
    view_step ops tok senv vo px frames d d'"
| view_other: "s_views (d_store d') = s_views (d_store d) \<Longrightarrow> view_step ops tok senv vo px frames d d'"

definition plain_views :: "('x, select_stmt) store \<Rightarrow> bool" where
  "plain_views st \<longleftrightarrow> (\<forall>q\<in>ran (hm_get (s_views st)). sel_with q = []) \<and> wf (view_deps collect_select_refs st)"

lemma referenced_relations_plain: "sel_with q = [] \<Longrightarrow> referenced_relations q = collect_select_refs q"
  by (simp add: referenced_relations_def)

lemma view_deps_plain:
  assumes "\<forall>q\<in>ran (hm_get (s_views st)). sel_with q = []"
  shows "view_deps referenced_relations st = view_deps collect_select_refs st"
proof -
  have "view_edge referenced_relations st a b = view_edge collect_select_refs st a b" for a b
    using assms by (auto simp: view_edge_def ran_def referenced_relations_plain)
  then show ?thesis by (simp add: view_deps_def)
qed

lemma view_step_plain: "view_step ops tok senv vo px frames d d' \<Longrightarrow> plain_views (d_store d) \<Longrightarrow> plain_views (d_store d')"
proof (induction rule: view_step.induct)
  case (view_ddl stmt d r d')
  have "ran (hm_get (s_views (d_store d'))) \<subseteq> ran (hm_get (s_views (d_store d))) \<union> stmt_views stmt"
    by (rule ddl_views [OF view_ddl.hyps(2)])
  then have w: "\<forall>q\<in>ran (hm_get (s_views (d_store d'))). sel_with q = []"
    using view_ddl.hyps(1) view_ddl.prems by (auto simp: plain_views_def)
  have "wf (view_deps referenced_relations (d_store d))"
    using view_ddl.prems view_deps_plain [of "d_store d"] by (simp add: plain_views_def)
  from ddl_keeps_acyclic [OF this view_ddl.hyps(2)] w view_deps_plain [OF w] show ?case by (simp add: plain_views_def)
next
  case (view_other d' d)
  then show ?case using view_deps_cong [of "d_store d'" "d_store d" collect_select_refs] by (simp add: plain_views_def)
qed

text \<open>C19. The check at \<^verbatim>\<open>CREATE VIEW\<close> is enough when view definitions do not start with \<^verbatim>\<open>WITH\<close>: start from
  a database without views, run any schema statements, accepted or refused, with any writes in
  between, and every \<^verbatim>\<open>SELECT\<close> ends, on rows or an ordinary error that a larger stack does not
  change.  What happens with \<^verbatim>\<open>WITH\<close> is shown below.\<close>
theorem accepted_views_end:
  assumes "(view_step ops tok senv vo px frames)\<^sup>*\<^sup>* d d'" and "s_views (d_store d) = []" and "sc_store sc = d_store d'" and "calls_return env"
  shows "\<exists>n. \<forall>k. run_select env kn sc (n + k) sel = run_select env kn sc n sel \<and> run_select env kn sc n sel \<noteq> Inl Overflow"
proof -
  have "view_deps collect_select_refs (d_store d) = {}" using assms(2) by (auto simp: view_deps_def view_edge_def)
  with assms(2) have "plain_views (d_store d)" by (simp add: plain_views_def)
  with assms(1) have "plain_views (d_store d')"
    by (induction rule: rtranclp_induct) (auto intro: view_step_plain)
  with assms(3,4) run_select_ends [of sc env kn sel] show ?thesis by (auto simp: plain_views_def ends_at_def)
qed

text \<open>The witness creates the view \<^verbatim>\<open>w\<close> as \<^verbatim>\<open>SELECT * FROM t\<close> and then tries to replace it by \<^verbatim>\<open>SELECT * FROM w\<close>,
  which is refused.\<close>

abbreviation empty_db :: "(local_inner, unit, select_stmt) db" where
  "empty_db \<equiv> \<lparr>d_storage = fresh_local, d_store = store_default, d_gc = gc_new\<rparr>"

abbreviation run_view :: "string \<Rightarrow> bool \<Rightarrow> (local_inner, unit, select_stmt) ddl" where
  "run_view from orr \<equiv> do_ddl local_storage zero_token \<lparr>env_parse_view = \<lambda>_. None, env_eval_const = \<lambda>_. None\<rparr> unit_index_ops (\<lambda>_. True)
     referenced_relations (\<lambda>_ _. None) (StCreateView ''w'' (star_from from) ''SELECT'' orr False)"

lemma star_refs: "referenced_relations (star_from n) = [n]" "sel_with (star_from n) = []"
  by (simp_all add: referenced_relations_def star_from_def opt_list_def collect_item_refs_def)

lemma create_w: "\<exists>l g. run_view ''t'' False empty_db = (Inr (Some l), g) \<and>
    s_views (d_store g) = [(''w'', star_from ''t'')] \<and> s_tables (d_store g) = []"
proof -
  obtain l g where "st_append_wal local_storage fresh_local zero_token (txn_records [CreateView ''w'' ''SELECT'']) = (Inr l, g)"
    using local_append_two [of fresh_local "CreateView ''w'' ''SELECT''"] by (auto simp: fresh_local_def inner_base_def)
  then show ?thesis
    by (simp add: do_create_view_def has_table_def has_view_def get_table_def store_default_def log_ddl_def txn_records_def
        view_would_cycle_def view_def insert_view_def star_refs eq_ignore_ascii_case_def to_ascii_lowercase_def lower_char_def)
qed

theorem accepted_views_end_witness:
  "\<exists>l d1 d2. run_view ''t'' False empty_db = (Inr (Some l), d1) \<and> run_view ''w'' True d1 = (Inl ErrSql, d2) \<and>
     (\<forall>so vo kn se ps. \<exists>n. \<forall>k. run_select (refusing_env so vo) kn (make_scan se (d_store d2) 4 None ps) (n + k) (star_from ''w'') =
        run_select (refusing_env so vo) kn (make_scan se (d_store d2) 4 None ps) n (star_from ''w'') \<and>
      run_select (refusing_env so vo) kn (make_scan se (d_store d2) 4 None ps) n (star_from ''w'') \<noteq> Inl Overflow)"
proof -
  let ?step = "view_step local_storage zero_token \<lparr>env_parse_view = \<lambda>_. None, env_eval_const = \<lambda>_. None\<rparr> unit_index_ops (\<lambda>_. True) (\<lambda>_ _. None)"
  obtain l d1 where 1: "run_view ''t'' False empty_db = (Inr (Some l), d1)" "s_views (d_store d1) = [(''w'', star_from ''t'')]"
      "s_tables (d_store d1) = []"
    using create_w by blast
  have c: "view_would_cycle referenced_relations (d_store d1) ''w'' (star_from ''w'')"
    by (simp add: view_would_cycle_def star_refs eq_ignore_ascii_case_def)
  have 2: "run_view ''w'' True d1 = (Inl ErrSql, d1)"
    using 1(2,3) c by (simp add: do_create_view_def has_table_def get_table_def)
  have "?step empty_db d1" by (rule view_ddl [OF _ 1(1)]) (simp add: star_refs)
  then have r: "?step\<^sup>*\<^sup>* empty_db d1" by (rule r_into_rtranclp)
  have "\<exists>n. \<forall>k. run_select (refusing_env so vo) kn (make_scan se (d_store d1) 4 None ps) (n + k) (star_from ''w'') =
        run_select (refusing_env so vo) kn (make_scan se (d_store d1) 4 None ps) n (star_from ''w'') \<and>
      run_select (refusing_env so vo) kn (make_scan se (d_store d1) 4 None ps) n (star_from ''w'') \<noteq> Inl Overflow" for so vo kn se ps
    by (rule accepted_views_end [OF r]) (simp_all add: store_default_def make_scan_def refusing_calls)
  with 1(1) 2 show ?thesis by blast
qed

section \<open>A view that never ends\<close>

text \<open>The view \<^verbatim>\<open>WITH v AS (SELECT * FROM v) SELECT * FROM v\<close>.\<close>

definition cte_view :: select_stmt where
  "cte_view = SelectStmt [(''v'', star_from ''v'')] False [SStar None] (Some (FTable ''v'' None)) None [] None [] [] None None"

lemma cte_view_refs: "referenced_relations cte_view = []" "collect_select_refs cte_view = [''v'', ''v'']"
  by (simp_all add: referenced_relations_def cte_view_def star_from_def opt_list_def collect_item_refs_def)

lemma cte_view_loops:
  assumes "view (sc_store sc) ''v'' = Some cte_view"
  shows "run_query env sc n (star_from ''v'') = Inl Overflow"
proof (induction n rule: less_induct)
  case (less n)
  show ?case
  proof (cases n)
    case (Suc m)
    have "run_query env sc m cte_view = Inl Overflow"
    proof (cases m)
      case (Suc k)
      with less.IH [of k] \<open>n = Suc m\<close> show ?thesis by (simp add: query_body_def cte_view_def)
    qed simp
    with Suc assms show ?thesis by (simp add: query_body_def star_from_def eval_core_def build_source_def named_relation_def)
  qed simp
qed

text \<open>C29. \<^verbatim>\<open>CREATE VIEW v AS WITH v AS (SELECT * FROM v) SELECT * FROM v\<close> passes the check for recursive
  definitions, because the names its \<^verbatim>\<open>WITH\<close> binds are left out of the search even where they
  denote the view; \<^verbatim>\<open>SELECT * FROM v\<close> then exhausts the call stack, whatever its size.\<close>
theorem cte_view_overflows:
  assumes "\<not> has_table (d_store d) ''v''" and "\<not> has_view (d_store d) ''v''"
  shows "do_create_view ops tok referenced_relations ''v'' cte_view sql or_replace if_not_exists d =
      log_ddl ops tok (CreateView ''v'' sql) (insert_view ''v'' cte_view) d \<and>
    run_select env kn (sc\<lparr>sc_store := insert_view ''v'' cte_view (d_store d)\<rparr>) n (star_from ''v'') = Inl Overflow"
proof -
  let ?sc = "sc\<lparr>sc_store := insert_view ''v'' cte_view (d_store d)\<rparr>"
  have "\<not> needs_relational (star_from ''v'')"
    by (simp add: needs_relational_def star_from_def select_has_subquery_def item_exprs_def opt_list_def)
  moreover have "get_table (sc_store ?sc) ''v'' = None" using assms(1) by (simp add: insert_view_def get_table_def has_table_def)
  moreover have "run_query env ?sc n (star_from ''v'') = Inl Overflow"
    by (rule cte_view_loops) (simp add: view_def insert_view_def)
  ultimately show ?thesis using assms
    by (simp add: run_select_def run_select_tuned_def star_from_def do_create_view_def view_would_cycle_iff cte_view_refs)
qed

theorem cte_view_overflows_witness:
  "\<forall>ops tok sql or_replace if_not_exists s gc env kn sc n.
    do_create_view ops tok referenced_relations ''v'' cte_view sql or_replace if_not_exists \<lparr>d_storage = s, d_store = view_store, d_gc = gc\<rparr> =
      log_ddl ops tok (CreateView ''v'' sql) (insert_view ''v'' cte_view) \<lparr>d_storage = s, d_store = view_store, d_gc = gc\<rparr> \<and>
    run_select env kn (sc\<lparr>sc_store := insert_view ''v'' cte_view (d_store \<lparr>d_storage = s, d_store = view_store, d_gc = gc\<rparr>)\<rparr>) n
      (star_from ''v'') = Inl Overflow"
  by (intro allI cte_view_overflows) (simp_all add: has_table_def get_table_def has_view_def view_store_def)

end
