(* ===== verification/Query_Isolation.thy ===== *)
theory Query_Isolation
  imports Query_Depth
begin

text \<open>
  What a query can depend on.  Evaluation reads the store through the scans of the tables and
  the view definitions only; two scans that give the same rows give the same result.  This has
  two uses: a session learns nothing of the rows its policies hide, and a query repeated on its
  snapshot returns the same rows whatever other transactions did in between.
\<close>

section \<open>Evaluation reads the store through named relations\<close>

definition same_reads :: "'x query_env \<Rightarrow> 'x query_scan \<Rightarrow> 'x query_scan \<Rightarrow> bool" where
  "same_reads env sc1 sc2 \<longleftrightarrow> sc_session sc1 = sc_session sc2 \<and> sc_params sc1 = sc_params sc2 \<and>
     (\<forall>rq ctes name src. named_relation env sc1 rq ctes name src = named_relation env sc2 rq ctes name src)"

lemma build_from_same: "same_reads env sc1 sc2 \<Longrightarrow> build_from env sc1 rq ctes f = build_from env sc2 rq ctes f"
  by (induction f) (simp_all add: same_reads_def)

lemma query_body_same:
  assumes "same_reads env sc1 sc2"
  shows "query_body env sc1 = query_body env sc2"
proof -
  have session: "sc_session sc1 = sc_session sc2" and params: "sc_params sc1 = sc_params sc2"
    using assms by (simp_all add: same_reads_def)
  have src: "build_source env sc1 = build_source env sc2" and ns: "from_namespace env sc1 = from_namespace env sc2"
    by (simp_all add: fun_eq_iff build_source_def from_namespace_def build_from_same [OF assms] split: option.splits)
  have "bind_subquery env sc1 = bind_subquery env sc2" by (simp add: fun_eq_iff bind_subquery_def ns)
  then have fold: "fold_corr env sc1 = fold_corr env sc2" by (simp add: fun_eq_iff fold_corr_def folder_def)
  have plain: "plain_entry env sc1 = plain_entry env sc2" unfolding fun_eq_iff plain_entry_def fold session params by simp
  have entries: "build_entries env sc1 = build_entries env sc2" and kept: "collect_kept env sc1 = collect_kept env sc2"
    unfolding fun_eq_iff build_entries_def collect_kept_def plain fold session params by simp_all
  have corr: "select_has_correlated env sc1 = select_has_correlated env sc2"
    by (simp add: fun_eq_iff select_has_correlated_def subquery_correlated_def [abs_def] ns)
  have tails: "core_order env sc1 = core_order env sc2" "core_tail env sc1 = core_tail env sc2"
    by (simp_all add: fun_eq_iff core_order_def core_tail_def session params)
  have core: "eval_core env sc1 = eval_core env sc2"
    unfolding fun_eq_iff eval_core_def src corr kept entries tails by simp
  have arms: "run_arms env sc1 rq ctes arms acc = run_arms env sc2 rq ctes arms acc" for rq ctes arms acc
    by (induction arms arbitrary: acc) (auto simp: core intro!: arg_cong2 [of _ _ _ _ res_bind] ext)
  show ?thesis unfolding fun_eq_iff query_body_def core arms session params by simp
qed

lemma run_query_same: "same_reads env sc1 sc2 \<Longrightarrow> run_query env sc1 n = run_query env sc2 n"
  by (induction n) (simp_all add: query_body_same)

section \<open>Scans\<close>

text \<open>Two scans that read the same: the views agree, and the scan of every table for this session gives
  the same rows, or the same error, in both.\<close>

definition same_table :: "'x query_env \<Rightarrow> 'x query_scan \<Rightarrow> 'x query_scan \<Rightarrow> table \<Rightarrow> table \<Rightarrow> bool" where
  "same_table env sc1 sc2 t1 t2 \<longleftrightarrow> t_schema t1 = t_schema t2 \<and>
     (\<forall>dec fil. rls_read env (sc_session sc2) (t_schema t2) PcSelect = Inr dec \<longrightarrow>
       collect_each (scan_row env sc1 (t_schema t2) dec fil) (t_rows t1) = collect_each (scan_row env sc2 (t_schema t2) dec fil) (t_rows t2))"

definition same_scans :: "'x query_env \<Rightarrow> 'x query_scan \<Rightarrow> 'x query_scan \<Rightarrow> bool" where
  "same_scans env sc1 sc2 \<longleftrightarrow> sc_session sc1 = sc_session sc2 \<and> sc_params sc1 = sc_params sc2 \<and>
     (\<forall>name. view (sc_store sc1) name = view (sc_store sc2) name) \<and>
     (\<forall>name. rel_option (same_table env sc1 sc2) (get_table (sc_store sc1) name) (get_table (sc_store sc2) name))"

text \<open>A nearest-neighbour search reads the vector index instead of the table, and the executor uses it on
  tables that are unrestricted for the session only.  Two scans agree there when the table has
  no index on either side, or rows and indexes are the same.\<close>

definition same_open_tables :: "'x query_env \<Rightarrow> 'x query_scan \<Rightarrow> 'x query_scan \<Rightarrow> bool" where
  "same_open_tables env sc1 sc2 \<longleftrightarrow> (\<forall>name t. get_table (sc_store sc2) name = Some t \<longrightarrow>
     rls_read env (sc_session sc2) (t_schema t) PcSelect = Inr RlsUnrestricted \<longrightarrow>
     (\<forall>col. index_for (xe_vo env) (sc_store sc1) name col = None \<and> index_for (xe_vo env) (sc_store sc2) name col = None) \<or>
     sc_snapshot sc1 = sc_snapshot sc2 \<and> sc_writer sc1 = sc_writer sc2 \<and> get_table (sc_store sc1) name = Some t \<and>
     (\<forall>col. index_for (xe_vo env) (sc_store sc1) name col = index_for (xe_vo env) (sc_store sc2) name col))"

definition same_knn :: "'x query_env \<Rightarrow> 'x knn_ops \<Rightarrow> 'x query_scan \<Rightarrow> 'x query_scan \<Rightarrow> select_stmt \<Rightarrow> bool" where
  "same_knn env kn sc1 sc2 sel \<longleftrightarrow> (\<forall>name t ef. get_table (sc_store sc2) name = Some t \<longrightarrow>
     rls_read env (sc_session sc2) (t_schema t) PcSelect = Inr RlsUnrestricted \<longrightarrow>
     knn_select env kn sc1 sel name ef = knn_select env kn sc2 sel name ef)"

lemma same_open_knn:
  assumes "same_scans env sc1 sc2" and "same_open_tables env sc1 sc2"
  shows "same_knn env kn sc1 sc2 sel"
  unfolding same_knn_def
proof (intro allI impI)
  fix name t ef
  assume t: "get_table (sc_store sc2) name = Some t" "rls_read env (sc_session sc2) (t_schema t) PcSelect = Inr RlsUnrestricted"
  have se: "sc_session sc1 = sc_session sc2" "sc_params sc1 = sc_params sc2" using assms(1) by (simp_all add: same_scans_def)
  consider "\<forall>col. index_for (xe_vo env) (sc_store sc1) name col = None \<and> index_for (xe_vo env) (sc_store sc2) name col = None"
    | "sc_snapshot sc1 = sc_snapshot sc2" "sc_writer sc1 = sc_writer sc2" "get_table (sc_store sc1) name = Some t"
      "\<forall>col. index_for (xe_vo env) (sc_store sc1) name col = index_for (xe_vo env) (sc_store sc2) name col"
    using assms(2) t unfolding same_open_tables_def by blast
  then show "knn_select env kn sc1 sel name ef = knn_select env kn sc2 sel name ef"
  proof cases
    case 1
    then show ?thesis by (auto simp: knn_select_def se intro!: res_bind_cong split: option.splits)
  next
    case 2
    then have row: "knn_row env sc1 t = knn_row env sc2 t" by (simp add: fun_eq_iff knn_row_def se split: option.splits)
    have ix: "index_for (xe_vo env) (sc_store sc1) name = index_for (xe_vo env) (sc_store sc2) name" using 2(4) by blast
    show ?thesis unfolding knn_select_def se 2(1,3) t(1) ix option.case row ..
  qed
qed

lemma same_scans_reads:
  assumes "same_scans env sc1 sc2"
  shows "same_reads env sc1 sc2"
proof -
  have tables: "table_relation env sc1 t1 src = table_relation env sc2 t2 src" if "same_table env sc1 sc2 t1 t2" for t1 t2 src
    using that assms by (cases "rls_read env (sc_session sc2) (t_schema t2) PcSelect") (simp_all add: table_relation_def same_table_def same_scans_def)
  have "named_relation env sc1 rq ctes name src = named_relation env sc2 rq ctes name src" for rq ctes name src
  proof -
    have "rel_option (same_table env sc1 sc2) (get_table (sc_store sc1) name) (get_table (sc_store sc2) name)"
      "view (sc_store sc1) name = view (sc_store sc2) name"
      using assms by (simp_all add: same_scans_def)
    then show ?thesis by (cases rule: option.rel_cases) (simp_all add: named_relation_def tables cong: option.case_cong)
  qed
  with assms show ?thesis by (simp add: same_reads_def same_scans_def)
qed

lemma single_table_same:
  assumes "same_scans env sc1 sc2" and "same_knn env kn sc1 sc2 sel"
  shows "single_table_select env kn sc1 sel name ef = single_table_select env kn sc2 sel name ef"
proof -
  have same: "sc_session sc1 = sc_session sc2" "sc_params sc1 = sc_params sc2" using assms(1) by (simp_all add: same_scans_def)
  have tail: "grouped_select env sc1 = grouped_select env sc2" "plain_select env sc1 = plain_select env sc2"
    by (simp_all add: fun_eq_iff grouped_select_def plain_select_def same)
  have "rel_option (same_table env sc1 sc2) (get_table (sc_store sc1) name) (get_table (sc_store sc2) name)"
    using assms(1) by (simp add: same_scans_def)
  then show ?thesis
  proof (cases rule: option.rel_cases)
    case (Some t1 t2)
    then have sch: "t_schema t1 = t_schema t2" by (simp add: same_table_def)
    have knn: "knn_select env kn sc1 sel name ef = knn_select env kn sc2 sel name ef"
      if "rls_read env (sc_session sc2) (t_schema t2) PcSelect = Inr RlsUnrestricted"
      using assms(2) Some that by (simp add: same_knn_def)
    from Some knn show ?thesis unfolding single_table_select_def same tail Some option.case sch
      by (cases "rls_read env (sc_session sc2) (t_schema t2) PcSelect") (simp_all add: same_table_def cong: if_cong)
  qed (simp add: single_table_select_def)
qed

lemma run_select_same:
  assumes "same_scans env sc1 sc2" and "same_knn env kn sc1 sc2 sel"
  shows "run_select env kn sc1 n sel = run_select env kn sc2 n sel"
proof -
  have "rel_option (same_table env sc1 sc2) (get_table (sc_store sc1) name) (get_table (sc_store sc2) name)" for name
    using assms(1) by (simp add: same_scans_def)
  from option.rel_sel [THEN iffD1, OF this] have "get_table (sc_store sc1) name = None \<longleftrightarrow> get_table (sc_store sc2) name = None" for name by blast
  moreover have "constant_select env sc1 = constant_select env sc2"
    using assms(1) by (simp add: fun_eq_iff constant_select_def same_scans_def)
  ultimately show ?thesis unfolding run_select_def run_select_tuned_def
    using single_table_same [OF assms] run_query_same [OF same_scans_reads [OF assms(1)]] by (simp split: option.splits from_clause.splits)
qed

section \<open>Rows the policies hide\<close>

text \<open>The rows of a table this session reads: visible at the snapshot and passed by the policies.\<close>

definition passed_rows :: "'x query_env \<Rightarrow> 'x query_scan \<Rightarrow> table \<Rightarrow> rows xres" where
  "passed_rows env sc t = res_bind (rls_read env (sc_session sc) (t_schema t) PcSelect) (\<lambda>dec.
     collect_each (scan_row env sc (t_schema t) dec None) (t_rows t))"

definition keep_row :: "'x query_env \<Rightarrow> 'x query_scan \<Rightarrow> table_schema \<Rightarrow> select_stmt expr option \<Rightarrow> sql_value list \<Rightarrow> rows xres" where
  "keep_row env sc sch fil vals = res_bind (predicate (xe_so env) (sc_session sc) fil (ctx_row vals sch (sc_params sc))) (\<lambda>hit.
     Inr (if hit then [vals] else []))"

lemma collect_each_simps [simp]:
  "collect_each f [] = Inr []"
  "collect_each f (x # xs) = res_bind (f x) (\<lambda>ys. res_bind (collect_each f xs) (\<lambda>zs. Inr (ys @ zs)))"
  by (simp_all add: collect_each_def) (cases "f x"; cases "collect_results (map f xs)"; simp)

lemma predicate_None [simp]: "predicate so se None ctx = Inr True"
  by (simp add: predicate_def)

lemma scan_row_passes:
  "row_visible (sc_snapshot sc) (sc_writer sc) r \<Longrightarrow> rls_passes (xe_so env) (sc_session sc) dec (ctx_row (rv_values r) sch (sc_params sc)) = Inr True \<Longrightarrow>
    scan_row env sc sch dec fil r = keep_row env sc sch fil (rv_values r)"
  by (simp add: scan_row_def keep_row_def)

lemma scan_passed:
  assumes "collect_each (scan_row env sc sch dec None) rows = Inr vs"
  shows "collect_each (scan_row env sc sch dec fil) rows = collect_each (keep_row env sc sch fil) vs"
  using assms
proof (induction rows arbitrary: vs)
  case (Cons r rows)
  let ?p = "rls_passes (xe_so env) (sc_session sc) dec (ctx_row (rv_values r) sch (sc_params sc))"
  show ?case
  proof (cases "row_visible (sc_snapshot sc) (sc_writer sc) r \<and> ?p = Inr True")
    case True
    with Cons.prems obtain ws where "collect_each (scan_row env sc sch dec None) rows = Inr ws" "vs = rv_values r # ws"
      by (auto simp: scan_row_passes keep_row_def)
    with Cons.IH True show ?thesis by (simp add: scan_row_passes)
  next
    case False
    from Cons.prems obtain x where "scan_row env sc sch dec None r = Inr x" by auto
    with False have none: "scan_row env sc sch dec g r = Inr []" for g
      by (cases ?p) (auto simp: scan_row_def)
    from Cons.prems have "collect_each (scan_row env sc sch dec None) rows = Inr vs" by (auto simp: none)
    with Cons.IH show ?thesis by (simp add: none) (cases "collect_each (keep_row env sc sch fil) vs"; simp)
  qed
qed simp

definition same_sight :: "'x query_env \<Rightarrow> 'x query_scan \<Rightarrow> 'x query_scan \<Rightarrow> bool" where
  "same_sight env sc1 sc2 \<longleftrightarrow> sc_session sc1 = sc_session sc2 \<and> sc_params sc1 = sc_params sc2 \<and>
     (\<forall>name. view (sc_store sc1) name = view (sc_store sc2) name) \<and>
     (\<forall>name. rel_option (\<lambda>t1 t2. t_schema t1 = t_schema t2 \<and> (\<exists>vs. passed_rows env sc1 t1 = Inr vs \<and> passed_rows env sc2 t2 = Inr vs))
       (get_table (sc_store sc1) name) (get_table (sc_store sc2) name))"

lemma same_sight_scans:
  assumes "same_sight env sc1 sc2"
  shows "same_scans env sc1 sc2"
proof -
  have se: "sc_session sc1 = sc_session sc2" "sc_params sc1 = sc_params sc2" using assms by (simp_all add: same_sight_def)
  then have keep: "keep_row env sc1 = keep_row env sc2" by (simp add: fun_eq_iff keep_row_def)
  have "same_table env sc1 sc2 t1 t2" if "t_schema t1 = t_schema t2" "passed_rows env sc1 t1 = Inr vs" "passed_rows env sc2 t2 = Inr vs" for t1 t2 vs
    using that se unfolding same_table_def by (auto simp: passed_rows_def scan_passed keep)
  then have "(\<lambda>t1 t2. t_schema t1 = t_schema t2 \<and> (\<exists>vs. passed_rows env sc1 t1 = Inr vs \<and> passed_rows env sc2 t2 = Inr vs)) \<le> same_table env sc1 sc2"
    by blast
  from option.rel_mono [OF this] show ?thesis using assms unfolding same_scans_def same_sight_def by blast
qed

text \<open>C22. Row-level security: the result of a query is a function of the rows the policies let the session
  read.  Two databases, or two states of one, whose tables agree on the rows that are visible and
  passed by the policies give every query the same result, errors included; nothing of the other
  rows shows.  The tables may have any vector indexes, different ones in the two databases, as
  long as policies restrict the session there; a table the session reads without restriction
  has no index, or the same rows and indexes in both.\<close>
theorem hidden_rows_do_not_show:
  assumes "same_sight env sc1 sc2" and "same_open_tables env sc1 sc2"
  shows "run_select env kn sc1 n sel = run_select env kn sc2 n sel"
  by (rule run_select_same [OF same_sight_scans [OF assms(1)] same_open_knn [OF same_sight_scans [OF assms(1)] assms(2)]])

section \<open>Repeatable reads\<close>

lemma scan_visible:
  "collect_each (scan_row env sc sch dec fil) rows = collect_each (\<lambda>vals.
     res_bind (rls_passes (xe_so env) (sc_session sc) dec (ctx_row vals sch (sc_params sc))) (\<lambda>ok. if \<not> ok then Inr [] else keep_row env sc sch fil vals))
     (map rv_values (filter (row_visible (sc_snapshot sc) (sc_writer sc)) rows))"
proof (induction rows)
  case (Cons r rows)
  have "scan_row env sc sch dec fil r = (if row_visible (sc_snapshot sc) (sc_writer sc) r
      then res_bind (rls_passes (xe_so env) (sc_session sc) dec (ctx_row (rv_values r) sch (sc_params sc))) (\<lambda>ok. if \<not> ok then Inr [] else keep_row env sc sch fil (rv_values r))
      else Inr [])" unfolding scan_row_def keep_row_def Let_def by simp
  moreover have "res_bind x (\<lambda>zs. Inr zs) = x" for x :: "rows xres" by (cases x) simp_all
  ultimately show ?case by (simp add: Cons.IH)
qed simp

text \<open>Writes, commits and rollbacks of other transactions leave views, schemas and the absence of indexes.\<close>

definition frame :: "('x, 'q) store \<Rightarrow> (string \<times> 'q) list \<times> (string \<Rightarrow> table_schema option)" where
  "frame st = (s_views st, \<lambda>name. map_option t_schema (get_table st name))"

lemma frame_table_mut: "(\<And>t. t_schema (f t) = t_schema t) \<Longrightarrow> frame (table_mut table f st) = frame st"
proof -
  assume f: "\<And>t. t_schema (f t) = t_schema t"
  have "map_option t_schema (get_table (table_mut table f st) name) = map_option t_schema (get_table st name)" for name
  proof (cases "key name = key table")
    case True
    then have "get_table st name = get_table st table" by (simp add: get_table_def)
    with True f show ?thesis by (simp add: get_table_mut option.map_comp comp_def)
  qed (simp add: get_table_mut)
  then show ?thesis by (simp add: frame_def)
qed

lemma frame_tables:
  assumes "s_tables st' = s_tables (map_rows f st)" and "s_views st' = s_views st"
  shows "frame st' = frame st"
proof -
  have "map_option t_schema (get_table (map_rows f st) name) = map_option t_schema (get_table st name)" for name
    by (simp only: get_table_map_rows option.map_comp) (simp add: comp_def)
  with get_table_cong [OF assms(1)] assms(2) show ?thesis by (simp add: frame_def)
qed

lemma finalize_owner_views: "s_views (finalize_owner vo me lsn st) = s_views st"
proof -
  have "s_views (finalize_owner vo me lsn st) = s_views (map_rows (map (finalize_row me lsn)) st)"
    unfolding finalize_owner_def Let_def by (rule foldl_keeps) (simp split: prod.splits)
  then show ?thesis by (simp add: map_rows_def)
qed

lemma finalize_owner_no_index:
  assumes "s_indexes st = []"
  shows "s_indexes (finalize_owner vo me lsn st) = []"
proof -
  have del: "s_indexes (apply_index_deletes vo table vids lsn u) = []" if "s_indexes u = []" for u :: "('a, 'b) store" and table vids
    using that by (simp add: apply_index_deletes_def)
  have "s_indexes (foldl (\<lambda>st (table, vids). apply_index_deletes vo table vids lsn st) u ds) = []" if "s_indexes u = []" for u :: "('a, 'b) store" and ds
    using that by (induction ds arbitrary: u) (auto simp: del)
  then show ?thesis using assms by (simp add: finalize_owner_def map_rows_def)
qed

lemma mvcc_step_frame:
  assumes "mvcc_step vo st st'"
  shows "frame st' = frame st \<and> (s_indexes st = [] \<longrightarrow> s_indexes st' = [])"
  using assms
proof (induction rule: mvcc_step.induct)
  case (step_append table vals me st w vid st' w')
  then have "st' = table_mut table (append_row vals me) st" by (simp add: append_version_def split: option.splits)
  then show ?case by (simp add: frame_table_mut append_row_def alloc_vid_def)
next
  case (step_index st table vid vals)
  then show ?case by (simp add: frame_def get_table_def index_row_inserted_def split: option.splits)
next
  case (step_supersede st table t vid r s me w st' w')
  then have "st' = table_mut table (version_mut vid (mark_deleted me)) st" by (simp add: supersede_def)
  then show ?case by (simp add: frame_table_mut version_mut_def)
next
  case (step_commit me st lsn)
  have "frame ((finalize_owner vo me lsn st)\<lparr>s_committed_lsn := lsn\<rparr>) = frame st"
    by (rule frame_tables [of _ "map (finalize_row me lsn)"]) (simp_all add: finalize_owner_tables finalize_owner_views)
  then show ?case by (simp add: finalize_owner_no_index)
next
  case (step_rollback me st)
  have "frame (rollback_owner vo me st) = frame st"
    by (rule frame_tables, rule rollback_owner_keeps) (simp add: rollback_owner_def Let_def remove_from_indexes_def map_rows_def)
  then show ?case by (simp add: rollback_owner_def Let_def remove_from_indexes_def map_rows_def)
next
  case (step_rollback_to me st I D)
  have "frame (rollback_to_savepoint vo me I D st) = frame st"
    by (rule frame_tables, rule rollback_to_savepoint_keeps) (simp add: rollback_to_savepoint_def Let_def remove_from_indexes_def map_rows_def)
  then show ?case by (simp add: rollback_to_savepoint_def Let_def remove_from_indexes_def map_rows_def)
qed

lemma mvcc_steps_frame: "(mvcc_step vo)\<^sup>*\<^sup>* st st' \<Longrightarrow> frame st' = frame st \<and> (s_indexes st = [] \<longrightarrow> s_indexes st' = [])"
  by (induction rule: rtranclp_induct) (auto dest: mvcc_step_frame)

lemma frame_same_scans:
  assumes "frame st1 = frame st2" and "\<And>name. snapshot_rows st1 name s = snapshot_rows st2 name s"
  shows "same_scans env (make_scan se st1 s None ps) (make_scan se st2 s None ps)"
proof -
  let ?sc1 = "make_scan se st1 s None ps" and ?sc2 = "make_scan se st2 s None ps"
  have table: "same_table env ?sc1 ?sc2 t1 t2" if "t_schema t1 = t_schema t2" "snap s (t_rows t1) = snap s (t_rows t2)" for t1 t2
  proof -
    have "map snd (snap s rows) = map rv_values (filter (row_visible s None) rows)" for rows
      by (simp add: snap_def row_visible_def [abs_def] comp_def)
    with that(2) have "map rv_values (filter (row_visible s None) (t_rows t1)) = map rv_values (filter (row_visible s None) (t_rows t2))" by metis
    moreover have keep: "keep_row env ?sc1 = keep_row env ?sc2" by (simp add: fun_eq_iff keep_row_def make_scan_def)
    ultimately show ?thesis using that(1) unfolding same_table_def scan_visible keep by (simp add: make_scan_def)
  qed
  have "rel_option (same_table env ?sc1 ?sc2) (get_table st1 name) (get_table st2 name)" for name
  proof -
    have "map_option t_schema (get_table st1 name) = map_option t_schema (get_table st2 name)"
      using assms(1) by (simp add: frame_def) metis
    with assms(2) [of name] show ?thesis
      by (cases "get_table st1 name"; cases "get_table st2 name") (simp_all add: snapshot_rows_def table)
  qed
  moreover have "view st1 = view st2" using assms(1) by (simp add: frame_def view_def fun_eq_iff)
  ultimately show ?thesis by (simp add: same_scans_def make_scan_def)
qed


section \<open>Instances\<close>

text \<open>A table with one column and a policy \<^verbatim>\<open>USING (note IS NULL)\<close>, its only view \<^verbatim>\<open>w\<close> selecting from it.\<close>

definition note_ops :: "unit vector_ops" where
  "note_ops = unit_index_ops\<lparr>vi_def := (\<lambda>_. \<lparr>ix_name = ''i'', ix_table = ''t'', ix_column = ''note'', ix_params = index_params_default\<rparr>)\<rparr>"

definition notes_env :: "scalar_ops \<Rightarrow> unit query_env" where
  "notes_env so = base_env so note_ops (\<lambda>sql. Inr (EIsNull (EColumn ''note'') False))"

definition notes_schema :: table_schema where
  "notes_schema = \<lparr>sch_name = ''t'', sch_columns = [\<lparr>col_name = ''note'', col_ty = CtText, col_primary_key = False, col_not_null = False,
       col_unique = False, col_autoincrement = False, col_default_sql = None\<rparr>], sch_foreign_keys = [], sch_checks = [], sch_uniques = [],
     sch_rls_enabled = True,
     sch_policies = [\<lparr>pol_name = ''p'', pol_command = PcAll, pol_roles = [], pol_using = Some ''note IS NULL'', pol_check = None\<rparr>]\<rparr>"

definition notes_store :: "row_version list \<Rightarrow> (unit, select_stmt) store" where
  "notes_store rows = \<lparr>s_tables = [(''t'', \<lparr>t_schema = notes_schema, t_rows = rows, t_next_vid = 2, t_next_autoinc = 1\<rparr>)], s_indexes = [],
     s_views = [(''w'', SelectStmt [] False [SStar None] (Some (FTable ''t'' None)) None [] None [] [] None None)], s_committed_lsn = 4\<rparr>"

definition reader :: session_context where
  "reader = \<lparr>se_role = Some ''r'', se_claims = None, se_bypass = False\<rparr>"

lemma notes_table: "get_table (notes_store rows) name = (if key name = ''t'' then Some \<lparr>t_schema = notes_schema, t_rows = rows, t_next_vid = 2, t_next_autoinc = 1\<rparr> else None)"
  by (simp add: get_table_def notes_store_def)

lemma notes_view: "view (notes_store rows) = view (notes_store [])"
  by (simp add: fun_eq_iff view_def notes_store_def)

lemma notes_rls: "rls_read (notes_env so) reader notes_schema PcSelect = Inr (RlsFilter [EIsNull (EColumn ''note'') False])"
  by (simp add: rls_read_def rls_decide_def notes_schema_def reader_def policy_applies_def notes_env_def base_env_def)

lemma notes_column: "column_index notes_schema ''note'' = Some 0"
  by (simp add: notes_schema_def) code_simp

lemma make_scan_sel [simp]: "sc_session (make_scan se st s wr ps) = se" "sc_store (make_scan se st s wr ps) = st" "sc_snapshot (make_scan se st s wr ps) = s"
  "sc_writer (make_scan se st s wr ps) = wr" "sc_params (make_scan se st s wr ps) = ps"
  by (simp_all add: make_scan_def)

lemma notes_passed:
  "passed_rows (notes_env so) (make_scan reader st 4 None ps) \<lparr>t_schema = notes_schema, t_rows = committed_row 1 [VNull] 2 # rows, t_next_vid = 2, t_next_autoinc = 1\<rparr> =
   Inr [[VNull]]" if "rows = [] \<or> rows = [committed_row 2 [VText ''secret''] 3]" for rows
  using that by (auto simp: passed_rows_def notes_rls is_null_def scan_row_def row_visible_def visible_to_reader_def committed_row_def resolve_value_def
      ctx_row_def notes_column index_row_def int_of_bool_def)

text \<open>The database with the hidden row has an index on the table, the other one has none.\<close>

theorem hidden_rows_do_not_show_witness:
  "\<forall>so kn ps n sel.
    run_select (notes_env so) kn (make_scan reader
      ((notes_store [committed_row 1 [VNull] 2, committed_row 2 [VText ''secret''] 3])\<lparr>s_indexes := [(''i'', ())]\<rparr>) 4 None ps) n sel =
    run_select (notes_env so) kn (make_scan reader (notes_store [committed_row 1 [VNull] 2]) 4 None ps) n sel"
proof (intro allI hidden_rows_do_not_show)
  fix so ps
  let ?sc = "make_scan reader (notes_store [committed_row 1 [VNull] 2]) 4 None ps"
  let ?st = "notes_store [committed_row 1 [VNull] 2, committed_row 2 [VText ''secret''] 3]"
  let ?ix = "?st\<lparr>s_indexes := [(''i'', ())]\<rparr>"
  have ix: "get_table ?ix = get_table ?st" "view ?ix = view ?st"
    by (simp_all add: fun_eq_iff get_table_def view_def)
  show "same_sight (notes_env so) (make_scan reader ?ix 4 None ps) ?sc"
    by (simp add: same_sight_def ix notes_table notes_passed notes_view [of "_ # _"] del: One_nat_def)
  show "same_open_tables (notes_env so) (make_scan reader ?ix 4 None ps) ?sc"
    by (simp add: same_open_tables_def notes_table notes_rls)
qed

lemma notes_ok: "store_ok (notes_store [committed_row 1 [VNull] 2])"
  by (simp add: notes_store_def instance_defs)


end
