(* ===== verification/Query_Algebra.thy ===== *)
theory Query_Algebra
  imports Query_Isolation "HOL-Library.Multiset"
begin

text \<open>
  The operators of a query against their definitions in the relational algebra: joins as filtered
  products with the unmatched rows padded, set operations as operations on multisets of row keys,
  grouping as a partition, and \<^verbatim>\<open>ORDER BY\<close> as a stable sort.
\<close>

section \<open>Joins\<close>

definition products :: "rows \<Rightarrow> rows \<Rightarrow> rows" where
  "products l r = concat (map (\<lambda>a. map (\<lambda>b. a @ b) r) l)"

definition unmatched_left :: "(sql_value list \<Rightarrow> bool) \<Rightarrow> rows \<Rightarrow> rows \<Rightarrow> rows" where
  "unmatched_left p l r = filter (\<lambda>a. \<not> (\<exists>b\<in>set r. p (a @ b))) l"

definition unmatched_right :: "(sql_value list \<Rightarrow> bool) \<Rightarrow> rows \<Rightarrow> rows \<Rightarrow> rows" where
  "unmatched_right p l r = filter (\<lambda>b. \<not> (\<exists>a\<in>set l. p (a @ b))) r"

lemma collect_each_total: "(\<And>x. x \<in> set xs \<Longrightarrow> f x = Inr (g x)) \<Longrightarrow> collect_each f xs = Inr (concat (map g xs))"
  by (induction xs) auto

lemma matches_of_total: "(\<And>b. b \<in> set inner \<Longrightarrow> m (combine b) = Inr (p (combine b))) \<Longrightarrow> matches_of m combine inner = Inr (filter p (map combine inner))"
  unfolding matches_of_def by (subst collect_each_total [where g = "\<lambda>b. if p (combine b) then [combine b] else []"]) (auto, induction inner, auto)

lemma mset_concat_pad:
  "mset (concat (map (\<lambda>a. let hits = f a in if hits = [] then [g a] else hits) xs)) = mset (concat (map f xs)) + mset (map g (filter (\<lambda>a. f a = []) xs))"
  by (induction xs) (auto simp: Let_def)

lemma mset_products_swap: "mset (concat (map (\<lambda>b. map (\<lambda>a. a @ b) l) r)) = mset (products l r)"
proof (induction r)
  case Nil
  then show ?case by (induction l) (simp_all add: products_def)
next
  case (Cons b r)
  have "mset (products l (b # r)) = mset (map (\<lambda>a. a @ b) l) + mset (products l r)"
    by (induction l) (simp_all add: products_def)
  with Cons show ?case by simp
qed

lemma filter_concat_map: "filter p (concat (map f xs)) = concat (map (\<lambda>x. filter p (f x)) xs)"
  by (induction xs) auto

lemma join_inner_total:
  assumes "\<And>a b. a \<in> set l \<Longrightarrow> b \<in> set r \<Longrightarrow> m (a @ b) = Inr (p (a @ b))"
  shows "join_inner m l r = Inr (filter p (products l r))"
  unfolding join_inner_def products_def filter_concat_map
  by (rule collect_each_total, rule matches_of_total) (use assms in simp)

lemma join_outer_total:
  assumes "\<And>a b. a \<in> set outer \<Longrightarrow> b \<in> set inner \<Longrightarrow> m (join_combine sw a b) = Inr (p (join_combine sw a b))"
  shows "join_outer m sw nulls outer inner = Inr (concat (map (\<lambda>a. let hits = filter p (map (join_combine sw a) inner) in
    if hits = [] then [join_combine sw a nulls] else hits) outer))"
  unfolding join_outer_def
proof (rule collect_each_total)
  fix a assume "a \<in> set outer"
  then show "res_bind (matches_of m (join_combine sw a) inner) (\<lambda>hits. Inr (if hits = [] then [join_combine sw a nulls] else hits)) =
      Inr (let hits = filter p (map (join_combine sw a) inner) in if hits = [] then [join_combine sw a nulls] else hits)"
    using matches_of_total [of inner m "join_combine sw a" p] assms by (simp add: Let_def)
qed

lemma full_hits_total:
  assumes "\<And>b. b \<in> set r \<Longrightarrow> m (a @ b) = Inr (p (a @ b))"
  shows "full_hits m r a = Inr (map (\<lambda>(j, b). (j, a @ b)) (filter (\<lambda>(j, b). p (a @ b)) (enumerate 0 r)))"
proof -
  have "full_hits m r a = Inr (concat (map (\<lambda>(j, b). if p (a @ b) then [(j, a @ b)] else []) (enumerate 0 r)))"
    unfolding full_hits_def
  proof (rule collect_each_total)
    fix x assume "x \<in> set (enumerate 0 r)"
    then obtain j b where "x = (j, b)" "b \<in> set r" by (metis enumerate_eq_zip prod.exhaust set_zip_rightD)
    then show "(case x of (j, rr) \<Rightarrow> res_bind (m (a @ rr)) (\<lambda>ok. Inr (if ok then [(j, a @ rr)] else []))) =
        Inr (case x of (j, b) \<Rightarrow> if p (a @ b) then [(j, a @ b)] else [])" by (simp add: assms)
  qed
  moreover have "concat (map (\<lambda>(j, b). if p (a @ b) then [(j, a @ b)] else []) xs) = map (\<lambda>(j, b). (j, a @ b)) (filter (\<lambda>(j, b). p (a @ b)) xs)" for xs :: "(nat \<times> sql_value list) list"
    by (induction xs) auto
  ultimately show ?thesis by simp
qed

lemma filter_enumerate: "map snd (filter (\<lambda>(j, b). q b) (enumerate n xs)) = filter q xs"
  by (induction xs arbitrary: n) auto

lemma full_left_total:
  assumes "\<And>a b. a \<in> set l \<Longrightarrow> b \<in> set r \<Longrightarrow> m (a @ b) = Inr (p (a @ b))"
  shows "join_full_left m nulls r l hit = Inr (concat (map (\<lambda>a. let hits = filter p (map (\<lambda>b. a @ b) r) in if hits = [] then [a @ nulls] else hits) l),
    hit \<union> {j. j < length r \<and> (\<exists>a\<in>set l. p (a @ r ! j))})"
  using assms
proof (induction l arbitrary: hit)
  case (Cons a l)
  define hs where "hs = map (\<lambda>(j, b). (j, a @ b)) (filter (\<lambda>(j, b). p (a @ b)) (enumerate 0 r))"
  have run: "full_hits m r a = Inr hs" unfolding hs_def by (rule full_hits_total) (simp add: Cons.prems)
  have "map snd hs = map (\<lambda>b. a @ b) (map snd (filter (\<lambda>(j, b). p (a @ b)) (enumerate 0 r)))" by (simp add: hs_def case_prod_beta)
  then have hits: "map snd hs = filter p (map (\<lambda>b. a @ b) r)" by (simp only: filter_enumerate filter_map comp_def)
  have empty: "hs = [] \<longleftrightarrow> filter p (map (\<lambda>b. a @ b) r) = []" unfolding hits [symmetric] by simp
  have pos: "fst ` set hs = {j. j < length r \<and> p (a @ r ! j)}" by (force simp: hs_def in_set_enumerate_eq image_iff)
  have "hit \<union> fst ` set hs \<union> {j. j < length r \<and> (\<exists>a\<in>set l. p (a @ r ! j))} = hit \<union> {j. j < length r \<and> (\<exists>a\<in>set (a # l). p (a @ r ! j))}"
    by (auto simp: pos)
  with Cons show ?case by (simp add: run empty hits Let_def)
qed simp

text \<open>What a join adds to the matching pairs: the rows of either side that match nothing, padded with nulls.\<close>

definition padded :: "(sql_value list \<Rightarrow> bool) \<Rightarrow> join_kind \<Rightarrow> nat \<Rightarrow> nat \<Rightarrow> rows \<Rightarrow> rows \<Rightarrow> rows" where
  "padded p kind lw rw l r =
     (if kind \<in> {JLeft, JFull} then map (\<lambda>a. a @ replicate rw VNull) (unmatched_left p l r) else []) @
     (if kind \<in> {JRight, JFull} then map (\<lambda>b. replicate lw VNull @ b) (unmatched_right p l r) else [])"

lemma padded_left: "mset (concat (map (\<lambda>a. let hits = filter p (map (\<lambda>b. a @ b) r) in if hits = [] then [a @ nulls] else hits) l)) =
    mset (filter p (products l r)) + mset (map (\<lambda>a. a @ nulls) (unmatched_left p l r))"
  unfolding mset_concat_pad products_def filter_concat_map unmatched_left_def by (simp add: filter_empty_conv)

lemma padded_right: "mset (concat (map (\<lambda>b. let hits = filter p (map (\<lambda>a. a @ b) l) in if hits = [] then [nulls @ b] else hits) r)) =
    mset (filter p (products l r)) + mset (map (\<lambda>b. nulls @ b) (unmatched_right p l r))"
proof -
  have "mset (concat (map (\<lambda>b. filter p (map (\<lambda>a. a @ b) l)) r)) = mset (filter p (products l r))"
    using mset_products_swap [of l r] by (metis filter_concat_map mset_filter)
  then show ?thesis unfolding mset_concat_pad unmatched_right_def by (simp add: filter_empty_conv)
qed

lemma join_rows_total:
  assumes "\<And>a b. a \<in> set l \<Longrightarrow> b \<in> set r \<Longrightarrow> m (a @ b) = Inr (p (a @ b))"
  shows "\<exists>out. join_rows m kind lw rw l r = Inr out \<and> mset out = mset (filter p (products l r)) + mset (padded p kind lw rw l r)"
proof (cases kind)
  case JLeft
  have jc: "join_combine False = (\<lambda>a b. a @ b)" by (simp add: fun_eq_iff join_combine_def)
  have "join_outer m False nulls l r = Inr (concat (map (\<lambda>a. let hits = filter p (map (\<lambda>b. a @ b) r) in if hits = [] then [a @ nulls] else hits) l))" for nulls
    using join_outer_total [of l r m False p, unfolded jc] assms by simp
  then show ?thesis by (simp add: join_rows_def JLeft padded_def padded_left [simplified])
next
  case JRight
  have jc: "join_combine True = (\<lambda>b a. a @ b)" by (simp add: fun_eq_iff join_combine_def)
  have "join_outer m True nulls r l = Inr (concat (map (\<lambda>b. let hits = filter p (map (\<lambda>a. a @ b) l) in if hits = [] then [nulls @ b] else hits) r))" for nulls
    using join_outer_total [of r l m True p, unfolded jc] assms by simp
  then show ?thesis by (simp add: join_rows_def JRight padded_def padded_right [simplified])
next
  case JFull
  have "map snd (filter (\<lambda>(j, b). j \<notin> {j. j < length r \<and> (\<exists>a\<in>set l. p (a @ r ! j))}) (enumerate 0 r)) = unmatched_right p l r"
  proof -
    have "filter (\<lambda>(j, b). j \<notin> {j. j < length r \<and> (\<exists>a\<in>set l. p (a @ r ! j))}) (enumerate 0 r) = filter (\<lambda>(j, b). \<not> (\<exists>a\<in>set l. p (a @ b))) (enumerate 0 r)"
      by (rule filter_cong [OF refl]) (auto simp: in_set_enumerate_eq)
    then show ?thesis by (simp only: filter_enumerate unmatched_right_def)
  qed
  moreover have pad: "map (\<lambda>(j, rr). replicate lw VNull @ rr) xs = map (\<lambda>b. replicate lw VNull @ b) (map snd xs)" for xs :: "(nat \<times> sql_value list) list"
    by (simp add: case_prod_beta comp_def)
  ultimately have "map (\<lambda>(j, rr). replicate lw VNull @ rr) (filter (\<lambda>(j, b). j \<notin> {j. j < length r \<and> (\<exists>a\<in>set l. p (a @ r ! j))}) (enumerate 0 r)) =
      map (\<lambda>b. replicate lw VNull @ b) (unmatched_right p l r)" by (simp only: pad)
  then show ?thesis using full_left_total [of l r m p] assms
    by (simp add: join_rows_def JFull join_full_def padded_def padded_left del: mem_Collect_eq)
qed (use join_inner_total [of l r m p] assms in \<open>simp_all add: join_rows_def padded_def\<close>)

text \<open>C30. Joins: when the join condition has a value for every pair of rows, \<^verbatim>\<open>JOIN\<close> returns exactly the
  pairs that satisfy it; \<^verbatim>\<open>LEFT\<close>, \<^verbatim>\<open>RIGHT\<close> and \<^verbatim>\<open>FULL JOIN\<close> add each unmatched row of the
  respective side once, padded with nulls.\<close>
theorem join_is_padded_product:
  assumes "using_pairs (re_cols l) (re_cols r) us = Inr pairs"
    and "\<And>a b. a \<in> set (re_rows l) \<Longrightarrow> b \<in> set (re_rows r) \<Longrightarrow> row_matches so se (re_cols l @ re_cols r) on pairs ps (a @ b) = Inr (p (a @ b))"
  shows "\<exists>out. join_relations so se kind on us ps l r = Inr \<lparr>re_cols = re_cols l @ re_cols r, re_rows = out\<rparr> \<and>
    mset out = mset (filter p (products (re_rows l) (re_rows r))) + mset (padded p kind (length (re_cols l)) (length (re_cols r)) (re_rows l) (re_rows r))"
  using join_rows_total [of "re_rows l" "re_rows r" _ p, OF assms(2)] assms(1) by (force simp: join_relations_def)

section \<open>Set operations\<close>

lemma retain_new_spec:
  "distinct (map k (retain_new k seen xs)) \<and> k ` set (retain_new k seen xs) = k ` set xs - seen \<and> set (retain_new k seen xs) \<subseteq> set xs"
  by (induction xs arbitrary: seen) (auto simp: insert_absorb image_iff)

lemma count_down_mset:
  assumes "\<And>x. counts x = count M x"
  shows "mset (map k (count_down k keep counts xs)) = (if keep then mset (map k xs) \<inter># M else mset (map k xs) - M)"
  using assms
proof (induction xs arbitrary: counts M)
  case (Cons x xs)
  show ?case
  proof (cases "0 < counts (k x)")
    case True
    then have mem: "k x \<in># M" by (simp add: Cons.prems)
    have IH: "mset (map k (count_down k keep (counts(k x := counts (k x) - 1)) xs)) =
        (if keep then mset (map k xs) \<inter># (M - {#k x#}) else mset (map k xs) - (M - {#k x#}))"
      by (rule Cons.IH) (simp add: Cons.prems)
    have "add_mset (k x) (mset (map k xs)) - M = mset (map k xs) - (M - {#k x#})"
      using mem by (metis add_mset_diff_bothsides insert_DiffM)
    with IH True inter_add_left2 [OF mem] show ?thesis by simp
  next
    case False
    then have "k x \<notin># M" by (simp add: Cons.prems not_in_iff)
    with Cons.IH [OF Cons.prems] False show ?thesis by (simp add: inter_add_left1 diff_add_mset_swap)
  qed
qed simp

lemma count_down_subset: "set (count_down k keep counts xs) \<subseteq> set xs"
proof (induction xs arbitrary: counts)
  case (Cons x xs)
  from Cons.IH have "set (count_down k keep c xs) \<subseteq> set (x # xs)" for c by fastforce
  then show ?case by simp
qed simp

text \<open>Set operations: on the keys of the rows, \<^verbatim>\<open>UNION ALL\<close>, \<^verbatim>\<open>INTERSECT ALL\<close> and \<^verbatim>\<open>EXCEPT ALL\<close> are the
  sum, the intersection and the difference of multisets; without \<^verbatim>\<open>ALL\<close> they are the operations on
  sets and no key appears twice.  No row is made up.\<close>
theorem set_ops_are_multisets:
  "mset (map (row_key so) (set_op_rows so SoUnion True l r)) = mset (map (row_key so) l) + mset (map (row_key so) r) \<and>
   mset (map (row_key so) (set_op_rows so SoIntersect True l r)) = mset (map (row_key so) l) \<inter># mset (map (row_key so) r) \<and>
   mset (map (row_key so) (set_op_rows so SoExcept True l r)) = mset (map (row_key so) l) - mset (map (row_key so) r) \<and>
   distinct (map (row_key so) (set_op_rows so op False l r)) \<and>
   row_key so ` set (set_op_rows so op False l r) = (case op of SoUnion \<Rightarrow> row_key so ` set l \<union> row_key so ` set r
     | SoIntersect \<Rightarrow> row_key so ` set l \<inter> row_key so ` set r | SoExcept \<Rightarrow> row_key so ` set l - row_key so ` set r) \<and>
   set (set_op_rows so op all l r) \<subseteq> set l \<union> set r"
proof -
  have "length (filter (\<lambda>row. row_key so row = x) r) = count (mset (map (row_key so) r)) x" for x
    by (induction r) auto
  note counted = count_down_mset [OF this]
  have all: "mset (map (row_key so) (set_op_rows so SoUnion True l r)) = mset (map (row_key so) l) + mset (map (row_key so) r)"
    "mset (map (row_key so) (set_op_rows so SoIntersect True l r)) = mset (map (row_key so) l) \<inter># mset (map (row_key so) r)"
    "mset (map (row_key so) (set_op_rows so SoExcept True l r)) = mset (map (row_key so) l) - mset (map (row_key so) r)"
    by (simp add: set_op_rows_def) (simp_all only: set_op_rows_def Let_def set_op.case if_True counted if_False)
  have "distinct (map (row_key so) (set_op_rows so op False l r))"
    using retain_new_spec [of "row_key so" "{}"] by (cases op) (simp_all add: set_op_rows_def dedup_rows_def Let_def)
  moreover have "row_key so ` set (set_op_rows so op False l r) = (case op of SoUnion \<Rightarrow> row_key so ` set l \<union> row_key so ` set r
     | SoIntersect \<Rightarrow> row_key so ` set l \<inter> row_key so ` set r | SoExcept \<Rightarrow> row_key so ` set l - row_key so ` set r)"
    using retain_new_spec [of "row_key so" "{}"] by (cases op) (auto simp: set_op_rows_def dedup_rows_def Let_def)
  moreover have "set (set_op_rows so op all l r) \<subseteq> set l \<union> set r"
    using retain_new_spec [of "row_key so" "{}"] count_down_subset [of "row_key so"]
    by (cases op; cases all; simp add: set_op_rows_def dedup_rows_def Let_def; fastforce)
  ultimately show ?thesis using all by blast
qed

section \<open>Grouping\<close>

definition groups_of :: "('a \<Rightarrow> string xres) \<Rightarrow> 'a list \<Rightarrow> (string \<times> 'a list) list \<Rightarrow> bool" where
  "groups_of f rows gs \<longleftrightarrow> distinct (map fst gs) \<and> (\<forall>r\<in>set rows. \<exists>k\<in>set (map fst gs). f r = Inr k) \<and>
     (\<forall>(k, g)\<in>set gs. g = filter (\<lambda>r. f r = Inr k) rows \<and> g \<noteq> [])"

lemma add_to_group_keys: "map fst (add_to_group k x gs) = (if k \<in> set (map fst gs) then map fst gs else map fst gs @ [k])"
  by (induction k x gs rule: add_to_group.induct) auto

lemma add_to_group_mem:
  assumes "distinct (map fst gs)" and "(k', g) \<in> set (add_to_group k x gs)"
  shows "(if k' = k then (\<exists>h. (k, h) \<in> set gs \<and> g = h @ [x]) \<or> (k \<notin> set (map fst gs) \<and> g = [x]) else (k', g) \<in> set gs)"
  using assms
proof (induction k x gs rule: add_to_group.induct)
  case (2 k x k1 xs gs)
  then have "(k, h) \<notin> set gs" if "k1 = k" for h using that by (force simp: image_iff)
  with 2 show ?case by (cases "k1 = k") (auto simp: image_iff split: if_splits, force+)
qed simp

lemma groups_of_add:
  assumes "groups_of f rows gs" and "f x = Inr k"
  shows "groups_of f (rows @ [x]) (add_to_group k x gs)"
proof -
  have gs: "distinct (map fst gs)" "\<And>k g. (k, g) \<in> set gs \<Longrightarrow> g = filter (\<lambda>r. f r = Inr k) rows \<and> g \<noteq> []"
    "\<forall>r\<in>set rows. \<exists>k\<in>set (map fst gs). f r = Inr k"
    using assms(1) by (auto simp: groups_of_def)
  have keys: "set (map fst (add_to_group k x gs)) = insert k (set (map fst gs))" "distinct (map fst (add_to_group k x gs))"
    using gs(1) unfolding add_to_group_keys by auto
  have "g = filter (\<lambda>r. f r = Inr k') (rows @ [x]) \<and> g \<noteq> []" if "(k', g) \<in> set (add_to_group k x gs)" for k' g
  proof (cases "k' = k")
    case True
    have "filter (\<lambda>r. f r = Inr k) rows = []" if "k \<notin> set (map fst gs)"
      unfolding filter_empty_conv using gs(3) that by (metis sum.inject(2))
    with True add_to_group_mem [OF gs(1) that] gs(2) assms(2) show ?thesis by auto
  next
    case False
    with add_to_group_mem [OF gs(1) that] gs(2) assms(2) show ?thesis by auto
  qed
  moreover have "\<forall>r\<in>set (rows @ [x]). \<exists>k'\<in>set (map fst (add_to_group k x gs)). f r = Inr k'"
    using gs(3) assms(2) unfolding keys(1) by auto
  ultimately show ?thesis using keys(2) unfolding groups_of_def by blast
qed

lemma group_rows_spec: "groups_of f rows0 gs0 \<Longrightarrow> group_rows f rows gs0 = Inr gs \<Longrightarrow> groups_of f (rows0 @ rows) gs"
proof (induction rows arbitrary: rows0 gs0)
  case (Cons x rows)
  from Cons.prems(2) obtain k where "f x = Inr k" "group_rows f rows (add_to_group k x gs0) = Inr gs" by auto
  with Cons.IH [OF groups_of_add [OF Cons.prems(1)]] show ?case by fastforce
qed simp

text \<open>\<^verbatim>\<open>GROUP BY\<close>: grouping succeeds when every key evaluates; the groups carry distinct keys, each group
  is exactly the rows with its key in their order, no group is empty and every row is in one.\<close>
theorem groups_partition_rows:
  assumes "\<And>r. r \<in> set rows \<Longrightarrow> \<exists>k. group_key so se group_by (mk r) = Inr k"
  shows "\<exists>gs. group_rows (\<lambda>r. group_key so se group_by (mk r)) rows [] = Inr gs \<and>
    groups_of (\<lambda>r. group_key so se group_by (mk r)) rows gs \<and>
    make_groups so se group_by mk rows = Inr (if group_by = [] \<and> rows = [] then [[]] else map snd gs)"
proof -
  let ?f = "\<lambda>r. group_key so se group_by (mk r)"
  have total: "\<exists>gs. group_rows ?f xs gs0 = Inr gs" if "set xs \<subseteq> set rows" for xs gs0
    using that
  proof (induction xs arbitrary: gs0)
    case (Cons x xs)
    then obtain k where "?f x = Inr k" using assms [of x] by auto
    with Cons show ?case by simp
  qed simp
  from total [of rows "[]"] obtain gs where gs: "group_rows ?f rows [] = Inr gs" by auto
  have "groups_of ?f ([] @ rows) gs" by (rule group_rows_spec [OF _ gs]) (simp add: groups_of_def)
  moreover have "gs = [] \<longleftrightarrow> rows = []"
    using calculation by (cases rows; cases gs) (auto simp: groups_of_def)
  ultimately show ?thesis using gs by (auto simp: make_groups_def)
qed

section \<open>ORDER BY\<close>

text \<open>A comparison that orders the given values: equal only to itself in both directions, and transitive.\<close>

definition orders :: "('a \<Rightarrow> 'a \<Rightarrow> ordering) \<Rightarrow> 'a set \<Rightarrow> bool" where
  "orders cmp A \<longleftrightarrow> (\<forall>x\<in>A. \<forall>y\<in>A. cmp y x = reverse_ordering (cmp x y)) \<and>
     (\<forall>x\<in>A. \<forall>y\<in>A. \<forall>z\<in>A. cmp x y \<noteq> OGreater \<longrightarrow> cmp y z \<noteq> OGreater \<longrightarrow> cmp x z \<noteq> OGreater)"

lemma reverse_ordering_simps [simp]: "reverse_ordering OLess = OGreater" "reverse_ordering OEqual = OEqual" "reverse_ordering OGreater = OLess"
  by (simp_all add: reverse_ordering_def)

lemma orders_flip: "orders cmp A \<Longrightarrow> x \<in> A \<Longrightarrow> y \<in> A \<Longrightarrow> cmp y x = reverse_ordering (cmp x y)"
  unfolding orders_def by blast

lemma orders_trans: "orders cmp A \<Longrightarrow> x \<in> A \<Longrightarrow> y \<in> A \<Longrightarrow> z \<in> A \<Longrightarrow> cmp x y \<noteq> OGreater \<Longrightarrow> cmp y z \<noteq> OGreater \<Longrightarrow> cmp x z \<noteq> OGreater"
  unfolding orders_def by blast

lemma orders_mono: "orders cmp A \<Longrightarrow> B \<subseteq> A \<Longrightarrow> orders cmp B"
  unfolding orders_def by blast

lemma mset_sort_insert: "mset (sort_insert cmp x ys) = add_mset x (mset ys)"
  by (induction ys) auto

lemma set_sort_insert [simp]: "set (sort_insert cmp x ys) = insert x (set ys)"
  using mset_sort_insert [of cmp x ys] by (metis set_mset_add_mset_insert set_mset_mset)

lemma mset_sort_by: "mset (sort_by cmp xs) = mset xs"
  by (induction xs) (simp_all add: sort_by_def mset_sort_insert)

lemma sorted_sort_insert:
  assumes "orders cmp (insert x (set ys))" and "sorted_wrt (\<lambda>a b. cmp a b \<noteq> OGreater) ys"
  shows "sorted_wrt (\<lambda>a b. cmp a b \<noteq> OGreater) (sort_insert cmp x ys)"
  using assms
proof (induction ys)
  case (Cons y ys)
  have o: "orders cmp (insert x (set ys))" by (rule orders_mono [OF Cons.prems(1)]) auto
  show ?case
  proof (cases "cmp x y = OGreater")
    case True
    have "cmp y x = reverse_ordering (cmp x y)" by (rule orders_flip [OF Cons.prems(1)]) simp_all
    with True Cons.IH [OF o] Cons.prems(2) show ?thesis by simp
  next
    case False
    have "cmp x z \<noteq> OGreater" if "z \<in> set ys" for z
      by (rule orders_trans [OF Cons.prems(1), of x y z]) (use Cons.prems(2) False that in simp_all)
    with False Cons.prems show ?thesis by simp
  qed
qed simp

text \<open>Insertion leaves the order of the entries that tie with a given one.\<close>

lemma stable_sort_insert:
  assumes "orders cmp (insert z (insert x (set ys)))"
  shows "filter (\<lambda>y. cmp z y = OEqual) (sort_insert cmp x ys) = filter (\<lambda>y. cmp z y = OEqual) (x # ys)"
  using assms
proof (induction ys)
  case (Cons y ys)
  have o: "orders cmp (insert z (insert x (set ys)))" by (rule orders_mono [OF Cons.prems]) auto
  show ?case
  proof (cases "cmp x y = OGreater")
    case True
    have "\<not> (cmp z x = OEqual \<and> cmp z y = OEqual)"
    proof
      assume e: "cmp z x = OEqual \<and> cmp z y = OEqual"
      have "cmp x z = reverse_ordering (cmp z x)" by (rule orders_flip [OF Cons.prems]) simp_all
      with e have "cmp x y \<noteq> OGreater" by (intro orders_trans [OF Cons.prems, of x z y]) simp_all
      with True show False by simp
    qed
    with True Cons.IH [OF o] show ?thesis by auto
  qed simp
qed simp

lemma set_sort_by [simp]: "set (sort_by cmp xs) = set xs"
  using mset_sort_by [of cmp xs] by (metis set_mset_mset)

lemma sort_by_sorted:
  assumes "orders cmp (set xs)"
  shows "sorted_wrt (\<lambda>a b. cmp a b \<noteq> OGreater) (sort_by cmp xs)"
  using assms
proof (induction xs)
  case (Cons x xs)
  have "orders cmp (set xs)" by (rule orders_mono [OF Cons.prems]) auto
  with Cons show ?case using sorted_sort_insert [of cmp x "sort_by cmp xs"] by (simp add: sort_by_def [of cmp "x # xs"] sort_by_def [of cmp xs, symmetric])
qed (simp add: sort_by_def)

lemma sort_by_stable:
  assumes "orders cmp (insert z (set xs))"
  shows "filter (\<lambda>y. cmp z y = OEqual) (sort_by cmp xs) = filter (\<lambda>y. cmp z y = OEqual) xs"
  using assms
proof (induction xs)
  case (Cons x xs)
  have "orders cmp (insert z (set xs))" by (rule orders_mono [OF Cons.prems]) auto
  moreover have "orders cmp (insert z (insert x (set (sort_by cmp xs))))" using Cons.prems by simp
  ultimately show ?case using stable_sort_insert [of cmp z x "sort_by cmp xs"] Cons.IH
    by (simp add: sort_by_def [of cmp "x # xs"] sort_by_def [of cmp xs, symmetric])
qed (simp add: sort_by_def)

definition key_order :: "'a sort_key list \<Rightarrow> 'a \<Rightarrow> 'a \<Rightarrow> ordering" where
  "key_order ks a b = (case order_key_cmp ks a b of Inr o1 \<Rightarrow> o1 | Inl _ \<Rightarrow> OEqual)"

text \<open>\<^verbatim>\<open>ORDER BY\<close>: the sorted rows are the input rows, in an order that the keys allow, and rows that
  tie on all keys keep their order, whenever the comparison of the keys is an order on the rows.\<close>
theorem order_by_sorts:
  assumes "order_entries ks xs = Inr ys" and "orders (key_order ks) (set xs)"
  shows "mset ys = mset xs \<and> (ks \<noteq> [] \<longrightarrow> sorted_wrt (\<lambda>a b. key_order ks a b \<noteq> OGreater) ys) \<and>
    (\<forall>z\<in>set xs. filter (\<lambda>y. key_order ks z y = OEqual) ys = filter (\<lambda>y. key_order ks z y = OEqual) xs)"
proof (cases "ks = []")
  case True
  with assms(1) show ?thesis by (simp add: order_entries_def)
next
  case False
  with assms(1) have ys: "ys = sort_by (key_order ks) xs"
    by (auto simp: order_entries_def key_order_def [abs_def])
  then show ?thesis using sort_by_sorted [OF assms(2)] sort_by_stable [of "key_order ks" _ xs] assms(2)
    by (simp add: mset_sort_by insert_absorb)
qed

section \<open>Instances\<close>

definition x_col :: rel_col where
  "x_col = \<lparr>rc_table = Some ''l'', rc_name = ''x'', rc_ty = CtText\<rparr>"

definition y_col :: rel_col where
  "y_col = \<lparr>rc_table = Some ''r'', rc_name = ''y'', rc_ty = CtText\<rparr>"

lemma x_found: "resolve_col [x_col] None ''x'' = Inr 0"
  by code_simp

lemma y_found: "resolve_col [x_col, y_col] None ''y'' = Inr 1"
  by code_simp

theorem join_is_padded_product_witness:
  "\<forall>so se ps. \<exists>out. join_relations so se JFull (Some (EIsNull (EColumn ''y'') False :: unit expr)) [] ps
      \<lparr>re_cols = [x_col], re_rows = [[VText ''a'']]\<rparr> \<lparr>re_cols = [y_col], re_rows = [[VNull], [VText ''b'']]\<rparr> = Inr \<lparr>re_cols = [x_col, y_col], re_rows = out\<rparr> \<and>
    mset out = {#[VText ''a'', VNull], [VNull, VText ''b'']#}"
proof (intro allI)
  fix so se ps
  let ?l = "\<lparr>re_cols = [x_col], re_rows = [[VText ''a'']]\<rparr>" and ?r = "\<lparr>re_cols = [y_col], re_rows = [[VNull], [VText ''b'']]\<rparr>"
  let ?on = "Some (EIsNull (EColumn ''y'') False :: unit expr)" and ?p = "\<lambda>row. row ! 1 = VNull"
  have "using_pairs (re_cols ?l) (re_cols ?r) [] = Inr []" by (simp add: using_pairs_def)
  moreover have "row_matches so se (re_cols ?l @ re_cols ?r) ?on [] ps (a @ b) = Inr (?p (a @ b))" if "a \<in> set (re_rows ?l)" "b \<in> set (re_rows ?r)" for a b
    using that by (auto simp: row_matches_def predicate_def ctx_rel_def resolve_value_def y_found index_row_def is_null_def int_of_bool_def)
  ultimately have "\<exists>out. join_relations so se JFull ?on [] ps ?l ?r = Inr \<lparr>re_cols = re_cols ?l @ re_cols ?r, re_rows = out\<rparr> \<and>
      mset out = mset (filter ?p (products (re_rows ?l) (re_rows ?r))) + mset (padded ?p JFull (length (re_cols ?l)) (length (re_cols ?r)) (re_rows ?l) (re_rows ?r))"
    by (rule join_is_padded_product)
  then show "\<exists>out. join_relations so se JFull ?on [] ps ?l ?r = Inr \<lparr>re_cols = [x_col, y_col], re_rows = out\<rparr> \<and>
      mset out = {#[VText ''a'', VNull], [VNull, VText ''b'']#}"
    by (simp add: products_def padded_def unmatched_left_def unmatched_right_def add_mset_commute)
qed

theorem groups_partition_rows_witness:
  "\<forall>so se. \<exists>gs. group_rows (\<lambda>r. group_key so se [EColumn ''x'' :: unit expr] (ctx_rel r [x_col] [])) [[VText ''a''], [VText ''b''], [VText ''a'']] [] = Inr gs \<and>
    groups_of (\<lambda>r. group_key so se [EColumn ''x'' :: unit expr] (ctx_rel r [x_col] [])) [[VText ''a''], [VText ''b''], [VText ''a'']] gs \<and>
    make_groups so se [EColumn ''x'' :: unit expr] (\<lambda>r. ctx_rel r [x_col] []) [[VText ''a''], [VText ''b''], [VText ''a'']] = Inr (map snd gs)"
proof (intro allI)
  fix so se
  let ?rows = "[[VText ''a''], [VText ''b''], [VText ''a'']]" and ?g = "[EColumn ''x'' :: unit expr]" and ?mk = "\<lambda>r. ctx_rel r [x_col] []"
  have "\<exists>k. group_key so se ?g (?mk r) = Inr k" if "r \<in> set ?rows" for r
    using that by (auto simp: group_key_def ctx_rel_def resolve_value_def x_found index_row_def)
  from groups_partition_rows [where rows = ?rows and mk = ?mk, OF this]
  show "\<exists>gs. group_rows (\<lambda>r. group_key so se ?g (?mk r)) ?rows [] = Inr gs \<and> groups_of (\<lambda>r. group_key so se ?g (?mk r)) ?rows gs \<and>
      make_groups so se ?g ?mk ?rows = Inr (map snd gs)" by simp
qed

text \<open>\<^verbatim>\<open>ORDER BY\<close> the value itself, ascending, nulls last.\<close>

definition by_value :: "sql_value sort_key list" where
  "by_value = [(Inr, True, False)]"

lemma by_value_orders: "orders (key_order by_value) (set [VText ''b'', VNull, VText ''a''])"
  by code_simp

theorem order_by_sorts_witness:
  "order_entries by_value [VText ''b'', VNull, VText ''a''] = Inr [VText ''a'', VText ''b'', VNull] \<and>
   sorted_wrt (\<lambda>a b. key_order by_value a b \<noteq> OGreater) [VText ''a'', VText ''b'', VNull]"
proof -
  have run: "order_entries by_value [VText ''b'', VNull, VText ''a''] = Inr [VText ''a'', VText ''b'', VNull]" by code_simp
  from order_by_sorts [OF run by_value_orders] run show ?thesis by (simp add: by_value_def)
qed

end
