(* ===== verification/Sql_Text.thy ===== *)
theory Sql_Text
  imports Sql_Expr
begin

text \<open>
  Lemmas on text shared by the lexer and the date functions: decimal digits, printing and parsing of
  integers, splitting, and \<^verbatim>\<open>trim\<close> on text without blanks at its ends.
\<close>

definition is_ascii_digit :: "char \<Rightarrow> bool" where
  "is_ascii_digit c \<longleftrightarrow> (48 :: nat) \<le> of_char c \<and> (of_char c :: nat) \<le> 57"

lemma parse_digits_append: "parse_digits (xs @ ys) acc = Option.bind (parse_digits xs acc) (parse_digits ys)"
  by (induction xs arbitrary: acc) (simp_all add: Let_def)

lemma dec_digit_code: "d < 10 \<Longrightarrow> of_char (dec_digit d) = (48 + d :: nat)"
  by (simp add: dec_digit_def)

lemma parse_dec_string: "parse_digits (dec_string n) 0 = Some n"
proof (induction n rule: dec_string.induct)
  case (1 n)
  then show ?case by (cases "n < 10") (simp_all add: dec_string.simps [of n] parse_digits_append dec_digit_code)
qed

lemma dec_string_digits: "dec_string n \<noteq> [] \<and> list_all is_ascii_digit (dec_string n)"
proof (induction n rule: dec_string.induct)
  case (1 n)
  have "is_ascii_digit (dec_digit d)" if "d < 10" for d using that by (simp add: is_ascii_digit_def dec_digit_code)
  with 1 show ?case by (cases "n < 10") (simp_all add: dec_string.simps [of n])
qed

lemma parse_zeros: "parse_digits (replicate k CHR ''0'' @ ds) 0 = parse_digits ds 0"
  by (induction k) (simp_all add: Let_def)

lemma digit_not [simp]: "\<not> is_ascii_digit CHR ''-''" "\<not> is_ascii_digit CHR ''+''" "\<not> is_ascii_digit CHR '':''" "\<not> is_ascii_digit CHR '' ''"
  "\<not> is_ascii_digit CHR ''T''" "\<not> is_ascii_digit CHR ''Z''" "\<not> is_ascii_digit CHR ''.''"
  by (simp_all add: is_ascii_digit_def)

lemma split_on_none: "list_all (\<lambda>c. \<not> p c) xs \<Longrightarrow> split_on p acc xs = [rev acc @ xs]"
  by (induction xs arbitrary: acc) simp_all

lemma split_on_sep: "list_all (\<lambda>c. \<not> p c) xs \<Longrightarrow> p c \<Longrightarrow> split_on p acc (xs @ c # ys) = (rev acc @ xs) # split_on p [] ys"
  by (induction xs arbitrary: acc) simp_all

definition plain :: "char \<Rightarrow> bool" where
  "plain c \<longleftrightarrow> (33 :: nat) \<le> of_char c \<and> (of_char c :: nat) < 128"

lemma chars_ascii: "list_all (\<lambda>c. (of_char c :: nat) < 128) s \<Longrightarrow> chars s = map (\<lambda>c. [c]) s"
  by (induction s) (simp_all add: utf8_width_def)

lemma plain_no_space: "plain c \<Longrightarrow> \<not> is_whitespace [c]"
  by (auto simp: plain_def is_whitespace_def)

lemma trim_plain:
  assumes "list_all (\<lambda>c. (of_char c :: nat) < 128) s" and "s \<noteq> []" and "plain (hd s)" and "plain (last s)"
  shows "trim s = s"
proof -
  have m: "map (\<lambda>c. [c]) s \<noteq> []" "hd (map (\<lambda>c. [c]) s) = [hd s]" "last (map (\<lambda>c. [c]) s) = [last s]" using assms(2) by (simp_all add: hd_map last_map)
  have 1: "dropWhile is_whitespace (map (\<lambda>c. [c]) s) = map (\<lambda>c. [c]) s"
    using m plain_no_space [OF assms(3)] by (cases s) auto
  have 2: "dropWhile is_whitespace (rev (map (\<lambda>c. [c]) s)) = rev (map (\<lambda>c. [c]) s)"
    using assms(2) plain_no_space [OF assms(4)] by (cases s rule: rev_cases) auto
  show ?thesis unfolding trim_def chars_ascii [OF assms(1)] 1 2 by simp
qed

lemma is_digit_plain: "is_ascii_digit c \<Longrightarrow> plain c" by (simp add: is_ascii_digit_def plain_def)

lemma list_all_mono: "list_all p xs \<Longrightarrow> (\<And>x. p x \<Longrightarrow> q x) \<Longrightarrow> list_all q xs"
  by (induction xs) simp_all

lemma trim_digits: "s \<noteq> [] \<Longrightarrow> list_all is_ascii_digit s \<Longrightarrow> trim s = s"
  by (rule trim_plain, erule list_all_mono) (simp_all add: list_all_iff is_digit_plain, simp add: is_ascii_digit_def)

lemma takeWhile_whole: "list_all p xs \<Longrightarrow> takeWhile p xs = xs"
  by (induction xs) simp_all

lemma takeWhile_all: "list_all p xs \<Longrightarrow> takeWhile p (xs @ ys) = xs @ takeWhile p ys"
  by (induction xs) simp_all

lemma split_on_three:
  assumes "list_all is_ascii_digit a" "list_all is_ascii_digit b" "list_all is_ascii_digit c" "\<not> is_ascii_digit x"
  shows "split_on (\<lambda>c. c = x) [] (a @ [x] @ b @ [x] @ c) = [a, b, c]"
proof -
  have "list_all (\<lambda>c. c \<noteq> x) a" "list_all (\<lambda>c. c \<noteq> x) b" "list_all (\<lambda>c. c \<noteq> x) c" using assms by (auto simp: list_all_iff)
  then show ?thesis by (simp add: split_on_sep split_on_none)
qed

end
