(* ===== verification/Sql_Lexer.thy ===== *)
theory Sql_Lexer
  imports Sql_Text
begin

text \<open>
  The SQL lexer (\<^verbatim>\<open>crates/engine/src/lex.rs\<close>) and the inverse direction in
  \<^verbatim>\<open>crates/engine/src/sql.rs\<close>: \<^verbatim>\<open>render_tokens\<close> writes the tokens of a \<^verbatim>\<open>DEFAULT\<close>,
  \<^verbatim>\<open>CHECK\<close> or policy expression back to the text the catalog stores, which is lexed again whenever
  the expression is evaluated.  Source text is its UTF-8 bytes; the position in it is the rest that
  is still to be read.  Decimal parsing and printing of \<^verbatim>\<open>f64\<close> are parameters.
\<close>

section \<open>Tokens\<close>

datatype tok =
    TWord string | TInt int | TReal u64 | TStr string
  | TParam | TNumParam nat | TNamedParam string
  | TLParen | TRParen | TLBracket | TRBracket | TComma | TSemi | TDColon | TDot | TStar
  | TEq | TNe | TLt | TLe | TGt | TGe | TPlus | TMinus | TSlash | TPercent
  | TConcat | TArrow | TArrowText | TVecL2 | TVecCosine | TVecIp | TEof

type_synonym lexed = "(tok \<times> string) eres"

definition ascii_alpha :: "char \<Rightarrow> bool" where
  "ascii_alpha c \<longleftrightarrow> (let n = of_char c :: nat in 65 \<le> n \<and> n \<le> 90 \<or> 97 \<le> n \<and> n \<le> 122)"

definition word_char :: "char \<Rightarrow> bool" where
  "word_char c \<longleftrightarrow> c = CHR ''_'' \<or> ascii_alpha c \<or> is_ascii_digit c"

text \<open>\<^verbatim>\<open>ch as char\<close> pushed to a string: the byte is taken for a code point and encoded again.\<close>

definition latin1_char :: "char \<Rightarrow> string" where
  "latin1_char c = (let n = of_char c :: nat in if n < 128 then [c] else [char_of (192 + n div 64), char_of (128 + n mod 64)])"

section \<open>The lexer\<close>

definition simple_token :: "char \<Rightarrow> tok option" where
  "simple_token c =
    (if c = CHR ''('' then Some TLParen else if c = CHR '')'' then Some TRParen
     else if c = CHR ''['' then Some TLBracket else if c = CHR '']'' then Some TRBracket
     else if c = CHR '','' then Some TComma else if c = CHR '';'' then Some TSemi
     else if c = CHR ''.'' then Some TDot else if c = CHR ''*'' then Some TStar
     else if c = CHR ''+'' then Some TPlus else if c = CHR ''-'' then Some TMinus
     else if c = CHR ''/'' then Some TSlash else if c = CHR ''%'' then Some TPercent
     else if c = CHR ''?'' then Some TParam else if c = CHR ''='' then Some TEq
     else None)"

definition lex_lt :: "string \<Rightarrow> tok \<times> string" where
  "lex_lt r = (case r of
     c2 # c3 # r3 \<Rightarrow>
       (if c2 = CHR ''-'' \<and> c3 = CHR ''>'' then (TVecL2, r3)
        else if c2 = CHR ''='' \<and> c3 = CHR ''>'' then (TVecCosine, r3)
        else if c2 = CHR ''#'' \<and> c3 = CHR ''>'' then (TVecIp, r3)
        else if c2 = CHR ''='' then (TLe, c3 # r3)
        else if c2 = CHR ''>'' then (TNe, c3 # r3)
        else (TLt, r))
   | [c2] \<Rightarrow> (if c2 = CHR ''='' then (TLe, []) else if c2 = CHR ''>'' then (TNe, []) else (TLt, r))
   | [] \<Rightarrow> (TLt, r))"

definition lex_operator :: "char \<Rightarrow> string \<Rightarrow> lexed" where
  "lex_operator c r =
    (if c = CHR ''<'' then Inr (lex_lt r)
     else let eq = (case r of c2 # r2 \<Rightarrow> c2 = CHR ''='' | [] \<Rightarrow> False) in
       if c = CHR ''>'' then Inr (if eq then (TGe, tl r) else (TGt, r))
       else if eq then Inr (TNe, tl r) else Inl ErrSql)"

definition lex_pipe :: "string \<Rightarrow> lexed" where
  "lex_pipe r = (case r of c2 # r2 \<Rightarrow> if c2 = CHR ''|'' then Inr (TConcat, r2) else Inl ErrSql | [] \<Rightarrow> Inl ErrSql)"

definition lex_colon :: "string \<Rightarrow> lexed" where
  "lex_colon r =
    (if (case r of c2 # r2 \<Rightarrow> c2 = CHR '':'' | [] \<Rightarrow> False) then Inr (TDColon, tl r)
     else let name = takeWhile word_char r in
       if name \<noteq> [] then Inr (TNamedParam name, dropWhile word_char r) else Inl ErrSql)"

definition lex_numparam :: "string \<Rightarrow> lexed" where
  "lex_numparam r = (let ds = takeWhile is_ascii_digit r in
     if ds = [] then Inl ErrSql
     else case parse_digits ds 0 of
       Some n \<Rightarrow> if int n < 2 ^ 64 then Inr (TNumParam n, dropWhile is_ascii_digit r) else Inl ErrSql
     | None \<Rightarrow> Inl ErrSql)"

definition lex_delimited :: "char \<Rightarrow> string \<Rightarrow> lexed" where
  "lex_delimited q r = (case dropWhile (\<lambda>c. c \<noteq> q) r of [] \<Rightarrow> Inl ErrSql | _ # rest \<Rightarrow> Inr (TWord (takeWhile (\<lambda>c. c \<noteq> q) r), rest))"

definition lex_backtick_ident :: "string \<Rightarrow> lexed" where
  "lex_backtick_ident r = lex_delimited CHR ''`'' r"

definition lex_quoted_ident :: "string \<Rightarrow> lexed" where
  "lex_quoted_ident r = lex_delimited CHR 0x22 r"

fun lex_string :: "string \<Rightarrow> string \<Rightarrow> lexed" where
  "lex_string acc [] = Inl ErrSql"
| "lex_string acc (c # r) =
    (if c = CHR 0x27 then
       (case r of c2 # r2 \<Rightarrow> if c2 = CHR 0x27 then lex_string (acc @ [CHR 0x27]) r2 else Inr (TStr acc, r) | [] \<Rightarrow> Inr (TStr acc, r))
     else lex_string (acc @ latin1_char c) r)"

text \<open>The characters of a number literal: digits and dots, then an exponent with its sign.\<close>

definition number_head :: "char \<Rightarrow> bool" where
  "number_head c \<longleftrightarrow> is_ascii_digit c \<or> c = CHR ''.''"

definition number_exponent :: "string \<Rightarrow> string" where
  "number_exponent r = (case r of
     e # r2 \<Rightarrow> if e = CHR ''e'' \<or> e = CHR ''E'' then
         (case r2 of s # r3 \<Rightarrow> if s = CHR ''+'' \<or> s = CHR ''-'' then e # s # takeWhile is_ascii_digit r3 else e # takeWhile is_ascii_digit r2
          | [] \<Rightarrow> [e])
       else []
   | [] \<Rightarrow> [])"

definition lex_number :: "scalar_ops \<Rightarrow> string \<Rightarrow> lexed" where
  "lex_number so r =
    (let mant = takeWhile number_head r;
         expo = number_exponent (dropWhile number_head r);
         txt = mant @ expo;
         is_real = (CHR ''.'' \<in> set mant \<or> expo \<noteq> []);
         real_tok = (case so_parse_f64 so txt of Some x \<Rightarrow> Inr (TReal x) | None \<Rightarrow> Inl ErrSql);
         tok = (if is_real then real_tok else case parse_i64 txt of Some n \<Rightarrow> Inr (TInt n) | None \<Rightarrow> real_tok)
     in res_bind tok (\<lambda>t. Inr (t, drop (length txt) r)))"

definition lex_word :: "string \<Rightarrow> tok \<times> string" where
  "lex_word r = (TWord (takeWhile word_char r), dropWhile word_char r)"

definition lex_other :: "scalar_ops \<Rightarrow> char \<Rightarrow> string \<Rightarrow> lexed" where
  "lex_other so c r =
    (if c = CHR ''<'' \<or> c = CHR ''>'' \<or> c = CHR ''!'' then lex_operator c r
     else if c = CHR ''|'' then lex_pipe r
     else if c = CHR '':'' then lex_colon r
     else if c = CHR ''$'' then lex_numparam r
     else if c = CHR 0x27 then lex_string [] r
     else if c = CHR 0x22 then lex_quoted_ident r
     else if c = CHR ''`'' then lex_backtick_ident r
     else if is_ascii_digit c then lex_number so (c # r)
     else if c = CHR ''_'' \<or> ascii_alpha c then Inr (lex_word (c # r))
     else Inl ErrSql)"

text \<open>One turn of the loop at a character \<open>c\<close> followed by \<open>r\<close>: nothing (blank or comment) or a token.\<close>

definition lex_one :: "scalar_ops \<Rightarrow> char \<Rightarrow> string \<Rightarrow> (tok option \<times> string) eres" where
  "lex_one so c r =
    (if ascii_whitespace c then Inr (None, r)
     else if c = CHR ''-'' \<and> (case r of c2 # _ \<Rightarrow> c2 = CHR ''-'' | [] \<Rightarrow> False) then Inr (None, dropWhile (\<lambda>x. x \<noteq> CHR 0x0A) r)
     else if c = CHR ''-'' \<and> (case r of c2 # _ \<Rightarrow> c2 = CHR ''>'' | [] \<Rightarrow> False) then
       (case tl r of c3 # r3 \<Rightarrow> if c3 = CHR ''>'' then Inr (Some TArrowText, r3) else Inr (Some TArrow, tl r) | [] \<Rightarrow> Inr (Some TArrow, tl r))
     else case simple_token c of
       Some t \<Rightarrow> Inr (Some t, r)
     | None \<Rightarrow> res_bind (lex_other so c r) (\<lambda>(t, rest). Inr (Some t, rest)))"

lemma length_dropWhile_less: "p c \<Longrightarrow> length (dropWhile p (c # r)) < Suc (length r)"
  by (simp add: length_dropWhile_le le_imp_less_Suc)

lemma lex_string_shrinks: "lex_string acc r = Inr (t, rest) \<Longrightarrow> length rest < length r"
  by (induction acc r rule: lex_string.induct) (auto split: if_splits list.splits)

lemma lex_lt_shrinks: "length (snd (lex_lt r)) \<le> length r"
  by (auto simp: lex_lt_def split: list.splits)

lemma lex_operator_shrinks: "lex_operator c r = Inr (t, rest) \<Longrightarrow> length rest \<le> length r"
  using lex_lt_shrinks [of r] by (auto simp: lex_operator_def Let_def split: if_splits list.splits)

lemma lex_number_shrinks: "is_ascii_digit c \<Longrightarrow> lex_number so (c # r) = Inr (t, rest) \<Longrightarrow> length rest \<le> length r"
  by (auto simp: lex_number_def number_head_def Let_def split: if_splits)

lemma lex_word_shrinks: "word_char c \<Longrightarrow> length (snd (lex_word (c # r))) \<le> length r"
  by (simp add: lex_word_def length_dropWhile_le)

lemma lex_delimited_shrinks: "lex_delimited q r = Inr (t, rest) \<Longrightarrow> length rest \<le> length r"
  using length_dropWhile_le [of "\<lambda>c. c \<noteq> q" r] by (auto simp: lex_delimited_def split: list.splits)

lemma lex_colon_shrinks: "lex_colon r = Inr (t, rest) \<Longrightarrow> length rest \<le> length r"
  by (auto simp: lex_colon_def Let_def length_dropWhile_le split: if_splits)

lemma lex_numparam_shrinks: "lex_numparam r = Inr (t, rest) \<Longrightarrow> length rest \<le> length r"
  by (auto simp: lex_numparam_def Let_def length_dropWhile_le split: if_splits option.splits)

lemma lex_pipe_shrinks: "lex_pipe r = Inr (t, rest) \<Longrightarrow> length rest \<le> length r"
  by (auto simp: lex_pipe_def split: list.splits if_splits)

lemmas lex_shrinks = lex_pipe_shrinks lex_operator_shrinks lex_number_shrinks lex_delimited_shrinks lex_colon_shrinks lex_numparam_shrinks lex_string_shrinks [THEN less_imp_le]

lemma lex_other_shrinks:
  assumes "lex_other so c r = Inr (t, rest)"
  shows "length rest \<le> length r"
proof -
  have "lex_other so c r \<in> {lex_operator c r, lex_pipe r, lex_colon r, lex_numparam r, lex_string [] r, lex_quoted_ident r, lex_backtick_ident r, Inl ErrSql} \<or>
    is_ascii_digit c \<and> lex_other so c r = lex_number so (c # r) \<or> word_char c \<and> lex_other so c r = Inr (lex_word (c # r))"
    unfolding lex_other_def word_char_def by simp
  then show ?thesis using assms unfolding lex_quoted_ident_def lex_backtick_ident_def
    by (elim disjE conjE insertE emptyE) (metis lex_shrinks lex_word_shrinks snd_conv sum.inject(2) sum.distinct(1))+
qed

lemma lex_one_shrinks:
  assumes "lex_one so c r = Inr (t, rest)"
  shows "length rest < Suc (length r)"
proof -
  have d: "length (dropWhile p r) \<le> length r" for p by (rule length_dropWhile_le)
  have "length rest \<le> length r"
    using assms unfolding lex_one_def by (auto simp: d length_dropWhile_le le_SucI dest: lex_other_shrinks split: if_splits option.splits list.splits)
  then show ?thesis by simp
qed

function lex_loop :: "scalar_ops \<Rightarrow> string \<Rightarrow> tok list eres" where
  "lex_loop so [] = Inr [TEof]"
| "lex_loop so (c # r) = (case lex_one so c r of
     Inl e \<Rightarrow> Inl e
   | Inr (t, rest) \<Rightarrow> res_bind (lex_loop so rest) (\<lambda>ts. Inr (case t of None \<Rightarrow> ts | Some t \<Rightarrow> t # ts)))"
  by pat_completeness auto
termination
  by (relation "measure (\<lambda>(so, s). length s)") (auto dest!: lex_one_shrinks)

definition lex :: "scalar_ops \<Rightarrow> string \<Rightarrow> tok list eres" where
  "lex so sql = lex_loop so sql"

section \<open>Rendering\<close>

definition render_token :: "(u64 \<Rightarrow> string) \<Rightarrow> tok \<Rightarrow> string" where
  "render_token disp t = (case t of
     TWord w \<Rightarrow> w | TInt n \<Rightarrow> int_string n | TReal r \<Rightarrow> disp r
   | TStr s \<Rightarrow> [CHR 0x27] @ concat (map (\<lambda>c. if c = CHR 0x27 then [CHR 0x27, CHR 0x27] else [c]) s) @ [CHR 0x27]
   | TParam \<Rightarrow> ''?'' | TNumParam n \<Rightarrow> ''$'' @ dec_string n | TNamedParam name \<Rightarrow> '':'' @ name
   | TLParen \<Rightarrow> ''('' | TRParen \<Rightarrow> '')'' | TLBracket \<Rightarrow> ''['' | TRBracket \<Rightarrow> '']'' | TComma \<Rightarrow> '','' | TSemi \<Rightarrow> '';''
   | TDColon \<Rightarrow> ''::'' | TDot \<Rightarrow> ''.'' | TStar \<Rightarrow> ''*'' | TEq \<Rightarrow> ''='' | TNe \<Rightarrow> ''<>'' | TLt \<Rightarrow> ''<'' | TLe \<Rightarrow> ''<='' | TGt \<Rightarrow> ''>'' | TGe \<Rightarrow> ''>=''
   | TPlus \<Rightarrow> ''+'' | TMinus \<Rightarrow> ''-'' | TSlash \<Rightarrow> ''/'' | TPercent \<Rightarrow> ''%'' | TConcat \<Rightarrow> ''||'' | TArrow \<Rightarrow> ''->'' | TArrowText \<Rightarrow> ''->>''
   | TVecL2 \<Rightarrow> ''<->'' | TVecCosine \<Rightarrow> ''<=>'' | TVecIp \<Rightarrow> ''<#>'' | TEof \<Rightarrow> [])"

fun is_word :: "tok \<Rightarrow> bool" where
  "is_word (TWord w) = True"
| "is_word _ = False"

definition needs_space :: "tok \<Rightarrow> tok \<Rightarrow> bool" where
  "needs_space prev cur =
    (if cur = TLParen \<and> (is_word prev \<or> prev = TRParen) then False
     else cur \<notin> {TComma, TRParen, TDColon, TDot} \<and> prev \<notin> {TLParen, TDColon, TDot})"

fun render_from :: "(u64 \<Rightarrow> string) \<Rightarrow> tok option \<Rightarrow> tok list \<Rightarrow> string" where
  "render_from disp prev [] = []"
| "render_from disp prev (t # ts) =
    (case prev of Some p \<Rightarrow> (if needs_space p t then '' '' else []) | None \<Rightarrow> []) @ render_token disp t @ render_from disp (Some t) ts"

definition render_tokens :: "(u64 \<Rightarrow> string) \<Rightarrow> tok list \<Rightarrow> string" where
  "render_tokens disp toks = render_from disp None toks"

section \<open>Rendered tokens lex back\<close>

text \<open>Tokens that can be written back: words that are plain identifiers, ASCII strings, and reals whose
  decimal form has a point and is read back as the same number.\<close>

definition ident_text :: "string \<Rightarrow> bool" where
  "ident_text w \<longleftrightarrow> w \<noteq> [] \<and> \<not> is_ascii_digit (hd w) \<and> list_all word_char w"

definition real_text :: "scalar_ops \<Rightarrow> (u64 \<Rightarrow> string) \<Rightarrow> u64 \<Rightarrow> bool" where
  "real_text so disp r \<longleftrightarrow> so_parse_f64 so (disp r) = Some r \<and> disp r \<noteq> [] \<and> is_ascii_digit (hd (disp r)) \<and>
     list_all number_head (disp r) \<and> CHR ''.'' \<in> set (disp r)"

fun token_ok :: "scalar_ops \<Rightarrow> (u64 \<Rightarrow> string) \<Rightarrow> tok \<Rightarrow> bool" where
  "token_ok so disp (TWord w) = ident_text w"
| "token_ok so disp (TInt n) = (0 \<le> n \<and> n < 2 ^ 63)"
| "token_ok so disp (TReal r) = real_text so disp r"
| "token_ok so disp (TStr s) = list_all (\<lambda>c. (of_char c :: nat) < 128) s"
| "token_ok so disp (TNumParam n) = (n < 2 ^ 64)"
| "token_ok so disp (TNamedParam name) = (name \<noteq> [] \<and> list_all word_char name)"
| "token_ok so disp TEof = False"
| "token_ok so disp _ = True"

text \<open>No number is directly followed by a dot.\<close>

fun is_number :: "tok \<Rightarrow> bool" where
  "is_number (TInt n) = True"
| "is_number (TReal r) = True"
| "is_number _ = False"

primrec number_dot :: "tok list \<Rightarrow> bool" where
  "number_dot [] = False"
| "number_dot (t # ts) = (is_number t \<and> ts \<noteq> [] \<and> hd ts = TDot \<or> number_dot ts)"

text \<open>What may follow a token's text without changing how it is read.\<close>

definition stops :: "(char \<Rightarrow> bool) \<Rightarrow> string \<Rightarrow> bool" where
  "stops p r \<longleftrightarrow> (case r of [] \<Rightarrow> True | c # _ \<Rightarrow> \<not> p c)"

fun follows :: "tok \<Rightarrow> string \<Rightarrow> bool" where
  "follows (TWord w) r = stops word_char r"
| "follows (TNamedParam n) r = stops word_char r"
| "follows (TInt i) r = stops (\<lambda>c. number_head c \<or> c = CHR ''e'' \<or> c = CHR ''E'') r"
| "follows (TReal x) r = stops (\<lambda>c. number_head c \<or> c = CHR ''e'' \<or> c = CHR ''E'') r"
| "follows (TNumParam n) r = stops is_ascii_digit r"
| "follows (TStr s) r = stops (\<lambda>c. c = CHR 0x27) r"
| "follows TMinus r = stops (\<lambda>c. c = CHR ''-'' \<or> c = CHR ''>'') r"
| "follows TArrow r = stops (\<lambda>c. c = CHR ''>'') r"
| "follows TLt r = stops (\<lambda>c. c = CHR ''-'' \<or> c = CHR ''='' \<or> c = CHR ''#'' \<or> c = CHR ''>'') r"
| "follows TLe r = stops (\<lambda>c. c = CHR ''>'') r"
| "follows TGt r = stops (\<lambda>c. c = CHR ''='') r"
| "follows _ r = True"

lemma stops_takeWhile: "list_all p xs \<Longrightarrow> stops p r \<Longrightarrow> takeWhile p (xs @ r) = xs \<and> dropWhile p (xs @ r) = r"
  by (induction xs) (auto simp: stops_def split: list.splits)

lemma parse_int_string: "0 \<le> n \<Longrightarrow> n < 2 ^ 63 \<Longrightarrow> parse_i64 (dec_string (nat n)) = Some n"
proof -
  assume n: "0 \<le> n" "n < 2 ^ 63"
  obtain c cs where d: "dec_string (nat n) = c # cs" "is_ascii_digit c" using dec_string_digits [of "nat n"] by (cases "dec_string (nat n)") auto
  with parse_dec_string [of "nat n"] n show ?thesis by (auto simp: parse_i64_def i64_range_def)
qed

lemma lex_loop_token: "lex_one so c r = Inr (Some t, rest) \<Longrightarrow> lex_loop so (c # r) = res_bind (lex_loop so rest) (\<lambda>ts. Inr (t # ts))"
  by simp

lemma lex_one_other:
  assumes "lex_other so c r = Inr (t, rest)" and "\<not> ascii_whitespace c" and "c \<noteq> CHR ''-''" and "simple_token c = None"
  shows "lex_one so c r = Inr (Some t, rest)"
  using assms by (simp add: lex_one_def)

definition word_start :: "char \<Rightarrow> bool" where
  "word_start c \<longleftrightarrow> word_char c \<and> \<not> is_ascii_digit c"

lemma special_not_word [simp]: "\<not> word_char CHR ''(''" "\<not> word_char CHR '')''" "\<not> word_char CHR ''[''" "\<not> word_char CHR '']''" "\<not> word_char CHR '',''" "\<not> word_char CHR '';''" "\<not> word_char CHR ''.''" "\<not> word_char CHR ''*''" "\<not> word_char CHR ''+''" "\<not> word_char CHR ''-''" "\<not> word_char CHR ''/''" "\<not> word_char CHR ''%''" "\<not> word_char CHR ''?''" "\<not> word_char CHR ''=''" "\<not> word_char CHR ''<''" "\<not> word_char CHR ''>''" "\<not> word_char CHR ''!''" "\<not> word_char CHR ''|''" "\<not> word_char CHR '':''" "\<not> word_char CHR ''$''" "\<not> word_char CHR ''`''" "\<not> word_char CHR 0x27" "\<not> word_char CHR 0x22"
  by code_simp+

lemma word_char_code: "word_char c \<Longrightarrow> (48 :: nat) \<le> of_char c"
  unfolding word_char_def ascii_alpha_def is_ascii_digit_def Let_def by (elim disjE conjE) simp_all

lemma blank_code: "ascii_whitespace c \<Longrightarrow> (of_char c :: nat) \<le> 32"
  unfolding ascii_whitespace_def by (elim insertE emptyE) simp_all

lemma blank_not_word: "word_char c \<Longrightarrow> \<not> ascii_whitespace c"
  using word_char_code [of c] blank_code [of c] by linarith

lemma word_char_simple: "word_char c \<Longrightarrow> simple_token c = None"
proof -
  assume c: "word_char c"
  have n: "(c = x) = False" if "\<not> word_char x" for x using c that by blast
  show ?thesis unfolding simple_token_def by (simp only: n special_not_word not_False_eq_True if_False)
qed

lemma word_char_cases: "word_char c \<Longrightarrow> \<not> ascii_whitespace c \<and> c \<noteq> CHR ''-'' \<and> simple_token c = None \<and>
    c \<notin> {CHR ''<'', CHR ''>'', CHR ''!'', CHR ''|'', CHR '':'', CHR ''$'', CHR 0x27, CHR 0x22, CHR ''`''}"
  using word_char_simple [of c] blank_not_word [of c] by auto

lemma lex_word_token:
  assumes "ident_text w" and "stops word_char r"
  shows "lex_loop so (w @ r) = res_bind (lex_loop so r) (\<lambda>ts. Inr (TWord w # ts))"
proof -
  from assms(1) obtain c cs where w: "w = c # cs" "\<not> is_ascii_digit c" "word_char c" "list_all word_char w" by (cases w) (auto simp: ident_text_def)
  have "lex_word (c # cs @ r) = (TWord w, r)" using stops_takeWhile [OF w(4) assms(2)] by (simp add: lex_word_def w(1))
  then have "lex_other so c (cs @ r) = Inr (TWord w, r)" using w(2,3) word_char_cases [OF w(3)] by (auto simp: lex_other_def word_char_def)
  from lex_loop_token [OF lex_one_other [OF this]] word_char_cases [OF w(3)] show ?thesis by (simp add: w(1))
qed

lemma digit_word: "is_ascii_digit c \<Longrightarrow> word_char c"
  by (simp add: word_char_def)

lemma lex_number_token:
  assumes "ds \<noteq> []" and "is_ascii_digit (hd ds)" and "list_all number_head ds" and "stops (\<lambda>c. number_head c \<or> c = CHR ''e'' \<or> c = CHR ''E'') r"
    and "(if CHR ''.'' \<in> set ds then map_option TReal (so_parse_f64 so ds) else map_option TInt (parse_i64 ds)) = Some t"
  shows "lex_loop so (ds @ r) = res_bind (lex_loop so r) (\<lambda>ts. Inr (t # ts))"
proof -
  from assms(1,2) obtain c cs where ds: "ds = c # cs" "is_ascii_digit c" by (cases ds) auto
  have "stops number_head r" using assms(4) by (auto simp: stops_def split: list.splits)
  note tw = stops_takeWhile [OF assms(3) this]
  have "number_exponent r = []" using assms(4) by (auto simp: number_exponent_def stops_def split: list.splits)
  then have "lex_number so (c # cs @ r) = Inr (t, r)"
    using tw assms(5) unfolding ds(1) append_Cons by (auto simp: lex_number_def Let_def split: if_splits)
  then have "lex_other so c (cs @ r) = Inr (t, r)" using ds(2) word_char_cases [OF digit_word [OF ds(2)]] by (auto simp: lex_other_def)
  from lex_loop_token [OF lex_one_other [OF this]] word_char_cases [OF digit_word [OF ds(2)]] show ?thesis by (simp add: ds(1))
qed

lemma lex_string_token:
  assumes "list_all (\<lambda>c. (of_char c :: nat) < 128) s" and "stops (\<lambda>c. c = CHR 0x27) r"
  shows "lex_string acc (concat (map (\<lambda>c. if c = CHR 0x27 then [CHR 0x27, CHR 0x27] else [c]) s) @ CHR 0x27 # r) = Inr (TStr (acc @ s), r)"
  using assms(1)
proof (induction s arbitrary: acc)
  case Nil
  then show ?case using assms(2) by (auto simp: stops_def split: list.splits)
next
  case (Cons c s)
  then show ?case by (simp add: latin1_char_def)
qed

lemma lex_token:
  assumes "token_ok so disp t" and "follows t r"
  shows "lex_loop so (render_token disp t @ r) = res_bind (lex_loop so r) (\<lambda>ts. Inr (t # ts))"
proof (cases t)
  case (TWord w)
  then show ?thesis using assms lex_word_token by (simp add: render_token_def)
next
  case (TInt n)
  have "list_all is_ascii_digit (dec_string (nat n))" "dec_string (nat n) \<noteq> []" using dec_string_digits by auto
  moreover have "parse_i64 (dec_string (nat n)) = Some n" using parse_int_string TInt assms(1) by simp
  ultimately have "lex_loop so (dec_string (nat n) @ r) = res_bind (lex_loop so r) (\<lambda>ts. Inr (TInt n # ts))"
    using assms(2) TInt by (intro lex_number_token) (auto simp: list_all_iff number_head_def)
  then show ?thesis using assms(1) TInt by (simp add: render_token_def int_string_def)
next
  case (TReal x)
  with assms have "lex_loop so (disp x @ r) = res_bind (lex_loop so r) (\<lambda>ts. Inr (TReal x # ts))"
    by (intro lex_number_token) (auto simp: real_text_def)
  then show ?thesis using TReal by (simp add: render_token_def)
next
  case (TStr s)
  have "lex_other so CHR 0x27 (concat (map (\<lambda>c. if c = CHR 0x27 then [CHR 0x27, CHR 0x27] else [c]) s) @ CHR 0x27 # r) = Inr (TStr s, r)"
    using lex_string_token [of s r "[]"] assms TStr by (simp add: lex_other_def)
  from lex_loop_token [OF lex_one_other [OF this]] show ?thesis using TStr by (simp add: render_token_def ascii_whitespace_def simple_token_def)
next
  case (TNumParam n)
  have d: "list_all is_ascii_digit (dec_string n)" "dec_string n \<noteq> []" using dec_string_digits by auto
  have "lex_other so CHR ''$'' (dec_string n @ r) = Inr (TNumParam n, r)"
    using stops_takeWhile [OF d(1)] d(2) assms TNumParam by (simp add: lex_other_def lex_numparam_def Let_def parse_dec_string)
  from lex_loop_token [OF lex_one_other [OF this]] show ?thesis using TNumParam by (simp add: render_token_def ascii_whitespace_def simple_token_def)
next
  case (TNamedParam name)
  then obtain c cs where n: "name = c # cs" "word_char c" using assms(1) by (cases name) auto
  have "lex_other so CHR '':'' (name @ r) = Inr (TNamedParam name, r)"
    using stops_takeWhile [of word_char name r] word_char_cases [OF n(2)] assms TNamedParam n by (auto simp: lex_other_def lex_colon_def Let_def)
  from lex_loop_token [OF lex_one_other [OF this]] show ?thesis using TNamedParam by (simp add: render_token_def ascii_whitespace_def simple_token_def)
next
  case TLParen
  then show ?thesis by (simp add: render_token_def lex_one_def simple_token_def ascii_whitespace_def)
next
  case TRParen
  then show ?thesis by (simp add: render_token_def lex_one_def simple_token_def ascii_whitespace_def)
next
  case TLBracket
  then show ?thesis by (simp add: render_token_def lex_one_def simple_token_def ascii_whitespace_def)
next
  case TRBracket
  then show ?thesis by (simp add: render_token_def lex_one_def simple_token_def ascii_whitespace_def)
next
  case TComma
  then show ?thesis by (simp add: render_token_def lex_one_def simple_token_def ascii_whitespace_def)
next
  case TSemi
  then show ?thesis by (simp add: render_token_def lex_one_def simple_token_def ascii_whitespace_def)
next
  case TDot
  then show ?thesis by (simp add: render_token_def lex_one_def simple_token_def ascii_whitespace_def)
next
  case TStar
  then show ?thesis by (simp add: render_token_def lex_one_def simple_token_def ascii_whitespace_def)
next
  case TEq
  then show ?thesis by (simp add: render_token_def lex_one_def simple_token_def ascii_whitespace_def)
next
  case TPlus
  then show ?thesis by (simp add: render_token_def lex_one_def simple_token_def ascii_whitespace_def)
next
  case TSlash
  then show ?thesis by (simp add: render_token_def lex_one_def simple_token_def ascii_whitespace_def)
next
  case TPercent
  then show ?thesis by (simp add: render_token_def lex_one_def simple_token_def ascii_whitespace_def)
next
  case TParam
  then show ?thesis by (simp add: render_token_def lex_one_def simple_token_def ascii_whitespace_def)
next
  case TMinus
  then have "lex_one so CHR ''-'' r = Inr (Some TMinus, r)" using assms(2) by (auto simp: lex_one_def simple_token_def ascii_whitespace_def stops_def split: list.splits)
  from lex_loop_token [OF this] TMinus show ?thesis by (simp add: render_token_def)
next
  case TArrow
  then have "lex_one so CHR ''-'' (CHR ''>'' # r) = Inr (Some TArrow, r)" using assms(2) by (auto simp: lex_one_def ascii_whitespace_def stops_def split: list.splits)
  from lex_loop_token [OF this] TArrow show ?thesis by (simp add: render_token_def)
next
  case TArrowText
  have "lex_one so CHR ''-'' (CHR ''>'' # CHR ''>'' # r) = Inr (Some TArrowText, r)" by (simp add: lex_one_def ascii_whitespace_def)
  from lex_loop_token [OF this] TArrowText show ?thesis by (simp add: render_token_def)
next
  case TDColon
  then have "lex_other so CHR '':'' ('':'' @ r) = Inr (TDColon, r)"
    using assms(2) by (auto simp: lex_other_def lex_colon_def stops_def split: list.splits)
  from lex_loop_token [OF lex_one_other [OF this]] TDColon show ?thesis by (simp add: render_token_def ascii_whitespace_def simple_token_def)
next
  case TConcat
  then have "lex_other so CHR ''|'' (''|'' @ r) = Inr (TConcat, r)"
    using assms(2) by (auto simp: lex_other_def lex_pipe_def stops_def split: list.splits)
  from lex_loop_token [OF lex_one_other [OF this]] TConcat show ?thesis by (simp add: render_token_def ascii_whitespace_def simple_token_def)
next
  case TNe
  then have "lex_other so CHR ''<'' (''>'' @ r) = Inr (TNe, r)"
    using assms(2) by (auto simp: lex_other_def lex_operator_def lex_lt_def stops_def split: list.splits)
  from lex_loop_token [OF lex_one_other [OF this]] TNe show ?thesis by (simp add: render_token_def ascii_whitespace_def simple_token_def)
next
  case TLt
  then have "lex_other so CHR ''<'' r = Inr (TLt, r)"
    using assms(2) by (auto simp: lex_other_def lex_operator_def lex_lt_def stops_def split: list.splits)
  from lex_loop_token [OF lex_one_other [OF this]] TLt show ?thesis by (simp add: render_token_def ascii_whitespace_def simple_token_def)
next
  case TLe
  then have "lex_other so CHR ''<'' (''='' @ r) = Inr (TLe, r)"
    using assms(2) by (auto simp: lex_other_def lex_operator_def lex_lt_def stops_def split: list.splits)
  from lex_loop_token [OF lex_one_other [OF this]] TLe show ?thesis by (simp add: render_token_def ascii_whitespace_def simple_token_def)
next
  case TGt
  then have "lex_other so CHR ''>'' r = Inr (TGt, r)"
    using assms(2) by (auto simp: lex_other_def lex_operator_def stops_def split: list.splits)
  from lex_loop_token [OF lex_one_other [OF this]] TGt show ?thesis by (simp add: render_token_def ascii_whitespace_def simple_token_def)
next
  case TGe
  then have "lex_other so CHR ''>'' (''='' @ r) = Inr (TGe, r)"
    using assms(2) by (auto simp: lex_other_def lex_operator_def stops_def split: list.splits)
  from lex_loop_token [OF lex_one_other [OF this]] TGe show ?thesis by (simp add: render_token_def ascii_whitespace_def simple_token_def)
next
  case TVecL2
  then have "lex_other so CHR ''<'' (''->'' @ r) = Inr (TVecL2, r)"
    using assms(2) by (auto simp: lex_other_def lex_operator_def lex_lt_def stops_def split: list.splits)
  from lex_loop_token [OF lex_one_other [OF this]] TVecL2 show ?thesis by (simp add: render_token_def ascii_whitespace_def simple_token_def)
next
  case TVecCosine
  then have "lex_other so CHR ''<'' (''=>'' @ r) = Inr (TVecCosine, r)"
    using assms(2) by (auto simp: lex_other_def lex_operator_def lex_lt_def stops_def split: list.splits)
  from lex_loop_token [OF lex_one_other [OF this]] TVecCosine show ?thesis by (simp add: render_token_def ascii_whitespace_def simple_token_def)
next
  case TVecIp
  then have "lex_other so CHR ''<'' (''#>'' @ r) = Inr (TVecIp, r)"
    using assms(2) by (auto simp: lex_other_def lex_operator_def lex_lt_def stops_def split: list.splits)
  from lex_loop_token [OF lex_one_other [OF this]] TVecIp show ?thesis by (simp add: render_token_def ascii_whitespace_def simple_token_def)
qed (use assms in simp)

lemma space_not_word [simp]: "\<not> word_char CHR '' ''" by code_simp

lemma follows_separator: "follows t (CHR '' '' # r)" "follows t (CHR '','' # r)" "follows t (CHR '')'' # r)" "follows t (CHR '':'' # r)"
  by (cases t; simp add: stops_def number_head_def is_ascii_digit_def)+

lemma follows_dot: "\<not> is_number t \<Longrightarrow> follows t (CHR ''.'' # r)"
  by (cases t) (simp_all add: stops_def is_ascii_digit_def)

lemma follows_paren: "is_word t \<or> t = TRParen \<Longrightarrow> follows t (CHR ''('' # r)"
  by (cases t) (simp_all add: stops_def)

lemma follows_rendered:
  assumes "\<not> number_dot (t # t2 # ts)"
  shows "follows t (render_from disp (Some t) (t2 # ts))"
proof (cases "needs_space t t2")
  case True
  then show ?thesis by (simp add: follows_separator)
next
  case False
  then consider "t2 = TLParen" "is_word t \<or> t = TRParen" | "t2 \<in> {TComma, TRParen, TDColon}" | "t2 = TDot" | "t \<in> {TLParen, TDColon, TDot}"
    unfolding needs_space_def by (auto split: if_splits)
  then show ?thesis
  proof cases
    case 1
    with False show ?thesis by (simp add: render_token_def follows_paren)
  next
    case 2
    with False show ?thesis by (auto simp: render_token_def follows_separator)
  next
    case 3
    then have "\<not> is_number t" using assms by simp
    from follows_dot [OF this] 3 False show ?thesis by (simp add: render_token_def)
  qed auto
qed

lemma lex_space: "lex_loop so (CHR '' '' # r) = lex_loop so r"
proof -
  have "lex_one so CHR '' '' r = Inr (None, r)" by (simp add: lex_one_def ascii_whitespace_def)
  then show ?thesis by (cases "lex_loop so r") simp_all
qed

lemma lex_render_from:
  assumes "list_all (token_ok so disp) ts" and "\<not> number_dot ts"
  shows "lex_loop so (render_from disp prev ts) = Inr (ts @ [TEof])"
  using assms
proof (induction ts arbitrary: prev)
  case (Cons t ts)
  then have ih: "lex_loop so (render_from disp (Some t) ts) = Inr (ts @ [TEof])" by simp
  have "follows t (render_from disp (Some t) ts)"
  proof (cases ts)
    case Nil
    then show ?thesis by (cases t) (simp_all add: stops_def)
  next
    case c: (Cons t2 ts2)
    then show ?thesis using follows_rendered [of t t2 ts2 disp] Cons.prems by simp
  qed
  with Cons.prems(1) have "lex_loop so (render_token disp t @ render_from disp (Some t) ts) = Inr (t # ts @ [TEof])"
    using lex_token [of so disp t] ih by simp
  then show ?case by (cases prev) (simp_all add: lex_space del: lex_loop.simps)
qed simp

text \<open>C37. The text stored for a \<^verbatim>\<open>DEFAULT\<close>, \<^verbatim>\<open>CHECK\<close> or policy expression lexes to the tokens it was
  written from, whatever they are, if its words are plain identifiers, its strings ASCII and its reals not
  integral: neither the spacing rules nor the quotes inside strings change what is read.\<close>
theorem rendered_tokens_lex_back:
  assumes "list_all (token_ok so disp) toks" and "\<not> number_dot toks"
  shows "lex so (render_tokens disp toks) = Inr (toks @ [TEof])"
  using lex_render_from [OF assms] by (simp add: lex_def render_tokens_def)

text \<open>The binary64 numbers 0.5 and 2.0 with the decimal forms of the language, for the examples.\<close>

definition example_ops :: scalar_ops where
  "example_ops = \<lparr>so_fadd = (\<lambda>a b. a), so_fsub = (\<lambda>a b. a), so_fmul = (\<lambda>a b. a), so_fdiv = (\<lambda>a b. a), so_frem = (\<lambda>a b. a), so_fsum = (\<lambda>xs. 0),
     so_format_real = (\<lambda>r. ''0.5''), so_format_f32 = (\<lambda>r. []), so_parse_f64 = (\<lambda>s. if s = ''0.5'' then Some 0x3FE0000000000000 else if s = ''2.0'' then Some 0x4000000000000000 else None),
     so_parse_f32 = (\<lambda>s. None), so_distance = (\<lambda>m a b. 0), so_call_func = (\<lambda>n vs. Inl Panicked), so_value_to_json = (\<lambda>v. []), so_claim = (\<lambda>c k. None)\<rparr>"

definition example_disp :: "u64 \<Rightarrow> string" where
  "example_disp r = (if r = 0x3FE0000000000000 then ''0.5'' else if r = 0x4000000000000000 then ''2'' else [])"

theorem rendered_tokens_lex_back_witness:
  "lex example_ops (render_tokens example_disp
     [TWord ''owner'', TEq, TWord ''auth'', TDot, TWord ''uid'', TLParen, TRParen, TWord ''and'', TStr [CHR 0x27], TLt, TReal 0x3FE0000000000000]) =
   Inr [TWord ''owner'', TEq, TWord ''auth'', TDot, TWord ''uid'', TLParen, TRParen, TWord ''and'', TStr [CHR 0x27], TLt, TReal 0x3FE0000000000000, TEof]"
proof -
  have "list_all (token_ok example_ops example_disp)
     [TWord ''owner'', TEq, TWord ''auth'', TDot, TWord ''uid'', TLParen, TRParen, TWord ''and'', TStr [CHR 0x27], TLt, TReal 0x3FE0000000000000]"
    by code_simp
  from rendered_tokens_lex_back [OF this] show ?thesis by simp
qed

text \<open>Outside these conditions the stored text means something else.  A real that is a whole number is written
  without its point and read back as an integer, so a division by it becomes an integer division;
  a quoted identifier is written without its quotes; and a string literal that is not ASCII is
  stored with every byte of its UTF-8 form taken for a character of its own, already by the first reading.\<close>

lemma rendered_tokens_differ:
  "lex example_ops (render_tokens example_disp [TWord ''a'', TSlash, TReal 0x4000000000000000]) = Inr [TWord ''a'', TSlash, TInt 2, TEof]"
  "lex example_ops (CHR 0x22 # ''a b'' @ [CHR 0x22]) = Inr [TWord ''a b'', TEof]"
  "lex example_ops (render_tokens example_disp [TWord ''a b'']) = Inr [TWord ''a'', TWord ''b'', TEof]"
  by code_simp+

lemma utf8_literal_mangled: "lex example_ops [CHR 0x27, CHR 0xC3, CHR 0xA9, CHR 0x27] = Inr [TStr [CHR 0xC3, CHR 0x83, CHR 0xC2, CHR 0xA9], TEof]"
  by code_simp

end
