(* ===== verification/Parser_Core.thy ===== *)
theory Parser_Core
  imports Sql_Lexer
begin

text \<open>
  The cursor of the recursive-descent parser in \<^verbatim>\<open>crates/engine/src/sql.rs\<close>: the tokens that are left,
  ending with \<open>TEof\<close>, and the placeholder counters.  A parser takes the cursor and returns a value
  with the new cursor or an error.  A \<^verbatim>\<open>loop\<close> or \<^verbatim>\<open>while\<close> goes on as long as its body asks for
  another turn; a turn that consumes no token would be repeated for ever, which is \<open>Overflow\<close>.
\<close>

section \<open>State and sequencing\<close>

record pstate =
  ps_toks :: "tok list"
  ps_next_param :: nat
  ps_max_param :: nat
  ps_named_params :: "(string \<times> nat) list"

type_synonym 'a parser = "pstate \<Rightarrow> ('a \<times> pstate) xres"

definition parser_new :: "tok list \<Rightarrow> pstate" where
  "parser_new toks = \<lparr>ps_toks = toks, ps_next_param = 1, ps_max_param = 0, ps_named_params = []\<rparr>"

definition ret :: "'a \<Rightarrow> 'a parser" where
  "ret a s = Inr (a, s)"

definition bnd :: "'a parser \<Rightarrow> ('a \<Rightarrow> 'b parser) \<Rightarrow> 'b parser" where
  "bnd p f s = res_bind (p s) (\<lambda>(a, s'). f a s')"

definition sql_err :: "'a parser" where
  "sql_err s = Inl (Raised ErrSql)"

function loop :: "('a \<Rightarrow> 'a option parser) \<Rightarrow> 'a \<Rightarrow> 'a parser" where
  "loop step a s = (case step a s of
     Inl e \<Rightarrow> Inl e
   | Inr (None, s') \<Rightarrow> Inr (a, s')
   | Inr (Some a', s') \<Rightarrow> if length (ps_toks s') < length (ps_toks s) then loop step a' s' else Inl Overflow)"
  by pat_completeness auto
termination by (relation "measure (\<lambda>(step, a, s). length (ps_toks s))") auto

declare loop.simps [simp del]

section \<open>Tokens\<close>

definition peek :: "tok parser" where
  "peek s = (case ps_toks s of [] \<Rightarrow> Inl Panicked | t # _ \<Rightarrow> Inr (t, s))"

definition bump :: "tok parser" where
  "bump s = (case ps_toks s of [] \<Rightarrow> Inl Panicked | [t] \<Rightarrow> Inr (t, s) | t # ts \<Rightarrow> Inr (t, s\<lparr>ps_toks := ts\<rparr>))"

text \<open>The token \<open>k\<close> places behind the current one.\<close>

definition peek_ahead :: "nat \<Rightarrow> tok option parser" where
  "peek_ahead k s = Inr (if k < length (ps_toks s) then Some (ps_toks s ! k) else None, s)"

definition skip :: "tok \<Rightarrow> bool parser" where
  "skip t = bnd peek (\<lambda>x. if x = t then bnd bump (\<lambda>_. ret True) else ret False)"

definition expect :: "tok \<Rightarrow> unit parser" where
  "expect t = bnd peek (\<lambda>x. if x = t then bnd bump (\<lambda>_. ret ()) else sql_err)"

fun word_of :: "tok \<Rightarrow> string option" where
  "word_of (TWord w) = Some w"
| "word_of _ = None"

definition kw_match :: "string \<Rightarrow> tok \<Rightarrow> bool" where
  "kw_match kw t \<longleftrightarrow> (case word_of t of Some w \<Rightarrow> eq_ignore_ascii_case w kw | None \<Rightarrow> False)"

definition peek_word :: "string option parser" where
  "peek_word = bnd peek (\<lambda>t. ret (word_of t))"

definition eat_kw :: "string \<Rightarrow> bool parser" where
  "eat_kw kw = bnd peek (\<lambda>t. if kw_match kw t then bnd bump (\<lambda>_. ret True) else ret False)"

definition is_kw :: "string \<Rightarrow> bool parser" where
  "is_kw kw = bnd peek (\<lambda>t. ret (kw_match kw t))"

definition expect_kw :: "string \<Rightarrow> unit parser" where
  "expect_kw kw = bnd (eat_kw kw) (\<lambda>ok. if ok then ret () else sql_err)"

definition ident :: "string parser" where
  "ident = bnd bump (\<lambda>t. case word_of t of Some w \<Rightarrow> ret w | None \<Rightarrow> sql_err)"

definition next_is_kw :: "string \<Rightarrow> bool parser" where
  "next_is_kw kw = bnd (peek_ahead 1) (\<lambda>t. ret (case t of Some t \<Rightarrow> kw_match kw t | None \<Rightarrow> False))"

definition next_is_lparen :: "bool parser" where
  "next_is_lparen = bnd (peek_ahead 1) (\<lambda>t. ret (t = Some TLParen))"

text \<open>\<^verbatim>\<open>self.eat_kw(a) || self.eat_kw(b)\<close>, and a keyword with an error path behind it.\<close>

definition eat_either :: "string \<Rightarrow> string \<Rightarrow> bool parser" where
  "eat_either a b = bnd (eat_kw a) (\<lambda>x. if x then ret True else eat_kw b)"

definition eat_both :: "string \<Rightarrow> string \<Rightarrow> bool parser" where
  "eat_both a b = bnd (eat_kw a) (\<lambda>x. if x then eat_kw b else ret False)"

definition opt_after :: "string \<Rightarrow> 'a parser \<Rightarrow> 'a option parser" where
  "opt_after kw p = bnd (eat_kw kw) (\<lambda>x. if x then bnd p (\<lambda>a. ret (Some a)) else ret None)"

definition if_not_exists :: "bool parser" where
  "if_not_exists = bnd (eat_kw ''if'') (\<lambda>x. if x then bnd (expect_kw ''not'') (\<lambda>_. bnd (expect_kw ''exists'') (\<lambda>_. ret True)) else ret False)"

definition if_exists :: "bool parser" where
  "if_exists = bnd (eat_kw ''if'') (\<lambda>x. if x then bnd (expect_kw ''exists'') (\<lambda>_. ret True) else ret False)"

definition param_index :: "tok \<Rightarrow> nat parser" where
  "param_index t s =
    (let (idx, s1) =
       (case t of
          TNumParam n \<Rightarrow> (n, s)
        | TNamedParam name \<Rightarrow>
            (case map_of (ps_named_params s) name of
               Some i \<Rightarrow> (i, s)
             | None \<Rightarrow> (ps_next_param s, s\<lparr>ps_next_param := ps_next_param s + 1, ps_named_params := (name, ps_next_param s) # ps_named_params s\<rparr>))
        | _ \<Rightarrow> (ps_next_param s, s\<lparr>ps_next_param := ps_next_param s + 1\<rparr>))
     in Inr (idx, s1\<lparr>ps_max_param := max (ps_max_param s1) idx\<rparr>))"

text \<open>One or more items separated by commas.\<close>

definition comma_list :: "'a parser \<Rightarrow> 'a list parser" where
  "comma_list p = bnd p (\<lambda>x. loop (\<lambda>xs. bnd (skip TComma) (\<lambda>c. if c then bnd p (\<lambda>y. ret (Some (xs @ [y]))) else ret None)) [x])"

definition paren_ident_list :: "string list parser" where
  "paren_ident_list = bnd (expect TLParen) (\<lambda>_. bnd (comma_list ident) (\<lambda>cols. bnd (expect TRParen) (\<lambda>_. ret cols)))"

text \<open>A chain of infix operators of one level, to the left.\<close>

definition infix_chain :: "(tok \<Rightarrow> ('a \<Rightarrow> 'a \<Rightarrow> 'a) option) \<Rightarrow> 'a parser \<Rightarrow> 'a parser" where
  "infix_chain ops p = bnd p (loop (\<lambda>left. bnd peek (\<lambda>t. case ops t of
     None \<Rightarrow> ret None
   | Some mk \<Rightarrow> bnd bump (\<lambda>_. bnd p (\<lambda>right. ret (Some (mk left right)))))))"

definition skip_to_end :: "unit parser" where
  "skip_to_end = loop (\<lambda>_. bnd peek (\<lambda>t. if t = TSemi \<or> t = TEof then ret None else bnd bump (\<lambda>_. ret (Some ())))) ()"

text \<open>\<^verbatim>\<open>skip_parens\<close>: the open parentheses are counted; \<open>None\<close> marks the return.\<close>

definition skip_parens :: "unit parser" where
  "skip_parens = bnd peek (\<lambda>t0. if t0 \<noteq> TLParen then ret () else
     bnd (loop (\<lambda>depth. case depth of None \<Rightarrow> ret None | Some d \<Rightarrow> bnd peek (\<lambda>t.
       if t = TEof then ret None
       else bnd bump (\<lambda>_. ret (Some (if t = TLParen then Some (d + 1) else if t = TRParen then (if d - 1 = (0 :: int) then None else Some (d - 1)) else Some d)))))
       (Some 0)) (\<lambda>_. ret ()))"

end
