(* ===== verification/Sql_Parser.thy ===== *)
theory Sql_Parser
  imports Parser_Core Sql_Query
begin

text \<open>
  The SQL parser (\<^verbatim>\<open>crates/engine/src/sql.rs\<close>): expressions by precedence, queries, write statements,
  schema statements, session and transaction statements.  Every function of the source is a definition
  that takes the parsers it calls recursively (\<open>ex\<close> for \<^verbatim>\<open>expr\<close>, \<open>se\<close> for \<^verbatim>\<open>select\<close>, \<open>fr\<close> for
  \<^verbatim>\<open>parse_from\<close>) as arguments; \<open>p_expr\<close>, \<open>p_select\<close> and \<open>p_from\<close> tie the knot over a call depth, and \<open>parse_sql\<close> and
  \<open>parse_expr\<close> start with the number of tokens.
\<close>

type_synonym qexpr = "select_stmt expr"
type_synonym qfrom = "select_stmt from_clause"
type_synonym qitem = "select_stmt sel_item"
type_synonym qdml = "(select_stmt, qfrom) dml_stmt"
type_synonym qstmt = "(qdml, select_stmt, select_stmt) stmt"

section \<open>Types and literals\<close>

definition cast_from_word :: "string \<Rightarrow> cast_target" where
  "cast_from_word w = (let n = to_ascii_lowercase w in
     if n \<in> {''int'', ''integer'', ''int2'', ''int4'', ''int8'', ''smallint'', ''bigint'', ''oid'', ''serial'', ''bigserial''} then CastInt
     else if n \<in> {''real'', ''float'', ''float4'', ''float8'', ''double'', ''numeric'', ''decimal''} then CastReal
     else if n \<in> {''text'', ''varchar'', ''character'', ''char'', ''name'', ''json'', ''jsonb'', ''uuid'', ''citext'', ''bytea'', ''bpchar''} then CastText
     else if n \<in> {''bool'', ''boolean''} then CastBool
     else CastPassthrough)"

definition eat_type_modifiers :: "string \<Rightarrow> unit parser" where
  "eat_type_modifiers word = (let w = to_ascii_lowercase word in
     if w = ''double'' then bnd (eat_kw ''precision'') (\<lambda>_. ret ())
     else if w \<in> {''character'', ''bit''} then bnd (eat_kw ''varying'') (\<lambda>_. ret ())
     else if w \<in> {''timestamp'', ''time''} then
       bnd (eat_either ''with'' ''without'') (\<lambda>x. if x then bnd (eat_kw ''time'') (\<lambda>_. bnd (eat_kw ''zone'') (\<lambda>_. ret ())) else ret ())
     else ret ())"

definition skip_to_rparen :: "unit parser" where
  "skip_to_rparen = loop (\<lambda>_. bnd peek (\<lambda>t. if t = TRParen \<or> t = TEof then ret None else bnd bump (\<lambda>_. ret (Some ())))) ()"

definition parse_cast_type :: "cast_target parser" where
  "parse_cast_type = bnd ident (\<lambda>w0. bnd (skip TDot) (\<lambda>dot. bnd (if dot then ident else ret w0) (\<lambda>word.
     bnd (eat_type_modifiers word) (\<lambda>_.
     bnd (skip TLParen) (\<lambda>p. bnd (if p then bnd skip_to_rparen (\<lambda>_. expect TRParen) else ret ()) (\<lambda>_.
     bnd (loop (\<lambda>_. bnd (skip TLBracket) (\<lambda>b. if b then bnd (expect TRBracket) (\<lambda>_. ret (Some ())) else ret None)) ()) (\<lambda>_.
     ret (cast_from_word word))))))))"

text \<open>\<^verbatim>\<open>as f32\<close>: the nearest binary32 number to \<open>sig * 2 ^ e\<close>, ties to even, as its fields without the sign.\<close>

definition f32_magnitude :: "nat \<Rightarrow> int \<Rightarrow> nat" where
  "f32_magnitude sig e = (if sig = 0 then 0 else
     let top = e + int (bit_len sig) - 1; q = max (top - 23) (- 149);
         mant = (if q \<le> e then sig * 2 ^ nat (e - q) else round_even sig (nat (q - e)))
     in min 0x7F800000 ((if top < - 126 then 0 else nat (top + 126) * 2 ^ 23) + mant))"

definition f32_of_i64 :: "int \<Rightarrow> u32" where
  "f32_of_i64 n = word_of_nat ((if n < 0 then 2 ^ 31 else 0) + f32_magnitude (nat \<bar>n\<bar>) 0)"

definition f32_of_f64 :: "u64 \<Rightarrow> u32" where
  "f32_of_f64 x = word_of_nat ((if f64_negative x then 2 ^ 31 else 0) +
     (if f64_exponent x = 2047 then (if f64_fraction x = 0 then 0x7F800000 else 0x7FC00000)
      else f32_magnitude (f64_significand x) (int (f64_scale x) - 1075)))"

definition f32_neg :: "u32 \<Rightarrow> u32" where
  "f32_neg x = word_of_nat ((unat x + 2 ^ 31) mod 2 ^ 32)"

definition number_component :: "u32 parser" where
  "number_component = bnd (skip TMinus) (\<lambda>neg. bnd bump (\<lambda>t. case t of
     TInt n \<Rightarrow> ret (if neg then f32_neg (f32_of_i64 n) else f32_of_i64 n)
   | TReal r \<Rightarrow> ret (if neg then f32_neg (f32_of_f64 r) else f32_of_f64 r)
   | _ \<Rightarrow> sql_err))"

definition vector_literal :: "qexpr parser" where
  "vector_literal = bnd (expect TLBracket) (\<lambda>_. bnd peek (\<lambda>t.
     bnd (if t \<noteq> TRBracket then comma_list number_component else ret []) (\<lambda>comps. bnd (expect TRBracket) (\<lambda>_. ret (EVector comps)))))"

definition agg_func_of :: "string \<Rightarrow> agg_func option" where
  "agg_func_of w =
    (if eq_ignore_ascii_case w ''count'' then Some AggCount
     else if eq_ignore_ascii_case w ''sum'' then Some AggSum
     else if eq_ignore_ascii_case w ''min'' then Some AggMin
     else if eq_ignore_ascii_case w ''max'' then Some AggMax
     else if eq_ignore_ascii_case w ''avg'' then Some AggAvg
     else if eq_ignore_ascii_case w ''json_agg'' then Some AggJsonAgg
     else if eq_ignore_ascii_case w ''jsonb_agg'' then Some AggJsonAgg
     else if eq_ignore_ascii_case w ''group_concat'' then Some AggGroupConcat
     else if eq_ignore_ascii_case w ''string_agg'' then Some AggGroupConcat
     else None)"

section \<open>Expressions\<close>

definition expr_list :: "qexpr parser \<Rightarrow> qexpr list parser" where
  "expr_list ex = bnd peek (\<lambda>t. if t \<noteq> TRParen then comma_list ex else ret [])"

definition aggregate_call :: "qexpr parser \<Rightarrow> agg_func \<Rightarrow> qexpr parser" where
  "aggregate_call ex func = bnd (expect TLParen) (\<lambda>_. bnd (eat_kw ''distinct'') (\<lambda>dist. bnd (eat_kw ''all'') (\<lambda>_.
     bnd peek (\<lambda>t. bnd (if t = TStar then bnd bump (\<lambda>_. ret None) else bnd ex (\<lambda>e. ret (Some e))) (\<lambda>arg.
     bnd (skip TComma) (\<lambda>c. bnd (if c then bnd ex (\<lambda>e. ret (Some e)) else ret None) (\<lambda>sep.
     bnd (expect TRParen) (\<lambda>_. ret (EAggregate func arg dist sep)))))))))"

definition func_call :: "qexpr parser \<Rightarrow> string \<Rightarrow> qexpr parser" where
  "func_call ex name = (case agg_func_of name of
     Some func \<Rightarrow> aggregate_call ex func
   | None \<Rightarrow> bnd (expect TLParen) (\<lambda>_. bnd peek (\<lambda>t.
       bnd (if t \<noteq> TRParen then (if t = TStar then bnd bump (\<lambda>_. ret []) else comma_list ex) else ret []) (\<lambda>args.
       bnd (expect TRParen) (\<lambda>_. ret (EFunc name args))))))"

definition cast_call :: "qexpr parser \<Rightarrow> qexpr parser" where
  "cast_call ex = bnd bump (\<lambda>_. bnd (expect TLParen) (\<lambda>_. bnd ex (\<lambda>e. bnd (expect_kw ''as'') (\<lambda>_.
     bnd parse_cast_type (\<lambda>target. bnd (expect TRParen) (\<lambda>_. ret (ECast e target)))))))"

definition exists_expr :: "select_stmt parser \<Rightarrow> qexpr parser" where
  "exists_expr se = bnd bump (\<lambda>_. bnd (expect TLParen) (\<lambda>_. bnd se (\<lambda>query. bnd (expect TRParen) (\<lambda>_. ret (EExists query False)))))"

definition extract_call :: "qexpr parser \<Rightarrow> qexpr parser" where
  "extract_call ex = bnd bump (\<lambda>_. bnd (expect TLParen) (\<lambda>_. bnd ident (\<lambda>field. bnd (expect_kw ''from'') (\<lambda>_. bnd ex (\<lambda>source.
     bnd (expect TRParen) (\<lambda>_. ret (EFunc ''extract'' [EStr (to_ascii_lowercase field), source])))))))"

definition case_expr :: "qexpr parser \<Rightarrow> qexpr parser" where
  "case_expr ex = bnd (expect_kw ''case'') (\<lambda>_. bnd (is_kw ''when'') (\<lambda>w.
     bnd (if w then ret None else bnd ex (\<lambda>e. ret (Some e))) (\<lambda>operand.
     bnd (loop (\<lambda>whens. bnd (eat_kw ''when'') (\<lambda>x. if x then
         bnd ex (\<lambda>c. bnd (expect_kw ''then'') (\<lambda>_. bnd ex (\<lambda>r. ret (Some (whens @ [(c, r)]))))) else ret None)) []) (\<lambda>whens.
     if whens = [] then sql_err
     else bnd (opt_after ''else'' ex) (\<lambda>els. bnd (expect_kw ''end'') (\<lambda>_. ret (ECase operand whens els)))))))"

definition subquery_next :: "bool parser" where
  "subquery_next = bnd peek (\<lambda>t. ret (kw_match ''select'' t \<or> kw_match ''with'' t))"

text \<open>\<^verbatim>\<open>primary\<close>: a word is a keyword, a call, a qualified name or a column.\<close>

definition word_primary :: "qexpr parser \<Rightarrow> select_stmt parser \<Rightarrow> string \<Rightarrow> qexpr parser" where
  "word_primary ex se w =
    (if eq_ignore_ascii_case w ''null'' then bnd bump (\<lambda>_. ret ENull)
     else if eq_ignore_ascii_case w ''true'' then bnd bump (\<lambda>_. ret (EInt 1))
     else if eq_ignore_ascii_case w ''false'' then bnd bump (\<lambda>_. ret (EInt 0))
     else if eq_ignore_ascii_case w ''default'' then bnd bump (\<lambda>_. ret EDefault)
     else if eq_ignore_ascii_case w ''case'' then case_expr ex
     else bnd next_is_lparen (\<lambda>lp.
       if eq_ignore_ascii_case w ''cast'' \<and> lp then cast_call ex
       else if eq_ignore_ascii_case w ''extract'' \<and> lp then extract_call ex
       else if eq_ignore_ascii_case w ''exists'' \<and> lp then exists_expr se
       else bnd bump (\<lambda>_. bnd peek (\<lambda>t.
         if t = TLParen then func_call ex w
         else bnd (skip TDot) (\<lambda>dot. if dot then
             bnd ident (\<lambda>col. bnd peek (\<lambda>t.
               if t = TLParen then func_call ex (w @ ''.'' @ col)
               else if eq_ignore_ascii_case w ''excluded'' then ret (EExcluded col)
               else ret (EQualified w col)))
           else ret (EColumn w))))))"

definition primary :: "qexpr parser \<Rightarrow> select_stmt parser \<Rightarrow> qexpr parser" where
  "primary ex se = bnd peek (\<lambda>t. case t of
     TInt n \<Rightarrow> bnd bump (\<lambda>_. ret (EInt n))
   | TReal r \<Rightarrow> bnd bump (\<lambda>_. ret (EReal r))
   | TStr s \<Rightarrow> bnd bump (\<lambda>_. ret (EStr s))
   | TParam \<Rightarrow> bnd bump (\<lambda>tok. bnd (param_index tok) (\<lambda>i. ret (EParam i)))
   | TNumParam n \<Rightarrow> bnd bump (\<lambda>tok. bnd (param_index tok) (\<lambda>i. ret (EParam i)))
   | TNamedParam n \<Rightarrow> bnd bump (\<lambda>tok. bnd (param_index tok) (\<lambda>i. ret (EParam i)))
   | TLParen \<Rightarrow> bnd bump (\<lambda>_. bnd subquery_next (\<lambda>q. if q
       then bnd se (\<lambda>sel. bnd (expect TRParen) (\<lambda>_. ret (EScalarSubquery sel)))
       else bnd ex (\<lambda>e. bnd (expect TRParen) (\<lambda>_. ret e))))
   | TLBracket \<Rightarrow> vector_literal
   | TWord w \<Rightarrow> word_primary ex se w
   | _ \<Rightarrow> sql_err)"

definition cast_expr :: "qexpr parser \<Rightarrow> select_stmt parser \<Rightarrow> qexpr parser" where
  "cast_expr ex se = bnd (primary ex se) (loop (\<lambda>e. bnd (skip TDColon) (\<lambda>c. if c then bnd parse_cast_type (\<lambda>target. ret (Some (ECast e target))) else ret None)))"

text \<open>\<^verbatim>\<open>unary_expr\<close> and \<^verbatim>\<open>not_expr\<close> call themselves once per sign; the signs are collected first and applied from the
  inside out.\<close>

definition unary_expr :: "qexpr parser \<Rightarrow> select_stmt parser \<Rightarrow> qexpr parser" where
  "unary_expr ex se = bnd (loop (\<lambda>negs. bnd (skip TMinus) (\<lambda>m. if m then ret (Some (Suc negs)) else bnd (skip TPlus) (\<lambda>p. ret (if p then Some negs else None)))) 0)
     (\<lambda>negs. bnd (cast_expr ex se) (\<lambda>e. ret ((EUnary UNeg ^^ negs) e)))"

definition binary_of :: "bin_op \<Rightarrow> (qexpr \<Rightarrow> qexpr \<Rightarrow> qexpr) option" where
  "binary_of op = Some (EBinary op)"

definition mul_ops :: "tok \<Rightarrow> (qexpr \<Rightarrow> qexpr \<Rightarrow> qexpr) option" where
  "mul_ops t = (case t of TStar \<Rightarrow> binary_of BMul | TSlash \<Rightarrow> binary_of BDiv | TPercent \<Rightarrow> binary_of BMod | _ \<Rightarrow> None)"

definition mul_expr :: "qexpr parser \<Rightarrow> select_stmt parser \<Rightarrow> qexpr parser" where
  "mul_expr ex se = infix_chain mul_ops (unary_expr ex se)"

definition add_ops :: "tok \<Rightarrow> (qexpr \<Rightarrow> qexpr \<Rightarrow> qexpr) option" where
  "add_ops t = (case t of TPlus \<Rightarrow> binary_of BAdd | TMinus \<Rightarrow> binary_of BSub | _ \<Rightarrow> None)"

definition add_expr :: "qexpr parser \<Rightarrow> select_stmt parser \<Rightarrow> qexpr parser" where
  "add_expr ex se = infix_chain add_ops (mul_expr ex se)"

definition concat_ops :: "tok \<Rightarrow> (qexpr \<Rightarrow> qexpr \<Rightarrow> qexpr) option" where
  "concat_ops t = (case t of TConcat \<Rightarrow> binary_of BConcat | TArrow \<Rightarrow> Some (\<lambda>l r. EFunc ''json_get'' [l, r])
     | TArrowText \<Rightarrow> Some (\<lambda>l r. EFunc ''json_get_text'' [l, r]) | _ \<Rightarrow> None)"

definition concat_expr :: "qexpr parser \<Rightarrow> select_stmt parser \<Rightarrow> qexpr parser" where
  "concat_expr ex se = infix_chain concat_ops (add_expr ex se)"

definition vecdist_ops :: "tok \<Rightarrow> (qexpr \<Rightarrow> qexpr \<Rightarrow> qexpr) option" where
  "vecdist_ops t = (case t of TVecL2 \<Rightarrow> binary_of BVecL2 | TVecCosine \<Rightarrow> binary_of BVecCosine | TVecIp \<Rightarrow> binary_of BVecIp | _ \<Rightarrow> None)"

definition vecdist_expr :: "qexpr parser \<Rightarrow> select_stmt parser \<Rightarrow> qexpr parser" where
  "vecdist_expr ex se = infix_chain vecdist_ops (concat_expr ex se)"

definition cmp_op :: "tok \<Rightarrow> bin_op option" where
  "cmp_op t = (case t of TEq \<Rightarrow> Some BEq | TNe \<Rightarrow> Some BNe | TLt \<Rightarrow> Some BLt | TLe \<Rightarrow> Some BLe | TGt \<Rightarrow> Some BGt | TGe \<Rightarrow> Some BGe | _ \<Rightarrow> None)"

definition like_tail :: "qexpr parser \<Rightarrow> select_stmt parser \<Rightarrow> qexpr \<Rightarrow> bool \<Rightarrow> qexpr parser" where
  "like_tail ex se left negated = bnd (is_kw ''ilike'') (\<lambda>insensitive. bnd bump (\<lambda>_. bnd (vecdist_expr ex se) (\<lambda>pattern.
     bnd (opt_after ''escape'' (vecdist_expr ex se)) (\<lambda>escape. ret (ELike left pattern escape negated insensitive)))))"

definition in_tail :: "qexpr parser \<Rightarrow> select_stmt parser \<Rightarrow> qexpr \<Rightarrow> bool \<Rightarrow> qexpr parser" where
  "in_tail ex se left negated = bnd (expect TLParen) (\<lambda>_. bnd subquery_next (\<lambda>q. if q
     then bnd se (\<lambda>query. bnd (expect TRParen) (\<lambda>_. ret (EInSubquery left query negated)))
     else bnd (expr_list ex) (\<lambda>items. bnd (expect TRParen) (\<lambda>_. ret (EInList left items negated)))))"

definition between_tail :: "qexpr parser \<Rightarrow> select_stmt parser \<Rightarrow> qexpr \<Rightarrow> bool \<Rightarrow> qexpr parser" where
  "between_tail ex se left negated = bnd (vecdist_expr ex se) (\<lambda>lo. bnd (expect_kw ''and'') (\<lambda>_. bnd (vecdist_expr ex se) (\<lambda>hi. ret (EBetween left lo hi negated))))"

definition next_starts_neg_predicate :: "bool parser" where
  "next_starts_neg_predicate = bnd (peek_ahead 1) (\<lambda>t. ret (case t of
     Some t \<Rightarrow> kw_match ''like'' t \<or> kw_match ''ilike'' t \<or> kw_match ''in'' t \<or> kw_match ''between'' t | None \<Rightarrow> False))"

definition cmp_tail :: "qexpr parser \<Rightarrow> select_stmt parser \<Rightarrow> qexpr \<Rightarrow> bool \<Rightarrow> qexpr parser" where
  "cmp_tail ex se left negated = bnd peek (\<lambda>t.
     if kw_match ''like'' t \<or> kw_match ''ilike'' t then like_tail ex se left negated
     else if kw_match ''in'' t then bnd bump (\<lambda>_. in_tail ex se left negated)
     else if kw_match ''between'' t then bnd bump (\<lambda>_. between_tail ex se left negated)
     else case cmp_op t of
       Some op \<Rightarrow> bnd bump (\<lambda>_. bnd (vecdist_expr ex se) (\<lambda>right. ret (EBinary op left right)))
     | None \<Rightarrow> ret left)"

definition cmp_expr :: "qexpr parser \<Rightarrow> select_stmt parser \<Rightarrow> qexpr parser" where
  "cmp_expr ex se = bnd (vecdist_expr ex se) (\<lambda>left. bnd (eat_kw ''is'') (\<lambda>is. if is
     then bnd (eat_kw ''not'') (\<lambda>negated. bnd (expect_kw ''null'') (\<lambda>_. ret (EIsNull left negated)))
     else bnd (is_kw ''not'') (\<lambda>n. bnd next_starts_neg_predicate (\<lambda>p.
       if n \<and> p then bnd bump (\<lambda>_. cmp_tail ex se left True) else cmp_tail ex se left False))))"

definition not_expr :: "qexpr parser \<Rightarrow> select_stmt parser \<Rightarrow> qexpr parser" where
  "not_expr ex se = bnd (loop (\<lambda>nots. bnd (eat_kw ''not'') (\<lambda>n. ret (if n then Some (Suc nots) else None))) 0)
     (\<lambda>nots. bnd (cmp_expr ex se) (\<lambda>e. ret ((EUnary UNot ^^ nots) e)))"

definition and_ops :: "tok \<Rightarrow> (qexpr \<Rightarrow> qexpr \<Rightarrow> qexpr) option" where
  "and_ops t = (if kw_match ''and'' t then binary_of BAnd else None)"

definition and_expr :: "qexpr parser \<Rightarrow> select_stmt parser \<Rightarrow> qexpr parser" where
  "and_expr ex se = infix_chain and_ops (not_expr ex se)"

definition or_ops :: "tok \<Rightarrow> (qexpr \<Rightarrow> qexpr \<Rightarrow> qexpr) option" where
  "or_ops t = (if kw_match ''or'' t then binary_of BOr else None)"

definition or_expr :: "qexpr parser \<Rightarrow> select_stmt parser \<Rightarrow> qexpr parser" where
  "or_expr ex se = infix_chain or_ops (and_expr ex se)"

section \<open>Queries\<close>

definition is_clause_kw :: "string \<Rightarrow> bool" where
  "is_clause_kw w = list_ex (eq_ignore_ascii_case w)
     [''from'', ''where'', ''order'', ''limit'', ''offset'', ''group'', ''having'', ''as'', ''and'', ''or'', ''is'', ''like'', ''ilike'',
      ''asc'', ''desc'', ''nulls'', ''returning'', ''on'', ''between'', ''union'', ''intersect'', ''except'']"

definition is_from_boundary_kw :: "string \<Rightarrow> bool" where
  "is_from_boundary_kw w = list_ex (eq_ignore_ascii_case w)
     [''join'', ''inner'', ''left'', ''right'', ''full'', ''cross'', ''on'', ''using'', ''where'', ''group'', ''order'', ''limit'',
      ''offset'', ''having'', ''union'', ''intersect'', ''except'', ''as'']"

definition alias_unless :: "(string \<Rightarrow> bool) \<Rightarrow> string option parser" where
  "alias_unless stop = bnd (eat_kw ''as'') (\<lambda>a. if a then bnd ident (\<lambda>n. ret (Some n))
     else bnd peek_word (\<lambda>w. case w of
       Some w \<Rightarrow> if \<not> stop w then bnd ident (\<lambda>n. ret (Some n)) else ret None
     | None \<Rightarrow> ret None))"

definition opt_alias :: "string option parser" where
  "opt_alias = alias_unless is_clause_kw"

definition parse_from_alias :: "string option parser" where
  "parse_from_alias = alias_unless is_from_boundary_kw"

definition select_item :: "qexpr parser \<Rightarrow> qitem parser" where
  "select_item ex = bnd peek (\<lambda>t. if t = TStar then bnd bump (\<lambda>_. ret (SStar None))
     else bnd (peek_ahead 1) (\<lambda>t1. bnd (peek_ahead 2) (\<lambda>t2.
       if word_of t \<noteq> None \<and> t1 = Some TDot \<and> t2 = Some TStar then bnd bump (\<lambda>_. bnd bump (\<lambda>_. bnd bump (\<lambda>_. ret (SStar (word_of t)))))
       else bnd ex (\<lambda>e. bnd opt_alias (\<lambda>alias. ret (SExpr e alias))))))"

definition opt_returning :: "qexpr parser \<Rightarrow> qitem list option parser" where
  "opt_returning ex = opt_after ''returning'' (comma_list (select_item ex))"

definition outer_join :: "join_kind \<Rightarrow> join_kind option parser" where
  "outer_join kind = bnd bump (\<lambda>_. bnd (eat_kw ''outer'') (\<lambda>_. bnd (expect_kw ''join'') (\<lambda>_. ret (Some kind))))"

definition parse_join_kind :: "join_kind option parser" where
  "parse_join_kind = bnd (eat_kw ''join'') (\<lambda>j. bnd (is_kw ''inner'') (\<lambda>i. bnd (next_is_kw ''join'') (\<lambda>nj.
     if j \<or> i \<and> nj then bnd (eat_both ''inner'' ''join'') (\<lambda>_. ret (Some JInner))
     else bnd (eat_kw ''cross'') (\<lambda>c. if c then bnd (expect_kw ''join'') (\<lambda>_. ret (Some JCross))
     else bnd peek (\<lambda>t. if kw_match ''left'' t then outer_join JLeft else if kw_match ''right'' t then outer_join JRight
       else if kw_match ''full'' t then outer_join JFull else ret None)))))"

definition parse_join_condition :: "qexpr parser \<Rightarrow> (qexpr option \<times> string list) parser" where
  "parse_join_condition ex = bnd (eat_kw ''on'') (\<lambda>x. if x then bnd ex (\<lambda>e. ret (Some e, []))
     else bnd (eat_kw ''using'') (\<lambda>u. if u then bnd paren_ident_list (\<lambda>cs. ret (None, cs)) else sql_err))"

definition parse_from_item :: "select_stmt parser \<Rightarrow> qfrom parser \<Rightarrow> qfrom parser" where
  "parse_from_item se fr = bnd (skip TLParen) (\<lambda>p. if p then bnd subquery_next (\<lambda>q. if q
       then bnd se (\<lambda>query. bnd (expect TRParen) (\<lambda>_. bnd parse_from_alias (\<lambda>alias. case alias of Some a \<Rightarrow> ret (FDerived query a) | None \<Rightarrow> sql_err)))
       else bnd fr (\<lambda>inner. bnd (expect TRParen) (\<lambda>_. ret inner)))
     else bnd ident (\<lambda>name. bnd parse_from_alias (\<lambda>alias. ret (FTable name alias))))"

definition parse_from :: "qexpr parser \<Rightarrow> select_stmt parser \<Rightarrow> qfrom parser \<Rightarrow> qfrom parser" where
  "parse_from ex se fr = bnd (parse_from_item se fr) (loop (\<lambda>left. bnd parse_join_kind (\<lambda>k. case k of
     Some kind \<Rightarrow> bnd (parse_from_item se fr) (\<lambda>right. bnd (if kind = JCross then ret (None, []) else parse_join_condition ex)
       (\<lambda>(on, using). ret (Some (FJoin left right kind on using))))
   | None \<Rightarrow> bnd (skip TComma) (\<lambda>c. if c then bnd (parse_from_item se fr) (\<lambda>right. ret (Some (FJoin left right JCross None []))) else ret None))))"

definition parse_group_by :: "qexpr parser \<Rightarrow> qexpr list parser" where
  "parse_group_by ex = bnd (eat_kw ''group'') (\<lambda>g. if g then bnd (expect_kw ''by'') (\<lambda>_. comma_list ex) else ret [])"

definition order_key :: "qexpr parser \<Rightarrow> select_stmt order_key parser" where
  "order_key ex = bnd ex (\<lambda>e. bnd (eat_kw ''desc'') (\<lambda>desc. bnd (if desc then ret False else eat_kw ''asc'') (\<lambda>_.
     bnd (eat_kw ''nulls'') (\<lambda>n. if n then bnd (eat_kw ''first'') (\<lambda>f. if f then ret (OrderKey e (\<not> desc) True)
         else bnd (expect_kw ''last'') (\<lambda>_. ret (OrderKey e (\<not> desc) False)))
       else ret (OrderKey e (\<not> desc) (\<not> desc))))))"

definition parse_order_by :: "qexpr parser \<Rightarrow> select_stmt order_key list parser" where
  "parse_order_by ex = bnd (eat_kw ''order'') (\<lambda>g. if g then bnd (expect_kw ''by'') (\<lambda>_. comma_list (order_key ex)) else ret [])"

definition limit_value :: "qexpr parser" where
  "limit_value = bnd peek (\<lambda>t. if (case t of TParam \<Rightarrow> True | TNumParam n \<Rightarrow> True | TNamedParam n \<Rightarrow> True | _ \<Rightarrow> False)
     then bnd bump (\<lambda>tok. bnd (param_index tok) (\<lambda>i. ret (EParam i)))
     else bnd (skip TMinus) (\<lambda>neg. bnd bump (\<lambda>t. case t of TInt n \<Rightarrow> ret (EInt (if neg then - n else n)) | _ \<Rightarrow> sql_err)))"

definition parse_limit_offset :: "(qexpr option \<times> qexpr option) parser" where
  "parse_limit_offset = loop (\<lambda>(limit, offset). bnd peek (\<lambda>t.
     if limit = None \<and> kw_match ''limit'' t then bnd bump (\<lambda>_. bnd (eat_kw ''all'') (\<lambda>all. if all then ret (Some (limit, offset))
       else bnd limit_value (\<lambda>v. ret (Some (Some v, offset)))))
     else if offset = None \<and> kw_match ''offset'' t then bnd bump (\<lambda>_. bnd limit_value (\<lambda>v. bnd (eat_either ''row'' ''rows'') (\<lambda>_. ret (Some (limit, Some v)))))
     else ret None)) (None, None)"

definition select_core :: "qexpr parser \<Rightarrow> qfrom parser \<Rightarrow> select_stmt parser" where
  "select_core ex fr = bnd (expect_kw ''select'') (\<lambda>_. bnd (eat_kw ''all'') (\<lambda>_. bnd (eat_kw ''distinct'') (\<lambda>dist.
     bnd (comma_list (select_item ex)) (\<lambda>items. bnd (opt_after ''from'' fr) (\<lambda>frm. bnd (opt_after ''where'' ex) (\<lambda>fil.
     bnd (parse_group_by ex) (\<lambda>grp. bnd (opt_after ''having'' ex) (\<lambda>hav.
     ret (SelectStmt [] dist items frm fil grp hav [] [] None None)))))))))"

definition parse_with :: "select_stmt parser \<Rightarrow> (string \<times> select_stmt) list parser" where
  "parse_with se = bnd (eat_kw ''with'') (\<lambda>w. if \<not> w then ret [] else bnd (eat_kw ''recursive'') (\<lambda>_.
     comma_list (bnd ident (\<lambda>name. bnd peek (\<lambda>t. bnd (if t = TLParen then paren_ident_list else ret []) (\<lambda>_. bnd (expect_kw ''as'') (\<lambda>_.
       bnd (expect TLParen) (\<lambda>_. bnd se (\<lambda>query. bnd (expect TRParen) (\<lambda>_. ret (name, query)))))))))))"

definition set_op_next :: "set_op option parser" where
  "set_op_next = bnd (eat_kw ''union'') (\<lambda>u. if u then ret (Some SoUnion) else bnd (eat_kw ''intersect'') (\<lambda>i. if i then ret (Some SoIntersect)
     else bnd (eat_kw ''except'') (\<lambda>e. ret (if e then Some SoExcept else None))))"

definition set_ops :: "qexpr parser \<Rightarrow> select_stmt parser \<Rightarrow> qfrom parser \<Rightarrow> (set_op \<times> bool \<times> select_stmt) list parser" where
  "set_ops ex se fr = loop (\<lambda>ops. bnd set_op_next (\<lambda>op. case op of None \<Rightarrow> ret None | Some op \<Rightarrow>
     bnd (eat_kw ''all'') (\<lambda>all. bnd (eat_kw ''distinct'') (\<lambda>_. bnd peek (\<lambda>t.
     bnd (if t = TLParen then bnd (expect TLParen) (\<lambda>_. bnd se (\<lambda>q. bnd (expect TRParen) (\<lambda>_. ret q))) else select_core ex fr) (\<lambda>part.
     ret (Some (ops @ [(op, all, part)])))))))) []"

definition select_body :: "qexpr parser \<Rightarrow> select_stmt parser \<Rightarrow> qfrom parser \<Rightarrow> select_stmt parser" where
  "select_body ex se fr = bnd (parse_with se) (\<lambda>ctes. bnd (select_core ex fr) (\<lambda>q. bnd (set_ops ex se fr) (\<lambda>ops.
     bnd (parse_order_by ex) (\<lambda>order. bnd parse_limit_offset (\<lambda>(limit, offset).
     ret (SelectStmt ctes (sel_distinct q) (sel_items q) (sel_from q) (sel_filter q) (sel_group_by q) (sel_having q) ops order limit offset))))))"

text \<open>The recursion, over the depth of calls.\<close>

fun p_expr :: "nat \<Rightarrow> qexpr parser" and p_select :: "nat \<Rightarrow> select_stmt parser" and p_from :: "nat \<Rightarrow> qfrom parser" where
  "p_expr 0 s = Inl Overflow"
| "p_expr (Suc n) s = or_expr (p_expr n) (p_select n) s"
| "p_select 0 s = Inl Overflow"
| "p_select (Suc n) s = select_body (p_expr n) (p_select n) (p_from n) s"
| "p_from 0 s = Inl Overflow"
| "p_from (Suc n) s = parse_from (p_expr n) (p_select n) (p_from n) s"

definition parse_expr :: "scalar_ops \<Rightarrow> string \<Rightarrow> qexpr xres" where
  "parse_expr so sql = (case lex so sql of Inl e \<Rightarrow> Inl (Raised e) | Inr toks \<Rightarrow>
     (case p_expr (length toks) (parser_new toks) of
        Inl f \<Rightarrow> Inl f
      | Inr (e, s) \<Rightarrow> if hd (ps_toks s) \<noteq> TEof then Inl (Raised ErrSql) else Inr e))"

end
