(* ===== verification/Sql_Statements.thy ===== *)
theory Sql_Statements
  imports Sql_Parser
begin

text \<open>
  The statement parsers of \<^verbatim>\<open>crates/engine/src/sql.rs\<close>: writes, schema statements with the capture of their
  expressions as text, session, utility and transaction statements, and \<^verbatim>\<open>parse\<close>.  \<open>disp\<close> prints a
  \<^verbatim>\<open>f64\<close> in the captured text.
\<close>

section \<open>Writes\<close>

definition assignment_list :: "qexpr parser \<Rightarrow> (string \<times> qexpr) list parser" where
  "assignment_list ex = comma_list (bnd ident (\<lambda>col. bnd (expect TEq) (\<lambda>_. bnd ex (\<lambda>v. ret (col, v)))))"

definition insert_source :: "qexpr parser \<Rightarrow> select_stmt parser \<Rightarrow> select_stmt insert_source parser" where
  "insert_source ex se = bnd subquery_next (\<lambda>q. if q then bnd se (\<lambda>s. ret (InsSelect s))
     else bnd (eat_kw ''default'') (\<lambda>d. if d then bnd (expect_kw ''values'') (\<lambda>_. ret (InsValues [[]]))
     else bnd (expect_kw ''values'') (\<lambda>_. bnd (comma_list (bnd (expect TLParen) (\<lambda>_. bnd (expr_list ex) (\<lambda>row. bnd (expect TRParen) (\<lambda>_. ret row)))))
       (\<lambda>rows. ret (InsValues rows)))))"

definition on_conflict_action :: "qexpr parser \<Rightarrow> select_stmt on_conflict parser" where
  "on_conflict_action ex = bnd peek (\<lambda>t. bnd (if t = TLParen then bnd paren_ident_list (\<lambda>_. ret ())
       else bnd (eat_kw ''on'') (\<lambda>x. if x then bnd (expect_kw ''constraint'') (\<lambda>_. bnd ident (\<lambda>_. ret ())) else ret ())) (\<lambda>_.
     bnd (expect_kw ''do'') (\<lambda>_. bnd (eat_kw ''nothing'') (\<lambda>n. if n then ret OcNothing
     else bnd (expect_kw ''update'') (\<lambda>_. bnd (expect_kw ''set'') (\<lambda>_. bnd (assignment_list ex) (\<lambda>sets. bnd (opt_after ''where'' ex) (\<lambda>fil.
       ret (OcUpdate sets fil)))))))))"

definition or_resolution :: "select_stmt on_conflict parser" where
  "or_resolution = bnd (eat_kw ''or'') (\<lambda>x. if \<not> x then ret OcError
     else bnd (eat_kw ''replace'') (\<lambda>r. if r then ret OcReplace
     else bnd (eat_kw ''ignore'') (\<lambda>i. if i then ret OcNothing
     else bnd (eat_either ''abort'' ''fail'') (\<lambda>a. bnd (if a then ret True else eat_kw ''rollback'') (\<lambda>_. ret OcError)))))"

definition insert_stmt :: "qexpr parser \<Rightarrow> select_stmt parser \<Rightarrow> qdml parser" where
  "insert_stmt ex se = bnd (expect_kw ''insert'') (\<lambda>_. bnd or_resolution (\<lambda>oc0. bnd (expect_kw ''into'') (\<lambda>_. bnd ident (\<lambda>table.
     bnd peek (\<lambda>t. bnd (next_is_kw ''select'') (\<lambda>sel.
     bnd (if t = TLParen \<and> \<not> sel then bnd paren_ident_list (\<lambda>cs. ret (Some cs)) else ret None) (\<lambda>columns.
     bnd (insert_source ex se) (\<lambda>source.
     bnd (eat_kw ''on'') (\<lambda>x. bnd (if x then bnd (expect_kw ''conflict'') (\<lambda>_. on_conflict_action ex) else ret oc0) (\<lambda>oc.
     bnd (opt_returning ex) (\<lambda>returning. ret (DInsert table columns source oc returning))))))))))))"

definition update_stmt :: "qexpr parser \<Rightarrow> qfrom parser \<Rightarrow> qdml parser" where
  "update_stmt ex fr = bnd (expect_kw ''update'') (\<lambda>_. bnd ident (\<lambda>table. bnd (expect_kw ''set'') (\<lambda>_. bnd (assignment_list ex) (\<lambda>sets.
     bnd (opt_after ''from'' fr) (\<lambda>frm. bnd (opt_after ''where'' ex) (\<lambda>fil. bnd (opt_returning ex) (\<lambda>returning.
     ret (DUpdate table sets frm fil returning))))))))"

definition delete_stmt :: "qexpr parser \<Rightarrow> qfrom parser \<Rightarrow> qdml parser" where
  "delete_stmt ex fr = bnd (expect_kw ''delete'') (\<lambda>_. bnd (expect_kw ''from'') (\<lambda>_. bnd ident (\<lambda>table.
     bnd (opt_after ''using'' fr) (\<lambda>frm. bnd (opt_after ''where'' ex) (\<lambda>fil. bnd (opt_returning ex) (\<lambda>returning.
     ret (DDelete table frm fil returning)))))))"

section \<open>Captured expressions\<close>

text \<open>The tokens an expression consumed, as text.\<close>

definition capture_expr_sql :: "(u64 \<Rightarrow> string) \<Rightarrow> qexpr parser \<Rightarrow> string parser" where
  "capture_expr_sql disp ex s = res_bind (ex s) (\<lambda>(e, s').
     Inr (render_tokens disp (take (length (ps_toks s) - length (ps_toks s')) (ps_toks s)), s'))"

definition capture_paren_expr_sql :: "(u64 \<Rightarrow> string) \<Rightarrow> qexpr parser \<Rightarrow> string parser" where
  "capture_paren_expr_sql disp ex = bnd (expect TLParen) (\<lambda>_. bnd (capture_expr_sql disp ex) (\<lambda>txt. bnd (expect TRParen) (\<lambda>_. ret txt)))"

section \<open>Schema statements\<close>

definition is_constraint_kw :: "string \<Rightarrow> bool" where
  "is_constraint_kw w = list_ex (eq_ignore_ascii_case w)
     [''primary'', ''not'', ''null'', ''unique'', ''references'', ''default'', ''check'', ''autoincrement'', ''collate'', ''generated'']"

definition is_serial_type :: "string \<Rightarrow> bool" where
  "is_serial_type name = (to_ascii_lowercase name \<in> {''serial'', ''bigserial'', ''smallserial'', ''serial4'', ''serial8'', ''serial2''})"

definition references_target :: "(string \<times> string option) parser" where
  "references_target = bnd ident (\<lambda>table. bnd (skip TLParen) (\<lambda>p. if p then bnd ident (\<lambda>c. bnd (expect TRParen) (\<lambda>_. ret (table, Some c))) else ret (table, None)))"

fun first_int :: "int option \<Rightarrow> tok \<Rightarrow> int option" where
  "first_int None (TInt n) = Some n"
| "first_int fi _ = fi"

definition parse_type_size :: "column_type \<Rightarrow> column_type parser" where
  "parse_type_size ty = bnd (skip TLParen) (\<lambda>p. if \<not> p then ret ty else
     bnd (loop (\<lambda>fi. bnd peek (\<lambda>t. if t = TRParen \<or> t = TEof then ret None else bnd bump (\<lambda>_. ret (Some (first_int fi t))))) None) (\<lambda>fi.
     bnd (expect TRParen) (\<lambda>_. if is_vector ty then
         (let d = (case fi of Some d \<Rightarrow> d | None \<Rightarrow> 0) in if d \<le> 0 then sql_err else ret (CtVector (nat (d mod 2 ^ 32))))
       else ret ty)))"

definition column_constraint :: "(u64 \<Rightarrow> string) \<Rightarrow> qexpr parser \<Rightarrow> column_spec \<Rightarrow> column_spec option parser" where
  "column_constraint disp ex c =
     bnd (eat_kw ''primary'') (\<lambda>x. if x then bnd (expect_kw ''key'') (\<lambda>_. bnd (eat_kw ''autoincrement'') (\<lambda>a.
         ret (Some (c\<lparr>cs_primary_key := True, cs_not_null := True, cs_autoincrement := cs_autoincrement c \<or> a\<rparr>))))
     else bnd (eat_kw ''not'') (\<lambda>x. if x then bnd (expect_kw ''null'') (\<lambda>_. ret (Some (c\<lparr>cs_not_null := True\<rparr>)))
     else bnd (eat_kw ''null'') (\<lambda>x. if x then ret (Some c)
     else bnd (eat_kw ''unique'') (\<lambda>x. if x then ret (Some (c\<lparr>cs_unique := True\<rparr>))
     else bnd (eat_kw ''autoincrement'') (\<lambda>x. if x then ret (Some (c\<lparr>cs_autoincrement := True\<rparr>))
     else bnd (eat_kw ''default'') (\<lambda>x. if x then bnd (capture_expr_sql disp ex) (\<lambda>t. ret (Some (c\<lparr>cs_default_sql := Some t\<rparr>)))
     else bnd (eat_kw ''check'') (\<lambda>x. if x then bnd (capture_paren_expr_sql disp ex) (\<lambda>t. ret (Some (c\<lparr>cs_check_sql := Some t\<rparr>)))
     else bnd (eat_kw ''references'') (\<lambda>x. if x then bnd references_target (\<lambda>r. ret (Some (c\<lparr>cs_references := Some r\<rparr>)))
     else bnd (eat_kw ''collate'') (\<lambda>x. if x then bnd ident (\<lambda>_. ret (Some c))
     else bnd (eat_kw ''generated'') (\<lambda>x. if x then sql_err else ret None))))))))))"

definition column_spec :: "(u64 \<Rightarrow> string) \<Rightarrow> qexpr parser \<Rightarrow> column_spec parser" where
  "column_spec disp ex = bnd ident (\<lambda>name. bnd peek_word (\<lambda>w.
     bnd (case w of Some w \<Rightarrow> if \<not> is_constraint_kw w then
           bnd ident (\<lambda>tyname. if is_serial_type tyname then bnd (parse_type_size CtInteger) (\<lambda>ty. ret (ty, True))
             else bnd (parse_type_size (column_type_from_sql tyname)) (\<lambda>ty. ret (ty, False)))
         else ret (CtText, False)
       | None \<Rightarrow> ret (CtText, False)) (\<lambda>(ty, auto).
     loop (column_constraint disp ex) \<lparr>cs_name = name, cs_ty = ty, cs_primary_key = False, cs_not_null = False, cs_unique = False,
       cs_autoincrement = auto, cs_default_sql = None, cs_check_sql = None, cs_references = None\<rparr>)))"

record table_parts =
  tp_columns :: "column_spec list"
  tp_foreign_keys :: "foreign_key_spec list"
  tp_primary_key :: "string list"
  tp_uniques :: "string list list"
  tp_checks :: "string list"

definition is_table_constraint :: "tok \<Rightarrow> bool" where
  "is_table_constraint t = list_ex (\<lambda>k. kw_match k t) [''constraint'', ''primary'', ''unique'', ''foreign'', ''check'']"

definition table_constraint :: "(u64 \<Rightarrow> string) \<Rightarrow> qexpr parser \<Rightarrow> table_parts \<Rightarrow> table_parts parser" where
  "table_constraint disp ex p = bnd (opt_after ''constraint'' ident) (\<lambda>name.
     bnd (eat_kw ''foreign'') (\<lambda>x. if x then bnd (expect_kw ''key'') (\<lambda>_. bnd paren_ident_list (\<lambda>cols. bnd (expect_kw ''references'') (\<lambda>_.
         bnd ident (\<lambda>ft. bnd peek (\<lambda>t. bnd (if t = TLParen then paren_ident_list else ret []) (\<lambda>fcs.
         ret (p\<lparr>tp_foreign_keys := tp_foreign_keys p @ [\<lparr>fks_name = name, fks_columns = cols, fks_foreign_table = ft, fks_foreign_columns = fcs\<rparr>]\<rparr>)))))))
     else bnd (eat_kw ''primary'') (\<lambda>x. if x then bnd (expect_kw ''key'') (\<lambda>_. bnd paren_ident_list (\<lambda>cols.
         ret (p\<lparr>tp_primary_key := tp_primary_key p @ cols\<rparr>)))
     else bnd (eat_kw ''unique'') (\<lambda>x. if x then bnd paren_ident_list (\<lambda>cols. ret (p\<lparr>tp_uniques := tp_uniques p @ [cols]\<rparr>))
     else bnd (eat_kw ''check'') (\<lambda>x. if x then bnd (capture_paren_expr_sql disp ex) (\<lambda>t. ret (p\<lparr>tp_checks := tp_checks p @ [t]\<rparr>))
     else ret p)))))"

definition add_table_column :: "table_parts \<Rightarrow> column_spec \<Rightarrow> table_parts" where
  "add_table_column p c =
     p\<lparr>tp_foreign_keys := tp_foreign_keys p @ (case cs_references c of
          Some (ft, fc) \<Rightarrow> [\<lparr>fks_name = None, fks_columns = [cs_name c], fks_foreign_table = ft, fks_foreign_columns = (case fc of Some x \<Rightarrow> [x] | None \<Rightarrow> [])\<rparr>]
        | None \<Rightarrow> []),
       tp_checks := tp_checks p @ (case cs_check_sql c of Some t \<Rightarrow> [t] | None \<Rightarrow> []),
       tp_columns := tp_columns p @ [c]\<rparr>"

definition table_item :: "(u64 \<Rightarrow> string) \<Rightarrow> qexpr parser \<Rightarrow> table_parts \<Rightarrow> table_parts parser" where
  "table_item disp ex p = bnd peek (\<lambda>t. if is_table_constraint t then table_constraint disp ex p
     else bnd (column_spec disp ex) (\<lambda>c. ret (add_table_column p c)))"

definition table_items :: "(u64 \<Rightarrow> string) \<Rightarrow> qexpr parser \<Rightarrow> table_parts parser" where
  "table_items disp ex = bnd (table_item disp ex \<lparr>tp_columns = [], tp_foreign_keys = [], tp_primary_key = [], tp_uniques = [], tp_checks = []\<rparr>)
     (loop (\<lambda>p. bnd (skip TComma) (\<lambda>c. if c then bnd (table_item disp ex p) (\<lambda>p'. ret (Some p')) else ret None)))"

definition create_table_stmt :: "(u64 \<Rightarrow> string) \<Rightarrow> qexpr parser \<Rightarrow> select_stmt ddl_stmt parser" where
  "create_table_stmt disp ex = bnd (expect_kw ''create'') (\<lambda>_. bnd (expect_kw ''table'') (\<lambda>_. bnd if_not_exists (\<lambda>ine. bnd ident (\<lambda>name.
     bnd (expect TLParen) (\<lambda>_. bnd (table_items disp ex) (\<lambda>p. bnd (expect TRParen) (\<lambda>_.
     if tp_columns p = [] then sql_err
     else ret (StCreateTable name (tp_columns p) (tp_foreign_keys p) (tp_primary_key p) (tp_uniques p) (tp_checks p) ine))))))))"

definition alter_table_stmt :: "(u64 \<Rightarrow> string) \<Rightarrow> qexpr parser \<Rightarrow> select_stmt ddl_stmt parser" where
  "alter_table_stmt disp ex = bnd (expect_kw ''alter'') (\<lambda>_. bnd (expect_kw ''table'') (\<lambda>_. bnd (eat_both ''if'' ''exists'') (\<lambda>_. bnd ident (\<lambda>table.
     bnd (eat_kw ''add'') (\<lambda>x. if x then bnd (eat_kw ''column'') (\<lambda>_. bnd (column_spec disp ex) (\<lambda>c. ret (StAlterTable table (AddColumn c))))
     else bnd (eat_kw ''drop'') (\<lambda>x. if x then bnd (eat_kw ''column'') (\<lambda>_. bnd (eat_both ''if'' ''exists'') (\<lambda>ie. bnd ident (\<lambda>n. ret (StAlterTable table (DropColumn n ie)))))
     else bnd (eat_kw ''rename'') (\<lambda>x. if x then bnd (eat_kw ''to'') (\<lambda>t. if t then bnd ident (\<lambda>n. ret (StAlterTable table (RenameTable n)))
         else bnd (eat_kw ''column'') (\<lambda>_. bnd ident (\<lambda>from_n. bnd (expect_kw ''to'') (\<lambda>_. bnd ident (\<lambda>to_n. ret (StAlterTable table (RenameColumn from_n to_n)))))))
     else bnd peek (\<lambda>t. if kw_match ''enable'' t \<or> kw_match ''disable'' t then
         bnd (eat_kw ''enable'') (\<lambda>enable. bnd (if enable then ret () else expect_kw ''disable'') (\<lambda>_.
         bnd (expect_kw ''row'') (\<lambda>_. bnd (expect_kw ''level'') (\<lambda>_. bnd (expect_kw ''security'') (\<lambda>_. ret (StAlterTable table (SetRlsTo enable)))))))
     else sql_err))))))))"

text \<open>\<^verbatim>\<open>trim_start_matches\<close> and \<^verbatim>\<open>trim_end_matches\<close> remove every repetition of the pattern.\<close>

function trim_start_matches :: "string \<Rightarrow> string \<Rightarrow> string" where
  "trim_start_matches pat s = (if pat \<noteq> [] \<and> take (length pat) s = pat then trim_start_matches pat (drop (length pat) s) else s)"
  by pat_completeness auto
termination
  by (relation "measure (\<lambda>(pat, s). length s)") (auto, metis diff_less length_greater_0_conv take_Nil)

declare trim_start_matches.simps [simp del]

definition trim_end_matches :: "string \<Rightarrow> string \<Rightarrow> string" where
  "trim_end_matches pat s = rev (trim_start_matches (rev pat) (rev s))"

definition opclass_metric :: "string \<Rightarrow> metric option" where
  "opclass_metric w0 = (let w = to_ascii_lowercase w0 in
     if take 7 w \<noteq> ''vector_'' \<or> take 4 (rev w) \<noteq> rev ''_ops'' then None
     else let n = trim_end_matches ''_ops'' (trim_start_matches ''vector_'' w) in
       if n = ''cosine'' then Some Cosine else if n = ''l2'' then Some L2 else if n = ''ip'' then Some InnerProduct else None)"

definition string_or_ident :: "string parser" where
  "string_or_ident = bnd bump (\<lambda>t. case t of TStr s \<Rightarrow> ret s | TWord w \<Rightarrow> ret w | _ \<Rightarrow> sql_err)"

definition int_value :: "int parser" where
  "int_value = bnd bump (\<lambda>t. case t of TInt n \<Rightarrow> ret n | _ \<Rightarrow> sql_err)"

definition apply_index_option :: "string \<Rightarrow> index_params \<Rightarrow> index_params parser" where
  "apply_index_option k0 p = (if eq_ignore_ascii_case k0 ''metric'' then
       bnd string_or_ident (\<lambda>name. case metric_from_name name of Some m \<Rightarrow> ret (p\<lparr>ip_metric := m\<rparr>) | None \<Rightarrow> sql_err)
     else bnd int_value (\<lambda>n. let k = to_ascii_lowercase k0 in
       if k = ''m'' then ret (p\<lparr>ip_m := nat (max n 2)\<rparr>)
       else if k = ''ef_construction'' then ret (p\<lparr>ip_ef_construction := nat (max n 1)\<rparr>)
       else if k = ''ef_search'' then ret (p\<lparr>ip_ef_search := nat (max n 1)\<rparr>)
       else sql_err))"

definition index_option :: "index_params \<Rightarrow> index_params parser" where
  "index_option p = bnd ident (\<lambda>k. bnd (expect TEq) (\<lambda>_. apply_index_option k p))"

definition parse_index_options :: "index_params \<Rightarrow> index_params parser" where
  "parse_index_options p = bnd (expect TLParen) (\<lambda>_. bnd (index_option p) (\<lambda>p.
     bnd (loop (\<lambda>p. bnd (skip TComma) (\<lambda>c. if c then bnd (index_option p) (\<lambda>p. ret (Some p)) else ret None)) p) (\<lambda>p.
     bnd (expect TRParen) (\<lambda>_. ret p))))"

definition index_opclass :: "index_params parser" where
  "index_opclass = bnd peek_word (\<lambda>w. case Option.bind w opclass_metric of
     Some m \<Rightarrow> bnd bump (\<lambda>_. ret (index_params_default\<lparr>ip_metric := m\<rparr>))
   | None \<Rightarrow> ret index_params_default)"

definition create_index_stmt :: "select_stmt ddl_stmt parser" where
  "create_index_stmt = bnd (expect_kw ''create'') (\<lambda>_. bnd (expect_kw ''index'') (\<lambda>_. bnd if_not_exists (\<lambda>ine. bnd ident (\<lambda>name.
     bnd (expect_kw ''on'') (\<lambda>_. bnd ident (\<lambda>table. bnd (expect_kw ''using'') (\<lambda>_. bnd ident (\<lambda>meth.
     if \<not> eq_ignore_ascii_case meth ''hnsw'' then sql_err else
     bnd (expect TLParen) (\<lambda>_. bnd ident (\<lambda>column. bnd index_opclass (\<lambda>p0. bnd (expect TRParen) (\<lambda>_.
     bnd (eat_kw ''with'') (\<lambda>w. bnd (if w then parse_index_options p0 else ret p0) (\<lambda>p.
     ret (StCreateIndex name table column p ine)))))))))))))))"

definition drop_index_stmt :: "select_stmt ddl_stmt parser" where
  "drop_index_stmt = bnd (expect_kw ''drop'') (\<lambda>_. bnd (expect_kw ''index'') (\<lambda>_. bnd if_exists (\<lambda>ie. bnd ident (\<lambda>name. ret (StDropIndex name ie)))))"

definition drop_table_stmt :: "select_stmt ddl_stmt parser" where
  "drop_table_stmt = bnd (expect_kw ''drop'') (\<lambda>_. bnd (expect_kw ''table'') (\<lambda>_. bnd if_exists (\<lambda>ie. bnd ident (\<lambda>name. ret (StDropTable name ie)))))"

definition drop_view_stmt :: "select_stmt ddl_stmt parser" where
  "drop_view_stmt = bnd (expect_kw ''drop'') (\<lambda>_. bnd (expect_kw ''view'') (\<lambda>_. bnd if_exists (\<lambda>ie. bnd ident (\<lambda>name. ret (StDropView name ie)))))"

definition drop_policy_stmt :: "select_stmt ddl_stmt parser" where
  "drop_policy_stmt = bnd (expect_kw ''drop'') (\<lambda>_. bnd (expect_kw ''policy'') (\<lambda>_. bnd if_exists (\<lambda>ie. bnd ident (\<lambda>name.
     bnd (expect_kw ''on'') (\<lambda>_. bnd ident (\<lambda>table. ret (StDropPolicy name table ie)))))))"

definition create_is_view :: "bool parser" where
  "create_is_view s = (let kw = (\<lambda>i w. i < length (ps_toks s) \<and> kw_match w (ps_toks s ! i));
       i = (if kw 1 ''or'' \<and> kw 2 ''replace'' then 3 else 1);
       i = (if kw i ''temp'' \<or> kw i ''temporary'' then i + 1 else i)
     in Inr (kw i ''view'', s))"

definition view_text :: "string \<Rightarrow> string" where
  "view_text src = trim (trim_end_matches '';'' (trim src))"

definition create_view_stmt :: "string \<Rightarrow> select_stmt parser \<Rightarrow> select_stmt ddl_stmt parser" where
  "create_view_stmt src se = bnd (expect_kw ''create'') (\<lambda>_.
     bnd (eat_kw ''or'') (\<lambda>r. bnd (if r then expect_kw ''replace'' else ret ()) (\<lambda>_.
     bnd (eat_either ''temp'' ''temporary'') (\<lambda>_. bnd (expect_kw ''view'') (\<lambda>_. bnd if_not_exists (\<lambda>ine. bnd ident (\<lambda>name.
     bnd peek (\<lambda>t. bnd (if t = TLParen then paren_ident_list else ret []) (\<lambda>_. bnd (expect_kw ''as'') (\<lambda>_. bnd se (\<lambda>query.
     ret (StCreateView name query (view_text src) r ine))))))))))))"

definition policy_command_word :: "policy_command parser" where
  "policy_command_word = bnd (eat_kw ''all'') (\<lambda>x. if x then ret PcAll else bnd (eat_kw ''select'') (\<lambda>x. if x then ret PcSelect
     else bnd (eat_kw ''insert'') (\<lambda>x. if x then ret PcInsert else bnd (eat_kw ''update'') (\<lambda>x. if x then ret PcUpdate
     else bnd (eat_kw ''delete'') (\<lambda>x. if x then ret PcDelete else sql_err)))))"

definition policy_roles :: "string list parser" where
  "policy_roles = bnd (eat_kw ''to'') (\<lambda>x. if x then bnd (comma_list ident) (\<lambda>rs. ret (filter (\<lambda>r. \<not> eq_ignore_ascii_case r ''public'') rs)) else ret [])"

definition create_policy_stmt :: "(u64 \<Rightarrow> string) \<Rightarrow> qexpr parser \<Rightarrow> select_stmt ddl_stmt parser" where
  "create_policy_stmt disp ex = bnd (expect_kw ''create'') (\<lambda>_. bnd (expect_kw ''policy'') (\<lambda>_. bnd ident (\<lambda>name. bnd (expect_kw ''on'') (\<lambda>_.
     bnd ident (\<lambda>table. bnd (eat_kw ''for'') (\<lambda>f. bnd (if f then policy_command_word else ret PcAll) (\<lambda>cmd. bnd policy_roles (\<lambda>roles.
     bnd (opt_after ''using'' (capture_paren_expr_sql disp ex)) (\<lambda>us.
     bnd (opt_after ''with'' (bnd (expect_kw ''check'') (\<lambda>_. capture_paren_expr_sql disp ex))) (\<lambda>ck.
     ret (StCreatePolicy \<lparr>pd_name = name, pd_table = table, pd_command = cmd, pd_roles = roles, pd_using = us, pd_check = ck\<rparr>)))))))))))"

section \<open>Session, utility and transaction statements\<close>

definition dotted_name :: "string parser" where
  "dotted_name = bnd peek_word (\<lambda>w. bnd (case w of Some w \<Rightarrow> bnd bump (\<lambda>_. ret [w]) | None \<Rightarrow> ret []) (\<lambda>parts0.
     bnd (loop (\<lambda>parts. bnd (skip TDot) (\<lambda>d. if d then bnd peek_word (\<lambda>w. case w of
         Some w \<Rightarrow> bnd bump (\<lambda>_. ret (Some (parts @ [w])))
       | None \<Rightarrow> ret None) else ret None)) parts0) (\<lambda>parts. ret (join_with ''.'' parts))))"

datatype set_val = SetStr string | SetWord string | SetDefault | SetNone

definition truthy_text :: "set_val \<Rightarrow> bool" where
  "truthy_text v = (case v of
     SetStr s \<Rightarrow> to_ascii_lowercase s \<in> {''on'', ''true'', ''1'', ''yes''}
   | SetWord s \<Rightarrow> to_ascii_lowercase s \<in> {''on'', ''true'', ''1'', ''yes''}
   | _ \<Rightarrow> False)"

definition read_set_value :: "set_val parser" where
  "read_set_value = bnd (skip TEq) (\<lambda>e. bnd (if e then ret True else eat_kw ''to'') (\<lambda>_. bnd peek (\<lambda>t. case t of
     TStr s \<Rightarrow> bnd bump (\<lambda>_. ret (SetStr s))
   | TInt n \<Rightarrow> bnd bump (\<lambda>_. ret (SetWord (int_string n)))
   | TWord w \<Rightarrow> bnd bump (\<lambda>_. ret (if eq_ignore_ascii_case w ''default'' then SetDefault else SetWord w))
   | _ \<Rightarrow> ret SetNone)))"

definition parse_usize :: "string \<Rightarrow> nat option" where
  "parse_usize s = (let ds = (case s of c # cs \<Rightarrow> if c = CHR ''+'' then cs else s | [] \<Rightarrow> s) in
     if ds = [] then None else case parse_digits ds 0 of Some n \<Rightarrow> if int n < 2 ^ 64 then Some n else None | None \<Rightarrow> None)"

definition set_stmt :: "qstmt parser" where
  "set_stmt = bnd (expect_kw ''set'') (\<lambda>_. bnd (eat_either ''session'' ''local'') (\<lambda>_. bnd (eat_kw ''role'') (\<lambda>r. if r
     then bnd (eat_either ''none'' ''default'') (\<lambda>n. bnd (if n then ret None else bnd ident (\<lambda>i. ret (Some i))) (\<lambda>role.
       bnd skip_to_end (\<lambda>_. ret (SetSession (SetRole role)))))
     else bnd dotted_name (\<lambda>name0. let name = to_ascii_lowercase name0 in
       bnd (if name = ''twill.jwt.claims'' \<or> name = ''request.jwt.claims'' then
              bnd read_set_value (\<lambda>v. ret (SetSession (SetClaims (case v of SetStr s \<Rightarrow> Some s | SetWord w \<Rightarrow> Some w | _ \<Rightarrow> None))))
            else if name = ''twill.rls.bypass'' then bnd read_set_value (\<lambda>v. ret (SetSession (SetBypass (truthy_text v))))
            else if name = VECTOR_EF_SEARCH_GUC then
              bnd read_set_value (\<lambda>v. ret (SetVectorEf (case v of SetWord w \<Rightarrow> map_option (\<lambda>n. max n 1) (parse_usize w) | _ \<Rightarrow> None)))
            else ret Noop) (\<lambda>stmt. bnd skip_to_end (\<lambda>_. ret stmt))))))"

definition reset_stmt :: "qstmt parser" where
  "reset_stmt = bnd (expect_kw ''reset'') (\<lambda>_. bnd (eat_kw ''role'') (\<lambda>r. if r
     then bnd skip_to_end (\<lambda>_. ret (SetSession (SetRole None)))
     else bnd dotted_name (\<lambda>name0. let name = to_ascii_lowercase name0 in
       bnd skip_to_end (\<lambda>_. ret
         (if name = ''twill.jwt.claims'' \<or> name = ''request.jwt.claims'' then SetSession (SetClaims None)
          else if name = ''twill.rls.bypass'' then SetSession (SetBypass False)
          else if name = VECTOR_EF_SEARCH_GUC then SetVectorEf None
          else Noop)))))"

definition transaction_mode :: "bool parser" where
  "transaction_mode = bnd (skip TComma) (\<lambda>_. bnd (eat_kw ''isolation'') (\<lambda>i. if i then bnd (eat_kw ''level'') (\<lambda>_.
       bnd (eat_kw ''serializable'') (\<lambda>x. if x then ret True
       else bnd (eat_kw ''repeatable'') (\<lambda>x. if x then bnd (eat_kw ''read'') (\<lambda>_. ret True)
       else bnd (eat_kw ''read'') (\<lambda>x. if x then bnd (eat_either ''committed'' ''uncommitted'') (\<lambda>_. ret True) else ret True))))
     else bnd (eat_kw ''read'') (\<lambda>r. if r then bnd (eat_either ''only'' ''write'') (\<lambda>_. ret True)
     else bnd (eat_kw ''not'') (\<lambda>n. if n then bnd (eat_kw ''deferrable'') (\<lambda>_. ret True) else eat_kw ''deferrable''))))"

definition eat_transaction_modes :: "unit parser" where
  "eat_transaction_modes = loop (\<lambda>_. bnd transaction_mode (\<lambda>x. ret (if x then Some () else None))) ()"

definition transaction_stmt :: "qstmt option parser" where
  "transaction_stmt = bnd (eat_kw ''begin'') (\<lambda>b. if b then bnd (eat_either ''transaction'' ''work'') (\<lambda>_. bnd eat_transaction_modes (\<lambda>_. ret (Some Begin)))
     else bnd (eat_kw ''start'') (\<lambda>b. if b then bnd (eat_kw ''transaction'') (\<lambda>_. bnd eat_transaction_modes (\<lambda>_. ret (Some Begin)))
     else bnd (eat_either ''commit'' ''end'') (\<lambda>c. if c then bnd (eat_either ''transaction'' ''work'') (\<lambda>_. ret (Some CommitTxn))
     else bnd (eat_kw ''savepoint'') (\<lambda>c. if c then bnd ident (\<lambda>n. ret (Some (SavepointNamed n)))
     else bnd (eat_kw ''release'') (\<lambda>c. if c then bnd (eat_kw ''savepoint'') (\<lambda>_. bnd ident (\<lambda>n. ret (Some (ReleaseSavepoint n))))
     else bnd (eat_either ''rollback'' ''abort'') (\<lambda>c. if c then bnd (eat_either ''transaction'' ''work'') (\<lambda>_.
         bnd (eat_kw ''to'') (\<lambda>t. if t then bnd (eat_kw ''savepoint'') (\<lambda>_. bnd ident (\<lambda>n. ret (Some (RollbackTo n)))) else ret (Some RollbackTxn)))
     else ret None))))))"

definition show_stmt :: "qstmt parser" where
  "show_stmt = bnd bump (\<lambda>_. bnd (loop (\<lambda>parts. bnd peek_word (\<lambda>w. if w = None then ret None else bnd dotted_name (\<lambda>n. ret (Some (parts @ [n]))))) [])
     (\<lambda>parts. ret (Show (join_with '' '' parts))))"

definition explain_stmt :: "qstmt parser \<Rightarrow> qstmt parser" where
  "explain_stmt st = bnd bump (\<lambda>_. bnd (eat_kw ''analyze'') (\<lambda>_. bnd (eat_kw ''verbose'') (\<lambda>_. bnd peek (\<lambda>t.
     bnd (if t = TLParen then skip_parens else ret ()) (\<lambda>_. bnd st (\<lambda>s. ret (Explain s)))))))"

definition utility_stmt :: "qstmt parser \<Rightarrow> qstmt option parser" where
  "utility_stmt st = bnd peek (\<lambda>t.
     if kw_match ''explain'' t then bnd (explain_stmt st) (\<lambda>s. ret (Some s))
     else if kw_match ''show'' t then bnd show_stmt (\<lambda>s. ret (Some s))
     else if kw_match ''set'' t then bnd set_stmt (\<lambda>s. ret (Some s))
     else if kw_match ''reset'' t then bnd reset_stmt (\<lambda>s. ret (Some s))
     else if kw_match ''pragma'' t \<or> kw_match ''vacuum'' t \<or> kw_match ''analyze'' t \<or> kw_match ''discard'' t then bnd skip_to_end (\<lambda>_. ret (Some Noop))
     else ret None)"

section \<open>Statements\<close>

definition ddl_of :: "select_stmt ddl_stmt parser \<Rightarrow> qstmt parser" where
  "ddl_of p = bnd p (\<lambda>d. ret (Ddl d))"

definition dml_of :: "dml_kind \<Rightarrow> qdml parser \<Rightarrow> qstmt parser" where
  "dml_of k p = bnd p (\<lambda>d. ret (Dml k d))"

definition create_stmt :: "(u64 \<Rightarrow> string) \<Rightarrow> string \<Rightarrow> qexpr parser \<Rightarrow> select_stmt parser \<Rightarrow> select_stmt ddl_stmt parser" where
  "create_stmt disp src ex se = bnd (next_is_kw ''index'') (\<lambda>i. if i then create_index_stmt
     else bnd (next_is_kw ''policy'') (\<lambda>p. if p then create_policy_stmt disp ex
     else bnd create_is_view (\<lambda>v. if v then create_view_stmt src se else create_table_stmt disp ex)))"

definition drop_stmt :: "select_stmt ddl_stmt parser" where
  "drop_stmt = bnd (next_is_kw ''index'') (\<lambda>i. if i then drop_index_stmt else bnd (next_is_kw ''view'') (\<lambda>v. if v then drop_view_stmt
     else bnd (next_is_kw ''policy'') (\<lambda>p. if p then drop_policy_stmt else drop_table_stmt)))"

definition statement_body :: "(u64 \<Rightarrow> string) \<Rightarrow> string \<Rightarrow> qexpr parser \<Rightarrow> select_stmt parser \<Rightarrow> qfrom parser \<Rightarrow> qstmt parser \<Rightarrow> qstmt parser" where
  "statement_body disp src ex se fr st = bnd peek (\<lambda>t.
     if kw_match ''create'' t then ddl_of (create_stmt disp src ex se)
     else if kw_match ''drop'' t then ddl_of drop_stmt
     else if kw_match ''alter'' t then ddl_of (alter_table_stmt disp ex)
     else if kw_match ''insert'' t then dml_of KInsert (insert_stmt ex se)
     else if kw_match ''select'' t \<or> kw_match ''with'' t then bnd se (\<lambda>q. ret (Select q))
     else if kw_match ''update'' t then dml_of KUpdate (update_stmt ex fr)
     else if kw_match ''delete'' t then dml_of KDelete (delete_stmt ex fr)
     else bnd (utility_stmt st) (\<lambda>u. case u of Some s \<Rightarrow> ret s | None \<Rightarrow>
       bnd transaction_stmt (\<lambda>x. case x of Some s \<Rightarrow> ret s | None \<Rightarrow> sql_err)))"

fun p_statement :: "(u64 \<Rightarrow> string) \<Rightarrow> string \<Rightarrow> nat \<Rightarrow> qstmt parser" where
  "p_statement disp src 0 s = Inl Overflow"
| "p_statement disp src (Suc n) s = statement_body disp src (p_expr n) (p_select n) (p_from n) (p_statement disp src n) s"

definition parse_sql :: "scalar_ops \<Rightarrow> (u64 \<Rightarrow> string) \<Rightarrow> string \<Rightarrow> (qstmt \<times> nat) xres" where
  "parse_sql so disp sql = (case lex so sql of Inl e \<Rightarrow> Inl (Raised e) | Inr toks \<Rightarrow>
     (case bnd (p_statement disp sql (Suc (length toks))) (\<lambda>stmt. bnd (skip TSemi) (\<lambda>_. bnd peek (\<lambda>t. if t \<noteq> TEof then sql_err else ret stmt))) (parser_new toks) of
        Inl f \<Rightarrow> Inl f
      | Inr (stmt, s) \<Rightarrow> Inr (stmt, ps_max_param s)))"

end
