(* ===== verification/Parser_Total.thy ===== *)
theory Parser_Total
  imports Sql_Statements
begin

text \<open>
  The parser returns on every text: a statement or an SQL error.  \<open>okp n h b p\<close> says that \<open>p\<close>, started on a
  cursor of at most \<open>n\<close> tokens that ends with \<open>TEof\<close> and whose first token satisfies \<open>h\<close>, returns a
  value or \<open>ErrSql\<close>, never moves backwards, and consumes a token whenever the value satisfies \<open>b\<close>.  One rule per
  combinator and per token operation; the locale \<open>parsers\<close> states what the recursive calls promise.
\<close>

section \<open>Progress of a parser\<close>

definition wf_cursor :: "pstate \<Rightarrow> bool" where
  "wf_cursor s \<longleftrightarrow> ps_toks s \<noteq> [] \<and> last (ps_toks s) = TEof"

definition moved :: "(bool) \<Rightarrow> pstate \<Rightarrow> pstate \<Rightarrow> bool" where
  "moved strict s s' \<longleftrightarrow> wf_cursor s' \<and> length (ps_toks s') \<le> length (ps_toks s) \<and> (strict \<longrightarrow> length (ps_toks s') < length (ps_toks s))"

definition progress :: "('a \<Rightarrow> bool) \<Rightarrow> pstate \<Rightarrow> ('a \<times> pstate) xres \<Rightarrow> bool" where
  "progress b s r \<longleftrightarrow> (case r of Inl e \<Rightarrow> e = Raised ErrSql | Inr (a, s') \<Rightarrow> moved (b a) s s')"

definition okp :: "nat \<Rightarrow> (tok \<Rightarrow> bool) \<Rightarrow> ('a \<Rightarrow> bool) \<Rightarrow> 'a parser \<Rightarrow> bool" where
  "okp n h b p \<longleftrightarrow> (\<forall>s. wf_cursor s \<longrightarrow> length (ps_toks s) \<le> n \<longrightarrow> h (hd (ps_toks s)) \<longrightarrow> progress b s (p s))"

abbreviation any :: "'a \<Rightarrow> bool" where "any \<equiv> \<lambda>_. True"
abbreviation never :: "'a \<Rightarrow> bool" where "never \<equiv> \<lambda>_. False"

lemma okpI: "(\<And>s. wf_cursor s \<Longrightarrow> length (ps_toks s) \<le> n \<Longrightarrow> h (hd (ps_toks s)) \<Longrightarrow> progress b s (p s)) \<Longrightarrow> okp n h b p"
  by (simp add: okp_def)

lemma okpD: "okp n h b p \<Longrightarrow> wf_cursor s \<Longrightarrow> length (ps_toks s) \<le> n \<Longrightarrow> h (hd (ps_toks s)) \<Longrightarrow> progress b s (p s)"
  by (simp add: okp_def)

lemma okp_weaken: "okp n g c p \<Longrightarrow> m \<le> n \<Longrightarrow> (\<And>t. h t \<Longrightarrow> g t) \<Longrightarrow> (\<And>a. b a \<Longrightarrow> c a) \<Longrightarrow> okp m h b p"
  by (fastforce simp: okp_def progress_def moved_def split: sum.splits)

lemma okp_strict: "okp n any any p \<Longrightarrow> m \<le> n \<Longrightarrow> okp m h b p"
  by (erule okp_weaken) auto

lemma okp_lax: "okp n any never p \<Longrightarrow> m \<le> n \<Longrightarrow> okp m h never p"
  by (erule okp_weaken) auto

lemma okp_less: "okp (n - Suc 0) any never p \<Longrightarrow> okp (n - Suc (Suc 0)) any never p"
  by (erule okp_weaken) auto

lemma okp_head: "okp n any b p \<Longrightarrow> okp n h b p"
  by (erule okp_weaken) auto

lemma moved_refl: "wf_cursor s \<Longrightarrow> moved False s s"
  by (simp add: moved_def)

lemma progress_moved: "progress c s' r \<Longrightarrow> moved k s s' \<Longrightarrow> (\<And>a. b a \<Longrightarrow> k \<or> c a) \<Longrightarrow> progress b s r"
  by (fastforce simp: progress_def moved_def split: sum.splits)

lemma okp_bnd:
  assumes p: "okp n h c p"
    and yes: "\<And>a. c a \<Longrightarrow> okp (n - 1) any never (f a)"
    and no: "\<And>a. \<not> c a \<Longrightarrow> okp n any b (f a)"
  shows "okp n h b (bnd p f)"
proof (rule okpI)
  fix s assume s: "wf_cursor s" "length (ps_toks s) \<le> n" "h (hd (ps_toks s))"
  show "progress b s (bnd p f s)"
  proof (cases "p s")
    case (Inl e)
    then show ?thesis using okpD [OF p s] by (simp add: bnd_def progress_def)
  next
    case (Inr r)
    obtain a s' where r: "r = (a, s')" by (cases r)
    have m: "moved (c a) s s'" using okpD [OF p s] Inr r by (simp add: progress_def)
    have "progress b s (f a s')"
    proof (cases "c a")
      case True
      then have "progress never s' (f a s')" using okpD [OF yes, of a s'] m s(2) by (auto simp: moved_def)
      then show ?thesis using progress_moved [OF _ m] True by blast
    next
      case False
      then have "progress b s' (f a s')" using okpD [OF no, of a s'] m s(2) by (simp add: moved_def)
      then show ?thesis using progress_moved [OF _ m] by blast
    qed
    then show ?thesis using Inr r by (simp add: bnd_def)
  qed
qed

lemma okp_ret: "\<not> b a \<Longrightarrow> okp n h b (ret a)"
  by (simp add: okp_def ret_def progress_def moved_refl)

lemma okp_err: "okp n h b sql_err"
  by (simp add: okp_def sql_err_def progress_def)

lemma okp_if: "(c \<Longrightarrow> okp n h b p) \<Longrightarrow> (\<not> c \<Longrightarrow> okp n h b q) \<Longrightarrow> okp n h b (if c then p else q)"
  by simp

lemma okp_option:
  "(v = None \<Longrightarrow> okp n h b p) \<Longrightarrow> (\<And>x. v = Some x \<Longrightarrow> okp n h b (f x)) \<Longrightarrow> okp n h b (case v of None \<Rightarrow> p | Some x \<Rightarrow> f x)"
  by (cases v) auto

lemma okp_pair: "(\<And>x y. v = (x, y) \<Longrightarrow> okp n h b (f x y)) \<Longrightarrow> okp n h b (case v of (x, y) \<Rightarrow> f x y)"
  by (cases v) auto

lemma okp_let: "okp n h b (f v) \<Longrightarrow> okp n h b (let x = v in f x)"
  by (simp add: Let_def)

text \<open>Sequencing with a parser that always consumes, never must, or consumes when it says so.\<close>

lemma bnd_strict: "okp n any any p \<Longrightarrow> (\<And>a. okp (n - 1) any never (f a)) \<Longrightarrow> okp n h b (bnd p f)"
  by (rule okp_bnd [OF okp_strict]) auto

lemma bnd_lax: "okp n h never p \<Longrightarrow> (\<And>a. okp n any b (f a)) \<Longrightarrow> okp n h b (bnd p f)"
  by (erule okp_bnd) auto

lemma bnd_flag: "okp n h (\<lambda>x. x) p \<Longrightarrow> okp (n - 1) any never (f True) \<Longrightarrow> okp n any b (f False) \<Longrightarrow> okp n h b (bnd p f)"
  by (erule okp_bnd) (metis, metis)

lemma bnd_opt: "okp n h (\<lambda>x. x \<noteq> None) p \<Longrightarrow> (\<And>a. okp (n - 1) any never (f (Some a))) \<Longrightarrow> okp n any b (f None) \<Longrightarrow> okp n h b (bnd p f)"
  by (erule okp_bnd) auto

lemma bnd_bnd: "bnd (bnd p f) g = bnd p (\<lambda>a. bnd (f a) g)"
  by (auto simp: bnd_def fun_eq_iff res_bind_def split: sum.splits)

lemma bnd_ret: "bnd (ret a) f = f a"
  by (simp add: bnd_def ret_def fun_eq_iff)

lemma bnd_if: "okp n h never (if c then p else q) \<Longrightarrow> (\<And>a. okp n any b (f a)) \<Longrightarrow> okp n h b (bnd (if c then p else q) f)"
  by (rule bnd_lax)

section \<open>Tokens\<close>

lemma wf_head: "wf_cursor s \<Longrightarrow> ps_toks s = hd (ps_toks s) # tl (ps_toks s)"
  by (simp add: wf_cursor_def)

lemma bnd_peek:
  assumes "\<And>t. h t \<Longrightarrow> okp n (\<lambda>x. x = t) b (f t)"
  shows "okp n h b (bnd peek f)"
proof (rule okpI)
  fix s assume s: "wf_cursor s" "length (ps_toks s) \<le> n" "h (hd (ps_toks s))"
  have "bnd peek f s = f (hd (ps_toks s)) s" using s(1) by (cases "ps_toks s") (auto simp: bnd_def peek_def wf_cursor_def)
  then show "progress b s (bnd peek f s)" using okpD [OF assms [OF s(3)] s(1,2)] by simp
qed

lemma okp_bump: "okp n h (\<lambda>t. t \<noteq> TEof) bump"
proof (rule okpI)
  fix s assume s: "wf_cursor s"
  show "progress (\<lambda>t. t \<noteq> TEof) s (bump s)"
    using s by (cases "ps_toks s" rule: remdups_adj.cases) (auto simp: bump_def progress_def moved_def wf_cursor_def)
qed

lemma bump_head: "wf_cursor s \<Longrightarrow> \<exists>s'. bump s = Inr (hd (ps_toks s), s')"
  by (cases "ps_toks s" rule: remdups_adj.cases) (auto simp: bump_def wf_cursor_def)

lemma bnd_bump:
  assumes yes: "\<And>t. h t \<Longrightarrow> t \<noteq> TEof \<Longrightarrow> okp (n - 1) any never (f t)"
    and no: "h TEof \<Longrightarrow> okp n any b (f TEof)"
  shows "okp n h b (bnd bump f)"
proof (rule okpI)
  fix s assume s: "wf_cursor s" "length (ps_toks s) \<le> n" "h (hd (ps_toks s))"
  let ?g = "\<lambda>t. if h t then f t else sql_err"
  have "okp n h b (bnd bump ?g)"
    by (rule okp_bnd [OF okp_bump]) (use yes no in \<open>auto intro: okp_err\<close>)
  then have "progress b s (bnd bump ?g s)" using okpD s by blast
  moreover have "bnd bump ?g s = bnd bump f s" using bump_head [OF s(1)] s(3) by (auto simp: bnd_def)
  ultimately show "progress b s (bnd bump f s)" by simp
qed

lemma bnd_peek_ahead: "(\<And>t. okp n h b (f t)) \<Longrightarrow> okp n h b (bnd (peek_ahead k) f)"
  by (simp add: okp_def bnd_def peek_ahead_def)

lemma bnd_create_is_view: "(\<And>v. okp n h b (f v)) \<Longrightarrow> okp n h b (bnd create_is_view f)"
  by (simp add: okp_def bnd_def create_is_view_def Let_def)

lemma okp_param_index: "okp n h never (param_index t)"
  by (auto simp: okp_def param_index_def progress_def moved_def wf_cursor_def split: tok.splits option.splits prod.splits)

lemma okp_loop:
  assumes "\<And>a. okp n any (\<lambda>r. r \<noteq> None) (step a)"
  shows "okp n h never (loop step a)"
proof (rule okpI)
  fix s show "wf_cursor s \<Longrightarrow> length (ps_toks s) \<le> n \<Longrightarrow> progress never s (loop step a s)"
  proof (induction "length (ps_toks s)" arbitrary: a s rule: less_induct)
    case less
    have p: "progress (\<lambda>r. r \<noteq> None) s (step a s)" using okpD [OF assms less.prems] by simp
    show ?case
    proof (cases "step a s")
      case (Inl e)
      then show ?thesis using p by (simp add: loop.simps [of step a s] progress_def)
    next
      case (Inr r)
      obtain v s' where r: "r = (v, s')" by (cases r)
      have m: "moved (v \<noteq> None) s s'" using p Inr r by (simp add: progress_def)
      show ?thesis
      proof (cases v)
        case None
        then show ?thesis using Inr r m by (simp add: loop.simps [of step a s] progress_def)
      next
        case (Some a')
        have "length (ps_toks s') < length (ps_toks s)" "wf_cursor s'" using m Some by (simp_all add: moved_def)
        then have "progress never s' (loop step a' s')" using less.hyps [of s' a'] less.prems(2) by simp
        then show ?thesis using Inr r Some progress_moved [OF _ m] \<open>length (ps_toks s') < length (ps_toks s)\<close>
          by (simp add: loop.simps [of step a s])
      qed
    qed
  qed
qed

lemma bnd_if_distrib: "bnd (if c then p else q) f = (if c then bnd p f else bnd q f)"
  by simp

lemma bnd_option_distrib: "bnd (case v of None \<Rightarrow> p | Some x \<Rightarrow> g x) f = (case v of None \<Rightarrow> bnd p f | Some x \<Rightarrow> bnd (g x) f)"
  by (cases v) auto

lemma bnd_err: "bnd sql_err f = sql_err"
  by (simp add: bnd_def sql_err_def fun_eq_iff res_bind_def)

lemmas bnd_normal = bnd_bnd bnd_ret bnd_if_distrib bnd_option_distrib bnd_err

lemma head_weaken: "okp n h b p \<Longrightarrow> h t \<Longrightarrow> okp n (\<lambda>x. x = t) b p"
  by (erule okp_weaken) auto

lemma kw_not_eof [simp]: "\<not> kw_match kw TEof"
  by (simp add: kw_match_def)

lemma bnd_skip: "t \<noteq> TEof \<Longrightarrow> okp (n - 1) any never (f True) \<Longrightarrow> okp n h b (f False) \<Longrightarrow> okp n h b (bnd (skip t) f)"
  unfolding skip_def bnd_normal by (intro bnd_peek okp_if bnd_bump) (auto intro: head_weaken)

lemma bnd_eat_kw: "okp (n - 1) any never (f True) \<Longrightarrow> okp n h b (f False) \<Longrightarrow> okp n h b (bnd (eat_kw kw) f)"
  unfolding eat_kw_def bnd_normal by (intro bnd_peek okp_if bnd_bump) (auto intro: head_weaken)

lemma bnd_expect: "t \<noteq> TEof \<Longrightarrow> okp (n - 1) any never (f ()) \<Longrightarrow> okp n h b (bnd (expect t) f)"
  unfolding expect_def bnd_normal by (intro bnd_peek okp_if bnd_bump) (auto intro: okp_err)

lemma bnd_expect_kw: "okp (n - 1) any never (f ()) \<Longrightarrow> okp n h b (bnd (expect_kw kw) f)"
  unfolding expect_kw_def bnd_normal by (intro bnd_eat_kw) (auto intro: okp_err)

lemma bnd_ident: "(\<And>w. okp (n - 1) any never (f w)) \<Longrightarrow> okp n h b (bnd ident f)"
  unfolding ident_def bnd_normal by (intro bnd_bump okp_option okp_err) simp_all

lemma bnd_is_kw: "(\<And>x. okp n h b (f x)) \<Longrightarrow> okp n h b (bnd (is_kw kw) f)"
  unfolding is_kw_def bnd_normal by (intro bnd_peek) (auto intro: head_weaken)

lemma bnd_next_is_kw: "(\<And>x. okp n h b (f x)) \<Longrightarrow> okp n h b (bnd (next_is_kw kw) f)"
  unfolding next_is_kw_def bnd_normal by (intro bnd_peek_ahead)

lemma bnd_next_is_lparen: "(\<And>x. okp n h b (f x)) \<Longrightarrow> okp n h b (bnd next_is_lparen f)"
  unfolding next_is_lparen_def bnd_normal by (intro bnd_peek_ahead)

lemma bnd_next_neg: "(\<And>x. okp n h b (f x)) \<Longrightarrow> okp n h b (bnd next_starts_neg_predicate f)"
  unfolding next_starts_neg_predicate_def bnd_normal by (intro bnd_peek_ahead)

lemma bnd_peek_word: "(\<And>w. okp n (\<lambda>x. x = TWord w) b (f (Some w))) \<Longrightarrow> okp n h b (f None) \<Longrightarrow> okp n h b (bnd peek_word f)"
proof -
  assume w: "\<And>w. okp n (\<lambda>x. x = TWord w) b (f (Some w))" and o: "okp n h b (f None)"
  have "okp n (\<lambda>x. x = t) b (f (word_of t))" if "h t" for t
    by (cases t) (use w head_weaken [OF o that] in auto)
  then show ?thesis unfolding peek_word_def bnd_normal by (intro bnd_peek)
qed

lemma bnd_subquery_next: "(\<And>x. okp n h b (f x)) \<Longrightarrow> okp n h b (bnd subquery_next f)"
  unfolding subquery_next_def bnd_normal by (intro bnd_peek) (auto intro: head_weaken)

lemma bnd_param_index: "(\<And>i. okp n any b (f i)) \<Longrightarrow> okp n h b (bnd (param_index t) f)"
  by (rule bnd_lax [OF okp_param_index])

lemma bnd_eat_either: "okp (n - 1) any never (f True) \<Longrightarrow> okp n h b (f False) \<Longrightarrow> okp n h b (bnd (eat_either k l) f)"
  unfolding eat_either_def bnd_normal by (intro bnd_eat_kw) (auto simp: bnd_ret intro: bnd_eat_kw)

lemma bnd_loop: "(\<And>a. okp n any (\<lambda>r. r \<noteq> None) (step a)) \<Longrightarrow> (\<And>a. okp n any b (f a)) \<Longrightarrow> okp n h b (bnd (loop step a) f)"
  by (rule bnd_lax [OF okp_loop])

lemma bnd_seq: "okp n h b (bnd p (\<lambda>a. bnd (f a) g)) \<Longrightarrow> okp n h b (bnd (bnd p f) g)"
  by (simp add: bnd_bnd)

lemma okp_expect: "t \<noteq> TEof \<Longrightarrow> okp n h b (expect t)"
  unfolding expect_def by (intro bnd_peek okp_if bnd_bump okp_err okp_ret) auto

lemma okp_expect_kw: "okp n h b (expect_kw kw)"
  unfolding expect_kw_def by (intro bnd_eat_kw okp_if okp_err okp_ret) auto

lemma okp_ident: "okp n h b ident"
  unfolding ident_def by (intro bnd_bump okp_option okp_err okp_ret) auto

lemma okp_eat_kw: "okp n h (\<lambda>x. x) (eat_kw kw)"
  unfolding eat_kw_def by (intro bnd_peek bnd_bump okp_if okp_ret) auto

lemma okp_eat_kw_lax: "okp n h never (eat_kw kw)"
  unfolding eat_kw_def by (intro bnd_peek bnd_bump okp_if okp_ret) auto

text \<open>The result of an optional keyword or token that is ignored, and optional clauses.\<close>

lemma drop_eat_kw: "okp n any b p \<Longrightarrow> okp n h b (bnd (eat_kw kw) (\<lambda>_. p))"
  by (rule bnd_lax [OF okp_eat_kw_lax])

lemma drop_eat_either: "okp n any b p \<Longrightarrow> okp n h b (bnd (eat_either k l) (\<lambda>_. p))"
  unfolding eat_either_def by (rule bnd_lax) (intro bnd_eat_kw okp_if okp_ret okp_eat_kw_lax, simp_all)

lemma drop_skip: "t \<noteq> TEof \<Longrightarrow> okp n any b p \<Longrightarrow> okp n h b (bnd (skip t) (\<lambda>_. p))"
  unfolding skip_def by (rule bnd_lax) (intro bnd_peek bnd_bump okp_if okp_ret, simp_all)

lemma bnd_eat_both: "(\<And>x. okp n any b (f x)) \<Longrightarrow> okp n h b (bnd (eat_both k l) f)"
  unfolding eat_both_def by (rule bnd_lax) (intro bnd_eat_kw okp_if okp_ret okp_eat_kw_lax, simp_all)

lemma bnd_opt_after:
  assumes p: "okp (n - 1) any never p" and f: "\<And>x. okp n any b (f x)"
  shows "okp n h b (bnd (opt_after kw p) f)"
proof (rule bnd_lax [OF _ f])
  show "okp n h never (opt_after kw p)"
    unfolding opt_after_def by (intro bnd_eat_kw okp_if okp_ret bnd_lax [OF p]) simp_all
qed

lemmas okp_rules = okp_ret okp_err okp_if okp_option okp_pair okp_let okp_expect okp_expect_kw okp_ident okp_eat_kw okp_eat_kw_lax okp_loop
  bnd_seq drop_eat_kw drop_eat_either drop_skip bnd_peek bnd_bump bnd_peek_ahead bnd_create_is_view bnd_skip bnd_eat_kw bnd_expect
  bnd_expect_kw bnd_ident bnd_is_kw bnd_next_is_kw bnd_next_is_lparen bnd_next_neg bnd_peek_word bnd_subquery_next bnd_param_index
  bnd_eat_either bnd_eat_both bnd_opt_after bnd_loop bnd_if

lemma okp_comma_list:
  assumes p: "okp n any any p"
  shows "okp n h b (comma_list p)"
  unfolding comma_list_def
  by (intro okp_rules bnd_strict [OF p] bnd_lax [OF okp_strict [OF p]]) simp_all

lemma okp_paren_ident_list: "okp n h b paren_ident_list"
  unfolding paren_ident_list_def by (intro okp_rules bnd_strict [OF okp_comma_list]) simp_all

lemma okp_infix_chain:
  assumes p: "okp n any any p" and eof: "ops TEof = None"
  shows "okp n h b (infix_chain ops p)"
  unfolding infix_chain_def
  by (intro okp_rules bnd_strict [OF p] bnd_lax [OF okp_strict [OF p]]) (auto simp: eof)

lemma okp_skip_to_end: "okp n h never skip_to_end"
  unfolding skip_to_end_def by (intro okp_rules) auto

lemma okp_skip_parens: "okp n h never skip_parens"
  unfolding skip_parens_def by (intro okp_rules) auto

lemma okp_if_not_exists: "okp n h never if_not_exists"
  unfolding if_not_exists_def by (intro okp_rules) auto

lemma okp_if_exists: "okp n h never if_exists"
  unfolding if_exists_def by (intro okp_rules) auto

section \<open>Pieces without recursion\<close>

lemma okp_eat_type_modifiers: "okp n h never (eat_type_modifiers w)"
  unfolding eat_type_modifiers_def by (intro okp_rules) simp_all

lemma okp_skip_to_rparen: "okp n h never skip_to_rparen"
  unfolding skip_to_rparen_def by (intro okp_rules) simp_all

lemma okp_parse_cast_type: "okp n h b parse_cast_type"
  unfolding parse_cast_type_def
  by (intro okp_rules bnd_lax [OF okp_eat_type_modifiers] bnd_lax [OF okp_skip_to_rparen]) simp_all

lemma okp_number_component: "okp n h b number_component"
  unfolding number_component_def
  by (intro bnd_skip bnd_bump) (simp_all split: tok.split add: okp_ret okp_err)

lemma okp_vector_literal: "okp n h b vector_literal"
  unfolding vector_literal_def by (intro okp_rules okp_comma_list okp_number_component) simp_all

lemma bnd_alias: "(\<And>a. okp n any b (f a)) \<Longrightarrow> okp n h b (bnd (alias_unless stop) f)"
  by (rule bnd_lax) (unfold alias_unless_def, intro okp_rules, simp_all)

lemmas alias_rules = bnd_alias [where stop = is_clause_kw, folded opt_alias_def] bnd_alias [where stop = is_from_boundary_kw, folded parse_from_alias_def]

lemma okp_limit_value: "okp n h b limit_value"
  unfolding limit_value_def
  by (intro bnd_peek okp_if bnd_skip bnd_bump bnd_param_index okp_ret) (simp_all split: tok.split add: okp_ret okp_err)

lemma bnd_parse_limit_offset: "(\<And>a. okp n any b (f a)) \<Longrightarrow> okp n h b (bnd parse_limit_offset f)"
  by (rule bnd_lax) (unfold parse_limit_offset_def, intro okp_rules bnd_strict [OF okp_limit_value], simp_all)

lemma okp_set_op_next: "okp n h (\<lambda>x. x \<noteq> None) set_op_next"
  unfolding set_op_next_def by (intro okp_rules) simp_all

lemma bnd_eat_both_at:
  assumes "kw_match k t"
  shows "okp n (\<lambda>x. x = t) b (bnd (eat_both k l) (\<lambda>_. ret a))"
  unfolding eat_both_def eat_kw_def bnd_normal
  by (intro bnd_peek okp_if bnd_bump okp_ret) (use assms in auto)

lemma okp_parse_join_kind: "okp n h (\<lambda>x. x \<noteq> None) parse_join_kind"
  unfolding parse_join_kind_def is_kw_def outer_join_def bnd_bnd bnd_ret
proof (rule bnd_eat_kw, goal_cases)
  case 1
  show ?case by (intro okp_rules) simp_all
next
  case 2
  show ?case by (intro bnd_eat_both_at okp_rules) simp_all
qed

section \<open>Expressions and queries\<close>

text \<open>What the recursive calls promise: on at most \<open>N\<close> tokens they return and consume a token.\<close>

locale parsers =
  fixes N :: nat and ex :: "qexpr parser" and se :: "select_stmt parser" and fr :: "qfrom parser"
  assumes ex: "okp N any any ex" and se: "okp N any any se" and fr: "okp N any any fr"
begin

lemmas calls = okp_strict [OF ex] okp_strict [OF se] okp_strict [OF fr]
  bnd_strict [OF okp_strict [OF ex]] bnd_strict [OF okp_strict [OF se]] bnd_strict [OF okp_strict [OF fr]]

lemma expr_list_ok: "m \<le> N \<Longrightarrow> okp m h never (expr_list ex)"
  unfolding expr_list_def by (intro okp_rules okp_comma_list calls) simp_all

lemma aggregate_call_ok: "m \<le> Suc N \<Longrightarrow> okp m h b (aggregate_call ex func)"
  unfolding aggregate_call_def by (intro okp_rules calls) simp_all

lemma func_call_ok: "m \<le> Suc N \<Longrightarrow> okp m h b (func_call ex name)"
  unfolding func_call_def by (intro okp_rules aggregate_call_ok okp_comma_list calls) simp_all

lemma cast_call_ok: "m \<le> Suc N \<Longrightarrow> okp m h b (cast_call ex)"
  unfolding cast_call_def by (intro okp_rules calls bnd_strict [OF okp_parse_cast_type]) simp_all

lemma exists_expr_ok: "m \<le> Suc N \<Longrightarrow> okp m h b (exists_expr se)"
  unfolding exists_expr_def by (intro okp_rules calls) simp_all

lemma extract_call_ok: "m \<le> Suc N \<Longrightarrow> okp m h b (extract_call ex)"
  unfolding extract_call_def by (intro okp_rules calls) simp_all

lemma case_expr_ok: "m \<le> Suc N \<Longrightarrow> okp m h b (case_expr ex)"
  unfolding case_expr_def by (intro okp_rules calls) simp_all

lemma word_primary_ok: "m \<le> Suc N \<Longrightarrow> okp m (\<lambda>x. x = TWord w) b (word_primary ex se w)"
  unfolding word_primary_def
  by (intro okp_rules case_expr_ok cast_call_ok extract_call_ok exists_expr_ok func_call_ok) simp_all

lemma primary_ok: "m \<le> Suc N \<Longrightarrow> okp m h b (primary ex se)"
  unfolding primary_def
proof (rule bnd_peek)
  fix t assume m: "m \<le> Suc N"
  show "okp m (\<lambda>x. x = t) b (case t of
     TInt n \<Rightarrow> bnd bump (\<lambda>_. ret (EInt n))
   | TReal r \<Rightarrow> bnd bump (\<lambda>_. ret (EReal r))
   | TStr s \<Rightarrow> bnd bump (\<lambda>_. ret (EStr s))
   | TParam \<Rightarrow> bnd bump (\<lambda>tok. bnd (param_index tok) (\<lambda>i. ret (EParam i)))
   | TNumParam n \<Rightarrow> bnd bump (\<lambda>tok. bnd (param_index tok) (\<lambda>i. ret (EParam i)))
   | TNamedParam n \<Rightarrow> bnd bump (\<lambda>tok. bnd (param_index tok) (\<lambda>i. ret (EParam i)))
   | TLParen \<Rightarrow> bnd bump (\<lambda>_. bnd subquery_next (\<lambda>q. if q
       then bnd se (\<lambda>sel. bnd (expect TRParen) (\<lambda>_. ret (EScalarSubquery sel)))
       else bnd ex (\<lambda>e. bnd (expect TRParen) (\<lambda>_. ret e))))
   | TLBracket \<Rightarrow> vector_literal
   | TWord w \<Rightarrow> word_primary ex se w
   | _ \<Rightarrow> sql_err)"
    by (cases t; simp only: tok.case; intro okp_rules calls word_primary_ok okp_vector_literal; insert m; simp)
qed

lemma cast_expr_ok: "m \<le> Suc N \<Longrightarrow> okp m h b (cast_expr ex se)"
  unfolding cast_expr_def by (intro bnd_strict [OF primary_ok] okp_rules bnd_strict [OF okp_parse_cast_type]) simp_all

lemma unary_expr_ok: "m \<le> Suc N \<Longrightarrow> okp m h b (unary_expr ex se)"
  unfolding unary_expr_def by (intro okp_rules bnd_strict [OF cast_expr_ok]) simp_all

lemma mul_expr_ok: "m \<le> Suc N \<Longrightarrow> okp m h b (mul_expr ex se)"
  unfolding mul_expr_def by (intro okp_infix_chain unary_expr_ok) (simp_all add: mul_ops_def)

lemma add_expr_ok: "m \<le> Suc N \<Longrightarrow> okp m h b (add_expr ex se)"
  unfolding add_expr_def by (intro okp_infix_chain mul_expr_ok) (simp_all add: add_ops_def)

lemma concat_expr_ok: "m \<le> Suc N \<Longrightarrow> okp m h b (concat_expr ex se)"
  unfolding concat_expr_def by (intro okp_infix_chain add_expr_ok) (simp_all add: concat_ops_def)

lemma vecdist_expr_ok: "m \<le> Suc N \<Longrightarrow> okp m h b (vecdist_expr ex se)"
  unfolding vecdist_expr_def by (intro okp_infix_chain concat_expr_ok) (simp_all add: vecdist_ops_def)

lemma cmp_tail_ok: "m \<le> Suc N \<Longrightarrow> okp m h never (cmp_tail ex se left negated)"
  unfolding cmp_tail_def like_tail_def in_tail_def between_tail_def
  by (intro okp_rules calls vecdist_expr_ok bnd_strict [OF vecdist_expr_ok] bnd_lax [OF expr_list_ok]) simp_all

lemma cmp_expr_ok: "m \<le> Suc N \<Longrightarrow> okp m h b (cmp_expr ex se)"
  unfolding cmp_expr_def by (intro okp_rules bnd_strict [OF vecdist_expr_ok] cmp_tail_ok) simp_all

lemma not_expr_ok: "m \<le> Suc N \<Longrightarrow> okp m h b (not_expr ex se)"
  unfolding not_expr_def by (intro okp_rules bnd_strict [OF cmp_expr_ok]) simp_all

lemma and_expr_ok: "m \<le> Suc N \<Longrightarrow> okp m h b (and_expr ex se)"
  unfolding and_expr_def by (intro okp_infix_chain not_expr_ok) (simp_all add: and_ops_def)

lemma or_expr_ok: "m \<le> Suc N \<Longrightarrow> okp m h b (or_expr ex se)"
  unfolding or_expr_def by (intro okp_infix_chain and_expr_ok) (simp_all add: or_ops_def)

lemma select_item_ok: "m \<le> N \<Longrightarrow> okp m h b (select_item ex)"
  unfolding select_item_def by (intro okp_rules calls alias_rules) simp_all

lemma parse_join_condition_ok: "m \<le> Suc N \<Longrightarrow> okp m h b (parse_join_condition ex)"
  unfolding parse_join_condition_def by (intro okp_rules calls bnd_strict [OF okp_paren_ident_list]) simp_all

lemma parse_from_item_ok: "m \<le> Suc N \<Longrightarrow> okp m h b (parse_from_item se fr)"
  unfolding parse_from_item_def by (intro okp_rules calls alias_rules) simp_all

lemma parse_from_ok: "m \<le> Suc N \<Longrightarrow> okp m h b (parse_from ex se fr)"
  unfolding parse_from_def
  by (intro bnd_opt [OF okp_parse_join_kind] okp_rules bnd_strict [OF parse_from_item_ok] parse_join_condition_ok) simp_all

lemma order_key_ok: "m \<le> N \<Longrightarrow> okp m h b (order_key ex)"
  unfolding order_key_def by (intro okp_rules calls) simp_all

lemma select_core_ok: "m \<le> Suc N \<Longrightarrow> okp m h b (select_core ex fr)"
  unfolding select_core_def parse_group_by_def bnd_bnd
  by (intro okp_rules calls bnd_strict [OF okp_comma_list] okp_comma_list select_item_ok) simp_all

lemma parse_with_ok: "m \<le> Suc N \<Longrightarrow> okp m h never (parse_with se)"
  unfolding parse_with_def by (intro okp_rules calls okp_comma_list okp_paren_ident_list) simp_all

lemma set_ops_ok: "m \<le> Suc N \<Longrightarrow> okp m h never (set_ops ex se fr)"
  unfolding set_ops_def by (intro bnd_opt [OF okp_set_op_next] okp_rules calls select_core_ok) simp_all

lemma parse_order_by_ok: "m \<le> Suc N \<Longrightarrow> okp m h never (parse_order_by ex)"
  unfolding parse_order_by_def by (intro okp_rules okp_comma_list order_key_ok) simp_all

lemma select_body_ok: "m \<le> Suc N \<Longrightarrow> okp m h b (select_body ex se fr)"
  unfolding select_body_def
  by (intro bnd_lax [OF parse_with_ok] bnd_strict [OF select_core_ok] bnd_lax [OF set_ops_ok] bnd_lax [OF parse_order_by_ok]
      bnd_parse_limit_offset okp_pair okp_ret) simp_all

end

lemma p_expr_Suc: "p_expr (Suc n) = or_expr (p_expr n) (p_select n)"
  and p_select_Suc: "p_select (Suc n) = select_body (p_expr n) (p_select n) (p_from n)"
  and p_from_Suc: "p_from (Suc n) = parse_from (p_expr n) (p_select n) (p_from n)"
  by (simp_all add: fun_eq_iff)

lemma okp_zero: "okp 0 any b p"
  by (auto simp: okp_def wf_cursor_def)

lemma parsers_total: "parsers n (p_expr n) (p_select n) (p_from n)"
proof (induction n)
  case 0
  show ?case by unfold_locales (rule okp_zero)+
next
  case (Suc n)
  show ?case
    by unfold_locales
      (simp_all only: p_expr_Suc p_select_Suc p_from_Suc parsers.or_expr_ok [OF Suc] parsers.select_body_ok [OF Suc] parsers.parse_from_ok [OF Suc] order_refl)
qed

interpretation rec: parsers n "p_expr n" "p_select n" "p_from n" for n
  by (rule parsers_total)

section \<open>Statements\<close>

lemma okp_references_target: "okp n h never references_target"
  unfolding references_target_def by (intro okp_rules) simp_all

lemma okp_parse_type_size: "okp n h never (parse_type_size ty)"
  unfolding parse_type_size_def by (intro okp_rules) simp_all

lemma okp_apply_index_option: "okp n h never (apply_index_option k p)"
  unfolding apply_index_option_def string_or_ident_def int_value_def bnd_bnd
  by (intro okp_rules) (simp_all split: tok.split option.split add: Let_def okp_ret okp_err bnd_ret bnd_err)

lemma okp_parse_index_options: "okp n h never (parse_index_options p)"
  unfolding parse_index_options_def index_option_def bnd_bnd
  by (intro okp_rules bnd_lax [OF okp_apply_index_option]) simp_all

lemma okp_index_opclass: "okp n h never index_opclass"
  unfolding index_opclass_def by (intro okp_rules) simp_all

lemmas exists_rules = bnd_lax [OF okp_if_not_exists] bnd_lax [OF okp_if_exists]

lemma okp_create_index: "okp n h never create_index_stmt"
  unfolding create_index_stmt_def
  by (intro okp_rules exists_rules bnd_lax [OF okp_index_opclass] okp_parse_index_options) simp_all

lemma okp_drop_stmt: "okp n h never drop_stmt"
  unfolding drop_stmt_def drop_index_stmt_def drop_table_stmt_def drop_view_stmt_def drop_policy_stmt_def
  by (intro okp_rules exists_rules) simp_all

lemma okp_policy_command_word: "okp n h never policy_command_word"
  unfolding policy_command_word_def by (intro okp_rules) simp_all

lemma okp_policy_roles: "okp n h never policy_roles"
  unfolding policy_roles_def by (intro okp_rules bnd_strict [OF okp_comma_list]) simp_all

lemma okp_dotted_rest: "okp n h never (loop (\<lambda>parts. bnd (skip TDot) (\<lambda>d. if d then bnd peek_word (\<lambda>w. case w of
         Some w \<Rightarrow> bnd bump (\<lambda>_. ret (Some (parts @ [w])))
       | None \<Rightarrow> ret None) else ret None)) parts)"
  by (intro okp_rules) simp_all

lemma okp_dotted_name: "okp n h never dotted_name"
  unfolding dotted_name_def bnd_normal
  by (intro bnd_peek_word; simp add: bnd_bnd bnd_ret; intro okp_rules bnd_lax [OF okp_dotted_rest]; simp)

lemma okp_dotted_word: "okp n (\<lambda>x. x = TWord w) any dotted_name"
  unfolding dotted_name_def peek_word_def bnd_normal
  by (rule bnd_peek; simp; intro okp_rules; simp)

lemma okp_bump_ret: "okp n h never (bnd bump (\<lambda>t. ret (g t)))"
  by (intro okp_rules) simp_all

lemma okp_read_set_value: "okp n h never read_set_value"
  unfolding read_set_value_def by (intro bnd_skip bnd_if okp_rules) (simp_all split: tok.split add: okp_ret okp_bump_ret)

lemma okp_set_stmt: "okp n h never set_stmt"
  unfolding set_stmt_def
  by (intro okp_rules bnd_lax [OF okp_dotted_name] bnd_lax [OF okp_read_set_value] bnd_lax [OF okp_skip_to_end]) simp_all

lemma okp_reset_stmt: "okp n h never reset_stmt"
  unfolding reset_stmt_def by (intro okp_rules bnd_lax [OF okp_dotted_name] bnd_lax [OF okp_skip_to_end]) simp_all

lemma okp_transaction_mode: "okp n h (\<lambda>x. x) transaction_mode"
  unfolding transaction_mode_def by (intro okp_rules) simp_all

lemma okp_eat_transaction_modes: "okp n h never eat_transaction_modes"
  unfolding eat_transaction_modes_def by (intro okp_loop bnd_flag [OF okp_transaction_mode] okp_rules) simp_all

lemma okp_transaction_stmt: "okp n h never transaction_stmt"
  unfolding transaction_stmt_def by (intro okp_rules bnd_lax [OF okp_eat_transaction_modes]) simp_all

lemma okp_show_stmt: "okp n h never show_stmt"
  unfolding show_stmt_def
  by (intro okp_rules; simp?; intro okp_bnd [OF okp_dotted_word] okp_ret; simp)

context parsers
begin

lemma capture_expr_sql_ok: "m \<le> N \<Longrightarrow> okp m h b (capture_expr_sql disp ex)"
proof (rule okpI)
  fix s assume "m \<le> N" "wf_cursor s" "length (ps_toks s) \<le> m"
  then have "progress any s (ex s)" using okpD [OF ex] by simp
  then show "progress b s (capture_expr_sql disp ex s)"
    by (cases "ex s") (auto simp: capture_expr_sql_def progress_def moved_def res_bind_def)
qed

lemma capture_paren_expr_sql_ok: "m \<le> Suc N \<Longrightarrow> okp m h b (capture_paren_expr_sql disp ex)"
  unfolding capture_paren_expr_sql_def by (intro okp_rules bnd_strict [OF capture_expr_sql_ok]) simp_all

lemma column_constraint_ok: "m \<le> Suc N \<Longrightarrow> okp m h (\<lambda>r. r \<noteq> None) (column_constraint disp ex c)"
  unfolding column_constraint_def
  by (intro okp_rules bnd_strict [OF capture_expr_sql_ok] bnd_strict [OF capture_paren_expr_sql_ok] bnd_lax [OF okp_references_target]) simp_all

lemma column_spec_ok: "m \<le> Suc N \<Longrightarrow> okp m h b (column_spec disp ex)"
  unfolding column_spec_def
  by (intro okp_rules bnd_lax [OF okp_parse_type_size] bnd_lax [OF okp_option] column_constraint_ok) simp_all

lemma table_item_ok: "m \<le> Suc N \<Longrightarrow> okp m h never (table_item disp ex p)"
  unfolding table_item_def table_constraint_def
  by (intro okp_rules bnd_strict [OF column_spec_ok] bnd_strict [OF capture_paren_expr_sql_ok] bnd_strict [OF okp_paren_ident_list] okp_paren_ident_list) simp_all

lemma table_items_ok: "m \<le> Suc N \<Longrightarrow> okp m h never (table_items disp ex)"
  unfolding table_items_def by (intro okp_rules bnd_lax [OF table_item_ok]) simp_all

lemma create_table_ok: "m \<le> Suc N \<Longrightarrow> okp m h never (create_table_stmt disp ex)"
  unfolding create_table_stmt_def by (intro okp_rules exists_rules bnd_lax [OF table_items_ok]) simp_all

lemma alter_table_ok: "m \<le> Suc N \<Longrightarrow> okp m h never (alter_table_stmt disp ex)"
  unfolding alter_table_stmt_def by (intro okp_rules bnd_strict [OF column_spec_ok]) simp_all

lemma create_view_ok: "m \<le> Suc N \<Longrightarrow> okp m h never (create_view_stmt src se)"
  unfolding create_view_stmt_def by (intro okp_rules exists_rules calls okp_paren_ident_list) simp_all

lemma create_policy_ok: "m \<le> Suc N \<Longrightarrow> okp m h never (create_policy_stmt disp ex)"
  unfolding create_policy_stmt_def
  by (intro okp_rules bnd_lax [OF okp_policy_roles] okp_policy_command_word capture_paren_expr_sql_ok) simp_all

lemma create_stmt_ok: "m \<le> Suc N \<Longrightarrow> okp m h never (create_stmt disp src ex se)"
  unfolding create_stmt_def by (intro okp_rules okp_create_index create_policy_ok create_view_ok create_table_ok) simp_all

lemma assignment_list_ok: "m \<le> Suc N \<Longrightarrow> okp m h b (assignment_list ex)"
  unfolding assignment_list_def by (intro okp_comma_list okp_rules calls) simp_all

lemma insert_source_ok: "m \<le> N \<Longrightarrow> okp m h never (insert_source ex se)"
  unfolding insert_source_def by (intro okp_rules calls bnd_strict [OF okp_comma_list] bnd_lax [OF expr_list_ok]) simp_all

lemma on_conflict_action_ok: "m \<le> Suc N \<Longrightarrow> okp m h never (on_conflict_action ex)"
  unfolding on_conflict_action_def
  by (intro okp_rules bnd_strict [OF okp_paren_ident_list] bnd_strict [OF assignment_list_ok] calls) simp_all

lemma or_resolution_ok: "okp m h never or_resolution"
  unfolding or_resolution_def by (intro okp_rules) simp_all

lemma opt_returning_ok: "m \<le> N \<Longrightarrow> (\<And>x. okp m any b (f x)) \<Longrightarrow> okp m h b (bnd (opt_returning ex) f)"
  unfolding opt_returning_def by (intro bnd_opt_after okp_comma_list select_item_ok) simp_all

lemma insert_ok: "m \<le> Suc N \<Longrightarrow> okp m h never (insert_stmt ex se)"
  unfolding insert_stmt_def
  by (intro okp_rules bnd_lax [OF or_resolution_ok] bnd_strict [OF okp_paren_ident_list] bnd_lax [OF insert_source_ok] on_conflict_action_ok opt_returning_ok) simp_all

lemma update_ok: "m \<le> Suc N \<Longrightarrow> okp m h never (update_stmt ex fr)"
  unfolding update_stmt_def by (intro okp_rules bnd_strict [OF assignment_list_ok] calls opt_returning_ok) simp_all

lemma delete_ok: "m \<le> Suc N \<Longrightarrow> okp m h never (delete_stmt ex fr)"
  unfolding delete_stmt_def by (intro okp_rules calls opt_returning_ok) simp_all

end

lemma bnd_utility:
  assumes st: "okp n any never st" and f: "\<And>a. okp (Suc n) any never (f a)"
  shows "okp (Suc n) h never (bnd (utility_stmt st) f)"
proof (rule bnd_lax [OF _ f])
  show "okp (Suc n) h never (utility_stmt st)"
    unfolding utility_stmt_def explain_stmt_def bnd_bnd bnd_ret
    by (intro okp_rules bnd_lax [OF okp_skip_parens] okp_skip_parens bnd_lax [OF okp_lax [OF st]] bnd_lax [OF okp_show_stmt] bnd_lax [OF okp_set_stmt]
        bnd_lax [OF okp_reset_stmt] bnd_lax [OF okp_skip_to_end]) simp_all
qed

lemma statement_body_ok:
  assumes st: "okp n any never st"
  shows "okp (Suc n) h never (statement_body disp src (p_expr (Suc n)) (p_select (Suc n)) (p_from (Suc n)) st)"
  unfolding statement_body_def ddl_of_def dml_of_def
  by (intro okp_rules bnd_lax [OF rec.create_stmt_ok] bnd_lax [OF okp_drop_stmt] bnd_lax [OF rec.alter_table_ok] bnd_lax [OF rec.insert_ok]
      bnd_lax [OF rec.update_ok] bnd_lax [OF rec.delete_ok] rec.calls bnd_utility [OF st] bnd_lax [OF okp_transaction_stmt]) simp_all

lemma p_statement_Suc: "p_statement disp src (Suc n) = statement_body disp src (p_expr n) (p_select n) (p_from n) (p_statement disp src n)"
  by (simp add: fun_eq_iff)

lemma p_statement_ok: "okp n any never (p_statement disp src (Suc n))"
proof (induction n)
  case 0
  show ?case by (rule okp_zero)
next
  case (Suc n)
  show ?case unfolding p_statement_Suc [of disp src "Suc n"] by (rule statement_body_ok [OF Suc])
qed

section \<open>The lexer\<close>

lemma lex_string_error: "lex_string acc r = Inl e \<Longrightarrow> e = ErrSql"
  by (induction acc r rule: lex_string.induct) (auto split: if_splits list.splits)

lemma lex_other_error: "lex_other so c r = Inl e \<Longrightarrow> e = ErrSql"
  by (auto simp: lex_other_def lex_pipe_def lex_colon_def lex_numparam_def lex_quoted_ident_def lex_backtick_ident_def lex_delimited_def
      lex_number_def lex_operator_def Let_def dest!: lex_string_error split: if_splits option.splits list.splits sum.splits)

lemma lex_one_error: "lex_one so c r = Inl e \<Longrightarrow> e = ErrSql"
  by (auto simp: lex_one_def Let_def res_bind_def dest!: lex_other_error split: if_splits option.splits list.splits sum.splits)

lemma lex_result: "case lex_loop so sql of Inl e \<Rightarrow> e = ErrSql | Inr toks \<Rightarrow> toks \<noteq> [] \<and> last toks = TEof"
proof (induction so sql rule: lex_loop.induct)
  case (2 so c r)
  show ?case
  proof (cases "lex_one so c r")
    case (Inl e)
    then show ?thesis by (simp add: lex_one_error)
  next
    case (Inr v)
    obtain t rest where v: "v = (t, rest)" by (cases v)
    then show ?thesis using "2" [OF Inr v [symmetric]] Inr by (auto simp: res_bind_def split: sum.splits option.splits)
  qed
qed simp

lemma lexed_cursor: "lex so sql = Inr toks \<Longrightarrow> wf_cursor (parser_new toks)"
  using lex_result [of so sql] by (simp add: lex_def wf_cursor_def parser_new_def)

lemma lex_error: "lex so sql = Inl e \<Longrightarrow> e = ErrSql"
  using lex_result [of so sql] by (simp add: lex_def)

section \<open>The entry points\<close>

definition returned :: "'a xres \<Rightarrow> bool" where
  "returned r \<longleftrightarrow> (case r of Inl f \<Rightarrow> f = Raised ErrSql | Inr _ \<Rightarrow> True)"

lemma whole_statement_ok:
  "okp n any never (bnd (p_statement disp src (Suc n)) (\<lambda>stmt. bnd (skip TSemi) (\<lambda>_. bnd peek (\<lambda>t. if t \<noteq> TEof then sql_err else ret stmt))))"
  by (intro bnd_lax [OF p_statement_ok] okp_rules) simp_all

lemma parse_sql_returns: "returned (parse_sql so disp sql)"
proof (cases "lex so sql")
  case (Inl e)
  then show ?thesis by (simp add: parse_sql_def returned_def lex_error)
next
  case (Inr toks)
  let ?s = "parser_new toks"
  have wf: "wf_cursor ?s" "length (ps_toks ?s) \<le> length toks"
    using lexed_cursor [OF Inr] by (simp_all add: parser_new_def)
  have "progress never ?s (bnd (p_statement disp sql (Suc (length toks))) (\<lambda>stmt. bnd (skip TSemi) (\<lambda>_. bnd peek
      (\<lambda>t. if t \<noteq> TEof then sql_err else ret stmt))) ?s)"
    by (rule okpD [OF whole_statement_ok wf]) simp
  then show ?thesis by (auto simp: parse_sql_def returned_def progress_def Inr split: sum.splits)
qed

lemma parse_expr_returns: "returned (parse_expr so sql)"
proof (cases "lex so sql")
  case (Inl e)
  then show ?thesis by (simp add: parse_expr_def returned_def lex_error)
next
  case (Inr toks)
  have wf: "wf_cursor (parser_new toks)" "length (ps_toks (parser_new toks)) \<le> length toks"
    using lexed_cursor [OF Inr] by (simp_all add: parser_new_def)
  have "progress any (parser_new toks) (p_expr (length toks) (parser_new toks))" by (rule okpD [OF rec.ex wf]) simp
  then show ?thesis by (auto simp: parse_expr_def returned_def progress_def Inr split: sum.splits)
qed

text \<open>C38. The parser always returns.  For every text, \<^verbatim>\<open>parse\<close> gives a statement or an SQL error, and so does \<^verbatim>\<open>parse_expr\<close>
  for a stored expression: no loop of the parser runs without consuming a token, no read of a token is out of
  range, and the calls of the recursive descent nest at most as deep as there are tokens.\<close>

theorem parser_returns: "returned (parse_sql so disp sql) \<and> returned (parse_expr so sql)"
  by (simp add: parse_sql_returns parse_expr_returns)

end
