(* ===== verification/Json.thy ===== *)
theory Json
  imports Sql_Text
begin

text \<open>
  The JSON values behind \<^verbatim>\<open>->\<close>, \<^verbatim>\<open>->>\<close>, \<^verbatim>\<open>json_extract\<close> and the session claims
  (\<^verbatim>\<open>crates/engine/src/json.rs\<close>): the parser, the serializer and navigation.  Text is its UTF-8 bytes; every
  character the parser looks at is ASCII, and the others are copied, so reading bytes is reading
  characters.  Numbers are the bits of an \<^verbatim>\<open>f64\<close>.
\<close>

section \<open>Values and their text\<close>

datatype json = JNull | JBool bool | JNum u64 | JStr string | JArr "json list" | JObj "(string \<times> json) list"

definition hex_digit :: "nat \<Rightarrow> char" where
  "hex_digit d = char_of (if d < 10 then 48 + d else 87 + d)"

definition json_escape :: "char \<Rightarrow> string" where
  "json_escape c = (let n = of_char c :: nat in
     if n = 34 then [CHR 0x5C, CHR 0x22] else if n = 92 then [CHR 0x5C, CHR 0x5C]
     else if n = 10 then [CHR 0x5C, CHR ''n''] else if n = 13 then [CHR 0x5C, CHR ''r''] else if n = 9 then [CHR 0x5C, CHR ''t'']
     else if n < 32 then [CHR 0x5C, CHR ''u'', CHR ''0'', CHR ''0'', hex_digit (n div 16), hex_digit (n mod 16)]
     else [c])"

definition quote :: "string \<Rightarrow> string" where
  "quote s = [CHR 0x22] @ concat (map json_escape s) @ [CHR 0x22]"

definition fmt_num :: "scalar_ops \<Rightarrow> u64 \<Rightarrow> string" where
  "fmt_num so n = (if f64_integral n \<and> f64_abs n < 0x430C6BF526340000 then int_string (i64_of_f64 n) else so_format_real so n)"

primrec write_json :: "scalar_ops \<Rightarrow> json \<Rightarrow> string" where
  "write_json so JNull = ''null''"
| "write_json so (JBool b) = (if b then ''true'' else ''false'')"
| "write_json so (JNum n) = fmt_num so n"
| "write_json so (JStr s) = quote s"
| "write_json so (JArr a) = ''['' @ join_strings '','' (map (write_json so) a) @ '']''"
| "write_json so (JObj m) = ''{'' @ join_strings '','' (map (\<lambda>(k, t). quote k @ '':'' @ t) (map (map_prod id (write_json so)) m)) @ ''}''"

fun as_text :: "scalar_ops \<Rightarrow> json \<Rightarrow> string option" where
  "as_text so JNull = None"
| "as_text so (JBool b) = Some (if b then ''true'' else ''false'')"
| "as_text so (JNum n) = Some (fmt_num so n)"
| "as_text so (JStr s) = Some s"
| "as_text so j = Some (write_json so j)"

section \<open>Parsing\<close>

definition hex_value :: "char \<Rightarrow> nat option" where
  "hex_value c = (let n = of_char c :: nat in
     if 48 \<le> n \<and> n \<le> 57 then Some (n - 48) else if 97 \<le> n \<and> n \<le> 102 then Some (n - 87)
     else if 65 \<le> n \<and> n \<le> 70 then Some (n - 55) else None)"

fun hex_code :: "nat \<Rightarrow> nat \<Rightarrow> string \<Rightarrow> (nat \<times> string) option" where
  "hex_code 0 code s = Some (code, s)"
| "hex_code (Suc k) code [] = None"
| "hex_code (Suc k) code (c # s) = (case hex_value c of None \<Rightarrow> None | Some h \<Rightarrow> hex_code k (code * 16 + h) s)"

text \<open>\<^verbatim>\<open>char::from_u32(code).unwrap_or('\u{fffd}')\<close> for a code of four hexadecimal digits.\<close>

definition utf8_char :: "nat \<Rightarrow> string" where
  "utf8_char code = (if code < 128 then [char_of code]
     else if code < 2048 then [char_of (192 + code div 64), char_of (128 + code mod 64)]
     else if 55296 \<le> code \<and> code < 57344 then [CHR 0xEF, CHR 0xBF, CHR 0xBD]
     else [char_of (224 + code div 4096), char_of (128 + code div 64 mod 64), char_of (128 + code mod 64)])"

definition unescape :: "char \<Rightarrow> char option" where
  "unescape e = (if e = CHR 0x22 then Some (CHR 0x22) else if e = CHR 0x5C then Some (CHR 0x5C) else if e = CHR ''/'' then Some (CHR ''/'')
     else if e = CHR ''n'' then Some (CHR 0x0A) else if e = CHR ''t'' then Some (CHR 0x09) else if e = CHR ''r'' then Some (CHR 0x0D)
     else if e = CHR ''b'' then Some (CHR 0x08) else if e = CHR ''f'' then Some (CHR 0x0C) else None)"

lemma hex_code_shrinks: "hex_code k code s = Some (n, rest) \<Longrightarrow> length rest \<le> length s"
  by (induction k code s rule: hex_code.induct) (auto split: option.splits)

text \<open>The rest of a string literal behind its opening quote.\<close>

function json_string :: "string \<Rightarrow> string \<Rightarrow> (string \<times> string) option" where
  "json_string acc [] = None"
| "json_string acc (c # r) =
     (if c = CHR 0x22 then Some (acc, r)
      else if c = CHR 0x5C then (case r of [] \<Rightarrow> None | e # r1 \<Rightarrow>
        (case unescape e of
           Some x \<Rightarrow> json_string (acc @ [x]) r1
         | None \<Rightarrow> if e = CHR ''u'' then (case hex_code 4 0 r1 of None \<Rightarrow> None | Some (code, r2) \<Rightarrow> json_string (acc @ utf8_char code) r2) else None))
      else json_string (acc @ [c]) r)"
  by pat_completeness auto
termination
  by (relation "measure (\<lambda>(acc, s). length s)") (auto dest!: hex_code_shrinks)

definition json_number_char :: "char \<Rightarrow> bool" where
  "json_number_char c \<longleftrightarrow> is_ascii_digit c \<or> c = CHR ''-'' \<or> c = CHR ''+'' \<or> c = CHR ''.'' \<or> c = CHR ''e'' \<or> c = CHR ''E''"

definition json_number :: "scalar_ops \<Rightarrow> string \<Rightarrow> (json \<times> string) option" where
  "json_number so s = (let ds = takeWhile json_number_char s in
     if ds = [] then None else case so_parse_f64 so ds of Some n \<Rightarrow> Some (JNum n, dropWhile json_number_char s) | None \<Rightarrow> None)"

definition json_literal :: "string \<Rightarrow> json \<Rightarrow> string \<Rightarrow> (json \<times> string) option" where
  "json_literal w v s = (case strip_prefix w s of Some rest \<Rightarrow> Some (v, rest) | None \<Rightarrow> None)"

abbreviation json_ws :: "string \<Rightarrow> string" where
  "json_ws \<equiv> dropWhile ascii_whitespace"

lemma json_string_shrinks: "json_string acc s = Some (x, rest) \<Longrightarrow> length rest < length s"
proof (induction acc s rule: json_string.induct)
  case (2 acc c r)
  consider "c = CHR 0x22" | "c = CHR 0x5C" | "c \<noteq> CHR 0x22" "c \<noteq> CHR 0x5C" by blast
  then show ?case
  proof cases
    case 2
    then obtain e r1 where r: "r = e # r1" using "2.prems" by (cases r) auto
    show ?thesis
    proof (cases "unescape e")
      case None
      then have e: "e = CHR ''u''" using "2.prems" 2 r by (simp split: if_splits)
      obtain code r2 where h: "hex_code 4 0 r1 = Some (code, r2)" using "2.prems" 2 r None e by (auto split: option.splits)
      show ?thesis using "2.IH"(1) [OF _ 2 r None e h refl] "2.prems" 2 r None e h hex_code_shrinks [OF h] by simp
    next
      case (Some x)
      then show ?thesis using "2.IH"(2) [OF _ 2 r Some] "2.prems" 2 r by simp
    qed
  qed (use "2.prems" "2.IH"(3) in auto)
qed simp

lemma json_ws_shrinks: "json_ws s = c # r \<Longrightarrow> length r < length s"
  using length_dropWhile_le [of ascii_whitespace s] by simp

text \<open>\<^verbatim>\<open>value\<close>, \<^verbatim>\<open>array\<close> and \<^verbatim>\<open>object\<close>; the loops call \<^verbatim>\<open>value\<close> on what is left.  A value consumes
  text (\<open>json_value_shrinks\<close>), so the tests of the lengths never fail.\<close>

function json_value :: "scalar_ops \<Rightarrow> string \<Rightarrow> (json \<times> string) option"
  and json_items :: "scalar_ops \<Rightarrow> json list \<Rightarrow> string \<Rightarrow> (json \<times> string) option"
  and json_members :: "scalar_ops \<Rightarrow> (string \<times> json) list \<Rightarrow> string \<Rightarrow> (json \<times> string) option" where
  "json_value so s0 = (case json_ws s0 of [] \<Rightarrow> None | c # r \<Rightarrow>
     if c = CHR ''{'' then (case json_ws r of d # r1 \<Rightarrow> if d = CHR ''}'' then Some (JObj [], r1) else json_members so [] r | [] \<Rightarrow> json_members so [] r)
     else if c = CHR ''['' then (case json_ws r of d # r1 \<Rightarrow> if d = CHR '']'' then Some (JArr [], r1) else json_items so [] r | [] \<Rightarrow> json_items so [] r)
     else if c = CHR 0x22 then (case json_string [] r of Some (s, r1) \<Rightarrow> Some (JStr s, r1) | None \<Rightarrow> None)
     else if c = CHR ''t'' then json_literal ''true'' (JBool True) (c # r)
     else if c = CHR ''f'' then json_literal ''false'' (JBool False) (c # r)
     else if c = CHR ''n'' then json_literal ''null'' JNull (c # r)
     else json_number so (c # r))"
| "json_items so acc s = (case json_value so s of None \<Rightarrow> None | Some (v, r) \<Rightarrow>
     if length r < length s then (case json_ws r of [] \<Rightarrow> None | c # r1 \<Rightarrow>
       if c = CHR '','' then json_items so (acc @ [v]) r1
       else if c = CHR '']'' then Some (JArr (acc @ [v]), r1) else None)
     else None)"
| "json_members so acc s = (case json_ws s of [] \<Rightarrow> None | q # r \<Rightarrow>
     if q \<noteq> CHR 0x22 then None else (case json_string [] r of None \<Rightarrow> None | Some (k, r1) \<Rightarrow>
     (case json_ws r1 of [] \<Rightarrow> None | c # r2 \<Rightarrow>
     if c \<noteq> CHR '':'' then None else (case json_value so r2 of None \<Rightarrow> None | Some (v, r3) \<Rightarrow>
     if length r3 < length r2 then (case json_ws r3 of [] \<Rightarrow> None | d # r4 \<Rightarrow>
       if d = CHR '','' then json_members so (acc @ [(k, v)]) r4
       else if d = CHR ''}'' then Some (JObj (acc @ [(k, v)]), r4) else None)
     else None))))"
  by pat_completeness auto
termination
  by (relation "measure (\<lambda>x. case x of Inl (so, s) \<Rightarrow> 2 * length s
      | Inr (Inl (so, acc, s)) \<Rightarrow> 2 * length s + 1 | Inr (Inr (so, acc, s)) \<Rightarrow> 2 * length s + 1)")
    (auto dest!: json_ws_shrinks json_string_shrinks)

declare json_value.simps [simp del] json_items.simps [simp del] json_members.simps [simp del]

definition json_parse :: "scalar_ops \<Rightarrow> string \<Rightarrow> json option" where
  "json_parse so s = (case json_value so (json_ws s) of Some (v, r) \<Rightarrow> if json_ws r = [] then Some v else None | None \<Rightarrow> None)"

section \<open>Navigation\<close>

fun get_key :: "json \<Rightarrow> string \<Rightarrow> json option" where
  "get_key (JObj m) k = map_option snd (List.find (\<lambda>p. fst p = k) m)"
| "get_key _ k = None"

fun get_index :: "json \<Rightarrow> int \<Rightarrow> json option" where
  "get_index (JArr a) idx = (let i = (if idx < 0 then int (length a) + idx else idx) in
     if 0 \<le> i \<and> nat i < length a then Some (a ! nat i) else None)"
| "get_index _ idx = None"

function extract_steps :: "json \<Rightarrow> string \<Rightarrow> json option" where
  "extract_steps cur [] = Some cur"
| "extract_steps cur (c # r) =
     (if c = CHR ''.'' then (let stop = (\<lambda>d. d \<noteq> CHR ''.'' \<and> d \<noteq> CHR ''['') in
        (case get_key cur (takeWhile stop r) of Some j \<Rightarrow> extract_steps j (dropWhile stop r) | None \<Rightarrow> None))
      else if c = CHR ''['' then (let inner = (\<lambda>d. d \<noteq> CHR '']'') in
        (case Option.bind (parse_i64 (trim (takeWhile inner r))) (get_index cur) of
           Some j \<Rightarrow> extract_steps j (drop 1 (dropWhile inner r)) | None \<Rightarrow> None))
      else None)"
  by pat_completeness auto
termination
  by (relation "measure (\<lambda>(cur, s). length s)") (auto simp: less_Suc_eq_le length_dropWhile_le intro: le_trans [OF diff_le_self])

definition extract_path :: "json \<Rightarrow> string \<Rightarrow> json option" where
  "extract_path j path = extract_steps j (case strip_prefix ''$'' path of Some p \<Rightarrow> p | None \<Rightarrow> path)"

section \<open>Every value consumes text\<close>

lemma strip_prefix_length: "strip_prefix w s = Some r \<Longrightarrow> w \<noteq> [] \<Longrightarrow> length r < length s"
  by (auto simp: strip_prefix_def split: if_splits) (metis diff_less length_greater_0_conv take_Nil)

lemma json_literal_shrinks: "json_literal w v s = Some (j, r) \<Longrightarrow> w \<noteq> [] \<Longrightarrow> length r < length s"
  by (auto simp: json_literal_def dest: strip_prefix_length split: option.splits)

lemma json_number_shrinks: "json_number so s = Some (j, r) \<Longrightarrow> length r < length s"
proof -
  assume "json_number so s = Some (j, r)"
  then have "takeWhile json_number_char s \<noteq> []" "r = dropWhile json_number_char s"
    by (auto simp: json_number_def Let_def split: if_splits option.splits)
  then show ?thesis by (metis (no_types) add.commute add_diff_cancel_right' length_append length_greater_0_conv takeWhile_dropWhile_id less_add_same_cancel1)
qed

lemma json_value_shrinks:
  "json_value so s = Some (v, r) \<Longrightarrow> length r < length s"
  "json_items so acc s = Some (v, r) \<Longrightarrow> length r < length s"
  "json_members so acc' s = Some (v, r) \<Longrightarrow> length r < length s"
proof (induction so s and so acc s and so acc' s arbitrary: v r and v r and v r rule: json_value_json_items_json_members.induct)
  case (1 so s)
  then obtain c t where ws: "json_ws s = c # t" by (cases "json_ws s") (auto simp: json_value.simps [of so s])
  note len = json_ws_shrinks [OF ws]
  have inner: "length r1 < length t" if "json_ws t = d # r1" for d r1 using json_ws_shrinks [OF that] .
  show ?case
    using "1.prems" "1.IH" ws len
    by (auto simp: json_value.simps [of so s] split: if_splits list.splits option.splits
        dest: inner json_string_shrinks json_literal_shrinks json_number_shrinks intro: less_trans)
next
  case (2 so acc s)
  from "2.prems" obtain w t where w: "json_value so s = Some (w, t)" and len: "length t < length s"
    by (auto simp: json_items.simps [of so acc s] split: option.splits if_splits)
  with "2.prems" obtain d r1 where d: "json_ws t = d # r1" "d = CHR '','' \<or> d = CHR '']''"
    by (auto simp: json_items.simps [of so acc s] split: list.splits if_splits)
  have "r = r1 \<or> length r < length r1"
    using "2.prems" "2.IH"(2) [OF w refl len d(1)] w len d by (auto simp: json_items.simps [of so acc s])
  then show ?case using json_ws_shrinks [OF d(1)] len by auto
next
  case (3 so acc s)
  from "3.prems" obtain t k r1 where t: "json_ws s = CHR 0x22 # t" and k: "json_string [] t = Some (k, r1)"
    by (auto simp: json_members.simps [of so acc s] split: list.splits if_splits option.splits)
  with "3.prems" obtain r2 where r2: "json_ws r1 = CHR '':'' # r2"
    by (auto simp: json_members.simps [of so acc s] split: list.splits if_splits)
  with "3.prems" t k obtain w r3 where w: "json_value so r2 = Some (w, r3)" and len: "length r3 < length r2"
    by (auto simp: json_members.simps [of so acc s] split: option.splits if_splits)
  with "3.prems" t k r2 obtain d r4 where d: "json_ws r3 = d # r4" "d = CHR '','' \<or> d = CHR ''}''"
    by (auto simp: json_members.simps [of so acc s] split: list.splits if_splits)
  have "length r4 < length s"
    using json_ws_shrinks [OF t] json_string_shrinks [OF k] json_ws_shrinks [OF r2] len json_ws_shrinks [OF d(1)] by simp
  moreover have "r = r4 \<or> length r < length r4"
    using "3.prems" "3.IH"(2) [OF t _ k refl r2 _ w refl len d(1)] t k r2 w len d
    by (auto simp: json_members.simps [of so acc s])
  ultimately show ?case by auto
qed

section \<open>Reading back what was written\<close>

definition number_text :: "scalar_ops \<Rightarrow> u64 \<Rightarrow> bool" where
  "number_text so n \<longleftrightarrow> (let t = fmt_num so n in t \<noteq> [] \<and> list_all json_number_char t \<and> so_parse_f64 so t = Some n)"

primrec json_numbers :: "json \<Rightarrow> u64 list" where
  "json_numbers JNull = []"
| "json_numbers (JBool b) = []"
| "json_numbers (JNum n) = [n]"
| "json_numbers (JStr s) = []"
| "json_numbers (JArr a) = concat (map json_numbers a)"
| "json_numbers (JObj m) = concat (map snd (map (map_prod id json_numbers) m))"

lemma hex_digit_value: "d < 16 \<Longrightarrow> hex_value (hex_digit d) = Some d"
  by (auto simp: hex_value_def hex_digit_def Let_def)

lemma escape_back: "json_string acc (json_escape c @ xs) = json_string (acc @ [c]) xs"
proof -
  let ?n = "of_char c :: nat"
  consider "?n \<in> {34, 92, 10, 13, 9}" | "?n \<notin> {34, 92, 10, 13, 9}" "?n < 32" | "?n \<notin> {34, 92, 10, 13, 9}" "\<not> ?n < 32" by blast
  then show ?thesis
  proof cases
    case 1
    then have "c = char_of (34 :: nat) \<or> c = char_of (92 :: nat) \<or> c = char_of (10 :: nat) \<or> c = char_of (13 :: nat) \<or> c = char_of (9 :: nat)"
      by (metis char_of_char empty_iff insert_iff)
    moreover have "char_of (34 :: nat) = CHR 0x22" "char_of (92 :: nat) = CHR 0x5C" "char_of (10 :: nat) = CHR 0x0A"
      "char_of (13 :: nat) = CHR 0x0D" "char_of (9 :: nat) = CHR 0x09" by code_simp+
    ultimately show ?thesis by (elim disjE) (simp_all add: json_escape_def unescape_def)
  next
    case 2
    have h: "hex_value (CHR ''0'') = Some 0" by code_simp
    have four: "4 = Suc (Suc (Suc (Suc 0)))" by simp
    have u: "unescape (CHR ''u'') = None" by code_simp
    have "hex_code 4 0 (CHR ''0'' # CHR ''0'' # hex_digit (?n div 16) # hex_digit (?n mod 16) # xs) = Some (?n, xs)"
      unfolding four using 2(2) by (simp add: h hex_digit_value)
    moreover have "utf8_char ?n = [c]" using 2(2) by (simp add: utf8_char_def)
    ultimately show ?thesis using 2 u by (simp add: json_escape_def Let_def)
  next
    case 3
    then have "c \<noteq> CHR 0x22" "c \<noteq> CHR 0x5C" by auto
    with 3 show ?thesis by (simp add: json_escape_def Let_def)
  qed
qed

lemma quote_back: "json_string acc (concat (map json_escape s) @ CHR 0x22 # rest) = Some (acc @ s, rest)"
  by (induction s arbitrary: acc) (simp_all add: escape_back)

definition ends_number :: "string \<Rightarrow> bool" where
  "ends_number rest \<longleftrightarrow> (case rest of [] \<Rightarrow> True | c # _ \<Rightarrow> \<not> json_number_char c)"

lemma ends_number_simps [simp]: "ends_number []" "ends_number (CHR '','' # r)" "ends_number (CHR '']'' # r)" "ends_number (CHR ''}'' # r)"
  unfolding ends_number_def list.case by code_simp+

text \<open>The first character of a number is not the start of anything else.\<close>

lemma number_char_other:
  "json_number_char c \<Longrightarrow> c \<noteq> CHR ''{'' \<and> c \<noteq> CHR ''['' \<and> c \<noteq> CHR 0x22 \<and> c \<noteq> CHR ''t'' \<and> c \<noteq> CHR ''f'' \<and> c \<noteq> CHR ''n'' \<and> c \<noteq> CHR '']'' \<and> \<not> ascii_whitespace c"
  by (auto simp: json_number_char_def is_ascii_digit_def ascii_whitespace_def)

lemma ws_head [simp]: "\<not> ascii_whitespace c \<Longrightarrow> json_ws (c # r) = c # r"
  by simp

lemma json_marks [simp]: "\<not> ascii_whitespace CHR ''{''" "\<not> ascii_whitespace CHR ''[''" "\<not> ascii_whitespace CHR 0x22" "\<not> ascii_whitespace CHR '':''"
  "\<not> ascii_whitespace CHR '',''" "\<not> ascii_whitespace CHR ''}''" "\<not> ascii_whitespace CHR '']''" "\<not> ascii_whitespace CHR ''t''"
  "\<not> ascii_whitespace CHR ''f''" "\<not> ascii_whitespace CHR ''n''"
  by code_simp+

lemma json_number_back:
  assumes "number_text so n" "ends_number rest"
  shows "json_value so (fmt_num so n @ rest) = Some (JNum n, rest)"
proof -
  let ?t = "fmt_num so n"
  from assms(1) have t: "?t \<noteq> []" "list_all json_number_char ?t" "so_parse_f64 so ?t = Some n" by (simp_all add: number_text_def Let_def)
  obtain c r where c: "?t = c # r" "json_number_char c" using t(1,2) by (cases ?t) auto
  have "takeWhile json_number_char (?t @ rest) = ?t \<and> dropWhile json_number_char (?t @ rest) = rest"
    using t(2) assms(2) by (cases rest) (auto simp: ends_number_def takeWhile_append dropWhile_append list_all_iff)
  then have "json_number so (?t @ rest) = Some (JNum n, rest)" using t by (simp add: json_number_def)
  then show ?thesis using number_char_other [OF c(2)] c(1) by (simp add: json_value.simps [of so "c # r @ rest"])
qed

definition reads_back :: "scalar_ops \<Rightarrow> json \<Rightarrow> bool" where
  "reads_back so j \<longleftrightarrow> (\<exists>c t. write_json so j = c # t \<and> \<not> ascii_whitespace c \<and> c \<noteq> CHR '']'') \<and>
     (\<forall>rest. ends_number rest \<longrightarrow> json_value so (write_json so j @ rest) = Some (j, rest))"

lemma reads_backD:
  assumes "reads_back so j" "ends_number rest"
  shows "json_value so (write_json so j @ rest) = Some (j, rest)" "length rest < length (write_json so j @ rest)"
  using assms by (auto simp: reads_back_def)

lemma json_items_back:
  "\<forall>j\<in>set js. reads_back so j \<Longrightarrow> js \<noteq> [] \<Longrightarrow>
    json_items so acc (join_strings '','' (map (write_json so) js) @ CHR '']'' # rest) = Some (JArr (acc @ js), rest)"
proof (induction js arbitrary: acc rule: induct_list012)
  case (2 j)
  then show ?case using reads_backD [of so j "CHR '']'' # rest"] by (simp add: json_items.simps)
next
  case (3 j k js)
  let ?r = "CHR '','' # join_strings '','' (map (write_json so) (k # js)) @ CHR '']'' # rest"
  have "json_items so acc (write_json so j @ ?r) = json_items so (acc @ [j]) (join_strings '','' (map (write_json so) (k # js)) @ CHR '']'' # rest)"
    using reads_backD [of so j ?r] 3(3) by (subst json_items.simps) simp
  then show ?case using 3 by simp
qed simp

definition member_text :: "scalar_ops \<Rightarrow> string \<times> json \<Rightarrow> string" where
  "member_text so p = quote (fst p) @ '':'' @ write_json so (snd p)"

lemma write_members: "write_json so (JObj m) = ''{'' @ join_strings '','' (map (member_text so) m) @ ''}''"
  by (simp add: member_text_def [abs_def] split_def comp_def)

lemma json_members_back:
  "\<forall>p\<in>set m. reads_back so (snd p) \<Longrightarrow> m \<noteq> [] \<Longrightarrow>
    json_members so acc (join_strings '','' (map (member_text so) m) @ CHR ''}'' # rest) = Some (JObj (acc @ m), rest)"
proof (induction m arbitrary: acc rule: induct_list012)
  case (2 p)
  then show ?case using reads_backD [of so "snd p" "CHR ''}'' # rest"]
    by (simp add: json_members.simps member_text_def quote_def quote_back)
next
  case (3 p q m)
  let ?j = "join_strings '','' (map (member_text so) (q # m)) @ CHR ''}'' # rest"
  have "json_members so acc (member_text so p @ '','' @ ?j) = json_members so (acc @ [p]) ?j"
    using reads_backD [of so "snd p" "CHR '','' # ?j"] 3(3)
    by (subst json_members.simps) (simp add: member_text_def quote_def quote_back)
  then show ?case using 3 by simp
qed simp

lemma literal_back: "json_literal w v (w @ rest) = Some (v, rest)"
  by (simp add: json_literal_def strip_prefix_def)

lemma json_array_back:
  assumes "\<forall>j\<in>set js. reads_back so j"
  shows "json_value so (write_json so (JArr js) @ rest) = Some (JArr js, rest)"
proof (cases js)
  case Nil
  then show ?thesis by (simp add: json_value.simps)
next
  case (Cons j ks)
  obtain c t where c: "write_json so j = c # t" "\<not> ascii_whitespace c" "c \<noteq> CHR '']''" using assms Cons by (auto simp: reads_back_def)
  obtain t' where "join_strings '','' (map (write_json so) js) = c # t'" using c Cons by (cases ks) auto
  then show ?thesis using json_items_back [OF assms, of "[]" rest] Cons c by (simp add: json_value.simps)
qed

lemma json_object_back:
  assumes "\<forall>p\<in>set m. reads_back so (snd p)"
  shows "json_value so (write_json so (JObj m) @ rest) = Some (JObj m, rest)"
proof (cases m)
  case Nil
  then show ?thesis by (simp add: json_value.simps)
next
  case (Cons p ps)
  obtain t where "join_strings '','' (map (member_text so) m) = CHR 0x22 # t"
    using Cons by (cases ps) (auto simp: member_text_def quote_def)
  then show ?thesis using json_members_back [OF assms, of "[]" rest] Cons
    unfolding write_members by (simp add: json_value.simps)
qed

lemma json_reads_back: "\<forall>n\<in>set (json_numbers j). number_text so n \<Longrightarrow> reads_back so j"
proof (induction j)
  case (JNum n)
  then have n: "number_text so n" by simp
  then obtain c t where c: "fmt_num so n = c # t" "json_number_char c" by (cases "fmt_num so n") (auto simp: number_text_def Let_def)
  have "\<exists>c t. fmt_num so n = c # t \<and> \<not> ascii_whitespace c \<and> c \<noteq> CHR '']''" using number_char_other [OF c(2)] c(1) by simp
  then show ?case unfolding reads_back_def write_json.simps using json_number_back [OF n] by blast
next
  case (JArr js)
  then have "\<forall>j\<in>set js. reads_back so j" by auto
  then show ?case using json_array_back by (simp add: reads_back_def)
next
  case (JObj m)
  then have "\<forall>p\<in>set m. reads_back so (snd p)" by (fastforce simp: snds.simps)
  then show ?case using json_object_back by (simp add: reads_back_def)
next
  case (JStr s)
  then show ?case by (simp add: reads_back_def quote_def json_value.simps quote_back)
next
  case (JBool b)
  then show ?case using literal_back [of "''true''"] literal_back [of "''false''"] by (simp add: reads_back_def json_value.simps)
next
  case JNull
  then show ?case using literal_back [of "''null''"] by (simp add: reads_back_def json_value.simps)
qed

lemma reads_back_parse:
  assumes j: "reads_back so j"
  shows "json_parse so (write_json so j) = Some j"
proof -
  from j obtain c t where "write_json so j = c # t" "\<not> ascii_whitespace c" by (auto simp: reads_back_def)
  then show ?thesis using reads_backD(1) [OF j, of "[]"] by (simp add: json_parse_def)
qed

text \<open>C39. What the engine writes as JSON it reads back as the same value: parsing the compact text of a value gives
  the value, for any nesting and any string, if the decimal text of each of its numbers is read back as
  that number.\<close>

theorem json_roundtrip:
  assumes "\<forall>n\<in>set (json_numbers j). number_text so n"
  shows "json_parse so (write_json so j) = Some j"
  by (intro reads_back_parse json_reads_back assms)

text \<open>The object \<^verbatim>\<open>{"a":[1,"x\"y",null],"":{}}\<close>.\<close>

definition json_example :: json where
  "json_example = JObj [(''a'', JArr [JNum 0x3FF0000000000000, JStr [CHR ''x'', CHR 0x22, CHR 0x0A], JNull]), ([], JObj [])]"

lemmas f64_fields = f64_integral_def f64_abs_def f64_exponent_def f64_fraction_def f64_scale_def f64_significand_def i64_of_f64_def
  f64_is_nan_def f64_trunc_def f64_negative_def clamp_i64_def

theorem json_roundtrip_witness:
  "\<forall>so. json_parse (so\<lparr>so_parse_f64 := \<lambda>t. if t = ''1'' then Some 0x3FF0000000000000 else None\<rparr>)
      (write_json (so\<lparr>so_parse_f64 := \<lambda>t. if t = ''1'' then Some 0x3FF0000000000000 else None\<rparr>) json_example) = Some json_example"
proof
  fix so :: scalar_ops
  let ?so = "so\<lparr>so_parse_f64 := \<lambda>t. if t = ''1'' then Some 0x3FF0000000000000 else None\<rparr>"
  have i: "f64_integral 0x3FF0000000000000" "f64_abs 0x3FF0000000000000 < 0x430C6BF526340000" "i64_of_f64 0x3FF0000000000000 = 1"
    by (simp_all add: f64_fields)
  have "list_all json_number_char ''1''" "int_string 1 = ''1''" by code_simp+
  note i = i this
  have "number_text ?so 0x3FF0000000000000"
    using i by (simp add: number_text_def fmt_num_def)
  then show "json_parse ?so (write_json ?so json_example) = Some json_example"
    by (intro json_roundtrip) (simp add: json_example_def)
qed

text \<open>A surrogate pair of escapes, the standard spelling of a character outside the basic plane, is
  read as two replacement characters.\<close>

lemma surrogate_pair_lost:
  "json_parse so [CHR 0x22, CHR 0x5C, CHR ''u'', CHR ''d'', CHR ''8'', CHR ''3'', CHR ''d'', CHR 0x5C, CHR ''u'', CHR ''d'', CHR ''e'', CHR ''0'', CHR ''0'', CHR 0x22] =
    Some (JStr [CHR 0xEF, CHR 0xBF, CHR 0xBD, CHR 0xEF, CHR 0xBF, CHR 0xBD])"
proof -
  have u: "unescape (CHR ''u'') = None" by code_simp
  have four: "4 = Suc (Suc (Suc (Suc 0)))" by simp
  have h: "hex_code 4 0 (CHR ''d'' # CHR ''8'' # CHR ''3'' # CHR ''d'' # r) = Some (55357, r)"
    "hex_code 4 0 (CHR ''d'' # CHR ''e'' # CHR ''0'' # CHR ''0'' # r) = Some (56832, r)" for r
    unfolding four by (simp_all add: hex_value_def)
  show ?thesis by (simp add: json_parse_def json_value.simps u h utf8_char_def)
qed

text \<open>A number too large for an \<^verbatim>\<open>f64\<close> is accepted and written as text that is not JSON.\<close>

lemma infinite_number_breaks_json:
  assumes "so_parse_f64 so ''1e400'' = Some 0x7FF0000000000000" "so_format_real so 0x7FF0000000000000 = ''inf''"
  shows "json_parse so ''1e400'' = Some (JNum 0x7FF0000000000000) \<and> json_parse so (write_json so (JNum 0x7FF0000000000000)) = None"
proof -
  have c: "\<not> ascii_whitespace (CHR ''1'')" "takeWhile json_number_char ''1e400'' = ''1e400''" "dropWhile json_number_char ''1e400'' = []"
    "\<not> ascii_whitespace (CHR ''i'')" "takeWhile json_number_char ''inf'' = []"
    by code_simp+
  moreover have "\<not> f64_integral 0x7FF0000000000000" by (simp add: f64_fields)
  ultimately show ?thesis using assms by (simp add: json_parse_def json_value.simps json_number_def fmt_num_def)
qed

end
