(* ===== verification/Datetime.thy ===== *)
theory Datetime
  imports Sql_Text "HOL-Library.Signed_Division"
begin

text \<open>
  Date and time (\<^verbatim>\<open>crates/engine/src/datetime.rs\<close>): the conversion between civil dates and day
  counts, broken-down time, parsing, printing and truncation of timestamps.  Numbers are \<open>int\<close>;
  division of possibly negative numbers is \<^verbatim>\<open>i64\<close> division, which truncates (\<open>sdiv\<close>).  Where a
  year out of the text can leave the range of \<^verbatim>\<open>i64\<close> the result wraps around, as in a release
  build; the other functions stay in range for every \<^verbatim>\<open>i64\<close> epoch.  The date arithmetic is compared with
  the Gregorian calendar, given by the day that follows a day.
\<close>

section \<open>Civil dates\<close>

definition days_from_civil :: "int \<Rightarrow> int \<Rightarrow> int \<Rightarrow> int" where
  "days_from_civil y0 m d =
    (let y = (if m \<le> 2 then y0 - 1 else y0);
         era = (if 0 \<le> y then y else y - 399) sdiv 400;
         yoe = y - era * 400;
         mp = (if 2 < m then m - 3 else m + 9);
         doy = (153 * mp + 2) sdiv 5 + d - 1;
         doe = yoe * 365 + yoe sdiv 4 - yoe sdiv 100 + doy
     in era * 146097 + doe - 719468)"

definition civil_from_days :: "int \<Rightarrow> int \<times> int \<times> int" where
  "civil_from_days z0 =
    (let z = z0 + 719468;
         era = (if 0 \<le> z then z else z - 146096) sdiv 146097;
         doe = z - era * 146097;
         yoe = (doe - doe sdiv 1460 + doe sdiv 36524 - doe sdiv 146096) sdiv 365;
         y = yoe + era * 400;
         doy = doe - (365 * yoe + yoe sdiv 4 - yoe sdiv 100);
         mp = (5 * doy + 2) sdiv 153;
         d = doy - (153 * mp + 2) sdiv 5 + 1;
         m = (if mp < 10 then mp + 3 else mp - 9)
     in (if m \<le> 2 then y + 1 else y, m, d))"

definition parts :: "int \<Rightarrow> int \<times> int \<times> int \<times> int \<times> int \<times> int" where
  "parts epoch = (let days = epoch div 86400; rem = epoch mod 86400 in
     case civil_from_days days of (y, m, d) \<Rightarrow> (y, m, d, rem div 3600, (rem mod 3600) div 60, rem mod 60))"

section \<open>Parsing and printing\<close>

text \<open>\<^verbatim>\<open>split_once\<close> at the first of two characters, \<^verbatim>\<open>trim_end_matches\<close>, and the next item of a
  \<^verbatim>\<open>split\<close> iterator.\<close>

definition split_at_any :: "(char \<Rightarrow> bool) \<Rightarrow> string \<Rightarrow> (string \<times> string) option" where
  "split_at_any p s = (case dropWhile (\<lambda>c. \<not> p c) s of [] \<Rightarrow> None | c # rest \<Rightarrow> Some (takeWhile (\<lambda>c. \<not> p c) s, rest))"

definition trim_end_char :: "char \<Rightarrow> string \<Rightarrow> string" where
  "trim_end_char c s = rev (dropWhile (\<lambda>x. x = c) (rev s))"

definition nth_part :: "nat \<Rightarrow> string list \<Rightarrow> string option" where
  "nth_part i xs = (if i < length xs then Some (xs ! i) else None)"

definition part_or_zero :: "nat \<Rightarrow> string list \<Rightarrow> string" where
  "part_or_zero i xs = (if i < length xs then xs ! i else ''0'')"

text \<open>The time of day: a zone marker, an offset and a fraction are cut off.\<close>

definition time_secs :: "string \<Rightarrow> int option" where
  "time_secs t0 =
    (let t1 = trim_end_char CHR ''Z'' t0;
         t2 = takeWhile (\<lambda>c. c \<noteq> CHR ''+'' \<and> c \<noteq> CHR ''Z'') t1;
         core0 = before_char CHR ''-'' t2;
         core = before_char CHR ''.'' core0;
         tp = split_on (\<lambda>c. c = CHR '':'') [] core
     in Option.bind (parse_i64 (trim (part_or_zero 0 tp))) (\<lambda>hh.
        Option.bind (parse_i64 (part_or_zero 1 tp)) (\<lambda>mm.
        Option.bind (parse_i64 (part_or_zero 2 tp)) (\<lambda>ss.
        Some (hh * 3600 + mm * 60 + ss)))))"

definition parse_epoch_secs :: "string \<Rightarrow> int option" where
  "parse_epoch_secs s0 =
    (let s = trim s0;
         (date, time) = (case split_at_any (\<lambda>c. c = CHR ''T'' \<or> c = CHR '' '') s of
            Some (d, t) \<Rightarrow> (d, Some t) | None \<Rightarrow> (s, None));
         dp = split_on (\<lambda>c. c = CHR ''-'') [] date
     in Option.bind (Option.bind (nth_part 0 dp) parse_i64) (\<lambda>y.
        Option.bind (Option.bind (nth_part 1 dp) parse_i64) (\<lambda>mo.
        Option.bind (Option.bind (nth_part 2 dp) parse_i64) (\<lambda>d.
        if \<not> (1 \<le> mo \<and> mo \<le> 12) \<or> \<not> (1 \<le> d \<and> d \<le> 31) then None
        else let secs = days_from_civil y mo d * 86400 in
          case time of None \<Rightarrow> Some (wrap_i64 secs)
          | Some t \<Rightarrow> map_option (\<lambda>n. wrap_i64 (secs + n)) (time_secs t)))))"

text \<open>\<^verbatim>\<open>{:04}\<close> and \<^verbatim>\<open>{:02}\<close>: zeros fill up the width, after the sign.\<close>

definition pad_int :: "nat \<Rightarrow> int \<Rightarrow> string" where
  "pad_int w i = (let ds = dec_string (nat \<bar>i\<bar>); sign = (if i < 0 then ''-'' else []) in
     sign @ replicate (w - length ds - length sign) CHR ''0'' @ ds)"

definition format_date :: "int \<Rightarrow> string" where
  "format_date epoch = (case parts epoch of (y, m, d, _) \<Rightarrow> pad_int 4 y @ ''-'' @ pad_int 2 m @ ''-'' @ pad_int 2 d)"

definition format_time :: "int \<Rightarrow> string" where
  "format_time epoch = (case parts epoch of (_, _, _, hh, mm, ss) \<Rightarrow> pad_int 2 hh @ '':'' @ pad_int 2 mm @ '':'' @ pad_int 2 ss)"

definition format_timestamp :: "int \<Rightarrow> string" where
  "format_timestamp epoch = (case parts epoch of (y, m, d, hh, mm, ss) \<Rightarrow>
     pad_int 4 y @ ''-'' @ pad_int 2 m @ ''-'' @ pad_int 2 d @ '' '' @ pad_int 2 hh @ '':'' @ pad_int 2 mm @ '':'' @ pad_int 2 ss)"

section \<open>Derived fields\<close>

definition day_of_week :: "int \<Rightarrow> int" where
  "day_of_week epoch = (let days = epoch div 86400 in (days mod 7 + 4) mod 7)"

definition day_of_year :: "int \<Rightarrow> int" where
  "day_of_year epoch = (let (y, _) = parts epoch; days = epoch div 86400 in days - days_from_civil y 1 1 + 1)"

definition epoch_at :: "int \<Rightarrow> int \<Rightarrow> int \<Rightarrow> int \<Rightarrow> int \<Rightarrow> int \<Rightarrow> int" where
  "epoch_at y m d hh mm ss = days_from_civil y m d * 86400 + hh * 3600 + mm * 60 + ss"

definition date_trunc :: "string \<Rightarrow> int \<Rightarrow> int option" where
  "date_trunc unit epoch = (case parts epoch of (y, m, d, hh, mm, _) \<Rightarrow>
     (let u = to_ascii_lowercase unit in
      if u = ''year'' then Some (epoch_at y 1 1 0 0 0)
      else if u = ''quarter'' then Some (epoch_at y (((m - 1) sdiv 3) * 3 + 1) 1 0 0 0)
      else if u = ''month'' then Some (epoch_at y m 1 0 0 0)
      else if u = ''week'' then (let days = epoch div 86400; monday = days - (days mod 7 + 3) mod 7 in Some (monday * 86400))
      else if u = ''day'' then Some (epoch_at y m d 0 0 0)
      else if u = ''hour'' then Some (epoch_at y m d hh 0 0)
      else if u = ''minute'' then Some (epoch_at y m d hh mm 0)
      else if u = ''second'' then Some epoch
      else None))"

section \<open>The calendar\<close>

definition leap :: "int \<Rightarrow> bool" where
  "leap y \<longleftrightarrow> y mod 4 = 0 \<and> (y mod 100 \<noteq> 0 \<or> y mod 400 = 0)"

definition days_in_month :: "int \<Rightarrow> int \<Rightarrow> int" where
  "days_in_month y m = (if m = 2 then (if leap y then 29 else 28) else if m \<in> {4, 6, 9, 11} then 30 else 31)"

definition valid_date :: "int \<times> int \<times> int \<Rightarrow> bool" where
  "valid_date = (\<lambda>(y, m, d). 1 \<le> m \<and> m \<le> 12 \<and> 1 \<le> d \<and> d \<le> days_in_month y m)"

definition next_day :: "int \<times> int \<times> int \<Rightarrow> int \<times> int \<times> int" where
  "next_day = (\<lambda>(y, m, d). if d < days_in_month y m then (y, m, d + 1) else if m < 12 then (y, m + 1, 1) else (y + 1, 1, 1))"

text \<open>Division by a positive number, written with the floor.\<close>

lemma sdiv_pos [simp]: "0 \<le> a \<Longrightarrow> 0 < b \<Longrightarrow> (a :: int) sdiv b = a div b"
  by (cases "a = 0") (simp_all add: signed_divide_int_def)

lemma sdiv_neg: "a < 0 \<Longrightarrow> 0 < b \<Longrightarrow> (a :: int) sdiv b = - ((- a) div b)"
  by (simp add: signed_divide_int_def)

lemma div_eqI: "0 < b \<Longrightarrow> b * k \<le> a \<Longrightarrow> a < b * k + b \<Longrightarrow> (a :: int) div b = k"
  by (rule int_div_pos_eq [of _ _ _ "a - b * k"]) simp_all

lemma div_bounds: "0 < b \<Longrightarrow> b * (a div b) \<le> (a :: int) \<and> a < b * (a div b) + b"
  using mult_div_mod_eq [of b a] pos_mod_bound [of b a] pos_mod_sign [of b a] by linarith

lemma div_minus_complement: "0 < b \<Longrightarrow> - ((b - 1 - y) div b) = (y :: int) div b"
proof -
  assume b: "0 < b"
  have "(b - 1 - y) div b = - (y div b)" using b div_bounds [OF b, of y] by (intro div_eqI) (simp_all add: algebra_simps)
  then show ?thesis by simp
qed

lemma sdiv_era: "(if 0 \<le> y then y else y - 399) sdiv 400 = (y :: int) div 400" "(if 0 \<le> z then z else z - 146096) sdiv 146097 = (z :: int) div 146097"
  using div_minus_complement [of 400 y] div_minus_complement [of 146097 z] by (simp_all add: sdiv_neg)

text \<open>A day of the era of 400 years from March 1: century, group of four years, year and day of the year.\<close>

lemma year_of_day:
  fixes c q r doy :: int
  assumes "0 \<le> c" "c \<le> 3" "0 \<le> q" "q \<le> 24" "0 \<le> r" "r \<le> 3" "0 \<le> doy" "doy \<le> 365"
    and last: "doy = 365 \<longrightarrow> r = 3 \<and> (q < 24 \<or> c = 3)" and doe: "doe = 36524 * c + 1461 * q + 365 * r + doy"
  shows "(doe - doe div 1460 + doe div 36524 - doe div 146096) div 365 = 100 * c + 4 * q + r" and "0 \<le> doe" and "doe \<le> 146096"
proof -
  define e where "e = (24 * c + q + 365 * r + doy) div 1460"
  have eb: "1460 * e \<le> 24 * c + q + 365 * r + doy" "24 * c + q + 365 * r + doy < 1460 * e + 1460"
    unfolding e_def using div_bounds [of 1460 "24 * c + q + 365 * r + doy"] by simp_all
  then have e: "e = 0 \<or> e = 1" using assms by linarith
  have d1460: "doe div 1460 = 25 * c + q + e" using eb unfolding doe by (intro div_eqI) simp_all
  have e': "0 \<le> doy - e" "doy - e < 365" using e eb assms by auto
  have century: "doe div 36524 - doe div 146096 = c"
  proof (cases "doe = 146096")
    case True
    then have "c = 3" using assms by (auto simp: doe)
    with True show ?thesis by simp
  next
    case False
    have "1461 * q + 365 * r + doy \<le> 36523"
    proof (cases "doy = 365")
      case True
      with last have "r = 3" "q < 24 \<or> c = 3" by simp_all
      with True False doe assms show ?thesis by auto
    qed (use assms in linarith)
    then have "doe div 36524 = c" "doe div 146096 = 0" using assms unfolding doe by (auto intro!: div_eqI)
    then show ?thesis by simp
  qed
  have sum: "doe - doe div 1460 + doe div 36524 - doe div 146096 = 365 * (100 * c + 4 * q + r) + (doy - e)"
  proof -
    have "doe - a + b - k = 365 * (100 * c + 4 * q + r) + (doy - e)" if "a = 25 * c + q + e" "b - k = c" for a b k
      using that(1) that(2) [symmetric] by (simp add: doe algebra_simps)
    from this [OF d1460 century] show ?thesis .
  qed
  show "(doe - doe div 1460 + doe div 36524 - doe div 146096) div 365 = 100 * c + 4 * q + r"
    unfolding sum using e' by (intro div_eqI) simp_all
  show "0 \<le> doe" "doe \<le> 146096" using assms by auto
qed

text \<open>Every day of the era has these coordinates.\<close>

lemma day_coordinates:
  fixes doe :: int
  assumes "0 \<le> doe" "doe \<le> 146096"
  obtains c q r doy where "0 \<le> c" "c \<le> 3" "0 \<le> q" "q \<le> 24" "0 \<le> r" "r \<le> 3" "0 \<le> doy" "doy \<le> 365"
    "doy = 365 \<longrightarrow> r = 3 \<and> (q < 24 \<or> c = 3)" "doe = 36524 * c + 1461 * q + 365 * r + doy"
proof -
  define c where "c = min 3 (doe div 36524)"
  define x where "x = doe - 36524 * c"
  define q where "q = x div 1461"
  define w where "w = x - 1461 * q"
  define r where "r = min 3 (w div 365)"
  have c: "0 \<le> c" "c \<le> 3" "0 \<le> x" "x \<le> 36524" "x = 36524 \<longrightarrow> c = 3"
    using div_bounds [of 36524 doe] assms by (auto simp: c_def x_def min_def)
  have q: "0 \<le> q" "q \<le> 24" "0 \<le> w" "w \<le> 1460"
    using div_bounds [of 1461 x] c(3,4) by (auto simp: q_def w_def)
  have r: "0 \<le> r" "r \<le> 3" "0 \<le> w - 365 * r" "w - 365 * r \<le> 365" "w - 365 * r = 365 \<longrightarrow> r = 3 \<and> w = 1460"
    using div_bounds [of 365 w] q(3,4) by (auto simp: r_def min_def)
  show thesis
  proof (rule that [of c q r "w - 365 * r"])
    show "w - 365 * r = 365 \<longrightarrow> r = 3 \<and> (q < 24 \<or> c = 3)" using r(5) c(5) q(2) by (auto simp: w_def)
    show "doe = 36524 * c + 1461 * q + 365 * r + (w - 365 * r)" by (simp add: w_def x_def)
  qed (use c q r in auto)
qed

text \<open>The first day of a year counted from March 1, and whether that year has a February 29.\<close>

definition year_start :: "int \<Rightarrow> int" where
  "year_start y = 365 * y + y div 4 - y div 100 + y div 400"

lemma year_start_era: "0 \<le> yoe \<Longrightarrow> yoe < 400 \<Longrightarrow> year_start (400 * era + yoe) = 146097 * era + (365 * yoe + yoe div 4 - yoe div 100)"
proof -
  assume yoe: "0 \<le> yoe" "yoe < 400"
  have "(400 * era + yoe) div 4 = 100 * era + yoe div 4" "(400 * era + yoe) div 100 = 4 * era + yoe div 100" "(400 * era + yoe) div 400 = era"
    using yoe div_bounds [of 4 yoe] div_bounds [of 100 yoe] by (auto intro!: div_eqI)
  then show ?thesis by (simp add: year_start_def)
qed

lemma days_from_civil_start:
  assumes "1 \<le> m" "m \<le> 12"
  shows "days_from_civil y m d = year_start (if m \<le> 2 then y - 1 else y) + (153 * (if 2 < m then m - 3 else m + 9) + 2) div 5 + d - 1 - 719468"
proof -
  define y' where "y' = (if m \<le> 2 then y - 1 else y)"
  have yoe: "0 \<le> y' - y' div 400 * 400" "y' - y' div 400 * 400 < 400" using div_bounds [of 400 y'] by simp_all
  from year_start_era [OF yoe, of "y' div 400"] have "year_start y' = 146097 * (y' div 400) + (365 * (y' - y' div 400 * 400) + (y' - y' div 400 * 400) div 4 - (y' - y' div 400 * 400) div 100)"
    by simp
  with yoe assms show ?thesis
    unfolding days_from_civil_def y'_def [symmetric] sdiv_era Let_def by simp
qed

text \<open>Months from March: the offset of month \<open>mp\<close> is \<open>(153 * mp + 2) div 5\<close>.\<close>

definition month_length :: "int \<Rightarrow> int" where
  "month_length mp = (if mp = 11 then 29 else if mp \<in> {1, 3, 6, 8} then 30 else 31)"

lemma month_cases: "0 \<le> mp \<Longrightarrow> mp \<le> 11 \<Longrightarrow> mp \<in> {0, 1, 2, 3, 4, 5, 6, 7, 8, 9, 10, 11 :: int}"
  by simp presburger

lemma month_of_day:
  assumes "0 \<le> mp" "mp \<le> 11" "1 \<le> d" "d \<le> month_length mp" and "doy = (153 * mp + 2) div 5 + d - 1"
  shows "(5 * doy + 2) div 153 = mp" "0 \<le> doy" "doy \<le> 365" "doy = 365 \<longleftrightarrow> mp = 11 \<and> d = 29"
  using month_cases [OF assms(1,2)] assms(3-5) by (auto simp: month_length_def intro!: div_eqI)

lemma day_of_month:
  assumes "0 \<le> doy" "doy \<le> 365" and mp: "mp = (5 * doy + 2) div 153"
  shows "0 \<le> mp" "mp \<le> 11" "1 \<le> doy - (153 * mp + 2) div 5 + 1" "doy - (153 * mp + 2) div 5 + 1 \<le> month_length mp"
proof -
  have b: "153 * mp \<le> 5 * doy + 2" "5 * doy + 2 < 153 * mp + 153" unfolding mp using div_bounds [of 153 "5 * doy + 2"] by simp_all
  with assms show r: "0 \<le> mp" "mp \<le> 11" by auto
  from month_cases [OF this] b assms(1,2) show "1 \<le> doy - (153 * mp + 2) div 5 + 1" "doy - (153 * mp + 2) div 5 + 1 \<le> month_length mp"
    by (auto simp: month_length_def)
qed

lemma leap_coordinates:
  assumes "0 \<le> c" "c \<le> 3" "0 \<le> q" "q \<le> 24" "0 \<le> r" "r \<le> 3"
  shows "leap (400 * era + 100 * c + 4 * q + r + 1) \<longleftrightarrow> r = 3 \<and> (q < 24 \<or> c = 3)"
proof (cases "r = 3")
  case False
  have "(400 * era + 100 * c + 4 * q + r + 1) mod 4 = (r + 1 + 4 * (100 * era + 25 * c + q)) mod 4" by (simp add: algebra_simps)
  also have "\<dots> = (r + 1) mod 4" by (rule mod_mult_self2)
  also have "\<dots> = r + 1" using assms False by (simp add: mod_pos_pos_trivial)
  finally show ?thesis using assms False by (simp add: leap_def)
next
  case True
  let ?y = "400 * era + 100 * c + 4 * q + r + 1"
  have 4: "?y mod 4 = 0" using True by presburger
  have "?y mod 100 = (4 * (q + 1) + 100 * (4 * era + c)) mod 100" using True by (simp add: algebra_simps)
  then have 100: "?y mod 100 = (4 * (q + 1)) mod 100" by (simp only: mod_mult_self2)
  have "?y mod 400 = (100 * c + 4 * (q + 1) + 400 * era) mod 400" using True by (simp add: algebra_simps)
  then have 400: "?y mod 400 = (100 * c + 4 * (q + 1)) mod 400" by (simp only: mod_mult_self2)
  show ?thesis
  proof (cases "q = 24")
    case q: True
    have "?y mod 400 = (100 * (c + 1)) mod 400" "?y mod 100 = 0" using 400 100 q by (simp_all add: algebra_simps)
    moreover have "c \<in> {0, 1, 2, 3}" using assms by auto
    ultimately show ?thesis using True 4 q by (auto simp: leap_def)
  next
    case False
    then have "(4 * (q + 1)) mod 100 = 4 * (q + 1)" using assms by (intro mod_pos_pos_trivial) simp_all
    with 100 4 False True assms show ?thesis by (simp add: leap_def)
  qed
qed

lemma civil_coordinates:
  assumes "0 \<le> c" "c \<le> 3" "0 \<le> q" "q \<le> 24" "0 \<le> r" "r \<le> 3" "0 \<le> doy" "doy \<le> 365" "doy = 365 \<longrightarrow> r = 3 \<and> (q < 24 \<or> c = 3)"
    and y: "y = 400 * era + 100 * c + 4 * q + r" and mp: "mp = (5 * doy + 2) div 153"
  shows "civil_from_days (year_start y + doy - 719468) = (if mp < 10 then (y, mp + 3, doy - (153 * mp + 2) div 5 + 1) else (y + 1, mp - 9, doy - (153 * mp + 2) div 5 + 1))"
    and "year_start y = 146097 * era + 36524 * c + 1461 * q + 365 * r"
proof -
  define yoe where "yoe = 100 * c + 4 * q + r"
  define doe where "doe = 36524 * c + 1461 * q + 365 * r + doy"
  have yoe: "0 \<le> yoe" "yoe < 400" "yoe div 4 = 25 * c + q" "yoe div 100 = c"
    using assms(1-6) by (auto simp: yoe_def intro!: div_eqI)
  have y': "y = 400 * era + yoe" by (simp add: y yoe_def)
  show ys: "year_start y = 146097 * era + 36524 * c + 1461 * q + 365 * r" unfolding y' year_start_era [OF yoe(1,2)] yoe(3,4) by (simp add: yoe_def)
  note day = year_of_day [OF assms(1-9) doe_def]
  have z: "year_start y + doy - 719468 + 719468 = 146097 * era + doe" unfolding ys doe_def by simp
  have era: "(146097 * era + doe) div 146097 = era" using day(2,3) by (intro div_eqI) simp_all
  have doe': "146097 * era + doe - era * 146097 = doe" by simp
  have dy: "(doe - doe sdiv 1460 + doe sdiv 36524 - doe sdiv 146096) sdiv 365 = yoe"
  proof -
    have "0 \<le> doe - doe div 1460 + doe div 36524 - doe div 146096" using day(1) yoe(1) div_bounds [of 365 "doe - doe div 1460 + doe div 36524 - doe div 146096"]
      by (simp add: yoe_def)
    then show ?thesis using day by (simp add: yoe_def)
  qed
  have doy: "doe - (365 * yoe + yoe sdiv 4 - yoe sdiv 100) = doy" using yoe by (simp add: doe_def yoe_def)
  have mpr: "0 \<le> mp" "mp \<le> 11" using day_of_month [OF assms(7,8) mp] by simp_all
  have "(5 * doy + 2) sdiv 153 = mp" "(153 * mp + 2) sdiv 5 = (153 * mp + 2) div 5" using assms(7) mpr by (simp_all add: mp)
  then show "civil_from_days (year_start y + doy - 719468) = (if mp < 10 then (y, mp + 3, doy - (153 * mp + 2) div 5 + 1) else (y + 1, mp - 9, doy - (153 * mp + 2) div 5 + 1))"
    using mpr unfolding civil_from_days_def Let_def z sdiv_era era doe' dy doy by (auto simp: y')
qed

lemma year_coordinates:
  obtains era c q r where "(y :: int) = 400 * era + 100 * c + 4 * q + r" "0 \<le> c" "c \<le> 3" "0 \<le> q" "q \<le> 24" "0 \<le> r" "r \<le> 3"
proof -
  define yoe where "yoe = y - 400 * (y div 400)"
  define w where "w = yoe - 100 * (yoe div 100)"
  have "0 \<le> yoe" "yoe < 400" "0 \<le> w" "w < 100" using div_bounds [of 400 y] div_bounds [of 100 yoe] by (simp_all add: yoe_def w_def)
  then show thesis using div_bounds [of 100 yoe] div_bounds [of 4 w]
    by (intro that [of "y div 400" "yoe div 100" "w div 4" "w - 4 * (w div 4)"]) (auto simp: yoe_def w_def)
qed

lemma civil_valid_inverse: "valid_date (civil_from_days z) \<and> (case civil_from_days z of (y, m, d) \<Rightarrow> days_from_civil y m d) = z"
proof -
  define era where "era = (z + 719468) div 146097"
  have "0 \<le> z + 719468 - 146097 * era" "z + 719468 - 146097 * era \<le> 146096" unfolding era_def using div_bounds [of 146097 "z + 719468"] by simp_all
  then obtain c q r doy where co: "0 \<le> c" "c \<le> 3" "0 \<le> q" "q \<le> 24" "0 \<le> r" "r \<le> 3" "0 \<le> doy" "doy \<le> 365"
    "doy = 365 \<longrightarrow> r = 3 \<and> (q < 24 \<or> c = 3)" and z: "z + 719468 - 146097 * era = 36524 * c + 1461 * q + 365 * r + doy"
    by (rule day_coordinates)
  define y where "y = 400 * era + 100 * c + 4 * q + r"
  define mp where "mp = (5 * doy + 2) div 153"
  define d where "d = doy - (153 * mp + 2) div 5 + 1"
  note civil = civil_coordinates [OF co y_def mp_def]
  note day = day_of_month [OF co(7,8) mp_def, folded d_def]
  have z': "year_start y + doy - 719468 = z" using civil(2) z by simp
  have c: "civil_from_days z = (if mp < 10 then (y, mp + 3, d) else (y + 1, mp - 9, d))" using civil(1) unfolding z' d_def .
  have "doy = 365 \<longleftrightarrow> mp = 11 \<and> d = 29" using month_of_day(4) [OF day] by (simp add: d_def)
  then have feb: "mp = 11 \<longrightarrow> d \<le> (if leap (y + 1) then 29 else 28)"
    using leap_coordinates [OF co(1-6), of era] co(9) day(4) by (auto simp: y_def month_length_def add.assoc)
  have "valid_date (civil_from_days z)"
    using month_cases [OF day(1,2)] day(3,4) feb unfolding c by (auto simp: valid_date_def days_in_month_def month_length_def)
  moreover have "(case civil_from_days z of (y, m, d) \<Rightarrow> days_from_civil y m d) = z"
    using day(1,2) z' unfolding c by (auto simp: days_from_civil_start d_def)
  ultimately show ?thesis by simp
qed

lemma days_inverse_civil:
  assumes "valid_date (y, m, d)"
  shows "civil_from_days (days_from_civil y m d) = (y, m, d)"
proof -
  define y' where "y' = (if m \<le> 2 then y - 1 else y)"
  define mp where "mp = (if 2 < m then m - 3 else m + 9)"
  define doy where "doy = (153 * mp + 2) div 5 + d - 1"
  have m: "1 \<le> m" "m \<le> 12" "1 \<le> d" "d \<le> days_in_month y m" using assms by (simp_all add: valid_date_def)
  have mp: "0 \<le> mp" "mp \<le> 11" using m by (simp_all add: mp_def)
  have "m \<in> {1, 2, 3, 4, 5, 6, 7, 8, 9, 10, 11, 12}" using month_cases [of "m - 1"] m by auto
  with m(4) have len: "d \<le> month_length mp" by (auto simp: mp_def month_length_def days_in_month_def split: if_splits)
  note day = month_of_day [OF mp m(3) len doy_def]
  obtain era c q r where co: "y' = 400 * era + 100 * c + 4 * q + r" "0 \<le> c" "c \<le> 3" "0 \<le> q" "q \<le> 24" "0 \<le> r" "r \<le> 3" by (rule year_coordinates)
  have "doy = 365 \<longrightarrow> leap (y' + 1)" using day(4) m(2,4) by (auto simp: mp_def y'_def days_in_month_def split: if_splits)
  then have last: "doy = 365 \<longrightarrow> r = 3 \<and> (q < 24 \<or> c = 3)" using leap_coordinates [OF co(2-7), of era] by (simp add: co(1))
  have days: "days_from_civil y m d = year_start y' + doy - 719468" by (simp add: days_from_civil_start [OF m(1,2)] y'_def mp_def doy_def)
  show ?thesis unfolding days civil_coordinates(1) [OF co(2-7) day(2,3) last co(1) day(1) [symmetric]]
    using m by (auto simp: mp_def y'_def doy_def)
qed

lemma days_next_day:
  assumes "valid_date (y, m, d)"
  shows "(case next_day (y, m, d) of (y, m, d) \<Rightarrow> days_from_civil y m d) = days_from_civil y m d + 1"
proof -
  have m: "1 \<le> m" "m \<le> 12" "1 \<le> d" "d \<le> days_in_month y m" using assms by (simp_all add: valid_date_def)
  obtain era c q r where co: "y - 1 = 400 * era + 100 * c + 4 * q + r" "0 \<le> c" "c \<le> 3" "0 \<le> q" "q \<le> 24" "0 \<le> r" "r \<le> 3" by (rule year_coordinates)
  have start: "year_start y = year_start (y - 1) + (if leap y then 366 else 365)"
  proof -
    have lp: "leap y \<longleftrightarrow> r = 3 \<and> (q < 24 \<or> c = 3)" using leap_coordinates [OF co(2-7), of era] co(1) by (simp add: algebra_simps)
    have "y div 4 = (y - 1) div 4 + (if r = 3 then 1 else 0)" "y div 100 = (y - 1) div 100 + (if r = 3 \<and> q = 24 then 1 else 0)"
      "y div 400 = (y - 1) div 400 + (if r = 3 \<and> q = 24 \<and> c = 3 then 1 else 0)"
    proof -
      have y: "y = 400 * era + 100 * c + 4 * q + r + 1" using co(1) by simp
      have "(y - 1) div 4 = 100 * era + 25 * c + q" "(y - 1) div 100 = 4 * era + c" "(y - 1) div 400 = era"
        using co unfolding y by (auto intro!: div_eqI)
      moreover have "y div 4 = 100 * era + 25 * c + q + (if r = 3 then 1 else 0)" "y div 100 = 4 * era + c + (if r = 3 \<and> q = 24 then 1 else 0)"
        "y div 400 = era + (if r = 3 \<and> q = 24 \<and> c = 3 then 1 else 0)"
        using co unfolding y by (auto intro!: div_eqI)
      ultimately show "y div 4 = (y - 1) div 4 + (if r = 3 then 1 else 0)" "y div 100 = (y - 1) div 100 + (if r = 3 \<and> q = 24 then 1 else 0)"
        "y div 400 = (y - 1) div 400 + (if r = 3 \<and> q = 24 \<and> c = 3 then 1 else 0)" by simp_all
    qed
    with lp co show ?thesis by (auto simp: year_start_def)
  qed
  have "m \<in> {1, 2, 3, 4, 5, 6, 7, 8, 9, 10, 11, 12}" using month_cases [of "m - 1"] m by auto
  with m(3,4) start show ?thesis
    by (auto simp: next_day_def days_in_month_def days_from_civil_start split: if_splits)
qed

text \<open>C35. The date arithmetic is the Gregorian calendar: day 0 is January 1 of 1970, the date of the next day is
  the calendar's next day, every date is one of the calendar, and the two conversions are
  inverse to each other.\<close>
theorem civil_dates_follow_calendar:
  "civil_from_days 0 = (1970, 1, 1) \<and> civil_from_days (z + 1) = next_day (civil_from_days z) \<and> valid_date (civil_from_days z) \<and>
   (case civil_from_days z of (y, m, d) \<Rightarrow> days_from_civil y m d) = z \<and>
   (valid_date (y, m, d) = (civil_from_days (days_from_civil y m d) = (y, m, d)))"
proof (intro conjI)
  have "days_from_civil 1970 1 1 = 0" by (simp add: days_from_civil_start year_start_def)
  with days_inverse_civil [of 1970 1 1] show "civil_from_days 0 = (1970, 1, 1)" by (simp add: valid_date_def days_in_month_def)
  obtain y' m' d' where c: "civil_from_days z = (y', m', d')" by (metis prod.exhaust)
  have v: "valid_date (y', m', d')" "days_from_civil y' m' d' = z" using civil_valid_inverse [of z] by (simp_all add: c)
  obtain y'' m'' d'' where n: "next_day (y', m', d') = (y'', m'', d'')" by (metis prod.exhaust)
  have "valid_date (y'', m'', d'')" using v(1) n by (auto simp: next_day_def valid_date_def days_in_month_def split: if_splits)
  moreover have "days_from_civil y'' m'' d'' = z + 1" using days_next_day [OF v(1)] by (simp add: n v(2))
  ultimately show "civil_from_days (z + 1) = next_day (civil_from_days z)" using days_inverse_civil c n by metis
  show "valid_date (civil_from_days z)" "(case civil_from_days z of (y, m, d) \<Rightarrow> days_from_civil y m d) = z" using civil_valid_inverse [of z] by simp_all
  show "valid_date (y, m, d) = (civil_from_days (days_from_civil y m d) = (y, m, d))" using days_inverse_civil [of y m d] civil_valid_inverse [of "days_from_civil y m d"] by auto
qed

section \<open>Timestamps as text\<close>

lemma pad_int_digits: "0 \<le> i \<Longrightarrow> pad_int w i \<noteq> [] \<and> list_all is_ascii_digit (pad_int w i)"
  using dec_string_digits [of "nat i"] by (auto simp: pad_int_def Let_def list_all_iff is_ascii_digit_def)

lemma parse_pad_int: "0 \<le> i \<Longrightarrow> i64_range i \<Longrightarrow> parse_i64 (pad_int w i) = Some i"
proof -
  assume i: "0 \<le> i" "i64_range i"
  obtain c cs where p: "pad_int w i = c # cs" "is_ascii_digit c" using pad_int_digits [OF i(1), of w] by (cases "pad_int w i") auto
  have "parse_digits (pad_int w i) 0 = Some (nat i)" using i by (simp add: pad_int_def Let_def parse_zeros parse_dec_string)
  with p i show ?thesis by (auto simp: parse_i64_def)
qed

lemma split_at_any_first: "list_all (\<lambda>c. \<not> p c) xs \<Longrightarrow> p c \<Longrightarrow> split_at_any p (xs @ c # ys) = Some (xs, ys)"
  by (induction xs) (auto simp: split_at_any_def split: list.splits)

lemma time_secs_format:
  assumes "0 \<le> hh" "hh < 24" "0 \<le> mm" "mm < 60" "0 \<le> ss" "ss < 60"
  shows "time_secs (pad_int 2 hh @ '':'' @ pad_int 2 mm @ '':'' @ pad_int 2 ss) = Some (hh * 3600 + mm * 60 + ss)"
proof -
  let ?t = "pad_int 2 hh @ '':'' @ pad_int 2 mm @ '':'' @ pad_int 2 ss"
  note d = pad_int_digits [OF assms(1), of 2] pad_int_digits [OF assms(3), of 2] pad_int_digits [OF assms(5), of 2]
  have t: "list_all (\<lambda>c. c = CHR '':'' \<or> is_ascii_digit c) ?t" using d by (auto simp: list_all_iff)
  obtain xs x where "pad_int 2 ss = xs @ [x]" "is_ascii_digit x" using d(3) by (cases "pad_int 2 ss" rule: rev_cases) auto
  then have 1: "trim_end_char CHR ''Z'' ?t = ?t" by (auto simp: trim_end_char_def)
  have 2: "takeWhile (\<lambda>c. c \<noteq> CHR ''+'' \<and> c \<noteq> CHR ''Z'') ?t = ?t" by (rule takeWhile_whole, rule list_all_mono [OF t]) auto
  have cuts: "before_char CHR ''-'' ?t = ?t" "before_char CHR ''.'' ?t = ?t"
    unfolding before_char_def by (rule takeWhile_whole, rule list_all_mono [OF t], force)+
  have 3: "split_on (\<lambda>c. c = CHR '':'') [] ?t = [pad_int 2 hh, pad_int 2 mm, pad_int 2 ss]"
    using d by (intro split_on_three) simp_all
  have 4: "trim (pad_int 2 hh) = pad_int 2 hh"
    using d(1) by (simp add: trim_digits)
  have r: "i64_range hh" "i64_range mm" "i64_range ss" using assms by (simp_all add: i64_range_def)
  show ?thesis unfolding time_secs_def Let_def 1 2 cuts 3 using assms r by (simp add: part_or_zero_def 4 parse_pad_int)
qed

lemma parts_ranges:
  assumes "parts e = (y, m, d, hh, mm, ss)"
  shows "valid_date (y, m, d)" "0 \<le> hh" "hh < 24" "0 \<le> mm" "mm < 60" "0 \<le> ss" "ss < 60" "e = days_from_civil y m d * 86400 + hh * 3600 + mm * 60 + ss"
proof -
  obtain y' m' d' where c: "civil_from_days (e div 86400) = (y', m', d')" by (metis prod.exhaust)
  with assms have p: "y' = y" "m' = m" "d' = d" "hh = e mod 86400 div 3600" "mm = e mod 86400 mod 3600 div 60" "ss = e mod 86400 mod 60"
    by (simp_all add: parts_def Let_def)
  show "valid_date (y, m, d)" using civil_valid_inverse [of "e div 86400"] by (simp add: c p)
  have days: "days_from_civil y m d = e div 86400" using civil_valid_inverse [of "e div 86400"] by (simp add: c p)
  have 1: "0 \<le> e mod 86400" "e mod 86400 < 86400" by simp_all
  show "0 \<le> hh" "hh < 24" "0 \<le> mm" "mm < 60" "0 \<le> ss" "ss < 60" unfolding p using 1 div_bounds [of 3600 "e mod 86400"] div_bounds [of 60 "e mod 86400 mod 3600"] pos_mod_bound [of 3600 "e mod 86400"] pos_mod_sign [of 3600 "e mod 86400"]
    by auto
  have "e mod 86400 mod 60 = e mod 86400 mod 3600 mod 60" by (simp add: mod_mod_cancel)
  then show "e = days_from_civil y m d * 86400 + hh * 3600 + mm * 60 + ss"
    unfolding days p using mult_div_mod_eq [of 86400 e] mult_div_mod_eq [of 3600 "e mod 86400"] mult_div_mod_eq [of 60 "e mod 86400 mod 3600"] by linarith
qed

lemma year_le_days:
  assumes "valid_date (y, m, d)" and "0 \<le> y"
  shows "365 * y - 719840 \<le> days_from_civil y m d"
proof -
  have m: "1 \<le> m" "m \<le> 12" "1 \<le> d" using assms(1) by (simp_all add: valid_date_def)
  have start: "365 * k - 3 \<le> year_start k" if "-1 \<le> k" for k
    using that div_bounds [of 4 k] div_bounds [of 100 k] div_bounds [of 400 k] by (auto simp: year_start_def)
  have "0 \<le> 153 * (if 2 < m then m - 3 else m + 9) + 2" using m by simp
  then have "0 \<le> (153 * (if 2 < m then m - 3 else m + 9) + 2) div 5" by (rule pos_imp_zdiv_nonneg_iff [THEN iffD2, rotated]) simp
  with start [of "if m \<le> 2 then y - 1 else y"] m assms(2) show ?thesis unfolding days_from_civil_start [OF m(1,2)] by (auto split: if_splits)
qed

text \<open>C36. A printed timestamp parses back to the same second, for every 64-bit epoch from year 0 on.  (A negative year
  is printed with a sign, which the parser takes for an empty year.)\<close>
theorem timestamp_roundtrip:
  assumes "i64_range e" and "0 \<le> fst (parts e)"
  shows "parse_epoch_secs (format_timestamp e) = Some e"
proof -
  obtain y m d hh mm ss where p: "parts e = (y, m, d, hh, mm, ss)" by (metis prod.exhaust)
  note r = parts_ranges [OF p]
  have y: "0 \<le> y" using assms(2) by (simp add: p)
  have m: "0 \<le> m" "0 \<le> d" "1 \<le> m" "m \<le> 12" "1 \<le> d" "d \<le> 31" using r(1) by (auto simp: valid_date_def days_in_month_def split: if_splits)
  have yr: "i64_range y" "i64_range m" "i64_range d"
    using m y year_le_days [OF r(1) y] r(2,4,6,8) assms(1) by (auto simp: i64_range_def)
  let ?date = "pad_int 4 y @ ''-'' @ pad_int 2 m @ ''-'' @ pad_int 2 d"
  let ?time = "pad_int 2 hh @ '':'' @ pad_int 2 mm @ '':'' @ pad_int 2 ss"
  have fmt: "format_timestamp e = ?date @ CHR '' '' # ?time" by (simp add: format_timestamp_def p)
  note dg = pad_int_digits [OF y, of 4] pad_int_digits [OF m(1), of 2] pad_int_digits [OF m(2), of 2]
    pad_int_digits [OF r(2), of 2] pad_int_digits [OF r(4), of 2] pad_int_digits [OF r(6), of 2]
  have date: "list_all (\<lambda>c. c = CHR ''-'' \<or> is_ascii_digit c) ?date" and time: "list_all (\<lambda>c. c = CHR '':'' \<or> is_ascii_digit c) ?time"
    using dg by (auto simp: list_all_iff)
  have trim: "trim (?date @ CHR '' '' # ?time) = ?date @ CHR '' '' # ?time"
  proof (rule trim_plain)
    have "list_all (\<lambda>c. (of_char c :: nat) < 128) ?date" by (rule list_all_mono [OF date]) (auto simp: is_ascii_digit_def)
    moreover have "list_all (\<lambda>c. (of_char c :: nat) < 128) ?time" by (rule list_all_mono [OF time]) (auto simp: is_ascii_digit_def)
    ultimately show "list_all (\<lambda>c. (of_char c :: nat) < 128) (?date @ CHR '' '' # ?time)" unfolding list_all_append by simp
    show "plain (hd (?date @ CHR '' '' # ?time))" "plain (last (?date @ CHR '' '' # ?time))"
      using dg(1,6) by (auto simp: list_all_iff is_digit_plain hd_append last_append)
  qed simp
  have cut: "split_at_any (\<lambda>c. c = CHR ''T'' \<or> c = CHR '' '') (?date @ CHR '' '' # ?time) = Some (?date, ?time)"
  proof -
    have no: "list_all (\<lambda>c. \<not> (c = CHR ''T'' \<or> c = CHR '' '')) ?date" by (rule list_all_mono [OF date]) auto
    show ?thesis by (rule split_at_any_first [OF no]) simp
  qed
  have dp: "split_on (\<lambda>c. c = CHR ''-'') [] ?date = [pad_int 4 y, pad_int 2 m, pad_int 2 d]"
    using dg by (intro split_on_three) simp_all
  have e: "wrap_i64 (days_from_civil y m d * 86400 + (hh * 3600 + mm * 60 + ss)) = e"
    using r(8) assms(1) by (simp add: wrap_i64_def i64_range_def mod_pos_pos_trivial)
  show ?thesis unfolding fmt parse_epoch_secs_def Let_def trim cut option.case case_prod_conv dp time_secs_format [OF r(2-7)]
    using m e yr y by (simp add: nth_part_def parse_pad_int)
qed

theorem timestamp_roundtrip_witness: "parse_epoch_secs (format_timestamp 1625401845) = Some 1625401845"
proof (rule timestamp_roundtrip)
  have "civil_from_days 18812 = (2021, 7, 4)"
    using days_inverse_civil [of 2021 7 4] by (simp add: days_from_civil_start year_start_def valid_date_def days_in_month_def)
  then show "0 \<le> fst (parts 1625401845)" by (simp add: parts_def)
qed (simp add: i64_range_def)

text \<open>A day up to 31 is accepted in every month and rolls over into the next one.\<close>

lemma impossible_date_accepted: "parse_epoch_secs ''2021-02-31'' = parse_epoch_secs ''2021-03-03'' \<and> parse_epoch_secs ''2021-03-03'' = Some 1614729600"
  by code_simp

section \<open>Truncation\<close>

lemma parts_epoch_at:
  assumes "valid_date (y, m, d)" "0 \<le> hh" "hh < 24" "0 \<le> mm" "mm < 60" "0 \<le> ss" "ss < 60"
  shows "parts (epoch_at y m d hh mm ss) = (y, m, d, hh, mm, ss)"
proof -
  define t where "t = hh * 3600 + mm * 60 + ss"
  have t: "0 \<le> t" "t < 86400" using assms by (simp_all add: t_def)
  have e: "epoch_at y m d hh mm ss = 86400 * days_from_civil y m d + t" by (simp add: epoch_at_def t_def)
  have day: "(86400 * days_from_civil y m d + t) div 86400 = days_from_civil y m d" using t by (intro div_eqI) simp_all
  have rem: "(86400 * days_from_civil y m d + t) mod 86400 = t" using t by (simp add: mod_pos_pos_trivial)
  have h: "t div 3600 = hh" using assms by (intro div_eqI) (simp_all add: t_def)
  have h': "t mod 3600 = mm * 60 + ss" using h mult_div_mod_eq [of 3600 t] by (simp add: t_def)
  have m: "(mm * 60 + ss) div 60 = mm" using assms by (intro div_eqI) simp_all
  have s: "t mod 60 = ss" using assms by (simp add: t_def mod_pos_pos_trivial mod_add_left_eq [symmetric])
  show ?thesis unfolding e parts_def Let_def day rem days_inverse_civil [OF assms(1)] h h' m s by simp
qed

text \<open>\<^verbatim>\<open>date_trunc\<close> keeps the fields down to the unit and sets the finer ones to the start of the unit; a week is
  truncated to its Monday.\<close>
theorem date_trunc_fields:
  "case parts e of (y, m, d, hh, mm, ss) \<Rightarrow>
     map_option parts (date_trunc ''year'' e) = Some (y, 1, 1, 0, 0, 0) \<and>
     map_option parts (date_trunc ''quarter'' e) = Some (y, 3 * ((m - 1) div 3) + 1, 1, 0, 0, 0) \<and>
     map_option parts (date_trunc ''month'' e) = Some (y, m, 1, 0, 0, 0) \<and>
     map_option parts (date_trunc ''day'' e) = Some (y, m, d, 0, 0, 0) \<and>
     map_option parts (date_trunc ''hour'' e) = Some (y, m, d, hh, 0, 0) \<and>
     map_option parts (date_trunc ''minute'' e) = Some (y, m, d, hh, mm, 0) \<and>
     date_trunc ''second'' e = Some e \<and>
     (\<exists>w. date_trunc ''week'' e = Some w \<and> day_of_week w = 1 \<and> w mod 86400 = 0 \<and> w \<le> e \<and> e < w + 7 * 86400)"
proof -
  obtain y m d hh mm ss where p: "parts e = (y, m, d, hh, mm, ss)" by (metis prod.exhaust)
  note r = parts_ranges [OF p]
  have m: "1 \<le> m" "m \<le> 12" using r(1) by (simp_all add: valid_date_def)
  have q: "valid_date (y, 3 * ((m - 1) div 3) + 1, 1)" "valid_date (y, 1, 1)" "valid_date (y, m, 1)"
    using m div_bounds [of 3 "m - 1"] by (auto simp: valid_date_def days_in_month_def)
  have low: "to_ascii_lowercase ''year'' = ''year''" "to_ascii_lowercase ''quarter'' = ''quarter''" "to_ascii_lowercase ''month'' = ''month''"
    "to_ascii_lowercase ''week'' = ''week''" "to_ascii_lowercase ''day'' = ''day''" "to_ascii_lowercase ''hour'' = ''hour''"
    "to_ascii_lowercase ''minute'' = ''minute''" "to_ascii_lowercase ''second'' = ''second''" by code_simp+
  define days where "days = e div 86400"
  define monday where "monday = days - (days mod 7 + 3) mod 7"
  have week: "date_trunc ''week'' e = Some (monday * 86400)" by (simp add: date_trunc_def p low days_def monday_def Let_def)
  have "day_of_week (monday * 86400) = 1" unfolding day_of_week_def Let_def monday_def by simp presburger
  moreover have "monday \<le> days" "days < monday + 7" unfolding monday_def by presburger+
  then have "monday * 86400 \<le> e \<and> e < monday * 86400 + 7 * 86400" using div_bounds [of 86400 e] unfolding days_def by simp
  ultimately have "\<exists>w. date_trunc ''week'' e = Some w \<and> day_of_week w = 1 \<and> w mod 86400 = 0 \<and> w \<le> e \<and> e < w + 7 * 86400"
    using week by auto
  moreover have "date_trunc ''year'' e = Some (epoch_at y 1 1 0 0 0)" by (simp add: date_trunc_def p low)
  moreover have "date_trunc ''quarter'' e = Some (epoch_at y (3 * ((m - 1) div 3) + 1) 1 0 0 0)" using m by (simp add: date_trunc_def p low mult.commute)
  moreover have "date_trunc ''month'' e = Some (epoch_at y m 1 0 0 0)" by (simp add: date_trunc_def p low)
  moreover have "date_trunc ''day'' e = Some (epoch_at y m d 0 0 0)" by (simp add: date_trunc_def p low)
  moreover have "date_trunc ''hour'' e = Some (epoch_at y m d hh 0 0)" by (simp add: date_trunc_def p low)
  moreover have "date_trunc ''minute'' e = Some (epoch_at y m d hh mm 0)" by (simp add: date_trunc_def p low)
  moreover have "date_trunc ''second'' e = Some e" by (simp add: date_trunc_def p low)
  ultimately show ?thesis unfolding p case_prod_conv using r(1-7) q by (simp only: option.map parts_epoch_at)
qed

end
