(* ===== verification/Scalar_Funcs.thy ===== *)
theory Scalar_Funcs
  imports Json Datetime
begin

text \<open>
  The scalar function library (\<^verbatim>\<open>call_func\<close> and its helpers in \<^verbatim>\<open>crates/engine/src/exec.rs\<close>).  \<open>func_ops\<close> holds what
  the library takes from outside: Unicode case mapping, the \<^verbatim>\<open>f64\<close> functions of the platform, the
  clock and the sources of randomness.  Unchecked 64-bit sums wrap around, as in a release build; a
  remainder by zero and a capacity that overflows are panics in every build.
\<close>

unbundle bit_operations_syntax

record func_ops =
  fo_lower :: "string \<Rightarrow> string"
  fo_upper :: "string \<Rightarrow> string"
  fo_ceil :: "u64 \<Rightarrow> u64"
  fo_floor :: "u64 \<Rightarrow> u64"
  fo_sqrt :: "u64 \<Rightarrow> u64"
  fo_exp :: "u64 \<Rightarrow> u64"
  fo_ln :: "u64 \<Rightarrow> u64"
  fo_log10 :: "u64 \<Rightarrow> u64"
  fo_trunc :: "u64 \<Rightarrow> u64"
  fo_round :: "u64 \<Rightarrow> u64"
  fo_powf :: "u64 \<Rightarrow> u64 \<Rightarrow> u64"
  fo_pow10 :: "int \<Rightarrow> u64"
  fo_display_f32 :: "u32 \<Rightarrow> string"
  fo_now :: int
  fo_nanos :: "nat \<Rightarrow> u64"
  fo_counter :: u64
  fo_pid :: u64

section \<open>Arguments\<close>

definition arg :: "sql_value list \<Rightarrow> nat \<Rightarrow> sql_value option" where
  "arg args i = (if i < length args then Some (args ! i) else None)"

definition arg_or_null :: "sql_value list \<Rightarrow> nat \<Rightarrow> sql_value" where
  "arg_or_null args i = (case arg args i of Some v \<Rightarrow> v | None \<Rightarrow> VNull)"

definition num_arg :: "scalar_ops \<Rightarrow> sql_value list \<Rightarrow> nat \<Rightarrow> u64 option" where
  "num_arg so args i = (case arg args i of
     Some (VInt n) \<Rightarrow> Some (f64_of_i64 n)
   | Some (VReal r) \<Rightarrow> Some r
   | Some (VText s) \<Rightarrow> so_parse_f64 so (trim s)
   | _ \<Rightarrow> None)"

definition int_arg :: "scalar_ops \<Rightarrow> sql_value list \<Rightarrow> nat \<Rightarrow> int option" where
  "int_arg so args i = map_option i64_of_f64 (num_arg so args i)"

definition map_text :: "scalar_ops \<Rightarrow> sql_value list \<Rightarrow> (string \<Rightarrow> string) \<Rightarrow> sql_value" where
  "map_text so args f = (if is_null (arg_or_null args 0) then VNull else VText (f (text_of so (arg_or_null args 0))))"

definition unary_real :: "sql_value list \<Rightarrow> (u64 \<Rightarrow> u64) \<Rightarrow> sql_value xres" where
  "unary_real args f = (case arg_or_null args 0 of
     VNull \<Rightarrow> Inr VNull
   | VInt n \<Rightarrow> Inr (VReal (f (f64_of_i64 n)))
   | VReal r \<Rightarrow> Inr (VReal (f r))
   | _ \<Rightarrow> Inl (Raised ErrSql))"

section \<open>Text functions\<close>

text \<open>\<^verbatim>\<open>str::replace\<close> and \<^verbatim>\<open>str::find\<close>; an empty pattern matches at every character boundary.\<close>

function replace_all :: "string \<Rightarrow> string \<Rightarrow> string \<Rightarrow> string" where
  "replace_all f t s = (if f = [] \<or> s = [] then s
     else if take (length f) s = f then t @ replace_all f t (drop (length f) s)
     else hd s # replace_all f t (tl s))"
  by pat_completeness auto
termination by (relation "measure (\<lambda>(f, t, s). length s)") auto

declare replace_all.simps [simp del]

definition str_replace :: "string \<Rightarrow> string \<Rightarrow> string \<Rightarrow> string" where
  "str_replace s f t = (if f = [] then t @ concat (map (\<lambda>c. c @ t) (chars s)) else replace_all f t s)"

fun str_find :: "string \<Rightarrow> string \<Rightarrow> nat option" where
  "str_find f [] = (if f = [] then Some 0 else None)"
| "str_find f (c # s) = (if take (length f) (c # s) = f then Some 0 else map_option Suc (str_find f s))"

definition replace_func :: "scalar_ops \<Rightarrow> sql_value list \<Rightarrow> sql_value" where
  "replace_func so args = (case (arg args 0, arg args 1, arg args 2) of
     (Some s, Some f, Some t) \<Rightarrow> if \<not> is_null s \<and> \<not> is_null f \<and> \<not> is_null t then VText (str_replace (text_of so s) (text_of so f) (text_of so t)) else VNull
   | _ \<Rightarrow> VNull)"

definition instr_func :: "scalar_ops \<Rightarrow> sql_value option \<Rightarrow> sql_value option \<Rightarrow> sql_value" where
  "instr_func so haystack needle = (case (haystack, needle) of
     (Some h, Some n) \<Rightarrow> if \<not> is_null h \<and> \<not> is_null n then
         (case str_find (text_of so n) (text_of so h) of
            Some i \<Rightarrow> VInt (int (length (chars (take i (text_of so h)))) + 1)
          | None \<Rightarrow> VInt 0)
       else VNull
   | _ \<Rightarrow> VNull)"

definition clamp :: "int \<Rightarrow> int \<Rightarrow> int \<Rightarrow> int" where
  "clamp lo hi x = max lo (min hi x)"

definition substr_func :: "scalar_ops \<Rightarrow> sql_value list \<Rightarrow> sql_value" where
  "substr_func so args = (if is_null (arg_or_null args 0) then VNull else
     let cs = chars (text_of so (arg_or_null args 0)); n = int (length cs) in
     (case int_arg so args 1 of None \<Rightarrow> VNull | Some start \<Rightarrow>
       let from1 = (if start < 0 then n + start + 1 else start);
           begin = nat (clamp 0 n (from1 - 1));
           piece = (\<lambda>stop. VText (concat (drop begin (take (max stop begin) cs)))) in
       (case arg args 2 of
          Some VNull \<Rightarrow> VNull
        | Some _ \<Rightarrow> piece (nat (clamp 0 n (wrap_i64 (from1 - 1 + (case int_arg so args 2 of Some len \<Rightarrow> len | None \<Rightarrow> 0)))))
        | None \<Rightarrow> piece (length cs))))"

definition side_func :: "scalar_ops \<Rightarrow> sql_value list \<Rightarrow> bool \<Rightarrow> sql_value" where
  "side_func so args left = (if is_null (arg_or_null args 0) then VNull else
     let cs = chars (text_of so (arg_or_null args 0)); n = int (length cs) in
     (case int_arg so args 1 of None \<Rightarrow> VNull | Some k \<Rightarrow>
       let tk = nat (if k \<ge> 0 then min k n else max (n + k) 0) in
       VText (concat (if left then take tk cs else drop (length cs - tk) cs))))"

definition pad_func :: "scalar_ops \<Rightarrow> sql_value list \<Rightarrow> bool \<Rightarrow> sql_value" where
  "pad_func so args left = (if is_null (arg_or_null args 0) then VNull else
     (case int_arg so args 1 of None \<Rightarrow> VNull | Some len0 \<Rightarrow>
       let len = nat (max len0 0); s = text_of so (arg_or_null args 0); cs = chars s;
           fill = chars (if is_null (arg_or_null args 2) then '' '' else text_of so (arg_or_null args 2)) in
       if length cs \<ge> len \<or> fill = [] then VText (concat (take len cs))
       else let pad = concat (map (\<lambda>i. fill ! (i mod length fill)) [0..<len - length cs]) in
         VText (if left then pad @ s else s @ pad)))"

definition repeat_func :: "scalar_ops \<Rightarrow> sql_value list \<Rightarrow> sql_value xres" where
  "repeat_func so args = (case (arg args 0, int_arg so args 1) of
     (Some s, Some n) \<Rightarrow> if is_null s then Inr VNull
       else let t = text_of so s; k = nat (max n 0) in
         if 2 ^ 63 \<le> length t * k then Inl Panicked else Inr (VText (concat (replicate k t)))
   | _ \<Rightarrow> Inr VNull)"

definition upper_hex :: "nat \<Rightarrow> char" where
  "upper_hex d = char_of (if d < 10 then 48 + d else 55 + d)"

definition to_hex :: "nat list \<Rightarrow> string" where
  "to_hex bs = concat (map (\<lambda>b. [upper_hex (b div 16), upper_hex (b mod 16)]) bs)"

definition hex_func :: "scalar_ops \<Rightarrow> sql_value list \<Rightarrow> sql_value" where
  "hex_func so args = (case arg_or_null args 0 of
     VNull \<Rightarrow> VNull
   | VBlob b \<Rightarrow> VText (to_hex (map unat b))
   | v \<Rightarrow> VText (to_hex (map of_char (text_of so v))))"

definition text_funcs :: "func_ops \<Rightarrow> scalar_ops \<Rightarrow> string \<Rightarrow> sql_value list \<Rightarrow> sql_value xres option" where
  "text_funcs fo so n args =
    (if n = ''lower'' then Some (Inr (map_text so args (fo_lower fo)))
     else if n = ''upper'' then Some (Inr (map_text so args (fo_upper fo)))
     else if n = ''trim'' \<or> n = ''btrim'' then Some (Inr (map_text so args trim))
     else if n = ''ltrim'' then Some (Inr (map_text so args (\<lambda>s. concat (dropWhile is_whitespace (chars s)))))
     else if n = ''rtrim'' then Some (Inr (map_text so args (\<lambda>s. concat (rev (dropWhile is_whitespace (rev (chars s)))))))
     else if n = ''length'' \<or> n = ''char_length'' \<or> n = ''character_length'' then
       Some (Inr (if is_null (arg_or_null args 0) then VNull else VInt (int (length (chars (text_of so (arg_or_null args 0)))))))
     else if n = ''concat'' then Some (Inr (VText (concat (map (text_of so) (filter (\<lambda>v. \<not> is_null v) args)))))
     else if n = ''substr'' \<or> n = ''substring'' then Some (Inr (substr_func so args))
     else if n = ''replace'' then Some (Inr (replace_func so args))
     else if n = ''instr'' \<or> n = ''strpos'' then Some (Inr (instr_func so (arg args 0) (arg args 1)))
     else if n = ''repeat'' then Some (repeat_func so args)
     else if n = ''reverse'' then Some (Inr (map_text so args (\<lambda>s. concat (rev (chars s)))))
     else if n = ''left'' then Some (Inr (side_func so args True))
     else if n = ''right'' then Some (Inr (side_func so args False))
     else if n = ''lpad'' then Some (Inr (pad_func so args True))
     else if n = ''rpad'' then Some (Inr (pad_func so args False))
     else if n = ''hex'' then Some (Inr (hex_func so args))
     else None)"

section \<open>NULL handling and comparison\<close>

definition extreme :: "sql_value list \<Rightarrow> ordering \<Rightarrow> sql_value" where
  "extreme args want = reduce_values (\<lambda>a b. if sql_cmp a b = Some want then a else b) (filter (\<lambda>v. \<not> is_null v) args)"

definition null_funcs :: "string \<Rightarrow> sql_value list \<Rightarrow> sql_value xres option" where
  "null_funcs n args =
    (if n = ''coalesce'' then Some (Inr (case List.find (\<lambda>v. \<not> is_null v) args of Some v \<Rightarrow> v | None \<Rightarrow> VNull))
     else if n = ''nullif'' then Some (Inr (if sql_eq (arg_or_null args 0) (arg_or_null args 1) = Some True then VNull else arg_or_null args 0))
     else if n = ''ifnull'' then Some (Inr (if is_null (arg_or_null args 0) then arg_or_null args 1 else arg_or_null args 0))
     else if n = ''iif'' \<or> n = ''if'' then Some (if length args \<noteq> 3 then Inl (Raised ErrSql)
       else Inr (if as_bool (args ! 0) = Some True then args ! 1 else args ! 2))
     else if n = ''greatest'' then Some (Inr (extreme args OGreater))
     else if n = ''least'' then Some (Inr (extreme args OLess))
     else None)"

section \<open>Numbers\<close>

definition wrapping_abs :: "int \<Rightarrow> int" where
  "wrapping_abs i = wrap_i64 \<bar>i\<bar>"

definition i32_of_f64 :: "u64 \<Rightarrow> int" where
  "i32_of_f64 x = max (- (2 ^ 31)) (min (2 ^ 31 - 1) (i64_of_f64 x))"

definition round_func :: "func_ops \<Rightarrow> scalar_ops \<Rightarrow> sql_value list \<Rightarrow> sql_value xres" where
  "round_func fo so args =
     (let finish = (\<lambda>x. case num_arg so args 1 of
          Some n \<Rightarrow> let f = fo_pow10 fo (i32_of_f64 n) in Inr (VReal (so_fdiv so (fo_round fo (so_fmul so x f)) f))
        | None \<Rightarrow> Inr (VInt (f64_round_i64 x)))
      in case arg_or_null args 0 of
        VNull \<Rightarrow> Inr VNull
      | VInt i \<Rightarrow> if length args < 2 then Inr (VInt i) else finish (f64_of_i64 i)
      | VReal r \<Rightarrow> finish r
      | _ \<Rightarrow> Inl (Raised ErrSql))"

definition abs_func :: "sql_value list \<Rightarrow> sql_value xres" where
  "abs_func args = (case arg_or_null args 0 of
     VInt i \<Rightarrow> Inr (VInt (wrapping_abs i))
   | VReal r \<Rightarrow> Inr (VReal (word_of_nat (f64_abs r)))
   | VNull \<Rightarrow> Inr VNull
   | _ \<Rightarrow> Inl (Raised ErrSql))"

definition sign_func :: "scalar_ops \<Rightarrow> sql_value list \<Rightarrow> sql_value" where
  "sign_func so args = (case num_arg so args 0 of
     Some n \<Rightarrow> VInt (case f64_partial_cmp n 0 of Some OLess \<Rightarrow> -1 | Some OGreater \<Rightarrow> 1 | _ \<Rightarrow> 0)
   | None \<Rightarrow> VNull)"

text \<open>\<^verbatim>\<open>%\<close> on \<^verbatim>\<open>i64\<close> panics for a zero divisor and for \<^verbatim>\<open>i64::MIN % -1\<close>.\<close>

definition rem_i64 :: "int \<Rightarrow> int \<Rightarrow> int xres" where
  "rem_i64 a b = (if b = 0 \<or> a = - (2 ^ 63) \<and> b = -1 then Inl Panicked else Inr (a - trunc_div a b * b))"

definition mod_func :: "scalar_ops \<Rightarrow> sql_value list \<Rightarrow> sql_value xres" where
  "mod_func so args = (case (num_arg so args 0, num_arg so args 1) of
     (Some a, Some b) \<Rightarrow> if f64_abs b = 0 then Inr VNull else res_bind (rem_i64 (i64_of_f64 a) (i64_of_f64 b)) (\<lambda>r. Inr (VInt r))
   | _ \<Rightarrow> Inr VNull)"

definition number_funcs :: "func_ops \<Rightarrow> scalar_ops \<Rightarrow> string \<Rightarrow> sql_value list \<Rightarrow> sql_value xres option" where
  "number_funcs fo so n args =
    (if n = ''abs'' then Some (abs_func args)
     else if n = ''round'' then Some (round_func fo so args)
     else if n = ''ceil'' \<or> n = ''ceiling'' then Some (unary_real args (fo_ceil fo))
     else if n = ''floor'' then Some (unary_real args (fo_floor fo))
     else if n = ''sqrt'' then Some (unary_real args (fo_sqrt fo))
     else if n = ''exp'' then Some (unary_real args (fo_exp fo))
     else if n = ''ln'' then Some (unary_real args (fo_ln fo))
     else if n = ''log'' \<or> n = ''log10'' then Some (unary_real args (fo_log10 fo))
     else if n = ''sign'' then Some (Inr (sign_func so args))
     else if n = ''trunc'' then Some (Inr (case num_arg so args 0 of Some r \<Rightarrow> VReal (fo_trunc fo r) | None \<Rightarrow> VNull))
     else if n = ''power'' \<or> n = ''pow'' then Some (Inr (case (num_arg so args 0, num_arg so args 1) of
       (Some a, Some b) \<Rightarrow> VReal (fo_powf fo a b) | _ \<Rightarrow> VNull))
     else if n = ''mod'' then Some (mod_func so args)
     else if n = ''pi'' then Some (Inr (VReal 0x400921FB54442D18))
     else None)"

section \<open>Dates\<close>

definition value_to_epoch :: "func_ops \<Rightarrow> sql_value option \<Rightarrow> int option" where
  "value_to_epoch fo v = (case v of
     Some (VInt i) \<Rightarrow> Some i
   | Some (VReal r) \<Rightarrow> Some (i64_of_f64 r)
   | Some (VText s) \<Rightarrow> (let t = trim s in if eq_ignore_ascii_case t ''now'' then Some (fo_now fo)
       else case parse_epoch_secs t of Some e \<Rightarrow> Some e | None \<Rightarrow> parse_i64 t)
   | _ \<Rightarrow> None)"

definition map_epoch :: "func_ops \<Rightarrow> sql_value option \<Rightarrow> (int \<Rightarrow> string) \<Rightarrow> sql_value" where
  "map_epoch fo v f = (case value_to_epoch fo v of Some e \<Rightarrow> VText (f e) | None \<Rightarrow> VNull)"

definition date_trunc_func :: "func_ops \<Rightarrow> scalar_ops \<Rightarrow> sql_value list \<Rightarrow> sql_value xres" where
  "date_trunc_func fo so args = (if is_null (arg_or_null args 0) then Inr VNull else
     (case value_to_epoch fo (arg args 1) of None \<Rightarrow> Inr VNull | Some e \<Rightarrow>
     (case date_trunc (text_of so (arg_or_null args 0)) e of Some t \<Rightarrow> Inr (VText (format_timestamp t)) | None \<Rightarrow> Inl (Raised ErrSql))))"

definition extract_func :: "func_ops \<Rightarrow> scalar_ops \<Rightarrow> sql_value list \<Rightarrow> sql_value" where
  "extract_func fo so args = (if is_null (arg_or_null args 0) then VNull else
     (case value_to_epoch fo (arg args 1) of None \<Rightarrow> VNull | Some e \<Rightarrow>
     (let field = to_ascii_lowercase (text_of so (arg_or_null args 0)) in
      case parts e of (y, m, d, hh, mm, ss) \<Rightarrow>
       if field = ''year'' then VInt y else if field = ''month'' then VInt m else if field = ''day'' then VInt d
       else if field = ''hour'' then VInt hh else if field = ''minute'' then VInt mm else if field = ''second'' then VInt ss
       else if field = ''dow'' then VInt (day_of_week e) else if field = ''doy'' then VInt (day_of_year e)
       else if field = ''quarter'' then VInt ((m - 1) sdiv 3 + 1) else if field = ''epoch'' then VInt e
       else VNull)))"

text \<open>The formats of \<^verbatim>\<open>strftime\<close> are ASCII; other characters are copied byte by byte.\<close>

fun strftime_text :: "int \<Rightarrow> string \<Rightarrow> string" where
  "strftime_text e [] = []"
| "strftime_text e [c] = [c]"
| "strftime_text e (c # f # r) = (if c \<noteq> CHR ''%'' then c # strftime_text e (f # r) else
     (case parts e of (y, m, d, hh, mm, ss) \<Rightarrow>
       (if f = CHR ''Y'' then pad_int 4 y else if f = CHR ''m'' then pad_int 2 m else if f = CHR ''d'' then pad_int 2 d
        else if f = CHR ''H'' then pad_int 2 hh else if f = CHR ''M'' then pad_int 2 mm else if f = CHR ''S'' then pad_int 2 ss
        else if f = CHR ''s'' then int_string e else if f = CHR ''j'' then pad_int 3 (day_of_year e)
        else if f = CHR ''w'' then int_string (day_of_week e) else if f = CHR ''%'' then ''%'' else [CHR ''%'', f])
       @ strftime_text e r))"

definition strftime_func :: "func_ops \<Rightarrow> scalar_ops \<Rightarrow> sql_value list \<Rightarrow> sql_value" where
  "strftime_func fo so args = (if is_null (arg_or_null args 0) then VNull else
     (case value_to_epoch fo (arg args 1) of None \<Rightarrow> VNull | Some e \<Rightarrow> VText (strftime_text e (text_of so (arg_or_null args 0)))))"

definition date_funcs :: "func_ops \<Rightarrow> scalar_ops \<Rightarrow> string \<Rightarrow> sql_value list \<Rightarrow> sql_value xres option" where
  "date_funcs fo so n args =
    (if n \<in> {''now'', ''current_timestamp'', ''transaction_timestamp'', ''statement_timestamp'', ''clock_timestamp'', ''localtimestamp''}
       then Some (Inr (VText (format_timestamp (fo_now fo))))
     else if n = ''current_date'' then Some (Inr (VText (format_date (fo_now fo))))
     else if n = ''current_time'' \<or> n = ''localtime'' then Some (Inr (VText (format_time (fo_now fo))))
     else if n = ''date'' then Some (Inr (map_epoch fo (arg args 0) format_date))
     else if n = ''datetime'' then Some (Inr (map_epoch fo (arg args 0) format_timestamp))
     else if n = ''time'' then Some (Inr (map_epoch fo (arg args 0) format_time))
     else if n = ''unixepoch'' then Some (Inr (case value_to_epoch fo (arg args 0) of Some e \<Rightarrow> VInt e | None \<Rightarrow> VNull))
     else if n = ''date_trunc'' then Some (date_trunc_func fo so args)
     else if n = ''extract'' then Some (Inr (extract_func fo so args))
     else if n = ''strftime'' then Some (Inr (strftime_func fo so args))
     else None)"

section \<open>Random values\<close>

text \<open>The \<open>k\<close>-th draw of a call: the counter has advanced by \<open>k\<close>, the clock is read again.\<close>

definition rng_u64 :: "func_ops \<Rightarrow> nat \<Rightarrow> u64" where
  "rng_u64 fo k =
     (let x0 = fo_nanos fo k XOR ((fo_counter fo + word_of_nat k) * 0x9E3779B97F4A7C15) XOR push_bit 40 (fo_pid fo);
          x1 = (x0 XOR drop_bit 30 x0) * 0xBF58476D1CE4E5B9;
          x2 = (x1 XOR drop_bit 27 x1) * 0x94D049BB133111EB
      in x2 XOR drop_bit 31 x2)"

definition le_bytes :: "u64 \<Rightarrow> byte list" where
  "le_bytes x = map (\<lambda>i. ucast (drop_bit (8 * i) x)) [0..<8]"

definition uuid_bytes :: "func_ops \<Rightarrow> byte list" where
  "uuid_bytes fo = (let b = le_bytes (rng_u64 fo 0) @ le_bytes (rng_u64 fo 1) in
     b[6 := (b ! 6 AND 0x0F) OR 0x40, 8 := (b ! 8 AND 0x3F) OR 0x80])"

definition gen_uuid_v4 :: "func_ops \<Rightarrow> string" where
  "gen_uuid_v4 fo = (let h = to_ascii_lowercase (to_hex (map unat (uuid_bytes fo))) in
     take 8 h @ ''-'' @ take 4 (drop 8 h) @ ''-'' @ take 4 (drop 12 h) @ ''-'' @ take 4 (drop 16 h) @ ''-'' @ take 12 (drop 20 h))"

section \<open>JSON functions\<close>

text \<open>\<^verbatim>\<open>format!("{r}")\<close>: a whole number below \<^verbatim>\<open>1e15\<close> has no decimal point.\<close>

definition display_f64 :: "scalar_ops \<Rightarrow> u64 \<Rightarrow> string" where
  "display_f64 so r = (if f64_integral r \<and> f64_abs r < 0x430C6BF526340000
     then (if f64_negative r then ''-'' else []) @ dec_string (f64_trunc r) else so_format_real so r)"

text \<open>\<^verbatim>\<open>json_quote\<close> of exec.rs and \<^verbatim>\<open>quote\<close> of json.rs are the same code.\<close>

fun value_to_json :: "func_ops \<Rightarrow> scalar_ops \<Rightarrow> sql_value \<Rightarrow> string" where
  "value_to_json fo so VNull = ''null''"
| "value_to_json fo so (VInt i) = int_string i"
| "value_to_json fo so (VReal r) = (if f64_exponent r < 2047 then display_f64 so r else ''null'')"
| "value_to_json fo so (VText s) = quote s"
| "value_to_json fo so (VBlob b) = quote (base64_encode b)"
| "value_to_json fo so (VVector v) = ''['' @ join_strings '','' (map (fo_display_f32 fo) v) @ '']''"

fun object_parts :: "func_ops \<Rightarrow> scalar_ops \<Rightarrow> sql_value list \<Rightarrow> string list" where
  "object_parts fo so (k # v # r) = (quote (text_of so k) @ '':'' @ value_to_json fo so v) # object_parts fo so r"
| "object_parts fo so _ = []"

definition json_build_object :: "func_ops \<Rightarrow> scalar_ops \<Rightarrow> sql_value list \<Rightarrow> sql_value xres" where
  "json_build_object fo so args = (if odd (length args) then Inl (Raised ErrSql)
     else Inr (VText (''{'' @ join_strings '','' (object_parts fo so args) @ ''}'')))"

definition json_get :: "scalar_ops \<Rightarrow> sql_value option \<Rightarrow> sql_value option \<Rightarrow> bool \<Rightarrow> sql_value" where
  "json_get so doc k txt = (case (doc, k) of
     (Some d, Some k) \<Rightarrow> if is_null d \<or> is_null k then VNull else
       (case json_parse so (text_of so d) of None \<Rightarrow> VNull | Some j \<Rightarrow>
       (case (case k of VInt i \<Rightarrow> get_index j i | v \<Rightarrow> get_key j (text_of so v)) of
          None \<Rightarrow> VNull
        | Some sub \<Rightarrow> if txt then (case as_text so sub of Some t \<Rightarrow> VText t | None \<Rightarrow> VNull) else VText (write_json so sub)))
   | _ \<Rightarrow> VNull)"

definition json_extract_func :: "scalar_ops \<Rightarrow> sql_value option \<Rightarrow> sql_value option \<Rightarrow> sql_value" where
  "json_extract_func so doc path = (case (doc, path) of
     (Some d, Some p) \<Rightarrow> if is_null d \<or> is_null p then VNull else
       (case json_parse so (text_of so d) of None \<Rightarrow> VNull | Some j \<Rightarrow>
       (case extract_path j (text_of so p) of
          None \<Rightarrow> VNull
        | Some JNull \<Rightarrow> VNull
        | Some (JBool b) \<Rightarrow> VInt (if b then 1 else 0)
        | Some (JNum n) \<Rightarrow> if f64_integral n \<and> f64_abs n < 0x430C6BF526340000 then VInt (i64_of_f64 n) else VReal n
        | Some (JStr s) \<Rightarrow> VText s
        | Some other \<Rightarrow> VText (write_json so other)))
   | _ \<Rightarrow> VNull)"

definition misc_funcs :: "func_ops \<Rightarrow> scalar_ops \<Rightarrow> string \<Rightarrow> sql_value list \<Rightarrow> sql_value xres option" where
  "misc_funcs fo so n args =
    (if n = ''gen_random_uuid'' \<or> n = ''uuid_generate_v4'' then Some (Inr (VText (gen_uuid_v4 fo)))
     else if n = ''random'' then Some (Inr (VReal (so_fdiv so (f64_of_i64 (int (unat (drop_bit 11 (rng_u64 fo 0))))) (f64_of_i64 (2 ^ 53)))))
     else if n = ''typeof'' then Some (Inr (VText (case arg args 0 of Some v \<Rightarrow> to_ascii_lowercase (type_name v) | None \<Rightarrow> ''null'')))
     else if n = ''json_get'' then Some (Inr (json_get so (arg args 0) (arg args 1) False))
     else if n = ''json_get_text'' then Some (Inr (json_get so (arg args 0) (arg args 1) True))
     else if n = ''json_extract'' then Some (Inr (json_extract_func so (arg args 0) (arg args 1)))
     else if n = ''json_array'' \<or> n = ''json_build_array'' \<or> n = ''jsonb_build_array'' then
       Some (Inr (VText (''['' @ join_strings '','' (map (value_to_json fo so) args) @ '']'')))
     else if n = ''to_json'' \<or> n = ''to_jsonb'' then Some (Inr (VText (value_to_json fo so (arg_or_null args 0))))
     else if n = ''json_build_object'' \<or> n = ''jsonb_build_object'' then Some (json_build_object fo so args)
     else None)"

text \<open>The names of the five groups are distinct, so the order of the groups does not matter.\<close>

fun first_some :: "'a option list \<Rightarrow> 'a option" where
  "first_some [] = None"
| "first_some (Some a # _) = Some a"
| "first_some (None # r) = first_some r"

definition call_func :: "func_ops \<Rightarrow> scalar_ops \<Rightarrow> string \<Rightarrow> sql_value list \<Rightarrow> sql_value xres" where
  "call_func fo so name args = (let n = to_ascii_lowercase name in
     case first_some [null_funcs n args, text_funcs fo so n args, number_funcs fo so n args, date_funcs fo so n args, misc_funcs fo so n args] of
       Some r \<Rightarrow> r
     | None \<Rightarrow> Inl (Raised ErrSql))"

text \<open>\<^verbatim>\<open>SessionContext::claim\<close>, and the evaluator's operations with the library, JSON and claims filled in.\<close>

definition claim_lookup :: "scalar_ops \<Rightarrow> string \<Rightarrow> string \<Rightarrow> string option" where
  "claim_lookup so raw k = Option.bind (json_parse so raw) (\<lambda>j. Option.bind (get_key j k) (as_text so))"

definition engine_ops :: "func_ops \<Rightarrow> scalar_ops \<Rightarrow> scalar_ops" where
  "engine_ops fo so = so\<lparr>so_call_func := call_func fo so, so_value_to_json := value_to_json fo so, so_claim := claim_lookup so\<rparr>"

section \<open>Which calls panic\<close>

definition raises :: "'a xres \<Rightarrow> bool" where
  "raises r \<longleftrightarrow> (case r of Inl f \<Rightarrow> f = Raised ErrSql | Inr _ \<Rightarrow> True)"

lemma raises_simps [simp]: "raises (Inr v)" "raises (Inl (Raised ErrSql))" "\<not> raises (Inl Panicked)"
  by (simp_all add: raises_def)

definition mod_panics :: "scalar_ops \<Rightarrow> sql_value list \<Rightarrow> bool" where
  "mod_panics so args \<longleftrightarrow> (\<exists>a b. num_arg so args 0 = Some a \<and> num_arg so args 1 = Some b \<and> f64_abs b \<noteq> 0 \<and>
     (i64_of_f64 b = 0 \<or> i64_of_f64 a = - (2 ^ 63) \<and> i64_of_f64 b = -1))"

definition repeat_panics :: "scalar_ops \<Rightarrow> sql_value list \<Rightarrow> bool" where
  "repeat_panics so args \<longleftrightarrow> (\<exists>s k. arg args 0 = Some s \<and> \<not> is_null s \<and> int_arg so args 1 = Some k \<and> 2 ^ 63 \<le> length (text_of so s) * nat (max k 0))"

lemma mod_func_outcome: "if mod_panics so args then mod_func so args = Inl Panicked else raises (mod_func so args)"
  by (auto simp: mod_panics_def mod_func_def rem_i64_def res_bind_def split: option.splits)

lemma repeat_func_outcome: "if repeat_panics so args then repeat_func so args = Inl Panicked else raises (repeat_func so args)"
  by (auto simp: repeat_panics_def repeat_func_def Let_def split: option.splits)

lemma raises_unary_real: "raises (unary_real args f)"
  by (simp add: unary_real_def split: sql_value.split)

lemma raises_abs: "raises (abs_func args)"
  by (simp add: abs_func_def split: sql_value.split)

lemma raises_round: "raises (round_func fo so args)"
  by (simp add: round_func_def Let_def split: sql_value.split option.split)

lemma raises_date_trunc: "raises (date_trunc_func fo so args)"
  by (simp add: date_trunc_func_def split: option.split)

lemma raises_build_object: "raises (json_build_object fo so args)"
  by (simp add: json_build_object_def)

lemmas raises_rules = raises_unary_real raises_abs raises_round raises_date_trunc raises_build_object

definition all_raise :: "'a xres option \<Rightarrow> bool" where
  "all_raise x \<longleftrightarrow> (case x of Some r \<Rightarrow> raises r | None \<Rightarrow> True)"

lemma all_raise_some: "raises r \<Longrightarrow> all_raise (Some r)"
  and all_raise_none: "all_raise None"
  and all_raise_if: "(c \<Longrightarrow> all_raise x) \<Longrightarrow> (\<not> c \<Longrightarrow> all_raise y) \<Longrightarrow> all_raise (if c then x else y)"
  by (simp_all add: all_raise_def)

lemma raises_if: "raises x \<Longrightarrow> raises y \<Longrightarrow> raises (if c then x else y)"
  by simp

lemmas all_raise_rules = all_raise_some all_raise_none all_raise_if raises_if raises_simps(1,2) raises_rules

lemma null_funcs_raise: "all_raise (null_funcs n args)"
  unfolding null_funcs_def by (intro all_raise_rules)

lemma text_funcs_raise: "n \<noteq> ''repeat'' \<Longrightarrow> all_raise (text_funcs fo so n args)"
  unfolding text_funcs_def by (intro all_raise_rules) (erule (1) notE)

lemma number_funcs_raise: "n \<noteq> ''mod'' \<Longrightarrow> all_raise (number_funcs fo so n args)"
  unfolding number_funcs_def by (intro all_raise_rules) (erule (1) notE)

lemma date_funcs_raise: "all_raise (date_funcs fo so n args)"
  unfolding date_funcs_def by (intro all_raise_rules)

lemma misc_funcs_raise: "all_raise (misc_funcs fo so n args)"
  unfolding misc_funcs_def by (intro all_raise_rules)

lemma first_some_raises: "\<forall>x\<in>set xs. all_raise x \<Longrightarrow> first_some xs = Some r \<Longrightarrow> raises r"
  by (induction xs rule: first_some.induct) (auto simp: all_raise_def)

lemma call_func_raises:
  assumes "to_ascii_lowercase name \<noteq> ''repeat''" "to_ascii_lowercase name \<noteq> ''mod''"
  shows "raises (call_func fo so name args)"
  unfolding call_func_def Let_def
  by (auto split: option.split
      dest!: first_some_raises [rotated] intro: null_funcs_raise date_funcs_raise misc_funcs_raise text_funcs_raise [OF assms(1)] number_funcs_raise [OF assms(2)])

lemma call_repeat: "to_ascii_lowercase name = ''repeat'' \<Longrightarrow> call_func fo so name args = repeat_func so args"
  by (simp add: call_func_def null_funcs_def text_funcs_def)

lemma call_mod: "to_ascii_lowercase name = ''mod'' \<Longrightarrow> call_func fo so name args = mod_func so args"
  by (simp add: call_func_def null_funcs_def text_funcs_def number_funcs_def)

lemma call_func_outcomes: "call_func fo so name args \<in> {Inl Panicked, Inl (Raised ErrSql)} \<union> range Inr"
proof -
  consider "to_ascii_lowercase name = ''mod''" | "to_ascii_lowercase name = ''repeat''"
    | "to_ascii_lowercase name \<noteq> ''repeat''" "to_ascii_lowercase name \<noteq> ''mod''" by blast
  then show ?thesis
  proof cases
    case 1
    then show ?thesis using mod_func_outcome [of so args] by (auto simp: call_mod raises_def split: if_splits sum.splits)
  next
    case 2
    then show ?thesis using repeat_func_outcome [of so args] by (auto simp: call_repeat raises_def split: if_splits sum.splits)
  next
    case 3
    then show ?thesis using call_func_raises [OF 3, of fo so args] by (auto simp: raises_def split: sum.splits)
  qed
qed

lemma call_func_panic:
  "call_func fo so name args = Inl Panicked \<longleftrightarrow>
    to_ascii_lowercase name = ''mod'' \<and> mod_panics so args \<or> to_ascii_lowercase name = ''repeat'' \<and> repeat_panics so args"
  using mod_func_outcome [of so args] repeat_func_outcome [of so args] call_func_raises [of name fo so args]
  by (cases "to_ascii_lowercase name = ''mod''"; cases "to_ascii_lowercase name = ''repeat''")
    (auto simp: call_mod call_repeat split: if_splits)


text \<open>\<^verbatim>\<open>mod(7, 0.5)\<close> panics.\<close>

lemma mod_half_panics: "call_func fo so ''mod'' [VInt 7, VReal 0x3FE0000000000000] = Inl Panicked"
proof -
  have b: "f64_abs 0x3FE0000000000000 \<noteq> 0" "i64_of_f64 0x3FE0000000000000 = 0" by (simp_all add: f64_fields)
  have n: "to_ascii_lowercase ''mod'' = ''mod''" by code_simp
  show ?thesis using b by (simp add: call_mod [OF n] mod_func_def num_arg_def arg_def rem_i64_def)
qed

text \<open>\<^verbatim>\<open>substr('abc', 2, 9223372036854775807)\<close>: the end of the piece wraps around and the result is empty.\<close>

lemma substr_end_wraps: "substr_func so [VText ''abc'', VInt 2, VInt 9223372036854775807] = VText []"
proof -
  have c: "chars ''abc'' = [''a'', ''b'', ''c'']" by code_simp
  have b: "bit_len 9223372036854775807 = 63" "bit_len 2 = 2" by (simp_all add: bit_len.simps)
  have i: "i64_of_f64 (f64_of_i64 2) = 2" "i64_of_f64 (f64_of_i64 9223372036854775807) = 9223372036854775807"
    by (simp_all add: f64_of_i64_def f64_magnitude_def b round_even_def f64_fields Let_def)
  let ?args = "[VText ''abc'', VInt 2, VInt 9223372036854775807]"
  have a: "int_arg so ?args (Suc 0) = Some 2" "int_arg so ?args 2 = Some 9223372036854775807" "arg ?args 2 = Some (VInt 9223372036854775807)"
    "arg_or_null ?args 0 = VText ''abc''"
    by (simp_all add: int_arg_def num_arg_def arg_or_null_def arg_def i)
  have w: "wrap_i64 9223372036854775808 = - 9223372036854775808" by (simp add: wrap_i64_def)
  show ?thesis
    by (simp add: substr_func_def a is_null_def text_of_def c clamp_def w Let_def del: chars.simps)
qed

section \<open>Objects that were built can be read\<close>

definition text_or_null :: "string option \<Rightarrow> sql_value" where
  "text_or_null t = (case t of Some s \<Rightarrow> VText s | None \<Rightarrow> VNull)"

definition object_args :: "(string \<times> string option) list \<Rightarrow> sql_value list" where
  "object_args kvs = concat (map (\<lambda>(k, t). [VText k, text_or_null t]) kvs)"

definition object_json :: "(string \<times> string option) list \<Rightarrow> json" where
  "object_json kvs = JObj (map (\<lambda>(k, t). (k, case t of Some s \<Rightarrow> JStr s | None \<Rightarrow> JNull)) kvs)"

lemma object_parts_write: "object_parts fo so (object_args kvs) = map (member_text so) (map (\<lambda>(k, t). (k, case t of Some s \<Rightarrow> JStr s | None \<Rightarrow> JNull)) kvs)"
  by (induction kvs) (auto simp: object_args_def text_or_null_def member_text_def text_of_def split: option.split)

lemma object_args_even: "even (length (object_args kvs))"
  by (induction kvs) (auto simp: object_args_def)

lemma build_object_text: "json_build_object fo so (object_args kvs) = Inr (VText (write_json so (object_json kvs)))"
  unfolding json_build_object_def object_json_def write_members by (simp add: object_args_even object_parts_write)

lemma object_json_back: "json_parse so (write_json so (object_json kvs)) = Some (object_json kvs)"
proof -
  have "reads_back so (object_json kvs)"
    by (rule json_reads_back) (auto simp: object_json_def split: option.splits)
  then show ?thesis by (rule reads_back_parse)
qed

lemma object_key: "get_key (object_json kvs) k = map_option (\<lambda>t. case t of Some s \<Rightarrow> JStr s | None \<Rightarrow> JNull) (map_of kvs k)"
  by (induction kvs) (auto simp: object_json_def)

text \<open>An object made by \<^verbatim>\<open>json_build_object\<close> from text keys and text or NULL values gives back, with \<^verbatim>\<open>->>\<close>, the
  value of the first entry of a key, and NULL for a key it does not have, whatever characters the texts
  hold.\<close>

theorem built_object_lookup:
  "res_bind (call_func fo so ''json_build_object'' (object_args kvs)) (\<lambda>doc. call_func fo so ''json_get_text'' [doc, VText k]) =
    Inr (text_or_null (Option.bind (map_of kvs k) id))"
proof -
  have n: "to_ascii_lowercase ''json_build_object'' = ''json_build_object''" "to_ascii_lowercase ''json_get_text'' = ''json_get_text''"
    by code_simp+
  have b: "call_func fo so ''json_build_object'' args = json_build_object fo so args" for args
    unfolding call_func_def n Let_def null_funcs_def text_funcs_def number_funcs_def date_funcs_def misc_funcs_def by simp
  have g: "call_func fo so ''json_get_text'' args = Inr (json_get so (arg args 0) (arg args 1) True)" for args
    unfolding call_func_def n Let_def null_funcs_def text_funcs_def number_funcs_def date_funcs_def misc_funcs_def by simp
  have "json_get so (Some (VText (write_json so (object_json kvs)))) (Some (VText k)) True = text_or_null (Option.bind (map_of kvs k) id)"
    by (simp add: json_get_def is_null_def text_of_def object_json_back object_key text_or_null_def split: option.split)
  then show ?thesis by (simp add: b g build_object_text res_bind_def arg_def)
qed

end
