(* ===== verification/Controller.thy ===== *)
theory Controller
  imports Engine_Types "HOL-Library.Multiset"
begin

text \<open>
  The lifecycle controller (\<^verbatim>\<open>crates/controller/src/lib.rs\<close>): instances per URL with their phase,
  handle and leases, admission to warming through a counting semaphore, the idle reaper, and
  the calls of concurrent clients as an interleaving of their critical sections.  Opening a
  database and renewing its lease are steps with an arbitrary outcome; time is a counter of
  microseconds that moves at any step of its own.  Atomic counters of 64 bits are \<open>nat\<close>.
\<close>

section \<open>State\<close>

datatype lifecycle_state = Cold | Warming | Active | Idle | Stopping

record controller_config =
  cc_idle_timeout :: nat
  cc_reap_interval :: nat
  cc_max_concurrent_warms :: nat
  cc_keep_warm :: bool

definition controller_config_default :: controller_config where
  "controller_config_default = \<lparr>cc_idle_timeout = 30000000, cc_reap_interval = 1000000, cc_max_concurrent_warms = 16, cc_keep_warm = False\<rparr>"

record 'd inst_state =
  is_phase :: lifecycle_state
  is_handle :: "'d option"
  is_active :: nat
  is_last_activity :: nat
  is_phase_since :: nat

record 'd controller =
  ct_cfg :: controller_config
  ct_instances :: "(string \<times> 'd inst_state) list"
  ct_permits :: nat
  ct_warm_count :: nat
  ct_cur_warms :: nat
  ct_peak_warms :: nat
  ct_warm_starts :: nat
  ct_scale_to_zero :: nat
  ct_compute_active_us :: nat
  ct_compute_idle_us :: nat
  ct_admission_wait_us :: nat
  ct_lease_renews :: nat
  ct_stop :: bool

definition controller_new :: "controller_config \<Rightarrow> (engine_status, 'd controller) result" where
  "controller_new cfg =
     (if cc_max_concurrent_warms cfg = 0 then Inl ErrMisuse
      else if cc_reap_interval cfg = 0 \<or> cc_idle_timeout cfg = 0 then Inl ErrMisuse
      else Inr \<lparr>ct_cfg = cfg, ct_instances = [], ct_permits = cc_max_concurrent_warms cfg, ct_warm_count = 0, ct_cur_warms = 0, ct_peak_warms = 0,
        ct_warm_starts = 0, ct_scale_to_zero = 0, ct_compute_active_us = 0, ct_compute_idle_us = 0, ct_admission_wait_us = 0, ct_lease_renews = 0,
        ct_stop = False\<rparr>)"

section \<open>Instances\<close>

definition get_inst :: "string \<Rightarrow> 'd controller \<Rightarrow> 'd inst_state option" where
  "get_inst url c = hm_get (ct_instances c) url"

definition put_inst :: "string \<Rightarrow> 'd inst_state \<Rightarrow> 'd controller \<Rightarrow> 'd controller" where
  "put_inst url s c = c\<lparr>ct_instances := hm_insert url s (ct_instances c)\<rparr>"

definition get_or_create :: "string \<Rightarrow> nat \<Rightarrow> 'd controller \<Rightarrow> 'd controller" where
  "get_or_create url now c = (case get_inst url c of
     Some s \<Rightarrow> c
   | None \<Rightarrow> put_inst url \<lparr>is_phase = Cold, is_handle = None, is_active = 0, is_last_activity = now, is_phase_since = now\<rparr> c)"

definition enter_phase :: "nat \<Rightarrow> lifecycle_state \<Rightarrow> 'd inst_state \<times> 'd controller \<Rightarrow> 'd inst_state \<times> 'd controller" where
  "enter_phase now new = (\<lambda>(s, c). let elapsed = now - is_phase_since s in
     (s\<lparr>is_phase := new, is_phase_since := now\<rparr>,
      case is_phase s of
        Active \<Rightarrow> c\<lparr>ct_compute_active_us := ct_compute_active_us c + elapsed\<rparr>
      | Idle \<Rightarrow> c\<lparr>ct_compute_idle_us := ct_compute_idle_us c + elapsed\<rparr>
      | _ \<Rightarrow> c))"

definition update_inst :: "string \<Rightarrow> ('d inst_state \<times> 'd controller \<Rightarrow> 'd inst_state \<times> 'd controller) \<Rightarrow> 'd controller \<Rightarrow> 'd controller" where
  "update_inst url f c = (case get_inst url c of None \<Rightarrow> c | Some s \<Rightarrow> (case f (s, c) of (s', c') \<Rightarrow> put_inst url s' c'))"

section \<open>start\<close>

text \<open>What the locked section of \<^verbatim>\<open>start\<close> decides: a lease on a warm instance, the right to warm it, or to
  wait; \<open>NoHandle\<close> is the panic of the \<^verbatim>\<open>expect\<close>.\<close>

datatype 'd start_outcome = Leased 'd | MustWarm | MustWait | NoHandle

definition lease_now :: "nat \<Rightarrow> 'd inst_state \<Rightarrow> 'd inst_state" where
  "lease_now now s = s\<lparr>is_active := is_active s + 1, is_last_activity := now\<rparr>"

definition start_section :: "string \<Rightarrow> nat \<Rightarrow> 'd controller \<Rightarrow> 'd start_outcome \<times> 'd controller" where
  "start_section url now c = (case get_inst url c of
     None \<Rightarrow> (MustWait, c)
   | Some s \<Rightarrow>
       (if is_phase s \<in> {Active, Idle} then
          (case enter_phase now Active (s, c) of (s1, c1) \<Rightarrow>
            (case is_handle s of
               None \<Rightarrow> (NoHandle, put_inst url (lease_now now s1) c1)
             | Some db \<Rightarrow> (Leased db, (put_inst url (lease_now now s1) c1)\<lparr>ct_warm_starts := ct_warm_starts c1 + 1\<rparr>)))
        else if is_phase s = Cold then (MustWarm, update_inst url (enter_phase now Warming) c)
        else (MustWait, c)))"

text \<open>\<^verbatim>\<open>warm\<close>: the semaphore and the gauges around \<^verbatim>\<open>Database::open\<close>.\<close>

definition sem_acquire :: "'d controller \<Rightarrow> 'd controller option" where
  "sem_acquire c = (if ct_permits c = 0 then None else Some (c\<lparr>ct_permits := ct_permits c - 1\<rparr>))"

definition sem_release :: "'d controller \<Rightarrow> 'd controller" where
  "sem_release c = c\<lparr>ct_permits := ct_permits c + 1\<rparr>"

definition warm_enter :: "nat \<Rightarrow> 'd controller \<Rightarrow> nat \<times> 'd controller" where
  "warm_enter waited c = (let cur = ct_cur_warms c + 1 in
     (cur, c\<lparr>ct_admission_wait_us := ct_admission_wait_us c + waited, ct_cur_warms := cur\<rparr>))"

definition warm_peak :: "nat \<Rightarrow> 'd controller \<Rightarrow> 'd controller" where
  "warm_peak cur c = c\<lparr>ct_peak_warms := max (ct_peak_warms c) cur\<rparr>"

definition warm_leave :: "'d controller \<Rightarrow> 'd controller" where
  "warm_leave c = c\<lparr>ct_cur_warms := ct_cur_warms c - 1\<rparr>"

definition warm_counted :: "(engine_status, 'd) result \<Rightarrow> 'd controller \<Rightarrow> 'd controller" where
  "warm_counted res c = (case res of Inr db \<Rightarrow> c\<lparr>ct_warm_count := ct_warm_count c + 1\<rparr> | Inl e \<Rightarrow> c)"

definition settle_warm :: "string \<Rightarrow> (engine_status, 'd) result \<Rightarrow> nat \<Rightarrow> 'd controller \<Rightarrow> 'd controller" where
  "settle_warm url res now = update_inst url (\<lambda>sc. case res of
     Inr db \<Rightarrow> (case enter_phase now Active sc of (s1, c1) \<Rightarrow> (lease_now now (s1\<lparr>is_handle := Some db\<rparr>), c1))
   | Inl e \<Rightarrow> enter_phase now Cold sc)"

section \<open>Leases, stop and the reaper\<close>

definition lease_drop :: "string \<Rightarrow> nat \<Rightarrow> 'd controller \<Rightarrow> 'd controller" where
  "lease_drop url now = update_inst url (\<lambda>(s, c). (s\<lparr>is_active := is_active s - 1, is_last_activity := now\<rparr>, c))"

definition controller_status :: "string \<Rightarrow> 'd controller \<Rightarrow> lifecycle_state option" where
  "controller_status url c = map_option is_phase (get_inst url c)"

definition controller_stop :: "string \<Rightarrow> nat \<Rightarrow> 'd controller \<Rightarrow> 'd controller" where
  "controller_stop url now = update_inst url (\<lambda>(s, c).
     if is_active s = 0 then
       (case enter_phase now Cold (s\<lparr>is_handle := None\<rparr>, if is_handle s \<noteq> None then c\<lparr>ct_scale_to_zero := ct_scale_to_zero c + 1\<rparr> else c) of
          (s1, c1) \<Rightarrow> (s1\<lparr>is_last_activity := now\<rparr>, c1))
     else (s, c))"

text \<open>A pass of the reaper over one instance: it reads phase and handle, renews the lease of a warm one
  without the lock, and takes the lock again to decide.\<close>

definition reap_look :: "string \<Rightarrow> 'd controller \<Rightarrow> (lifecycle_state \<times> 'd) option" where
  "reap_look url c = Option.bind (get_inst url c) (\<lambda>s. map_option (\<lambda>db. (is_phase s, db)) (is_handle s))"

definition reap_renewed :: "bool \<Rightarrow> 'd controller \<Rightarrow> 'd controller" where
  "reap_renewed ok c = (if ok then c\<lparr>ct_lease_renews := ct_lease_renews c + 1\<rparr> else c)"

definition reap_idle :: "nat \<Rightarrow> 'd inst_state \<times> 'd controller \<Rightarrow> 'd inst_state \<times> 'd controller" where
  "reap_idle now = (\<lambda>(s, c). case (if is_phase s = Active then enter_phase now Idle (s, c) else (s, c)) of (s1, c1) \<Rightarrow>
     (if is_phase s1 = Idle \<and> cc_idle_timeout (ct_cfg c1) \<le> now - is_last_activity s1 \<and> \<not> cc_keep_warm (ct_cfg c1) then
        (case enter_phase now Stopping (s1, c1) of (s2, c2) \<Rightarrow> (case enter_phase now Cold (s2\<lparr>is_handle := None\<rparr>, c2) of (s3, c3) \<Rightarrow>
           (s3\<lparr>is_last_activity := now\<rparr>, c3\<lparr>ct_scale_to_zero := ct_scale_to_zero c3 + 1\<rparr>)))
      else (s1, c1)))"

definition reap_settle :: "string \<Rightarrow> bool \<Rightarrow> nat \<Rightarrow> 'd controller \<Rightarrow> 'd controller" where
  "reap_settle url fenced now = update_inst url (\<lambda>(s, c).
     if fenced then (case enter_phase now Cold (s\<lparr>is_handle := None\<rparr>, c) of (s1, c1) \<Rightarrow> (s1\<lparr>is_last_activity := now\<rparr>, c1))
     else if is_active s = 0 then reap_idle now (s, c)
     else if is_phase s = Idle then enter_phase now Active (s, c)
     else (s, c))"

section \<open>Statistics\<close>

definition warm_phase :: "lifecycle_state \<Rightarrow> bool" where
  "warm_phase p \<longleftrightarrow> p = Active \<or> p = Idle"

record controller_stats =
  cs_cold_starts :: nat
  cs_warm_starts :: nat
  cs_scale_to_zero_events :: nat
  cs_peak_workers :: nat
  cs_warm_instances :: nat
  cs_compute_active_us :: nat
  cs_compute_idle_us :: nat
  cs_admission_wait_us :: nat
  cs_lease_renew_total :: nat

definition stats :: "nat \<Rightarrow> 'd controller \<Rightarrow> controller_stats" where
  "stats now c = (let insts = map snd (ct_instances c); live = (\<lambda>p. sum_list (map (\<lambda>s. now - is_phase_since s) (filter (\<lambda>s. is_phase s = p) insts))) in
     \<lparr>cs_cold_starts = ct_warm_count c, cs_warm_starts = ct_warm_starts c, cs_scale_to_zero_events = ct_scale_to_zero c, cs_peak_workers = ct_peak_warms c,
      cs_warm_instances = length (filter (\<lambda>s. warm_phase (is_phase s)) insts), cs_compute_active_us = ct_compute_active_us c + live Active,
      cs_compute_idle_us = ct_compute_idle_us c + live Idle, cs_admission_wait_us = ct_admission_wait_us c, cs_lease_renew_total = ct_lease_renews c\<rparr>)"

definition controller_drop :: "'d controller \<Rightarrow> 'd controller" where
  "controller_drop c = c\<lparr>ct_stop := True, ct_instances := []\<rparr>"

section \<open>Concurrent calls\<close>

text \<open>A call of \<^verbatim>\<open>start\<close> between two critical sections: about to look at the instance, or at one of the
  points of \<^verbatim>\<open>warm\<close>.  The result of opening travels along.\<close>

datatype 'd thread =
    TStart string
  | TAdmit string
  | TAdmitted string
  | TEntered string nat
  | TOpening string
  | TOpened string "(engine_status, 'd) result"
  | TLeft string "(engine_status, 'd) result"
  | TReleased string "(engine_status, 'd) result"
  | TSettle string "(engine_status, 'd) result"

text \<open>The reaper thread: waiting, with instances left to visit, renewing a lease, or about to decide.\<close>

datatype 'd reaper = RWait | RScan "string list" | RRenew string "string list" | RSettle string bool "string list"

record 'd system =
  sy_ctl :: "'d controller"
  sy_threads :: "'d thread multiset"
  sy_leases :: "(string \<times> 'd) multiset"
  sy_reaper :: "'d reaper"
  sy_now :: nat

text \<open>Thread \<open>t\<close> becomes the threads \<open>ts\<close> and the controller becomes \<open>c\<close>.\<close>

definition advance :: "'d thread \<Rightarrow> 'd thread multiset \<Rightarrow> 'd controller \<Rightarrow> 'd system \<Rightarrow> 'd system" where
  "advance t ts c y = y\<lparr>sy_ctl := c, sy_threads := sy_threads y - {#t#} + ts\<rparr>"

text \<open>The steps of the controller and its clients.  Calls of \<^verbatim>\<open>stop\<close> can be left out (\<open>stops\<close>).\<close>

inductive ctl_step :: "bool \<Rightarrow> 'd system \<Rightarrow> 'd system \<Rightarrow> bool" for stops where
  call_start: "ctl_step stops y (y\<lparr>sy_ctl := get_or_create url (sy_now y) (sy_ctl y), sy_threads := add_mset (TStart url) (sy_threads y)\<rparr>)"
| start_leased: "TStart url \<in># sy_threads y \<Longrightarrow> start_section url (sy_now y) (sy_ctl y) = (Leased db, c) \<Longrightarrow>
    ctl_step stops y ((advance (TStart url) {#} c y)\<lparr>sy_leases := add_mset (url, db) (sy_leases y)\<rparr>)"
| start_warms: "TStart url \<in># sy_threads y \<Longrightarrow> start_section url (sy_now y) (sy_ctl y) = (MustWarm, c) \<Longrightarrow>
    ctl_step stops y (advance (TStart url) {#TAdmit url#} c y)"
| admit: "TAdmit url \<in># sy_threads y \<Longrightarrow> sem_acquire (sy_ctl y) = Some c \<Longrightarrow>
    ctl_step stops y (advance (TAdmit url) {#TAdmitted url#} c y)"
| enter: "TAdmitted url \<in># sy_threads y \<Longrightarrow> warm_enter waited (sy_ctl y) = (cur, c) \<Longrightarrow>
    ctl_step stops y (advance (TAdmitted url) {#TEntered url cur#} c y)"
| peak: "TEntered url cur \<in># sy_threads y \<Longrightarrow> ctl_step stops y (advance (TEntered url cur) {#TOpening url#} (warm_peak cur (sy_ctl y)) y)"
| opened: "TOpening url \<in># sy_threads y \<Longrightarrow> ctl_step stops y (advance (TOpening url) {#TOpened url res#} (sy_ctl y) y)"
| leave: "TOpened url res \<in># sy_threads y \<Longrightarrow> ctl_step stops y (advance (TOpened url res) {#TLeft url res#} (warm_leave (sy_ctl y)) y)"
| release: "TLeft url res \<in># sy_threads y \<Longrightarrow> ctl_step stops y (advance (TLeft url res) {#TReleased url res#} (sem_release (sy_ctl y)) y)"
| counted: "TReleased url res \<in># sy_threads y \<Longrightarrow> ctl_step stops y (advance (TReleased url res) {#TSettle url res#} (warm_counted res (sy_ctl y)) y)"
| settle_ok: "TSettle url (Inr db) \<in># sy_threads y \<Longrightarrow>
    ctl_step stops y ((advance (TSettle url (Inr db)) {#} (settle_warm url (Inr db) (sy_now y) (sy_ctl y)) y)\<lparr>sy_leases := add_mset (url, db) (sy_leases y)\<rparr>)"
| settle_err: "TSettle url (Inl e) \<in># sy_threads y \<Longrightarrow>
    ctl_step stops y (advance (TSettle url (Inl e)) {#} (settle_warm url (Inl e) (sy_now y) (sy_ctl y)) y)"
| drop_lease: "(url, db) \<in># sy_leases y \<Longrightarrow>
    ctl_step stops y (y\<lparr>sy_ctl := lease_drop url (sy_now y) (sy_ctl y), sy_leases := sy_leases y - {#(url, db)#}\<rparr>)"
| stop: "stops \<Longrightarrow> ctl_step stops y (y\<lparr>sy_ctl := controller_stop url (sy_now y) (sy_ctl y)\<rparr>)"
| reap_begin: "sy_reaper y = RWait \<Longrightarrow> ctl_step stops y (y\<lparr>sy_reaper := RScan (map fst (ct_instances (sy_ctl y)))\<rparr>)"
| reap_end: "sy_reaper y = RScan [] \<Longrightarrow> ctl_step stops y (y\<lparr>sy_reaper := RWait\<rparr>)"
| reap_skip: "sy_reaper y = RScan (url # urls) \<Longrightarrow> reap_look url (sy_ctl y) = None \<Longrightarrow> ctl_step stops y (y\<lparr>sy_reaper := RScan urls\<rparr>)"
| reap_visit: "sy_reaper y = RScan (url # urls) \<Longrightarrow> reap_look url (sy_ctl y) = Some (ph, db) \<Longrightarrow>
    ctl_step stops y (y\<lparr>sy_reaper := if warm_phase ph then RRenew url urls else RSettle url False urls\<rparr>)"
| reap_renew: "sy_reaper y = RRenew url urls \<Longrightarrow>
    ctl_step stops y (y\<lparr>sy_ctl := reap_renewed ok (sy_ctl y), sy_reaper := RSettle url (\<not> ok) urls\<rparr>)"
| reap_decide: "sy_reaper y = RSettle url fenced urls \<Longrightarrow>
    ctl_step stops y (y\<lparr>sy_ctl := reap_settle url fenced (sy_now y) (sy_ctl y), sy_reaper := RScan urls\<rparr>)"
| tick: "ctl_step stops y (y\<lparr>sy_now := sy_now y + dt\<rparr>)"

definition initial :: "controller_config \<Rightarrow> 'd system \<Rightarrow> bool" where
  "initial cfg y \<longleftrightarrow> controller_new cfg = Inr (sy_ctl y) \<and> sy_threads y = {#} \<and> sy_leases y = {#} \<and> sy_reaper y = RWait"

section \<open>Invariants\<close>

fun warming_url :: "'d thread \<Rightarrow> string option" where
  "warming_url (TStart url) = None"
| "warming_url (TAdmit url) = Some url"
| "warming_url (TAdmitted url) = Some url"
| "warming_url (TEntered url n) = Some url"
| "warming_url (TOpening url) = Some url"
| "warming_url (TOpened url r) = Some url"
| "warming_url (TLeft url r) = Some url"
| "warming_url (TReleased url r) = Some url"
| "warming_url (TSettle url r) = Some url"

fun holds_permit :: "'d thread \<Rightarrow> bool" where
  "holds_permit (TAdmitted url) = True"
| "holds_permit (TEntered url n) = True"
| "holds_permit (TOpening url) = True"
| "holds_permit (TOpened url r) = True"
| "holds_permit (TLeft url r) = True"
| "holds_permit _ = False"

fun entered :: "'d thread \<Rightarrow> bool" where
  "entered (TEntered url n) = True"
| "entered (TOpening url) = True"
| "entered (TOpened url r) = True"
| "entered _ = False"

definition warmers :: "string \<Rightarrow> 'd system \<Rightarrow> nat" where
  "warmers url y = size (filter_mset (\<lambda>t. warming_url t = Some url) (sy_threads y))"

definition lease_count :: "string \<Rightarrow> 'd system \<Rightarrow> nat" where
  "lease_count url y = size (filter_mset (\<lambda>(u, db). u = url) (sy_leases y))"

text \<open>Admission: permits and their holders add up to the configured bound, and the gauges stay within it.\<close>

definition admission_ok :: "controller_config \<Rightarrow> 'd system \<Rightarrow> bool" where
  "admission_ok cfg y \<longleftrightarrow> ct_cfg (sy_ctl y) = cfg \<and>
     ct_permits (sy_ctl y) + size (filter_mset holds_permit (sy_threads y)) = cc_max_concurrent_warms cfg \<and>
     ct_cur_warms (sy_ctl y) = size (filter_mset entered (sy_threads y)) \<and> ct_peak_warms (sy_ctl y) \<le> cc_max_concurrent_warms cfg \<and>
     (\<forall>url n. TEntered url n \<in># sy_threads y \<longrightarrow> n \<le> cc_max_concurrent_warms cfg)"

definition inst_ok :: "'d system \<Rightarrow> string \<Rightarrow> 'd inst_state \<Rightarrow> bool" where
  "inst_ok y url s \<longleftrightarrow> is_active s = lease_count url y \<and> (warm_phase (is_phase s) \<longrightarrow> is_handle s \<noteq> None) \<and> is_phase s \<noteq> Stopping \<and>
     (is_phase s = Warming \<longrightarrow> warmers url y \<noteq> 0)"

definition instances_ok :: "'d system \<Rightarrow> bool" where
  "instances_ok y \<longleftrightarrow> (\<forall>url s. get_inst url (sy_ctl y) = Some s \<longrightarrow> inst_ok y url s) \<and>
     (\<forall>url. get_inst url (sy_ctl y) = None \<longrightarrow> lease_count url y = 0 \<and> warmers url y = 0 \<and> TStart url \<notin># sy_threads y)"

section \<open>Effects of the sections\<close>

text \<open>What admission looks at; the sections on instances leave it alone.\<close>

definition gauges :: "'d controller \<Rightarrow> controller_config \<times> nat \<times> nat \<times> nat" where
  "gauges c = (ct_cfg c, ct_permits c, ct_cur_warms c, ct_peak_warms c)"

lemma enter_phase_inst [simp]: "fst (enter_phase now p (s, c)) = s\<lparr>is_phase := p, is_phase_since := now\<rparr>"
  by (simp add: enter_phase_def Let_def)

lemma enter_phase_ctl [simp]: "ct_instances (snd (enter_phase now p (s, c))) = ct_instances c" "gauges (snd (enter_phase now p (s, c))) = gauges c"
  "ct_cfg (snd (enter_phase now p (s, c))) = ct_cfg c"
  by (simp_all add: enter_phase_def gauges_def Let_def split: lifecycle_state.splits)

lemma put_inst_simps [simp]: "get_inst u (put_inst url s c) = (if u = url then Some s else get_inst u c)" "gauges (put_inst url s c) = gauges c"
  by (simp_all add: get_inst_def put_inst_def gauges_def)

text \<open>A section that changes the instance by \<open>g\<close> and touches nothing else but counters.\<close>

definition section_does :: "('d inst_state \<times> 'd controller \<Rightarrow> 'd inst_state \<times> 'd controller) \<Rightarrow> ('d controller \<Rightarrow> 'd inst_state \<Rightarrow> 'd inst_state) \<Rightarrow> bool" where
  "section_does f g \<longleftrightarrow> (\<forall>s c. fst (f (s, c)) = g c s \<and> ct_instances (snd (f (s, c))) = ct_instances c \<and> gauges (snd (f (s, c))) = gauges c)"

lemma update_inst_get:
  assumes "section_does f g"
  shows "get_inst u (update_inst url f c) = (if u = url then map_option (g c) (get_inst url c) else get_inst u c)"
proof (cases "get_inst url c")
  case (Some s)
  obtain s' c' where f: "f (s, c) = (s', c')" by (metis prod.exhaust)
  with assms have "g c s = s'" "ct_instances c' = ct_instances c" unfolding section_does_def by (metis fst_conv, metis snd_conv)
  with f Some show ?thesis by (simp add: update_inst_def) (simp add: get_inst_def)
qed (simp add: update_inst_def)

lemma update_inst_gauges:
  assumes "section_does f g"
  shows "gauges (update_inst url f c) = gauges c"
proof (cases "get_inst url c")
  case (Some s)
  obtain s' c' where f: "f (s, c) = (s', c')" by (metis prod.exhaust)
  with assms have "gauges c' = gauges c" unfolding section_does_def by (metis snd_conv)
  with f Some show ?thesis by (simp add: update_inst_def)
qed (simp add: update_inst_def)

definition to_phase :: "nat \<Rightarrow> lifecycle_state \<Rightarrow> 'd inst_state \<Rightarrow> 'd inst_state" where
  "to_phase now p s = s\<lparr>is_phase := p, is_phase_since := now\<rparr>"

definition torn_down :: "nat \<Rightarrow> 'd inst_state \<Rightarrow> 'd inst_state" where
  "torn_down now s = (to_phase now Cold s)\<lparr>is_handle := None, is_last_activity := now\<rparr>"

definition settled :: "(engine_status, 'd) result \<Rightarrow> nat \<Rightarrow> 'd inst_state \<Rightarrow> 'd inst_state" where
  "settled res now s = (case res of Inr db \<Rightarrow> lease_now now ((to_phase now Active s)\<lparr>is_handle := Some db\<rparr>) | Inl e \<Rightarrow> to_phase now Cold s)"

definition idled :: "nat \<Rightarrow> 'd controller \<Rightarrow> 'd inst_state \<Rightarrow> 'd inst_state" where
  "idled now c s = (let s1 = (if is_phase s = Active then to_phase now Idle s else s) in
     if is_phase s1 = Idle \<and> cc_idle_timeout (ct_cfg c) \<le> now - is_last_activity s1 \<and> \<not> cc_keep_warm (ct_cfg c) then torn_down now s1 else s1)"

lemma sections_do:
  "section_does (enter_phase now p) (\<lambda>c. to_phase now p)"
  "section_does (\<lambda>sc. case res of Inr db \<Rightarrow> (case enter_phase now Active sc of (s1, c1) \<Rightarrow> (lease_now now (s1\<lparr>is_handle := Some db\<rparr>), c1))
     | Inl e \<Rightarrow> enter_phase now Cold sc) (\<lambda>c. settled res now)"
  "section_does (\<lambda>(s, c). (s\<lparr>is_active := is_active s - 1, is_last_activity := now\<rparr>, c)) (\<lambda>c s. s\<lparr>is_active := is_active s - 1, is_last_activity := now\<rparr>)"
  by (auto simp: section_does_def to_phase_def settled_def case_prod_beta lease_now_def split: sum.splits)

lemma reap_idle_does: "section_does (reap_idle now) (idled now)"
  unfolding section_does_def reap_idle_def idled_def Let_def
  by (auto simp: case_prod_beta to_phase_def torn_down_def gauges_def enter_phase_def split: lifecycle_state.splits)

lemma settle_warm_does: "get_inst u (settle_warm url res now c) = (if u = url then map_option (settled res now) (get_inst url c) else get_inst u c)"
  "gauges (settle_warm url res now c) = gauges c"
  unfolding settle_warm_def by (rule update_inst_get [OF sections_do(2)], rule update_inst_gauges [OF sections_do(2)])

lemma lease_drop_does:
  "get_inst u (lease_drop url now c) = (if u = url then map_option (\<lambda>s. s\<lparr>is_active := is_active s - 1, is_last_activity := now\<rparr>) (get_inst url c) else get_inst u c)"
  "gauges (lease_drop url now c) = gauges c"
  unfolding lease_drop_def by (rule update_inst_get [OF sections_do(3)], rule update_inst_gauges [OF sections_do(3)])

lemma controller_stop_does:
  "get_inst u (controller_stop url now c) = (if u = url then map_option (\<lambda>s. if is_active s = 0 then torn_down now s else s) (get_inst url c) else get_inst u c)"
  "gauges (controller_stop url now c) = gauges c"
proof -
  have "section_does (\<lambda>(s, c). if is_active s = 0 then
       (case enter_phase now Cold (s\<lparr>is_handle := None\<rparr>, if is_handle s \<noteq> None then c\<lparr>ct_scale_to_zero := ct_scale_to_zero c + 1\<rparr> else c) of
          (s1, c1) \<Rightarrow> (s1\<lparr>is_last_activity := now\<rparr>, c1)) else (s, c)) (\<lambda>c s. if is_active s = 0 then torn_down now s else s)"
    by (auto simp: section_does_def torn_down_def to_phase_def enter_phase_def gauges_def Let_def split: lifecycle_state.splits)
  from update_inst_get [OF this] update_inst_gauges [OF this] show
    "get_inst u (controller_stop url now c) = (if u = url then map_option (\<lambda>s. if is_active s = 0 then torn_down now s else s) (get_inst url c) else get_inst u c)"
    "gauges (controller_stop url now c) = gauges c" by (simp_all only: controller_stop_def)
qed

definition reaped :: "bool \<Rightarrow> nat \<Rightarrow> 'd controller \<Rightarrow> 'd inst_state \<Rightarrow> 'd inst_state" where
  "reaped fenced now c s = (if fenced then torn_down now s else if is_active s = 0 then idled now c s
     else if is_phase s = Idle then to_phase now Active s else s)"

lemma reap_settle_does:
  "get_inst u (reap_settle url fenced now c) = (if u = url then map_option (reaped fenced now c) (get_inst url c) else get_inst u c)"
  "gauges (reap_settle url fenced now c) = gauges c"
proof -
  have "section_does (\<lambda>(s, c).
     if fenced then (case enter_phase now Cold (s\<lparr>is_handle := None\<rparr>, c) of (s1, c1) \<Rightarrow> (s1\<lparr>is_last_activity := now\<rparr>, c1))
     else if is_active s = 0 then reap_idle now (s, c) else if is_phase s = Idle then enter_phase now Active (s, c) else (s, c)) (reaped fenced now)"
    using reap_idle_does [of now] by (auto simp: section_does_def reaped_def torn_down_def to_phase_def enter_phase_def gauges_def Let_def split: lifecycle_state.splits)
  from update_inst_get [OF this] update_inst_gauges [OF this] show
    "get_inst u (reap_settle url fenced now c) = (if u = url then map_option (reaped fenced now c) (get_inst url c) else get_inst u c)"
    "gauges (reap_settle url fenced now c) = gauges c" by (simp_all only: reap_settle_def)
qed

lemma get_or_create_does:
  "get_inst u (get_or_create url now c) = (if u = url \<and> get_inst url c = None
     then Some \<lparr>is_phase = Cold, is_handle = None, is_active = 0, is_last_activity = now, is_phase_since = now\<rparr> else get_inst u c)"
  "gauges (get_or_create url now c) = gauges c"
  by (simp_all add: get_or_create_def split: option.splits)

lemma start_leased_does:
  assumes "start_section url now c = (Leased db, c')"
  shows "\<exists>s. get_inst url c = Some s \<and> warm_phase (is_phase s) \<and> is_handle s = Some db \<and> gauges c' = gauges c \<and>
    (\<forall>u. get_inst u c' = (if u = url then Some (lease_now now (to_phase now Active s)) else get_inst u c))"
  using assms
  by (auto simp: start_section_def case_prod_beta warm_phase_def to_phase_def get_inst_def put_inst_def gauges_def enter_phase_def Let_def split: option.splits if_splits lifecycle_state.splits)

lemma start_warms_does:
  assumes "start_section url now c = (MustWarm, c')"
  shows "\<exists>s. get_inst url c = Some s \<and> is_phase s = Cold \<and> gauges c' = gauges c \<and>
    (\<forall>u. get_inst u c' = (if u = url then Some (to_phase now Warming s) else get_inst u c))"
proof -
  from assms obtain s where s: "get_inst url c = Some s" "is_phase s = Cold" "c' = update_inst url (enter_phase now Warming) c"
    by (auto simp: start_section_def case_prod_beta split: option.splits if_splits)
  then show ?thesis by (simp add: update_inst_get [OF sections_do(1)] update_inst_gauges [OF sections_do(1)])
qed

text \<open>The steps of \<^verbatim>\<open>warm\<close> and the lease renewal leave the instances alone.\<close>

lemma get_inst_gauge_steps:
  "sem_acquire c = Some c' \<Longrightarrow> get_inst u c' = get_inst u c" "warm_enter waited c = (cur, c') \<Longrightarrow> get_inst u c' = get_inst u c"
  "get_inst u (warm_peak cur c) = get_inst u c" "get_inst u (warm_leave c) = get_inst u c" "get_inst u (sem_release c) = get_inst u c"
  "get_inst u (warm_counted res c) = get_inst u c" "get_inst u (reap_renewed ok c) = get_inst u c"
  by (auto simp: get_inst_def sem_acquire_def warm_enter_def warm_peak_def warm_leave_def sem_release_def warm_counted_def reap_renewed_def Let_def
      split: if_splits sum.splits)

section \<open>Admission\<close>

lemma admission_gauges: "admission_ok cfg y \<Longrightarrow> gauges (sy_ctl y') = gauges (sy_ctl y) \<Longrightarrow> sy_threads y' = sy_threads y \<Longrightarrow> admission_ok cfg y'"
  by (simp add: admission_ok_def gauges_def)

lemma advance_simps [simp]: "sy_ctl (advance t ts c y) = c" "sy_threads (advance t ts c y) = sy_threads y - {#t#} + ts"
  "sy_leases (advance t ts c y) = sy_leases y" "sy_reaper (advance t ts c y) = sy_reaper y" "sy_now (advance t ts c y) = sy_now y"
  by (simp_all add: advance_def)

lemma holders_le: "size (filter_mset entered M) \<le> size (filter_mset holds_permit M)"
proof (induction M)
  case (add t M)
  then show ?case by (cases t) auto
qed simp

lemma gaugesD: "gauges c' = gauges c \<Longrightarrow> ct_cfg c' = ct_cfg c \<and> ct_permits c' = ct_permits c \<and> ct_cur_warms c' = ct_cur_warms c \<and> ct_peak_warms c' = ct_peak_warms c"
  by (simp add: gauges_def)

lemma admission_moved:
  assumes "admission_ok cfg y" and "t \<in># sy_threads y" and "sy_threads y' = sy_threads y - {#t#} + ts" and "gauges (sy_ctl y') = gauges (sy_ctl y)"
    and "size (filter_mset holds_permit ts) = (if holds_permit t then 1 else 0)" and "size (filter_mset entered ts) = (if entered t then 1 else 0)"
    and "\<And>url n. TEntered url n \<notin># ts"
  shows "admission_ok cfg y'"
proof -
  obtain N where "sy_threads y = add_mset t N" using multi_member_split [OF assms(2)] by blast
  with assms gaugesD [OF assms(4)] show ?thesis by (auto simp: admission_ok_def split: if_splits)
qed

lemma ctl_step_admission:
  assumes "ctl_step stops y y'" and "admission_ok cfg y"
  shows "admission_ok cfg y'"
  using assms
proof (induction rule: ctl_step.induct)
  case (call_start y url)
  from gaugesD [OF get_or_create_does(2) [of url "sy_now y" "sy_ctl y"]] call_start show ?case by (simp add: admission_ok_def)
next
  case (start_leased url y db c)
  show ?case by (rule admission_moved [OF start_leased(3,1)]) (use start_leased_does [OF start_leased(2)] in auto)
next
  case (start_warms url y c)
  show ?case by (rule admission_moved [OF start_warms(3,1)]) (use start_warms_does [OF start_warms(2)] in auto)
next
  case (admit url y c)
  obtain N where N: "sy_threads y = add_mset (TAdmit url) N" using multi_member_split [OF admit(1)] by blast
  from admit(2) have "ct_permits (sy_ctl y) \<noteq> 0" "c = (sy_ctl y)\<lparr>ct_permits := ct_permits (sy_ctl y) - 1\<rparr>"
    by (auto simp: sem_acquire_def split: if_splits)
  with N admit(3) show ?case by (auto simp: admission_ok_def)
next
  case (enter url y waited cur c)
  obtain N where N: "sy_threads y = add_mset (TAdmitted url) N" using multi_member_split [OF enter(1)] by blast
  from enter(2) have "cur = ct_cur_warms (sy_ctl y) + 1" "ct_cfg c = ct_cfg (sy_ctl y)" "ct_permits c = ct_permits (sy_ctl y)" "ct_peak_warms c = ct_peak_warms (sy_ctl y)" "ct_cur_warms c = cur"
    by (auto simp: warm_enter_def Let_def)
  with N enter(3) holders_le [of N] show ?case by (auto simp: admission_ok_def)
next
  case (peak url cur y)
  obtain N where N: "sy_threads y = add_mset (TEntered url cur) N" using multi_member_split [OF peak(1)] by blast
  with peak show ?case by (auto simp: admission_ok_def warm_peak_def)
next
  case (opened url y res)
  show ?case by (rule admission_moved [OF opened(2,1)]) auto
next
  case (leave url res y)
  obtain N where N: "sy_threads y = add_mset (TOpened url res) N" using multi_member_split [OF leave(1)] by blast
  with leave show ?case by (auto simp: admission_ok_def warm_leave_def)
next
  case (release url res y)
  obtain N where N: "sy_threads y = add_mset (TLeft url res) N" using multi_member_split [OF release(1)] by blast
  with release show ?case by (auto simp: admission_ok_def sem_release_def)
next
  case (counted url res y)
  show ?case by (rule admission_moved [OF counted(2,1)]) (auto simp: warm_counted_def gauges_def split: sum.splits)
next
  case (settle_ok url db y)
  show ?case by (rule admission_moved [OF settle_ok(2,1)]) (auto simp: settle_warm_does)
next
  case (settle_err url e y)
  show ?case by (rule admission_moved [OF settle_err(2,1)]) (auto simp: settle_warm_does)
next
  case (drop_lease url db y)
  then show ?case by (simp add: admission_ok_def gaugesD [OF lease_drop_does(2)])
next
  case (stop y url)
  then show ?case by (simp add: admission_ok_def gaugesD [OF controller_stop_does(2)])
next
  case (reap_decide y url fenced urls)
  then show ?case by (simp add: admission_ok_def gaugesD [OF reap_settle_does(2)])
qed (auto simp: admission_ok_def reap_renewed_def)

section \<open>Instances, leases and warm-ups\<close>

lemma warmers_add: "sy_threads y = add_mset t N \<Longrightarrow> warmers u y = size (filter_mset (\<lambda>t. warming_url t = Some u) N) + (if warming_url t = Some u then 1 else 0)"
  by (simp add: warmers_def)

lemma lease_count_add: "sy_leases y = add_mset (url, db) N \<Longrightarrow> lease_count u y = size (filter_mset (\<lambda>(u', db). u' = u) N) + (if u = url then 1 else 0)"
  by (simp add: lease_count_def)

lemma warmers_cong: "sy_threads y' = sy_threads y \<Longrightarrow> warmers u y' = warmers u y"
  by (simp add: warmers_def)

lemma lease_count_cong: "sy_leases y' = sy_leases y \<Longrightarrow> lease_count u y' = lease_count u y"
  by (simp add: lease_count_def)

definition same_at :: "string \<Rightarrow> 'd system \<Rightarrow> 'd system \<Rightarrow> bool" where
  "same_at u y y' \<longleftrightarrow> get_inst u (sy_ctl y') = get_inst u (sy_ctl y) \<and> lease_count u y' = lease_count u y \<and> warmers u y' = warmers u y \<and>
     (TStart u \<in># sy_threads y' \<longrightarrow> TStart u \<in># sy_threads y)"

lemma instances_same: "instances_ok y \<Longrightarrow> (\<And>u. same_at u y y') \<Longrightarrow> instances_ok y'"
  unfolding instances_ok_def same_at_def inst_ok_def by metis

lemma instances_step:
  assumes "instances_ok y" and "\<And>u. u \<noteq> url \<Longrightarrow> same_at u y y'" and "get_inst url (sy_ctl y') = Some s'" and "inst_ok y' url s'"
  shows "instances_ok y'"
proof -
  have "inst_ok y' u s" if "get_inst u (sy_ctl y') = Some s" for u s
    using assms that by (cases "u = url") (auto simp: instances_ok_def same_at_def inst_ok_def)
  moreover have "lease_count u y' = 0 \<and> warmers u y' = 0 \<and> TStart u \<notin># sy_threads y'" if "get_inst u (sy_ctl y') = None" for u
    using assms that by (cases "u = url") (auto simp: instances_ok_def same_at_def)
  ultimately show ?thesis by (simp add: instances_ok_def)
qed

lemma instance_exists:
  assumes "instances_ok y" and "TStart url \<in># sy_threads y \<or> (\<exists>t\<in>#sy_threads y. warming_url t = Some url) \<or> (\<exists>db. (url, db) \<in># sy_leases y)"
  shows "\<exists>s. get_inst url (sy_ctl y) = Some s \<and> inst_ok y url s"
proof (cases "get_inst url (sy_ctl y)")
  case None
  then have "lease_count url y = 0" "warmers url y = 0" "TStart url \<notin># sy_threads y" using assms(1) by (auto simp: instances_ok_def)
  then have "\<forall>t\<in>#sy_threads y. warming_url t \<noteq> Some url" "\<forall>l\<in>#sy_leases y. fst l \<noteq> url"
    by (auto simp: warmers_def lease_count_def)
  with assms(2) \<open>TStart url \<notin># sy_threads y\<close> show ?thesis by force
next
  case (Some s)
  with assms(1) show ?thesis by (auto simp: instances_ok_def)
qed

lemma warm_moves:
  assumes "instances_ok y" and "t \<in># sy_threads y" and "warming_url t' = warming_url t" and "\<And>u. t' \<noteq> TStart u"
    and "ct_instances c = ct_instances (sy_ctl y)"
  shows "instances_ok (advance t {#t'#} c y)"
proof (rule instances_same [OF assms(1)])
  fix u
  obtain N where N: "sy_threads y = add_mset t N" using multi_member_split [OF assms(2)] by blast
  have "get_inst u c = get_inst u (sy_ctl y)" using assms(5) by (simp add: get_inst_def)
  moreover have "warmers u (advance t {#t'#} c y) = warmers u y" using assms(3) by (simp add: warmers_def N)
  ultimately show "same_at u y (advance t {#t'#} c y)"
    using assms(4) [of u] by (auto simp: same_at_def lease_count_def N)
qed

lemma reaped_ok:
  assumes "is_active s = k \<and> (warm_phase (is_phase s) \<longrightarrow> is_handle s \<noteq> None) \<and> is_phase s \<noteq> Stopping \<and> (is_phase s = Warming \<longrightarrow> w \<noteq> 0)"
  shows "is_active (reaped fenced now c s) = k \<and> (warm_phase (is_phase (reaped fenced now c s)) \<longrightarrow> is_handle (reaped fenced now c s) \<noteq> None) \<and>
    is_phase (reaped fenced now c s) \<noteq> Stopping \<and> (is_phase (reaped fenced now c s) = Warming \<longrightarrow> w \<noteq> 0)"
  using assms by (simp add: reaped_def idled_def torn_down_def to_phase_def warm_phase_def Let_def)

lemma ctl_step_instances:
  assumes "ctl_step stops y y'" and "instances_ok y"
  shows "instances_ok y'"
  using assms
proof (induction rule: ctl_step.induct)
  case (call_start y url)
  let ?y' = "y\<lparr>sy_ctl := get_or_create url (sy_now y) (sy_ctl y), sy_threads := add_mset (TStart url) (sy_threads y)\<rparr>"
  have counts: "lease_count u ?y' = lease_count u y" "warmers u ?y' = warmers u y" for u by (simp_all add: lease_count_def warmers_def)
  obtain s' where s': "get_inst url (sy_ctl ?y') = Some s'" by (cases "get_inst url (sy_ctl y)") (auto simp: get_or_create_does)
  have "inst_ok ?y' url s'"
    using s' call_start unfolding instances_ok_def inst_ok_def counts
    by (cases "get_inst url (sy_ctl y)") (auto simp: get_or_create_does warm_phase_def)
  with s' show ?case by (intro instances_step [OF call_start]) (auto simp: same_at_def counts get_or_create_does)
next
  case (start_leased url y db c)
  obtain N where N: "sy_threads y = add_mset (TStart url) N" using multi_member_split [OF start_leased(1)] by blast
  let ?y' = "(advance (TStart url) {#} c y)\<lparr>sy_leases := add_mset (url, db) (sy_leases y)\<rparr>"
  have counts: "lease_count u ?y' = lease_count u y + (if u = url then 1 else 0)" "warmers u ?y' = warmers u y" for u by (simp_all add: lease_count_def warmers_def N)
  from start_leased_does [OF start_leased(2)] obtain s where s: "get_inst url (sy_ctl y) = Some s" "warm_phase (is_phase s)" "is_handle s = Some db"
    "\<And>u. get_inst u c = (if u = url then Some (lease_now (sy_now y) (to_phase (sy_now y) Active s)) else get_inst u (sy_ctl y))" by blast
  have "inst_ok y url s" using s(1) start_leased(3) by (simp add: instances_ok_def)
  then have "inst_ok ?y' url (lease_now (sy_now y) (to_phase (sy_now y) Active s))"
    using s(3) by (simp add: inst_ok_def counts lease_now_def to_phase_def)
  then show ?case by (intro instances_step [OF start_leased(3)]) (auto simp: same_at_def counts s(4) N)
next
  case (start_warms url y c)
  obtain N where N: "sy_threads y = add_mset (TStart url) N" using multi_member_split [OF start_warms(1)] by blast
  let ?y' = "advance (TStart url) {#TAdmit url#} c y"
  have counts: "lease_count u ?y' = lease_count u y" "warmers u ?y' = warmers u y + (if u = url then 1 else 0)" for u by (simp_all add: lease_count_def warmers_def N)
  from start_warms_does [OF start_warms(2)] obtain s where s: "get_inst url (sy_ctl y) = Some s" "is_phase s = Cold"
    "\<And>u. get_inst u c = (if u = url then Some (to_phase (sy_now y) Warming s) else get_inst u (sy_ctl y))" by blast
  have "inst_ok y url s" using s(1) start_warms(3) by (simp add: instances_ok_def)
  then have "inst_ok ?y' url (to_phase (sy_now y) Warming s)" by (simp add: inst_ok_def counts to_phase_def warm_phase_def)
  then show ?case by (intro instances_step [OF start_warms(3)]) (auto simp: same_at_def counts s(3) N)
next
  case (admit url y c)
  then show ?case by (intro warm_moves) (auto simp: sem_acquire_def split: if_splits)
next
  case (enter url y waited cur c)
  then show ?case by (intro warm_moves) (auto simp: warm_enter_def Let_def)
next
  case (peak url cur y)
  then show ?case by (intro warm_moves) (auto simp: warm_peak_def)
next
  case (opened url y res)
  then show ?case by (intro warm_moves) auto
next
  case (leave url res y)
  then show ?case by (intro warm_moves) (auto simp: warm_leave_def)
next
  case (release url res y)
  then show ?case by (intro warm_moves) (auto simp: sem_release_def)
next
  case (counted url res y)
  then show ?case by (intro warm_moves) (auto simp: warm_counted_def split: sum.splits)
next
  case (settle_ok url db y)
  obtain N where N: "sy_threads y = add_mset (TSettle url (Inr db)) N" using multi_member_split [OF settle_ok(1)] by blast
  let ?y' = "(advance (TSettle url (Inr db)) {#} (settle_warm url (Inr db) (sy_now y) (sy_ctl y)) y)\<lparr>sy_leases := add_mset (url, db) (sy_leases y)\<rparr>"
  have counts: "lease_count u ?y' = lease_count u y + (if u = url then 1 else 0)" "u \<noteq> url \<Longrightarrow> warmers u ?y' = warmers u y" for u by (auto simp: lease_count_def warmers_def N)
  from instance_exists [OF settle_ok(2)] settle_ok(1) obtain s where s: "get_inst url (sy_ctl y) = Some s" "inst_ok y url s" by force
  then have "inst_ok ?y' url (settled (Inr db) (sy_now y) s)" by (simp add: inst_ok_def counts settled_def lease_now_def to_phase_def)
  with s(1) show ?case by (intro instances_step [OF settle_ok(2)]) (auto simp: same_at_def counts settle_warm_does N)
next
  case (settle_err url e y)
  obtain N where N: "sy_threads y = add_mset (TSettle url (Inl e)) N" using multi_member_split [OF settle_err(1)] by blast
  let ?y' = "advance (TSettle url (Inl e)) {#} (settle_warm url (Inl e) (sy_now y) (sy_ctl y)) y"
  have counts: "lease_count u ?y' = lease_count u y" "u \<noteq> url \<Longrightarrow> warmers u ?y' = warmers u y" for u by (auto simp: lease_count_def warmers_def N)
  from instance_exists [OF settle_err(2)] settle_err(1) obtain s where s: "get_inst url (sy_ctl y) = Some s" "inst_ok y url s" by force
  then have "inst_ok ?y' url (settled (Inl e) (sy_now y) s)" by (simp add: inst_ok_def counts settled_def to_phase_def warm_phase_def)
  with s(1) show ?case by (intro instances_step [OF settle_err(2)]) (auto simp: same_at_def counts settle_warm_does N)
next
  case (drop_lease url db y)
  obtain N where N: "sy_leases y = add_mset (url, db) N" using multi_member_split [OF drop_lease(1)] by blast
  let ?y' = "y\<lparr>sy_ctl := lease_drop url (sy_now y) (sy_ctl y), sy_leases := sy_leases y - {#(url, db)#}\<rparr>"
  have counts: "lease_count u y = lease_count u ?y' + (if u = url then 1 else 0)" "warmers u ?y' = warmers u y" for u by (auto simp: lease_count_def warmers_def N)
  from instance_exists [OF drop_lease(2)] drop_lease(1) obtain s where s: "get_inst url (sy_ctl y) = Some s" "inst_ok y url s" by force
  then have "inst_ok ?y' url (s\<lparr>is_active := is_active s - 1, is_last_activity := sy_now y\<rparr>)" using counts(1) [of url] counts(2) [of url] by (simp add: inst_ok_def)
  with s(1) show ?case using counts(1) by (intro instances_step [OF drop_lease(2)]) (auto simp: same_at_def counts(2) lease_drop_does)
next
  case (stop y url)
  show ?case
  proof (cases "get_inst url (sy_ctl y)")
    case None
    then show ?thesis by (intro instances_same [OF stop(2)]) (simp add: same_at_def controller_stop_does lease_count_def warmers_def)
  next
    case (Some s)
    let ?y' = "y\<lparr>sy_ctl := controller_stop url (sy_now y) (sy_ctl y)\<rparr>"
    have counts: "lease_count u ?y' = lease_count u y" "warmers u ?y' = warmers u y" for u by (simp_all add: lease_count_def warmers_def)
    have "inst_ok y url s" using Some stop(2) by (simp add: instances_ok_def)
    then have "inst_ok ?y' url (if is_active s = 0 then torn_down (sy_now y) s else s)"
      by (simp add: inst_ok_def counts torn_down_def to_phase_def warm_phase_def)
    with Some show ?thesis by (intro instances_step [OF stop(2)]) (auto simp: same_at_def counts controller_stop_does)
  qed
next
  case (reap_renew y url urls ok)
  then show ?case by (intro instances_same [OF reap_renew(2)]) (simp add: same_at_def reap_renewed_def get_inst_def lease_count_def warmers_def)
next
  case (reap_decide y url fenced urls)
  let ?y' = "y\<lparr>sy_ctl := reap_settle url fenced (sy_now y) (sy_ctl y), sy_reaper := RScan urls\<rparr>"
  have counts: "lease_count u ?y' = lease_count u y" "warmers u ?y' = warmers u y" for u by (simp_all add: lease_count_def warmers_def)
  show ?case
  proof (cases "get_inst url (sy_ctl y)")
    case None
    then show ?thesis by (intro instances_same [OF reap_decide(2)]) (simp add: same_at_def reap_settle_does counts)
  next
    case (Some s)
    then have "inst_ok y url s" using reap_decide(2) by (simp add: instances_ok_def)
    then have "inst_ok ?y' url (reaped fenced (sy_now y) (sy_ctl y) s)" unfolding inst_ok_def counts by (rule reaped_ok)
    with Some show ?thesis by (intro instances_step [OF reap_decide(2)]) (auto simp: same_at_def counts reap_settle_does)
  qed
qed (erule instances_same, simp add: same_at_def lease_count_def warmers_def)+

lemma ctl_steps_inv:
  assumes "(ctl_step stops)\<^sup>*\<^sup>* y0 y" and "initial cfg y0"
  shows "admission_ok cfg y \<and> instances_ok y"
  using assms
proof (induction rule: rtranclp_induct)
  case base
  then have "sy_ctl y0 = projr (controller_new cfg)" "cc_max_concurrent_warms cfg \<noteq> 0" "cc_reap_interval cfg \<noteq> 0" "cc_idle_timeout cfg \<noteq> 0"
    by (simp_all add: initial_def) (simp_all add: controller_new_def split: if_splits)
  with base show ?case
    by (simp add: admission_ok_def instances_ok_def initial_def controller_new_def get_inst_def lease_count_def warmers_def)
next
  case (step y z)
  then show ?case using ctl_step_admission ctl_step_instances by blast
qed

text \<open>C32. The controller under any interleaving of \<^verbatim>\<open>start\<close>, \<^verbatim>\<open>stop\<close>, dropped leases and the reaper, whatever opening and
  renewing do: at most \<^verbatim>\<open>max_concurrent_warms\<close> databases warm at once, the lease counter of an
  instance is the number of its outstanding leases, a warm instance has its handle (so
  \<^verbatim>\<open>start\<close> does not panic), and while an instance is warming somebody is warming it, so the
  waiting calls are woken.\<close>
theorem controller_invariant:
  assumes "(ctl_step stops)\<^sup>*\<^sup>* y0 y" and "initial cfg y0"
  shows "ct_peak_warms (sy_ctl y) \<le> cc_max_concurrent_warms cfg \<and>
    size (filter_mset holds_permit (sy_threads y)) \<le> cc_max_concurrent_warms cfg \<and>
    (\<forall>url s. get_inst url (sy_ctl y) = Some s \<longrightarrow> is_active s = lease_count url y \<and> (warm_phase (is_phase s) \<longrightarrow> is_handle s \<noteq> None) \<and>
      (is_phase s = Warming \<longrightarrow> warmers url y \<noteq> 0) \<and> is_phase s \<noteq> Stopping) \<and>
    (\<forall>url now. fst (start_section url now (sy_ctl y)) \<noteq> NoHandle)"
proof -
  have inv: "admission_ok cfg y" "instances_ok y" using ctl_steps_inv [OF assms] by simp_all
  have "fst (start_section url now (sy_ctl y)) \<noteq> NoHandle" for url now
  proof (cases "get_inst url (sy_ctl y)")
    case (Some s)
    then have "warm_phase (is_phase s) \<longrightarrow> is_handle s \<noteq> None" using inv(2) by (simp add: instances_ok_def inst_ok_def)
    with Some show ?thesis by (auto simp: start_section_def warm_phase_def case_prod_beta split: option.splits)
  qed (simp add: start_section_def)
  with inv show ?thesis by (auto simp: admission_ok_def instances_ok_def inst_ok_def)
qed

text \<open>A leased database is not torn down under its client: in any step, the handle of an instance with
  outstanding leases goes away only when the reaper found the writer fenced.\<close>
theorem leases_pin_instances:
  assumes "(ctl_step stops)\<^sup>*\<^sup>* y0 y" and "initial cfg y0" and "ctl_step stops y y'"
    and "get_inst url (sy_ctl y) = Some s" and "lease_count url y \<noteq> 0" and "is_handle s \<noteq> None"
  shows "\<exists>s'. get_inst url (sy_ctl y') = Some s' \<and> (is_handle s' = None \<longrightarrow> (\<exists>urls. sy_reaper y = RSettle url True urls))"
proof -
  have active: "is_active s \<noteq> 0" using ctl_steps_inv [OF assms(1,2)] assms(4,5) by (auto simp: instances_ok_def inst_ok_def)
  from assms(3) show ?thesis
  proof cases
    case (start_leased url' db c)
    from start_leased_does [OF start_leased(3)] assms(4,6) show ?thesis by (auto simp: start_leased(1) lease_now_def to_phase_def)
  next
    case (start_warms url' c)
    from start_warms_does [OF start_warms(3)] assms(4,6) show ?thesis by (auto simp: start_warms(1) to_phase_def)
  next
    case (stop url')
    with assms(4,6) active show ?thesis by (cases "url' = url") (auto simp: controller_stop_does)
  next
    case (reap_decide url' fenced urls)
    with assms(4,6) active show ?thesis by (cases "url' = url") (auto simp: reap_settle_does reaped_def to_phase_def)
  qed (use assms(4,6) active in \<open>auto simp: get_or_create_does settle_warm_does lease_drop_does settled_def
      lease_now_def to_phase_def get_inst_gauge_steps\<close>)
qed

section \<open>One warm-up per database\<close>

fun visiting :: "'d reaper \<Rightarrow> string option" where
  "visiting (RRenew url urls) = Some url"
| "visiting (RSettle url fenced urls) = Some url"
| "visiting _ = None"

text \<open>Without calls of \<^verbatim>\<open>stop\<close>, an instance has a warm-up in flight exactly while it is warming and a handle
  exactly while it is warm, and the reaper visits warm instances only.\<close>

definition single_ok :: "'d system \<Rightarrow> string \<Rightarrow> bool" where
  "single_ok y u \<longleftrightarrow> (case get_inst u (sy_ctl y) of
     None \<Rightarrow> warmers u y = 0 \<and> visiting (sy_reaper y) \<noteq> Some u
   | Some s \<Rightarrow> warmers u y = (if is_phase s = Warming then 1 else 0) \<and> (is_handle s \<noteq> None \<longleftrightarrow> warm_phase (is_phase s)) \<and> is_phase s \<noteq> Stopping \<and>
       (visiting (sy_reaper y) = Some u \<longrightarrow> warm_phase (is_phase s)))"

lemma single_same:
  assumes "single_ok y u" and "get_inst u (sy_ctl y') = get_inst u (sy_ctl y)" and "warmers u y' = warmers u y"
    and "visiting (sy_reaper y') = Some u \<longrightarrow> visiting (sy_reaper y) = Some u"
  shows "single_ok y' u"
  using assms by (auto simp: single_ok_def split: option.splits)

lemma single_moves:
  assumes "single_ok y u" and "t \<in># sy_threads y" and "warming_url t' = warming_url t" and "get_inst u c = get_inst u (sy_ctl y)"
  shows "single_ok (advance t {#t'#} c y) u"
proof -
  obtain N where N: "sy_threads y = add_mset t N" using multi_member_split [OF assms(2)] by blast
  show ?thesis by (rule single_same [OF assms(1)]) (use assms(3,4) in \<open>simp_all add: warmers_def N\<close>)
qed

lemma single_warming:
  assumes "single_ok y url" and "t \<in># sy_threads y" and "warming_url t = Some url"
  shows "\<exists>s. get_inst url (sy_ctl y) = Some s \<and> is_phase s = Warming \<and> is_handle s = None \<and> warmers url y = 1 \<and> visiting (sy_reaper y) \<noteq> Some url"
proof -
  obtain N where "sy_threads y = add_mset t N" using multi_member_split [OF assms(2)] by blast
  then have "warmers url y \<noteq> 0" using assms(3) by (simp add: warmers_def)
  with assms(1) show ?thesis by (auto simp: single_ok_def warm_phase_def split: option.splits if_splits)
qed

lemma reaped_single:
  assumes "warm_phase (is_phase s)" and "is_handle s \<noteq> None"
  shows "is_phase (reaped fenced now c s) \<notin> {Warming, Stopping} \<and> (is_handle (reaped fenced now c s) \<noteq> None \<longleftrightarrow> warm_phase (is_phase (reaped fenced now c s)))"
  using assms by (auto simp: reaped_def idled_def torn_down_def to_phase_def warm_phase_def Let_def)

lemma settle_single:
  assumes "single_ok y url" and "TSettle url res \<in># sy_threads y" and "single_ok y u" and "sy_threads y' = sy_threads y - {#TSettle url res#}"
    and "sy_ctl y' = settle_warm url res (sy_now y) (sy_ctl y)" and "sy_reaper y' = sy_reaper y"
  shows "single_ok y' u"
proof -
  obtain N where N: "sy_threads y = add_mset (TSettle url res) N" using multi_member_split [OF assms(2)] by blast
  from single_warming [OF assms(1,2)] obtain s where s: "get_inst url (sy_ctl y) = Some s" "is_phase s = Warming" "is_handle s = None" "warmers url y = 1"
    "visiting (sy_reaper y) \<noteq> Some url" by auto
  have "warmers u y' = (if u = url then 0 else warmers u y)" using s(4) assms(4) by (simp add: warmers_def N)
  with s assms(3,5,6) show ?thesis
    by (cases res; cases "u = url") (auto simp: single_ok_def settle_warm_does settled_def to_phase_def lease_now_def warm_phase_def split: option.splits)
qed

lemma ctl_step_single:
  assumes "ctl_step False y y'" and "\<And>u. single_ok y u"
  shows "single_ok y' u"
  using assms
proof (induction rule: ctl_step.induct)
  case (call_start y url)
  from call_start [of u] show ?case by (auto simp: single_ok_def get_or_create_does warmers_def warm_phase_def split: option.splits)
next
  case (start_leased url y db c)
  obtain N where N: "sy_threads y = add_mset (TStart url) N" using multi_member_split [OF start_leased(1)] by blast
  from start_leased_does [OF start_leased(2)] start_leased(3) [of u] show ?case
    by (auto simp: single_ok_def warmers_def N lease_now_def to_phase_def warm_phase_def split: option.splits)
next
  case (start_warms url y c)
  obtain N where N: "sy_threads y = add_mset (TStart url) N" using multi_member_split [OF start_warms(1)] by blast
  from start_warms_does [OF start_warms(2)] start_warms(3) [of u] show ?case
    by (auto simp: single_ok_def warmers_def N to_phase_def warm_phase_def split: option.splits)
next
  case (admit url y c)
  then show ?case by (intro single_moves) (simp_all add: get_inst_gauge_steps)
next
  case (enter url y waited cur c)
  then show ?case by (intro single_moves) (simp_all add: get_inst_gauge_steps)
next
  case (peak url cur y)
  then show ?case by (intro single_moves) (simp_all add: get_inst_gauge_steps)
next
  case (opened url y res)
  then show ?case by (intro single_moves) (simp_all add: get_inst_gauge_steps)
next
  case (leave url res y)
  then show ?case by (intro single_moves) (simp_all add: get_inst_gauge_steps)
next
  case (release url res y)
  then show ?case by (intro single_moves) (simp_all add: get_inst_gauge_steps)
next
  case (counted url res y)
  then show ?case by (intro single_moves) (simp_all add: get_inst_gauge_steps)
next
  case (settle_ok url db y)
  show ?case by (rule settle_single [OF settle_ok(2,1,2)]) simp_all
next
  case (settle_err url e y)
  show ?case by (rule settle_single [OF settle_err(2,1,2)]) simp_all
next
  case (drop_lease url db y)
  from drop_lease(2) [of u] show ?case by (auto simp: single_ok_def lease_drop_does warmers_def split: option.splits)
next
  case (reap_visit y url urls ph db)
  from reap_visit(2) reap_visit(3) [of url] reap_visit(3) [of u] show ?case
    by (auto simp: single_ok_def reap_look_def warmers_def Option.bind_eq_Some_conv split: option.splits)
next
  case (reap_decide y url fenced urls)
  from reap_decide(1) reap_decide(2) [of url] have "\<exists>s. get_inst url (sy_ctl y) = Some s \<and> warm_phase (is_phase s) \<and> is_handle s \<noteq> None \<and> warmers url y = 0"
    by (auto simp: single_ok_def warm_phase_def split: option.splits)
  then obtain s where s: "get_inst url (sy_ctl y) = Some s" "warm_phase (is_phase s)" "is_handle s \<noteq> None" "warmers url y = 0" by blast
  from reaped_single [OF s(2,3), of fenced "sy_now y" "sy_ctl y"] s(1,4) reap_decide(2) [of u] show ?case
    by (auto simp: single_ok_def reap_settle_does warmers_def split: option.splits)
qed (simp | (erule meta_allE [where x = u], erule single_same, simp_all add: warmers_def get_inst_gauge_steps))+

lemma ctl_steps_single:
  assumes "(ctl_step False)\<^sup>*\<^sup>* y0 y" and "initial cfg y0"
  shows "single_ok y u"
  using assms
proof (induction arbitrary: u rule: rtranclp_induct)
  case base
  then have "sy_ctl y0 = projr (controller_new cfg)" "cc_max_concurrent_warms cfg \<noteq> 0" "cc_reap_interval cfg \<noteq> 0" "cc_idle_timeout cfg \<noteq> 0"
    by (simp_all add: initial_def) (simp_all add: controller_new_def split: if_splits)
  with base show ?case by (simp add: single_ok_def initial_def controller_new_def get_inst_def warmers_def)
next
  case (step y z)
  then show ?case using ctl_step_single by blast
qed

text \<open>C33. A burst of calls for one cold database triggers one warm-up, as \<^verbatim>\<open>start\<close> promises, as long as nobody calls
  \<^verbatim>\<open>stop\<close>: no two calls warm the same database at a time, one does exactly while the instance is
  warming, and the instance keeps a handle exactly while it is active or idle, so no opened
  database is forgotten in a cold instance.\<close>
theorem one_warm_per_database:
  assumes "(ctl_step False)\<^sup>*\<^sup>* y0 y" and "initial cfg y0"
  shows "warmers url y \<le> 1 \<and>
    (\<forall>s. get_inst url (sy_ctl y) = Some s \<longrightarrow> (warmers url y = 1 \<longleftrightarrow> is_phase s = Warming) \<and> (is_handle s \<noteq> None \<longleftrightarrow> warm_phase (is_phase s)))"
  using ctl_steps_single [OF assms, of url] by (auto simp: single_ok_def split: option.splits if_splits)

section \<open>Calls finish\<close>

fun thread_rank :: "'d thread \<Rightarrow> nat" where
  "thread_rank (TStart url) = 9"
| "thread_rank (TAdmit url) = 8"
| "thread_rank (TAdmitted url) = 7"
| "thread_rank (TEntered url n) = 6"
| "thread_rank (TOpening url) = 5"
| "thread_rank (TOpened url r) = 4"
| "thread_rank (TLeft url r) = 3"
| "thread_rank (TReleased url r) = 2"
| "thread_rank (TSettle url r) = 1"

definition call_rank :: "'d system \<Rightarrow> nat" where
  "call_rank y = (\<Sum>t\<in>#sy_threads y. thread_rank t)"

lemma call_rank_advance:
  assumes "t \<in># sy_threads y" and "(\<Sum>t\<in>#ts. thread_rank t) < thread_rank t" and "sy_threads y' = sy_threads y - {#t#} + ts"
  shows "call_rank y' < call_rank y"
proof -
  obtain N where "sy_threads y = add_mset t N" using multi_member_split [OF assms(1)] by blast
  with assms(2,3) show ?thesis by (simp add: call_rank_def)
qed

lemma rank_step:
  assumes "ctl_step stops y y'" and "t \<in># sy_threads y" and "(\<Sum>t\<in>#ts. thread_rank t) < thread_rank t" and "sy_threads y' = sy_threads y - {#t#} + ts"
  shows "\<exists>y'. ctl_step stops y y' \<and> call_rank y' < call_rank y"
  using assms(1) call_rank_advance [OF assms(2-)] by blast

lemma warmer_steps:
  assumes "t \<in># sy_threads y" and "warming_url t \<noteq> None" and "\<nexists>url. t = TAdmit url"
  shows "\<exists>y'. ctl_step stops y y' \<and> call_rank y' < call_rank y"
proof (cases t)
  case (TAdmitted url)
  have "ctl_step stops y (advance (TAdmitted url) {#TEntered url (fst (warm_enter 0 (sy_ctl y)))#} (snd (warm_enter 0 (sy_ctl y))) y)"
    using assms(1) TAdmitted by (intro ctl_step.enter) auto
  from rank_step [OF this, where t = t and ts = "{#TEntered url (fst (warm_enter 0 (sy_ctl y)))#}"] assms(1) TAdmitted show ?thesis by simp
next
  case (TEntered url n)
  show ?thesis
    using rank_step [OF ctl_step.peak [of url n y stops], of "TEntered url n" "{#TOpening url#}"] assms(1) TEntered by simp
next
  case (TOpening url)
  show ?thesis
    using rank_step [OF ctl_step.opened [of url y stops undefined], of "TOpening url" "{#TOpened url undefined#}"] assms(1) TOpening by simp
next
  case (TOpened url r)
  show ?thesis
    using rank_step [OF ctl_step.leave [of url r y stops], of "TOpened url r" "{#TLeft url r#}"] assms(1) TOpened by simp
next
  case (TLeft url r)
  show ?thesis
    using rank_step [OF ctl_step.release [of url r y stops], of "TLeft url r" "{#TReleased url r#}"] assms(1) TLeft by simp
next
  case (TReleased url r)
  show ?thesis
    using rank_step [OF ctl_step.counted [of url r y stops], of "TReleased url r" "{#TSettle url r#}"] assms(1) TReleased by simp
next
  case (TSettle url r)
  show ?thesis
  proof (cases r)
    case (Inl e)
    then show ?thesis using rank_step [OF ctl_step.settle_err [of url e y stops], of t "{#}"] assms(1) TSettle by simp
  next
    case (Inr db)
    then show ?thesis using rank_step [OF ctl_step.settle_ok [of url db y stops], of t "{#}"] assms(1) TSettle by simp
  qed
qed (use assms in auto)

lemma waiting_steps:
  assumes "admission_ok cfg y" and "instances_ok y" and "cc_max_concurrent_warms cfg \<noteq> 0" and "t \<in># sy_threads y"
    and "\<forall>t\<in>#sy_threads y. \<exists>url. t = TStart url \<or> t = TAdmit url"
  shows "\<exists>y'. ctl_step stops y y' \<and> call_rank y' < call_rank y"
proof (cases "\<exists>url. TAdmit url \<in># sy_threads y")
  case True
  then obtain url where url: "TAdmit url \<in># sy_threads y" by blast
  have "size (filter_mset holds_permit (sy_threads y)) = 0" using assms(5) by auto
  with assms(1,3) have "ct_permits (sy_ctl y) \<noteq> 0" unfolding admission_ok_def by linarith
  then have "ctl_step stops y (advance (TAdmit url) {#TAdmitted url#} ((sy_ctl y)\<lparr>ct_permits := ct_permits (sy_ctl y) - 1\<rparr>) y)"
    using url by (intro ctl_step.admit) (simp_all add: sem_acquire_def)
  from rank_step [OF this url, of "{#TAdmitted url#}"] show ?thesis by simp
next
  case False
  with assms(5) have starts: "\<forall>t\<in>#sy_threads y. \<exists>url. t = TStart url" by metis
  obtain url where "t = TStart url" using bspec [OF starts assms(4)] by blast
  with assms(4) have url: "TStart url \<in># sy_threads y" by simp
  from instance_exists [OF assms(2)] url obtain s where s: "get_inst url (sy_ctl y) = Some s" "inst_ok y url s" by blast
  have "warmers url y = 0" using starts by (auto simp: warmers_def)
  with s(2) have phase: "warm_phase (is_phase s) \<and> is_handle s \<noteq> None \<or> is_phase s = Cold" by (cases "is_phase s") (auto simp: inst_ok_def warm_phase_def)
  obtain r c where r: "start_section url (sy_now y) (sy_ctl y) = (r, c)" by (metis prod.exhaust)
  from phase have "(\<exists>db. r = Leased db) \<or> r = MustWarm"
  proof
    assume "warm_phase (is_phase s) \<and> is_handle s \<noteq> None"
    then obtain db where "is_handle s = Some db" "is_phase s \<in> {Active, Idle}" by (auto simp: warm_phase_def)
    with r s(1) show ?thesis by (auto simp: start_section_def case_prod_beta)
  next
    assume "is_phase s = Cold"
    with r s(1) show ?thesis by (auto simp: start_section_def)
  qed
  then consider db where "r = Leased db" | "r = MustWarm" by blast
  then show ?thesis
  proof cases
    case 1
    then show ?thesis using rank_step [OF ctl_step.start_leased [of url y db c stops], of "TStart url" "{#}"] url r by simp
  next
    case 2
    then show ?thesis using rank_step [OF ctl_step.start_warms [of url y c stops], of "TStart url" "{#TAdmit url#}"] url r by simp
  qed
qed

lemma some_call_steps:
  assumes "admission_ok cfg y" and "instances_ok y" and "cc_max_concurrent_warms cfg \<noteq> 0" and "sy_threads y \<noteq> {#}"
  shows "\<exists>y'. ctl_step stops y y' \<and> call_rank y' < call_rank y"
proof (cases "\<exists>t\<in>#sy_threads y. warming_url t \<noteq> None \<and> (\<nexists>url. t = TAdmit url)")
  case True
  then show ?thesis using warmer_steps by blast
next
  case False
  have "\<exists>url. t = TStart url \<or> t = TAdmit url" if "t \<in># sy_threads y" for t
    using False that by (cases t) force+
  moreover obtain t where "t \<in># sy_threads y" using assms(4) by blast
  ultimately show ?thesis using waiting_steps [OF assms(1-3)] by blast
qed

lemma calls_run_out:
  assumes "admission_ok cfg y" and "instances_ok y" and "cc_max_concurrent_warms cfg \<noteq> 0"
  shows "\<exists>y'. (ctl_step stops)\<^sup>*\<^sup>* y y' \<and> sy_threads y' = {#}"
  using assms(1,2)
proof (induction "call_rank y" arbitrary: y rule: less_induct)
  case less
  show ?case
  proof (cases "sy_threads y = {#}")
    case False
    with some_call_steps [OF less(2,3) assms(3)] obtain y' where y': "ctl_step stops y y'" "call_rank y' < call_rank y" by blast
    from less(1) [OF y'(2) ctl_step_admission [OF y'(1) less(2)] ctl_step_instances [OF y'(1) less(3)]] y'(1) show ?thesis
      by (meson converse_rtranclp_into_rtranclp)
  qed blast
qed

lemma initial_admits: "initial cfg y \<Longrightarrow> cc_max_concurrent_warms cfg \<noteq> 0"
  by (auto simp: initial_def controller_new_def split: if_splits)

text \<open>C34. The controller does not deadlock: in every state it can reach, as long as calls of \<^verbatim>\<open>start\<close> are in flight,
  one of them can take a step that brings it closer to its end (nine steps at most per call),
  so the calls in flight can all be finished, whatever the databases do when they are opened.\<close>
theorem start_calls_finish:
  assumes "(ctl_step stops)\<^sup>*\<^sup>* y0 y" and "initial cfg y0"
  shows "(sy_threads y = {#} \<or> (\<exists>y'. ctl_step stops y y' \<and> call_rank y' < call_rank y)) \<and> (\<exists>y'. (ctl_step stops)\<^sup>*\<^sup>* y y' \<and> sy_threads y' = {#})"
  using some_call_steps calls_run_out ctl_steps_inv [OF assms] initial_admits [OF assms(2)] by blast

section \<open>A run\<close>

definition fresh_system :: "controller_config \<Rightarrow> 'd system" where
  "fresh_system cfg = \<lparr>sy_ctl = projr (controller_new cfg), sy_threads = {#}, sy_leases = {#}, sy_reaper = RWait, sy_now = 0\<rparr>"

lemma fresh_initial: "initial controller_config_default (fresh_system controller_config_default)"
  by (simp add: initial_def fresh_system_def controller_new_def controller_config_default_def)

text \<open>What a run about one database looks at: the threads, the free permits, and phase, handle and lease count
  of its instance.\<close>

definition run_at :: "string \<Rightarrow> nat \<Rightarrow> 'd thread multiset \<Rightarrow> lifecycle_state \<Rightarrow> 'd option \<Rightarrow> nat \<Rightarrow> 'd system \<Rightarrow> bool" where
  "run_at url p T ph h n y \<longleftrightarrow> sy_threads y = T \<and> ct_permits (sy_ctl y) = p \<and>
     (\<exists>s. get_inst url (sy_ctl y) = Some s \<and> is_phase s = ph \<and> is_handle s = h \<and> is_active s = n)"

lemma run_first: "\<exists>y. ctl_step stops (fresh_system controller_config_default) (y :: 'd system) \<and> run_at url 16 {#TStart url#} Cold None 0 y"
proof (intro exI conjI)
  let ?y = "fresh_system controller_config_default :: 'd system"
  show "ctl_step stops ?y (?y\<lparr>sy_ctl := get_or_create url (sy_now ?y) (sy_ctl ?y), sy_threads := add_mset (TStart url) (sy_threads ?y)\<rparr>)"
    by (rule ctl_step.call_start)
qed (simp add: run_at_def fresh_system_def controller_new_def controller_config_default_def get_or_create_def get_inst_def put_inst_def)

lemma run_call: "run_at url p T ph h n y \<Longrightarrow> \<exists>y'. ctl_step stops y y' \<and> run_at url p (add_mset (TStart url) T) ph h n y'"
  by (intro exI conjI, rule ctl_step.call_start [of _ _ url]) (auto simp: run_at_def get_or_create_does gaugesD [OF get_or_create_does(2)])

lemma run_warms: "run_at url p (add_mset (TStart url) T) Cold h n y \<Longrightarrow> \<exists>y'. ctl_step stops y y' \<and> run_at url p (add_mset (TAdmit url) T) Warming h n y'"
proof -
  assume y: "run_at url p (add_mset (TStart url) T) Cold h n y"
  obtain r c where r: "start_section url (sy_now y) (sy_ctl y) = (r, c)" by (metis prod.exhaust)
  with y have "r = MustWarm" by (auto simp: run_at_def start_section_def)
  with start_warms_does r have does: "\<exists>s. get_inst url (sy_ctl y) = Some s \<and> is_phase s = Cold \<and> gauges c = gauges (sy_ctl y) \<and>
    (\<forall>u. get_inst u c = (if u = url then Some (to_phase (sy_now y) Warming s) else get_inst u (sy_ctl y)))" by blast
  have "ctl_step stops y (advance (TStart url) {#TAdmit url#} c y)" using y r \<open>r = MustWarm\<close> by (intro ctl_step.start_warms) (auto simp: run_at_def)
  moreover have "run_at url p (add_mset (TAdmit url) T) Warming h n (advance (TStart url) {#TAdmit url#} c y)"
    using does y by (auto simp: run_at_def to_phase_def gauges_def)
  ultimately show ?thesis by blast
qed

lemma run_admit:
  assumes "run_at url (Suc p) (add_mset (TAdmit url) T) ph h n y"
  shows "\<exists>y'. ctl_step stops y y' \<and> run_at url p (add_mset (TAdmitted url) T) ph h n y'"
  by (intro exI conjI, rule ctl_step.admit [of url _ "(sy_ctl y)\<lparr>ct_permits := p\<rparr>"])
    (use assms in \<open>auto simp: run_at_def sem_acquire_def get_inst_def\<close>)

lemma run_enter:
  assumes "run_at url p (add_mset (TAdmitted url) T) ph h n y"
  shows "\<exists>y'. (ctl_step stops)\<^sup>*\<^sup>* y y' \<and> run_at url p (add_mset (TOpening url) T) ph h n y'"
proof -
  obtain cur c where c: "warm_enter 0 (sy_ctl y) = (cur, c)" by (metis prod.exhaust)
  let ?y1 = "advance (TAdmitted url) {#TEntered url cur#} c y"
  have "ctl_step stops y ?y1" using assms by (intro ctl_step.enter [OF _ c]) (simp add: run_at_def)
  moreover have "ctl_step stops ?y1 (advance (TEntered url cur) {#TOpening url#} (warm_peak cur (sy_ctl ?y1)) ?y1)" by (rule ctl_step.peak) simp
  ultimately have "(ctl_step stops)\<^sup>*\<^sup>* y (advance (TEntered url cur) {#TOpening url#} (warm_peak cur (sy_ctl ?y1)) ?y1)" by simp
  moreover have "run_at url p (add_mset (TOpening url) T) ph h n (advance (TEntered url cur) {#TOpening url#} (warm_peak cur (sy_ctl ?y1)) ?y1)"
    using assms c by (auto simp: run_at_def warm_enter_def warm_peak_def get_inst_def Let_def)
  ultimately show ?thesis by blast
qed

lemma run_open:
  assumes "run_at url p (add_mset (TOpening url) T) ph h n y"
  shows "\<exists>y'. (ctl_step stops)\<^sup>*\<^sup>* y y' \<and> run_at url (Suc p) (add_mset (TSettle url r) T) ph h n y'"
proof -
  let ?y1 = "advance (TOpening url) {#TOpened url r#} (sy_ctl y) y"
  let ?y2 = "advance (TOpened url r) {#TLeft url r#} (warm_leave (sy_ctl ?y1)) ?y1"
  let ?y3 = "advance (TLeft url r) {#TReleased url r#} (sem_release (sy_ctl ?y2)) ?y2"
  let ?y4 = "advance (TReleased url r) {#TSettle url r#} (warm_counted r (sy_ctl ?y3)) ?y3"
  have "ctl_step stops y ?y1" using assms by (intro ctl_step.opened) (simp add: run_at_def)
  moreover have "ctl_step stops ?y1 ?y2" by (rule ctl_step.leave) simp
  moreover have "ctl_step stops ?y2 ?y3" by (rule ctl_step.release) simp
  moreover have "ctl_step stops ?y3 ?y4" by (rule ctl_step.counted) simp
  ultimately have "(ctl_step stops)\<^sup>*\<^sup>* y ?y4" by (meson converse_rtranclp_into_rtranclp rtranclp.rtrancl_refl)
  moreover have "run_at url (Suc p) (add_mset (TSettle url r) T) ph h n ?y4"
    using assms by (auto simp: run_at_def warm_leave_def sem_release_def warm_counted_def get_inst_def split: sum.splits)
  ultimately show ?thesis by blast
qed

lemma run_settle:
  assumes "run_at url p (add_mset (TSettle url (Inr db)) T) ph h n y"
  shows "\<exists>y'. ctl_step stops y y' \<and> run_at url p T Active (Some db) (Suc n) y'"
  by (intro exI conjI, rule ctl_step.settle_ok [of url db])
    (use assms in \<open>auto simp: run_at_def settle_warm_does gaugesD [OF settle_warm_does(2)] settled_def lease_now_def to_phase_def\<close>)

lemma run_stop:
  assumes "run_at url p T ph h 0 y"
  shows "\<exists>y'. ctl_step True y y' \<and> run_at url p T Cold None 0 y'"
proof -
  from assms obtain s where "get_inst url (sy_ctl y) = Some s" "is_active s = 0" by (auto simp: run_at_def)
  then have "get_inst url (controller_stop url (sy_now y) (sy_ctl y)) = Some (torn_down (sy_now y) s)" by (simp add: controller_stop_does)
  with assms \<open>is_active s = 0\<close> have "run_at url p T Cold None 0 (y\<lparr>sy_ctl := controller_stop url (sy_now y) (sy_ctl y)\<rparr>)"
    by (simp add: run_at_def gaugesD [OF controller_stop_does(2)] torn_down_def to_phase_def)
  with ctl_step.stop [OF TrueI] show ?thesis by blast
qed

lemma run_fail:
  assumes "run_at url p (add_mset (TSettle url (Inl e)) T) ph h n y"
  shows "\<exists>y'. ctl_step stops y y' \<and> run_at url p T Cold h n y'"
  by (intro exI conjI, rule ctl_step.settle_err [of url e])
    (use assms in \<open>auto simp: run_at_def settle_warm_does gaugesD [OF settle_warm_does(2)] settled_def to_phase_def\<close>)

definition run_to :: "bool \<Rightarrow> string \<Rightarrow> nat \<Rightarrow> 'd thread multiset \<Rightarrow> lifecycle_state \<Rightarrow> 'd option \<Rightarrow> nat \<Rightarrow> bool" where
  "run_to stops url p T ph h n \<longleftrightarrow> (\<exists>y. (ctl_step stops)\<^sup>*\<^sup>* (fresh_system controller_config_default) y \<and> run_at url p T ph h n y)"

lemma run_to_step:
  assumes "run_to stops url p T ph h n" and "\<And>y. run_at url p T ph h n y \<Longrightarrow> \<exists>y'. ctl_step stops y y' \<and> run_at url p' T' ph' h' n' y'"
  shows "run_to stops url p' T' ph' h' n'"
  using assms unfolding run_to_def by (meson rtranclp.rtrancl_into_rtrancl)

lemma run_to_steps:
  assumes "run_to stops url p T ph h n" and "\<And>y. run_at url p T ph h n y \<Longrightarrow> \<exists>y'. (ctl_step stops)\<^sup>*\<^sup>* y y' \<and> run_at url p' T' ph' h' n' y'"
  shows "run_to stops url p' T' ph' h' n'"
  using assms unfolding run_to_def by (meson rtranclp_trans)

lemma opening_run: "run_to stops url 15 {#TOpening url#} Warming (None :: 'd option) 0"
proof -
  obtain y :: "'d system" where "ctl_step stops (fresh_system controller_config_default) y" "run_at url 16 {#TStart url#} Cold None 0 y" using run_first by blast
  then have "run_to stops url (Suc 15) {#TStart url#} Cold (None :: 'd option) 0" unfolding run_to_def by (auto intro!: exI [of _ y])
  then have "run_to stops url (Suc 15) {#TAdmit url#} Warming (None :: 'd option) 0" by (rule run_to_step) (rule run_warms)
  then have "run_to stops url 15 {#TAdmitted url#} Warming (None :: 'd option) 0" by (rule run_to_step) (rule run_admit)
  then show ?thesis by (rule run_to_steps) (rule run_enter)
qed

lemma lease_run: "run_to stops url 16 {#} Active (Some db) 1"
proof -
  have "run_to stops url (Suc 15) {#TSettle url (Inr db)#} Warming None 0" by (rule run_to_steps [OF opening_run]) (rule run_open)
  then have "run_to stops url (Suc 15) {#} Active (Some db) (Suc 0)" by (rule run_to_step) (rule run_settle)
  then show ?thesis by simp
qed

lemma second_warm_run: "run_to True url 14 {#TOpening url, TOpening url#} Warming None 0"
proof -
  have "run_to True url (Suc 14) {#TOpening url#} Cold None 0" using run_to_step [OF opening_run run_stop] by simp
  then have "run_to True url (Suc 14) {#TStart url, TOpening url#} Cold None 0" by (rule run_to_step) (rule run_call)
  then have "run_to True url (Suc 14) {#TAdmit url, TOpening url#} Warming None 0" by (rule run_to_step) (rule run_warms)
  then have "run_to True url 14 {#TAdmitted url, TOpening url#} Warming None 0" by (rule run_to_step) (rule run_admit)
  then show ?thesis by (rule run_to_steps) (rule run_enter)
qed

lemma failed_second_run: "run_to True url 16 {#} Cold (Some db) 1"
proof -
  have "run_to True url (Suc 14) {#TSettle url (Inr db), TOpening url#} Warming None 0" by (rule run_to_steps [OF second_warm_run]) (rule run_open)
  then have "run_to True url (Suc 14) {#TOpening url#} Active (Some db) (Suc 0)" by (rule run_to_step) (rule run_settle)
  then have "run_to True url (Suc (Suc 14)) {#TSettle url (Inl ErrMisuse)#} Active (Some db) (Suc 0)" by (rule run_to_steps) (rule run_open)
  then have "run_to True url (Suc (Suc 14)) {#} Cold (Some db) (Suc 0)" by (rule run_to_step) (rule run_fail)
  then show ?thesis by simp
qed

text \<open>\<^verbatim>\<open>stop\<close> does not look at the phase: called while a database is warming it makes the instance cold, and the
  next \<^verbatim>\<open>start\<close> warms it a second time beside the first.  When the second opening then fails, the
  instance is left cold with the first one's handle and its outstanding lease, against the
  promise of one warm-up and the comment that a failed warm returns cleanly to cold.\<close>
theorem stop_breaks_single_warm:
  "(\<exists>y. (ctl_step True)\<^sup>*\<^sup>* (fresh_system controller_config_default) (y :: 'd system) \<and> sy_threads y = {#TOpening url, TOpening url#} \<and> warmers url y = 2) \<and>
   (\<exists>y. (ctl_step True)\<^sup>*\<^sup>* (fresh_system controller_config_default) (y :: 'd system) \<and> sy_threads y = {#} \<and>
     controller_status url (sy_ctl y) = Some Cold \<and> map_option is_handle (get_inst url (sy_ctl y)) = Some (Some db) \<and> lease_count url y = 1)"
proof
  from second_warm_run [of url] obtain y :: "'d system" where "(ctl_step True)\<^sup>*\<^sup>* (fresh_system controller_config_default) y"
    "run_at url 14 {#TOpening url, TOpening url#} Warming None 0 y" unfolding run_to_def by blast
  then show "\<exists>y. (ctl_step True)\<^sup>*\<^sup>* (fresh_system controller_config_default) (y :: 'd system) \<and> sy_threads y = {#TOpening url, TOpening url#} \<and> warmers url y = 2"
    by (auto simp: run_at_def warmers_def)
  from failed_second_run [of url db] obtain y where y: "(ctl_step True)\<^sup>*\<^sup>* (fresh_system controller_config_default) y" "run_at url 16 {#} Cold (Some db) 1 y"
    unfolding run_to_def by blast
  have "lease_count url y = 1" using ctl_steps_inv [OF y(1) fresh_initial] y(2) by (auto simp: run_at_def instances_ok_def inst_ok_def)
  with y show "\<exists>y. (ctl_step True)\<^sup>*\<^sup>* (fresh_system controller_config_default) (y :: 'd system) \<and> sy_threads y = {#} \<and>
     controller_status url (sy_ctl y) = Some Cold \<and> map_option is_handle (get_inst url (sy_ctl y)) = Some (Some db) \<and> lease_count url y = 1"
    by (auto simp: run_at_def controller_status_def)
qed

theorem controller_invariant_witness:
  "\<exists>y :: nat system. sy_threads y = {#TOpening ''db'', TOpening ''db''#} \<and> ct_peak_warms (sy_ctl y) \<le> 16 \<and> size (filter_mset holds_permit (sy_threads y)) \<le> 16"
proof -
  from second_warm_run [of "''db''"] obtain y :: "nat system" where y: "(ctl_step True)\<^sup>*\<^sup>* (fresh_system controller_config_default) y"
    "run_at ''db'' 14 {#TOpening ''db'', TOpening ''db''#} Warming None 0 y" unfolding run_to_def by blast
  from controller_invariant [OF y(1) fresh_initial] y(2) show ?thesis by (auto simp: run_at_def controller_config_default_def)
qed

theorem one_warm_per_database_witness: "\<exists>y :: nat system. sy_threads y = {#TOpening ''db''#} \<and> warmers ''db'' y \<le> 1"
proof -
  from opening_run [of False "''db''"] obtain y :: "nat system" where y: "(ctl_step False)\<^sup>*\<^sup>* (fresh_system controller_config_default) y"
    "run_at ''db'' 15 {#TOpening ''db''#} Warming None 0 y" unfolding run_to_def by blast
  from one_warm_per_database [OF y(1) fresh_initial] y(2) show ?thesis by (auto simp: run_at_def)
qed

theorem start_calls_finish_witness:
  "\<exists>y y' :: nat system. sy_threads y = {#TOpening ''db'', TOpening ''db''#} \<and> (ctl_step True)\<^sup>*\<^sup>* y y' \<and> sy_threads y' = {#}"
proof -
  from second_warm_run [of "''db''"] obtain y :: "nat system" where y: "(ctl_step True)\<^sup>*\<^sup>* (fresh_system controller_config_default) y"
    "run_at ''db'' 14 {#TOpening ''db'', TOpening ''db''#} Warming None 0 y" unfolding run_to_def by blast
  from start_calls_finish [OF y(1) fresh_initial] y(2) show ?thesis by (auto simp: run_at_def)
qed

theorem leases_pin_instances_witness:
  "\<exists>y y' :: nat system. ctl_step True y y' \<and> sy_ctl y' = controller_stop ''db'' (sy_now y) (sy_ctl y) \<and> lease_count ''db'' y = 1 \<and>
     (\<exists>s'. get_inst ''db'' (sy_ctl y') = Some s' \<and> ((\<exists>db. is_handle s' = Some db) \<or> (\<exists>urls. sy_reaper y = RSettle ''db'' True urls)))"
proof -
  from lease_run [of True "''db''" "7 :: nat"] obtain y :: "nat system" where y: "(ctl_step True)\<^sup>*\<^sup>* (fresh_system controller_config_default) y" "run_at ''db'' 16 {#} Active (Some 7) 1 y"
    unfolding run_to_def by blast
  from y(2) obtain s where s: "get_inst ''db'' (sy_ctl y) = Some s" "is_handle s = Some 7" "is_active s = 1" unfolding run_at_def by blast
  have "inst_ok y ''db'' s" using ctl_steps_inv [OF y(1) fresh_initial] s(1) by (simp add: instances_ok_def)
  with s(3) have leased: "lease_count ''db'' y = 1" by (simp add: inst_ok_def)
  let ?y' = "y\<lparr>sy_ctl := controller_stop ''db'' (sy_now y) (sy_ctl y)\<rparr>"
  have step: "ctl_step True y ?y'" by (rule ctl_step.stop) simp
  from leases_pin_instances [OF y(1) fresh_initial step s(1)] leased s(2) obtain s' where s': "get_inst ''db'' (sy_ctl ?y') = Some s'"
    "is_handle s' = None \<longrightarrow> (\<exists>urls. sy_reaper y = RSettle ''db'' True urls)" by auto
  then have "(\<exists>db. is_handle s' = Some db) \<or> (\<exists>urls. sy_reaper y = RSettle ''db'' True urls)" by (cases "is_handle s'") simp_all
  moreover have "sy_ctl ?y' = controller_stop ''db'' (sy_now y) (sy_ctl y)" by simp
  ultimately have "ctl_step True y ?y' \<and> sy_ctl ?y' = controller_stop ''db'' (sy_now y) (sy_ctl y) \<and> lease_count ''db'' y = 1 \<and>
     (\<exists>s'. get_inst ''db'' (sy_ctl ?y') = Some s' \<and> ((\<exists>db. is_handle s' = Some db) \<or> (\<exists>urls. sy_reaper y = RSettle ''db'' True urls)))"
    using step leased s'(1) by metis
  then show ?thesis by blast
qed

end
