(* ===== verification/Spec2Isabelle.thy ===== *)
theory Spec2Isabelle
  imports Branch_Storage Dml_Safety Query_Termination Query_Algebra Parser_Total Scalar_Funcs Controller
begin

text \<open>
  \<^bold>\<open>Twill DB: a verification of its storage layer, its MVCC store, its commit path and its SQL executor.\<close>

  \<^bold>\<open>The program.\<close>  Twill DB is an embeddable SQL engine over a pluggable storage seam.  A
  \<^emph>\<open>connection\<close> (\<^verbatim>\<open>engine/src/conn.rs\<close>) runs statements against one shared \<^emph>\<open>database\<close>
  (\<^verbatim>\<open>db.rs\<close>): a multi-version table store (\<^verbatim>\<open>store.rs\<close>), a single write lane and a group
  committer (\<^verbatim>\<open>group_commit.rs\<close>).  A transaction writes pending row versions under the lane
  and buffers its logical operations; at commit it queues the encoded operations
  (\<^verbatim>\<open>wal.rs\<close>), one member leads, appends the records of a whole batch through the
  \<^verbatim>\<open>Storage\<close> trait (\<^verbatim>\<open>storage/src/lib.rs\<close>) and publishes each member at the LSN of its
  commit marker.  Opening a database replays the durable log into an empty store.  The seam
  has three implementations: one CRC-framed file (\<^verbatim>\<open>local.rs\<close>), a log of conditional object
  writes (\<^verbatim>\<open>object/mod.rs\<close>) and a copy-on-write overlay of two backends (\<^verbatim>\<open>branch.rs\<close>).

  \<^bold>\<open>Theories and sources.\<close>

  \<^item> \<^verbatim>\<open>Twill_Prelude\<close>: bytes, little-endian integers, byte readers, association lists for
    the hash and tree maps, ASCII case folding, UTF-8, decimal rendering; the locale of a
    reader that inverts an encoder.
  \<^item> \<^verbatim>\<open>Crc32\<close>: the table-driven checksum of \<^verbatim>\<open>local.rs\<close> and \<^verbatim>\<open>object/codec.rs\<close> equals
    the bitwise polynomial, and a changed byte changes it.
  \<^item> \<^verbatim>\<open>Storage_Types\<close> (\<^verbatim>\<open>types.rs\<close>, \<^verbatim>\<open>lib.rs\<close>): the types of the seam, the record of its
    operations and the locale \<open>wal_storage\<close>, the append and scan contract every backend keeps
    and every client uses.  \<^verbatim>\<open>Append_Faults\<close>: the locale \<open>wal_faults\<close> adds what an append that
    failed without touching the medium leaves behind.
  \<^item> \<^verbatim>\<open>Local_Log\<close>, \<^verbatim>\<open>Local_Storage\<close> (\<^verbatim>\<open>local.rs\<close>): frames, header, the scan that stops at
    the first damaged frame; every operation of \<^verbatim>\<open>LocalFileStorage\<close> over a file whose system
    calls may fail or write a prefix.  \<^verbatim>\<open>Local_Correct\<close>: the memory state is the replay of
    the file, crash atomicity, acknowledged operations survive.  \<^verbatim>\<open>Local_Contract\<close>: page
    reads, fencing, the invariant of every handle over any file contents and any failing
    calls, the interpretations of the two locales, and two inputs on which durability fails.
  \<^item> \<^verbatim>\<open>Object_Codec\<close> (\<^verbatim>\<open>codec.rs\<close>), \<^verbatim>\<open>Object_Store\<close> (\<^verbatim>\<open>store.rs\<close>, \<^verbatim>\<open>mem.rs\<close>,
    \<^verbatim>\<open>binding.rs\<close>, \<^verbatim>\<open>fault.rs\<close>), \<^verbatim>\<open>Object_Names\<close>, \<^verbatim>\<open>Object_Storage\<close> and \<^verbatim>\<open>Object_Log\<close>
    (\<^verbatim>\<open>object/mod.rs\<close>), \<^verbatim>\<open>Object_Contract\<close>: encodings and their round trips, the object
    client as a locale with its in-process and faulty instances, the commit log as a sequence
    of create-if-absent slots, the lease, and the interpretations of \<open>wal_storage\<close> and \<open>wal_faults\<close>.
  \<^item> \<^verbatim>\<open>Branch_Storage\<close> (\<^verbatim>\<open>branch.rs\<close>): the overlay over any two backends of the seam.
  \<^item> \<^verbatim>\<open>Engine_Types\<close> (\<^verbatim>\<open>error.rs\<close>, \<^verbatim>\<open>value.rs\<close>, \<^verbatim>\<open>catalog.rs\<close>, the data types of
    \<^verbatim>\<open>sql.rs\<close> that the log carries), \<^verbatim>\<open>Wal_Codec\<close> (\<^verbatim>\<open>wal.rs\<close>): the log's operations and
    their encoding, older encodings included.
  \<^item> \<^verbatim>\<open>Mvcc_Store\<close> (\<^verbatim>\<open>store.rs\<close> and the write primitives of \<^verbatim>\<open>exec.rs\<close>) and
    \<^verbatim>\<open>Mvcc_Isolation\<close>: tables as lists of stamped versions, visibility, finalize, rollback,
    savepoints, vacuum, schema changes; snapshot isolation over a step relation.
  \<^item> \<^verbatim>\<open>Engine_Db\<close> (\<^verbatim>\<open>db.rs\<close>), \<^verbatim>\<open>Group_Commit\<close> (\<^verbatim>\<open>group_commit.rs\<close>),
    \<^verbatim>\<open>Pending_Rows\<close>, \<^verbatim>\<open>Recovery\<close>, \<^verbatim>\<open>Crash_Recovery\<close>: replay, the leader's loop, the
    commit path as interleaved critical sections (\<open>sys_step\<close>), and that replay of the durable
    log after a stop at any point rebuilds the committed rows.  It is proved once in
    \<open>wal_faults\<close> and read off for the file and the object backend.
  \<^item> \<^verbatim>\<open>Conn_Ddl\<close>, \<^verbatim>\<open>Conn_Txn\<close> (\<^verbatim>\<open>conn.rs\<close>): every schema statement, and the
    connection's transaction state machine over any statement executor (locale \<open>sql_front\<close>,
    interpreted on the engine's own paths).
  \<^item> \<^verbatim>\<open>Value_Ops\<close> (\<^verbatim>\<open>value.rs\<close>), \<^verbatim>\<open>Sql_Expr\<close> (the evaluator of \<^verbatim>\<open>exec.rs\<close>):
    values with the bit-level meaning of the integer and float casts, comparison and coercion;
    every expression form, three-valued logic, \<^verbatim>\<open>LIKE\<close>, aggregates.
  \<^item> \<^verbatim>\<open>Exec_Dml\<close>, \<^verbatim>\<open>Dml_Correct\<close>, \<^verbatim>\<open>Dml_Safety\<close> (the write statements of
    \<^verbatim>\<open>exec.rs\<close>): \<^verbatim>\<open>INSERT\<close>, \<^verbatim>\<open>UPDATE\<close>, \<^verbatim>\<open>DELETE\<close> with constraints,
    \<^verbatim>\<open>RETURNING\<close> and row-level security, each returning the store it leaves behind; keys stay
    unique over concurrent transactions (\<open>dml_step\<close>), added rows are validated, policies
    confine updates and deletes, and what succeeds is logged.
  \<^item> \<^verbatim>\<open>Sql_Query\<close>, \<^verbatim>\<open>Relational\<close> (the query side of \<^verbatim>\<open>exec.rs\<close> and the query syntax of
    \<^verbatim>\<open>sql.rs\<close>): joins, grouping, ordering, set operations, the single-table path with its
    nearest-neighbour plan; views, common table expressions and subqueries, folded once or per
    outer row.  \<open>engine_env\<close> gives the write statements these queries.
  \<^item> \<^verbatim>\<open>Query_Depth\<close>, \<^verbatim>\<open>Query_Overflow\<close>, \<^verbatim>\<open>Query_Termination\<close>: which queries a query
    evaluates below itself, that nothing else can exhaust the stack, that acyclic views make
    every query end, that the engine's check keeps views acyclic as long as no view definition
    starts with \<^verbatim>\<open>WITH\<close>, and the view with \<^verbatim>\<open>WITH\<close> on which it fails.
  \<^item> \<^verbatim>\<open>Query_Isolation\<close>: evaluation reads the store through the scans only; rows the
    policies hide do not show, and a query on its snapshot is repeatable unless it is a
    nearest-neighbour search, which reads the index as it is now.
  \<^item> \<^verbatim>\<open>Query_Algebra\<close>: joins, set operations, grouping and \<^verbatim>\<open>ORDER BY\<close> against their
    definitions in the relational algebra.
  \<^item> \<^verbatim>\<open>Sql_Text\<close>, \<^verbatim>\<open>Sql_Lexer\<close> (\<^verbatim>\<open>lex.rs\<close>), \<^verbatim>\<open>Parser_Core\<close>, \<^verbatim>\<open>Sql_Parser\<close>,
    \<^verbatim>\<open>Sql_Statements\<close> (\<^verbatim>\<open>sql.rs\<close>), \<^verbatim>\<open>Parser_Total\<close>: tokens and the text of captured expressions; the
    recursive-descent parser as functions from a cursor to a value and a cursor, one per method; that
    rendered tokens are read back, and that the parser returns on every text (the locale \<open>parsers\<close> is what
    the recursive calls promise, interpreted on the parser of every depth).
  \<^item> \<^verbatim>\<open>Datetime\<close> (\<^verbatim>\<open>datetime.rs\<close>): date arithmetic against the Gregorian calendar, timestamps
    printed and parsed back, truncation.
  \<^item> \<^verbatim>\<open>Json\<close> (\<^verbatim>\<open>json.rs\<close>), \<^verbatim>\<open>Scalar_Funcs\<close> (\<^verbatim>\<open>call_func\<close> of \<^verbatim>\<open>exec.rs\<close>): JSON
    text parsed, written and navigated, with its round trip; every scalar function, and which calls
    panic.  \<open>engine_ops\<close> gives the evaluator these functions.
  \<^item> \<^verbatim>\<open>Controller\<close> (\<^verbatim>\<open>controller/src/lib.rs\<close>): the lifecycle of database instances as
    interleaved critical sections of callers and the reaper (\<open>ctl_step\<close>): admission bounds, lease
    counting, one warm-up per database as long as nobody calls \<^verbatim>\<open>stop\<close>, and no deadlock.

  \<^bold>\<open>State and effects.\<close>  Structs are records, enums datatypes, a handle's mutable state is
  passed and returned.  Errors are \<open>Inl\<close> values; an operation that fails part-way returns the
  state it leaves behind.  System calls and object requests take their outcomes from the
  state, so a theorem over all states covers all failures.  A mutex-protected section is one
  step; a call that has to wait for the write lane returns \<open>None\<close>.  Counters of 64 bits are
  \<open>nat\<close>; a width is kept where the source casts (\<^verbatim>\<open>as u32\<close>, \<^verbatim>\<open>as u8\<close>) or hashes.  The date
  arithmetic and the autoincrement counter are unbounded \<open>int\<close>: years near the ends of the 64-bit
  range and a counter past its largest value are outside the model.  Waiting on a condition
  variable is a guard, so a missing notification would not show.  The statements of
  \<open>host_step\<close> run to their end; the waits inside a commit or a schema change are steps of
  \<open>sys_step\<close> only.

  \<^bold>\<open>Bounds and fuel.\<close>  Loops are structural or carry a termination proof.  The retry loops of
  the object backend (\<open>append_loop\<close>, \<open>acquire_loop\<close>) have the source's own attempt bounds, and
  the leader's loop ends because each round shortens its queue.  Queries recurse on a call stack of given depth and
  fail with \<open>Overflow\<close> below it; \<open>select_terminates\<close> shows a sufficient depth exists and that
  the result does not depend on it.  The parser recurses on a call depth too, which
  \<open>parser_returns\<close> shows the number of tokens suffices for; the bytes of the machine stack are not
  modelled.  Log positions stay below \<open>PENDING\<close>, the
  value the code reserves for uncommitted versions; recovery assumes it.

  \<^bold>\<open>Limits of the recovery theorem.\<close>  \<open>sys_step\<close> has row writes with the conflict check of
  \<^verbatim>\<open>INSERT\<close>, \<^verbatim>\<open>UPDATE\<close> and \<^verbatim>\<open>DELETE\<close>, commits, rollbacks, schema changes, and appends that fail and leave
  the medium untouched.  A statement that fails half way is in it when its transaction is rolled
  back.  Left out is what the program gets wrong or cannot know: \<^verbatim>\<open>COMMIT\<close> after such a statement,
  which publishes rows without records (\<open>failed_insert_leaves_row\<close>); \<^verbatim>\<open>REPLACE\<close> and \<^verbatim>\<open>DO UPDATE\<close> of a
  row another writer is deleting (\<open>replace_steals_delete\<close>); rollback to a savepoint, which can
  keep a delete (\<open>savepoint_leaks_delete\<close>); batches of 4 GiB; a handle of the object backend that
  fell behind its bucket (\<open>object_retry_wrong_lsn\<close>); and an append that reports failure after
  its records reached the medium.

  \<^bold>\<open>Limits of the key theorem.\<close>  \<open>dml_step\<close> has every write statement but
  \<^verbatim>\<open>ON CONFLICT DO UPDATE\<close>, which \<open>upsert_duplicates_key\<close> shows can write a taken key, and
  commit and rollback but not \<^verbatim>\<open>ROLLBACK TO\<close>.

  \<^bold>\<open>Not modelled.\<close>  Decimal printing and parsing of
  floats and floating-point arithmetic (parameters of the evaluator), the vector index
  (floating-point distances; store and planner take its operations as parameters), the C interface, the
  wire server, the command line, benchmarks and conformance tests, and
  the directory-backed object client (file-system calls only).
\<close>

section \<open>From text to rows\<close>

lemma engine_calls_return: "calls_return (base_env (engine_ops fo so) vo (parse_expr so))"
proof -
  have "returns (call_func fo so name args)" for name args
    using call_func_outcomes [of fo so name args] by (auto simp: returns_def)
  moreover have "returns (parse_expr so sql)" for sql
    using parse_expr_returns [of so sql] by (auto simp: returns_def returned_def split: sum.splits)
  ultimately show ?thesis by (simp add: calls_return_def base_env_def funcs_return_def engine_ops_def)
qed

definition select_ends :: "'x query_env \<Rightarrow> 'x knn_ops \<Rightarrow> 'x query_scan \<Rightarrow> select_stmt \<Rightarrow> bool" where
  "select_ends env kn sc q \<longleftrightarrow> (\<exists>n. \<forall>k. run_select env kn sc (n + k) q = run_select env kn sc n q \<and> run_select env kn sc n q \<noteq> Inl Overflow)"

text \<open>From the text of a statement to its rows: parsing ends with a statement or an SQL error, and a parsed
  \<^verbatim>\<open>SELECT\<close>, evaluated with the engine's own parser of stored expressions and its own scalar functions,
  ends as well: on a deep enough call stack it returns rows or an ordinary error, the same on any
  deeper one, if the view definitions mention each other without a cycle.\<close>

theorem sql_text_runs:
  assumes "wf (view_deps collect_select_refs (sc_store sc))"
  shows "case parse_sql so disp sql of
      Inl f \<Rightarrow> f = Raised ErrSql
    | Inr (stmt, params) \<Rightarrow> (case stmt of Select q \<Rightarrow> select_ends (base_env (engine_ops fo so) vo (parse_expr so)) kn sc q | _ \<Rightarrow> True)"
proof -
  have "select_ends (base_env (engine_ops fo so) vo (parse_expr so)) kn sc q" for q
    using run_select_ends [OF assms engine_calls_return, of fo so vo kn q] by (auto simp: select_ends_def ends_at_def)
  then show ?thesis
    using parse_sql_returns [of so disp sql] by (auto simp: returned_def split: sum.splits stmt.splits)
qed

text \<open>\<^verbatim>\<open>SELECT * FROM w\<close>, where \<^verbatim>\<open>w\<close> is a view over a table.\<close>

theorem sql_text_runs_witness:
  "parse_sql example_ops example_disp ''SELECT * FROM w'' = Inr (Select (star_from ''w''), 0) \<and>
   (\<forall>fo vo kn se ps. select_ends (base_env (engine_ops fo example_ops) vo (parse_expr example_ops)) kn (make_scan se view_store 4 None ps) (star_from ''w''))"
proof -
  have p: "parse_sql example_ops example_disp ''SELECT * FROM w'' = Inr (Select (star_from ''w''), 0)" by code_simp
  have "select_ends (base_env (engine_ops fo example_ops) vo (parse_expr example_ops)) kn (make_scan se view_store 4 None ps) (star_from ''w'')" for fo vo kn se ps
    using sql_text_runs [where sc = "make_scan se view_store 4 None ps" and so = example_ops and disp = example_disp and sql = "''SELECT * FROM w''" and fo = fo and vo = vo and kn = kn]
    by (simp add: p make_scan_def view_store_acyclic)
  then show ?thesis using p by blast
qed

end
